(* ===== verification/RS_Prelude.thy ===== *)
theory RS_Prelude
  imports Main "HOL-Library.Word" "HOL-Library.Multiset"
begin

text \<open>
  Shared vocabulary of the development.  C's fixed-width unsigned integers are words
  (\<open>u8\<close> .. \<open>u64\<close>), C's \<open>int\<close> is \<^typ>\<open>int\<close> and a possibly-NULL pointer is an
  \<open>option\<close>: every operation takes the pointers it may be given as options and has an
  equation for \<open>None\<close>, as the source has an early return for NULL.  The theory also holds the
  scan over a fixed array (\<open>first_idx\<close>, the model of
  \<^verbatim>\<open>for (i = 0; i < N; i++) if (P(slots[i])) return i;\<close>), the count of the slots that
  satisfy a predicate, and C strings in fixed buffers (\<open>strncpy\<close>, \<open>strncmp\<close>).
\<close>

unbundle bit_operations_syntax

type_synonym u8 = "8 word"
type_synonym u16 = "16 word"
type_synonym u32 = "32 word"
type_synonym u64 = "64 word"

named_theorems slot_simps "facts about scanning and updating a fixed array of slots"

section \<open>Scanning a fixed array\<close>

primrec first_idx :: "('a \<Rightarrow> bool) \<Rightarrow> 'a list \<Rightarrow> nat option" where
  "first_idx P [] = None"
| "first_idx P (x # xs) = (if P x then Some 0 else map_option Suc (first_idx P xs))"

lemma first_idx_None: "first_idx P xs = None \<longleftrightarrow> (\<forall>x\<in>set xs. \<not> P x)"
  by (induction xs) auto

lemma first_idx_append: "first_idx P (xs @ ys) = (case first_idx P xs of Some i \<Rightarrow> Some i | None \<Rightarrow> map_option (\<lambda>i. length xs + i) (first_idx P ys))"
  by (induction xs; cases "first_idx P ys") (auto split: option.split)

lemma first_idx_Some:
  "first_idx P xs = Some i \<longleftrightarrow> i < length xs \<and> P (xs ! i) \<and> (\<forall>j<i. \<not> P (xs ! j))"
proof (induction xs arbitrary: i)
  case Nil
  then show ?case by simp
next
  case (Cons x xs)
  show ?case
  proof (cases i)
    case 0
    then show ?thesis by (cases "first_idx P xs") simp_all
  next
    case (Suc k)
    have "(\<forall>j<Suc k. \<not> P ((x # xs) ! j)) \<longleftrightarrow> \<not> P x \<and> (\<forall>j<k. \<not> P (xs ! j))"
      by (simp only: All_less_Suc2 nth_Cons_0 nth_Cons_Suc)
    moreover have "first_idx P (x # xs) = Some (Suc k) \<longleftrightarrow> \<not> P x \<and> first_idx P xs = Some k"
      by (cases "first_idx P xs") simp_all
    ultimately show ?thesis by (simp only: Suc Cons.IH nth_Cons_Suc length_Cons Suc_less_eq) blast
  qed
qed

lemma first_idx_SomeD:
  assumes "first_idx P xs = Some i"
  shows first_idx_length: "i < length xs"
    and first_idx_holds: "P (xs ! i)"
    and first_idx_least: "\<And>j. j < i \<Longrightarrow> \<not> P (xs ! j)"
  using assms by (simp_all add: first_idx_Some)

lemma first_idx_exists: "x \<in> set xs \<Longrightarrow> P x \<Longrightarrow> \<exists>i. first_idx P xs = Some i"
  using first_idx_None [of P xs] by (cases "first_idx P xs") auto

lemma first_idx_cong: "(\<And>x. x \<in> set xs \<Longrightarrow> P x = Q x) \<Longrightarrow> first_idx P xs = first_idx Q xs"
  by (induction xs) auto

text \<open>When at most one slot satisfies the predicate, the scan finds that slot.\<close>

lemma first_idx_unique:
  assumes "i < length xs" and "P (xs ! i)"
    and "\<And>j. j < length xs \<Longrightarrow> P (xs ! j) \<Longrightarrow> j = i"
  shows "first_idx P xs = Some i"
proof -
  have "\<not> P (xs ! j)" if "j < i" for j
    using that assms(1) assms(3) [of j] by linarith
  with assms(1,2) show ?thesis by (simp add: first_idx_Some)
qed

section \<open>Counting slots\<close>

definition count_if :: "('a \<Rightarrow> bool) \<Rightarrow> 'a list \<Rightarrow> nat" where
  "count_if P xs = length (filter P xs)"

lemma count_if_simps [simp]:
  "count_if P [] = 0"
  "count_if P (x # xs) = (if P x then Suc (count_if P xs) else count_if P xs)"
  by (simp_all add: count_if_def)

lemma count_if_le: "count_if P xs \<le> length xs"
  by (simp add: count_if_def)

lemma count_if_update:
  "i < length xs \<Longrightarrow>
   count_if P (xs[i := y]) + of_bool (P (xs ! i)) = count_if P xs + of_bool (P y)"
proof (induction xs arbitrary: i)
  case Nil
  then show ?case by simp
next
  case (Cons x xs)
  show ?case
    using Cons.prems Cons.IH [of "i - 1"] by (cases i) auto
qed

lemma count_if_fill [slot_simps]:
  "i < length xs \<Longrightarrow> \<not> P (xs ! i) \<Longrightarrow> P y \<Longrightarrow> count_if P (xs[i := y]) = Suc (count_if P xs)"
  using count_if_update [of i xs P y] by simp

lemma count_if_clear [slot_simps]:
  "i < length xs \<Longrightarrow> P (xs ! i) \<Longrightarrow> \<not> P y \<Longrightarrow> Suc (count_if P (xs[i := y])) = count_if P xs"
  using count_if_update [of i xs P y] by simp

lemma count_if_same [slot_simps]:
  "i < length xs \<Longrightarrow> P (xs ! i) = P y \<Longrightarrow> count_if P (xs[i := y]) = count_if P xs"
  using count_if_update [of i xs P y] by simp

lemma count_if_pos: "i < length xs \<Longrightarrow> P (xs ! i) \<Longrightarrow> 0 < count_if P xs"
  by (auto simp: count_if_def filter_empty_conv intro: nth_mem)

lemma count_if_zero: "count_if P xs = 0 \<longleftrightarrow> (\<forall>x\<in>set xs. \<not> P x)"
  by (auto simp: count_if_def filter_empty_conv)

lemma count_if_full: "count_if P xs = length xs \<longleftrightarrow> (\<forall>x\<in>set xs. P x)"
proof (induction xs)
  case Nil
  then show ?case by simp
next
  case (Cons x xs)
  have "count_if P xs \<noteq> Suc (length xs)"
    using count_if_le [of P xs] by linarith
  with Cons show ?case by auto
qed

text \<open>A table that is not full has a free slot.\<close>

lemma free_slot_exists:
  assumes "count_if P xs < length xs"
  shows "\<exists>i. first_idx (\<lambda>x. \<not> P x) xs = Some i"
proof -
  from assms have "\<not> (\<forall>x\<in>set xs. P x)" by (metis count_if_full less_irrefl)
  then show ?thesis using first_idx_exists [of _ xs "\<lambda>x. \<not> P x"] by auto
qed

lemma count_if_replicate [simp]: "count_if P (replicate n x) = (if P x then n else 0)"
  by (simp add: count_if_def)

section \<open>Overwriting a prefix of a buffer\<close>

text \<open>\<open>overwrite bs buf\<close>: the bytes \<open>bs\<close> written at offset 0 of \<open>buf\<close>, the rest kept.\<close>

definition overwrite :: "'a list \<Rightarrow> 'a list \<Rightarrow> 'a list" where
  "overwrite bs buf = bs @ drop (length bs) buf"

lemma length_overwrite [simp]: "length bs \<le> length buf \<Longrightarrow> length (overwrite bs buf) = length buf"
  by (simp add: overwrite_def)

lemma take_overwrite [simp]: "n \<le> length bs \<Longrightarrow> take n (overwrite bs buf) = take n bs"
  by (simp add: overwrite_def)

text \<open>\<open>memcpy\<close> of \<open>bs\<close> to offset \<open>off\<close> of a buffer.\<close>

definition write_at :: "nat \<Rightarrow> 'a list \<Rightarrow> 'a list \<Rightarrow> 'a list" where
  "write_at off bs buf = take off buf @ bs @ drop (off + length bs) buf"

lemma length_write_at [simp]:
  "off + length bs \<le> length buf \<Longrightarrow> length (write_at off bs buf) = length buf"
  by (simp add: write_at_def)

lemma nth_write_at:
  "off + length bs \<le> length buf \<Longrightarrow> i < length buf \<Longrightarrow>
   write_at off bs buf ! i = (if off \<le> i \<and> i < off + length bs then bs ! (i - off) else buf ! i)"
  by (auto simp: write_at_def nth_append)

section \<open>C strings\<close>

text \<open>
  The characters before the NUL of a C string are a \<^typ>\<open>string\<close> without NUL.
  \<open>cstr_fit n s\<close> is what a NUL-terminated buffer of \<open>n\<close> bytes holds after
  \<^verbatim>\<open>memset(buf, 0, n); strncpy(buf, s, n - 1)\<close>; \<open>strncmp_eq n s t\<close> is
  \<^verbatim>\<open>strncmp(s, t, n) == 0\<close>.
\<close>

definition cstr_fit :: "nat \<Rightarrow> string \<Rightarrow> string" where
  "cstr_fit n s = take (n - 1) s"

definition strncmp_eq :: "nat \<Rightarrow> string \<Rightarrow> string \<Rightarrow> bool" where
  "strncmp_eq n s t \<longleftrightarrow> take n s = take n t"

lemma strncmp_eq_short:
  "length s < n \<Longrightarrow> length t < n \<Longrightarrow> strncmp_eq n s t \<longleftrightarrow> s = t"
  by (simp add: strncmp_eq_def)

lemma strncmp_eq_fit: "length s < n \<Longrightarrow> strncmp_eq n s t \<longleftrightarrow> s = t"
  by (auto simp: strncmp_eq_def)

lemma cstr_fit_short [simp]: "length s < n \<Longrightarrow> cstr_fit n s = s"
  by (simp add: cstr_fit_def)

lemma length_cstr_fit: "0 < n \<Longrightarrow> length (cstr_fit n s) < n"
  by (simp add: cstr_fit_def min_def) linarith

section \<open>Widening and narrowing words\<close>

lemma unat_ucast_up:
  fixes x :: "'a::len word"
  assumes "LENGTH('a) \<le> LENGTH('b::len)"
  shows "unat (ucast x :: 'b word) = unat x"
proof -
  have "unat x < 2 ^ LENGTH('a)" by (rule unsigned_less)
  also have "\<dots> \<le> 2 ^ LENGTH('b)" using assms by simp
  finally show ?thesis by (simp add: unsigned_ucast_eq take_bit_eq_mod)
qed

lemma unat_bound: "unat (x :: 'a::len word) < 2 ^ LENGTH('a)"
  by (rule unsigned_less)

lemma unat_of_nat_less: "n < 2 ^ LENGTH('a) \<Longrightarrow> unat (of_nat n :: 'a::len word) = n"
  by (simp add: unsigned_of_nat take_bit_eq_mod)

text \<open>A property of every slot survives putting a slot that has it.\<close>

lemma list_all_update: "list_all P es \<Longrightarrow> P v \<Longrightarrow> list_all P (es[i := v])"
  using set_update_subset_insert [of es i v] by (auto simp: list_all_iff)

lemma list_all_at: "list_all P es \<Longrightarrow> i < length es \<Longrightarrow> P (es ! i)"
  by (simp add: list_all_length)

section \<open>Histories of calls and their specification\<close>

text \<open>
  A history runs a list of operations and collects their answers.  \<open>simulation\<close> is the contract under which a
  component refines a specification: related states give the same answers and stay related.
\<close>

fun run_calls :: "('op \<Rightarrow> 's \<Rightarrow> 'o \<times> 's) \<Rightarrow> 'op list \<Rightarrow> 's \<Rightarrow> 'o list \<times> 's" where
  "run_calls f [] s = ([], s)"
| "run_calls f (op # ops) s = (case f op s of (x, s') \<Rightarrow> case run_calls f ops s' of (xs, s'') \<Rightarrow> (x # xs, s''))"

lemma run_calls_append:
  "run_calls f (xs @ ys) s = (case run_calls f xs s of (as, s') \<Rightarrow> case run_calls f ys s' of (bs, s'') \<Rightarrow> (as @ bs, s''))"
  by (induction xs arbitrary: s) (simp_all split: prod.split)

lemma snd_run_calls_append: "snd (run_calls f (xs @ ys) s) = snd (run_calls f ys (snd (run_calls f xs s)))"
  by (simp add: run_calls_append case_prod_beta)

lemma snd_run_calls_Cons: "snd (run_calls f (x # xs) s) = snd (run_calls f xs (snd (f x s)))"
  by (simp add: case_prod_beta)

locale simulation =
  fixes call :: "'op \<Rightarrow> 's \<Rightarrow> 'o \<times> 's"
    and spec :: "'op \<Rightarrow> 't \<Rightarrow> 'o \<times> 't"
    and rel :: "'s \<Rightarrow> 't \<Rightarrow> bool"
    and allowed :: "'op \<Rightarrow> bool"
  assumes step: "rel s t \<Longrightarrow> allowed op \<Longrightarrow> fst (call op s) = fst (spec op t) \<and> rel (snd (call op s)) (snd (spec op t))"
begin

lemma run:
  "rel s t \<Longrightarrow> \<forall>op \<in> set ops. allowed op \<Longrightarrow>
   fst (run_calls call ops s) = fst (run_calls spec ops t) \<and> rel (snd (run_calls call ops s)) (snd (run_calls spec ops t))"
proof (induction ops arbitrary: s t)
  case (Cons op ops)
  have "fst (call op s) = fst (spec op t)" "rel (snd (call op s)) (snd (spec op t))" using step Cons.prems by auto
  with Cons.IH [OF this(2)] Cons.prems(2) show ?case by (simp add: case_prod_beta)
qed simp

end

text \<open>The same contract where what is to come matters: \<open>rel ops\<close> relates states from which the calls \<open>ops\<close> follow (keys
  that are not to repeat, for instance).\<close>

locale trace_simulation =
  fixes call :: "'op \<Rightarrow> 's \<Rightarrow> 'o \<times> 's"
    and spec :: "'op \<Rightarrow> 't \<Rightarrow> 'o \<times> 't"
    and rel :: "'op list \<Rightarrow> 's \<Rightarrow> 't \<Rightarrow> bool"
  assumes trace_step: "rel (op # ops) s t \<Longrightarrow> fst (call op s) = fst (spec op t) \<and> rel ops (snd (call op s)) (snd (spec op t))"
begin

lemma trace_run:
  "rel ops s t \<Longrightarrow> fst (run_calls call ops s) = fst (run_calls spec ops t)
   \<and> rel [] (snd (run_calls call ops s)) (snd (run_calls spec ops t))"
proof (induction ops arbitrary: s t)
  case (Cons op ops)
  have "fst (call op s) = fst (spec op t)" "rel ops (snd (call op s)) (snd (spec op t))"
    using trace_step Cons.prems by auto
  with Cons.IH [OF this(2)] show ?case by (simp add: case_prod_beta)
qed simp

end

text \<open>For tables whose counters may only run so far: \<open>rel n\<close> relates states that have \<open>n\<close> more calls to go.\<close>

locale budget_simulation =
  fixes call :: "'op \<Rightarrow> 's \<Rightarrow> 'o \<times> 's"
    and spec :: "'op \<Rightarrow> 't \<Rightarrow> 'o \<times> 't"
    and rel :: "nat \<Rightarrow> 's \<Rightarrow> 't \<Rightarrow> bool"
    and allowed :: "'op \<Rightarrow> bool"
  assumes step: "rel (Suc n) s t \<Longrightarrow> allowed op \<Longrightarrow> fst (call op s) = fst (spec op t) \<and> rel n (snd (call op s)) (snd (spec op t))"

sublocale budget_simulation \<subseteq> trace: trace_simulation call spec
    "\<lambda>ops s t. rel (length ops + n) s t \<and> (\<forall>op \<in> set ops. allowed op)" for n
  by unfold_locales (use step in auto)

context budget_simulation begin

lemma run:
  "rel (length ops + n) s t \<Longrightarrow> \<forall>op \<in> set ops. allowed op \<Longrightarrow>
   fst (run_calls call ops s) = fst (run_calls spec ops t) \<and> rel n (snd (run_calls call ops s)) (snd (run_calls spec ops t))"
  using trace.trace_run [of ops n s t] by simp

end

end
