(* ===== verification/PQueue.thy ===== *)
theory PQueue
  imports RS_Prelude
begin

text \<open>
  The bounded priority queue of \<^verbatim>\<open>src/src/pqueue\<close>: a binary min-heap in an array of 64 entries,
  and its statistics.  \<open>sift_up\<close> and \<open>sift_down\<close> are the loops of the source over the
  array; the heap order is an invariant of every operation, and the operations implement the interface
  \<open>bounded_pq\<close>, in which a client that pops everything gets the entries in key order.
  The field \<open>count\<close> is a C \<^verbatim>\<open>int\<close> that stays between 0 and 64 and is a \<^typ>\<open>nat\<close> here.
\<close>

section \<open>State\<close>

record 'p pq_entry =
  pq_key :: u64
  pq_data :: "'p option"
  pq_id :: u32

record 'p pq_heap =
  pq_slots :: "'p pq_entry list"
  pq_count :: nat

definition PQ_MAX_SIZE :: nat where "PQ_MAX_SIZE = 64"

definition pq_zero_entry :: "'p pq_entry" where
  "pq_zero_entry = \<lparr>pq_key = 0, pq_data = None, pq_id = 0\<rparr>"

definition pq_heap_create :: "bool \<Rightarrow> 'p pq_heap option" where
  \<comment> \<open>the argument says whether \<open>calloc\<close> succeeds\<close>
  "pq_heap_create mem =
     (if mem then Some \<lparr>pq_slots = replicate PQ_MAX_SIZE pq_zero_entry, pq_count = 0\<rparr> else None)"

definition pq_heap_clear :: "'p pq_heap option \<Rightarrow> 'p pq_heap option" where
  "pq_heap_clear h = map_option (\<lambda>h. h\<lparr>pq_count := 0\<rparr>) h"

definition pq_heap_count :: "'p pq_heap option \<Rightarrow> nat" where
  "pq_heap_count h = (case h of None \<Rightarrow> 0 | Some h \<Rightarrow> pq_count h)"

section \<open>Operations\<close>

function sift_up :: "'p pq_entry list \<Rightarrow> nat \<Rightarrow> 'p pq_entry list" where
  "sift_up data idx =
     (if idx > 0 then
        let parent = (idx - 1) div 2 in
        if pq_key (data ! parent) \<le> pq_key (data ! idx) then data
        else sift_up (data[parent := data ! idx, idx := data ! parent]) parent
      else data)"
  by pat_completeness auto
termination
  by (relation "measure snd") auto

definition sift_smallest :: "'p pq_entry list \<Rightarrow> nat \<Rightarrow> nat \<Rightarrow> nat" where
  "sift_smallest data cnt idx =
     (let l = 2 * idx + 1; r = 2 * idx + 2;
          s = (if l < cnt \<and> pq_key (data ! l) < pq_key (data ! idx) then l else idx)
      in if r < cnt \<and> pq_key (data ! r) < pq_key (data ! s) then r else s)"

lemma sift_smallest_cases:
  "sift_smallest data cnt idx = idx \<or>
   (sift_smallest data cnt idx \<in> {2 * idx + 1, 2 * idx + 2} \<and> sift_smallest data cnt idx < cnt)"
  by (auto simp: sift_smallest_def Let_def)

function sift_down :: "'p pq_entry list \<Rightarrow> nat \<Rightarrow> nat \<Rightarrow> 'p pq_entry list" where
  "sift_down data cnt idx =
     (let smallest = sift_smallest data cnt idx in
      if smallest = idx then data
      else sift_down (data[smallest := data ! idx, idx := data ! smallest]) cnt smallest)"
  by pat_completeness auto
termination
proof (relation "measure (\<lambda>(data, cnt, idx). cnt - idx)")
  fix data :: "'p pq_entry list" and cnt idx x
  assume "x = sift_smallest data cnt idx" and "x \<noteq> idx"
  then show "((data[x := data ! idx, idx := data ! x], cnt, x), data, cnt, idx)
      \<in> measure (\<lambda>(data, cnt, idx). cnt - idx)"
    using sift_smallest_cases [of data cnt idx] by auto
qed simp

declare sift_up.simps [simp del] sift_down.simps [simp del]

fun pq_heap_push :: "'p pq_heap option \<Rightarrow> 'p pq_entry option \<Rightarrow> int \<times> 'p pq_heap option" where
  "pq_heap_push (Some h) (Some e) =
     (if pq_count h \<ge> PQ_MAX_SIZE then (-1, Some h)
      else (0, Some (h\<lparr>pq_slots := sift_up ((pq_slots h)[pq_count h := e]) (pq_count h),
                       pq_count := pq_count h + 1\<rparr>)))"
| "pq_heap_push h _ = (-1, h)"

text \<open>The output pointer is an option too; its content is returned updated.\<close>

fun pq_heap_pop :: "'p pq_heap option \<Rightarrow> 'p pq_entry option \<Rightarrow>
    int \<times> 'p pq_heap option \<times> 'p pq_entry option" where
  "pq_heap_pop (Some h) (Some out) =
     (if pq_count h = 0 then (-1, Some h, Some out)
      else
        let top = pq_slots h ! 0; n = pq_count h - 1 in
        (0,
         Some (if n > 0
               then h\<lparr>pq_slots := sift_down ((pq_slots h)[0 := pq_slots h ! n]) n 0, pq_count := n\<rparr>
               else h\<lparr>pq_count := n\<rparr>),
         Some top))"
| "pq_heap_pop h out = (-1, h, out)"

fun pq_heap_peek :: "'p pq_heap option \<Rightarrow> 'p pq_entry option \<Rightarrow> int \<times> 'p pq_entry option" where
  "pq_heap_peek (Some h) (Some out) =
     (if pq_count h = 0 then (-1, Some out) else (0, Some (pq_slots h ! 0)))"
| "pq_heap_peek _ out = (-1, out)"

section \<open>Heap order\<close>

text \<open>
  \<open>heap_upto n d\<close>: every entry below \<open>n\<close> but the root is no smaller than its parent.
  The loops break it at one index at a time: \<open>heap_up\<close> lets index \<open>i\<close> be smaller than its
  parent, \<open>heap_down\<close> lets it be larger than its children; in both the children of \<open>i\<close>
  are no smaller than the parent of \<open>i\<close>.
\<close>

abbreviation par :: "nat \<Rightarrow> nat" where "par i \<equiv> (i - 1) div 2"

lemma par_less: "0 < i \<Longrightarrow> par i < i"
  by simp

definition heap_upto :: "nat \<Rightarrow> 'p pq_entry list \<Rightarrow> bool" where
  "heap_upto n d \<longleftrightarrow> (\<forall>x. 0 < x \<and> x < n \<longrightarrow> pq_key (d ! par x) \<le> pq_key (d ! x))"

definition heap_up :: "nat \<Rightarrow> 'p pq_entry list \<Rightarrow> nat \<Rightarrow> bool" where
  "heap_up n d i \<longleftrightarrow> (\<forall>x. 0 < x \<and> x < n \<longrightarrow>
     (x \<noteq> i \<longrightarrow> pq_key (d ! par x) \<le> pq_key (d ! x)) \<and>
     (par x = i \<and> 0 < i \<longrightarrow> pq_key (d ! par i) \<le> pq_key (d ! x)))"

definition heap_down :: "nat \<Rightarrow> 'p pq_entry list \<Rightarrow> nat \<Rightarrow> bool" where
  "heap_down n d i \<longleftrightarrow> (\<forall>x. 0 < x \<and> x < n \<longrightarrow>
     (par x \<noteq> i \<longrightarrow> pq_key (d ! par x) \<le> pq_key (d ! x)) \<and>
     (par x = i \<and> 0 < i \<longrightarrow> pq_key (d ! par i) \<le> pq_key (d ! x)))"

lemma heap_root_least:
  assumes "heap_upto n d" and "x < n"
  shows "pq_key (d ! 0) \<le> pq_key (d ! x)"
  using assms(2)
proof (induction x rule: less_induct)
  case (less x)
  show ?case
  proof (cases "x = 0")
    case False
    then have "par x < x" by simp
    with less have "pq_key (d ! 0) \<le> pq_key (d ! par x)" by simp
    also from False less.prems assms(1) have "\<dots> \<le> pq_key (d ! x)" by (simp add: heap_upto_def)
    finally show ?thesis .
  qed simp
qed

lemma heap_up_stop:
  "heap_up n d i \<Longrightarrow> i = 0 \<or> pq_key (d ! par i) \<le> pq_key (d ! i) \<Longrightarrow> heap_upto n d"
  unfolding heap_up_def heap_upto_def by (metis less_irrefl)

lemma heap_up_step:
  assumes h: "heap_up n d i" and i: "0 < i" "i < n" "n \<le> length d"
    and lt: "pq_key (d ! i) < pq_key (d ! par i)"
  shows "heap_up n (d[par i := d ! i, i := d ! par i]) (par i)"
proof -
  let ?d = "d[par i := d ! i, i := d ! par i]"
  have pi: "par i < i" using i by simp
  have at: "?d ! x = (if x = i then d ! par i else if x = par i then d ! i else d ! x)"
    if "x < n" for x using that i pi by (simp add: nth_list_update)
  have "pq_key (?d ! par x) \<le> pq_key (?d ! x)" if x: "0 < x" "x < n" "x \<noteq> par i" for x
  proof -
    have "par x < n" using x by simp
    then show ?thesis
      using h x lt i pi unfolding heap_up_def at [OF x(2)] at [OF \<open>par x < n\<close>]
      by (smt (verit) order.strict_implies_order order_refl order_trans)
  qed
  moreover have "pq_key (?d ! par (par i)) \<le> pq_key (?d ! x)"
    if x: "0 < x" "x < n" "par x = par i" "0 < par i" for x
  proof -
    have lt': "par (par i) < par i" using x(4) by (rule par_less)
    have A: "pq_key (d ! par (par i)) \<le> pq_key (d ! par i)"
      using h x(4) pi i unfolding heap_up_def by (metis less_irrefl order.strict_trans)
    have B: "pq_key (d ! par i) \<le> pq_key (d ! x)" if "x \<noteq> i"
      using h x that unfolding heap_up_def by metis
    have "x \<noteq> par i" using x(3) lt' by (metis less_irrefl)
    then have "?d ! x = (if x = i then d ! par i else d ! x)" using at [OF x(2)] by simp
    moreover have "?d ! par (par i) = d ! par (par i)"
    proof -
      have "par (par i) < n" "par (par i) \<noteq> i" using lt' pi i(2) by linarith+
      with lt' at [of "par (par i)"] show ?thesis by (metis less_irrefl)
    qed
    ultimately show ?thesis using A B order_trans [OF A] by metis
  qed
  ultimately show ?thesis unfolding heap_up_def by blast
qed

lemma sift_up_correct:
  assumes "heap_up n d i" and "i < n" and "n \<le> length d"
  shows "heap_upto n (sift_up d i) \<and> length (sift_up d i) = length d
    \<and> mset (take n (sift_up d i)) = mset (take n d)"
  using assms
proof (induction d i rule: sift_up.induct)
  case (1 d i)
  show ?case
  proof (cases "0 < i \<and> pq_key (d ! i) < pq_key (d ! par i)")
    case False
    then have "sift_up d i = d" by (subst sift_up.simps) (auto simp: Let_def)
    with 1(2) False show ?thesis by (auto simp: not_less intro: heap_up_stop)
  next
    case True
    let ?d = "d[par i := d ! i, i := d ! par i]"
    have eq: "sift_up d i = sift_up ?d (par i)"
      using True by (subst sift_up.simps) (auto simp: Let_def dest: leD)
    have "mset (take n ?d) = mset (take n d)"
      using mset_swap [of i "take n d" "par i"] 1(3,4) True
      by (simp add: take_update_swap)
    moreover have "heap_upto n (sift_up ?d (par i)) \<and> length (sift_up ?d (par i)) = length ?d
        \<and> mset (take n (sift_up ?d (par i))) = mset (take n ?d)"
      using 1(1) [of "par i"] True heap_up_step [OF 1(2) _ 1(3,4)] 1(3,4)
      by (simp add: not_le)
    ultimately show ?thesis by (simp add: eq)
  qed
qed

lemma par_child: "0 < x \<Longrightarrow> par x = i \<Longrightarrow> x = 2 * i + 1 \<or> x = 2 * i + 2"
  by arith

lemma sift_smallest_least:
  "c \<in> {2 * i + 1, 2 * i + 2} \<Longrightarrow> c < n \<Longrightarrow>
   pq_key (d ! sift_smallest d n i) \<le> pq_key (d ! c)"
  by (auto simp: sift_smallest_def Let_def not_less intro: order_trans less_imp_le)

lemma sift_smallest_less:
  "sift_smallest d n i \<noteq> i \<Longrightarrow> pq_key (d ! sift_smallest d n i) < pq_key (d ! i)"
  by (auto simp: sift_smallest_def Let_def split: if_splits)

lemma heap_down_stop:
  assumes h: "heap_down n d i" and "sift_smallest d n i = i"
  shows "heap_upto n d"
  unfolding heap_upto_def
proof (intro allI impI)
  fix x assume x: "0 < x \<and> x < n"
  show "pq_key (d ! par x) \<le> pq_key (d ! x)"
  proof (cases "par x = i")
    case True
    then have "x \<in> {2 * i + 1, 2 * i + 2}" using par_child x by blast
    then show ?thesis using sift_smallest_least [of x i n d] x True assms(2) by simp
  next
    case False
    with h x show ?thesis by (simp add: heap_down_def)
  qed
qed

lemma heap_down_step:
  assumes h: "heap_down n d i" and i: "n \<le> length d" and s: "s = sift_smallest d n i" "s \<noteq> i"
  shows "heap_down n (d[s := d ! i, i := d ! s]) s"
proof -
  let ?d = "d[s := d ! i, i := d ! s]"
  have sc: "s = 2 * i + 1 \<or> s = 2 * i + 2" "s < n"
    using sift_smallest_cases [of d n i] s by auto
  then have ps: "par s = i" "i < s" by auto
  have at: "?d ! x = (if x = i then d ! s else if x = s then d ! i else d ! x)"
    if "x < n" for x using that i ps(2) sc(2) by (simp add: nth_list_update)
  have le: "pq_key (d ! s) \<le> pq_key (d ! i)" using sift_smallest_less s by (metis less_imp_le)
  have up: "pq_key (d ! par i) \<le> pq_key (d ! c)" if "0 < i" "par c = i" "0 < c" "c < n" for c
    using h that by (simp add: heap_down_def)
  have "pq_key (?d ! par x) \<le> pq_key (?d ! x)" if x: "0 < x" "x < n" "par x \<noteq> s" for x
  proof -
    have px: "par x < n" "par x < x" using par_less [OF x(1)] x(2) by linarith+
    consider "x = i" | "x = s" | "x \<noteq> i" "x \<noteq> s" "par x = i" | "x \<noteq> i" "x \<noteq> s" "par x \<noteq> i"
      by blast
    then show ?thesis
    proof cases
      case 1
      then have "?d ! par x = d ! par i" using at [OF px(1)] px ps by simp
      with up [OF _ ps(1)] 1 x sc(2) ps at [OF x(2)] show ?thesis by simp
    next
      case 2
      then show ?thesis using at [OF x(2)] at [OF px(1)] ps le by simp
    next
      case 3
      then have "x \<in> {2 * i + 1, 2 * i + 2}" using par_child x by blast
      with 3 show ?thesis
        using at [OF x(2)] at [OF px(1)] sift_smallest_least [of x i n d] x(2) s(1) by simp
    next
      case 4
      then show ?thesis using at [OF x(2)] at [OF px(1)] x h by (simp add: heap_down_def)
    qed
  qed
  moreover have "pq_key (?d ! par s) \<le> pq_key (?d ! x)"
    if x: "0 < x" "x < n" "par x = s" for x
  proof -
    have "s < x" using par_less [OF x(1)] x(3) by simp
    then have "?d ! x = d ! x" using at [OF x(2)] ps by simp
    moreover have "?d ! par s = d ! s" using at [of i] ps sc by simp
    moreover have "pq_key (d ! par x) \<le> pq_key (d ! x)"
      using h x ps unfolding heap_down_def by (metis less_irrefl)
    then have "pq_key (d ! s) \<le> pq_key (d ! x)" by (simp only: x(3))
    ultimately show ?thesis by simp
  qed
  ultimately show ?thesis unfolding heap_down_def by blast
qed

lemma sift_down_correct:
  assumes "heap_down n d i" and "i < n" and "n \<le> length d"
  shows "heap_upto n (sift_down d n i) \<and> length (sift_down d n i) = length d
    \<and> mset (take n (sift_down d n i)) = mset (take n d)"
  using assms
proof (induction d n i rule: sift_down.induct)
  case (1 d n i)
  let ?s = "sift_smallest d n i"
  let ?d = "d[?s := d ! i, i := d ! ?s]"
  show ?case
  proof (cases "?s = i")
    case True
    then have "sift_down d n i = d" by (subst sift_down.simps) simp
    with 1(2) True show ?thesis by (simp add: heap_down_stop)
  next
    case False
    then have eq: "sift_down d n i = sift_down ?d n ?s" by (subst sift_down.simps) (simp add: Let_def)
    have s: "?s < n" using sift_smallest_cases [of d n i] False by auto
    have "mset (take n ?d) = mset (take n d)"
      using mset_swap [of i "take n d" "?s"] 1(3,4) s by (simp add: take_update_swap)
    moreover have "heap_upto n (sift_down ?d n ?s) \<and> length (sift_down ?d n ?s) = length ?d
        \<and> mset (take n (sift_down ?d n ?s)) = mset (take n ?d)"
      using 1(1) [OF refl False] heap_down_step [OF 1(2,4) refl False] s 1(4) by simp
    ultimately show ?thesis by (simp add: eq)
  qed
qed

section \<open>Invariant and contents\<close>

definition pq_inv :: "'p pq_heap \<Rightarrow> bool" where
  "pq_inv h \<longleftrightarrow> length (pq_slots h) = PQ_MAX_SIZE \<and> pq_count h \<le> PQ_MAX_SIZE
     \<and> heap_upto (pq_count h) (pq_slots h)"

definition pq_contents :: "'p pq_heap \<Rightarrow> 'p pq_entry multiset" where
  "pq_contents h = mset (take (pq_count h) (pq_slots h))"

lemma size_pq_contents: "pq_inv h \<Longrightarrow> size (pq_contents h) = pq_count h"
  by (simp add: pq_inv_def pq_contents_def)

lemma pq_inv_create: "pq_heap_create True = Some h \<Longrightarrow> pq_inv h \<and> pq_contents h = {#}"
  by (auto simp: pq_heap_create_def pq_inv_def pq_contents_def heap_upto_def)

lemma pq_inv_clear: "pq_heap_clear (Some h) = Some h' \<Longrightarrow> pq_inv h \<Longrightarrow> pq_inv h' \<and> pq_contents h' = {#}"
  by (auto simp: pq_heap_clear_def pq_inv_def pq_contents_def heap_upto_def)

lemma pq_push_lemma:
  assumes inv: "pq_inv h" and room: "pq_count h < PQ_MAX_SIZE"
    and d: "d = sift_up ((pq_slots h)[pq_count h := e]) (pq_count h)"
  shows "heap_upto (Suc (pq_count h)) d \<and> length d = PQ_MAX_SIZE
    \<and> mset (take (Suc (pq_count h)) d) = add_mset e (pq_contents h)"
proof -
  let ?n = "pq_count h" and ?d = "(pq_slots h)[pq_count h := e]"
  have "heap_up (Suc ?n) ?d ?n"
    unfolding heap_up_def
  proof (intro allI impI conjI)
    fix x assume x: "0 < x \<and> x < Suc ?n" and "x \<noteq> ?n"
    moreover have "par x < x" using x by (intro par_less) simp
    ultimately show "pq_key (?d ! par x) \<le> pq_key (?d ! x)"
      using inv by (simp add: pq_inv_def heap_upto_def nth_list_update)
  next
    fix x assume "0 < x \<and> x < Suc ?n" and "par x = ?n \<and> 0 < ?n"
    then show "pq_key (?d ! par ?n) \<le> pq_key (?d ! x)" using par_less [of x] by linarith
  qed
  moreover have "mset (take (Suc ?n) ?d) = add_mset e (pq_contents h)"
    using inv room by (simp add: pq_inv_def pq_contents_def take_Suc_conv_app_nth)
  ultimately show ?thesis
    using sift_up_correct [of "Suc ?n" ?d ?n] inv room d by (simp add: pq_inv_def)
qed

lemma pq_pop_lemma:
  assumes inv: "pq_inv h" and ne: "0 < pq_count h"
  shows "\<forall>e \<in># pq_contents h. pq_key (pq_slots h ! 0) \<le> pq_key e"
    and "pq_slots h ! 0 \<in># pq_contents h"
proof -
  show "\<forall>e \<in># pq_contents h. pq_key (pq_slots h ! 0) \<le> pq_key e"
    using inv heap_root_least [of "pq_count h" "pq_slots h"]
    by (auto simp: pq_contents_def pq_inv_def in_set_conv_nth)
  show "pq_slots h ! 0 \<in># pq_contents h"
    using inv ne by (auto simp: pq_contents_def pq_inv_def in_set_conv_nth intro!: exI [of _ 0])
qed

lemma pq_remove_root:
  assumes inv: "pq_inv h" and n: "pq_count h = Suc n" "0 < n"
    and d: "d = sift_down ((pq_slots h)[0 := pq_slots h ! n]) n 0"
  shows "heap_upto n d \<and> length d = PQ_MAX_SIZE
    \<and> add_mset (pq_slots h ! 0) (mset (take n d)) = pq_contents h"
proof -
  let ?s = "pq_slots h" and ?d = "(pq_slots h)[0 := pq_slots h ! n]"
  have len: "n < length ?s" "length ?s = PQ_MAX_SIZE" using inv n by (simp_all add: pq_inv_def)
  have "heap_down n ?d 0"
    unfolding heap_down_def
  proof (intro allI impI conjI)
    fix x assume x: "0 < x \<and> x < n" and "par x \<noteq> 0"
    then show "pq_key (?d ! par x) \<le> pq_key (?d ! x)"
      using inv n by (simp add: pq_inv_def heap_upto_def)
  qed simp
  then have *: "heap_upto n d \<and> length d = length ?s \<and> mset (take n d) = mset (take n ?d)"
    using sift_down_correct [of n ?d 0] n len d by simp
  obtain s0 r where s: "?s = s0 # r" using len by (cases ?s) auto
  obtain m where m: "n = Suc m" using n by (cases n) auto
  have "add_mset s0 (mset (take n ?d)) = pq_contents h"
    using n len by (simp add: pq_contents_def s m take_Suc_conv_app_nth)
  with * len show ?thesis by (simp add: s)
qed

section \<open>The interface\<close>

text \<open>
  What a client of a bounded priority queue relies on: a push fails exactly when the queue is full and
  otherwise adds its entry; a pop fails exactly when the queue is empty and otherwise removes an entry
  with a least key.
\<close>

locale bounded_pq =
  fixes inv :: "'q \<Rightarrow> bool"
    and contents :: "'q \<Rightarrow> 'e multiset"
    and ekey :: "'e \<Rightarrow> 'k::linorder"
    and cap :: nat
    and push :: "'q \<Rightarrow> 'e \<Rightarrow> 'q option"
    and pop :: "'q \<Rightarrow> ('e \<times> 'q) option"
  assumes push_None: "inv q \<Longrightarrow> push q e = None \<longleftrightarrow> size (contents q) \<ge> cap"
    and push_Some: "inv q \<Longrightarrow> push q e = Some q' \<Longrightarrow> inv q' \<and> contents q' = add_mset e (contents q)"
    and pop_None: "inv q \<Longrightarrow> pop q = None \<longleftrightarrow> contents q = {#}"
    and pop_Some: "inv q \<Longrightarrow> pop q = Some (e, q') \<Longrightarrow>
      inv q' \<and> contents q = add_mset e (contents q') \<and> (\<forall>x \<in># contents q. ekey e \<le> ekey x)"
begin

fun drain :: "nat \<Rightarrow> 'q \<Rightarrow> 'e list" where
  "drain 0 q = []"
| "drain (Suc n) q = (case pop q of None \<Rightarrow> [] | Some (e, q') \<Rightarrow> e # drain n q')"

fun push_all :: "'q \<Rightarrow> 'e list \<Rightarrow> 'q option" where
  "push_all q [] = Some q"
| "push_all q (e # es) = (case push q e of None \<Rightarrow> None | Some q' \<Rightarrow> push_all q' es)"

lemma drain_sorted:
  "inv q \<Longrightarrow> size (contents q) = n \<Longrightarrow>
   mset (drain n q) = contents q \<and> sorted (map ekey (drain n q))"
proof (induction n arbitrary: q)
  case 0
  then show ?case by simp
next
  case (Suc n)
  then have "contents q \<noteq> {#}" by auto
  then obtain e q' where p: "pop q = Some (e, q')" using pop_None Suc.prems by fastforce
  note q' = pop_Some [OF Suc.prems(1) p]
  then have "size (contents q') = n" using Suc.prems by simp
  then have IH: "mset (drain n q') = contents q'" "sorted (map ekey (drain n q'))"
    using Suc.IH q' by auto
  from IH(1) have "set (drain n q') = set_mset (contents q')" by (metis set_mset_mset)
  with q' IH p show ?case by auto
qed

lemma push_all_Some:
  "inv q \<Longrightarrow> size (contents q) + length es \<le> cap \<Longrightarrow>
   \<exists>q'. push_all q es = Some q' \<and> inv q' \<and> contents q' = contents q + mset es"
proof (induction es arbitrary: q)
  case Nil
  then show ?case by simp
next
  case (Cons e es)
  then have "push q e \<noteq> None" using push_None by simp
  then obtain q1 where "push q e = Some q1" by blast
  with Cons push_Some [of q e q1] show ?case by fastforce
qed

end

text \<open>The two functions of the interface on the model: the operation, with its return code.\<close>

definition pq_push :: "'p pq_heap \<Rightarrow> 'p pq_entry \<Rightarrow> 'p pq_heap option" where
  "pq_push h e = (case pq_heap_push (Some h) (Some e) of (r, h') \<Rightarrow> if r = 0 then h' else None)"

definition pq_pop :: "'p pq_heap \<Rightarrow> ('p pq_entry \<times> 'p pq_heap) option" where
  "pq_pop h = (case pq_heap_pop (Some h) (Some pq_zero_entry) of
     (r, Some h', Some e) \<Rightarrow> if r = 0 then Some (e, h') else None | _ \<Rightarrow> None)"

interpretation rs_pq: bounded_pq pq_inv pq_contents pq_key PQ_MAX_SIZE pq_push pq_pop
proof (unfold_locales, goal_cases)
  case (1 q e)
  then show ?case by (simp add: pq_push_def size_pq_contents)
next
  case (2 q e q')
  then have room: "pq_count q < PQ_MAX_SIZE" by (simp add: pq_push_def split: if_splits)
  with 2 have q': "q' = q\<lparr>pq_slots := sift_up ((pq_slots q)[pq_count q := e]) (pq_count q),
      pq_count := Suc (pq_count q)\<rparr>" by (simp add: pq_push_def)
  show ?case using pq_push_lemma [OF 2(1) room refl, of e] room
    by (simp add: q' pq_inv_def pq_contents_def)
next
  case (3 q)
  then show ?case using size_pq_contents [OF 3]
    by (auto simp: pq_pop_def Let_def simp flip: size_eq_0_iff_empty)
next
  case (4 q e q')
  then have ne: "0 < pq_count q" by (auto simp: pq_pop_def split: if_splits)
  then obtain n where n: "pq_count q = Suc n" by (cases "pq_count q") auto
  from 4 ne have e: "e = pq_slots q ! 0" by (simp add: pq_pop_def Let_def)
  show ?case
  proof (cases "n = 0")
    case True
    with 4 n ne have "q' = q\<lparr>pq_count := 0\<rparr>" by (simp add: pq_pop_def Let_def)
    moreover have "take (Suc 0) (pq_slots q) = [pq_slots q ! 0]"
      using 4(1) n by (simp add: take_Suc_conv_app_nth pq_inv_def PQ_MAX_SIZE_def)
    ultimately show ?thesis using 4(1) n True e by (auto simp: pq_inv_def pq_contents_def heap_upto_def)
  next
    case False
    then have q': "q' = q\<lparr>pq_slots := sift_down ((pq_slots q)[0 := pq_slots q ! n]) n 0, pq_count := n\<rparr>"
      using 4 n ne by (simp add: pq_pop_def Let_def)
    show ?thesis using pq_remove_root [OF 4(1) n _ refl] pq_pop_lemma(1) [OF 4(1) ne] False 4(1) n e
      by (simp add: q' pq_inv_def pq_contents_def)
  qed
qed

section \<open>Reachable queues and the properties\<close>

text \<open>The states of a queue under any sequence of calls, failed ones included.\<close>

inductive pq_reach :: "'p pq_heap \<Rightarrow> bool" where
  pq_reach_create: "pq_heap_create True = Some h \<Longrightarrow> pq_reach h"
| pq_reach_push: "pq_reach h \<Longrightarrow> pq_heap_push (Some h) e = (r, Some h') \<Longrightarrow> pq_reach h'"
| pq_reach_pop: "pq_reach h \<Longrightarrow> pq_heap_pop (Some h) out = (r, Some h', out') \<Longrightarrow> pq_reach h'"
| pq_reach_clear: "pq_reach h \<Longrightarrow> pq_heap_clear (Some h) = Some h' \<Longrightarrow> pq_reach h'"

lemma pq_push_inv:
  "pq_heap_push (Some h) e = (r, Some h') \<Longrightarrow> pq_inv h \<Longrightarrow> pq_inv h'"
  using rs_pq.push_Some [of h _ h'] by (cases e) (fastforce simp: pq_push_def split: if_splits)+

lemma pq_pop_inv:
  assumes "pq_heap_pop (Some h) out = (r, Some h', out')" and "pq_inv h"
  shows "pq_inv h'"
proof (cases "out = None \<or> pq_count h = 0")
  case True
  with assms show ?thesis by (cases out) auto
next
  case False
  with assms(1) have "pq_pop h = Some (pq_slots h ! 0, h')"
    by (auto simp: pq_pop_def Let_def)
  then show ?thesis using rs_pq.pop_Some [OF assms(2)] by blast
qed

lemma pq_reach_inv: "pq_reach h \<Longrightarrow> pq_inv h"
  by (induction rule: pq_reach.induct)
    (auto dest: pq_inv_create pq_push_inv pq_pop_inv pq_inv_clear)

fun pq_push_all :: "'p pq_heap option \<Rightarrow> 'p pq_entry list \<Rightarrow> int list \<times> 'p pq_heap option" where
  "pq_push_all h [] = ([], h)"
| "pq_push_all h (e # es) =
     (case pq_heap_push h (Some e) of (r, h1) \<Rightarrow>
        case pq_push_all h1 es of (rs, h2) \<Rightarrow> (r # rs, h2))"

fun pq_pop_all :: "nat \<Rightarrow> 'p pq_heap option \<Rightarrow> 'p pq_entry list" where
  "pq_pop_all 0 h = []"
| "pq_pop_all (Suc n) h =
     (case pq_heap_pop h (Some pq_zero_entry) of
        (r, h', Some e) \<Rightarrow> (if r = 0 then e # pq_pop_all n h' else [])
      | (r, h', None) \<Rightarrow> [])"

lemma pq_push_SomeD: "pq_push h e = Some h1 \<Longrightarrow> pq_heap_push (Some h) (Some e) = (0, Some h1)"
  by (auto simp: pq_push_def split: if_splits)

lemma pq_push_all_rs:
  "rs_pq.push_all h es = Some h' \<Longrightarrow>
   pq_push_all (Some h) es = (replicate (length es) 0, Some h')"
proof (induction es arbitrary: h)
  case (Cons e es)
  then obtain h1 where "pq_push h e = Some h1" "rs_pq.push_all h1 es = Some h'"
    by (auto split: option.splits)
  then show ?case using Cons.IH [of h1] pq_push_SomeD [of h e h1]
    by (simp del: pq_heap_push.simps)
qed simp

lemma pq_pop_all_rs: "pq_pop_all n (Some h) = rs_pq.drain n h"
  by (induction n arbitrary: h) (simp_all add: pq_pop_def Let_def)

text \<open>C8: Up to 64 entries pushed into a fresh queue are all accepted, and popping as many gives
  back exactly those entries in ascending key order.\<close>

theorem pq_push_pop_sorted:
  assumes "length es \<le> PQ_MAX_SIZE"
    and "pq_push_all (pq_heap_create True) es = (rs, h)"
  shows "rs = replicate (length es) 0 \<and> mset (pq_pop_all (length es) h) = mset es
    \<and> sorted (map pq_key (pq_pop_all (length es) h))"
proof -
  obtain h0 :: "'a pq_heap" where h0: "pq_heap_create True = Some h0"
    by (simp add: pq_heap_create_def)
  note c = pq_inv_create [OF h0]
  obtain h1 where h1: "rs_pq.push_all h0 es = Some h1" "pq_inv h1" "pq_contents h1 = mset es"
    using rs_pq.push_all_Some [of h0 es] c assms(1) by auto
  then have "rs = replicate (length es) 0" "h = Some h1"
    using assms(2) pq_push_all_rs [OF h1(1)] by (simp_all add: h0)
  with h1 show ?thesis
    using rs_pq.drain_sorted [of h1 "length es"] by (simp add: pq_pop_all_rs)
qed

lemma pq_push_pop_sorted_witness:
  "mset (pq_pop_all 3 (snd (pq_push_all (pq_heap_create True)
      [\<lparr>pq_key = 9, pq_data = Some True, pq_id = 1\<rparr>, \<lparr>pq_key = 2, pq_data = None, pq_id = 2\<rparr>,
       \<lparr>pq_key = 5, pq_data = None, pq_id = 3\<rparr>])))
   = {#\<lparr>pq_key = 9, pq_data = Some True, pq_id = 1\<rparr>, \<lparr>pq_key = 2, pq_data = None, pq_id = 2\<rparr>,
       \<lparr>pq_key = 5, pq_data = None, pq_id = 3\<rparr>#}"
  using pq_push_pop_sorted [OF _ prod.collapse [symmetric], of
      "[\<lparr>pq_key = 9, pq_data = Some True, pq_id = 1\<rparr>, \<lparr>pq_key = 2, pq_data = None, pq_id = 2\<rparr>,
       \<lparr>pq_key = 5, pq_data = None, pq_id = 3\<rparr>]"]
  by (simp add: PQ_MAX_SIZE_def numeral_3_eq_3)

text \<open>In every reachable queue a pop with an output cell fails exactly when the queue is empty;
  otherwise it hands out an entry of least key and removes that entry alone, one copy of it.\<close>

theorem pq_pop_least:
  assumes "pq_reach h" and "pq_heap_pop (Some h) (Some out) = (r, h', out')"
  shows "r = 0 \<and> pq_contents h \<noteq> {#}
      \<and> (\<exists>e h1. out' = Some e \<and> h' = Some h1 \<and> pq_contents h = add_mset e (pq_contents h1)
           \<and> (\<forall>x \<in># pq_contents h. pq_key e \<le> pq_key x))
    \<or> r = -1 \<and> pq_contents h = {#} \<and> h' = Some h \<and> out' = Some out"
proof (cases "pq_count h = 0")
  case True
  with assms show ?thesis by (auto simp: pq_contents_def)
next
  case False
  note inv = pq_reach_inv [OF assms(1)]
  obtain h1 where p: "pq_heap_pop (Some h) (Some out) = (0, Some h1, Some (pq_slots h ! 0))"
    using False by (simp add: Let_def)
  then have "pq_pop h = Some (pq_slots h ! 0, h1)"
    using False by (auto simp: pq_pop_def Let_def)
  note rs_pq.pop_Some [OF inv this]
  with p assms(2) show ?thesis by auto
qed

lemma pq_pop_least_witness:
  "fst (pq_heap_pop (pq_heap_create True :: nat pq_heap option) (Some pq_zero_entry)) = -1"
proof -
  let ?h = "\<lparr>pq_slots = replicate PQ_MAX_SIZE pq_zero_entry, pq_count = 0\<rparr> :: nat pq_heap"
  have h: "pq_heap_create True = Some ?h" by (simp add: pq_heap_create_def)
  have "pq_reach ?h" using h by (rule pq_reach_create)
  from pq_pop_least [OF this, of pq_zero_entry] show ?thesis
    by (simp add: h)
qed

section \<open>Statistics\<close>

record pq_stats =
  pqs_push_count :: u64
  pqs_pop_count :: u64
  pqs_peak_size :: int
  pqs_overflow_count :: u64

definition pq_stats_zero :: pq_stats where
  "pq_stats_zero = \<lparr>pqs_push_count = 0, pqs_pop_count = 0, pqs_peak_size = 0, pqs_overflow_count = 0\<rparr>"

definition pq_stats_create :: "bool \<Rightarrow> pq_stats option" where
  "pq_stats_create mem = (if mem then Some pq_stats_zero else None)"

definition pq_stats_reset :: "pq_stats option \<Rightarrow> pq_stats option" where
  "pq_stats_reset st = map_option (\<lambda>_. pq_stats_zero) st"

fun pq_stats_record_push :: "pq_stats option \<Rightarrow> int \<Rightarrow> int \<times> pq_stats option" where
  "pq_stats_record_push None cur_size = (-1, None)"
| "pq_stats_record_push (Some st) cur_size =
     (0, Some (st\<lparr>pqs_push_count := pqs_push_count st + 1,
                  pqs_peak_size := (if cur_size > pqs_peak_size st then cur_size
                                    else pqs_peak_size st)\<rparr>))"

fun pq_stats_record_pop :: "pq_stats option \<Rightarrow> int \<times> pq_stats option" where
  "pq_stats_record_pop None = (-1, None)"
| "pq_stats_record_pop (Some st) = (0, Some (st\<lparr>pqs_pop_count := pqs_pop_count st + 1\<rparr>))"

fun pq_stats_record_overflow :: "pq_stats option \<Rightarrow> int \<times> pq_stats option" where
  "pq_stats_record_overflow None = (-1, None)"
| "pq_stats_record_overflow (Some st) =
     (0, Some (st\<lparr>pqs_overflow_count := pqs_overflow_count st + 1\<rparr>))"

text \<open>The snapshot has the same four fields as the statistics.\<close>

fun pq_stats_snapshot :: "pq_stats option \<Rightarrow> pq_stats option \<Rightarrow> int \<times> pq_stats option" where
  "pq_stats_snapshot (Some st) (Some out) = (0, Some st)"
| "pq_stats_snapshot _ out = (-1, out)"

text \<open>Recording the sizes of a history leaves their maximum in \<open>pqs_peak_size\<close>.\<close>

lemma pq_stats_peak:
  "pqs_peak_size (foldl (\<lambda>st n. the (snd (pq_stats_record_push (Some st) n))) st ns)
    = foldl max (pqs_peak_size st) ns"
  by (induction ns arbitrary: st) (simp_all add: max_def not_less)

end
