(* ===== verification/Wire.thy ===== *)
theory Wire
  imports RS_Prelude
begin

text \<open>
  The byte-order helpers that every wire format of the repository repeats as static functions:
  little-endian \<open>w16le\<close> .. \<open>w64le\<close> and \<open>r16le\<close> .. \<open>r64le\<close>, and the big-endian forms of the
  relay protocol.  A writer is the list of bytes it stores, a reader takes the buffer and the offset
  it reads at.  The laws say that a reader at the offset of a field gives back the value written
  there, whatever surrounds the field.
\<close>

named_theorems wire_simps "reading a field back from the bytes that were written"

section \<open>Little-endian\<close>

definition w16le :: "u16 \<Rightarrow> u8 list" where
  "w16le v = [ucast v, ucast (drop_bit 8 v)]"

definition w32le :: "u32 \<Rightarrow> u8 list" where
  "w32le v = [ucast v, ucast (drop_bit 8 v), ucast (drop_bit 16 v), ucast (drop_bit 24 v)]"

definition w64le :: "u64 \<Rightarrow> u8 list" where
  "w64le v = map (\<lambda>i. ucast (drop_bit (i * 8) v)) [0..<8]"

definition r16le :: "u8 list \<Rightarrow> nat \<Rightarrow> u16" where
  "r16le p off = ucast (p ! off) OR push_bit 8 (ucast (p ! (off + 1)))"

definition r32le :: "u8 list \<Rightarrow> nat \<Rightarrow> u32" where
  "r32le p off = ucast (p ! off) OR push_bit 8 (ucast (p ! (off + 1)))
     OR push_bit 16 (ucast (p ! (off + 2))) OR push_bit 24 (ucast (p ! (off + 3)))"

definition r64le :: "u8 list \<Rightarrow> nat \<Rightarrow> u64" where
  "r64le p off = fold (\<lambda>i v. v OR push_bit (i * 8) (ucast (p ! (off + i)))) [0..<8] 0"

lemma length_wle [simp]: "length (w16le a) = 2" "length (w32le b) = 4" "length (w64le c) = 8"
  by (simp_all add: w16le_def w32le_def w64le_def)

text \<open>The bit \<open>n\<close> of a value assembled from bytes is bit \<open>n mod 8\<close> of byte \<open>n div 8\<close>.\<close>

lemma bit_byte_fold:
  fixes b :: "nat \<Rightarrow> u8"
  shows "bit (fold (\<lambda>i v. v OR push_bit (i * 8) (ucast (b i))) [0..<k] (0 :: 'a::len word)) n
    \<longleftrightarrow> n < LENGTH('a) \<and> n div 8 < k \<and> bit (b (n div 8)) (n mod 8)"
proof (induction k)
  case 0
  then show ?case by simp
next
  case (Suc k)
  have "bit (push_bit (k * 8) (ucast (b k)) :: 'a word) n \<longleftrightarrow>
      n < LENGTH('a) \<and> n div 8 = k \<and> bit (b k) (n mod 8)"
  proof (cases "n div 8 = k")
    case True
    then have "k * 8 \<le> n" and "n - k * 8 = n mod 8"
      using minus_div_mult_eq_mod [of n 8] by auto
    with True show ?thesis by (auto simp: bit_simps)
  next
    case False
    then have "n < k * 8 \<or> 8 \<le> n - k * 8" by linarith
    with False show ?thesis using bit_imp_le_length [of "b k"] by (fastforce simp: bit_simps)
  qed
  with Suc show ?case by (auto simp: bit_simps less_Suc_eq)
qed

lemma upt_8: "[0..<8] = [0, 1, 2, 3, 4, 5, 6, 7 :: nat]"
  by (simp add: upt_rec)

lemma r16le_fold: "r16le p off = fold (\<lambda>i v. v OR push_bit (i * 8) (ucast (p ! (off + i)))) [0..<2] 0"
  by (simp add: r16le_def upt_rec)

lemma r32le_fold: "r32le p off = fold (\<lambda>i v. v OR push_bit (i * 8) (ucast (p ! (off + i)))) [0..<4] 0"
  by (simp add: r32le_def upt_rec numeral_3_eq_3 or.assoc)

lemma w16le_map: "w16le v = map (\<lambda>i. ucast (drop_bit (i * 8) v)) [0..<2]"
  by (simp add: w16le_def upt_rec)

lemma w32le_map: "w32le v = map (\<lambda>i. ucast (drop_bit (i * 8) v)) [0..<4]"
  by (simp add: w32le_def upt_rec)

lemma byte_fold_map:
  fixes v :: "'a::len word"
  assumes "LENGTH('a) = 8 * k"
  shows "fold (\<lambda>i w. w OR push_bit (i * 8)
      (ucast ((xs @ map (\<lambda>i. ucast (drop_bit (i * 8) v) :: u8) [0..<k] @ ys) ! (length xs + i)))) [0..<k] 0 = (v :: 'a word)"
proof (rule bit_word_eqI)
  fix n assume n: "n < LENGTH('a)"
  with assms have "n div 8 < k" by (simp add: div_less_iff_less_mult mult.commute)
  with n show "bit (fold (\<lambda>i w. w OR push_bit (i * 8)
      (ucast ((xs @ map (\<lambda>i. ucast (drop_bit (i * 8) v) :: u8) [0..<k] @ ys) ! (length xs + i)))) [0..<k] (0 :: 'a word)) n = bit v n"
    by (subst bit_byte_fold) (simp add: nth_append bit_simps)
qed

lemma r16le_w16le [wire_simps]: "length xs = off \<Longrightarrow> r16le (xs @ w16le v @ ys) off = v"
  using byte_fold_map [of 2 xs v ys] by (auto simp: r16le_fold w16le_map)

lemma r32le_w32le [wire_simps]: "length xs = off \<Longrightarrow> r32le (xs @ w32le v @ ys) off = v"
  using byte_fold_map [of 4 xs v ys] by (auto simp: r32le_fold w32le_map)

lemma r64le_w64le [wire_simps]: "length xs = off \<Longrightarrow> r64le (xs @ w64le v @ ys) off = v"
  using byte_fold_map [of 8 xs v ys] by (auto simp: r64le_def w64le_def)

text \<open>The same laws for the simplifier: a read at a constant offset is a read at 0 of the rest.\<close>

lemma wle_read0 [wire_simps]:
  "r16le (w16le a @ ys) 0 = a" "r32le (w32le b @ ys) 0 = b" "r64le (w64le c @ ys) 0 = c"
  using r16le_w16le [of "[]" 0 a ys] r32le_w32le [of "[]" 0 b ys] r64le_w64le [of "[]" 0 c ys] by simp_all

lemma wle_read0_end [wire_simps]:
  "r16le (w16le a) 0 = a" "r32le (w32le b) 0 = b" "r64le (w64le c) 0 = c"
  using wle_read0 [where ys = "[]"] by simp_all

lemma rle_drop [wire_simps]:
  "numeral k \<le> length p \<Longrightarrow> r16le p (numeral k) = r16le (drop (numeral k) p) 0"
  "numeral k \<le> length p \<Longrightarrow> r32le p (numeral k) = r32le (drop (numeral k) p) 0"
  "numeral k \<le> length p \<Longrightarrow> r64le p (numeral k) = r64le (drop (numeral k) p) 0"
  by (simp_all add: r16le_def r32le_def r64le_def)

text \<open>A reader looks at its own bytes only.\<close>

lemma r16le_cong: "p ! off = q ! off \<Longrightarrow> p ! (off + 1) = q ! (off + 1) \<Longrightarrow> r16le p off = r16le q off"
  by (simp add: r16le_def)

lemma r32le_cong: "(\<And>i. i < 4 \<Longrightarrow> p ! (off + i) = q ! (off + i)) \<Longrightarrow> r32le p off = r32le q off"
  unfolding r32le_fold by (rule List.fold_cong) auto

lemma w32le_r32le: "w32le (r32le p off) = map (\<lambda>i. p ! (off + i)) [0..<4]"
proof (rule nth_equalityI)
  fix i assume i: "i < length (w32le (r32le p off))"
  then have i4: "i < 4" by simp
  have "bit (ucast (drop_bit (i * 8) (r32le p off)) :: u8) n = bit (p ! (off + i)) n" if n: "n < 8" for n
  proof -
    have d: "(i * 8 + n) div 8 = i" "(i * 8 + n) mod 8 = n" using n by simp_all
    have "i * 8 + n < 32" using i4 n by linarith
    moreover have "bit (r32le p off) (i * 8 + n) \<longleftrightarrow>
        i * 8 + n < 32 \<and> (i * 8 + n) div 8 < 4 \<and> bit (p ! (off + (i * 8 + n) div 8)) ((i * 8 + n) mod 8)"
      using bit_byte_fold [of "\<lambda>i. p ! (off + i)" 4 "i * 8 + n", where 'a = 32] by (simp add: r32le_fold)
    ultimately have "bit (r32le p off) (i * 8 + n) = bit (p ! (off + i)) n"
      unfolding d using i4 by simp
    then show ?thesis using n by (simp add: bit_simps)
  qed
  then have "ucast (drop_bit (i * 8) (r32le p off)) = p ! (off + i)"
    by (intro bit_word_eqI) simp
  then show "w32le (r32le p off) ! i = map (\<lambda>i. p ! (off + i)) [0..<4] ! i"
    using i4 by (simp add: w32le_map)
qed simp

lemma r32le_inj: "r32le p off = r32le q off \<Longrightarrow> i < 4 \<Longrightarrow> p ! (off + i) = q ! (off + i)"
proof -
  assume e: "r32le p off = r32le q off" and i: "i < 4"
  then have "map (\<lambda>i. p ! (off + i)) [0..<4] ! i = map (\<lambda>i. q ! (off + i)) [0..<4] ! i"
    by (simp only: w32le_r32le [symmetric] e)
  with i show ?thesis by simp
qed

section \<open>Big-endian\<close>

definition w16be :: "u16 \<Rightarrow> u8 list" where
  "w16be v = [ucast (drop_bit 8 v), ucast v]"

definition w32be :: "u32 \<Rightarrow> u8 list" where
  "w32be v = [ucast (drop_bit 24 v), ucast (drop_bit 16 v), ucast (drop_bit 8 v), ucast v]"

definition w64be :: "u64 \<Rightarrow> u8 list" where
  "w64be v = map (\<lambda>i. ucast (drop_bit (56 - i * 8) v)) [0..<8]"

definition r16be :: "u8 list \<Rightarrow> nat \<Rightarrow> u16" where
  "r16be p off = push_bit 8 (ucast (p ! off)) OR ucast (p ! (off + 1))"

definition r32be :: "u8 list \<Rightarrow> nat \<Rightarrow> u32" where
  "r32be p off = push_bit 24 (ucast (p ! off)) OR push_bit 16 (ucast (p ! (off + 1)))
     OR push_bit 8 (ucast (p ! (off + 2))) OR ucast (p ! (off + 3))"

lemma length_wbe [simp]: "length (w16be a) = 2" "length (w32be b) = 4" "length (w64be c) = 8"
  by (simp_all add: w16be_def w32be_def w64be_def)

lemma r16be_r16le: "r16be p off = r16le [p ! (off + 1), p ! off] 0"
  by (simp add: r16be_def r16le_def or.commute)

lemma r32be_r32le: "r32be p off = r32le [p ! (off + 3), p ! (off + 2), p ! (off + 1), p ! off] 0"
  by (simp add: r32be_def r32le_def or.commute or.left_commute numeral_2_eq_2 numeral_3_eq_3)

lemma wbe_read0 [wire_simps]: "r16be (w16be a @ ys) 0 = a" "r32be (w32be b @ ys) 0 = b"
  using wle_read0_end(1) [of a] wle_read0_end(2) [of b]
  by (simp_all add: r16be_r16le r32be_r32le w16be_def w32be_def w16le_def w32le_def
      numeral_2_eq_2 numeral_3_eq_3)

lemma wbe_read0_end [wire_simps]: "r16be (w16be a) 0 = a" "r32be (w32be b) 0 = b"
  using wbe_read0 [where ys = "[]"] by simp_all

lemma rbe_drop [wire_simps]:
  "numeral k \<le> length p \<Longrightarrow> r16be p (numeral k) = r16be (drop (numeral k) p) 0"
  "numeral k \<le> length p \<Longrightarrow> r32be p (numeral k) = r32be (drop (numeral k) p) 0"
  by (simp_all add: r16be_def r32be_def)

text \<open>A small value survives a cast to a byte and back.\<close>

lemma ucast_u8_small:
  fixes x :: "'a::len word"
  assumes "unat x < 256"
  shows "ucast (ucast x :: u8) = x"
proof (rule bit_word_eqI)
  fix n assume n: "n < LENGTH('a)"
  have "take_bit 8 x = x" using assms by (simp add: word_unat_eq_iff unsigned_take_bit_eq take_bit_nat_eq_self)
  then have "bit x n \<Longrightarrow> n < 8" by (metis bit_take_bit_iff)
  with n show "bit (ucast (ucast x :: u8) :: 'a word) n = bit x n" by (auto simp: bit_simps)
qed

text \<open>An array whose rest is zero is what copying its first bytes into a zeroed one gives.\<close>

lemma zero_filled_copy:
  assumes "length xs = Suc m" and "n \<le> m" and "drop n xs = replicate (Suc m - n) (0 :: u8)"
  shows "(overwrite (take n xs) (replicate (Suc m) 0))[n := 0] = xs"
proof -
  have "overwrite (take n xs) (replicate (Suc m) 0) = take n xs @ drop n xs"
    using assms by (simp add: overwrite_def min_absorb2 del: append_take_drop_id replicate.simps)
  then have "overwrite (take n xs) (replicate (Suc m) 0) = xs" by simp
  moreover have "drop n xs ! 0 = 0" unfolding assms(3) using assms(2) by simp
  then have "xs ! n = 0" using assms(1,2) by simp
  ultimately show ?thesis by (metis list_update_id)
qed

section \<open>Self-delimiting codecs\<close>

text \<open>
  The contract of every wire format here: decoding the encoding of a well-formed value, whatever
  bytes follow, gives the value back.  A receiver that decodes messages one after the other from a stream
  relies on that alone.
\<close>

locale codec =
  fixes wf :: "'a \<Rightarrow> bool"
    and enc :: "'a \<Rightarrow> u8 list"
    and dec :: "u8 list \<Rightarrow> 'a option"
  assumes dec_enc: "wf a \<Longrightarrow> dec (enc a @ rest) = Some a"
begin

lemma enc_inj: "wf a \<Longrightarrow> wf b \<Longrightarrow> enc a = enc b \<Longrightarrow> a = b"
  using dec_enc [of a "[]"] dec_enc [of b "[]"] by simp

lemma enc_prefix_free: "wf a \<Longrightarrow> wf b \<Longrightarrow> enc a @ xs = enc b @ ys \<Longrightarrow> a = b \<and> xs = ys"
  using dec_enc [of a xs] dec_enc [of b ys] by simp

fun decode_n :: "nat \<Rightarrow> u8 list \<Rightarrow> 'a list option" where
  "decode_n 0 b = Some []"
| "decode_n (Suc n) b = (case dec b of None \<Rightarrow> None
     | Some a \<Rightarrow> map_option ((#) a) (decode_n n (drop (length (enc a)) b)))"

lemma decode_stream:
  "\<forall>a\<in>set as. wf a \<Longrightarrow> decode_n (length as) (concat (map enc as) @ rest) = Some as"
  by (induction as) (simp_all add: dec_enc)

end

end
