(* ===== verification/Net_State.thy ===== *)
theory Net_State
  imports Wire
begin

text \<open>
  The state of the UDP/TCP core (\<^verbatim>\<open>src/src/network.c\<close>, \<^verbatim>\<open>network_tcp.c\<close>, \<^verbatim>\<open>network_reconnect.c\<close>,
  \<^verbatim>\<open>packet_validate.c\<close>, the session functions of \<^verbatim>\<open>crypto.c\<close>).

  A \<open>peer_t *\<close> into \<open>ctx->peers\<close> is the index of the peer; a pointer that is NULL is any
  index that is not below \<open>num_peers\<close>.  The array \<open>peers[0 .. num_peers)\<close> is the list
  \<open>c_peers\<close>, so \<open>num_peers\<close> is its length.  A \<^verbatim>\<open>sockaddr_storage\<close> is the list of its bytes.
  Heap buffers have identifiers, so that two pointers to one buffer and a pointer to a freed buffer can be
  told apart: \<open>w_heap\<close> maps the live identifiers to their contents.

  What the program gets from outside is explicit: libsodium, libopus and the resolver are the functions of
  \<open>externals\<close>; the clock, the results of socket calls and of allocations and the contents of
  uninitialised memory are the fields \<open>w_*\<close>, read in order.  \<open>w_log\<close> lists what the program
  hands out (datagrams, TCP bytes, input events, decoded audio), oldest first.  \<open>w_fault\<close> is a ghost:
  it is set when the code writes outside a heap buffer; C gives no meaning to what follows.
\<close>

type_synonym bytes = "u8 list"

section \<open>Constants\<close>

definition PACKET_MAGIC :: u32 where "PACKET_MAGIC = 0x524F4F54"
definition PROTOCOL_VERSION :: u8 where "PROTOCOL_VERSION = 1"
definition PROTOCOL_MIN_VERSION :: u8 where "PROTOCOL_MIN_VERSION = 1"
definition PROTOCOL_FLAGS :: u8 where "PROTOCOL_FLAGS = 0"
definition MAX_PACKET_SIZE :: nat where "MAX_PACKET_SIZE = 1400"
definition MAX_PEERS :: nat where "MAX_PEERS = 16"
definition MAX_VIDEO_FRAME_SIZE :: nat where "MAX_VIDEO_FRAME_SIZE = 16 * 1024 * 1024"
definition HANDSHAKE_RETRY_MS :: u64 where "HANDSHAKE_RETRY_MS = 1000"
definition PEER_TIMEOUT_MS :: u64 where "PEER_TIMEOUT_MS = 5000"
definition KEEPALIVE_INTERVAL_MS :: u64 where "KEEPALIVE_INTERVAL_MS = 1000"
definition CRYPTO_PUBLIC_KEY_BYTES :: nat where "CRYPTO_PUBLIC_KEY_BYTES = 32"
definition CRYPTO_NONCE_BYTES :: nat where "CRYPTO_NONCE_BYTES = 24"
definition CRYPTO_MAC_BYTES :: nat where "CRYPTO_MAC_BYTES = 16"

definition PKT_HANDSHAKE :: u8 where "PKT_HANDSHAKE = 0x01"
definition PKT_VIDEO :: u8 where "PKT_VIDEO = 0x02"
definition PKT_AUDIO :: u8 where "PKT_AUDIO = 0x03"
definition PKT_INPUT :: u8 where "PKT_INPUT = 0x04"
definition PKT_CONTROL :: u8 where "PKT_CONTROL = 0x05"
definition PKT_PING :: u8 where "PKT_PING = 0x06"
definition PKT_PONG :: u8 where "PKT_PONG = 0x07"

lemmas pkt_defs = PKT_HANDSHAKE_def PKT_VIDEO_def PKT_AUDIO_def PKT_INPUT_def PKT_CONTROL_def
  PKT_PING_def PKT_PONG_def

section \<open>The packet header\<close>

text \<open>The packed struct, in the byte order of the little-endian machines the program runs on.\<close>

record packet_header =
  h_magic :: u32
  h_version :: u8
  h_type :: u8
  h_flags :: u16
  h_nonce :: u64
  h_payload_size :: u16
  h_mac :: bytes

definition HDR_SIZE :: nat where "HDR_SIZE = 34"

definition header_bytes :: "packet_header \<Rightarrow> bytes" where
  "header_bytes h = w32le (h_magic h) @ [h_version h, h_type h] @ w16le (h_flags h) @
     w64le (h_nonce h) @ w16le (h_payload_size h) @ h_mac h"

definition read_header :: "bytes \<Rightarrow> packet_header" where
  "read_header b = \<lparr>h_magic = r32le b 0, h_version = b ! 4, h_type = b ! 5, h_flags = r16le b 6,
     h_nonce = r64le b 8, h_payload_size = r16le b 16, h_mac = take 16 (drop 18 b)\<rparr>"

lemma length_header_bytes [simp]: "length (h_mac h) = 16 \<Longrightarrow> length (header_bytes h) = HDR_SIZE"
  by (simp add: header_bytes_def HDR_SIZE_def)

lemma read_header_bytes:
  assumes "length (h_mac h) = 16"
  shows "read_header (header_bytes h @ rest) = h"
proof -
  let ?b = "header_bytes h @ rest"
  let ?t = "w16le (h_flags h) @ w64le (h_nonce h) @ w16le (h_payload_size h) @ h_mac h @ rest"
  have b: "?b = w32le (h_magic h) @ [h_version h, h_type h] @ ?t" by (simp add: header_bytes_def)
  have "r32le ?b 0 = h_magic h"
    using r32le_w32le [of "[]" 0] by (simp add: b)
  moreover have "?b ! 4 = h_version h" "?b ! 5 = h_type h" by (simp_all add: b nth_append)
  moreover have "r16le ?b 6 = h_flags h"
    using r16le_w16le [of "w32le (h_magic h) @ [h_version h, h_type h]" 6] by (simp add: b)
  moreover have "r64le ?b 8 = h_nonce h"
    using r64le_w64le [of "w32le (h_magic h) @ [h_version h, h_type h] @ w16le (h_flags h)" 8]
    by (simp add: b)
  moreover have "r16le ?b 16 = h_payload_size h"
    using r16le_w16le [of "w32le (h_magic h) @ [h_version h, h_type h] @ w16le (h_flags h)
        @ w64le (h_nonce h)" 16] by (simp add: b)
  moreover have "take 16 (drop 18 ?b) = h_mac h" using assms by (simp add: b)
  ultimately show ?thesis by (simp add: read_header_def)
qed

section \<open>Peers and the context\<close>

datatype peer_state = PEER_DISCOVERED | PEER_CONNECTING | PEER_HANDSHAKE_SENT
  | PEER_HANDSHAKE_RECEIVED | PEER_CONNECTED | PEER_DISCONNECTED | PEER_FAILED

text \<open>A zeroed peer has transport 0, which is none of the enumeration's values.\<close>

datatype transport = TRANSPORT_NONE | TRANSPORT_UDP | TRANSPORT_TCP

record crypto_session =
  shared_key :: bytes
  nonce_counter :: u64
  authenticated :: bool

text \<open>The bytes of \<open>read_buffer\<close> below \<open>read_offset\<close> are the list \<open>tcp_read\<close>.\<close>

record tcp_ctx =
  tcp_connected :: bool
  tcp_connect_time :: u64
  tcp_read :: bytes

record reconnect_ctx =
  rc_last_attempt :: u64
  rc_next_attempt :: u64
  rc_attempt_count :: nat
  rc_backoff_ms :: nat
  rc_is_reconnecting :: bool

record peer =
  rootstream_code :: string
  public_key :: bytes
  addr :: bytes
  addr_len :: nat
  session :: crypto_session
  p_state :: peer_state
  last_seen :: u64
  handshake_sent_time :: u64
  hostname :: string
  is_streaming :: bool
  video_tx_frame_id :: u32
  video_rx_frame_id :: u32
  video_rx_buffer :: "nat option"
  video_rx_capacity :: nat
  video_rx_expected :: nat
  video_rx_received :: nat
  last_sent :: u64
  last_ping :: u64
  protocol_version :: u8
  protocol_flags :: u8
  p_transport :: transport
  transport_priv :: "tcp_ctx option"
  p_reconnect :: "reconnect_ctx option"
  last_received :: u64

definition zero_session :: crypto_session where
  "zero_session = \<lparr>shared_key = replicate 32 0, nonce_counter = 0, authenticated = False\<rparr>"

definition zero_peer :: peer where
  "zero_peer = \<lparr>rootstream_code = [], public_key = replicate 32 0, addr = replicate 128 0,
     addr_len = 0, session = zero_session, p_state = PEER_DISCOVERED, last_seen = 0,
     handshake_sent_time = 0, hostname = [], is_streaming = False, video_tx_frame_id = 0,
     video_rx_frame_id = 0, video_rx_buffer = None, video_rx_capacity = 0, video_rx_expected = 0,
     video_rx_received = 0, last_sent = 0, last_ping = 0, protocol_version = 0, protocol_flags = 0,
     p_transport = TRANSPORT_NONE, transport_priv = None, p_reconnect = None, last_received = 0\<rparr>"

datatype event =
    EvUdp bytes bytes \<comment> \<open>a datagram: destination and contents\<close>
  | EvTcp nat bytes \<comment> \<open>bytes the kernel took on the TCP connection of a peer\<close>
  | EvInput bytes \<comment> \<open>\<open>rootstream_input_process\<close> on a decrypted payload\<close>
  | EvAudio "u16 list" \<comment> \<open>\<open>playback_fn\<close> on decoded samples\<close>
  | EvHistory string \<comment> \<open>\<open>config_add_peer_to_history\<close>\<close>

datatype sock_ret = Sent nat | Again | SockErr
datatype sock_in = Bytes bytes | NoData | Closed | RecvErr

record frame_buffer =
  f_data :: "nat option"
  f_size :: nat
  f_capacity :: nat
  f_timestamp :: u64

record encoder_ctx =
  bitrate :: u32
  framerate :: u32
  quality :: u8
  force_keyframe :: bool

record rs =
  c_public_key :: bytes
  c_secret_key :: bytes
  c_identity :: string
  c_audio_enabled :: bool
  c_has_playback :: bool
  c_is_host :: bool
  c_encoder :: encoder_ctx
  c_frame :: frame_buffer
  c_peers :: "peer list"
  c_frames_received :: u64
  c_bytes_sent :: u64
  c_bytes_received :: u64
  c_last_video_ts :: u64
  c_last_audio_ts :: u64
  w_clock :: "nat \<Rightarrow> u64"
  w_reads :: nat
  w_udp_ok :: "nat \<Rightarrow> bool"
  w_udp_sends :: nat
  w_tcp_connects :: "bool list"
  w_tcp_out :: "sock_ret list"
  w_tcp_in :: "sock_in list"
  w_alloc :: "nat \<Rightarrow> bool"
  w_allocs :: nat
  w_junk :: "nat \<Rightarrow> u8"
  w_heap :: "nat \<Rightarrow> bytes option"
  w_next :: nat
  w_log :: "event list"
  w_fault :: bool

record externals =
  sk_to_curve :: "bytes \<Rightarrow> bytes option"
  pk_to_curve :: "bytes \<Rightarrow> bytes option"
  scalarmult :: "bytes \<Rightarrow> bytes \<Rightarrow> bool \<times> bytes"
  aead_encrypt :: "bytes \<Rightarrow> bytes \<Rightarrow> bytes \<Rightarrow> bytes option"
  aead_decrypt :: "bytes \<Rightarrow> bytes \<Rightarrow> bytes \<Rightarrow> bytes option"
  base642bin :: "string \<Rightarrow> bytes option"
  opus_decode :: "bytes \<Rightarrow> u16 list option"
  resolve_hostname :: "string \<Rightarrow> (bytes \<times> nat) option"

section \<open>Elementary effects\<close>

definition peer_at :: "rs \<Rightarrow> nat \<Rightarrow> peer" where
  "peer_at s i = c_peers s ! i"

definition upd_peer :: "nat \<Rightarrow> (peer \<Rightarrow> peer) \<Rightarrow> rs \<Rightarrow> rs" where
  "upd_peer i f s = s\<lparr>c_peers := (c_peers s)[i := f (c_peers s ! i)]\<rparr>"

definition get_timestamp_ms :: "rs \<Rightarrow> u64 \<times> rs" where
  "get_timestamp_ms s = (w_clock s (w_reads s), s\<lparr>w_reads := w_reads s + 1\<rparr>)"

definition emit :: "event \<Rightarrow> rs \<Rightarrow> rs" where
  "emit e s = s\<lparr>w_log := w_log s @ [e]\<rparr>"

text \<open>Allocations succeed or fail as \<open>w_alloc\<close> says.\<close>

definition alloc_ok :: "rs \<Rightarrow> bool \<times> rs" where
  "alloc_ok s = (w_alloc s (w_allocs s), s\<lparr>w_allocs := w_allocs s + 1\<rparr>)"

lemma peer_at_upd [simp]:
  "i < length (c_peers s) \<Longrightarrow> peer_at (upd_peer i f s) i = f (peer_at s i)"
  "i \<noteq> j \<Longrightarrow> peer_at (upd_peer i f s) j = peer_at s j"
  by (simp_all add: peer_at_def upd_peer_def)

lemma length_upd_peer [simp]: "length (c_peers (upd_peer i f s)) = length (c_peers s)"
  by (simp add: upd_peer_def)

section \<open>Sessions\<close>

text \<open>\<^verbatim>\<open>crypto_scalarmult\<close> writes into the key of the session whether it succeeds or not.\<close>

definition crypto_create_session ::
  "externals \<Rightarrow> crypto_session \<Rightarrow> bytes \<Rightarrow> bytes \<Rightarrow> int \<times> crypto_session" where
  "crypto_create_session X se my_secret peer_public =
     (case sk_to_curve X my_secret of None \<Rightarrow> (-1, se)
      | Some my_curve_secret \<Rightarrow>
        (case pk_to_curve X peer_public of None \<Rightarrow> (-1, se)
         | Some peer_curve_public \<Rightarrow>
           (case scalarmult X my_curve_secret peer_curve_public of (ok, k) \<Rightarrow>
              if \<not> ok then (-1, se\<lparr>shared_key := k\<rparr>)
              else (0, \<lparr>shared_key = k, nonce_counter = 0, authenticated = True\<rparr>))))"

text \<open>The nonce counter in the first eight of the 24 nonce bytes.\<close>

definition nonce_bytes :: "u64 \<Rightarrow> bytes" where
  "nonce_bytes n = w64le n @ replicate 16 0"

text \<open>The plaintext pointer may be NULL; the result is the ciphertext with its authentication tag.\<close>

definition crypto_encrypt_packet ::
  "externals \<Rightarrow> crypto_session \<Rightarrow> bytes option \<Rightarrow> u64 \<Rightarrow> bytes option" where
  "crypto_encrypt_packet X se plaintext nonce =
     (case plaintext of None \<Rightarrow> None
      | Some m \<Rightarrow> if authenticated se then aead_encrypt X (shared_key se) (nonce_bytes nonce) m
                 else None)"

definition crypto_decrypt_packet ::
  "externals \<Rightarrow> crypto_session \<Rightarrow> bytes \<Rightarrow> u64 \<Rightarrow> bytes option" where
  "crypto_decrypt_packet X se ciphertext nonce =
     (if authenticated se then aead_decrypt X (shared_key se) (nonce_bytes nonce) ciphertext
      else None)"

definition crypto_verify_peer :: "bytes \<Rightarrow> int" where
  "crypto_verify_peer k = (if length k \<noteq> CRYPTO_PUBLIC_KEY_BYTES then -1
     else if \<forall>b\<in>set k. b = 0 then -1 else 0)"

text \<open>
  What the code relies on from ChaCha20-Poly1305: decryption undoes encryption under one key and nonce, and
  a ciphertext is 16 bytes longer than its plaintext.
\<close>

definition aead_laws :: "externals \<Rightarrow> bool" where
  "aead_laws X \<longleftrightarrow> (\<forall>k n m c. aead_encrypt X k n m = Some c \<longrightarrow>
     length c = length m + CRYPTO_MAC_BYTES \<and> aead_decrypt X k n c = Some m)"

section \<open>Validation\<close>

fun rootstream_net_validate_packet :: "bytes option \<Rightarrow> int" where
  "rootstream_net_validate_packet None = -1"
| "rootstream_net_validate_packet (Some b) =
     (if length b < HDR_SIZE then -1
      else let hdr = read_header b in
        if h_magic hdr \<noteq> PACKET_MAGIC then -1
        else if h_version hdr < PROTOCOL_MIN_VERSION \<or> h_version hdr > PROTOCOL_VERSION then -1
        else if unat (h_payload_size hdr) > length b - HDR_SIZE then -1
        else 0)"

section \<open>Finding a peer\<close>

definition sa_family :: "bytes \<Rightarrow> nat" where
  "sa_family a = unat (r16le a 0)"

definition AF_INET :: nat where "AF_INET = 2"
definition AF_INET6 :: nat where "AF_INET6 = 10"

definition same_addr :: "bytes \<Rightarrow> nat \<Rightarrow> peer \<Rightarrow> bool" where
  "same_addr a alen p \<longleftrightarrow> addr_len p = alen \<and>
     (if sa_family a = AF_INET
      then r16le a 2 = r16le (addr p) 2 \<and> take 4 (drop 4 a) = take 4 (drop 4 (addr p))
      else if sa_family a = AF_INET6
      then r16le a 2 = r16le (addr p) 2 \<and> take 16 (drop 8 a) = take 16 (drop 8 (addr p))
      else False)"

definition rootstream_find_peer_by_addr :: "rs \<Rightarrow> bytes \<Rightarrow> nat \<Rightarrow> nat option" where
  "rootstream_find_peer_by_addr s a alen = first_idx (same_addr a alen) (c_peers s)"

definition rootstream_find_peer :: "rs \<Rightarrow> bytes \<Rightarrow> nat option" where
  "rootstream_find_peer s k = first_idx (\<lambda>p. public_key p = k) (c_peers s)"

end
