(* ===== verification/Net_Send.thy ===== *)
theory Net_Send
  imports Net_State
begin

text \<open>
  Sending: the TCP transport, the plaintext handshake, reconnection with exponential backoff, encrypted
  packets, control commands and the splitting of a video frame into packets
  (\<^verbatim>\<open>network.c\<close>, \<^verbatim>\<open>network_tcp.c\<close>, \<^verbatim>\<open>network_reconnect.c\<close>).
\<close>

section \<open>TCP\<close>

text \<open>
  The socket calls of \<open>connect\<close> (create, connect, poll, getsockopt) are one answer of the
  kernel, the next of \<open>w_tcp_connects\<close>; when no answer is left the attempt times out.
\<close>

definition kernel_tcp_connect :: "rs \<Rightarrow> bool \<times> rs" where
  "kernel_tcp_connect s = (case w_tcp_connects s of [] \<Rightarrow> (False, s)
     | b # bs \<Rightarrow> (b, s\<lparr>w_tcp_connects := bs\<rparr>))"

definition rootstream_net_tcp_connect :: "rs \<Rightarrow> nat \<Rightarrow> int \<times> rs" where
  "rootstream_net_tcp_connect s i =
     (if i \<ge> length (c_peers s) then (-1, s)
      else case kernel_tcp_connect s of (ok, s1) \<Rightarrow>
        if \<not> ok then (-1, s1)
        else case alloc_ok s1 of (mem, s2) \<Rightarrow>
          if \<not> mem then (-1, s2)
          else case get_timestamp_ms s2 of (now, s3) \<Rightarrow>
            (0, upd_peer i (\<lambda>p. p\<lparr>transport_priv := Some \<lparr>tcp_connected = True,
                  tcp_connect_time = now, tcp_read = []\<rparr>, p_transport := TRANSPORT_TCP\<rparr>) s3))"

text \<open>
  The loop over \<open>send\<close>.  The kernel's answers are a list; after the last one the socket
  buffer is full.  The result: whether the connection broke, the bytes taken, the answers left.
\<close>

fun tcp_send_loop :: "sock_ret list \<Rightarrow> nat \<Rightarrow> nat \<Rightarrow> bool \<times> nat \<times> sock_ret list" where
  "tcp_send_loop rets sent sz =
     (if sent < sz then
        (case rets of
           [] \<Rightarrow> (False, sent, [])
         | Sent n # rets \<Rightarrow> tcp_send_loop rets (sent + min n (sz - sent)) sz
         | Again # rets \<Rightarrow> (False, sent, rets)
         | SockErr # rets \<Rightarrow> (True, sent, rets))
      else (False, sent, rets))"

declare tcp_send_loop.simps [simp del]

definition rootstream_net_tcp_send :: "rs \<Rightarrow> nat \<Rightarrow> bytes \<Rightarrow> int \<times> rs" where
  "rootstream_net_tcp_send s i data =
     (if i \<ge> length (c_peers s) \<or> data = [] then (-1, s)
      else case transport_priv (peer_at s i) of None \<Rightarrow> (-1, s)
        | Some tcp \<Rightarrow>
          if \<not> tcp_connected tcp then (-1, s)
          else case tcp_send_loop (w_tcp_out s) 0 (length data) of (broken, sent, rets) \<Rightarrow>
            let s1 = emit (EvTcp i (take sent data)) (s\<lparr>w_tcp_out := rets\<rparr>) in
            if broken then
              (-1, upd_peer i (\<lambda>p. p\<lparr>transport_priv := Some (tcp\<lparr>tcp_connected := False\<rparr>)\<rparr>) s1)
            else case get_timestamp_ms (s1\<lparr>c_bytes_sent := c_bytes_sent s1 + of_nat sent\<rparr>) of
              (now, s2) \<Rightarrow>
                (if sent = length data then 0 else -1, upd_peer i (\<lambda>p. p\<lparr>last_sent := now\<rparr>) s2))"

definition rootstream_net_tcp_cleanup :: "nat \<Rightarrow> rs \<Rightarrow> rs" where
  "rootstream_net_tcp_cleanup i s = upd_peer i (\<lambda>p. p\<lparr>transport_priv := None\<rparr>) s"

definition rootstream_net_tcp_is_healthy :: "rs \<Rightarrow> nat \<Rightarrow> bool" where
  "rootstream_net_tcp_is_healthy s i \<longleftrightarrow> i < length (c_peers s) \<and>
     (case transport_priv (peer_at s i) of None \<Rightarrow> False | Some tcp \<Rightarrow> tcp_connected tcp)"

lemma tcp_send_loop_le:
  "sent \<le> sz \<Longrightarrow> tcp_send_loop rets sent sz = (b, n, rets') \<Longrightarrow> sent \<le> n \<and> n \<le> sz"
proof (induction rets sent sz arbitrary: rets' rule: tcp_send_loop.induct)
  case (1 rets sent sz)
  show ?case
  proof (cases "sent < sz")
    case False
    with 1 show ?thesis by (simp add: tcp_send_loop.simps)
  next
    case True
    show ?thesis
    proof (cases rets)
      case Nil
      with 1 True show ?thesis by (simp add: tcp_send_loop.simps)
    next
      case (Cons a as)
      show ?thesis
      proof (cases a)
        case (Sent k)
        then have "tcp_send_loop as (sent + min k (sz - sent)) sz = (b, n, rets')"
          using 1(3) True Cons tcp_send_loop.simps [of "Sent k # as" sent sz] by simp
        with 1(1) [OF True Cons Sent, of rets'] have "sent + min k (sz - sent) \<le> n \<and> n \<le> sz"
          using True by simp
        then show ?thesis by simp
      qed (use 1(2,3) True Cons tcp_send_loop.simps [of "a # as" sent sz] in simp_all)
    qed
  qed
qed

section \<open>Handshake\<close>

definition handshake_payload :: "bytes \<Rightarrow> string \<Rightarrow> bytes" where
  "handshake_payload pk identity =
     (let p = pk @ map of_char identity @ [0] in
      if length p + 2 \<le> 256 then p @ [PROTOCOL_VERSION, PROTOCOL_FLAGS] else p)"

definition handshake_packet :: "bytes \<Rightarrow> string \<Rightarrow> bytes" where
  "handshake_packet pk identity =
     (let payload = handshake_payload pk identity in
      header_bytes \<lparr>h_magic = PACKET_MAGIC, h_version = PROTOCOL_VERSION, h_type = PKT_HANDSHAKE,
        h_flags = 0, h_nonce = 0, h_payload_size = of_nat (length payload),
        h_mac = replicate 16 0\<rparr> @ payload)"

text \<open>\<open>sendto\<close>: the kernel takes the whole datagram or fails.\<close>

definition kernel_sendto :: "bytes \<Rightarrow> bytes \<Rightarrow> rs \<Rightarrow> bool \<times> rs" where
  "kernel_sendto dest data s =
     (let ok = w_udp_ok s (w_udp_sends s); s1 = s\<lparr>w_udp_sends := w_udp_sends s + 1\<rparr> in
      (ok, if ok then emit (EvUdp dest data) s1 else s1))"

definition mark_handshake_sent :: "nat \<Rightarrow> rs \<Rightarrow> rs" where
  "mark_handshake_sent i s = (case get_timestamp_ms s of (now, s1) \<Rightarrow>
     upd_peer i (\<lambda>p. p\<lparr>p_state := PEER_HANDSHAKE_SENT, handshake_sent_time := now\<rparr>) s1)"

definition rootstream_net_handshake :: "rs \<Rightarrow> nat \<Rightarrow> int \<times> rs" where
  "rootstream_net_handshake s i =
     (if i \<ge> length (c_peers s) then (-1, s)
      else
        let packet = handshake_packet (c_public_key s) (c_identity s); p = peer_at s i in
        case kernel_sendto (take (addr_len p) (addr p)) packet s of (ok, s1) \<Rightarrow>
          if \<not> ok then
            (case rootstream_net_tcp_connect s1 i of (r, s2) \<Rightarrow>
               if r \<noteq> 0 then (-1, s2)
               else case rootstream_net_tcp_send s2 i packet of (r, s3) \<Rightarrow>
                 if r = 0 then (0, mark_handshake_sent i s3) else (-1, s3))
          else
            case get_timestamp_ms s1 of (now, s2) \<Rightarrow>
              let s3 = upd_peer i (\<lambda>p. p\<lparr>last_sent := now, p_transport := TRANSPORT_UDP\<rparr>) s2 in
              (0, if p_state (peer_at s3 i) \<noteq> PEER_HANDSHAKE_RECEIVED
                    \<and> p_state (peer_at s3 i) \<noteq> PEER_CONNECTED
                  then mark_handshake_sent i s3 else s3))"

section \<open>Reconnection\<close>

definition INITIAL_BACKOFF_MS :: nat where "INITIAL_BACKOFF_MS = 100"
definition MAX_BACKOFF_MS :: nat where "MAX_BACKOFF_MS = 30000"
definition MAX_RECONNECT_ATTEMPTS :: nat where "MAX_RECONNECT_ATTEMPTS = 10"

definition reconnect_init :: reconnect_ctx where
  "reconnect_init = \<lparr>rc_last_attempt = 0, rc_next_attempt = 0, rc_attempt_count = 0,
     rc_backoff_ms = INITIAL_BACKOFF_MS, rc_is_reconnecting = False\<rparr>"

definition peer_reconnect_init :: "rs \<Rightarrow> nat \<Rightarrow> int \<times> rs" where
  "peer_reconnect_init s i = (case alloc_ok s of (mem, s1) \<Rightarrow>
     if mem then (0, upd_peer i (\<lambda>p. p\<lparr>p_reconnect := Some reconnect_init\<rparr>) s1) else (-1, s1))"

definition reconnect_ok :: "u64 \<Rightarrow> reconnect_ctx \<Rightarrow> reconnect_ctx" where
  "reconnect_ok now rc = rc\<lparr>rc_last_attempt := now, rc_attempt_count := 0,
     rc_backoff_ms := INITIAL_BACKOFF_MS, rc_is_reconnecting := False\<rparr>"

definition reconnect_fail :: "u64 \<Rightarrow> reconnect_ctx \<Rightarrow> reconnect_ctx" where
  "reconnect_fail now rc =
     (let rc = rc\<lparr>rc_last_attempt := now, rc_attempt_count := rc_attempt_count rc + 1\<rparr> in
      if rc_attempt_count rc \<ge> MAX_RECONNECT_ATTEMPTS then rc
      else
        let b = (if rc_backoff_ms rc * 2 > MAX_BACKOFF_MS then MAX_BACKOFF_MS
                 else rc_backoff_ms rc * 2)
        in rc\<lparr>rc_backoff_ms := b, rc_next_attempt := now + of_nat b, rc_is_reconnecting := True\<rparr>)"

definition reconnect_attempt :: "rs \<Rightarrow> nat \<Rightarrow> int \<times> rs" where
  "reconnect_attempt s i =
     (case p_transport (peer_at s i) of
        TRANSPORT_TCP \<Rightarrow> rootstream_net_tcp_connect s i
      | _ \<Rightarrow> (case rootstream_net_handshake s i of (r, s1) \<Rightarrow>
               if r < 0 then rootstream_net_tcp_connect s1 i else (r, s1)))"

definition peer_try_reconnect :: "rs \<Rightarrow> nat \<Rightarrow> int \<times> rs" where
  "peer_try_reconnect s i =
     (if i \<ge> length (c_peers s) then (-1, s)
      else case p_reconnect (peer_at s i) of None \<Rightarrow> (-1, s)
        | Some rc \<Rightarrow>
          case get_timestamp_ms s of (now, s1) \<Rightarrow>
            if now < rc_next_attempt rc then (0, s1)
            else case reconnect_attempt s1 i of (ret, s2) \<Rightarrow>
              if ret = 0 then
                (1, upd_peer i (\<lambda>p. p\<lparr>p_reconnect := Some (reconnect_ok now rc),
                      p_state := PEER_CONNECTED\<rparr>) s2)
              else if rc_attempt_count rc + 1 \<ge> MAX_RECONNECT_ATTEMPTS then
                (-1, upd_peer i (\<lambda>p. p\<lparr>p_reconnect := Some (reconnect_fail now rc),
                      p_state := PEER_FAILED\<rparr>) s2)
              else (0, upd_peer i (\<lambda>p. p\<lparr>p_reconnect := Some (reconnect_fail now rc)\<rparr>) s2))"

definition peer_reconnect_cleanup :: "nat \<Rightarrow> rs \<Rightarrow> rs" where
  "peer_reconnect_cleanup i s = upd_peer i (\<lambda>p. p\<lparr>p_reconnect := None\<rparr>) s"

definition peer_reconnect_reset :: "nat \<Rightarrow> rs \<Rightarrow> rs" where
  "peer_reconnect_reset i s = upd_peer i (\<lambda>p. p\<lparr>p_reconnect := map_option
     (\<lambda>rc. rc\<lparr>rc_attempt_count := 0, rc_backoff_ms := INITIAL_BACKOFF_MS,
        rc_is_reconnecting := False\<rparr>) (p_reconnect p)\<rparr>) s"

section \<open>Encrypted packets\<close>

definition max_plain_payload_size :: nat where
  "max_plain_payload_size =
     (if MAX_PACKET_SIZE \<le> HDR_SIZE + CRYPTO_MAC_BYTES then 0
      else MAX_PACKET_SIZE - HDR_SIZE - CRYPTO_MAC_BYTES)"

text \<open>
  The packet is \<open>malloc\<close>ed and its \<open>mac\<close> field never written, so that these 16 bytes are
  whatever the memory held (\<open>w_junk\<close>).
\<close>

definition data_packet :: "(nat \<Rightarrow> u8) \<Rightarrow> u8 \<Rightarrow> u64 \<Rightarrow> bytes \<Rightarrow> bytes" where
  "data_packet junk type nonce cipher =
     header_bytes \<lparr>h_magic = PACKET_MAGIC, h_version = PROTOCOL_VERSION, h_type = type, h_flags = 0,
       h_nonce = nonce, h_payload_size = of_nat (length cipher), h_mac = map junk [0..<16]\<rparr> @ cipher"

definition send_packet :: "rs \<Rightarrow> nat \<Rightarrow> bytes \<Rightarrow> int \<times> rs" where
  \<comment> \<open>the dispatch to the transport\<close>
  "send_packet s i packet =
     (let p = peer_at s i in
      case p_transport p of
        TRANSPORT_UDP \<Rightarrow>
          (case kernel_sendto (take (addr_len p) (addr p)) packet s of (ok, s1) \<Rightarrow>
             if ok then
               (case get_timestamp_ms (s1\<lparr>c_bytes_sent := c_bytes_sent s1 + of_nat (length packet)\<rparr>) of
                  (now, s2) \<Rightarrow> (0, upd_peer i (\<lambda>p. p\<lparr>last_sent := now\<rparr>) s2))
             else (-1, s1))
      | TRANSPORT_TCP \<Rightarrow> rootstream_net_tcp_send s i packet
      | TRANSPORT_NONE \<Rightarrow> (-1, s))"

definition rootstream_net_send_encrypted :: "externals \<Rightarrow> rs \<Rightarrow> nat \<Rightarrow> u8 \<Rightarrow> bytes option \<Rightarrow> nat \<Rightarrow> int \<times> rs" where
  \<comment> \<open>\<open>data\<close> may be NULL when \<open>sz\<close> is 0; otherwise it holds \<open>sz\<close> bytes\<close>
  "rootstream_net_send_encrypted X s i type data sz =
     (if i \<ge> length (c_peers s) \<or> (data = None \<and> sz > 0) then (-1, s)
      else let p = peer_at s i in
        if p_state p \<noteq> PEER_CONNECTED \<and> p_state p \<noteq> PEER_HANDSHAKE_RECEIVED then (-1, s)
        else if \<not> authenticated (session p) then (-1, s)
        else if sz > max_plain_payload_size then (-1, s)
        else case alloc_ok s of (mem, s0) \<Rightarrow>
          if \<not> mem then (-1, s0)
          else
            let nonce = nonce_counter (session p);
                s1 = upd_peer i (\<lambda>p. p\<lparr>session := (session p)\<lparr>nonce_counter := nonce + 1\<rparr>\<rparr>) s0
            in case crypto_encrypt_packet X (session p) data nonce of
                 None \<Rightarrow> (-1, s1)
               | Some cipher \<Rightarrow>
                 case send_packet s1 i (data_packet (w_junk s1) type nonce cipher) of (ret, s2) \<Rightarrow>
                   if ret < 0 then
                     let s3 = upd_peer i (\<lambda>p. p\<lparr>p_state := PEER_DISCONNECTED\<rparr>) s2 in
                     (-1, case p_reconnect (peer_at s3 i) of None \<Rightarrow> s3
                          | Some _ \<Rightarrow> snd (peer_try_reconnect s3 i))
                   else (0, s2))"

section \<open>Control commands\<close>

definition CTRL_PAUSE :: u8 where "CTRL_PAUSE = 1"
definition CTRL_RESUME :: u8 where "CTRL_RESUME = 2"
definition CTRL_SET_BITRATE :: u8 where "CTRL_SET_BITRATE = 3"
definition CTRL_SET_FPS :: u8 where "CTRL_SET_FPS = 4"
definition CTRL_REQUEST_KEYFRAME :: u8 where "CTRL_REQUEST_KEYFRAME = 5"
definition CTRL_SET_QUALITY :: u8 where "CTRL_SET_QUALITY = 6"
definition CTRL_DISCONNECT :: u8 where "CTRL_DISCONNECT = 7"

lemmas ctrl_defs = CTRL_PAUSE_def CTRL_RESUME_def CTRL_SET_BITRATE_def CTRL_SET_FPS_def
  CTRL_REQUEST_KEYFRAME_def CTRL_SET_QUALITY_def CTRL_DISCONNECT_def

definition control_packet :: "u8 \<Rightarrow> u32 \<Rightarrow> bytes" where
  "control_packet cmd v = cmd # w32le v"

definition rootstream_send_control :: "externals \<Rightarrow> rs \<Rightarrow> nat \<Rightarrow> u8 \<Rightarrow> u32 \<Rightarrow> int \<times> rs" where
  "rootstream_send_control X s i cmd v =
     rootstream_net_send_encrypted X s i PKT_CONTROL (Some (control_packet cmd v)) 5"

definition rootstream_pause_stream :: "externals \<Rightarrow> rs \<Rightarrow> nat \<Rightarrow> int \<times> rs" where
  "rootstream_pause_stream X s i = (case rootstream_send_control X s i CTRL_PAUSE 0 of (r, s1) \<Rightarrow>
     (r, if r = 0 then upd_peer i (\<lambda>p. p\<lparr>is_streaming := False\<rparr>) s1 else s1))"

definition rootstream_resume_stream :: "externals \<Rightarrow> rs \<Rightarrow> nat \<Rightarrow> int \<times> rs" where
  "rootstream_resume_stream X s i = (case rootstream_send_control X s i CTRL_RESUME 0 of (r, s1) \<Rightarrow>
     (r, if r = 0 then upd_peer i (\<lambda>p. p\<lparr>is_streaming := True\<rparr>) s1 else s1))"

definition rootstream_request_keyframe :: "externals \<Rightarrow> rs \<Rightarrow> nat \<Rightarrow> int \<times> rs" where
  "rootstream_request_keyframe X s i = rootstream_send_control X s i CTRL_REQUEST_KEYFRAME 0"

section \<open>Video frames\<close>

record video_chunk_header =
  vc_frame_id :: u32
  vc_total_size :: u32
  vc_offset :: u32
  vc_chunk_size :: u16
  vc_flags :: u16
  vc_timestamp :: u64

definition VCH_SIZE :: nat where "VCH_SIZE = 24"

definition chunk_header_bytes :: "video_chunk_header \<Rightarrow> bytes" where
  "chunk_header_bytes h = w32le (vc_frame_id h) @ w32le (vc_total_size h) @ w32le (vc_offset h) @
     w16le (vc_chunk_size h) @ w16le (vc_flags h) @ w64le (vc_timestamp h)"

definition read_chunk_header :: "bytes \<Rightarrow> video_chunk_header" where
  "read_chunk_header b = \<lparr>vc_frame_id = r32le b 0, vc_total_size = r32le b 4, vc_offset = r32le b 8,
     vc_chunk_size = r16le b 12, vc_flags = r16le b 14, vc_timestamp = r64le b 16\<rparr>"

definition video_payload :: "u32 \<Rightarrow> bytes \<Rightarrow> nat \<Rightarrow> nat \<Rightarrow> u64 \<Rightarrow> bytes" where
  "video_payload frame_id data offset n ts =
     chunk_header_bytes \<lparr>vc_frame_id = frame_id, vc_total_size = of_nat (length data),
       vc_offset = of_nat offset, vc_chunk_size = of_nat n, vc_flags = 0, vc_timestamp = ts\<rparr>
     @ take n (drop offset data)"

text \<open>The loop of \<open>rootstream_net_send_video\<close>; the header takes 24 bytes of each payload.\<close>

function send_video_loop ::
  "externals \<Rightarrow> nat \<Rightarrow> u32 \<Rightarrow> bytes \<Rightarrow> u64 \<Rightarrow> nat \<Rightarrow> nat \<Rightarrow> rs \<Rightarrow> int \<times> rs" where
  "send_video_loop X i frame_id data ts max_chunk offset s =
     (if offset < length data \<and> 0 < max_chunk then
        let chunk_size = (if length data - offset > max_chunk then max_chunk
                          else length data - offset) in
        case rootstream_net_send_encrypted X s i PKT_VIDEO
               (Some (video_payload frame_id data offset chunk_size ts)) (VCH_SIZE + chunk_size) of
          (r, s1) \<Rightarrow>
            if r < 0 then (-1, s1)
            else send_video_loop X i frame_id data ts max_chunk (offset + chunk_size) s1
      else (0, s))"
  by pat_completeness auto
termination
  by (relation "measure (\<lambda>(X, i, frame_id, data, ts, max_chunk, offset, s). length data - offset)") auto

declare send_video_loop.simps [simp del]

definition rootstream_net_send_video :: "externals \<Rightarrow> rs \<Rightarrow> nat \<Rightarrow> bytes \<Rightarrow> u64 \<Rightarrow> int \<times> rs" where
  "rootstream_net_send_video X s i data ts =
     (if i \<ge> length (c_peers s) \<or> data = [] then (-1, s)
      else if max_plain_payload_size \<le> VCH_SIZE then (-1, s)
      else case alloc_ok s of (mem, s0) \<Rightarrow>
        if \<not> mem then (-1, s0)
        else
          let frame_id = video_tx_frame_id (peer_at s0 i);
              s1 = upd_peer i (\<lambda>p. p\<lparr>video_tx_frame_id := frame_id + 1\<rparr>) s0
          in send_video_loop X i frame_id data ts (max_plain_payload_size - VCH_SIZE) 0 s1)"

end
