(* ===== verification/Net_Recv.thy ===== *)
theory Net_Recv
  imports Net_Send
begin

text \<open>
  Receiving (\<^verbatim>\<open>network.c\<close>): the dispatch of one packet to its peer, the reassembly of video frames in the
  peer's heap buffer, control commands, the receive step over UDP and TCP, the timer, and adding and
  removing peers.
\<close>

section \<open>Video reassembly\<close>

text \<open>\<open>realloc\<close> to \<open>n\<close> bytes: the block gets a new identity, the old one dies.\<close>

definition realloc :: "rs \<Rightarrow> nat option \<Rightarrow> nat \<Rightarrow> nat option \<times> rs" where
  "realloc s old n = (case alloc_ok s of (ok, s1) \<Rightarrow>
     if \<not> ok then (None, s1)
     else
       let kept = (case old of None \<Rightarrow> [] | Some b \<Rightarrow> (case w_heap s1 b of None \<Rightarrow> [] | Some c \<Rightarrow> take n c));
           content = kept @ map (w_junk s1) [0..<n - length kept];
           heap = (case old of None \<Rightarrow> w_heap s1 | Some b \<Rightarrow> (w_heap s1)(b := None))
       in (Some (w_next s1), s1\<lparr>w_heap := heap(w_next s1 := Some content), w_next := w_next s1 + 1\<rparr>))"

definition heap_free :: "nat option \<Rightarrow> rs \<Rightarrow> rs" where
  "heap_free b s = (case b of None \<Rightarrow> s | Some b \<Rightarrow> s\<lparr>w_heap := (w_heap s)(b := None)\<rparr>)"

text \<open>\<open>memcpy(buf + off, bs, len)\<close>: outside the block it is a fault.\<close>

definition heap_write :: "nat option \<Rightarrow> nat \<Rightarrow> bytes \<Rightarrow> rs \<Rightarrow> rs" where
  "heap_write b off bs s =
     (if bs = [] then s
      else case b of None \<Rightarrow> s\<lparr>w_fault := True\<rparr>
        | Some b \<Rightarrow> (case w_heap s b of None \<Rightarrow> s\<lparr>w_fault := True\<rparr>
            | Some c \<Rightarrow> if off + length bs \<le> length c
                       then s\<lparr>w_heap := (w_heap s)(b \<mapsto> write_at off bs c)\<rparr>
                       else s\<lparr>w_fault := True\<rparr>))"

definition video_chunk_ok :: "bytes \<Rightarrow> bool" where
  "video_chunk_ok dec \<longleftrightarrow> length dec \<ge> VCH_SIZE \<and>
     (let h = read_chunk_header dec in
        vc_total_size h \<noteq> 0 \<and> unat (vc_total_size h) \<le> MAX_VIDEO_FRAME_SIZE
        \<and> unat (vc_offset h) + unat (vc_chunk_size h) \<le> unat (vc_total_size h)
        \<and> length dec = VCH_SIZE + unat (vc_chunk_size h))"

definition video_new_frame :: "video_chunk_header \<Rightarrow> peer \<Rightarrow> peer" where
  "video_new_frame h p =
     (if video_rx_frame_id p \<noteq> vc_frame_id h
      then p\<lparr>video_rx_frame_id := vc_frame_id h, video_rx_received := 0,
             video_rx_expected := unat (vc_total_size h)\<rparr>
      else p)"

definition video_grow :: "rs \<Rightarrow> nat \<Rightarrow> bool \<times> rs" where
  "video_grow s i =
     (let p = peer_at s i in
      if video_rx_capacity p < video_rx_expected p then
        (case realloc s (video_rx_buffer p) (video_rx_expected p) of
           (None, s1) \<Rightarrow> (False, s1)
         | (Some b, s1) \<Rightarrow> (True, upd_peer i (\<lambda>p. p\<lparr>video_rx_buffer := Some b,
             video_rx_capacity := video_rx_expected p\<rparr>) s1))
      else (True, s))"

definition video_complete :: "rs \<Rightarrow> nat \<Rightarrow> u64 \<Rightarrow> rs" where
  "video_complete s i ts =
     (let p = peer_at s i in
      if video_rx_received p \<ge> video_rx_expected p then
        s\<lparr>c_frame := \<lparr>f_data = video_rx_buffer p, f_size = video_rx_expected p,
             f_capacity = video_rx_capacity p, f_timestamp = ts\<rparr>,
          c_last_video_ts := ts, c_frames_received := c_frames_received s + 1\<rparr>
      else s)"

text \<open>
  The results of the payload handlers say whether the handler ran to its end: a \<open>break\<close> in it
  leaves the outer \<open>switch\<close> and with it skips the byte count.
\<close>

definition process_video :: "rs \<Rightarrow> nat \<Rightarrow> bytes \<Rightarrow> bool \<times> rs" where
  "process_video s i dec =
     (if \<not> video_chunk_ok dec then (False, s)
      else let h = read_chunk_header dec in
        case video_grow (upd_peer i (video_new_frame h) s) i of (ok, s1) \<Rightarrow>
          if \<not> ok then (False, s1)
          else
            let s2 = heap_write (video_rx_buffer (peer_at s1 i)) (unat (vc_offset h))
                       (take (unat (vc_chunk_size h)) (drop VCH_SIZE dec)) s1;
                s3 = upd_peer i (\<lambda>p. p\<lparr>video_rx_received := video_rx_received p
                       + unat (vc_chunk_size h)\<rparr>) s2
            in (True, video_complete s3 i (vc_timestamp h)))"

section \<open>Audio, control and handshake packets\<close>

definition AUDIO_HDR_SIZE :: nat where "AUDIO_HDR_SIZE = 16"

definition process_audio :: "externals \<Rightarrow> rs \<Rightarrow> bytes \<Rightarrow> bool \<times> rs" where
  "process_audio X s dec =
     (if \<not> c_audio_enabled s then (False, s)
      else if length dec < AUDIO_HDR_SIZE then (False, s)
      else
        let ts = r64le dec 0 in
        case opus_decode X (drop AUDIO_HDR_SIZE dec) of None \<Rightarrow> (True, s)
        | Some pcm \<Rightarrow>
            let delta = sint ts - sint (c_last_video_ts s);
                drop_audio = (c_last_video_ts s > 0 \<and> (delta > 80000 \<or> delta < -200000))
            in if drop_audio then (True, s)
               else (True, (if c_has_playback s then emit (EvAudio pcm) s else s)\<lparr>c_last_audio_ts := ts\<rparr>))"

definition process_control :: "rs \<Rightarrow> nat \<Rightarrow> bytes \<Rightarrow> rs" where
  "process_control s i dec =
     (if length dec < 5 then s
      else let cmd = dec ! 0; v = r32le dec 1 in
        if cmd = CTRL_PAUSE then upd_peer i (\<lambda>p. p\<lparr>is_streaming := False\<rparr>) s
        else if cmd = CTRL_RESUME then upd_peer i (\<lambda>p. p\<lparr>is_streaming := True\<rparr>) s
        else if cmd = CTRL_SET_BITRATE then
          (if v \<ge> 500000 \<and> v \<le> 100000000 then s\<lparr>c_encoder := (c_encoder s)\<lparr>bitrate := v\<rparr>\<rparr> else s)
        else if cmd = CTRL_SET_FPS then
          (if v \<ge> 1 \<and> v \<le> 240 then s\<lparr>c_encoder := (c_encoder s)\<lparr>framerate := v\<rparr>\<rparr> else s)
        else if cmd = CTRL_REQUEST_KEYFRAME then s\<lparr>c_encoder := (c_encoder s)\<lparr>force_keyframe := True\<rparr>\<rparr>
        else if cmd = CTRL_SET_QUALITY then
          (if v \<le> 100 then s\<lparr>c_encoder := (c_encoder s)\<lparr>quality := ucast v\<rparr>\<rparr> else s)
        else if cmd = CTRL_DISCONNECT then
          upd_peer i (\<lambda>p. p\<lparr>p_state := PEER_DISCONNECTED, is_streaming := False\<rparr>) s
        else s)"

text \<open>
  The handshake payload: a public key, a host name that ends with a NUL byte, and two optional bytes with
  version and flags.  A name that has no NUL within the payload has length 0 here, as in the source.
\<close>

definition hs_name_len :: "bytes \<Rightarrow> nat" where
  "hs_name_len payload = (case first_idx (\<lambda>b. b = 0) (drop CRYPTO_PUBLIC_KEY_BYTES payload) of
     None \<Rightarrow> 0 | Some i \<Rightarrow> i)"

definition hs_hostname :: "bytes \<Rightarrow> string" where
  "hs_hostname payload =
     (let n = hs_name_len payload in
      if n > 0 \<and> n < 64
      then map (\<lambda>b. char_of (unat b)) (take n (drop CRYPTO_PUBLIC_KEY_BYTES payload)) else [])"

definition hs_version_flags :: "bytes \<Rightarrow> u8 \<times> u8" where
  "hs_version_flags payload =
     (let n = hs_name_len payload;
          off = (if length payload > CRYPTO_PUBLIC_KEY_BYTES + n then CRYPTO_PUBLIC_KEY_BYTES + n + 1
                 else CRYPTO_PUBLIC_KEY_BYTES)
      in if length payload \<ge> off + 2 then (payload ! off, payload ! (off + 1))
         else (PROTOCOL_VERSION, 0))"

definition process_handshake :: "externals \<Rightarrow> rs \<Rightarrow> nat \<Rightarrow> bytes \<Rightarrow> rs" where
  "process_handshake X s i payload =
     (if length payload < CRYPTO_PUBLIC_KEY_BYTES then s
      else
        let key = take CRYPTO_PUBLIC_KEY_BYTES payload; name = hs_hostname payload in
        case hs_version_flags payload of (ver, flags) \<Rightarrow>
          if ver < PROTOCOL_MIN_VERSION \<or> ver > PROTOCOL_VERSION then
            upd_peer i (\<lambda>p. p\<lparr>p_state := PEER_DISCONNECTED\<rparr>) s
          else
            let s1 = upd_peer i (\<lambda>p. p\<lparr>public_key := key,
                       hostname := (if name \<noteq> [] then name else hostname p),
                       protocol_version := ver, protocol_flags := flags\<rparr>) s
            in case crypto_create_session X (session (peer_at s1 i)) (c_secret_key s1) key of
              (r, se) \<Rightarrow>
                if r < 0 then upd_peer i (\<lambda>p. p\<lparr>session := se, p_state := PEER_DISCONNECTED\<rparr>) s1
                else
                  let s2 = upd_peer i (\<lambda>p. p\<lparr>session := se, p_state := PEER_HANDSHAKE_RECEIVED\<rparr>) s1 in
                  case rootstream_net_handshake s2 i of (r, s3) \<Rightarrow>
                    if r \<noteq> 0 then s3
                    else
                      let s4 = upd_peer i (\<lambda>p. p\<lparr>p_state := PEER_CONNECTED,
                                 is_streaming := (if c_is_host s3 then True else is_streaming p)\<rparr>) s3;
                          s5 = emit (EvHistory (rootstream_code (peer_at s4 i))) s4
                      in if \<not> c_is_host s5 then snd (rootstream_request_keyframe X s5 i) else s5)"

section \<open>One packet\<close>

definition new_peer :: "bytes \<Rightarrow> nat \<Rightarrow> transport \<Rightarrow> peer" where
  "new_peer from fromlen t = zero_peer\<lparr>addr := overwrite (take fromlen from) (replicate 128 0),
     addr_len := fromlen, p_state := PEER_CONNECTING, p_transport := t, video_tx_frame_id := 1\<rparr>"

definition process_payload :: "externals \<Rightarrow> rs \<Rightarrow> nat \<Rightarrow> u8 \<Rightarrow> bytes \<Rightarrow> bool \<times> rs" where
  \<comment> \<open>a decrypted payload\<close>
  "process_payload X s i type dec =
     (if type = PKT_INPUT then (True, emit (EvInput dec) s)
      else if type = PKT_VIDEO then process_video s i dec
      else if type = PKT_AUDIO then process_audio X s dec
      else (True, process_control s i dec))"

definition process_packet_for :: "externals \<Rightarrow> rs \<Rightarrow> nat \<Rightarrow> bytes \<Rightarrow> rs" where
  \<comment> \<open>the \<open>switch\<close> over the packet type, for the peer that was found\<close>
  "process_packet_for X s i buffer =
     (let hdr = read_header buffer;
          body = take (unat (h_payload_size hdr)) (drop HDR_SIZE buffer);
          t = h_type hdr in
      if t = PKT_HANDSHAKE then process_handshake X s i body
      else if t \<in> {PKT_VIDEO, PKT_AUDIO, PKT_INPUT, PKT_CONTROL} then
        (if \<not> authenticated (session (peer_at s i)) then s
         else case crypto_decrypt_packet X (session (peer_at s i)) body (h_nonce hdr) of
             None \<Rightarrow> s
           | Some dec \<Rightarrow>
               (case process_payload X s i t dec of (counted, s1) \<Rightarrow>
                  if counted
                  then s1\<lparr>c_bytes_received := c_bytes_received s1 + of_nat (length buffer)\<rparr>
                  else s1))
      else if t = PKT_PING then snd (rootstream_net_send_encrypted X s i PKT_PONG None 0)
      else s)"

definition process_received_packet ::
  "externals \<Rightarrow> rs \<Rightarrow> bytes \<Rightarrow> bytes \<Rightarrow> nat \<Rightarrow> transport \<Rightarrow> rs" where
  "process_received_packet X s buffer from fromlen t =
     (let hdr = read_header buffer;
          found = (case rootstream_find_peer_by_addr s from fromlen of
             Some i \<Rightarrow> Some (i, s)
           | None \<Rightarrow>
               if h_type hdr \<noteq> PKT_HANDSHAKE then None
               else if length (c_peers s) \<ge> MAX_PEERS then None
               else Some (length (c_peers s), s\<lparr>c_peers := c_peers s @ [new_peer from fromlen t]\<rparr>))
      in case found of None \<Rightarrow> s
         | Some (i, s1) \<Rightarrow>
             case get_timestamp_ms s1 of (t1, s2) \<Rightarrow>
             case get_timestamp_ms s2 of (t2, s3) \<Rightarrow>
               process_packet_for X (upd_peer i (\<lambda>p. p\<lparr>last_seen := t1, last_received := t2\<rparr>) s3)
                 i buffer)"

section \<open>Adding, connecting and removing peers\<close>

text \<open>\<open>strchr(code, '@')\<close> splits the code; the key is at most 255 base64 characters.\<close>

definition parse_rootstream_code :: "externals \<Rightarrow> string \<Rightarrow> (bytes \<times> string) option" where
  "parse_rootstream_code X code =
     (case first_idx (\<lambda>c. c = CHR ''@'') code of None \<Rightarrow> None
      | Some n \<Rightarrow>
          if n \<ge> 256 then None
          else case base642bin X (take n code) of None \<Rightarrow> None
            | Some k \<Rightarrow> if length k \<noteq> CRYPTO_PUBLIC_KEY_BYTES then None
                       else Some (k, cstr_fit 64 (drop (n + 1) code)))"

text \<open>
  \<open>strncpy\<close> of \<open>size - 1\<close> bytes into a field that was a C string before: a
  copy shorter than that overwrites the whole field.
\<close>

definition rootstream_add_peer :: "externals \<Rightarrow> rs \<Rightarrow> string \<Rightarrow> nat option \<times> rs" where
  "rootstream_add_peer X s code =
     (case parse_rootstream_code X code of None \<Rightarrow> (None, s)
      | Some (key, name) \<Rightarrow>
        (case rootstream_find_peer s key of
           Some i \<Rightarrow>
             let s1 = upd_peer i (\<lambda>p. p\<lparr>rootstream_code := cstr_fit 128 code,
                        hostname := (if name \<noteq> [] then name else hostname p)\<rparr>) s
             in if authenticated (session (peer_at s1 i)) then (Some i, s1)
                else (case crypto_create_session X (session (peer_at s1 i)) (c_secret_key s1) key of
                  (r, se) \<Rightarrow> (if r < 0 then None else Some i, upd_peer i (\<lambda>p. p\<lparr>session := se\<rparr>) s1))
         | None \<Rightarrow>
             if length (c_peers s) \<ge> MAX_PEERS then (None, s)
             else if crypto_verify_peer key < 0 then (None, s)
             else case crypto_create_session X zero_session (c_secret_key s) key of (r, se) \<Rightarrow>
               if r < 0 then (None, s)
               else
                 let i = length (c_peers s);
                     p = zero_peer\<lparr>public_key := key, hostname := name,
                           rootstream_code := cstr_fit 128 code, session := se,
                           p_state := PEER_DISCOVERED, video_tx_frame_id := 1,
                           p_transport := TRANSPORT_UDP\<rparr>
                 in (Some i, snd (peer_reconnect_init (s\<lparr>c_peers := c_peers s @ [p]\<rparr>) i))))"

definition rootstream_connect_to_peer :: "externals \<Rightarrow> rs \<Rightarrow> string \<Rightarrow> int \<times> rs" where
  "rootstream_connect_to_peer X s code =
     (case rootstream_add_peer X s code of
        (None, s1) \<Rightarrow> (-1, s1)
      | (Some i, s1) \<Rightarrow>
          (case resolve_hostname X (hostname (peer_at s1 i)) of None \<Rightarrow> (-1, upd_peer i (\<lambda>p. p\<lparr>addr := replicate 128 0\<rparr>) s1)
           | Some (a, n) \<Rightarrow>
               case rootstream_net_handshake (upd_peer i (\<lambda>p. p\<lparr>addr := a, addr_len := n\<rparr>) s1) i of
                 (r, s2) \<Rightarrow> if r < 0 then (-1, s2)
                            else (0, upd_peer i (\<lambda>p. p\<lparr>p_state := PEER_CONNECTING\<rparr>) s2)))"

text \<open>
  Removal frees the reassembly buffer, clears the current frame when it lies in that buffer, and shifts
  the later peers down.
\<close>

definition rootstream_remove_peer :: "nat \<Rightarrow> rs \<Rightarrow> rs" where
  "rootstream_remove_peer i s =
     (if i \<ge> length (c_peers s) then s
      else
        let p = peer_at s i; b = video_rx_buffer p;
            s1 = (if b \<noteq> None \<and> f_data (c_frame s) = b
                  then s\<lparr>c_frame := (c_frame s)\<lparr>f_data := None, f_size := 0\<rparr>\<rparr> else s);
            s2 = heap_free b s1
        in s2\<lparr>c_peers := take i (c_peers s2) @ drop (i + 1) (c_peers s2)\<rparr>)"

section \<open>The receive step and the timer\<close>

definition recv_reconnect_peer :: "rs \<Rightarrow> nat \<Rightarrow> rs" where
  "recv_reconnect_peer s i =
     (if p_state (peer_at s i) = PEER_DISCONNECTED \<and> p_reconnect (peer_at s i) \<noteq> None then
        (case peer_try_reconnect s i of (r, s1) \<Rightarrow>
           if r < 0 then rootstream_remove_peer i s1 else s1)
      else s)"

fun recv_reconnect :: "nat \<Rightarrow> rs \<Rightarrow> rs" where
  "recv_reconnect 0 s = s"
| "recv_reconnect (Suc i) s = recv_reconnect i (recv_reconnect_peer s i)"

text \<open>
  One \<open>recv\<close> on the TCP connection: at most what is free in the 1400-byte read buffer; when
  nothing is free \<open>recv\<close> returns 0, which the code takes for a closed connection.  The result is negative, 0 (more data needed) or 1 with a packet.
\<close>

definition rootstream_net_tcp_recv :: "rs \<Rightarrow> nat \<Rightarrow> int \<times> bytes \<times> rs" where
  "rootstream_net_tcp_recv s i =
     (if i \<ge> length (c_peers s) then (-1, [], s)
      else case transport_priv (peer_at s i) of None \<Rightarrow> (-1, [], s)
        | Some tcp \<Rightarrow>
          if \<not> tcp_connected tcp then (-1, [], s)
          else
            let s1 = s\<lparr>w_tcp_in := tl (w_tcp_in s)\<rparr>;
                broken = upd_peer i (\<lambda>p. p\<lparr>transport_priv := Some (tcp\<lparr>tcp_connected := False\<rparr>)\<rparr>) s1;
                room = MAX_PACKET_SIZE - length (tcp_read tcp)
            in case (if room = 0 then Closed else if w_tcp_in s = [] then NoData else hd (w_tcp_in s)) of
                 RecvErr \<Rightarrow> (-1, [], broken)
               | NoData \<Rightarrow> (0, [], s1)
               | Closed \<Rightarrow> (-1, [], broken)
               | Bytes d \<Rightarrow>
                 if take room d = [] then (-1, [], broken)
                 else
                   let buf = tcp_read tcp @ take room d;
                       store = (\<lambda>b. upd_peer i (\<lambda>p. p\<lparr>transport_priv := Some (tcp\<lparr>tcp_read := b\<rparr>)\<rparr>));
                       packet_size = HDR_SIZE + unat (h_payload_size (read_header buf))
                   in if length buf < HDR_SIZE then (0, [], store buf s1)
                      else if length buf < packet_size then (0, [], store buf s1)
                      else
                        let s2 = store (drop packet_size buf) s1 in
                        case get_timestamp_ms (s2\<lparr>c_bytes_received := c_bytes_received s2
                               + of_nat packet_size\<rparr>) of
                          (now, s3) \<Rightarrow> (1, take packet_size buf,
                                        upd_peer i (\<lambda>p. p\<lparr>last_received := now\<rparr>) s3))"

definition recv_tcp_peer :: "externals \<Rightarrow> rs \<Rightarrow> nat \<Rightarrow> rs" where
  "recv_tcp_peer X s i =
     (if i \<ge> length (c_peers s) \<or> p_transport (peer_at s i) \<noteq> TRANSPORT_TCP
         \<or> p_state (peer_at s i) \<noteq> PEER_CONNECTED then s
      else case rootstream_net_tcp_recv s i of (r, packet, s1) \<Rightarrow>
        if r < 0 then
          let s2 = upd_peer i (\<lambda>p. p\<lparr>p_state := PEER_DISCONNECTED\<rparr>) s1 in
          (case p_reconnect (peer_at s2 i) of None \<Rightarrow> s2 | Some _ \<Rightarrow> snd (peer_try_reconnect s2 i))
        else if r > 0 \<and> packet \<noteq> [] then
          process_received_packet X s1 packet (addr (peer_at s1 i)) (addr_len (peer_at s1 i)) TRANSPORT_TCP
        else s1)"

text \<open>
  What the socket holds: an error, nothing, or a datagram (cut at 1400 bytes) with its sender.  The loop over
  the TCP peers re-reads \<open>num_peers\<close>, which stays at most \<open>MAX_PEERS\<close>.
\<close>

datatype udp_in = PollErr | NoDatagram | Datagram bytes bytes nat

definition recv_udp :: "externals \<Rightarrow> rs \<Rightarrow> bytes \<Rightarrow> bytes \<Rightarrow> nat \<Rightarrow> rs" where
  "recv_udp X s data from fromlen =
     (let buffer = take MAX_PACKET_SIZE data in
      if length buffer \<ge> HDR_SIZE \<and> rootstream_net_validate_packet (Some buffer) = 0
      then process_received_packet X s buffer from fromlen TRANSPORT_UDP else s)"

definition rootstream_net_recv :: "externals \<Rightarrow> rs \<Rightarrow> udp_in \<Rightarrow> int \<times> rs" where
  "rootstream_net_recv X s inp =
     (let s1 = recv_reconnect (length (c_peers s)) s in
      case inp of PollErr \<Rightarrow> (-1, s1)
      | _ \<Rightarrow>
        let s2 = (case inp of Datagram d from n \<Rightarrow> recv_udp X s1 d from n | _ \<Rightarrow> s1)
        in (0, foldl (recv_tcp_peer X) s2 [0..<MAX_PEERS]))"

definition tick_handshake :: "rs \<Rightarrow> u64 \<Rightarrow> nat \<Rightarrow> rs" where
  "tick_handshake s now i =
     (if p_state (peer_at s i) = PEER_HANDSHAKE_SENT then
        let s1 = (if now - handshake_sent_time (peer_at s i) \<ge> HANDSHAKE_RETRY_MS
                  then snd (rootstream_net_handshake s i) else s)
        in if now - handshake_sent_time (peer_at s1 i) \<ge> PEER_TIMEOUT_MS
           then upd_peer i (\<lambda>p. p\<lparr>p_state := PEER_DISCONNECTED\<rparr>) s1 else s1
      else s)"

definition tick_connected :: "externals \<Rightarrow> rs \<Rightarrow> u64 \<Rightarrow> nat \<Rightarrow> rs" where
  "tick_connected X s now i =
     (let p = peer_at s i in
      if p_state p = PEER_CONNECTED then
        if last_seen p > 0 \<and> now - last_seen p \<ge> PEER_TIMEOUT_MS then
          let s1 = upd_peer i (\<lambda>p. p\<lparr>p_state := PEER_DISCONNECTED, is_streaming := False\<rparr>) s in
          (if video_rx_buffer p \<noteq> None
           then upd_peer i (\<lambda>p. p\<lparr>video_rx_buffer := None, video_rx_capacity := 0\<rparr>)
                  (heap_free (video_rx_buffer p) s1)
           else s1)
        else if now - last_sent p \<ge> KEEPALIVE_INTERVAL_MS then
          upd_peer i (\<lambda>p. p\<lparr>last_ping := now\<rparr>)
            (snd (rootstream_net_send_encrypted X s i PKT_PING None 0))
        else s
      else s)"

definition tick_peer :: "externals \<Rightarrow> u64 \<Rightarrow> rs \<Rightarrow> nat \<Rightarrow> rs" where
  "tick_peer X now s i = tick_connected X (tick_handshake s now i) now i"

definition rootstream_net_tick :: "externals \<Rightarrow> rs \<Rightarrow> rs" where
  "rootstream_net_tick X s = (case get_timestamp_ms s of (now, s1) \<Rightarrow>
     foldl (tick_peer X now) s1 [0..<length (c_peers s1)])"

end
