(* ===== verification/Net_Frame.thy ===== *)
theory Net_Frame
  imports Net_Recv
begin

text \<open>
  What sending leaves alone.  \<open>net_same s s'\<close> says that \<open>s'\<close> differs from
  \<open>s\<close> at most in what the senders write: the connection state, timers, transport, streaming
  flag, nonce and frame counters and reconnection data of peers, the byte counter, the consumed answers of the kernel and the log.
  Every sender of \<open>Net_Send\<close> satisfies it, so that the invariants of \<open>Net_Inv\<close> need look only at
  the receivers.
\<close>

definition peer_core :: "peer \<Rightarrow> peer" where
  "peer_core p = p\<lparr>p_state := PEER_DISCOVERED, handshake_sent_time := 0, last_sent := 0,
     last_ping := 0, p_transport := TRANSPORT_NONE, transport_priv := None, p_reconnect := None,
     is_streaming := False, video_tx_frame_id := 0,
     session := (session p)\<lparr>nonce_counter := 0\<rparr>\<rparr>"

definition ctx_core :: "rs \<Rightarrow> rs" where
  "ctx_core s = s\<lparr>c_peers := [], c_bytes_sent := 0, c_bytes_received := 0, w_reads := 0,
     w_udp_sends := 0, w_tcp_connects := [], w_tcp_out := [], w_tcp_in := [], w_allocs := 0,
     w_log := []\<rparr>"

definition net_same :: "rs \<Rightarrow> rs \<Rightarrow> bool" where
  "net_same s s' \<longleftrightarrow> ctx_core s' = ctx_core s \<and> map peer_core (c_peers s') = map peer_core (c_peers s)"

named_theorems net_frame "what the senders leave alone"

lemma net_same_refl [simp]: "net_same s s"
  by (simp add: net_same_def)

lemma net_same_trans: "net_same s t \<Longrightarrow> net_same t u \<Longrightarrow> net_same s u"
  by (simp add: net_same_def)

lemma net_same_length: "net_same s s' \<Longrightarrow> length (c_peers s') = length (c_peers s)"
  by (metis length_map net_same_def)

text \<open>The fields that two states in this relation share.\<close>

lemma ctx_core_fields:
  assumes "ctx_core s' = ctx_core s"
  shows "c_encoder s' = c_encoder s" "c_frame s' = c_frame s" "w_heap s' = w_heap s"
    "w_next s' = w_next s" "w_fault s' = w_fault s" "c_is_host s' = c_is_host s"
    "c_secret_key s' = c_secret_key s" "c_public_key s' = c_public_key s"
    "c_identity s' = c_identity s" "w_clock s' = w_clock s" "w_junk s' = w_junk s"
    "w_udp_ok s' = w_udp_ok s" "w_alloc s' = w_alloc s" "c_frames_received s' = c_frames_received s"
  using assms by (cases s; cases s'; simp add: ctx_core_def)+

lemma net_same_fields:
  assumes "net_same s s'"
  shows "c_encoder s' = c_encoder s" "c_frame s' = c_frame s" "w_heap s' = w_heap s"
    "w_next s' = w_next s" "w_fault s' = w_fault s" "c_is_host s' = c_is_host s"
    "c_secret_key s' = c_secret_key s" "c_public_key s' = c_public_key s"
    "c_identity s' = c_identity s" "w_clock s' = w_clock s" "w_junk s' = w_junk s"
    "w_udp_ok s' = w_udp_ok s" "w_alloc s' = w_alloc s" "c_frames_received s' = c_frames_received s"
  using ctx_core_fields [of s' s] assms by (simp_all add: net_same_def)

lemma peer_core_fields:
  assumes "peer_core p' = peer_core p"
  shows "video_rx_buffer p' = video_rx_buffer p" "video_rx_capacity p' = video_rx_capacity p"
    "video_rx_expected p' = video_rx_expected p" "video_rx_received p' = video_rx_received p"
    "video_rx_frame_id p' = video_rx_frame_id p" "public_key p' = public_key p" "addr p' = addr p"
    "addr_len p' = addr_len p" "hostname p' = hostname p" "rootstream_code p' = rootstream_code p"
    "shared_key (session p') = shared_key (session p)"
    "authenticated (session p') = authenticated (session p)"
  using assms by (cases p; cases p'; cases "session p"; cases "session p'"; simp add: peer_core_def)+

lemma net_same_peer:
  assumes "net_same s s'" and "i < length (c_peers s)"
  shows "peer_core (peer_at s' i) = peer_core (peer_at s i)"
  using assms net_same_length [OF assms(1)] unfolding net_same_def peer_at_def
  by (metis nth_map)

section \<open>Elementary effects\<close>

lemma net_same_upd:
  assumes "\<And>p. peer_core (f p) = peer_core p"
  shows "net_same s (upd_peer i f s)"
proof -
  have "map peer_core ((c_peers s)[i := f (c_peers s ! i)]) = map peer_core (c_peers s)"
    by (rule nth_equalityI) (simp, metis assms length_list_update length_map nth_list_update_eq nth_list_update_neq nth_map)
  then show ?thesis by (simp add: net_same_def upd_peer_def ctx_core_def)
qed

lemma net_same_clock [net_frame]: "net_same s (snd (get_timestamp_ms s))"
  by (simp add: net_same_def get_timestamp_ms_def ctx_core_def)

lemma net_same_alloc [net_frame]: "net_same s (snd (alloc_ok s))"
  by (simp add: net_same_def alloc_ok_def ctx_core_def)

lemma net_same_emit [net_frame]: "net_same s (emit e s)"
  by (simp add: net_same_def emit_def ctx_core_def)

lemma net_same_sendto [net_frame]: "net_same s (snd (kernel_sendto d b s))"
  by (simp add: net_same_def kernel_sendto_def emit_def ctx_core_def Let_def)

lemma net_same_kconnect [net_frame]: "net_same s (snd (kernel_tcp_connect s))"
  by (simp add: net_same_def kernel_tcp_connect_def ctx_core_def split: list.split)

lemma net_same_counters [net_frame]:
  "net_same s (s\<lparr>c_bytes_sent := x\<rparr>)" "net_same s (s\<lparr>c_bytes_received := y\<rparr>)"
  "net_same s (s\<lparr>w_tcp_out := z\<rparr>)" "net_same s (s\<lparr>w_tcp_in := u\<rparr>)"
  by (simp_all add: net_same_def ctx_core_def)

section \<open>The senders\<close>

lemma net_same_upd_send:
  "net_same s (upd_peer i (\<lambda>p. p\<lparr>last_sent := a, p_transport := t\<rparr>) s)"
  "net_same s (upd_peer i (\<lambda>p. p\<lparr>last_sent := a\<rparr>) s)"
  "net_same s (upd_peer i (\<lambda>p. p\<lparr>last_ping := a\<rparr>) s)"
  "net_same s (upd_peer i (\<lambda>p. p\<lparr>transport_priv := q\<rparr>) s)"
  "net_same s (upd_peer i (\<lambda>p. p\<lparr>transport_priv := q, p_transport := t\<rparr>) s)"
  "net_same s (upd_peer i (\<lambda>p. p\<lparr>p_state := st, handshake_sent_time := a\<rparr>) s)"
  "net_same s (upd_peer i (\<lambda>p. p\<lparr>p_state := st\<rparr>) s)"
  "net_same s (upd_peer i (\<lambda>p. p\<lparr>p_reconnect := rc\<rparr>) s)"
  "net_same s (upd_peer i (\<lambda>p. p\<lparr>p_reconnect := rc, p_state := st\<rparr>) s)"
  "net_same s (upd_peer i (\<lambda>p. p\<lparr>is_streaming := b\<rparr>) s)"
  "net_same s (upd_peer i (\<lambda>p. p\<lparr>p_state := st, is_streaming := b\<rparr>) s)"
  "net_same s (upd_peer i (\<lambda>p. p\<lparr>p_state := st, is_streaming := (if c then True else is_streaming p)\<rparr>) s)"
  "net_same s (upd_peer i (\<lambda>p. p\<lparr>video_tx_frame_id := v\<rparr>) s)"
  by (rule net_same_upd, simp add: peer_core_def)+

lemma net_same_upd_nonce:
  "net_same s (upd_peer i (\<lambda>p. p\<lparr>session := (session p)\<lparr>nonce_counter := n\<rparr>\<rparr>) s)"
  by (rule net_same_upd) (simp add: peer_core_def)

text \<open>
  The rules that walk through a sender's body: what holds of the state so far holds after one more effect,
  and a branch or a call is gone into.
\<close>

lemmas net_chain = net_frame [THEN net_same_trans [rotated]] net_same_upd_send [THEN net_same_trans [rotated]]
  net_same_upd_nonce [THEN net_same_trans [rotated]]

lemma net_pair: "net_same s t \<Longrightarrow> net_same s (snd (a, t))"
  by simp

lemma net_call: "net_same s (snd r) \<Longrightarrow> (\<And>a t. net_same s t \<Longrightarrow> net_same s (snd (f a t)))
    \<Longrightarrow> net_same s (snd (case r of (a, t) \<Rightarrow> f a t))"
  by (simp add: case_prod_beta)

lemma net_call': "net_same s (snd r) \<Longrightarrow> (\<And>a t. net_same s t \<Longrightarrow> net_same s (f a t))
    \<Longrightarrow> net_same s (case r of (a, t) \<Rightarrow> f a t)"
  by (simp add: case_prod_beta)

lemma net_triple: "(\<And>a b c. net_same s (snd (f a b c)))
    \<Longrightarrow> net_same s (snd (case r of (a, b, c) \<Rightarrow> f a b c))"
  by (simp add: case_prod_beta)

lemma net_branch:
  "net_same s (snd x) \<Longrightarrow> net_same s (snd y) \<Longrightarrow> net_same s (snd (if b then x else y))"
  "net_same s u \<Longrightarrow> net_same s v \<Longrightarrow> net_same s (if b then u else v)"
  by simp_all

lemma net_option:
  "net_same s (snd x) \<Longrightarrow> (\<And>a. net_same s (snd (y a))) \<Longrightarrow>
   net_same s (snd (case q of None \<Rightarrow> x | Some a \<Rightarrow> y a))"
  "net_same s u \<Longrightarrow> (\<And>a. net_same s (v a)) \<Longrightarrow> net_same s (case q of None \<Rightarrow> u | Some a \<Rightarrow> v a)"
  by (simp_all split: option.split)

lemma net_transport:
  "net_same s (snd x) \<Longrightarrow> net_same s (snd y) \<Longrightarrow> net_same s (snd z) \<Longrightarrow>
   net_same s (snd (case q of TRANSPORT_NONE \<Rightarrow> x | TRANSPORT_UDP \<Rightarrow> y | TRANSPORT_TCP \<Rightarrow> z))"
  by (simp split: transport.split)

lemmas net_walk = net_call net_call' net_triple net_branch net_option net_transport net_pair net_chain

lemma net_same_tcp_connect: "net_same s t \<Longrightarrow> net_same s (snd (rootstream_net_tcp_connect t i))"
  unfolding rootstream_net_tcp_connect_def by (assumption | rule net_walk)+

lemma net_same_tcp_send: "net_same s t \<Longrightarrow> net_same s (snd (rootstream_net_tcp_send t i d))"
  unfolding rootstream_net_tcp_send_def Let_def by (assumption | rule net_walk)+

lemma net_same_mark: "net_same s t \<Longrightarrow> net_same s (mark_handshake_sent i t)"
  unfolding mark_handshake_sent_def by (assumption | rule net_walk)+

lemmas net_walk1 = net_walk net_same_tcp_connect net_same_tcp_send net_same_mark

lemma net_same_handshake: "net_same s t \<Longrightarrow> net_same s (snd (rootstream_net_handshake t i))"
  unfolding rootstream_net_handshake_def Let_def by (assumption | rule net_walk1)+

lemma net_same_attempt: "net_same s t \<Longrightarrow> net_same s (snd (reconnect_attempt t i))"
  unfolding reconnect_attempt_def by (assumption | rule net_walk1 net_same_handshake)+

lemma net_same_reconnect: "net_same s t \<Longrightarrow> net_same s (snd (peer_try_reconnect t i))"
  unfolding peer_try_reconnect_def by (assumption | rule net_walk1 net_same_attempt)+

lemma net_same_send_packet: "net_same s t \<Longrightarrow> net_same s (snd (send_packet t i d))"
  unfolding send_packet_def Let_def by (assumption | rule net_walk1)+

lemma net_same_encrypted:
  "net_same s t \<Longrightarrow> net_same s (snd (rootstream_net_send_encrypted X t i ty d n))"
  unfolding rootstream_net_send_encrypted_def Let_def
  by (assumption | rule net_walk1 net_same_send_packet net_same_reconnect)+

lemma net_same_control: "net_same s t \<Longrightarrow> net_same s (snd (rootstream_send_control X t i c v))"
  unfolding rootstream_send_control_def by (rule net_same_encrypted)

lemma net_same_streaming:
  "net_same s t \<Longrightarrow> net_same s (snd (rootstream_pause_stream X t i))"
  "net_same s t \<Longrightarrow> net_same s (snd (rootstream_resume_stream X t i))"
  "net_same s t \<Longrightarrow> net_same s (snd (rootstream_request_keyframe X t i))"
  unfolding rootstream_pause_stream_def rootstream_resume_stream_def rootstream_request_keyframe_def
  by (assumption | rule net_walk net_same_control)+

lemma net_same_video_loop:
  "net_same s t \<Longrightarrow> net_same s (snd (send_video_loop X i f d ts m off t))"
proof (induction X i f d ts m off t rule: send_video_loop.induct)
  case (1 X i f d ts m off t)
  show ?case
  proof (cases "off < length d \<and> 0 < m")
    case False
    then have "send_video_loop X i f d ts m off t = (0, t)"
      by (subst send_video_loop.simps) (simp only: if_False)
    with 1(2) show ?thesis by simp
  next
    case True
    define c where "c = (if length d - off > m then m else length d - off)"
    obtain r t1 where r: "rootstream_net_send_encrypted X t i PKT_VIDEO
        (Some (video_payload f d off c ts)) (VCH_SIZE + c) = (r, t1)" by fastforce
    then have "net_same s t1" using net_same_encrypted [OF 1(2)] by (metis snd_conv)
    then show ?thesis
      using 1(1) [OF True c_def r [symmetric]] True
      by (simp add: send_video_loop.simps [of X i f d ts m off t] r flip: c_def)
  qed
qed

lemma net_same_send_video: "net_same s t \<Longrightarrow> net_same s (snd (rootstream_net_send_video X t i d ts))"
  unfolding rootstream_net_send_video_def Let_def
  by (assumption | rule net_walk net_same_video_loop)+

end
