(* ===== verification/Net_Inv.thy ===== *)
theory Net_Inv
  imports Net_Frame
begin

text \<open>
  The invariants of the network core, kept by each of its operations: the number of peers, the range of the
  encoder settings that peers may change, and the ownership of the reassembly buffers: every buffer is a live
  heap block of exactly the recorded capacity, and no two peers share one.
\<close>

section \<open>The invariant\<close>

text \<open>The encoder's settings are among those that the program itself has given it (\<open>E\<close>), or within the ranges of the control commands.\<close>

definition enc_ok :: "encoder_ctx set \<Rightarrow> encoder_ctx \<Rightarrow> bool" where
  "enc_ok E e \<longleftrightarrow> (bitrate e \<in> bitrate ` E \<or> 500000 \<le> bitrate e \<and> bitrate e \<le> 100000000)
     \<and> (framerate e \<in> framerate ` E \<or> 1 \<le> framerate e \<and> framerate e \<le> 240) \<and> (quality e \<in> quality ` E \<or> quality e \<le> 100)"

definition buf_ok :: "(nat \<Rightarrow> bytes option) \<Rightarrow> nat \<Rightarrow> peer \<Rightarrow> bool" where
  "buf_ok heap n p \<longleftrightarrow> video_rx_expected p \<le> MAX_VIDEO_FRAME_SIZE \<and>
     (case video_rx_buffer p of None \<Rightarrow> video_rx_capacity p = 0
      | Some b \<Rightarrow> b < n \<and> (case heap b of None \<Rightarrow> False
          | Some c \<Rightarrow> length c = video_rx_capacity p \<and> length c \<le> MAX_VIDEO_FRAME_SIZE))"

definition bufs_ok :: "(nat \<Rightarrow> bytes option) \<Rightarrow> nat \<Rightarrow> peer list \<Rightarrow> bool" where
  "bufs_ok heap n ps \<longleftrightarrow> (\<forall>i<length ps. buf_ok heap n (ps ! i)) \<and>
     (\<forall>i<length ps. \<forall>j<length ps. video_rx_buffer (ps ! i) = video_rx_buffer (ps ! j)
        \<longrightarrow> video_rx_buffer (ps ! i) = None \<or> i = j)"

definition net_inv :: "encoder_ctx set \<Rightarrow> rs \<Rightarrow> bool" where
  "net_inv E s \<longleftrightarrow> length (c_peers s) \<le> MAX_PEERS \<and> enc_ok E (c_encoder s)
     \<and> bufs_ok (w_heap s) (w_next s) (c_peers s)"

lemma buf_ok_core:
  assumes "peer_core p' = peer_core p"
  shows "buf_ok h n p' = buf_ok h n p"
  using peer_core_fields(1-3) [OF assms] by (simp only: buf_ok_def)

lemma net_inv_same:
  assumes "net_same s s'" and "net_inv E s"
  shows "net_inv E s'"
proof -
  note len = net_same_length [OF assms(1)] and f = net_same_fields [OF assms(1)]
  have c: "peer_core (c_peers s' ! i) = peer_core (c_peers s ! i)" if "i < length (c_peers s)" for i
    using net_same_peer [OF assms(1) that] by (simp add: peer_at_def)
  have b: "video_rx_buffer (c_peers s' ! i) = video_rx_buffer (c_peers s ! i)"
    if "i < length (c_peers s)" for i using peer_core_fields(1) [OF c [OF that]] .
  have "buf_ok (w_heap s) (w_next s) (c_peers s' ! i)" if "i < length (c_peers s)" for i
    using assms(2) that buf_ok_core [OF c [OF that]] by (simp add: net_inv_def bufs_ok_def)
  moreover have "\<forall>i<length (c_peers s). \<forall>j<length (c_peers s).
      video_rx_buffer (c_peers s' ! i) = video_rx_buffer (c_peers s' ! j)
        \<longrightarrow> video_rx_buffer (c_peers s' ! i) = None \<or> i = j"
    using assms(2) b by (simp add: net_inv_def bufs_ok_def)
  ultimately show ?thesis using assms(2) by (simp add: net_inv_def bufs_ok_def len f)
qed

text \<open>An update of one peer that keeps its buffer fields keeps the invariant.\<close>

lemma net_inv_upd:
  assumes "net_inv E s" and "\<And>p. video_rx_buffer (f p) = video_rx_buffer p"
    and "\<And>p. video_rx_capacity (f p) = video_rx_capacity p"
    and "\<And>p. video_rx_expected p \<le> MAX_VIDEO_FRAME_SIZE \<Longrightarrow> video_rx_expected (f p) \<le> MAX_VIDEO_FRAME_SIZE"
  shows "net_inv E (upd_peer i f s)"
proof -
  have b: "video_rx_buffer ((c_peers s)[i := f (c_peers s ! i)] ! j) = video_rx_buffer (c_peers s ! j)"
    if "j < length (c_peers s)" for j using that assms(2) by (cases "i = j") simp_all
  have "buf_ok (w_heap s) (w_next s) ((c_peers s)[i := f (c_peers s ! i)] ! j)"
    if "j < length (c_peers s)" for j
  proof (cases "i = j")
    case True
    have "buf_ok (w_heap s) (w_next s) (c_peers s ! j)"
      using assms(1) that by (simp add: net_inv_def bufs_ok_def)
    then show ?thesis using True that by (auto simp: buf_ok_def assms(2-4) split: option.splits)
  qed (use assms(1) that in \<open>simp add: net_inv_def bufs_ok_def\<close>)
  then show ?thesis using assms(1) b by (simp add: net_inv_def bufs_ok_def upd_peer_def)
qed

lemma bufs_ok_append:
  assumes "bufs_ok h n ps" and "video_rx_buffer p = None" "video_rx_capacity p = 0" "video_rx_expected p = 0"
  shows "bufs_ok h n (ps @ [p])"
  using assms by (simp add: bufs_ok_def buf_ok_def nth_append less_Suc_eq all_conj_distrib imp_conjL)

lemma net_inv_append:
  assumes "net_inv E s" and "length (c_peers s) < MAX_PEERS"
    and "video_rx_buffer p = None" "video_rx_capacity p = 0" "video_rx_expected p = 0"
  shows "net_inv E (s\<lparr>c_peers := c_peers s @ [p]\<rparr>)"
  using assms by (simp add: net_inv_def bufs_ok_append)

section \<open>Video chunks\<close>

lemma buf_ok_other:
  assumes "buf_ok h n p" and "video_rx_buffer p \<noteq> Some b"
  shows "buf_ok (h(b := x)) n p" and "b = n \<Longrightarrow> buf_ok (h(b := x)) (Suc n) p"
  using assms by (auto simp: buf_ok_def split: option.splits)

text \<open>
  What a peer with index \<open>i\<close> does to its own buffer: another block, or other contents of the same
  length, while no other peer has the block.
\<close>

lemma net_inv_own:
  assumes inv: "net_inv E s" and i: "i < length (c_peers s)"
    and p': "buf_ok h' n' p'"
    and oth: "\<And>j. j < length (c_peers s) \<Longrightarrow> j \<noteq> i \<Longrightarrow> buf_ok h' n' (c_peers s ! j)"
    and dis: "\<And>j. j < length (c_peers s) \<Longrightarrow> j \<noteq> i \<Longrightarrow>
      video_rx_buffer (c_peers s ! j) = video_rx_buffer p' \<Longrightarrow> video_rx_buffer p' = None"
  shows "bufs_ok h' n' ((c_peers s)[i := p'])"
proof -
  have d: "\<forall>i<length (c_peers s). \<forall>j<length (c_peers s).
      video_rx_buffer (c_peers s ! i) = video_rx_buffer (c_peers s ! j)
        \<longrightarrow> video_rx_buffer (c_peers s ! i) = None \<or> i = j"
    using inv by (simp add: net_inv_def bufs_ok_def)
  show ?thesis unfolding bufs_ok_def length_list_update
  proof (intro conjI allI impI)
    fix j assume "j < length (c_peers s)"
    then show "buf_ok h' n' ((c_peers s)[i := p'] ! j)" using p' oth by (cases "j = i") simp_all
  next
    fix j k assume jk: "j < length (c_peers s)" "k < length (c_peers s)"
      and e: "video_rx_buffer ((c_peers s)[i := p'] ! j) = video_rx_buffer ((c_peers s)[i := p'] ! k)"
    show "video_rx_buffer ((c_peers s)[i := p'] ! j) = None \<or> j = k"
    proof (cases "j = k")
      case False
      then consider "j = i" "k \<noteq> i" | "j \<noteq> i" "k = i" | "j \<noteq> i" "k \<noteq> i" by blast
      then show ?thesis
      proof cases
        case 1
        then show ?thesis using e jk dis [of k] by simp
      next
        case 2
        then show ?thesis using e jk dis [of j] by simp
      next
        case 3
        then show ?thesis using e jk d by simp
      qed
    qed simp
  qed
qed

lemma buffers_differ:
  assumes "net_inv E s" and "i < length (c_peers s)" "j < length (c_peers s)" "j \<noteq> i"
    and "video_rx_buffer (c_peers s ! i) = Some b"
  shows "video_rx_buffer (c_peers s ! j) \<noteq> Some b"
  using assms unfolding net_inv_def bufs_ok_def by (metis option.distinct(1))

lemma net_inv_peer: "net_inv E s \<Longrightarrow> i < length (c_peers s) \<Longrightarrow> buf_ok (w_heap s) (w_next s) (c_peers s ! i)"
  by (simp add: net_inv_def bufs_ok_def)

lemma net_inv_new_frame:
  assumes "net_inv E s" and "unat (vc_total_size h) \<le> MAX_VIDEO_FRAME_SIZE"
  shows "net_inv E (upd_peer i (video_new_frame h) s)"
  using assms(1) by (rule net_inv_upd) (simp_all add: video_new_frame_def assms(2))

text \<open>The bytes a grown buffer starts with, and the state after growing.\<close>

definition grown :: "rs \<Rightarrow> peer \<Rightarrow> bytes" where
  "grown s p = (let kept = (case video_rx_buffer p of None \<Rightarrow> [] | Some b \<Rightarrow>
      (case w_heap s b of None \<Rightarrow> [] | Some c \<Rightarrow> take (video_rx_expected p) c))
    in kept @ map (w_junk s) [0..<video_rx_expected p - length kept])"

definition freed :: "rs \<Rightarrow> peer \<Rightarrow> nat \<Rightarrow> bytes option" where
  "freed s p = (case video_rx_buffer p of None \<Rightarrow> w_heap s | Some b \<Rightarrow> (w_heap s)(b := None))"

lemma length_grown [simp]: "length (grown s p) = video_rx_expected p"
  by (simp add: grown_def Let_def split: option.split)

lemma video_grow_eq:
  assumes "video_rx_capacity (peer_at s i) < video_rx_expected (peer_at s i)"
    and "w_alloc s (w_allocs s)"
  shows "video_grow s i = (True, s\<lparr>c_peers := (c_peers s)[i := (c_peers s ! i)\<lparr>video_rx_buffer := Some (w_next s),
      video_rx_capacity := video_rx_expected (c_peers s ! i)\<rparr>], w_allocs := w_allocs s + 1,
      w_heap := (freed s (peer_at s i))(w_next s := Some (grown s (peer_at s i))),
      w_next := w_next s + 1\<rparr>)"
  using assms
  by (simp add: video_grow_def realloc_def alloc_ok_def peer_at_def upd_peer_def Let_def grown_def freed_def
      cong: option.case_cong)

lemma net_inv_grow:
  assumes inv: "net_inv E s" and i: "i < length (c_peers s)" and g: "video_grow s i = (ok, s1)"
  shows "net_inv E s1 \<and> length (c_peers s1) = length (c_peers s) \<and> w_fault s1 = w_fault s"
proof (cases "video_rx_capacity (peer_at s i) < video_rx_expected (peer_at s i)
    \<and> w_alloc s (w_allocs s)")
  case False
  then show ?thesis using assms
    by (auto simp: video_grow_def realloc_def alloc_ok_def net_inv_def Let_def split: if_splits)
next
  case True
  let ?p = "c_peers s ! i"
  let ?heap = "freed s ?p"
  let ?h' = "?heap(w_next s := Some (grown s ?p))"
  let ?p' = "?p\<lparr>video_rx_buffer := Some (w_next s), video_rx_capacity := video_rx_expected ?p\<rparr>"
  have s1: "s1 = s\<lparr>c_peers := (c_peers s)[i := ?p'], w_allocs := w_allocs s + 1, w_heap := ?h',
      w_next := w_next s + 1\<rparr>"
    using g True video_grow_eq [of s i] by (simp add: peer_at_def)
  note me = net_inv_peer [OF inv i]
  have old: "video_rx_buffer (c_peers s ! j) \<noteq> Some (w_next s)" if "j < length (c_peers s)" for j
    using net_inv_peer [OF inv that] by (auto simp: buf_ok_def)
  have "bufs_ok ?h' (w_next s + 1) ((c_peers s)[i := ?p'])"
  proof (rule net_inv_own [OF inv i])
    show "buf_ok ?h' (w_next s + 1) ?p'" using me by (simp add: buf_ok_def)
  next
    fix j assume j: "j < length (c_peers s)" "j \<noteq> i"
    have "buf_ok ?heap (w_next s) (c_peers s ! j)"
      using net_inv_peer [OF inv j(1)] buffers_differ [OF inv i j]
      by (auto simp: freed_def buf_ok_other split: option.split)
    then show "buf_ok ?h' (w_next s + 1) (c_peers s ! j)"
      using buf_ok_other(2) [OF _ old [OF j(1)] refl] by simp
  next
    fix j assume j: "j < length (c_peers s)" "j \<noteq> i"
      and e: "video_rx_buffer (c_peers s ! j) = video_rx_buffer ?p'"
    then show "video_rx_buffer ?p' = None" using old [OF j(1)] by simp
  qed
  then show ?thesis using inv by (simp add: s1 net_inv_def)
qed

lemma net_inv_write:
  assumes inv: "net_inv E s" and i: "i < length (c_peers s)"
  shows "net_inv E (heap_write (video_rx_buffer (peer_at s i)) off bs s)"
proof (cases "\<exists>b c. video_rx_buffer (c_peers s ! i) = Some b \<and> w_heap s b = Some c
    \<and> off + length bs \<le> length c \<and> bs \<noteq> []")
  case False
  then have "heap_write (video_rx_buffer (peer_at s i)) off bs s = s
      \<or> heap_write (video_rx_buffer (peer_at s i)) off bs s = s\<lparr>w_fault := True\<rparr>"
    by (simp add: heap_write_def peer_at_def split: option.split)
  moreover have "net_inv E (s\<lparr>w_fault := True\<rparr>)" using inv by (simp add: net_inv_def)
  ultimately show ?thesis using inv by metis
next
  case True
  then obtain b c where b: "video_rx_buffer (c_peers s ! i) = Some b" and c: "w_heap s b = Some c"
    and le: "off + length bs \<le> length c" and bs: "bs \<noteq> []" by blast
  let ?h' = "(w_heap s)(b := Some (write_at off bs c))"
  note me = net_inv_peer [OF inv i]
  have "bufs_ok ?h' (w_next s) ((c_peers s)[i := c_peers s ! i])"
  proof (rule net_inv_own [OF inv i])
    show "buf_ok ?h' (w_next s) (c_peers s ! i)" using me b c le by (simp add: buf_ok_def)
  next
    fix j assume j: "j < length (c_peers s)" "j \<noteq> i"
    show "buf_ok ?h' (w_next s) (c_peers s ! j)"
      using buf_ok_other(1) [OF net_inv_peer [OF inv j(1)] buffers_differ [OF inv i j b]] .
  next
    fix j assume "j < length (c_peers s)" "j \<noteq> i"
      "video_rx_buffer (c_peers s ! j) = video_rx_buffer (c_peers s ! i)"
    then show "video_rx_buffer (c_peers s ! i) = None" using buffers_differ [OF inv i _ _ b] b by simp
  qed
  then show ?thesis using inv b c le bs by (simp add: heap_write_def peer_at_def net_inv_def)
qed

lemma heap_write_peers [simp]: "c_peers (heap_write b off bs s) = c_peers s"
  by (simp add: heap_write_def split: option.split)

lemma net_inv_complete: "net_inv E s \<Longrightarrow> net_inv E (video_complete s i ts)"
  by (simp add: video_complete_def Let_def net_inv_def)

lemma length_video_complete [simp]: "c_peers (video_complete s i ts) = c_peers s"
  by (simp add: video_complete_def Let_def)

lemma net_inv_video:
  assumes inv: "net_inv E s" and i: "i < length (c_peers s)"
  shows "net_inv E (snd (process_video s i dec)) \<and>
    length (c_peers (snd (process_video s i dec))) = length (c_peers s)"
proof (cases "video_chunk_ok dec")
  case False
  then show ?thesis using inv by (simp add: process_video_def)
next
  case True
  let ?h = "read_chunk_header dec"
  let ?s0 = "upd_peer i (video_new_frame ?h) s"
  have 0: "net_inv E ?s0"
    using net_inv_new_frame [OF inv] True by (simp add: video_chunk_ok_def Let_def)
  obtain ok s1 where g: "video_grow ?s0 i = (ok, s1)" by fastforce
  note 1 = net_inv_grow [OF 0 _ g]
  have i1: "i < length (c_peers s1)" and n1: "net_inv E s1" using 1 i by simp_all
  let ?s2 = "heap_write (video_rx_buffer (peer_at s1 i)) (unat (vc_offset ?h))
      (take (unat (vc_chunk_size ?h)) (drop VCH_SIZE dec)) s1"
  have 2: "net_inv E ?s2" by (rule net_inv_write [OF n1 i1])
  have "net_inv E (upd_peer i (\<lambda>p. p\<lparr>video_rx_received := video_rx_received p + unat (vc_chunk_size ?h)\<rparr>) ?s2)"
    using 2 by (rule net_inv_upd) simp_all
  then show ?thesis using n1 1 i True
    by (simp add: process_video_def g Let_def net_inv_complete)
qed

section \<open>The receivers keep the invariant\<close>

lemmas net_inv_send =
  net_inv_same [OF net_same_encrypted [OF net_same_refl]]
  net_inv_same [OF net_same_handshake [OF net_same_refl]]
  net_inv_same [OF net_same_reconnect [OF net_same_refl]]
  net_inv_same [OF net_same_send_video [OF net_same_refl]]
  net_inv_same [OF net_same_control [OF net_same_refl]]
  net_inv_same [OF net_same_streaming(1) [OF net_same_refl]]
  net_inv_same [OF net_same_streaming(2) [OF net_same_refl]]
  net_inv_same [OF net_same_streaming(3) [OF net_same_refl]]
  net_inv_same [OF net_same_emit]
  net_inv_same [OF net_same_clock]

lemma net_inv_counter:
  "net_inv E s \<Longrightarrow> net_inv E (s\<lparr>c_bytes_received := x\<rparr>)" "net_inv E s \<Longrightarrow> net_inv E (s\<lparr>w_tcp_in := y\<rparr>)"
  "net_inv E s \<Longrightarrow> net_inv E (s\<lparr>c_last_audio_ts := z\<rparr>)" "net_inv E s \<Longrightarrow> net_inv E (s\<lparr>c_frame := f\<rparr>)"
  by (simp_all add: net_inv_def)

lemma enc_ok_control:
  assumes "enc_ok E (c_encoder s)"
  shows "enc_ok E (c_encoder (process_control s i dec))"
proof -
  have q: "ucast v \<le> (100 :: u8)" if "v \<le> 100" for v :: u32
  proof -
    have "unat v \<le> 100" using that by (simp add: word_le_nat_alt)
    then show ?thesis by (simp add: word_le_nat_alt unsigned_ucast_eq take_bit_eq_mod)
  qed
  show ?thesis using assms by (auto simp: process_control_def enc_ok_def Let_def upd_peer_def q)
qed

lemma net_inv_control:
  assumes "net_inv E s"
  shows "net_inv E (process_control s i dec)"
proof -
  have "net_inv E (upd_peer i (\<lambda>p. p\<lparr>is_streaming := b\<rparr>) s)" for b
    using assms by (rule net_inv_upd) simp_all
  moreover have "net_inv E (upd_peer i (\<lambda>p. p\<lparr>p_state := PEER_DISCONNECTED, is_streaming := False\<rparr>) s)"
    using assms by (rule net_inv_upd) simp_all
  moreover have "enc_ok E (c_encoder (process_control s i dec))"
    using enc_ok_control assms by (simp add: net_inv_def)
  ultimately show ?thesis using assms
    by (auto simp: process_control_def Let_def net_inv_def split: if_splits)
qed

lemma net_inv_audio: "net_inv E s \<Longrightarrow> net_inv E (snd (process_audio X s dec))"
  using net_inv_send(9) net_inv_counter(3)
  by (simp add: process_audio_def Let_def split: option.split)

lemma net_inv_state:
  assumes "net_inv E s"
  shows "net_inv E (upd_peer i (\<lambda>p. p\<lparr>p_state := st\<rparr>) s)"
    and "net_inv E (upd_peer i (\<lambda>p. p\<lparr>session := se, p_state := st\<rparr>) s)"
    and "net_inv E (upd_peer i (\<lambda>p. p\<lparr>p_state := st, is_streaming := g p\<rparr>) s)"
    and "net_inv E (upd_peer i (\<lambda>p. p\<lparr>public_key := key, hostname := h p, protocol_version := v,
           protocol_flags := fl\<rparr>) s)"
  by (rule net_inv_upd [OF assms]; simp)+

lemma net_inv_answered:
  assumes "rootstream_net_handshake (upd_peer i (\<lambda>p. p\<lparr>session := se, p_state := st\<rparr>) s) i = (r, s3)"
    and "net_inv E s"
  shows "net_inv E s3"
  using net_inv_send(2) [OF net_inv_state(2) [OF assms(2)]] assms(1) by (metis snd_conv)

lemma net_inv_handshake:
  assumes inv: "net_inv E s"
  shows "net_inv E (process_handshake X s i payload)"
proof -
  have greeted: "net_inv E (snd (rootstream_request_keyframe X (emit ev
      (upd_peer i (\<lambda>p. p\<lparr>p_state := st, is_streaming := g p\<rparr>) s3)) i))"
    "net_inv E (emit ev (upd_peer i (\<lambda>p. p\<lparr>p_state := st, is_streaming := g p\<rparr>) s3))"
    if "net_inv E s3" for ev st g s3
    using net_inv_send(8) [OF net_inv_send(9) [OF net_inv_state(3) [OF that]]]
      net_inv_send(9) [OF net_inv_state(3) [OF that]] by blast+
  show ?thesis using inv unfolding process_handshake_def Let_def
    by (auto split: prod.split intro!: greeted net_inv_state(1,2,4) elim!: net_inv_answered)
qed

lemma net_inv_payload:
  "net_inv E s \<Longrightarrow> i < length (c_peers s) \<Longrightarrow> net_inv E (snd (process_payload X s i t dec))"
  using net_inv_send(9) net_inv_video [of E s i dec] net_inv_audio net_inv_control
  by (simp add: process_payload_def)

lemma net_inv_packet_for:
  assumes "net_inv E s" and "i < length (c_peers s)"
  shows "net_inv E (process_packet_for X s i buffer)"
  using net_inv_handshake [OF assms(1)] net_inv_payload [OF assms] net_inv_send(1) [OF assms(1)]
    net_inv_counter(1) assms
  by (simp add: process_packet_for_def Let_def case_prod_beta split: option.split)

lemma net_inv_received:
  assumes inv: "net_inv E s"
  shows "net_inv E (process_received_packet X s buffer from n t)"
proof -
  have step: "net_inv E (case get_timestamp_ms u of (t1, s2) \<Rightarrow> case get_timestamp_ms s2 of (t2, s3) \<Rightarrow>
      process_packet_for X (upd_peer i (\<lambda>p. p\<lparr>last_seen := t1, last_received := t2\<rparr>) s3) i buffer)"
    if "net_inv E u" "i < length (c_peers u)" for u i
  proof -
    obtain t1 s2 where 1: "get_timestamp_ms u = (t1, s2)" by fastforce
    obtain t2 s3 where 2: "get_timestamp_ms s2 = (t2, s3)" by fastforce
    have "net_inv E s3" using net_inv_send(10) that(1) 1 2 by (metis snd_conv)
    then have "net_inv E (upd_peer i (\<lambda>p. p\<lparr>last_seen := t1, last_received := t2\<rparr>) s3)"
      by (rule net_inv_upd) simp_all
    moreover have "c_peers s3 = c_peers u" using 1 2 by (auto simp: get_timestamp_ms_def)
    ultimately show ?thesis using that(2) by (simp add: 1 2 net_inv_packet_for)
  qed
  have new: "net_inv E (s\<lparr>c_peers := c_peers s @ [new_peer from n t]\<rparr>)"
    if "length (c_peers s) < MAX_PEERS"
    using inv that by (rule net_inv_append) (simp_all add: new_peer_def zero_peer_def)
  show ?thesis
    using inv new step
    by (auto simp: process_received_packet_def Let_def rootstream_find_peer_by_addr_def
        dest: first_idx_length split: option.split)
qed

lemma net_inv_udp: "net_inv E s \<Longrightarrow> net_inv E (recv_udp X s d from n)"
  by (simp add: recv_udp_def Let_def net_inv_received)

lemma net_inv_tcp_recv:
  "net_inv E s \<Longrightarrow> rootstream_net_tcp_recv s i = (r, b, s') \<Longrightarrow> net_inv E s'"
proof -
  assume inv: "net_inv E s" and r: "rootstream_net_tcp_recv s i = (r, b, s')"
  have u: "net_inv E (upd_peer i (\<lambda>p. p\<lparr>transport_priv := q\<rparr>) s1)" if "net_inv E s1" for s1 q
    using that by (rule net_inv_upd) simp_all
  have v: "net_inv E (upd_peer i (\<lambda>p. p\<lparr>last_received := x\<rparr>) s1)" if "net_inv E s1" for s1 x
    using that by (rule net_inv_upd) simp_all
  have "net_inv E (snd (snd (rootstream_net_tcp_recv s i)))"
    using inv unfolding rootstream_net_tcp_recv_def Let_def case_prod_beta
    by (auto intro!: u v net_inv_send(10) net_inv_counter(1,2) split: option.split sock_in.split)
  with r show ?thesis by simp
qed

lemma net_inv_recv_tcp_peer: "net_inv E s \<Longrightarrow> net_inv E (recv_tcp_peer X s i)"
proof -
  assume inv: "net_inv E s"
  obtain r b s1 where r: "rootstream_net_tcp_recv s i = (r, b, s1)" by (metis prod_cases3)
  have 1: "net_inv E s1" using net_inv_tcp_recv [OF inv r] .
  have 2: "net_inv E (upd_peer i (\<lambda>p. p\<lparr>p_state := PEER_DISCONNECTED\<rparr>) s1)"
    using 1 by (rule net_inv_upd) simp_all
  show ?thesis using inv 1 2 net_inv_send(3) [OF 2, of i]
    by (simp add: recv_tcp_peer_def r Let_def net_inv_received split: option.split)
qed

section \<open>Removing, adding and the timer\<close>

lemma bufs_ok_subset:
  assumes "bufs_ok h n ps" and "length qs \<le> length ps"
    and f: "\<And>j. j < length qs \<Longrightarrow> f j < length ps \<and> qs ! j = ps ! f j"
    and inj: "\<And>j k. j < length qs \<Longrightarrow> k < length qs \<Longrightarrow> f j = f k \<Longrightarrow> j = k"
  shows "bufs_ok h n qs"
  using assms(1) unfolding bufs_ok_def
proof (elim conjE, intro conjI allI impI)
  assume a: "\<forall>i<length ps. buf_ok h n (ps ! i)"
    and b: "\<forall>i<length ps. \<forall>j<length ps. video_rx_buffer (ps ! i) = video_rx_buffer (ps ! j)
        \<longrightarrow> video_rx_buffer (ps ! i) = None \<or> i = j"
  show "buf_ok h n (qs ! j)" if "j < length qs" for j using f [OF that] a by simp
  fix j k assume j: "j < length qs" and k: "k < length qs"
    and e: "video_rx_buffer (qs ! j) = video_rx_buffer (qs ! k)"
  then show "video_rx_buffer (qs ! j) = None \<or> j = k"
    using b f [OF j] f [OF k] inj [OF j k] by metis
qed

lemma net_inv_remove:
  assumes inv: "net_inv E s"
  shows "net_inv E (rootstream_remove_peer i s)"
proof (cases "i < length (c_peers s)")
  case False
  then show ?thesis using inv by (simp add: rootstream_remove_peer_def)
next
  case True
  let ?b = "video_rx_buffer (c_peers s ! i)"
  let ?h = "case ?b of None \<Rightarrow> w_heap s | Some b \<Rightarrow> (w_heap s)(b := None)"
  let ?qs = "take i (c_peers s) @ drop (i + 1) (c_peers s)"
  have len: "length ?qs \<le> length (c_peers s)" by simp
  define f where "f j = (if j < i then j else j + 1)" for j
  have fq: "f j < length (c_peers s) \<and> ?qs ! j = c_peers s ! f j" if "j < length ?qs" for j
    using that True by (auto simp: f_def nth_append)
  have "bufs_ok (w_heap s) (w_next s) ?qs"
  proof (rule bufs_ok_subset)
    show "bufs_ok (w_heap s) (w_next s) (c_peers s)" using inv by (simp add: net_inv_def)
    show "length ?qs \<le> length (c_peers s)" by (rule len)
    show "f j < length (c_peers s) \<and> ?qs ! j = c_peers s ! f j" if "j < length ?qs" for j
      using fq [OF that] .
    show "j = k" if "f j = f k" for j k using that by (simp add: f_def split: if_splits)
  qed
  moreover have "buf_ok ?h (w_next s) (?qs ! j)" if j: "j < length ?qs" for j
  proof -
    have fi: "f j \<noteq> i" by (simp add: f_def)
    have fl: "f j < length (c_peers s)" and qj: "?qs ! j = c_peers s ! f j"
      using fq [OF j] by blast+
    have "video_rx_buffer (?qs ! j) \<noteq> Some b" if "?b = Some b" for b
      unfolding qj using inv True fl fi that by (rule buffers_differ)
    moreover have "buf_ok (w_heap s) (w_next s) (?qs ! j)"
      unfolding qj using inv fl by (rule net_inv_peer)
    ultimately show ?thesis by (cases ?b) (simp_all add: buf_ok_other)
  qed
  ultimately have "bufs_ok ?h (w_next s) ?qs" by (simp add: bufs_ok_def)
  moreover have "rootstream_remove_peer i s =
      (s\<lparr>c_frame := (if ?b \<noteq> None \<and> f_data (c_frame s) = ?b
            then (c_frame s)\<lparr>f_data := None, f_size := 0\<rparr> else c_frame s),
         w_heap := ?h, c_peers := ?qs\<rparr>)"
    using True by (auto simp: rootstream_remove_peer_def peer_at_def heap_free_def Let_def
        split: option.split)
  ultimately show ?thesis using inv True unfolding net_inv_def by simp linarith
qed

lemma net_inv_reconnect_loop: "net_inv E s \<Longrightarrow> net_inv E (recv_reconnect n s)"
proof (induction n arbitrary: s)
  case 0
  then show ?case by simp
next
  case (Suc n)
  have "net_inv E (recv_reconnect_peer s n)"
    using Suc.prems net_inv_send(3) [OF Suc.prems, of n]
    by (simp add: recv_reconnect_peer_def case_prod_beta net_inv_remove)
  then show ?case by (simp add: Suc.IH)
qed

lemma net_inv_fold:
  "(\<And>s x. net_inv E s \<Longrightarrow> net_inv E (f s x)) \<Longrightarrow> net_inv E s \<Longrightarrow> net_inv E (foldl f s xs)"
  by (induction xs arbitrary: s) auto

lemma net_inv_recv: "net_inv E s \<Longrightarrow> net_inv E (snd (rootstream_net_recv X s inp))"
  by (cases inp) (simp_all add: rootstream_net_recv_def Let_def net_inv_reconnect_loop net_inv_udp
      net_inv_fold net_inv_recv_tcp_peer)

lemma net_inv_tick_handshake: "net_inv E s \<Longrightarrow> net_inv E (tick_handshake s now i)"
proof -
  assume inv: "net_inv E s"
  note h = net_inv_send(2) [OF inv, of i]
  have "net_inv E (upd_peer i (\<lambda>p. p\<lparr>p_state := PEER_DISCONNECTED\<rparr>) t)" if "net_inv E t" for t
    using that by (rule net_inv_upd) simp_all
  with inv h show ?thesis by (simp add: tick_handshake_def Let_def)
qed

lemma net_inv_timeout:
  assumes inv: "net_inv E s" and i: "i < length (c_peers s)"
    and b: "video_rx_buffer (c_peers s ! i) = Some b"
  shows "net_inv E (upd_peer i (\<lambda>p. p\<lparr>video_rx_buffer := None, video_rx_capacity := 0\<rparr>)
    (s\<lparr>w_heap := (w_heap s)(b := None)\<rparr>))"
proof -
  let ?p' = "(c_peers s ! i)\<lparr>video_rx_buffer := None, video_rx_capacity := 0\<rparr>"
  have "bufs_ok ((w_heap s)(b := None)) (w_next s) ((c_peers s)[i := ?p'])"
  proof (rule net_inv_own [OF inv i])
    show "buf_ok ((w_heap s)(b := None)) (w_next s) ?p'"
      using net_inv_peer [OF inv i] by (simp add: buf_ok_def)
    show "buf_ok ((w_heap s)(b := None)) (w_next s) (c_peers s ! j)"
      if "j < length (c_peers s)" "j \<noteq> i" for j
      using buf_ok_other(1) [OF net_inv_peer [OF inv that(1)] buffers_differ [OF inv i that b]] .
    show "video_rx_buffer ?p' = None" by simp
  qed
  then show ?thesis using inv by (simp add: net_inv_def upd_peer_def)
qed

lemma net_inv_tick_peer:
  assumes inv: "net_inv E s" and i: "i < length (c_peers s)"
  shows "net_inv E (tick_peer X now s i) \<and> length (c_peers (tick_peer X now s i)) = length (c_peers s)"
proof -
  let ?s = "tick_handshake s now i"
  have s: "net_inv E ?s" by (rule net_inv_tick_handshake [OF inv])
  have len: "length (c_peers ?s) = length (c_peers s)"
    using net_same_length [OF net_same_handshake [OF net_same_refl]]
    by (simp add: tick_handshake_def Let_def)
  let ?d = "\<lambda>p. p\<lparr>p_state := PEER_DISCONNECTED, is_streaming := False\<rparr>"
  have d: "net_inv E (upd_peer i ?d ?s)" using s by (rule net_inv_upd) simp_all
  have p: "net_inv E (upd_peer i (\<lambda>p. p\<lparr>last_ping := now\<rparr>) t)" if "net_inv E t" for t
    using that by (rule net_inv_upd) simp_all
  have free: "net_inv E (upd_peer i (\<lambda>p. p\<lparr>video_rx_buffer := None, video_rx_capacity := 0\<rparr>)
      (heap_free (video_rx_buffer (peer_at ?s i)) (upd_peer i ?d ?s)))"
    if "video_rx_buffer (peer_at ?s i) \<noteq> None"
  proof -
    from that obtain b where b: "video_rx_buffer (peer_at ?s i) = Some b" by blast
    have "video_rx_buffer (c_peers (upd_peer i ?d ?s) ! i) = Some b"
      using b i len by (simp add: upd_peer_def peer_at_def)
    from net_inv_timeout [OF d _ this] b i len show ?thesis by (simp add: heap_free_def)
  qed
  have "length (c_peers (heap_free b t)) = length (c_peers t)" for b t
    by (simp add: heap_free_def split: option.split)
  moreover have "length (c_peers (snd (rootstream_net_send_encrypted X t i PKT_PING None 0))) = length (c_peers t)" for t
    using net_same_length [OF net_same_encrypted [OF net_same_refl]] .
  ultimately show ?thesis using s d free p net_inv_send(1) [OF s] len
    by (simp add: tick_peer_def tick_connected_def Let_def)
qed

lemma net_inv_tick:
  assumes "net_inv E s"
  shows "net_inv E (rootstream_net_tick X s)"
proof -
  obtain now s1 where c: "get_timestamp_ms s = (now, s1)" by fastforce
  have 1: "net_inv E s1" using net_inv_send(10) [OF assms] c by simp
  have "net_inv E (foldl (tick_peer X now) s1 is) \<and>
      length (c_peers (foldl (tick_peer X now) s1 is)) = length (c_peers s1)"
    if "set is \<subseteq> {..<length (c_peers s1)}" for "is"
    using that
    by (induction "is" rule: rev_induct) (use net_inv_tick_peer [where E = E] 1 in auto)
  from this [of "[0..<length (c_peers s1)]"] show ?thesis
    by (simp add: rootstream_net_tick_def c lessThan_atLeast0)
qed

lemma net_inv_add: "net_inv E s \<Longrightarrow> net_inv E (snd (rootstream_add_peer X s code))"
proof -
  assume inv: "net_inv E s"
  have u: "net_inv E (upd_peer i (\<lambda>p. p\<lparr>rootstream_code := c,
      hostname := (if name \<noteq> [] then name else hostname p)\<rparr>) s)" for i c name
    using inv by (rule net_inv_upd) simp_all
  have v: "net_inv E (upd_peer i (\<lambda>p. p\<lparr>session := se\<rparr>) t)" if "net_inv E t" for i se t
    using that by (rule net_inv_upd) simp_all
  have w: "net_inv E (snd (peer_reconnect_init t i))" if "net_inv E t" for t i
  proof -
    have a: "net_inv E (snd (alloc_ok t))" using that net_inv_same [OF net_same_alloc] by blast
    have "net_inv E (upd_peer i (\<lambda>p. p\<lparr>p_reconnect := q\<rparr>) t)" if "net_inv E t" for t q
      using that by (rule net_inv_upd) simp_all
    with a show ?thesis by (simp add: peer_reconnect_init_def case_prod_beta)
  qed
  have n: "net_inv E (s\<lparr>c_peers := c_peers s @ [zero_peer\<lparr>public_key := key, hostname := name,
      rootstream_code := cstr_fit 128 code, session := se, p_state := PEER_DISCOVERED,
      video_tx_frame_id := 1, p_transport := TRANSPORT_UDP\<rparr>]\<rparr>)"
    if "length (c_peers s) < MAX_PEERS" for key name se
    using inv that by (rule net_inv_append) (simp_all add: zero_peer_def)
  show ?thesis
    unfolding rootstream_add_peer_def Let_def
    by (auto simp: not_le intro!: inv u v w n split: option.split prod.split)
qed

lemma net_inv_connect:
  assumes "net_inv E s"
  shows "net_inv E (snd (rootstream_connect_to_peer X s code))"
proof -
  obtain r s1 where a: "rootstream_add_peer X s code = (r, s1)" by fastforce
  have 1: "net_inv E s1" using net_inv_add [OF assms, of X code] a by simp
  have u: "net_inv E (upd_peer i (\<lambda>p. p\<lparr>addr := x, addr_len := y\<rparr>) t)" if "net_inv E t" for i x y t
    using that by (rule net_inv_upd) simp_all
  have v: "net_inv E (upd_peer i (\<lambda>p. p\<lparr>p_state := PEER_CONNECTING\<rparr>) t)" if "net_inv E t" for i t
    using that by (rule net_inv_upd) simp_all
  have w: "net_inv E (upd_peer i (\<lambda>p. p\<lparr>addr := x\<rparr>) t)" if "net_inv E t" for i x t
    using that by (rule net_inv_upd) simp_all
  show ?thesis
    unfolding rootstream_connect_to_peer_def a prod.case case_prod_beta
    by (auto intro!: 1 u v w net_inv_send(2) split: option.split)
qed

section \<open>The current frame\<close>

text \<open>Captures write into the current frame, whatever block it is, and allocate it.\<close>

lemma bufs_ok_lengths:
  assumes "bufs_ok heap n ps" "\<And>a. map_option length (heap' a) = map_option length (heap a)"
  shows "bufs_ok heap' n ps"
proof -
  have "(case heap' a of None \<Rightarrow> False | Some c \<Rightarrow> length c = m \<and> length c \<le> M) = (case heap a of None \<Rightarrow> False | Some c \<Rightarrow> length c = m \<and> length c \<le> M)" for a m M
    using assms(2) [of a] by (cases "heap' a"; cases "heap a") simp_all
  then have "buf_ok heap' n p = buf_ok heap n p" for p
    unfolding buf_ok_def by (cases "video_rx_buffer p") (simp_all only: option.case)
  then show ?thesis using assms(1) by (simp add: bufs_ok_def)
qed

lemma net_inv_heap_write: "net_inv E s \<Longrightarrow> net_inv E (heap_write b off bs s)"
proof -
  assume inv: "net_inv E s"
  have "map_option length (w_heap (heap_write b off bs s) a) = map_option length (w_heap s a)" for a
    by (auto simp: heap_write_def split: option.split)
  then have "bufs_ok (w_heap (heap_write b off bs s)) (w_next s) (c_peers s)"
    using inv bufs_ok_lengths by (metis net_inv_def)
  moreover have "c_encoder (heap_write b off bs s) = c_encoder s" "w_next (heap_write b off bs s) = w_next s"
    by (auto simp: heap_write_def split: option.split)
  ultimately show ?thesis using inv by (simp add: net_inv_def)
qed

lemma net_inv_frame: "net_inv E s \<Longrightarrow> net_inv E (s\<lparr>c_frame := f\<rparr>)"
  by (simp add: net_inv_def)

lemma net_inv_new_block:
  assumes "net_inv E s" "realloc s None n = (b, s')"
  shows "net_inv E s'"
proof -
  have "bufs_ok ((w_heap s)(w_next s := x)) (Suc (w_next s)) (c_peers s)" for x
  proof -
    have "video_rx_buffer (c_peers s ! i) \<noteq> Some (w_next s)" if "i < length (c_peers s)" for i
      using net_inv_peer [OF assms(1) that] by (auto simp: buf_ok_def)
    then show ?thesis using assms(1) buf_ok_other(2) by (simp add: net_inv_def bufs_ok_def)
  qed
  then show ?thesis using assms by (auto simp: realloc_def alloc_ok_def Let_def net_inv_def split: if_splits)
qed

end
