(* ===== verification/Net_Video.thy ===== *)
theory Net_Video
  imports Net_Inv
begin

text \<open>
  A video frame from the sender's loop to the receiver's buffer: reading a chunk header back, the step of the
  reassembly on the next chunk of the frame in progress, and the whole frame.
\<close>

section \<open>Chunk payloads\<close>

lemma length_chunk_header [simp]: "length (chunk_header_bytes h) = VCH_SIZE"
  by (simp add: chunk_header_bytes_def VCH_SIZE_def)

lemma read_chunk_header_bytes: "read_chunk_header (chunk_header_bytes h @ rest) = h"
proof -
  let ?b = "chunk_header_bytes h @ rest"
  have b: "?b = w32le (vc_frame_id h) @ w32le (vc_total_size h) @ w32le (vc_offset h) @
      w16le (vc_chunk_size h) @ w16le (vc_flags h) @ w64le (vc_timestamp h) @ rest"
    by (simp add: chunk_header_bytes_def)
  note w = r32le_w32le [of "[]" 0] r32le_w32le [of "w32le (vc_frame_id h)" 4]
    r32le_w32le [of "w32le (vc_frame_id h) @ w32le (vc_total_size h)" 8]
    r16le_w16le [of "w32le (vc_frame_id h) @ w32le (vc_total_size h) @ w32le (vc_offset h)" 12]
    r16le_w16le [of "w32le (vc_frame_id h) @ w32le (vc_total_size h) @ w32le (vc_offset h)
      @ w16le (vc_chunk_size h)" 14]
    r64le_w64le [of "w32le (vc_frame_id h) @ w32le (vc_total_size h) @ w32le (vc_offset h)
      @ w16le (vc_chunk_size h) @ w16le (vc_flags h)" 16]
  show ?thesis using w by (simp add: read_chunk_header_def b)
qed

lemma video_payload_header:
  "read_chunk_header (video_payload f data off n ts) =
     \<lparr>vc_frame_id = f, vc_total_size = of_nat (length data), vc_offset = of_nat off,
      vc_chunk_size = of_nat n, vc_flags = 0, vc_timestamp = ts\<rparr>"
  by (simp add: video_payload_def read_chunk_header_bytes)

lemma unat_u32: "n < 2 ^ 32 \<Longrightarrow> unat (of_nat n :: u32) = n"
  by (simp add: unsigned_of_nat take_bit_eq_mod)

lemma unat_u16: "n < 2 ^ 16 \<Longrightarrow> unat (of_nat n :: u16) = n"
  by (simp add: unsigned_of_nat take_bit_eq_mod)

lemma video_payload_ok:
  assumes "off + n \<le> length data" and "0 < n" and "n < 2 ^ 16" and "length data \<le> MAX_VIDEO_FRAME_SIZE"
  shows "video_chunk_ok (video_payload f data off n ts)"
    and "unat (vc_offset (read_chunk_header (video_payload f data off n ts))) = off"
    and "unat (vc_chunk_size (read_chunk_header (video_payload f data off n ts))) = n"
    and "unat (vc_total_size (read_chunk_header (video_payload f data off n ts))) = length data"
    and "take n (drop VCH_SIZE (video_payload f data off n ts)) = take n (drop off data)"
proof -
  have le: "length data < 2 ^ 32" "off < 2 ^ 32"
    using assms by (simp_all add: MAX_VIDEO_FRAME_SIZE_def)
  let ?h = "read_chunk_header (video_payload f data off n ts)"
  show o: "unat (vc_offset ?h) = off" and c: "unat (vc_chunk_size ?h) = n"
    and t: "unat (vc_total_size ?h) = length data"
    using le assms(3) by (simp_all add: video_payload_header unat_u32 unat_u16)
  show "take n (drop VCH_SIZE (video_payload f data off n ts)) = take n (drop off data)"
    by (simp add: video_payload_def)
  have len: "length (video_payload f data off n ts) = VCH_SIZE + n"
    using assms(1) by (simp add: video_payload_def)
  have "vc_total_size ?h \<noteq> 0"
  proof
    assume "vc_total_size ?h = 0"
    with t assms(1,2) show False by simp
  qed
  then show "video_chunk_ok (video_payload f data off n ts)"
    using assms o c t len by (simp add: video_chunk_ok_def Let_def)
qed

section \<open>The reassembly in progress\<close>

text \<open>
  \<open>vrx u j f data off\<close>: peer \<open>j\<close> is receiving frame \<open>f\<close> with the contents
  \<open>data\<close>, and its first \<open>off\<close> bytes are in the buffer.
\<close>

definition vrx :: "rs \<Rightarrow> nat \<Rightarrow> u32 \<Rightarrow> bytes \<Rightarrow> nat \<Rightarrow> bool" where
  "vrx u j f data off \<longleftrightarrow> j < length (c_peers u) \<and> video_rx_frame_id (peer_at u j) = f
     \<and> video_rx_expected (peer_at u j) = length data \<and> video_rx_received (peer_at u j) = off
     \<and> (\<exists>b c. video_rx_buffer (peer_at u j) = Some b \<and> w_heap u b = Some c
          \<and> length c = video_rx_capacity (peer_at u j) \<and> length data \<le> length c
          \<and> take off c = take off data)"

lemma take_write_at:
  assumes "take off c = take off data" and "off + n \<le> length data" and "length data \<le> length c"
  shows "take (off + n) (write_at off (take n (drop off data)) c) = take (off + n) data"
proof -
  have "write_at off (take n (drop off data)) c = take off data @ take n (drop off data) @ drop (off + n) c"
    using assms by (simp add: write_at_def)
  also have "\<dots> = take (off + n) data @ drop (off + n) c" by (simp add: take_add)
  finally show ?thesis using assms by simp
qed

text \<open>Writing the next chunk and counting it.\<close>

definition video_store :: "rs \<Rightarrow> nat \<Rightarrow> bytes \<Rightarrow> nat \<Rightarrow> nat \<Rightarrow> rs" where
  "video_store u j data off n =
     upd_peer j (\<lambda>p. p\<lparr>video_rx_received := video_rx_received p + n\<rparr>)
       (heap_write (video_rx_buffer (peer_at u j)) off (take n (drop off data)) u)"

lemma vrx_store:
  assumes v: "vrx u j f data off" and n: "off + n \<le> length data"
  shows "vrx (video_store u j data off n) j f data (off + n)"
    and "w_fault (video_store u j data off n) = w_fault u"
proof -
  from v obtain b c where b: "video_rx_buffer (peer_at u j) = Some b" and c: "w_heap u b = Some c"
    and lc: "length c = video_rx_capacity (peer_at u j)" and le: "length data \<le> length c"
    and t: "take off c = take off data" and j: "j < length (c_peers u)"
    by (auto simp: vrx_def)
  let ?bs = "take n (drop off data)"
  have bs: "length ?bs = n" using n by simp
  let ?w = "heap_write (video_rx_buffer (peer_at u j)) off ?bs u"
  have w: "c_peers ?w = c_peers u" "w_fault ?w = w_fault u"
    using b c le n bs by (simp_all add: heap_write_def)
  have h: "\<exists>c'. w_heap ?w b = Some c' \<and> length c' = length c \<and> take (off + n) c' = take (off + n) data"
  proof (cases "?bs = []")
    case True
    with bs have "n = 0" by (metis list.size(3))
    with True c t show ?thesis by (simp add: heap_write_def)
  next
    case False
    then have "w_heap ?w b = Some (write_at off ?bs c)"
      using b c le n bs by (simp add: heap_write_def)
    moreover have "length (write_at off ?bs c) = length c" using le n bs by simp
    ultimately show ?thesis using take_write_at [OF t n le] by blast
  qed
  have p: "peer_at ?w j = peer_at u j" using w by (simp add: peer_at_def)
  have hw: "w_heap (video_store u j data off n) = w_heap ?w"
    by (simp add: video_store_def upd_peer_def)
  have pj: "peer_at (video_store u j data off n) j =
      (peer_at u j)\<lparr>video_rx_received := video_rx_received (peer_at u j) + n\<rparr>"
    using j w p by (simp add: video_store_def)
  show "vrx (video_store u j data off n) j f data (off + n)"
    unfolding vrx_def hw pj using v b h lc le w j by (auto simp: vrx_def video_store_def)
  show "w_fault (video_store u j data off n) = w_fault u"
    using w by (simp add: video_store_def upd_peer_def)
qed

text \<open>A chunk of the frame in progress needs no new buffer.\<close>

lemma process_video_next:
  assumes v: "vrx u j f data off" and n: "off + n \<le> length data" "0 < n" "n < 2 ^ 16"
    and d: "length data \<le> MAX_VIDEO_FRAME_SIZE"
  shows "process_video u j (video_payload f data off n ts) =
    (True, video_complete (video_store u j data off n) j ts)"
proof -
  note ok = video_payload_ok [OF n(1-3) d, of f ts]
  let ?h = "read_chunk_header (video_payload f data off n ts)"
  have j: "j < length (c_peers u)" using v by (simp add: vrx_def)
  have id: "upd_peer j (video_new_frame ?h) u = u"
    using v by (simp add: upd_peer_def video_new_frame_def video_payload_header vrx_def peer_at_def)
  have g: "video_grow u j = (True, u)" using v by (auto simp: video_grow_def vrx_def Let_def)
  show ?thesis
    using ok by (simp add: process_video_def id g Let_def video_store_def)
      (simp add: video_payload_header)
qed

text \<open>The first chunk of a new frame: the peer is made ready for it.\<close>

lemma video_first:
  assumes me: "buf_ok (w_heap u) (w_next u) (peer_at u j)" and j: "j < length (c_peers u)" and al: "w_alloc u (w_allocs u)"
    and new: "video_rx_frame_id (peer_at u j) \<noteq> f"
    and h: "vc_frame_id h = f" "unat (vc_total_size h) = length data" and d: "0 < length data"
  shows "\<exists>u1. video_grow (upd_peer j (video_new_frame h) u) j = (True, u1)
    \<and> vrx u1 j f data 0 \<and> w_fault u1 = w_fault u \<and> session (peer_at u1 j) = session (peer_at u j)
    \<and> c_frames_received u1 = c_frames_received u"
proof -
  let ?u0 = "upd_peer j (video_new_frame h) u"
  let ?p = "peer_at u j"
  have p0: "peer_at ?u0 j = ?p\<lparr>video_rx_frame_id := f, video_rx_received := 0,
      video_rx_expected := length data\<rparr>"
    using j new h by (simp add: video_new_frame_def)
  have j0: "j < length (c_peers ?u0)" using j by simp
  show ?thesis
  proof (cases "video_rx_capacity ?p < length data")
    case False
    then have "video_grow ?u0 j = (True, ?u0)" by (simp add: video_grow_def p0)
    moreover obtain b c where "video_rx_buffer ?p = Some b" "w_heap u b = Some c"
        "length c = video_rx_capacity ?p"
      using me False d by (auto simp: buf_ok_def split: option.splits)
    then have "vrx ?u0 j f data 0"
      using False j0 by (simp add: vrx_def p0) (simp add: upd_peer_def)
    ultimately show ?thesis using p0 by (simp add: upd_peer_def)
  next
    case True
    have u0: "w_next ?u0 = w_next u" "w_alloc ?u0 = w_alloc u" "w_allocs ?u0 = w_allocs u"
        "w_fault ?u0 = w_fault u" "c_frames_received ?u0 = c_frames_received u"
      by (simp_all add: upd_peer_def)
    obtain u1 where g: "video_grow ?u0 j = (True, u1)"
      and u1: "u1 = ?u0\<lparr>c_peers := (c_peers ?u0)[j := (peer_at ?u0 j)\<lparr>video_rx_buffer := Some (w_next u),
          video_rx_capacity := length data\<rparr>], w_allocs := w_allocs u + 1,
        w_heap := (freed ?u0 (peer_at ?u0 j))(w_next u := Some (grown ?u0 (peer_at ?u0 j))),
        w_next := w_next u + 1\<rparr>"
      using video_grow_eq [of ?u0 j] True al p0 u0 by (simp add: peer_at_def)
    have pj: "peer_at u1 j = (peer_at ?u0 j)\<lparr>video_rx_buffer := Some (w_next u),
        video_rx_capacity := length data\<rparr>"
      using j0 unfolding u1 by (simp add: peer_at_def)
    have hp: "w_heap u1 (w_next u) = Some (grown ?u0 (peer_at ?u0 j))" by (simp add: u1)
    have l1: "length (c_peers u1) = length (c_peers u)" by (simp add: u1)
    have "vrx u1 j f data 0"
      using j pj p0 hp l1 by (simp add: vrx_def)
    moreover have "w_fault u1 = w_fault u" "c_frames_received u1 = c_frames_received u"
      by (simp_all add: u1 u0)
    ultimately show ?thesis using g pj p0 by simp
  qed
qed

text \<open>
  A peer that can take the chunk at \<open>off\<close>: it is in the middle of the frame, or the chunk opens a
  frame it has not seen and the allocation of a larger buffer succeeds.
\<close>

definition vready :: "rs \<Rightarrow> nat \<Rightarrow> u32 \<Rightarrow> bytes \<Rightarrow> nat \<Rightarrow> bool" where
  "vready u j f data off \<longleftrightarrow> vrx u j f data off \<or>
     (off = 0 \<and> buf_ok (w_heap u) (w_next u) (peer_at u j) \<and> j < length (c_peers u) \<and> w_alloc u (w_allocs u)
      \<and> video_rx_frame_id (peer_at u j) \<noteq> f)"

lemma vrx_frame:
  "c_peers u' = c_peers u \<Longrightarrow> w_heap u' = w_heap u \<Longrightarrow> vrx u' j f data off = vrx u j f data off"
  by (simp add: vrx_def peer_at_def)

lemma process_video_step:
  assumes v: "vready u j f data off" and n: "off + n \<le> length data" "0 < n" "n < 2 ^ 16"
    and d: "length data \<le> MAX_VIDEO_FRAME_SIZE"
  obtains u2 where "process_video u j (video_payload f data off n ts) = (True, video_complete u2 j ts)"
    and "vrx u2 j f data (off + n)" and "w_fault u2 = w_fault u"
    and "session (peer_at u2 j) = session (peer_at u j)"
    and "c_frames_received u2 = c_frames_received u"
proof -
  let ?pl = "video_payload f data off n ts"
  have "\<exists>u1. process_video u j ?pl = (True, video_complete (video_store u1 j data off n) j ts)
      \<and> vrx u1 j f data off \<and> w_fault u1 = w_fault u \<and> session (peer_at u1 j) = session (peer_at u j)
      \<and> c_frames_received u1 = c_frames_received u"
  proof (cases "vrx u j f data off")
    case True
    then show ?thesis using process_video_next [OF True n d] by blast
  next
    case False
    with v have off: "off = 0" and i: "buf_ok (w_heap u) (w_next u) (peer_at u j)" "j < length (c_peers u)" "w_alloc u (w_allocs u)"
      "video_rx_frame_id (peer_at u j) \<noteq> f" by (auto simp: vready_def)
    note ok = video_payload_ok [OF n d, of f ts]
    have hd: "vc_frame_id (read_chunk_header ?pl) = f" by (simp add: video_payload_header)
    have d0: "0 < length data" using n(1,2) by linarith
    obtain u1 where g: "video_grow (upd_peer j (video_new_frame (read_chunk_header ?pl)) u) j = (True, u1)"
      and r: "vrx u1 j f data 0" "w_fault u1 = w_fault u" "session (peer_at u1 j) = session (peer_at u j)"
        "c_frames_received u1 = c_frames_received u"
      using video_first [OF i hd ok(4) d0] by blast
    have "process_video u j ?pl = (True, video_complete (video_store u1 j data off n) j ts)"
      using ok by (simp add: process_video_def g Let_def video_store_def) (simp add: video_payload_header)
    with r off show ?thesis by blast
  qed
  then obtain u1 where p: "process_video u j ?pl = (True, video_complete (video_store u1 j data off n) j ts)"
    and u1: "vrx u1 j f data off" "w_fault u1 = w_fault u" "session (peer_at u1 j) = session (peer_at u j)"
      "c_frames_received u1 = c_frames_received u" by blast
  have j: "j < length (c_peers u1)" using u1(1) by (simp add: vrx_def)
  have "session (peer_at (video_store u1 j data off n) j) = session (peer_at u1 j)"
    using j by (simp add: video_store_def) (simp add: peer_at_def)
  moreover have "c_frames_received (video_store u1 j data off n) = c_frames_received u1"
    by (simp add: video_store_def upd_peer_def heap_write_def split: option.split)
  ultimately show ?thesis using that [OF p] vrx_store [OF u1(1) n(1)] u1 by simp
qed

section \<open>Packets\<close>

lemma data_packet_header:
  "read_header (data_packet junk t nonce c) = \<lparr>h_magic = PACKET_MAGIC, h_version = PROTOCOL_VERSION,
     h_type = t, h_flags = 0, h_nonce = nonce, h_payload_size = of_nat (length c),
     h_mac = map junk [0..<16]\<rparr>"
  by (simp add: data_packet_def read_header_bytes)

lemma drop_data_packet: "drop HDR_SIZE (data_packet junk t nonce c) = c"
  by (simp add: data_packet_def)

lemma length_data_packet: "length (data_packet junk t nonce c) = HDR_SIZE + length c"
  by (simp add: data_packet_def)

lemma data_packet_valid:
  "length c < 2 ^ 16 \<Longrightarrow> rootstream_net_validate_packet (Some (data_packet junk t nonce c)) = 0"
  by (simp add: data_packet_header length_data_packet Let_def PROTOCOL_MIN_VERSION_def
      PROTOCOL_VERSION_def unat_u16)

lemma process_data_packet:
  assumes "t \<in> {PKT_VIDEO, PKT_AUDIO, PKT_INPUT, PKT_CONTROL}" and "length c < 2 ^ 16"
    and "authenticated (session (peer_at u j))"
    and "aead_decrypt X (shared_key (session (peer_at u j))) (nonce_bytes nonce) c = Some m"
  shows "process_packet_for X u j (data_packet junk t nonce c) =
    (case process_payload X u j t m of (counted, s1) \<Rightarrow>
       if counted then s1\<lparr>c_bytes_received := c_bytes_received s1 + of_nat (length (data_packet junk t nonce c))\<rparr> else s1)"
proof -
  have "t \<noteq> PKT_HANDSHAKE" using assms(1) by (auto simp: pkt_defs)
  then show ?thesis using assms
    by (simp add: process_packet_for_def data_packet_header drop_data_packet Let_def unat_u16
        crypto_decrypt_packet_def)
qed

lemma send_packet_udp:
  assumes "p_transport (peer_at s i) = TRANSPORT_UDP" and "i < length (c_peers s)"
    and "w_udp_ok s (w_udp_sends s)" and "send_packet s i d = (r, s')"
  shows "w_log s' = w_log s @ [EvUdp (take (addr_len (peer_at s i)) (addr (peer_at s i))) d]"
    and "\<exists>a. peer_at s' i = (peer_at s i)\<lparr>last_sent := a\<rparr>"
  using assms by (auto simp: send_packet_def kernel_sendto_def get_timestamp_ms_def emit_def Let_def
      upd_peer_def peer_at_def)

text \<open>What a successful encrypted send over UDP did.\<close>

lemma send_encrypted_ok:
  assumes r: "rootstream_net_send_encrypted X s i t (Some m) n = (0, s')"
    and udp: "p_transport (peer_at s i) = TRANSPORT_UDP"
  obtains c where "aead_encrypt X (shared_key (session (peer_at s i)))
        (nonce_bytes (nonce_counter (session (peer_at s i)))) m = Some c"
    and "w_log s' = w_log s @ [EvUdp (take (addr_len (peer_at s i)) (addr (peer_at s i)))
        (data_packet (w_junk s) t (nonce_counter (session (peer_at s i))) c)]"
    and "p_transport (peer_at s' i) = TRANSPORT_UDP" and "n \<le> max_plain_payload_size"
    and "nonce_counter (session (peer_at s' i)) = nonce_counter (session (peer_at s i)) + 1"
    and "i < length (c_peers s)"
proof -
  let ?se = "session (peer_at s i)"
  let ?s0 = "s\<lparr>w_allocs := w_allocs s + 1\<rparr>"
  let ?s1 = "upd_peer i (\<lambda>p. p\<lparr>session := (session p)\<lparr>nonce_counter := nonce_counter ?se + 1\<rparr>\<rparr>) ?s0"
  have i: "i < length (c_peers s)" and n: "n \<le> max_plain_payload_size"
    and au: "authenticated ?se" and al: "w_alloc s (w_allocs s)"
    using r by (auto simp: rootstream_net_send_encrypted_def Let_def alloc_ok_def split: if_splits)
  obtain c where c: "aead_encrypt X (shared_key ?se) (nonce_bytes (nonce_counter ?se)) m = Some c"
    using r i n au al
    by (auto simp: rootstream_net_send_encrypted_def Let_def alloc_ok_def crypto_encrypt_packet_def
        split: if_splits option.splits)
  let ?pk = "data_packet (w_junk s) t (nonce_counter ?se) c"
  have p1: "peer_at ?s1 i = (peer_at s i)\<lparr>session := ?se\<lparr>nonce_counter := nonce_counter ?se + 1\<rparr>\<rparr>"
    using i by simp (simp add: peer_at_def)
  have j1: "w_junk ?s1 = w_junk s" "w_log ?s1 = w_log s" "w_udp_ok ?s1 = w_udp_ok s"
    "w_udp_sends ?s1 = w_udp_sends s" by (simp_all add: upd_peer_def)
  obtain ret s2 where p: "send_packet ?s1 i ?pk = (ret, s2)" by fastforce
  have st: "p_state (peer_at s i) = PEER_CONNECTED \<or> p_state (peer_at s i) = PEER_HANDSHAKE_RECEIVED"
    using r i by (auto simp: rootstream_net_send_encrypted_def Let_def split: if_splits)
  have "rootstream_net_send_encrypted X s i t (Some m) n =
      (if ret < 0 then (-1, case p_reconnect (peer_at (upd_peer i (\<lambda>p. p\<lparr>p_state := PEER_DISCONNECTED\<rparr>) s2) i) of
          None \<Rightarrow> upd_peer i (\<lambda>p. p\<lparr>p_state := PEER_DISCONNECTED\<rparr>) s2
        | Some _ \<Rightarrow> snd (peer_try_reconnect (upd_peer i (\<lambda>p. p\<lparr>p_state := PEER_DISCONNECTED\<rparr>) s2) i))
       else (0, s2))"
    using i n au al st c p j1(1)
    by (auto simp: rootstream_net_send_encrypted_def Let_def alloc_ok_def crypto_encrypt_packet_def)
  with r have s': "s' = s2" "\<not> ret < 0" by (auto split: if_splits)
  then have ok: "w_udp_ok s (w_udp_sends s)"
    using p udp p1 j1 by (auto simp: send_packet_def Let_def kernel_sendto_def split: if_splits)
  have u1: "p_transport (peer_at ?s1 i) = TRANSPORT_UDP" "i < length (c_peers ?s1)"
    "w_udp_ok ?s1 (w_udp_sends ?s1)" using udp p1 j1 ok i by simp_all
  obtain a where a: "peer_at s2 i = (peer_at ?s1 i)\<lparr>last_sent := a\<rparr>"
    using send_packet_udp(2) [OF u1 p] by blast
  have "w_log s2 = w_log s @ [EvUdp (take (addr_len (peer_at s i)) (addr (peer_at s i))) ?pk]
      \<and> p_transport (peer_at s2 i) = TRANSPORT_UDP
      \<and> nonce_counter (session (peer_at s2 i)) = nonce_counter ?se + 1"
    using send_packet_udp(1) [OF u1 p] udp by (simp only: a p1 j1) simp
  with that [OF c] n i s' show ?thesis by simp
qed

end
