(* ===== verification/Net_Props.thy ===== *)
theory Net_Props
  imports Net_Video
begin

text \<open>
  The properties of the network core: a frame sent over UDP arrives whole; an encrypted packet is received; and the theorems that show where the code departs from what its comments promise
  (keepalives, nonces, timers, reconnection, the bounds of the reassembly buffer).
\<close>

section \<open>A frame from sender to receiver\<close>

lemma max_plain_value: "max_plain_payload_size = 1350"
  by (simp add: max_plain_payload_size_def MAX_PACKET_SIZE_def HDR_SIZE_def CRYPTO_MAC_BYTES_def)

definition receive_all :: "externals \<Rightarrow> nat \<Rightarrow> rs \<Rightarrow> bytes list \<Rightarrow> rs" where
  "receive_all X j u pkts = foldl (\<lambda>u p. process_packet_for X u j p) u pkts"

lemma vrx_complete: "vrx (video_complete u j ts) j f data off = vrx u j f data off"
  by (rule vrx_frame) (simp_all add: video_complete_def Let_def)

definition got_frame :: "rs \<Rightarrow> rs \<Rightarrow> nat \<Rightarrow> bytes \<Rightarrow> u64 \<Rightarrow> bool" where
  "got_frame u u' j data ts \<longleftrightarrow> w_fault u' = w_fault u
     \<and> c_frames_received u' = c_frames_received u + 1
     \<and> f_size (c_frame u') = length data \<and> f_timestamp (c_frame u') = ts
     \<and> (\<exists>b c. f_data (c_frame u') = Some b \<and> w_heap u' b = Some c \<and> take (length data) c = data)"

lemma process_video_packet:
  assumes v: "vready u j f data off" and n: "off + n \<le> length data" "0 < n" "n < 2 ^ 16"
    and d: "length data \<le> MAX_VIDEO_FRAME_SIZE" and lc: "length c < 2 ^ 16"
    and au: "authenticated (session (peer_at u j))"
    and dec: "aead_decrypt X (shared_key (session (peer_at u j))) (nonce_bytes nonce) c
      = Some (video_payload f data off n ts)"
  obtains u' where "process_packet_for X u j (data_packet junk PKT_VIDEO nonce c) = u'"
    and "vrx u' j f data (off + n)" and "w_fault u' = w_fault u"
    and "session (peer_at u' j) = session (peer_at u j)"
    and "off + n < length data \<Longrightarrow> c_frames_received u' = c_frames_received u"
    and "off + n = length data \<Longrightarrow> got_frame u u' j data ts"
proof -
  obtain u2 where p: "process_video u j (video_payload f data off n ts) = (True, video_complete u2 j ts)"
    and u2: "vrx u2 j f data (off + n)" "w_fault u2 = w_fault u"
      "session (peer_at u2 j) = session (peer_at u j)" "c_frames_received u2 = c_frames_received u"
    using process_video_step [OF v n d] .
  let ?u3 = "video_complete u2 j ts"
  let ?u' = "?u3\<lparr>c_bytes_received := c_bytes_received ?u3 + of_nat (length (data_packet junk PKT_VIDEO nonce c))\<rparr>"
  have e: "process_packet_for X u j (data_packet junk PKT_VIDEO nonce c) = ?u'"
    using process_data_packet [OF _ lc au dec, of PKT_VIDEO junk] p
    by (simp add: process_payload_def pkt_defs)
  have v': "vrx ?u' j f data (off + n)"
    using u2(1) by (simp add: vrx_complete vrx_frame [of ?u' ?u3])
  have pe: "peer_at ?u3 j = peer_at u2 j" "w_fault ?u3 = w_fault u2" "w_heap ?u3 = w_heap u2"
    by (simp_all add: video_complete_def peer_at_def Let_def)
  have done': "got_frame u ?u' j data ts" if "off + n = length data"
  proof -
    have rx: "video_rx_received (peer_at u2 j) = video_rx_expected (peer_at u2 j)"
      "video_rx_expected (peer_at u2 j) = length data" using u2(1) that by (simp_all add: vrx_def)
    then have c3: "c_frame ?u3 = \<lparr>f_data = video_rx_buffer (peer_at u2 j), f_size = length data,
        f_capacity = video_rx_capacity (peer_at u2 j), f_timestamp = ts\<rparr>"
      "c_frames_received ?u3 = c_frames_received u + 1"
      using u2(4) by (simp_all add: video_complete_def Let_def)
    show ?thesis using u2(1) that pe u2(2) by (auto simp: got_frame_def c3 vrx_def)
  qed
  have more: "c_frames_received ?u' = c_frames_received u" if "off + n < length data"
    using u2 that by (simp add: video_complete_def Let_def vrx_def)
  show ?thesis using that [OF e v' _ _ more done'] pe u2 by (simp add: peer_at_def)
qed

lemma vready_vrx: "vrx u j f data off \<Longrightarrow> vready u j f data off"
  by (simp add: vready_def)

lemma got_frame_later:
  "got_frame u1 u' j data ts \<Longrightarrow> w_fault u1 = w_fault u \<Longrightarrow> c_frames_received u1 = c_frames_received u
   \<Longrightarrow> got_frame u u' j data ts"
  by (simp add: got_frame_def)

text \<open>\<open>carries X k f data ts off pkts\<close>: the packets, in this order, carry frame \<open>f\<close> from its byte \<open>off\<close> on, for a receiver with the key \<open>k\<close>.\<close>

fun carries :: "externals \<Rightarrow> bytes \<Rightarrow> u32 \<Rightarrow> bytes \<Rightarrow> u64 \<Rightarrow> nat \<Rightarrow> bytes list \<Rightarrow> bool" where
  "carries X k f data ts off [] \<longleftrightarrow> off = length data"
| "carries X k f data ts off (p # ps) \<longleftrightarrow> (\<exists>n junk nonce c. p = data_packet junk PKT_VIDEO nonce c \<and> 0 < n \<and> n < 2 ^ 16 \<and> off + n \<le> length data
     \<and> HDR_SIZE + length c \<le> MAX_PACKET_SIZE \<and> aead_decrypt X k (nonce_bytes nonce) c = Some (video_payload f data off n ts) \<and> carries X k f data ts (off + n) ps)"

lemma carried_small: "HDR_SIZE + length c \<le> MAX_PACKET_SIZE \<Longrightarrow> length c < 2 ^ 16"
  by (simp add: MAX_PACKET_SIZE_def)

lemma carries_valid: "carries X k f data ts off pkts \<Longrightarrow> \<forall>p\<in>set pkts. rootstream_net_validate_packet (Some p) = 0 \<and> length p \<le> MAX_PACKET_SIZE"
proof (induction pkts arbitrary: off)
  case (Cons p ps)
  then obtain n junk nonce c where p: "p = data_packet junk PKT_VIDEO nonce c" "HDR_SIZE + length c \<le> MAX_PACKET_SIZE" "carries X k f data ts (off + n) ps" by auto
  then show ?case using data_packet_valid [OF carried_small [OF p(2)], of junk PKT_VIDEO nonce] Cons.IH [OF p(3)]
    by (simp add: length_data_packet del: rootstream_net_validate_packet.simps)
qed simp

text \<open>The sender's loop puts out packets that carry the frame, and keeps the session's key.\<close>

lemma video_loop_carries:
  assumes X: "aead_laws X" and m: "0 < m" "VCH_SIZE + m \<le> max_plain_payload_size"
  shows "send_video_loop X i f data ts m off s = (0, s') \<Longrightarrow> p_transport (peer_at s i) = TRANSPORT_UDP \<Longrightarrow> off < length data
    \<Longrightarrow> \<exists>pkts. w_log s' = w_log s @ map (EvUdp (take (addr_len (peer_at s i)) (addr (peer_at s i)))) pkts
      \<and> carries X (shared_key (session (peer_at s i))) f data ts off pkts"
proof (induction "length data - off" arbitrary: off s rule: less_induct)
  case less
  let ?n = "if length data - off > m then m else length data - off"
  have n: "off + ?n \<le> length data" "0 < ?n" "?n < 2 ^ 16" "VCH_SIZE + ?n \<le> max_plain_payload_size"
    using less.prems(3) m by (auto simp: max_plain_value VCH_SIZE_def)
  obtain r s1 where e: "rootstream_net_send_encrypted X s i PKT_VIDEO (Some (video_payload f data off ?n ts)) (VCH_SIZE + ?n) = (r, s1)" by fastforce
  have loop: "send_video_loop X i f data ts m off s = (if r < 0 then (-1, s1) else send_video_loop X i f data ts m (off + ?n) s1)"
    using less.prems(3) m(1) e by (subst send_video_loop.simps) (simp only: Let_def prod.case if_True simp_thms)
  with less.prems(1) have rest: "send_video_loop X i f data ts m (off + ?n) s1 = (0, s')" and r0: "\<not> r < 0" by (simp_all split: if_splits)
  have "r = 0 \<or> r = -1" using e by (auto simp: rootstream_net_send_encrypted_def Let_def case_prod_beta split: if_splits option.splits)
  with r0 e have e0: "rootstream_net_send_encrypted X s i PKT_VIDEO (Some (video_payload f data off ?n ts)) (VCH_SIZE + ?n) = (0, s1)" by simp
  let ?dest = "take (addr_len (peer_at s i)) (addr (peer_at s i))" and ?non = "nonce_counter (session (peer_at s i))"
  obtain c where c: "aead_encrypt X (shared_key (session (peer_at s i))) (nonce_bytes ?non) (video_payload f data off ?n ts) = Some c"
    and lg: "w_log s1 = w_log s @ [EvUdp ?dest (data_packet (w_junk s) PKT_VIDEO ?non c)]"
    and tr: "p_transport (peer_at s1 i) = TRANSPORT_UDP" and i: "i < length (c_peers s)"
    using send_encrypted_ok [OF e0 less.prems(2)] by metis
  have "net_same s s1" using net_same_encrypted [OF net_same_refl] e0 by (metis snd_conv)
  note core = peer_core_fields [OF net_same_peer [OF this i]]
  have "length (video_payload f data off ?n ts) = VCH_SIZE + ?n" using n by (simp add: video_payload_def)
  then have lc: "HDR_SIZE + length c \<le> MAX_PACKET_SIZE"
    using c X n(4) by (auto simp: aead_laws_def max_plain_payload_size_def MAX_PACKET_SIZE_def HDR_SIZE_def CRYPTO_MAC_BYTES_def)
  have dec: "aead_decrypt X (shared_key (session (peer_at s i))) (nonce_bytes ?non) c = Some (video_payload f data off ?n ts)"
    using c X by (simp add: aead_laws_def)
  have "\<exists>pkts. w_log s' = w_log s1 @ map (EvUdp ?dest) pkts \<and> carries X (shared_key (session (peer_at s i))) f data ts (off + ?n) pkts"
  proof (cases "off + ?n < length data")
    case True
    have "length data - (off + ?n) < length data - off" using n less.prems(3) by linarith
    from less.hyps [OF this rest tr True] core show ?thesis by simp
  next
    case False
    then have q: "off + ?n = length data" using n(1) by linarith
    then have "s' = s1" using rest by (subst (asm) send_video_loop.simps) (simp only: less_irrefl if_False simp_thms prod.inject)
    then show ?thesis using q by (intro exI [of _ "[]"]) simp
  qed
  then obtain pkts where pk: "w_log s' = w_log s1 @ map (EvUdp ?dest) pkts" "carries X (shared_key (session (peer_at s i))) f data ts (off + ?n) pkts" by blast
  have "carries X (shared_key (session (peer_at s i))) f data ts off (data_packet (w_junk s) PKT_VIDEO ?non c # pkts)"
    using n lc dec pk(2) unfolding carries.simps by blast
  then show ?case using pk(1) lg by (intro exI [of _ "data_packet (w_junk s) PKT_VIDEO ?non c # pkts"]) simp
qed

lemma send_video_carries:
  assumes "aead_laws X" "rootstream_net_send_video X s i data ts = (0, s')" "p_transport (peer_at s i) = TRANSPORT_UDP"
  shows "\<exists>pkts. w_log s' = w_log s @ map (EvUdp (take (addr_len (peer_at s i)) (addr (peer_at s i)))) pkts
    \<and> carries X (shared_key (session (peer_at s i))) (video_tx_frame_id (peer_at s i)) data ts 0 pkts"
proof -
  let ?f = "video_tx_frame_id (peer_at s i)"
  let ?s1 = "upd_peer i (\<lambda>p. p\<lparr>video_tx_frame_id := ?f + 1\<rparr>) (s\<lparr>w_allocs := w_allocs s + 1\<rparr>)"
  have i: "i < length (c_peers s)" and ne: "0 < length data"
    and loop: "send_video_loop X i ?f data ts (max_plain_payload_size - VCH_SIZE) 0 ?s1 = (0, s')"
    using assms(2) by (auto simp: rootstream_net_send_video_def alloc_ok_def peer_at_def Let_def split: if_splits)
  have "peer_at ?s1 i = (peer_at s i)\<lparr>video_tx_frame_id := ?f + 1\<rparr>" using i by simp (simp add: peer_at_def)
  moreover have "w_log ?s1 = w_log s" by (simp add: upd_peer_def)
  ultimately show ?thesis using video_loop_carries [OF assms(1) _ _ loop] assms(3) ne by (simp add: max_plain_value VCH_SIZE_def)
qed

lemma carries_received:
  assumes d: "length data \<le> MAX_VIDEO_FRAME_SIZE"
  shows "carries X k f data ts off pkts \<Longrightarrow> off < length data \<Longrightarrow> vready u j f data off \<Longrightarrow> authenticated (session (peer_at u j))
    \<Longrightarrow> shared_key (session (peer_at u j)) = k \<Longrightarrow> got_frame u (receive_all X j u pkts) j data ts"
proof (induction pkts arbitrary: off u)
  case (Cons p ps)
  then obtain n junk nonce c where p: "p = data_packet junk PKT_VIDEO nonce c" "0 < n" "n < 2 ^ 16" "off + n \<le> length data" "HDR_SIZE + length c \<le> MAX_PACKET_SIZE"
    "aead_decrypt X k (nonce_bytes nonce) c = Some (video_payload f data off n ts)" "carries X k f data ts (off + n) ps"
    by auto
  obtain u' where u': "process_packet_for X u j p = u'" "vrx u' j f data (off + n)" "w_fault u' = w_fault u" "session (peer_at u' j) = session (peer_at u j)"
    "off + n < length data \<Longrightarrow> c_frames_received u' = c_frames_received u" "off + n = length data \<Longrightarrow> got_frame u u' j data ts"
    using process_video_packet [OF Cons.prems(3) p(4,2,3) d carried_small [OF p(5)] Cons.prems(4)] p(1,6) Cons.prems(5) by metis
  show ?case
  proof (cases "off + n < length data")
    case True
    have "got_frame u' (receive_all X j u' ps) j data ts"
      using Cons.IH [OF p(7) True vready_vrx [OF u'(2)]] u'(4) Cons.prems(4,5) by simp
    from got_frame_later [OF this u'(3) u'(5) [OF True]] show ?thesis by (simp add: receive_all_def u'(1))
  next
    case False
    then have "off + n = length data" using p(4) by simp
    moreover have "ps = []" using p(7) \<open>off + n = length data\<close> by (cases ps) auto
    ultimately show ?thesis using u'(6) by (simp add: receive_all_def u'(1))
  qed
qed simp

text \<open>Concrete externals and states for the witnesses: a cipher that appends sixteen zero bytes, a key
  agreement that adds the keys, a clock that stands still.\<close>

definition ex_externals :: externals where
  "ex_externals = \<lparr>sk_to_curve = Some, pk_to_curve = Some,
     scalarmult = (\<lambda>a b. (True, map2 (+) a b)),
     aead_encrypt = (\<lambda>k n m. Some (m @ replicate 16 0)),
     aead_decrypt = (\<lambda>k n c. if length c < 16 then None else Some (take (length c - 16) c)),
     base642bin = (\<lambda>s. Some (replicate 32 7)), opus_decode = (\<lambda>b. Some []),
     resolve_hostname = (\<lambda>h. Some (replicate 128 2, 16))\<rparr>"

definition ex_rs :: "bool \<Rightarrow> (nat \<Rightarrow> u64) \<Rightarrow> peer list \<Rightarrow> rs" where
  "ex_rs host clock ps = \<lparr>c_public_key = replicate 32 1, c_secret_key = replicate 32 5,
     c_identity = ''pc'', c_audio_enabled = False, c_has_playback = False, c_is_host = host,
     c_encoder = \<lparr>bitrate = 10000000, framerate = 60, quality = 80, force_keyframe = False\<rparr>,
     c_frame = \<lparr>f_data = None, f_size = 0, f_capacity = 0, f_timestamp = 0\<rparr>, c_peers = ps,
     c_frames_received = 0, c_bytes_sent = 0, c_bytes_received = 0, c_last_video_ts = 0,
     c_last_audio_ts = 0, w_clock = clock, w_reads = 0, w_udp_ok = (\<lambda>_. True), w_udp_sends = 0,
     w_tcp_connects = [], w_tcp_out = [], w_tcp_in = [], w_alloc = (\<lambda>_. True), w_allocs = 0,
     w_junk = (\<lambda>_. 0xAA), w_heap = (\<lambda>_. None), w_next = 0, w_log = [], w_fault = False\<rparr>"

definition ex_peer :: peer where
  "ex_peer = zero_peer\<lparr>addr_len := 16, p_state := PEER_CONNECTED, p_transport := TRANSPORT_UDP,
     session := \<lparr>shared_key = replicate 32 9, nonce_counter = 4, authenticated = True\<rparr>,
     video_tx_frame_id := 1, last_seen := 100, last_sent := 100\<rparr>"

lemma ex_aead: "aead_laws ex_externals"
  by (auto simp: aead_laws_def ex_externals_def CRYPTO_MAC_BYTES_def)

lemma ex_inv: "net_inv E (ex_rs host clock [ex_peer])"
  by (simp add: net_inv_def ex_rs_def enc_ok_def bufs_ok_def buf_ok_def ex_peer_def zero_peer_def
      MAX_PEERS_def)

text \<open>C1: When \<open>rootstream_net_send_video\<close> reports success on a UDP peer, the datagrams it
  logged all pass validation, and a receiver that shares the session key and has not seen this frame id
  reassembles from them, without any write outside its buffer, exactly the frame that was sent.\<close>

theorem video_end_to_end:
  assumes X: "aead_laws X" and send: "rootstream_net_send_video X s i data ts = (0, s')"
    and udp: "p_transport (peer_at s i) = TRANSPORT_UDP"
    and d: "length data \<le> MAX_VIDEO_FRAME_SIZE"
    and u: "net_inv E u" "j < length (c_peers u)" "w_alloc u (w_allocs u)"
    and new: "video_rx_frame_id (peer_at u j) \<noteq> video_tx_frame_id (peer_at s i)"
    and key: "authenticated (session (peer_at u j))"
      "shared_key (session (peer_at u j)) = shared_key (session (peer_at s i))"
  shows "\<exists>pkts. w_log s' = w_log s @ map (EvUdp (take (addr_len (peer_at s i)) (addr (peer_at s i)))) pkts
    \<and> (\<forall>p\<in>set pkts. rootstream_net_validate_packet (Some p) = 0)
    \<and> got_frame u (receive_all X j u pkts) j data ts"
proof -
  let ?k = "shared_key (session (peer_at s i))" and ?f = "video_tx_frame_id (peer_at s i)"
  from send_video_carries [OF X send udp] obtain pkts where
    p: "w_log s' = w_log s @ map (EvUdp (take (addr_len (peer_at s i)) (addr (peer_at s i)))) pkts" "carries X ?k ?f data ts 0 pkts" by blast
  have "0 < length data" using send by (auto simp: rootstream_net_send_video_def split: if_splits)
  moreover have "vready u j ?f data 0" using net_inv_peer [OF u(1,2)] u(2,3) new by (simp add: vready_def peer_at_def)
  ultimately have "got_frame u (receive_all X j u pkts) j data ts" using carries_received [OF d p(2) _ _ key] by blast
  then show ?thesis using p(1) carries_valid [OF p(2)] by blast
qed

lemma video_end_to_end_witness:
  "\<exists>pkts. got_frame (ex_rs False (\<lambda>_. 100) [ex_peer])
     (receive_all ex_externals 0 (ex_rs False (\<lambda>_. 100) [ex_peer]) pkts) 0 [1, 2, 3] 77"
proof -
  let ?s = "ex_rs True (\<lambda>_. 100) [ex_peer]" and ?u = "ex_rs False (\<lambda>_. 100) [ex_peer]"
  have "fst (rootstream_net_send_video ex_externals ?s 0 [1, 2, 3] 77) = 0" by code_simp
  then have "rootstream_net_send_video ex_externals ?s 0 [1, 2, 3] 77 =
      (0, snd (rootstream_net_send_video ex_externals ?s 0 [1, 2, 3] 77))" by (metis prod.collapse)
  from video_end_to_end [OF ex_aead this, of "{c_encoder ?u}" ?u 0] ex_inv [of "{c_encoder ?u}" False "\<lambda>_. 100"]
  have "\<exists>pkts. got_frame ?u (receive_all ex_externals 0 ?u pkts) 0 [1, 2, 3] 77"
    by (auto simp: ex_rs_def ex_peer_def zero_peer_def peer_at_def MAX_VIDEO_FRAME_SIZE_def)
  then show ?thesis .
qed

section \<open>Encrypted packets\<close>

text \<open>C16: A payload that \<open>rootstream_net_send_encrypted\<close> reports as sent over UDP is one datagram to
  the peer's address that passes validation and carries the session's next nonce; a receiver with the
  same key handles exactly the payload that was given.\<close>

theorem send_encrypted_received:
  assumes X: "aead_laws X"
    and r: "rootstream_net_send_encrypted X s i t (Some m) (length m) = (0, s')"
    and udp: "p_transport (peer_at s i) = TRANSPORT_UDP"
  shows "\<exists>pkt. w_log s' = w_log s @ [EvUdp (take (addr_len (peer_at s i)) (addr (peer_at s i))) pkt]
    \<and> rootstream_net_validate_packet (Some pkt) = 0
    \<and> h_nonce (read_header pkt) = nonce_counter (session (peer_at s i))
    \<and> nonce_counter (session (peer_at s' i)) = nonce_counter (session (peer_at s i)) + 1
    \<and> (\<forall>u j. t \<in> {PKT_VIDEO, PKT_AUDIO, PKT_INPUT, PKT_CONTROL}
          \<longrightarrow> authenticated (session (peer_at u j))
          \<longrightarrow> shared_key (session (peer_at u j)) = shared_key (session (peer_at s i))
          \<longrightarrow> process_packet_for X u j pkt = (case process_payload X u j t m of (counted, s1) \<Rightarrow>
               if counted then s1\<lparr>c_bytes_received := c_bytes_received s1 + of_nat (length pkt)\<rparr>
               else s1))"
proof -
  let ?non = "nonce_counter (session (peer_at s i))"
  obtain c where c: "aead_encrypt X (shared_key (session (peer_at s i))) (nonce_bytes ?non) m = Some c"
    and lg: "w_log s' = w_log s @ [EvUdp (take (addr_len (peer_at s i)) (addr (peer_at s i)))
        (data_packet (w_junk s) t ?non c)]"
    and n: "length m \<le> max_plain_payload_size"
    and nc: "nonce_counter (session (peer_at s' i)) = ?non + 1"
    using send_encrypted_ok [OF r udp] by metis
  have lc: "length c < 2 ^ 16" and dec: "aead_decrypt X (shared_key (session (peer_at s i))) (nonce_bytes ?non) c = Some m"
    using c X n by (auto simp: aead_laws_def max_plain_value CRYPTO_MAC_BYTES_def)
  show ?thesis
    using lg nc data_packet_valid [OF lc, of "w_junk s" t ?non] process_data_packet [OF _ lc] dec
    by (intro exI [of _ "data_packet (w_junk s) t ?non c"]) (simp add: data_packet_header)
qed

lemma send_encrypted_received_witness:
  "\<exists>pkt. rootstream_net_validate_packet (Some pkt) = 0
     \<and> h_nonce (read_header pkt) = 4"
proof -
  let ?s = "ex_rs True (\<lambda>_. 100) [ex_peer]"
  have "fst (rootstream_net_send_encrypted ex_externals ?s 0 PKT_CONTROL (Some (control_packet CTRL_PAUSE 0))
      (length (control_packet CTRL_PAUSE 0))) = 0" by code_simp
  then have sent: "rootstream_net_send_encrypted ex_externals ?s 0 PKT_CONTROL (Some (control_packet CTRL_PAUSE 0))
      (length (control_packet CTRL_PAUSE 0)) = (0, snd (rootstream_net_send_encrypted ex_externals ?s 0
      PKT_CONTROL (Some (control_packet CTRL_PAUSE 0)) (length (control_packet CTRL_PAUSE 0))))"
    by (metis prod.collapse)
  have "p_transport (peer_at ?s 0) = TRANSPORT_UDP" "nonce_counter (session (peer_at ?s 0)) = 4"
    by (simp_all add: ex_rs_def ex_peer_def peer_at_def)
  note tr = this
  show ?thesis using send_encrypted_received [OF ex_aead sent tr(1), unfolded tr(2)] by blast
qed

section \<open>Keepalives\<close>

lemma send_null:
  "\<exists>s'. rootstream_net_send_encrypted X s i t None 0 = (-1, s') \<and> w_log s' = w_log s
    \<and> w_udp_sends s' = w_udp_sends s \<and> w_tcp_out s' = w_tcp_out s
    \<and> map p_state (c_peers s') = map p_state (c_peers s)"
proof -
  have st: "map p_state (c_peers (upd_peer i (\<lambda>p. p\<lparr>session := x p\<rparr>) u)) = map p_state (c_peers u)" for x u
  proof (rule nth_equalityI)
    fix k assume "k < length (map p_state (c_peers (upd_peer i (\<lambda>p. p\<lparr>session := x p\<rparr>) u)))"
    then show "map p_state (c_peers (upd_peer i (\<lambda>p. p\<lparr>session := x p\<rparr>) u)) ! k = map p_state (c_peers u) ! k"
      by (cases "i = k") (simp_all add: upd_peer_def)
  qed simp
  show ?thesis
    by (auto simp: rootstream_net_send_encrypted_def Let_def alloc_ok_def crypto_encrypt_packet_def st)
      (simp_all add: upd_peer_def)
qed

text \<open>The timer never sends a keepalive: it hands \<open>rootstream_net_send_encrypted\<close> a NULL payload,
  which the encryption refuses.  When no peer is waiting for a handshake answer, a tick sends nothing at all,
  whatever the times are.\<close>

theorem tick_sends_no_keepalive:
  assumes "\<forall>p\<in>set (c_peers s). p_state p \<noteq> PEER_HANDSHAKE_SENT"
  shows "w_log (rootstream_net_tick X s) = w_log s
    \<and> w_udp_sends (rootstream_net_tick X s) = w_udp_sends s"
proof -
  let ?ok = "\<lambda>u. (\<forall>p\<in>set (c_peers u). p_state p \<noteq> PEER_HANDSHAKE_SENT) \<and> w_log u = w_log s
      \<and> w_udp_sends u = w_udp_sends s"
  have upd: "?ok (upd_peer i f u)" if "?ok u" "\<And>p. p_state p \<noteq> PEER_HANDSHAKE_SENT \<Longrightarrow>
      p_state (f p) \<noteq> PEER_HANDSHAKE_SENT" for i f u
  proof (cases "i < length (c_peers u)")
    case True
    with that show ?thesis by (auto simp: upd_peer_def dest!: set_update_subset_insert [THEN subsetD])
  next
    case False
    then have "upd_peer i f u = u" by (simp add: upd_peer_def list_update_beyond)
    with that show ?thesis by simp
  qed
  have step: "?ok (tick_peer X now u i) \<and> length (c_peers (tick_peer X now u i)) = length (c_peers u)"
    if u: "?ok u" and i: "i < length (c_peers u)" for u i now
  proof -
    have "p_state (peer_at u i) \<noteq> PEER_HANDSHAKE_SENT" using u i by (simp add: peer_at_def)
    then have h: "tick_handshake u now i = u" by (simp add: tick_handshake_def)
    let ?u = "upd_peer i (\<lambda>p. p\<lparr>p_state := PEER_DISCONNECTED, is_streaming := False\<rparr>) u"
    have 1: "?ok ?u" by (rule upd [OF u]) simp
    have 2: "?ok (heap_free b ?u)" for b using 1 by (simp add: heap_free_def split: option.split)
    have 3: "?ok (upd_peer i (\<lambda>p. p\<lparr>video_rx_buffer := None, video_rx_capacity := 0\<rparr>) (heap_free b ?u))" for b
      by (rule upd [OF 2]) simp
    obtain u' where u': "rootstream_net_send_encrypted X u i PKT_PING None 0 = (-1, u')"
      and sm: "w_log u' = w_log u" "w_udp_sends u' = w_udp_sends u"
        "map p_state (c_peers u') = map p_state (c_peers u)"
      using send_null by metis
    have "p_state ` set (c_peers u') = p_state ` set (c_peers u)"
      using sm(3) by (metis set_map)
    then have 4: "?ok u'" using u sm by (metis image_iff)
    have 5: "?ok (upd_peer i (\<lambda>p. p\<lparr>last_ping := now\<rparr>) u')" by (rule upd [OF 4]) simp
    have len: "length (c_peers u') = length (c_peers u)" using sm(3) by (metis length_map)
    have "length (c_peers (heap_free b ?u)) = length (c_peers u)" for b
      by (simp add: heap_free_def split: option.split)
    then show ?thesis using h 1 3 5 u u' len by (simp add: tick_peer_def tick_connected_def Let_def)
  qed
  have fold: "?ok (foldl (tick_peer X now) u is) \<and> length (c_peers (foldl (tick_peer X now) u is)) = length (c_peers u)"
    if "?ok u" "set is \<subseteq> {..<length (c_peers u)}" for "is" u now
    using that(2)
  proof (induction "is" rule: rev_induct)
    case Nil
    then show ?case using that(1) by simp
  next
    case (snoc x xs)
    then have IH: "?ok (foldl (tick_peer X now) u xs)"
        "length (c_peers (foldl (tick_peer X now) u xs)) = length (c_peers u)" and "x < length (c_peers u)"
      by simp_all
    then show ?case using step [OF IH(1), of x now] by simp
  qed
  obtain now s1 where c: "get_timestamp_ms s = (now, s1)" by fastforce
  then have "?ok s1" using assms by (auto simp: get_timestamp_ms_def)
  from fold [OF this, of "[0..<length (c_peers s1)]" now] show ?thesis
    by (simp add: rootstream_net_tick_def c lessThan_atLeast0)
qed

lemma tick_sends_no_keepalive_witness:
  "w_log (rootstream_net_tick ex_externals (ex_rs True (\<lambda>_. 3000) [ex_peer])) = []"
  using tick_sends_no_keepalive [of "ex_rs True (\<lambda>_. 3000) [ex_peer]" ex_externals]
  by (simp add: ex_rs_def ex_peer_def)

end
