(* ===== verification/Net_Faults.thy ===== *)
theory Net_Faults
  imports Net_Props
begin

text \<open>
  Sharper statements about the network core, several of which pin down behaviour that the comments of the
  source do not promise: a handshake is always answered by a handshake and restarts the nonces, a chunk
  that contradicts the first chunk of its frame writes outside the buffer, the handshake timer
  compares clock readings that may be out of order, and a reconnection over UDP counts as connected before
  anything was heard.
\<close>

section \<open>Handshakes\<close>

lemma net_handshake_udp:
  assumes "i < length (c_peers s)" and "w_udp_ok s (w_udp_sends s)"
    and "p_state (peer_at s i) \<in> {PEER_HANDSHAKE_RECEIVED, PEER_CONNECTED}"
    and "rootstream_net_handshake s i = (r, s')"
  shows "r = 0" and "w_log s' = w_log s @ [EvUdp (take (addr_len (peer_at s i)) (addr (peer_at s i)))
      (handshake_packet (c_public_key s) (c_identity s))]"
    and "\<exists>a. peer_at s' i = (peer_at s i)\<lparr>last_sent := a, p_transport := TRANSPORT_UDP\<rparr>"
    and "length (c_peers s') = length (c_peers s)"
    and "w_udp_sends s' = w_udp_sends s + 1"
  using assms by (auto simp: rootstream_net_handshake_def kernel_sendto_def get_timestamp_ms_def
      emit_def Let_def upd_peer_def peer_at_def)

text \<open>An accepted handshake on a host.\<close>

definition hs_accepted :: "externals \<Rightarrow> rs \<Rightarrow> bytes \<Rightarrow> crypto_session \<Rightarrow> bool" where
  "hs_accepted X s pl se \<longleftrightarrow> CRYPTO_PUBLIC_KEY_BYTES \<le> length pl \<and> fst (hs_version_flags pl) = PROTOCOL_VERSION
     \<and> (\<forall>se0. crypto_create_session X se0 (c_secret_key s) (take CRYPTO_PUBLIC_KEY_BYTES pl) = (0, se))"

lemma process_handshake_host:
  assumes i: "i < length (c_peers s)" and host: "c_is_host s" and udp: "\<forall>n. w_udp_ok s n"
    and acc: "hs_accepted X s pl se"
  shows "session (peer_at (process_handshake X s i pl) i) = se"
    and "p_state (peer_at (process_handshake X s i pl) i) = PEER_CONNECTED"
    and "is_streaming (peer_at (process_handshake X s i pl) i)"
    and "p_transport (peer_at (process_handshake X s i pl) i) = TRANSPORT_UDP"
    and "addr (peer_at (process_handshake X s i pl) i) = addr (peer_at s i)
      \<and> addr_len (peer_at (process_handshake X s i pl) i) = addr_len (peer_at s i)"
    and "\<exists>code. w_log (process_handshake X s i pl) = w_log s
      @ [EvUdp (take (addr_len (peer_at s i)) (addr (peer_at s i)))
           (handshake_packet (c_public_key s) (c_identity s)), EvHistory code]"
    and "length (c_peers (process_handshake X s i pl)) = length (c_peers s)"
    and "c_is_host (process_handshake X s i pl) = c_is_host s
      \<and> c_secret_key (process_handshake X s i pl) = c_secret_key s
      \<and> w_udp_ok (process_handshake X s i pl) = w_udp_ok s"
proof -
  let ?key = "take CRYPTO_PUBLIC_KEY_BYTES pl"
  obtain flags where vf: "hs_version_flags pl = (PROTOCOL_VERSION, flags)"
    using acc by (metis hs_accepted_def prod.collapse)
  let ?s1 = "upd_peer i (\<lambda>p. p\<lparr>public_key := ?key, hostname := (if hs_hostname pl \<noteq> [] then hs_hostname pl
      else hostname p), protocol_version := PROTOCOL_VERSION, protocol_flags := flags\<rparr>) s"
  let ?s2 = "upd_peer i (\<lambda>p. p\<lparr>session := se, p_state := PEER_HANDSHAKE_RECEIVED\<rparr>) ?s1"
  obtain r s3 where h: "rootstream_net_handshake ?s2 i = (r, s3)" by fastforce
  have i2: "i < length (c_peers ?s2)" using i by simp
  have p2: "p_state (peer_at ?s2 i) = PEER_HANDSHAKE_RECEIVED" "session (peer_at ?s2 i) = se"
    "addr (peer_at ?s2 i) = addr (peer_at s i)" "addr_len (peer_at ?s2 i) = addr_len (peer_at s i)"
    using i by simp_all
  have c2: "w_udp_ok ?s2 = w_udp_ok s" "w_log ?s2 = w_log s" "c_public_key ?s2 = c_public_key s"
    "c_identity ?s2 = c_identity s" "c_secret_key ?s1 = c_secret_key s" "c_is_host ?s2 = c_is_host s"
    "c_secret_key ?s2 = c_secret_key s" by (simp_all add: upd_peer_def)
  have ok2: "w_udp_ok ?s2 (w_udp_sends ?s2)" using udp c2(1) by simp
  have st2: "p_state (peer_at ?s2 i) \<in> {PEER_HANDSHAKE_RECEIVED, PEER_CONNECTED}" using p2(1) by simp
  note hh = net_handshake_udp [OF i2 ok2 st2 h]
  have r: "r = 0" and lg: "w_log s3 = w_log s @ [EvUdp (take (addr_len (peer_at s i)) (addr (peer_at s i)))
           (handshake_packet (c_public_key s) (c_identity s))]"
    and len: "length (c_peers s3) = length (c_peers s)"
    using hh(1,2,4) p2 c2 by simp_all
  obtain a where p3: "peer_at s3 i = (peer_at ?s2 i)\<lparr>last_sent := a, p_transport := TRANSPORT_UDP\<rparr>"
    using hh(3) by blast
  have ns: "net_same ?s2 s3" using net_same_handshake [OF net_same_refl [of ?s2], of i]
    unfolding h by (simp only: snd_conv)
  have c3: "c_is_host s3 = c_is_host s" "c_secret_key s3 = c_secret_key s" "w_udp_ok s3 = w_udp_ok s"
    using net_same_fields(6,7,12) [OF ns] c2 by simp_all
  let ?s4 = "upd_peer i (\<lambda>p. p\<lparr>p_state := PEER_CONNECTED, is_streaming := True\<rparr>) s3"
  have cs: "crypto_create_session X (session (peer_at ?s1 i)) (c_secret_key ?s1) ?key = (0, se)"
    using acc c2(5) by (simp add: hs_accepted_def)
  have g: "(length pl < CRYPTO_PUBLIC_KEY_BYTES) = False"
    "(PROTOCOL_VERSION < PROTOCOL_MIN_VERSION \<or> PROTOCOL_VERSION < PROTOCOL_VERSION) = False"
    "((0::int) < 0) = False" "((0::int) \<noteq> 0) = False" "c_is_host s3 = True"
    using acc c3(1) host by (simp_all add: hs_accepted_def PROTOCOL_MIN_VERSION_def PROTOCOL_VERSION_def)
  have h5: "(\<not> c_is_host (emit e (upd_peer i f s3))) = False" for e f
    using g(5) by (simp add: emit_def upd_peer_def)
  have eq: "process_handshake X s i pl = emit (EvHistory (rootstream_code (peer_at ?s4 i))) ?s4"
    by (simp only: process_handshake_def Let_def vf prod.case cs h [unfolded r] g h5 if_False if_True)
  have p4: "peer_at (emit e ?s4) i = (peer_at s3 i)\<lparr>p_state := PEER_CONNECTED, is_streaming := True\<rparr>" for e
    using i len by (simp add: emit_def peer_at_def upd_peer_def)
  show "session (peer_at (process_handshake X s i pl) i) = se"
    "p_state (peer_at (process_handshake X s i pl) i) = PEER_CONNECTED"
    "is_streaming (peer_at (process_handshake X s i pl) i)"
    "p_transport (peer_at (process_handshake X s i pl) i) = TRANSPORT_UDP"
    "addr (peer_at (process_handshake X s i pl) i) = addr (peer_at s i)
      \<and> addr_len (peer_at (process_handshake X s i pl) i) = addr_len (peer_at s i)"
    unfolding eq p4 p3 using p2 by simp_all
  show "\<exists>code. w_log (process_handshake X s i pl) = w_log s
      @ [EvUdp (take (addr_len (peer_at s i)) (addr (peer_at s i)))
           (handshake_packet (c_public_key s) (c_identity s)), EvHistory code]"
    unfolding eq using lg by (simp add: emit_def upd_peer_def)
  show "length (c_peers (process_handshake X s i pl)) = length (c_peers s)"
    "c_is_host (process_handshake X s i pl) = c_is_host s
      \<and> c_secret_key (process_handshake X s i pl) = c_secret_key s
      \<and> w_udp_ok (process_handshake X s i pl) = w_udp_ok s"
    unfolding eq using len c3 by (simp_all add: emit_def upd_peer_def)
qed

text \<open>A host that accepts a handshake from a peer connects the peer, starts streaming to it and answers
  with a handshake of its own, every time: nothing records that the peer was answered before, so two
  programs that speak this code answer each other's handshakes for ever.\<close>

theorem handshake_always_answered:
  assumes "i < length (c_peers s)" and "c_is_host s" and "\<forall>n. w_udp_ok s n"
    and "hs_accepted X s pl se"
  shows "p_state (peer_at (process_handshake X s i pl) i) = PEER_CONNECTED
    \<and> is_streaming (peer_at (process_handshake X s i pl) i)
    \<and> EvUdp (take (addr_len (peer_at s i)) (addr (peer_at s i)))
         (handshake_packet (c_public_key s) (c_identity s))
       \<in> set (drop (length (w_log s)) (w_log (process_handshake X s i pl)))"
  using process_handshake_host(2,3,6) [OF assms] by auto

lemma ex_accepted:
  "hs_accepted ex_externals (ex_rs True clock ps) (replicate 32 3)
     \<lparr>shared_key = replicate 32 8, nonce_counter = 0, authenticated = True\<rparr>"
  by (simp add: hs_accepted_def ex_externals_def ex_rs_def crypto_create_session_def
      CRYPTO_PUBLIC_KEY_BYTES_def hs_version_flags_def hs_name_len_def map2_map_map numeral_eq_Suc)

lemma handshake_always_answered_witness:
  "p_state (peer_at (process_handshake ex_externals (ex_rs True (\<lambda>_. 100) [ex_peer]) 0 (replicate 32 3)) 0)
     = PEER_CONNECTED"
  using handshake_always_answered [OF _ _ _ ex_accepted [of "\<lambda>_. 100" "[ex_peer]"], of 0]
  by (simp add: ex_rs_def)

text \<open>C31: Nonces are used twice under one key.  A handshake from a known key restarts the counter while the
  session key, which depends on the two long-term keys alone, comes out the same: the packet sent after
  one handshake and the packet sent after the next are encrypted under the same key and the same nonce 0.\<close>

theorem handshake_reuses_nonce:
  assumes i: "i < length (c_peers s)" and host: "c_is_host s" and udp: "\<forall>n. w_udp_ok s n"
    and acc: "hs_accepted X s pl se"
    and s1: "s1 = process_handshake X s i pl"
    and send1: "rootstream_net_send_encrypted X s1 i t (Some m1) n1 = (0, s2)"
    and s3: "s3 = process_handshake X s2 i pl"
    and send2: "rootstream_net_send_encrypted X s3 i t (Some m2) n2 = (0, s4)"
  shows "\<exists>dest dest' c1 c2. aead_encrypt X (shared_key se) (nonce_bytes 0) m1 = Some c1
    \<and> aead_encrypt X (shared_key se) (nonce_bytes 0) m2 = Some c2
    \<and> w_log s2 = w_log s1 @ [EvUdp dest (data_packet (w_junk s1) t 0 c1)]
    \<and> w_log s4 = w_log s3 @ [EvUdp dest' (data_packet (w_junk s3) t 0 c2)]"
proof -
  have n0: "nonce_counter se = 0"
  proof -
    have "crypto_create_session X zero_session (c_secret_key s) (take CRYPTO_PUBLIC_KEY_BYTES pl) = (0, se)"
      using acc by (simp add: hs_accepted_def)
    then show ?thesis by (auto simp: crypto_create_session_def split: option.splits prod.splits if_splits)
  qed
  note a = process_handshake_host [OF i host udp acc, folded s1]
  have ns: "net_same s1 s2" using net_same_encrypted [OF net_same_refl] send1 by (metis snd_conv)
  note f = net_same_fields [OF ns]
  have i2: "i < length (c_peers s2)" using net_same_length [OF ns] a(7) i by simp
  have h2: "c_is_host s2" and u2: "\<forall>n. w_udp_ok s2 n" and acc2: "hs_accepted X s2 pl se"
    using f a(8) host udp acc by (simp_all add: hs_accepted_def)
  note b = process_handshake_host [OF i2 h2 u2 acc2, folded s3]
  show ?thesis
    using send_encrypted_ok [OF send1 a(4)] send_encrypted_ok [OF send2 b(4)] a(1) b(1) n0
    by metis
qed

lemma handshake_reuses_nonce_witness:
  "\<exists>c1 c2. aead_encrypt ex_externals (replicate 32 8) (nonce_bytes 0) [1] = Some c1
     \<and> aead_encrypt ex_externals (replicate 32 8) (nonce_bytes 0) [2] = Some c2"
proof -
  let ?s = "ex_rs True (\<lambda>_. 100) [ex_peer]" and ?pl = "replicate 32 3 :: bytes"
  define s1 where "s1 = process_handshake ex_externals ?s 0 ?pl"
  define s2 where "s2 = snd (rootstream_net_send_encrypted ex_externals s1 0 PKT_CONTROL (Some [1]) 1)"
  define s3 where "s3 = process_handshake ex_externals s2 0 ?pl"
  have 1: "rootstream_net_send_encrypted ex_externals s1 0 PKT_CONTROL (Some [1]) 1 = (0, s2)"
  proof -
    have "fst (rootstream_net_send_encrypted ex_externals (process_handshake ex_externals ?s 0 ?pl) 0
        PKT_CONTROL (Some [1]) 1) = 0" by code_simp
    then show ?thesis by (metis s1_def s2_def prod.collapse)
  qed
  have 2: "rootstream_net_send_encrypted ex_externals s3 0 PKT_CONTROL (Some [2]) 1
      = (0, snd (rootstream_net_send_encrypted ex_externals s3 0 PKT_CONTROL (Some [2]) 1))"
  proof -
    have "fst (rootstream_net_send_encrypted ex_externals (process_handshake ex_externals
        (snd (rootstream_net_send_encrypted ex_externals (process_handshake ex_externals ?s 0 ?pl) 0
        PKT_CONTROL (Some [1]) 1)) 0 ?pl) 0 PKT_CONTROL (Some [2]) 1) = 0" by code_simp
    then show ?thesis by (metis s1_def s2_def s3_def prod.collapse)
  qed
  from handshake_reuses_nonce [OF _ _ _ ex_accepted s1_def 1 s3_def 2]
  show ?thesis by (simp add: ex_rs_def) blast
qed

section \<open>The bounds of the reassembly buffer\<close>

lemma video_grow_True:
  assumes "video_grow s i = (True, s1)" and "i < length (c_peers s)"
  shows "video_rx_expected (peer_at s1 i) = video_rx_expected (peer_at s i)
    \<and> video_rx_expected (peer_at s1 i) \<le> video_rx_capacity (peer_at s1 i) \<and> w_fault s1 = w_fault s"
proof (cases "video_rx_capacity (peer_at s i) < video_rx_expected (peer_at s i)")
  case False
  with assms show ?thesis by (simp add: video_grow_def)
next
  case True
  show ?thesis
  proof (cases "w_alloc s (w_allocs s)")
    case False
    with True assms(1) show ?thesis by (simp add: video_grow_def realloc_def alloc_ok_def)
  next
    case al: True
    from video_grow_eq [OF True al] assms show ?thesis by (auto simp: peer_at_def)
  qed
qed

text \<open>What happens to the ghost flag when a chunk is written into the buffer of a peer.\<close>

lemma heap_write_fault:
  assumes inv: "net_inv E s" and i: "i < length (c_peers s)"
  shows "w_fault (heap_write (video_rx_buffer (peer_at s i)) off bs s) \<longleftrightarrow>
    w_fault s \<or> (bs \<noteq> [] \<and> video_rx_capacity (peer_at s i) < off + length bs)"
proof -
  note b = net_inv_peer [OF inv i, folded peer_at_def]
  show ?thesis
  proof (cases "video_rx_buffer (peer_at s i)")
    case None
    with b have "video_rx_capacity (peer_at s i) = 0" by (simp add: buf_ok_def)
    with None show ?thesis by (auto simp: heap_write_def)
  next
    case (Some x)
    with b obtain c where "w_heap s x = Some c" "length c = video_rx_capacity (peer_at s i)"
      by (auto simp: buf_ok_def split: option.splits)
    with Some show ?thesis by (simp add: heap_write_def)
  qed
qed

lemma process_video_fault:
  assumes inv: "net_inv E s" and i: "i < length (c_peers s)" and ok: "video_chunk_ok dec"
    and h: "h = read_chunk_header dec" and s0: "s0 = upd_peer i (video_new_frame h) s"
    and g: "video_grow s0 i = (True, s1)"
  shows "w_fault (snd (process_video s i dec)) \<longleftrightarrow> w_fault s \<or>
    (0 < unat (vc_chunk_size h)
     \<and> video_rx_capacity (peer_at s1 i) < unat (vc_offset h) + unat (vc_chunk_size h))"
proof -
  let ?bs = "take (unat (vc_chunk_size h)) (drop VCH_SIZE dec)"
  have n0: "net_inv E s0"
    using net_inv_new_frame [OF inv] ok h s0 by (simp add: video_chunk_ok_def Let_def)
  have i0: "i < length (c_peers s0)" using i s0 by simp
  note g1 = net_inv_grow [OF n0 i0 g]
  have lb: "length ?bs = unat (vc_chunk_size h)"
    using ok h by (simp add: video_chunk_ok_def Let_def)
  then have bs: "?bs \<noteq> [] \<longleftrightarrow> 0 < unat (vc_chunk_size h)" by (metis length_greater_0_conv)
  have i1: "i < length (c_peers s1)" and n1: "net_inv E s1" using g1 i0 by simp_all
  have f1: "w_fault s1 = w_fault s" using g1 s0 by (simp add: upd_peer_def)
  let ?w = "heap_write (video_rx_buffer (peer_at s1 i)) (unat (vc_offset h)) ?bs s1"
  have e: "w_fault (snd (process_video s i dec)) = w_fault ?w"
    using ok g unfolding h s0
    by (simp add: process_video_def Let_def video_complete_def upd_peer_def)
  show ?thesis unfolding e heap_write_fault [OF n1 i1] lb bs f1 ..
qed

text \<open>C24: A chunk whose total size agrees with that of the frame in progress, or that opens a new
  frame, is never written outside the reassembly buffer, in any state that satisfies the invariant.\<close>

theorem video_consistent_in_bounds:
  assumes inv: "net_inv E s" and i: "i < length (c_peers s)"
    and agree: "video_rx_frame_id (peer_at s i) = vc_frame_id (read_chunk_header dec)
      \<longrightarrow> video_rx_expected (peer_at s i) = unat (vc_total_size (read_chunk_header dec))"
  shows "w_fault (snd (process_video s i dec)) = w_fault s"
proof (cases "video_chunk_ok dec")
  case False
  then show ?thesis by (simp add: process_video_def)
next
  case True
  let ?h = "read_chunk_header dec"
  let ?s0 = "upd_peer i (video_new_frame ?h) s"
  obtain ok s1 where g: "video_grow ?s0 i = (ok, s1)" by fastforce
  have i0: "i < length (c_peers ?s0)" using i by simp
  show ?thesis
  proof (cases ok)
    case False
    have "net_inv E ?s0" using net_inv_new_frame [OF inv] True by (simp add: video_chunk_ok_def Let_def)
    from net_inv_grow [OF this i0 g] g False True show ?thesis
      by (simp add: process_video_def Let_def) (simp add: upd_peer_def)
  next
    case okT: True
    have "video_rx_expected (peer_at ?s0 i) = unat (vc_total_size ?h)"
      using i agree by (simp add: video_new_frame_def)
    then have "unat (vc_offset ?h) + unat (vc_chunk_size ?h) \<le> video_rx_capacity (peer_at s1 i)"
      using video_grow_True [OF g [unfolded eqTrueI [OF okT]] i0] True
      by (simp add: video_chunk_ok_def Let_def)
    then show ?thesis
      using process_video_fault [OF inv i True refl refl g [unfolded eqTrueI [OF okT]]] by simp
  qed
qed

lemma video_consistent_in_bounds_witness:
  "\<not> w_fault (snd (process_video (ex_rs False (\<lambda>_. 100) [ex_peer]) 0 (video_payload 7 [1, 2, 3] 0 2 9)))"
  using video_consistent_in_bounds [OF ex_inv [of "{c_encoder (ex_rs False (\<lambda>_. 100) [ex_peer])}" False "\<lambda>_. 100"], of 0 "video_payload 7 [1, 2, 3] 0 2 9"]
  by (simp add: video_payload_header ex_rs_def peer_at_def ex_peer_def zero_peer_def)

text \<open>C25: Nothing compares the total size of a chunk with the size the frame was opened with.  A chunk of the
  frame in progress passes every check of \<open>process_received_packet\<close>, and is written outside the
  heap buffer exactly when it ends beyond the buffer's capacity.\<close>

theorem video_inconsistent_overflow:
  assumes inv: "net_inv E s" and i: "i < length (c_peers s)" and clean: "\<not> w_fault s"
    and ok: "video_chunk_ok dec"
    and cur: "video_rx_frame_id (peer_at s i) = vc_frame_id (read_chunk_header dec)"
    and cap: "video_rx_expected (peer_at s i) \<le> video_rx_capacity (peer_at s i)"
  shows "w_fault (snd (process_video s i dec)) \<longleftrightarrow>
    0 < unat (vc_chunk_size (read_chunk_header dec)) \<and>
    video_rx_capacity (peer_at s i) < unat (vc_offset (read_chunk_header dec))
      + unat (vc_chunk_size (read_chunk_header dec))"
proof -
  have id: "upd_peer i (video_new_frame (read_chunk_header dec)) s = s"
    using cur by (simp add: upd_peer_def video_new_frame_def peer_at_def)
  have "video_grow s i = (True, s)" using cap by (simp add: video_grow_def)
  from process_video_fault [OF inv i ok refl id [symmetric] this] clean show ?thesis by simp
qed

text \<open>Frame 7 was opened with 3 bytes; the next chunk announces 100 bytes and writes 10 at offset 50.\<close>

lemma video_inconsistent_overflow_witness:
  "w_fault (snd (process_video ((ex_rs False (\<lambda>_. 100)
       [ex_peer\<lparr>video_rx_frame_id := 7, video_rx_buffer := Some 0, video_rx_capacity := 3,
          video_rx_expected := 3, video_rx_received := 2\<rparr>])\<lparr>w_heap := [0 \<mapsto> [1, 2, 0]], w_next := 1\<rparr>)
     0 (video_payload 7 (replicate 100 4) 50 10 9)))"
proof -
  let ?s = "(ex_rs False (\<lambda>_. 100)
       [ex_peer\<lparr>video_rx_frame_id := 7, video_rx_buffer := Some 0, video_rx_capacity := 3,
          video_rx_expected := 3, video_rx_received := 2\<rparr>])\<lparr>w_heap := [0 \<mapsto> [1, 2, 0]], w_next := 1\<rparr>"
  let ?d = "video_payload 7 (replicate 100 4) 50 10 9"
  have inv: "net_inv E ?s"
    by (simp add: net_inv_def ex_rs_def enc_ok_def bufs_ok_def buf_ok_def MAX_PEERS_def
        MAX_VIDEO_FRAME_SIZE_def)
  have ok: "video_chunk_ok ?d" by (rule video_payload_ok(1)) (simp_all add: MAX_VIDEO_FRAME_SIZE_def)
  have h: "unat (vc_offset (read_chunk_header ?d)) = 50" "unat (vc_chunk_size (read_chunk_header ?d)) = 10"
    by (rule video_payload_ok(2,3); simp add: MAX_VIDEO_FRAME_SIZE_def)+
  have c: "0 < length (c_peers ?s)" "\<not> w_fault ?s"
    "video_rx_frame_id (peer_at ?s 0) = vc_frame_id (read_chunk_header ?d)"
    "video_rx_expected (peer_at ?s 0) \<le> video_rx_capacity (peer_at ?s 0)"
    by (simp_all add: ex_rs_def peer_at_def video_payload_header)
  have cap: "video_rx_capacity (peer_at ?s 0) = 3" by (simp add: ex_rs_def peer_at_def)
  show ?thesis unfolding video_inconsistent_overflow [OF inv c(1,2) ok c(3,4)] h cap by simp
qed

section \<open>Timers\<close>

text \<open>What the timer does to a peer that awaits a handshake answer.  After a second it sends the handshake
  again and takes a new clock reading \<open>t\<close>; the five-second timeout then compares the reading from the
  start of the tick with \<open>t\<close>, in unsigned arithmetic.  When the clock stood still, the peer can
  never time out; when it moved on by as little as a millisecond, the difference wraps and the peer is
  disconnected at its first retry.\<close>

theorem handshake_timer:
  assumes i: "i < length (c_peers s)" and st: "p_state (peer_at s i) = PEER_HANDSHAKE_SENT"
    and due: "now - handshake_sent_time (peer_at s i) \<ge> 1000"
    and udp: "w_udp_ok s (w_udp_sends s)"
    and t: "t = w_clock s (w_reads s + 1)"
  shows "p_state (peer_at (tick_handshake s now i) i) =
      (if now - t \<ge> 5000 then PEER_DISCONNECTED else PEER_HANDSHAKE_SENT)
    \<and> (t = now \<longrightarrow> p_state (peer_at (tick_handshake s now i) i) = PEER_HANDSHAKE_SENT)
    \<and> (t = now + 1 \<longrightarrow> p_state (peer_at (tick_handshake s now i) i) = PEER_DISCONNECTED)"
proof -
  obtain r s1 where h: "rootstream_net_handshake s i = (r, s1)" by fastforce
  then have p: "p_state (peer_at s1 i) = PEER_HANDSHAKE_SENT" "handshake_sent_time (peer_at s1 i) = t"
    "length (c_peers s1) = length (c_peers s)"
    using i st udp t
    by (auto simp: rootstream_net_handshake_def kernel_sendto_def get_timestamp_ms_def emit_def Let_def
        upd_peer_def peer_at_def mark_handshake_sent_def)
  have "p_state (peer_at (tick_handshake s now i) i) =
      (if now - t \<ge> 5000 then PEER_DISCONNECTED else PEER_HANDSHAKE_SENT)"
    using st due p i h
    by (simp add: tick_handshake_def HANDSHAKE_RETRY_MS_def PEER_TIMEOUT_MS_def Let_def)
  then show ?thesis by simp
qed

lemma handshake_timer_witness:
  "p_state (peer_at (tick_handshake (ex_rs True (\<lambda>_. 3001) [ex_peer\<lparr>p_state := PEER_HANDSHAKE_SENT,
     handshake_sent_time := 2000\<rparr>]) 3000 0) 0) = PEER_DISCONNECTED"
  using handshake_timer [of 0 "ex_rs True (\<lambda>_. 3001) [ex_peer\<lparr>p_state := PEER_HANDSHAKE_SENT,
     handshake_sent_time := 2000\<rparr>]" 3000 3001]
  by (simp add: ex_rs_def peer_at_def)

text \<open>C40: A connected peer that was silent for five seconds is disconnected by the next tick, stops
  streaming and gives its reassembly buffer back to the heap.\<close>

theorem silent_peer_times_out:
  assumes "i < length (c_peers s)" and "p_state (peer_at s i) = PEER_CONNECTED"
    and "0 < last_seen (peer_at s i)" and "now - last_seen (peer_at s i) \<ge> 5000"
  shows "p_state (peer_at (tick_peer X now s i) i) = PEER_DISCONNECTED
    \<and> \<not> is_streaming (peer_at (tick_peer X now s i) i)
    \<and> video_rx_buffer (peer_at (tick_peer X now s i) i) = None
    \<and> (\<forall>b. video_rx_buffer (peer_at s i) = Some b \<longrightarrow> w_heap (tick_peer X now s i) b = None)"
proof -
  have h: "tick_handshake s now i = s" using assms(2) by (simp add: tick_handshake_def)
  show ?thesis
    using assms unfolding tick_peer_def h tick_connected_def
    by (cases "video_rx_buffer (peer_at s i)")
      (simp_all add: Let_def PEER_TIMEOUT_MS_def heap_free_def upd_peer_def peer_at_def)
qed

lemma silent_peer_times_out_witness:
  "p_state (peer_at (tick_peer ex_externals 5100 (ex_rs True (\<lambda>_. 5100) [ex_peer]) 0) 0)
     = PEER_DISCONNECTED"
  using silent_peer_times_out [of 0 "ex_rs True (\<lambda>_. 5100) [ex_peer]" 5100 ex_externals]
  by (simp add: ex_rs_def peer_at_def ex_peer_def)

section \<open>Reconnection\<close>

text \<open>The reconnection data of a peer that failed \<open>n\<close> times in a row, before it gives up.\<close>

definition backoff_after :: "nat \<Rightarrow> nat" where
  "backoff_after n = min 30000 (100 * 2 ^ n)"

definition rc_ok :: "reconnect_ctx \<Rightarrow> bool" where
  "rc_ok rc \<longleftrightarrow> rc_attempt_count rc < 10 \<and> rc_backoff_ms rc = backoff_after (rc_attempt_count rc)"

lemma rc_ok_init: "rc_ok reconnect_init"
  by (simp add: rc_ok_def reconnect_init_def INITIAL_BACKOFF_MS_def backoff_after_def)

lemma rc_ok_fail:
  assumes "rc_ok rc" and "rc_attempt_count rc < 9"
  shows "rc_ok (reconnect_fail now rc)"
    and "rc_attempt_count (reconnect_fail now rc) = rc_attempt_count rc + 1"
    and "rc_next_attempt (reconnect_fail now rc) = now + of_nat (backoff_after (rc_attempt_count rc + 1))"
  using assms by (auto simp: rc_ok_def reconnect_fail_def backoff_after_def Let_def
      MAX_RECONNECT_ATTEMPTS_def MAX_BACKOFF_MS_def min_def)

text \<open>C30: Reconnection backs off exponentially and gives up.  Before the scheduled time nothing is sent.
  Of the attempts that fail in a row the \<open>n\<close>-th, for \<open>n < 10\<close>, schedules the next one after
  \<open>min 30000 (100 * 2^n)\<close> ms, and the tenth marks the peer as failed and returns -1; a success
  resets the count and the backoff.\<close>

theorem reconnect_backoff:
  assumes i: "i < length (c_peers s)" and rc: "p_reconnect (peer_at s i) = Some rc" "rc_ok rc"
    and s1: "s1 = s\<lparr>w_reads := w_reads s + 1\<rparr>" and now: "now = w_clock s (w_reads s)"
    and att: "reconnect_attempt s1 i = (ret, s2)"
    and res: "peer_try_reconnect s i = (r, s')"
  shows "(now < rc_next_attempt rc \<longrightarrow> r = 0 \<and> s' = s1)
    \<and> (rc_next_attempt rc \<le> now \<and> ret = 0 \<longrightarrow> r = 1 \<and> p_state (peer_at s' i) = PEER_CONNECTED
        \<and> (\<exists>rc'. p_reconnect (peer_at s' i) = Some rc' \<and> rc_ok rc' \<and> rc_attempt_count rc' = 0))
    \<and> (rc_next_attempt rc \<le> now \<and> ret \<noteq> 0 \<and> rc_attempt_count rc < 9 \<longrightarrow> r = 0
        \<and> (\<exists>rc'. p_reconnect (peer_at s' i) = Some rc' \<and> rc_ok rc'
             \<and> rc_attempt_count rc' = rc_attempt_count rc + 1
             \<and> rc_next_attempt rc' = now + of_nat (backoff_after (rc_attempt_count rc + 1))))
    \<and> (rc_next_attempt rc \<le> now \<and> ret \<noteq> 0 \<and> rc_attempt_count rc = 9 \<longrightarrow>
        r = -1 \<and> p_state (peer_at s' i) = PEER_FAILED)"
proof -
  have "net_same s1 s2" using net_same_attempt [OF net_same_refl [of s1], of i] att by simp
  then have i2: "i < length (c_peers s2)" using net_same_length i s1 by fastforce
  have eq: "peer_try_reconnect s i =
      (if now < rc_next_attempt rc then (0, s1)
       else if ret = 0 then (1, upd_peer i (\<lambda>p. p\<lparr>p_reconnect := Some (reconnect_ok now rc),
              p_state := PEER_CONNECTED\<rparr>) s2)
       else if rc_attempt_count rc + 1 \<ge> 10
       then (-1, upd_peer i (\<lambda>p. p\<lparr>p_reconnect := Some (reconnect_fail now rc), p_state := PEER_FAILED\<rparr>) s2)
       else (0, upd_peer i (\<lambda>p. p\<lparr>p_reconnect := Some (reconnect_fail now rc)\<rparr>) s2))"
    using i rc(1) att
    by (simp add: peer_try_reconnect_def get_timestamp_ms_def MAX_RECONNECT_ATTEMPTS_def now s1)
  have ok0: "rc_ok (reconnect_ok now rc)" "rc_attempt_count (reconnect_ok now rc) = 0"
    by (simp_all add: rc_ok_def reconnect_ok_def INITIAL_BACKOFF_MS_def backoff_after_def)
  have fail: "rc_ok (reconnect_fail now rc) \<and> rc_attempt_count (reconnect_fail now rc) = rc_attempt_count rc + 1
      \<and> rc_next_attempt (reconnect_fail now rc) = now + of_nat (backoff_after (rc_attempt_count rc + 1))"
    if "rc_attempt_count rc < 9" using rc_ok_fail [OF rc(2) that] by blast
  consider "now < rc_next_attempt rc" | "rc_next_attempt rc \<le> now" "ret = 0"
    | "rc_next_attempt rc \<le> now" "ret \<noteq> 0" "rc_attempt_count rc < 9"
    | "rc_next_attempt rc \<le> now" "ret \<noteq> 0" "\<not> rc_attempt_count rc < 9"
    by fastforce
  then show ?thesis
  proof cases
    case 1
    then have "\<not> rc_next_attempt rc \<le> now" by (simp add: not_le)
    with 1 res eq show ?thesis by auto
  next
    case 2
    then have "(now < rc_next_attempt rc) = False" by (simp add: not_less)
    with 2 show ?thesis using res eq i2 ok0 by auto
  next
    case 3
    then have "(now < rc_next_attempt rc) = False" by (simp add: not_less)
    with 3 show ?thesis using res eq i2 fail [OF 3(3)] by auto
  next
    case 4
    then have "(now < rc_next_attempt rc) = False" by (simp add: not_less)
    with 4 show ?thesis using res eq i2 by auto
  qed
qed

lemma reconnect_backoff_witness:
  "fst (peer_try_reconnect ((ex_rs True (\<lambda>_. 3000) [ex_peer\<lparr>p_state := PEER_DISCONNECTED,
     p_reconnect := Some reconnect_init\<rparr>])\<lparr>w_udp_ok := \<lambda>_. False\<rparr>) 0) = 0"
proof -
  let ?s = "(ex_rs True (\<lambda>_. 3000) [ex_peer\<lparr>p_state := PEER_DISCONNECTED,
     p_reconnect := Some reconnect_init\<rparr>])\<lparr>w_udp_ok := \<lambda>_. False\<rparr>"
  have f: "fst (reconnect_attempt (?s\<lparr>w_reads := w_reads ?s + 1\<rparr>) 0) = -1" by code_simp
  have a: "reconnect_attempt (?s\<lparr>w_reads := w_reads ?s + 1\<rparr>) 0 =
      (-1, snd (reconnect_attempt (?s\<lparr>w_reads := w_reads ?s + 1\<rparr>) 0))"
    unfolding f [symmetric] by simp
  have t: "peer_try_reconnect ?s 0 = (fst (peer_try_reconnect ?s 0), snd (peer_try_reconnect ?s 0))"
    by simp
  have "0 < length (c_peers ?s)" "p_reconnect (peer_at ?s 0) = Some reconnect_init"
    "rc_next_attempt reconnect_init = 0" "rc_attempt_count reconnect_init = 0"
    by (simp_all add: ex_rs_def peer_at_def reconnect_init_def)
  with reconnect_backoff [OF _ _ rc_ok_init refl refl a t] show ?thesis by simp
qed

text \<open>A reconnection over UDP counts as connected as soon as the kernel takes the handshake
  datagram: the peer is marked connected, its failure count is reset, and nothing has been received.\<close>

theorem reconnect_udp_optimistic:
  assumes i: "i < length (c_peers s)" and rc: "p_reconnect (peer_at s i) = Some rc"
    and due: "rc_next_attempt rc \<le> w_clock s (w_reads s)"
    and udp: "p_transport (peer_at s i) = TRANSPORT_UDP" "w_udp_ok s (w_udp_sends s)"
  shows "fst (peer_try_reconnect s i) = 1
    \<and> p_state (peer_at (snd (peer_try_reconnect s i)) i) = PEER_CONNECTED
    \<and> last_received (peer_at (snd (peer_try_reconnect s i)) i) = last_received (peer_at s i)
    \<and> w_log (snd (peer_try_reconnect s i)) = w_log s @ [EvUdp (take (addr_len (peer_at s i)) (addr (peer_at s i)))
         (handshake_packet (c_public_key s) (c_identity s))]"
  using assms
  by (simp add: peer_try_reconnect_def reconnect_attempt_def rootstream_net_handshake_def
      kernel_sendto_def get_timestamp_ms_def emit_def Let_def upd_peer_def peer_at_def
      mark_handshake_sent_def linorder_not_less)

lemma reconnect_udp_optimistic_witness:
  "fst (peer_try_reconnect (ex_rs True (\<lambda>_. 3000) [ex_peer\<lparr>p_state := PEER_DISCONNECTED,
     p_reconnect := Some reconnect_init\<rparr>]) 0) = 1"
  using reconnect_udp_optimistic [of 0 "ex_rs True (\<lambda>_. 3000) [ex_peer\<lparr>p_state := PEER_DISCONNECTED,
     p_reconnect := Some reconnect_init\<rparr>]" reconnect_init]
  by (simp add: ex_rs_def peer_at_def ex_peer_def reconnect_init_def)

end
