(* ===== verification/Session_Hs.thy ===== *)
theory Session_Hs
  imports Wire
begin

text \<open>
  The session handshake of \<^verbatim>\<open>src/src/session_hs\<close>: the message format with its CRC-32
  (\<^verbatim>\<open>hs_message.c\<close>), the state machines of the client and the server (\<^verbatim>\<open>hs_state.c\<close>) and the
  session token (\<^verbatim>\<open>hs_token.c\<close>).
\<close>

section \<open>CRC-32\<close>

definition crc32_step :: "u32 \<Rightarrow> u32" where
  "crc32_step crc = drop_bit 1 crc XOR (0xEDB88320 AND - (crc AND 1))"

definition crc32_byte :: "u32 \<Rightarrow> u8 \<Rightarrow> u32" where
  "crc32_byte crc b = (crc32_step ^^ 8) (crc XOR ucast b)"

definition crc32_upd :: "u32 \<Rightarrow> u8 list \<Rightarrow> u32" where
  "crc32_upd c bs = foldl crc32_byte c bs"

lemma crc32_step_bits:
  "bit (crc32_step c) n \<longleftrightarrow> (if n < 32 then bit c (Suc n) \<noteq> (odd c \<and> bit (0xEDB88320 :: u32) n) else False)"
proof -
  have "- (c AND 1) = (if odd c then - 1 else 0)" by (simp add: and_one_eq mod_2_eq_odd)
  then show ?thesis by (auto simp: crc32_step_def bit_simps dest: bit_imp_le_length)
qed

text \<open>The polynomial has its top bit set, so that a step loses nothing.\<close>

lemma crc32_step_inj: "crc32_step c = crc32_step d \<Longrightarrow> c = d"
proof -
  assume e: "crc32_step c = crc32_step d"
  have b: "bit (crc32_step c) n = bit (crc32_step d) n" for n by (simp add: e)
  have top: "bit (0xEDB88320 :: u32) 31" by simp
  have "\<not> bit c 32" "\<not> bit d 32" using bit_imp_le_length [of c 32] bit_imp_le_length [of d 32] by auto
  then have odd: "odd c = odd d"
    using b [of 31] top by (simp add: crc32_step_bits)
  have "bit c (Suc n) = bit d (Suc n)" for n
  proof (cases "n < 32")
    case True
    with b [of n] odd show ?thesis by (simp add: crc32_step_bits) blast
  next
    case False
    then show ?thesis using bit_imp_le_length [of c "Suc n"] bit_imp_le_length [of d "Suc n"] by auto
  qed
  then have "bit c n = bit d n" for n using odd by (cases n) (simp_all add: bit_0)
  then show "c = d" by (simp add: bit_eq_iff)
qed

lemma crc32_steps_inj: "(crc32_step ^^ n) c = (crc32_step ^^ n) d \<Longrightarrow> c = d"
  by (induction n) (auto dest: crc32_step_inj)

lemma xor_cancel: "(a XOR b = a XOR c) = (b = (c :: 'a::len word))"
  by (metis xor.assoc xor.left_neutral xor_self_eq)

lemma crc32_byte_inj1: "crc32_byte c b = crc32_byte d b \<Longrightarrow> c = d"
  using crc32_steps_inj [of 8] by (auto simp: crc32_byte_def) (metis xor.commute xor_cancel)

lemma crc32_byte_inj2: "crc32_byte c a = crc32_byte c b \<Longrightarrow> a = b"
proof -
  assume "crc32_byte c a = crc32_byte c b"
  then have "(crc32_step ^^ 8) (c XOR ucast a) = (crc32_step ^^ 8) (c XOR ucast b)"
    by (simp only: crc32_byte_def)
  then have "c XOR ucast a = c XOR ucast b" by (rule crc32_steps_inj)
  then have "(ucast a :: u32) = ucast b" by (simp only: xor_cancel)
  moreover have "ucast (ucast x :: u32) = x" for x :: u8
    by (rule bit_word_eqI) (simp add: bit_simps)
  ultimately show "a = b" by metis
qed

lemma crc32_upd_inj: "crc32_upd c bs = crc32_upd d bs \<Longrightarrow> c = d"
  unfolding crc32_upd_def by (induction bs arbitrary: c d) (auto dest: crc32_byte_inj1)

text \<open>Two byte lists that differ in one place have different checksums.\<close>

lemma crc32_detects:
  assumes "i < length bs" and "b \<noteq> bs ! i"
  shows "crc32_upd c (bs[i := b]) \<noteq> crc32_upd c bs"
proof
  assume e: "crc32_upd c (bs[i := b]) = crc32_upd c bs"
  let ?c = "crc32_upd c (take i bs)"
  have split: "crc32_upd c (take i bs @ x # drop (Suc i) bs) =
      crc32_upd (crc32_byte ?c x) (drop (Suc i) bs)" for x
    by (simp add: crc32_upd_def)
  have "bs[i := b] = take i bs @ b # drop (Suc i) bs" using assms(1) by (rule upd_conv_take_nth_drop)
  moreover have "bs = take i bs @ bs ! i # drop (Suc i) bs" using assms(1) by (rule id_take_nth_drop)
  ultimately have "crc32_upd (crc32_byte ?c b) (drop (Suc i) bs) = crc32_upd (crc32_byte ?c (bs ! i)) (drop (Suc i) bs)"
    using e split by metis
  then show False using crc32_upd_inj crc32_byte_inj2 assms(2) by blast
qed

section \<open>Messages\<close>

text \<open>\<open>hm_type\<close> is the enumeration as the 16 bits that the wire carries; the payload is the
  256-byte array.\<close>

record hs_message =
  hm_type :: u16
  hm_seq :: u16
  hm_payload_len :: u16
  hm_payload :: "u8 list"

definition HS_MSG_MAGIC :: u32 where "HS_MSG_MAGIC = 0x48534D47"
definition HS_MSG_HDR_SIZE :: nat where "HS_MSG_HDR_SIZE = 16"
definition HS_MAX_PAYLOAD :: nat where "HS_MAX_PAYLOAD = 256"

definition HS_MSG_HELLO :: u16 where "HS_MSG_HELLO = 1"
definition HS_MSG_HELLO_ACK :: u16 where "HS_MSG_HELLO_ACK = 2"
definition HS_MSG_AUTH :: u16 where "HS_MSG_AUTH = 3"
definition HS_MSG_AUTH_ACK :: u16 where "HS_MSG_AUTH_ACK = 4"
definition HS_MSG_CONFIG :: u16 where "HS_MSG_CONFIG = 5"
definition HS_MSG_READY :: u16 where "HS_MSG_READY = 6"
definition HS_MSG_ERROR :: u16 where "HS_MSG_ERROR = 7"
definition HS_MSG_BYE :: u16 where "HS_MSG_BYE = 8"

lemmas hs_msg_defs = HS_MSG_HELLO_def HS_MSG_HELLO_ACK_def HS_MSG_AUTH_def HS_MSG_AUTH_ACK_def
  HS_MSG_CONFIG_def HS_MSG_READY_def HS_MSG_ERROR_def HS_MSG_BYE_def

definition hs_crc :: "u8 list \<Rightarrow> nat \<Rightarrow> u32" where
  \<comment> \<open>over the first twelve bytes and the payload of a buffer\<close>
  "hs_crc buf plen = crc32_upd 0xFFFFFFFF (take 12 buf @ take plen (drop HS_MSG_HDR_SIZE buf)) XOR 0xFFFFFFFF"

definition hs_head :: "hs_message \<Rightarrow> u8 list" where
  "hs_head m = w32le HS_MSG_MAGIC @ w16le (hm_type m) @ w16le (hm_seq m) @ w16le (hm_payload_len m) @ w16le 0"

definition hs_body :: "hs_message \<Rightarrow> u8 list" where
  "hs_body m = take (unat (hm_payload_len m)) (hm_payload m)"

definition hs_bytes :: "hs_message \<Rightarrow> u8 list" where
  "hs_bytes m = hs_head m @ w32le (crc32_upd 0xFFFFFFFF (hs_head m @ hs_body m) XOR 0xFFFFFFFF) @ hs_body m"

fun hs_message_encode :: "hs_message option \<Rightarrow> u8 list option \<Rightarrow> int \<times> u8 list option" where
  "hs_message_encode (Some m) (Some buf) =
     (if unat (hm_payload_len m) > HS_MAX_PAYLOAD then (-1, Some buf)
      else let total = HS_MSG_HDR_SIZE + unat (hm_payload_len m) in
        if length buf < total then (-1, Some buf)
        else (int total, Some (overwrite (hs_bytes m) buf)))"
| "hs_message_encode _ buf = (-1, buf)"

fun hs_message_decode :: "u8 list option \<Rightarrow> hs_message option \<Rightarrow> int \<times> hs_message option" where
  "hs_message_decode (Some buf) (Some msg) =
     (if length buf < HS_MSG_HDR_SIZE then (-1, Some msg)
      else if r32le buf 0 \<noteq> HS_MSG_MAGIC then (-1, Some msg)
      else let plen = r16le buf 8 in
        if unat plen > HS_MAX_PAYLOAD then (-1, Some msg)
        else if length buf < HS_MSG_HDR_SIZE + unat plen then (-1, Some msg)
        else if r32le buf 12 \<noteq> hs_crc buf (unat plen) then (-1, Some msg)
        else (0, Some \<lparr>hm_type = r16le buf 4, hm_seq = r16le buf 6, hm_payload_len = plen,
                 hm_payload = overwrite (take (unat plen) (drop HS_MSG_HDR_SIZE buf))
                                (replicate HS_MAX_PAYLOAD 0)\<rparr>))"
| "hs_message_decode _ msg = (-1, msg)"

text \<open>A message as a decoder leaves it: the array has 256 bytes, zero after the payload.\<close>

definition hs_wf :: "hs_message \<Rightarrow> bool" where
  "hs_wf m \<longleftrightarrow> unat (hm_payload_len m) \<le> HS_MAX_PAYLOAD \<and> length (hm_payload m) = HS_MAX_PAYLOAD
     \<and> drop (unat (hm_payload_len m)) (hm_payload m) = replicate (HS_MAX_PAYLOAD - unat (hm_payload_len m)) 0"

lemma length_hs_head [simp]: "length (hs_head m) = 12"
  by (simp add: hs_head_def)

lemma length_hs_body: "hs_wf m \<Longrightarrow> length (hs_body m) = unat (hm_payload_len m)"
  by (simp add: hs_wf_def hs_body_def)

definition hs_zero :: hs_message where
  "hs_zero = \<lparr>hm_type = 0, hm_seq = 0, hm_payload_len = 0, hm_payload = replicate HS_MAX_PAYLOAD 0\<rparr>"

lemma hs_decode_bytes:
  assumes wf: "hs_wf m"
  shows "hs_message_decode (Some (hs_bytes m @ rest)) (Some x) = (0, Some m)"
proof -
  let ?b = "hs_bytes m @ rest" and ?n = "unat (hm_payload_len m)"
  let ?crc = "crc32_upd 0xFFFFFFFF (hs_head m @ hs_body m) XOR 0xFFFFFFFF"
  note lb = length_hs_body [OF wf]
  have len: "length ?b = 16 + ?n + length rest" using lb by (simp add: hs_bytes_def)
  have b: "?b = w32le HS_MSG_MAGIC @ w16le (hm_type m) @ w16le (hm_seq m) @ w16le (hm_payload_len m) @
      w16le 0 @ w32le ?crc @ hs_body m @ rest" by (simp add: hs_bytes_def hs_head_def)
  have rd: "r32le ?b 0 = HS_MSG_MAGIC" "r16le ?b 4 = hm_type m" "r16le ?b 6 = hm_seq m"
    "r16le ?b 8 = hm_payload_len m" "r32le ?b 12 = ?crc"
    unfolding b by (simp_all add: wire_simps)
  have hd: "take 12 ?b = hs_head m" by (simp add: hs_bytes_def)
  have bd: "take ?n (drop 16 ?b) = hs_body m" using lb by (simp add: hs_bytes_def)
  have "overwrite (hs_body m) (replicate HS_MAX_PAYLOAD 0) = hm_payload m"
    using wf lb by (simp add: overwrite_def hs_body_def hs_wf_def) (metis append_take_drop_id)
  then show ?thesis
    using wf len rd hd bd lb
    by (simp add: hs_crc_def hs_wf_def HS_MSG_HDR_SIZE_def Let_def)
qed

definition hs_dec :: "u8 list \<Rightarrow> hs_message option" where
  "hs_dec b = (case hs_message_decode (Some b) (Some hs_zero) of (r, m) \<Rightarrow> if r = 0 then m else None)"

interpretation hs: codec hs_wf hs_bytes hs_dec
  by unfold_locales (simp add: hs_dec_def hs_decode_bytes del: hs_message_decode.simps)


lemma hs_encode_bytes:
  assumes "hs_wf m"
  shows "hs_message_encode (Some m) (Some (replicate (length (hs_bytes m)) 0))
    = (int (length (hs_bytes m)), Some (hs_bytes m))"
proof -
  have "length (hs_bytes m) = HS_MSG_HDR_SIZE + unat (hm_payload_len m)"
    using length_hs_body [OF assms] by (simp add: hs_bytes_def HS_MSG_HDR_SIZE_def)
  then show ?thesis using assms by (simp add: hs_wf_def overwrite_def Let_def)
qed

text \<open>C29: Messages written back to back into a stream come out of the stream in order and unchanged, for
  every list of well-formed messages; the encoder accepts each of them and writes exactly these bytes.\<close>

theorem hs_stream_roundtrip:
  assumes "\<forall>m\<in>set ms. hs_wf m"
  shows "hs.decode_n (length ms) (concat (map hs_bytes ms) @ rest) = Some ms
    \<and> (\<forall>m\<in>set ms. hs_message_encode (Some m) (Some (replicate (length (hs_bytes m)) 0))
         = (int (length (hs_bytes m)), Some (hs_bytes m)))"
  using hs.decode_stream [OF assms] hs_encode_bytes assms by blast

definition hs_ex :: hs_message where
  "hs_ex = \<lparr>hm_type = HS_MSG_AUTH, hm_seq = 2, hm_payload_len = 3, hm_payload = [7, 8, 9] @ replicate 253 0\<rparr>"

lemma hs_ex_wf: "hs_wf hs_ex"
  by (simp add: hs_ex_def hs_wf_def HS_MAX_PAYLOAD_def)

lemma hs_stream_roundtrip_witness: "hs.decode_n 2 (hs_bytes hs_ex @ hs_bytes hs_ex @ [1, 2]) = Some [hs_ex, hs_ex]"
  using hs_stream_roundtrip [of "[hs_ex, hs_ex]" "[1, 2]"] hs_ex_wf by (simp add: numeral_2_eq_2)

text \<open>C27: The decoder rejects every message in which one byte was altered, be it in the header (outside the
  length field, which decides what is covered), in the checksum or in the payload.\<close>

theorem hs_corruption_rejected:
  assumes wf: "hs_wf m" and i: "i < length (hs_bytes m)" "i \<noteq> 8" "i \<noteq> 9" and b: "b \<noteq> hs_bytes m ! i"
  shows "hs_message_decode (Some ((hs_bytes m)[i := b])) (Some x) = (-1, Some x)"
proof -
  let ?b = "hs_bytes m" and ?n = "unat (hm_payload_len m)"
  let ?c = "?b[i := b]"
  let ?cov = "\<lambda>b. take 12 b @ take ?n (drop 16 b)"
  have body: "length (hs_body m) = ?n" using length_hs_body [OF wf] .
  have len: "length ?b = 16 + ?n" using body by (simp add: hs_bytes_def)
  have plb: "r16le ?b 8 = hm_payload_len m"
    by (simp add: hs_bytes_def hs_head_def wire_simps)
  have "r16le ?c 8 = r16le ?b 8" using i by (intro r16le_cong) simp_all
  with plb have pl: "r16le ?c 8 = hm_payload_len m" by simp
  have "hs_message_decode (Some (?b @ [])) (Some x) = (0, Some m)" by (rule hs_decode_bytes [OF wf])
  then have ok: "r32le ?b 12 = hs_crc ?b ?n" "r32le ?b 0 = HS_MSG_MAGIC"
    using wf len plb by (auto simp: Let_def HS_MSG_HDR_SIZE_def hs_wf_def split: if_splits)
  have "r32le ?c 12 \<noteq> hs_crc ?c ?n"
  proof (cases "12 \<le> i \<and> i < 16")
    case True
    have cov: "?cov ?c = ?cov ?b" using True by simp
    have "r32le ?c 12 \<noteq> r32le ?b 12"
    proof
      assume "r32le ?c 12 = r32le ?b 12"
      then have "?c ! (12 + (i - 12)) = ?b ! (12 + (i - 12))" by (rule r32le_inj) (use True in linarith)
      with True i(1) b show False by simp
    qed
    then show ?thesis using ok(1) cov by (simp add: hs_crc_def HS_MSG_HDR_SIZE_def)
  next
    case False
    have rd: "r32le ?c 12 = r32le ?b 12" using False by (intro r32le_cong nth_list_update_neq) auto
    have "\<exists>k. ?cov ?c = (?cov ?b)[k := b] \<and> k < length (?cov ?b) \<and> ?cov ?b ! k = ?b ! i"
    proof (cases "i < 12")
      case True
      then have "?cov ?c = (?cov ?b)[i := b]" using len by (simp add: take_update_swap list_update_append)
      moreover have "?cov ?b ! i = ?b ! i" using True len by (simp add: nth_append)
      ultimately show ?thesis using True len by (intro exI [of _ i]) simp
    next
      case F: False
      with False have "16 \<le> i" by linarith
      then obtain k where k: "i = 16 + k" using le_Suc_ex by blast
      with i(1) len have kn: "k < ?n" by simp
      have "?cov ?c = (?cov ?b)[12 + k := b]"
        using len kn k by (simp add: drop_update_swap list_update_append)
      moreover have "?cov ?b ! (12 + k) = ?b ! i" using kn k len by (simp add: nth_append)
      ultimately show ?thesis using kn len by (intro exI [of _ "12 + k"]) simp
    qed
    then have "crc32_upd 0xFFFFFFFF (?cov ?c) \<noteq> crc32_upd 0xFFFFFFFF (?cov ?b)"
      using crc32_detects b by metis
    then show ?thesis
      using ok(1) rd by (auto simp: hs_crc_def HS_MSG_HDR_SIZE_def) (metis xor.commute xor_cancel)
  qed
  then show ?thesis
    using pl wf len by (simp add: Let_def HS_MSG_HDR_SIZE_def hs_wf_def)
qed

lemma hs_corruption_rejected_witness:
  "fst (hs_message_decode (Some ((hs_bytes hs_ex)[17 := 0])) (Some hs_zero)) = -1"
proof -
  have "length (hs_bytes hs_ex) = 19" "hs_bytes hs_ex ! 17 = 8"
    by (simp_all add: hs_bytes_def hs_body_def hs_ex_def nth_append)
  with hs_corruption_rejected [OF hs_ex_wf, of 17 0 hs_zero] show ?thesis
    by (simp del: hs_message_decode.simps)
qed

section \<open>The state machines\<close>

datatype hs_state = HS_ST_INIT | HS_ST_HELLO_SENT | HS_ST_HELLO_RCVD | HS_ST_AUTH | HS_ST_AUTH_WAIT
  | HS_ST_AUTH_SENT | HS_ST_AUTH_VERIFY | HS_ST_CONFIG_WAIT | HS_ST_CONFIG_SENT | HS_ST_READY
  | HS_ST_ERROR | HS_ST_CLOSED

datatype hs_role = HS_ROLE_CLIENT | HS_ROLE_SERVER

record hs_fsm =
  fsm_role :: hs_role
  fsm_state :: hs_state
  fsm_reason :: u8

definition hs_fsm_create :: "bool \<Rightarrow> hs_role \<Rightarrow> hs_fsm option" where
  "hs_fsm_create mem role =
     (if mem then Some \<lparr>fsm_role = role, fsm_state = HS_ST_INIT, fsm_reason = 0\<rparr> else None)"

definition hs_fsm_state :: "hs_fsm option \<Rightarrow> hs_state" where
  "hs_fsm_state f = (case f of None \<Rightarrow> HS_ST_ERROR | Some f \<Rightarrow> fsm_state f)"

definition hs_fsm_is_terminal :: "hs_fsm option \<Rightarrow> bool" where
  "hs_fsm_is_terminal f = (case f of None \<Rightarrow> True
     | Some f \<Rightarrow> fsm_state f = HS_ST_ERROR \<or> fsm_state f = HS_ST_CLOSED)"

definition hs_client_next :: "hs_state \<Rightarrow> u16 \<Rightarrow> hs_state option" where
  "hs_client_next s t = (case s of
     HS_ST_INIT \<Rightarrow> if t = HS_MSG_HELLO then Some HS_ST_HELLO_SENT else None
   | HS_ST_HELLO_SENT \<Rightarrow> if t = HS_MSG_HELLO_ACK then Some HS_ST_AUTH else None
   | HS_ST_AUTH \<Rightarrow> if t = HS_MSG_AUTH then Some HS_ST_AUTH_SENT else None
   | HS_ST_AUTH_SENT \<Rightarrow> if t = HS_MSG_AUTH_ACK then Some HS_ST_CONFIG_WAIT else None
   | HS_ST_CONFIG_WAIT \<Rightarrow> if t = HS_MSG_CONFIG then Some HS_ST_READY else None
   | HS_ST_READY \<Rightarrow> if t = HS_MSG_BYE then Some HS_ST_CLOSED else None
   | _ \<Rightarrow> None)"

definition hs_server_next :: "hs_state \<Rightarrow> u16 \<Rightarrow> hs_state option" where
  "hs_server_next s t = (case s of
     HS_ST_INIT \<Rightarrow> if t = HS_MSG_HELLO then Some HS_ST_HELLO_RCVD else None
   | HS_ST_HELLO_RCVD \<Rightarrow> if t = HS_MSG_HELLO_ACK then Some HS_ST_AUTH_WAIT else None
   | HS_ST_AUTH_WAIT \<Rightarrow> if t = HS_MSG_AUTH then Some HS_ST_AUTH_VERIFY else None
   | HS_ST_AUTH_VERIFY \<Rightarrow> if t = HS_MSG_AUTH_ACK then Some HS_ST_CONFIG_SENT else None
   | HS_ST_CONFIG_SENT \<Rightarrow> if t = HS_MSG_CONFIG then Some HS_ST_READY else None
   | HS_ST_READY \<Rightarrow> if t = HS_MSG_BYE then Some HS_ST_CLOSED else None
   | _ \<Rightarrow> None)"

definition hs_fsm_process :: "hs_fsm option \<Rightarrow> hs_message option \<Rightarrow> int \<times> hs_fsm option" where
  "hs_fsm_process f msg = (case (f, msg) of
     (Some fsm, Some m) \<Rightarrow>
       if hs_fsm_is_terminal (Some fsm) then (-1, f)
       else let next_ok = (if fsm_role fsm = HS_ROLE_CLIENT then hs_client_next (fsm_state fsm) (hm_type m)
                           else hs_server_next (fsm_state fsm) (hm_type m)) in
         if hm_type m = HS_MSG_ERROR then (0, Some (fsm\<lparr>fsm_state := HS_ST_ERROR\<rparr>))
         else if hm_type m = HS_MSG_BYE then (0, Some (fsm\<lparr>fsm_state := HS_ST_CLOSED\<rparr>))
         else (case next_ok of None \<Rightarrow> (-1, f) | Some s \<Rightarrow> (0, Some (fsm\<lparr>fsm_state := s\<rparr>)))
   | _ \<Rightarrow> (-1, f))"

definition hs_fsm_set_error :: "u8 \<Rightarrow> hs_fsm option \<Rightarrow> hs_fsm option" where
  "hs_fsm_set_error reason f = map_option (\<lambda>f. f\<lparr>fsm_state := HS_ST_ERROR, fsm_reason := reason\<rparr>) f"

definition hs_fsm_close :: "hs_fsm option \<Rightarrow> hs_fsm option" where
  "hs_fsm_close f = map_option (\<lambda>f. f\<lparr>fsm_state := HS_ST_CLOSED\<rparr>) f"

text \<open>What can happen to a machine, and a run of it that collects the types of the messages it accepted.\<close>

datatype hs_event = HsMsg hs_message | HsSetError u8 | HsClose

definition hs_step :: "hs_fsm option \<times> u16 list \<Rightarrow> hs_event \<Rightarrow> hs_fsm option \<times> u16 list" where
  "hs_step c e = (case c of (f, acc) \<Rightarrow> (case e of
     HsMsg m \<Rightarrow> (case hs_fsm_process f (Some m) of (r, f') \<Rightarrow> (f', if r = 0 then acc @ [hm_type m] else acc))
   | HsSetError x \<Rightarrow> (hs_fsm_set_error x f, acc)
   | HsClose \<Rightarrow> (hs_fsm_close f, acc)))"

definition hs_run :: "hs_role \<Rightarrow> hs_event list \<Rightarrow> hs_fsm option \<times> u16 list" where
  "hs_run role es = foldl hs_step (hs_fsm_create True role, []) es"

definition hs_sequence :: "u16 list" where
  "hs_sequence = [HS_MSG_HELLO, HS_MSG_HELLO_ACK, HS_MSG_AUTH, HS_MSG_AUTH_ACK, HS_MSG_CONFIG]"

text \<open>How many messages of the sequence lie behind a state of a role; the states of the other role do not
  occur.\<close>

fun hs_rank :: "hs_role \<Rightarrow> hs_state \<Rightarrow> nat option" where
  "hs_rank r HS_ST_INIT = Some 0"
| "hs_rank HS_ROLE_CLIENT HS_ST_HELLO_SENT = Some 1"
| "hs_rank HS_ROLE_SERVER HS_ST_HELLO_RCVD = Some 1"
| "hs_rank HS_ROLE_CLIENT HS_ST_AUTH = Some 2"
| "hs_rank HS_ROLE_SERVER HS_ST_AUTH_WAIT = Some 2"
| "hs_rank HS_ROLE_CLIENT HS_ST_AUTH_SENT = Some 3"
| "hs_rank HS_ROLE_SERVER HS_ST_AUTH_VERIFY = Some 3"
| "hs_rank HS_ROLE_CLIENT HS_ST_CONFIG_WAIT = Some 4"
| "hs_rank HS_ROLE_SERVER HS_ST_CONFIG_SENT = Some 4"
| "hs_rank r HS_ST_READY = Some 5"
| "hs_rank _ _ = None"

definition hs_ok :: "hs_role \<Rightarrow> hs_fsm option \<times> u16 list \<Rightarrow> bool" where
  "hs_ok role c = (case c of (Some f, acc) \<Rightarrow> fsm_role f = role \<and>
     (fsm_state f \<in> {HS_ST_ERROR, HS_ST_CLOSED}
      \<or> (case hs_rank role (fsm_state f) of None \<Rightarrow> False | Some n \<Rightarrow> acc = take n hs_sequence))
   | _ \<Rightarrow> False)"

lemma hs_next_rank:
  "hs_client_next s t = Some s' \<Longrightarrow> t \<noteq> HS_MSG_BYE \<Longrightarrow>
   \<exists>n. hs_rank HS_ROLE_CLIENT s = Some n \<and> hs_rank HS_ROLE_CLIENT s' = Some (Suc n) \<and> n < 5 \<and> hs_sequence ! n = t"
  "hs_server_next s t = Some s' \<Longrightarrow> t \<noteq> HS_MSG_BYE \<Longrightarrow>
   \<exists>n. hs_rank HS_ROLE_SERVER s = Some n \<and> hs_rank HS_ROLE_SERVER s' = Some (Suc n) \<and> n < 5 \<and> hs_sequence ! n = t"
  by (cases s; simp add: hs_client_next_def hs_sequence_def split: if_splits)
    (cases s; simp add: hs_server_next_def hs_sequence_def split: if_splits)

lemma hs_step_ok:
  assumes "hs_ok role c"
  shows "hs_ok role (hs_step c e)"
proof -
  from assms obtain f acc where c: "c = (Some f, acc)" and r: "fsm_role f = role"
    and st: "fsm_state f \<in> {HS_ST_ERROR, HS_ST_CLOSED}
      \<or> (\<exists>n. hs_rank role (fsm_state f) = Some n \<and> acc = take n hs_sequence)"
    by (auto simp: hs_ok_def split: prod.splits option.splits)
  show ?thesis
  proof (cases e)
    case (HsMsg m)
    let ?next = "if role = HS_ROLE_CLIENT then hs_client_next (fsm_state f) (hm_type m)
                 else hs_server_next (fsm_state f) (hm_type m)"
    show ?thesis
    proof (cases "fsm_state f \<in> {HS_ST_ERROR, HS_ST_CLOSED} \<or> hm_type m \<in> {HS_MSG_ERROR, HS_MSG_BYE}
        \<or> ?next = None")
      case True
      then show ?thesis using assms c r HsMsg
        by (auto simp: hs_step_def hs_fsm_process_def hs_fsm_is_terminal_def hs_ok_def)
    next
      case False
      then obtain s' where s': "?next = Some s'" and b: "hm_type m \<noteq> HS_MSG_BYE" by auto
      have "\<exists>n. hs_rank role (fsm_state f) = Some n \<and> hs_rank role s' = Some (Suc n) \<and> n < 5
          \<and> hs_sequence ! n = hm_type m"
        using hs_next_rank s' b by (cases role) auto
      then obtain n where n: "hs_rank role s' = Some (Suc n)" "n < 5" "hs_sequence ! n = hm_type m"
        "acc = take n hs_sequence" using st False by auto
      have "length hs_sequence = 5" by (simp add: hs_sequence_def)
      then have "acc @ [hm_type m] = take (Suc n) hs_sequence"
        using n by (simp add: take_Suc_conv_app_nth)
      then show ?thesis using False c r HsMsg s' n
        by (auto simp: hs_step_def hs_fsm_process_def hs_fsm_is_terminal_def hs_ok_def)
    qed
  next
    case (HsSetError x)
    then show ?thesis using c r by (simp add: hs_step_def hs_ok_def hs_fsm_set_error_def)
  next
    case HsClose
    then show ?thesis using c r by (simp add: hs_step_def hs_ok_def hs_fsm_close_def)
  qed
qed

lemma hs_run_ok: "hs_ok role (hs_run role es)"
proof (induction es rule: rev_induct)
  case Nil
  then show ?case by (simp add: hs_run_def hs_ok_def hs_fsm_create_def)
next
  case (snoc e es)
  then show ?case using hs_step_ok by (simp add: hs_run_def)
qed

text \<open>C4: A machine of either role, fed any messages, errors and closes, is READY only when the messages it has
  accepted are exactly HELLO, HELLO_ACK, AUTH, AUTH_ACK, CONFIG in this order; and once in ERROR
  or CLOSED it stays terminal and accepts nothing more.\<close>

theorem hs_ready_only_after_sequence:
  shows "(hs_fsm_state (fst (hs_run role es)) = HS_ST_READY \<longrightarrow> snd (hs_run role es) = hs_sequence)
    \<and> (hs_fsm_is_terminal (fst (hs_run role es)) \<longrightarrow>
         hs_fsm_is_terminal (fst (hs_run role (es @ es'))) \<and> snd (hs_run role (es @ es')) = snd (hs_run role es))"
proof (intro conjI impI)
  have ok: "hs_ok role (hs_run role es)" by (rule hs_run_ok)
  assume "hs_fsm_state (fst (hs_run role es)) = HS_ST_READY"
  with ok show "snd (hs_run role es) = hs_sequence"
    by (auto simp: hs_ok_def hs_fsm_state_def hs_sequence_def split: prod.splits option.splits)
next
  assume t: "hs_fsm_is_terminal (fst (hs_run role es))"
  have "hs_fsm_is_terminal (fst (foldl hs_step c es')) \<and> snd (foldl hs_step c es') = snd c"
    if "hs_fsm_is_terminal (fst c)" for c
    using that
  proof (induction es' arbitrary: c)
    case (Cons e es')
    have "hs_fsm_is_terminal (fst (hs_step c e)) \<and> snd (hs_step c e) = snd c"
      using Cons.prems by (cases e) (auto simp: hs_step_def hs_fsm_process_def hs_fsm_is_terminal_def
          hs_fsm_set_error_def hs_fsm_close_def split: prod.splits option.splits)
    with Cons.IH [of "hs_step c e"] show ?case by simp
  qed simp
  from this [OF t] show "hs_fsm_is_terminal (fst (hs_run role (es @ es')))"
    and "snd (hs_run role (es @ es')) = snd (hs_run role es)" by (simp_all add: hs_run_def)
qed

lemma hs_ready_only_after_sequence_witness:
  "snd (hs_run HS_ROLE_SERVER (map (\<lambda>t. HsMsg (hs_ex\<lparr>hm_type := t\<rparr>)) hs_sequence)) = hs_sequence"
proof -
  have "hs_fsm_state (fst (hs_run HS_ROLE_SERVER (map (\<lambda>t. HsMsg (hs_ex\<lparr>hm_type := t\<rparr>)) hs_sequence)))
      = HS_ST_READY" by code_simp
  with hs_ready_only_after_sequence [of HS_ROLE_SERVER
      "map (\<lambda>t. HsMsg (hs_ex\<lparr>hm_type := t\<rparr>)) hs_sequence"] show ?thesis by blast
qed

section \<open>Session tokens\<close>

definition HS_TOKEN_SIZE :: nat where "HS_TOKEN_SIZE = 16"
definition FNV_PRIME :: u32 where "FNV_PRIME = 0x01000193"
definition FNV_OFFSET :: u32 where "FNV_OFFSET = 0x811c9dc5"

definition hs_token_init :: "u32 list" where
  "hs_token_init = map ((XOR) FNV_OFFSET) [0x1A2B3C4D, 0x5E6F7081, 0x92A3B4C5, 0xD6E7F800]"

fun hs_token_from_seed :: "u8 list option \<Rightarrow> u8 list option \<Rightarrow> int \<times> u8 list option" where
  "hs_token_from_seed (Some seed) (Some out) =
     (if length seed \<noteq> HS_TOKEN_SIZE then (-1, Some out)
      else (0, Some (concat (map (\<lambda>w. w32le
             (foldl (\<lambda>st i. (st XOR ucast (seed ! i)) * FNV_PRIME) (hs_token_init ! w) [w * 4..<(w + 1) * 4]))
           [0..<4]))))"
| "hs_token_from_seed _ out = (-1, out)"

definition hex_digit :: "nat \<Rightarrow> char" where
  "hex_digit n = ''0123456789abcdef'' ! n"

text \<open>Tokens are their sixteen bytes.\<close>

definition hs_token_equal :: "u8 list option \<Rightarrow> u8 list option \<Rightarrow> bool" where
  "hs_token_equal a b = (case (a, b) of
     (Some a, Some b) \<Rightarrow> fold (\<lambda>i diff. diff OR (a ! i XOR b ! i)) [0..<HS_TOKEN_SIZE] 0 = 0
   | _ \<Rightarrow> False)"

definition hs_token_zero :: "u8 list option \<Rightarrow> bool" where
  "hs_token_zero t = (case t of None \<Rightarrow> True
     | Some t \<Rightarrow> fold (\<lambda>i acc. acc OR t ! i) [0..<HS_TOKEN_SIZE] 0 = 0)"

lemma fold_or_zero: "fold (\<lambda>i d. d OR f i) xs (z :: u8) = 0 \<longleftrightarrow> z = 0 \<and> (\<forall>i\<in>set xs. f i = 0)"
  by (induction xs arbitrary: z) (auto simp: or_eq_0_iff)

lemma hs_token_equal_iff:
  assumes "length a = HS_TOKEN_SIZE" and "length b = HS_TOKEN_SIZE"
  shows "hs_token_equal (Some a) (Some b) \<longleftrightarrow> a = b"
proof -
  have "(x XOR y = 0) = (x = y)" for x y :: u8 by (metis xor_self_eq xor_cancel)
  then show ?thesis using assms by (auto simp: hs_token_equal_def fold_or_zero list_eq_iff_nth_eq)
qed

fun hs_token_to_hex :: "u8 list option \<Rightarrow> nat \<Rightarrow> string option \<Rightarrow> int \<times> string option" where
  "hs_token_to_hex (Some t) bufsz (Some buf) =
     (if bufsz < HS_TOKEN_SIZE * 2 + 1 then (-1, Some buf)
      else (0, Some (concat (map (\<lambda>b. [hex_digit (unat b div 16), hex_digit (unat b mod 16)]) (take HS_TOKEN_SIZE t)))))"
| "hs_token_to_hex _ bufsz buf = (-1, buf)"

section \<open>Names for logging\<close>

definition hs_msg_type_name :: "u16 \<Rightarrow> string" where
  "hs_msg_type_name t =
     (if t = HS_MSG_HELLO then ''HELLO'' else if t = HS_MSG_HELLO_ACK then ''HELLO_ACK''
      else if t = HS_MSG_AUTH then ''AUTH'' else if t = HS_MSG_AUTH_ACK then ''AUTH_ACK''
      else if t = HS_MSG_CONFIG then ''CONFIG'' else if t = HS_MSG_READY then ''READY''
      else if t = HS_MSG_ERROR then ''ERROR'' else if t = HS_MSG_BYE then ''BYE'' else ''UNKNOWN'')"

fun hs_state_name :: "hs_state \<Rightarrow> string" where
  "hs_state_name HS_ST_INIT = ''INIT''"
| "hs_state_name HS_ST_HELLO_SENT = ''HELLO_SENT''"
| "hs_state_name HS_ST_HELLO_RCVD = ''HELLO_RCVD''"
| "hs_state_name HS_ST_AUTH = ''AUTH''"
| "hs_state_name HS_ST_AUTH_WAIT = ''AUTH_WAIT''"
| "hs_state_name HS_ST_AUTH_SENT = ''AUTH_SENT''"
| "hs_state_name HS_ST_AUTH_VERIFY = ''AUTH_VERIFY''"
| "hs_state_name HS_ST_CONFIG_WAIT = ''CONFIG_WAIT''"
| "hs_state_name HS_ST_CONFIG_SENT = ''CONFIG_SENT''"
| "hs_state_name HS_ST_READY = ''READY''"
| "hs_state_name HS_ST_ERROR = ''ERROR''"
| "hs_state_name HS_ST_CLOSED = ''CLOSED''"

lemma hs_state_name_inj: "hs_state_name s = hs_state_name t \<longleftrightarrow> s = t"
  by (cases s; cases t) simp_all

end
