(* ===== verification/Session_Resume.thy ===== *)
theory Session_Resume
  imports Wire
begin

text \<open>
  Saved sessions and resuming them (\<^verbatim>\<open>src/src/session/session_state.c\<close>, \<^verbatim>\<open>session_resume.c\<close>): the
  serialised state, the three resume messages and the server's decision.  \<open>ss_peer_addr\<close> is the C
  string, its bytes before the NUL.
\<close>

section \<open>Session state\<close>

definition SESSION_STATE_MAGIC :: u32 where "SESSION_STATE_MAGIC = 0x52535353"
definition SESSION_STATE_VERSION :: u16 where "SESSION_STATE_VERSION = 1"
definition SESSION_MAX_PEER_ADDR :: nat where "SESSION_MAX_PEER_ADDR = 64"
definition SESSION_STREAM_KEY_LEN :: nat where "SESSION_STREAM_KEY_LEN = 32"
definition SESSION_STATE_MIN_SIZE :: nat where "SESSION_STATE_MIN_SIZE = 100"

record session_state =
  ss_session_id :: u64
  ss_created_us :: u64
  ss_width :: u32
  ss_height :: u32
  ss_fps_num :: u32
  ss_fps_den :: u32
  ss_bitrate_kbps :: u32
  ss_audio_sample_rate :: u32
  ss_audio_channels :: u32
  ss_last_keyframe :: u32
  ss_frames_sent :: u64
  ss_stream_key :: "u8 list"
  ss_peer_addr :: "u8 list"
  ss_flags :: u16

definition session_state_serialised_size :: "session_state option \<Rightarrow> nat" where
  "session_state_serialised_size st = (case st of None \<Rightarrow> 0
     | Some s \<Rightarrow> SESSION_STATE_MIN_SIZE + min (length (ss_peer_addr s)) SESSION_MAX_PEER_ADDR)"

definition ss_bytes :: "session_state \<Rightarrow> u8 list" where
  "ss_bytes s = w32le SESSION_STATE_MAGIC @ w16le SESSION_STATE_VERSION @ w16le (ss_flags s) @
     w64le (ss_session_id s) @ w64le (ss_created_us s) @ w32le (ss_width s) @ w32le (ss_height s) @
     w32le (ss_fps_num s) @ w32le (ss_fps_den s) @ w32le (ss_bitrate_kbps s) @
     w32le (ss_audio_sample_rate s) @ w32le (ss_audio_channels s) @ w32le (ss_last_keyframe s) @
     w64le (ss_frames_sent s) @ take SESSION_STREAM_KEY_LEN (ss_stream_key s) @
     w16le (of_nat (min (length (ss_peer_addr s)) SESSION_MAX_PEER_ADDR)) @
     take SESSION_MAX_PEER_ADDR (ss_peer_addr s)"

text \<open>Only the bytes of \<open>ss_bytes\<close> are written; the size that is returned is two bytes larger.\<close>

fun session_state_serialise :: "session_state option \<Rightarrow> u8 list option \<Rightarrow> int \<times> u8 list option" where
  "session_state_serialise (Some s) (Some buf) =
     (let needed = session_state_serialised_size (Some s) in
      if length buf < needed then (-1, Some buf)
      else (int needed, Some (overwrite (ss_bytes s) buf)))"
| "session_state_serialise _ buf = (-1, buf)"

definition ss_read :: "u8 list \<Rightarrow> session_state" where
  "ss_read buf = \<lparr>ss_session_id = r64le buf 8, ss_created_us = r64le buf 16, ss_width = r32le buf 24,
     ss_height = r32le buf 28, ss_fps_num = r32le buf 32, ss_fps_den = r32le buf 36,
     ss_bitrate_kbps = r32le buf 40, ss_audio_sample_rate = r32le buf 44, ss_audio_channels = r32le buf 48,
     ss_last_keyframe = r32le buf 52, ss_frames_sent = r64le buf 56,
     ss_stream_key = take SESSION_STREAM_KEY_LEN (drop 64 buf), ss_peer_addr = [], ss_flags = r16le buf 6\<rparr>"

fun session_state_deserialise :: "u8 list option \<Rightarrow> session_state option \<Rightarrow> int \<times> session_state option" where
  "session_state_deserialise (Some buf) (Some st) =
     (if length buf < SESSION_STATE_MIN_SIZE then (-1, Some st)
      else if r32le buf 0 \<noteq> SESSION_STATE_MAGIC then (-1, Some st)
      else if r16le buf 4 \<noteq> SESSION_STATE_VERSION then (-1, Some st)
      else let s = ss_read buf; peer_len = unat (r16le buf 96) in
        if peer_len > SESSION_MAX_PEER_ADDR then (-1, Some s)
        else if length buf < SESSION_STATE_MIN_SIZE + peer_len then (-1, Some s)
        else (0, Some (s\<lparr>ss_peer_addr := takeWhile (\<lambda>b. b \<noteq> 0) (take peer_len (drop 98 buf))\<rparr>)))"
| "session_state_deserialise _ st = (-1, st)"

definition ss_wf :: "session_state \<Rightarrow> bool" where
  "ss_wf s \<longleftrightarrow> length (ss_stream_key s) = SESSION_STREAM_KEY_LEN \<and> (\<forall>b\<in>set (ss_peer_addr s). b \<noteq> 0)"

definition ss_fits :: "session_state \<Rightarrow> bool" where
  "ss_fits s \<longleftrightarrow> ss_wf s \<and> length (ss_peer_addr s) \<le> SESSION_MAX_PEER_ADDR"

lemma length_ss_bytes:
  "ss_fits s \<Longrightarrow> length (ss_bytes s) = 98 + length (ss_peer_addr s)"
  by (simp add: ss_bytes_def ss_fits_def ss_wf_def SESSION_STREAM_KEY_LEN_def)

lemma ss_decode_bytes:
  assumes wf: "ss_fits s" and pad: "2 \<le> length rest"
  shows "session_state_deserialise (Some (ss_bytes s @ rest)) (Some x) = (0, Some s)"
proof -
  let ?n = "length (ss_peer_addr s)"
  have n: "?n \<le> 64" and key: "length (ss_stream_key s) = 32"
    using wf by (simp_all add: ss_fits_def ss_wf_def SESSION_MAX_PEER_ADDR_def SESSION_STREAM_KEY_LEN_def)
  have w: "unat (of_nat ?n :: u16) = ?n" using n by (simp add: unsigned_of_nat take_bit_eq_mod)
  have b: "ss_bytes s @ rest = w32le SESSION_STATE_MAGIC @ w16le SESSION_STATE_VERSION @ w16le (ss_flags s) @
     w64le (ss_session_id s) @ w64le (ss_created_us s) @ w32le (ss_width s) @ w32le (ss_height s) @
     w32le (ss_fps_num s) @ w32le (ss_fps_den s) @ w32le (ss_bitrate_kbps s) @
     w32le (ss_audio_sample_rate s) @ w32le (ss_audio_channels s) @ w32le (ss_last_keyframe s) @
     w64le (ss_frames_sent s) @ ss_stream_key s @ w16le (of_nat ?n) @ ss_peer_addr s @ rest"
    using n key by (simp add: ss_bytes_def SESSION_MAX_PEER_ADDR_def SESSION_STREAM_KEY_LEN_def min_def)
  have len: "length (ss_bytes s @ rest) = 98 + ?n + length rest" using length_ss_bytes [OF wf] by simp
  have hd: "r32le (ss_bytes s @ rest) 0 = SESSION_STATE_MAGIC" "r16le (ss_bytes s @ rest) 4 = SESSION_STATE_VERSION"
    "r16le (ss_bytes s @ rest) 96 = of_nat ?n"
    unfolding b by (simp_all add: wire_simps key)
  have rd: "ss_read (ss_bytes s @ rest) = s\<lparr>ss_peer_addr := []\<rparr>"
    unfolding b ss_read_def by (simp add: wire_simps key SESSION_STREAM_KEY_LEN_def)
  have pa: "take ?n (drop 98 (ss_bytes s @ rest)) = ss_peer_addr s"
    unfolding b by (simp add: key)
  have tw: "takeWhile (\<lambda>b. b \<noteq> 0) (ss_peer_addr s) = ss_peer_addr s"
    using wf by (simp add: ss_fits_def ss_wf_def takeWhile_eq_all_conv)
  show ?thesis
    using n len hd rd pa tw w pad
    by (simp add: Let_def SESSION_STATE_MIN_SIZE_def SESSION_MAX_PEER_ADDR_def)
qed

text \<open>Serialising a session state into any buffer that is large enough and reading the buffer back gives
  the state, for every state whose peer address fits; the two bytes after the address that the
  returned size counts are left as they were in the buffer.\<close>

theorem session_state_roundtrip:
  assumes wf: "ss_fits s" and room: "session_state_serialised_size (Some s) \<le> length buf"
  shows "\<exists>buf'. session_state_serialise (Some s) (Some buf)
        = (int (session_state_serialised_size (Some s)), Some buf')
    \<and> session_state_deserialise (Some buf') (Some x) = (0, Some s)
    \<and> length buf' = length buf
    \<and> buf' ! (98 + length (ss_peer_addr s)) = buf ! (98 + length (ss_peer_addr s))
    \<and> buf' ! (99 + length (ss_peer_addr s)) = buf ! (99 + length (ss_peer_addr s))"
proof -
  let ?n = "length (ss_peer_addr s)" and ?b = "overwrite (ss_bytes s) buf"
  note l = length_ss_bytes [OF wf]
  have sz: "session_state_serialised_size (Some s) = 100 + ?n"
    using wf by (simp add: session_state_serialised_size_def SESSION_STATE_MIN_SIZE_def ss_fits_def)
  with room have rb: "100 + ?n \<le> length buf" by simp
  have "session_state_serialise (Some s) (Some buf)
      = (int (session_state_serialised_size (Some s)), Some ?b)"
    using room by (simp add: Let_def)
  moreover have "session_state_deserialise (Some ?b) (Some x) = (0, Some s)"
    unfolding overwrite_def using wf rb l by (intro ss_decode_bytes) simp_all
  moreover have "?b ! (98 + ?n) = buf ! (98 + ?n)" "?b ! (99 + ?n) = buf ! (99 + ?n)"
    using rb l by (simp_all add: overwrite_def nth_append)
  moreover have "length ?b = length buf" using rb l by simp
  ultimately show ?thesis by blast
qed

definition ss_ex :: session_state where
  "ss_ex = \<lparr>ss_session_id = 77, ss_created_us = 5, ss_width = 1920, ss_height = 1080, ss_fps_num = 60,
     ss_fps_den = 1, ss_bitrate_kbps = 8000, ss_audio_sample_rate = 48000, ss_audio_channels = 2,
     ss_last_keyframe = 120, ss_frames_sent = 130, ss_stream_key = replicate 32 9,
     ss_peer_addr = [49, 48], ss_flags = 1\<rparr>"

lemma session_state_roundtrip_witness:
  "\<exists>buf'. session_state_deserialise (Some buf') (Some ss_ex) = (0, Some ss_ex) \<and> buf' ! 100 = 0xAB"
proof -
  have "ss_fits ss_ex"
    by (simp add: ss_ex_def ss_fits_def ss_wf_def SESSION_STREAM_KEY_LEN_def SESSION_MAX_PEER_ADDR_def)
  moreover have n: "length (ss_peer_addr ss_ex) = 2" by (simp add: ss_ex_def)
  then have "session_state_serialised_size (Some ss_ex) \<le> length (replicate 120 (0xAB :: u8))"
    by (simp add: session_state_serialised_size_def SESSION_STATE_MIN_SIZE_def SESSION_MAX_PEER_ADDR_def)
  ultimately obtain buf' where "session_state_deserialise (Some buf') (Some ss_ex) = (0, Some ss_ex)"
    "buf' ! (98 + length (ss_peer_addr ss_ex)) = replicate 120 0xAB ! (98 + length (ss_peer_addr ss_ex))"
    using session_state_roundtrip [of ss_ex "replicate 120 0xAB" ss_ex] by blast
  then show ?thesis by (intro exI [of _ buf']) (simp only: n, simp)
qed

section \<open>Resume messages\<close>

definition RESUME_TAG_REQUEST :: u32 where "RESUME_TAG_REQUEST = 0x52455351"
definition RESUME_TAG_ACCEPTED :: u32 where "RESUME_TAG_ACCEPTED = 0x52455341"
definition RESUME_TAG_REJECTED :: u32 where "RESUME_TAG_REJECTED = 0x52455352"
definition RESUME_MSG_HDR_SIZE :: nat where "RESUME_MSG_HDR_SIZE = 8"
definition REQUEST_PAYLOAD_SZ :: nat where "REQUEST_PAYLOAD_SZ = 48"
definition ACCEPTED_PAYLOAD_SZ :: nat where "ACCEPTED_PAYLOAD_SZ = 16"
definition REJECTED_PAYLOAD_SZ :: nat where "REJECTED_PAYLOAD_SZ = 12"

record resume_request =
  rq_session_id :: u64
  rq_last_frame :: u64
  rq_stream_key :: "u8 list"

record resume_accepted =
  ra_session_id :: u64
  ra_resume_from :: u32
  ra_bitrate_kbps :: u32

text \<open>The reason is the 32-bit value of the enumeration (1 to 3).\<close>

record resume_rejected =
  rj_session_id :: u64
  rj_reason :: u32

definition RESUME_REJECT_UNKNOWN_SESSION :: u32 where "RESUME_REJECT_UNKNOWN_SESSION = 1"
definition RESUME_REJECT_FRAME_GAP_TOO_LARGE :: u32 where "RESUME_REJECT_FRAME_GAP_TOO_LARGE = 2"
definition RESUME_REJECT_STATE_MISMATCH :: u32 where "RESUME_REJECT_STATE_MISMATCH = 3"

definition rq_bytes :: "resume_request \<Rightarrow> u8 list" where
  "rq_bytes r = w32le RESUME_TAG_REQUEST @ w32le (of_nat REQUEST_PAYLOAD_SZ) @ w64le (rq_session_id r) @
     w64le (rq_last_frame r) @ take SESSION_STREAM_KEY_LEN (rq_stream_key r)"

definition ra_bytes :: "resume_accepted \<Rightarrow> u8 list" where
  "ra_bytes a = w32le RESUME_TAG_ACCEPTED @ w32le (of_nat ACCEPTED_PAYLOAD_SZ) @ w64le (ra_session_id a) @
     w32le (ra_resume_from a) @ w32le (ra_bitrate_kbps a)"

definition rj_bytes :: "resume_rejected \<Rightarrow> u8 list" where
  "rj_bytes r = w32le RESUME_TAG_REJECTED @ w32le (of_nat REJECTED_PAYLOAD_SZ) @ w64le (rj_session_id r) @
     w32le (rj_reason r)"

fun resume_encode_request :: "resume_request option \<Rightarrow> u8 list option \<Rightarrow> int \<times> u8 list option" where
  "resume_encode_request (Some r) (Some buf) =
     (let total = RESUME_MSG_HDR_SIZE + REQUEST_PAYLOAD_SZ in
      if length buf < total then (-1, Some buf) else (int total, Some (overwrite (rq_bytes r) buf)))"
| "resume_encode_request _ buf = (-1, buf)"

fun resume_decode_request :: "u8 list option \<Rightarrow> resume_request option \<Rightarrow> int \<times> resume_request option" where
  "resume_decode_request (Some buf) (Some r) =
     (if length buf < RESUME_MSG_HDR_SIZE + REQUEST_PAYLOAD_SZ then (-1, Some r)
      else if r32le buf 0 \<noteq> RESUME_TAG_REQUEST then (-1, Some r)
      else (0, Some \<lparr>rq_session_id = r64le buf 8, rq_last_frame = r64le buf 16,
                     rq_stream_key = take SESSION_STREAM_KEY_LEN (drop 24 buf)\<rparr>))"
| "resume_decode_request _ r = (-1, r)"

fun resume_encode_accepted :: "resume_accepted option \<Rightarrow> u8 list option \<Rightarrow> int \<times> u8 list option" where
  "resume_encode_accepted (Some a) (Some buf) =
     (let total = RESUME_MSG_HDR_SIZE + ACCEPTED_PAYLOAD_SZ in
      if length buf < total then (-1, Some buf) else (int total, Some (overwrite (ra_bytes a) buf)))"
| "resume_encode_accepted _ buf = (-1, buf)"

fun resume_decode_accepted :: "u8 list option \<Rightarrow> resume_accepted option \<Rightarrow> int \<times> resume_accepted option" where
  "resume_decode_accepted (Some buf) (Some a) =
     (if length buf < RESUME_MSG_HDR_SIZE + ACCEPTED_PAYLOAD_SZ then (-1, Some a)
      else if r32le buf 0 \<noteq> RESUME_TAG_ACCEPTED then (-1, Some a)
      else (0, Some \<lparr>ra_session_id = r64le buf 8, ra_resume_from = r32le buf 16,
                     ra_bitrate_kbps = r32le buf 20\<rparr>))"
| "resume_decode_accepted _ a = (-1, a)"

fun resume_encode_rejected :: "resume_rejected option \<Rightarrow> u8 list option \<Rightarrow> int \<times> u8 list option" where
  "resume_encode_rejected (Some r) (Some buf) =
     (let total = RESUME_MSG_HDR_SIZE + REJECTED_PAYLOAD_SZ in
      if length buf < total then (-1, Some buf) else (int total, Some (overwrite (rj_bytes r) buf)))"
| "resume_encode_rejected _ buf = (-1, buf)"

fun resume_decode_rejected :: "u8 list option \<Rightarrow> resume_rejected option \<Rightarrow> int \<times> resume_rejected option" where
  "resume_decode_rejected (Some buf) (Some r) =
     (if length buf < RESUME_MSG_HDR_SIZE + REJECTED_PAYLOAD_SZ then (-1, Some r)
      else if r32le buf 0 \<noteq> RESUME_TAG_REJECTED then (-1, Some r)
      else (0, Some \<lparr>rj_session_id = r64le buf 8, rj_reason = r32le buf 16\<rparr>))"
| "resume_decode_rejected _ r = (-1, r)"

lemmas resume_sizes = RESUME_MSG_HDR_SIZE_def REQUEST_PAYLOAD_SZ_def ACCEPTED_PAYLOAD_SZ_def
  REJECTED_PAYLOAD_SZ_def SESSION_STREAM_KEY_LEN_def

lemma rq_decode: "length (rq_stream_key r) = 32 \<Longrightarrow>
    resume_decode_request (Some (rq_bytes r @ rest)) (Some x) = (0, Some r)"
  by (simp add: rq_bytes_def resume_sizes wire_simps)

lemma ra_decode: "resume_decode_accepted (Some (ra_bytes a @ rest)) (Some x) = (0, Some a)"
  by (simp add: ra_bytes_def resume_sizes wire_simps)

lemma rj_decode: "resume_decode_rejected (Some (rj_bytes r @ rest)) (Some x) = (0, Some r)"
  by (simp add: rj_bytes_def resume_sizes wire_simps)

definition rq_dec :: "u8 list \<Rightarrow> resume_request option" where
  "rq_dec b = (case resume_decode_request (Some b) (Some \<lparr>rq_session_id = 0, rq_last_frame = 0,
     rq_stream_key = []\<rparr>) of (r, x) \<Rightarrow> if r = 0 then x else None)"

definition ra_dec :: "u8 list \<Rightarrow> resume_accepted option" where
  "ra_dec b = (case resume_decode_accepted (Some b) (Some \<lparr>ra_session_id = 0, ra_resume_from = 0,
     ra_bitrate_kbps = 0\<rparr>) of (r, x) \<Rightarrow> if r = 0 then x else None)"

definition rj_dec :: "u8 list \<Rightarrow> resume_rejected option" where
  "rj_dec b = (case resume_decode_rejected (Some b) (Some \<lparr>rj_session_id = 0, rj_reason = 0\<rparr>) of (r, x) \<Rightarrow>
     if r = 0 then x else None)"

interpretation rq: codec "\<lambda>r. length (rq_stream_key r) = 32" rq_bytes rq_dec
  by unfold_locales (simp add: rq_dec_def rq_decode del: resume_decode_request.simps)

interpretation ra: codec "\<lambda>_. True" ra_bytes ra_dec
  by unfold_locales (simp add: ra_dec_def ra_decode del: resume_decode_accepted.simps)

interpretation rj: codec "\<lambda>_. True" rj_bytes rj_dec
  by unfold_locales (simp add: rj_dec_def rj_decode del: resume_decode_rejected.simps)

section \<open>The server's decision\<close>

text \<open>The two output pointers may be NULL.\<close>

definition resume_server_evaluate :: "resume_request option \<Rightarrow> session_state option \<Rightarrow> u32 \<Rightarrow>
    resume_accepted option \<Rightarrow> resume_rejected option \<Rightarrow> bool \<times> resume_accepted option \<times> resume_rejected option" where
  "resume_server_evaluate req server max_frame_gap acc rej =
     (let reject = (\<lambda>sid reason. (False, acc,
            map_option (\<lambda>_. \<lparr>rj_session_id = sid, rj_reason = reason\<rparr>) rej)) in
      case (req, server) of
        (Some r, Some s) \<Rightarrow>
          if rq_session_id r \<noteq> ss_session_id s then reject (rq_session_id r) RESUME_REJECT_UNKNOWN_SESSION
          else if rq_stream_key r \<noteq> ss_stream_key s then reject (rq_session_id r) RESUME_REJECT_STATE_MISMATCH
          else
            let gap = (if ss_frames_sent s > rq_last_frame r then ss_frames_sent s - rq_last_frame r else 0) in
            if gap > ucast max_frame_gap then reject (rq_session_id r) RESUME_REJECT_FRAME_GAP_TOO_LARGE
            else (True, map_option (\<lambda>_. \<lparr>ra_session_id = rq_session_id r,
                    ra_resume_from = ss_last_keyframe s, ra_bitrate_kbps = ss_bitrate_kbps s\<rparr>) acc, rej)
      | _ \<Rightarrow> reject (case req of None \<Rightarrow> 0 | Some r \<Rightarrow> rq_session_id r) RESUME_REJECT_UNKNOWN_SESSION)"

text \<open>What the encoders put into a buffer is the message in front of what the buffer held.\<close>

lemma resume_encoded:
  "resume_encode_request (Some r) (Some buf) = (n, Some b) \<Longrightarrow> 0 \<le> n \<Longrightarrow> \<exists>tl. b = rq_bytes r @ tl"
  "resume_encode_accepted (Some a) (Some buf) = (n, Some b) \<Longrightarrow> 0 \<le> n \<Longrightarrow> \<exists>tl. b = ra_bytes a @ tl"
  "resume_encode_rejected (Some j) (Some buf) = (n, Some b) \<Longrightarrow> 0 \<le> n \<Longrightarrow> \<exists>tl. b = rj_bytes j @ tl"
  by (auto simp: overwrite_def Let_def split: if_splits)

text \<open>C32: A resume request that the encoder put into a buffer is accepted by the server that decodes it exactly when the session id and the
  stream key are those of the saved session and the client is at most \<open>max_frame_gap\<close> frames behind
  (a client that is ahead counts as in step); the answer that the encoder puts into a buffer tells the client that decodes it to resume
  from the saved key frame, or the reason of the refusal.\<close>

theorem resume_exchange:
  assumes key: "length (rq_stream_key r) = 32"
    and req: "resume_encode_request (Some r) (Some buf1) = (n1, Some b1)" "0 \<le> n1"
    and ev: "resume_server_evaluate (snd (resume_decode_request (Some b1) (Some r0))) (Some s) gap (Some a0) (Some j0) = (ok, Some a, Some j)"
    and acc: "resume_encode_accepted (Some a) (Some buf2) = (n2, Some b2)" "0 \<le> n2"
    and rej: "resume_encode_rejected (Some j) (Some buf3) = (n3, Some b3)" "0 \<le> n3"
  shows "(ok \<longleftrightarrow> rq_session_id r = ss_session_id s \<and> rq_stream_key r = ss_stream_key s
      \<and> unat (ss_frames_sent s) \<le> unat (rq_last_frame r) + unat gap)
    \<and> (if ok
       then resume_decode_accepted (Some b2) (Some a1) = (0, Some \<lparr>ra_session_id = rq_session_id r,
              ra_resume_from = ss_last_keyframe s, ra_bitrate_kbps = ss_bitrate_kbps s\<rparr>)
       else resume_decode_rejected (Some b3) (Some j1) = (0, Some \<lparr>rj_session_id = rq_session_id r,
              rj_reason = (if rq_session_id r \<noteq> ss_session_id s then 1
                           else if rq_stream_key r \<noteq> ss_stream_key s then 3 else 2)\<rparr>))"
proof -
  let ?gap = "if ss_frames_sent s > rq_last_frame r then ss_frames_sent s - rq_last_frame r else 0"
  obtain tl1 tl2 tl3 where b: "b1 = rq_bytes r @ tl1" "b2 = ra_bytes a @ tl2" "b3 = rj_bytes j @ tl3"
    using resume_encoded(1) [OF req] resume_encoded(2) [OF acc] resume_encoded(3) [OF rej] by blast
  have dec: "snd (resume_decode_request (Some b1) (Some r0)) = Some r"
    by (simp only: b rq_decode [OF key] snd_conv)
  have u: "unat (ucast gap :: u64) = unat gap" by (rule unat_ucast_up) simp
  have "?gap \<le> ucast gap \<longleftrightarrow> unat (ss_frames_sent s) \<le> unat (rq_last_frame r) + unat gap"
  proof (cases "ss_frames_sent s > rq_last_frame r")
    case True
    then have "unat (ss_frames_sent s - rq_last_frame r) = unat (ss_frames_sent s) - unat (rq_last_frame r)"
      by (intro unat_sub) (simp add: less_imp_le)
    with True u show ?thesis by (auto simp: word_le_nat_alt word_less_nat_alt)
  next
    case False
    then show ?thesis by (auto simp: word_less_nat_alt)
  qed
  then have g: "(ucast gap < ?gap) = (\<not> unat (ss_frames_sent s) \<le> unat (rq_last_frame r) + unat gap)"
    by (simp add: not_le [symmetric])
  show ?thesis
    using ev unfolding dec resume_server_evaluate_def
    by (auto simp: b Let_def g ra_decode rj_decode RESUME_REJECT_UNKNOWN_SESSION_def
        RESUME_REJECT_STATE_MISMATCH_def RESUME_REJECT_FRAME_GAP_TOO_LARGE_def
        simp del: resume_decode_accepted.simps resume_decode_rejected.simps split: if_splits)
qed

lemma resume_exchange_witness:
  "\<exists>b2. resume_encode_accepted (Some \<lparr>ra_session_id = 77, ra_resume_from = 120, ra_bitrate_kbps = 8000\<rparr>) (Some (replicate 24 0)) = (24, Some b2)
     \<and> resume_decode_accepted (Some b2) (Some \<lparr>ra_session_id = 0, ra_resume_from = 0, ra_bitrate_kbps = 0\<rparr>)
       = (0, Some \<lparr>ra_session_id = 77, ra_resume_from = 120, ra_bitrate_kbps = 8000\<rparr>)"
proof -
  let ?r = "\<lparr>rq_session_id = 77, rq_last_frame = 118, rq_stream_key = replicate 32 9\<rparr> :: resume_request"
  let ?q = "\<lparr>rq_session_id = 0, rq_last_frame = 0, rq_stream_key = []\<rparr> :: resume_request"
  let ?a = "\<lparr>ra_session_id = 0, ra_resume_from = 0, ra_bitrate_kbps = 0\<rparr> :: resume_accepted"
  let ?acc = "\<lparr>ra_session_id = 77, ra_resume_from = 120, ra_bitrate_kbps = 8000\<rparr> :: resume_accepted"
  let ?j = "\<lparr>rj_session_id = 0, rj_reason = 0\<rparr> :: resume_rejected"
  have k: "length (rq_stream_key ?r) = 32" by simp
  obtain b1 where b1: "resume_encode_request (Some ?r) (Some (replicate 56 0)) = (56, Some b1)" by (simp add: resume_sizes)
  obtain b2 where b2: "resume_encode_accepted (Some ?acc) (Some (replicate 24 0)) = (24, Some b2)" by (simp add: resume_sizes)
  obtain b3 where b3: "resume_encode_rejected (Some ?j) (Some (replicate 20 0)) = (20, Some b3)" by (simp add: resume_sizes)
  obtain tl where tl: "b1 = rq_bytes ?r @ tl" using resume_encoded(1) [OF b1] by auto
  have e: "resume_server_evaluate (snd (resume_decode_request (Some b1) (Some ?q))) (Some ss_ex) 30 (Some ?a) (Some ?j) = (True, Some ?acc, Some ?j)"
    unfolding tl rq_decode [OF k] snd_conv by code_simp
  from resume_exchange [OF k b1 _ e b2 _ b3, of ?a ?j] b2 show ?thesis by (simp add: ss_ex_def del: resume_decode_accepted.simps)
qed

end
