(* ===== verification/Sha256.thy ===== *)
theory Sha256
  imports Wire
begin

text \<open>
  The hash and the message authentication code of \<^verbatim>\<open>src/src/relay/relay_token.c\<close>, and the token functions
  on top of them.  The context is processed byte by byte as in the source; the specification
  \<open>sha256_spec\<close> pads the whole message first and folds the compression function over its
  64-byte blocks, as the standard does.
\<close>

section \<open>The compression function\<close>

definition rotright :: "u32 \<Rightarrow> nat \<Rightarrow> u32" where
  "rotright a b = drop_bit b a OR push_bit (32 - b) a"

definition CH :: "u32 \<Rightarrow> u32 \<Rightarrow> u32 \<Rightarrow> u32" where "CH x y z = (x AND y) XOR (NOT x AND z)"
definition MAJ :: "u32 \<Rightarrow> u32 \<Rightarrow> u32 \<Rightarrow> u32" where "MAJ x y z = (x AND y) XOR (x AND z) XOR (y AND z)"
definition EP0 :: "u32 \<Rightarrow> u32" where "EP0 x = rotright x 2 XOR rotright x 13 XOR rotright x 22"
definition EP1 :: "u32 \<Rightarrow> u32" where "EP1 x = rotright x 6 XOR rotright x 11 XOR rotright x 25"
definition SIG0 :: "u32 \<Rightarrow> u32" where "SIG0 x = rotright x 7 XOR rotright x 18 XOR drop_bit 3 x"
definition SIG1 :: "u32 \<Rightarrow> u32" where "SIG1 x = rotright x 17 XOR rotright x 19 XOR drop_bit 10 x"

definition sha_K :: "u32 list" where
  "sha_K = [
    0x428A2F98, 0x71374491, 0xB5C0FBCF, 0xE9B5DBA5, 0x3956C25B, 0x59F111F1, 0x923F82A4, 0xAB1C5ED5,
    0xD807AA98, 0x12835B01, 0x243185BE, 0x550C7DC3, 0x72BE5D74, 0x80DEB1FE, 0x9BDC06A7, 0xC19BF174,
    0xE49B69C1, 0xEFBE4786, 0x0FC19DC6, 0x240CA1CC, 0x2DE92C6F, 0x4A7484AA, 0x5CB0A9DC, 0x76F988DA,
    0x983E5152, 0xA831C66D, 0xB00327C8, 0xBF597FC7, 0xC6E00BF3, 0xD5A79147, 0x06CA6351, 0x14292967,
    0x27B70A85, 0x2E1B2138, 0x4D2C6DFC, 0x53380D13, 0x650A7354, 0x766A0ABB, 0x81C2C92E, 0x92722C85,
    0xA2BFE8A1, 0xA81A664B, 0xC24B8B70, 0xC76C51A3, 0xD192E819, 0xD6990624, 0xF40E3585, 0x106AA070,
    0x19A4C116, 0x1E376C08, 0x2748774C, 0x34B0BCB5, 0x391C0CB3, 0x4ED8AA4A, 0x5B9CCA4F, 0x682E6FF3,
    0x748F82EE, 0x78A5636F, 0x84C87814, 0x8CC70208, 0x90BEFFFA, 0xA4506CEB, 0xBEF9A3F7, 0xC67178F2]"

definition sha_schedule :: "u8 list \<Rightarrow> u32 list" where
  "sha_schedule d = foldl (\<lambda>m i. m @ [SIG1 (m ! (i - 2)) + m ! (i - 7) + SIG0 (m ! (i - 15)) + m ! (i - 16)])
     (map (\<lambda>i. r32be d (4 * i)) [0..<16]) [16..<64]"

text \<open>The eight working variables \<open>a\<close> to \<open>h\<close> are a list.\<close>

definition sha_round :: "u32 list \<Rightarrow> u32 list \<Rightarrow> nat \<Rightarrow> u32 list" where
  "sha_round m v i =
     (let a = v ! 0; b = v ! 1; c = v ! 2; d = v ! 3; e = v ! 4; f = v ! 5; g = v ! 6; h = v ! 7;
          t1 = h + EP1 e + CH e f g + sha_K ! i + m ! i;
          t2 = EP0 a + MAJ a b c
      in [t1 + t2, a, b, c, d + t1, e, f, g])"

definition sha_compress :: "u32 list \<Rightarrow> u8 list \<Rightarrow> u32 list" where
  "sha_compress st d = map2 (+) st (foldl (sha_round (sha_schedule d)) st [0..<64])"

section \<open>The context\<close>

record sha256_ctx =
  sc_data :: "u8 list"
  sc_datalen :: nat
  sc_bitlen :: u64
  sc_state :: "u32 list"

definition sha256_transform :: "sha256_ctx \<Rightarrow> u8 list \<Rightarrow> sha256_ctx" where
  "sha256_transform ctx d = ctx\<lparr>sc_state := sha_compress (sc_state ctx) d\<rparr>"

definition sha_H0 :: "u32 list" where
  "sha_H0 = [0x6a09e667, 0xbb67ae85, 0x3c6ef372, 0xa54ff53a, 0x510e527f, 0x9b05688c, 0x1f83d9ab, 0x5be0cd19]"

text \<open>The data array keeps what it held: on the stack that is anything.\<close>

definition sha256_init :: "sha256_ctx \<Rightarrow> sha256_ctx" where
  "sha256_init ctx = ctx\<lparr>sc_datalen := 0, sc_bitlen := 0, sc_state := sha_H0\<rparr>"

definition sha256_byte :: "sha256_ctx \<Rightarrow> u8 \<Rightarrow> sha256_ctx" where
  "sha256_byte ctx b =
     (let c = ctx\<lparr>sc_data := (sc_data ctx)[sc_datalen ctx := b], sc_datalen := sc_datalen ctx + 1\<rparr> in
      if sc_datalen c = 64
      then (sha256_transform c (sc_data c))\<lparr>sc_bitlen := sc_bitlen c + 512, sc_datalen := 0\<rparr>
      else c)"

definition sha256_update :: "sha256_ctx \<Rightarrow> u8 list \<Rightarrow> sha256_ctx" where
  "sha256_update ctx bs = foldl sha256_byte ctx bs"

text \<open>\<open>fill d i n\<close>: the bytes from \<open>i\<close> up to \<open>n\<close> set to zero.\<close>

definition sha_fill :: "u8 list \<Rightarrow> nat \<Rightarrow> nat \<Rightarrow> u8 list" where
  "sha_fill d i n = write_at i (replicate (n - i) 0) d"

definition sha256_final :: "sha256_ctx \<Rightarrow> u8 list" where
  "sha256_final ctx =
     (let i = sc_datalen ctx; d = (sc_data ctx)[i := 0x80];
          c = (if i < 56 then ctx\<lparr>sc_data := sha_fill d (i + 1) 56\<rparr>
               else let d' = sha_fill d (i + 1) 64 in
                    (sha256_transform ctx d')\<lparr>sc_data := write_at 0 (replicate 56 0) d'\<rparr>);
          bits = sc_bitlen c + of_nat (sc_datalen c * 8);
          c' = sha256_transform c (write_at 56 (w64be bits) (sc_data c))
      in concat (map w32be (sc_state c')))"

definition sha256 :: "sha256_ctx \<Rightarrow> u8 list \<Rightarrow> u8 list" where
  \<comment> \<open>the first argument is the uninitialised context on the stack\<close>
  "sha256 ctx bs = sha256_final (sha256_update (sha256_init ctx) bs)"

section \<open>The specification\<close>

definition sha_pad :: "u8 list \<Rightarrow> u8 list" where
  "sha_pad m = m @ [0x80] @ replicate ((119 - length m mod 64) mod 64) 0 @ w64be (of_nat (8 * length m))"

definition blocks :: "u8 list \<Rightarrow> u8 list list" where
  "blocks m = map (\<lambda>i. take 64 (drop (64 * i) m)) [0..<length m div 64]"

definition sha256_spec :: "u8 list \<Rightarrow> u8 list" where
  "sha256_spec m = concat (map w32be (foldl sha_compress sha_H0 (blocks (sha_pad m))))"

section \<open>The loop implements the specification\<close>

definition sha_inv :: "u8 list \<Rightarrow> sha256_ctx \<Rightarrow> bool" where
  "sha_inv m c \<longleftrightarrow> length (sc_data c) = 64 \<and> sc_datalen c = length m mod 64
     \<and> take (sc_datalen c) (sc_data c) = drop (64 * (length m div 64)) m
     \<and> sc_state c = foldl sha_compress sha_H0 (blocks m)
     \<and> sc_bitlen c = of_nat (512 * (length m div 64))"

lemma blocks_append:
  assumes "64 * (length m div 64) \<le> length m"
  shows "map (\<lambda>i. take 64 (drop (64 * i) (m @ x))) [0..<length m div 64] = blocks m"
  unfolding blocks_def
proof (rule map_cong [OF refl])
  fix i assume "i \<in> set [0..<length m div 64]"
  then have "64 * i + 64 \<le> 64 * (length m div 64)" by simp
  with assms have "64 * i + 64 \<le> length m" by linarith
  then show "take 64 (drop (64 * i) (m @ x)) = take 64 (drop (64 * i) m)" by simp
qed

lemma div_mod_64: "64 * (n div 64) + n mod 64 = (n :: nat)"
  by simp

lemma sha_inv_init: "length (sc_data c) = 64 \<Longrightarrow> sha_inv [] (sha256_init c)"
  by (simp add: sha_inv_def sha256_init_def blocks_def)

lemma sha_inv_byte:
  assumes inv: "sha_inv m c"
  shows "sha_inv (m @ [b]) (sha256_byte c b)"
proof -
  let ?q = "length m div 64" and ?r = "length m mod 64"
  have r: "?r < 64" by simp
  have dl: "sc_datalen c = ?r" and ld: "length (sc_data c) = 64"
    and tk: "take ?r (sc_data c) = drop (64 * ?q) m" using inv by (auto simp: sha_inv_def)
  have t1: "take (Suc ?r) ((sc_data c)[?r := b]) = drop (64 * ?q) m @ [b]"
    using ld r tk by (simp add: take_Suc_conv_app_nth)
  have le: "64 * ?q \<le> length m" using div_mod_64 [of "length m"] by linarith
  have d1: "drop (64 * ?q) (m @ [b]) = drop (64 * ?q) m @ [b]" using le by simp
  show ?thesis
  proof (cases "Suc ?r = 64")
    case False
    then have q: "Suc (length m) div 64 = ?q" "Suc (length m) mod 64 = Suc ?r"
      using div_mod_64 [of "length m"] r by (simp_all add: mod_Suc div_Suc)
    have "blocks (m @ [b]) = blocks m" using blocks_append [OF le, of "[b]"] q by (simp add: blocks_def)
    then show ?thesis using inv False t1 d1 q dl ld
      by (simp add: sha_inv_def sha256_byte_def)
  next
    case True
    then have q: "Suc (length m) div 64 = Suc ?q" "Suc (length m) mod 64 = 0"
      by (simp_all add: mod_Suc div_Suc)
    have full: "(sc_data c)[?r := b] = drop (64 * ?q) m @ [b]"
      using t1 ld True by simp
    have ll: "length (drop (64 * ?q) m) = 63" using True div_mod_64 [of "length m"] by simp
    have "blocks (m @ [b]) = map (\<lambda>i. take 64 (drop (64 * i) (m @ [b]))) [0..<?q] @ [take 64 (drop (64 * ?q) (m @ [b]))]"
      using q by (simp add: blocks_def)
    also have "\<dots> = blocks m @ [drop (64 * ?q) m @ [b]]"
      using blocks_append [OF le, of "[b]"] d1 ll by simp
    finally have bl: "blocks (m @ [b]) = blocks m @ [drop (64 * ?q) m @ [b]]" .
    have len: "length m + 1 = 64 * Suc ?q" using True div_mod_64 [of "length m"] by simp
    have "sc_state (sha256_byte c b) = sha_compress (sc_state c) (drop (64 * ?q) m @ [b])"
      using True dl full by (simp add: sha256_byte_def sha256_transform_def)
    moreover have "sc_datalen (sha256_byte c b) = 0" "sc_bitlen (sha256_byte c b) = sc_bitlen c + 512"
      "length (sc_data (sha256_byte c b)) = 64"
      using True dl ld by (simp_all add: sha256_byte_def sha256_transform_def)
    ultimately show ?thesis using inv bl q len
      by (simp add: sha_inv_def algebra_simps)
  qed
qed

lemma sha_inv_update: "sha_inv m c \<Longrightarrow> sha_inv (m @ bs) (sha256_update c bs)"
proof (induction bs arbitrary: m c)
  case Nil
  then show ?case by (simp add: sha256_update_def)
next
  case (Cons b bs)
  from Cons.IH [OF sha_inv_byte [OF Cons.prems, of b]] show ?case
    by (simp add: sha256_update_def)
qed

lemma blocks_one: "length x = 64 \<Longrightarrow> blocks x = [x]"
  by (simp add: blocks_def)

lemma blocks_split:
  assumes "length a mod 64 = 0"
  shows "blocks (a @ b) = blocks a @ blocks b"
proof -
  have la: "length a = 64 * (length a div 64)" using assms div_mod_64 [of "length a"] by simp
  let ?p = "length a div 64" and ?q = "length b div 64"
  have len: "(length a + length b) div 64 = ?p + ?q"
    using la by (metis div_mult_self4 add.commute mult.commute zero_neq_numeral)
  have upt: "[0..<?p + ?q] = [0..<?p] @ map ((+) ?p) [0..<?q]"
    by (rule nth_equalityI) (auto simp: nth_append)
  have "blocks (a @ b) = map (\<lambda>i. take 64 (drop (64 * i) (a @ b))) ([0..<?p] @ map ((+) ?p) [0..<?q])"
    by (simp only: blocks_def length_append len upt)
  also have "\<dots> = blocks a @ map (\<lambda>i. take 64 (drop (64 * (?p + i)) (a @ b))) [0..<?q]"
    using blocks_append [of a b] by (simp add: o_def)
  also have "map (\<lambda>i. take 64 (drop (64 * (?p + i)) (a @ b))) [0..<?q] = blocks b"
  proof -
    have "drop (64 * (?p + i)) (a @ b) = drop (64 * i) b" for i
    proof -
      have "64 * (?p + i) = length a + 64 * i" using la by (simp add: distrib_left)
      then show ?thesis by simp
    qed
    then show ?thesis by (simp add: blocks_def)
  qed
  finally show ?thesis .
qed

lemma blocks_prefix: "blocks (take (64 * (length m div 64)) m) = blocks m"
proof -
  have le: "64 * (length m div 64) \<le> length m" using div_mod_64 [of "length m"] by linarith
  have "64 * i + 64 \<le> 64 * (length m div 64)" if "i < length m div 64" for i using that by simp
  then show ?thesis using le
    by (auto simp: blocks_def drop_take take_take min_def intro!: map_cong)
qed

lemma sha256_final_lt:
  "sc_datalen c < 56 \<Longrightarrow> sha256_final c = concat (map w32be (sha_compress (sc_state c)
     (write_at 56 (w64be (sc_bitlen c + of_nat (sc_datalen c * 8)))
       (sha_fill ((sc_data c)[sc_datalen c := 0x80]) (sc_datalen c + 1) 56))))"
  by (simp add: sha256_final_def Let_def sha256_transform_def)

lemma sha256_final_ge:
  "\<not> sc_datalen c < 56 \<Longrightarrow> sha256_final c =
     (let b = sha_fill ((sc_data c)[sc_datalen c := 0x80]) (sc_datalen c + 1) 64
      in concat (map w32be (sha_compress (sha_compress (sc_state c) b)
           (write_at 56 (w64be (sc_bitlen c + of_nat (sc_datalen c * 8))) (write_at 0 (replicate 56 0) b)))))"
  by (simp add: sha256_final_def Let_def sha256_transform_def)

lemma pad_len_lt: "r < 56 \<Longrightarrow> (119 - r) mod 64 = 55 - (r :: nat)"
proof -
  assume "r < 56"
  then have "119 - r = 55 - r + 64" by simp
  then show "(119 - r) mod 64 = 55 - r" by (simp only: mod_add_self2) simp
qed

text \<open>The last one or two blocks, as the code fills them in place.\<close>

lemma sha256_final_correct:
  assumes inv: "sha_inv m c"
  shows "sha256_final c = sha256_spec m"
proof -
  let ?q = "length m div 64" and ?r = "length m mod 64"
  define tl where "tl = drop (64 * ?q) m"
  let ?st = "foldl sha_compress sha_H0 (blocks m)"
  let ?lb = "w64be (of_nat (8 * length m))"
  have le: "64 * ?q \<le> length m" using div_mod_64 [of "length m"] by linarith
  have r: "?r < 64" by simp
  have ltl: "length tl = ?r" by (simp add: tl_def minus_mult_div_eq_mod)
  have dl: "sc_datalen c = ?r" and ld: "length (sc_data c) = 64" and tk: "take ?r (sc_data c) = tl"
    and st: "sc_state c = ?st" and bl: "sc_bitlen c = of_nat (512 * ?q)"
    using inv by (auto simp: sha_inv_def tl_def)
  have bits: "sc_bitlen c + of_nat (?r * 8) = of_nat (8 * length m)"
  proof -
    have "512 * ?q + ?r * 8 = 8 * length m" using div_mod_64 [of "length m"] by linarith
    then show ?thesis unfolding bl by (metis of_nat_add)
  qed
  have m: "m = take (64 * ?q) m @ tl" by (simp add: tl_def)
  have m0: "length (take (64 * ?q) m) mod 64 = 0" using le by (simp add: min_absorb2)
  have spec: "blocks (sha_pad m) = blocks m @ blocks (tl @ [0x80] @ replicate ((119 - ?r) mod 64) 0 @ ?lb)"
  proof -
    have "sha_pad m = take (64 * ?q) m @ (tl @ [0x80] @ replicate ((119 - ?r) mod 64) 0 @ ?lb)"
      by (subst m) (simp add: sha_pad_def tl_def)
    then show ?thesis using blocks_split [OF m0] blocks_prefix [of m] by metis
  qed
  have d80: "(sc_data c)[?r := 0x80] = tl @ [0x80] @ drop (?r + 1) (sc_data c)"
    using ld r tk by (simp add: upd_conv_take_nth_drop)
  show ?thesis
  proof (cases "?r < 56")
    case True
    then have z: "(119 - ?r) mod 64 = 55 - ?r" by (rule pad_len_lt)
    have s56: "56 - ?r = Suc (55 - ?r)" using True by simp
    let ?blk = "tl @ [0x80] @ replicate (55 - ?r) 0 @ ?lb"
    have blk: "write_at 56 ?lb (sha_fill ((sc_data c)[?r := 0x80]) (?r + 1) 56) = ?blk"
      unfolding d80 sha_fill_def write_at_def using True ltl ld by (simp add: s56)
    have "sha256_final c = concat (map w32be (sha_compress ?st ?blk))"
      using sha256_final_lt [of c] True by (simp only: dl bits blk st)
    moreover have "length ?blk = 64" using True ltl by simp
    ultimately show ?thesis by (simp add: sha256_spec_def spec z blocks_one)
  next
    case False
    then have z: "(119 - ?r) mod 64 = 119 - ?r" by (intro mod_less) linarith
    have s64: "64 - ?r = Suc (63 - ?r)" using r by linarith
    let ?b1 = "tl @ [0x80] @ replicate (63 - ?r) 0" and ?b2 = "replicate 56 0 @ ?lb"
    have f: "sha_fill ((sc_data c)[?r := 0x80]) (?r + 1) 64 = ?b1"
      unfolding d80 sha_fill_def write_at_def using False ltl ld r by (simp add: s64)
    have l1: "length ?b1 = 64" using ltl r by simp
    have "write_at 56 ?lb (write_at 0 (replicate 56 0) ?b1) = ?b2"
      using l1 by (simp add: write_at_def)
    then have "sha256_final c = concat (map w32be (sha_compress (sha_compress ?st ?b1) ?b2))"
      using sha256_final_ge [of c] False by (simp only: dl bits f st Let_def not_False_eq_True)
    moreover have "replicate (119 - ?r) 0 = replicate (63 - ?r) 0 @ replicate 56 (0 :: u8)"
      using r by (simp flip: replicate_add)
    then have "blocks (tl @ [0x80] @ replicate (119 - ?r) 0 @ ?lb) = [?b1, ?b2]"
      using blocks_split [of ?b1 ?b2] l1 blocks_one [of ?b1] blocks_one [of ?b2] by simp
    ultimately show ?thesis by (simp add: sha256_spec_def spec z)
  qed
qed

text \<open>C7: The incremental SHA-256 of the source, fed the parts of a message in any division and starting from
  any contents of the stack, is the padded-block definition of the standard on the whole message.\<close>

theorem sha256_correct:
  assumes "length (sc_data junk) = 64"
  shows "sha256_final (foldl sha256_update (sha256_init junk) parts) = sha256_spec (concat parts)"
proof -
  have "sha_inv (m @ concat parts) (foldl sha256_update c parts)" if "sha_inv m c" for m c
    using that
  proof (induction parts arbitrary: m c)
    case (Cons p parts)
    from Cons.IH [OF sha_inv_update [OF Cons.prems, of p]] show ?case by simp
  qed simp
  from this [OF sha_inv_init [OF assms]] show ?thesis by (simp add: sha256_final_correct)
qed

definition sha_ex :: sha256_ctx where
  "sha_ex = \<lparr>sc_data = replicate 64 0xEE, sc_datalen = 7, sc_bitlen = 9, sc_state = []\<rparr>"

text \<open>The message \<open>abc\<close>: its only block, the words of its schedule and the working variables after 16, 32, 48
  and 64 rounds, each evaluated on its own.\<close>

definition abc_block :: "u8 list" where
  "abc_block = [0x61, 0x62, 0x63, 0x80] @ replicate 59 0 @ [24]"

definition abc_words :: "u32 list" where
  "abc_words = [
    0x61626380, 0x0, 0x0, 0x0, 0x0, 0x0, 0x0, 0x0,
    0x0, 0x0, 0x0, 0x0, 0x0, 0x0, 0x0, 0x18,
    0x61626380, 0xf0000, 0x7da86405, 0x600003c6, 0x3e9d7b78, 0x183fc00, 0x12dcbfdb, 0xe2e2c38e,
    0xc8215c1a, 0xb73679a2, 0xe5bc3909, 0x32663c5b, 0x9d209d67, 0xec8726cb, 0x702138a4, 0xd3b7973b,
    0x93f5997f, 0x3b68ba73, 0xaff4ffc1, 0xf10a5c62, 0xa8b3996, 0x72af830a, 0x9409e33e, 0x24641522,
    0x9f47bf94, 0xf0a64f5a, 0x3e246a79, 0x27333ba3, 0xc4763f2, 0x840abf27, 0x7a290d5d, 0x65c43da,
    0xfb3e89cb, 0xcc7617db, 0xb9e66c34, 0xa9993667, 0x84badedd, 0xc21462bc, 0x1487472c, 0xb20f7a99,
    0xef57b9cd, 0xebe6b238, 0x9fe3095e, 0x78bc8d4b, 0xa43fcf15, 0x668b2ff8, 0xeeaba2cc, 0x12b1edeb]"

lemma abc_schedule: "sha_schedule abc_block = abc_words" by code_simp

lemma abc_rounds_1: "foldl (sha_round abc_words)
    sha_H0 [0..<16] =
    [0xb0fa238e, 0xc0645fde, 0xd932eb16, 0x87912990, 0x7590dcd, 0xb92f20c, 0x745a48de, 0x1e578218]" by code_simp

lemma abc_rounds_2: "foldl (sha_round abc_words)
    [0xb0fa238e, 0xc0645fde, 0xd932eb16, 0x87912990, 0x7590dcd, 0xb92f20c, 0x745a48de, 0x1e578218] [16..<32] =
    [0x73b33bf5, 0xea992a22, 0xa0060b30, 0x363482c9, 0xba591112, 0x109ab3a, 0xade79437, 0x6112a3b7]" by code_simp

lemma abc_rounds_3: "foldl (sha_round abc_words)
    [0x73b33bf5, 0xea992a22, 0xa0060b30, 0x363482c9, 0xba591112, 0x109ab3a, 0xade79437, 0x6112a3b7] [32..<48] =
    [0x4172328d, 0xa14c14b0, 0x72ab4b91, 0x26628815, 0xfecf0bc6, 0xd57b94a9, 0xb7755da1, 0xa80f11f0]" by code_simp

lemma abc_rounds_4: "foldl (sha_round abc_words)
    [0x4172328d, 0xa14c14b0, 0x72ab4b91, 0x26628815, 0xfecf0bc6, 0xd57b94a9, 0xb7755da1, 0xa80f11f0] [48..<64] =
    [0x506e3058, 0xd39a2165, 0x4d24d6c, 0xb85e2ce9, 0x5ef50f24, 0xfb121210, 0x948d25b6, 0x961f4894]" by code_simp

lemma abc_compress: "take 1 (sha_compress sha_H0 abc_block) = [0xba7816bf]"
proof -
  have split: "[0..<64] = [0..<16] @ [16..<32] @ [32..<48] @ [48..<(64 :: nat)]" by code_simp
  have "map2 (+) sha_H0 (foldl (sha_round abc_words) sha_H0 [0..<64]) = map2 (+) sha_H0
      [0x506e3058, 0xd39a2165, 0x4d24d6c, 0xb85e2ce9, 0x5ef50f24, 0xfb121210, 0x948d25b6, 0x961f4894]"
    unfolding split by (simp only: foldl_append abc_rounds_1 abc_rounds_2 abc_rounds_3 abc_rounds_4)
  then show ?thesis by (simp add: sha_compress_def abc_schedule sha_H0_def)
qed

text \<open>The first bytes of the digest of \<open>abc\<close>, as the standard gives them.\<close>

lemma sha256_correct_witness:
  "take 4 (sha256_spec (concat [[0x61], [0x62, 0x63]])) = [0xba, 0x78, 0x16, 0xbf]"
proof -
  have pad: "sha_pad [0x61, 0x62, 0x63] = abc_block" by code_simp
  have "blocks abc_block = [abc_block]" by (rule blocks_one) (simp add: abc_block_def)
  with pad obtain ws where "sha256_spec [0x61, 0x62, 0x63] = w32be 0xba7816bf @ ws"
    using abc_compress by (cases "sha_compress sha_H0 abc_block") (auto simp: sha256_spec_def)
  moreover have "w32be 0xba7816bf = [0xba, 0x78, 0x16, 0xbf]" by code_simp
  ultimately have "take 4 (sha256_final (foldl sha256_update (sha256_init sha_ex) [[0x61], [0x62, 0x63]]))
      = [0xba, 0x78, 0x16, 0xbf]"
    using sha256_correct [of sha_ex "[[0x61], [0x62, 0x63]]"] by (simp add: sha_ex_def)
  then show ?thesis using sha256_correct [of sha_ex "[[0x61], [0x62, 0x63]]"] by (simp add: sha_ex_def)
qed

section \<open>HMAC and tokens\<close>

definition RELAY_KEY_BYTES :: nat where "RELAY_KEY_BYTES = 32"
definition RELAY_TOKEN_BYTES :: nat where "RELAY_TOKEN_BYTES = 32"

definition hmac_sha256 :: "sha256_ctx \<Rightarrow> u8 list \<Rightarrow> u8 list \<Rightarrow> u8 list" where
  "hmac_sha256 ctx key msg =
     (let k = (if length key > 64 then sha256 ctx key @ replicate 32 0
               else key @ replicate (64 - length key) 0);
          ipad = map (\<lambda>b. b XOR 0x36) k;
          opad = map (\<lambda>b. b XOR 0x5c) k;
          inner = sha256_final (sha256_update (sha256_update (sha256_init ctx) ipad) msg)
      in sha256_final (sha256_update (sha256_update (sha256_init ctx) opad) inner))"

fun relay_token_generate :: "sha256_ctx \<Rightarrow> u8 list option \<Rightarrow> u8 list option \<Rightarrow> u8 list option \<Rightarrow>
    u8 list option \<Rightarrow> u8 list option" where
  "relay_token_generate ctx (Some key) (Some pub) (Some nonce) (Some out) =
     Some (hmac_sha256 ctx (take RELAY_KEY_BYTES key) (take 32 pub @ take 8 nonce))"
| "relay_token_generate ctx _ _ _ out = out"

definition relay_token_validate :: "u8 list option \<Rightarrow> u8 list option \<Rightarrow> bool" where
  "relay_token_validate a b = (case (a, b) of
     (Some a, Some b) \<Rightarrow> fold (\<lambda>i diff. diff OR (a ! i XOR b ! i)) [0..<RELAY_TOKEN_BYTES] 0 = 0
   | _ \<Rightarrow> False)"

lemma fold_or_zero_byte: "fold (\<lambda>i d. d OR f i) xs (z :: u8) = 0 \<longleftrightarrow> z = 0 \<and> (\<forall>i\<in>set xs. f i = 0)"
  by (induction xs arbitrary: z) (auto simp: or_eq_0_iff)

lemma xor_eq_0_byte: "(x XOR y = 0) = (x = (y :: u8))"
  by (metis xor.assoc xor.left_neutral xor_self_eq)

lemma relay_token_validate_iff:
  assumes "length a = 32" and "length b = 32"
  shows "relay_token_validate (Some a) (Some b) \<longleftrightarrow> a = b"
  using assms by (auto simp: relay_token_validate_def fold_or_zero_byte xor_eq_0_byte
      RELAY_TOKEN_BYTES_def list_eq_iff_nth_eq)

lemma length_sha_compress: "length st = 8 \<Longrightarrow> length (sha_compress st d) = 8"
proof -
  have "length (foldl (sha_round m) v xs) = 8" if "length v = 8" for m v xs
    using that by (induction xs arbitrary: v) (simp_all add: sha_round_def Let_def)
  then show "length st = 8 \<Longrightarrow> length (sha_compress st d) = 8" by (simp add: sha_compress_def)
qed

lemma length_sha256_spec: "length (sha256_spec m) = 32"
proof -
  have "length (foldl sha_compress st bs) = 8" if "length st = 8" for st bs
    using that by (induction bs arbitrary: st) (simp_all add: length_sha_compress)
  moreover have "length (concat (map w32be xs)) = 4 * length xs" for xs by (induction xs) simp_all
  ultimately show ?thesis by (simp add: sha256_spec_def sha_H0_def)
qed

text \<open>HMAC as RFC 2104 defines it over the specification of the hash.\<close>

definition hmac_spec :: "u8 list \<Rightarrow> u8 list \<Rightarrow> u8 list" where
  "hmac_spec key msg =
     (let k0 = (if length key > 64 then sha256_spec key else key);
          k = k0 @ replicate (64 - length k0) 0
      in sha256_spec (map (\<lambda>b. b XOR 0x5c) k @ sha256_spec (map (\<lambda>b. b XOR 0x36) k @ msg)))"

text \<open>A relay token is the HMAC-SHA256 of the peer's public key and the nonce under the 32-byte key, and a
  presented token is accepted by \<open>relay_token_validate\<close> exactly when it is that value.\<close>

theorem relay_token_correct:
  assumes "length (sc_data junk) = 64" and "length key = 32" "length pub = 32" "length nonce = 8"
    and "length tok = 32"
  shows "relay_token_generate junk (Some key) (Some pub) (Some nonce) (Some out) = Some (hmac_spec key (pub @ nonce))
    \<and> (relay_token_validate (Some (hmac_spec key (pub @ nonce))) (Some tok) \<longleftrightarrow> tok = hmac_spec key (pub @ nonce))"
proof
  have two: "sha256_final (sha256_update (sha256_update (sha256_init junk) a) b) = sha256_spec (a @ b)" for a b
    using sha_inv_update [OF sha_inv_update [OF sha_inv_init [OF assms(1)], of a], of b]
    by (simp add: sha256_final_correct)
  show "relay_token_generate junk (Some key) (Some pub) (Some nonce) (Some out) = Some (hmac_spec key (pub @ nonce))"
    using assms by (simp add: hmac_sha256_def hmac_spec_def two Let_def RELAY_KEY_BYTES_def)
  have "length (hmac_spec key (pub @ nonce)) = 32" by (simp add: hmac_spec_def Let_def length_sha256_spec)
  then show "relay_token_validate (Some (hmac_spec key (pub @ nonce))) (Some tok) \<longleftrightarrow> tok = hmac_spec key (pub @ nonce)"
    using relay_token_validate_iff assms(5) by auto
qed

lemma relay_token_correct_witness:
  "relay_token_generate sha_ex (Some (replicate 32 1)) (Some (replicate 32 2)) (Some (replicate 8 3)) (Some [])
     = Some (hmac_spec (replicate 32 1) (replicate 32 2 @ replicate 8 3))"
  using relay_token_correct [of sha_ex "replicate 32 1" "replicate 32 2" "replicate 8 3" "replicate 32 4" "[]"]
  by (simp only: length_replicate sha_ex_def sha256_ctx.select_convs simp_thms)

end
