(* ===== verification/Slots.thy ===== *)
theory Slots
  imports RS_Prelude
begin

text \<open>
  Tables that the repository keeps in a fixed array of slots with an in-use flag: sessions, retries,
  tags, outputs, gauges, plug-ins, relay sessions.  The first part is the array: a slot is free or
  \<open>busy\<close>, a busy one has a \<open>key\<close>, the live entries are a multiset.  The second part is the contract
  of such a table as its clients see it (\<open>slot_store\<close>), and what follows from it: under distinct keys the
  table is a finite map of bounded size.
\<close>

section \<open>Multisets of entries with distinct keys\<close>

definition keys_once :: "('v \<Rightarrow> 'k) \<Rightarrow> 'v multiset \<Rightarrow> bool" where
  "keys_once f M \<longleftrightarrow> (\<forall>k. count (image_mset f M) k \<le> 1)"

lemma keys_once_empty [simp]: "keys_once f {#}" by (simp add: keys_once_def)

lemma keys_once_add: "keys_once f (add_mset v M) \<longleftrightarrow> f v \<notin> f ` set_mset M \<and> keys_once f M"
proof
  assume a: "keys_once f (add_mset v M)"
  have "count (image_mset f M) (f v) = 0" using a [unfolded keys_once_def, rule_format, of "f v"] by simp
  then have "f v \<notin># image_mset f M" by (simp only: not_in_iff)
  moreover have "count (image_mset f M) k \<le> 1" for k
    using a [unfolded keys_once_def, rule_format, of k] by (simp split: if_splits)
  ultimately show "f v \<notin> f ` set_mset M \<and> keys_once f M" by (simp add: keys_once_def)
next
  assume a: "f v \<notin> f ` set_mset M \<and> keys_once f M"
  then have "f v \<notin># image_mset f M" by simp
  then have "count (image_mset f M) (f v) = 0" by (simp only: not_in_iff)
  with a show "keys_once f (add_mset v M)" by (simp add: keys_once_def)
qed

lemma keys_once_sub: "keys_once f M \<Longrightarrow> image_mset f N \<subseteq># image_mset f M \<Longrightarrow> keys_once f N"
  unfolding keys_once_def by (meson le_trans mset_subset_eq_count)

lemma keys_once_filter: "keys_once f M \<Longrightarrow> keys_once f (filter_mset P M)"
  by (rule keys_once_sub) (auto intro: image_mset_subseteq_mono)

lemma keys_once_eq: "keys_once f M \<Longrightarrow> v \<in># M \<Longrightarrow> w \<in># M \<Longrightarrow> f v = f w \<Longrightarrow> v = w"
proof (rule ccontr)
  assume a: "keys_once f M" "v \<in># M" "w \<in># M" "f v = f w" "v \<noteq> w"
  then obtain N where N: "M = add_mset v N" by (metis mset_add)
  with a(3,5) have "w \<in># N" by auto
  with a(1,4) show False unfolding N keys_once_add by auto
qed

lemma keys_once_remove: "keys_once f (add_mset v M) \<Longrightarrow> filter_mset (\<lambda>x. f x \<noteq> f v) (add_mset v M) = M"
  by (auto simp: keys_once_add filter_mset_eq_conv image_iff)

lemma keys_once_the: "keys_once f M \<Longrightarrow> v \<in># M \<Longrightarrow> (THE x. x \<in># M \<and> f x = f v) = v"
  using keys_once_eq [of f M] by (intro the_equality) auto

section \<open>The array\<close>

definition slot_find :: "('e \<Rightarrow> bool) \<Rightarrow> ('e \<Rightarrow> 'k \<Rightarrow> bool) \<Rightarrow> 'e list \<Rightarrow> 'k \<Rightarrow> nat option" where
  "slot_find busy matches es k = first_idx (\<lambda>e. busy e \<and> matches e k) es"

definition slot_free :: "('e \<Rightarrow> bool) \<Rightarrow> 'e list \<Rightarrow> nat option" where
  "slot_free busy es = first_idx (\<lambda>e. \<not> busy e) es"

definition slot_live :: "('e \<Rightarrow> bool) \<Rightarrow> 'e list \<Rightarrow> 'e multiset" where
  "slot_live busy es = filter_mset busy (mset es)"

lemma size_slot_live: "size (slot_live busy es) = count_if busy es"
  by (simp add: slot_live_def count_if_def flip: mset_filter)

lemma size_slot_live_le: "size (slot_live busy es) \<le> length es"
  by (simp add: size_slot_live count_if_le)

lemma in_slot_live: "e \<in># slot_live busy es \<longleftrightarrow> e \<in> set es \<and> busy e"
  by (auto simp: slot_live_def)

lemma slot_free_None [slot_simps]: "slot_free busy es = None \<longleftrightarrow> size (slot_live busy es) = length es"
  by (simp add: slot_free_def first_idx_None size_slot_live count_if_full)

lemma slot_free_Some:
  "size (slot_live busy es) < length es \<Longrightarrow> \<exists>i. slot_free busy es = Some i"
  using slot_free_None [of busy es] by (cases "slot_free busy es") auto

lemma slot_freeD:
  "slot_free busy es = Some i \<Longrightarrow> i < length es \<and> \<not> busy (es ! i)"
  by (simp add: slot_free_def first_idx_Some)

lemma slot_find_None [slot_simps]:
  "slot_find busy matches es k = None \<longleftrightarrow> (\<forall>e \<in># slot_live busy es. \<not> matches e k)"
  by (auto simp: slot_find_def first_idx_None in_slot_live)

lemma slot_findD:
  "slot_find busy matches es k = Some i \<Longrightarrow>
   i < length es \<and> busy (es ! i) \<and> matches (es ! i) k \<and> es ! i \<in># slot_live busy es"
  by (auto simp: slot_find_def first_idx_Some in_slot_live)

lemma slot_find_least:
  "slot_find busy matches es k = Some i \<Longrightarrow> j < i \<Longrightarrow> \<not> (busy (es ! j) \<and> matches (es ! j) k)"
  by (auto simp: slot_find_def first_idx_Some)

lemma filter_mset_update:
  assumes "i < length xs"
  shows "filter_mset P (mset (xs[i := v])) + (if P (xs ! i) then {#xs ! i#} else {#})
    = filter_mset P (mset xs) + (if P v then {#v#} else {#})"
proof -
  obtain M where "mset xs = add_mset (xs ! i) M"
    using assms by (metis mset_add nth_mem_mset)
  then show ?thesis using assms by (simp add: mset_update)
qed

lemma slot_live_fill [slot_simps]:
  "slot_free busy es = Some i \<Longrightarrow> busy v \<Longrightarrow> slot_live busy (es[i := v]) = add_mset v (slot_live busy es)"
  using slot_freeD [of busy es i] filter_mset_update [of i es busy v] by (simp add: slot_live_def)

lemma slot_live_clear [slot_simps]:
  "slot_find busy matches es k = Some i \<Longrightarrow> \<not> busy z \<Longrightarrow>
   slot_live busy es = add_mset (es ! i) (slot_live busy (es[i := z]))"
  using slot_findD [of busy matches es k i] filter_mset_update [of i es busy z] by (simp add: slot_live_def)

lemma slot_live_replace:
  "i < length es \<Longrightarrow> busy (es ! i) \<Longrightarrow> busy v \<Longrightarrow>
   slot_live busy (es[i := v]) = add_mset v (slot_live busy es - {#es ! i#})"
proof -
  assume a: "i < length es" "busy (es ! i)" "busy v"
  have "add_mset (es ! i) (slot_live busy (es[i := v])) = add_mset v (slot_live busy es)"
    using filter_mset_update [OF a(1), of busy v] a(2,3) by (simp add: slot_live_def)
  then have "slot_live busy (es[i := v]) = add_mset v (slot_live busy es) - {#es ! i#}"
    by (metis add_mset_remove_trivial)
  then show ?thesis using a by (simp add: diff_union_swap2 in_slot_live)
qed

lemma slot_live_replicate [simp]: "\<not> busy z \<Longrightarrow> slot_live busy (replicate n z) = {#}"
  by (simp add: slot_live_def)

lemma slot_find_find:
  "map_option ((!) es) (slot_find busy matches es k) = List.find (\<lambda>e. busy e \<and> matches e k) es"
  unfolding slot_find_def by (induction es) (auto simp: option.map_comp comp_def)

lemma find_map_of:
  "map_of (map (\<lambda>e. (key e, val e)) (filter busy es)) k = map_option val (List.find (\<lambda>e. busy e \<and> key e = k) es)"
  by (induction es) auto

text \<open>The table as an association list: the busy slots with their keys, in order.\<close>

definition slot_assoc :: "('e \<Rightarrow> bool) \<Rightarrow> ('e \<Rightarrow> 'k) \<Rightarrow> ('e \<Rightarrow> 'v) \<Rightarrow> 'e list \<Rightarrow> ('k \<times> 'v) list" where
  "slot_assoc busy key val es = map (\<lambda>e. (key e, val e)) (filter busy es)"

lemma slot_assoc_simps [simp]:
  "slot_assoc busy key val [] = []"
  "slot_assoc busy key val (e # es) = (if busy e then (key e, val e) # slot_assoc busy key val es else slot_assoc busy key val es)"
  by (simp_all add: slot_assoc_def)

lemma length_slot_assoc: "length (slot_assoc busy key val es) = count_if busy es"
  by (simp add: slot_assoc_def count_if_def)

lemma slot_assoc_lookup:
  "map_of (slot_assoc busy key val es) k = map_option (\<lambda>i. val (es ! i)) (first_idx (\<lambda>e. busy e \<and> key e = k) es)"
  by (induction es) (auto simp: option.map_comp comp_def)

lemma slot_assoc_update:
  "first_idx (\<lambda>e. busy e \<and> key e = k) es = Some i \<Longrightarrow> busy v \<Longrightarrow> key v = k \<Longrightarrow>
   map_of (slot_assoc busy key val (es[i := v])) = (map_of (slot_assoc busy key val es))(k \<mapsto> val v)
   \<and> map fst (slot_assoc busy key val (es[i := v])) = map fst (slot_assoc busy key val es)"
  by (induction es arbitrary: i) (auto split: if_splits)

lemma slot_assoc_keys: "map fst (slot_assoc busy key val es) = map key (filter busy es)"
  by (simp add: slot_assoc_def comp_def)

lemma slot_keys_fill:
  "first_idx (\<lambda>e. \<not> busy e) es = Some i \<Longrightarrow> busy v \<Longrightarrow> mset (map key (filter busy (es[i := v]))) = add_mset (key v) (mset (map key (filter busy es)))"
  by (induction es arbitrary: i) (auto split: if_splits)

lemma slot_assoc_fill:
  assumes "first_idx (\<lambda>e. \<not> busy e) es = Some i" and "busy v" and "map_of (slot_assoc busy key val es) (key v) = None"
  shows "map_of (slot_assoc busy key val (es[i := v])) = (map_of (slot_assoc busy key val es))(key v \<mapsto> val v)"
    and "distinct (map fst (slot_assoc busy key val es)) \<Longrightarrow> distinct (map fst (slot_assoc busy key val (es[i := v])))"
proof -
  show "map_of (slot_assoc busy key val (es[i := v])) = (map_of (slot_assoc busy key val es))(key v \<mapsto> val v)"
    using assms by (induction es arbitrary: i) (auto simp: fun_upd_twist split: if_splits)
  have "key v \<notin> set (map fst (slot_assoc busy key val es))" using assms(3) by (simp add: map_of_eq_None_iff)
  then show "distinct (map fst (slot_assoc busy key val es)) \<Longrightarrow> distinct (map fst (slot_assoc busy key val (es[i := v])))"
    using slot_keys_fill [OF assms(1,2), of key] unfolding slot_assoc_keys
    by (metis distinct.simps(2) mset.simps(2) mset_eq_imp_distinct_iff)
qed

lemma slot_assoc_card:
  "distinct (map fst (slot_assoc busy key val es)) \<Longrightarrow> card (dom (map_of (slot_assoc busy key val es))) = count_if busy es"
  using distinct_card [of "map fst (slot_assoc busy key val es)"] by (simp add: dom_map_of_conv_image_fst length_slot_assoc)

lemma slot_assoc_clear:
  assumes "first_idx (\<lambda>e. busy e \<and> key e = k) es = Some i" and "\<not> busy z" and "distinct (map fst (slot_assoc busy key val es))"
  shows "map_of (slot_assoc busy key val (es[i := z])) = (map_of (slot_assoc busy key val es))(k := None)"
    and "distinct (map fst (slot_assoc busy key val (es[i := z])))"
proof -
  have "map_of (slot_assoc busy key val (es[i := z])) = (map_of (slot_assoc busy key val es))(k := None)
      \<and> distinct (map fst (slot_assoc busy key val (es[i := z])))
      \<and> set (map fst (slot_assoc busy key val (es[i := z]))) \<subseteq> set (map fst (slot_assoc busy key val es))"
    using assms
  proof (induction es arbitrary: i)
    case (Cons e es)
    show ?case
    proof (cases "busy e \<and> key e = k")
      case True
      then have "k \<notin> set (map fst (slot_assoc busy key val es))" "i = 0" using Cons.prems by auto
      with True Cons.prems show ?thesis by (auto simp: fun_upd_idem map_of_eq_None_iff)
    next
      case False
      then obtain j where j: "i = Suc j" "first_idx (\<lambda>e. busy e \<and> key e = k) es = Some j" using Cons.prems(1) by auto
      from Cons.IH [OF j(2) assms(2)] Cons.prems(3) j False show ?thesis by (auto simp: fun_upd_twist split: if_splits)
    qed
  qed simp
  then show "map_of (slot_assoc busy key val (es[i := z])) = (map_of (slot_assoc busy key val es))(k := None)"
    "distinct (map fst (slot_assoc busy key val (es[i := z])))" by blast+
qed

text \<open>Clearing every busy slot whose value satisfies \<open>P\<close>.\<close>

lemma map_of_filter_val:
  "distinct (map fst xs) \<Longrightarrow> map_of (filter (\<lambda>(k, v). Q v) xs) = (\<lambda>k. case map_of xs k of None \<Rightarrow> None | Some v \<Rightarrow> if Q v then Some v else None)"
proof (induction xs)
  case (Cons x xs)
  obtain k v where x: "x = (k, v)" by (cases x)
  have "map_of xs k = None" using Cons.prems by (simp add: x map_of_eq_None_iff)
  with Cons show ?case by (auto simp: x fun_eq_iff)
qed auto

lemma slot_assoc_sweep:
  assumes "distinct (map fst (slot_assoc busy key val es))" and "\<And>e. \<not> busy (z e)"
  shows "map_of (slot_assoc busy key val (map (\<lambda>e. if busy e \<and> P (val e) then z e else e) es))
      = (\<lambda>k. case map_of (slot_assoc busy key val es) k of None \<Rightarrow> None | Some v \<Rightarrow> if P v then None else Some v)"
    and "distinct (map fst (slot_assoc busy key val (map (\<lambda>e. if busy e \<and> P (val e) then z e else e) es)))"
proof -
  have e: "slot_assoc busy key val (map (\<lambda>e. if busy e \<and> P (val e) then z e else e) es) = filter (\<lambda>(k, v). \<not> P v) (slot_assoc busy key val es)"
    by (induction es) (auto simp: assms(2))
  show "map_of (slot_assoc busy key val (map (\<lambda>e. if busy e \<and> P (val e) then z e else e) es))
      = (\<lambda>k. case map_of (slot_assoc busy key val es) k of None \<Rightarrow> None | Some v \<Rightarrow> if P v then None else Some v)"
    unfolding e map_of_filter_val [OF assms(1)] by (auto simp: fun_eq_iff split: option.split)
  show "distinct (map fst (slot_assoc busy key val (map (\<lambda>e. if busy e \<and> P (val e) then z e else e) es)))"
    unfolding e using assms(1) by (rule distinct_map_filter)
qed

text \<open>The whole of it: a table of \<open>cap\<close> slots with its counter is a finite map.\<close>

definition slot_map_rel :: "('e \<Rightarrow> bool) \<Rightarrow> ('e \<Rightarrow> 'k) \<Rightarrow> ('e \<Rightarrow> 'v) \<Rightarrow> nat \<Rightarrow> 'e list \<Rightarrow> nat \<Rightarrow> ('k \<rightharpoonup> 'v) \<Rightarrow> bool" where
  "slot_map_rel busy key val cap es cnt m \<longleftrightarrow> length es = cap \<and> cnt = count_if busy es
     \<and> distinct (map fst (slot_assoc busy key val es)) \<and> m = map_of (slot_assoc busy key val es)"

lemma slot_map_empty: "\<not> busy z \<Longrightarrow> slot_map_rel busy key val cap (replicate cap z) 0 Map.empty"
  by (simp add: slot_map_rel_def slot_assoc_def)

lemma slot_map_lookup:
  "slot_map_rel busy key val cap es cnt m \<Longrightarrow> m k = map_option (\<lambda>i. val (es ! i)) (first_idx (\<lambda>e. busy e \<and> key e = k) es)"
  by (simp add: slot_map_rel_def slot_assoc_lookup)

lemma slot_map_card: "slot_map_rel busy key val cap es cnt m \<Longrightarrow> card (dom m) = cnt"
  by (auto simp: slot_map_rel_def slot_assoc_card)

lemma slot_map_le: "slot_map_rel busy key val cap es cnt m \<Longrightarrow> cnt \<le> cap"
  using count_if_le [of busy es] by (auto simp: slot_map_rel_def)

lemma slot_map_room:
  "slot_map_rel busy key val cap es cnt m \<Longrightarrow> cnt < cap \<Longrightarrow> \<exists>i. first_idx (\<lambda>e. \<not> busy e) es = Some i"
  using free_slot_exists [of busy es] by (auto simp: slot_map_rel_def)

lemma slot_map_fill:
  assumes "slot_map_rel busy key val cap es cnt m" and "first_idx (\<lambda>e. \<not> busy e) es = Some i" and "busy v" and "m (key v) = None"
  shows "slot_map_rel busy key val cap (es[i := v]) (Suc cnt) (m(key v \<mapsto> val v))"
  using assms slot_assoc_fill [OF assms(2,3), of key val] count_if_fill [of i es busy v] first_idx_SomeD [OF assms(2)] assms(3)
  by (simp add: slot_map_rel_def)

lemma slot_map_found:
  assumes r: "slot_map_rel busy key val cap es cnt m" and f: "first_idx (\<lambda>e. busy e \<and> key e = k) es = Some i"
  shows "i < cap \<and> busy (es ! i) \<and> key (es ! i) = k \<and> m k = Some (val (es ! i))"
  using slot_map_lookup [OF r, of k] first_idx_SomeD [OF f] f r by (auto simp: slot_map_rel_def)

lemma slot_map_missing:
  "slot_map_rel busy key val cap es cnt m \<Longrightarrow> first_idx (\<lambda>e. busy e \<and> key e = k) es = None \<longleftrightarrow> m k = None"
  by (simp add: slot_map_lookup)

lemma slot_map_replace:
  assumes r: "slot_map_rel busy key val cap es cnt m" and f: "first_idx (\<lambda>e. busy e \<and> key e = k) es = Some i"
    and "busy v" and "key v = k"
  shows "slot_map_rel busy key val cap (es[i := v]) cnt (m(k \<mapsto> val v))"
  using r slot_assoc_update [OF f assms(3,4), of val] count_if_same [of i es busy v] first_idx_SomeD [OF f] assms(3)
  by (simp add: slot_map_rel_def)

lemma slot_map_clear:
  assumes r: "slot_map_rel busy key val cap es cnt m" and f: "first_idx (\<lambda>e. busy e \<and> key e = k) es = Some i" and "\<not> busy z"
  shows "slot_map_rel busy key val cap (es[i := z]) (cnt - 1) (m(k := None))"
  using r slot_assoc_clear [OF f assms(3), of val] count_if_clear [of i es busy z] first_idx_SomeD [OF f] assms(3)
  by (auto simp: slot_map_rel_def)

lemma slot_map_count:
  assumes "slot_map_rel busy key val cap es cnt m"
  shows "card {k. \<exists>v. m k = Some v \<and> Q v} = count_if (\<lambda>e. busy e \<and> Q (val e)) es"
proof -
  let ?xs = "slot_assoc busy key val es"
  have d: "distinct (map fst ?xs)" and m: "m = map_of ?xs" using assms by (simp_all add: slot_map_rel_def)
  have "{k. \<exists>v. m k = Some v \<and> Q v} = dom (map_of (filter (\<lambda>(k, v). Q v) ?xs))"
    by (auto simp: m map_of_filter_val [OF d] dom_def split: option.splits if_splits)
  also have "\<dots> = set (map fst (filter (\<lambda>(k, v). Q v) ?xs))" by (simp add: dom_map_of_conv_image_fst)
  also have "card \<dots> = length (filter (\<lambda>(k, v). Q v) ?xs)" using distinct_card [OF distinct_map_filter [OF d]] by simp
  also have "\<dots> = count_if (\<lambda>e. busy e \<and> Q (val e)) es" by (induction es) simp_all
  finally show ?thesis .
qed

text \<open>A callback applied to every busy slot in order; it may change the slot and the caller's data.\<close>

fun slot_foreach :: "('e \<Rightarrow> bool) \<Rightarrow> ('e \<Rightarrow> 'u \<Rightarrow> 'e \<times> 'u) \<Rightarrow> 'e list \<Rightarrow> 'u \<Rightarrow> 'e list \<times> 'u" where
  "slot_foreach busy cb [] u = ([], u)"
| "slot_foreach busy cb (e # es) u =
     (if busy e then case cb e u of (e', u') \<Rightarrow> case slot_foreach busy cb es u' of (es', u'') \<Rightarrow> (e' # es', u'')
      else case slot_foreach busy cb es u of (es', u') \<Rightarrow> (e # es', u'))"

lemma slot_foreach_collect:
  "slot_foreach busy (\<lambda>e u. (e, u @ [f e])) es u = (es, u @ map f (filter busy es))"
  by (induction es arbitrary: u) (simp_all split: prod.splits)

section \<open>Arrays of which a prefix is in use\<close>

definition pfx_find :: "('e \<Rightarrow> 'k) \<Rightarrow> 'e list \<Rightarrow> nat \<Rightarrow> 'k \<Rightarrow> nat option" where
  "pfx_find key es n k = first_idx (\<lambda>e. key e = k) (take n es)"

definition pfx_map :: "('e \<Rightarrow> 'k) \<Rightarrow> ('e \<Rightarrow> 'v) \<Rightarrow> 'e list \<Rightarrow> nat \<Rightarrow> 'k \<rightharpoonup> 'v" where
  "pfx_map key val es n = map_of (map (\<lambda>e. (key e, val e)) (take n es))"

lemma pfx_find_None [slot_simps]: "pfx_find key es n k = None \<longleftrightarrow> pfx_map key val es n k = None"
  by (auto simp: pfx_find_def first_idx_None pfx_map_def map_of_eq_None_iff image_iff)

lemma first_idx_map_of:
  "first_idx (\<lambda>e. key e = k) xs = Some i \<Longrightarrow> map_of (map (\<lambda>e. (key e, val e)) xs) k = Some (val (xs ! i))"
  by (induction xs arbitrary: i) (auto split: if_splits)

lemma first_idx_update:
  "first_idx (\<lambda>e. key e = k) xs = Some i \<Longrightarrow> key e' = k \<Longrightarrow>
   map_of (map (\<lambda>e. (key e, val e)) (xs[i := e'])) = (map_of (map (\<lambda>e. (key e, val e)) xs))(k \<mapsto> val e')"
  by (induction xs arbitrary: i) (auto split: if_splits)

lemma pfx_find_SomeD:
  assumes "pfx_find key es n k = Some i" and "n \<le> length es"
  shows "i < n \<and> i < length es \<and> key (es ! i) = k \<and> pfx_map key val es n k = Some (val (es ! i))"
  using first_idx_SomeD [OF assms(1) [unfolded pfx_find_def]] assms(2)
    first_idx_map_of [OF assms(1) [unfolded pfx_find_def], where val = val]
  by (simp add: pfx_map_def)

lemma pfx_map_update:
  assumes "pfx_find key es n k = Some i" and "key e' = k"
  shows "pfx_map key val (es[i := e']) n = (pfx_map key val es n)(k \<mapsto> val e')"
  using first_idx_update [OF assms(1) [unfolded pfx_find_def] assms(2), where val = val]
  by (simp add: pfx_map_def take_update_swap)

lemma pfx_map_append:
  assumes "pfx_find key es n k = None" and "n < length es" and "key e' = k"
  shows "pfx_map key val (es[n := e']) (n + 1) = (pfx_map key val es n)(k \<mapsto> val e')"
proof -
  have t: "take (n + 1) (es[n := e']) = take n es @ [e']" using assms(2) by (simp add: take_Suc_conv_app_nth)
  have "k \<notin> dom (map_of (map (\<lambda>e. (key e, val e)) (take n es)))"
    using assms(1) pfx_find_None [of key es n k val] by (auto simp: pfx_map_def dom_def)
  then show ?thesis using assms(3) unfolding pfx_map_def t by (auto simp: map_add_def fun_eq_iff split: option.split)
qed

text \<open>The keys of the prefix stay distinct, so that its length is the size of the map.\<close>

definition pfx_distinct :: "('e \<Rightarrow> 'k) \<Rightarrow> 'e list \<Rightarrow> nat \<Rightarrow> bool" where
  "pfx_distinct key es n \<longleftrightarrow> n \<le> length es \<and> distinct (map key (take n es))"

lemma pfx_distinct_update:
  "pfx_distinct key es n \<Longrightarrow> pfx_find key es n k = Some i \<Longrightarrow> key e' = k \<Longrightarrow> pfx_distinct key (es[i := e']) n"
proof -
  assume a: "pfx_distinct key es n" "pfx_find key es n k = Some i" "key e' = k"
  then have i: "i < n" "map key (take n es) ! i = k" "i < length (map key (take n es))"
    using first_idx_SomeD [OF a(2) [unfolded pfx_find_def]] by (simp_all add: pfx_distinct_def)
  then have "map key (take n (es[i := e'])) = map key (take n es)"
    using a(3) by (simp only: take_update_swap map_update) (metis list_update_id)
  with a(1) show ?thesis by (simp add: pfx_distinct_def)
qed

lemma pfx_distinct_append:
  "pfx_distinct key es n \<Longrightarrow> pfx_find key es n k = None \<Longrightarrow> n < length es \<Longrightarrow> key e' = k \<Longrightarrow>
   pfx_distinct key (es[n := e']) (n + 1)"
  by (auto simp: pfx_distinct_def pfx_find_def first_idx_None take_Suc_conv_app_nth)

lemma pfx_map_find: "n \<le> length es \<Longrightarrow> pfx_map key val es n k = map_option (\<lambda>i. val (es ! i)) (pfx_find key es n k)"
  using pfx_find_None [of key es n k val] pfx_find_SomeD [of key es n k _ val] by (cases "pfx_find key es n k") auto

lemma pfx_map_in: "pfx_distinct key es n \<Longrightarrow> e \<in> set (take n es) \<Longrightarrow> pfx_map key val es n (key e) = Some (val e)"
  unfolding pfx_map_def by (rule map_of_is_SomeI) (auto simp: pfx_distinct_def comp_def)

lemma pfx_map_SomeD: "pfx_map key val es n k = Some v \<Longrightarrow> \<exists>e \<in> set (take n es). key e = k \<and> val e = v"
  unfolding pfx_map_def by (drule map_of_SomeD) auto

lemma pfx_card: "pfx_distinct key es n \<Longrightarrow> card (dom (pfx_map key val es n)) = n"
proof -
  assume d: "pfx_distinct key es n"
  have "dom (pfx_map key val es n) = set (map key (take n es))" by (simp add: pfx_map_def dom_map_of_conv_image_fst image_image)
  then show ?thesis using d by (metis distinct_card length_map length_take min_absorb2 pfx_distinct_def)
qed

text \<open>A list whose elements have distinct keys, as a map.\<close>

definition list_map_rel :: "('e \<Rightarrow> 'k) \<Rightarrow> ('e \<Rightarrow> 'v) \<Rightarrow> 'e list \<Rightarrow> ('k \<rightharpoonup> 'v) \<Rightarrow> bool" where
  "list_map_rel key val xs m \<longleftrightarrow> distinct (map key xs) \<and> m = map_of (map (\<lambda>x. (key x, val x)) xs)"

lemma list_map_empty: "list_map_rel key val [] Map.empty"
  by (simp add: list_map_rel_def)

lemma list_map_dom: "dom (map_of (map (\<lambda>x. (key x, val x)) xs)) = set (map key xs)"
  by (simp add: dom_map_of_conv_image_fst image_image)

lemma list_map_card: "list_map_rel key val xs m \<Longrightarrow> card (dom m) = length xs"
  using distinct_card [of "map key xs"] by (auto simp: list_map_rel_def list_map_dom)

lemma list_map_lookup: "list_map_rel key val xs m \<Longrightarrow> m k = map_option (\<lambda>i. val (xs ! i)) (first_idx (\<lambda>x. key x = k) xs)"
proof -
  have "map_of (map (\<lambda>x. (key x, val x)) xs) k = map_option (\<lambda>i. val (xs ! i)) (first_idx (\<lambda>x. key x = k) xs)"
    by (induction xs) (auto simp: option.map_comp comp_def)
  then show "list_map_rel key val xs m \<Longrightarrow> m k = map_option (\<lambda>i. val (xs ! i)) (first_idx (\<lambda>x. key x = k) xs)"
    by (simp add: list_map_rel_def)
qed

lemma list_map_append:
  assumes "list_map_rel key val xs m" "m (key x) = None"
  shows "list_map_rel key val (xs @ [x]) (m(key x \<mapsto> val x))"
proof -
  have n: "map_of (map (\<lambda>x. (key x, val x)) xs) (key x) = None" using assms by (simp add: list_map_rel_def)
  then have "key x \<notin> key ` set xs" by (simp add: map_of_eq_None_iff image_image)
  then show ?thesis using assms(1) n by (auto simp: list_map_rel_def map_add_def fun_eq_iff split: option.split)
qed

lemma list_map_update:
  assumes "list_map_rel key val xs m" "first_idx (\<lambda>x. key x = k) xs = Some i" "key x = k"
  shows "list_map_rel key val (xs[i := x]) (m(k \<mapsto> val x))"
proof -
  have "map key (xs[i := x]) = map key xs" using first_idx_SomeD [OF assms(2)] assms(3) by (simp add: map_update list_update_same_conv)
  then show ?thesis using assms first_idx_update [OF assms(2,3), of val] unfolding list_map_rel_def by metis
qed

lemma list_map_delete:
  assumes "list_map_rel key val xs m" "first_idx (\<lambda>x. key x = k) xs = Some i"
  shows "list_map_rel key val (take i xs @ drop (Suc i) xs) (m(k := None))"
proof -
  note i = first_idx_SomeD [OF assms(2)]
  have xs: "xs = take i xs @ xs ! i # drop (Suc i) xs" using i by (simp add: id_take_nth_drop)
  let ?ys = "take i xs" and ?zs = "drop (Suc i) xs"
  have d: "distinct (map key (?ys @ xs ! i # ?zs))" using assms(1) xs by (simp add: list_map_rel_def)
  have m: "m = map_of (map (\<lambda>x. (key x, val x)) (?ys @ xs ! i # ?zs))" using assms(1) xs by (simp add: list_map_rel_def)
  have k: "k \<notin> key ` set (?ys @ ?zs)" using d i by auto
  then have "map_of (map (\<lambda>x. (key x, val x)) (?ys @ ?zs)) k = None" by (simp add: map_of_eq_None_iff image_image image_Un)
  then have "map_of (map (\<lambda>x. (key x, val x)) (?ys @ ?zs)) = m(k := None)"
    using i unfolding m by (auto simp: fun_eq_iff map_add_def split: option.splits)
  then show ?thesis using d by (auto simp: list_map_rel_def)
qed

section \<open>The contract of a table\<close>

datatype ('a, 'k) slot_op = SlotAdd 'a | SlotRemove 'k

text \<open>
  \<open>add\<close> takes the arguments that the source initialises a slot from (\<open>mk\<close> of them is the new
  entry) and is None when the call is refused, \<open>remove\<close> is None when no entry has the key.
\<close>

locale slot_store =
  fixes inv :: "'s \<Rightarrow> bool"
    and live :: "'s \<Rightarrow> 'v multiset"
    and cap :: "'s \<Rightarrow> nat"
    and key :: "'v \<Rightarrow> 'k"
    and mk :: "'a \<Rightarrow> 'v"
    and add :: "'s \<Rightarrow> 'a \<Rightarrow> 's option"
    and remove :: "'s \<Rightarrow> 'k \<Rightarrow> 's option"
    and lookup :: "'s \<Rightarrow> 'k \<Rightarrow> 'v option"
  assumes cap_live: "inv s \<Longrightarrow> size (live s) \<le> cap s"
    and add_full: "inv s \<Longrightarrow> size (live s) = cap s \<Longrightarrow> add s a = None"
    and add_Some: "inv s \<Longrightarrow> add s a = Some s' \<Longrightarrow> inv s' \<and> cap s' = cap s \<and> live s' = add_mset (mk a) (live s)"
    and remove_None: "inv s \<Longrightarrow> remove s k = None \<longleftrightarrow> k \<notin> key ` set_mset (live s)"
    and remove_Some: "inv s \<Longrightarrow> remove s k = Some s' \<Longrightarrow>
      inv s' \<and> cap s' = cap s \<and> (\<exists>v. key v = k \<and> live s = add_mset v (live s'))"
    and lookup_None: "inv s \<Longrightarrow> lookup s k = None \<longleftrightarrow> k \<notin> key ` set_mset (live s)"
    and lookup_Some: "inv s \<Longrightarrow> lookup s k = Some v \<Longrightarrow> v \<in># live s \<and> key v = k"
begin

definition dkeys :: "'v multiset \<Rightarrow> bool" where
  "dkeys M \<longleftrightarrow> (\<forall>k. size (filter_mset (\<lambda>v. key v = k) M) \<le> 1)"

abbreviation distinct_keys :: "'s \<Rightarrow> bool" where
  "distinct_keys s \<equiv> dkeys (live s)"

lemma dkeys_empty [simp]: "dkeys {#}"
  by (simp add: dkeys_def)

lemma dkeys_add_mset: "dkeys (add_mset v M) \<longleftrightarrow> key v \<notin> key ` set_mset M \<and> dkeys M"
proof
  assume a: "dkeys (add_mset v M)"
  have "size (filter_mset (\<lambda>w. key w = key v) (add_mset v M)) \<le> 1" using a by (simp only: dkeys_def)
  then have "filter_mset (\<lambda>w. key w = key v) M = {#}" by simp
  then have "key v \<notin> key ` set_mset M" by (auto simp: filter_mset_eq_conv)
  moreover have "size (filter_mset (\<lambda>w. key w = k) M) \<le> 1" for k
  proof -
    have "size (filter_mset (\<lambda>w. key w = k) M) \<le> size (filter_mset (\<lambda>w. key w = k) (add_mset v M))" by simp
    then show ?thesis using a unfolding dkeys_def by (meson le_trans)
  qed
  ultimately show "key v \<notin> key ` set_mset M \<and> dkeys M" by (simp add: dkeys_def)
next
  assume a: "key v \<notin> key ` set_mset M \<and> dkeys M"
  then have e: "filter_mset (\<lambda>w. key w = key v) M = {#}" by (auto simp: filter_mset_eq_conv image_iff)
  have "size (filter_mset (\<lambda>w. key w = k) (add_mset v M)) \<le> 1" for k
  proof (cases "k = key v")
    case True
    then have "filter_mset (\<lambda>w. key w = k) (add_mset v M) = {#v#}"
      by (simp only: filter_mset_add_mset e if_True refl simp_thms)
    then show ?thesis by simp
  next
    case False
    then show ?thesis using a by (simp add: dkeys_def)
  qed
  then show "dkeys (add_mset v M)" unfolding dkeys_def by blast
qed

lemma dkeys_eq: "dkeys M \<Longrightarrow> v \<in># M \<Longrightarrow> w \<in># M \<Longrightarrow> key v = key w \<Longrightarrow> v = w"
proof (induction M)
  case (add x M)
  have "key v \<in> key ` set_mset M" if "v \<in># M" for v using that by simp
  with add show ?case by (auto simp: dkeys_add_mset) (metis imageI)+
qed simp

lemma lookup_live: "inv s \<Longrightarrow> distinct_keys s \<Longrightarrow> v \<in># live s \<Longrightarrow> lookup s (key v) = Some v"
proof -
  assume a: "inv s" "distinct_keys s" "v \<in># live s"
  then obtain w where w: "lookup s (key v) = Some w"
    using lookup_None [of s "key v"] by (cases "lookup s (key v)") auto
  from lookup_Some [OF a(1) w] dkeys_eq [OF a(2) _ a(3)] w show ?thesis by auto
qed

lemma lookup_eqI:
  "inv s \<Longrightarrow> distinct_keys s \<Longrightarrow> inv s' \<Longrightarrow> distinct_keys s' \<Longrightarrow>
   (\<And>v. key v = k \<Longrightarrow> v \<in># live s \<longleftrightarrow> v \<in># live s') \<Longrightarrow> lookup s k = lookup s' k"
proof -
  assume a: "inv s" "distinct_keys s" "inv s'" "distinct_keys s'"
    and e: "\<And>v. key v = k \<Longrightarrow> v \<in># live s \<longleftrightarrow> v \<in># live s'"
  show ?thesis
  proof (cases "lookup s k")
    case None
    then have "lookup s' k = None" using e lookup_None [OF a(1)] lookup_None [OF a(3)] by fastforce
    with None show ?thesis by simp
  next
    case (Some v)
    then have "v \<in># live s'" "key v = k" using lookup_Some [OF a(1)] e by auto
    with lookup_live [OF a(3,4)] Some show ?thesis by auto
  qed
qed

text \<open>Under distinct keys \<open>lookup\<close> is a map that the operations update pointwise.\<close>

lemma add_distinct:
  assumes "inv s" and "distinct_keys s" and "add s a = Some s'" and "lookup s (key (mk a)) = None"
  shows "distinct_keys s' \<and> lookup s' = (lookup s)(key (mk a) \<mapsto> mk a)"
proof
  note l = add_Some [OF assms(1,3)]
  have n: "key (mk a) \<notin> key ` set_mset (live s)"
    using assms(4) lookup_None [OF assms(1)] by simp
  show d: "distinct_keys s'"
    using assms(2) n l by (simp add: dkeys_add_mset)
  show "lookup s' = (lookup s)(key (mk a) \<mapsto> mk a)"
  proof
    fix k
    show "lookup s' k = ((lookup s)(key (mk a) \<mapsto> mk a)) k"
    proof (cases "k = key (mk a)")
      case True
      then show ?thesis using lookup_live [of s' "mk a"] l d by simp
    next
      case False
      then have "lookup s k = lookup s' k" using assms(1,2) l d by (intro lookup_eqI) auto
      with False show ?thesis by simp
    qed
  qed
qed

lemma remove_distinct:
  assumes "inv s" and "distinct_keys s" and "remove s k = Some s'"
  shows "distinct_keys s' \<and> lookup s' = (lookup s)(k := None)"
proof
  from remove_Some [OF assms(1,3)] obtain v where l: "inv s'" "key v = k" "live s = add_mset v (live s')" by auto
  have m: "key v \<notin> key ` set_mset (live s')" "distinct_keys s'"
    using assms(2) unfolding l(3) dkeys_add_mset by auto
  then show d: "distinct_keys s'" by simp
  show "lookup s' = (lookup s)(k := None)"
  proof
    fix j
    show "lookup s' j = ((lookup s)(k := None)) j"
    proof (cases "j = k")
      case True
      have "k \<notin> key ` set_mset (live s')" using m l(2) by simp
      with True show ?thesis using lookup_None [OF l(1)] by simp
    next
      case False
      then have "lookup s j = lookup s' j" using assms(1,2) l d by (intro lookup_eqI) auto
      with False show ?thesis by simp
    qed
  qed
qed

lemma replace_distinct:
  assumes "inv s" and "distinct_keys s" and "inv s'"
    and "live s = add_mset v M" and "live s' = add_mset w M" and "key w = key v"
  shows "distinct_keys s' \<and> lookup s' = (lookup s)(key v \<mapsto> w)"
proof
  show d: "distinct_keys s'" using assms(2) by (simp add: assms(4-6) dkeys_add_mset)
  show "lookup s' = (lookup s)(key v \<mapsto> w)"
  proof
    fix j
    show "lookup s' j = ((lookup s)(key v \<mapsto> w)) j"
    proof (cases "j = key v")
      case True
      then show ?thesis using lookup_live [OF assms(3) d, of w] assms(5,6) by simp
    next
      case False
      then have "lookup s j = lookup s' j" using assms d by (intro lookup_eqI) auto
      with False show ?thesis by simp
    qed
  qed
qed

lemma dom_lookup: "inv s \<Longrightarrow> dom (lookup s) = key ` set_mset (live s)"
  using lookup_None [of s] by (auto simp: dom_def simp flip: not_None_eq) 

lemma card_dkeys: "dkeys M \<Longrightarrow> card (key ` set_mset M) = size M"
  by (induction M) (auto simp: dkeys_add_mset)

lemma dkeys_filter: "dkeys M \<Longrightarrow> dkeys (filter_mset P M)"
proof (induction M)
  case (add x M)
  then show ?case by (auto simp: dkeys_add_mset)
qed simp

lemma card_dom_lookup: "inv s \<Longrightarrow> distinct_keys s \<Longrightarrow> card (dom (lookup s)) = size (live s)"
  by (simp add: dom_lookup card_dkeys)

lemma card_lookup_filter:
  assumes "inv s" and "distinct_keys s"
  shows "card {k. \<exists>v. lookup s k = Some v \<and> P v} = size (filter_mset P (live s))"
proof -
  have "{k. \<exists>v. lookup s k = Some v \<and> P v} = key ` set_mset (filter_mset P (live s))"
    using lookup_live [OF assms] lookup_Some [OF assms(1)] by force
  then show ?thesis using card_dkeys [OF dkeys_filter [OF assms(2)]] by simp
qed

text \<open>A history of calls, refused ones included.\<close>

fun store_step :: "('a, 'k) slot_op \<Rightarrow> 's \<Rightarrow> 's" where
  "store_step (SlotAdd a) s = (case add s a of None \<Rightarrow> s | Some s' \<Rightarrow> s')"
| "store_step (SlotRemove k) s = (case remove s k of None \<Rightarrow> s | Some s' \<Rightarrow> s')"

lemma store_step_remove:
  assumes "inv s" and "distinct_keys s"
  shows "inv (store_step (SlotRemove k) s) \<and> distinct_keys (store_step (SlotRemove k) s)
    \<and> cap (store_step (SlotRemove k) s) = cap s \<and> lookup (store_step (SlotRemove k) s) = (lookup s)(k := None)"
proof (cases "remove s k")
  case None
  then have "lookup s k = None" using remove_None [OF assms(1)] lookup_None [OF assms(1)] by simp
  with None assms show ?thesis by (simp add: fun_upd_idem)
next
  case (Some s')
  then show ?thesis using remove_distinct [OF assms Some] remove_Some [OF assms(1) Some] by auto
qed

lemma store_inv_step: "inv s \<Longrightarrow> inv (store_step op s) \<and> cap (store_step op s) = cap s"
proof (cases op)
  case (SlotAdd a)
  then show "inv s \<Longrightarrow> ?thesis" using add_Some [of s a] by (cases "add s a") simp_all
next
  case (SlotRemove k)
  then show "inv s \<Longrightarrow> ?thesis" using remove_Some [of s k] by (cases "remove s k") simp_all
qed

lemma store_inv_run: "inv s \<Longrightarrow> inv (fold store_step ops s) \<and> cap (fold store_step ops s) = cap s"
  by (induction ops arbitrary: s) (use store_inv_step in auto)

end

text \<open>A table whose \<open>add\<close> looks at nothing but the room: what callers get when they add keys that are not
  present.\<close>

locale multi_store = slot_store inv live cap key mk add remove lookup
  for inv :: "'s \<Rightarrow> bool" and live :: "'s \<Rightarrow> 'v multiset" and cap :: "'s \<Rightarrow> nat" and key :: "'v \<Rightarrow> 'k"
    and mk :: "'a \<Rightarrow> 'v" and add :: "'s \<Rightarrow> 'a \<Rightarrow> 's option" and remove :: "'s \<Rightarrow> 'k \<Rightarrow> 's option"
    and lookup :: "'s \<Rightarrow> 'k \<Rightarrow> 'v option" +
  fixes ok :: "'a \<Rightarrow> bool"
  assumes add_room: "inv s \<Longrightarrow> size (live s) < cap s \<Longrightarrow> ok a \<Longrightarrow> add s a \<noteq> None"
begin

fun op_ok :: "('a, 'k) slot_op \<Rightarrow> bool" where
  "op_ok (SlotAdd a) = ok a"
| "op_ok (SlotRemove k) = True"

text \<open>The map that a history leaves, None when it adds a key that is present.\<close>

fun map_spec :: "nat \<Rightarrow> ('k \<rightharpoonup> 'v) \<Rightarrow> ('a, 'k) slot_op list \<Rightarrow> ('k \<rightharpoonup> 'v) option" where
  "map_spec n m [] = Some m"
| "map_spec n m (SlotAdd a # ops) =
     (if m (key (mk a)) \<noteq> None then None
      else map_spec n (if card (dom m) < n then m(key (mk a) \<mapsto> mk a) else m) ops)"
| "map_spec n m (SlotRemove k # ops) = map_spec n (m(k := None)) ops"

lemma run_refines:
  assumes "inv s" and "distinct_keys s" and "map_spec (cap s) (lookup s) ops = Some m"
    and "\<forall>op \<in> set ops. op_ok op"
  shows "inv (fold store_step ops s) \<and> lookup (fold store_step ops s) = m
    \<and> size (live (fold store_step ops s)) = card (dom m)"
  using assms
proof (induction ops arbitrary: s)
  case Nil
  then show ?case using card_dom_lookup by auto
next
  case (Cons op ops)
  show ?case
  proof (cases op)
    case (SlotAdd a)
    with Cons.prems(3) have fresh: "lookup s (key (mk a)) = None"
      and m: "map_spec (cap s) (if card (dom (lookup s)) < cap s then (lookup s)(key (mk a) \<mapsto> mk a) else lookup s) ops = Some m"
      by (simp_all split: if_splits)
    note size = card_dom_lookup [OF Cons.prems(1,2)]
    show ?thesis
    proof (cases "add s a")
      case None
      then have "\<not> card (dom (lookup s)) < cap s" using add_room [OF Cons.prems(1), of a] size Cons.prems(4) SlotAdd by auto
      with Cons.IH [OF Cons.prems(1,2)] Cons.prems(4) m None SlotAdd show ?thesis by simp
    next
      case (Some s')
      have "card (dom (lookup s)) < cap s"
        using add_full [OF Cons.prems(1), of a] Some cap_live [OF Cons.prems(1)] size
        by (cases "size (live s) = cap s") auto
      then have m': "map_spec (cap s) ((lookup s)(key (mk a) \<mapsto> mk a)) ops = Some m" using m by simp
      note d = add_distinct [OF Cons.prems(1,2) Some fresh] add_Some [OF Cons.prems(1) Some]
      have "map_spec (cap s') (lookup s') ops = Some m" using m' d by simp
      from Cons.IH [OF _ _ this] d Cons.prems(4) show ?thesis using Some SlotAdd by simp
    qed
  next
    case (SlotRemove k)
    note r = store_step_remove [OF Cons.prems(1,2), of k]
    have "map_spec (cap (store_step op s)) (lookup (store_step op s)) ops = Some m"
      using r Cons.prems(3) by (simp only: SlotRemove map_spec.simps)
    from Cons.IH [OF _ _ this] r Cons.prems(4) show ?thesis
      unfolding SlotRemove fold_Cons comp_def by simp
  qed
qed

end

text \<open>A table whose \<open>add\<close> refuses a key that is present: its keys stay distinct.\<close>

locale unique_store = slot_store inv live cap key mk add remove lookup
  for inv :: "'s \<Rightarrow> bool" and live :: "'s \<Rightarrow> 'v multiset" and cap :: "'s \<Rightarrow> nat" and key :: "'v \<Rightarrow> 'k"
    and mk :: "'a \<Rightarrow> 'v" and add :: "'s \<Rightarrow> 'a \<Rightarrow> 's option" and remove :: "'s \<Rightarrow> 'k \<Rightarrow> 's option"
    and lookup :: "'s \<Rightarrow> 'k \<Rightarrow> 'v option" +
  fixes ok :: "'a \<Rightarrow> bool"
  assumes add_dup: "inv s \<Longrightarrow> ok a \<Longrightarrow> key (mk a) \<in> key ` set_mset (live s) \<Longrightarrow> add s a = None"
    and add_room: "inv s \<Longrightarrow> ok a \<Longrightarrow> size (live s) < cap s \<Longrightarrow> key (mk a) \<notin> key ` set_mset (live s) \<Longrightarrow> add s a \<noteq> None"
begin

fun op_ok :: "('a, 'k) slot_op \<Rightarrow> bool" where
  "op_ok (SlotAdd a) = ok a"
| "op_ok (SlotRemove k) = True"

fun map_step :: "nat \<Rightarrow> ('a, 'k) slot_op \<Rightarrow> ('k \<rightharpoonup> 'v) \<Rightarrow> ('k \<rightharpoonup> 'v)" where
  "map_step n (SlotAdd a) m = (if card (dom m) < n \<and> m (key (mk a)) = None then m(key (mk a) \<mapsto> mk a) else m)"
| "map_step n (SlotRemove k) m = m(k := None)"

lemma step_refines:
  assumes "inv s" and "distinct_keys s" and "op_ok op"
  shows "inv (store_step op s) \<and> distinct_keys (store_step op s) \<and> cap (store_step op s) = cap s
    \<and> lookup (store_step op s) = map_step (cap s) op (lookup s)"
proof (cases op)
  case (SlotAdd a)
  then have ok: "ok a" using assms(3) by simp
  show ?thesis
  proof (cases "add s a")
    case None
    then have "size (live s) = cap s \<or> key (mk a) \<in> key ` set_mset (live s)"
      using add_room [OF assms(1) ok] cap_live [OF assms(1)] by fastforce
    then have "\<not> card (dom (lookup s)) < cap s \<or> lookup s (key (mk a)) \<noteq> None"
      using card_dom_lookup [OF assms(1,2)] lookup_None [OF assms(1)] by auto
    with None assms SlotAdd show ?thesis by auto
  next
    case (Some s')
    have fresh: "lookup s (key (mk a)) = None"
      using add_dup [OF assms(1) ok] Some lookup_None [OF assms(1)] by auto
    moreover have "card (dom (lookup s)) < cap s"
      using add_full [OF assms(1), of a] Some cap_live [OF assms(1)] card_dom_lookup [OF assms(1,2)]
      by (cases "size (live s) = cap s") auto
    ultimately show ?thesis using Some add_distinct [OF assms(1,2) Some fresh] add_Some [OF assms(1) Some] SlotAdd
      by simp
  qed
next
  case (SlotRemove k)
  then show ?thesis using store_step_remove [OF assms(1,2), of k] by simp
qed

lemma run_refines:
  assumes "inv s" and "distinct_keys s" and "\<forall>op \<in> set ops. op_ok op"
  shows "inv (fold store_step ops s) \<and> distinct_keys (fold store_step ops s)
    \<and> cap (fold store_step ops s) = cap s \<and> lookup (fold store_step ops s) = fold (map_step (cap s)) ops (lookup s)"
  using assms
proof (induction ops arbitrary: s)
  case (Cons op ops)
  then show ?case using step_refines [OF Cons.prems(1,2), of op] by auto
qed simp

end

end
