(* ===== verification/Session_Limit.thy ===== *)
theory Session_Limit
  imports Slots
begin

text \<open>
  The session limiter of \<^verbatim>\<open>src/src/session_limit\<close>: entries (\<^verbatim>\<open>sl_entry.c\<close>), the table with its cap
  (\<^verbatim>\<open>sl_table.c\<close>) and the counters (\<^verbatim>\<open>sl_stats.c\<close>).  A pointer to an entry of the table is the index
  of its slot.
\<close>

section \<open>Entries\<close>

definition SL_IP_MAX :: nat where "SL_IP_MAX = 48"
definition SL_MAX_SLOTS :: nat where "SL_MAX_SLOTS = 32"

datatype sl_state = SL_CONNECTING | SL_ACTIVE | SL_CLOSING

record sl_entry =
  sle_session_id :: u64
  sle_remote_ip :: string
  sle_start_us :: u64
  sle_state :: sl_state
  sle_in_use :: bool

definition sl_zero_entry :: sl_entry where
  "sl_zero_entry = \<lparr>sle_session_id = 0, sle_remote_ip = [], sle_start_us = 0, sle_state = SL_CONNECTING,
     sle_in_use = False\<rparr>"

definition sl_new_entry :: "u64 \<Rightarrow> string option \<Rightarrow> u64 \<Rightarrow> sl_entry" where
  "sl_new_entry session_id remote_ip start_us =
     \<lparr>sle_session_id = session_id,
      sle_remote_ip = (case remote_ip of None \<Rightarrow> [] | Some ip \<Rightarrow> cstr_fit SL_IP_MAX ip),
      sle_start_us = start_us, sle_state = SL_CONNECTING, sle_in_use = True\<rparr>"

fun sl_entry_init :: "sl_entry option \<Rightarrow> u64 \<Rightarrow> string option \<Rightarrow> u64 \<Rightarrow> int \<times> sl_entry option" where
  "sl_entry_init None session_id remote_ip start_us = (-1, None)"
| "sl_entry_init (Some e) session_id remote_ip start_us = (0, Some (sl_new_entry session_id remote_ip start_us))"

fun sl_state_name :: "sl_state \<Rightarrow> string" where
  "sl_state_name SL_CONNECTING = ''CONNECTING''"
| "sl_state_name SL_ACTIVE = ''ACTIVE''"
| "sl_state_name SL_CLOSING = ''CLOSING''"

section \<open>The table\<close>

record sl_table =
  slt_entries :: "sl_entry list"
  slt_max_sessions :: nat
  slt_count :: nat

definition sl_table_create :: "bool \<Rightarrow> int \<Rightarrow> sl_table option" where
  "sl_table_create mem max_sessions =
     (if max_sessions < 1 \<or> max_sessions > int SL_MAX_SLOTS then None
      else if \<not> mem then None
      else Some \<lparr>slt_entries = replicate SL_MAX_SLOTS sl_zero_entry, slt_max_sessions = nat max_sessions,
                 slt_count = 0\<rparr>)"

definition sl_table_count :: "sl_table option \<Rightarrow> nat" where
  "sl_table_count t = (case t of None \<Rightarrow> 0 | Some t \<Rightarrow> slt_count t)"

definition sl_find_slot :: "sl_table \<Rightarrow> u64 \<Rightarrow> nat option" where
  "sl_find_slot t session_id = slot_find sle_in_use (\<lambda>e k. sle_session_id e = k) (slt_entries t) session_id"

fun sl_table_add :: "sl_table option \<Rightarrow> u64 \<Rightarrow> string option \<Rightarrow> u64 \<Rightarrow> nat option \<times> sl_table option" where
  "sl_table_add None session_id remote_ip start_us = (None, None)"
| "sl_table_add (Some t) session_id remote_ip start_us =
     (if slt_count t \<ge> slt_max_sessions t then (None, Some t)
      else case slot_free sle_in_use (slt_entries t) of
        None \<Rightarrow> (None, Some t)
      | Some i \<Rightarrow> (Some i, Some (t\<lparr>slt_entries :=
            (slt_entries t)[i := the (snd (sl_entry_init (Some (slt_entries t ! i)) session_id remote_ip start_us))],
            slt_count := slt_count t + 1\<rparr>)))"

fun sl_table_remove :: "sl_table option \<Rightarrow> u64 \<Rightarrow> int \<times> sl_table option" where
  "sl_table_remove None session_id = (-1, None)"
| "sl_table_remove (Some t) session_id =
     (case sl_find_slot t session_id of
        None \<Rightarrow> (-1, Some t)
      | Some slot \<Rightarrow> (0, Some (t\<lparr>slt_entries := (slt_entries t)[slot := sl_zero_entry],
                                 slt_count := slt_count t - 1\<rparr>)))"

fun sl_table_get :: "sl_table option \<Rightarrow> u64 \<Rightarrow> nat option" where
  "sl_table_get None session_id = None"
| "sl_table_get (Some t) session_id = sl_find_slot t session_id"

text \<open>The callback may change its entry and the data behind \<open>user\<close>.\<close>

fun sl_table_foreach :: "sl_table option \<Rightarrow> (sl_entry \<Rightarrow> 'u \<Rightarrow> sl_entry \<times> 'u) option \<Rightarrow> 'u \<Rightarrow> sl_table option \<times> 'u" where
  "sl_table_foreach (Some t) (Some cb) user =
     (case slot_foreach sle_in_use cb (slt_entries t) user of
        (es, user') \<Rightarrow> (Some (t\<lparr>slt_entries := es\<rparr>), user'))"
| "sl_table_foreach t cb user = (t, user)"

section \<open>The table as a store of sessions\<close>

definition sl_inv :: "sl_table \<Rightarrow> bool" where
  "sl_inv t \<longleftrightarrow> length (slt_entries t) = SL_MAX_SLOTS \<and> slt_max_sessions t \<le> SL_MAX_SLOTS
     \<and> slt_count t = size (slot_live sle_in_use (slt_entries t)) \<and> slt_count t \<le> slt_max_sessions t"

definition sl_live :: "sl_table \<Rightarrow> sl_entry multiset" where
  "sl_live t = slot_live sle_in_use (slt_entries t)"

definition sl_mk :: "u64 \<times> string option \<times> u64 \<Rightarrow> sl_entry" where
  "sl_mk a = (case a of (i, ip, us) \<Rightarrow> sl_new_entry i ip us)"

definition sl_add :: "sl_table \<Rightarrow> u64 \<times> string option \<times> u64 \<Rightarrow> sl_table option" where
  "sl_add t a = (case a of (i, ip, us) \<Rightarrow> case sl_table_add (Some t) i ip us of (p, t') \<Rightarrow> if p = None then None else t')"

definition sl_remove :: "sl_table \<Rightarrow> u64 \<Rightarrow> sl_table option" where
  "sl_remove t i = (case sl_table_remove (Some t) i of (r, t') \<Rightarrow> if r = 0 then t' else None)"

definition sl_lookup :: "sl_table \<Rightarrow> u64 \<Rightarrow> sl_entry option" where
  "sl_lookup t i = map_option ((!) (slt_entries t)) (sl_table_get (Some t) i)"

lemmas sl_ops = sl_add_def sl_remove_def sl_lookup_def sl_find_slot_def

lemma sl_new_in_use [simp]: "sle_in_use (sl_new_entry i ip us)" "\<not> sle_in_use sl_zero_entry"
    "sle_session_id (sl_new_entry i ip us) = i"
  by (simp_all add: sl_new_entry_def sl_zero_entry_def)

interpretation sl: multi_store sl_inv sl_live slt_max_sessions sle_session_id sl_mk sl_add sl_remove sl_lookup "\<lambda>_. True"
proof (unfold_locales, goal_cases)
  case (1 s) then show ?case by (simp add: sl_inv_def sl_live_def)
next
  case (2 s a) then show ?case by (auto simp: sl_inv_def sl_live_def sl_ops split: prod.splits)
next
  case (3 s a s')
  then show ?case
    by (auto simp: sl_inv_def sl_live_def sl_ops sl_mk_def slot_simps split: prod.splits option.splits if_splits)
next
  case (4 s k) then show ?case
    by (auto simp: sl_live_def sl_ops slot_simps split: option.splits) (fastforce dest: slot_findD)+
next
  case (5 s k s')
  then obtain i where i: "sl_find_slot s k = Some i" by (auto simp: sl_ops split: option.splits)
  note f = slot_findD [OF i [unfolded sl_find_slot_def]]
  have "s' = s\<lparr>slt_entries := (slt_entries s)[i := sl_zero_entry], slt_count := slt_count s - 1\<rparr>"
    using 5 i by (simp add: sl_remove_def)
  with 5 f slot_live_clear [OF i [unfolded sl_find_slot_def], of sl_zero_entry] show ?case
    by (auto simp: sl_inv_def sl_live_def)
next
  case (6 s k) then show ?case
    by (auto simp: sl_live_def sl_ops slot_simps)
next
  case (7 s k v) then show ?case by (auto simp: sl_live_def sl_ops dest: slot_findD)
next
  case (8 s a)
  then have "slot_free sle_in_use (slt_entries s) \<noteq> None"
    by (simp add: slot_simps sl_inv_def sl_live_def)
  with 8 show ?case by (auto simp: sl_inv_def sl_live_def sl_ops split: prod.splits)
qed

lemma sl_op_ok: "sl.op_ok op"
  by (cases op) simp_all

text \<open>The calls of the source, one after the other.\<close>

fun sl_call :: "(u64 \<times> string option \<times> u64, u64) slot_op \<Rightarrow> sl_table option \<Rightarrow> sl_table option" where
  "sl_call (SlotAdd (i, ip, us)) t = snd (sl_table_add t i ip us)"
| "sl_call (SlotRemove i) t = snd (sl_table_remove t i)"

lemma sl_call_step: "sl_call op (Some t) = Some (sl.store_step op t)"
  by (cases op) (auto simp: sl_add_def sl_remove_def Let_def split: prod.splits option.splits)

lemma sl_calls: "fold sl_call ops (Some t) = Some (fold sl.store_step ops t)"
  by (induction ops arbitrary: t) (simp_all add: sl_call_step del: sl_call.simps)

text \<open>After any adds and removes, the limiter holds exactly the sessions of the abstract map in which an
  add below the cap stores the new session and an add at the cap does nothing, provided no session id is
  added while it is present; lookups by id find that session, and the count is the size of the map, never
  above the cap.\<close>

theorem session_limit_refines_map:
  assumes "sl_table_create True max_sessions = Some t0"
    and "sl.map_spec (nat max_sessions) Map.empty ops = Some m"
  shows "\<exists>t. fold sl_call ops (Some t0) = Some t
    \<and> (\<forall>i. map_option ((!) (slt_entries t)) (sl_table_get (Some t) i) = m i)
    \<and> sl_table_count (Some t) = card (dom m) \<and> int (card (dom m)) \<le> max_sessions"
proof -
  have t: "slt_max_sessions t0 = nat max_sessions" "1 \<le> max_sessions" "sl_inv t0" "sl_live t0 = {#}"
    using assms(1) by (auto simp: sl_table_create_def sl_inv_def sl_live_def split: if_splits)
  then have l: "sl_lookup t0 = Map.empty" using sl.lookup_None [of t0] by (intro ext) simp
  let ?t = "fold sl.store_step ops t0"
  have r: "sl_inv ?t \<and> sl_lookup ?t = m \<and> size (sl_live ?t) = card (dom m)"
    using sl.run_refines [of t0 ops m] t l assms(2) sl_op_ok by simp
  moreover have "slt_max_sessions ?t = nat max_sessions" using sl.store_inv_run [of t0 ops] t by simp
  ultimately show ?thesis using t(2)
    by (intro exI [of _ ?t]) (auto simp: sl_calls sl_table_count_def sl_inv_def sl_live_def sl_lookup_def simp del: sl_table_get.simps)
qed

lemma session_limit_refines_map_witness:
  "\<exists>t. fold sl_call [SlotAdd (7, None, 5), SlotAdd (8, Some ''::1'', 6), SlotRemove 7] (sl_table_create True 1) = Some t
    \<and> sl_table_count (Some t) = 0"
proof -
  obtain t0 where t0: "sl_table_create True 1 = Some t0" by (simp add: sl_table_create_def SL_MAX_SLOTS_def)
  have "sl.map_spec (nat 1) Map.empty [SlotAdd (7, None, 5), SlotAdd (8, Some ''::1'', 6), SlotRemove 7]
      = Some Map.empty"
    by (simp add: sl_mk_def fun_eq_iff)
  from session_limit_refines_map [OF t0 this] show ?thesis by (auto simp: t0)
qed

section \<open>Statistics\<close>

record sl_stats =
  sls_total_admitted :: u32
  sls_total_rejected :: u32
  sls_peak_count :: u32
  sls_eviction_count :: u32

definition sl_stats_zero :: sl_stats where
  "sl_stats_zero = \<lparr>sls_total_admitted = 0, sls_total_rejected = 0, sls_peak_count = 0, sls_eviction_count = 0\<rparr>"

definition sl_stats_create :: "bool \<Rightarrow> sl_stats option" where
  "sl_stats_create mem = (if mem then Some sl_stats_zero else None)"

definition sl_stats_reset :: "sl_stats option \<Rightarrow> sl_stats option" where
  "sl_stats_reset st = map_option (\<lambda>_. sl_stats_zero) st"

fun sl_stats_record_admit :: "sl_stats option \<Rightarrow> int \<Rightarrow> int \<times> sl_stats option" where
  "sl_stats_record_admit None current_count = (-1, None)"
| "sl_stats_record_admit (Some st) current_count =
     (0, Some (st\<lparr>sls_total_admitted := sls_total_admitted st + 1,
        sls_peak_count := (if of_int current_count > sls_peak_count st then of_int current_count
                           else sls_peak_count st)\<rparr>))"

fun sl_stats_record_reject :: "sl_stats option \<Rightarrow> int \<times> sl_stats option" where
  "sl_stats_record_reject None = (-1, None)"
| "sl_stats_record_reject (Some st) = (0, Some (st\<lparr>sls_total_rejected := sls_total_rejected st + 1\<rparr>))"

fun sl_stats_record_eviction :: "sl_stats option \<Rightarrow> int \<times> sl_stats option" where
  "sl_stats_record_eviction None = (-1, None)"
| "sl_stats_record_eviction (Some st) = (0, Some (st\<lparr>sls_eviction_count := sls_eviction_count st + 1\<rparr>))"

fun sl_stats_snapshot :: "sl_stats option \<Rightarrow> sl_stats option \<Rightarrow> int \<times> sl_stats option" where
  "sl_stats_snapshot (Some st) (Some out) = (0, Some st)"
| "sl_stats_snapshot _ out = (-1, out)"

end
