(* ===== verification/Retry_Mgr.thy ===== *)
theory Retry_Mgr
  imports Slots
begin

text \<open>
  The retry manager of \<^verbatim>\<open>src/src/retry_mgr\<close>: entries with their exponential back-off
  (\<^verbatim>\<open>rm_entry.c\<close>), the table and its timer (\<^verbatim>\<open>rm_table.c\<close>), the counters (\<^verbatim>\<open>rm_stats.c\<close>).  The
  callback of the timer is a function of the slot and of the whole table, since it may call the
  operations of the table again.
\<close>

section \<open>Entries\<close>

definition RM_MAX_BACKOFF_US :: u64 where "RM_MAX_BACKOFF_US = 30000000"
definition RM_MAX_SLOTS :: nat where "RM_MAX_SLOTS = 32"

record rm_entry =
  rme_request_id :: u64
  rme_attempt_count :: u32
  rme_max_attempts :: u32
  rme_base_delay_us :: u64
  rme_next_retry_us :: u64
  rme_in_use :: bool

definition rm_zero_entry :: rm_entry where
  "rm_zero_entry = \<lparr>rme_request_id = 0, rme_attempt_count = 0, rme_max_attempts = 0, rme_base_delay_us = 0,
     rme_next_retry_us = 0, rme_in_use = False\<rparr>"

definition rm_new_entry :: "u64 \<Rightarrow> u64 \<Rightarrow> u64 \<Rightarrow> u32 \<Rightarrow> rm_entry" where
  "rm_new_entry request_id now_us base_delay_us max_attempts =
     \<lparr>rme_request_id = request_id, rme_attempt_count = 0, rme_max_attempts = max_attempts,
      rme_base_delay_us = base_delay_us, rme_next_retry_us = now_us + base_delay_us, rme_in_use = True\<rparr>"

fun rm_entry_init :: "rm_entry option \<Rightarrow> u64 \<Rightarrow> u64 \<Rightarrow> u64 \<Rightarrow> u32 \<Rightarrow> int \<times> rm_entry option" where
  "rm_entry_init None request_id now_us base_delay_us max_attempts = (-1, None)"
| "rm_entry_init (Some e) request_id now_us base_delay_us max_attempts =
     (if max_attempts = 0 then (-1, Some e)
      else (0, Some (rm_new_entry request_id now_us base_delay_us max_attempts)))"

definition rm_entry_is_due :: "rm_entry option \<Rightarrow> u64 \<Rightarrow> bool" where
  "rm_entry_is_due e now_us = (case e of None \<Rightarrow> False
     | Some e \<Rightarrow> if \<not> rme_in_use e then False else now_us \<ge> rme_next_retry_us e)"

text \<open>The doubling loop, its number of rounds first.\<close>

fun rm_backoff :: "nat \<Rightarrow> u64 \<Rightarrow> u64" where
  "rm_backoff 0 delay = delay"
| "rm_backoff (Suc n) delay =
     (let delay = delay * 2 in
      if delay \<ge> RM_MAX_BACKOFF_US then RM_MAX_BACKOFF_US else rm_backoff n delay)"

fun rm_entry_advance :: "rm_entry option \<Rightarrow> u64 \<Rightarrow> bool \<times> rm_entry option" where
  "rm_entry_advance None now_us = (False, None)"
| "rm_entry_advance (Some e) now_us =
     (let e = e\<lparr>rme_attempt_count := rme_attempt_count e + 1\<rparr> in
      if rme_attempt_count e \<ge> rme_max_attempts e then (False, Some e)
      else (True, Some (e\<lparr>rme_next_retry_us :=
              now_us + rm_backoff (unat (rme_attempt_count e) - 1) (rme_base_delay_us e)\<rparr>)))"

text \<open>The loop computes the capped power of two, unless the first doubling already wraps.\<close>

lemma rm_backoff_value:
  assumes "unat d < 2 ^ 63"
  shows "unat (rm_backoff n d) = (if n = 0 then unat d else min (unat d * 2 ^ n) 30000000)"
  using assms
proof (induction n arbitrary: d)
  case (Suc n)
  have u: "unat (d * 2) = unat d * 2" using Suc.prems by (simp add: unat_mult_lem [THEN iffD1])
  have le: "RM_MAX_BACKOFF_US \<le> d * 2 \<longleftrightarrow> 30000000 \<le> unat d * 2"
    by (simp only: word_le_nat_alt u) (simp add: RM_MAX_BACKOFF_US_def)
  show ?case
  proof (cases "30000000 \<le> unat d * 2")
    case True
    have "15000000 * 1 \<le> unat d * 2 ^ n" by (rule mult_le_mono) (use True in simp_all)
    then have "30000000 \<le> unat d * 2 ^ Suc n" by simp
    with True le show ?thesis by (simp add: Let_def RM_MAX_BACKOFF_US_def)
  next
    case False
    then have "unat (d * 2) < 2 ^ 63" using u by simp
    from Suc.IH [OF this] False le show ?thesis
      by (cases "n = 0") (simp_all add: Let_def u mult.assoc)
  qed
qed simp

section \<open>The table\<close>

record rm_table =
  rmt_entries :: "rm_entry list"
  rmt_count :: int

definition rm_table_create :: "bool \<Rightarrow> rm_table option" where
  "rm_table_create mem =
     (if mem then Some \<lparr>rmt_entries = replicate RM_MAX_SLOTS rm_zero_entry, rmt_count = 0\<rparr> else None)"

definition rm_table_count :: "rm_table option \<Rightarrow> int" where
  "rm_table_count t = (case t of None \<Rightarrow> 0 | Some t \<Rightarrow> rmt_count t)"

definition rm_find_slot :: "rm_table \<Rightarrow> u64 \<Rightarrow> nat option" where
  "rm_find_slot t request_id = slot_find rme_in_use (\<lambda>e k. rme_request_id e = k) (rmt_entries t) request_id"

fun rm_table_add :: "rm_table option \<Rightarrow> u64 \<Rightarrow> u64 \<Rightarrow> u64 \<Rightarrow> u32 \<Rightarrow> nat option \<times> rm_table option" where
  "rm_table_add None request_id now_us base_delay_us max_attempts = (None, None)"
| "rm_table_add (Some t) request_id now_us base_delay_us max_attempts =
     (if rmt_count t \<ge> int RM_MAX_SLOTS then (None, Some t)
      else case slot_free rme_in_use (rmt_entries t) of
        None \<Rightarrow> (None, Some t)
      | Some i \<Rightarrow>
          (case rm_entry_init (Some (rmt_entries t ! i)) request_id now_us base_delay_us max_attempts of
             (r, e) \<Rightarrow> if r \<noteq> 0 then (None, Some t)
               else (Some i, Some (t\<lparr>rmt_entries := (rmt_entries t)[i := the e], rmt_count := rmt_count t + 1\<rparr>))))"

fun rm_table_remove :: "rm_table option \<Rightarrow> u64 \<Rightarrow> int \<times> rm_table option" where
  "rm_table_remove None request_id = (-1, None)"
| "rm_table_remove (Some t) request_id =
     (case rm_find_slot t request_id of
        None \<Rightarrow> (-1, Some t)
      | Some s \<Rightarrow> (0, Some (t\<lparr>rmt_entries := (rmt_entries t)[s := rm_zero_entry], rmt_count := rmt_count t - 1\<rparr>)))"

fun rm_table_get :: "rm_table option \<Rightarrow> u64 \<Rightarrow> nat option" where
  "rm_table_get None request_id = None"
| "rm_table_get (Some t) request_id = rm_find_slot t request_id"

definition rm_tick_slot ::
  "u64 \<Rightarrow> (nat \<Rightarrow> rm_table \<times> 'u \<Rightarrow> rm_table \<times> 'u) option \<Rightarrow> nat \<Rightarrow> int \<times> rm_table \<times> 'u \<Rightarrow> int \<times> rm_table \<times> 'u" where
  "rm_tick_slot now_us cb i st =
     (case st of (processed, t, user) \<Rightarrow>
        if \<not> rme_in_use (rmt_entries t ! i) then st
        else if \<not> rm_entry_is_due (Some (rmt_entries t ! i)) now_us then st
        else case (case cb of None \<Rightarrow> (t, user) | Some f \<Rightarrow> f i (t, user)) of (t, user) \<Rightarrow>
          case rm_entry_advance (Some (rmt_entries t ! i)) now_us of (more_left, e) \<Rightarrow>
            if more_left then (processed + 1, t\<lparr>rmt_entries := (rmt_entries t)[i := the e]\<rparr>, user)
            else (processed + 1, t\<lparr>rmt_entries := (rmt_entries t)[i := rm_zero_entry],
                                   rmt_count := rmt_count t - 1\<rparr>, user))"

fun rm_table_tick :: "rm_table option \<Rightarrow> u64 \<Rightarrow> (nat \<Rightarrow> rm_table \<times> 'u \<Rightarrow> rm_table \<times> 'u) option \<Rightarrow> 'u \<Rightarrow>
    int \<times> rm_table option \<times> 'u" where
  "rm_table_tick None now_us cb user = (0, None, user)"
| "rm_table_tick (Some t) now_us cb user =
     (case fold (rm_tick_slot now_us cb) [0..<RM_MAX_SLOTS] (0, t, user) of
        (processed, t, user) \<Rightarrow> (processed, Some t, user))"

section \<open>The table as a store of requests\<close>

definition rm_live :: "rm_table \<Rightarrow> rm_entry multiset" where
  "rm_live t = slot_live rme_in_use (rmt_entries t)"

definition rm_inv :: "rm_table \<Rightarrow> bool" where
  "rm_inv t \<longleftrightarrow> length (rmt_entries t) = RM_MAX_SLOTS \<and> rmt_count t = int (size (rm_live t))"

definition rm_mk :: "u64 \<times> u64 \<times> u64 \<times> u32 \<Rightarrow> rm_entry" where
  "rm_mk a = (case a of (i, us, d, n) \<Rightarrow> rm_new_entry i us d n)"

definition rm_add :: "rm_table \<Rightarrow> u64 \<times> u64 \<times> u64 \<times> u32 \<Rightarrow> rm_table option" where
  "rm_add t a = (case a of (i, us, d, n) \<Rightarrow> case rm_table_add (Some t) i us d n of (p, t') \<Rightarrow>
     if p = None then None else t')"

definition rm_remove :: "rm_table \<Rightarrow> u64 \<Rightarrow> rm_table option" where
  "rm_remove t i = (case rm_table_remove (Some t) i of (r, t') \<Rightarrow> if r = 0 then t' else None)"

definition rm_lookup :: "rm_table \<Rightarrow> u64 \<Rightarrow> rm_entry option" where
  "rm_lookup t i = map_option ((!) (rmt_entries t)) (rm_table_get (Some t) i)"

lemmas rm_ops = rm_add_def rm_remove_def rm_lookup_def rm_find_slot_def

lemma rm_new_in_use [simp]: "rme_in_use (rm_new_entry i us d n)" "\<not> rme_in_use rm_zero_entry"
    "rme_request_id (rm_new_entry i us d n) = i"
  by (simp_all add: rm_new_entry_def rm_zero_entry_def)

interpretation rm: multi_store rm_inv rm_live "\<lambda>_. RM_MAX_SLOTS" rme_request_id rm_mk rm_add rm_remove rm_lookup
  "\<lambda>(i, us, d, n). n \<noteq> 0"
proof (unfold_locales, goal_cases)
  case (1 s) then show ?case using size_slot_live_le [of rme_in_use "rmt_entries s"] by (simp add: rm_inv_def rm_live_def)
next
  case (2 s a) then show ?case by (auto simp: rm_inv_def rm_live_def rm_ops split: prod.splits)
next
  case (3 s a s')
  then show ?case
    by (auto simp: rm_inv_def rm_live_def rm_ops rm_mk_def slot_simps split: prod.splits option.splits if_splits)
next
  case (4 s k) then show ?case
    by (auto simp: rm_live_def rm_ops slot_simps split: option.splits) (fastforce dest: slot_findD)+
next
  case (5 s k s')
  then obtain i where i: "rm_find_slot s k = Some i" by (auto simp: rm_ops split: option.splits)
  note f = slot_findD [OF i [unfolded rm_find_slot_def]]
  have "s' = s\<lparr>rmt_entries := (rmt_entries s)[i := rm_zero_entry], rmt_count := rmt_count s - 1\<rparr>"
    using 5 i by (simp add: rm_remove_def)
  with 5 f slot_live_clear [OF i [unfolded rm_find_slot_def], of rm_zero_entry] show ?case
    by (auto simp: rm_inv_def rm_live_def)
next
  case (6 s k) then show ?case
    by (auto simp: rm_live_def rm_ops slot_simps)
next
  case (7 s k v) then show ?case by (auto simp: rm_live_def rm_ops dest: slot_findD)
next
  case (8 s a)
  then have "slot_free rme_in_use (rmt_entries s) \<noteq> None" by (simp add: slot_simps rm_inv_def rm_live_def)
  with 8 show ?case by (auto simp: rm_inv_def rm_ops split: prod.splits)
qed

section \<open>The timer\<close>

text \<open>A callback that only notes which slot fired, and what the timer then does to one entry.\<close>

definition rm_log :: "nat \<Rightarrow> rm_table \<times> nat list \<Rightarrow> rm_table \<times> nat list" where
  "rm_log i st = (fst st, snd st @ [i])"

definition rm_due :: "u64 \<Rightarrow> rm_entry \<Rightarrow> bool" where
  "rm_due now_us e \<longleftrightarrow> rme_in_use e \<and> rme_next_retry_us e \<le> now_us"

definition rm_tick_entry :: "u64 \<Rightarrow> rm_entry \<Rightarrow> rm_entry" where
  "rm_tick_entry now_us e = (if rm_due now_us e
     then (case rm_entry_advance (Some e) now_us of (b, e') \<Rightarrow> if b then the e' else rm_zero_entry) else e)"

lemma rm_is_due: "rm_entry_is_due (Some e) now_us \<longleftrightarrow> rm_due now_us e"
  by (simp add: rm_entry_is_due_def rm_due_def)

lemma rm_tick_slot_log:
  assumes "i < length (rmt_entries t)"
  shows "\<exists>c. rm_tick_slot now_us (Some rm_log) i (p, t, u) =
    (if rm_due now_us (rmt_entries t ! i) then p + 1 else p,
     t\<lparr>rmt_entries := (rmt_entries t)[i := rm_tick_entry now_us (rmt_entries t ! i)], rmt_count := c\<rparr>,
     if rm_due now_us (rmt_entries t ! i) then u @ [i] else u)
    \<and> c = rmt_count t - of_bool (rme_in_use (rmt_entries t ! i) \<and> \<not> rme_in_use (rm_tick_entry now_us (rmt_entries t ! i)))"
proof -
  let ?e = "rmt_entries t ! i"
  have keep: "rme_in_use (the (snd (rm_entry_advance (Some ?e) now_us))) = rme_in_use ?e"
    by (simp add: Let_def)
  show ?thesis
  proof (cases "rm_due now_us ?e")
    case True
    then have "rme_in_use ?e" by (simp add: rm_due_def)
    with True keep show ?thesis
      by (cases "rm_entry_advance (Some ?e) now_us")
        (auto simp: rm_tick_slot_def rm_is_due rm_log_def rm_tick_entry_def simp del: rm_entry_advance.simps)
  next
    case False
    then show ?thesis by (auto simp: rm_tick_slot_def rm_is_due rm_tick_entry_def)
  qed
qed

lemma rm_tick_loop:
  assumes "k \<le> length (rmt_entries t)"
  shows "case fold (rm_tick_slot now_us (Some rm_log)) [0..<k] (0, t, u) of (p, t', u') \<Rightarrow>
    p = int (count_if (rm_due now_us) (take k (rmt_entries t)))
    \<and> rmt_entries t' = map (rm_tick_entry now_us) (take k (rmt_entries t)) @ drop k (rmt_entries t)
    \<and> rmt_count t' - int (size (rm_live t')) = rmt_count t - int (size (rm_live t))
    \<and> u' = u @ filter (\<lambda>i. rm_due now_us (rmt_entries t ! i)) [0..<k]"
  using assms
proof (induction k)
  case (Suc k)
  obtain p t' u' where f: "fold (rm_tick_slot now_us (Some rm_log)) [0..<k] (0, t, u) = (p, t', u')"
    by (metis prod_cases3)
  from Suc f have IH: "p = int (count_if (rm_due now_us) (take k (rmt_entries t)))"
    "rmt_entries t' = map (rm_tick_entry now_us) (take k (rmt_entries t)) @ drop k (rmt_entries t)"
    "rmt_count t' - int (size (rm_live t')) = rmt_count t - int (size (rm_live t))"
    "u' = u @ filter (\<lambda>i. rm_due now_us (rmt_entries t ! i)) [0..<k]" by auto
  have k: "k < length (rmt_entries t)" "k < length (rmt_entries t')" and e: "rmt_entries t' ! k = rmt_entries t ! k"
    using Suc.prems by (simp_all add: IH(2) nth_append)
  let ?e = "rmt_entries t ! k"
  from rm_tick_slot_log [OF k(2), of now_us p u'] obtain c where
    s: "rm_tick_slot now_us (Some rm_log) k (p, t', u') =
      (if rm_due now_us ?e then p + 1 else p,
       t'\<lparr>rmt_entries := (rmt_entries t')[k := rm_tick_entry now_us ?e], rmt_count := c\<rparr>,
       if rm_due now_us ?e then u' @ [k] else u')"
    and c: "c = rmt_count t' - of_bool (rme_in_use ?e \<and> \<not> rme_in_use (rm_tick_entry now_us ?e))"
    unfolding e by blast
  have es: "(rmt_entries t')[k := rm_tick_entry now_us ?e]
      = map (rm_tick_entry now_us) (take (Suc k) (rmt_entries t)) @ drop (Suc k) (rmt_entries t)"
    using k(1) by (simp add: IH(2) list_update_append take_Suc_conv_app_nth Cons_nth_drop_Suc [symmetric])
  have dead: "rme_in_use (rm_tick_entry now_us ?e) \<Longrightarrow> rme_in_use ?e"
    by (auto simp: rm_tick_entry_def rm_due_def split: if_splits)
  have "c - int (size (rm_live (t'\<lparr>rmt_entries := (rmt_entries t')[k := rm_tick_entry now_us ?e], rmt_count := c\<rparr>)))
      = rmt_count t' - int (size (rm_live t'))"
    using count_if_update [OF k(2), of rme_in_use "rm_tick_entry now_us ?e"] dead unfolding c
    by (auto simp: rm_live_def size_slot_live e of_bool_def split: if_splits)
  then show ?case using f s es IH(1,3,4) k(1) by (simp add: take_Suc_conv_app_nth count_if_def)
qed simp

lemma rm_tick_log:
  assumes "rm_inv t"
  shows "\<exists>t' . rm_table_tick (Some t) now_us (Some rm_log) u =
      (int (count_if (rm_due now_us) (rmt_entries t)), Some t',
       u @ filter (\<lambda>i. rm_due now_us (rmt_entries t ! i)) [0..<RM_MAX_SLOTS])
    \<and> rmt_entries t' = map (rm_tick_entry now_us) (rmt_entries t) \<and> rm_inv t'"
  using rm_tick_loop [of RM_MAX_SLOTS t now_us u] assms
  by (cases "fold (rm_tick_slot now_us (Some rm_log)) [0..<RM_MAX_SLOTS] (0, t, u)") (auto simp: rm_inv_def)

section \<open>The life of one request\<close>

text \<open>Ticks every \<open>\<Delta>\<close> microseconds after \<open>now\<close>, \<open>m\<close> of them.\<close>

definition rm_ticks :: "u64 \<Rightarrow> nat \<Rightarrow> nat \<Rightarrow> rm_table option \<Rightarrow> rm_table option \<times> nat list" where
  "rm_ticks now delta m t = fold (\<lambda>k st. snd (rm_table_tick (fst st) (now + of_nat (k * delta)) (Some rm_log) (snd st)))
     [1..<Suc m] (t, [])"

lemma rm_entry_due_again:
  assumes "e = (rm_new_entry i now d n)\<lparr>rme_attempt_count := of_nat m,
      rme_next_retry_us := now + of_nat (m * delta) + w\<rparr>"
    and "m < unat n" and "unat w \<le> delta" and "unat now + Suc m * delta < 2 ^ 64" and "unat d < 2 ^ 63"
  shows "rm_due (now + of_nat (Suc m * delta)) e
    \<and> rm_tick_entry (now + of_nat (Suc m * delta)) e = (if Suc m < unat n
        then e\<lparr>rme_attempt_count := of_nat (Suc m),
               rme_next_retry_us := now + of_nat (Suc m * delta) + rm_backoff m d\<rparr>
        else rm_zero_entry)"
proof -
  have u: "unat (now + of_nat (k * delta)) = unat now + k * delta" if "k \<le> Suc m" for k
  proof -
    have "k * delta \<le> Suc m * delta" using that by (rule mult_le_mono1)
    then have b: "unat now + k * delta < 2 ^ 64" using assms(4) by linarith
    then have "unat (of_nat (k * delta) :: u64) = k * delta" by (intro unat_of_nat_less) simp
    then show ?thesis using b unat_add_lem [of now "of_nat (k * delta)"] by (simp del: of_nat_mult)
  qed
  have le: "now + of_nat (m * delta) + w \<le> now + of_nat (Suc m * delta)"
  proof -
    have "unat (now + of_nat (m * delta)) + unat w < 2 ^ 64" using u [of m] assms(3,4) by simp
    then have "unat (now + of_nat (m * delta) + w) = unat now + m * delta + unat w"
      using u [of m] by (simp add: unat_add_lem [THEN iffD1])
    then show ?thesis using u [of "Suc m"] assms(3) by (simp add: word_le_nat_alt)
  qed
  have c: "(of_nat m :: u32) + 1 = of_nat (Suc m)" by simp
  have us: "unat (of_nat (Suc m) :: u32) = Suc m"
    using assms(2) unat_bound [of n] by (intro unat_of_nat_less) simp
  then have "n \<le> of_nat (Suc m) \<longleftrightarrow> unat n \<le> Suc m" by (simp only: word_le_nat_alt)
  then show ?thesis using le us unfolding assms(1)
    by (simp add: rm_due_def rm_tick_entry_def rm_new_entry_def Let_def c not_le del: of_nat_Suc)
qed

text \<open>C9: A request that a table accepts, with a base delay of at most 30 seconds and ticks at least 30 seconds
  apart, is fired at every tick, is still tracked after any number of ticks below its maximum number
  of attempts, and is evicted by the tick that reaches the maximum, whatever else the table holds.\<close>

theorem retry_request_lifecycle:
  assumes "rm_inv t" and "rm_table_add (Some t) i now d n = (Some s, t1)"
    and "unat d \<le> delta" and "30000000 \<le> delta" and "unat d < 2 ^ 63"
    and "unat now + unat n * delta < 2 ^ 64" and "m \<le> unat n"
  shows "\<exists>t' log. rm_ticks now delta m t1 = (Some t', log) \<and> count_list log s = m
    \<and> (if m < unat n then rme_in_use (rmt_entries t' ! s) \<and> rme_request_id (rmt_entries t' ! s) = i
         \<and> unat (rme_attempt_count (rmt_entries t' ! s)) = m
       else \<not> rme_in_use (rmt_entries t' ! s))"
proof -
  let ?e = "rm_new_entry i now d n"
  let ?w = "\<lambda>m. if m = 0 then d else rm_backoff (m - 1) d"
  have w: "unat (?w m) \<le> delta" for m
    using rm_backoff_value [OF assms(5), of "m - 1"] assms(3,4) by auto
  from assms(2) have n: "n \<noteq> 0" and sl: "slot_free rme_in_use (rmt_entries t) = Some s"
    and t1: "t1 = Some (t\<lparr>rmt_entries := (rmt_entries t)[s := ?e], rmt_count := rmt_count t + 1\<rparr>)"
    by (auto split: option.splits if_splits prod.splits)
  have s: "s < RM_MAX_SLOTS" using slot_freeD [OF sl] assms(1) by (simp add: rm_inv_def)
  have i1: "rm_inv (the t1)"
    using rm.add_Some [of t "(i, now, d, n)"] assms(1,2) by (simp add: rm_add_def t1)
  have "\<exists>t' log. rm_ticks now delta m t1 = (Some t', log) \<and> count_list log s = m \<and> rm_inv t'
    \<and> rmt_entries t' ! s = (if m < unat n then ?e\<lparr>rme_attempt_count := of_nat m,
      rme_next_retry_us := now + of_nat (m * delta) + ?w m\<rparr> else rm_zero_entry)"
    using assms(7)
  proof (induction m)
    case 0
    have "0 < unat n" using n by (simp add: unat_gt_0)
    then show ?case using i1 t1 slot_freeD [OF sl] by (simp add: rm_ticks_def rm_new_entry_def)
  next
    case (Suc m)
    then obtain t' log where IH: "rm_ticks now delta m t1 = (Some t', log)" "count_list log s = m" "rm_inv t'"
      and e: "rmt_entries t' ! s = ?e\<lparr>rme_attempt_count := of_nat m,
        rme_next_retry_us := now + of_nat (m * delta) + ?w m\<rparr>" by auto
    have b: "unat now + Suc m * delta < 2 ^ 64"
      using assms(6) mult_le_mono1 [OF Suc.prems, of delta] by linarith
    note due = rm_entry_due_again [OF e _ w b assms(5)]
    let ?now = "now + of_nat (Suc m * delta)"
    obtain t2 where t2: "rm_table_tick (Some t') ?now (Some rm_log) log =
        (int (count_if (rm_due ?now) (rmt_entries t')), Some t2,
         log @ filter (\<lambda>i. rm_due ?now (rmt_entries t' ! i)) [0..<RM_MAX_SLOTS])"
      "rmt_entries t2 = map (rm_tick_entry ?now) (rmt_entries t')" "rm_inv t2"
      using rm_tick_log [OF IH(3)] by blast
    have len: "length (rmt_entries t') = RM_MAX_SLOTS" using IH(3) by (simp add: rm_inv_def)
    have step: "rm_ticks now delta (Suc m) t1 = snd (rm_table_tick (Some t') ?now (Some rm_log) log)"
    proof -
      have "[1..<Suc (Suc m)] = [1..<Suc m] @ [Suc m]" by simp
      then show ?thesis using IH(1)
        by (simp only: rm_ticks_def fold_append fold_simps comp_def fst_conv snd_conv)
    qed
    have "count_list (filter P [0..<N]) s = (if s < N \<and> P s then 1 else 0)" for P and N :: nat
      by (induction N) auto
    then have "count_list (log @ filter (\<lambda>i. rm_due ?now (rmt_entries t' ! i)) [0..<RM_MAX_SLOTS]) s = Suc m"
      using IH(2) s due Suc.prems by simp
    then show ?case unfolding step using t2 due Suc.prems s len e by auto
  qed
  then obtain t' log where r: "rm_ticks now delta m t1 = (Some t', log)" "count_list log s = m"
    "rmt_entries t' ! s = (if m < unat n then ?e\<lparr>rme_attempt_count := of_nat m,
      rme_next_retry_us := now + of_nat (m * delta) + ?w m\<rparr> else rm_zero_entry)" by blast
  moreover have "unat (of_nat m :: u32) = m"
    using assms(7) unat_bound [of n] by (intro unat_of_nat_less) simp
  ultimately show ?thesis by (auto simp: rm_new_entry_def rm_zero_entry_def)
qed

definition rm_ex :: rm_table where
  "rm_ex = \<lparr>rmt_entries = replicate RM_MAX_SLOTS rm_zero_entry, rmt_count = 0\<rparr>"

lemma rm_ex_entries: "rmt_entries rm_ex = rm_zero_entry # replicate 31 rm_zero_entry" "rmt_count rm_ex = 0"
  by (simp_all add: rm_ex_def RM_MAX_SLOTS_def flip: replicate_Suc)

lemma rm_ex_inv: "rm_inv rm_ex"
  by (simp add: rm_inv_def rm_ex_def rm_live_def)

lemma retry_request_lifecycle_witness:
  "\<exists>t' log. rm_ticks 1000 30000000 3 (snd (rm_table_add (Some rm_ex) 7 1000 500 3)) = (Some t', log)
     \<and> count_list log 0 = 3 \<and> \<not> rme_in_use (rmt_entries t' ! 0)"
proof -
  obtain t1 where a: "rm_table_add (Some rm_ex) 7 1000 500 3 = (Some 0, t1)"
    by (simp add: rm_ex_entries RM_MAX_SLOTS_def slot_free_def)
  from retry_request_lifecycle [OF rm_ex_inv a, of 30000000 3] show ?thesis unfolding a snd_conv by simp
qed

section \<open>Removing a request from its own callback\<close>

definition rm_drop :: "nat \<Rightarrow> rm_table \<times> nat list \<Rightarrow> rm_table \<times> nat list" where
  "rm_drop i st = (the (snd (rm_table_remove (Some (fst st)) (rme_request_id (rmt_entries (fst st) ! i)))), snd st @ [i])"

definition rm_ids_distinct :: "rm_table \<Rightarrow> bool" where
  "rm_ids_distinct t \<longleftrightarrow> (\<forall>i j. i < length (rmt_entries t) \<longrightarrow> j < length (rmt_entries t)
     \<longrightarrow> rme_in_use (rmt_entries t ! i) \<longrightarrow> rme_in_use (rmt_entries t ! j)
     \<longrightarrow> rme_request_id (rmt_entries t ! i) = rme_request_id (rmt_entries t ! j) \<longrightarrow> i = j)"

lemma rm_tick_slot_drop:
  assumes "i < length (rmt_entries t)" and "rm_ids_distinct t"
  shows "rm_tick_slot now_us (Some rm_drop) i (p, t, u) =
    (if rm_due now_us (rmt_entries t ! i)
     then (p + 1, t\<lparr>rmt_entries := (rmt_entries t)[i := rm_zero_entry], rmt_count := rmt_count t - 2\<rparr>, u @ [i])
     else (p, t, u))"
proof (cases "rm_due now_us (rmt_entries t ! i)")
  case True
  then have use: "rme_in_use (rmt_entries t ! i)" by (simp add: rm_due_def)
  then have "rm_find_slot t (rme_request_id (rmt_entries t ! i)) = Some i"
    unfolding rm_find_slot_def slot_find_def using assms
    by (intro first_idx_unique) (auto simp: rm_ids_distinct_def)
  with True use assms(1) show ?thesis
    by (simp add: rm_tick_slot_def rm_is_due rm_drop_def rm_zero_entry_def Let_def)
next
  case False
  then show ?thesis by (simp add: rm_tick_slot_def rm_is_due)
qed

lemma rm_ids_distinct_clear: "rm_ids_distinct t \<Longrightarrow> rm_ids_distinct (t\<lparr>rmt_entries := (rmt_entries t)[i := rm_zero_entry], rmt_count := c\<rparr>)"
  by (cases "i < length (rmt_entries t)") (auto simp: rm_ids_distinct_def nth_list_update split: if_splits)

lemma rm_drop_loop:
  assumes "k \<le> length (rmt_entries t)" and "rm_ids_distinct t"
  shows "case fold (rm_tick_slot now_us (Some rm_drop)) [0..<k] (0, t, u) of (p, t', u') \<Rightarrow>
    p = int (count_if (rm_due now_us) (take k (rmt_entries t))) \<and> rm_ids_distinct t'
    \<and> rmt_entries t' = map (\<lambda>e. if rm_due now_us e then rm_zero_entry else e) (take k (rmt_entries t)) @ drop k (rmt_entries t)
    \<and> rmt_count t' = rmt_count t - 2 * p"
  using assms(1)
proof (induction k)
  case (Suc k)
  obtain p t' u' where f: "fold (rm_tick_slot now_us (Some rm_drop)) [0..<k] (0, t, u) = (p, t', u')"
    by (metis prod_cases3)
  from Suc f have IH: "p = int (count_if (rm_due now_us) (take k (rmt_entries t)))" "rm_ids_distinct t'"
    "rmt_entries t' = map (\<lambda>e. if rm_due now_us e then rm_zero_entry else e) (take k (rmt_entries t)) @ drop k (rmt_entries t)"
    "rmt_count t' = rmt_count t - 2 * p" by auto
  have k: "k < length (rmt_entries t)" "k < length (rmt_entries t')" and e: "rmt_entries t' ! k = rmt_entries t ! k"
    using Suc.prems by (simp_all add: IH(3) nth_append)
  have es: "(rmt_entries t')[k := v] = map (\<lambda>e. if rm_due now_us e then rm_zero_entry else e) (take k (rmt_entries t)) @ v # drop (Suc k) (rmt_entries t)" for v
    using k(1) by (simp add: IH(3) list_update_append Cons_nth_drop_Suc [symmetric])
  have keep: "rmt_entries t' = (rmt_entries t')[k := rmt_entries t ! k]" using e k(2) by (metis list_update_id)
  show ?case
    using f rm_tick_slot_drop [OF k(2) IH(2), of now_us p u'] IH k(1) e es keep
      rm_ids_distinct_clear [OF IH(2), where i = k and c = "rmt_count t' - 2"]
    by (auto simp: take_Suc_conv_app_nth count_if_def Cons_nth_drop_Suc)
qed (use assms in simp)

text \<open>A callback that removes its own request, as one does when the retry succeeded, is counted twice: the
  request is gone, and the entry count of the table is too small by the number of requests that
  were due.\<close>

theorem retry_remove_in_callback:
  assumes "rm_inv t" and "rm_ids_distinct t"
  shows "\<exists>t' log. rm_table_tick (Some t) now_us (Some rm_drop) [] =
      (int (count_if (rm_due now_us) (rmt_entries t)), Some t', log)
    \<and> rm_live t' = filter_mset (\<lambda>e. \<not> rm_due now_us e) (rm_live t)
    \<and> rm_table_count (Some t') = int (size (rm_live t')) - int (count_if (rm_due now_us) (rmt_entries t))"
proof -
  have n: "length (rmt_entries t) = RM_MAX_SLOTS" "rmt_count t = int (size (rm_live t))"
    using assms(1) by (simp_all add: rm_inv_def)
  obtain p t' log where r: "fold (rm_tick_slot now_us (Some rm_drop)) [0..<RM_MAX_SLOTS] (0, t, []) = (p, t', log)"
    by (metis prod_cases3)
  with rm_drop_loop [of RM_MAX_SLOTS t now_us "[]"] n assms(2)
  have l: "p = int (count_if (rm_due now_us) (rmt_entries t))"
    "rmt_entries t' = map (\<lambda>e. if rm_due now_us e then rm_zero_entry else e) (rmt_entries t)"
    "rmt_count t' = rmt_count t - 2 * p" by auto
  have live: "slot_live rme_in_use (map (\<lambda>e. if rm_due now_us e then rm_zero_entry else e) es)
      = filter_mset (\<lambda>e. \<not> rm_due now_us e) (slot_live rme_in_use es)
    \<and> size (slot_live rme_in_use es) = size (filter_mset (\<lambda>e. \<not> rm_due now_us e) (slot_live rme_in_use es))
        + count_if (rm_due now_us) es" for es
    by (induction es) (auto simp: slot_live_def rm_due_def)
  from live [of "rmt_entries t"] show ?thesis
    using r l n(2) by (auto simp: rm_live_def rm_table_count_def)
qed

lemma retry_remove_in_callback_witness:
  "\<exists>t' log. rm_table_tick (snd (rm_table_add (Some rm_ex) 7 1000 500 3)) 2000 (Some rm_drop) [] = (1, Some t', log)
     \<and> rm_table_count (Some t') = -1"
proof -
  let ?t = "\<lparr>rmt_entries = rm_new_entry 7 1000 500 3 # replicate 31 rm_zero_entry, rmt_count = 1\<rparr>"
  have a: "snd (rm_table_add (Some rm_ex) 7 1000 500 3) = Some ?t"
    by (simp add: rm_ex_entries RM_MAX_SLOTS_def slot_free_def)
  have "rm_inv ?t" by (simp add: rm_inv_def rm_live_def RM_MAX_SLOTS_def slot_live_def)
  moreover have "rm_ids_distinct ?t"
    by (auto simp: rm_ids_distinct_def nth_Cons split: nat.splits)
  moreover have "count_if (rm_due 2000) (rmt_entries ?t) = 1" by (simp add: rm_due_def rm_new_entry_def)
  moreover have "filter_mset (\<lambda>e. \<not> rm_due 2000 e) (rm_live ?t) = {#}"
    by (simp add: rm_live_def slot_live_def rm_due_def rm_new_entry_def)
  ultimately show ?thesis unfolding a using retry_remove_in_callback [of ?t 2000]
    by (simp only: size_empty) auto
qed

section \<open>Statistics\<close>

record rm_stats =
  rms_total_attempts :: u64
  rms_total_succeeded :: u32
  rms_total_expired :: u32
  rms_max_attempts_seen :: u32

definition rm_stats_zero :: rm_stats where
  "rm_stats_zero = \<lparr>rms_total_attempts = 0, rms_total_succeeded = 0, rms_total_expired = 0, rms_max_attempts_seen = 0\<rparr>"

definition rm_stats_create :: "bool \<Rightarrow> rm_stats option" where
  "rm_stats_create mem = (if mem then Some rm_stats_zero else None)"

definition rm_stats_reset :: "rm_stats option \<Rightarrow> rm_stats option" where
  "rm_stats_reset st = map_option (\<lambda>_. rm_stats_zero) st"

fun rm_stats_record_attempt :: "rm_stats option \<Rightarrow> u32 \<Rightarrow> int \<times> rm_stats option" where
  "rm_stats_record_attempt None attempt_count = (-1, None)"
| "rm_stats_record_attempt (Some st) attempt_count =
     (0, Some (st\<lparr>rms_total_attempts := rms_total_attempts st + 1,
        rms_max_attempts_seen := (if attempt_count > rms_max_attempts_seen st then attempt_count
                                  else rms_max_attempts_seen st)\<rparr>))"

fun rm_stats_record_success :: "rm_stats option \<Rightarrow> int \<times> rm_stats option" where
  "rm_stats_record_success None = (-1, None)"
| "rm_stats_record_success (Some st) = (0, Some (st\<lparr>rms_total_succeeded := rms_total_succeeded st + 1\<rparr>))"

fun rm_stats_record_expire :: "rm_stats option \<Rightarrow> int \<times> rm_stats option" where
  "rm_stats_record_expire None = (-1, None)"
| "rm_stats_record_expire (Some st) = (0, Some (st\<lparr>rms_total_expired := rms_total_expired st + 1\<rparr>))"

fun rm_stats_snapshot :: "rm_stats option \<Rightarrow> rm_stats option \<Rightarrow> int \<times> rm_stats option" where
  "rm_stats_snapshot (Some st) (Some out) = (0, Some st)"
| "rm_stats_snapshot _ out = (-1, out)"

end
