(* ===== verification/Tagging.thy ===== *)
theory Tagging
  imports Slots
begin

text \<open>
  Stream tags of \<^verbatim>\<open>src/src/tagging\<close>: entries (\<^verbatim>\<open>tag_entry.c\<close>), the store of 32 slots
  (\<^verbatim>\<open>tag_store.c\<close>) and its text form (\<^verbatim>\<open>tag_serial.c\<close>).  Strings are their characters before the
  NUL; a key or value in a slot is what fits its array.
\<close>

definition TAG_KEY_MAX :: nat where "TAG_KEY_MAX = 32"
definition TAG_VAL_MAX :: nat where "TAG_VAL_MAX = 128"
definition TAG_STORE_MAX :: nat where "TAG_STORE_MAX = 32"

section \<open>Entries\<close>

record tag_entry =
  tag_key :: string
  tag_value :: string
  tag_in_use :: bool

definition tag_zero_entry :: tag_entry where
  "tag_zero_entry = \<lparr>tag_key = [], tag_value = [], tag_in_use = False\<rparr>"

definition tag_fit_value :: "string option \<Rightarrow> string" where
  "tag_fit_value val = (case val of None \<Rightarrow> [] | Some v \<Rightarrow> cstr_fit TAG_VAL_MAX v)"

fun tag_entry_init :: "tag_entry option \<Rightarrow> string option \<Rightarrow> string option \<Rightarrow> int \<times> tag_entry option" where
  "tag_entry_init (Some t) (Some key) val =
     (if key = [] then (-1, Some t)
      else (0, Some \<lparr>tag_key = cstr_fit TAG_KEY_MAX key, tag_value = tag_fit_value val, tag_in_use = True\<rparr>))"
| "tag_entry_init t key val = (-1, t)"

section \<open>The store\<close>

record tag_store =
  ts_entries :: "tag_entry list"
  ts_count :: nat

definition tag_store_create :: "bool \<Rightarrow> tag_store option" where
  "tag_store_create mem =
     (if mem then Some \<lparr>ts_entries = replicate TAG_STORE_MAX tag_zero_entry, ts_count = 0\<rparr> else None)"

definition tag_store_count :: "tag_store option \<Rightarrow> nat" where
  "tag_store_count s = (case s of None \<Rightarrow> 0 | Some s \<Rightarrow> ts_count s)"

definition tag_find_key :: "tag_store \<Rightarrow> string \<Rightarrow> nat option" where
  "tag_find_key s key = slot_find tag_in_use (\<lambda>e k. strncmp_eq TAG_KEY_MAX (tag_key e) k) (ts_entries s) key"

fun tag_store_set :: "tag_store option \<Rightarrow> string option \<Rightarrow> string option \<Rightarrow> int \<times> tag_store option" where
  "tag_store_set (Some s) (Some key) val =
     (if key = [] then (-1, Some s)
      else case tag_find_key s key of
        Some slot \<Rightarrow> (0, Some (s\<lparr>ts_entries := (ts_entries s)[slot := (ts_entries s ! slot)\<lparr>tag_value := tag_fit_value val\<rparr>]\<rparr>))
      | None \<Rightarrow>
          if ts_count s \<ge> TAG_STORE_MAX then (-1, Some s)
          else case slot_free tag_in_use (ts_entries s) of
            None \<Rightarrow> (-1, Some s)
          | Some i \<Rightarrow> (0, Some (s\<lparr>ts_entries :=
              (ts_entries s)[i := the (snd (tag_entry_init (Some (ts_entries s ! i)) (Some key) val))],
              ts_count := ts_count s + 1\<rparr>)))"
| "tag_store_set s key val = (-1, s)"

fun tag_store_get :: "tag_store option \<Rightarrow> string option \<Rightarrow> string option" where
  "tag_store_get (Some s) (Some key) = map_option (\<lambda>slot. tag_value (ts_entries s ! slot)) (tag_find_key s key)"
| "tag_store_get s key = None"

fun tag_store_remove :: "tag_store option \<Rightarrow> string option \<Rightarrow> int \<times> tag_store option" where
  "tag_store_remove (Some s) (Some key) =
     (case tag_find_key s key of
        None \<Rightarrow> (-1, Some s)
      | Some slot \<Rightarrow> (0, Some (s\<lparr>ts_entries := (ts_entries s)[slot := tag_zero_entry], ts_count := ts_count s - 1\<rparr>)))"
| "tag_store_remove s key = (-1, s)"

definition tag_store_clear :: "tag_store option \<Rightarrow> tag_store option" where
  "tag_store_clear s =
     map_option (\<lambda>s. \<lparr>ts_entries = replicate (length (ts_entries s)) tag_zero_entry, ts_count = 0\<rparr>) s"

text \<open>The entry is const for this callback.\<close>

fun tag_store_foreach :: "tag_store option \<Rightarrow> (tag_entry \<Rightarrow> 'u \<Rightarrow> 'u) option \<Rightarrow> 'u \<Rightarrow> 'u" where
  "tag_store_foreach (Some s) (Some cb) user = snd (slot_foreach tag_in_use (\<lambda>e u. (e, cb e u)) (ts_entries s) user)"
| "tag_store_foreach s cb user = user"

section \<open>The store as a map\<close>

definition tg_live :: "tag_store \<Rightarrow> tag_entry multiset" where
  "tg_live s = slot_live tag_in_use (ts_entries s)"

definition tg_inv :: "tag_store \<Rightarrow> bool" where
  "tg_inv s \<longleftrightarrow> length (ts_entries s) = TAG_STORE_MAX \<and> ts_count s = size (tg_live s)
     \<and> (\<forall>e \<in># tg_live s. tag_key e \<noteq> [] \<and> length (tag_key e) < TAG_KEY_MAX \<and> length (tag_value e) < TAG_VAL_MAX)"

definition tg_mk :: "string \<times> string option \<Rightarrow> tag_entry" where
  "tg_mk a = \<lparr>tag_key = cstr_fit TAG_KEY_MAX (fst a), tag_value = tag_fit_value (snd a), tag_in_use = True\<rparr>"

text \<open>Insertion of a key that is not found, removal and lookup as the contract of \<open>Slots\<close> sees them.\<close>

definition tg_add :: "tag_store \<Rightarrow> string \<times> string option \<Rightarrow> tag_store option" where
  "tg_add s a = (if fst a = [] \<or> tag_find_key s (fst a) \<noteq> None then None
     else case tag_store_set (Some s) (Some (fst a)) (snd a) of (r, s') \<Rightarrow> if r = 0 then s' else None)"

definition tg_remove :: "tag_store \<Rightarrow> string \<Rightarrow> tag_store option" where
  "tg_remove s k = (case tag_store_remove (Some s) (Some k) of (r, s') \<Rightarrow> if r = 0 then s' else None)"

definition tg_lookup :: "tag_store \<Rightarrow> string \<Rightarrow> tag_entry option" where
  "tg_lookup s k = map_option ((!) (ts_entries s)) (tag_find_key s k)"

lemma tg_mk_simps [simp]: "tag_in_use (tg_mk a)" "tag_key (tg_mk a) = cstr_fit TAG_KEY_MAX (fst a)"
    "\<not> tag_in_use tag_zero_entry" "fst a \<noteq> [] \<Longrightarrow> cstr_fit TAG_KEY_MAX (fst a) \<noteq> []"
    "length (cstr_fit TAG_KEY_MAX k) < TAG_KEY_MAX" "length (tag_fit_value v) < TAG_VAL_MAX"
    "tag_value (tg_mk a) = tag_fit_value (snd a)"
  by (auto simp: tg_mk_def tag_zero_entry_def cstr_fit_def TAG_KEY_MAX_def TAG_VAL_MAX_def tag_fit_value_def split: option.split)

lemma tag_find_key_None:
  "tg_inv s \<Longrightarrow> tag_find_key s k = None \<longleftrightarrow> k \<notin> tag_key ` set_mset (tg_live s)"
  by (auto simp: tag_find_key_def slot_simps tg_inv_def tg_live_def strncmp_eq_fit)

lemma tag_find_key_Some:
  "tg_inv s \<Longrightarrow> tag_find_key s k = Some i \<Longrightarrow>
   i < length (ts_entries s) \<and> tag_in_use (ts_entries s ! i) \<and> ts_entries s ! i \<in># tg_live s \<and> tag_key (ts_entries s ! i) = k"
  unfolding tag_find_key_def
  by (drule slot_findD) (auto simp: tg_inv_def tg_live_def strncmp_eq_fit)

lemma tg_add_eq:
  "tg_add s a = (if fst a = [] \<or> tag_find_key s (fst a) \<noteq> None \<or> ts_count s \<ge> TAG_STORE_MAX then None
     else map_option (\<lambda>i. s\<lparr>ts_entries := (ts_entries s)[i := tg_mk a], ts_count := ts_count s + 1\<rparr>)
       (slot_free tag_in_use (ts_entries s)))"
  by (auto simp: tg_add_def tg_mk_def split: option.splits)

interpretation tg: unique_store tg_inv tg_live "\<lambda>_. TAG_STORE_MAX" tag_key tg_mk tg_add tg_remove tg_lookup
  "\<lambda>a. fst a \<noteq> [] \<and> length (fst a) < TAG_KEY_MAX"
proof (unfold_locales, goal_cases)
  case (1 s) then show ?case using size_slot_live_le [of tag_in_use "ts_entries s"] by (simp add: tg_inv_def tg_live_def)
next
  case (2 s a) then show ?case by (simp add: tg_inv_def tg_add_eq)
next
  case (3 s a s')
  then obtain i where "fst a \<noteq> []" and i: "slot_free tag_in_use (ts_entries s) = Some i"
    and "s' = s\<lparr>ts_entries := (ts_entries s)[i := tg_mk a], ts_count := ts_count s + 1\<rparr>"
    by (auto simp: tg_add_eq split: if_splits)
  with 3 slot_live_fill [OF i, of "tg_mk a"] show ?case by (auto simp: tg_inv_def tg_live_def)
next
  case (4 s k) then show ?case
    using tag_find_key_None [OF 4, of k] by (auto simp: tg_remove_def split: option.splits)
next
  case (5 s k s')
  then obtain i where i: "tag_find_key s k = Some i" by (auto simp: tg_remove_def split: option.splits)
  note f = tag_find_key_Some [OF 5(1) i]
  have "s' = s\<lparr>ts_entries := (ts_entries s)[i := tag_zero_entry], ts_count := ts_count s - 1\<rparr>"
    using 5 i by (simp add: tg_remove_def)
  with 5 f slot_live_clear [OF i [unfolded tag_find_key_def], of tag_zero_entry] show ?case
    by (auto simp: tg_inv_def tg_live_def)
next
  case (6 s k) then show ?case using tag_find_key_None [OF 6, of k] by (simp add: tg_lookup_def)
next
  case (7 s k v) then show ?case using tag_find_key_Some [OF 7(1)] by (auto simp: tg_lookup_def)
next
  case (8 s a) then show ?case using tag_find_key_None [OF 8(1), of "fst a"] by (auto simp: tg_add_def)
next
  case (9 s a)
  then have "slot_free tag_in_use (ts_entries s) \<noteq> None" by (simp add: slot_simps tg_inv_def tg_live_def)
  with 9 tag_find_key_None [OF 9(1), of "fst a"] show ?case by (auto simp: tg_add_eq tg_inv_def)
qed

text \<open>The calls on short keys and the map they implement.\<close>

datatype tag_op = TagSet string "string option" | TagRemove string | TagClear

fun tag_call :: "tag_op \<Rightarrow> tag_store option \<Rightarrow> tag_store option" where
  "tag_call (TagSet k v) s = snd (tag_store_set s (Some k) v)"
| "tag_call (TagRemove k) s = snd (tag_store_remove s (Some k))"
| "tag_call TagClear s = tag_store_clear s"

fun tag_short :: "tag_op \<Rightarrow> bool" where
  "tag_short (TagSet k v) \<longleftrightarrow> length k < TAG_KEY_MAX"
| "tag_short op \<longleftrightarrow> True"

fun tag_spec :: "tag_op \<Rightarrow> (string \<rightharpoonup> string) \<Rightarrow> (string \<rightharpoonup> string)" where
  "tag_spec (TagSet k v) m =
     (if k = [] \<or> m k = None \<and> card (dom m) \<ge> TAG_STORE_MAX then m else m(k \<mapsto> tag_fit_value v))"
| "tag_spec (TagRemove k) m = m(k := None)"
| "tag_spec TagClear m = Map.empty"

definition tg_ok :: "tag_store \<Rightarrow> bool" where
  "tg_ok s \<longleftrightarrow> tg_inv s \<and> tg.distinct_keys s"

definition tg_map :: "tag_store \<Rightarrow> string \<rightharpoonup> string" where
  "tg_map s k = map_option tag_value (tg_lookup s k)"

lemma tg_map_get: "tag_store_get (Some s) (Some k) = tg_map s k"
  by (simp add: tg_map_def tg_lookup_def option.map_comp comp_def)

lemma tg_card: "tg_ok s \<Longrightarrow> card (dom (tg_map s)) = ts_count s \<and> finite (dom (tg_map s))"
proof -
  assume a: "tg_ok s"
  have "dom (tg_map s) = dom (tg_lookup s)" by (auto simp: tg_map_def dom_def)
  with a tg.card_dom_lookup [of s] tg.dom_lookup [of s] show ?thesis by (simp add: tg_ok_def tg_inv_def)
qed

lemma tg_map_upd: "tg_lookup s' = (tg_lookup s)(k \<mapsto> e) \<Longrightarrow> tg_map s' = (tg_map s)(k \<mapsto> tag_value e)"
  by (auto simp: tg_map_def fun_eq_iff)

lemma tag_call_set:
  assumes "tg_ok s" and "length k < TAG_KEY_MAX"
  shows "\<exists>s'. tag_store_set (Some s) (Some k) v = (if k = [] \<or> tg_map s k = None \<and> ts_count s \<ge> TAG_STORE_MAX then -1 else 0, Some s')
    \<and> tg_ok s' \<and> tg_map s' = tag_spec (TagSet k v) (tg_map s)"
proof (cases "tag_find_key s k")
  case (Some i)
  note f = tag_find_key_Some [OF _ Some]
  let ?e = "(ts_entries s ! i)\<lparr>tag_value := tag_fit_value v\<rparr>"
  let ?s = "s\<lparr>ts_entries := (ts_entries s)[i := ?e]\<rparr>"
  have inv: "tg_inv s" "tg.distinct_keys s" using assms(1) by (simp_all add: tg_ok_def)
  note f = f [OF inv(1)]
  then have k: "k \<noteq> []" using inv(1) by (auto simp: tg_inv_def)
  have l: "tg_live ?s = add_mset ?e (tg_live s - {#ts_entries s ! i#})" "tg_live s = add_mset (ts_entries s ! i) (tg_live s - {#ts_entries s ! i#})"
    using f slot_live_replace [of i "ts_entries s" tag_in_use ?e] by (simp_all add: tg_live_def)
  have i': "tg_inv ?s"
    using inv(1) f l(1) size_Suc_Diff1 [of "ts_entries s ! i" "tg_live s"]
    by (auto simp: tg_inv_def dest: in_diffD)
  from tg.replace_distinct [OF inv i' l(2) l(1)] f
  have "tg.distinct_keys ?s" "tg_lookup ?s = (tg_lookup s)(k \<mapsto> ?e)" by auto
  moreover have "tg_map s k \<noteq> None" using Some by (simp add: tg_map_def tg_lookup_def)
  ultimately show ?thesis using Some k i' tg_map_upd [of ?s s k ?e] by (auto simp: tg_ok_def)
next
  case None
  have inv: "tg_inv s" "tg.distinct_keys s" using assms(1) by (simp_all add: tg_ok_def)
  have m: "tg_map s k = None" "tg_lookup s k = None" using None by (simp_all add: tg_map_def tg_lookup_def)
  show ?thesis
  proof (cases "k = [] \<or> ts_count s \<ge> TAG_STORE_MAX")
    case True
    then show ?thesis using None assms m tg_card [OF assms(1)] by auto
  next
    case False
    then have "tg_add s (k, v) \<noteq> None"
      using tg.add_room [OF inv(1), of "(k, v)"] assms(2) tag_find_key_None [OF inv(1), of k] None inv(1)
      by (simp add: tg_inv_def)
    then obtain s' where s': "tg_add s (k, v) = Some s'" by auto
    then have "tag_store_set (Some s) (Some k) v = (0, Some s')"
      by (auto simp: tg_add_def simp del: tag_store_set.simps split: prod.splits if_splits)
    moreover have "tg_map s' = tag_spec (TagSet k v) (tg_map s)" "tg_ok s'"
      using tg.add_distinct [OF inv s'] tg.add_Some [OF inv(1) s'] assms(2) m False tg_card [OF assms(1)]
        tg_map_upd [of s' s k "tg_mk (k, v)"]
      by (simp_all add: tg_ok_def)
    ultimately show ?thesis using False by auto
  qed
qed

lemma tag_call_ok:
  assumes "tg_ok s" and "tag_short op"
  shows "\<exists>s'. tag_call op (Some s) = Some s' \<and> tg_ok s' \<and> tg_map s' = tag_spec op (tg_map s)"
proof (cases op)
  case (TagSet k v)
  then have "length k < TAG_KEY_MAX" using assms(2) by simp
  from tag_call_set [OF assms(1) this, of v] show ?thesis unfolding TagSet tag_call.simps
    by (elim exE conjE) (simp only: snd_conv, blast)
next
  case (TagRemove k)
  have inv: "tg_inv s" "tg.distinct_keys s" using assms(1) by (simp_all add: tg_ok_def)
  have "tag_call op (Some s) = Some (tg.store_step (SlotRemove k) s)"
    by (simp add: TagRemove tg_remove_def split: option.splits)
  with tg.store_step_remove [OF inv, of k] show ?thesis
    by (auto simp: TagRemove tg_ok_def tg_map_def fun_eq_iff simp del: tg.store_step.simps)
next
  case TagClear
  let ?s = "\<lparr>ts_entries = replicate (length (ts_entries s)) tag_zero_entry, ts_count = 0\<rparr>"
  have "tg_live ?s = {#}" by (simp add: tg_live_def)
  moreover have i: "tg_inv ?s" using assms(1) calculation by (simp add: tg_inv_def tg_ok_def)
  ultimately have "tg_lookup ?s = Map.empty" using tg.lookup_None [OF i] by (intro ext) simp
  then show ?thesis using i \<open>tg_live ?s = {#}\<close>
    by (auto simp: TagClear tag_store_clear_def tg_ok_def tg_map_def fun_eq_iff)
qed

lemma tag_calls_ok:
  assumes "tg_ok s" and "\<forall>op \<in> set ops. tag_short op"
  shows "\<exists>s'. fold tag_call ops (Some s) = Some s' \<and> tg_ok s' \<and> tg_map s' = fold tag_spec ops (tg_map s)"
  using assms
proof (induction ops arbitrary: s)
  case (Cons op ops)
  from tag_call_ok [OF Cons.prems(1), of op] Cons.prems(2) obtain s1 where
    s1: "tag_call op (Some s) = Some s1" "tg_ok s1" "tg_map s1 = tag_spec op (tg_map s)" by auto
  from Cons.IH [OF s1(2)] Cons.prems(2) s1 show ?case by simp
qed simp

lemma tag_create_ok: "\<exists>s. tag_store_create True = Some s \<and> tg_ok s \<and> tg_map s = Map.empty"
proof -
  let ?s = "\<lparr>ts_entries = replicate TAG_STORE_MAX tag_zero_entry, ts_count = 0\<rparr>"
  have l: "tg_live ?s = {#}" by (simp add: tg_live_def)
  moreover have i: "tg_inv ?s" using l by (simp add: tg_inv_def)
  ultimately have "tg_lookup ?s = Map.empty" using tg.lookup_None [OF i] by (intro ext) simp
  then show ?thesis using i l by (auto simp: tag_store_create_def tg_ok_def tg_map_def fun_eq_iff)
qed

text \<open>C35: A tag store under any sets, removals and clears with keys that fit their array is a map from keys to
  (truncated) values: a set of a present key overwrites it, a new key is taken while there are fewer than
  32, lookups and the count agree with the map.\<close>

theorem tags_refine_map:
  assumes "\<forall>op \<in> set ops. tag_short op"
  shows "\<exists>s. fold tag_call ops (tag_store_create True) = Some s
    \<and> (\<forall>k. tag_store_get (Some s) (Some k) = fold tag_spec ops Map.empty k)
    \<and> tag_store_count (Some s) = card (dom (fold tag_spec ops Map.empty))"
proof -
  obtain s0 where s0: "tag_store_create True = Some s0" "tg_ok s0" "tg_map s0 = Map.empty"
    using tag_create_ok by blast
  from tag_calls_ok [OF s0(2) assms] obtain s where
    "fold tag_call ops (Some s0) = Some s" "tg_ok s" "tg_map s = fold tag_spec ops Map.empty"
    by (auto simp: s0(3))
  with s0(1) tg_card [of s] show ?thesis by (auto simp: tg_map_get tag_store_count_def simp del: tag_store_get.simps)
qed

lemma tags_refine_map_witness:
  "\<exists>s. fold tag_call [TagSet ''game'' (Some ''fps''), TagSet ''game'' (Some ''rts''), TagRemove ''x''] (tag_store_create True) = Some s
    \<and> tag_store_get (Some s) (Some ''game'') = Some ''rts'' \<and> tag_store_count (Some s) = 1"
  using tags_refine_map [of "[TagSet ''game'' (Some ''fps''), TagSet ''game'' (Some ''rts''), TagRemove ''x'']"]
  by (auto simp: TAG_KEY_MAX_def TAG_STORE_MAX_def tag_fit_value_def cstr_fit_def TAG_VAL_MAX_def
      simp del: tag_store_get.simps tag_store_set.simps tag_store_remove.simps)

section \<open>The text form\<close>

abbreviation NL :: char where "NL \<equiv> CHR 0x0A"

text \<open>The writing context: what is left of the buffer and the text so far; a line that does not fit is left out.
  The buffer is given by its size and holds, in the end, the text and a NUL.\<close>

definition tag_line :: "tag_entry \<Rightarrow> string" where
  "tag_line e = tag_key e @ ''='' @ tag_value e @ [NL]"

definition tag_write_one :: "tag_entry \<Rightarrow> nat \<times> string \<Rightarrow> nat \<times> string" where
  "tag_write_one e c = (case c of (rem, out) \<Rightarrow>
     let n = length (tag_line e) in if n > 0 \<and> n < rem then (rem - n, out @ tag_line e) else c)"

fun tag_serial_write :: "tag_store option \<Rightarrow> string option \<Rightarrow> nat \<Rightarrow> int \<times> string option" where
  "tag_serial_write (Some s) (Some buf) len =
     (if len = 0 then (-1, Some buf)
      else let out = snd (tag_store_foreach (Some s) (Some tag_write_one) (len, [])) in (int (length out), Some out))"
| "tag_serial_write s buf len = (-1, buf)"

text \<open>One line of the input, and the loop over the lines; the second result is the store, the buffer has NULs for
  its newlines afterwards.\<close>

definition tag_read_line :: "string \<Rightarrow> int \<times> tag_store option \<Rightarrow> int \<times> tag_store option" where
  "tag_read_line line st = (case st of (n, s) \<Rightarrow>
     let key = takeWhile (\<lambda>c. c \<noteq> CHR ''='') line in
     if CHR ''='' \<in> set line \<and> key \<noteq> []
     then case tag_store_set s (Some key) (Some (tl (dropWhile (\<lambda>c. c \<noteq> CHR ''='') line))) of
            (r, s') \<Rightarrow> (if r = 0 then n + 1 else n, s')
     else (n, s))"

function tag_read_lines :: "string \<Rightarrow> int \<times> tag_store option \<Rightarrow> int \<times> tag_store option" where
  "tag_read_lines line st =
     (if line = [] then st
      else let rest = dropWhile (\<lambda>c. c \<noteq> NL) line; st = tag_read_line (takeWhile (\<lambda>c. c \<noteq> NL) line) st in
        if rest = [] then st else tag_read_lines (tl rest) st)"
  by pat_completeness auto
termination
proof (relation "measure (\<lambda>(line, st). length line)", simp)
  fix line :: string and rest and st st' :: "int \<times> tag_store option"
  assume "line \<noteq> []" and "rest = dropWhile (\<lambda>c. c \<noteq> NL) line" "rest \<noteq> []"
  then have "length (tl rest) < length rest" "length rest \<le> length line"
    by (simp_all add: length_dropWhile_le)
  then show "((tl rest, st'), line, st) \<in> measure (\<lambda>(line, st). length line)" by simp
qed

declare tag_read_lines.simps [simp del]

fun tag_serial_read :: "tag_store option \<Rightarrow> string option \<Rightarrow> int \<times> tag_store option \<times> string option" where
  "tag_serial_read (Some s) (Some buf) =
     (case tag_read_lines buf (0, Some s) of
        (n, s') \<Rightarrow> (n, s', Some (map (\<lambda>c. if c = NL then CHR 0x00 else c) buf)))"
| "tag_serial_read s buf = (-1, s, buf)"

lemma split_at: "c \<notin> set k \<Longrightarrow> takeWhile (\<lambda>x. x \<noteq> c) (k @ c # v) = k"
    "c \<notin> set k \<Longrightarrow> dropWhile (\<lambda>x. x \<noteq> c) (k @ c # v) = c # v"
  by (induction k) auto

lemma tag_read_lines_Cons:
  "NL \<notin> set l \<Longrightarrow> tag_read_lines (l @ NL # rest) st = tag_read_lines rest (tag_read_line l st)"
  by (subst tag_read_lines.simps) (simp add: split_at [of NL l rest] Let_def del: takeWhile_eq_all_conv dropWhile_append takeWhile_append)

lemma tag_read_lines_Nil: "tag_read_lines [] st = st"
  by (subst tag_read_lines.simps) simp

text \<open>An entry whose line can be read back.\<close>

definition tag_clean :: "tag_entry \<Rightarrow> bool" where
  "tag_clean e \<longleftrightarrow> CHR ''='' \<notin> set (tag_key e) \<and> NL \<notin> set (tag_key e) \<and> NL \<notin> set (tag_value e)"

lemma tag_read_line_entry:
  "CHR ''='' \<notin> set k \<Longrightarrow> k \<noteq> [] \<Longrightarrow> tag_read_line (k @ CHR ''='' # v) (n, s)
     = (case tag_store_set s (Some k) (Some v) of (r, s') \<Rightarrow> (if r = 0 then n + 1 else n, s'))"
  by (simp add: tag_read_line_def split_at [of "CHR ''=''" k v] Let_def del: dropWhile_append takeWhile_append)

lemma tag_write_fold:
  "length (concat (map tag_line (filter b es))) < rem \<Longrightarrow>
   slot_foreach b (\<lambda>e u. (e, tag_write_one e u)) es (rem, out)
     = (es, rem - length (concat (map tag_line (filter b es))), out @ concat (map tag_line (filter b es)))"
  by (induction es arbitrary: rem out) (auto simp: tag_write_one_def Let_def tag_line_def)

lemma tag_read_entries:
  assumes "tg_ok s" and "\<forall>e \<in> set es. tag_clean e \<and> tag_key e \<noteq> [] \<and> length (tag_key e) < TAG_KEY_MAX
      \<and> length (tag_value e) < TAG_VAL_MAX \<and> tag_key e \<notin> dom (tg_map s)"
    and "distinct (map tag_key es)" and "ts_count s + length es \<le> TAG_STORE_MAX"
  shows "\<exists>s'. tag_read_lines (concat (map tag_line es)) (n, Some s) = (n + int (length es), Some s')
    \<and> tg_ok s' \<and> tg_map s' = tg_map s ++ map_of (map (\<lambda>e. (tag_key e, tag_value e)) es)"
  using assms
proof (induction es arbitrary: n s)
  case Nil
  then show ?case by (simp add: tag_read_lines_Nil)
next
  case (Cons e es)
  let ?k = "tag_key e" and ?v = "tag_value e"
  have e: "?k \<noteq> []" "length ?k < TAG_KEY_MAX" "length ?v < TAG_VAL_MAX" "tg_map s ?k = None" "ts_count s < TAG_STORE_MAX"
    and c: "CHR ''='' \<notin> set ?k" "NL \<notin> set (?k @ CHR ''='' # ?v)"
    using Cons.prems by (auto simp: tag_clean_def domIff)
  from tag_call_set [OF Cons.prems(1) e(2), of "Some ?v"] e obtain s1 where
    s1: "tag_store_set (Some s) (Some ?k) (Some ?v) = (0, Some s1)" "tg_ok s1" "tg_map s1 = (tg_map s)(?k \<mapsto> ?v)"
    using tg_card [OF Cons.prems(1)] by (auto simp: tag_fit_value_def simp del: tag_store_set.simps split: if_splits)
  have cnt: "ts_count s1 = Suc (ts_count s)"
    using tg_card [OF s1(2)] tg_card [OF Cons.prems(1)] e(4) s1(3)
    by (simp add: card_insert_if domIff)
  have "tag_read_lines (concat (map tag_line (e # es))) (n, Some s)
      = tag_read_lines (concat (map tag_line es)) (tag_read_line (?k @ CHR ''='' # ?v) (n, Some s))"
    using tag_read_lines_Cons [OF c(2)] by (simp add: tag_line_def)
  also have "\<dots> = tag_read_lines (concat (map tag_line es)) (n + 1, Some s1)"
    unfolding tag_read_line_entry [OF c(1) e(1)] s1(1) by simp
  finally have step: "tag_read_lines (concat (map tag_line (e # es))) (n, Some s)
      = tag_read_lines (concat (map tag_line es)) (n + 1, Some s1)" .
  have "\<forall>e \<in> set es. tag_clean e \<and> tag_key e \<noteq> [] \<and> length (tag_key e) < TAG_KEY_MAX
      \<and> length (tag_value e) < TAG_VAL_MAX \<and> tag_key e \<notin> dom (tg_map s1)"
    using Cons.prems(2,3) s1(3) by (auto simp: image_iff)
  from Cons.IH [OF s1(2) this, of "n + 1"] Cons.prems(3,4) cnt obtain s' where
    s': "tag_read_lines (concat (map tag_line es)) (n + 1, Some s1) = (n + 1 + int (length es), Some s')" "tg_ok s'"
      "tg_map s' = tg_map s1 ++ map_of (map (\<lambda>e. (tag_key e, tag_value e)) es)" by auto
  have "tg_map s1 ++ map_of (map (\<lambda>e. (tag_key e, tag_value e)) es)
      = tg_map s ++ map_of (map (\<lambda>e. (tag_key e, tag_value e)) (e # es))"
    using Cons.prems(3) unfolding s1(3)
    by (simp add: map_add_upd_left dom_map_of_conv_image_fst image_image)
  with s'(3) have m: "tg_map s' = tg_map s ++ map_of (map (\<lambda>e. (tag_key e, tag_value e)) (e # es))" by (rule trans)
  have "n + 1 + int (length es) = n + int (length (e # es))" by simp
  with s'(1,2) m show ?case unfolding step by metis
qed

lemma tag_entries_distinct:
  assumes "tg_ok s"
  shows "distinct (map tag_key (filter tag_in_use (ts_entries s)))"
proof -
  have "distinct (map tag_key es)" if "tg.dkeys (mset es)" for es
    using that by (induction es) (auto simp: tg.dkeys_add_mset)
  then show ?thesis using assms by (auto simp: tg_ok_def tg_live_def slot_live_def simp flip: mset_filter)
qed

text \<open>A store written as text into a buffer with room for all of it and read into a fresh store gives the same
  tags, as long as no key contains \<open>=\<close> or a newline and no value a newline.\<close>

theorem tag_text_roundtrip:
  assumes "\<forall>op \<in> set ops. tag_short op" and "fold tag_call ops (tag_store_create True) = Some s"
    and "\<forall>e \<in> set (ts_entries s). tag_in_use e \<longrightarrow> tag_clean e"
    and "(\<Sum>e \<leftarrow> filter tag_in_use (ts_entries s). length (tag_line e)) < len"
  shows "\<exists>txt s' buf'. tag_serial_write (Some s) (Some buf) len = (int (length txt), Some txt)
    \<and> tag_serial_read (tag_store_create True) (Some txt) = (int (tag_store_count (Some s)), Some s', buf')
    \<and> (\<forall>k. tag_store_get (Some s') (Some k) = tag_store_get (Some s) (Some k))"
proof -
  obtain s0 where s0: "tag_store_create True = Some s0" "tg_ok s0" "tg_map s0 = Map.empty"
    using tag_create_ok by blast
  have ok: "tg_ok s" using tag_calls_ok [OF s0(2) assms(1)] assms(2) s0(1) by auto
  let ?es = "filter tag_in_use (ts_entries s)"
  have len: "length (concat (map tag_line ?es)) < len"
    using assms(4) by (simp add: length_concat comp_def)
  have w: "tag_serial_write (Some s) (Some buf) len = (int (length (concat (map tag_line ?es))), Some (concat (map tag_line ?es)))"
    using len tag_write_fold [OF len, of "[]"] by (simp add: Let_def)
  have inv: "tg_inv s" using ok by (simp add: tg_ok_def)
  have n: "length ?es = ts_count s" using inv by (simp add: tg_inv_def tg_live_def size_slot_live count_if_def)
  have c0: "ts_count s0 = 0" using tg_card [OF s0(2)] s0(3) by simp
  have cl: "\<forall>e \<in> set ?es. tag_clean e \<and> tag_key e \<noteq> [] \<and> length (tag_key e) < TAG_KEY_MAX
      \<and> length (tag_value e) < TAG_VAL_MAX \<and> tag_key e \<notin> dom (tg_map s0)"
    using assms(3) inv by (auto simp: s0(3) tg_inv_def tg_live_def in_slot_live)
  have "ts_count s0 + length ?es \<le> TAG_STORE_MAX"
    using c0 n tg.cap_live [OF inv] inv by (simp add: tg_inv_def)
  from tag_read_entries [OF s0(2) cl tag_entries_distinct [OF ok] this, of 0] obtain s' where
    r: "tag_read_lines (concat (map tag_line ?es)) (0, Some s0) = (int (length ?es), Some s')"
      "tg_map s' = map_of (map (\<lambda>e. (tag_key e, tag_value e)) ?es)" by (auto simp: s0(3))
  have "tg_map s' = tg_map s"
  proof
    fix k
    have "tag_find_key s k = slot_find tag_in_use (\<lambda>e k. tag_key e = k) (ts_entries s) k"
        unfolding tag_find_key_def slot_find_def using inv
      by (intro first_idx_cong) (auto simp: tg_inv_def tg_live_def in_slot_live strncmp_eq_fit)
    then have "tg_lookup s k = List.find (\<lambda>e. tag_in_use e \<and> tag_key e = k) (ts_entries s)"
      by (simp add: tg_lookup_def slot_find_find)
    then show "tg_map s' k = tg_map s k" by (simp add: r(2) find_map_of tg_map_def)
  qed
  then show ?thesis using w r(1) n s0(1)
    by (auto simp: tg_map_get tag_store_count_def simp del: tag_store_get.simps tag_serial_write.simps)
qed

lemma tag_text_roundtrip_witness:
  "\<exists>s txt s' buf'. fold tag_call [TagSet ''game'' (Some ''fps=60''), TagSet ''title'' None] (tag_store_create True) = Some s
    \<and> tag_serial_write (Some s) (Some []) 100 = (int (length txt), Some txt)
    \<and> tag_serial_read (tag_store_create True) (Some txt) = (2, Some s', buf')
    \<and> tag_store_get (Some s') (Some ''game'') = Some ''fps=60''"
proof -
  let ?ops = "[TagSet ''game'' (Some ''fps=60''), TagSet ''title'' None]"
  let ?s = "\<lparr>ts_entries = \<lparr>tag_key = ''game'', tag_value = ''fps=60'', tag_in_use = True\<rparr>
    # \<lparr>tag_key = ''title'', tag_value = [], tag_in_use = True\<rparr> # replicate 30 tag_zero_entry, ts_count = 2\<rparr>"
  have r: "fold tag_call ?ops (tag_store_create True) = Some ?s" by code_simp
  have "\<forall>op \<in> set ?ops. tag_short op" by (simp add: TAG_KEY_MAX_def)
  moreover have "tag_store_get (Some ?s) (Some ''game'') = Some ''fps=60''" by code_simp
  moreover have "\<forall>e \<in> set (ts_entries ?s). tag_in_use e \<longrightarrow> tag_clean e"
    by (simp add: tag_clean_def tag_zero_entry_def)
  moreover have "(\<Sum>e \<leftarrow> filter tag_in_use (ts_entries ?s). length (tag_line e)) < 100"
    by (simp add: tag_line_def tag_zero_entry_def)
  moreover have "tag_store_count (Some ?s) = 2" by (simp add: tag_store_count_def)
  ultimately show ?thesis using tag_text_roundtrip [of ?ops ?s 100 "[]"] r
    by (simp only: of_nat_numeral) metis
qed

end
