(* ===== verification/Output.thy ===== *)
theory Output
  imports Slots
begin

text \<open>
  Output targets of \<^verbatim>\<open>src/src/output\<close>: a target (\<^verbatim>\<open>output_target.c\<close>), the registry of 16 targets by name
  (\<^verbatim>\<open>output_registry.c\<close>) and the counters (\<^verbatim>\<open>output_stats.c\<close>).  The arrays \<^verbatim>\<open>targets\<close> and \<^verbatim>\<open>used\<close> are
  one list of pairs, a pointer to a target is the index of its slot.
\<close>

definition OUTPUT_URL_MAX :: nat where "OUTPUT_URL_MAX = 256"
definition OUTPUT_PROTO_MAX :: nat where "OUTPUT_PROTO_MAX = 16"
definition OUTPUT_NAME_MAX :: nat where "OUTPUT_NAME_MAX = 64"
definition OUTPUT_MAX_TARGETS :: nat where "OUTPUT_MAX_TARGETS = 16"

section \<open>Targets\<close>

datatype ot_state = OT_IDLE | OT_ACTIVE | OT_ERROR | OT_DISABLED

record output_target =
  ot_name :: string
  ot_url :: string
  ot_protocol :: string
  ot_state :: ot_state
  ot_connect_time_us :: u64
  ot_enabled :: bool

definition ot_fit :: "nat \<Rightarrow> string option \<Rightarrow> string" where
  "ot_fit n s = (case s of None \<Rightarrow> [] | Some s \<Rightarrow> cstr_fit n s)"

definition ot_new :: "string option \<Rightarrow> string option \<Rightarrow> string option \<Rightarrow> output_target" where
  "ot_new name url protocol =
     \<lparr>ot_name = ot_fit OUTPUT_NAME_MAX name, ot_url = ot_fit OUTPUT_URL_MAX url,
      ot_protocol = ot_fit OUTPUT_PROTO_MAX protocol, ot_state = OT_IDLE, ot_connect_time_us = 0, ot_enabled = True\<rparr>"

fun ot_init :: "output_target option \<Rightarrow> string option \<Rightarrow> string option \<Rightarrow> string option \<Rightarrow> int \<times> output_target option" where
  "ot_init None name url protocol = (-1, None)"
| "ot_init (Some t) name url protocol = (0, Some (ot_new name url protocol))"

fun ot_state_name :: "ot_state \<Rightarrow> string" where
  "ot_state_name OT_IDLE = ''IDLE''"
| "ot_state_name OT_ACTIVE = ''ACTIVE''"
| "ot_state_name OT_ERROR = ''ERROR''"
| "ot_state_name OT_DISABLED = ''DISABLED''"

section \<open>The registry\<close>

record output_registry =
  or_slots :: "(output_target \<times> bool) list"
  or_count :: nat

definition ot_zero :: output_target where
  "ot_zero = \<lparr>ot_name = [], ot_url = [], ot_protocol = [], ot_state = OT_IDLE, ot_connect_time_us = 0, ot_enabled = False\<rparr>"

definition output_registry_create :: "bool \<Rightarrow> output_registry option" where
  "output_registry_create mem =
     (if mem then Some \<lparr>or_slots = replicate OUTPUT_MAX_TARGETS (ot_zero, False), or_count = 0\<rparr> else None)"

definition output_registry_count :: "output_registry option \<Rightarrow> nat" where
  "output_registry_count r = (case r of None \<Rightarrow> 0 | Some r \<Rightarrow> or_count r)"

definition output_registry_active_count :: "output_registry option \<Rightarrow> nat" where
  "output_registry_active_count r = (case r of None \<Rightarrow> 0
     | Some r \<Rightarrow> count_if (\<lambda>(t, used). used \<and> ot_state t = OT_ACTIVE) (or_slots r))"

definition or_find_slot :: "output_registry \<Rightarrow> string \<Rightarrow> nat option" where
  "or_find_slot r name = slot_find snd (\<lambda>e k. strncmp_eq OUTPUT_NAME_MAX (ot_name (fst e)) k) (or_slots r) name"

fun output_registry_add :: "output_registry option \<Rightarrow> string option \<Rightarrow> string option \<Rightarrow> string option \<Rightarrow>
    nat option \<times> output_registry option" where
  "output_registry_add (Some r) (Some name) url protocol =
     (if or_count r \<ge> OUTPUT_MAX_TARGETS then (None, Some r)
      else if or_find_slot r name \<noteq> None then (None, Some r)
      else case slot_free snd (or_slots r) of
        None \<Rightarrow> (None, Some r)
      | Some i \<Rightarrow> (Some i, Some (r\<lparr>or_slots :=
          (or_slots r)[i := (the (snd (ot_init (Some (fst (or_slots r ! i))) (Some name) url protocol)), True)],
          or_count := or_count r + 1\<rparr>)))"
| "output_registry_add r name url protocol = (None, r)"

fun output_registry_remove :: "output_registry option \<Rightarrow> string option \<Rightarrow> int \<times> output_registry option" where
  "output_registry_remove (Some r) (Some name) =
     (case or_find_slot r name of
        None \<Rightarrow> (-1, Some r)
      | Some slot \<Rightarrow> (0, Some (r\<lparr>or_slots := (or_slots r)[slot := (fst (or_slots r ! slot), False)],
                                 or_count := or_count r - 1\<rparr>)))"
| "output_registry_remove r name = (-1, r)"

fun output_registry_get :: "output_registry option \<Rightarrow> string option \<Rightarrow> nat option" where
  "output_registry_get (Some r) (Some name) = or_find_slot r name"
| "output_registry_get r name = None"

text \<open>A change of the target behind a pointer that \<open>output_registry_get\<close> returned.\<close>

definition or_update :: "(output_target \<Rightarrow> output_target) \<Rightarrow> output_registry option \<Rightarrow> string option \<Rightarrow>
    int \<times> output_registry option" where
  "or_update f r name = (case output_registry_get r name of
     None \<Rightarrow> (-1, r)
   | Some i \<Rightarrow> (0, map_option (\<lambda>r. r\<lparr>or_slots := (or_slots r)[i := (f (fst (or_slots r ! i)), snd (or_slots r ! i))]\<rparr>) r))"

definition output_registry_set_state :: "output_registry option \<Rightarrow> string option \<Rightarrow> ot_state \<Rightarrow> int \<times> output_registry option" where
  "output_registry_set_state r name state = or_update (\<lambda>t. t\<lparr>ot_state := state\<rparr>) r name"

definition ot_enable :: "output_target \<Rightarrow> output_target" where
  "ot_enable t = (let t = t\<lparr>ot_enabled := True\<rparr> in if ot_state t = OT_DISABLED then t\<lparr>ot_state := OT_IDLE\<rparr> else t)"

definition output_registry_enable :: "output_registry option \<Rightarrow> string option \<Rightarrow> int \<times> output_registry option" where
  "output_registry_enable r name = or_update ot_enable r name"

definition ot_disable :: "output_target \<Rightarrow> output_target" where
  "ot_disable t = t\<lparr>ot_enabled := False, ot_state := OT_DISABLED\<rparr>"

definition output_registry_disable :: "output_registry option \<Rightarrow> string option \<Rightarrow> int \<times> output_registry option" where
  "output_registry_disable r name = or_update ot_disable r name"

fun output_registry_foreach :: "output_registry option \<Rightarrow> (output_target \<Rightarrow> 'u \<Rightarrow> output_target \<times> 'u) option \<Rightarrow> 'u \<Rightarrow>
    output_registry option \<times> 'u" where
  "output_registry_foreach (Some r) (Some cb) user =
     (case slot_foreach snd (\<lambda>e u. case cb (fst e) u of (t, u') \<Rightarrow> ((t, snd e), u')) (or_slots r) user of
        (es, user') \<Rightarrow> (Some (r\<lparr>or_slots := es\<rparr>), user'))"
| "output_registry_foreach r cb user = (r, user)"

section \<open>The registry as a map\<close>

abbreviation or_key :: "output_target \<times> bool \<Rightarrow> string" where "or_key e \<equiv> ot_name (fst e)"

definition or_live :: "output_registry \<Rightarrow> (output_target \<times> bool) multiset" where
  "or_live r = slot_live snd (or_slots r)"

definition or_inv :: "output_registry \<Rightarrow> bool" where
  "or_inv r \<longleftrightarrow> length (or_slots r) = OUTPUT_MAX_TARGETS \<and> or_count r = size (or_live r)
     \<and> (\<forall>e \<in># or_live r. length (or_key e) < OUTPUT_NAME_MAX)"

definition or_mk :: "string \<times> string option \<times> string option \<Rightarrow> output_target \<times> bool" where
  "or_mk a = (ot_new (Some (fst a)) (fst (snd a)) (snd (snd a)), True)"

definition or_add :: "output_registry \<Rightarrow> string \<times> string option \<times> string option \<Rightarrow> output_registry option" where
  "or_add r a = (case output_registry_add (Some r) (Some (fst a)) (fst (snd a)) (snd (snd a)) of (p, r') \<Rightarrow>
     if p = None then None else r')"

definition or_remove :: "output_registry \<Rightarrow> string \<Rightarrow> output_registry option" where
  "or_remove r k = (case output_registry_remove (Some r) (Some k) of (x, r') \<Rightarrow> if x = 0 then r' else None)"

definition or_lookup :: "output_registry \<Rightarrow> string \<Rightarrow> (output_target \<times> bool) option" where
  "or_lookup r k = map_option ((!) (or_slots r)) (output_registry_get (Some r) (Some k))"

lemma ot_name_fit [simp]: "or_key (or_mk a) = cstr_fit OUTPUT_NAME_MAX (fst a)" "snd (or_mk a)"
    "length (cstr_fit OUTPUT_NAME_MAX k) < OUTPUT_NAME_MAX"
  by (simp_all add: or_mk_def ot_new_def ot_fit_def length_cstr_fit OUTPUT_NAME_MAX_def)

lemma or_find_None: "or_inv r \<Longrightarrow> or_find_slot r k = None \<longleftrightarrow> k \<notin> or_key ` set_mset (or_live r)"
  by (auto simp: or_find_slot_def slot_simps or_inv_def or_live_def strncmp_eq_fit)

lemma or_find_Some:
  "or_inv r \<Longrightarrow> or_find_slot r k = Some i \<Longrightarrow>
   i < length (or_slots r) \<and> snd (or_slots r ! i) \<and> or_slots r ! i \<in># or_live r \<and> or_key (or_slots r ! i) = k"
  unfolding or_find_slot_def by (drule slot_findD) (auto simp: or_inv_def or_live_def strncmp_eq_fit)

lemma or_add_eq:
  "or_add r a = (if or_count r \<ge> OUTPUT_MAX_TARGETS \<or> or_find_slot r (fst a) \<noteq> None then None
     else map_option (\<lambda>i. r\<lparr>or_slots := (or_slots r)[i := or_mk a], or_count := or_count r + 1\<rparr>)
       (slot_free snd (or_slots r)))"
  by (auto simp: or_add_def or_mk_def split: option.splits)

interpretation outreg: unique_store or_inv or_live "\<lambda>_. OUTPUT_MAX_TARGETS" or_key or_mk or_add or_remove or_lookup
  "\<lambda>a. length (fst a) < OUTPUT_NAME_MAX"
proof (unfold_locales, goal_cases)
  case (1 s) then show ?case using size_slot_live_le [of snd "or_slots s"] by (simp add: or_inv_def or_live_def)
next
  case (2 s a) then show ?case by (simp add: or_inv_def or_add_eq)
next
  case (3 s a s')
  then obtain i where i: "slot_free snd (or_slots s) = Some i"
    and "s' = s\<lparr>or_slots := (or_slots s)[i := or_mk a], or_count := or_count s + 1\<rparr>"
    by (auto simp: or_add_eq split: if_splits)
  with 3 slot_live_fill [OF i, of "or_mk a"] show ?case by (auto simp: or_inv_def or_live_def)
next
  case (4 s k) then show ?case
    using or_find_None [OF 4, of k] by (auto simp: or_remove_def split: option.splits)
next
  case (5 s k s')
  then obtain i where i: "or_find_slot s k = Some i" by (auto simp: or_remove_def split: option.splits)
  note f = or_find_Some [OF 5(1) i]
  have "s' = s\<lparr>or_slots := (or_slots s)[i := (fst (or_slots s ! i), False)], or_count := or_count s - 1\<rparr>"
    using 5 i by (simp add: or_remove_def)
  with 5 f slot_live_clear [OF i [unfolded or_find_slot_def], of "(fst (or_slots s ! i), False)"] show ?case
    by (cases "or_slots s ! i") (auto simp: or_inv_def or_live_def)
next
  case (6 s k) then show ?case using or_find_None [OF 6, of k] by (simp add: or_lookup_def)
next
  case (7 s k v) then show ?case using or_find_Some [OF 7(1)] by (auto simp: or_lookup_def)
next
  case (8 s a) then show ?case using or_find_None [OF 8(1), of "fst a"] by (auto simp: or_add_eq)
next
  case (9 s a)
  then have "slot_free snd (or_slots s) \<noteq> None" by (simp add: slot_simps or_inv_def or_live_def)
  with 9 or_find_None [OF 9(1), of "fst a"] show ?case by (auto simp: or_add_eq or_inv_def)
qed

definition or_ok :: "output_registry \<Rightarrow> bool" where
  "or_ok r \<longleftrightarrow> or_inv r \<and> outreg.distinct_keys r"

definition or_map :: "output_registry \<Rightarrow> string \<rightharpoonup> output_target" where
  "or_map r k = map_option fst (or_lookup r k)"

lemma or_map_get: "map_option (\<lambda>i. fst (or_slots r ! i)) (output_registry_get (Some r) (Some k)) = or_map r k"
  by (simp add: or_map_def or_lookup_def option.map_comp comp_def)

lemma or_map_upd: "or_lookup r' = (or_lookup r)(k \<mapsto> e) \<Longrightarrow> or_map r' = (or_map r)(k \<mapsto> fst e)"
  by (auto simp: or_map_def fun_eq_iff)

lemma or_card: "or_ok r \<Longrightarrow> card (dom (or_map r)) = or_count r"
proof -
  assume a: "or_ok r"
  have "dom (or_map r) = dom (or_lookup r)" by (auto simp: or_map_def dom_def)
  with a outreg.card_dom_lookup [of r] show ?thesis by (simp add: or_ok_def or_inv_def)
qed

lemma or_active:
  assumes "or_ok r"
  shows "output_registry_active_count (Some r) = card {k. \<exists>t. or_map r k = Some t \<and> ot_state t = OT_ACTIVE}"
proof -
  have inv: "or_inv r" "outreg.distinct_keys r" using assms by (simp_all add: or_ok_def)
  have "{k. \<exists>t. or_map r k = Some t \<and> ot_state t = OT_ACTIVE}
      = {k. \<exists>v. or_lookup r k = Some v \<and> ot_state (fst v) = OT_ACTIVE}" by (auto simp: or_map_def)
  then have "card {k. \<exists>t. or_map r k = Some t \<and> ot_state t = OT_ACTIVE}
      = size (filter_mset (\<lambda>v. ot_state (fst v) = OT_ACTIVE) (or_live r))"
    by (simp only: outreg.card_lookup_filter [OF inv])
  also have "\<dots> = count_if (\<lambda>(t, used). used \<and> ot_state t = OT_ACTIVE) (or_slots r)"
    by (simp add: or_live_def slot_live_def count_if_def filter_filter_mset case_prod_beta' flip: mset_filter)
  finally show ?thesis by (simp add: output_registry_active_count_def)
qed

text \<open>The calls with names that fit, and the map they implement.\<close>

datatype out_op = OutAdd string "string option" "string option" | OutRemove string | OutState string ot_state
  | OutEnable string | OutDisable string

fun out_call :: "out_op \<Rightarrow> output_registry option \<Rightarrow> output_registry option" where
  "out_call (OutAdd n u p) r = snd (output_registry_add r (Some n) u p)"
| "out_call (OutRemove n) r = snd (output_registry_remove r (Some n))"
| "out_call (OutState n st) r = snd (output_registry_set_state r (Some n) st)"
| "out_call (OutEnable n) r = snd (output_registry_enable r (Some n))"
| "out_call (OutDisable n) r = snd (output_registry_disable r (Some n))"

fun out_short :: "out_op \<Rightarrow> bool" where
  "out_short (OutAdd n u p) \<longleftrightarrow> length n < OUTPUT_NAME_MAX"
| "out_short op \<longleftrightarrow> True"

fun out_spec :: "out_op \<Rightarrow> (string \<rightharpoonup> output_target) \<Rightarrow> (string \<rightharpoonup> output_target)" where
  "out_spec (OutAdd n u p) m =
     (if card (dom m) < OUTPUT_MAX_TARGETS \<and> m n = None then m(n \<mapsto> ot_new (Some n) u p) else m)"
| "out_spec (OutRemove n) m = m(n := None)"
| "out_spec (OutState n st) m = m(n := map_option (\<lambda>t. t\<lparr>ot_state := st\<rparr>) (m n))"
| "out_spec (OutEnable n) m = m(n := map_option ot_enable (m n))"
| "out_spec (OutDisable n) m = m(n := map_option ot_disable (m n))"

lemma or_update_ok:
  assumes "or_ok r" and "\<And>t. ot_name (f t) = ot_name t"
  shows "\<exists>r'. snd (or_update f (Some r) (Some k)) = Some r' \<and> or_ok r' \<and> or_map r' = (or_map r)(k := map_option f (or_map r k))"
proof (cases "or_find_slot r k")
  case None
  then have "or_map r k = None" by (simp add: or_map_def or_lookup_def)
  with None assms(1) show ?thesis by (auto simp: or_update_def fun_upd_idem)
next
  case (Some i)
  have inv: "or_inv r" "outreg.distinct_keys r" using assms(1) by (simp_all add: or_ok_def)
  note g = or_find_Some [OF inv(1) Some]
  let ?e = "(f (fst (or_slots r ! i)), True)" and ?M = "or_live r - {#or_slots r ! i#}"
  let ?r = "r\<lparr>or_slots := (or_slots r)[i := ?e]\<rparr>"
  have l: "or_live r = add_mset (or_slots r ! i) ?M" "or_live ?r = add_mset ?e ?M"
    using g slot_live_replace [of i "or_slots r" snd ?e] by (simp_all add: or_live_def)
  have "or_inv ?r" using inv(1) g l size_Suc_Diff1 [of "or_slots r ! i" "or_live r"] assms(2)
    by (auto simp: or_inv_def dest: in_diffD)
  from outreg.replace_distinct [OF inv this l] g assms(2) this
  have "or_ok ?r \<and> or_lookup ?r = (or_lookup r)(k \<mapsto> ?e)" by (simp add: or_ok_def)
  moreover have "or_map r k = Some (fst (or_slots r ! i))" using Some by (simp add: or_map_def or_lookup_def)
  ultimately show ?thesis using Some g or_map_upd [of ?r r k ?e] by (auto simp: or_update_def)
qed

lemma out_call_ok:
  assumes "or_ok r" and "out_short op"
  shows "\<exists>r'. out_call op (Some r) = Some r' \<and> or_ok r' \<and> or_map r' = out_spec op (or_map r)"
proof (cases op)
  case (OutAdd n u p)
  have inv: "or_inv r" "outreg.distinct_keys r" using assms(1) by (simp_all add: or_ok_def)
  have "outreg.op_ok (SlotAdd (n, u, p))" using assms(2) OutAdd by simp
  note s = outreg.step_refines [OF inv this]
  have "out_call op (Some r) = Some (outreg.store_step (SlotAdd (n, u, p)) r)"
    by (simp add: OutAdd or_add_def split: option.splits)
  moreover have "or_map (outreg.store_step (SlotAdd (n, u, p)) r) = out_spec op (or_map r)"
  proof -
    have "length n < OUTPUT_NAME_MAX" using assms(2) OutAdd by simp
    then have "cstr_fit OUTPUT_NAME_MAX n = n" by simp
    moreover have "dom (or_lookup r) = dom (or_map r)" "or_lookup r n = None \<longleftrightarrow> or_map r n = None"
      by (auto simp: or_map_def dom_def)
    moreover have k: "or_key (or_mk (n, u, p)) = n" using \<open>cstr_fit OUTPUT_NAME_MAX n = n\<close> by simp
    ultimately have "or_lookup (outreg.store_step (SlotAdd (n, u, p)) r)
        = (if card (dom (or_map r)) < OUTPUT_MAX_TARGETS \<and> or_map r n = None
           then (or_lookup r)(n \<mapsto> or_mk (n, u, p)) else or_lookup r)"
      using s by (simp only: outreg.map_step.simps k)
    then show ?thesis using or_map_upd [of "outreg.store_step (SlotAdd (n, u, p)) r" r n "or_mk (n, u, p)"]
      by (cases "card (dom (or_map r)) < OUTPUT_MAX_TARGETS \<and> or_map r n = None")
        (simp_all only: OutAdd out_spec.simps if_True if_False simp_thms, simp_all add: or_mk_def or_map_def fun_eq_iff
           del: outreg.store_step.simps)
  qed
  ultimately show ?thesis using s by (auto simp: or_ok_def simp del: outreg.store_step.simps)
next
  case (OutRemove n)
  have inv: "or_inv r" "outreg.distinct_keys r" using assms(1) by (simp_all add: or_ok_def)
  have "out_call op (Some r) = Some (outreg.store_step (SlotRemove n) r)"
    by (simp add: OutRemove or_remove_def split: option.splits)
  with outreg.store_step_remove [OF inv, of n] show ?thesis
    by (auto simp: OutRemove or_ok_def or_map_def fun_eq_iff simp del: outreg.store_step.simps)
next
  case (OutState n st)
  then show ?thesis using or_update_ok [OF assms(1), of "\<lambda>t. t\<lparr>ot_state := st\<rparr>" n]
    by (simp add: output_registry_set_state_def)
next
  case (OutEnable n)
  then show ?thesis using or_update_ok [OF assms(1), of ot_enable n]
    by (simp add: output_registry_enable_def ot_enable_def Let_def)
next
  case (OutDisable n)
  then show ?thesis using or_update_ok [OF assms(1), of ot_disable n]
    by (simp add: output_registry_disable_def ot_disable_def)
qed

text \<open>The registry under any adds, removals, state changes, enables and disables (of names that fit) is a map
  from names to targets of at most 16 entries; adding a present name is refused, and the active count is
  the number of names whose target is active.\<close>

theorem outputs_refine_map:
  assumes "\<forall>op \<in> set ops. out_short op"
  shows "\<exists>r. fold out_call ops (output_registry_create True) = Some r
    \<and> (\<forall>k. map_option (\<lambda>i. fst (or_slots r ! i)) (output_registry_get (Some r) (Some k)) = fold out_spec ops Map.empty k)
    \<and> output_registry_count (Some r) = card (dom (fold out_spec ops Map.empty))
    \<and> output_registry_active_count (Some r)
        = card {k. \<exists>t. fold out_spec ops Map.empty k = Some t \<and> ot_state t = OT_ACTIVE}"
proof -
  let ?r0 = "\<lparr>or_slots = replicate OUTPUT_MAX_TARGETS (ot_zero, False), or_count = 0\<rparr>"
  have l: "or_live ?r0 = {#}" by (simp add: or_live_def)
  then have i: "or_inv ?r0" by (simp add: or_inv_def)
  then have "or_lookup ?r0 = Map.empty" using outreg.lookup_None [OF i] l by (intro ext) simp
  then have r0: "or_ok ?r0" "or_map ?r0 = Map.empty" using i l by (auto simp: or_ok_def or_map_def fun_eq_iff)
  have "\<exists>r'. fold out_call ops (Some r) = Some r' \<and> or_ok r' \<and> or_map r' = fold out_spec ops (or_map r)"
    if "or_ok r" "\<forall>op \<in> set ops. out_short op" for r using that
  proof (induction ops arbitrary: r)
    case (Cons op ops)
    from out_call_ok [OF Cons.prems(1), of op] Cons.prems(2) obtain r1 where
      r1: "out_call op (Some r) = Some r1" "or_ok r1" "or_map r1 = out_spec op (or_map r)" by auto
    from Cons.IH [OF r1(2)] Cons.prems(2) r1 show ?case by simp
  qed simp
  from this [OF r0(1) assms] obtain r where r: "fold out_call ops (Some ?r0) = Some r" "or_ok r"
    "or_map r = fold out_spec ops Map.empty" by (auto simp: r0(2))
  then have c: "fold out_call ops (output_registry_create True) = Some r" by (simp add: output_registry_create_def)
  show ?thesis
    using or_card [OF r(2)] or_active [OF r(2)] or_map_get [of r]
    by (intro exI [of _ r] conjI allI) (simp_all only: c r(3) output_registry_count_def option.case)
qed

lemma outputs_refine_map_witness:
  "\<exists>r. fold out_call [OutAdd ''a'' None None, OutAdd ''b'' (Some ''rtmp://x'') None, OutState ''b'' OT_ACTIVE,
      OutRemove ''a''] (output_registry_create True) = Some r
    \<and> output_registry_count (Some r) = 1"
proof -
  let ?ops = "[OutAdd ''a'' None None, OutAdd ''b'' (Some ''rtmp://x'') None, OutState ''b'' OT_ACTIVE, OutRemove ''a'']"
  have "\<forall>op \<in> set ?ops. out_short op" by (simp add: OUTPUT_NAME_MAX_def)
  from outputs_refine_map [OF this] obtain r where r: "fold out_call ?ops (output_registry_create True) = Some r"
    "output_registry_count (Some r) = card (dom (fold out_spec ?ops Map.empty))" by blast
  have "dom (fold out_spec ?ops Map.empty) = {''b''}" by (auto simp: OUTPUT_MAX_TARGETS_def)
  with r show ?thesis by auto
qed

section \<open>Statistics\<close>

record output_stats =
  ots_bytes_sent :: u64
  ots_connect_count :: u32
  ots_error_count :: u32
  ots_active_count :: int

definition output_stats_zero :: output_stats where
  "output_stats_zero = \<lparr>ots_bytes_sent = 0, ots_connect_count = 0, ots_error_count = 0, ots_active_count = 0\<rparr>"

definition output_stats_create :: "bool \<Rightarrow> output_stats option" where
  "output_stats_create mem = (if mem then Some output_stats_zero else None)"

definition output_stats_reset :: "output_stats option \<Rightarrow> output_stats option" where
  "output_stats_reset st = map_option (\<lambda>_. output_stats_zero) st"

fun output_stats_record_bytes :: "output_stats option \<Rightarrow> u64 \<Rightarrow> int \<times> output_stats option" where
  "output_stats_record_bytes None bytes = (-1, None)"
| "output_stats_record_bytes (Some st) bytes = (0, Some (st\<lparr>ots_bytes_sent := ots_bytes_sent st + bytes\<rparr>))"

fun output_stats_record_connect :: "output_stats option \<Rightarrow> int \<times> output_stats option" where
  "output_stats_record_connect None = (-1, None)"
| "output_stats_record_connect (Some st) = (0, Some (st\<lparr>ots_connect_count := ots_connect_count st + 1\<rparr>))"

fun output_stats_record_error :: "output_stats option \<Rightarrow> int \<times> output_stats option" where
  "output_stats_record_error None = (-1, None)"
| "output_stats_record_error (Some st) = (0, Some (st\<lparr>ots_error_count := ots_error_count st + 1\<rparr>))"

fun output_stats_set_active :: "output_stats option \<Rightarrow> int \<Rightarrow> int \<times> output_stats option" where
  "output_stats_set_active None c = (-1, None)"
| "output_stats_set_active (Some st) c = (0, Some (st\<lparr>ots_active_count := c\<rparr>))"

fun output_stats_snapshot :: "output_stats option \<Rightarrow> output_stats option \<Rightarrow> int \<times> output_stats option" where
  "output_stats_snapshot (Some st) (Some out) = (0, Some st)"
| "output_stats_snapshot _ out = (-1, out)"

end
