(* ===== verification/Ringbuf.thy ===== *)
theory Ringbuf
  imports RS_Prelude
begin

text \<open>
  Ring buffers: an array of \<open>cap\<close> slots of which the \<open>n\<close> from \<open>start\<close> on, around the end, are in use.  \<open>ring_items\<close> is what the ring
  holds, oldest first; the lemmas say what writing behind the last item and dropping the first one do to it.  The
  modules differ in which of start, end and count they keep.
\<close>

definition ring_items :: "nat \<Rightarrow> 'a list \<Rightarrow> nat \<Rightarrow> nat \<Rightarrow> 'a list" where
  "ring_items cap buf start n = map (\<lambda>i. buf ! ((start + i) mod cap)) [0..<n]"

lemma length_ring_items [simp]: "length (ring_items cap buf start n) = n"
  by (simp add: ring_items_def)

lemma ring_items_0 [simp]: "ring_items cap buf start 0 = []"
  by (simp add: ring_items_def)

lemma nth_ring_items: "i < n \<Longrightarrow> ring_items cap buf start n ! i = buf ! ((start + i) mod cap)"
  by (simp add: ring_items_def)

lemma mod_add_distinct:
  fixes h :: nat
  assumes "h < n" and "i < n" and "j < n" and "(h + i) mod n = (h + j) mod n"
  shows "i = j"
proof -
  have m: "(h + k) mod n = (if h + k < n then h + k else h + k - n)" if "k < n" for k
    using that assms(1) by (simp add: mod_if)
  from assms(4) show ?thesis unfolding m [OF assms(2)] m [OF assms(3)] using assms(1-3)
    by (auto split: if_splits)
qed

lemma ring_items_push:
  assumes "start < cap" and "n < cap" and "length buf = cap"
  shows "ring_items cap (buf[(start + n) mod cap := x]) start (Suc n) = ring_items cap buf start n @ [x]"
proof -
  have "(start + i) mod cap \<noteq> (start + n) mod cap" if "i < n" for i
    using mod_add_distinct [of start cap i n] assms that by auto
  then have "buf[(start + n) mod cap := x] ! ((start + i) mod cap) = buf ! ((start + i) mod cap)" if "i < n" for i
    using that by (metis nth_list_update_neq)
  moreover have "(start + n) mod cap < length buf" using assms by simp
  ultimately show ?thesis by (simp add: ring_items_def)
qed

lemma ring_items_pop:
  assumes "start < cap"
  shows "ring_items cap buf start (Suc n) = buf ! start # ring_items cap buf ((start + 1) mod cap) n"
proof -
  have "[0..<Suc n] = 0 # map Suc [0..<n]" by (simp add: map_Suc_upt upt_conv_Cons del: upt_Suc)
  moreover have "(start + Suc i) mod cap = ((start + 1) mod cap + i) mod cap" for i
    by (simp add: mod_add_left_eq)
  ultimately show ?thesis using assms by (simp add: ring_items_def del: upt_Suc)
qed

lemma ring_items_tl: "start < cap \<Longrightarrow> 0 < n \<Longrightarrow> ring_items cap buf ((start + 1) mod cap) (n - 1) = tl (ring_items cap buf start n)"
  using ring_items_pop [of start cap buf "n - 1"] by simp

lemma ring_items_hd: "start < cap \<Longrightarrow> 0 < n \<Longrightarrow> hd (ring_items cap buf start n) = buf ! start"
  using ring_items_pop [of start cap buf "n - 1"] by simp

text \<open>Writing to a full ring replaces its oldest item.\<close>

lemma ring_items_overwrite:
  assumes "start < cap" and "length buf = cap"
  shows "ring_items cap (buf[start := x]) ((start + 1) mod cap) cap = tl (ring_items cap buf start cap) @ [x]"
proof -
  have pos: "0 < cap" using assms(1) by simp
  then have m: "((start + 1) mod cap + (cap - 1)) mod cap = start"
    using assms(1) by (cases "Suc start = cap") auto
  show ?thesis
    using ring_items_push [of "(start + 1) mod cap" cap "cap - 1" buf x] ring_items_tl [OF assms(1) pos, of buf] assms(2) pos m by simp
qed

end
