(* ===== verification/Drainq.thy ===== *)
theory Drainq
  imports Ringbuf
begin

text \<open>
  The drain queue of \<^verbatim>\<open>src/src/drainq\<close>: a circular buffer of 128 entries stamped with sequence numbers
  (\<^verbatim>\<open>dq_queue.c\<close>) and its counters (\<^verbatim>\<open>dq_stats.c\<close>).  \<open>bounded_queue\<close> is the contract of a bounded FIFO
  queue; the circular buffer refines the list of its entries.
\<close>

section \<open>Bounded queues\<close>

datatype 'a queue_op = QEnq 'a | QDeq

locale bounded_queue =
  fixes inv :: "'q \<Rightarrow> bool"
    and items :: "'q \<Rightarrow> 'b list"
    and cap :: nat
    and stamp :: "'q \<Rightarrow> 'a \<Rightarrow> 'b"
    and enq :: "'a \<Rightarrow> 'q \<Rightarrow> 'q option"
    and deq :: "'q \<Rightarrow> ('b \<times> 'q) option"
  assumes items_le: "inv q \<Longrightarrow> length (items q) \<le> cap"
    and enq_full: "inv q \<Longrightarrow> length (items q) = cap \<Longrightarrow> enq a q = None"
    and enq_room: "inv q \<Longrightarrow> length (items q) < cap \<Longrightarrow>
      \<exists>q'. enq a q = Some q' \<and> inv q' \<and> items q' = items q @ [stamp q a]"
    and deq_Nil: "inv q \<Longrightarrow> items q = [] \<Longrightarrow> deq q = None"
    and deq_Cons: "inv q \<Longrightarrow> items q = x # xs \<Longrightarrow> \<exists>q'. deq q = Some (x, q') \<and> inv q' \<and> items q' = xs"
begin

text \<open>A history and what went in and what came out.\<close>

fun history :: "'a queue_op list \<Rightarrow> 'q \<Rightarrow> 'b list \<times> 'b list \<times> 'q" where
  "history [] q = ([], [], q)"
| "history (QEnq a # ops) q = (case enq a q of
     None \<Rightarrow> history ops q
   | Some q' \<Rightarrow> (case history ops q' of (ins, outs, q'') \<Rightarrow> (stamp q a # ins, outs, q'')))"
| "history (QDeq # ops) q = (case deq q of
     None \<Rightarrow> history ops q
   | Some (x, q') \<Rightarrow> (case history ops q' of (ins, outs, q'') \<Rightarrow> (ins, x # outs, q'')))"

lemma fifo: "inv q \<Longrightarrow> history ops q = (ins, outs, q') \<Longrightarrow> inv q' \<and> items q @ ins = outs @ items q'"
proof (induction ops q arbitrary: ins outs q' rule: history.induct)
  case (2 a ops q)
  show ?case
  proof (cases "length (items q) = cap")
    case True
    with 2 enq_full [OF 2(3) True, of a] show ?thesis by simp
  next
    case False
    then have "length (items q) < cap" using items_le [OF 2(3)] by simp
    from enq_room [OF 2(3) this, of a] obtain q1 where q1: "enq a q = Some q1" "inv q1" "items q1 = items q @ [stamp q a]"
      by blast
    obtain i o' q2 where h: "history ops q1 = (i, o', q2)" by (metis prod_cases3)
    with 2(2) [OF q1(1,2) h] 2(4) q1 show ?thesis by auto
  qed
next
  case (3 ops q)
  show ?case
  proof (cases "items q")
    case Nil
    with 3 deq_Nil [OF 3(3) Nil] show ?thesis by simp
  next
    case (Cons x xs)
    from deq_Cons [OF 3(3) Cons] obtain q1 where q1: "deq q = Some (x, q1)" "inv q1" "items q1 = xs" by blast
    obtain i o' q2 where h: "history ops q1 = (i, o', q2)" by (metis prod_cases3)
    with 3(2) [OF q1(1) refl q1(2) h] 3(4) q1 Cons show ?thesis by auto
  qed
qed simp

end

section \<open>The circular buffer\<close>

definition DQ_MAX_ENTRIES :: nat where "DQ_MAX_ENTRIES = 128"
definition DQ_FLAG_HIGH_PRIORITY :: u8 where "DQ_FLAG_HIGH_PRIORITY = 0x01"
definition DQ_FLAG_FLUSH :: u8 where "DQ_FLAG_FLUSH = 0x02"

record 'p dq_entry =
  dq_seq :: u64
  dq_data :: "'p option"
  dq_data_len :: u64
  dq_flags :: u8

record 'p dq_queue =
  dqq_data :: "'p dq_entry list"
  dqq_head :: nat
  dqq_tail :: nat
  dqq_count :: nat
  dqq_next_seq :: u64

definition dq_zero_entry :: "'p dq_entry" where
  "dq_zero_entry = \<lparr>dq_seq = 0, dq_data = None, dq_data_len = 0, dq_flags = 0\<rparr>"

definition dq_queue_create :: "bool \<Rightarrow> 'p dq_queue option" where
  "dq_queue_create mem = (if mem then Some \<lparr>dqq_data = replicate DQ_MAX_ENTRIES dq_zero_entry, dqq_head = 0,
     dqq_tail = 0, dqq_count = 0, dqq_next_seq = 0\<rparr> else None)"

definition dq_queue_count :: "'p dq_queue option \<Rightarrow> nat" where
  "dq_queue_count q = (case q of None \<Rightarrow> 0 | Some q \<Rightarrow> dqq_count q)"

definition dq_queue_clear :: "'p dq_queue option \<Rightarrow> 'p dq_queue option" where
  "dq_queue_clear q = map_option (\<lambda>q. q\<lparr>dqq_head := 0, dqq_tail := 0, dqq_count := 0\<rparr>) q"

fun dq_queue_enqueue :: "'p dq_queue option \<Rightarrow> 'p dq_entry option \<Rightarrow> int \<times> 'p dq_queue option" where
  "dq_queue_enqueue (Some q) (Some e) =
     (if dqq_count q \<ge> DQ_MAX_ENTRIES then (-1, Some q)
      else (0, Some (q\<lparr>dqq_data := (dqq_data q)[dqq_tail q := e\<lparr>dq_seq := dqq_next_seq q\<rparr>],
                       dqq_next_seq := dqq_next_seq q + 1,
                       dqq_tail := (dqq_tail q + 1) mod DQ_MAX_ENTRIES,
                       dqq_count := dqq_count q + 1\<rparr>)))"
| "dq_queue_enqueue q e = (-1, q)"

fun dq_queue_dequeue :: "'p dq_queue option \<Rightarrow> 'p dq_entry option \<Rightarrow>
    int \<times> 'p dq_queue option \<times> 'p dq_entry option" where
  "dq_queue_dequeue (Some q) (Some out) =
     (if dqq_count q = 0 then (-1, Some q, Some out)
      else (0, Some (q\<lparr>dqq_head := (dqq_head q + 1) mod DQ_MAX_ENTRIES, dqq_count := dqq_count q - 1\<rparr>),
            Some (dqq_data q ! dqq_head q)))"
| "dq_queue_dequeue q out = (-1, q, out)"

text \<open>The drain loop runs until the queue is empty; the callback may call the queue again, so the loop may
  never end (None).\<close>

partial_function (option) dq_drain_loop ::
  "('p dq_entry \<Rightarrow> 'p dq_queue \<times> 'u \<Rightarrow> 'p dq_queue \<times> 'u) option \<Rightarrow> 'p dq_queue \<Rightarrow> 'u \<Rightarrow> int
   \<Rightarrow> (int \<times> 'p dq_queue \<times> 'u) option" where
  "dq_drain_loop cb q user n =
     (case dq_queue_dequeue (Some q) (Some dq_zero_entry) of (r, q', out) \<Rightarrow>
        if r = 0 then
          (case (case cb of None \<Rightarrow> (the q', user) | Some f \<Rightarrow> f (the out) (the q', user)) of
             (q2, user2) \<Rightarrow> dq_drain_loop cb q2 user2 (n + 1))
        else Some (n, q, user))"

fun dq_queue_drain_all :: "'p dq_queue option \<Rightarrow> ('p dq_entry \<Rightarrow> 'p dq_queue \<times> 'u \<Rightarrow> 'p dq_queue \<times> 'u) option
    \<Rightarrow> 'u \<Rightarrow> (int \<times> 'p dq_queue option \<times> 'u) option" where
  "dq_queue_drain_all None cb user = Some (0, None, user)"
| "dq_queue_drain_all (Some q) cb user = map_option (\<lambda>(n, q', u). (n, Some q', u)) (dq_drain_loop cb q user 0)"

section \<open>Refinement\<close>

definition dq_inv :: "'p dq_queue \<Rightarrow> bool" where
  "dq_inv q \<longleftrightarrow> length (dqq_data q) = DQ_MAX_ENTRIES \<and> dqq_count q \<le> DQ_MAX_ENTRIES
     \<and> dqq_head q < DQ_MAX_ENTRIES \<and> dqq_tail q = (dqq_head q + dqq_count q) mod DQ_MAX_ENTRIES"

definition dq_items :: "'p dq_queue \<Rightarrow> 'p dq_entry list" where
  "dq_items q = map (\<lambda>i. dqq_data q ! ((dqq_head q + i) mod DQ_MAX_ENTRIES)) [0..<dqq_count q]"

lemma length_dq_items [simp]: "length (dq_items q) = dqq_count q"
  by (simp add: dq_items_def)

lemma DQ_pos: "0 < DQ_MAX_ENTRIES"
  by (simp add: DQ_MAX_ENTRIES_def)

lemma dq_items_snoc:
  assumes "dq_inv q" and "dqq_count q < DQ_MAX_ENTRIES"
  shows "dq_items (q\<lparr>dqq_data := (dqq_data q)[dqq_tail q := e], dqq_next_seq := n,
      dqq_tail := t, dqq_count := dqq_count q + 1\<rparr>) = dq_items q @ [e]"
proof -
  have h: "dqq_head q < DQ_MAX_ENTRIES" "length (dqq_data q) = DQ_MAX_ENTRIES"
    and t: "dqq_tail q = (dqq_head q + dqq_count q) mod DQ_MAX_ENTRIES"
    using assms(1) by (simp_all add: dq_inv_def)
  have "dqq_tail q \<noteq> (dqq_head q + i) mod DQ_MAX_ENTRIES" if "i < dqq_count q" for i
    using mod_add_distinct [OF h(1), of i "dqq_count q"] that assms(2) t by auto
  then have "map (\<lambda>i. (dqq_data q)[dqq_tail q := e] ! ((dqq_head q + i) mod DQ_MAX_ENTRIES)) [0..<dqq_count q] = dq_items q"
    by (auto simp: dq_items_def)
  then show ?thesis using h t by (simp add: dq_items_def DQ_pos)
qed

lemma dq_items_tl:
  assumes "dq_inv q" and "dqq_count q = Suc c"
  shows "dq_items q = dqq_data q ! dqq_head q #
      dq_items (q\<lparr>dqq_head := (dqq_head q + 1) mod DQ_MAX_ENTRIES, dqq_count := dqq_count q - 1\<rparr>)"
proof -
  have h: "dqq_head q < DQ_MAX_ENTRIES" using assms(1) by (simp add: dq_inv_def)
  have "[0..<Suc c] = 0 # map Suc [0..<c]" by (simp add: map_Suc_upt upt_conv_Cons del: upt_Suc)
  then show ?thesis using h assms(2)
    by (simp add: dq_items_def comp_def mod_add_left_eq mod_Suc_eq del: upt_Suc)
qed

definition dq_stamp :: "'p dq_queue \<Rightarrow> 'p dq_entry \<Rightarrow> 'p dq_entry" where
  "dq_stamp q e = e\<lparr>dq_seq := dqq_next_seq q\<rparr>"

definition dq_enq :: "'p dq_entry \<Rightarrow> 'p dq_queue \<Rightarrow> 'p dq_queue option" where
  "dq_enq e q = (case dq_queue_enqueue (Some q) (Some e) of (r, q') \<Rightarrow> if r = 0 then q' else None)"

definition dq_deq :: "'p dq_queue \<Rightarrow> ('p dq_entry \<times> 'p dq_queue) option" where
  "dq_deq q = (case dq_queue_dequeue (Some q) (Some dq_zero_entry) of
     (r, q', out) \<Rightarrow> if r = 0 then Some (the out, the q') else None)"

interpretation dq: bounded_queue dq_inv dq_items DQ_MAX_ENTRIES dq_stamp dq_enq dq_deq
proof (unfold_locales, goal_cases)
  case (1 q) then show ?case by (simp add: dq_inv_def)
next
  case (2 q a) then show ?case by (simp add: dq_enq_def)
next
  case (3 q a)
  then have "dq_inv (q\<lparr>dqq_data := (dqq_data q)[dqq_tail q := dq_stamp q a], dqq_next_seq := dqq_next_seq q + 1,
      dqq_tail := (dqq_tail q + 1) mod DQ_MAX_ENTRIES, dqq_count := dqq_count q + 1\<rparr>)"
    by (simp add: dq_inv_def mod_Suc_eq)
  with 3 dq_items_snoc [OF 3(1), where e = "dq_stamp q a"] show ?case by (simp add: dq_enq_def dq_stamp_def)
next
  case (4 q) then have "dqq_count q = 0" using length_dq_items [of q] by simp
  then show ?case by (simp add: dq_deq_def)
next
  case (5 q x xs)
  then obtain c where c: "dqq_count q = Suc c" using length_dq_items [of q] by (cases "dqq_count q") auto
  have "dq_inv (q\<lparr>dqq_head := (dqq_head q + 1) mod DQ_MAX_ENTRIES, dqq_count := dqq_count q - 1\<rparr>)"
    using 5(1) c by (simp add: dq_inv_def mod_add_left_eq DQ_pos)
  with c dq_items_tl [OF 5(1) c] 5(2) show ?case by (auto simp: dq_deq_def)
qed

section \<open>Histories\<close>

text \<open>The calls of the source and the answers they give; the specification keeps the list of entries and the
  next sequence number.\<close>

datatype 'p dq_op = DqEnqueue "'p dq_entry" | DqDequeue | DqClear

fun dq_call :: "'p dq_op \<Rightarrow> 'p dq_queue option \<Rightarrow> (int \<times> 'p dq_entry option) \<times> 'p dq_queue option" where
  "dq_call (DqEnqueue e) q = (case dq_queue_enqueue q (Some e) of (r, q') \<Rightarrow> ((r, None), q'))"
| "dq_call DqDequeue q = (case dq_queue_dequeue q (Some dq_zero_entry) of
     (r, q', out) \<Rightarrow> ((r, if r = 0 then out else None), q'))"
| "dq_call DqClear q = ((0, None), dq_queue_clear q)"

fun dq_spec :: "'p dq_op \<Rightarrow> 'p dq_entry list \<times> u64 \<Rightarrow> (int \<times> 'p dq_entry option) \<times> ('p dq_entry list \<times> u64)" where
  "dq_spec (DqEnqueue e) (xs, n) =
     (if length xs < DQ_MAX_ENTRIES then ((0, None), xs @ [e\<lparr>dq_seq := n\<rparr>], n + 1) else ((-1, None), xs, n))"
| "dq_spec DqDequeue ([], n) = ((-1, None), [], n)"
| "dq_spec DqDequeue (x # xs, n) = ((0, Some x), xs, n)"
| "dq_spec DqClear (xs, n) = ((0, None), [], n)"

lemma dq_call_refines:
  assumes "dq_inv q"
  shows "\<exists>q'. dq_call op (Some q) = (fst (dq_spec op (dq_items q, dqq_next_seq q)), Some q') \<and> dq_inv q'
    \<and> (dq_items q', dqq_next_seq q') = snd (dq_spec op (dq_items q, dqq_next_seq q))"
proof (cases op)
  case (DqEnqueue e)
  show ?thesis
  proof (cases "dqq_count q < DQ_MAX_ENTRIES")
    case True
    with dq.enq_room [OF assms, of e] show ?thesis
      by (auto simp: DqEnqueue dq_enq_def dq_stamp_def)
  next
    case False
    with assms show ?thesis by (simp add: DqEnqueue dq_inv_def)
  qed
next
  case DqDequeue
  show ?thesis
  proof (cases "dq_items q")
    case Nil
    then have "dqq_count q = 0" using length_dq_items [of q] by simp
    with Nil assms show ?thesis by (simp add: DqDequeue)
  next
    case (Cons x xs)
    then have "dqq_count q \<noteq> 0" using length_dq_items [of q] by auto
    with dq.deq_Cons [OF assms Cons] Cons show ?thesis by (auto simp: DqDequeue dq_deq_def)
  qed
next
  case DqClear
  then show ?thesis using assms by (simp add: dq_queue_clear_def dq_inv_def dq_items_def DQ_pos)
qed

definition dq_rel :: "'p dq_queue option \<Rightarrow> 'p dq_entry list \<times> u64 \<Rightarrow> bool" where
  "dq_rel m t \<longleftrightarrow> (\<exists>q. m = Some q \<and> dq_inv q \<and> (dq_items q, dqq_next_seq q) = t)"

interpretation dqs: simulation dq_call dq_spec dq_rel "\<lambda>_. True"
proof
  fix m :: "'a dq_queue option" and t op assume "dq_rel m t"
  then obtain q where "m = Some q" "dq_inv q" "t = (dq_items q, dqq_next_seq q)" by (auto simp: dq_rel_def)
  with dq_call_refines [of q op] show "fst (dq_call op m) = fst (dq_spec op t) \<and> dq_rel (snd (dq_call op m)) (snd (dq_spec op t))"
    by (auto simp: dq_rel_def simp del: dq_call.simps)
qed

lemma dq_create_rel: "dq_rel (dq_queue_create True) ([], 0)"
  by (simp add: dq_rel_def dq_queue_create_def dq_inv_def dq_items_def DQ_pos)

text \<open>C11: Any enqueues, dequeues and clears of a fresh drain queue give the answers of a list of at most 128
  entries, oldest first, in which every accepted entry is stamped with the next number of a counter that
  clears do not reset, and the count is the length of the list.\<close>

theorem drainq_refines_list:
  "\<exists>q. run_calls dq_call ops (dq_queue_create True) = (fst (run_calls dq_spec ops ([], 0)), Some q)
    \<and> dq_queue_count (Some q) = length (fst (snd (run_calls dq_spec ops ([], 0))))"
proof -
  from dqs.run [OF dq_create_rel, of ops] obtain q where
    r: "run_calls dq_call ops (dq_queue_create True) = (fst (run_calls dq_spec ops ([], 0)), Some q)"
      "dq_items q = fst (snd (run_calls dq_spec ops ([], 0)))"
    unfolding dq_rel_def by (metis fst_conv prod.collapse)
  moreover have "dq_queue_count (Some q) = length (dq_items q)" by (simp add: dq_queue_count_def)
  ultimately show ?thesis by auto
qed

lemma drainq_refines_list_witness:
  "\<exists>q. run_calls dq_call [DqEnqueue \<lparr>dq_seq = 9, dq_data = Some True, dq_data_len = 1, dq_flags = 0\<rparr>, DqDequeue, DqDequeue]
      (dq_queue_create True)
     = ([(0, None), (0, Some \<lparr>dq_seq = 0, dq_data = Some True, dq_data_len = 1, dq_flags = 0\<rparr>), (-1, None)], Some q)"
  using drainq_refines_list [of "[DqEnqueue \<lparr>dq_seq = 9, dq_data = Some True, dq_data_len = 1, dq_flags = 0\<rparr>, DqDequeue, DqDequeue]"]
  by (auto simp: DQ_MAX_ENTRIES_def)

section \<open>Draining\<close>

definition dq_quiet :: "('p dq_entry \<Rightarrow> 'u \<Rightarrow> 'u) \<Rightarrow> 'p dq_entry \<Rightarrow> 'p dq_queue \<times> 'u \<Rightarrow> 'p dq_queue \<times> 'u" where
  "dq_quiet f e st = (fst st, f e (snd st))"

definition dq_put_back :: "'p dq_entry \<Rightarrow> 'p dq_queue \<times> 'u \<Rightarrow> 'p dq_queue \<times> 'u" where
  "dq_put_back e st = (the (snd (dq_queue_enqueue (Some (fst st)) (Some e))), snd st)"

lemma dq_drain_loop_step:
  "dq_drain_loop cb q user n = (case dq_deq q of None \<Rightarrow> Some (n, q, user)
     | Some (x, q') \<Rightarrow> (case (case cb of None \<Rightarrow> (q', user) | Some f \<Rightarrow> f x (q', user)) of
          (q2, user2) \<Rightarrow> dq_drain_loop cb q2 user2 (n + 1)))"
  by (subst dq_drain_loop.simps) (simp add: dq_deq_def split: option.split)

lemma dq_drain_quiet:
  assumes "dq_inv q"
  shows "\<exists>q'. dq_drain_loop (Some (dq_quiet f)) q user n = Some (n + int (length (dq_items q)), q', fold f (dq_items q) user)
    \<and> dq_inv q' \<and> dq_items q' = []"
  using assms
proof (induction "dq_items q" arbitrary: q user n)
  case Nil
  then show ?case using dq.deq_Nil [of q] by (subst dq_drain_loop_step) simp
next
  case (Cons x xs)
  from dq.deq_Cons [OF Cons.prems Cons.hyps(2) [symmetric]] obtain q' where
    q': "dq_deq q = Some (x, q')" "dq_inv q'" "dq_items q' = xs" by blast
  from Cons.hyps(1) [OF q'(3) [symmetric] q'(2), of "f x user" "n + 1"] q'
  show ?case by (subst (1) dq_drain_loop_step) (auto simp: dq_quiet_def Cons.hyps(2) [symmetric])
qed

lemma dq_drain_put_back:
  assumes "dq_drain_loop cb q user n = Some y"
  shows "\<not> (cb = Some dq_put_back \<and> dq_inv q \<and> dq_items q \<noteq> [])"
proof (rule dq_drain_loop.raw_induct [OF _ assms, where P = "\<lambda>cb q user n y. \<not> (cb = Some dq_put_back \<and> dq_inv q \<and> dq_items q \<noteq> [])"])
  fix loop :: "('a dq_entry \<Rightarrow> 'a dq_queue \<times> 'b \<Rightarrow> 'a dq_queue \<times> 'b) option \<Rightarrow> 'a dq_queue \<Rightarrow> 'b \<Rightarrow> int \<Rightarrow> (int \<times> 'a dq_queue \<times> 'b) option"
    and cb q user n y
  assume IH: "\<And>cb q user n y. loop cb q user n = Some y \<Longrightarrow> \<not> (cb = Some dq_put_back \<and> dq_inv q \<and> dq_items q \<noteq> [])"
    and b: "(case dq_queue_dequeue (Some q) (Some dq_zero_entry) of (r, q', out) \<Rightarrow>
        if r = 0 then
          (case (case cb of None \<Rightarrow> (the q', user) | Some f \<Rightarrow> f (the out) (the q', user)) of
             (q2, user2) \<Rightarrow> loop cb q2 user2 (n + 1))
        else Some (n, q, user)) = Some y"
  show "\<not> (cb = Some dq_put_back \<and> dq_inv q \<and> dq_items q \<noteq> [])"
  proof
    assume a: "cb = Some dq_put_back \<and> dq_inv q \<and> dq_items q \<noteq> []"
    then obtain x xs where x: "dq_items q = x # xs" by (cases "dq_items q") auto
    from dq.deq_Cons [OF _ x] a obtain q' where q': "dq_deq q = Some (x, q')" "dq_inv q'" "dq_items q' = xs" by blast
    have "length xs < DQ_MAX_ENTRIES" using dq.items_le [of q] x a by simp
    with dq.enq_room [OF q'(2), of x] q'(3) obtain q2 where q2: "dq_enq x q' = Some q2" "dq_inv q2" "dq_items q2 \<noteq> []"
      by auto
    then have "dq_put_back x (q', user) = (q2, user)"
      by (auto simp: dq_put_back_def dq_enq_def split: if_splits)
    then have "loop cb q2 user (n + 1) = Some y"
      using b q'(1) a by (auto simp: dq_deq_def split: if_splits)
    from IH [OF this] a q2 show False by simp
  qed
qed

text \<open>C36: \<open>dq_queue_drain_all\<close> with a callback that leaves the queue alone returns after handing over every entry,
  oldest first, and leaves the queue empty; with a callback that puts its entry back, on a queue that is
  not empty, it never returns.\<close>

theorem drain_all_termination:
  assumes "dq_inv q"
  shows "(\<exists>q'. dq_queue_drain_all (Some q) (Some (dq_quiet f)) user
        = Some (int (dq_queue_count (Some q)), Some q', fold f (dq_items q) user) \<and> dq_queue_count (Some q') = 0)
    \<and> (dq_queue_drain_all (Some q) (Some dq_put_back) user' = None \<longleftrightarrow> dq_queue_count (Some q) \<noteq> 0)"
proof
  obtain q' where q': "dq_drain_loop (Some (dq_quiet f)) q user 0 = Some (int (length (dq_items q)), q', fold f (dq_items q) user)"
    "dq_items q' = []" using dq_drain_quiet [OF assms, of f user 0] by auto
  then have "dqq_count q' = 0" using length_dq_items [of q'] by simp
  with q'(1) show "\<exists>q'. dq_queue_drain_all (Some q) (Some (dq_quiet f)) user
      = Some (int (dq_queue_count (Some q)), Some q', fold f (dq_items q) user) \<and> dq_queue_count (Some q') = 0"
    by (simp add: dq_queue_count_def)
next
  show "dq_queue_drain_all (Some q) (Some dq_put_back) user' = None \<longleftrightarrow> dq_queue_count (Some q) \<noteq> 0"
  proof (cases "dq_items q = []")
    case True
    then have "dqq_count q = 0" using length_dq_items [of q] by simp
    then show ?thesis using dq.deq_Nil [OF assms True] by (simp add: dq_queue_count_def dq_drain_loop_step)
  next
    case False
    then have "dq_drain_loop (Some dq_put_back) q user' 0 = None"
      using dq_drain_put_back [of "Some dq_put_back" q user' 0] assms False by (cases "dq_drain_loop (Some dq_put_back) q user' 0") auto
    moreover have "dqq_count q \<noteq> 0" using False length_dq_items [of q] by (metis length_0_conv)
    ultimately show ?thesis by (simp add: dq_queue_count_def)
  qed
qed

definition dq_ex :: "nat dq_queue" where
  "dq_ex = \<lparr>dqq_data = \<lparr>dq_seq = 0, dq_data = Some 5, dq_data_len = 1, dq_flags = 0\<rparr> # replicate 127 dq_zero_entry,
     dqq_head = 0, dqq_tail = 1, dqq_count = 1, dqq_next_seq = 1\<rparr>"

lemma drain_all_termination_witness:
  "dq_queue_drain_all (Some dq_ex) (Some dq_put_back) () = None
   \<and> (\<exists>q'. dq_queue_drain_all (Some dq_ex) (Some (dq_quiet (\<lambda>e l. l @ [dq_data e]))) [] = Some (1, Some q', [Some 5]))"
proof -
  have "dq_inv dq_ex" by (simp add: dq_inv_def dq_ex_def DQ_MAX_ENTRIES_def)
  from drain_all_termination [OF this, of "\<lambda>e l. l @ [dq_data e]" "[]" "()"] show ?thesis
    by (auto simp: dq_queue_count_def dq_ex_def dq_items_def)
qed

section \<open>Statistics\<close>

record dq_stats =
  dqs_enqueued :: u64
  dqs_drained :: u64
  dqs_dropped :: u64
  dqs_peak :: int

definition dq_stats_zero :: dq_stats where
  "dq_stats_zero = \<lparr>dqs_enqueued = 0, dqs_drained = 0, dqs_dropped = 0, dqs_peak = 0\<rparr>"

definition dq_stats_create :: "bool \<Rightarrow> dq_stats option" where
  "dq_stats_create mem = (if mem then Some dq_stats_zero else None)"

definition dq_stats_reset :: "dq_stats option \<Rightarrow> dq_stats option" where
  "dq_stats_reset st = map_option (\<lambda>_. dq_stats_zero) st"

fun dq_stats_record_enqueue :: "dq_stats option \<Rightarrow> int \<Rightarrow> int \<times> dq_stats option" where
  "dq_stats_record_enqueue None cur_depth = (-1, None)"
| "dq_stats_record_enqueue (Some st) cur_depth =
     (0, Some (st\<lparr>dqs_enqueued := dqs_enqueued st + 1,
        dqs_peak := (if cur_depth > dqs_peak st then cur_depth else dqs_peak st)\<rparr>))"

fun dq_stats_record_drain :: "dq_stats option \<Rightarrow> int \<times> dq_stats option" where
  "dq_stats_record_drain None = (-1, None)"
| "dq_stats_record_drain (Some st) = (0, Some (st\<lparr>dqs_drained := dqs_drained st + 1\<rparr>))"

fun dq_stats_record_drop :: "dq_stats option \<Rightarrow> int \<times> dq_stats option" where
  "dq_stats_record_drop None = (-1, None)"
| "dq_stats_record_drop (Some st) = (0, Some (st\<lparr>dqs_dropped := dqs_dropped st + 1\<rparr>))"

fun dq_stats_snapshot :: "dq_stats option \<Rightarrow> dq_stats option \<Rightarrow> int \<times> dq_stats option" where
  "dq_stats_snapshot (Some st) (Some out) = (0, Some st)"
| "dq_stats_snapshot _ out = (-1, out)"

end
