(* ===== verification/Bufpool.thy ===== *)
theory Bufpool
  imports RS_Prelude
begin

text \<open>
  The buffer pool of \<^verbatim>\<open>src/src/bufpool\<close>: blocks cut from one allocation (\<^verbatim>\<open>bp_pool.c\<close>) and the
  counters (\<^verbatim>\<open>bp_stats.c\<close>).  A data pointer is the offset of the block in the allocation, a pointer to a
  block is its distance from the start of the block array (any integer, since callers may
  pass a foreign pointer to \<open>bp_pool_release\<close>).
\<close>

definition BP_MAX_BLOCKS :: nat where "BP_MAX_BLOCKS = 64"

record bp_block =
  bp_data :: nat
  bp_size :: nat
  bp_in_use :: bool

record bp_pool =
  bpp_blocks :: "bp_block list"
  bpp_n_blocks :: nat
  bpp_block_size :: nat
  bpp_in_use :: nat
  bpp_peak :: nat

text \<open>The array has 64 blocks; those beyond \<open>n_blocks\<close> stay zero.\<close>

definition bp_pool_create :: "bool \<Rightarrow> bool \<Rightarrow> int \<Rightarrow> nat \<Rightarrow> bp_pool option" where
  "bp_pool_create mem mem_backing n_blocks block_size =
     (if n_blocks < 1 \<or> n_blocks > int BP_MAX_BLOCKS \<or> block_size = 0 then None
      else if \<not> mem then None
      else if \<not> mem_backing then None
      else Some \<lparr>bpp_blocks =
          map (\<lambda>i. \<lparr>bp_data = i * block_size, bp_size = block_size, bp_in_use = False\<rparr>) [0..<nat n_blocks]
          @ replicate (BP_MAX_BLOCKS - nat n_blocks) \<lparr>bp_data = 0, bp_size = 0, bp_in_use = False\<rparr>,
        bpp_n_blocks = nat n_blocks, bpp_block_size = block_size, bpp_in_use = 0, bpp_peak = 0\<rparr>)"

fun bp_pool_acquire :: "bp_pool option \<Rightarrow> nat option \<times> bp_pool option" where
  "bp_pool_acquire None = (None, None)"
| "bp_pool_acquire (Some p) =
     (case first_idx (\<lambda>b. \<not> bp_in_use b) (take (bpp_n_blocks p) (bpp_blocks p)) of
        None \<Rightarrow> (None, Some p)
      | Some i \<Rightarrow>
          let p = p\<lparr>bpp_blocks := (bpp_blocks p)[i := (bpp_blocks p ! i)\<lparr>bp_in_use := True\<rparr>],
                    bpp_in_use := bpp_in_use p + 1\<rparr> in
          (Some i, Some (if bpp_in_use p > bpp_peak p then p\<lparr>bpp_peak := bpp_in_use p\<rparr> else p)))"

fun bp_pool_release :: "bp_pool option \<Rightarrow> int option \<Rightarrow> int \<times> bp_pool option" where
  "bp_pool_release (Some p) (Some b) =
     (if b < 0 \<or> b \<ge> int (bpp_n_blocks p) then (-1, Some p)
      else if \<not> bp_in_use (bpp_blocks p ! nat b) then (-1, Some p)
      else (0, Some (p\<lparr>bpp_blocks := (bpp_blocks p)[nat b := (bpp_blocks p ! nat b)\<lparr>bp_in_use := False\<rparr>],
                       bpp_in_use := bpp_in_use p - 1\<rparr>)))"
| "bp_pool_release p b = (-1, p)"

definition bp_pool_in_use :: "bp_pool option \<Rightarrow> nat" where
  "bp_pool_in_use p = (case p of None \<Rightarrow> 0 | Some p \<Rightarrow> bpp_in_use p)"

definition bp_pool_peak :: "bp_pool option \<Rightarrow> nat" where
  "bp_pool_peak p = (case p of None \<Rightarrow> 0 | Some p \<Rightarrow> bpp_peak p)"

definition bp_pool_capacity :: "bp_pool option \<Rightarrow> nat" where
  "bp_pool_capacity p = (case p of None \<Rightarrow> 0 | Some p \<Rightarrow> bpp_n_blocks p)"

section \<open>What the callers hold\<close>

text \<open>Calls, with the list of blocks that are out, latest first, and the largest number ever out.\<close>

datatype bp_op = BpAcquire | BpRelease int

fun bp_call :: "bp_op \<Rightarrow> bp_pool option \<times> nat list \<times> nat \<Rightarrow> bp_pool option \<times> nat list \<times> nat" where
  "bp_call BpAcquire (p, held, most) = (case bp_pool_acquire p of
     (None, p') \<Rightarrow> (p', held, most)
   | (Some i, p') \<Rightarrow> (p', i # held, max most (Suc (length held))))"
| "bp_call (BpRelease b) (p, held, most) = (case bp_pool_release p (Some b) of
     (r, p') \<Rightarrow> (p', if r = 0 then remove1 (nat b) held else held, most))"

definition bp_inv :: "nat \<Rightarrow> nat \<Rightarrow> bp_pool \<Rightarrow> nat list \<Rightarrow> nat \<Rightarrow> bool" where
  "bp_inv n sz p held most \<longleftrightarrow> n \<le> BP_MAX_BLOCKS \<and> length (bpp_blocks p) = BP_MAX_BLOCKS \<and> bpp_n_blocks p = n
     \<and> (\<forall>i<n. bp_data (bpp_blocks p ! i) = i * sz \<and> bp_size (bpp_blocks p ! i) = sz
          \<and> (bp_in_use (bpp_blocks p ! i) \<longleftrightarrow> i \<in> set held))
     \<and> distinct held \<and> set held \<subseteq> {..<n} \<and> bpp_in_use p = length held \<and> bpp_peak p = most"

lemma bp_inv_held: "bp_inv n sz p held most \<Longrightarrow> length held \<le> n"
proof -
  assume a: "bp_inv n sz p held most"
  then have "card (set held) \<le> card {..<n}" by (intro card_mono) (simp_all add: bp_inv_def)
  with a show ?thesis by (simp add: bp_inv_def distinct_card)
qed

lemma bp_acquire_inv:
  assumes "bp_inv n sz p held most"
  shows "(bp_pool_acquire (Some p) = (None, Some p) \<and> length held = n)
    \<or> (\<exists>i p'. bp_pool_acquire (Some p) = (Some i, Some p') \<and> i < n \<and> i \<notin> set held
         \<and> bp_inv n sz p' (i # held) (max most (Suc (length held))))"
proof (cases "first_idx (\<lambda>b. \<not> bp_in_use b) (take n (bpp_blocks p))")
  case None
  have "bpp_blocks p ! i \<in> set (take n (bpp_blocks p))" if "i < n" for i
    using that assms nth_mem [of i "take n (bpp_blocks p)"] by (simp add: bp_inv_def)
  then have "\<forall>i<n. bp_in_use (bpp_blocks p ! i)" using None by (auto simp: first_idx_None)
  then have "set held = {..<n}" using assms by (auto simp: bp_inv_def)
  then have "length held = n" using assms by (metis bp_inv_def card_lessThan distinct_card)
  with None assms show ?thesis by (simp add: bp_inv_def)
next
  case (Some i)
  then have i: "i < n" "i < BP_MAX_BLOCKS" "\<not> bp_in_use (bpp_blocks p ! i)"
    using first_idx_length [OF Some] first_idx_holds [OF Some] assms by (auto simp: bp_inv_def)
  then have "i \<notin> set held" using assms by (simp add: bp_inv_def)
  with i Some assms show ?thesis
    by (intro disjI2) (auto simp: bp_inv_def Let_def nth_list_update max_def)
qed

lemma bp_release_inv:
  assumes "bp_inv n sz p held most"
  shows "if 0 \<le> b \<and> nat b \<in> set held
    then \<exists>p'. bp_pool_release (Some p) (Some b) = (0, Some p') \<and> bp_inv n sz p' (remove1 (nat b) held) most
    else bp_pool_release (Some p) (Some b) = (-1, Some p)"
proof (cases "0 \<le> b \<and> nat b \<in> set held")
  case True
  then have "nat b < n" "nat b < BP_MAX_BLOCKS" using assms by (auto simp: bp_inv_def)
  with True assms show ?thesis
    by (auto simp: bp_inv_def nth_list_update length_remove1 dest: notin_set_remove1 set_remove1_subset [THEN subsetD])
next
  case False
  then show ?thesis using assms by (cases "b < 0 \<or> int n \<le> b") (auto simp: bp_inv_def nat_less_iff)
qed

lemma bp_call_inv:
  assumes "bp_inv n sz p held most"
  shows "\<exists>p' held' most'. bp_call op (Some p, held, most) = (Some p', held', most') \<and> bp_inv n sz p' held' most'"
proof (cases op)
  case BpAcquire
  then show ?thesis using bp_acquire_inv [OF assms] assms by (auto simp del: bp_pool_acquire.simps)
next
  case (BpRelease b)
  then show ?thesis using bp_release_inv [OF assms, of b] assms
    by (auto simp del: bp_pool_release.simps split: if_splits)
qed

text \<open>C14: However blocks are acquired and released, with foreign pointers and repeated releases among the calls, the
  blocks that callers hold are distinct, their byte ranges lie in the allocation and do not overlap,
  the in-use count is their number, the peak its maximum, and an acquire fails exactly
  when all the blocks are held.\<close>

theorem bufpool_exclusive:
  assumes "bp_pool_create True True n_blocks sz = Some p0"
    and "fold bp_call ops (Some p0, [], 0) = (p, held, most)"
  shows "distinct held \<and> bp_pool_in_use p = length held \<and> bp_pool_peak p = most
    \<and> (\<forall>i \<in> set held. bp_data (bpp_blocks (the p) ! i) + bp_size (bpp_blocks (the p) ! i) \<le> nat n_blocks * sz
        \<and> (\<forall>j \<in> set held. i < j \<longrightarrow> bp_data (bpp_blocks (the p) ! i) + bp_size (bpp_blocks (the p) ! i)
             \<le> bp_data (bpp_blocks (the p) ! j)))
    \<and> (fst (bp_pool_acquire p) = None \<longleftrightarrow> int (length held) = n_blocks)
    \<and> (\<forall>i. fst (bp_pool_acquire p) = Some i \<longrightarrow> i \<notin> set held)"
proof -
  have n: "1 \<le> n_blocks" and i0: "bp_inv (nat n_blocks) sz p0 [] 0"
    using assms(1) by (auto simp: bp_pool_create_def bp_inv_def nth_append split: if_splits)
  have "\<exists>q h m. fold bp_call ops (Some p, held, most) = (Some q, h, m) \<and> bp_inv k sz q h m"
    if "bp_inv k sz p held most" for p held most k using that
  proof (induction ops arbitrary: p held most)
    case (Cons op ops)
    from bp_call_inv [OF Cons.prems, of op] Cons.IH show ?case by fastforce
  qed simp
  from this [OF i0] assms(2) obtain q where q: "p = Some q" and i: "bp_inv (nat n_blocks) sz q held most" by auto
  have "i * sz + sz \<le> nat n_blocks * sz" "i < j \<Longrightarrow> i * sz + sz \<le> j * sz" if "i < nat n_blocks" for i j
    using mult_le_mono1 [of "Suc i" "nat n_blocks" sz] mult_le_mono1 [of "Suc i" j sz] that by auto
  then have ranges: "\<forall>i \<in> set held. bp_data (bpp_blocks q ! i) + bp_size (bpp_blocks q ! i) \<le> nat n_blocks * sz
        \<and> (\<forall>j \<in> set held. i < j \<longrightarrow> bp_data (bpp_blocks q ! i) + bp_size (bpp_blocks q ! i) \<le> bp_data (bpp_blocks q ! j))"
    using i by (auto simp: bp_inv_def subset_iff)
  have acq: "(fst (bp_pool_acquire p) = None \<longleftrightarrow> int (length held) = n_blocks) \<and> (\<forall>i. fst (bp_pool_acquire p) = Some i \<longrightarrow> i \<notin> set held)"
  proof (cases "fst (bp_pool_acquire p)")
    case None
    then show ?thesis using bp_acquire_inv [OF i] n by (auto simp: q simp del: bp_pool_acquire.simps)
  next
    case (Some j)
    then obtain p' where "bp_inv (nat n_blocks) sz p' (j # held) (max most (Suc (length held)))" "j \<notin> set held"
      using bp_acquire_inv [OF i] by (auto simp: q simp del: bp_pool_acquire.simps)
    with bp_inv_held [OF this(1)] Some show ?thesis by auto
  qed
  show ?thesis using i ranges acq
    by (simp add: q bp_inv_def bp_pool_in_use_def bp_pool_peak_def del: bp_pool_acquire.simps)
qed

lemma bufpool_exclusive_witness:
  "\<exists>p. fold bp_call [BpAcquire, BpAcquire, BpRelease 7, BpRelease 0, BpAcquire] (bp_pool_create True True 2 16, [], 0)
      = (p, [0, 1], 2) \<and> fst (bp_pool_acquire p) = None"
proof -
  obtain p0 where p0: "bp_pool_create True True 2 16 = Some p0" by (simp add: bp_pool_create_def BP_MAX_BLOCKS_def)
  have "snd (fold bp_call [BpAcquire, BpAcquire, BpRelease 7, BpRelease 0, BpAcquire] (bp_pool_create True True 2 16, [], 0))
      = ([0, 1], 2)" by code_simp
  then obtain p where p: "fold bp_call [BpAcquire, BpAcquire, BpRelease 7, BpRelease 0, BpAcquire] (Some p0, [], 0)
      = (p, [0, 1], 2)" by (metis p0 prod.collapse)
  from bufpool_exclusive [OF p0 p] p show ?thesis by (auto simp: p0)
qed

section \<open>Statistics\<close>

record bp_stats =
  bps_alloc_count :: u64
  bps_free_count :: u64
  bps_peak_in_use :: int
  bps_fail_count :: u64

definition bp_stats_zero :: bp_stats where
  "bp_stats_zero = \<lparr>bps_alloc_count = 0, bps_free_count = 0, bps_peak_in_use = 0, bps_fail_count = 0\<rparr>"

definition bp_stats_create :: "bool \<Rightarrow> bp_stats option" where
  "bp_stats_create mem = (if mem then Some bp_stats_zero else None)"

definition bp_stats_reset :: "bp_stats option \<Rightarrow> bp_stats option" where
  "bp_stats_reset st = map_option (\<lambda>_. bp_stats_zero) st"

fun bp_stats_record_alloc :: "bp_stats option \<Rightarrow> int \<Rightarrow> int \<times> bp_stats option" where
  "bp_stats_record_alloc None in_use = (-1, None)"
| "bp_stats_record_alloc (Some st) in_use =
     (0, Some (st\<lparr>bps_alloc_count := bps_alloc_count st + 1,
        bps_peak_in_use := (if in_use > bps_peak_in_use st then in_use else bps_peak_in_use st)\<rparr>))"

fun bp_stats_record_free :: "bp_stats option \<Rightarrow> int \<times> bp_stats option" where
  "bp_stats_record_free None = (-1, None)"
| "bp_stats_record_free (Some st) = (0, Some (st\<lparr>bps_free_count := bps_free_count st + 1\<rparr>))"

fun bp_stats_record_fail :: "bp_stats option \<Rightarrow> int \<times> bp_stats option" where
  "bp_stats_record_fail None = (-1, None)"
| "bp_stats_record_fail (Some st) = (0, Some (st\<lparr>bps_fail_count := bps_fail_count st + 1\<rparr>))"

fun bp_stats_snapshot :: "bp_stats option \<Rightarrow> bp_stats option \<Rightarrow> int \<times> bp_stats option" where
  "bp_stats_snapshot (Some st) (Some out) = (0, Some st)"
| "bp_stats_snapshot _ out = (-1, out)"

end
