(* ===== verification/Handles.thy ===== *)
theory Handles
  imports Slots
begin

text \<open>
  Tables whose entries are known by a handle that a counter of the table hands out (subscriptions of the event
  bus, routes of the signal router): the contract, and its refinement by a list of entries in the order in
  which they were added.
\<close>

datatype 'a handle_op = HAdd 'a | HRemove int

locale handle_table =
  fixes inv :: "'s \<Rightarrow> bool"
    and live :: "'s \<Rightarrow> 'v multiset"
    and next_handle :: "'s \<Rightarrow> int"
    and cap :: nat
    and handle :: "'v \<Rightarrow> int"
    and mk :: "int \<Rightarrow> 'a \<Rightarrow> 'v"
    and add :: "'s \<Rightarrow> 'a \<Rightarrow> 's option"
    and remove :: "'s \<Rightarrow> int \<Rightarrow> 's option"
  assumes cap_live: "inv s \<Longrightarrow> size (live s) \<le> cap"
    and handle_mk: "handle (mk h a) = h"
    and add_full: "inv s \<Longrightarrow> size (live s) = cap \<Longrightarrow> add s a = None"
    and add_room: "inv s \<Longrightarrow> size (live s) < cap \<Longrightarrow> \<exists>s'. add s a = Some s' \<and> inv s'
      \<and> next_handle s' = next_handle s + 1 \<and> live s' = add_mset (mk (next_handle s) a) (live s)"
    and remove_None: "inv s \<Longrightarrow> remove s h = None \<longleftrightarrow> (\<forall>v \<in># live s. handle v \<noteq> h)"
    and remove_Some: "inv s \<Longrightarrow> remove s h = Some s' \<Longrightarrow> inv s' \<and> next_handle s' = next_handle s
      \<and> (\<exists>v. handle v = h \<and> live s = add_mset v (live s'))"
begin

fun step :: "'a handle_op \<Rightarrow> 's \<Rightarrow> 's" where
  "step (HAdd a) s = (case add s a of None \<Rightarrow> s | Some s' \<Rightarrow> s')"
| "step (HRemove h) s = (case remove s h of None \<Rightarrow> s | Some s' \<Rightarrow> s')"

fun spec :: "'a handle_op \<Rightarrow> 'v list \<times> int \<Rightarrow> 'v list \<times> int" where
  "spec (HAdd a) (vs, n) = (if length vs < cap then (vs @ [mk n a], n + 1) else (vs, n))"
| "spec (HRemove h) (vs, n) = (filter (\<lambda>v. handle v \<noteq> h) vs, n)"

definition matches :: "'s \<Rightarrow> 'v list \<times> int \<Rightarrow> bool" where
  "matches s t \<longleftrightarrow> inv s \<and> live s = mset (fst t) \<and> next_handle s = snd t
     \<and> distinct (map handle (fst t)) \<and> (\<forall>v \<in> set (fst t). handle v < snd t)"

lemma filter_handle_other:
  "distinct (map handle vs) \<Longrightarrow> v \<in> set vs \<Longrightarrow> mset vs = add_mset v (mset (filter (\<lambda>w. handle w \<noteq> handle v) vs))"
proof (induction vs)
  case (Cons w vs)
  show ?case
  proof (cases "v = w")
    case True
    then have "filter (\<lambda>u. handle u \<noteq> handle w) vs = vs" using Cons.prems by (auto simp: filter_id_conv image_iff)
    with True show ?thesis by simp
  next
    case False
    then have "v \<in> set vs" using Cons.prems by simp
    moreover have "handle w \<noteq> handle v" using Cons.prems calculation by (auto simp: image_iff)
    ultimately show ?thesis using Cons by simp
  qed
qed simp

lemma step_spec:
  assumes "matches s t"
  shows "matches (step op s) (spec op t)"
proof -
  obtain vs n where t: "t = (vs, n)" by (cases t)
  from assms have m: "inv s" "live s = mset vs" "next_handle s = n" "distinct (map handle vs)" "\<forall>v \<in> set vs. handle v < n"
    by (simp_all add: matches_def t)
  show ?thesis
  proof (cases op)
    case (HAdd a)
    show ?thesis
    proof (cases "length vs < cap")
      case True
      with add_room [OF m(1), of a] m obtain s' where s': "add s a = Some s'" "inv s'" "next_handle s' = n + 1"
        "live s' = add_mset (mk n a) (mset vs)" by auto
      with True m show ?thesis by (fastforce simp: HAdd t matches_def handle_mk)
    next
      case False
      then have "size (live s) = cap" using cap_live [OF m(1)] m(2) by simp
      with add_full [OF m(1), of a] False m show ?thesis by (simp add: HAdd t matches_def)
    qed
  next
    case (HRemove h)
    show ?thesis
    proof (cases "remove s h")
      case None
      then have "\<forall>v \<in> set vs. handle v \<noteq> h" using remove_None [OF m(1)] m(2) by auto
      then have "filter (\<lambda>v. handle v \<noteq> h) vs = vs" by (auto simp: filter_id_conv)
      with None m show ?thesis by (simp add: HRemove t matches_def)
    next
      case (Some s')
      from remove_Some [OF m(1) Some] obtain v where v: "inv s'" "next_handle s' = n" "handle v = h"
        "mset vs = add_mset v (live s')" using m by auto
      then have "v \<in> set vs" by (metis union_single_eq_member set_mset_mset)
      from filter_handle_other [OF m(4) this] v have "live s' = mset (filter (\<lambda>v. handle v \<noteq> h) vs)" by simp
      with v Some m show ?thesis by (auto simp: HRemove t matches_def distinct_map_filter)
    qed
  qed
qed

lemma run_spec: "matches s t \<Longrightarrow> matches (fold step ops s) (fold spec ops t)"
  by (induction ops arbitrary: s t) (auto simp: step_spec)

end

end
