(* ===== verification/Eventbus.thy ===== *)
theory Eventbus
  imports Handles
begin

text \<open>
  The event bus of \<^verbatim>\<open>src/src/eventbus\<close>: events (\<^verbatim>\<open>eb_event.c\<close>), subscriptions and publication
  (\<^verbatim>\<open>eb_bus.c\<close>), counters (\<^verbatim>\<open>eb_stats.c\<close>).  Callbacks are opaque values; publishing yields the list of
  the calls it makes, for callbacks that do not themselves change the bus.  Handles are C ints that
  only grow; they are unbounded here.
\<close>

definition EB_MAX_SUBSCRIBERS :: nat where "EB_MAX_SUBSCRIBERS = 16"
definition EB_TYPE_ANY :: u32 where "EB_TYPE_ANY = - 1"
definition EB_INVALID_HANDLE :: int where "EB_INVALID_HANDLE = -1"

record 'p eb_event =
  eb_type_id :: u32
  eb_payload :: "'p option"
  eb_payload_len :: u64
  eb_timestamp_us :: u64

fun eb_event_init :: "'p eb_event option \<Rightarrow> u32 \<Rightarrow> 'p option \<Rightarrow> u64 \<Rightarrow> u64 \<Rightarrow> int \<times> 'p eb_event option" where
  "eb_event_init None type_id payload payload_len timestamp_us = (-1, None)"
| "eb_event_init (Some e) type_id payload payload_len timestamp_us =
     (0, Some \<lparr>eb_type_id = type_id, eb_payload = payload, eb_payload_len = payload_len,
               eb_timestamp_us = timestamp_us\<rparr>)"

record ('c, 'u) subscription =
  sub_type_id :: u32
  sub_cb :: "'c option"
  sub_user :: "'u option"
  sub_in_use :: bool
  sub_handle :: int

record ('c, 'u) eb_bus =
  eb_subs :: "('c, 'u) subscription list"
  eb_count :: nat
  eb_next_handle :: int

definition eb_zero_sub :: "('c, 'u) subscription" where
  "eb_zero_sub = \<lparr>sub_type_id = 0, sub_cb = None, sub_user = None, sub_in_use = False, sub_handle = 0\<rparr>"

definition eb_bus_create :: "bool \<Rightarrow> ('c, 'u) eb_bus option" where
  "eb_bus_create mem = (if mem then Some \<lparr>eb_subs = replicate EB_MAX_SUBSCRIBERS eb_zero_sub, eb_count = 0,
     eb_next_handle = 0\<rparr> else None)"

definition eb_bus_subscriber_count :: "('c, 'u) eb_bus option \<Rightarrow> nat" where
  "eb_bus_subscriber_count b = (case b of None \<Rightarrow> 0 | Some b \<Rightarrow> eb_count b)"

fun eb_bus_subscribe :: "('c, 'u) eb_bus option \<Rightarrow> u32 \<Rightarrow> 'c option \<Rightarrow> 'u option \<Rightarrow> int \<times> ('c, 'u) eb_bus option" where
  "eb_bus_subscribe (Some b) type_id (Some cb) user =
     (if eb_count b \<ge> EB_MAX_SUBSCRIBERS then (EB_INVALID_HANDLE, Some b)
      else case slot_free sub_in_use (eb_subs b) of
        None \<Rightarrow> (EB_INVALID_HANDLE, Some b)
      | Some i \<Rightarrow> (eb_next_handle b, Some (b\<lparr>eb_subs := (eb_subs b)[i :=
            \<lparr>sub_type_id = type_id, sub_cb = Some cb, sub_user = user, sub_in_use = True,
             sub_handle = eb_next_handle b\<rparr>],
          eb_next_handle := eb_next_handle b + 1, eb_count := eb_count b + 1\<rparr>)))"
| "eb_bus_subscribe b type_id cb user = (EB_INVALID_HANDLE, b)"

fun eb_bus_unsubscribe :: "('c, 'u) eb_bus option \<Rightarrow> int \<Rightarrow> int \<times> ('c, 'u) eb_bus option" where
  "eb_bus_unsubscribe None h = (-1, None)"
| "eb_bus_unsubscribe (Some b) h =
     (if h < 0 then (-1, Some b)
      else case slot_find sub_in_use (\<lambda>s h. sub_handle s = h) (eb_subs b) h of
        None \<Rightarrow> (-1, Some b)
      | Some i \<Rightarrow> (0, Some (b\<lparr>eb_subs := (eb_subs b)[i := eb_zero_sub], eb_count := eb_count b - 1\<rparr>)))"

definition eb_wants :: "u32 \<Rightarrow> ('c, 'u) subscription \<Rightarrow> bool" where
  "eb_wants t s \<longleftrightarrow> sub_type_id s = EB_TYPE_ANY \<or> sub_type_id s = t"

fun eb_bus_publish :: "('c, 'u) eb_bus option \<Rightarrow> 'p eb_event option \<Rightarrow> nat \<times> ('c option \<times> 'u option) list" where
  "eb_bus_publish (Some b) (Some e) =
     foldl (\<lambda>(dispatched, calls) s.
        if \<not> sub_in_use s then (dispatched, calls)
        else if eb_wants (eb_type_id e) s then (dispatched + 1, calls @ [(sub_cb s, sub_user s)])
        else (dispatched, calls)) (0, []) (eb_subs b)"
| "eb_bus_publish b e = (0, [])"

section \<open>The bus as a handle table\<close>

definition eb_live :: "('c, 'u) eb_bus \<Rightarrow> ('c, 'u) subscription multiset" where
  "eb_live b = slot_live sub_in_use (eb_subs b)"

definition eb_inv :: "('c, 'u) eb_bus \<Rightarrow> bool" where
  "eb_inv b \<longleftrightarrow> length (eb_subs b) = EB_MAX_SUBSCRIBERS \<and> eb_count b = size (eb_live b)
     \<and> 0 \<le> eb_next_handle b \<and> (\<forall>s \<in># eb_live b. 0 \<le> sub_handle s)"

definition eb_mk :: "int \<Rightarrow> u32 \<times> 'c \<times> 'u option \<Rightarrow> ('c, 'u) subscription" where
  "eb_mk h a = (case a of (t, cb, u) \<Rightarrow>
     \<lparr>sub_type_id = t, sub_cb = Some cb, sub_user = u, sub_in_use = True, sub_handle = h\<rparr>)"

definition eb_add :: "('c, 'u) eb_bus \<Rightarrow> u32 \<times> 'c \<times> 'u option \<Rightarrow> ('c, 'u) eb_bus option" where
  "eb_add b a = (case a of (t, cb, u) \<Rightarrow> case eb_bus_subscribe (Some b) t (Some cb) u of
     (h, b') \<Rightarrow> if h = EB_INVALID_HANDLE then None else b')"

definition eb_remove :: "('c, 'u) eb_bus \<Rightarrow> int \<Rightarrow> ('c, 'u) eb_bus option" where
  "eb_remove b h = (case eb_bus_unsubscribe (Some b) h of (r, b') \<Rightarrow> if r = 0 then b' else None)"

lemma eb_mk_simps [simp]: "sub_in_use (eb_mk h a)" "sub_handle (eb_mk h a) = h" "\<not> sub_in_use eb_zero_sub"
  by (simp_all add: eb_mk_def eb_zero_sub_def split: prod.split)

interpretation eb: handle_table eb_inv eb_live eb_next_handle EB_MAX_SUBSCRIBERS sub_handle eb_mk eb_add eb_remove
proof (unfold_locales, goal_cases)
  case (1 s) then show ?case using size_slot_live_le [of sub_in_use "eb_subs s"] by (simp add: eb_inv_def eb_live_def)
next
  case (2 h a) then show ?case by simp
next
  case (3 s a) then show ?case by (auto simp: eb_inv_def eb_add_def EB_INVALID_HANDLE_def split: prod.splits)
next
  case (4 s a)
  then obtain i where i: "slot_free sub_in_use (eb_subs s) = Some i"
    using slot_free_Some [of sub_in_use "eb_subs s"] by (auto simp: eb_inv_def eb_live_def)
  have "eb_add s a = Some (s\<lparr>eb_subs := (eb_subs s)[i := eb_mk (eb_next_handle s) a],
      eb_next_handle := eb_next_handle s + 1, eb_count := eb_count s + 1\<rparr>)"
    using 4 i by (auto simp: eb_add_def eb_inv_def eb_mk_def EB_INVALID_HANDLE_def split: prod.split)
  with 4 slot_live_fill [OF i, of "eb_mk (eb_next_handle s) a"] show ?case by (auto simp: eb_inv_def eb_live_def)
next
  case (5 s h)
  have e: "eb_remove s h = None \<longleftrightarrow> h < 0 \<or> slot_find sub_in_use (\<lambda>s h. sub_handle s = h) (eb_subs s) h = None"
    by (simp add: eb_remove_def split: option.split)
  show ?case
  proof (cases "h < 0")
    case True
    with 5 show ?thesis unfolding e by (auto simp: eb_inv_def)
  next
    case False
    then show ?thesis unfolding e slot_find_None eb_live_def by blast
  qed
next
  case (6 s h s')
  then obtain i where i: "slot_find sub_in_use (\<lambda>s h. sub_handle s = h) (eb_subs s) h = Some i"
    by (auto simp: eb_remove_def split: option.splits if_splits)
  note f = slot_findD [OF i]
  have "s' = s\<lparr>eb_subs := (eb_subs s)[i := eb_zero_sub], eb_count := eb_count s - 1\<rparr>"
    using 6 i by (auto simp: eb_remove_def split: if_splits)
  with 6 f slot_live_clear [OF i, of eb_zero_sub] show ?case by (auto simp: eb_inv_def eb_live_def)
qed

section \<open>Delivery\<close>

fun eb_call :: "(u32 \<times> 'c \<times> 'u option) handle_op \<Rightarrow> ('c, 'u) eb_bus option \<Rightarrow> ('c, 'u) eb_bus option" where
  "eb_call (HAdd (t, cb, u)) b = snd (eb_bus_subscribe b t (Some cb) u)"
| "eb_call (HRemove h) b = snd (eb_bus_unsubscribe b h)"

lemma eb_call_step: "eb_inv b \<Longrightarrow> eb_call op (Some b) = Some (eb.step op b)"
  by (cases op) (auto simp: eb_add_def eb_remove_def eb_inv_def EB_INVALID_HANDLE_def split: prod.splits option.splits)

lemma eb_calls: "eb.matches b t \<Longrightarrow> fold eb_call ops (Some b) = Some (fold eb.step ops b)"
proof (induction ops arbitrary: b t)
  case (Cons op ops)
  have "eb_inv b" using Cons.prems by (simp add: eb.matches_def)
  with Cons.IH [OF eb.step_spec [OF Cons.prems]] show ?case by (simp add: eb_call_step)
qed simp

lemma eb_publish_filter:
  "eb_bus_publish (Some b) (Some e) = (length (filter (\<lambda>s. sub_in_use s \<and> eb_wants (eb_type_id e) s) (eb_subs b)),
     map (\<lambda>s. (sub_cb s, sub_user s)) (filter (\<lambda>s. sub_in_use s \<and> eb_wants (eb_type_id e) s) (eb_subs b)))"
proof -
  have "foldl (\<lambda>(dispatched, calls) s.
        if \<not> sub_in_use s then (dispatched, calls)
        else if eb_wants (eb_type_id e) s then (dispatched + 1, calls @ [(sub_cb s, sub_user s)])
        else (dispatched, calls)) (n, cs) ss
      = (n + length (filter (\<lambda>s. sub_in_use s \<and> eb_wants (eb_type_id e) s) ss),
         cs @ map (\<lambda>s. (sub_cb s, sub_user s)) (filter (\<lambda>s. sub_in_use s \<and> eb_wants (eb_type_id e) s) ss))" for ss n cs
    by (induction ss arbitrary: n cs) auto
  from this [of 0 "[]" "eb_subs b"] show ?thesis by (simp only: eb_bus_publish.simps add_0 append_Nil)
qed

text \<open>C38: After any subscribes and unsubscribes, publishing an event calls each subscription that was
  made and not removed and whose type is the event's or the wildcard, exactly once, and nothing else; the
  handles of the subscriptions are distinct, so an unsubscribe removes exactly the one it names.\<close>

theorem eventbus_delivery:
  assumes "fold eb.spec ops ([], 0) = (subs, n)"
  shows "\<exists>b calls. fold eb_call ops (eb_bus_create True) = Some b
    \<and> eb_bus_publish (Some b) (Some e) = (length calls, calls)
    \<and> mset calls = mset (map (\<lambda>s. (sub_cb s, sub_user s)) (filter (eb_wants (eb_type_id e)) subs))
    \<and> distinct (map sub_handle subs) \<and> eb_bus_subscriber_count (Some b) = length subs"
proof -
  let ?b0 = "\<lparr>eb_subs = replicate EB_MAX_SUBSCRIBERS eb_zero_sub, eb_count = 0, eb_next_handle = 0\<rparr>"
  have b0: "eb.matches ?b0 ([], 0)" by (simp add: eb.matches_def eb_inv_def eb_live_def)
  let ?b = "fold eb.step ops ?b0"
  have m: "eb.matches ?b (subs, n)" using eb.run_spec [OF b0, of ops] assms by simp
  then have l: "slot_live sub_in_use (eb_subs ?b) = mset subs" and i: "eb_inv ?b"
    by (simp_all add: eb.matches_def eb_live_def)
  let ?calls = "map (\<lambda>s. (sub_cb s, sub_user s)) (filter (\<lambda>s. sub_in_use s \<and> eb_wants (eb_type_id e) s) (eb_subs ?b))"
  have "filter_mset (\<lambda>s. sub_in_use s \<and> eb_wants (eb_type_id e) s) (mset (eb_subs ?b))
      = filter_mset (eb_wants (eb_type_id e)) (mset subs)"
    by (simp add: l [symmetric] slot_live_def filter_filter_mset conj_commute)
  then have c: "mset ?calls = mset (map (\<lambda>s. (sub_cb s, sub_user s)) (filter (eb_wants (eb_type_id e)) subs))"
    by simp
  have "eb_count ?b = length subs" using i l by (simp add: eb_inv_def eb_live_def)
  then show ?thesis using eb_calls [OF b0, of ops] c m
    by (intro exI [of _ ?b] exI [of _ ?calls])
      (simp add: eb_bus_create_def eb_publish_filter eb.matches_def eb_bus_subscriber_count_def
         del: eb_bus_publish.simps)
qed

lemma EB_room: "0 < EB_MAX_SUBSCRIBERS" "Suc 0 < EB_MAX_SUBSCRIBERS"
  by (simp_all add: EB_MAX_SUBSCRIBERS_def)

lemma eventbus_delivery_witness:
  "\<exists>b calls. fold eb_call [HAdd (3, ''log'', None), HAdd (EB_TYPE_ANY, ''all'', Some True), HRemove 0] (eb_bus_create True) = Some b
     \<and> eb_bus_publish (Some b) (Some \<lparr>eb_type_id = 3, eb_payload = None :: nat option, eb_payload_len = 0, eb_timestamp_us = 1\<rparr>)
       = (length calls, calls) \<and> mset calls = {#(Some ''all'', Some True)#}"
  using eventbus_delivery [OF prod.collapse [symmetric], of "[HAdd (3, ''log'', None), HAdd (EB_TYPE_ANY, ''all'', Some True), HRemove 0]"
      "\<lparr>eb_type_id = 3, eb_payload = None :: nat option, eb_payload_len = 0, eb_timestamp_us = 1\<rparr>"]
  by (auto simp: EB_room eb_mk_def eb_wants_def simp del: eb_bus_publish.simps)

text \<open>The header promises the order of subscription; a slot that was freed is taken by the next subscriber, which
  is then called before older ones.\<close>

lemma eventbus_slot_order:
  "map_option (\<lambda>b. snd (eb_bus_publish (Some b)
        (Some \<lparr>eb_type_id = 3, eb_payload = None :: nat option, eb_payload_len = 0, eb_timestamp_us = 1\<rparr>)))
      (fold eb_call [HAdd (3, 1, None), HAdd (3, 2, None), HRemove 0, HAdd (3, 3, None)]
        (eb_bus_create True :: (nat, nat) eb_bus option))
    = Some [(Some 3, None), (Some 2, None)]"
  by code_simp

section \<open>Statistics\<close>

record eb_stats =
  ebs_published_count :: u64
  ebs_dispatch_count :: u64
  ebs_dropped_count :: u64

definition eb_stats_zero :: eb_stats where
  "eb_stats_zero = \<lparr>ebs_published_count = 0, ebs_dispatch_count = 0, ebs_dropped_count = 0\<rparr>"

definition eb_stats_create :: "bool \<Rightarrow> eb_stats option" where
  "eb_stats_create mem = (if mem then Some eb_stats_zero else None)"

definition eb_stats_reset :: "eb_stats option \<Rightarrow> eb_stats option" where
  "eb_stats_reset st = map_option (\<lambda>_. eb_stats_zero) st"

fun eb_stats_record_publish :: "eb_stats option \<Rightarrow> int \<Rightarrow> int \<times> eb_stats option" where
  "eb_stats_record_publish None dispatch_n = (-1, None)"
| "eb_stats_record_publish (Some st) dispatch_n =
     (let st = st\<lparr>ebs_published_count := ebs_published_count st + 1\<rparr> in
      (0, Some (if dispatch_n \<le> 0 then st\<lparr>ebs_dropped_count := ebs_dropped_count st + 1\<rparr>
                else st\<lparr>ebs_dispatch_count := ebs_dispatch_count st + of_int dispatch_n\<rparr>)))"

fun eb_stats_snapshot :: "eb_stats option \<Rightarrow> eb_stats option \<Rightarrow> int \<times> eb_stats option" where
  "eb_stats_snapshot (Some st) (Some out) = (0, Some st)"
| "eb_stats_snapshot _ out = (-1, out)"

end
