(* ===== verification/Sigroute.thy ===== *)
theory Sigroute
  imports Handles
begin

text \<open>
  The signal router of \<^verbatim>\<open>src/src/sigroute\<close>: signals (\<^verbatim>\<open>sr_signal.c\<close>), routes with a mask, a value and an
  optional predicate (\<^verbatim>\<open>sr_route.c\<close>), counters (\<^verbatim>\<open>sr_stats.c\<close>).  A predicate is a function of the signal
  and the user data, a delivery callback an opaque value; routing yields the list of the deliveries it makes.
  The callbacks do not themselves change the router; handles are C ints that only grow, unbounded here.
\<close>

definition SR_MAX_ROUTES :: nat where "SR_MAX_ROUTES = 32"
definition SR_INVALID_HANDLE :: int where "SR_INVALID_HANDLE = -1"

record sr_signal =
  sr_signal_id :: u32
  sr_level :: u8
  sr_source_id :: u32
  sr_timestamp_us :: u64

fun sr_signal_init :: "sr_signal option \<Rightarrow> u32 \<Rightarrow> u8 \<Rightarrow> u32 \<Rightarrow> u64 \<Rightarrow> int \<times> sr_signal option" where
  "sr_signal_init None signal_id level source_id timestamp_us = (-1, None)"
| "sr_signal_init (Some s) signal_id level source_id timestamp_us =
     (0, Some \<lparr>sr_signal_id = signal_id, sr_level = level, sr_source_id = source_id, sr_timestamp_us = timestamp_us\<rparr>)"

record ('c, 'u) route_entry =
  rte_src_mask :: u32
  rte_match_id :: u32
  rte_filter :: "(sr_signal \<Rightarrow> 'u option \<Rightarrow> bool) option"
  rte_deliver :: "'c option"
  rte_user :: "'u option"
  rte_in_use :: bool
  rte_handle :: int

record ('c, 'u) sr_router =
  srr_routes :: "('c, 'u) route_entry list"
  srr_count :: nat
  srr_next_handle :: int

definition sr_zero_route :: "('c, 'u) route_entry" where
  "sr_zero_route = \<lparr>rte_src_mask = 0, rte_match_id = 0, rte_filter = None, rte_deliver = None, rte_user = None,
     rte_in_use = False, rte_handle = 0\<rparr>"

definition sr_router_create :: "bool \<Rightarrow> ('c, 'u) sr_router option" where
  "sr_router_create mem = (if mem then Some \<lparr>srr_routes = replicate SR_MAX_ROUTES sr_zero_route, srr_count = 0,
     srr_next_handle = 0\<rparr> else None)"

definition sr_router_count :: "('c, 'u) sr_router option \<Rightarrow> nat" where
  "sr_router_count r = (case r of None \<Rightarrow> 0 | Some r \<Rightarrow> srr_count r)"

fun sr_router_add_route :: "('c, 'u) sr_router option \<Rightarrow> u32 \<Rightarrow> u32 \<Rightarrow> (sr_signal \<Rightarrow> 'u option \<Rightarrow> bool) option \<Rightarrow>
    'c option \<Rightarrow> 'u option \<Rightarrow> int \<times> ('c, 'u) sr_router option" where
  "sr_router_add_route (Some r) src_mask match_id filter_fn (Some deliver) user =
     (if srr_count r \<ge> SR_MAX_ROUTES then (SR_INVALID_HANDLE, Some r)
      else case slot_free rte_in_use (srr_routes r) of
        None \<Rightarrow> (SR_INVALID_HANDLE, Some r)
      | Some i \<Rightarrow> (srr_next_handle r, Some (r\<lparr>srr_routes := (srr_routes r)[i :=
            \<lparr>rte_src_mask = src_mask, rte_match_id = match_id, rte_filter = filter_fn, rte_deliver = Some deliver,
             rte_user = user, rte_in_use = True, rte_handle = srr_next_handle r\<rparr>],
          srr_next_handle := srr_next_handle r + 1, srr_count := srr_count r + 1\<rparr>)))"
| "sr_router_add_route r src_mask match_id filter_fn deliver user = (SR_INVALID_HANDLE, r)"

fun sr_router_remove_route :: "('c, 'u) sr_router option \<Rightarrow> int \<Rightarrow> int \<times> ('c, 'u) sr_router option" where
  "sr_router_remove_route None h = (-1, None)"
| "sr_router_remove_route (Some r) h =
     (if h < 0 then (-1, Some r)
      else case slot_find rte_in_use (\<lambda>s h. rte_handle s = h) (srr_routes r) h of
        None \<Rightarrow> (-1, Some r)
      | Some i \<Rightarrow> (0, Some (r\<lparr>srr_routes := (srr_routes r)[i := sr_zero_route], srr_count := srr_count r - 1\<rparr>)))"

fun sr_router_route :: "('c, 'u) sr_router option \<Rightarrow> sr_signal option \<Rightarrow> nat \<times> ('c option \<times> 'u option) list" where
  "sr_router_route (Some r) (Some s) =
     foldl (\<lambda>(delivered, out) t.
        if \<not> rte_in_use t then (delivered, out)
        else if sr_signal_id s AND rte_src_mask t \<noteq> rte_match_id t then (delivered, out)
        else if (case rte_filter t of None \<Rightarrow> False | Some f \<Rightarrow> \<not> f s (rte_user t)) then (delivered, out)
        else (delivered + 1, out @ [(rte_deliver t, rte_user t)])) (0, []) (srr_routes r)"
| "sr_router_route r s = (0, [])"

section \<open>The router as a handle table\<close>

definition sr_live :: "('c, 'u) sr_router \<Rightarrow> ('c, 'u) route_entry multiset" where
  "sr_live r = slot_live rte_in_use (srr_routes r)"

definition sr_inv :: "('c, 'u) sr_router \<Rightarrow> bool" where
  "sr_inv r \<longleftrightarrow> length (srr_routes r) = SR_MAX_ROUTES \<and> srr_count r = size (sr_live r)
     \<and> 0 \<le> srr_next_handle r \<and> (\<forall>s \<in># sr_live r. 0 \<le> rte_handle s)"

type_synonym ('c, 'u) route_args = "u32 \<times> u32 \<times> (sr_signal \<Rightarrow> 'u option \<Rightarrow> bool) option \<times> 'c \<times> 'u option"

definition sr_mk :: "int \<Rightarrow> ('c, 'u) route_args \<Rightarrow> ('c, 'u) route_entry" where
  "sr_mk h a = (case a of (m, i, f, d, u) \<Rightarrow>
     \<lparr>rte_src_mask = m, rte_match_id = i, rte_filter = f, rte_deliver = Some d, rte_user = u, rte_in_use = True,
      rte_handle = h\<rparr>)"

definition sr_add :: "('c, 'u) sr_router \<Rightarrow> ('c, 'u) route_args \<Rightarrow> ('c, 'u) sr_router option" where
  "sr_add r a = (case a of (m, i, f, d, u) \<Rightarrow> case sr_router_add_route (Some r) m i f (Some d) u of
     (h, r') \<Rightarrow> if h = SR_INVALID_HANDLE then None else r')"

definition sr_remove :: "('c, 'u) sr_router \<Rightarrow> int \<Rightarrow> ('c, 'u) sr_router option" where
  "sr_remove r h = (case sr_router_remove_route (Some r) h of (x, r') \<Rightarrow> if x = 0 then r' else None)"

lemma sr_mk_simps [simp]: "rte_in_use (sr_mk h a)" "rte_handle (sr_mk h a) = h" "\<not> rte_in_use sr_zero_route"
  by (simp_all add: sr_mk_def sr_zero_route_def split: prod.split)

interpretation sr: handle_table sr_inv sr_live srr_next_handle SR_MAX_ROUTES rte_handle sr_mk sr_add sr_remove
proof (unfold_locales, goal_cases)
  case (1 s) then show ?case using size_slot_live_le [of rte_in_use "srr_routes s"] by (simp add: sr_inv_def sr_live_def)
next
  case (2 h a) then show ?case by simp
next
  case (3 s a) then show ?case by (auto simp: sr_inv_def sr_add_def SR_INVALID_HANDLE_def split: prod.splits)
next
  case (4 s a)
  then obtain i where i: "slot_free rte_in_use (srr_routes s) = Some i"
    using slot_free_Some [of rte_in_use "srr_routes s"] by (auto simp: sr_inv_def sr_live_def)
  have "sr_add s a = Some (s\<lparr>srr_routes := (srr_routes s)[i := sr_mk (srr_next_handle s) a],
      srr_next_handle := srr_next_handle s + 1, srr_count := srr_count s + 1\<rparr>)"
    using 4 i by (auto simp: sr_add_def sr_inv_def sr_mk_def SR_INVALID_HANDLE_def split: prod.split)
  with 4 slot_live_fill [OF i, of "sr_mk (srr_next_handle s) a"] show ?case by (auto simp: sr_inv_def sr_live_def)
next
  case (5 s h)
  have e: "sr_remove s h = None \<longleftrightarrow> h < 0 \<or> slot_find rte_in_use (\<lambda>s h. rte_handle s = h) (srr_routes s) h = None"
    by (simp add: sr_remove_def split: option.split)
  show ?case
  proof (cases "h < 0")
    case True
    with 5 show ?thesis unfolding e by (auto simp: sr_inv_def)
  next
    case False
    then show ?thesis unfolding e slot_find_None sr_live_def by blast
  qed
next
  case (6 s h s')
  then obtain i where i: "slot_find rte_in_use (\<lambda>s h. rte_handle s = h) (srr_routes s) h = Some i"
    by (auto simp: sr_remove_def split: option.splits if_splits)
  note f = slot_findD [OF i]
  have "s' = s\<lparr>srr_routes := (srr_routes s)[i := sr_zero_route], srr_count := srr_count s - 1\<rparr>"
    using 6 i by (auto simp: sr_remove_def split: if_splits)
  with 6 f slot_live_clear [OF i, of sr_zero_route] show ?case by (auto simp: sr_inv_def sr_live_def)
qed

section \<open>Routing\<close>

text \<open>When a route takes a signal.\<close>

definition sr_accepts :: "sr_signal \<Rightarrow> ('c, 'u) route_entry \<Rightarrow> bool" where
  "sr_accepts s t \<longleftrightarrow> sr_signal_id s AND rte_src_mask t = rte_match_id t
     \<and> (\<forall>f. rte_filter t = Some f \<longrightarrow> f s (rte_user t))"

fun sr_call :: "('c, 'u) route_args handle_op \<Rightarrow> ('c, 'u) sr_router option \<Rightarrow> ('c, 'u) sr_router option" where
  "sr_call (HAdd (m, i, f, d, u)) r = snd (sr_router_add_route r m i f (Some d) u)"
| "sr_call (HRemove h) r = snd (sr_router_remove_route r h)"

lemma sr_call_step: "sr_inv r \<Longrightarrow> sr_call op (Some r) = Some (sr.step op r)"
  by (cases op) (auto simp: sr_add_def sr_remove_def sr_inv_def SR_INVALID_HANDLE_def split: prod.splits option.splits)

lemma sr_calls: "sr.matches r t \<Longrightarrow> fold sr_call ops (Some r) = Some (fold sr.step ops r)"
proof (induction ops arbitrary: r t)
  case (Cons op ops)
  have "sr_inv r" using Cons.prems by (simp add: sr.matches_def)
  with Cons.IH [OF sr.step_spec [OF Cons.prems]] show ?case by (simp add: sr_call_step)
qed simp

lemma sr_route_filter:
  "sr_router_route (Some r) (Some s) = (length (filter (\<lambda>t. rte_in_use t \<and> sr_accepts s t) (srr_routes r)),
     map (\<lambda>t. (rte_deliver t, rte_user t)) (filter (\<lambda>t. rte_in_use t \<and> sr_accepts s t) (srr_routes r)))"
proof -
  have "foldl (\<lambda>(delivered, out) t.
        if \<not> rte_in_use t then (delivered, out)
        else if sr_signal_id s AND rte_src_mask t \<noteq> rte_match_id t then (delivered, out)
        else if (case rte_filter t of None \<Rightarrow> False | Some f \<Rightarrow> \<not> f s (rte_user t)) then (delivered, out)
        else (delivered + 1, out @ [(rte_deliver t, rte_user t)])) (n, cs) ts
      = (n + length (filter (\<lambda>t. rte_in_use t \<and> sr_accepts s t) ts),
         cs @ map (\<lambda>t. (rte_deliver t, rte_user t)) (filter (\<lambda>t. rte_in_use t \<and> sr_accepts s t) ts))"
    for ts :: "('a, 'b) route_entry list" and n cs
    by (induction ts arbitrary: n cs) (auto simp: sr_accepts_def split: option.splits)
  from this [of 0 "[]" "srr_routes r"] show ?thesis by (simp only: sr_router_route.simps add_0 append_Nil)
qed

text \<open>C39: After any additions and removals of routes, a signal is delivered to every route that was added and
  not removed, whose masked id is the one it asks for and whose predicate (if it has one) holds, once each,
  and to no other.\<close>

theorem sigroute_delivery:
  assumes "fold sr.spec ops ([], 0) = (routes, n)"
  shows "\<exists>r out. fold sr_call ops (sr_router_create True) = Some r
    \<and> sr_router_route (Some r) (Some s) = (length out, out)
    \<and> mset out = mset (map (\<lambda>t. (rte_deliver t, rte_user t)) (filter (sr_accepts s) routes))
    \<and> sr_router_count (Some r) = length routes \<and> length routes \<le> SR_MAX_ROUTES"
proof -
  let ?r0 = "\<lparr>srr_routes = replicate SR_MAX_ROUTES sr_zero_route, srr_count = 0, srr_next_handle = 0\<rparr>"
  have r0: "sr.matches ?r0 ([], 0)" by (simp add: sr.matches_def sr_inv_def sr_live_def)
  let ?r = "fold sr.step ops ?r0"
  have m: "sr.matches ?r (routes, n)" using sr.run_spec [OF r0, of ops] assms by simp
  then have l: "slot_live rte_in_use (srr_routes ?r) = mset routes" and i: "sr_inv ?r"
    by (simp_all add: sr.matches_def sr_live_def)
  let ?out = "map (\<lambda>t. (rte_deliver t, rte_user t)) (filter (\<lambda>t. rte_in_use t \<and> sr_accepts s t) (srr_routes ?r))"
  have "filter_mset (\<lambda>t. rte_in_use t \<and> sr_accepts s t) (mset (srr_routes ?r)) = filter_mset (sr_accepts s) (mset routes)"
    by (simp add: l [symmetric] slot_live_def filter_filter_mset conj_commute)
  then have c: "mset ?out = mset (map (\<lambda>t. (rte_deliver t, rte_user t)) (filter (sr_accepts s) routes))" by simp
  have "srr_count ?r = length routes" using i l by (simp add: sr_inv_def sr_live_def)
  moreover have "length routes \<le> SR_MAX_ROUTES" using sr.cap_live [OF i] l by (simp add: sr_live_def)
  ultimately show ?thesis using sr_calls [OF r0, of ops] c
    by (intro exI [of _ ?r] exI [of _ ?out])
      (simp add: sr_router_create_def sr_route_filter sr_router_count_def del: sr_router_route.simps)
qed

lemma SR_room: "0 < SR_MAX_ROUTES" "Suc 0 < SR_MAX_ROUTES"
  by (simp_all add: SR_MAX_ROUTES_def)

lemma sigroute_delivery_witness:
  "\<exists>r out. fold sr_call [HAdd (0, 0, None, ''log'', None), HAdd (0xFF00, 0x0100, Some (\<lambda>s u. sr_level s > 3), ''alert'', Some True)]
      (sr_router_create True) = Some r
    \<and> sr_router_route (Some r) (Some \<lparr>sr_signal_id = 0x0102, sr_level = 2, sr_source_id = 0, sr_timestamp_us = 5\<rparr>) = (length out, out)
    \<and> mset out = {#(Some ''log'', None)#}"
  using sigroute_delivery [OF prod.collapse [symmetric], of "[HAdd (0, 0, None, ''log'', None), HAdd (0xFF00, 0x0100, Some (\<lambda>s u. sr_level s > 3), ''alert'', Some True)]"
      "\<lparr>sr_signal_id = 0x0102, sr_level = 2, sr_source_id = 0, sr_timestamp_us = 5\<rparr>"]
  by (auto simp: SR_room sr_mk_def sr_accepts_def simp del: sr_router_route.simps)

section \<open>Statistics\<close>

record sr_stats =
  srs_routed :: u64
  srs_filtered :: u64
  srs_dropped :: u64

definition sr_stats_zero :: sr_stats where
  "sr_stats_zero = \<lparr>srs_routed = 0, srs_filtered = 0, srs_dropped = 0\<rparr>"

definition sr_stats_create :: "bool \<Rightarrow> sr_stats option" where
  "sr_stats_create mem = (if mem then Some sr_stats_zero else None)"

definition sr_stats_reset :: "sr_stats option \<Rightarrow> sr_stats option" where
  "sr_stats_reset st = map_option (\<lambda>_. sr_stats_zero) st"

fun sr_stats_record_route :: "sr_stats option \<Rightarrow> int \<Rightarrow> int \<Rightarrow> int \<times> sr_stats option" where
  "sr_stats_record_route None delivered filtered_n = (-1, None)"
| "sr_stats_record_route (Some st) delivered filtered_n =
     (0, Some (if delivered = 0 \<and> filtered_n = 0 then st\<lparr>srs_dropped := srs_dropped st + 1\<rparr>
        else let st = (if delivered > 0 then st\<lparr>srs_routed := srs_routed st + 1\<rparr> else st) in
             (if filtered_n > 0 then st\<lparr>srs_filtered := srs_filtered st + of_int filtered_n\<rparr> else st)))"

fun sr_stats_snapshot :: "sr_stats option \<Rightarrow> sr_stats option \<Rightarrow> int \<times> sr_stats option" where
  "sr_stats_snapshot (Some st) (Some out) = (0, Some st)"
| "sr_stats_snapshot _ out = (-1, out)"

end
