(* ===== verification/Flowctl.thy ===== *)
theory Flowctl
  imports RS_Prelude
begin

text \<open>
  Credit-based flow control of \<^verbatim>\<open>src/src/flowctl\<close>: parameters (\<^verbatim>\<open>fc_params.c\<close>), the engine
  (\<^verbatim>\<open>fc_engine.c\<close>), counters (\<^verbatim>\<open>fc_stats.c\<close>).  Credits are 32-bit words.
\<close>

record fc_params =
  fcp_window_bytes :: u32
  fcp_send_budget :: u32
  fcp_recv_window :: u32
  fcp_credit_step :: u32

fun fc_params_init :: "fc_params option \<Rightarrow> u32 \<Rightarrow> u32 \<Rightarrow> u32 \<Rightarrow> u32 \<Rightarrow> int \<times> fc_params option" where
  "fc_params_init None window_bytes send_budget recv_window credit_step = (-1, None)"
| "fc_params_init (Some p) window_bytes send_budget recv_window credit_step =
     (if window_bytes = 0 \<or> send_budget = 0 \<or> recv_window = 0 \<or> credit_step = 0 then (-1, Some p)
      else (0, Some \<lparr>fcp_window_bytes = window_bytes, fcp_send_budget = send_budget,
                     fcp_recv_window = recv_window, fcp_credit_step = credit_step\<rparr>))"

record fc_engine =
  fce_params :: fc_params
  fce_credit :: u32

definition fc_engine_create :: "bool \<Rightarrow> fc_params option \<Rightarrow> fc_engine option" where
  "fc_engine_create mem p = (case p of None \<Rightarrow> None | Some p \<Rightarrow>
     if fcp_window_bytes p = 0 \<or> fcp_send_budget p = 0 then None
     else if \<not> mem then None
     else Some \<lparr>fce_params = p, fce_credit = fcp_send_budget p\<rparr>)"

definition fc_engine_can_send :: "fc_engine option \<Rightarrow> u32 \<Rightarrow> bool" where
  "fc_engine_can_send e bytes = (case e of None \<Rightarrow> False | Some e \<Rightarrow> fce_credit e \<ge> bytes)"

fun fc_engine_consume :: "fc_engine option \<Rightarrow> u32 \<Rightarrow> int \<times> fc_engine option" where
  "fc_engine_consume None bytes = (-1, None)"
| "fc_engine_consume (Some e) bytes =
     (if fce_credit e < bytes then (-1, Some e) else (0, Some (e\<lparr>fce_credit := fce_credit e - bytes\<rparr>)))"

fun fc_engine_replenish :: "fc_engine option \<Rightarrow> u32 \<Rightarrow> u32 \<times> fc_engine option" where
  "fc_engine_replenish None bytes = (0, None)"
| "fc_engine_replenish (Some e) bytes =
     (let cap = fcp_window_bytes (fce_params e);
          added = (if bytes < fcp_credit_step (fce_params e) then fcp_credit_step (fce_params e) else bytes);
          credit = (if fce_credit e + added > cap then cap else fce_credit e + added)
      in (credit, Some (e\<lparr>fce_credit := credit\<rparr>)))"

definition fc_engine_credit :: "fc_engine option \<Rightarrow> u32" where
  "fc_engine_credit e = (case e of None \<Rightarrow> 0 | Some e \<Rightarrow> fce_credit e)"

definition fc_engine_reset :: "fc_engine option \<Rightarrow> fc_engine option" where
  "fc_engine_reset e = map_option (\<lambda>e. e\<lparr>fce_credit := fcp_send_budget (fce_params e)\<rparr>) e"

section \<open>Accounting\<close>

text \<open>Calls, with the bytes that were let through and the bytes that were granted.\<close>

datatype fc_op = FcConsume u32 | FcReplenish u32 | FcReset

fun fc_call :: "fc_op \<Rightarrow> fc_engine option \<times> nat \<times> nat \<Rightarrow> fc_engine option \<times> nat \<times> nat" where
  "fc_call (FcConsume n) (e, sent, granted) = (case fc_engine_consume e n of
     (r, e') \<Rightarrow> (e', if r = 0 then sent + unat n else sent, granted))"
| "fc_call (FcReplenish n) (e, sent, granted) =
     (snd (fc_engine_replenish e n), sent,
      granted + (case e of None \<Rightarrow> 0 | Some e \<Rightarrow> max (unat n) (unat (fcp_credit_step (fce_params e)))))"
| "fc_call FcReset (e, sent, granted) =
     (fc_engine_reset e, sent, granted + (case e of None \<Rightarrow> 0 | Some e \<Rightarrow> unat (fcp_send_budget (fce_params e))))"

definition fc_inv :: "fc_params \<Rightarrow> fc_engine \<Rightarrow> nat \<Rightarrow> nat \<Rightarrow> bool" where
  "fc_inv p e sent granted \<longleftrightarrow> fce_params e = p \<and> sent + unat (fce_credit e) \<le> granted
     \<and> unat (fce_credit e) \<le> max (unat (fcp_window_bytes p)) (unat (fcp_send_budget p))"

lemma unat_plus_mod: "unat (a + b :: u32) = (unat a + unat b) mod 2 ^ 32"
  by (simp add: unat_word_ariths)

lemma unat_plus_le: "unat (a + b :: u32) \<le> unat a + unat b"
  unfolding unat_plus_mod by (rule mod_less_eq_dividend)

lemma fc_added: "unat (if n < s then s else n :: u32) = max (unat n) (unat s)"
  by (simp add: word_less_nat_alt max_def)

lemma fc_call_inv:
  assumes "fc_inv p e sent granted"
  shows "\<exists>e' sent' granted'. fc_call op (Some e, sent, granted) = (Some e', sent', granted') \<and> fc_inv p e' sent' granted'"
proof (cases op)
  case (FcConsume n)
  show ?thesis
  proof (cases "fce_credit e < n")
    case False
    then have "unat (fce_credit e - n) = unat (fce_credit e) - unat n" "unat n \<le> unat (fce_credit e)"
      by (simp_all add: unat_sub word_le_nat_alt not_less)
    with False assms show ?thesis by (auto simp: FcConsume fc_inv_def)
  qed (use assms in \<open>simp add: FcConsume\<close>)
next
  case (FcReplenish n)
  let ?a = "if n < fcp_credit_step p then fcp_credit_step p else n"
  let ?c = "if fce_credit e + ?a > fcp_window_bytes p then fcp_window_bytes p else fce_credit e + ?a"
  have "unat ?c \<le> unat (fce_credit e + ?a)" "unat ?c \<le> unat (fcp_window_bytes p)"
    by (simp_all add: word_less_nat_alt)
  moreover have "unat (fce_credit e + ?a) \<le> unat (fce_credit e) + max (unat n) (unat (fcp_credit_step p))"
    using unat_plus_le [of "fce_credit e" ?a] by (simp only: fc_added)
  ultimately have "sent + unat ?c \<le> granted + max (unat n) (unat (fcp_credit_step p))
      \<and> unat ?c \<le> max (unat (fcp_window_bytes p)) (unat (fcp_send_budget p))"
    using assms unfolding fc_inv_def by linarith
  moreover have "fc_call op (Some e, sent, granted)
      = (Some (e\<lparr>fce_credit := ?c\<rparr>), sent, granted + max (unat n) (unat (fcp_credit_step p)))"
    using assms by (simp add: FcReplenish Let_def fc_inv_def)
  ultimately show ?thesis using assms by (simp add: fc_inv_def split del: if_split)
next
  case FcReset
  then show ?thesis using assms by (auto simp: fc_engine_reset_def fc_inv_def)
qed

text \<open>C37: Whatever is consumed, replenished and reset in whatever order, the bytes let through never exceed the
  initial budget plus what was granted, and the credit at any time is at most the window or the send budget,
  whichever is larger.\<close>

theorem flow_never_oversends:
  assumes "fc_engine_create True (Some p) = Some e0"
    and "fold fc_call ops (Some e0, 0, unat (fcp_send_budget p)) = (e, sent, granted)"
  shows "sent + unat (fc_engine_credit e) \<le> granted
    \<and> unat (fc_engine_credit e) \<le> max (unat (fcp_window_bytes p)) (unat (fcp_send_budget p))"
proof -
  have "\<exists>e' s' g'. fold fc_call ops (Some e, s, g) = (Some e', s', g') \<and> fc_inv p e' s' g'"
    if "fc_inv p e s g" for e s g using that
  proof (induction ops arbitrary: e s g)
    case (Cons op ops)
    from fc_call_inv [OF Cons.prems, of op] Cons.IH show ?case by fastforce
  qed simp
  moreover have "fc_inv p e0 0 (unat (fcp_send_budget p))"
    using assms(1) by (auto simp: fc_engine_create_def fc_inv_def split: if_splits)
  ultimately obtain e' where "e = Some e'" "fc_inv p e' sent granted" using assms(2) by fastforce
  then show ?thesis by (simp add: fc_inv_def fc_engine_credit_def)
qed

definition fc_ex :: fc_params where
  "fc_ex = \<lparr>fcp_window_bytes = 1000, fcp_send_budget = 600, fcp_recv_window = 1000, fcp_credit_step = 100\<rparr>"

lemma flow_never_oversends_witness:
  "unat (fc_engine_credit (fst (fold fc_call [FcConsume 500, FcConsume 500, FcReplenish 10]
     (fc_engine_create True (Some fc_ex), 0, 600)))) \<le> 1000"
proof -
  have c: "fc_engine_create True (Some fc_ex) = Some \<lparr>fce_params = fc_ex, fce_credit = 600\<rparr>"
    by (simp add: fc_engine_create_def fc_ex_def)
  obtain e s g where r: "fold fc_call [FcConsume 500, FcConsume 500, FcReplenish 10]
      (Some \<lparr>fce_params = fc_ex, fce_credit = 600\<rparr>, 0, unat (fcp_send_budget fc_ex)) = (e, s, g)"
    by (metis prod_cases3)
  from flow_never_oversends [OF c r] have "unat (fc_engine_credit e) \<le> 1000" by (simp add: fc_ex_def)
  moreover have "unat (fcp_send_budget fc_ex) = 600" by (simp add: fc_ex_def)
  ultimately show ?thesis using r by (simp only: c fst_conv)
qed

text \<open>The credit after a replenish is the old credit plus the grant (at least the credit step), capped at the
  window, unless the 32-bit sum wraps: then it is what is left above \<open>2\<^sup>3\<^sup>2\<close>, and less than before.\<close>

theorem replenish_value:
  assumes "t = unat (fce_credit e) + max (unat n) (unat (fcp_credit_step (fce_params e)))"
  shows "unat (fst (fc_engine_replenish (Some e) n))
      = (if t < 2 ^ 32 then min (unat (fcp_window_bytes (fce_params e))) t
         else min (unat (fcp_window_bytes (fce_params e))) (t - 2 ^ 32))
    \<and> (t \<ge> 2 ^ 32 \<longrightarrow> unat (fst (fc_engine_replenish (Some e) n)) < unat (fce_credit e))"
proof -
  let ?a = "if n < fcp_credit_step (fce_params e) then fcp_credit_step (fce_params e) else n"
  have a: "unat ?a = max (unat n) (unat (fcp_credit_step (fce_params e)))" by (rule fc_added)
  have b: "unat ?a < 2 ^ 32" "unat (fce_credit e) < 2 ^ 32" using unat_bound [of ?a] unat_bound [of "fce_credit e"] by simp_all
  then have t: "t < 2 ^ 32 + 2 ^ 32" "t - 2 ^ 32 < unat (fce_credit e) \<or> t < 2 ^ 32" using assms a by linarith+
  have s: "unat (fce_credit e + ?a) = (if t < 2 ^ 32 then t else t - 2 ^ 32)"
    unfolding unat_plus_mod a assms [symmetric] using t(1) by (simp add: mod_if)
  have "unat (fst (fc_engine_replenish (Some e) n)) = min (unat (fcp_window_bytes (fce_params e))) (unat (fce_credit e + ?a))"
    by (simp add: Let_def min_def word_less_nat_alt not_less)
  then show ?thesis unfolding s using t(2) by (auto simp: min_def)
qed

lemma replenish_value_witness:
  "fst (fc_engine_replenish (Some \<lparr>fce_params = \<lparr>fcp_window_bytes = 0xFFFFFFFF, fcp_send_budget = 1, fcp_recv_window = 1,
      fcp_credit_step = 1\<rparr>, fce_credit = 0xFFFFFFF0\<rparr>) 32) = 16"
proof -
  let ?e = "\<lparr>fce_params = \<lparr>fcp_window_bytes = 0xFFFFFFFF, fcp_send_budget = 1, fcp_recv_window = 1,
      fcp_credit_step = 1\<rparr>, fce_credit = 0xFFFFFFF0\<rparr>"
  have "unat (fst (fc_engine_replenish (Some ?e) 32)) = unat (16 :: u32)"
    using replenish_value [OF refl, of ?e 32] by (simp del: fc_engine_replenish.simps)
  then show ?thesis by (simp only: word_unat_eq_iff)
qed

section \<open>Statistics\<close>

record fc_stats =
  fcs_bytes_sent :: u64
  fcs_bytes_dropped :: u64
  fcs_stalls :: u64
  fcs_replenish_count :: u64

definition fc_stats_zero :: fc_stats where
  "fc_stats_zero = \<lparr>fcs_bytes_sent = 0, fcs_bytes_dropped = 0, fcs_stalls = 0, fcs_replenish_count = 0\<rparr>"

definition fc_stats_create :: "bool \<Rightarrow> fc_stats option" where
  "fc_stats_create mem = (if mem then Some fc_stats_zero else None)"

definition fc_stats_reset :: "fc_stats option \<Rightarrow> fc_stats option" where
  "fc_stats_reset st = map_option (\<lambda>_. fc_stats_zero) st"

fun fc_stats_record_send :: "fc_stats option \<Rightarrow> u32 \<Rightarrow> int \<times> fc_stats option" where
  "fc_stats_record_send None bytes = (-1, None)"
| "fc_stats_record_send (Some st) bytes = (0, Some (st\<lparr>fcs_bytes_sent := fcs_bytes_sent st + ucast bytes\<rparr>))"

fun fc_stats_record_drop :: "fc_stats option \<Rightarrow> u32 \<Rightarrow> int \<times> fc_stats option" where
  "fc_stats_record_drop None bytes = (-1, None)"
| "fc_stats_record_drop (Some st) bytes = (0, Some (st\<lparr>fcs_bytes_dropped := fcs_bytes_dropped st + ucast bytes\<rparr>))"

fun fc_stats_record_stall :: "fc_stats option \<Rightarrow> int \<times> fc_stats option" where
  "fc_stats_record_stall None = (-1, None)"
| "fc_stats_record_stall (Some st) = (0, Some (st\<lparr>fcs_stalls := fcs_stalls st + 1\<rparr>))"

fun fc_stats_record_replenish :: "fc_stats option \<Rightarrow> int \<times> fc_stats option" where
  "fc_stats_record_replenish None = (-1, None)"
| "fc_stats_record_replenish (Some st) = (0, Some (st\<lparr>fcs_replenish_count := fcs_replenish_count st + 1\<rparr>))"

fun fc_stats_snapshot :: "fc_stats option \<Rightarrow> fc_stats option \<Rightarrow> int \<times> fc_stats option" where
  "fc_stats_snapshot (Some st) (Some out) = (0, Some st)"
| "fc_stats_snapshot _ out = (-1, out)"

end
