(* ===== verification/Relay.thy ===== *)
theory Relay
  imports Wire
begin

text \<open>
  The wire format of the relay: \<^verbatim>\<open>src/src/relay/relay_protocol.c\<close>.  A message is a header of 10 bytes,
  big-endian, and its payload; the payload of a HELLO is the token of the session and the role.  Buffers
  hold at least the bytes that the comments of the header file ask of the caller.  The type of a message
  is the C enum as an unsigned integer, since decoding casts whatever byte it reads.
\<close>

definition RELAY_MAGIC :: u16 where "RELAY_MAGIC = 0x5253"
definition RELAY_VERSION :: u8 where "RELAY_VERSION = 1"
definition RELAY_HDR_SIZE :: nat where "RELAY_HDR_SIZE = 10"
definition RELAY_MAX_PAYLOAD :: nat where "RELAY_MAX_PAYLOAD = 65535"
definition RELAY_TOKEN_LEN :: nat where "RELAY_TOKEN_LEN = 32"
definition HELLO_PAYLOAD_LEN :: nat where "HELLO_PAYLOAD_LEN = 36"

definition RELAY_MSG_HELLO :: u32 where "RELAY_MSG_HELLO = 0x01"
definition RELAY_MSG_HELLO_ACK :: u32 where "RELAY_MSG_HELLO_ACK = 0x02"
definition RELAY_MSG_CONNECT :: u32 where "RELAY_MSG_CONNECT = 0x03"
definition RELAY_MSG_CONNECT_ACK :: u32 where "RELAY_MSG_CONNECT_ACK = 0x04"
definition RELAY_MSG_DATA :: u32 where "RELAY_MSG_DATA = 0x05"
definition RELAY_MSG_PING :: u32 where "RELAY_MSG_PING = 0x06"
definition RELAY_MSG_PONG :: u32 where "RELAY_MSG_PONG = 0x07"
definition RELAY_MSG_DISCONNECT :: u32 where "RELAY_MSG_DISCONNECT = 0x08"
definition RELAY_MSG_ERROR :: u32 where "RELAY_MSG_ERROR = 0x09"

lemmas relay_msg_defs = RELAY_MSG_HELLO_def RELAY_MSG_HELLO_ACK_def RELAY_MSG_DATA_def RELAY_MSG_PING_def
  RELAY_MSG_PONG_def RELAY_MSG_DISCONNECT_def RELAY_MSG_ERROR_def

record relay_header =
  rh_type :: u32
  rh_session_id :: u32
  rh_payload_len :: u16

definition relay_header_bytes :: "relay_header \<Rightarrow> u8 list" where
  "relay_header_bytes hdr = [ucast (drop_bit 8 RELAY_MAGIC), ucast (RELAY_MAGIC AND 0xFF), RELAY_VERSION, ucast (rh_type hdr)]
     @ w32be (rh_session_id hdr) @ w16be (rh_payload_len hdr)"

fun relay_encode_header :: "relay_header option \<Rightarrow> u8 list option \<Rightarrow> int \<times> u8 list option" where
  "relay_encode_header (Some hdr) (Some buf) = (int RELAY_HDR_SIZE, Some (overwrite (relay_header_bytes hdr) buf))"
| "relay_encode_header _ buf = (-1, buf)"

fun relay_decode_header :: "u8 list option \<Rightarrow> relay_header option \<Rightarrow> int \<times> relay_header option" where
  "relay_decode_header (Some buf) (Some hdr) =
     (let magic = r16be buf 0 in
      if magic \<noteq> RELAY_MAGIC then (-1, Some hdr)
      else if buf ! 2 \<noteq> RELAY_VERSION then (-1, Some hdr)
      else (0, Some \<lparr>rh_type = ucast (buf ! 3), rh_session_id = r32be buf 4, rh_payload_len = r16be buf 8\<rparr>))"
| "relay_decode_header _ hdr = (-1, hdr)"

fun relay_build_hello :: "u8 list option \<Rightarrow> bool \<Rightarrow> u8 list option \<Rightarrow> int \<times> u8 list option" where
  "relay_build_hello (Some token) is_host (Some buf) =
     (int HELLO_PAYLOAD_LEN,
      Some (overwrite (take RELAY_TOKEN_LEN token @ [if is_host then 0x00 else 0x01, 0, 0, 0]) buf))"
| "relay_build_hello _ _ buf = (-1, buf)"

fun relay_parse_hello :: "u8 list option \<Rightarrow> u16 \<Rightarrow> u8 list option \<Rightarrow> bool option \<Rightarrow> int \<times> u8 list option \<times> bool option" where
  "relay_parse_hello (Some payload) payload_len (Some out_token) (Some out_is_host) =
     (if unat payload_len < HELLO_PAYLOAD_LEN then (-1, Some out_token, Some out_is_host)
      else (0, Some (overwrite (take RELAY_TOKEN_LEN payload) out_token), Some (payload ! RELAY_TOKEN_LEN = 0x00)))"
| "relay_parse_hello _ _ out_token out_is_host = (-1, out_token, out_is_host)"

section \<open>The header is a self-delimiting code\<close>

definition relay_hdr_wf :: "relay_header \<Rightarrow> bool" where
  "relay_hdr_wf h \<longleftrightarrow> rh_type h < 256"

definition relay_dec :: "u8 list \<Rightarrow> relay_header option" where
  "relay_dec b = (if length b < RELAY_HDR_SIZE then None
     else case relay_decode_header (Some b) (Some \<lparr>rh_type = 0, rh_session_id = 0, rh_payload_len = 0\<rparr>) of
       (r, h) \<Rightarrow> if r = 0 then h else None)"

lemma length_relay_header_bytes [simp]: "length (relay_header_bytes h) = RELAY_HDR_SIZE"
  by (simp add: relay_header_bytes_def RELAY_HDR_SIZE_def)

lemma relay_type_ucast: "t < (256 :: u32) \<Longrightarrow> ucast (ucast t :: u8) = t"
  by (rule word_unat_eq_iff [THEN iffD2]) (simp add: unsigned_ucast_eq take_bit_eq_mod word_less_nat_alt unat_mod)

lemma relay_magic_bytes: "[ucast (drop_bit 8 RELAY_MAGIC), ucast (RELAY_MAGIC AND 0xFF)] = w16be RELAY_MAGIC"
  by (simp add: RELAY_MAGIC_def w16be_def)

lemma relay_decode_bytes:
  assumes "relay_hdr_wf h"
  shows "relay_decode_header (Some (relay_header_bytes h @ rest)) (Some h0) = (0, Some h)"
proof -
  let ?b = "relay_header_bytes h @ rest"
  have b: "?b = w16be RELAY_MAGIC @ RELAY_VERSION # ucast (rh_type h) # w32be (rh_session_id h) @ w16be (rh_payload_len h) @ rest"
    by (simp add: relay_header_bytes_def flip: relay_magic_bytes)
  have "r16be ?b 0 = RELAY_MAGIC" "?b ! 2 = RELAY_VERSION" "?b ! 3 = ucast (rh_type h)"
    unfolding b by (simp_all add: wire_simps nth_append)
  moreover have "r32be ?b 4 = rh_session_id h" "r16be ?b 8 = rh_payload_len h"
    unfolding b by (simp_all add: wire_simps)
  ultimately show ?thesis using assms by (simp add: relay_hdr_wf_def relay_type_ucast)
qed

interpretation relay: codec relay_hdr_wf relay_header_bytes relay_dec
  by unfold_locales (simp add: relay_dec_def relay_decode_bytes del: relay_decode_header.simps)

lemma relay_encode_fits:
  "length buf = RELAY_HDR_SIZE \<Longrightarrow> relay_encode_header (Some h) (Some buf) = (int RELAY_HDR_SIZE, Some (relay_header_bytes h))"
  by (simp add: overwrite_def)

text \<open>What a HELLO carries: a server that parses the payload reads the token and the role back.\<close>

definition relay_hello_bytes :: "u8 list \<Rightarrow> bool \<Rightarrow> u8 list" where
  "relay_hello_bytes token is_host = take RELAY_TOKEN_LEN token @ [if is_host then 0x00 else 0x01, 0, 0, 0]"

lemma relay_hello_roundtrip:
  assumes "length token = RELAY_TOKEN_LEN" and "length out = RELAY_TOKEN_LEN"
  shows "relay_build_hello (Some token) is_host (Some (replicate HELLO_PAYLOAD_LEN 0))
      = (int HELLO_PAYLOAD_LEN, Some (relay_hello_bytes token is_host))
    \<and> relay_parse_hello (Some (relay_hello_bytes token is_host)) 36 (Some out) (Some role)
      = (0, Some token, Some is_host)"
  using assms by (simp add: relay_hello_bytes_def overwrite_def HELLO_PAYLOAD_LEN_def RELAY_TOKEN_LEN_def nth_append)

end
