(* ===== verification/Relay_Session.thy ===== *)
theory Relay_Session
  imports Relay Slots
begin

text \<open>
  The session table of the relay server: \<^verbatim>\<open>src/src/relay/relay_session.c\<close>.  A host opens a session under
  a token, a viewer that shows the same token is paired to it.  The flag array \<open>used\<close> of the source is the
  second component of the slots; the clock that \<open>now_us_relay\<close> reads is an argument; every operation runs
  under the mutex of the table and is one step here.  Session numbers are 32 bits wide and wrap.
\<close>

definition RELAY_SESSION_MAX :: nat where "RELAY_SESSION_MAX = 128"

datatype relay_state = RELAY_STATE_IDLE | RELAY_STATE_WAITING | RELAY_STATE_PAIRED | RELAY_STATE_CLOSING

record relay_session_entry =
  rse_id :: u32
  rse_state :: relay_state
  rse_token :: "u8 list"
  rse_host_fd :: int
  rse_viewer_fd :: int
  rse_created_us :: u64
  rse_bytes_relayed :: u64

record relay_session_manager =
  rsm_slots :: "(relay_session_entry \<times> bool) list"
  rsm_next_id :: u32

definition relay_session_manager_create :: "bool \<Rightarrow> relay_session_manager option" where
  "relay_session_manager_create mem = (if mem then
     Some \<lparr>rsm_slots = replicate RELAY_SESSION_MAX (\<lparr>rse_id = 0, rse_state = RELAY_STATE_IDLE,
         rse_token = replicate RELAY_TOKEN_LEN 0, rse_host_fd = -1, rse_viewer_fd = -1, rse_created_us = 0,
         rse_bytes_relayed = 0\<rparr>, False), rsm_next_id = 1\<rparr>
   else None)"

fun relay_session_open :: "relay_session_manager option \<Rightarrow> u8 list option \<Rightarrow> int \<Rightarrow> u64 \<Rightarrow> u32 option
    \<Rightarrow> int \<times> relay_session_manager option \<times> u32 option" where
  "relay_session_open (Some mgr) (Some token) host_fd now (Some out_id) =
     (case slot_free snd (rsm_slots mgr) of
        None \<Rightarrow> (-1, Some mgr, Some out_id)
      | Some slot \<Rightarrow> (0, Some (mgr\<lparr>rsm_slots := (rsm_slots mgr)[slot :=
            (\<lparr>rse_id = rsm_next_id mgr, rse_state = RELAY_STATE_WAITING, rse_token = take RELAY_TOKEN_LEN token,
              rse_host_fd = host_fd, rse_viewer_fd = -1, rse_created_us = now, rse_bytes_relayed = 0\<rparr>, True)],
            rsm_next_id := rsm_next_id mgr + 1\<rparr>), Some (rsm_next_id mgr)))"
| "relay_session_open mgr token host_fd now out_id = (-1, mgr, out_id)"

definition rs_waits_for :: "u8 list \<Rightarrow> relay_session_entry \<Rightarrow> bool" where
  "rs_waits_for token e \<longleftrightarrow> rse_state e = RELAY_STATE_WAITING \<and> rse_token e = take RELAY_TOKEN_LEN token"

fun relay_session_pair :: "relay_session_manager option \<Rightarrow> u8 list option \<Rightarrow> int \<Rightarrow> u32 option
    \<Rightarrow> int \<times> relay_session_manager option \<times> u32 option" where
  "relay_session_pair (Some mgr) (Some token) viewer_fd (Some out_id) =
     (case slot_find snd (\<lambda>e token. rs_waits_for token (fst e)) (rsm_slots mgr) token of
        None \<Rightarrow> (-1, Some mgr, Some out_id)
      | Some i \<Rightarrow> (let e = fst (rsm_slots mgr ! i) in
          (0, Some (mgr\<lparr>rsm_slots := (rsm_slots mgr)[i :=
              (e\<lparr>rse_viewer_fd := viewer_fd, rse_state := RELAY_STATE_PAIRED\<rparr>, True)]\<rparr>), Some (rse_id e))))"
| "relay_session_pair mgr token viewer_fd out_id = (-1, mgr, out_id)"

definition rs_find_id :: "relay_session_manager \<Rightarrow> u32 \<Rightarrow> nat option" where
  "rs_find_id mgr i = slot_find snd (\<lambda>e i. rse_id (fst e) = i) (rsm_slots mgr) i"

fun relay_session_close :: "relay_session_manager option \<Rightarrow> u32 \<Rightarrow> int \<times> relay_session_manager option" where
  "relay_session_close (Some mgr) i = (case rs_find_id mgr i of
       None \<Rightarrow> (-1, Some mgr)
     | Some s \<Rightarrow> (0, Some (mgr\<lparr>rsm_slots := (rsm_slots mgr)[s :=
         ((fst (rsm_slots mgr ! s))\<lparr>rse_state := RELAY_STATE_CLOSING\<rparr>, False)]\<rparr>)))"
| "relay_session_close None i = (-1, None)"

fun relay_session_get :: "relay_session_manager option \<Rightarrow> u32 \<Rightarrow> relay_session_entry option \<Rightarrow> int \<times> relay_session_entry option" where
  "relay_session_get (Some mgr) i (Some out) = (case rs_find_id mgr i of
       None \<Rightarrow> (-1, Some out) | Some s \<Rightarrow> (0, Some (fst (rsm_slots mgr ! s))))"
| "relay_session_get mgr i out = (-1, out)"

definition relay_session_count :: "relay_session_manager option \<Rightarrow> nat" where
  "relay_session_count mgr = (case mgr of None \<Rightarrow> 0 | Some m \<Rightarrow> count_if snd (rsm_slots m))"

fun relay_session_add_bytes :: "relay_session_manager option \<Rightarrow> u32 \<Rightarrow> u64 \<Rightarrow> int \<times> relay_session_manager option" where
  "relay_session_add_bytes (Some mgr) i n = (case rs_find_id mgr i of
       None \<Rightarrow> (-1, Some mgr)
     | Some s \<Rightarrow> (let e = fst (rsm_slots mgr ! s) in
         (0, Some (mgr\<lparr>rsm_slots := (rsm_slots mgr)[s := (e\<lparr>rse_bytes_relayed := rse_bytes_relayed e + n\<rparr>, True)]\<rparr>))))"
| "relay_session_add_bytes None i n = (-1, None)"

section \<open>The table as a store\<close>

definition rsm_inv :: "relay_session_manager \<Rightarrow> bool" where
  "rsm_inv m \<longleftrightarrow> length (rsm_slots m) = RELAY_SESSION_MAX"

definition rsm_live :: "relay_session_manager \<Rightarrow> (relay_session_entry \<times> bool) multiset" where
  "rsm_live m = slot_live snd (rsm_slots m)"

definition rsm_mk :: "u32 \<times> u8 list \<times> int \<times> u64 \<Rightarrow> relay_session_entry \<times> bool" where
  "rsm_mk a = (case a of (i, token, fd, now) \<Rightarrow>
     (\<lparr>rse_id = i, rse_state = RELAY_STATE_WAITING, rse_token = take RELAY_TOKEN_LEN token, rse_host_fd = fd,
       rse_viewer_fd = -1, rse_created_us = now, rse_bytes_relayed = 0\<rparr>, True))"

text \<open>Opening, seen as adding a session under the number that the table will give it.\<close>

definition rsm_add :: "relay_session_manager \<Rightarrow> u32 \<times> u8 list \<times> int \<times> u64 \<Rightarrow> relay_session_manager option" where
  "rsm_add m a = (case a of (i, token, fd, now) \<Rightarrow>
     if i \<noteq> rsm_next_id m then None
     else case relay_session_open (Some m) (Some token) fd now (Some 0) of (r, m', _) \<Rightarrow> if r = 0 then m' else None)"

definition rsm_remove :: "relay_session_manager \<Rightarrow> u32 \<Rightarrow> relay_session_manager option" where
  "rsm_remove m i = (case relay_session_close (Some m) i of (r, m') \<Rightarrow> if r = 0 then m' else None)"

definition rsm_lookup :: "relay_session_manager \<Rightarrow> u32 \<Rightarrow> (relay_session_entry \<times> bool) option" where
  "rsm_lookup m i = map_option (\<lambda>s. rsm_slots m ! s) (rs_find_id m i)"

interpretation rsm: slot_store rsm_inv rsm_live "\<lambda>_. RELAY_SESSION_MAX" "\<lambda>e. rse_id (fst e)" rsm_mk rsm_add
  rsm_remove rsm_lookup
proof (unfold_locales, goal_cases)
  case (1 s) then show ?case using size_slot_live_le [of snd "rsm_slots s"] by (simp add: rsm_inv_def rsm_live_def)
next
  case (2 s a)
  then have "slot_free snd (rsm_slots s) = None" by (simp add: slot_free_None rsm_inv_def rsm_live_def)
  then show ?case by (simp add: rsm_add_def split: prod.splits)
next
  case (3 s a s')
  then obtain i where i: "slot_free snd (rsm_slots s) = Some i"
    by (auto simp: rsm_add_def split: prod.splits if_splits option.splits)
  with 3 have "s' = s\<lparr>rsm_slots := (rsm_slots s)[i := rsm_mk a], rsm_next_id := rsm_next_id s + 1\<rparr>"
    by (auto simp: rsm_add_def rsm_mk_def split: prod.splits if_splits)
  moreover have "snd (rsm_mk a)" by (simp add: rsm_mk_def split: prod.split)
  ultimately show ?case using 3 slot_live_fill [OF i, of "rsm_mk a"] by (simp add: rsm_inv_def rsm_live_def)
next
  case (4 s k)
  have "rsm_remove s k = None \<longleftrightarrow> rs_find_id s k = None" by (simp add: rsm_remove_def split: option.split)
  then show ?case by (auto simp: rs_find_id_def slot_find_None rsm_live_def)
next
  case (5 s k s')
  then obtain i where f: "rs_find_id s k = Some i" by (auto simp: rsm_remove_def split: option.splits)
  then have i: "slot_find snd (\<lambda>e i. rse_id (fst e) = i) (rsm_slots s) k = Some i" by (simp add: rs_find_id_def)
  have "s' = s\<lparr>rsm_slots := (rsm_slots s)[i := ((fst (rsm_slots s ! i))\<lparr>rse_state := RELAY_STATE_CLOSING\<rparr>, False)]\<rparr>"
    using 5 f by (simp add: rsm_remove_def)
  with 5 slot_findD [OF i] slot_live_clear [OF i, of "((fst (rsm_slots s ! i))\<lparr>rse_state := RELAY_STATE_CLOSING\<rparr>, False)"]
  show ?case by (auto simp: rsm_inv_def rsm_live_def simp del: split_paired_Ex)
next
  case (6 s k)
  then show ?case by (auto simp: rsm_lookup_def rs_find_id_def slot_find_None rsm_live_def)
next
  case (7 s k v)
  then show ?case using slot_findD [of snd "\<lambda>e i. rse_id (fst e) = i" "rsm_slots s" k]
    by (auto simp: rsm_lookup_def rs_find_id_def rsm_live_def)
qed

section \<open>What the table promises\<close>

datatype relay_op = RsOpen "u8 list" int u64 | RsPair "u8 list" int | RsClose u32 | RsBytes u32 u64

text \<open>The calls on the table; the answer is the return code and the number of the session, if one is returned.\<close>

fun relay_call :: "relay_op \<Rightarrow> relay_session_manager option \<Rightarrow> (int \<times> u32 option) \<times> relay_session_manager option" where
  "relay_call (RsOpen token fd now) m = (case relay_session_open m (Some token) fd now (Some 0) of
     (r, m', i) \<Rightarrow> ((r, if r = 0 then i else None), m'))"
| "relay_call (RsPair token fd) m = (case relay_session_pair m (Some token) fd (Some 0) of
     (r, m', i) \<Rightarrow> ((r, if r = 0 then i else None), m'))"
| "relay_call (RsClose i) m = (case relay_session_close m i of (r, m') \<Rightarrow> ((r, None), m'))"
| "relay_call (RsBytes i n) m = (case relay_session_add_bytes m i n of (r, m') \<Rightarrow> ((r, None), m'))"

fun relay_run :: "relay_op list \<Rightarrow> relay_session_manager option \<Rightarrow> (int \<times> u32 option) list \<times> relay_session_manager option" where
  "relay_run [] m = ([], m)"
| "relay_run (op # ops) m = (case relay_call op m of (r, m') \<Rightarrow> case relay_run ops m' of (rs, m'') \<Rightarrow> (r # rs, m''))"

text \<open>The specification: sessions by number, and the number of the next one.  Which of several sessions
  that wait under one token a viewer gets is left open.\<close>

inductive relay_spec :: "relay_op \<Rightarrow> int \<times> u32 option \<Rightarrow> (u32 \<rightharpoonup> relay_session_entry) \<times> u32
    \<Rightarrow> (u32 \<rightharpoonup> relay_session_entry) \<times> u32 \<Rightarrow> bool" where
  open_ok: "card (dom m) < RELAY_SESSION_MAX \<Longrightarrow> m n = None \<Longrightarrow>
    relay_spec (RsOpen token fd now) (0, Some n) (m, n) (m(n \<mapsto> fst (rsm_mk (n, token, fd, now))), n + 1)"
| open_full: "card (dom m) = RELAY_SESSION_MAX \<Longrightarrow> relay_spec (RsOpen token fd now) (-1, None) (m, n) (m, n)"
| pair_ok: "m i = Some e \<Longrightarrow> rs_waits_for token e \<Longrightarrow>
    relay_spec (RsPair token fd) (0, Some i) (m, n) (m(i \<mapsto> e\<lparr>rse_viewer_fd := fd, rse_state := RELAY_STATE_PAIRED\<rparr>), n)"
| pair_none: "\<forall>e \<in> ran m. \<not> rs_waits_for token e \<Longrightarrow> relay_spec (RsPair token fd) (-1, None) (m, n) (m, n)"
| close_ok: "i \<in> dom m \<Longrightarrow> relay_spec (RsClose i) (0, None) (m, n) (m(i := None), n)"
| close_none: "i \<notin> dom m \<Longrightarrow> relay_spec (RsClose i) (-1, None) (m, n) (m, n)"
| bytes_ok: "m i = Some e \<Longrightarrow>
    relay_spec (RsBytes i k) (0, None) (m, n) (m(i \<mapsto> e\<lparr>rse_bytes_relayed := rse_bytes_relayed e + k\<rparr>), n)"
| bytes_none: "i \<notin> dom m \<Longrightarrow> relay_spec (RsBytes i k) (-1, None) (m, n) (m, n)"

inductive relay_spec_run :: "relay_op list \<Rightarrow> (int \<times> u32 option) list \<Rightarrow> (u32 \<rightharpoonup> relay_session_entry) \<times> u32
    \<Rightarrow> (u32 \<rightharpoonup> relay_session_entry) \<times> u32 \<Rightarrow> bool" where
  Nil: "relay_spec_run [] [] t t"
| Cons: "relay_spec op r t t' \<Longrightarrow> relay_spec_run ops rs t' t'' \<Longrightarrow> relay_spec_run (op # ops) (r # rs) t t''"

definition rsm_map :: "relay_session_manager \<Rightarrow> u32 \<rightharpoonup> relay_session_entry" where
  "rsm_map m = map_option fst \<circ> rsm_lookup m"

text \<open>Until the counter wraps: the numbers in use are distinct and below the next one.\<close>

definition rsm_ok :: "relay_session_manager \<Rightarrow> bool" where
  "rsm_ok m \<longleftrightarrow> rsm_inv m \<and> rsm.distinct_keys m \<and> 1 \<le> rsm_next_id m
     \<and> (\<forall>e \<in># rsm_live m. snd e \<and> rse_id (fst e) < rsm_next_id m)"

lemma rsm_okD: "rsm_ok m \<Longrightarrow> rsm_inv m" "rsm_ok m \<Longrightarrow> rsm.distinct_keys m"
  by (simp_all add: rsm_ok_def)

lemma dom_rsm_map: "dom (rsm_map m) = dom (rsm_lookup m)"
  by (auto simp: rsm_map_def)

lemma card_rsm_map: "rsm_ok m \<Longrightarrow> card (dom (rsm_map m)) = size (rsm_live m)"
  using rsm.card_dom_lookup [of m] by (simp add: dom_rsm_map rsm_ok_def)

lemma rsm_map_Some:
  assumes "rsm_ok m"
  shows "rsm_map m i = Some e \<longleftrightarrow> (e, True) \<in># rsm_live m \<and> rse_id e = i"
proof
  assume "rsm_map m i = Some e"
  then obtain b where b: "rsm_lookup m i = Some (e, b)" by (auto simp: rsm_map_def)
  from rsm.lookup_Some [OF rsm_okD(1) [OF assms] this] assms
  show "(e, True) \<in># rsm_live m \<and> rse_id e = i" by (cases b) (auto simp: rsm_ok_def)
next
  assume a: "(e, True) \<in># rsm_live m \<and> rse_id e = i"
  then show "rsm_map m i = Some e"
    using rsm.lookup_live [OF rsm_okD [OF assms], of "(e, True)"] by (simp add: rsm_map_def)
qed

lemma rsm_map_upd: "rsm_lookup m' = (rsm_lookup m)(i := v) \<Longrightarrow> rsm_map m' = (rsm_map m)(i := map_option fst v)"
  by (auto simp: rsm_map_def fun_eq_iff)

lemma rsm_fresh: "rsm_ok m \<Longrightarrow> rsm_map m (rsm_next_id m) = None"
  using rsm_map_Some [of m "rsm_next_id m"] unfolding rsm_ok_def
  by (cases "rsm_map m (rsm_next_id m)") (force, metis fst_conv less_irrefl)

text \<open>Rewriting one live session in place, its number kept.\<close>

lemma rsm_rewrite:
  assumes ok: "rsm_ok m" and f: "slot_find snd P (rsm_slots m) k = Some s"
    and e: "e = fst (rsm_slots m ! s)" and e': "rse_id e' = rse_id e"
  shows "rsm_ok (m\<lparr>rsm_slots := (rsm_slots m)[s := (e', True)]\<rparr>)
    \<and> rsm_map (m\<lparr>rsm_slots := (rsm_slots m)[s := (e', True)]\<rparr>) = (rsm_map m)(rse_id e \<mapsto> e')
    \<and> rsm_map m (rse_id e) = Some e"
proof -
  let ?m = "m\<lparr>rsm_slots := (rsm_slots m)[s := (e', True)]\<rparr>" and ?M = "rsm_live m - {#rsm_slots m ! s#}"
  note s = slot_findD [OF f]
  have v: "rsm_slots m ! s = (e, True)" using s e by (metis prod.collapse)
  then have l: "rsm_live m = add_mset (e, True) ?M" using s by (simp add: rsm_live_def)
  have l': "rsm_live ?m = add_mset (e', True) ?M"
    using slot_live_replace [of s "rsm_slots m" snd "(e', True)"] s by (simp add: rsm_live_def)
  have i: "rsm_inv ?m" using ok by (simp add: rsm_ok_def rsm_inv_def)
  note r = rsm.replace_distinct [OF rsm_okD [OF ok] i l l']
  then have d: "rsm.distinct_keys ?m" "rsm_lookup ?m = (rsm_lookup m)(rse_id e \<mapsto> (e', True))" using e' by simp_all
  have "\<forall>x \<in># rsm_live ?m. snd x \<and> rse_id (fst x) < rsm_next_id ?m"
    using ok l e' unfolding l' rsm_ok_def by (metis fst_conv insert_iff relay_session_manager.select_convs(2)
      relay_session_manager.surjective relay_session_manager.update_convs(1) set_mset_add_mset_insert snd_conv)
  then have "rsm_ok ?m" using i d ok by (simp add: rsm_ok_def)
  moreover have "rsm_map m (rse_id e) = Some e" using l rsm_map_Some [OF ok] by (metis union_single_eq_member)
  ultimately show ?thesis using rsm_map_upd [OF d(2)] by simp
qed

lemma unat_suc: "n \<noteq> - 1 \<Longrightarrow> unat (n + 1) = unat n + 1 \<and> n < n + (1 :: u32)"
proof -
  assume a: "n \<noteq> - 1"
  then have "1 + n \<noteq> 0" by (metis add.commute add_eq_0_iff)
  from unatSuc [OF this] show ?thesis by (simp add: word_less_nat_alt add.commute)
qed

lemma relay_open_spec:
  assumes ok: "rsm_ok m" and n: "rsm_next_id m \<noteq> - 1"
  shows "\<exists>r m'. relay_call (RsOpen token fd now) (Some m) = (r, Some m') \<and> rsm_ok m'
    \<and> relay_spec (RsOpen token fd now) r (rsm_map m, rsm_next_id m) (rsm_map m', rsm_next_id m')
    \<and> unat (rsm_next_id m') \<le> unat (rsm_next_id m) + 1"
proof (cases "slot_free snd (rsm_slots m)")
  case None
  then have "card (dom (rsm_map m)) = RELAY_SESSION_MAX"
    using ok card_rsm_map [OF ok] by (simp add: slot_free_None rsm_ok_def rsm_inv_def rsm_live_def)
  then show ?thesis using None ok by (auto intro: relay_spec.intros)
next
  case (Some s)
  let ?a = "(rsm_next_id m, token, fd, now)"
  let ?m = "m\<lparr>rsm_slots := (rsm_slots m)[s := rsm_mk ?a], rsm_next_id := rsm_next_id m + 1\<rparr>"
  have add: "rsm_add m ?a = Some ?m" using Some by (simp add: rsm_add_def rsm_mk_def)
  have key: "rse_id (fst (rsm_mk ?a)) = rsm_next_id m" "snd (rsm_mk ?a)" by (simp_all add: rsm_mk_def)
  have fresh: "rsm_lookup m (rse_id (fst (rsm_mk ?a))) = None" using rsm_fresh [OF ok] by (simp add: key rsm_map_def)
  note d = rsm.add_distinct [OF rsm_okD [OF ok] add fresh] and l = rsm.add_Some [OF rsm_okD(1) [OF ok] add]
  have lt: "rsm_next_id m < rsm_next_id m + 1" "1 \<le> rsm_next_id m + 1" using unat_suc [OF n] ok
    by (auto simp: rsm_ok_def word_le_nat_alt)
  have l3: "rsm_live ?m = add_mset (rsm_mk ?a) (rsm_live m)" using l by blast
  have old: "snd e \<and> rse_id (fst e) < rsm_next_id m + 1" if "e \<in># rsm_live m" for e
    using ok that lt(1) by (auto simp: rsm_ok_def intro: order_less_trans)
  have "\<forall>e \<in># rsm_live ?m. snd e \<and> rse_id (fst e) < rsm_next_id m + 1"
    unfolding l3 set_mset_add_mset_insert ball_simps using old key lt(1) by simp
  then have ok': "rsm_ok ?m" using d l lt unfolding rsm_ok_def by simp
  have map: "rsm_map ?m = (rsm_map m)(rsm_next_id m \<mapsto> fst (rsm_mk ?a))"
    using rsm_map_upd [of ?m m _ "Some (rsm_mk ?a)"] d key by simp
  have "card (dom (rsm_map m)) < RELAY_SESSION_MAX"
    using slot_freeD [OF Some] slot_free_None [of snd "rsm_slots m"] Some card_rsm_map [OF ok] rsm.cap_live [OF rsm_okD(1) [OF ok]] ok
    by (auto simp: rsm_ok_def rsm_inv_def rsm_live_def)
  then have "relay_spec (RsOpen token fd now) (0, Some (rsm_next_id m)) (rsm_map m, rsm_next_id m)
      (rsm_map ?m, rsm_next_id m + 1)"
    unfolding map by (intro relay_spec.open_ok rsm_fresh [OF ok])
  then show ?thesis using Some ok' unat_suc [OF n]
    by (intro exI [of _ "(0, Some (rsm_next_id m))"] exI [of _ ?m]) (simp add: rsm_mk_def)
qed

lemma rs_find_id_map: "rsm_ok m \<Longrightarrow> rs_find_id m i = None \<longleftrightarrow> i \<notin> dom (rsm_map m)"
  by (auto simp: rsm_map_def rsm_lookup_def)

lemma relay_pair_spec:
  assumes ok: "rsm_ok m"
  shows "\<exists>r m'. relay_call (RsPair token fd) (Some m) = (r, Some m') \<and> rsm_ok m' \<and> rsm_next_id m' = rsm_next_id m
    \<and> relay_spec (RsPair token fd) r (rsm_map m, rsm_next_id m) (rsm_map m', rsm_next_id m')"
proof (cases "slot_find snd (\<lambda>e token. rs_waits_for token (fst e)) (rsm_slots m) token")
  case None
  then have "\<forall>e \<in># rsm_live m. \<not> rs_waits_for token (fst e)" by (simp add: slot_find_None rsm_live_def)
  then have "\<forall>e \<in> ran (rsm_map m). \<not> rs_waits_for token e"
    using rsm_map_Some [OF ok] by (fastforce simp: ran_def)
  then show ?thesis using None ok by (auto intro: relay_spec.intros)
next
  case (Some s)
  let ?e = "fst (rsm_slots m ! s)"
  note w = rsm_rewrite [OF ok Some refl, of "?e\<lparr>rse_viewer_fd := fd, rse_state := RELAY_STATE_PAIRED\<rparr>"]
  from slot_findD [OF Some] have "rs_waits_for token ?e" by simp
  then show ?thesis using Some w by (auto simp: Let_def intro: relay_spec.pair_ok)
qed

lemma relay_close_spec:
  assumes ok: "rsm_ok m"
  shows "\<exists>r m'. relay_call (RsClose i) (Some m) = (r, Some m') \<and> rsm_ok m' \<and> rsm_next_id m' = rsm_next_id m
    \<and> relay_spec (RsClose i) r (rsm_map m, rsm_next_id m) (rsm_map m', rsm_next_id m')"
proof (cases "rs_find_id m i")
  case None
  then show ?thesis using ok rs_find_id_map [OF ok, of i] by (auto intro: relay_spec.intros)
next
  case (Some s)
  then obtain m' where m': "rsm_remove m i = Some m'" "relay_session_close (Some m) i = (0, Some m')"
    by (simp add: rsm_remove_def)
  from rsm.remove_Some [OF rsm_okD(1) [OF ok] m'(1)] obtain v where
    l: "rsm_inv m'" "rsm_live m = add_mset v (rsm_live m')" by blast
  have n: "rsm_next_id m' = rsm_next_id m" using m'(2) Some by auto
  note d = rsm.remove_distinct [OF rsm_okD [OF ok] m'(1)]
  have "rsm_ok m'" using ok l d by (auto simp: rsm_ok_def n)
  moreover have "i \<in> dom (rsm_map m)" using Some rs_find_id_map [OF ok, of i] by simp
  ultimately show ?thesis using m'(2) n d rsm_map_upd [of m' m i None]
    by (auto intro!: relay_spec.close_ok exI [of _ m'] simp del: relay_session_close.simps)
qed

lemma relay_bytes_spec:
  assumes ok: "rsm_ok m"
  shows "\<exists>r m'. relay_call (RsBytes i k) (Some m) = (r, Some m') \<and> rsm_ok m' \<and> rsm_next_id m' = rsm_next_id m
    \<and> relay_spec (RsBytes i k) r (rsm_map m, rsm_next_id m) (rsm_map m', rsm_next_id m')"
proof (cases "rs_find_id m i")
  case None
  then show ?thesis using ok rs_find_id_map [OF ok, of i] by (auto intro: relay_spec.intros)
next
  case (Some s)
  let ?e = "fst (rsm_slots m ! s)"
  from Some have f: "slot_find snd (\<lambda>e i. rse_id (fst e) = i) (rsm_slots m) i = Some s" by (simp add: rs_find_id_def)
  note w = rsm_rewrite [OF ok f refl, of "?e\<lparr>rse_bytes_relayed := rse_bytes_relayed ?e + k\<rparr>"]
  from slot_findD [OF f] have "rse_id ?e = i" by simp
  then show ?thesis using Some w by (auto simp: Let_def intro: relay_spec.bytes_ok)
qed

lemma relay_call_spec:
  assumes "rsm_ok m" and "rsm_next_id m \<noteq> - 1"
  shows "\<exists>r m'. relay_call op (Some m) = (r, Some m') \<and> rsm_ok m'
    \<and> relay_spec op r (rsm_map m, rsm_next_id m) (rsm_map m', rsm_next_id m')
    \<and> unat (rsm_next_id m') \<le> unat (rsm_next_id m) + 1"
proof (cases op)
  case RsOpen
  then show ?thesis using relay_open_spec [OF assms] by blast
next
  case RsPair
  with relay_pair_spec [OF assms(1)] show ?thesis by fastforce
next
  case RsClose
  with relay_close_spec [OF assms(1)] show ?thesis by fastforce
next
  case RsBytes
  with relay_bytes_spec [OF assms(1)] show ?thesis by fastforce
qed

lemma relay_run_spec:
  assumes "rsm_ok m" and "unat (rsm_next_id m) + length ops < 2 ^ 32"
  shows "\<exists>rs m'. relay_run ops (Some m) = (rs, Some m') \<and> rsm_ok m'
    \<and> relay_spec_run ops rs (rsm_map m, rsm_next_id m) (rsm_map m', rsm_next_id m')"
  using assms
proof (induction ops arbitrary: m)
  case Nil
  then show ?case by (auto intro: relay_spec_run.intros)
next
  case (Cons op ops)
  have "rsm_next_id m \<noteq> - 1" using Cons.prems(2) by (auto simp: unsigned_minus_1_eq_mask mask_eq_exp_minus_1)
  from relay_call_spec [OF Cons.prems(1) this, of op] obtain r m1 where c: "relay_call op (Some m) = (r, Some m1)"
    "rsm_ok m1" "relay_spec op r (rsm_map m, rsm_next_id m) (rsm_map m1, rsm_next_id m1)"
    "unat (rsm_next_id m1) \<le> unat (rsm_next_id m) + 1" by blast
  from Cons.IH [OF c(2)] c(4) Cons.prems(2) obtain rs m2 where "relay_run ops (Some m1) = (rs, Some m2)" "rsm_ok m2"
    "relay_spec_run ops rs (rsm_map m1, rsm_next_id m1) (rsm_map m2, rsm_next_id m2)" by auto
  with c(1,3) show ?case by (auto intro: relay_spec_run.intros)
qed

lemma rsm_create_ok:
  "\<exists>m. relay_session_manager_create True = Some m \<and> rsm_ok m \<and> rsm_map m = Map.empty \<and> rsm_next_id m = 1"
proof -
  let ?m = "the (relay_session_manager_create True)"
  have l: "rsm_live ?m = {#}" by (simp add: relay_session_manager_create_def rsm_live_def)
  then have ok: "rsm_ok ?m" by (simp add: relay_session_manager_create_def rsm_ok_def rsm_inv_def)
  moreover have "rsm_map ?m = Map.empty" using rsm_map_Some [OF ok] l by (auto intro!: ext simp flip: not_Some_eq)
  ultimately show ?thesis by (simp add: relay_session_manager_create_def)
qed

lemma relay_get_map:
  "relay_session_get (Some m) i (Some out) = (case rsm_map m i of None \<Rightarrow> (-1, Some out) | Some e \<Rightarrow> (0, Some e))"
  by (simp add: rsm_map_def rsm_lookup_def split: option.split)

text \<open>C28: Any calls on a fresh table, short of wrapping the session counter, give answers that the specification
  allows: numbers of sessions are never reused, a viewer gets a session that waits under its token if and only if
  there is one, nothing else changes; and what is stored is the specification's map, of at most 128 sessions.\<close>

theorem relay_sessions_refine:
  assumes "length ops < 2 ^ 32 - 1"
  shows "\<exists>rs m. relay_run ops (relay_session_manager_create True) = (rs, Some m)
    \<and> relay_spec_run ops rs (Map.empty, 1) (rsm_map m, rsm_next_id m)
    \<and> (\<forall>i out. relay_session_get (Some m) i (Some out)
          = (case rsm_map m i of None \<Rightarrow> (-1, Some out) | Some e \<Rightarrow> (0, Some e)))
    \<and> relay_session_count (Some m) = card (dom (rsm_map m))
    \<and> relay_session_count (Some m) \<le> RELAY_SESSION_MAX"
proof -
  obtain m0 where m0: "relay_session_manager_create True = Some m0" "rsm_ok m0" "rsm_map m0 = Map.empty" "rsm_next_id m0 = 1"
    using rsm_create_ok by blast
  have "unat (rsm_next_id m0) + length ops < 2 ^ 32" using assms m0(4) by simp
  from relay_run_spec [OF m0(2) this] obtain rs m where m: "relay_run ops (Some m0) = (rs, Some m)" "rsm_ok m"
    "relay_spec_run ops rs (rsm_map m0, rsm_next_id m0) (rsm_map m, rsm_next_id m)" by blast
  have c: "relay_session_count (Some m) = card (dom (rsm_map m))"
    using card_rsm_map [OF m(2)] by (simp add: relay_session_count_def rsm_live_def size_slot_live)
  moreover have "card (dom (rsm_map m)) \<le> RELAY_SESSION_MAX"
    using card_rsm_map [OF m(2)] rsm.cap_live [OF rsm_okD(1) [OF m(2)]] by simp
  ultimately show ?thesis using m m0 relay_get_map [of m] by (intro exI [of _ rs] exI [of _ m]) simp
qed

lemma relay_sessions_refine_witness:
  "\<exists>rs m. relay_run [RsOpen (replicate 32 7) 3 0, RsPair (replicate 32 7) 4, RsPair (replicate 32 7) 5]
       (relay_session_manager_create True) = (rs, Some m)
     \<and> relay_spec_run [RsOpen (replicate 32 7) 3 0, RsPair (replicate 32 7) 4, RsPair (replicate 32 7) 5] rs
         (Map.empty, 1) (rsm_map m, rsm_next_id m)"
  using relay_sessions_refine [of "[RsOpen (replicate 32 7) 3 0, RsPair (replicate 32 7) 4, RsPair (replicate 32 7) 5]"]
  by auto

section \<open>Who is paired with whom\<close>

definition rs_history_ok :: "(relay_op \<times> int \<times> u32 option) list \<Rightarrow> (u32 \<rightharpoonup> relay_session_entry) \<times> u32 \<Rightarrow> bool" where
  "rs_history_ok h t \<longleftrightarrow> (case t of (m, n) \<Rightarrow>
     (\<forall>i e. m i = Some e \<longrightarrow> (\<exists>token fd now. (RsOpen token fd now, 0, Some i) \<in> set h \<and> rse_token e = take RELAY_TOKEN_LEN token
        \<and> rse_host_fd e = fd) \<and> (rse_state e = RELAY_STATE_WAITING \<longrightarrow> (\<forall>token fd. (RsPair token fd, 0, Some i) \<notin> set h)))
     \<and> (\<forall>op i. (op, 0, Some i) \<in> set h \<longrightarrow> i < n))"

lemma rs_history_step:
  assumes "relay_spec op r t t'" and "rs_history_ok h t" and "snd t \<noteq> - 1"
  shows "rs_history_ok (h @ [(op, r)]) t'"
  using assms
proof (induction rule: relay_spec.induct)
  case (open_ok m n token fd now)
  have lt: "n < n + 1" using unat_suc [of n] open_ok.prems(2) by simp
  have "i < n + 1" if "(x, 0, Some i) \<in> set h" for x i
  proof -
    have "i < n" using open_ok.prems(1) that by (auto simp: rs_history_ok_def)
    with lt show ?thesis by (rule order_less_trans [rotated])
  qed
  moreover have "(RsPair tok f, 0, Some n) \<notin> set h" for tok f
    using open_ok.prems(1) by (auto simp: rs_history_ok_def)
  ultimately show ?case using open_ok.prems(1) lt by (auto simp: rs_history_ok_def rsm_mk_def)
next
  case (pair_ok m i e token fd n)
  then show ?case by (fastforce simp: rs_history_ok_def)
qed (auto simp: rs_history_ok_def)

lemma rs_history_pair:
  assumes "relay_spec (RsPair token fd) (0, Some i) t t'" and "rs_history_ok h t"
  shows "(\<exists>token' hfd now. (RsOpen token' hfd now, 0, Some i) \<in> set h \<and> take RELAY_TOKEN_LEN token' = take RELAY_TOKEN_LEN token)
    \<and> (\<forall>token' fd'. (RsPair token' fd', 0, Some i) \<notin> set h)"
  using assms by (cases rule: relay_spec.cases) (fastforce simp: rs_history_ok_def rs_waits_for_def)+

lemma rs_history_run:
  assumes "relay_spec_run ops rs t t''" and "rs_history_ok h t" and "unat (snd t) + length ops < 2 ^ 32"
    and "zip ops rs = xs @ (RsPair token fd, 0, Some i) # ys"
  shows "(\<exists>token' hfd now. (RsOpen token' hfd now, 0, Some i) \<in> set (h @ xs)
        \<and> take RELAY_TOKEN_LEN token' = take RELAY_TOKEN_LEN token)
    \<and> (\<forall>token' fd'. (RsPair token' fd', 0, Some i) \<notin> set (h @ xs))"
  using assms
proof (induction arbitrary: h xs rule: relay_spec_run.induct)
  case (Cons op r t t' ops rs t'')
  show ?case
  proof (cases xs)
    case Nil
    with Cons show ?thesis using rs_history_pair [of token fd i t t' h] by simp
  next
    case (Cons x xs')
    have n: "snd t \<noteq> - 1" using Cons.prems(2) by (auto simp: unsigned_minus_1_eq_mask mask_eq_exp_minus_1)
    from rs_history_step [OF Cons.hyps(1) Cons.prems(1) n] have "rs_history_ok (h @ [(op, r)]) t'" .
    moreover have "unat (snd t') + length ops < 2 ^ 32" using Cons.hyps(1) Cons.prems(2) n
      by (cases rule: relay_spec.cases) (auto simp: unat_suc)
    moreover have "zip ops rs = xs' @ (RsPair token fd, 0, Some i) # ys" "x = (op, r)" using Cons.prems(3) Cons by simp_all
    ultimately show ?thesis using Cons.IH [of "h @ [(op, r)]" xs'] Cons by simp
  qed
qed simp

text \<open>C3: A viewer is paired to a session only under the token that a host opened it with, and a session is
  given to at most one viewer: among the answers of any calls on a fresh table (short of wrapping the counter),
  a pairing answered with a session follows the opening of that session with the same 32 bytes, and no earlier
  pairing got it.\<close>

theorem relay_pairing_exclusive:
  assumes "length ops < 2 ^ 32 - 1"
    and "relay_run ops (relay_session_manager_create True) = (rs, m)"
    and "zip ops rs = xs @ (RsPair token fd, 0, Some i) # ys"
  shows "(\<exists>token' hfd now. (RsOpen token' hfd now, 0, Some i) \<in> set xs
        \<and> take RELAY_TOKEN_LEN token' = take RELAY_TOKEN_LEN token)
    \<and> (\<forall>token' fd'. (RsPair token' fd', 0, Some i) \<notin> set xs \<union> set ys)"
proof -
  obtain m0 where m0: "relay_session_manager_create True = Some m0" "rsm_ok m0" "rsm_map m0 = Map.empty" "rsm_next_id m0 = 1"
    using rsm_create_ok by blast
  have "unat (rsm_next_id m0) + length ops < 2 ^ 32" using assms(1) m0(4) by simp
  from relay_run_spec [OF m0(2) this] obtain t where t: "relay_spec_run ops rs (Map.empty, 1) t"
    using assms(2) m0 by auto
  have h: "rs_history_ok [] (Map.empty, 1)" by (simp add: rs_history_ok_def)
  have len: "unat (snd (Map.empty :: u32 \<rightharpoonup> relay_session_entry, 1 :: u32)) + length ops < 2 ^ 32" using assms(1) by simp
  note run = rs_history_run [OF t h len]
  have "(RsPair token' fd', 0, Some i) \<notin> set ys" for token' fd'
  proof
    assume "(RsPair token' fd', 0, Some i) \<in> set ys"
    then obtain ys1 ys2 where "ys = ys1 @ (RsPair token' fd', 0, Some i) # ys2" by (metis split_list)
    then have "zip ops rs = (xs @ (RsPair token fd, 0, Some i) # ys1) @ (RsPair token' fd', 0, Some i) # ys2"
      using assms(3) by simp
    from run [OF this] show False by auto
  qed
  with run [OF assms(3)] show ?thesis by simp
qed

lemma rs_witness_run:
  "fst (relay_run [RsOpen (replicate 32 7) 3 0, RsPair (replicate 32 7) 4, RsPair (replicate 32 7) 5]
     (relay_session_manager_create True)) = [(0, Some 1), (0, Some 1), (-1, None)]"
  by code_simp

lemma relay_pairing_exclusive_witness:
  "fst (relay_run [RsOpen (replicate 32 7) 3 0, RsPair (replicate 32 7) 4, RsPair (replicate 32 7) 5]
      (relay_session_manager_create True)) = [(0, Some 1), (0, Some 1), (-1, None)]
   \<and> (\<exists>token' hfd now. (RsOpen token' hfd now, 0, Some 1) \<in> set [(RsOpen (replicate 32 7) 3 0, 0 :: int, Some (1 :: u32))]
     \<and> take RELAY_TOKEN_LEN token' = take RELAY_TOKEN_LEN (replicate 32 7))"
  using relay_pairing_exclusive [of "[RsOpen (replicate 32 7) 3 0, RsPair (replicate 32 7) 4, RsPair (replicate 32 7) 5]"
      "[(0, Some 1), (0, Some 1), (-1, None)]"
      "snd (relay_run [RsOpen (replicate 32 7) 3 0, RsPair (replicate 32 7) 4, RsPair (replicate 32 7) 5] (relay_session_manager_create True))"
      "[(RsOpen (replicate 32 7) 3 0, 0, Some 1)]" "replicate 32 7" 4 1 "[(RsPair (replicate 32 7) 5, -1, None)]"]
  by (simp add: prod_eq_iff rs_witness_run del: relay_run.simps)

end
