(* ===== verification/Relay_Client.thy ===== *)
theory Relay_Client
  imports Relay_Session "HOL-Library.Sublist"
begin

text \<open>
  The client side of the relay: \<^verbatim>\<open>src/src/relay/relay_client.c\<close>.  The \<open>send_fn\<close> of the application is a
  field of \<open>relay_io\<close>, a function of the bytes and of the application's state (its \<open>user_data\<close>), which the
  operations thread through.  A received buffer is the list of its bytes; the data callback is called
  with a pointer into it and a length, here the bytes from that pointer on and the length.
\<close>

datatype relay_client_state = RELAY_CLIENT_DISCONNECTED | RELAY_CLIENT_CONNECTING | RELAY_CLIENT_HELLO_SENT
  | RELAY_CLIENT_READY | RELAY_CLIENT_ERROR

record 'w relay_io =
  rio_send_fn :: "(u8 list \<Rightarrow> 'w \<Rightarrow> int \<times> 'w) option"

record 'w relay_client =
  rlc_send :: "u8 list \<Rightarrow> 'w \<Rightarrow> int \<times> 'w"
  rlc_token :: "u8 list"
  rlc_is_host :: bool
  rlc_state :: relay_client_state
  rlc_session_id :: u32

definition relay_client_create :: "bool \<Rightarrow> 'w relay_io option \<Rightarrow> u8 list option \<Rightarrow> bool \<Rightarrow> 'w relay_client option" where
  "relay_client_create mem io token is_host =
     (case io of None \<Rightarrow> None
      | Some io \<Rightarrow> (case rio_send_fn io of None \<Rightarrow> None
          | Some send \<Rightarrow> (case token of None \<Rightarrow> None
              | Some token \<Rightarrow> if \<not> mem then None
                  else Some \<lparr>rlc_send = send, rlc_token = take RELAY_TOKEN_LEN token, rlc_is_host = is_host,
                     rlc_state = RELAY_CLIENT_DISCONNECTED, rlc_session_id = 0\<rparr>)))"

definition relay_client_get_state :: "'w relay_client option \<Rightarrow> relay_client_state" where
  "relay_client_get_state c = (case c of None \<Rightarrow> RELAY_CLIENT_DISCONNECTED | Some c \<Rightarrow> rlc_state c)"

definition relay_client_get_session_id :: "'w relay_client option \<Rightarrow> u32" where
  "relay_client_get_session_id c = (case c of None \<Rightarrow> 0
     | Some c \<Rightarrow> if rlc_state c = RELAY_CLIENT_READY then rlc_session_id c else 0)"

fun relay_client_connect :: "'w relay_client option \<Rightarrow> 'w \<Rightarrow> int \<times> 'w relay_client option \<times> 'w" where
  "relay_client_connect None w = (-1, None, w)"
| "relay_client_connect (Some c) w =
     (if rlc_state c \<noteq> RELAY_CLIENT_DISCONNECTED then (-1, Some c, w)
      else let hello = the (snd (relay_build_hello (Some (rlc_token c)) (rlc_is_host c) (Some (replicate HELLO_PAYLOAD_LEN 0))));
               hdr = \<lparr>rh_type = RELAY_MSG_HELLO, rh_session_id = 0, rh_payload_len = 36\<rparr>;
               msg = the (snd (relay_encode_header (Some hdr) (Some (replicate (RELAY_HDR_SIZE + HELLO_PAYLOAD_LEN) 0))));
               msg = write_at RELAY_HDR_SIZE hello msg
           in case rlc_send c msg w of (sent, w') \<Rightarrow>
             if sent \<noteq> int (length msg) then (-1, Some (c\<lparr>rlc_state := RELAY_CLIENT_ERROR\<rparr>), w')
             else (0, Some (c\<lparr>rlc_state := RELAY_CLIENT_HELLO_SENT\<rparr>), w'))"

fun relay_client_receive :: "'w relay_client option \<Rightarrow> u8 list option \<Rightarrow> bool \<Rightarrow> 'w
    \<Rightarrow> int \<times> 'w relay_client option \<times> 'w \<times> (u8 list \<times> nat) list" where
  "relay_client_receive (Some c) (Some buf) has_cb w =
     (if length buf < RELAY_HDR_SIZE then (-1, Some c, w, [])
      else case relay_decode_header (Some buf) (Some \<lparr>rh_type = 0, rh_session_id = 0, rh_payload_len = 0\<rparr>) of
        (r, h) \<Rightarrow>
          if r \<noteq> 0 then (-1, Some c, w, [])
          else let hdr = the h; payload = drop RELAY_HDR_SIZE buf in
            if rh_type hdr = RELAY_MSG_HELLO_ACK then
              (0, Some (if rlc_state c = RELAY_CLIENT_HELLO_SENT
                        then c\<lparr>rlc_session_id := rh_session_id hdr, rlc_state := RELAY_CLIENT_READY\<rparr> else c), w, [])
            else if rh_type hdr = RELAY_MSG_DATA then
              (0, Some c, w, if has_cb \<and> 0 < rh_payload_len hdr then [(payload, unat (rh_payload_len hdr))] else [])
            else if rh_type hdr = RELAY_MSG_PING then
              let pong = the (snd (relay_encode_header
                    (Some \<lparr>rh_type = RELAY_MSG_PONG, rh_session_id = rlc_session_id c, rh_payload_len = 0\<rparr>)
                    (Some (replicate RELAY_HDR_SIZE 0))))
              in (0, Some c, snd (rlc_send c pong w), [])
            else if rh_type hdr = RELAY_MSG_DISCONNECT then (0, Some (c\<lparr>rlc_state := RELAY_CLIENT_DISCONNECTED\<rparr>), w, [])
            else if rh_type hdr = RELAY_MSG_ERROR then (0, Some (c\<lparr>rlc_state := RELAY_CLIENT_ERROR\<rparr>), w, [])
            else (0, Some c, w, []))"
| "relay_client_receive c buf has_cb w = (-1, c, w, [])"

fun relay_client_send_data :: "bool \<Rightarrow> 'w relay_client option \<Rightarrow> u8 list option \<Rightarrow> 'w \<Rightarrow> int \<times> 'w" where
  "relay_client_send_data mem (Some c) (Some payload) w =
     (if rlc_state c \<noteq> RELAY_CLIENT_READY then (-1, w)
      else if length payload > RELAY_MAX_PAYLOAD then (-1, w)
      else if \<not> mem then (-1, w)
      else let hdr = \<lparr>rh_type = RELAY_MSG_DATA, rh_session_id = rlc_session_id c, rh_payload_len = of_nat (length payload)\<rparr>;
               msg = the (snd (relay_encode_header (Some hdr) (Some (replicate (RELAY_HDR_SIZE + length payload) 0))));
               msg = write_at RELAY_HDR_SIZE payload msg
           in case rlc_send c msg w of (sent, w') \<Rightarrow> if sent = int (length msg) then (0, w') else (-1, w'))"
| "relay_client_send_data mem c payload w = (-1, w)"

section \<open>The messages on the wire\<close>

definition relay_message :: "u32 \<Rightarrow> u32 \<Rightarrow> u8 list \<Rightarrow> u8 list" where
  "relay_message t sid payload =
     relay_header_bytes \<lparr>rh_type = t, rh_session_id = sid, rh_payload_len = of_nat (length payload)\<rparr> @ payload"

lemma relay_build_message:
  "length p = n \<Longrightarrow> write_at RELAY_HDR_SIZE p (overwrite (relay_header_bytes h) (replicate (RELAY_HDR_SIZE + n) 0)) = relay_header_bytes h @ p"
  by (simp add: write_at_def overwrite_def)

lemma length_relay_hello_bytes: "length token = RELAY_TOKEN_LEN \<Longrightarrow> length (relay_hello_bytes token is_host) = HELLO_PAYLOAD_LEN"
  by (simp add: relay_hello_bytes_def RELAY_TOKEN_LEN_def HELLO_PAYLOAD_LEN_def)

lemma relay_connect_eq:
  assumes "length (rlc_token c) = RELAY_TOKEN_LEN" and "rlc_state c = RELAY_CLIENT_DISCONNECTED"
  shows "relay_client_connect (Some c) w =
    (let msg = relay_message RELAY_MSG_HELLO 0 (relay_hello_bytes (rlc_token c) (rlc_is_host c)) in
     case rlc_send c msg w of (sent, w') \<Rightarrow>
       if sent \<noteq> int (length msg) then (-1, Some (c\<lparr>rlc_state := RELAY_CLIENT_ERROR\<rparr>), w')
       else (0, Some (c\<lparr>rlc_state := RELAY_CLIENT_HELLO_SENT\<rparr>), w'))"
proof -
  note hello = relay_hello_roundtrip [OF assms(1) assms(1), THEN conjunct1, of "rlc_is_host c"]
  note len = length_relay_hello_bytes [OF assms(1), of "rlc_is_host c"]
  have "(36 :: u16) = of_nat HELLO_PAYLOAD_LEN" by (simp add: HELLO_PAYLOAD_LEN_def)
  then show ?thesis using assms(2) len
    by (simp add: hello relay_message_def relay_build_message del: relay_build_hello.simps)
qed

lemma relay_send_eq:
  "rlc_state c = RELAY_CLIENT_READY \<Longrightarrow> length payload \<le> RELAY_MAX_PAYLOAD \<Longrightarrow>
   relay_client_send_data True (Some c) (Some payload) w =
    (let msg = relay_message RELAY_MSG_DATA (rlc_session_id c) payload in
     case rlc_send c msg w of (sent, w') \<Rightarrow> if sent = int (length msg) then (0, w') else (-1, w'))"
  by (simp add: relay_message_def relay_build_message)

lemma relay_dec_message:
  "t < 256 \<Longrightarrow> relay_dec (relay_message t sid payload) =
     Some \<lparr>rh_type = t, rh_session_id = sid, rh_payload_len = of_nat (length payload)\<rparr>"
  unfolding relay_message_def by (rule relay.dec_enc) (simp add: relay_hdr_wf_def)

text \<open>Receiving, in terms of the decoded header.\<close>

lemma relay_receive_eq:
  "relay_client_receive (Some c) (Some buf) has_cb w = (case relay_dec buf of
     None \<Rightarrow> (-1, Some c, w, [])
   | Some h \<Rightarrow>
       if rh_type h = RELAY_MSG_HELLO_ACK then
         (0, Some (if rlc_state c = RELAY_CLIENT_HELLO_SENT
                   then c\<lparr>rlc_session_id := rh_session_id h, rlc_state := RELAY_CLIENT_READY\<rparr> else c), w, [])
       else if rh_type h = RELAY_MSG_DATA then
         (0, Some c, w, if has_cb \<and> 0 < rh_payload_len h then [(drop RELAY_HDR_SIZE buf, unat (rh_payload_len h))] else [])
       else if rh_type h = RELAY_MSG_PING then
         (0, Some c, snd (rlc_send c (relay_message RELAY_MSG_PONG (rlc_session_id c) []) w), [])
       else if rh_type h = RELAY_MSG_DISCONNECT then (0, Some (c\<lparr>rlc_state := RELAY_CLIENT_DISCONNECTED\<rparr>), w, [])
       else if rh_type h = RELAY_MSG_ERROR then (0, Some (c\<lparr>rlc_state := RELAY_CLIENT_ERROR\<rparr>), w, [])
       else (0, Some c, w, []))"
  by (auto simp: relay_dec_def Let_def relay_message_def overwrite_def split: prod.split)

section \<open>What a client puts on the wire\<close>

text \<open>The messages handed to \<open>send_fn\<close> are recorded in front of the application's own state.\<close>

definition rc_log :: "(u8 list \<Rightarrow> 'w \<Rightarrow> int \<times> 'w) \<Rightarrow> u8 list \<Rightarrow> u8 list list \<times> 'w \<Rightarrow> int \<times> u8 list list \<times> 'w" where
  "rc_log f bs s = (case s of (out, w) \<Rightarrow> case f bs w of (r, w') \<Rightarrow> (r, out @ [bs], w'))"

datatype rc_op = RcConnect | RcReceive "u8 list" bool | RcSend "u8 list"

fun rc_call :: "rc_op \<Rightarrow> 'w relay_client option \<times> 'w \<Rightarrow> 'w relay_client option \<times> 'w" where
  "rc_call RcConnect (c, w) = (case relay_client_connect c w of (_, c', w') \<Rightarrow> (c', w'))"
| "rc_call (RcReceive b cb) (c, w) = (case relay_client_receive c (Some b) cb w of (_, c', w', _) \<Rightarrow> (c', w'))"
| "rc_call (RcSend p) (c, w) = (c, snd (relay_client_send_data True c (Some p) w))"

definition rc_acked :: "rc_op list \<Rightarrow> u32 \<Rightarrow> bool" where
  "rc_acked ops sid \<longleftrightarrow> RcConnect \<in> set ops \<and> (\<exists>b cb h. RcReceive b cb \<in> set ops \<and> relay_dec b = Some h
     \<and> rh_type h = RELAY_MSG_HELLO_ACK \<and> rh_session_id h = sid)"

text \<open>The messages that a client may have sent after the calls \<open>ops\<close>.\<close>

inductive rc_legit :: "u8 list \<Rightarrow> bool \<Rightarrow> rc_op list \<Rightarrow> u8 list \<Rightarrow> bool" for token is_host ops where
  hello: "RcConnect \<in> set ops \<Longrightarrow>
    rc_legit token is_host ops (relay_message RELAY_MSG_HELLO 0 (relay_hello_bytes token is_host))"
| data: "RcSend p \<in> set ops \<Longrightarrow> length p \<le> RELAY_MAX_PAYLOAD \<Longrightarrow> rc_acked ops sid \<Longrightarrow>
    rc_legit token is_host ops (relay_message RELAY_MSG_DATA sid p)"
| pong: "RcReceive b cb \<in> set ops \<Longrightarrow> relay_dec b = Some h \<Longrightarrow> rh_type h = RELAY_MSG_PING \<Longrightarrow>
    sid = 0 \<or> rc_acked ops sid \<Longrightarrow> rc_legit token is_host ops (relay_message RELAY_MSG_PONG sid [])"

lemma rc_acked_more: "rc_acked ops sid \<Longrightarrow> rc_acked (ops @ ops') sid"
  by (auto simp: rc_acked_def)

lemma rc_legit_more: "rc_legit token is_host ops msg \<Longrightarrow> rc_legit token is_host (ops @ ops') msg"
  by (induction rule: rc_legit.induct) (auto intro: rc_legit.intros rc_acked_more)

definition rc_ok :: "u8 list \<Rightarrow> bool \<Rightarrow> (u8 list \<Rightarrow> 'w \<Rightarrow> int \<times> 'w) \<Rightarrow> rc_op list
    \<Rightarrow> (u8 list list \<times> 'w) relay_client \<Rightarrow> u8 list list \<Rightarrow> bool" where
  "rc_ok token is_host f ops c out \<longleftrightarrow> rlc_send c = rc_log f \<and> rlc_token c = token \<and> rlc_is_host c = is_host
     \<and> (rlc_state c = RELAY_CLIENT_HELLO_SENT \<longrightarrow> RcConnect \<in> set ops)
     \<and> (rlc_state c = RELAY_CLIENT_READY \<longrightarrow> rc_acked ops (rlc_session_id c))
     \<and> (rlc_session_id c = 0 \<or> rc_acked ops (rlc_session_id c))
     \<and> (\<forall>msg \<in> set out. rc_legit token is_host ops msg)"

lemma rc_okI:
  assumes ok: "rc_ok token is_host f ops c out"
    and same: "rlc_send c' = rlc_send c" "rlc_token c' = rlc_token c" "rlc_is_host c' = rlc_is_host c"
    and hello: "rlc_state c' = RELAY_CLIENT_HELLO_SENT \<longrightarrow>
       rlc_state c = RELAY_CLIENT_HELLO_SENT \<or> op = RcConnect"
    and ready: "rlc_state c' = RELAY_CLIENT_READY \<longrightarrow>
       (rlc_state c = RELAY_CLIENT_READY \<and> rlc_session_id c' = rlc_session_id c)
         \<or> rc_acked (ops @ [op]) (rlc_session_id c')"
    and sid: "rlc_session_id c' = rlc_session_id c \<or> rc_acked (ops @ [op]) (rlc_session_id c')"
    and new: "\<forall>msg \<in> set new. rc_legit token is_host (ops @ [op]) msg"
  shows "rc_ok token is_host f (ops @ [op]) c' (out @ new)"
proof -
  have "rlc_send c' = rc_log f" "rlc_token c' = token" "rlc_is_host c' = is_host"
    using ok same by (simp_all add: rc_ok_def)
  moreover have "rlc_state c' = RELAY_CLIENT_HELLO_SENT \<longrightarrow> RcConnect \<in> set (ops @ [op])"
    using ok hello unfolding rc_ok_def by fastforce
  moreover have "rlc_state c' = RELAY_CLIENT_READY \<longrightarrow> rc_acked (ops @ [op]) (rlc_session_id c')"
    using ok ready rc_acked_more [of ops _ "[op]"] unfolding rc_ok_def by metis
  moreover have "rlc_session_id c' = 0 \<or> rc_acked (ops @ [op]) (rlc_session_id c')"
    using ok sid rc_acked_more [of ops _ "[op]"] unfolding rc_ok_def by metis
  moreover have "\<forall>msg \<in> set (out @ new). rc_legit token is_host (ops @ [op]) msg"
    using ok new rc_legit_more [of token is_host ops _ "[op]"] unfolding rc_ok_def by auto
  ultimately show ?thesis unfolding rc_ok_def by blast
qed

lemma rc_call_connect:
  assumes ok: "rc_ok token is_host f ops c out" and t: "length token = RELAY_TOKEN_LEN"
  shows "\<exists>c' out' w'. rc_call RcConnect (Some c, out, w) = (Some c', out', w') \<and> rc_ok token is_host f (ops @ [RcConnect]) c' out'"
proof (cases "rlc_state c = RELAY_CLIENT_DISCONNECTED")
  case True
  let ?msg = "relay_message RELAY_MSG_HELLO 0 (relay_hello_bytes token is_host)"
  from ok have c: "rlc_send c = rc_log f" "rlc_token c = token" "rlc_is_host c = is_host" by (simp_all add: rc_ok_def)
  have "rc_legit token is_host (ops @ [RcConnect]) ?msg" by (rule rc_legit.hello) simp
  then have "rc_ok token is_host f (ops @ [RcConnect]) (c\<lparr>rlc_state := st\<rparr>) (out @ [?msg])"
    if "st = RELAY_CLIENT_ERROR \<or> st = RELAY_CLIENT_HELLO_SENT" for st
    using that by (intro rc_okI [OF ok]) auto
  then show ?thesis using t True c
    by (cases "f ?msg w") (simp add: relay_connect_eq rc_log_def Let_def del: relay_client_connect.simps)
next
  case False
  then show ?thesis using rc_okI [OF ok refl refl refl, of RcConnect "[]"] by simp
qed

lemma rc_call_receive:
  assumes ok: "rc_ok token is_host f ops c out"
  shows "\<exists>c' out' w'. rc_call (RcReceive b cb) (Some c, out, w) = (Some c', out', w')
    \<and> rc_ok token is_host f (ops @ [RcReceive b cb]) c' out'"
proof (cases "relay_dec b")
  case None
  then show ?thesis using rc_okI [OF ok refl refl refl, of "RcReceive b cb" "[]"]
    by (simp add: relay_receive_eq del: relay_client_receive.simps)
next
  case (Some h)
  let ?ops = "ops @ [RcReceive b cb]"
  have ack: "rc_acked ?ops (rh_session_id h)"
    if "rh_type h = RELAY_MSG_HELLO_ACK" "rlc_state c = RELAY_CLIENT_HELLO_SENT"
    using that ok Some unfolding rc_acked_def rc_ok_def by auto
  have pong: "rc_legit token is_host ?ops (relay_message RELAY_MSG_PONG (rlc_session_id c) [])"
    if "rh_type h = RELAY_MSG_PING"
    using that ok Some by (intro rc_legit.pong [of b cb _ h]) (auto simp: rc_ok_def rc_acked_more)
  have same: "rc_ok token is_host f ?ops c out" using rc_okI [OF ok refl refl refl, of "RcReceive b cb" "[]"] by simp
  have st: "rc_ok token is_host f ?ops (c\<lparr>rlc_state := st\<rparr>) out"
    if "st = RELAY_CLIENT_DISCONNECTED \<or> st = RELAY_CLIENT_ERROR" for st
    using that rc_okI [OF ok, of "c\<lparr>rlc_state := st\<rparr>" "RcReceive b cb" "[]"] by auto
  have rdy: "rc_ok token is_host f ?ops (c\<lparr>rlc_session_id := rh_session_id h, rlc_state := RELAY_CLIENT_READY\<rparr>) out"
    if "rh_type h = RELAY_MSG_HELLO_ACK" "rlc_state c = RELAY_CLIENT_HELLO_SENT"
    using ack [OF that] rc_okI [OF ok, of "c\<lparr>rlc_session_id := rh_session_id h, rlc_state := RELAY_CLIENT_READY\<rparr>"
        "RcReceive b cb" "[]"] by simp
  have png: "rc_ok token is_host f ?ops c (out @ [relay_message RELAY_MSG_PONG (rlc_session_id c) []])"
    if "rh_type h = RELAY_MSG_PING"
    using pong [OF that] rc_okI [OF ok refl refl refl, of "RcReceive b cb"] by simp
  have "rlc_send c = rc_log f" using ok by (simp add: rc_ok_def)
  then show ?thesis using Some same st rdy png
    by (cases "f (relay_message RELAY_MSG_PONG (rlc_session_id c) []) w")
      (simp add: relay_receive_eq rc_log_def del: relay_client_receive.simps)
qed

lemma rc_call_send:
  assumes ok: "rc_ok token is_host f ops c out"
  shows "\<exists>c' out' w'. rc_call (RcSend p) (Some c, out, w) = (Some c', out', w')
    \<and> rc_ok token is_host f (ops @ [RcSend p]) c' out'"
proof (cases "rlc_state c = RELAY_CLIENT_READY \<and> length p \<le> RELAY_MAX_PAYLOAD")
  case True
  then have "rc_legit token is_host (ops @ [RcSend p]) (relay_message RELAY_MSG_DATA (rlc_session_id c) p)"
    using ok by (intro rc_legit.data) (auto simp: rc_ok_def rc_acked_more)
  then have "rc_ok token is_host f (ops @ [RcSend p]) c (out @ [relay_message RELAY_MSG_DATA (rlc_session_id c) p])"
    using rc_okI [OF ok refl refl refl, of "RcSend p"] by simp
  moreover have "rlc_send c = rc_log f" using ok by (simp add: rc_ok_def)
  ultimately show ?thesis using True
    by (cases "f (relay_message RELAY_MSG_DATA (rlc_session_id c) p) w")
      (simp add: relay_send_eq rc_log_def Let_def del: relay_client_send_data.simps)
next
  case False
  then show ?thesis using rc_okI [OF ok refl refl refl, of "RcSend p" "[]"] by auto
qed

lemma rc_run_ok:
  assumes "rc_ok token is_host f past c out" and "length token = RELAY_TOKEN_LEN"
  shows "\<exists>c' out' w'. fold rc_call ops (Some c, out, w) = (Some c', out', w') \<and> rc_ok token is_host f (past @ ops) c' out'"
  using assms(1)
proof (induction ops arbitrary: past c out w)
  case Nil
  then show ?case by simp
next
  case (Cons op ops)
  have "\<exists>c' out' w'. rc_call op (Some c, out, w) = (Some c', out', w') \<and> rc_ok token is_host f (past @ [op]) c' out'"
    using rc_call_connect [OF Cons.prems assms(2)] rc_call_receive [OF Cons.prems] rc_call_send [OF Cons.prems]
    by (cases op) simp_all
  then obtain c1 out1 w1 where "rc_call op (Some c, out, w) = (Some c1, out1, w1)" "rc_ok token is_host f (past @ [op]) c1 out1"
    by blast
  with Cons.IH [of "past @ [op]" c1 out1 w1] show ?case by simp
qed

text \<open>C5: Whatever a server sends and whatever is asked of it, a client puts three kinds of message on the
  wire: the HELLO with its own token and role after a connect; a DATA message with the payload of a send
  call, under a session that a HELLO_ACK gave it after it connected; an empty PONG after a PING.  It reports
  a session only if a HELLO_ACK carried that number.\<close>

theorem relay_client_sends:
  assumes "length token = RELAY_TOKEN_LEN"
    and "relay_client_create True (Some \<lparr>rio_send_fn = Some (rc_log f)\<rparr>) (Some token) is_host = Some c0"
    and "fold rc_call ops (Some c0, [], w) = (c, out, w')"
  shows "(\<forall>msg \<in> set out. rc_legit token is_host ops msg)
    \<and> (relay_client_get_state c = RELAY_CLIENT_READY \<longrightarrow> rc_acked ops (relay_client_get_session_id c))
    \<and> (relay_client_get_state c \<noteq> RELAY_CLIENT_READY \<longrightarrow> relay_client_get_session_id c = 0)"
proof -
  have "rc_ok token is_host f [] c0 []" using assms(1,2) by (auto simp: relay_client_create_def rc_ok_def)
  from rc_run_ok [OF this assms(1), of ops w] assms(3) obtain c' where "c = Some c'" "rc_ok token is_host f ops c' out" by auto
  then show ?thesis by (auto simp: rc_ok_def relay_client_get_state_def relay_client_get_session_id_def)
qed

lemma relay_client_sends_witness:
  "let token = replicate 32 7; f = (\<lambda>bs w. (int (length bs), w + length bs));
       c0 = relay_client_create True (Some \<lparr>rio_send_fn = Some (rc_log f)\<rparr>) (Some token) True;
       ops = [RcConnect, RcReceive (relay_message RELAY_MSG_HELLO_ACK 9 []) True, RcSend [1, 2, 3]];
       r = fold rc_call ops (c0, [], 0)
   in \<forall>msg \<in> set (fst (snd r)). rc_legit token True ops msg"
  unfolding Let_def
proof -
  let ?f = "\<lambda>bs w. (int (length (bs :: u8 list)), w + length bs)"
  obtain c0 where c0: "relay_client_create True (Some \<lparr>rio_send_fn = Some (rc_log ?f)\<rparr>) (Some (replicate 32 7)) True = Some c0"
    by (simp add: relay_client_create_def)
  let ?ops = "[RcConnect, RcReceive (relay_message RELAY_MSG_HELLO_ACK 9 []) True, RcSend [1, 2, 3]]"
  obtain c out w where r: "fold rc_call ?ops (Some c0, [], 0) = (c, out, w)" by (cases "fold rc_call ?ops (Some c0, [], 0)") auto
  have "length (replicate 32 7 :: u8 list) = RELAY_TOKEN_LEN" by (simp add: RELAY_TOKEN_LEN_def)
  from relay_client_sends [OF this c0 r] show "\<forall>msg \<in> set (fst (snd (fold rc_call ?ops (relay_client_create True
      (Some \<lparr>rio_send_fn = Some (rc_log ?f)\<rparr>) (Some (replicate 32 7)) True, [], 0)))). rc_legit (replicate 32 7) True ?ops msg"
    unfolding c0 r by simp
qed

text \<open>The length that the callback gets is the one the header claims, whatever was received: ten bytes announce a
  payload of a hundred that is not there.\<close>

lemma relay_receive_unchecked:
  "relay_client_receive (Some c) (Some (relay_header_bytes \<lparr>rh_type = RELAY_MSG_DATA, rh_session_id = 0, rh_payload_len = 100\<rparr>)) True w
    = (0, Some c, w, [([], 100)])"
proof -
  have "relay_dec (relay_header_bytes \<lparr>rh_type = RELAY_MSG_DATA, rh_session_id = 0, rh_payload_len = 100\<rparr>)
      = Some \<lparr>rh_type = RELAY_MSG_DATA, rh_session_id = 0, rh_payload_len = 100\<rparr>"
    using relay.dec_enc [of "\<lparr>rh_type = RELAY_MSG_DATA, rh_session_id = 0, rh_payload_len = 100\<rparr>" "[]"]
    by (simp add: relay_hdr_wf_def RELAY_MSG_DATA_def)
  then show ?thesis by (simp add: relay_receive_eq relay_msg_defs del: relay_client_receive.simps)
qed

section \<open>Host and viewer through the server\<close>

lemma relay_hello_message:
  assumes "length token = RELAY_TOKEN_LEN" and "length out = RELAY_TOKEN_LEN"
  shows "relay_parse_hello (Some (drop RELAY_HDR_SIZE (relay_message RELAY_MSG_HELLO 0 (relay_hello_bytes token is_host))))
      36 (Some out) (Some role) = (0, Some token, Some is_host)"
  using relay_hello_roundtrip [OF assms, THEN conjunct2, of is_host role]
  by (simp add: relay_message_def del: relay_parse_hello.simps)

text \<open>A client whose application sends everything: connecting, being acknowledged, sending.\<close>

lemma rc_connect_ok:
  assumes "length token = RELAY_TOKEN_LEN" and "\<forall>bs w. fst (f bs w) = int (length bs)"
    and "relay_client_create True (Some \<lparr>rio_send_fn = Some (rc_log f)\<rparr>) (Some token) is_host = Some c"
  shows "\<exists>u. relay_client_connect (Some c) ([], w) = (0, Some (c\<lparr>rlc_state := RELAY_CLIENT_HELLO_SENT\<rparr>),
      [relay_message RELAY_MSG_HELLO 0 (relay_hello_bytes token is_host)], u)"
proof -
  let ?msg = "relay_message RELAY_MSG_HELLO 0 (relay_hello_bytes token is_host)"
  have c: "rlc_send c = rc_log f" "rlc_token c = token" "rlc_is_host c = is_host" "rlc_state c = RELAY_CLIENT_DISCONNECTED"
    using assms(1,3) by (auto simp: relay_client_create_def)
  obtain u where "f ?msg w = (int (length ?msg), u)" using assms(2) by (metis prod.collapse)
  with c assms(1) show ?thesis by (simp add: relay_connect_eq rc_log_def Let_def del: relay_client_connect.simps)
qed

lemma rc_ack_ok:
  "rlc_state c = RELAY_CLIENT_HELLO_SENT \<Longrightarrow>
   relay_client_receive (Some c) (Some (relay_message RELAY_MSG_HELLO_ACK sid [])) cb w
     = (0, Some (c\<lparr>rlc_session_id := sid, rlc_state := RELAY_CLIENT_READY\<rparr>), w, [])"
  by (simp add: relay_receive_eq relay_dec_message RELAY_MSG_HELLO_ACK_def del: relay_client_receive.simps)

lemma rc_data_ok:
  assumes "0 < length p" and "length p \<le> RELAY_MAX_PAYLOAD"
  shows "relay_client_receive (Some c) (Some (relay_message RELAY_MSG_DATA sid p)) True w = (0, Some c, w, [(p, length p)])"
proof -
  have "length p < 2 ^ LENGTH(16)" using assms(2) by (simp add: RELAY_MAX_PAYLOAD_def)
  then have "unat (of_nat (length p) :: u16) = length p" by (rule unat_of_nat_less)
  then have "unat (of_nat (length p) :: u16) = length p" "0 < (of_nat (length p) :: u16)"
    using assms(1) by (auto simp: word_less_nat_alt)
  then show ?thesis
    by (simp add: relay_receive_eq relay_dec_message relay_msg_defs del: relay_client_receive.simps)
      (simp add: relay_message_def)
qed

lemma rc_send_ok:
  assumes "rlc_send c = rc_log f" and "\<forall>bs w. fst (f bs w) = int (length bs)"
    and "rlc_state c = RELAY_CLIENT_READY" and "length p \<le> RELAY_MAX_PAYLOAD"
  shows "\<exists>v. relay_client_send_data True (Some c) (Some p) (out, w)
    = (0, out @ [relay_message RELAY_MSG_DATA (rlc_session_id c) p], v)"
proof -
  let ?msg = "relay_message RELAY_MSG_DATA (rlc_session_id c) p"
  obtain v where "f ?msg w = (int (length ?msg), v)" using assms(2) by (metis prod.collapse)
  with assms show ?thesis by (simp add: relay_send_eq rc_log_def Let_def del: relay_client_send_data.simps)
qed

lemma relay_open_pair:
  assumes ok: "rsm_ok m" and n: "rsm_next_id m \<noteq> - 1" and room: "relay_session_count (Some m) < RELAY_SESSION_MAX"
    and none: "\<forall>e \<in> ran (rsm_map m). \<not> rs_waits_for token e"
  shows "\<exists>m1 m2. relay_call (RsOpen token hfd now) (Some m) = ((0, Some (rsm_next_id m)), Some m1)
    \<and> relay_call (RsPair token vfd) (Some m1) = ((0, Some (rsm_next_id m)), Some m2)
    \<and> map_option (\<lambda>e. (rse_host_fd e, rse_viewer_fd e)) (rsm_map m2 (rsm_next_id m)) = Some (hfd, vfd)"
proof -
  let ?e = "fst (rsm_mk (rsm_next_id m, token, hfd, now))"
  have "card (dom (rsm_map m)) < RELAY_SESSION_MAX"
    using room card_rsm_map [OF ok] by (simp add: relay_session_count_def rsm_live_def size_slot_live)
  moreover obtain r m1 where m1: "relay_call (RsOpen token hfd now) (Some m) = (r, Some m1)" "rsm_ok m1"
    "relay_spec (RsOpen token hfd now) r (rsm_map m, rsm_next_id m) (rsm_map m1, rsm_next_id m1)"
    using relay_open_spec [OF ok n] by blast
  ultimately have r: "r = (0, Some (rsm_next_id m))" "rsm_map m1 = (rsm_map m)(rsm_next_id m \<mapsto> ?e)"
    by (auto elim: relay_spec.cases)
  have w: "rs_waits_for token ?e" by (simp add: rs_waits_for_def rsm_mk_def)
  have only: "i = rsm_next_id m" if "rsm_map m1 i = Some e" "rs_waits_for token e" for i e
    using that none r(2) by (auto simp: ran_def split: if_splits)
  obtain r2 m2 where m2: "relay_call (RsPair token vfd) (Some m1) = (r2, Some m2)"
    "relay_spec (RsPair token vfd) r2 (rsm_map m1, rsm_next_id m1) (rsm_map m2, rsm_next_id m2)"
    using relay_pair_spec [OF m1(2)] by blast
  from m2(2) have "r2 = (0, Some (rsm_next_id m)) \<and> rsm_map m2 = (rsm_map m1)(rsm_next_id m
      \<mapsto> ?e\<lparr>rse_viewer_fd := vfd, rse_state := RELAY_STATE_PAIRED\<rparr>)"
  proof (cases rule: relay_spec.cases)
    case (pair_ok i e)
    then have i: "i = rsm_next_id m" using only by simp
    have "e = ?e" using pair_ok(4) unfolding i r(2) by simp
    then show ?thesis using pair_ok(1-3) i by simp
  next
    case pair_none
    have "?e \<in> ran (rsm_map m1)" unfolding r(2) by (intro ranI [of _ "rsm_next_id m"]) simp
    with pair_none w show ?thesis by blast
  qed
  with m1(1) m2(1) r(1) show ?thesis by (simp add: rsm_mk_def del: relay_call.simps)
qed

text \<open>C15: A host and a viewer with the same token meet: each one's HELLO, parsed by the server's functions, gives
  the token and the role; the session opened for the host is the one that the viewer is paired to, holding both
  sockets; an acknowledgement with its number makes both clients READY under that session; and what the viewer
  then sends reaches the data callback of the host unchanged.\<close>

theorem relay_rendezvous:
  assumes "length token = RELAY_TOKEN_LEN"
    and "relay_client_create True (Some \<lparr>rio_send_fn = Some (rc_log f)\<rparr>) (Some token) True = Some host"
    and "relay_client_create True (Some \<lparr>rio_send_fn = Some (rc_log g)\<rparr>) (Some token) False = Some viewer"
    and "\<forall>bs w. fst (f bs w) = int (length bs)" and "\<forall>bs w. fst (g bs w) = int (length bs)"
    and "rsm_ok m" and "rsm_next_id m = sid" and "sid \<noteq> - 1"
    and "relay_session_count (Some m) < RELAY_SESSION_MAX" and "\<forall>e \<in> ran (rsm_map m). \<not> rs_waits_for token e"
    and "length out = RELAY_TOKEN_LEN" and "0 < length payload" and "length payload \<le> RELAY_MAX_PAYLOAD"
  shows "\<exists>host1 viewer1 hello_h hello_v wh' wv'.
    relay_client_connect (Some host) ([], wh) = (0, Some host1, [hello_h], wh')
    \<and> relay_client_connect (Some viewer) ([], wv) = (0, Some viewer1, [hello_v], wv')
    \<and> relay_parse_hello (Some (drop RELAY_HDR_SIZE hello_h)) 36 (Some out) (Some role) = (0, Some token, Some True)
    \<and> relay_parse_hello (Some (drop RELAY_HDR_SIZE hello_v)) 36 (Some out) (Some role) = (0, Some token, Some False)
    \<and> (\<exists>m1 m2. relay_call (RsOpen token hfd now) (Some m) = ((0, Some sid), Some m1)
        \<and> relay_call (RsPair token vfd) (Some m1) = ((0, Some sid), Some m2)
        \<and> map_option (\<lambda>e. (rse_host_fd e, rse_viewer_fd e)) (rsm_map m2 sid) = Some (hfd, vfd))
    \<and> (\<exists>host2 viewer2 msg wv''.
        relay_client_receive (Some host1) (Some (relay_message RELAY_MSG_HELLO_ACK sid [])) True ([hello_h], wh')
          = (0, Some host2, ([hello_h], wh'), [])
        \<and> relay_client_receive (Some viewer1) (Some (relay_message RELAY_MSG_HELLO_ACK sid [])) True ([hello_v], wv')
          = (0, Some viewer2, ([hello_v], wv'), [])
        \<and> relay_client_get_session_id (Some host2) = sid \<and> relay_client_get_session_id (Some viewer2) = sid
        \<and> relay_client_send_data True (Some viewer2) (Some payload) ([hello_v], wv') = (0, [hello_v, msg], wv'')
        \<and> relay_client_receive (Some host2) (Some msg) True ([hello_h], wh')
          = (0, Some host2, ([hello_h], wh'), [(payload, length payload)]))"
proof -
  obtain wh' where h: "relay_client_connect (Some host) ([], wh) = (0, Some (host\<lparr>rlc_state := RELAY_CLIENT_HELLO_SENT\<rparr>),
      [relay_message RELAY_MSG_HELLO 0 (relay_hello_bytes token True)], wh')"
    using rc_connect_ok [OF assms(1,4,2)] by blast
  obtain wv' where v: "relay_client_connect (Some viewer) ([], wv) = (0, Some (viewer\<lparr>rlc_state := RELAY_CLIENT_HELLO_SENT\<rparr>),
      [relay_message RELAY_MSG_HELLO 0 (relay_hello_bytes token False)], wv')"
    using rc_connect_ok [OF assms(1,5,3)] by blast
  let ?v2 = "viewer\<lparr>rlc_session_id := sid, rlc_state := RELAY_CLIENT_READY\<rparr>"
  have "rlc_send ?v2 = rc_log g" using assms(3) by (auto simp: relay_client_create_def)
  from rc_send_ok [OF this assms(5) _ assms(13), of "[relay_message RELAY_MSG_HELLO 0 (relay_hello_bytes token False)]" wv']
  obtain wv'' where d: "relay_client_send_data True (Some ?v2) (Some payload) ([relay_message RELAY_MSG_HELLO 0 (relay_hello_bytes token False)], wv')
      = (0, [relay_message RELAY_MSG_HELLO 0 (relay_hello_bytes token False), relay_message RELAY_MSG_DATA sid payload], wv'')"
    by auto
  from relay_open_pair [OF assms(6) _ assms(9,10)] have p: "\<exists>m1 m2. relay_call (RsOpen token hfd now) (Some m) = ((0, Some sid), Some m1)
        \<and> relay_call (RsPair token vfd) (Some m1) = ((0, Some sid), Some m2)
        \<and> map_option (\<lambda>e. (rse_host_fd e, rse_viewer_fd e)) (rsm_map m2 sid) = Some (hfd, vfd)"
    using assms(7,8) by blast
  note parse = relay_hello_message [OF assms(1,11), of True role] relay_hello_message [OF assms(1,11), of False role]
  note ack = rc_ack_ok [of "host\<lparr>rlc_state := RELAY_CLIENT_HELLO_SENT\<rparr>" sid True]
    rc_ack_ok [of "viewer\<lparr>rlc_state := RELAY_CLIENT_HELLO_SENT\<rparr>" sid True]
  note data = rc_data_ok [OF assms(12,13)]
  show ?thesis
    by (rule exI, rule exI, rule exI, rule exI, rule exI, rule exI, intro conjI, rule h, rule v, rule parse(1), rule parse(2), rule p,
      rule exI, rule exI, rule exI, rule exI, intro conjI, rule ack(1), simp, rule ack(2), simp)
      (use d data in \<open>simp_all add: relay_client_get_session_id_def
        del: relay_client_send_data.simps relay_client_receive.simps\<close>)
qed

lemma relay_rendezvous_witness:
  "\<exists>m sid m1 m2. relay_session_manager_create True = Some m
    \<and> relay_call (RsOpen (replicate 32 7) 3 0) (Some m) = ((0, Some sid), Some m1)
    \<and> relay_call (RsPair (replicate 32 7) 4) (Some m1) = ((0, Some sid), Some m2)
    \<and> map_option (\<lambda>e. (rse_host_fd e, rse_viewer_fd e)) (rsm_map m2 sid) = Some (3, 4)"
proof -
  let ?t = "replicate 32 7 :: u8 list" and ?f = "\<lambda>bs w. (int (length (bs :: u8 list)), w :: nat)"
  obtain m where m: "relay_session_manager_create True = Some m" "rsm_ok m" "rsm_map m = Map.empty" "rsm_next_id m = 1"
    using rsm_create_ok by blast
  have room: "relay_session_count (Some m) < RELAY_SESSION_MAX"
    using m(1) by (auto simp: relay_session_manager_create_def relay_session_count_def RELAY_SESSION_MAX_def)
  have c: "relay_client_create True (Some \<lparr>rio_send_fn = Some (rc_log ?f)\<rparr>) (Some ?t) b
      = Some \<lparr>rlc_send = rc_log ?f, rlc_token = ?t, rlc_is_host = b, rlc_state = RELAY_CLIENT_DISCONNECTED, rlc_session_id = 0\<rparr>" for b
    by (simp add: relay_client_create_def RELAY_TOKEN_LEN_def)
  have one: "(1 :: u32) \<noteq> - 1" "length ?t = RELAY_TOKEN_LEN" "0 < length [5 :: u8]" "length [5 :: u8] \<le> RELAY_MAX_PAYLOAD"
    by (simp_all add: RELAY_TOKEN_LEN_def RELAY_MAX_PAYLOAD_def)
  have none: "\<forall>e \<in> ran (rsm_map m). \<not> rs_waits_for ?t e" using m(3) by simp
  have acc: "\<forall>bs w. fst (?f bs w) = int (length bs)" by simp
  from relay_rendezvous [OF one(2) c c acc acc m(2,4) one(1) room none one(2) one(3,4), of 0 0 True 3 0 4] m(1)
  show ?thesis by blast
qed

end
