(* ===== verification/Fec.thy ===== *)
theory Fec
  imports RS_Prelude
begin

text \<open>
  Forward error correction by XOR parity: \<^verbatim>\<open>src/src/fec\<close>.  A group is \<open>k\<close> source packets and \<open>r\<close> repair packets,
  repair packet \<open>i\<close> the XOR of the sources whose index \<open>i + 2\<close> divides.  Packets are lists of bytes, a
  possibly-NULL packet pointer is an option; the buffers for recovered packets are not among the packets.
\<close>

definition FEC_MAX_K :: int where "FEC_MAX_K = 16"
definition FEC_MAX_R :: int where "FEC_MAX_R = 4"
definition FEC_MAX_PKT_SIZE :: nat where "FEC_MAX_PKT_SIZE = 1472"

definition fec_repair_covers :: "nat \<Rightarrow> nat \<Rightarrow> bool" where
  "fec_repair_covers src_idx repair_idx \<longleftrightarrow> src_idx mod (repair_idx + 2) = 0"

text \<open>The inner loop \<^verbatim>\<open>out[b] ^= src[b]\<close> over \<open>n\<close> bytes.\<close>

definition xor_into :: "nat \<Rightarrow> u8 list \<Rightarrow> u8 list \<Rightarrow> u8 list" where
  "xor_into n src out = map (\<lambda>b. out ! b XOR src ! b) [0..<n] @ drop n out"

fun fec_build_repair :: "u8 list option list option \<Rightarrow> int \<Rightarrow> int \<Rightarrow> u8 list option \<Rightarrow> nat \<Rightarrow> int \<times> u8 list option" where
  "fec_build_repair (Some sources) k repair_idx (Some out) pkt_size =
     (if k \<le> 0 \<or> k > FEC_MAX_K \<or> repair_idx < 0 \<or> repair_idx \<ge> FEC_MAX_R \<or> pkt_size = 0 \<or> pkt_size > FEC_MAX_PKT_SIZE
      then (-1, Some out)
      else (0, Some (foldl (\<lambda>out j. case sources ! j of
            None \<Rightarrow> out
          | Some s \<Rightarrow> if fec_repair_covers j (nat repair_idx) then xor_into pkt_size s out else out)
          (overwrite (replicate pkt_size 0) out) [0..<nat k])))"
| "fec_build_repair sources k repair_idx out pkt_size = (-1, out)"

text \<open>The two loops of the encoder; an early return leaves what was written.\<close>

definition fec_copy_source :: "u8 list option list \<Rightarrow> nat \<Rightarrow> nat \<Rightarrow> int \<times> u8 list option list \<Rightarrow> int \<times> u8 list option list" where
  "fec_copy_source sources pkt_size i st = (case st of (rc, out) \<Rightarrow>
     if rc < 0 then (rc, out)
     else (case (sources ! i, out ! i) of
         (Some s, Some buf) \<Rightarrow> (0, out[i := Some (overwrite (take pkt_size s) buf)])
       | _ \<Rightarrow> (-1, out)))"

definition fec_add_repair :: "u8 list option list \<Rightarrow> int \<Rightarrow> nat \<Rightarrow> nat \<Rightarrow> int \<times> u8 list option list \<Rightarrow> int \<times> u8 list option list" where
  "fec_add_repair sources k pkt_size ri st = (case st of (rc, out) \<Rightarrow>
     if rc < 0 then (rc, out)
     else (case out ! (nat k + ri) of
         None \<Rightarrow> (-1, out)
       | Some buf \<Rightarrow> (case fec_build_repair (Some sources) k (int ri) (Some buf) pkt_size of
           (rc, buf') \<Rightarrow> (if rc < 0 then -1 else 0, out[nat k + ri := buf']))))"

fun fec_encode :: "u8 list option list option \<Rightarrow> int \<Rightarrow> int \<Rightarrow> u8 list option list option \<Rightarrow> nat
    \<Rightarrow> int \<times> u8 list option list option" where
  "fec_encode (Some sources) k r (Some out) pkt_size =
     (if k \<le> 0 \<or> k > FEC_MAX_K \<or> r < 0 \<or> r > FEC_MAX_R \<or> pkt_size = 0 \<or> pkt_size > FEC_MAX_PKT_SIZE
      then (-1, Some out)
      else case fold (fec_add_repair sources k pkt_size) [0..<nat r]
             (fold (fec_copy_source sources pkt_size) [0..<nat k] (0, out)) of (rc, out') \<Rightarrow> (rc, Some out'))"
| "fec_encode sources k r out pkt_size = (-1, out)"

text \<open>One repair packet in the decoder: it is used when it was received and exactly one of the sources it covers
  was not.\<close>

definition fec_missing :: "bool list \<Rightarrow> nat \<Rightarrow> nat \<Rightarrow> nat list" where
  "fec_missing received k ri = filter (\<lambda>j. fec_repair_covers j ri \<and> \<not> received ! j) [0..<k]"

definition fec_decode_step :: "u8 list option list \<Rightarrow> bool list \<Rightarrow> nat \<Rightarrow> nat \<Rightarrow> nat
    \<Rightarrow> int \<times> u8 list option list \<Rightarrow> int \<times> u8 list option list" where
  "fec_decode_step pkts received k pkt_size ri st = (case st of (n_recovered, recovered) \<Rightarrow>
     (case pkts ! (k + ri) of
        None \<Rightarrow> st
      | Some repair \<Rightarrow>
          if \<not> received ! (k + ri) then st
          else let missing = fec_missing received k ri in
            if length missing \<noteq> 1 then st
            else let m = last missing in
              (case recovered ! m of
                 None \<Rightarrow> st
               | Some buf \<Rightarrow> (n_recovered + 1, recovered[m := Some
                   (foldl (\<lambda>out j. if \<not> fec_repair_covers j ri then out
                       else if j = m then out
                       else (case pkts ! j of None \<Rightarrow> out | Some s \<Rightarrow> if \<not> received ! j then out else xor_into pkt_size s out))
                     (overwrite (take pkt_size repair) buf) [0..<k])]))))"

fun fec_decode :: "u8 list option list option \<Rightarrow> bool list option \<Rightarrow> int \<Rightarrow> int \<Rightarrow> nat \<Rightarrow> u8 list option list option
    \<Rightarrow> int \<times> u8 list option list option" where
  "fec_decode (Some pkts) (Some received) k r pkt_size (Some recovered) =
     (if k \<le> 0 \<or> k > FEC_MAX_K \<or> r < 0 \<or> r > FEC_MAX_R \<or> pkt_size = 0 \<or> pkt_size > FEC_MAX_PKT_SIZE
      then (-1, Some recovered)
      else case fold (fec_decode_step pkts received (nat k) pkt_size) [0..<nat r] (0, recovered) of
        (n, rec) \<Rightarrow> (n, Some rec))"
| "fec_decode pkts received k r pkt_size recovered = (-1, recovered)"

section \<open>XOR over lists of packets\<close>

definition xor_all :: "(nat \<Rightarrow> u8) \<Rightarrow> nat list \<Rightarrow> u8" where
  "xor_all f js = foldr (\<lambda>j v. f j XOR v) js 0"

definition xor_packets :: "nat \<Rightarrow> (nat \<Rightarrow> u8 list) \<Rightarrow> nat list \<Rightarrow> u8 list \<Rightarrow> u8 list" where
  "xor_packets n S js out = foldl (\<lambda>out j. xor_into n (S j) out) out js"

lemma length_xor_into [simp]: "length out = n \<Longrightarrow> length (xor_into n s out) = n"
  by (simp add: xor_into_def)

lemma nth_xor_into [simp]: "b < n \<Longrightarrow> xor_into n s out ! b = out ! b XOR s ! b"
  by (simp add: xor_into_def nth_append)

lemma xor_packets_nth:
  "length out = n \<Longrightarrow> length (xor_packets n S js out) = n
    \<and> (\<forall>b<n. xor_packets n S js out ! b = out ! b XOR xor_all (\<lambda>j. S j ! b) js)"
proof (induction js arbitrary: out)
  case (Cons j js)
  then show ?case using Cons.IH [of "xor_into n (S j) out"] by (simp add: xor_packets_def xor_all_def xor.assoc)
qed (simp add: xor_packets_def xor_all_def)

lemma xor_all_remove:
  "distinct js \<Longrightarrow> m \<in> set js \<Longrightarrow> xor_all f js = f m XOR xor_all f (filter (\<lambda>j. j \<noteq> m) js)"
proof (induction js)
  case (Cons j js)
  show ?case
  proof (cases "j = m")
    case True
    then have "filter (\<lambda>j. j \<noteq> m) js = js" using Cons.prems by (auto simp: filter_id_conv)
    with True show ?thesis by (simp add: xor_all_def)
  next
    case False
    with Cons have "xor_all f js = f m XOR xor_all f (filter (\<lambda>j. j \<noteq> m) js)" by simp
    with False show ?thesis by (simp add: xor_all_def xor.left_commute)
  qed
qed simp

text \<open>The loops of encoder and decoder are XORs over the packets they do not skip.\<close>

lemma foldl_skip:
  "(\<And>j out. j \<in> set js \<Longrightarrow> f out j = (if P j then xor_into n (S j) out else out)) \<Longrightarrow>
   foldl f out js = xor_packets n S (filter P js) out"
  by (induction js arbitrary: out) (simp_all add: xor_packets_def)

section \<open>The encoder\<close>

definition fec_parity :: "nat \<Rightarrow> nat \<Rightarrow> (nat \<Rightarrow> u8 list) \<Rightarrow> nat \<Rightarrow> u8 list" where
  "fec_parity n k S ri = xor_packets n S (filter (\<lambda>j. fec_repair_covers j ri) [0..<k]) (replicate n 0)"

definition fec_group :: "nat \<Rightarrow> nat \<Rightarrow> nat \<Rightarrow> (nat \<Rightarrow> u8 list) \<Rightarrow> u8 list list" where
  "fec_group n k r S = map S [0..<k] @ map (fec_parity n k S) [0..<r]"

text \<open>Packets and buffers that the encoder accepts.\<close>

definition fec_fits :: "nat \<Rightarrow> nat \<Rightarrow> nat \<Rightarrow> bool" where
  "fec_fits n k r \<longleftrightarrow> 0 < k \<and> int k \<le> FEC_MAX_K \<and> int r \<le> FEC_MAX_R \<and> 0 < n \<and> n \<le> FEC_MAX_PKT_SIZE"

lemma length_fec_parity: "length (fec_parity n k S ri) = n"
  using xor_packets_nth [of "replicate n 0" n S] by (simp add: fec_parity_def)

lemma nth_fec_parity:
  "b < n \<Longrightarrow> fec_parity n k S ri ! b = xor_all (\<lambda>j. S j ! b) (filter (\<lambda>j. fec_repair_covers j ri) [0..<k])"
  using xor_packets_nth [of "replicate n 0" n S] by (simp add: fec_parity_def)

lemma fec_build_repair_eq:
  assumes "fec_fits n k r" and "ri < r" and "length buf = n"
  shows "fec_build_repair (Some (map (\<lambda>j. Some (S j)) [0..<k])) (int k) (int ri) (Some buf) n = (0, Some (fec_parity n k S ri))"
proof -
  have "foldl (\<lambda>out j. case map (\<lambda>j. Some (S j)) [0..<k] ! j of None \<Rightarrow> out
            | Some s \<Rightarrow> if fec_repair_covers j (nat (int ri)) then xor_into n s out else out) (replicate n 0) [0..<k]
      = fec_parity n k S ri"
    unfolding fec_parity_def by (rule foldl_skip) simp
  with assms show ?thesis by (simp add: fec_fits_def overwrite_def)
qed

lemma fec_copy_loop:
  assumes "i \<le> k" and "k \<le> length bufs" and "\<forall>buf \<in> set bufs. length buf = n" and "\<forall>j<k. length (S j) = n"
  shows "fold (fec_copy_source (map (\<lambda>j. Some (S j)) [0..<k]) n) [0..<i] (0, map Some bufs)
    = (0, map Some (map S [0..<i] @ drop i bufs))"
  using assms(1)
proof (induction i)
  case (Suc i)
  then have "drop i bufs = bufs ! i # drop (Suc i) bufs" "length (bufs ! i) = n"
    using assms(2,3) by (simp_all add: Cons_nth_drop_Suc)
  with Suc assms(2,4) show ?case
    by (simp add: fec_copy_source_def nth_append overwrite_def list_update_append comp_def)
qed simp

lemma fec_repair_loop:
  assumes "i \<le> r" and "length bufs = r" and "\<forall>buf \<in> set bufs. length buf = n" and "fec_fits n k r"
  shows "fold (fec_add_repair (map (\<lambda>j. Some (S j)) [0..<k]) (int k) n) [0..<i] (0, map Some (map S [0..<k] @ bufs))
    = (0, map Some (map S [0..<k] @ map (fec_parity n k S) [0..<i] @ drop i bufs))"
  using assms(1)
proof (induction i)
  case (Suc i)
  then have "drop i bufs = bufs ! i # drop (Suc i) bufs" "length (bufs ! i) = n"
    using assms(2,3) by (simp_all add: Cons_nth_drop_Suc)
  with Suc fec_build_repair_eq [OF assms(4), of i "bufs ! i" S] show ?case
    by (simp add: fec_add_repair_def nth_append list_update_append comp_def del: fec_build_repair.simps)
qed simp

lemma fec_encode_eq:
  assumes "fec_fits n k r" and "\<forall>j<k. length (S j) = n" and "length bufs = k + r" and "\<forall>buf \<in> set bufs. length buf = n"
  shows "fec_encode (Some (map (\<lambda>j. Some (S j)) [0..<k])) (int k) (int r) (Some (map Some bufs)) n
    = (0, Some (map Some (fec_group n k r S)))"
proof -
  have "\<forall>buf \<in> set (drop k bufs). length buf = n" using assms(4) by (meson in_set_dropD)
  note l = fec_copy_loop [OF le_refl _ assms(4,2)] fec_repair_loop [OF le_refl _ this assms(1), of S]
  show ?thesis using l assms(1,3) by (simp add: fec_group_def fec_fits_def)
qed

section \<open>The decoder\<close>

definition fec_uses :: "bool list \<Rightarrow> nat \<Rightarrow> nat \<Rightarrow> nat \<Rightarrow> bool" where
  "fec_uses received k ri j \<longleftrightarrow> received ! (k + ri) \<and> fec_missing received k ri = [j]"

lemma fec_missing_one:
  assumes "fec_missing received k ri = [m]"
  shows "m < k" and "fec_repair_covers m ri" and "\<not> received ! m"
    and "\<And>j. j < k \<Longrightarrow> fec_repair_covers j ri \<Longrightarrow> j \<noteq> m \<Longrightarrow> received ! j"
proof -
  have "set (fec_missing received k ri) = {m}" using assms by simp
  then have "{j. j < k \<and> fec_repair_covers j ri \<and> \<not> received ! j} = {m}" by (auto simp: fec_missing_def)
  then show "m < k" "fec_repair_covers m ri" "\<not> received ! m"
    "\<And>j. j < k \<Longrightarrow> fec_repair_covers j ri \<Longrightarrow> j \<noteq> m \<Longrightarrow> received ! j" by blast+
qed

lemma fec_step_used:
  assumes "fec_uses received k ri m" and "ri < r" and "\<forall>j<k. length (S j) = n"
    and "\<forall>i<k + r. received ! i \<longrightarrow> pkts ! i = Some (fec_group n k r S ! i)"
    and "recovered ! m = Some buf" and "length buf = n"
  shows "fec_decode_step pkts received k n ri (c, recovered) = (c + 1, recovered[m := Some (S m)])"
proof -
  from assms(1) have u: "received ! (k + ri)" "fec_missing received k ri = [m]" by (simp_all add: fec_uses_def)
  note m = fec_missing_one [OF u(2)]
  let ?P = "\<lambda>j. fec_repair_covers j ri \<and> j \<noteq> m"
  let ?f = "\<lambda>out j. if \<not> fec_repair_covers j ri then out else if j = m then out
       else (case pkts ! j of None \<Rightarrow> out | Some s \<Rightarrow> if \<not> received ! j then out else xor_into n s out)"
  have rep: "pkts ! (k + ri) = Some (fec_parity n k S ri)"
    using assms(2,4) u(1) by (simp add: fec_group_def nth_append)
  have src: "pkts ! j = Some (S j)" if "j < k" "received ! j" for j
    using assms(4) that by (simp add: fec_group_def nth_append)
  have "foldl ?f (fec_parity n k S ri) [0..<k] = xor_packets n S (filter ?P [0..<k]) (fec_parity n k S ri)"
    by (rule foldl_skip) (use m(4) src in auto)
  moreover have "\<dots> = S m"
  proof (rule nth_equalityI)
    show "length (xor_packets n S (filter ?P [0..<k]) (fec_parity n k S ri)) = length (S m)"
      using xor_packets_nth [OF length_fec_parity] assms(3) m(1) by simp
    fix b assume "b < length (xor_packets n S (filter ?P [0..<k]) (fec_parity n k S ri))"
    then have b: "b < n" using xor_packets_nth [OF length_fec_parity] by metis
    have "filter (\<lambda>j. j \<noteq> m) (filter (\<lambda>j. fec_repair_covers j ri) [0..<k]) = filter ?P [0..<k]"
      by (simp add: conj_commute)
    then show "xor_packets n S (filter ?P [0..<k]) (fec_parity n k S ri) ! b = S m ! b"
      using xor_packets_nth [OF length_fec_parity, where S = S and js = "filter ?P [0..<k]"] b m(1,2) nth_fec_parity [OF b, of k S ri]
        xor_all_remove [of "filter (\<lambda>j. fec_repair_covers j ri) [0..<k]" m "\<lambda>j. S j ! b"]
      by (simp add: xor.assoc)
  qed
  ultimately show ?thesis using u rep assms(5,6) length_fec_parity [of n k S ri]
    by (simp add: fec_decode_step_def overwrite_def)
qed

lemma fec_step_unused:
  "\<nexists>m. fec_uses received k ri m \<Longrightarrow> fec_decode_step pkts received k n ri st = st"
  by (cases "fec_missing received k ri" rule: remdups_adj.cases)
    (auto simp: fec_decode_step_def fec_uses_def split: prod.split option.split)

lemma fec_decode_loop:
  assumes "i \<le> r" and S: "\<forall>j<k. length (S j) = n" and g: "\<forall>i<k + r. received ! i \<longrightarrow> pkts ! i = Some (fec_group n k r S ! i)"
    and bufs: "length bufs = k" "\<forall>buf \<in> set bufs. length buf = n"
  shows "fold (fec_decode_step pkts received k n) [0..<i] (0, map Some bufs)
    = (int (card {ri. ri < i \<and> (\<exists>m. fec_uses received k ri m)}),
       map (\<lambda>j. Some (if \<exists>ri<i. fec_uses received k ri j then S j else bufs ! j)) [0..<k])"
  using assms(1)
proof (induction i)
  case 0
  have "map Some bufs = map (\<lambda>j. Some (bufs ! j)) [0..<k]" using bufs(1) by (intro nth_equalityI) auto
  then show ?case by simp
next
  case (Suc i)
  let ?rec = "map (\<lambda>j. Some (if \<exists>ri<i. fec_uses received k ri j then S j else bufs ! j)) [0..<k]"
  let ?U = "\<lambda>i. {ri. ri < i \<and> (\<exists>m. fec_uses received k ri m)}"
  show ?case
  proof (cases "\<exists>m. fec_uses received k i m")
    case True
    then obtain m where m: "fec_uses received k i m" by blast
    then have mk: "m < k" using fec_missing_one(1) [of received k i m] by (simp add: fec_uses_def)
    have only: "j = m" if "fec_uses received k i j" for j using that m by (simp add: fec_uses_def)
    have "(\<exists>ri<Suc i. fec_uses received k ri j) \<longleftrightarrow> j = m \<or> (\<exists>ri<i. fec_uses received k ri j)" for j
      using m only [of j] by (auto simp: less_Suc_eq)
    then have "?rec[m := Some (S m)] = map (\<lambda>j. Some (if \<exists>ri<Suc i. fec_uses received k ri j then S j else bufs ! j)) [0..<k]"
      using mk by (intro nth_equalityI) (simp_all add: nth_list_update)
    moreover have "?U (Suc i) = insert i (?U i)" using True by (auto simp: less_Suc_eq)
    moreover have "fec_decode_step pkts received k n i (c, ?rec) = (c + 1, ?rec[m := Some (S m)])" for c
      by (rule fec_step_used [OF m _ S g]) (use Suc.prems mk S bufs in auto)
    ultimately show ?thesis using Suc by simp
  next
    case False
    then have "?U (Suc i) = ?U i" "\<And>j. (\<exists>ri<Suc i. fec_uses received k ri j) = (\<exists>ri<i. fec_uses received k ri j)"
      by (auto simp: less_Suc_eq)
    with Suc fec_step_unused [OF False] show ?thesis by simp
  qed
qed

section \<open>What is recovered\<close>

definition fec_lost :: "bool list \<Rightarrow> nat \<Rightarrow> nat \<Rightarrow> nat set" where
  "fec_lost received k ri = {j. j < k \<and> fec_repair_covers j ri \<and> \<not> received ! j}"

lemma distinct_singleton: "distinct xs \<Longrightarrow> xs = [x] \<longleftrightarrow> set xs = {x}"
  by (cases xs rule: remdups_adj.cases) auto

lemma fec_uses_lost: "fec_uses received k ri j \<longleftrightarrow> received ! (k + ri) \<and> fec_lost received k ri = {j}"
proof -
  have "set (fec_missing received k ri) = fec_lost received k ri" by (auto simp: fec_missing_def fec_lost_def)
  then show ?thesis using distinct_singleton [of "fec_missing received k ri" j] by (simp add: fec_uses_def fec_missing_def)
qed

text \<open>C18: The encoder sends the sources unchanged and repair packets, and from whatever arrives, each received repair
  packet that covers exactly one lost source rebuilds that source byte for byte; the buffers of all
  other sources are left alone, and the result counts the repair packets that were used.\<close>

theorem fec_recovers:
  assumes fits: "fec_fits n k r" and srcs: "length srcs = k" "\<forall>p \<in> set srcs. length p = n"
    and bufs: "length bufs = k + r" "\<forall>p \<in> set bufs. length p = n"
    and rec: "length rbufs = k" "\<forall>p \<in> set rbufs. length p = n"
  shows "\<exists>sent. fec_encode (Some (map Some srcs)) (int k) (int r) (Some (map Some bufs)) n = (0, Some (map Some sent))
    \<and> length sent = k + r \<and> take k sent = srcs
    \<and> (\<forall>pkts received. (\<forall>i<k + r. received ! i \<longrightarrow> pkts ! i = Some (sent ! i)) \<longrightarrow>
        fec_decode (Some pkts) (Some received) (int k) (int r) n (Some (map Some rbufs))
        = (int (card {ri. ri < r \<and> received ! (k + ri) \<and> (\<exists>j. fec_lost received k ri = {j})}),
           Some (map (\<lambda>j. Some (if \<exists>ri<r. received ! (k + ri) \<and> fec_lost received k ri = {j}
                                then srcs ! j else rbufs ! j)) [0..<k])))"
proof -
  let ?S = "\<lambda>j. srcs ! j"
  have S: "\<forall>j<k. length (?S j) = n" using srcs by simp
  have m: "map Some srcs = map (\<lambda>j. Some (?S j)) [0..<k]" "map ?S [0..<k] = srcs"
    using srcs(1) by (auto intro!: nth_equalityI)
  have "fec_encode (Some (map Some srcs)) (int k) (int r) (Some (map Some bufs)) n = (0, Some (map Some (fec_group n k r ?S)))"
    unfolding m(1) by (rule fec_encode_eq [OF fits S bufs])
  moreover have "length (fec_group n k r ?S) = k + r" "take k (fec_group n k r ?S) = srcs"
    using m(2) srcs(1) by (simp_all add: fec_group_def)
  moreover have "fec_decode (Some pkts) (Some received) (int k) (int r) n (Some (map Some rbufs))
      = (int (card {ri. ri < r \<and> received ! (k + ri) \<and> (\<exists>j. fec_lost received k ri = {j})}),
         Some (map (\<lambda>j. Some (if \<exists>ri<r. received ! (k + ri) \<and> fec_lost received k ri = {j}
                              then srcs ! j else rbufs ! j)) [0..<k]))"
    if "\<forall>i<k + r. received ! i \<longrightarrow> pkts ! i = Some (fec_group n k r ?S ! i)" for pkts received
    using fec_decode_loop [OF le_refl S that rec] fits by (simp add: fec_fits_def fec_uses_lost)
  ultimately show ?thesis by blast
qed

lemma fec_recovers_witness:
  "\<exists>sent. fec_encode (Some (map Some [[1, 2], [3, 4], [5, 6]])) (int 3) (int 1) (Some (map Some (replicate 4 [0, 0]))) 2
      = (0, Some (map Some sent))
    \<and> fec_decode (Some [Some (sent ! 0), Some (sent ! 1), None, Some (sent ! 3)]) (Some [True, True, False, True])
        (int 3) (int 1) 2 (Some (map Some (replicate 3 [0, 0])))
      = (1, Some [Some [0, 0], Some [0, 0], Some [5, 6]])"
proof -
  have fits: "fec_fits 2 3 1" by (simp add: fec_fits_def FEC_MAX_K_def FEC_MAX_R_def FEC_MAX_PKT_SIZE_def)
  let ?srcs = "[[1, 2], [3, 4], [5, 6]] :: u8 list list"
  from fec_recovers [OF fits, of ?srcs "replicate 4 [0, 0]" "replicate 3 [0, 0]"] obtain sent where
    s: "fec_encode (Some (map Some ?srcs)) (int 3) (int 1) (Some (map Some (replicate 4 [0, 0]))) 2 = (0, Some (map Some sent))"
      "length sent = 3 + 1" "take 3 sent = ?srcs"
    and d: "\<And>pkts received. \<forall>i<3 + 1. received ! i \<longrightarrow> pkts ! i = Some (sent ! i) \<Longrightarrow>
        fec_decode (Some pkts) (Some received) (int 3) (int 1) 2 (Some (map Some (replicate 3 [0, 0])))
        = (int (card {ri. ri < 1 \<and> received ! (3 + ri) \<and> (\<exists>j. fec_lost received 3 ri = {j})}),
           Some (map (\<lambda>j. Some (if \<exists>ri<1. received ! (3 + ri) \<and> fec_lost received 3 ri = {j}
                                then ?srcs ! j else replicate 3 [0, 0] ! j)) [0..<3]))"
    by auto
  let ?received = "[True, True, False, True]"
  have l: "fec_lost ?received 3 0 = {2}"
    by (auto simp: fec_lost_def fec_repair_covers_def nth_Cons' less_Suc_eq numeral_3_eq_3 numeral_2_eq_2)
  have "\<forall>i<3 + 1. ?received ! i \<longrightarrow> [Some (sent ! 0), Some (sent ! 1), None, Some (sent ! 3)] ! i = Some (sent ! i)"
    by (auto simp: nth_Cons' less_Suc_eq numeral_3_eq_3 numeral_2_eq_2)
  note r = d [OF this]
  have "{ri :: nat. ri < 1 \<and> ?received ! (3 + ri) \<and> (\<exists>j. fec_lost ?received 3 ri = {j})} = {0}" using l by auto
  then show ?thesis using s(1) r l by (intro exI [of _ sent]) (simp add: upt_rec del: fec_decode.simps fec_encode.simps)
qed

text \<open>The header promises that any \<open>r\<close> losses are repaired.  No repair packet covers source 1, so losing that one alone is
  final.\<close>

lemma fec_source_1_unprotected: "\<not> fec_repair_covers 1 ri"
  by (simp add: fec_repair_covers_def)

end
