(* ===== verification/Chunk.thy ===== *)
theory Chunk
  imports Slots
begin

text \<open>
  Frames cut into chunks and put together again: \<^verbatim>\<open>src/src/chunk\<close>.  \<open>chunk_split\<close> fills an array of headers and
  pointers into the frame (here offsets); the reassembler keeps a bit mask per frame in eight slots.  Sizes are
  \<^verbatim>\<open>size_t\<close> words where the source computes with them, the number of chunks goes through a C \<^verbatim>\<open>int\<close>.
\<close>

section \<open>Headers\<close>

definition CHUNK_FLAG_KEYFRAME :: u8 where "CHUNK_FLAG_KEYFRAME = 0x01"
definition CHUNK_FLAG_LAST :: u8 where "CHUNK_FLAG_LAST = 0x02"

record chunk_hdr =
  ch_stream_id :: u32
  ch_frame_seq :: u32
  ch_chunk_idx :: u16
  ch_chunk_count :: u16
  ch_data_len :: u16
  ch_flags :: u8

fun chunk_hdr_init :: "chunk_hdr option \<Rightarrow> u32 \<Rightarrow> u32 \<Rightarrow> u16 \<Rightarrow> u16 \<Rightarrow> u16 \<Rightarrow> u8 \<Rightarrow> int \<times> chunk_hdr option" where
  "chunk_hdr_init None stream_id frame_seq chunk_idx chunk_count data_len flags = (-1, None)"
| "chunk_hdr_init (Some h) stream_id frame_seq chunk_idx chunk_count data_len flags =
     (if chunk_count = 0 \<or> chunk_idx \<ge> chunk_count then (-1, Some h)
      else (0, Some \<lparr>ch_stream_id = stream_id, ch_frame_seq = frame_seq, ch_chunk_idx = chunk_idx,
                     ch_chunk_count = chunk_count, ch_data_len = data_len, ch_flags = flags\<rparr>))"

section \<open>Splitting\<close>

definition CHUNK_SPLIT_MAX :: int where "CHUNK_SPLIT_MAX = 256"

record chunk =
  ck_hdr :: chunk_hdr
  ck_data :: u64

definition chunk_total :: "u64 \<Rightarrow> u64 \<Rightarrow> int" where
  "chunk_total frame_len mtu =
     (if frame_len = 0 then 1 else sint (ucast ((frame_len + mtu - 1) div mtu) :: u32))"

definition chunk_fill :: "u64 \<Rightarrow> u64 \<Rightarrow> u32 \<Rightarrow> u32 \<Rightarrow> u8 \<Rightarrow> int \<Rightarrow> nat \<Rightarrow> u64 \<times> chunk list \<Rightarrow> u64 \<times> chunk list" where
  "chunk_fill frame_len mtu stream_id frame_seq flags tot i st = (case st of (offset, out) \<Rightarrow>
     let this_len = (if frame_len - offset < mtu then frame_len - offset else mtu);
         f = (if int i = tot - 1 then flags OR CHUNK_FLAG_LAST else flags);
         h = the (snd (chunk_hdr_init (Some (ck_hdr (out ! i))) stream_id frame_seq (of_nat i) (of_int tot) (ucast this_len) f))
     in (offset + this_len, out[i := \<lparr>ck_hdr = h, ck_data = offset\<rparr>]))"

fun chunk_split :: "u8 list option \<Rightarrow> u64 \<Rightarrow> u32 \<Rightarrow> u32 \<Rightarrow> u8 \<Rightarrow> chunk list option \<Rightarrow> int \<Rightarrow> int \<times> chunk list option" where
  "chunk_split (Some frame) mtu stream_id frame_seq flags (Some out) max_out =
     (if mtu = 0 \<or> max_out \<le> 0 then (-1, Some out)
      else let frame_len = of_nat (length frame); tot = chunk_total frame_len mtu in
        if tot > max_out \<or> tot > CHUNK_SPLIT_MAX then (-1, Some out)
        else (tot, Some (snd (fold (chunk_fill frame_len mtu stream_id frame_seq flags tot) [0..<nat tot] (0, out)))))"
| "chunk_split frame mtu stream_id frame_seq flags out max_out = (-1, out)"

section \<open>Reassembly\<close>

definition REASSEMBLE_SLOTS :: nat where "REASSEMBLE_SLOTS = 8"
definition REASSEMBLE_MAX_CHUNKS :: u16 where "REASSEMBLE_MAX_CHUNKS = 32"

record reassemble_slot =
  rss_stream_id :: u32
  rss_frame_seq :: u32
  rss_chunk_count :: u16
  rss_received_mask :: u32
  rss_complete :: bool
  rss_in_use :: bool

definition rss_zero :: reassemble_slot where
  "rss_zero = \<lparr>rss_stream_id = 0, rss_frame_seq = 0, rss_chunk_count = 0, rss_received_mask = 0, rss_complete = False,
     rss_in_use = False\<rparr>"

type_synonym reassemble_ctx = "reassemble_slot list"

definition reassemble_ctx_create :: "bool \<Rightarrow> reassemble_ctx option" where
  "reassemble_ctx_create mem = (if mem then Some (replicate REASSEMBLE_SLOTS rss_zero) else None)"

definition reassemble_count :: "reassemble_ctx option \<Rightarrow> nat" where
  "reassemble_count c = (case c of None \<Rightarrow> 0 | Some c \<Rightarrow> count_if rss_in_use c)"

definition ra_find_slot :: "reassemble_ctx \<Rightarrow> u32 \<Rightarrow> u32 \<Rightarrow> nat option" where
  "ra_find_slot c stream_id frame_seq =
     slot_find rss_in_use (\<lambda>s k. rss_stream_id s = fst k \<and> rss_frame_seq s = snd k) c (stream_id, frame_seq)"

definition ra_full_mask :: "u16 \<Rightarrow> u32" where
  "ra_full_mask n = (if n = 32 then 0xFFFFFFFF else push_bit (unat n) 1 - 1)"

definition ra_mark :: "chunk_hdr \<Rightarrow> reassemble_slot \<Rightarrow> reassemble_slot" where
  "ra_mark h s = (let mask = rss_received_mask s OR push_bit (unat (ch_chunk_idx h)) 1 in
     s\<lparr>rss_received_mask := mask, rss_complete := (mask = ra_full_mask (ch_chunk_count h))\<rparr>)"

fun reassemble_receive :: "reassemble_ctx option \<Rightarrow> chunk_hdr option \<Rightarrow> nat option \<times> reassemble_ctx option" where
  "reassemble_receive (Some c) (Some h) =
     (if ch_chunk_count h = 0 \<or> ch_chunk_count h > REASSEMBLE_MAX_CHUNKS \<or> ch_chunk_idx h \<ge> ch_chunk_count h
      then (None, Some c)
      else case ra_find_slot c (ch_stream_id h) (ch_frame_seq h) of
        Some i \<Rightarrow> (Some i, Some (c[i := ra_mark h (c ! i)]))
      | None \<Rightarrow> (case slot_free rss_in_use c of
            None \<Rightarrow> (None, Some c)
          | Some i \<Rightarrow> (Some i, Some (c[i := ra_mark h \<lparr>rss_stream_id = ch_stream_id h, rss_frame_seq = ch_frame_seq h,
                rss_chunk_count = ch_chunk_count h, rss_received_mask = 0, rss_complete = False, rss_in_use = True\<rparr>]))))"
| "reassemble_receive c h = (None, c)"

text \<open>A slot pointer is the index it has in the array, or a value outside it.\<close>

fun reassemble_release :: "reassemble_ctx option \<Rightarrow> int option \<Rightarrow> int \<times> reassemble_ctx option" where
  "reassemble_release (Some c) (Some s) =
     (if 0 \<le> s \<and> s < int REASSEMBLE_SLOTS then (0, Some (c[nat s := rss_zero])) else (-1, Some c))"
| "reassemble_release c s = (-1, c)"

section \<open>The splitter\<close>

definition chunk_at :: "nat \<Rightarrow> nat \<Rightarrow> u32 \<Rightarrow> u32 \<Rightarrow> u8 \<Rightarrow> nat \<Rightarrow> nat \<Rightarrow> chunk" where
  "chunk_at len mtu stream_id frame_seq flags t i =
     \<lparr>ck_hdr = \<lparr>ch_stream_id = stream_id, ch_frame_seq = frame_seq, ch_chunk_idx = of_nat i, ch_chunk_count = of_nat t,
        ch_data_len = of_nat (min mtu (len - i * mtu)), ch_flags = if i = t - 1 then flags OR CHUNK_FLAG_LAST else flags\<rparr>,
      ck_data = of_nat (i * mtu)\<rparr>"

definition chunks_of :: "nat \<Rightarrow> nat \<Rightarrow> nat" where
  "chunks_of len mtu = (if len = 0 then 1 else (len + mtu - 1) div mtu)"

lemma chunks_of_bounds:
  assumes "0 < mtu"
  shows "len \<le> chunks_of len mtu * mtu" "0 < chunks_of len mtu" "i < chunks_of len mtu \<Longrightarrow> i * mtu \<le> len"
proof -
  show "len \<le> chunks_of len mtu * mtu"
    using dividend_less_times_div [OF assms, of "len + mtu - 1"] assms by (auto simp: chunks_of_def algebra_simps)
  show "0 < chunks_of len mtu" using assms by (auto simp: chunks_of_def div_greater_zero_iff)
  assume i: "i < chunks_of len mtu"
  then have "(i + 1) * mtu \<le> chunks_of len mtu * mtu" by (intro mult_le_mono) auto
  then show "i * mtu \<le> len"
  proof (cases "len = 0")
    case True
    then show ?thesis using i by (simp add: chunks_of_def)
  next
    case False
    have "(i + 1) * mtu \<le> (len + mtu - 1) div mtu * mtu"
      using \<open>(i + 1) * mtu \<le> _\<close> False by (simp only: chunks_of_def if_False)
    also have "\<dots> \<le> len + mtu - 1" by (rule div_times_less_eq_dividend)
    finally have "i * mtu + mtu \<le> len + mtu - 1" by (simp only: add_mult_distrib mult_1)
    then show ?thesis by linarith
  qed
qed

lemma u64_small: "n < 2 ^ 40 \<Longrightarrow> unat (of_nat n :: u64) = n"
  by (rule unat_of_nat_less) simp

lemma sint_narrow: "unat (w :: u64) = q \<Longrightarrow> q < 2 ^ 31 \<Longrightarrow> sint (ucast w :: u32) = int q"
proof -
  assume a: "unat w = q" "q < 2 ^ 31"
  then have w: "ucast w = (of_nat q :: u32)" by (metis of_nat_unat)
  have "signed_take_bit 31 (int q) = int q" using a(2) by (intro signed_take_bit_int_eq_self) simp_all
  then show ?thesis unfolding w by (simp add: signed_of_nat)
qed

lemma chunk_total_eq:
  assumes "0 < mtu" and "mtu < 2 ^ 32" and "len < 2 ^ 31"
  shows "chunk_total (of_nat len) (of_nat mtu) = int (chunks_of len mtu)"
proof (cases "len = 0")
  case False
  let ?q = "(len + mtu - 1) div mtu"
  have "of_nat len + of_nat mtu - 1 = (of_nat (len + mtu - 1) :: u64)" using assms(1) by (simp add: of_nat_diff)
  moreover have "unat (of_nat (len + mtu - 1) :: u64) = len + mtu - 1" using assms by (intro u64_small) simp
  moreover have "unat (of_nat mtu :: u64) = mtu" using assms by (intro u64_small) simp
  ultimately have q: "unat ((of_nat len + of_nat mtu - 1) div of_nat mtu :: u64) = ?q" by (simp add: unat_div)
  have "len + mtu - 1 < (len + 1) * mtu" using assms(1) by (cases mtu) auto
  then have "?q < len + 1" by (rule less_mult_imp_div_less)
  then have "?q \<le> len" by simp
  then have "?q < 2 ^ 31" using assms(3) by linarith
  moreover have "(of_nat len :: u64) \<noteq> 0" using u64_small [of len] assms(3) False by auto
  ultimately show ?thesis using sint_narrow [OF q] False by (simp add: chunk_total_def chunks_of_def)
qed (simp add: chunk_total_def chunks_of_def)

lemma of_nat_less_u16: "i < t \<Longrightarrow> t < 2 ^ 16 \<Longrightarrow> (of_nat i :: u16) < of_nat t"
  by (simp add: word_less_nat_alt unat_of_nat_less)

lemma chunk_hdr_init_at:
  "i < t \<Longrightarrow> t < 2 ^ 16 \<Longrightarrow> chunk_hdr_init (Some h) sid seq (of_nat i) (of_nat t) n f
     = (0, Some \<lparr>ch_stream_id = sid, ch_frame_seq = seq, ch_chunk_idx = of_nat i, ch_chunk_count = of_nat t,
                ch_data_len = n, ch_flags = f\<rparr>)"
  using of_nat_less_u16 [of i t] by (auto simp: not_le word_gt_0)

lemma chunk_this_len:
  assumes "k \<le> len" and "len < 2 ^ 31" and "mtu < 2 ^ 32"
  shows "(if (of_nat len :: u64) - of_nat k < of_nat mtu then of_nat len - of_nat k else of_nat mtu) = (of_nat (min mtu (len - k)) :: u64)"
proof -
  have "(of_nat len :: u64) - of_nat k = of_nat (len - k)" using assms(1) by (simp add: of_nat_diff)
  moreover have "unat (of_nat (len - k) :: u64) = len - k" by (rule u64_small) (use assms(2) in simp)
  moreover have "unat (of_nat mtu :: u64) = mtu" by (rule u64_small) (use assms(3) in simp)
  ultimately show ?thesis by (simp add: word_less_nat_alt min_def)
qed

lemma chunk_fill_step:
  assumes "0 < mtu" and "mtu < 2 ^ 32" and "len < 2 ^ 31" and "t = chunks_of len mtu" and "t < 2 ^ 16" and "i < t"
  shows "chunk_fill (of_nat len) (of_nat mtu) sid seq flags (int t) i (of_nat (i * mtu), out)
    = (of_nat (i * mtu + min mtu (len - i * mtu)), out[i := chunk_at len mtu sid seq flags t i])"
proof -
  have "i * mtu \<le> len" using chunks_of_bounds(3) [OF assms(1)] assms(4,6) by simp
  note l = chunk_this_len [OF this assms(3,2)]
  have "ucast (of_nat n :: u64) = (of_nat n :: u16)" for n by (rule bit_word_eqI) (auto simp: bit_simps)
  moreover have "int i = int t - 1 \<longleftrightarrow> i = t - 1" using assms(6) by auto
  ultimately show ?thesis using assms(5,6) unfolding chunk_fill_def Let_def prod.case l
    by (simp add: chunk_hdr_init_at chunk_at_def del: chunk_hdr_init.simps of_nat_mult)
qed

lemma chunk_fill_loop:
  assumes "0 < mtu" and "mtu < 2 ^ 32" and "len < 2 ^ 31" and "t = chunks_of len mtu" and "t < 2 ^ 16"
    and "t \<le> length out" and "i \<le> t"
  shows "fold (chunk_fill (of_nat len) (of_nat mtu) sid seq flags (int t)) [0..<i] (0, out)
    = (of_nat (min (i * mtu) len), map (chunk_at len mtu sid seq flags t) [0..<i] @ drop i out)"
  using assms(7)
proof (induction i)
  case (Suc i)
  then have "i * mtu \<le> len" using chunks_of_bounds(3) [OF assms(1)] assms(4) by simp
  then have "min (i * mtu) len = i * mtu" "i * mtu + min mtu (len - i * mtu) = min (Suc i * mtu) len" by simp_all
  moreover have "drop i out = out ! i # drop (Suc i) out" using Suc.prems assms(6) by (simp add: Cons_nth_drop_Suc)
  ultimately show ?case using Suc chunk_fill_step [OF assms(1-5), of i]
    by (simp add: list_update_append del: of_nat_mult)
qed simp

lemma chunk_split_eq:
  assumes "0 < mtu" and "mtu < 2 ^ 32" and "length frame < 2 ^ 31" and "t = chunks_of (length frame) mtu"
    and "t \<le> 256" and "t \<le> length out"
  shows "chunk_split (Some frame) (of_nat mtu) sid seq flags (Some out) (int (length out))
    = (int t, Some (map (chunk_at (length frame) mtu sid seq flags t) [0..<t] @ drop t out))"
proof -
  have "(of_nat mtu :: u64) \<noteq> 0" using u64_small [of mtu] assms(1,2) by auto
  moreover have "0 < t" using chunks_of_bounds(2) [OF assms(1)] assms(4) by simp
  moreover have "out \<noteq> []" using assms(6) calculation by auto
  ultimately show ?thesis
    using chunk_total_eq [OF assms(1-3)] chunk_fill_loop [OF assms(1-4) _ assms(6) le_refl, of sid seq flags] assms(4-6)
    by (simp add: CHUNK_SPLIT_MAX_def Let_def)
qed

text \<open>The slices that the chunks point at, one after the other, are the frame.\<close>

definition chunk_bytes :: "u8 list \<Rightarrow> chunk \<Rightarrow> u8 list" where
  "chunk_bytes frame c = take (unat (ch_data_len (ck_hdr c))) (drop (unat (ck_data c)) frame)"

lemma chunk_bytes_at:
  assumes "mtu < 2 ^ 16" and "i * mtu \<le> length frame" and "length frame < 2 ^ 31"
  shows "chunk_bytes frame (chunk_at (length frame) mtu sid seq flags t i) = take mtu (drop (i * mtu) frame)"
proof -
  have "unat (of_nat (min mtu (length frame - i * mtu)) :: u16) = min mtu (length frame - i * mtu)"
    using assms(1) by (intro unat_of_nat_less) simp
  moreover have "unat (of_nat (i * mtu) :: u64) = i * mtu" 
    by (rule u64_small, rule le_less_trans [OF assms(2)]) (use assms(3) in simp)
  ultimately show ?thesis
    by (simp add: chunk_bytes_def chunk_at_def min_def del: of_nat_mult)
qed

lemma concat_slices: "concat (map (\<lambda>i. take m (drop (i * m) xs)) [0..<t]) = take (t * m) xs"
  by (induction t) (simp_all add: take_add add.commute [of m])

lemma chunks_frame:
  assumes "0 < mtu" and "mtu < 2 ^ 16" and "length frame < 2 ^ 31" and "t = chunks_of (length frame) mtu"
  shows "concat (map (chunk_bytes frame) (map (chunk_at (length frame) mtu sid seq flags t) [0..<t])) = frame"
proof -
  have "map (chunk_bytes frame \<circ> chunk_at (length frame) mtu sid seq flags t) [0..<t]
      = map (\<lambda>i. take mtu (drop (i * mtu) frame)) [0..<t]"
    using chunks_of_bounds(3) [OF assms(1)] assms(4) by (simp add: chunk_bytes_at [OF assms(2) _ assms(3)])
  then show ?thesis unfolding map_map using chunks_of_bounds(1) [OF assms(1), of "length frame"] assms(4)
    by (simp only: concat_slices take_all)
qed

section \<open>The reassembler\<close>

definition chunk_key :: "chunk_hdr \<Rightarrow> u32 \<times> u32" where
  "chunk_key h = (ch_stream_id h, ch_frame_seq h)"

definition rss_key :: "reassemble_slot \<Rightarrow> u32 \<times> u32" where
  "rss_key s = (rss_stream_id s, rss_frame_seq s)"

definition ra_valid :: "chunk_hdr \<Rightarrow> bool" where
  "ra_valid h \<longleftrightarrow> ch_chunk_count h \<noteq> 0 \<and> ch_chunk_count h \<le> REASSEMBLE_MAX_CHUNKS \<and> ch_chunk_idx h < ch_chunk_count h"

text \<open>The chunks of a frame that are among the headers received.\<close>

definition ra_seen :: "chunk_hdr list \<Rightarrow> u32 \<times> u32 \<Rightarrow> nat set" where
  "ra_seen hs k = {unat (ch_chunk_idx h) | h. h \<in> set hs \<and> chunk_key h = k}"

definition ra_ok :: "chunk_hdr list \<Rightarrow> reassemble_ctx \<Rightarrow> bool" where
  "ra_ok hs c \<longleftrightarrow> length c = REASSEMBLE_SLOTS \<and> count_if rss_in_use c = card (chunk_key ` set hs)
     \<and> (\<forall>i<length c. rss_in_use (c ! i) \<longrightarrow> rss_key (c ! i) \<in> chunk_key ` set hs
          \<and> (\<forall>j<32. bit (rss_received_mask (c ! i)) j \<longleftrightarrow> j \<in> ra_seen hs (rss_key (c ! i)))
          \<and> (\<forall>j<length c. rss_in_use (c ! j) \<longrightarrow> rss_key (c ! j) = rss_key (c ! i) \<longrightarrow> j = i))"

lemma ra_okD:
  assumes "ra_ok hs c"
  shows "length c = REASSEMBLE_SLOTS" and "count_if rss_in_use c = card (chunk_key ` set hs)"
    and "i < length c \<Longrightarrow> rss_in_use (c ! i) \<Longrightarrow> rss_key (c ! i) \<in> chunk_key ` set hs"
    and "i < length c \<Longrightarrow> rss_in_use (c ! i) \<Longrightarrow> b < 32 \<Longrightarrow>
      bit (rss_received_mask (c ! i)) b \<longleftrightarrow> b \<in> ra_seen hs (rss_key (c ! i))"
    and "i < length c \<Longrightarrow> rss_in_use (c ! i) \<Longrightarrow> j < length c \<Longrightarrow> rss_in_use (c ! j) \<Longrightarrow> rss_key (c ! j) = rss_key (c ! i) \<Longrightarrow> j = i"
  using assms unfolding ra_ok_def by blast+

lemma ra_seen_snoc: "ra_seen (hs @ [h]) k = (if chunk_key h = k then insert (unat (ch_chunk_idx h)) (ra_seen hs k) else ra_seen hs k)"
  by (auto simp: ra_seen_def)

lemma ra_seen_new: "k \<notin> chunk_key ` set hs \<Longrightarrow> ra_seen hs k = {}"
  by (auto simp: ra_seen_def)

lemma ra_valid_idx: "ra_valid h \<Longrightarrow> unat (ch_chunk_idx h) < unat (ch_chunk_count h) \<and> unat (ch_chunk_count h) \<le> 32"
  by (auto simp: ra_valid_def REASSEMBLE_MAX_CHUNKS_def word_less_nat_alt word_le_nat_alt)

lemma bit_ra_mark:
  "k < 32 \<Longrightarrow> j < 32 \<Longrightarrow> bit (m OR push_bit k 1 :: u32) j \<longleftrightarrow> bit m j \<or> j = k"
  by (auto simp: bit_simps)

lemma bit_ra_full: "unat n \<le> 32 \<Longrightarrow> j < 32 \<Longrightarrow> bit (ra_full_mask n) j \<longleftrightarrow> j < unat n"
proof (cases "n = 32")
  case True
  have f: "ra_full_mask n = mask 32" using True by (simp add: ra_full_mask_def mask_eq_exp_minus_1)
  show "unat n \<le> 32 \<Longrightarrow> j < 32 \<Longrightarrow> ?thesis" unfolding f bit_mask_iff using True by simp
next
  case False
  then show "unat n \<le> 32 \<Longrightarrow> j < 32 \<Longrightarrow> ?thesis"
    by (simp add: ra_full_mask_def bit_mask_iff flip: mask_eq_exp_minus_1)
qed

text \<open>Marking a slot that has the key of the header, whether found or just opened.\<close>

lemma ra_ok_mark:
  assumes ok: "ra_ok hs c" and v: "ra_valid h" and i: "i < length c"
    and s: "rss_in_use s" "rss_key s = chunk_key h" "\<forall>j<32. bit (rss_received_mask s) j \<longleftrightarrow> j \<in> ra_seen hs (chunk_key h)"
    and n: "count_if rss_in_use (c[i := s]) = card (chunk_key ` set (hs @ [h]))"
    and other: "\<And>j. j < length c \<Longrightarrow> rss_in_use (c ! j) \<Longrightarrow> rss_key (c ! j) = chunk_key h \<Longrightarrow> j = i"
  shows "ra_ok (hs @ [h]) (c[i := ra_mark h s])"
proof -
  let ?s = "ra_mark h s"
  have m: "rss_in_use ?s" "rss_key ?s = chunk_key h"
    "rss_received_mask ?s = rss_received_mask s OR push_bit (unat (ch_chunk_idx h)) 1"
    using s by (simp_all add: ra_mark_def rss_key_def Let_def)
  have bits: "bit (rss_received_mask ?s) j \<longleftrightarrow> j \<in> ra_seen (hs @ [h]) (chunk_key h)" if "j < 32" for j
    using that s(3) ra_valid_idx [OF v] unfolding m(3) ra_seen_snoc by (subst bit_ra_mark) auto
  have "count_if rss_in_use (c[i := ?s]) = card (chunk_key ` set (hs @ [h]))"
    using n count_if_update [OF i, of rss_in_use ?s] count_if_update [OF i, of rss_in_use s] m(1) s(1) by simp
  moreover have "rss_key (c ! j) \<in> chunk_key ` set (hs @ [h])
      \<and> (\<forall>b<32. bit (rss_received_mask (c ! j)) b \<longleftrightarrow> b \<in> ra_seen (hs @ [h]) (rss_key (c ! j)))"
    if "j < length c" "rss_in_use (c ! j)" "j \<noteq> i" for j
    using ok other [OF that(1,2)] that by (auto simp: ra_ok_def ra_seen_snoc)
  ultimately have count: "count_if rss_in_use (c[i := ?s]) = card (chunk_key ` set (hs @ [h]))"
    and old: "\<And>j. j < length c \<Longrightarrow> rss_in_use (c ! j) \<Longrightarrow> j \<noteq> i \<Longrightarrow> rss_key (c ! j) \<in> chunk_key ` set (hs @ [h])
      \<and> (\<forall>b<32. bit (rss_received_mask (c ! j)) b \<longleftrightarrow> b \<in> ra_seen (hs @ [h]) (rss_key (c ! j)))" by blast+
  have "rss_key (c[i := ?s] ! j) \<in> chunk_key ` set (hs @ [h])
      \<and> (\<forall>b<32. bit (rss_received_mask (c[i := ?s] ! j)) b \<longleftrightarrow> b \<in> ra_seen (hs @ [h]) (rss_key (c[i := ?s] ! j)))"
    if "j < length c" "rss_in_use (c[i := ?s] ! j)" for j
  proof (cases "j = i")
    case True
    then show ?thesis using i bits by (simp add: m(2))
  next
    case False
    then show ?thesis using old [of j] that by simp
  qed
  moreover have "l = j" if "j < length c" "rss_in_use (c[i := ?s] ! j)" "l < length c" "rss_in_use (c[i := ?s] ! l)"
      "rss_key (c[i := ?s] ! l) = rss_key (c[i := ?s] ! j)" for j l
  proof (rule ccontr)
    assume ne: "l \<noteq> j"
    have *: "rss_key (c[i := ?s] ! k) \<noteq> chunk_key h" if "k < length c" "rss_in_use (c[i := ?s] ! k)" "k \<noteq> i" for k
      using other [of k] that by (metis nth_list_update_neq)
    have key: "rss_key (c[i := ?s] ! i) = chunk_key h" using i m(2) by simp
    show False
    proof (cases "j = i \<or> l = i")
      case True
      then show ?thesis using * [of j] * [of l] that ne key by metis
    next
      case False
      then show ?thesis using ra_okD(5) [OF ok, of j l] that ne by simp
    qed
  qed
  ultimately show ?thesis using ra_okD(1) [OF ok] count unfolding ra_ok_def length_list_update by blast
qed

lemma ra_receive_ok:
  assumes ok: "ra_ok hs c" and v: "ra_valid h" and room: "card (chunk_key ` set (hs @ [h])) \<le> REASSEMBLE_SLOTS"
  shows "\<exists>i c'. reassemble_receive (Some c) (Some h) = (Some i, Some c') \<and> ra_ok (hs @ [h]) c' \<and> i < length c'
    \<and> rss_in_use (c' ! i) \<and> rss_key (c' ! i) = chunk_key h
    \<and> rss_complete (c' ! i) = (rss_received_mask (c' ! i) = ra_full_mask (ch_chunk_count h))"
proof (cases "ra_find_slot c (ch_stream_id h) (ch_frame_seq h)")
  case (Some i)
  then have f: "slot_find rss_in_use (\<lambda>s k. rss_stream_id s = fst k \<and> rss_frame_seq s = snd k) c (chunk_key h) = Some i"
    by (simp add: ra_find_slot_def chunk_key_def)
  note d = slot_findD [OF f]
  then have k: "rss_key (c ! i) = chunk_key h" by (simp add: rss_key_def chunk_key_def)
  have in_hs: "chunk_key h \<in> chunk_key ` set hs" using ra_okD(3) [OF ok, of i] d by (simp add: k)
  have "ra_ok (hs @ [h]) (c[i := ra_mark h (c ! i)])"
  proof (rule ra_ok_mark [OF ok v])
    show "\<forall>j<32. bit (rss_received_mask (c ! i)) j \<longleftrightarrow> j \<in> ra_seen hs (chunk_key h)"
      using ra_okD(4) [OF ok, of i] d by (simp add: k)
    show "count_if rss_in_use (c[i := c ! i]) = card (chunk_key ` set (hs @ [h]))"
      using ra_okD(2) [OF ok] in_hs by (simp add: insert_absorb)
    show "j = i" if "j < length c" "rss_in_use (c ! j)" "rss_key (c ! j) = chunk_key h" for j
      using ra_okD(5) [OF ok, of i j] d that by (simp add: k)
  qed (use d k in simp_all)
  then show ?thesis using Some v d k by (auto simp: ra_valid_def ra_mark_def rss_key_def Let_def)
next
  case None
  have new: "chunk_key h \<noteq> rss_key (c ! i)" if "i < length c" "rss_in_use (c ! i)" for i
    using None that by (fastforce simp: ra_find_slot_def slot_find_def first_idx_None rss_key_def chunk_key_def)
  have cov: "chunk_key ` set hs = rss_key ` {s \<in> set c. rss_in_use s}"
  proof (rule card_subset_eq [symmetric])
    show "rss_key ` {s \<in> set c. rss_in_use s} \<subseteq> chunk_key ` set hs"
      using ok by (auto simp: ra_ok_def in_set_conv_nth)
    have "card (rss_key ` {s \<in> set c. rss_in_use s}) = card (rss_key ` (!) c ` {i. i < length c \<and> rss_in_use (c ! i)})"
      by (rule arg_cong [of _ _ card]) (auto simp: in_set_conv_nth)
    also have "\<dots> = card {i. i < length c \<and> rss_in_use (c ! i)}"
      unfolding image_image by (rule card_image) (use ok in \<open>auto simp: ra_ok_def inj_on_def\<close>)
    also have "\<dots> = count_if rss_in_use c" by (simp add: count_if_def length_filter_conv_card)
    finally show "card (rss_key ` {s \<in> set c. rss_in_use s}) = card (chunk_key ` set hs)" using ok by (simp add: ra_ok_def)
  qed simp
  have fresh: "chunk_key h \<notin> chunk_key ` set hs" unfolding cov using new by (auto simp: in_set_conv_nth)
  then have "count_if rss_in_use c < length c" using room ok by (simp add: ra_ok_def)
  from free_slot_exists [OF this] obtain i where f: "slot_free rss_in_use c = Some i" by (auto simp: slot_free_def)
  let ?s = "\<lparr>rss_stream_id = ch_stream_id h, rss_frame_seq = ch_frame_seq h,
     rss_chunk_count = ch_chunk_count h, rss_received_mask = 0, rss_complete = False, rss_in_use = True\<rparr>"
  note i = slot_freeD [OF f]
  have "ra_ok (hs @ [h]) (c[i := ra_mark h ?s])"
  proof (rule ra_ok_mark [OF ok v])
    show "count_if rss_in_use (c[i := ?s]) = card (chunk_key ` set (hs @ [h]))"
      using i fresh ra_okD(2) [OF ok] by (simp add: count_if_fill)
    show "j = i" if "j < length c" "rss_in_use (c ! j)" "rss_key (c ! j) = chunk_key h" for j
      using new [OF that(1,2)] that(3) by simp
  qed (use i ra_seen_new [OF fresh] in \<open>simp_all add: rss_key_def chunk_key_def\<close>)
  then show ?thesis using None f v i by (auto simp: ra_valid_def ra_mark_def rss_key_def chunk_key_def Let_def)
qed

definition ra_run :: "chunk_hdr list \<Rightarrow> reassemble_ctx option \<Rightarrow> reassemble_ctx option" where
  "ra_run hs c = fold (\<lambda>h c. snd (reassemble_receive c (Some h))) hs c"

lemma ra_run_ok:
  assumes "ra_ok past c" and "\<forall>h \<in> set hs. ra_valid h" and "card (chunk_key ` set (past @ hs)) \<le> REASSEMBLE_SLOTS"
  shows "\<exists>c'. ra_run hs (Some c) = Some c' \<and> ra_ok (past @ hs) c'"
  using assms
proof (induction hs arbitrary: past c)
  case (Cons h hs)
  have "card (chunk_key ` set (past @ [h])) \<le> card (chunk_key ` set (past @ h # hs))" by (rule card_mono) auto
  then have "card (chunk_key ` set (past @ [h])) \<le> REASSEMBLE_SLOTS" using Cons.prems(3) by simp
  from ra_receive_ok [OF Cons.prems(1) _ this] Cons.prems(2) obtain i c1 where
    "reassemble_receive (Some c) (Some h) = (Some i, Some c1)" "ra_ok (past @ [h]) c1" by auto
  with Cons.IH [of "past @ [h]" c1] Cons.prems show ?case by (simp add: ra_run_def del: reassemble_receive.simps)
qed (simp add: ra_run_def)

lemma ra_create_ok: "\<exists>c. reassemble_ctx_create True = Some c \<and> ra_ok [] c"
  by (simp add: reassemble_ctx_create_def ra_ok_def rss_zero_def)

lemma ra_full_iff:
  assumes "unat n \<le> 32"
  shows "m = ra_full_mask n \<longleftrightarrow> (\<forall>j<32. bit m j \<longleftrightarrow> j < unat n)"
proof
  assume a: "\<forall>j<32. bit m j \<longleftrightarrow> j < unat n"
  show "m = ra_full_mask n"
    by (rule bit_word_eqI) (use a bit_ra_full [OF assms] in simp)
qed (simp add: bit_ra_full [OF assms])

text \<open>The headers of the chunks of one frame, and the indices seen of them.\<close>

lemma chunk_at_hdr:
  "unat (of_nat i :: u16) = i \<Longrightarrow> unat (ch_chunk_idx (ck_hdr (chunk_at len mtu sid seq flags t i))) = i"
  "chunk_key (ck_hdr (chunk_at len mtu sid seq flags t i)) = (sid, seq)"
  by (simp_all add: chunk_at_def chunk_key_def)

lemma ra_seen_complete:
  assumes "t \<le> 32" and "\<forall>g \<in> set hs. chunk_key g = (sid, seq) \<longrightarrow> g \<in> (\<lambda>i. ck_hdr (chunk_at len mtu sid seq flags t i)) ` {..<t}"
  shows "(\<forall>j<32. j \<in> ra_seen hs (sid, seq) \<longleftrightarrow> j < t)
    \<longleftrightarrow> (\<lambda>i. ck_hdr (chunk_at len mtu sid seq flags t i)) ` {..<t} \<subseteq> set hs"
proof -
  let ?H = "\<lambda>i. ck_hdr (chunk_at len mtu sid seq flags t i)"
  have idx: "unat (ch_chunk_idx (?H i)) = i" if "i < t" for i
    using that assms(1) by (intro chunk_at_hdr(1) unat_of_nat_less) simp
  have "j \<in> ra_seen hs (sid, seq) \<longleftrightarrow> j < t \<and> ?H j \<in> set hs" for j
  proof
    assume "j \<in> ra_seen hs (sid, seq)"
    then obtain g where g: "g \<in> set hs" "chunk_key g = (sid, seq)" "j = unat (ch_chunk_idx g)" by (auto simp: ra_seen_def)
    with assms(2) obtain i where "i < t" "g = ?H i" by auto
    with g idx show "j < t \<and> ?H j \<in> set hs" by auto
  next
    assume "j < t \<and> ?H j \<in> set hs"
    then show "j \<in> ra_seen hs (sid, seq)" using idx [of j] chunk_at_hdr(2) [of len mtu sid seq flags t j]
      unfolding ra_seen_def by (auto intro!: exI [of _ "?H j"])
  qed
  moreover have "(\<forall>j<32. (j < t \<and> ?H j \<in> set hs) \<longleftrightarrow> j < t) \<longleftrightarrow> (\<forall>j<t. ?H j \<in> set hs)"
    using assms(1) by (meson less_le_trans)
  ultimately show ?thesis by auto
qed

text \<open>C17: A frame split into at most 32 chunks is a list of slices that concatenate to the frame; and whatever
  headers of up to eight frames arrive, in whatever order and however often, the reassembler says after a
  header of this frame that it is complete if and only if all its chunks have arrived.\<close>

theorem chunk_reassembly:
  assumes mtu: "0 < mtu" "mtu < 2 ^ 16" and len: "length frame < 2 ^ 31"
    and t: "t = chunks_of (length frame) mtu" "t \<le> 32" "t \<le> length out"
    and hs: "\<forall>g \<in> set (hs @ [h]). ra_valid g" "card (chunk_key ` set (hs @ [h])) \<le> REASSEMBLE_SLOTS"
    and h: "chunk_key h = (sid, seq)"
  shows "\<exists>cs. chunk_split (Some frame) (of_nat mtu) sid seq flags (Some out) (int (length out)) = (int t, Some cs)
    \<and> concat (map (chunk_bytes frame) (take t cs)) = frame
    \<and> ((\<forall>g \<in> set (hs @ [h]). chunk_key g = (sid, seq) \<longrightarrow> g \<in> ck_hdr ` set (take t cs)) \<longrightarrow>
        (\<exists>i c. reassemble_receive (ra_run hs (reassemble_ctx_create True)) (Some h) = (Some i, Some c)
          \<and> (rss_complete (c ! i) \<longleftrightarrow> ck_hdr ` set (take t cs) \<subseteq> set (hs @ [h]))))"
proof -
  let ?C = "chunk_at (length frame) mtu sid seq flags t" and ?cs = "map (chunk_at (length frame) mtu sid seq flags t) [0..<t] @ drop t out"
  have H: "ck_hdr ` set (take t ?cs) = (\<lambda>i. ck_hdr (?C i)) ` {..<t}" by (auto simp: lessThan_atLeast0)
  have split: "chunk_split (Some frame) (of_nat mtu) sid seq flags (Some out) (int (length out)) = (int t, Some ?cs)"
    by (rule chunk_split_eq) (use mtu len t in simp_all)
  have bytes: "concat (map (chunk_bytes frame) (take t ?cs)) = frame" using chunks_frame [OF mtu len t(1)] by simp
  obtain c0 where c0: "reassemble_ctx_create True = Some c0" "ra_ok [] c0" using ra_create_ok by blast
  have "card (chunk_key ` set ([] @ hs)) \<le> card (chunk_key ` set (hs @ [h]))" by (rule card_mono) auto
  then have "card (chunk_key ` set ([] @ hs)) \<le> REASSEMBLE_SLOTS" using hs(2) by linarith
  from ra_run_ok [OF c0(2) _ this] hs(1) obtain c1 where c1: "ra_run hs (Some c0) = Some c1" "ra_ok hs c1" by auto
  from ra_receive_ok [OF c1(2) _ hs(2)] hs(1) obtain i c where
    r: "reassemble_receive (Some c1) (Some h) = (Some i, Some c)" "ra_ok (hs @ [h]) c" "i < length c" "rss_in_use (c ! i)"
      "rss_key (c ! i) = (sid, seq)" "rss_complete (c ! i) = (rss_received_mask (c ! i) = ra_full_mask (ch_chunk_count h))"
    using h by auto
  have "rss_complete (c ! i) \<longleftrightarrow> ck_hdr ` set (take t ?cs) \<subseteq> set (hs @ [h])"
    if own: "\<forall>g \<in> set (hs @ [h]). chunk_key g = (sid, seq) \<longrightarrow> g \<in> ck_hdr ` set (take t ?cs)"
  proof -
    have "h \<in> (\<lambda>i. ck_hdr (?C i)) ` {..<t}" using own h unfolding H by simp
    then have "ch_chunk_count h = of_nat t" by (auto simp: chunk_at_def)
    then have n: "unat (ch_chunk_count h) = t" using t(2) by (simp add: unat_of_nat_less)
    have "rss_complete (c ! i) \<longleftrightarrow> (\<forall>j<32. j \<in> ra_seen (hs @ [h]) (sid, seq) \<longleftrightarrow> j < t)"
      using ra_okD(4) [OF r(2,3,4)] ra_full_iff [of "ch_chunk_count h"] n t(2) r(5,6) by simp
    then show ?thesis using ra_seen_complete [OF t(2) own [unfolded H]] unfolding H by simp
  qed
  then show ?thesis using split bytes r(1) c0(1) c1(1) by (intro exI [of _ ?cs]) (simp del: chunk_split.simps reassemble_receive.simps)
qed

definition ck_ex :: chunk where
  "ck_ex = \<lparr>ck_hdr = \<lparr>ch_stream_id = 0, ch_frame_seq = 0, ch_chunk_idx = 0, ch_chunk_count = 0, ch_data_len = 0, ch_flags = 0\<rparr>,
     ck_data = 0\<rparr>"

lemma chunk_reassembly_witness:
  "\<exists>cs i c. chunk_split (Some [1, 2, 3]) (of_nat 2) 7 1 0 (Some [ck_ex, ck_ex]) 2 = (2, Some cs)
    \<and> concat (map (chunk_bytes [1, 2, 3]) (take 2 cs)) = [1, 2, 3]
    \<and> reassemble_receive (ra_run [ck_hdr (cs ! 1)] (reassemble_ctx_create True)) (Some (ck_hdr (cs ! 0))) = (Some i, Some c)
    \<and> rss_complete (c ! i)"
proof -
  let ?C = "chunk_at 3 2 7 1 0 2"
  have t: "(2 :: nat) = chunks_of (length [1, 2, 3 :: u8]) 2" by (simp add: chunks_of_def)
  have v: "\<forall>g \<in> set ([ck_hdr (?C 1)] @ [ck_hdr (?C 0)]). ra_valid g"
    by (simp add: chunk_at_def ra_valid_def REASSEMBLE_MAX_CHUNKS_def)
  have k: "chunk_key (ck_hdr (?C i)) = (7, 1)" for i by (rule chunk_at_hdr(2))
  have room: "card (chunk_key ` set ([ck_hdr (?C 1)] @ [ck_hdr (?C 0)])) \<le> REASSEMBLE_SLOTS"
    by (simp add: k REASSEMBLE_SLOTS_def)
  have small: "(0 :: nat) < 2" "(2 :: nat) < 2 ^ 16" "length [1, 2, 3 :: u8] < 2 ^ 31" "(2 :: nat) \<le> 32" "2 \<le> length [ck_ex, ck_ex]"
    by simp_all
  from chunk_reassembly [OF small(1-3) t small(4,5) v room k, of 0] obtain cs where
    s: "chunk_split (Some [1, 2, 3]) (of_nat 2) 7 1 0 (Some [ck_ex, ck_ex]) (int (length [ck_ex, ck_ex])) = (int 2, Some cs)"
      "concat (map (chunk_bytes [1, 2, 3]) (take 2 cs)) = [1, 2, 3]"
    and r: "(\<forall>g \<in> set ([ck_hdr (?C 1)] @ [ck_hdr (?C 0)]). chunk_key g = (7, 1) \<longrightarrow> g \<in> ck_hdr ` set (take 2 cs)) \<longrightarrow>
        (\<exists>i c. reassemble_receive (ra_run [ck_hdr (?C 1)] (reassemble_ctx_create True)) (Some (ck_hdr (?C 0))) = (Some i, Some c)
          \<and> (rss_complete (c ! i) \<longleftrightarrow> ck_hdr ` set (take 2 cs) \<subseteq> set ([ck_hdr (?C 1)] @ [ck_hdr (?C 0)])))"
    by blast
  have "chunk_split (Some [1, 2, 3]) (of_nat 2) 7 1 0 (Some [ck_ex, ck_ex]) (int (length [ck_ex, ck_ex]))
      = (int 2, Some (map ?C [0..<2] @ drop 2 [ck_ex, ck_ex]))"
    using chunk_split_eq [of 2 "[1, 2, 3]" 2 "[ck_ex, ck_ex]" 7 1 0] t
    by (simp add: numeral_3_eq_3 del: chunk_split.simps)
  then have "cs = [?C 0, ?C 1]" using s(1) by (simp add: upt_rec del: chunk_split.simps)
  with r s show ?thesis by (intro exI [of _ cs]) (auto simp del: chunk_split.simps reassemble_receive.simps)
qed

end
