(* ===== verification/Jitter.thy ===== *)
theory Jitter
  imports Wire
begin

text \<open>
  The jitter buffer of \<^verbatim>\<open>src/src/jitter\<close>: the packet format (\<^verbatim>\<open>jitter_packet.c\<close>) and the buffer that puts
  packets back in the order of their 32-bit serial numbers and releases each when it is due
  (\<^verbatim>\<open>jitter_buffer.c\<close>).  The array of the buffer is a list of its full length, \<open>memmove\<close> on it included.
  The statistics (\<^verbatim>\<open>jitter_stats.c\<close>) are floating-point averages and not modelled.
\<close>

definition JITTER_MAGIC :: u32 where "JITTER_MAGIC = 0x4A504B54"
definition JITTER_PKT_HDR_SIZE :: nat where "JITTER_PKT_HDR_SIZE = 24"
definition JITTER_MAX_PAYLOAD :: nat where "JITTER_MAX_PAYLOAD = 1400"
definition JITTER_BUF_CAPACITY :: nat where "JITTER_BUF_CAPACITY = 256"
definition JITTER_FLAG_LATE :: u8 where "JITTER_FLAG_LATE = 0x01"

record jitter_packet =
  jp_seq_num :: u32
  jp_rtp_ts :: u32
  jp_capture_us :: u64
  jp_payload_len :: u16
  jp_payload_type :: u8
  jp_flags :: u8
  jp_payload :: "u8 list"

section \<open>The packet format\<close>

definition jp_bytes :: "jitter_packet \<Rightarrow> u8 list" where
  "jp_bytes p = w32le JITTER_MAGIC @ w32le (jp_seq_num p) @ w32le (jp_rtp_ts p) @ w64le (jp_capture_us p)
     @ w16le (jp_payload_len p) @ [jp_payload_type p, jp_flags p] @ take (unat (jp_payload_len p)) (jp_payload p)"

fun jitter_packet_encode :: "jitter_packet option \<Rightarrow> u8 list option \<Rightarrow> int \<times> u8 list option" where
  "jitter_packet_encode (Some p) (Some buf) =
     (if unat (jp_payload_len p) > JITTER_MAX_PAYLOAD then (-1, Some buf)
      else let needed = JITTER_PKT_HDR_SIZE + unat (jp_payload_len p) in
        if length buf < needed then (-1, Some buf)
        else (int needed, Some (overwrite (jp_bytes p) buf)))"
| "jitter_packet_encode _ buf = (-1, buf)"

definition jp_read :: "u8 list \<Rightarrow> jitter_packet" where
  "jp_read buf = \<lparr>jp_seq_num = r32le buf 4, jp_rtp_ts = r32le buf 8, jp_capture_us = r64le buf 12,
     jp_payload_len = r16le buf 20, jp_payload_type = buf ! 22, jp_flags = buf ! 23,
     jp_payload = replicate JITTER_MAX_PAYLOAD 0\<rparr>"

fun jitter_packet_decode :: "u8 list option \<Rightarrow> jitter_packet option \<Rightarrow> int \<times> jitter_packet option" where
  "jitter_packet_decode (Some buf) (Some pkt) =
     (if length buf < JITTER_PKT_HDR_SIZE then (-1, Some pkt)
      else if r32le buf 0 \<noteq> JITTER_MAGIC then (-1, Some pkt)
      else let p = jp_read buf; n = unat (jp_payload_len p) in
        if n > JITTER_MAX_PAYLOAD then (-1, Some p)
        else if length buf < JITTER_PKT_HDR_SIZE + n then (-1, Some p)
        else (0, Some (p\<lparr>jp_payload := overwrite (take n (drop JITTER_PKT_HDR_SIZE buf)) (jp_payload p)\<rparr>)))"
| "jitter_packet_decode _ pkt = (-1, pkt)"

definition jitter_packet_before :: "u32 \<Rightarrow> u32 \<Rightarrow> bool" where
  "jitter_packet_before a b \<longleftrightarrow> a \<noteq> b \<and> b - a < 0x80000000"

text \<open>Packets as they are built: the payload array is zero behind the payload.\<close>

definition jp_wf :: "jitter_packet \<Rightarrow> bool" where
  "jp_wf p \<longleftrightarrow> unat (jp_payload_len p) \<le> JITTER_MAX_PAYLOAD \<and> length (jp_payload p) = JITTER_MAX_PAYLOAD
     \<and> drop (unat (jp_payload_len p)) (jp_payload p) = replicate (JITTER_MAX_PAYLOAD - unat (jp_payload_len p)) 0"

definition jp_dec :: "u8 list \<Rightarrow> jitter_packet option" where
  "jp_dec b = (case jitter_packet_decode (Some b) (Some (jp_read b)) of (r, p) \<Rightarrow> if r = 0 then p else None)"

lemma jp_decode_bytes:
  assumes "jp_wf p"
  shows "jitter_packet_decode (Some (jp_bytes p @ rest)) (Some x) = (0, Some p)"
proof -
  let ?b = "jp_bytes p @ rest" and ?n = "unat (jp_payload_len p)"
  let ?d = "take ?n (jp_payload p)"
  have ld: "length ?d = ?n" using assms by (simp add: jp_wf_def)
  have b: "?b = w32le JITTER_MAGIC @ w32le (jp_seq_num p) @ w32le (jp_rtp_ts p) @ w64le (jp_capture_us p)
     @ w16le (jp_payload_len p) @ jp_payload_type p # jp_flags p # ?d @ rest" by (simp add: jp_bytes_def)
  have len: "length ?b = 24 + ?n + length rest" unfolding b using ld by simp
  have rd: "r32le ?b 0 = JITTER_MAGIC" "r32le ?b 4 = jp_seq_num p" "r32le ?b 8 = jp_rtp_ts p" "r64le ?b 12 = jp_capture_us p"
    "r16le ?b 20 = jp_payload_len p"
    unfolding b by (simp_all add: wire_simps)
  have by2: "?b ! 22 = jp_payload_type p" "?b ! 23 = jp_flags p"
    unfolding b by (simp_all add: nth_append)
  have pl: "take ?n (drop 24 ?b) = ?d" unfolding b using ld by simp
  have "overwrite ?d (replicate JITTER_MAX_PAYLOAD 0) = jp_payload p"
    using assms ld by (simp add: overwrite_def jp_wf_def) (metis append_take_drop_id)
  then show ?thesis using len rd by2 pl assms
    by (simp add: jp_read_def JITTER_PKT_HDR_SIZE_def Let_def jp_wf_def)
qed

interpretation jitter: codec jp_wf jp_bytes jp_dec
  by unfold_locales (simp add: jp_dec_def jp_decode_bytes del: jitter_packet_decode.simps)

section \<open>The buffer\<close>

record jitter_buffer =
  jb_pkts :: "jitter_packet list"
  jb_count :: nat
  jb_playout_delay_us :: u64

definition jp_zero :: jitter_packet where
  "jp_zero = \<lparr>jp_seq_num = 0, jp_rtp_ts = 0, jp_capture_us = 0, jp_payload_len = 0, jp_payload_type = 0, jp_flags = 0,
     jp_payload = replicate JITTER_MAX_PAYLOAD 0\<rparr>"

definition jitter_buffer_create :: "bool \<Rightarrow> u64 \<Rightarrow> jitter_buffer option" where
  "jitter_buffer_create mem playout_delay_us = (if mem then
     Some \<lparr>jb_pkts = replicate JITTER_BUF_CAPACITY jp_zero, jb_count = 0, jb_playout_delay_us = playout_delay_us\<rparr> else None)"

definition jitter_buffer_count :: "jitter_buffer option \<Rightarrow> nat" where
  "jitter_buffer_count b = (case b of None \<Rightarrow> 0 | Some b \<Rightarrow> jb_count b)"

definition jitter_buffer_is_empty :: "jitter_buffer option \<Rightarrow> bool" where
  "jitter_buffer_is_empty b = (case b of None \<Rightarrow> True | Some b \<Rightarrow> jb_count b = 0)"

definition jitter_buffer_flush :: "jitter_buffer option \<Rightarrow> jitter_buffer option" where
  "jitter_buffer_flush b = map_option (\<lambda>b. b\<lparr>jb_count := 0\<rparr>) b"

text \<open>\<open>memmove(&xs[dst], &xs[src], n * sizeof)\<close>.\<close>

definition memmove :: "nat \<Rightarrow> nat \<Rightarrow> nat \<Rightarrow> 'a list \<Rightarrow> 'a list" where
  "memmove dst src n xs = write_at dst (take n (drop src xs)) xs"

definition jb_drop_first :: "jitter_buffer \<Rightarrow> jitter_buffer" where
  "jb_drop_first b = b\<lparr>jb_pkts := memmove 0 1 (JITTER_BUF_CAPACITY - 1) (jb_pkts b), jb_count := jb_count b - 1\<rparr>"

fun jitter_buffer_push :: "jitter_buffer option \<Rightarrow> jitter_packet option \<Rightarrow> int \<times> jitter_buffer option" where
  "jitter_buffer_push (Some b) (Some pkt) =
     (let b = (if jb_count b \<ge> JITTER_BUF_CAPACITY then jb_drop_first b else b);
          ins = (case first_idx (\<lambda>q. jitter_packet_before (jp_seq_num pkt) (jp_seq_num q)) (take (jb_count b) (jb_pkts b)) of
                   None \<Rightarrow> jb_count b | Some i \<Rightarrow> i);
          pkts = (if ins < jb_count b then memmove (ins + 1) ins (jb_count b - ins) (jb_pkts b) else jb_pkts b)
      in (0, Some (b\<lparr>jb_pkts := pkts[ins := pkt], jb_count := jb_count b + 1\<rparr>)))"
| "jitter_buffer_push b _ = (-1, b)"

fun jitter_buffer_peek :: "jitter_buffer option \<Rightarrow> jitter_packet option \<Rightarrow> int \<times> jitter_packet option" where
  "jitter_buffer_peek (Some b) (Some out) = (if jb_count b = 0 then (-1, Some out) else (0, Some (jb_pkts b ! 0)))"
| "jitter_buffer_peek b out = (-1, out)"

definition jb_late :: "u64 \<Rightarrow> u64 \<Rightarrow> jitter_packet \<Rightarrow> jitter_packet" where
  "jb_late now delay p = (if now > jp_capture_us p + delay + delay then p\<lparr>jp_flags := jp_flags p OR JITTER_FLAG_LATE\<rparr> else p)"

fun jitter_buffer_pop :: "jitter_buffer option \<Rightarrow> u64 \<Rightarrow> jitter_packet option \<Rightarrow> int \<times> jitter_buffer option \<times> jitter_packet option" where
  "jitter_buffer_pop (Some b) now_us (Some out) =
     (if jb_count b = 0 then (-1, Some b, Some out)
      else let oldest = jb_pkts b ! 0; playout_time = jp_capture_us oldest + jb_playout_delay_us b in
        if now_us < playout_time then (-1, Some b, Some out)
        else (0, Some (b\<lparr>jb_pkts := memmove 0 1 (jb_count b - 1) (jb_pkts b), jb_count := jb_count b - 1\<rparr>),
              Some (jb_late now_us (jb_playout_delay_us b) oldest)))"
| "jitter_buffer_pop b now_us out = (-1, b, out)"

section \<open>The buffer is a list sorted by serial number\<close>

text \<open>Serial numbers are compared in a window of \<open>2\<^sup>3\<^sup>1\<close> from some base; there the comparison is an order.\<close>

definition jb_key :: "u32 \<Rightarrow> jitter_packet \<Rightarrow> nat" where
  "jb_key base p = unat (jp_seq_num p - base)"

definition jb_window :: "u32 \<Rightarrow> jitter_packet \<Rightarrow> bool" where
  "jb_window base p \<longleftrightarrow> jp_seq_num p - base < 0x80000000"

lemma serial_order:
  fixes x y :: u32
  assumes "x < 0x80000000" and "y < 0x80000000"
  shows "x \<noteq> y \<and> y - x < 0x80000000 \<longleftrightarrow> x < y"
proof -
  have "unat (y - x) = (if unat x \<le> unat y then unat y - unat x else unat y + 2 ^ 32 - unat x)"
    using unat_sub_if' [of y x] by simp
  then show ?thesis using assms by (auto simp: word_less_nat_alt word_unat_eq_iff)
qed

lemma jitter_before_key:
  assumes "jb_window base p" and "jb_window base q"
  shows "jitter_packet_before (jp_seq_num p) (jp_seq_num q) \<longleftrightarrow> jb_key base p < jb_key base q"
  using serial_order [of "jp_seq_num p - base" "jp_seq_num q - base"] assms
  by (simp add: jitter_packet_before_def jb_key_def jb_window_def word_less_nat_alt)

definition jb_live :: "jitter_buffer \<Rightarrow> jitter_packet list" where
  "jb_live b = take (jb_count b) (jb_pkts b)"

definition jb_ok :: "jitter_buffer \<Rightarrow> bool" where
  "jb_ok b \<longleftrightarrow> length (jb_pkts b) = JITTER_BUF_CAPACITY \<and> jb_count b \<le> JITTER_BUF_CAPACITY"

text \<open>Insertion after the packets that are not later.\<close>

definition insert_after :: "('a \<Rightarrow> nat) \<Rightarrow> 'a \<Rightarrow> 'a list \<Rightarrow> 'a list" where
  "insert_after f x xs = takeWhile (\<lambda>y. f y \<le> f x) xs @ x # dropWhile (\<lambda>y. f y \<le> f x) xs"

lemma memmove_down: "n < length xs \<Longrightarrow> take n (memmove 0 1 n xs) = take n (drop 1 xs)"
  by (simp add: memmove_def write_at_def)

lemma length_memmove [simp]: "dst + n \<le> length xs \<Longrightarrow> src + n \<le> length xs \<Longrightarrow> length (memmove dst src n xs) = length xs"
  by (simp add: memmove_def)

lemma first_idx_takeWhile:
  "(case first_idx P xs of None \<Rightarrow> length xs | Some i \<Rightarrow> i) = length (takeWhile (\<lambda>x. \<not> P x) xs)"
  by (induction xs) (auto split: option.splits)

lemma insert_slot:
  assumes "i \<le> n" and "n < length xs"
  shows "take (Suc n) ((if i < n then memmove (i + 1) i (n - i) xs else xs)[i := x]) = take i xs @ x # drop i (take n xs)"
proof (cases "i < n")
  case True
  then have "take (Suc n) (memmove (i + 1) i (n - i) xs) = take (Suc i) xs @ take (n - i) (drop i xs)"
    using assms by (simp add: memmove_def write_at_def Suc_diff_le min_def)
  moreover have "length (take (Suc i) xs) = Suc i" using True assms by simp
  ultimately show ?thesis using True assms
    by (simp add: take_update_swap list_update_append take_Suc_conv_app_nth drop_take)
next
  case False
  then show ?thesis using assms by (simp add: take_Suc_conv_app_nth list_update_append)
qed

lemma jb_push_live:
  assumes ok: "jb_ok b" and w: "jb_window base p" "\<forall>q \<in> set (jb_live b). jb_window base q"
  defines "l \<equiv> if jb_count b = JITTER_BUF_CAPACITY then tl (jb_live b) else jb_live b"
  shows "\<exists>b'. jitter_buffer_push (Some b) (Some p) = (0, Some b') \<and> jb_ok b' \<and> jb_live b' = insert_after (jb_key base) p l
    \<and> jb_playout_delay_us b' = jb_playout_delay_us b"
proof -
  define b1 where "b1 = (if jb_count b \<ge> JITTER_BUF_CAPACITY then jb_drop_first b else b)"
  have cap: "0 < JITTER_BUF_CAPACITY" by (simp add: JITTER_BUF_CAPACITY_def)
  have full: "jb_count b \<ge> JITTER_BUF_CAPACITY \<longleftrightarrow> jb_count b = JITTER_BUF_CAPACITY" using ok by (auto simp: jb_ok_def)
  have b1: "length (jb_pkts b1) = JITTER_BUF_CAPACITY" "jb_count b1 < JITTER_BUF_CAPACITY" "jb_live b1 = l"
    "jb_playout_delay_us b1 = jb_playout_delay_us b"
    using ok cap memmove_down [of "JITTER_BUF_CAPACITY - 1" "jb_pkts b"]
    by (auto simp: b1_def full jb_drop_first_def jb_ok_def jb_live_def l_def drop_Suc take_tl)
  let ?P = "\<lambda>q. jitter_packet_before (jp_seq_num p) (jp_seq_num q)"
  define i where "i = (case first_idx ?P (jb_live b1) of None \<Rightarrow> jb_count b1 | Some i \<Rightarrow> i)"
  have len: "length (jb_live b1) = jb_count b1" using b1(1,2) by (simp add: jb_live_def)
  have i: "i = length (takeWhile (\<lambda>q. \<not> ?P q) l)" 
    using first_idx_takeWhile [where P = ?P and xs = "jb_live b1"] unfolding i_def len [symmetric] b1(3) .
  have "set l \<subseteq> set (jb_live b)" using list.set_sel(2) [of "jb_live b"] by (cases "jb_live b") (auto simp: l_def)
  then have "\<not> ?P q \<longleftrightarrow> jb_key base q \<le> jb_key base p" if "q \<in> set l" for q
    using that w jitter_before_key [OF w(1), of q] by auto
  then have tw: "takeWhile (\<lambda>q. \<not> ?P q) l = takeWhile (\<lambda>q. jb_key base q \<le> jb_key base p) l" by (rule takeWhile_cong [OF refl])
  have split: "take i l = takeWhile (\<lambda>q. jb_key base q \<le> jb_key base p) l" "drop i l = dropWhile (\<lambda>q. jb_key base q \<le> jb_key base p) l"
    unfolding i tw by (simp_all add: takeWhile_eq_take [symmetric] dropWhile_eq_drop [symmetric])
  have "i \<le> jb_count b1" using len b1(3) unfolding i by (metis length_takeWhile_le)
  note ins = insert_slot [OF this, of "jb_pkts b1" p]
  let ?b = "b1\<lparr>jb_pkts := (if i < jb_count b1 then memmove (i + 1) i (jb_count b1 - i) (jb_pkts b1) else jb_pkts b1)[i := p],
     jb_count := jb_count b1 + 1\<rparr>"
  have push: "jitter_buffer_push (Some b) (Some p) = (0, Some ?b)"
    by (simp add: Let_def i_def jb_live_def flip: b1_def)
  have "jb_live ?b = take i (jb_pkts b1) @ p # drop i (take (jb_count b1) (jb_pkts b1))"
    using ins b1(1,2) by (simp add: jb_live_def)
  moreover have "take i (jb_pkts b1) = take i l" using b1(3) \<open>i \<le> jb_count b1\<close> by (simp add: jb_live_def min_def flip: b1(3))
  ultimately have "jb_live ?b = insert_after (jb_key base) p l"
    using b1(3) split by (simp add: insert_after_def jb_live_def)
  moreover have "jb_ok ?b" using b1(1,2) \<open>i \<le> jb_count b1\<close> by (simp add: jb_ok_def)
  ultimately show ?thesis using push b1(4) by (intro exI [of _ ?b]) simp
qed

lemma jb_pop_live:
  assumes ok: "jb_ok b"
  shows "jitter_buffer_pop (Some b) now (Some out) = (case jb_live b of
      [] \<Rightarrow> (-1, Some b, Some out)
    | p # l \<Rightarrow> if now < jp_capture_us p + jb_playout_delay_us b then (-1, Some b, Some out)
        else (0, Some (b\<lparr>jb_pkts := memmove 0 1 (jb_count b - 1) (jb_pkts b), jb_count := jb_count b - 1\<rparr>),
              Some (jb_late now (jb_playout_delay_us b) p)))"
    and "jb_live b = p # l \<Longrightarrow> jb_ok (b\<lparr>jb_pkts := memmove 0 1 (jb_count b - 1) (jb_pkts b), jb_count := jb_count b - 1\<rparr>)
      \<and> jb_live (b\<lparr>jb_pkts := memmove 0 1 (jb_count b - 1) (jb_pkts b), jb_count := jb_count b - 1\<rparr>) = l"
proof -
  have c: "jb_count b = length (jb_live b)" using ok by (simp add: jb_ok_def jb_live_def)
  have h: "jb_pkts b ! 0 = p" if "jb_live b = p # l" for p l
    using that c by (metis jb_live_def length_Cons nth_Cons_0 nth_take zero_less_Suc)
  show "jitter_buffer_pop (Some b) now (Some out) = (case jb_live b of
      [] \<Rightarrow> (-1, Some b, Some out)
    | p # l \<Rightarrow> if now < jp_capture_us p + jb_playout_delay_us b then (-1, Some b, Some out)
        else (0, Some (b\<lparr>jb_pkts := memmove 0 1 (jb_count b - 1) (jb_pkts b), jb_count := jb_count b - 1\<rparr>),
              Some (jb_late now (jb_playout_delay_us b) p)))"
    using c h by (cases "jb_live b") (simp_all add: Let_def)
  assume l: "jb_live b = p # l"
  then have n: "jb_count b = Suc (length l)" using c by simp
  have "length l < length (jb_pkts b)" using ok n by (simp add: jb_ok_def)
  moreover have "take (length l) (drop 1 (jb_pkts b)) = l"
    using l unfolding jb_live_def n by (cases "jb_pkts b") auto
  ultimately show "jb_ok (b\<lparr>jb_pkts := memmove 0 1 (jb_count b - 1) (jb_pkts b), jb_count := jb_count b - 1\<rparr>)
      \<and> jb_live (b\<lparr>jb_pkts := memmove 0 1 (jb_count b - 1) (jb_pkts b), jb_count := jb_count b - 1\<rparr>) = l"
    using ok memmove_down [of "length l" "jb_pkts b"] by (simp add: jb_ok_def jb_live_def n)
qed

text \<open>The specification: a list of at most 256 packets, ordered by distance from the base of the window.\<close>

datatype jb_op = JbPush jitter_packet | JbPop u64 | JbFlush

fun jb_call :: "jb_op \<Rightarrow> jitter_buffer option \<Rightarrow> (int \<times> jitter_packet option) \<times> jitter_buffer option" where
  "jb_call (JbPush p) b = (case jitter_buffer_push b (Some p) of (r, b') \<Rightarrow> ((r, None), b'))"
| "jb_call (JbPop now) b = (case jitter_buffer_pop b now (Some jp_zero) of
     (r, b', out) \<Rightarrow> ((r, if r = 0 then out else None), b'))"
| "jb_call JbFlush b = ((0, None), jitter_buffer_flush b)"

fun jb_spec :: "u32 \<Rightarrow> u64 \<Rightarrow> jb_op \<Rightarrow> jitter_packet list \<Rightarrow> (int \<times> jitter_packet option) \<times> jitter_packet list" where
  "jb_spec base delay (JbPush p) l =
     ((0, None), insert_after (jb_key base) p (if length l = JITTER_BUF_CAPACITY then tl l else l))"
| "jb_spec base delay (JbPop now) [] = ((-1, None), [])"
| "jb_spec base delay (JbPop now) (p # l) =
     (if now < jp_capture_us p + delay then ((-1, None), p # l) else ((0, Some (jb_late now delay p)), l))"
| "jb_spec base delay JbFlush l = ((0, None), [])"

definition jb_rel :: "u32 \<Rightarrow> u64 \<Rightarrow> jitter_buffer option \<Rightarrow> jitter_packet list \<Rightarrow> bool" where
  "jb_rel base delay m l \<longleftrightarrow> (\<exists>b. m = Some b \<and> jb_ok b \<and> jb_live b = l \<and> jb_playout_delay_us b = delay)
     \<and> sorted (map (jb_key base) l) \<and> (\<forall>p \<in> set l. jb_window base p)"

fun jb_allowed :: "u32 \<Rightarrow> jb_op \<Rightarrow> bool" where
  "jb_allowed base (JbPush p) = jb_window base p"
| "jb_allowed base _ = True"

lemma set_insert_after [simp]: "set (insert_after f x xs) = insert x (set xs)"
proof -
  have "set xs = set (takeWhile (\<lambda>y. f y \<le> f x) xs) \<union> set (dropWhile (\<lambda>y. f y \<le> f x) xs)"
    by (metis set_append takeWhile_dropWhile_id)
  then show ?thesis by (auto simp: insert_after_def)
qed

lemma sorted_insert_after: "sorted (map f xs) \<Longrightarrow> sorted (map f (insert_after f x xs))"
proof (induction xs)
  case (Cons y xs)
  then show ?case
  proof (cases "f y \<le> f x")
    case True
    then have "insert_after f x (y # xs) = y # insert_after f x xs" by (simp add: insert_after_def)
    with Cons True show ?thesis by auto
  next
    case False
    with Cons.prems show ?thesis by (auto simp: insert_after_def)
  qed
qed (simp add: insert_after_def)

lemma jb_call_rel:
  assumes "jb_rel base delay m l" and "jb_allowed base op"
  shows "fst (jb_call op m) = fst (jb_spec base delay op l) \<and> jb_rel base delay (snd (jb_call op m)) (snd (jb_spec base delay op l))"
proof -
  from assms(1) obtain b where b: "m = Some b" "jb_ok b" "jb_live b = l" "jb_playout_delay_us b = delay"
    and l: "sorted (map (jb_key base) l)" "\<forall>p \<in> set l. jb_window base p" by (auto simp: jb_rel_def)
  have len: "length l = jb_count b" using b by (auto simp: jb_ok_def jb_live_def)
  show ?thesis
  proof (cases op)
    case (JbPush p)
    then have w: "jb_window base p" using assms(2) by simp
    let ?l = "if length l = JITTER_BUF_CAPACITY then tl l else l"
    have "sorted (map (jb_key base) ?l)" "\<forall>p \<in> set ?l. jb_window base p"
      using l by (auto simp: sorted_tl map_tl dest: list.set_sel(2) [rotated]) (metis list.sel(2) list.set_sel(2))
    with jb_push_live [OF b(2) w] b l w sorted_insert_after [of "jb_key base" ?l p] show ?thesis
      by (auto simp: JbPush jb_rel_def len simp del: jitter_buffer_push.simps)
  next
    case (JbPop now)
    show ?thesis
    proof (cases l)
      case Nil
      then show ?thesis using jb_pop_live(1) [OF b(2), of now jp_zero] b assms(1)
        by (simp add: JbPop del: jitter_buffer_pop.simps)
    next
      case (Cons p l')
      with jb_pop_live [OF b(2)] b l assms(1) show ?thesis
        by (auto simp: JbPop jb_rel_def simp del: jitter_buffer_pop.simps)
    qed
  next
    case JbFlush
    then show ?thesis using b by (simp add: jitter_buffer_flush_def jb_rel_def jb_ok_def jb_live_def)
  qed
qed

interpretation jbs: simulation jb_call "jb_spec base delay" "jb_rel base delay" "jb_allowed base" for base delay
  by unfold_locales (rule jb_call_rel)

lemma jb_create_rel: "jb_rel base delay (jitter_buffer_create True delay) []"
  by (simp add: jitter_buffer_create_def jb_rel_def jb_ok_def jb_live_def)

text \<open>C13: Under any pushes, pops and flushes with serial numbers in a window of half the number space (wrapping
  included) the buffer answers as a list of at most 256 packets in serial order: a pop returns the earliest packet once it is due,
  flagged when it is late, a push into a full buffer drops the earliest, and packets with one serial
  number keep the order of arrival.\<close>

theorem jitter_plays_in_order:
  assumes "\<forall>op \<in> set ops. jb_allowed base op"
  shows "\<exists>b. run_calls jb_call ops (jitter_buffer_create True delay) = (fst (run_calls (jb_spec base delay) ops []), Some b)
    \<and> jb_live b = snd (run_calls (jb_spec base delay) ops [])
    \<and> sorted (map (jb_key base) (jb_live b))
    \<and> jitter_buffer_count (Some b) = length (jb_live b) \<and> length (jb_live b) \<le> JITTER_BUF_CAPACITY"
proof -
  from jbs.run [OF jb_create_rel assms] obtain b where
    b: "run_calls jb_call ops (jitter_buffer_create True delay) = (fst (run_calls (jb_spec base delay) ops []), Some b)"
      "jb_live b = snd (run_calls (jb_spec base delay) ops [])" "sorted (map (jb_key base) (jb_live b))" "jb_ok b"
    unfolding jb_rel_def by (metis prod.collapse)
  then show ?thesis by (auto simp: jitter_buffer_count_def jb_ok_def jb_live_def)
qed

lemma jitter_plays_in_order_witness:
  "\<exists>b. run_calls jb_call [JbPush (jp_zero\<lparr>jp_seq_num := 1\<rparr>), JbPush (jp_zero\<lparr>jp_seq_num := - 1\<rparr>), JbPop 20]
      (jitter_buffer_create True 20)
    = ([(0, None), (0, None), (0, Some (jp_zero\<lparr>jp_seq_num := - 1\<rparr>))], Some b)
    \<and> jb_live b = [jp_zero\<lparr>jp_seq_num := 1\<rparr>]"
  using jitter_plays_in_order [of "[JbPush (jp_zero\<lparr>jp_seq_num := 1\<rparr>), JbPush (jp_zero\<lparr>jp_seq_num := - 1\<rparr>), JbPop 20]" "- 5" 20]
  by (auto simp: jb_window_def insert_after_def jb_key_def JITTER_BUF_CAPACITY_def jb_late_def jp_zero_def
      simp del: jb_call.simps)

end
