(* ===== verification/Keyframe.thy ===== *)
theory Keyframe
  imports Wire Slots
begin

text \<open>
  Key-frame requests: \<^verbatim>\<open>src/src/keyframe\<close>.  The message format (\<^verbatim>\<open>kfr_message.c\<close>) and the handler that lets one
  request per source through in a cooldown interval (\<^verbatim>\<open>kfr_handler.c\<close>).  The statistics
  (\<^verbatim>\<open>kfr_stats.c\<close>) are floating-point rates and not modelled.
\<close>

definition KFR_MSG_MAGIC :: u32 where "KFR_MSG_MAGIC = 0x4B465251"
definition KFR_MSG_SIZE :: nat where "KFR_MSG_SIZE = 24"
definition KFR_TYPE_PLI :: u32 where "KFR_TYPE_PLI = 1"
definition KFR_TYPE_FIR :: u32 where "KFR_TYPE_FIR = 2"
definition KFR_MAX_SSRC :: nat where "KFR_MAX_SSRC = 64"

record kfr_message =
  km_type :: u32
  km_priority :: u8
  km_seq :: u16
  km_ssrc :: u32
  km_timestamp_us :: u64

section \<open>Messages\<close>

definition km_bytes :: "kfr_message \<Rightarrow> u8 list" where
  "km_bytes m = w32le KFR_MSG_MAGIC @ [ucast (km_type m), km_priority m] @ w16le (km_seq m) @ w32le (km_ssrc m)
     @ w64le (km_timestamp_us m) @ w32le 0"

fun kfr_message_encode :: "kfr_message option \<Rightarrow> u8 list option \<Rightarrow> int \<times> u8 list option" where
  "kfr_message_encode (Some m) (Some buf) =
     (if length buf < KFR_MSG_SIZE then (-1, Some buf)
      else if km_type m \<noteq> KFR_TYPE_PLI \<and> km_type m \<noteq> KFR_TYPE_FIR then (-1, Some buf)
      else (int KFR_MSG_SIZE, Some (overwrite (km_bytes m) buf)))"
| "kfr_message_encode _ buf = (-1, buf)"

fun kfr_message_decode :: "u8 list option \<Rightarrow> kfr_message option \<Rightarrow> int \<times> kfr_message option" where
  "kfr_message_decode (Some buf) (Some msg) =
     (if length buf < KFR_MSG_SIZE then (-1, Some msg)
      else if r32le buf 0 \<noteq> KFR_MSG_MAGIC then (-1, Some msg)
      else let m = \<lparr>km_type = ucast (buf ! 4), km_priority = buf ! 5, km_seq = r16le buf 6, km_ssrc = r32le buf 8,
                    km_timestamp_us = r64le buf 12\<rparr> in
        if km_type m \<noteq> KFR_TYPE_PLI \<and> km_type m \<noteq> KFR_TYPE_FIR then (-1, Some m) else (0, Some m))"
| "kfr_message_decode _ msg = (-1, msg)"

definition kfr_type_name :: "u32 \<Rightarrow> string" where
  "kfr_type_name t = (if t = KFR_TYPE_PLI then ''PLI'' else if t = KFR_TYPE_FIR then ''FIR'' else ''UNKNOWN'')"

definition km_wf :: "kfr_message \<Rightarrow> bool" where
  "km_wf m \<longleftrightarrow> km_type m = KFR_TYPE_PLI \<or> km_type m = KFR_TYPE_FIR"

definition km_dec :: "u8 list \<Rightarrow> kfr_message option" where
  "km_dec b = (case kfr_message_decode (Some b) (Some \<lparr>km_type = 0, km_priority = 0, km_seq = 0, km_ssrc = 0, km_timestamp_us = 0\<rparr>)
     of (r, m) \<Rightarrow> if r = 0 then m else None)"

lemma km_decode_bytes:
  assumes "km_wf m"
  shows "kfr_message_decode (Some (km_bytes m @ rest)) (Some x) = (0, Some m)"
proof -
  let ?b = "km_bytes m @ rest"
  have b: "?b = w32le KFR_MSG_MAGIC @ ucast (km_type m) # km_priority m # w16le (km_seq m) @ w32le (km_ssrc m)
     @ w64le (km_timestamp_us m) @ w32le 0 @ rest" by (simp add: km_bytes_def)
  have len: "length ?b = 24 + length rest" unfolding b by simp
  have rd: "r32le ?b 0 = KFR_MSG_MAGIC" "r16le ?b 6 = km_seq m" "r32le ?b 8 = km_ssrc m" "r64le ?b 12 = km_timestamp_us m"
    unfolding b by (simp_all add: wire_simps)
  have "?b ! 4 = ucast (km_type m)" "?b ! 5 = km_priority m" unfolding b by (simp_all add: nth_append)
  moreover have "ucast (ucast (km_type m) :: u8) = km_type m"
    using assms by (auto simp: km_wf_def KFR_TYPE_PLI_def KFR_TYPE_FIR_def)
  ultimately show ?thesis using assms len rd by (auto simp: km_wf_def KFR_MSG_SIZE_def Let_def)
qed

interpretation kfr: codec km_wf km_bytes km_dec
  by unfold_locales (simp add: km_dec_def km_decode_bytes del: kfr_message_decode.simps)

section \<open>The handler\<close>

record kfr_ssrc_entry =
  kse_ssrc :: u32
  kse_last_forward_us :: u64
  kse_valid :: bool
  kse_has_forwarded :: bool

record kfr_handler =
  kh_entries :: "kfr_ssrc_entry list"
  kh_cooldown_us :: u64

datatype kfr_decision = KFR_DECISION_FORWARD | KFR_DECISION_SUPPRESS

definition kfr_handler_create :: "bool \<Rightarrow> u64 \<Rightarrow> kfr_handler option" where
  "kfr_handler_create mem cooldown_us = (if mem then
     Some \<lparr>kh_entries = replicate KFR_MAX_SSRC \<lparr>kse_ssrc = 0, kse_last_forward_us = 0, kse_valid = False, kse_has_forwarded = False\<rparr>,
           kh_cooldown_us = cooldown_us\<rparr> else None)"

fun kfr_handler_set_cooldown :: "kfr_handler option \<Rightarrow> u64 \<Rightarrow> int \<times> kfr_handler option" where
  "kfr_handler_set_cooldown None cooldown_us = (-1, None)"
| "kfr_handler_set_cooldown (Some h) cooldown_us = (0, Some (h\<lparr>kh_cooldown_us := cooldown_us\<rparr>))"

definition kfr_find_or_alloc :: "kfr_handler \<Rightarrow> u32 \<Rightarrow> nat option \<times> kfr_handler" where
  "kfr_find_or_alloc h ssrc =
     (case first_idx (\<lambda>e. kse_valid e \<and> kse_ssrc e = ssrc) (kh_entries h) of
        Some i \<Rightarrow> (Some i, h)
      | None \<Rightarrow> (case first_idx (\<lambda>e. \<not> kse_valid e) (kh_entries h) of
            None \<Rightarrow> (None, h)
          | Some i \<Rightarrow> (Some i, h\<lparr>kh_entries := (kh_entries h)[i :=
              (kh_entries h ! i)\<lparr>kse_ssrc := ssrc, kse_last_forward_us := 0, kse_valid := True\<rparr>]\<rparr>)))"

fun kfr_handler_submit :: "kfr_handler option \<Rightarrow> kfr_message option \<Rightarrow> u64 \<Rightarrow> kfr_decision \<times> kfr_handler option" where
  "kfr_handler_submit (Some h) (Some msg) now_us =
     (case kfr_find_or_alloc h (km_ssrc msg) of
        (None, h) \<Rightarrow> (KFR_DECISION_SUPPRESS, Some h)
      | (Some i, h) \<Rightarrow> let e = kh_entries h ! i in
          if km_priority msg > 0 \<or> \<not> kse_has_forwarded e \<or> now_us - kse_last_forward_us e \<ge> kh_cooldown_us h
          then (KFR_DECISION_FORWARD, Some (h\<lparr>kh_entries := (kh_entries h)[i :=
                 e\<lparr>kse_last_forward_us := now_us, kse_has_forwarded := True\<rparr>]\<rparr>))
          else (KFR_DECISION_SUPPRESS, Some h))"
| "kfr_handler_submit h msg now_us = (KFR_DECISION_SUPPRESS, h)"

definition kfr_handler_flush_ssrc :: "kfr_handler option \<Rightarrow> u32 \<Rightarrow> kfr_handler option" where
  "kfr_handler_flush_ssrc h ssrc = map_option (\<lambda>h.
     case first_idx (\<lambda>e. kse_valid e \<and> kse_ssrc e = ssrc) (kh_entries h) of
       None \<Rightarrow> h
     | Some i \<Rightarrow> h\<lparr>kh_entries := (kh_entries h)[i :=
         (kh_entries h ! i)\<lparr>kse_last_forward_us := 0, kse_has_forwarded := False\<rparr>]\<rparr>) h"

definition kfr_decision_name :: "kfr_decision \<Rightarrow> string" where
  "kfr_decision_name d = (case d of KFR_DECISION_FORWARD \<Rightarrow> ''FORWARD'' | KFR_DECISION_SUPPRESS \<Rightarrow> ''SUPPRESS'')"

section \<open>The specification: when each source was last let through\<close>

datatype kfr_op = KfrSubmit kfr_message u64 | KfrFlush u32 | KfrCooldown u64

fun kfr_call :: "kfr_op \<Rightarrow> kfr_handler option \<Rightarrow> kfr_decision option \<times> kfr_handler option" where
  "kfr_call (KfrSubmit m now) h = (case kfr_handler_submit h (Some m) now of (d, h') \<Rightarrow> (Some d, h'))"
| "kfr_call (KfrFlush s) h = (None, kfr_handler_flush_ssrc h s)"
| "kfr_call (KfrCooldown c) h = (None, snd (kfr_handler_set_cooldown h c))"

text \<open>A source that is known has the time it was last let through, or None if it was flushed.\<close>

type_synonym kfr_abs = "(u32 \<rightharpoonup> u64 option) \<times> u64"

fun kfr_spec :: "kfr_op \<Rightarrow> kfr_abs \<Rightarrow> kfr_decision option \<times> kfr_abs" where
  "kfr_spec (KfrSubmit m now) (seen, cooldown) =
     (if seen (km_ssrc m) = None \<and> card (dom seen) = KFR_MAX_SSRC then (Some KFR_DECISION_SUPPRESS, seen, cooldown)
      else case seen (km_ssrc m) of
        Some (Some t) \<Rightarrow>
          if km_priority m > 0 \<or> now - t \<ge> cooldown then (Some KFR_DECISION_FORWARD, seen(km_ssrc m \<mapsto> Some now), cooldown)
          else (Some KFR_DECISION_SUPPRESS, seen, cooldown)
      | _ \<Rightarrow> (Some KFR_DECISION_FORWARD, seen(km_ssrc m \<mapsto> Some now), cooldown))"
| "kfr_spec (KfrFlush s) (seen, cooldown) = (None, if seen s = None then seen else seen(s \<mapsto> None), cooldown)"
| "kfr_spec (KfrCooldown c) (seen, cooldown) = (None, seen, c)"

definition kse_time :: "kfr_ssrc_entry \<Rightarrow> u64 option" where
  "kse_time e = (if kse_has_forwarded e then Some (kse_last_forward_us e) else None)"

abbreviation kh_assoc :: "kfr_ssrc_entry list \<Rightarrow> (u32 \<times> u64 option) list" where
  "kh_assoc \<equiv> slot_assoc kse_valid kse_ssrc kse_time"

definition kh_rel :: "kfr_handler option \<Rightarrow> kfr_abs \<Rightarrow> bool" where
  "kh_rel m t \<longleftrightarrow> (\<exists>h. m = Some h \<and> length (kh_entries h) = KFR_MAX_SSRC \<and> distinct (map fst (kh_assoc (kh_entries h)))
     \<and> (\<forall>e \<in> set (kh_entries h). \<not> kse_valid e \<longrightarrow> \<not> kse_has_forwarded e)
     \<and> t = (map_of (kh_assoc (kh_entries h)), kh_cooldown_us h))"

lemma kh_upd:
  assumes "kh_rel (Some h) (seen, c)" and "first_idx (\<lambda>e. kse_valid e \<and> kse_ssrc e = s) (kh_entries h) = Some i"
    and "kse_valid v" and "kse_ssrc v = s"
  shows "kh_rel (Some (h\<lparr>kh_entries := (kh_entries h)[i := v]\<rparr>)) (seen(s \<mapsto> kse_time v), c)"
    and "seen s = Some (kse_time (kh_entries h ! i))"
  using slot_assoc_update [OF assms(2-4), of kse_time] slot_assoc_lookup [of kse_valid kse_ssrc kse_time "kh_entries h" s] assms
  by (auto simp: kh_rel_def dest!: set_update_subset_insert [THEN subsetD])

lemma kh_fill:
  assumes "kh_rel (Some h) (seen, c)" and "first_idx (\<lambda>e. \<not> kse_valid e) (kh_entries h) = Some i"
    and "seen s = None" and "kse_valid v" and "kse_ssrc v = s"
  shows "kh_rel (Some (h\<lparr>kh_entries := (kh_entries h)[i := v]\<rparr>)) (seen(s \<mapsto> kse_time v), c)"
  using slot_assoc_fill [OF assms(2,4), of kse_ssrc kse_time] assms
  by (auto simp: kh_rel_def dest!: set_update_subset_insert [THEN subsetD])

lemma kh_full:
  assumes "kh_rel (Some h) (seen, c)"
  shows "first_idx (\<lambda>e. \<not> kse_valid e) (kh_entries h) = None \<longleftrightarrow> card (dom seen) = KFR_MAX_SSRC"
  using assms slot_assoc_card [of kse_valid kse_ssrc kse_time "kh_entries h"] count_if_full [of kse_valid "kh_entries h"]
  by (auto simp: kh_rel_def first_idx_None)

lemma kh_find:
  assumes "kh_rel (Some h) (seen, c)"
  shows "first_idx (\<lambda>e. kse_valid e \<and> kse_ssrc e = s) (kh_entries h) = None \<longleftrightarrow> seen s = None"
  using assms slot_assoc_lookup [of kse_valid kse_ssrc kse_time "kh_entries h" s] by (auto simp: kh_rel_def)

lemma kfr_submit_known:
  assumes r: "kh_rel (Some h) (seen, c)" and i: "first_idx (\<lambda>e. kse_valid e \<and> kse_ssrc e = km_ssrc m) (kh_entries h) = Some i"
  shows "fst (kfr_call (KfrSubmit m now) (Some h)) = fst (kfr_spec (KfrSubmit m now) (seen, c))
    \<and> kh_rel (snd (kfr_call (KfrSubmit m now) (Some h))) (snd (kfr_spec (KfrSubmit m now) (seen, c)))"
proof -
  let ?e = "kh_entries h ! i"
  let ?v = "?e\<lparr>kse_last_forward_us := now, kse_has_forwarded := True\<rparr>"
  have e: "kse_valid ?e" "kse_ssrc ?e = km_ssrc m" using first_idx_holds [OF i] by simp_all
  have v: "kh_rel (Some (h\<lparr>kh_entries := (kh_entries h)[i := ?v]\<rparr>)) (seen(km_ssrc m \<mapsto> Some now), c)"
    using kh_upd(1) [OF r i, of ?v] e by (simp add: kse_time_def)
  have t: "seen (km_ssrc m) = Some (kse_time ?e)" by (rule kh_upd(2) [OF r i e])
  have cd: "kh_cooldown_us h = c" using r by (simp add: kh_rel_def)
  show ?thesis using v r i t cd by (simp add: kfr_find_or_alloc_def kse_time_def Let_def)
qed

lemma kfr_submit_new:
  assumes r: "kh_rel (Some h) (seen, c)" and n: "first_idx (\<lambda>e. kse_valid e \<and> kse_ssrc e = km_ssrc m) (kh_entries h) = None"
  shows "fst (kfr_call (KfrSubmit m now) (Some h)) = fst (kfr_spec (KfrSubmit m now) (seen, c))
    \<and> kh_rel (snd (kfr_call (KfrSubmit m now) (Some h))) (snd (kfr_spec (KfrSubmit m now) (seen, c)))"
proof (cases "first_idx (\<lambda>e. \<not> kse_valid e) (kh_entries h)")
  case None
  then show ?thesis using kh_full [OF r] kh_find [OF r, of "km_ssrc m"] n r by (simp add: kfr_find_or_alloc_def)
next
  case (Some i)
  let ?e = "(kh_entries h ! i)\<lparr>kse_ssrc := km_ssrc m, kse_last_forward_us := 0, kse_valid := True\<rparr>"
  let ?v = "?e\<lparr>kse_last_forward_us := now, kse_has_forwarded := True\<rparr>"
  have i: "i < length (kh_entries h)" "\<not> kse_valid (kh_entries h ! i)" using first_idx_SomeD(1,2) [OF Some] by simp_all
  then have f: "\<not> kse_has_forwarded (kh_entries h ! i)" using r by (auto simp: kh_rel_def)
  have s: "seen (km_ssrc m) = None" using kh_find [OF r] n by simp
  have "kh_rel (Some (h\<lparr>kh_entries := (kh_entries h)[i := ?v]\<rparr>)) (seen(km_ssrc m \<mapsto> Some now), c)"
    using kh_fill [OF r Some s, of ?v] by (simp add: kse_time_def)
  moreover have "card (dom seen) \<noteq> KFR_MAX_SSRC" using kh_full [OF r] Some by simp
  ultimately show ?thesis using Some n s f i by (simp add: kfr_find_or_alloc_def Let_def)
qed

lemma kfr_call_rel:
  assumes "kh_rel m t"
  shows "fst (kfr_call op m) = fst (kfr_spec op t) \<and> kh_rel (snd (kfr_call op m)) (snd (kfr_spec op t))"
proof -
  obtain seen c where t: "t = (seen, c)" by (cases t)
  from assms obtain h where m: "m = Some h" by (auto simp: kh_rel_def)
  note r = assms [unfolded t m]
  show ?thesis
  proof (cases op)
    case (KfrSubmit msg now)
    then show ?thesis using kfr_submit_known [OF r, of msg] kfr_submit_new [OF r, of msg] unfolding t m by blast
  next
    case (KfrFlush s)
    show ?thesis
    proof (cases "first_idx (\<lambda>e. kse_valid e \<and> kse_ssrc e = s) (kh_entries h)")
      case None
      then show ?thesis using r kh_find [OF r, of s] by (simp add: KfrFlush t m kfr_handler_flush_ssrc_def)
    next
      case (Some i)
      let ?v = "(kh_entries h ! i)\<lparr>kse_last_forward_us := 0, kse_has_forwarded := False\<rparr>"
      have e: "kse_valid ?v" "kse_ssrc ?v = s" using first_idx_holds [OF Some] by simp_all
      then show ?thesis using kh_upd(1) [OF r Some e] kh_find [OF r, of s] Some
        by (auto simp: KfrFlush t m kfr_handler_flush_ssrc_def kse_time_def)
    qed
  next
    case (KfrCooldown c')
    then show ?thesis using r by (auto simp: t m kh_rel_def)
  qed
qed

interpretation kfrs: simulation kfr_call kfr_spec kh_rel "\<lambda>_. True"
  by unfold_locales (rule kfr_call_rel)

lemma kh_create_rel: "kh_rel (kfr_handler_create True cooldown) (Map.empty, cooldown)"
proof -
  have "kh_assoc (replicate n \<lparr>kse_ssrc = 0, kse_last_forward_us = 0, kse_valid = False, kse_has_forwarded = False\<rparr>) = []" for n
    by (induction n) simp_all
  then show ?thesis by (simp add: kh_rel_def kfr_handler_create_def)
qed

text \<open>C23: Under any requests, flushes and changes of the interval the handler decides as the specification does:
  a request is let through if it is urgent, if its source is new (of at most 64) or flushed, or if the interval has
  passed since the source was last let through, and suppressed otherwise; nothing that happens to other
  sources matters.\<close>

theorem keyframe_refines_times:
  "\<exists>h. run_calls kfr_call ops (kfr_handler_create True cooldown)
      = (fst (run_calls kfr_spec ops (Map.empty, cooldown)), Some h)
    \<and> kh_rel (Some h) (snd (run_calls kfr_spec ops (Map.empty, cooldown)))"
  using kfrs.run [OF kh_create_rel, of ops cooldown] unfolding kh_rel_def by (metis prod.collapse)

lemma keyframe_refines_times_witness:
  "\<exists>h. run_calls kfr_call [KfrSubmit \<lparr>km_type = 1, km_priority = 0, km_seq = 1, km_ssrc = 7, km_timestamp_us = 0\<rparr> 1000,
        KfrSubmit \<lparr>km_type = 1, km_priority = 0, km_seq = 2, km_ssrc = 7, km_timestamp_us = 0\<rparr> 1100,
        KfrSubmit \<lparr>km_type = 1, km_priority = 0, km_seq = 3, km_ssrc = 7, km_timestamp_us = 0\<rparr> 1250]
      (kfr_handler_create True 250)
    = ([Some KFR_DECISION_FORWARD, Some KFR_DECISION_SUPPRESS, Some KFR_DECISION_FORWARD], Some h)"
  using keyframe_refines_times [of "[KfrSubmit \<lparr>km_type = 1, km_priority = 0, km_seq = 1, km_ssrc = 7, km_timestamp_us = 0\<rparr> 1000,
        KfrSubmit \<lparr>km_type = 1, km_priority = 0, km_seq = 2, km_ssrc = 7, km_timestamp_us = 0\<rparr> 1100,
        KfrSubmit \<lparr>km_type = 1, km_priority = 0, km_seq = 3, km_ssrc = 7, km_timestamp_us = 0\<rparr> 1250]" 250]
  by (auto simp: KFR_MAX_SSRC_def simp del: kfr_call.simps)

end
