(* ===== verification/Reorder.thy ===== *)
theory Reorder
  imports Slots
begin

text \<open>
  The reorder buffer of \<^verbatim>\<open>src/src/reorder\<close>: slots (\<^verbatim>\<open>reorder_slot.c\<close>), the buffer keyed by the sequence number modulo
  its capacity (\<^verbatim>\<open>reorder_buffer.c\<close>), counters (\<^verbatim>\<open>reorder_stats.c\<close>).  The delivery callback is the list of the slots
  it is called with.
\<close>

definition REORDER_SLOT_MAX_PAYLOAD :: nat where "REORDER_SLOT_MAX_PAYLOAD = 2048"
definition REORDER_BUFFER_CAPACITY :: nat where "REORDER_BUFFER_CAPACITY = 64"

record reorder_slot =
  ros_seq :: u16
  ros_arrival_us :: u64
  ros_payload :: "u8 list"
  ros_payload_len :: u16
  ros_occupied :: bool

definition ros_zero :: reorder_slot where
  "ros_zero = \<lparr>ros_seq = 0, ros_arrival_us = 0, ros_payload = replicate REORDER_SLOT_MAX_PAYLOAD 0, ros_payload_len = 0,
     ros_occupied = False\<rparr>"

fun reorder_slot_fill :: "reorder_slot option \<Rightarrow> u16 \<Rightarrow> u64 \<Rightarrow> u8 list option \<Rightarrow> u16 \<Rightarrow> int \<times> reorder_slot option" where
  "reorder_slot_fill None seq arrival_us payload payload_len = (-1, None)"
| "reorder_slot_fill (Some slot) seq arrival_us payload payload_len =
     (if unat payload_len > REORDER_SLOT_MAX_PAYLOAD then (-1, Some slot)
      else if payload_len > 0 \<and> payload = None then (-1, Some slot)
      else (0, Some \<lparr>ros_seq = seq, ros_arrival_us = arrival_us,
          ros_payload = (if payload_len > 0 then overwrite (take (unat payload_len) (the payload)) (ros_payload slot)
                         else ros_payload slot),
          ros_payload_len = payload_len, ros_occupied = True\<rparr>))"

definition reorder_slot_clear :: "reorder_slot option \<Rightarrow> reorder_slot option" where
  "reorder_slot_clear slot = map_option (\<lambda>_. ros_zero) slot"

definition seq_lt :: "u16 \<Rightarrow> u16 \<Rightarrow> bool" where
  "seq_lt s1 s2 \<longleftrightarrow> sint (s1 - s2) < 0"

record reorder_buffer =
  rob_slots :: "reorder_slot list"
  rob_next_seq :: u16
  rob_count :: nat
  rob_timeout_us :: u64
  rob_deliver :: bool

definition reorder_buffer_create :: "bool \<Rightarrow> u64 \<Rightarrow> bool \<Rightarrow> reorder_buffer option" where
  "reorder_buffer_create mem timeout_us deliver = (if timeout_us = 0 then None else if \<not> mem then None else
     Some \<lparr>rob_slots = replicate REORDER_BUFFER_CAPACITY ros_zero, rob_next_seq = 0, rob_count = 0,
           rob_timeout_us = timeout_us, rob_deliver = deliver\<rparr>)"

definition reorder_buffer_count :: "reorder_buffer option \<Rightarrow> nat" where
  "reorder_buffer_count b = (case b of None \<Rightarrow> 0 | Some b \<Rightarrow> rob_count b)"

fun reorder_buffer_set_timeout :: "reorder_buffer option \<Rightarrow> u64 \<Rightarrow> int \<times> reorder_buffer option" where
  "reorder_buffer_set_timeout None timeout_us = (-1, None)"
| "reorder_buffer_set_timeout (Some b) timeout_us = (if timeout_us = 0 then (-1, Some b) else (0, Some (b\<lparr>rob_timeout_us := timeout_us\<rparr>)))"

fun reorder_buffer_insert :: "reorder_buffer option \<Rightarrow> u16 \<Rightarrow> u64 \<Rightarrow> u8 list option \<Rightarrow> u16 \<Rightarrow> int \<times> reorder_buffer option" where
  "reorder_buffer_insert None seq arrival_us payload payload_len = (-1, None)"
| "reorder_buffer_insert (Some b) seq arrival_us payload payload_len =
     (if rob_count b \<ge> REORDER_BUFFER_CAPACITY then (-1, Some b)
      else let idx = unat seq mod REORDER_BUFFER_CAPACITY in
        if ros_occupied (rob_slots b ! idx) then (-1, Some b)
        else case reorder_slot_fill (Some (rob_slots b ! idx)) seq arrival_us payload payload_len of (rc, slot) \<Rightarrow>
          if rc < 0 then (-1, Some b)
          else (0, Some (b\<lparr>rob_slots := (rob_slots b)[idx := the slot], rob_count := rob_count b + 1\<rparr>)))"

text \<open>Handing slot \<open>i\<close> to the callback (if there is one), clearing it and stepping the expected number.\<close>

definition rob_hand_over :: "nat \<Rightarrow> reorder_buffer \<times> reorder_slot list \<Rightarrow> reorder_buffer \<times> reorder_slot list" where
  "rob_hand_over i st = (case st of (b, out) \<Rightarrow>
     (b\<lparr>rob_slots := (rob_slots b)[i := ros_zero], rob_count := rob_count b - 1, rob_next_seq := rob_next_seq b + 1\<rparr>,
      out @ [rob_slots b ! i]))"

text \<open>The array has 64 slots, so the index is always inside; the test in \<open>rob_next_ready\<close> only makes that explicit.\<close>

definition rob_next_idx :: "reorder_buffer \<Rightarrow> nat" where
  "rob_next_idx b = unat (rob_next_seq b) mod REORDER_BUFFER_CAPACITY"

definition rob_next_ready :: "reorder_buffer \<Rightarrow> bool" where
  "rob_next_ready b \<longleftrightarrow> rob_next_idx b < length (rob_slots b) \<and> ros_occupied (rob_slots b ! rob_next_idx b)
     \<and> ros_seq (rob_slots b ! rob_next_idx b) = rob_next_seq b"

text \<open>The in-order loop ends because every round empties an occupied slot.\<close>

function rob_in_order :: "reorder_buffer \<times> reorder_slot list \<Rightarrow> reorder_buffer \<times> reorder_slot list" where
  "rob_in_order st = (if \<not> rob_next_ready (fst st) then st else rob_in_order (rob_hand_over (rob_next_idx (fst st)) st))"
  by pat_completeness auto
termination
proof (relation "measure (\<lambda>st. count_if ros_occupied (rob_slots (fst st)))")
  fix st :: "reorder_buffer \<times> reorder_slot list" assume "\<not> \<not> rob_next_ready (fst st)"
  then have r: "rob_next_idx (fst st) < length (rob_slots (fst st))" "ros_occupied (rob_slots (fst st) ! rob_next_idx (fst st))"
    by (simp_all add: rob_next_ready_def)
  have z: "\<not> ros_occupied ros_zero" by (simp add: ros_zero_def)
  from count_if_clear [where P = ros_occupied, OF r z] show "(rob_hand_over (rob_next_idx (fst st)) st, st)
      \<in> measure (\<lambda>st. count_if ros_occupied (rob_slots (fst st)))"
    by (cases st) (simp add: rob_hand_over_def)
qed simp

declare rob_in_order.simps [simp del]

definition rob_time_out :: "u64 \<Rightarrow> nat \<Rightarrow> reorder_buffer \<times> reorder_slot list \<Rightarrow> reorder_buffer \<times> reorder_slot list" where
  "rob_time_out now_us i st = (case st of (b, out) \<Rightarrow>
     if rob_count b = 0 then st
     else let slot = rob_slots b ! i in
       if \<not> ros_occupied slot then st
       else if ros_arrival_us slot + rob_timeout_us b \<le> now_us then
         rob_in_order (rob_hand_over i
           (b\<lparr>rob_next_seq := if seq_lt (rob_next_seq b) (ros_seq slot) then ros_seq slot else rob_next_seq b\<rparr>, out))
       else st)"

fun reorder_buffer_flush :: "reorder_buffer option \<Rightarrow> u64 \<Rightarrow> nat \<times> reorder_buffer option \<times> reorder_slot list" where
  "reorder_buffer_flush None now_us = (0, None, [])"
| "reorder_buffer_flush (Some b) now_us =
     (case fold (rob_time_out now_us) [0..<REORDER_BUFFER_CAPACITY] (rob_in_order (b, [])) of (b', out) \<Rightarrow>
       (length out, Some b', if rob_deliver b then out else []))"

section \<open>What goes in comes out\<close>

definition rob_held :: "reorder_buffer \<Rightarrow> reorder_slot multiset" where
  "rob_held b = slot_live ros_occupied (rob_slots b)"

definition rob_ok :: "reorder_buffer \<Rightarrow> bool" where
  "rob_ok b \<longleftrightarrow> length (rob_slots b) = REORDER_BUFFER_CAPACITY \<and> rob_count b = size (rob_held b)
     \<and> (\<forall>i < length (rob_slots b). ros_occupied (rob_slots b ! i) \<longrightarrow> unat (ros_seq (rob_slots b ! i)) mod REORDER_BUFFER_CAPACITY = i)"

text \<open>The states that a flush goes through: what is held and what was handed over is what there was.\<close>

definition rob_moves :: "reorder_slot multiset \<Rightarrow> bool \<Rightarrow> u64 \<Rightarrow> reorder_buffer \<times> reorder_slot list \<Rightarrow> bool" where
  "rob_moves M d t st \<longleftrightarrow> rob_ok (fst st) \<and> M = rob_held (fst st) + mset (snd st) \<and> rob_deliver (fst st) = d \<and> rob_timeout_us (fst st) = t"

lemma rob_hand_over_moves:
  assumes "rob_moves M d t (b, out)" and "i < length (rob_slots b)" and "ros_occupied (rob_slots b ! i)"
  shows "rob_moves M d t (rob_hand_over i (b\<lparr>rob_next_seq := n\<rparr>, out))"
proof -
  have "slot_live ros_occupied (rob_slots b) = add_mset (rob_slots b ! i) (slot_live ros_occupied ((rob_slots b)[i := ros_zero]))"
    using filter_mset_update [OF assms(2), of ros_occupied ros_zero] assms(3) by (simp add: slot_live_def ros_zero_def)
  then show ?thesis using assms(1,2)
    by (simp add: rob_moves_def rob_hand_over_def rob_ok_def rob_held_def nth_list_update ros_zero_def)
qed

lemma rob_in_order_moves:
  "rob_moves M d t st \<Longrightarrow> rob_moves M d t (rob_in_order st)"
proof (induction st rule: rob_in_order.induct)
  case (1 st)
  show ?case
  proof (cases "rob_next_ready (fst st)")
    case True
    then have "rob_moves M d t (rob_hand_over (rob_next_idx (fst st)) st)"
      using rob_hand_over_moves [of M d t "fst st" "snd st" "rob_next_idx (fst st)" "rob_next_seq (fst st)"] 1(2)
      by (simp add: rob_next_ready_def)
    with 1(1) True show ?thesis by (subst rob_in_order.simps) simp
  next
    case False
    then show ?thesis using 1(2) by (subst rob_in_order.simps) simp
  qed
qed

lemma rob_time_out_moves:
  assumes "rob_moves M d t st" and "i < REORDER_BUFFER_CAPACITY"
  shows "rob_moves M d t (rob_time_out now i st)"
proof -
  obtain b out where st: "st = (b, out)" by (cases st)
  have i: "i < length (rob_slots b)" using assms by (simp add: st rob_moves_def rob_ok_def)
  have "rob_moves M d t (rob_in_order (rob_hand_over i (b\<lparr>rob_next_seq := n\<rparr>, out)))" if "ros_occupied (rob_slots b ! i)" for n
    using rob_in_order_moves [OF rob_hand_over_moves [OF assms(1) [unfolded st] i that]] .
  then show ?thesis using assms(1) by (simp add: rob_time_out_def st Let_def)
qed

lemma rob_flush_moves:
  assumes "rob_ok b"
  shows "rob_moves (rob_held b) (rob_deliver b) (rob_timeout_us b)
    (fold (rob_time_out now) [0..<REORDER_BUFFER_CAPACITY] (rob_in_order (b, [])))"
proof -
  have "rob_moves (rob_held b) (rob_deliver b) (rob_timeout_us b) (fold (rob_time_out now) is st)"
    if "rob_moves (rob_held b) (rob_deliver b) (rob_timeout_us b) st" "\<forall>i \<in> set is. i < REORDER_BUFFER_CAPACITY" for "is" st
    using that by (induction "is" arbitrary: st) (auto simp: rob_time_out_moves)
  moreover have "rob_moves (rob_held b) (rob_deliver b) (rob_timeout_us b) (rob_in_order (b, []))"
    using assms by (intro rob_in_order_moves) (simp add: rob_moves_def)
  ultimately show ?thesis by simp
qed

text \<open>After a flush neither the expected packet nor a packet past its time is held.\<close>

lemma rob_in_order_done: "\<not> rob_next_ready (fst (rob_in_order st))"
proof (induction st rule: rob_in_order.induct)
  case (1 st)
  then show ?case by (subst rob_in_order.simps) simp
qed

lemma rob_hand_over_slots:
  "rob_slots (fst (rob_hand_over i (b\<lparr>rob_next_seq := n\<rparr>, out))) = (rob_slots b)[i := ros_zero]"
  by (simp add: rob_hand_over_def)

text \<open>Handing over only empties slots.\<close>

definition rob_emptied :: "reorder_slot list \<Rightarrow> reorder_slot list \<Rightarrow> bool" where
  "rob_emptied ss ss' \<longleftrightarrow> length ss' = length ss \<and> (\<forall>i < length ss. ss' ! i = ss ! i \<or> ss' ! i = ros_zero)"

lemma rob_emptied_refl [simp]: "rob_emptied ss ss" by (simp add: rob_emptied_def)

lemma rob_emptied_trans: "rob_emptied ss ss' \<Longrightarrow> rob_emptied ss' ss'' \<Longrightarrow> rob_emptied ss ss''"
  unfolding rob_emptied_def by metis

lemma rob_emptied_update [simp]: "rob_emptied ss (ss[i := ros_zero])"
  unfolding rob_emptied_def by (metis length_list_update nth_list_update_eq nth_list_update_neq)

lemma rob_in_order_emptied: "rob_emptied (rob_slots (fst st)) (rob_slots (fst (rob_in_order st)))"
proof (induction st rule: rob_in_order.induct)
  case (1 st)
  have "rob_emptied (rob_slots (fst st)) (rob_slots (fst (rob_hand_over i st)))" for i
    by (cases st) (simp add: rob_hand_over_def)
  with 1 show ?case by (subst rob_in_order.simps) (auto intro: rob_emptied_trans)
qed

definition rob_late :: "u64 \<Rightarrow> u64 \<Rightarrow> reorder_slot \<Rightarrow> bool" where
  "rob_late now t s \<longleftrightarrow> ros_occupied s \<and> ros_arrival_us s + t \<le> now"

lemma rob_not_late_zero [simp]: "\<not> rob_late now t ros_zero"
  by (simp add: rob_late_def ros_zero_def)

lemma rob_time_out_step:
  assumes "rob_moves M d t st" and "i < REORDER_BUFFER_CAPACITY" and "\<not> rob_next_ready (fst st)"
  shows "rob_emptied (rob_slots (fst st)) (rob_slots (fst (rob_time_out now i st)))
    \<and> \<not> rob_late now t (rob_slots (fst (rob_time_out now i st)) ! i)
    \<and> \<not> rob_next_ready (fst (rob_time_out now i st))"
proof -
  obtain b out where st: "st = (b, out)" by (cases st)
  have i: "i < length (rob_slots b)" "rob_timeout_us b = t" "rob_count b = size (rob_held b)"
    using assms(1,2) by (simp_all add: st rob_moves_def rob_ok_def)
  have z: "ros_occupied (rob_slots b ! i) \<Longrightarrow> rob_count b \<noteq> 0"
    using i nth_mem [OF i(1)] in_slot_live [of "rob_slots b ! i" ros_occupied "rob_slots b"] by (auto simp: rob_held_def)
  show ?thesis
  proof (cases "rob_late now t (rob_slots b ! i)")
    case False
    then show ?thesis using assms(3) i by (simp add: rob_time_out_def st Let_def rob_late_def)
  next
    case True
    let ?n = "if seq_lt (rob_next_seq b) (ros_seq (rob_slots b ! i)) then ros_seq (rob_slots b ! i) else rob_next_seq b"
    let ?st = "rob_hand_over i (b\<lparr>rob_next_seq := ?n\<rparr>, out)"
    have e: "rob_time_out now i st = rob_in_order ?st"
      using True z i by (simp add: rob_time_out_def st Let_def rob_late_def)
    have "rob_emptied ((rob_slots b)[i := ros_zero]) (rob_slots (fst (rob_in_order ?st)))"
      using rob_in_order_emptied [of ?st] by (simp only: rob_hand_over_slots)
    moreover from this have "rob_slots (fst (rob_in_order ?st)) ! i = ros_zero"
      using i by (auto simp: rob_emptied_def)
    ultimately show ?thesis unfolding e
      using rob_in_order_done rob_emptied_trans [OF rob_emptied_update] by (auto simp: st)
  qed
qed

lemma rob_time_out_pass:
  assumes "rob_moves M d t st" and "\<not> rob_next_ready (fst st)" and "n \<le> REORDER_BUFFER_CAPACITY"
  shows "rob_moves M d t (fold (rob_time_out now) [0..<n] st) \<and> \<not> rob_next_ready (fst (fold (rob_time_out now) [0..<n] st))
    \<and> (\<forall>i < n. \<not> rob_late now t (rob_slots (fst (fold (rob_time_out now) [0..<n] st)) ! i))"
  using assms(3)
proof (induction n)
  case 0
  then show ?case using assms by simp
next
  case (Suc n)
  let ?st = "fold (rob_time_out now) [0..<n] st"
  have ih: "rob_moves M d t ?st" "\<not> rob_next_ready (fst ?st)" "\<forall>i < n. \<not> rob_late now t (rob_slots (fst ?st) ! i)"
    using Suc by auto
  have len: "n < length (rob_slots (fst ?st))" using ih(1) Suc.prems by (simp add: rob_moves_def rob_ok_def)
  note s = rob_time_out_step [OF ih(1) _ ih(2), of n now] rob_time_out_moves [OF ih(1), of n now]
  have "\<not> rob_late now t (rob_slots (fst (rob_time_out now n ?st)) ! i)" if "i < Suc n" for i
  proof (cases "i = n")
    case False
    then have "rob_slots (fst (rob_time_out now n ?st)) ! i \<in> {rob_slots (fst ?st) ! i, ros_zero}"
      using s(1) Suc.prems len that by (simp add: rob_emptied_def)
    then show ?thesis using ih(3) that False by auto
  qed (use s Suc.prems in simp)
  then show ?case using s Suc.prems by simp
qed

lemma rob_flush_result:
  assumes "rob_ok b" and "reorder_buffer_flush (Some b) now = (n, Some b', out)"
  shows "rob_ok b' \<and> (rob_deliver b \<longrightarrow> rob_held b = rob_held b' + mset out) \<and> size (rob_held b) = size (rob_held b') + n
    \<and> rob_deliver b' = rob_deliver b \<and> rob_timeout_us b' = rob_timeout_us b
    \<and> \<not> rob_next_ready b' \<and> (\<forall>s \<in># rob_held b'. \<not> rob_late now (rob_timeout_us b) s)"
proof -
  obtain o' where f: "fold (rob_time_out now) [0..<REORDER_BUFFER_CAPACITY] (rob_in_order (b, [])) = (b', o')"
      "n = length o'" "out = (if rob_deliver b then o' else [])"
    using assms(2) by (auto split: prod.splits)
  have m: "rob_moves (rob_held b) (rob_deliver b) (rob_timeout_us b) (rob_in_order (b, []))"
    using assms(1) by (intro rob_in_order_moves) (simp add: rob_moves_def)
  note p = rob_time_out_pass [OF m rob_in_order_done order_refl, of now, unfolded f(1)]
  have "\<not> rob_late now (rob_timeout_us b) s" if "s \<in># rob_held b'" for s
    using p that by (auto simp: rob_held_def in_slot_live in_set_conv_nth rob_moves_def rob_ok_def)
  then show ?thesis using p f(2,3) by (simp add: rob_moves_def)
qed

text \<open>The packet that an accepted insertion stores.\<close>

definition rob_stored :: "reorder_buffer \<Rightarrow> u16 \<Rightarrow> u64 \<Rightarrow> u8 list option \<Rightarrow> u16 \<Rightarrow> reorder_slot" where
  "rob_stored b seq arr payload len =
     the (snd (reorder_slot_fill (Some (rob_slots b ! (unat seq mod REORDER_BUFFER_CAPACITY))) seq arr payload len))"

lemma rob_insert_result:
  assumes "rob_ok b" and "reorder_buffer_insert (Some b) seq arr payload len = (rc, b')"
  shows "\<exists>c. b' = Some c \<and> rob_ok c \<and> rob_deliver c = rob_deliver b \<and> rob_timeout_us c = rob_timeout_us b
    \<and> rob_next_seq c = rob_next_seq b
    \<and> (if rc = 0 then rob_held c = add_mset (rob_stored b seq arr payload len) (rob_held b)
          \<and> ros_arrival_us (rob_stored b seq arr payload len) = arr
       else c = b)"
proof (cases "rob_count b \<ge> REORDER_BUFFER_CAPACITY \<or> ros_occupied (rob_slots b ! (unat seq mod REORDER_BUFFER_CAPACITY))
    \<or> unat len > REORDER_SLOT_MAX_PAYLOAD \<or> len > 0 \<and> payload = None")
  case True
  then have "rc = -1 \<and> b' = Some b" using assms(2) by (auto simp: Let_def split: if_splits)
  with assms(1) show ?thesis by simp
next
  case False
  let ?i = "unat seq mod REORDER_BUFFER_CAPACITY"
  let ?s = "rob_stored b seq arr payload len"
  have i: "?i < length (rob_slots b)" using assms(1) by (simp add: rob_ok_def REORDER_BUFFER_CAPACITY_def)
  have o: "ros_occupied ?s" "ros_arrival_us ?s = arr" "ros_seq ?s = seq" using False by (auto simp: rob_stored_def)
  have f: "reorder_slot_fill (Some (rob_slots b ! ?i)) seq arr payload len = (0, Some ?s)"
    using False by (auto simp: rob_stored_def)
  have "slot_live ros_occupied ((rob_slots b)[?i := ?s]) = add_mset ?s (slot_live ros_occupied (rob_slots b))"
    using filter_mset_update [OF i, of ros_occupied ?s] False o by (simp add: slot_live_def)
  moreover have "rc = 0 \<and> b' = Some (b\<lparr>rob_slots := (rob_slots b)[?i := ?s], rob_count := rob_count b + 1\<rparr>)"
    using assms(2) False by (simp add: Let_def f del: reorder_slot_fill.simps)
  ultimately show ?thesis using assms(1) o by (simp add: rob_ok_def rob_held_def nth_list_update)
qed

section \<open>Histories\<close>

text \<open>Calls on a buffer with a delivery callback: what they accept and what they hand over.\<close>

datatype rob_op = RobInsert u16 u64 "u8 list option" u16 | RobFlush u64 | RobSetTimeout u64

fun rob_run :: "rob_op list \<Rightarrow> reorder_buffer \<Rightarrow> reorder_slot list \<times> reorder_slot list \<times> reorder_buffer" where
  "rob_run [] b = ([], [], b)"
| "rob_run (RobInsert seq arr payload len # ops) b =
     (case reorder_buffer_insert (Some b) seq arr payload len of (rc, b') \<Rightarrow>
      case rob_run ops (the b') of (acc, out, c) \<Rightarrow>
        ((if rc = 0 then rob_stored b seq arr payload len # acc else acc), out, c))"
| "rob_run (RobFlush now # ops) b =
     (case reorder_buffer_flush (Some b) now of (n, b', out) \<Rightarrow>
      case rob_run ops (the b') of (acc, out', c) \<Rightarrow> (acc, out @ out', c))"
| "rob_run (RobSetTimeout t # ops) b = rob_run ops (the (snd (reorder_buffer_set_timeout (Some b) t)))"

declare reorder_buffer_insert.simps [simp del] reorder_buffer_flush.simps [simp del] reorder_slot_fill.simps [simp del]

lemma rob_run_conserves:
  "rob_ok b \<Longrightarrow> rob_deliver b \<Longrightarrow> rob_run ops b = (acc, out, c) \<Longrightarrow>
   rob_ok c \<and> rob_deliver c \<and> rob_held b + mset acc = rob_held c + mset out"
proof (induction ops b arbitrary: acc out c rule: rob_run.induct)
  case (2 seq arr payload len ops b)
  obtain rc b' where i: "reorder_buffer_insert (Some b) seq arr payload len = (rc, b')" by fastforce
  from rob_insert_result [OF 2(2) i] obtain d where d: "b' = Some d" "rob_ok d" "rob_deliver d"
      "if rc = 0 then rob_held d = add_mset (rob_stored b seq arr payload len) (rob_held b) else d = b"
    using 2(3) by auto
  obtain acc' out' c' where r: "rob_run ops d = (acc', out', c')" by (cases "rob_run ops d")
  from 2(1) [OF i [symmetric]] d r have "rob_ok c' \<and> rob_deliver c' \<and> rob_held d + mset acc' = rob_held c' + mset out'" by auto
  then show ?case using 2(4) d(4) by (auto simp: i d(1) r split: if_splits)
next
  case (3 now ops b)
  obtain n b' o1 where f: "reorder_buffer_flush (Some b) now = (n, b', o1)" by (cases "reorder_buffer_flush (Some b) now")
  then obtain d where d: "b' = Some d" by (auto simp: reorder_buffer_flush.simps split: prod.splits)
  note fr = rob_flush_result [OF 3(2) f [unfolded d]]
  obtain acc' out' c' where r: "rob_run ops d = (acc', out', c')" by (cases "rob_run ops d")
  from 3(1) [OF f [symmetric] refl] fr 3(3) d r
  have "rob_ok c' \<and> rob_deliver c' \<and> rob_held d + mset acc' = rob_held c' + mset out'" by auto
  then show ?case using 3(4) fr 3(3) by (auto simp: f d r)
next
  case (4 t ops b)
  have "rob_ok (the (snd (reorder_buffer_set_timeout (Some b) t)))" "rob_deliver (the (snd (reorder_buffer_set_timeout (Some b) t)))"
      "rob_held (the (snd (reorder_buffer_set_timeout (Some b) t))) = rob_held b"
    using 4(2,3) by (simp_all add: rob_ok_def rob_held_def)
  with 4(1) 4(4) show ?case by auto
qed simp

text \<open>The in-order loop hands over consecutive numbers.\<close>

definition rob_consec :: "u16 \<Rightarrow> nat \<Rightarrow> u16 list" where
  "rob_consec s n = map (\<lambda>k. s + of_nat k) [0..<n]"

lemma rob_consec_append: "rob_consec s m @ rob_consec (s + of_nat m) n = rob_consec s (m + n)"
proof (rule nth_equalityI)
  fix i assume "i < length (rob_consec s m @ rob_consec (s + of_nat m) n)"
  then show "(rob_consec s m @ rob_consec (s + of_nat m) n) ! i = rob_consec s (m + n) ! i"
    by (simp add: rob_consec_def nth_append of_nat_diff)
qed (simp add: rob_consec_def)

lemma rob_in_order_seqs:
  "\<exists>new. snd (rob_in_order st) = snd st @ new \<and> map ros_seq new = rob_consec (rob_next_seq (fst st)) (length new)
    \<and> rob_next_seq (fst (rob_in_order st)) = rob_next_seq (fst st) + of_nat (length new)"
proof (induction st rule: rob_in_order.induct)
  case (1 st)
  show ?case
  proof (cases "rob_next_ready (fst st)")
    case False
    then show ?thesis by (subst (1 2) rob_in_order.simps) (simp add: rob_consec_def)
  next
    case True
    let ?i = "rob_next_idx (fst st)"
    from 1 True obtain new where new: "snd (rob_in_order (rob_hand_over ?i st)) = snd (rob_hand_over ?i st) @ new"
        "map ros_seq new = rob_consec (rob_next_seq (fst (rob_hand_over ?i st))) (length new)"
        "rob_next_seq (fst (rob_in_order (rob_hand_over ?i st))) = rob_next_seq (fst (rob_hand_over ?i st)) + of_nat (length new)"
      by auto
    have s: "snd (rob_hand_over ?i st) = snd st @ [rob_slots (fst st) ! ?i]"
        "rob_next_seq (fst (rob_hand_over ?i st)) = rob_next_seq (fst st) + 1"
        "ros_seq (rob_slots (fst st) ! ?i) = rob_next_seq (fst st)"
      using True by (simp_all add: rob_hand_over_def rob_next_ready_def split: prod.split)
    have "map ros_seq (rob_slots (fst st) ! ?i # new) = rob_consec (rob_next_seq (fst st)) (Suc (length new))"
      using rob_consec_append [of "rob_next_seq (fst st)" 1 "length new"] new(2) s by (simp add: rob_consec_def)
    then show ?thesis using True new s
      by (subst (1 2) rob_in_order.simps) (intro exI [of _ "rob_slots (fst st) ! ?i # new"], simp add: add.assoc)
  qed
qed

lemma rob_time_out_none:
  assumes "rob_ok (fst st)" and "\<forall>s \<in># rob_held (fst st). \<not> rob_late now (rob_timeout_us (fst st)) s" and "i < REORDER_BUFFER_CAPACITY"
  shows "rob_time_out now i st = st"
proof -
  obtain b out where st: "st = (b, out)" by (cases st)
  have "rob_slots b ! i \<in> set (rob_slots b)" using assms(1,3) by (simp add: st rob_ok_def)
  then show ?thesis using assms(2)
    by (auto simp: st rob_time_out_def Let_def rob_held_def in_slot_live rob_late_def)
qed

lemma rob_flush_punctual:
  assumes "rob_ok b" and "rob_deliver b" and "\<forall>s \<in># rob_held b. \<not> rob_late now (rob_timeout_us b) s"
    and "reorder_buffer_flush (Some b) now = (n, Some b', out)"
  shows "map ros_seq out = rob_consec (rob_next_seq b) (length out) \<and> rob_next_seq b' = rob_next_seq b + of_nat (length out)"
proof -
  let ?st = "rob_in_order (b, [])"
  have m: "rob_moves (rob_held b) (rob_deliver b) (rob_timeout_us b) ?st"
    using assms(1) by (intro rob_in_order_moves) (simp add: rob_moves_def)
  have "fold (rob_time_out now) is ?st = ?st" if "\<forall>i \<in> set is. i < REORDER_BUFFER_CAPACITY" for "is"
    using that m assms(3) by (induction "is") (auto simp: rob_time_out_none rob_moves_def)
  then have "?st = (b', out)" using assms(2,4) by (auto simp: reorder_buffer_flush.simps split: prod.splits)
  with rob_in_order_seqs [of "(b, [])"] show ?thesis by auto
qed

fun rob_arrivals :: "rob_op list \<Rightarrow> u64 list" where
  "rob_arrivals [] = []"
| "rob_arrivals (RobInsert seq arr payload len # ops) = arr # rob_arrivals ops"
| "rob_arrivals (_ # ops) = rob_arrivals ops"

fun rob_flushes :: "rob_op list \<Rightarrow> u64 list" where
  "rob_flushes [] = []"
| "rob_flushes (RobFlush now # ops) = now # rob_flushes ops"
| "rob_flushes (_ # ops) = rob_flushes ops"

fun rob_retimed :: "rob_op \<Rightarrow> bool" where
  "rob_retimed (RobSetTimeout t) = True"
| "rob_retimed _ = False"

text \<open>No packet of the history waits as long as the timeout \<open>t\<close>, which stays as it is.\<close>

definition rob_punctual :: "u64 \<Rightarrow> u64 list \<Rightarrow> rob_op list \<Rightarrow> bool" where
  "rob_punctual t arrs ops \<longleftrightarrow> (\<forall>arr \<in> set (arrs @ rob_arrivals ops). \<forall>now \<in> set (rob_flushes ops). now < arr + t)
     \<and> (\<forall>op \<in> set ops. \<not> rob_retimed op)"

lemma rob_run_in_order:
  "rob_ok b \<Longrightarrow> rob_deliver b \<Longrightarrow> rob_timeout_us b = t \<Longrightarrow> ros_arrival_us ` set_mset (rob_held b) \<subseteq> set arrs \<Longrightarrow>
   rob_punctual t arrs ops \<Longrightarrow> rob_run ops b = (acc, out, c) \<Longrightarrow>
   map ros_seq out = rob_consec (rob_next_seq b) (length out)"
proof (induction ops b arbitrary: acc out c arrs rule: rob_run.induct)
  case (1 b)
  then show ?case by (simp add: rob_consec_def)
next
  case (2 seq arr payload len ops b)
  obtain rc b' where i: "reorder_buffer_insert (Some b) seq arr payload len = (rc, b')" by fastforce
  from rob_insert_result [OF 2(2) i] obtain d where d: "b' = Some d" "rob_ok d" "rob_deliver d" "rob_timeout_us d = t"
      "rob_next_seq d = rob_next_seq b"
      "if rc = 0 then rob_held d = add_mset (rob_stored b seq arr payload len) (rob_held b)
         \<and> ros_arrival_us (rob_stored b seq arr payload len) = arr else d = b"
    using 2(3,4) by auto
  have h: "ros_arrival_us ` set_mset (rob_held d) \<subseteq> set (arr # arrs)" using d(6) 2(5) by (auto split: if_splits)
  have "rob_punctual t (arr # arrs) ops" using 2(6) by (auto simp: rob_punctual_def)
  moreover obtain acc' out' c' where r: "rob_run ops d = (acc', out', c')" by (cases "rob_run ops d")
  ultimately have "map ros_seq out' = rob_consec (rob_next_seq d) (length out')" 
    using 2(1) [OF i [symmetric], where arrs = "arr # arrs"] d h by auto
  then show ?case using 2(7) d by (auto simp: i r split: if_splits)
next
  case (3 now ops b)
  obtain n b' o1 where f: "reorder_buffer_flush (Some b) now = (n, b', o1)" by (cases "reorder_buffer_flush (Some b) now")
  then obtain d where d: "b' = Some d" by (auto simp: reorder_buffer_flush.simps split: prod.splits)
  note fr = rob_flush_result [OF 3(2) f [unfolded d]]
  have "\<forall>s \<in># rob_held b. \<not> rob_late now (rob_timeout_us b) s"
    using 3(4-6) by (force simp: rob_punctual_def rob_late_def)
  note p = rob_flush_punctual [OF 3(2,3) this f [unfolded d]]
  have q: "rob_punctual t arrs ops" using 3(6) by (auto simp: rob_punctual_def)
  have h: "ros_arrival_us ` set_mset (rob_held d) \<subseteq> set arrs" using fr 3(3,5) by auto
  obtain acc' out' c' where r: "rob_run ops d = (acc', out', c')" by (cases "rob_run ops d")
  have "map ros_seq out' = rob_consec (rob_next_seq d) (length out')"
    using 3(1) [OF f [symmetric] refl] fr 3(3,4) h q r d by auto
  then show ?case using 3(7) p by (auto simp: f d r rob_consec_append)
next
  case (4 t ops b)
  then show ?case by (simp add: rob_punctual_def)
qed

lemma rob_created:
  "reorder_buffer_create True t True = Some b \<Longrightarrow> rob_ok b \<and> rob_deliver b \<and> rob_held b = {#} \<and> rob_next_seq b = 0 \<and> rob_timeout_us b = t"
  by (auto simp: reorder_buffer_create_def rob_ok_def rob_held_def ros_zero_def split: if_splits)

text \<open>C12: The reorder buffer neither loses nor invents packets: after any insertions, flushes and changes of the timeout
  every packet that was accepted (a late copy of a delivered one is accepted again) has been handed over once or is still held, and
  the count is the number held (at most 64).  As long as no packet waits as long as the timeout, the packets handed over carry the sequence
  numbers 0, 1, 2, ... (modulo 2 ^ 16) without a gap.\<close>

theorem reorder_delivery:
  assumes "reorder_buffer_create True t True = Some b" and "rob_run ops b = (acc, out, c)"
  shows "mset acc = mset out + rob_held c \<and> reorder_buffer_count (Some c) = size (rob_held c)
    \<and> size (rob_held c) \<le> REORDER_BUFFER_CAPACITY
    \<and> (rob_punctual t [] ops \<longrightarrow> map ros_seq out = map of_nat [0..<length out])"
proof -
  note b = rob_created [OF assms(1)]
  note r = rob_run_conserves [of b ops acc out c] rob_run_in_order [of b t "[]" ops acc out c]
  have "size (rob_held c) \<le> REORDER_BUFFER_CAPACITY"
    using r(1) b assms(2) size_slot_live_le [of ros_occupied "rob_slots c"] by (simp add: rob_ok_def rob_held_def)
  with r b assms(2) show ?thesis by (auto simp: rob_ok_def reorder_buffer_count_def rob_consec_def)
qed

definition rob_sample :: "rob_op list" where
  "rob_sample = [RobInsert 1 10 (Some [7]) 1, RobFlush 20, RobInsert 0 15 None 0, RobFlush 30]"

lemma reorder_delivery_witness:
  "\<exists>b acc out c. reorder_buffer_create True 80000 True = Some b \<and> rob_run rob_sample b = (acc, out, c)
    \<and> mset acc = mset out + rob_held c \<and> map ros_seq out = map of_nat [0..<length out]"
proof -
  obtain b where b: "reorder_buffer_create True 80000 True = Some b" by (simp add: reorder_buffer_create_def)
  obtain acc out c where r: "rob_run rob_sample b = (acc, out, c)" by (cases "rob_run rob_sample b")
  have "rob_punctual 80000 [] rob_sample" by (simp add: rob_punctual_def rob_sample_def)
  with reorder_delivery [OF b r] b r show ?thesis by blast
qed

text \<open>A flush at time \<open>now\<close> leaves no packet behind that has waited for the timeout, nor the packet that is
  expected next; the number it returns is the number of packets that left the buffer.\<close>

theorem reorder_flush_progress:
  assumes "reorder_buffer_create True t True = Some b" and "rob_run ops b = (acc, out, c)"
    and "reorder_buffer_flush (Some c) now = (n, Some d, new)"
  shows "(\<forall>s \<in># rob_held d. \<not> ros_arrival_us s + rob_timeout_us c \<le> now \<and> ros_seq s \<noteq> rob_next_seq d)
    \<and> n = length new \<and> rob_held c = mset new + rob_held d"
proof -
  have c: "rob_ok c" "rob_deliver c" using rob_run_conserves [OF _ _ assms(2)] rob_created [OF assms(1)] by auto
  note f = rob_flush_result [OF c(1) assms(3)]
  have "\<not> ros_arrival_us s + rob_timeout_us c \<le> now \<and> ros_seq s \<noteq> rob_next_seq d" if s: "s \<in># rob_held d" for s
  proof
    show "\<not> ros_arrival_us s + rob_timeout_us c \<le> now"
      using f s by (auto simp: rob_late_def rob_held_def in_slot_live)
    obtain i where "i < length (rob_slots d)" "s = rob_slots d ! i" "ros_occupied s"
      using s by (auto simp: rob_held_def in_slot_live in_set_conv_nth)
    then show "ros_seq s \<noteq> rob_next_seq d" using f by (auto simp: rob_ok_def rob_next_ready_def rob_next_idx_def)
  qed
  moreover have "n = length new" using assms(3) c(2) by (auto simp: reorder_buffer_flush.simps split: prod.splits)
  ultimately show ?thesis using f c(2) by (simp add: union_commute)
qed

lemma reorder_flush_progress_witness:
  "\<exists>b acc out c n d new. reorder_buffer_create True 100 True = Some b
    \<and> rob_run [RobInsert 5 10 None 0, RobInsert 9 300 None 0] b = (acc, out, c)
    \<and> reorder_buffer_flush (Some c) 310 = (n, Some d, new)
    \<and> (\<forall>s \<in># rob_held d. \<not> ros_arrival_us s + rob_timeout_us c \<le> 310 \<and> ros_seq s \<noteq> rob_next_seq d) \<and> n = length new"
proof -
  obtain b where b: "reorder_buffer_create True 100 True = Some b" by (simp add: reorder_buffer_create_def)
  let ?ops = "[RobInsert 5 10 None 0, RobInsert 9 300 None 0]"
  obtain acc out c where r: "rob_run ?ops b = (acc, out, c)" by (cases "rob_run ?ops b")
  obtain d o' where "fold (rob_time_out 310) [0..<REORDER_BUFFER_CAPACITY] (rob_in_order (c, [])) = (d, o')"
    by (rule prod.exhaust)
  then obtain n new where f: "reorder_buffer_flush (Some c) 310 = (n, Some d, new)" by (simp add: reorder_buffer_flush.simps)
  from reorder_flush_progress [OF b r f] b r f show ?thesis by blast
qed

section \<open>Statistics\<close>

record reorder_stats =
  rost_packets_inserted :: u64
  rost_packets_delivered :: u64
  rost_late_flushes :: u64
  rost_discards :: u64
  rost_max_depth :: int

definition reorder_stats_zero :: reorder_stats where
  "reorder_stats_zero = \<lparr>rost_packets_inserted = 0, rost_packets_delivered = 0, rost_late_flushes = 0, rost_discards = 0,
     rost_max_depth = 0\<rparr>"

definition reorder_stats_create :: "bool \<Rightarrow> reorder_stats option" where
  "reorder_stats_create mem = (if mem then Some reorder_stats_zero else None)"

definition reorder_stats_reset :: "reorder_stats option \<Rightarrow> reorder_stats option" where
  "reorder_stats_reset st = map_option (\<lambda>_. reorder_stats_zero) st"

fun reorder_stats_record_insert :: "reorder_stats option \<Rightarrow> int \<Rightarrow> int \<Rightarrow> int \<times> reorder_stats option" where
  "reorder_stats_record_insert None success depth = (-1, None)"
| "reorder_stats_record_insert (Some st) success depth =
     (0, Some (if success \<noteq> 0 then
        let st = st\<lparr>rost_packets_inserted := rost_packets_inserted st + 1\<rparr> in
        if depth > rost_max_depth st then st\<lparr>rost_max_depth := depth\<rparr> else st
      else st\<lparr>rost_discards := rost_discards st + 1\<rparr>))"

fun reorder_stats_record_deliver :: "reorder_stats option \<Rightarrow> int \<Rightarrow> int \<times> reorder_stats option" where
  "reorder_stats_record_deliver None timed_out = (-1, None)"
| "reorder_stats_record_deliver (Some st) timed_out =
     (0, Some (let st = st\<lparr>rost_packets_delivered := rost_packets_delivered st + 1\<rparr> in
        if timed_out \<noteq> 0 then st\<lparr>rost_late_flushes := rost_late_flushes st + 1\<rparr> else st))"

fun reorder_stats_snapshot :: "reorder_stats option \<Rightarrow> reorder_stats option \<Rightarrow> int \<times> reorder_stats option" where
  "reorder_stats_snapshot (Some st) (Some out) = (0, Some st)"
| "reorder_stats_snapshot _ out = (-1, out)"

end
