(* ===== verification/Filestore.thy ===== *)
theory Filestore
  imports RS_Prelude
begin

text \<open>
  Files as the repository's savers and loaders see them through \<^verbatim>\<open>stdio\<close>: contents by name, with the failures that the
  operating system may answer with: \<open>fs_openable\<close> says which names may be opened for writing, \<open>fs_room\<close> how many
  more bytes can be written before \<^verbatim>\<open>fwrite\<close> comes back short, \<open>fs_renames\<close> whether \<^verbatim>\<open>rename\<close> succeeds.
\<close>

record filestore =
  fs_files :: "string \<rightharpoonup> u8 list"
  fs_openable :: "string \<Rightarrow> bool"
  fs_room :: nat
  fs_renames :: bool

definition f_create :: "string \<Rightarrow> filestore \<Rightarrow> filestore option" where
  "f_create name fs = (if fs_openable fs name then Some (fs\<lparr>fs_files := (fs_files fs)(name \<mapsto> [])\<rparr>) else None)"

text \<open>\<^verbatim>\<open>fwrite\<close> appends; a short write puts out what there is room for.\<close>

definition f_write :: "string \<Rightarrow> u8 list \<Rightarrow> filestore \<Rightarrow> bool \<times> filestore" where
  "f_write name bs fs = (length bs \<le> fs_room fs,
     fs\<lparr>fs_files := (fs_files fs)(name \<mapsto> the (fs_files fs name) @ take (fs_room fs) bs), fs_room := fs_room fs - length bs\<rparr>)"

definition f_remove :: "string \<Rightarrow> filestore \<Rightarrow> filestore" where
  "f_remove name fs = fs\<lparr>fs_files := (fs_files fs)(name := None)\<rparr>"

definition f_rename :: "string \<Rightarrow> string \<Rightarrow> filestore \<Rightarrow> bool \<times> filestore" where
  "f_rename from to fs = (if fs_renames fs
     then (True, fs\<lparr>fs_files := (fs_files fs)(from := None, to := fs_files fs from)\<rparr>) else (False, fs))"

text \<open>Writing to one file leaves the others alone.\<close>

definition fs_only :: "string \<Rightarrow> filestore \<Rightarrow> filestore \<Rightarrow> bool" where
  "fs_only name fs fs' \<longleftrightarrow> (\<forall>m. m \<noteq> name \<longrightarrow> fs_files fs' m = fs_files fs m) \<and> fs_renames fs' = fs_renames fs"

lemma fs_only_refl [simp]: "fs_only name fs fs" by (simp add: fs_only_def)

lemma fs_only_trans: "fs_only name fs fs' \<Longrightarrow> fs_only name fs' fs'' \<Longrightarrow> fs_only name fs fs''"
  by (simp add: fs_only_def)

lemma f_create_only: "f_create name fs = Some fs' \<Longrightarrow> fs_only name fs fs' \<and> fs_files fs' name = Some []"
  by (auto simp: f_create_def fs_only_def split: if_splits)

lemma f_write_only: "f_write name bs fs = (ok, fs') \<Longrightarrow> fs_only name fs fs'"
  by (auto simp: f_write_def fs_only_def)

lemma f_write_ok: "f_write name bs fs = (True, fs') \<Longrightarrow> fs_files fs name = Some xs \<Longrightarrow> fs_files fs' name = Some (xs @ bs)"
  by (auto simp: f_write_def)

lemma f_remove_only: "fs_only name fs fs' \<Longrightarrow> fs_only name fs (f_remove name fs')"
  by (simp add: f_remove_def fs_only_def)

end
