(* ===== verification/Schedule.thy ===== *)
theory Schedule
  imports Wire Filestore
begin

text \<open>
  Schedule entries and their file: \<^verbatim>\<open>src/src/scheduler/schedule_entry.c\<close> (encoding) and \<^verbatim>\<open>schedule_store.c\<close> (saving and
  loading).  A title is the \<open>SCHEDULE_MAX_TITLE + 1\<close> bytes of its array.  What a copy of the title takes from beyond that array
  when \<open>title_len\<close> is too large is not modelled (it takes what the array has); no theorem relies on it.
\<close>

definition SCHEDULE_MAGIC :: u32 where "SCHEDULE_MAGIC = 0x5343454E"
definition SCHEDULE_MAX_TITLE :: nat where "SCHEDULE_MAX_TITLE = 128"
definition SCHEDULE_HDR_SIZE :: nat where "SCHEDULE_HDR_SIZE = 20"
definition SCHEDULE_ENTRY_MAX_SZ :: nat where "SCHEDULE_ENTRY_MAX_SZ = SCHEDULE_HDR_SIZE + SCHEDULE_MAX_TITLE"
definition SCHED_FLAG_REPEAT :: u8 where "SCHED_FLAG_REPEAT = 0x01"
definition SCHED_FLAG_ENABLED :: u8 where "SCHED_FLAG_ENABLED = 0x02"

record schedule_entry =
  se_start_us :: u64
  se_duration_us :: u32
  se_source_type :: u32
  se_flags :: u8
  se_title_len :: u16
  se_title :: "u8 list"
  se_id :: u64

definition schedule_entry_zero :: schedule_entry where
  "schedule_entry_zero = \<lparr>se_start_us = 0, se_duration_us = 0, se_source_type = 0, se_flags = 0, se_title_len = 0,
     se_title = replicate (SCHEDULE_MAX_TITLE + 1) 0, se_id = 0\<rparr>"

section \<open>Encoding\<close>

definition schedule_entry_encoded_size :: "schedule_entry option \<Rightarrow> nat" where
  "schedule_entry_encoded_size entry = (case entry of None \<Rightarrow> 0 | Some e \<Rightarrow> SCHEDULE_HDR_SIZE + unat (se_title_len e))"

definition schedule_entry_is_enabled :: "schedule_entry option \<Rightarrow> bool" where
  "schedule_entry_is_enabled entry = (case entry of None \<Rightarrow> False | Some e \<Rightarrow> se_flags e AND SCHED_FLAG_ENABLED \<noteq> 0)"

definition se_bytes :: "schedule_entry \<Rightarrow> u8 list" where
  "se_bytes e = w32le SCHEDULE_MAGIC @ w64le (se_start_us e) @ w32le (se_duration_us e) @
     [ucast (se_source_type e), se_flags e] @ w16le (se_title_len e) @ take (unat (se_title_len e)) (se_title e)"

fun schedule_entry_encode :: "schedule_entry option \<Rightarrow> u8 list option \<Rightarrow> int \<times> u8 list option" where
  "schedule_entry_encode (Some e) (Some buf) =
     (let needed = schedule_entry_encoded_size (Some e) in
      if length buf < needed then (-1, Some buf) else (int needed, Some (overwrite (se_bytes e) buf)))"
| "schedule_entry_encode _ buf = (-1, buf)"

fun schedule_entry_decode :: "u8 list option \<Rightarrow> schedule_entry option \<Rightarrow> int \<times> schedule_entry option" where
  "schedule_entry_decode (Some buf) (Some entry) =
     (if length buf < SCHEDULE_HDR_SIZE then (-1, Some entry)
      else if r32le buf 0 \<noteq> SCHEDULE_MAGIC then (-1, Some entry)
      else let e = schedule_entry_zero\<lparr>se_start_us := r64le buf 4, se_duration_us := r32le buf 12,
               se_source_type := ucast (buf ! 16), se_flags := buf ! 17, se_title_len := r16le buf 18\<rparr>;
             n = unat (se_title_len e) in
        if n > SCHEDULE_MAX_TITLE then (-1, Some e)
        else if length buf < SCHEDULE_HDR_SIZE + n then (-1, Some e)
        else (0, Some (e\<lparr>se_title := (overwrite (take n (drop SCHEDULE_HDR_SIZE buf)) (se_title e))[n := 0]\<rparr>)))"
| "schedule_entry_decode _ entry = (-1, entry)"

text \<open>The entries that a file can hold: a title that fits, the rest of its array zero, a source type of the enumeration
  and no identifier.\<close>

definition se_wf :: "schedule_entry \<Rightarrow> bool" where
  "se_wf e \<longleftrightarrow> unat (se_title_len e) \<le> SCHEDULE_MAX_TITLE \<and> se_source_type e < 256 \<and> se_id e = 0
     \<and> length (se_title e) = SCHEDULE_MAX_TITLE + 1
     \<and> drop (unat (se_title_len e)) (se_title e) = replicate (SCHEDULE_MAX_TITLE + 1 - unat (se_title_len e)) 0"

definition se_dec :: "u8 list \<Rightarrow> schedule_entry option" where
  "se_dec b = (case schedule_entry_decode (Some b) (Some schedule_entry_zero) of (r, e) \<Rightarrow> if r = 0 then e else None)"

lemma length_se_bytes: "se_wf e \<Longrightarrow> length (se_bytes e) = SCHEDULE_HDR_SIZE + unat (se_title_len e)"
  by (simp add: se_bytes_def se_wf_def SCHEDULE_HDR_SIZE_def)

lemma se_decode_bytes:
  assumes "se_wf e"
  shows "schedule_entry_decode (Some (se_bytes e @ rest)) (Some x) = (0, Some e)"
proof -
  let ?n = "unat (se_title_len e)" and ?b = "se_bytes e @ rest"
  have n: "?n \<le> 128" "length (se_title e) = 129" using assms by (simp_all add: se_wf_def SCHEDULE_MAX_TITLE_def)
  have b: "?b = w32le SCHEDULE_MAGIC @ w64le (se_start_us e) @ w32le (se_duration_us e) @
     ucast (se_source_type e) # se_flags e # w16le (se_title_len e) @ take ?n (se_title e) @ rest"
    by (simp add: se_bytes_def)
  have len: "length ?b = 20 + ?n + length rest" unfolding b using n by simp
  have rd: "r32le ?b 0 = SCHEDULE_MAGIC" "r64le ?b 4 = se_start_us e" "r32le ?b 12 = se_duration_us e"
      "r16le ?b 18 = se_title_len e" unfolding b by (simp_all add: wire_simps)
  have by16: "?b ! 16 = ucast (se_source_type e)" "?b ! 17 = se_flags e" unfolding b by (simp_all add: nth_append)
  have src: "ucast (ucast (se_source_type e) :: u8) = se_source_type e"
    using assms by (intro ucast_u8_small) (simp add: se_wf_def word_less_nat_alt)
  have t: "take ?n (drop 20 ?b) = take ?n (se_title e)" unfolding b using n by simp
  have title: "(overwrite (take ?n (se_title e)) (replicate (SCHEDULE_MAX_TITLE + 1) 0))[?n := 0] = se_title e"
  proof -
    have "overwrite (take ?n (se_title e)) (replicate (SCHEDULE_MAX_TITLE + 1) 0) = take ?n (se_title e) @ drop ?n (se_title e)"
      using assms n by (simp add: overwrite_def se_wf_def SCHEDULE_MAX_TITLE_def)
    then have "overwrite (take ?n (se_title e)) (replicate (SCHEDULE_MAX_TITLE + 1) 0) = se_title e" by simp
    moreover have "se_title e ! ?n = 0"
    proof -
      have "se_title e ! ?n = drop ?n (se_title e) ! 0" using n by simp
      also have "\<dots> = 0" using assms n by (simp add: se_wf_def SCHEDULE_MAX_TITLE_def)
      finally show ?thesis .
    qed
    ultimately show ?thesis by (metis list_update_id)
  qed
  let ?e = "schedule_entry_zero\<lparr>se_start_us := se_start_us e, se_duration_us := se_duration_us e,
               se_source_type := se_source_type e, se_flags := se_flags e, se_title_len := se_title_len e\<rparr>"
  have "schedule_entry_decode (Some ?b) (Some x)
      = (0, Some (?e\<lparr>se_title := (overwrite (take ?n (drop 20 ?b)) (se_title ?e))[?n := 0]\<rparr>))"
    unfolding schedule_entry_decode.simps rd by16 src Let_def using n len
    by (simp add: SCHEDULE_HDR_SIZE_def SCHEDULE_MAX_TITLE_def)
  also have "?e\<lparr>se_title := (overwrite (take ?n (drop 20 ?b)) (se_title ?e))[?n := 0]\<rparr> = e"
    unfolding t using title assms by (simp add: schedule_entry_zero_def se_wf_def)
  finally show ?thesis .
qed

interpretation se: codec se_wf se_bytes se_dec
  by unfold_locales (simp add: se_dec_def se_decode_bytes del: schedule_entry_decode.simps)

section \<open>The file\<close>

definition SCHEDULE_STORE_MAGIC :: u32 where "SCHEDULE_STORE_MAGIC = 0x52535348"
definition SCHEDULE_STORE_VERSION :: u16 where "SCHEDULE_STORE_VERSION = 1"
definition SCHEDULE_STORE_HDR_SZ :: nat where "SCHEDULE_STORE_HDR_SZ = 12"

definition sched_file_header :: "nat \<Rightarrow> u8 list" where
  "sched_file_header n = w32le SCHEDULE_STORE_MAGIC @ w16le SCHEDULE_STORE_VERSION @ w16le (of_nat n) @ w32le 0"

text \<open>The loop over the entries: the length and the bytes of each, up to the first failure.\<close>

fun sched_write_entries :: "string \<Rightarrow> schedule_entry list \<Rightarrow> filestore \<Rightarrow> bool \<times> filestore" where
  "sched_write_entries tmp [] fs = (True, fs)"
| "sched_write_entries tmp (e # es) fs =
     (case schedule_entry_encode (Some e) (Some (replicate SCHEDULE_ENTRY_MAX_SZ 0)) of (esz, buf) \<Rightarrow>
        if esz < 0 then (False, fs)
        else case f_write tmp (w16le (of_int esz)) fs of (ok1, fs) \<Rightarrow>
          if \<not> ok1 then (False, fs)
          else case f_write tmp (take (nat esz) (the buf)) fs of (ok2, fs) \<Rightarrow>
            if \<not> ok2 then (False, fs) else sched_write_entries tmp es fs)"

text \<open>The name of the temporary file is built in a buffer of 512 bytes.\<close>

definition sched_tmp_name :: "string \<Rightarrow> string" where
  "sched_tmp_name path = take 511 (path @ ''.tmp'')"

fun schedule_store_save :: "string option \<Rightarrow> schedule_entry list option \<Rightarrow> filestore \<Rightarrow> int \<times> filestore" where
  "schedule_store_save (Some path) (Some entries) fs =
     (let tmp = sched_tmp_name path in
      case f_create tmp fs of
        None \<Rightarrow> (-1, fs)
      | Some fs \<Rightarrow> case f_write tmp (sched_file_header (length entries)) fs of (ok, fs) \<Rightarrow>
          if \<not> ok then (-1, f_remove tmp fs)
          else case sched_write_entries tmp entries fs of (ok, fs) \<Rightarrow>
            if \<not> ok then (-1, f_remove tmp fs)
            else case f_rename tmp path fs of (ok, fs) \<Rightarrow> (if ok then 0 else -1, fs))"
| "schedule_store_save path entries fs = (-1, fs)"

text \<open>Reading stops at the first entry that is cut short or too long; an entry that does not decode leaves what it
  wrote in the next free element of the caller's array.\<close>

fun sched_read_entries :: "nat \<Rightarrow> u8 list \<Rightarrow> nat \<Rightarrow> schedule_entry list \<Rightarrow> nat \<times> schedule_entry list" where
  "sched_read_entries 0 f loaded entries = (loaded, entries)"
| "sched_read_entries (Suc i) f loaded entries =
     (if length f < 2 then (loaded, entries)
      else let esz = unat (r16le f 0); f = drop 2 f in
        if esz > SCHEDULE_ENTRY_MAX_SZ then (loaded, entries)
        else if length f < esz then (loaded, entries)
        else case schedule_entry_decode (Some (take esz f)) (Some (entries ! loaded)) of (r, e) \<Rightarrow>
          sched_read_entries i (drop esz f) (if r = 0 then loaded + 1 else loaded) (entries[loaded := the e]))"

text \<open>\<open>max\<close> is the length of the caller's array.\<close>

fun schedule_store_load :: "string option \<Rightarrow> schedule_entry list option \<Rightarrow> nat option \<Rightarrow> filestore \<Rightarrow>
    int \<times> schedule_entry list option \<times> nat option" where
  "schedule_store_load (Some path) (Some entries) (Some out_count) fs =
     (case fs_files fs path of
        None \<Rightarrow> (-1, Some entries, Some out_count)
      | Some f \<Rightarrow>
          if length f < SCHEDULE_STORE_HDR_SZ then (-1, Some entries, Some out_count)
          else if r32le f 0 \<noteq> SCHEDULE_STORE_MAGIC then (-1, Some entries, Some out_count)
          else if r16le f 4 \<noteq> SCHEDULE_STORE_VERSION then (-1, Some entries, Some out_count)
          else case sched_read_entries (min (unat (r16le f 6)) (length entries)) (drop SCHEDULE_STORE_HDR_SZ f) 0 entries
            of (loaded, entries) \<Rightarrow> (0, Some entries, Some loaded))"
| "schedule_store_load path entries out_count fs = (-1, entries, out_count)"

declare schedule_entry_encode.simps [simp del] schedule_entry_decode.simps [simp del]

definition sched_record :: "schedule_entry \<Rightarrow> u8 list" where
  "sched_record e = w16le (of_nat (length (se_bytes e))) @ se_bytes e"

lemma se_encode_wf:
  assumes "se_wf e"
  shows "schedule_entry_encode (Some e) (Some (replicate SCHEDULE_ENTRY_MAX_SZ 0))
    = (int (length (se_bytes e)), Some (overwrite (se_bytes e) (replicate SCHEDULE_ENTRY_MAX_SZ 0)))"
  using length_se_bytes [OF assms] assms
  by (simp add: schedule_entry_encode.simps Let_def schedule_entry_encoded_size_def SCHEDULE_ENTRY_MAX_SZ_def se_wf_def)

lemma sched_write_only: "sched_write_entries tmp es fs = (ok, fs') \<Longrightarrow> fs_only tmp fs fs'"
proof (induction tmp es fs arbitrary: ok fs' rule: sched_write_entries.induct)
  case (2 tmp e es fs)
  obtain esz buf where e: "schedule_entry_encode (Some e) (Some (replicate SCHEDULE_ENTRY_MAX_SZ 0)) = (esz, buf)" by fastforce
  obtain ok1 fs1 where w1: "f_write tmp (w16le (of_int esz)) fs = (ok1, fs1)" by fastforce
  obtain ok2 fs2 where w2: "f_write tmp (take (nat esz) (the buf)) fs1 = (ok2, fs2)" by fastforce
  note only = f_write_only [OF w1] f_write_only [OF w2]
  show ?case
  proof (cases "esz < 0 \<or> \<not> ok1 \<or> \<not> ok2")
    case True
    then show ?thesis using 2(2) only by (auto simp: e w1 w2 split: if_splits intro: fs_only_trans)
  next
    case False
    then have r: "sched_write_entries tmp es fs2 = (ok, fs')" using 2(2) by (simp add: e w1 w2)
    have "fs_only tmp fs2 fs'" using 2(1) [OF e [symmetric] _ w1 [symmetric] _ w2 [symmetric] _ r] False by simp
    then show ?thesis using only fs_only_trans by blast
  qed
qed simp

lemma sched_write_entries_ok:
  "sched_write_entries tmp es fs = (True, fs') \<Longrightarrow> \<forall>e \<in> set es. se_wf e \<Longrightarrow> fs_files fs tmp = Some xs \<Longrightarrow>
   fs_files fs' tmp = Some (xs @ concat (map sched_record es))"
proof (induction tmp es fs arbitrary: fs' xs rule: sched_write_entries.induct)
  case (2 tmp e es fs)
  have wf: "se_wf e" using 2(3) by simp
  obtain esz buf where e: "schedule_entry_encode (Some e) (Some (replicate SCHEDULE_ENTRY_MAX_SZ 0)) = (esz, buf)" by fastforce
  obtain ok1 fs1 where w1: "f_write tmp (w16le (of_int esz)) fs = (ok1, fs1)" by fastforce
  obtain ok2 fs2 where w2: "f_write tmp (take (nat esz) (the buf)) fs1 = (ok2, fs2)" by fastforce
  have ok: "\<not> esz < 0" "ok1" "ok2" "sched_write_entries tmp es fs2 = (True, fs')"
    using 2(2) by (auto simp: e w1 w2 split: if_splits)
  have v: "esz = int (length (se_bytes e))" "buf = Some (overwrite (se_bytes e) (replicate SCHEDULE_ENTRY_MAX_SZ 0))"
    using e se_encode_wf [OF wf] by simp_all
  have "fs_files fs1 tmp = Some (xs @ w16le (of_nat (length (se_bytes e))))"
    using f_write_ok [of tmp _ fs fs1 xs] w1 ok 2(4) by (simp add: v)
  then have "fs_files fs2 tmp = Some (xs @ sched_record e)"
    using f_write_ok [of tmp _ fs1 fs2] w2 ok by (simp add: v sched_record_def)
  with 2(1) [OF e [symmetric] _ w1 [symmetric] _ w2 [symmetric] _ ok(4)] 2(3) ok show ?case by simp
qed simp

lemma sched_read_record:
  assumes "se_wf e"
  shows "sched_read_entries (Suc i) (sched_record e @ rest) loaded arr = sched_read_entries i rest (loaded + 1) (arr[loaded := e])"
proof -
  let ?n = "length (se_bytes e)"
  have n: "?n \<le> 148" using length_se_bytes [OF assms] assms by (simp add: se_wf_def SCHEDULE_HDR_SIZE_def SCHEDULE_MAX_TITLE_def)
  then have w: "unat (of_nat ?n :: u16) = ?n" by (intro unat_of_nat_less) simp
  have r: "r16le (sched_record e @ rest) 0 = of_nat ?n" "drop 2 (sched_record e @ rest) = se_bytes e @ rest"
    by (simp_all add: sched_record_def wire_simps)
  have "schedule_entry_decode (Some (se_bytes e)) x = (0, Some e)" if "x = Some y" for x y
    using se_decode_bytes [OF assms, of "[]" y] that by simp
  then show ?thesis using n
    by (simp only: sched_read_entries.simps r w Let_def)
      (simp add: sched_record_def SCHEDULE_ENTRY_MAX_SZ_def SCHEDULE_HDR_SIZE_def SCHEDULE_MAX_TITLE_def)
qed

lemma sched_read_ok:
  "\<forall>e \<in> set es. se_wf e \<Longrightarrow> loaded + length es \<le> length arr \<Longrightarrow>
   sched_read_entries (length es) (concat (map sched_record es) @ rest) loaded arr
     = (loaded + length es, take loaded arr @ es @ drop (loaded + length es) arr)"
proof (induction es arbitrary: loaded arr)
  case (Cons e es)
  let ?arr = "arr[loaded := e]"
  have "sched_read_entries (length es) (concat (map sched_record es) @ rest) (loaded + 1) ?arr
      = (loaded + 1 + length es, take (loaded + 1) ?arr @ es @ drop (loaded + 1 + length es) ?arr)"
    using Cons.IH [of "loaded + 1" ?arr] Cons.prems by simp
  moreover have "take (loaded + 1) ?arr = take loaded arr @ [e]" using Cons.prems by (simp add: take_Suc_conv_app_nth)
  ultimately show ?case using sched_read_record [of e "length es" "concat (map sched_record es) @ rest" loaded arr] Cons.prems
    by (simp del: sched_read_entries.simps)
qed simp

lemma sched_tmp_other: "length path < 511 \<Longrightarrow> sched_tmp_name path \<noteq> path"
proof
  assume "length path < 511" "sched_tmp_name path = path"
  then have "length (sched_tmp_name path) = length path" by simp
  with \<open>length path < 511\<close> show False by (simp add: sched_tmp_name_def)
qed

lemma length_sched_file_header [simp]: "length (sched_file_header n) = SCHEDULE_STORE_HDR_SZ"
  by (simp add: sched_file_header_def SCHEDULE_STORE_HDR_SZ_def)

lemma sched_load_file:
  assumes "fs_files fs path = Some (sched_file_header (length es) @ concat (map sched_record es))"
    and "\<forall>e \<in> set es. se_wf e" and "length es < 65536" and "length es \<le> length arr"
  shows "schedule_store_load (Some path) (Some arr) (Some c) fs = (0, Some (es @ drop (length es) arr), Some (length es))"
proof -
  let ?f = "sched_file_header (length es) @ concat (map sched_record es)"
  have w: "unat (of_nat (length es) :: u16) = length es" using assms(3) by (intro unat_of_nat_less) simp
  have h: "r32le ?f 0 = SCHEDULE_STORE_MAGIC" "r16le ?f 4 = SCHEDULE_STORE_VERSION" "r16le ?f 6 = of_nat (length es)"
    by (simp_all add: sched_file_header_def wire_simps)
  have "sched_read_entries (length es) (concat (map sched_record es)) 0 arr = (length es, es @ drop (length es) arr)"
    using sched_read_ok [OF assms(2), of 0 arr "[]"] assms(4) by simp
  with assms(1,4) show ?thesis by (simp add: h w min_absorb1)
qed

text \<open>Saving a schedule is all or nothing.  When it reports success, loading the file gives back exactly the entries
  saved; when it fails, for want of room or because a file cannot be opened or renamed, the file that was there
  before is as it was.  No file but this one and its temporary is ever touched.  (Paths of fewer than 511 characters.)\<close>

theorem schedule_save_all_or_nothing:
  assumes "schedule_store_save (Some path) (Some es) fs = (rc, fs')" and "length path < 511"
    and "\<forall>e \<in> set es. se_wf e" and "length es < 65536"
  shows "(rc = 0 \<and> (\<forall>arr c. length es \<le> length arr \<longrightarrow>
            schedule_store_load (Some path) (Some arr) (Some c) fs' = (0, Some (es @ drop (length es) arr), Some (length es)))
          \<or> rc = -1 \<and> fs_files fs' path = fs_files fs path)
    \<and> (\<forall>name. name \<noteq> path \<and> name \<noteq> sched_tmp_name path \<longrightarrow> fs_files fs' name = fs_files fs name)"
proof -
  let ?t = "sched_tmp_name path"
  note tp = sched_tmp_other [OF assms(2)]
  show ?thesis
  proof (cases "f_create ?t fs")
    case None
    then show ?thesis using assms(1) by (simp add: Let_def)
  next
    case (Some fs1)
    obtain ok2 fs2 where w: "f_write ?t (sched_file_header (length es)) fs1 = (ok2, fs2)" by fastforce
    obtain ok3 fs3 where e: "sched_write_entries ?t es fs2 = (ok3, fs3)" by fastforce
    have o2: "fs_only ?t fs fs2" using f_create_only [OF Some] f_write_only [OF w] fs_only_trans by blast
    have o3: "fs_only ?t fs fs3" using o2 sched_write_only [OF e] fs_only_trans by blast
    have failed: "?thesis" if "rc = -1" "fs_only ?t fs fs'" using that tp by (auto simp: fs_only_def)
    consider "\<not> ok2" | "ok2" "\<not> ok3" | "ok2" "ok3" "\<not> fs_renames fs3" | "ok2" "ok3" "fs_renames fs3" by blast
    then show ?thesis
    proof cases
      case 1
      with assms(1) o2 show ?thesis by (intro failed) (auto simp: Let_def Some w f_remove_only)
    next
      case 2
      with assms(1) o3 show ?thesis by (intro failed) (auto simp: Let_def Some w e f_remove_only)
    next
      case 3
      with assms(1) o3 show ?thesis by (intro failed) (auto simp: Let_def Some w e f_rename_def)
    next
      case 4
      have "fs_files fs2 ?t = Some (sched_file_header (length es))"
        using f_write_ok [of ?t _ fs1 fs2 "[]"] w 4(1) f_create_only [OF Some] by simp
      then have f: "fs_files fs3 ?t = Some (sched_file_header (length es) @ concat (map sched_record es))"
        using sched_write_entries_ok [of ?t es fs2 fs3] e 4(2) assms(3) by simp
      have r: "rc = 0" "fs' = fs3\<lparr>fs_files := (fs_files fs3)(?t := None, path := fs_files fs3 ?t)\<rparr>"
        using assms(1) 4 by (simp_all add: Let_def Some w e f_rename_def)
      have "fs_files fs' path = Some (sched_file_header (length es) @ concat (map sched_record es))" using r f by simp
      from sched_load_file [OF this assms(3,4)] r o3 show ?thesis by (simp add: fs_only_def)
    qed
  qed
qed

definition sched_sample :: schedule_entry where
  "sched_sample = \<lparr>se_start_us = 5, se_duration_us = 60, se_source_type = 1, se_flags = SCHED_FLAG_ENABLED, se_title_len = 2,
     se_title = [104, 105] @ replicate 127 0, se_id = 0\<rparr>"

lemma schedule_save_all_or_nothing_witness:
  "\<exists>rc fs'. schedule_store_save (Some ''day'') (Some [sched_sample])
        \<lparr>fs_files = (\<lambda>_. None), fs_openable = (\<lambda>_. True), fs_room = 20, fs_renames = True\<rparr> = (rc, fs')
    \<and> (\<forall>name. name \<noteq> ''day'' \<and> name \<noteq> sched_tmp_name ''day'' \<longrightarrow> fs_files fs' name = None)"
proof -
  let ?fs = "\<lparr>fs_files = (\<lambda>_. None), fs_openable = (\<lambda>_. True), fs_room = 20, fs_renames = True\<rparr>"
  obtain rc fs' where s: "schedule_store_save (Some ''day'') (Some [sched_sample]) ?fs = (rc, fs')" by fastforce
  have "\<forall>e \<in> set [sched_sample]. se_wf e" by (simp add: sched_sample_def se_wf_def SCHEDULE_MAX_TITLE_def)
  from schedule_save_all_or_nothing [OF s _ this] s show ?thesis by auto
qed

text \<open>With a path of 511 characters the temporary file is the file itself, and a failed save deletes it.\<close>

lemma schedule_long_path_lost:
  assumes "length path = 511" and "fs_openable fs path" and "fs_room fs < SCHEDULE_STORE_HDR_SZ"
  shows "\<exists>fs'. schedule_store_save (Some path) (Some es) fs = (-1, fs') \<and> fs_files fs' path = None"
proof -
  have "sched_tmp_name path = path" using assms(1) by (simp add: sched_tmp_name_def)
  moreover have "\<not> 12 \<le> fs_room fs" using assms(3) by (simp add: SCHEDULE_STORE_HDR_SZ_def)
  ultimately show ?thesis using assms(2)
    by (simp add: Let_def f_create_def f_write_def sched_file_header_def f_remove_def)
qed

end
