(* ===== verification/Scheduler.thy ===== *)
theory Scheduler
  imports Schedule Slots
begin

text \<open>
  The schedule engine, \<^verbatim>\<open>src/src/scheduler/scheduler.c\<close>: a table of 256 slots that \<open>scheduler_tick\<close> goes through.  The
  callback is a parameter of the tick: it is called without the lock, so it is a function of the schedule and of a state
  of its own, and may change both.
\<close>

definition SCHEDULER_MAX_ENTRIES :: nat where "SCHEDULER_MAX_ENTRIES = 256"
definition DAY_US :: u64 where "DAY_US = 86400 * 1000000"

record sched_slot =
  sls_entry :: schedule_entry
  sls_fired :: bool
  sls_used :: bool

record scheduler =
  sch_slots :: "sched_slot list"
  sch_next_id :: u64

type_synonym 'w scheduler_fire = "schedule_entry \<Rightarrow> scheduler \<times> 'w \<Rightarrow> scheduler \<times> 'w"

definition sched_slot_zero :: sched_slot where
  "sched_slot_zero = \<lparr>sls_entry = schedule_entry_zero, sls_fired = False, sls_used = False\<rparr>"

definition scheduler_create :: "bool \<Rightarrow> scheduler option" where
  "scheduler_create mem = (if mem then Some \<lparr>sch_slots = replicate SCHEDULER_MAX_ENTRIES sched_slot_zero, sch_next_id = 1\<rparr> else None)"

text \<open>The caller's entry gets the identifier too.\<close>

fun scheduler_add :: "scheduler option \<Rightarrow> schedule_entry option \<Rightarrow> u64 \<times> scheduler option \<times> schedule_entry option" where
  "scheduler_add (Some s) (Some entry) =
     (case slot_free sls_used (sch_slots s) of
        None \<Rightarrow> (0, Some s, Some entry)
      | Some i \<Rightarrow> let entry = entry\<lparr>se_id := sch_next_id s\<rparr> in
          (se_id entry, Some (s\<lparr>sch_slots := (sch_slots s)[i := \<lparr>sls_entry = entry, sls_fired = False, sls_used = True\<rparr>],
             sch_next_id := sch_next_id s + 1\<rparr>), Some entry))"
| "scheduler_add s entry = (0, s, entry)"

definition sched_find :: "scheduler \<Rightarrow> u64 \<Rightarrow> nat option" where
  "sched_find s eid = slot_find sls_used (\<lambda>slot eid. se_id (sls_entry slot) = eid) (sch_slots s) eid"

fun scheduler_remove :: "scheduler option \<Rightarrow> u64 \<Rightarrow> int \<times> scheduler option" where
  "scheduler_remove None eid = (-1, None)"
| "scheduler_remove (Some s) eid =
     (case sched_find s eid of
        None \<Rightarrow> (-1, Some s)
      | Some i \<Rightarrow> (0, Some (s\<lparr>sch_slots := (sch_slots s)[i := (sch_slots s ! i)\<lparr>sls_used := False\<rparr>]\<rparr>)))"

text \<open>One round of the loop of \<open>scheduler_tick\<close>: the count, the schedule and the state of the callback.\<close>

definition sched_tick_slot :: "'w scheduler_fire option \<Rightarrow> u64 \<Rightarrow> nat \<Rightarrow> nat \<times> scheduler \<times> 'w \<Rightarrow> nat \<times> scheduler \<times> 'w" where
  "sched_tick_slot fire now_us i st = (case st of (n, s, w) \<Rightarrow>
     let slot = sch_slots s ! i in
     if \<not> sls_used slot \<or> sls_fired slot then st
     else if se_flags (sls_entry slot) AND SCHED_FLAG_ENABLED = 0 then st
     else if se_start_us (sls_entry slot) > now_us then st
     else case (case fire of None \<Rightarrow> (s, w) | Some f \<Rightarrow> f (sls_entry slot) (s, w)) of (s, w) \<Rightarrow>
       let slot = sch_slots s ! i in
       if fire \<noteq> None \<and> \<not> sls_used slot then (n + 1, s, w)
       else if se_flags (sls_entry slot) AND SCHED_FLAG_REPEAT \<noteq> 0
         then (n + 1, s\<lparr>sch_slots := (sch_slots s)[i :=
                slot\<lparr>sls_entry := (sls_entry slot)\<lparr>se_start_us := se_start_us (sls_entry slot) + DAY_US\<rparr>\<rparr>]\<rparr>, w)
         else (n + 1, s\<lparr>sch_slots := (sch_slots s)[i := slot\<lparr>sls_fired := True, sls_used := False\<rparr>]\<rparr>, w))"

fun scheduler_tick :: "'w scheduler_fire option \<Rightarrow> scheduler option \<Rightarrow> u64 \<Rightarrow> 'w \<Rightarrow> nat \<times> scheduler option \<times> 'w" where
  "scheduler_tick fire None now_us w = (0, None, w)"
| "scheduler_tick fire (Some s) now_us w =
     (case fold (sched_tick_slot fire now_us) [0..<SCHEDULER_MAX_ENTRIES] (0, s, w) of (n, s, w) \<Rightarrow> (n, Some s, w))"

definition scheduler_count :: "scheduler option \<Rightarrow> nat" where
  "scheduler_count s = (case s of None \<Rightarrow> 0 | Some s \<Rightarrow> count_if (\<lambda>slot. sls_used slot \<and> \<not> sls_fired slot) (sch_slots s))"

fun scheduler_get :: "scheduler option \<Rightarrow> u64 \<Rightarrow> schedule_entry option \<Rightarrow> int \<times> schedule_entry option" where
  "scheduler_get (Some s) eid (Some out) =
     (case sched_find s eid of None \<Rightarrow> (-1, Some out) | Some i \<Rightarrow> (0, Some (sls_entry (sch_slots s ! i))))"
| "scheduler_get s eid out = (-1, out)"

definition scheduler_clear :: "scheduler option \<Rightarrow> scheduler option" where
  "scheduler_clear s = map_option (\<lambda>s. s\<lparr>sch_slots := map (\<lambda>slot. slot\<lparr>sls_used := False, sls_fired := False\<rparr>) (sch_slots s)\<rparr>) s"

section \<open>A tick\<close>

text \<open>With a callback that leaves the schedule alone and keeps a list of its calls, the tick is one pass over the slots.\<close>

definition sched_record_fire :: "schedule_entry list scheduler_fire" where
  "sched_record_fire e st = (case st of (s, w) \<Rightarrow> (s, w @ [e]))"

definition sched_due :: "u64 \<Rightarrow> schedule_entry \<Rightarrow> bool" where
  "sched_due now e \<longleftrightarrow> se_flags e AND SCHED_FLAG_ENABLED \<noteq> 0 \<and> se_start_us e \<le> now"

definition sched_repeats :: "schedule_entry \<Rightarrow> bool" where
  "sched_repeats e \<longleftrightarrow> se_flags e AND SCHED_FLAG_REPEAT \<noteq> 0"

definition sched_next_day :: "schedule_entry \<Rightarrow> schedule_entry" where
  "sched_next_day e = e\<lparr>se_start_us := se_start_us e + DAY_US\<rparr>"

definition slot_due :: "u64 \<Rightarrow> sched_slot \<Rightarrow> bool" where
  "slot_due now slot \<longleftrightarrow> sls_used slot \<and> \<not> sls_fired slot \<and> sched_due now (sls_entry slot)"

definition slot_after :: "u64 \<Rightarrow> sched_slot \<Rightarrow> sched_slot" where
  "slot_after now slot = (if \<not> slot_due now slot then slot
     else if sched_repeats (sls_entry slot) then slot\<lparr>sls_entry := sched_next_day (sls_entry slot)\<rparr>
     else slot\<lparr>sls_fired := True, sls_used := False\<rparr>)"

lemma sched_tick_slot_quiet:
  assumes "i < length (sch_slots s)"
  shows "sched_tick_slot (Some sched_record_fire) now i (n, s, w) =
    (if slot_due now (sch_slots s ! i)
     then (n + 1, s\<lparr>sch_slots := (sch_slots s)[i := slot_after now (sch_slots s ! i)]\<rparr>, w @ [sls_entry (sch_slots s ! i)])
     else (n, s, w))"
  by (auto simp: sched_tick_slot_def slot_due_def slot_after_def sched_due_def sched_repeats_def sched_next_day_def
      sched_record_fire_def Let_def not_le)

lemma sched_tick_pass:
  assumes "n \<le> length (sch_slots s)"
  shows "fold (sched_tick_slot (Some sched_record_fire) now) [0..<n] (0, s, []) =
    (length (filter (slot_due now) (take n (sch_slots s))),
     s\<lparr>sch_slots := map (slot_after now) (take n (sch_slots s)) @ drop n (sch_slots s)\<rparr>,
     map sls_entry (filter (slot_due now) (take n (sch_slots s))))"
  using assms
proof (induction n)
  case 0
  then show ?case by simp
next
  case (Suc n)
  let ?xs = "sch_slots s"
  let ?s = "s\<lparr>sch_slots := map (slot_after now) (take n ?xs) @ drop n ?xs\<rparr>"
  have i: "n < length ?xs" "sch_slots ?s ! n = ?xs ! n" "n < length (sch_slots ?s)" using Suc.prems by (auto simp: nth_append)
  have t: "take (Suc n) ?xs = take n ?xs @ [?xs ! n]" using i by (simp add: take_Suc_conv_app_nth)
  have d: "drop n ?xs = ?xs ! n # drop (Suc n) ?xs" using i by (simp add: Cons_nth_drop_Suc)
  have u: "(map (slot_after now) (take n ?xs) @ drop n ?xs)[n := y] = map (slot_after now) (take n ?xs) @ y # drop (Suc n) ?xs" for y
    using i by (simp add: d list_update_append)
  have same: "\<not> slot_due now (?xs ! n) \<Longrightarrow> slot_after now (?xs ! n) = ?xs ! n" by (simp add: slot_after_def)
  show ?case using Suc.IH Suc.prems sched_tick_slot_quiet [OF i(3)] i(2)
    by (simp add: t u same) (simp add: d)
qed

lemma scheduler_tick_quiet:
  assumes "length (sch_slots s) = SCHEDULER_MAX_ENTRIES"
  shows "scheduler_tick (Some sched_record_fire) (Some s) now [] =
    (length (filter (slot_due now) (sch_slots s)), Some (s\<lparr>sch_slots := map (slot_after now) (sch_slots s)\<rparr>),
     map sls_entry (filter (slot_due now) (sch_slots s)))"
  using sched_tick_pass [of SCHEDULER_MAX_ENTRIES s now] assms by simp

declare scheduler_tick.simps [simp del]

section \<open>The specification: a multiset of entries\<close>

datatype sched_op = SchAdd schedule_entry | SchRemove u64 | SchTick u64 | SchCount | SchGet u64 | SchClear

datatype sched_ans = SchId u64 | SchRc int | SchFired nat "schedule_entry multiset" | SchNum nat
  | SchFound "schedule_entry option" | SchDone

fun sched_call :: "sched_op \<Rightarrow> scheduler option \<Rightarrow> sched_ans \<times> scheduler option" where
  "sched_call (SchAdd e) s = (case scheduler_add s (Some e) of (i, s', e') \<Rightarrow> (SchId i, s'))"
| "sched_call (SchRemove i) s = (case scheduler_remove s i of (rc, s') \<Rightarrow> (SchRc rc, s'))"
| "sched_call (SchTick now) s = (case scheduler_tick (Some sched_record_fire) s now [] of (n, s', w) \<Rightarrow> (SchFired n (mset w), s'))"
| "sched_call SchCount s = (SchNum (scheduler_count s), s)"
| "sched_call (SchGet i) s = (case scheduler_get s i (Some schedule_entry_zero) of (rc, e) \<Rightarrow> (SchFound (if rc = 0 then e else None), s))"
| "sched_call SchClear s = (SchDone, scheduler_clear s)"

text \<open>What is scheduled, and the next identifier.  A tick fires everything that is enabled and due, once; what does not
  repeat is gone, what repeats is put off by a day.\<close>

fun sched_spec :: "sched_op \<Rightarrow> schedule_entry multiset \<times> nat \<Rightarrow> sched_ans \<times> (schedule_entry multiset \<times> nat)" where
  "sched_spec (SchAdd e) (M, next) = (if size M < SCHEDULER_MAX_ENTRIES
     then (SchId (of_nat next), (add_mset (e\<lparr>se_id := of_nat next\<rparr>) M, next + 1)) else (SchId 0, (M, next)))"
| "sched_spec (SchRemove i) (M, next) =
     (SchRc (if \<exists>e \<in># M. se_id e = i then 0 else -1), (filter_mset (\<lambda>e. se_id e \<noteq> i) M, next))"
| "sched_spec (SchTick now) (M, next) = (let F = filter_mset (sched_due now) M in
     (SchFired (size F) F, (filter_mset (\<lambda>e. \<not> sched_due now e) M + image_mset sched_next_day (filter_mset sched_repeats F), next)))"
| "sched_spec SchCount (M, next) = (SchNum (size M), (M, next))"
| "sched_spec (SchGet i) (M, next) = (SchFound (if \<exists>e \<in># M. se_id e = i then Some (THE e. e \<in># M \<and> se_id e = i) else None), (M, next))"
| "sched_spec SchClear (M, next) = (SchDone, ({#}, next))"

definition sched_live :: "scheduler \<Rightarrow> schedule_entry multiset" where
  "sched_live s = image_mset sls_entry (slot_live sls_used (sch_slots s))"

definition sched_ok :: "scheduler \<Rightarrow> bool" where
  "sched_ok s \<longleftrightarrow> length (sch_slots s) = SCHEDULER_MAX_ENTRIES \<and> (\<forall>slot \<in> set (sch_slots s). sls_used slot \<longrightarrow> \<not> sls_fired slot)"

definition sched_ids :: "schedule_entry multiset \<Rightarrow> nat \<Rightarrow> bool" where
  "sched_ids M next \<longleftrightarrow> (\<forall>e \<in># M. unat (se_id e) < next) \<and> keys_once se_id M"

definition sched_rel :: "nat \<Rightarrow> scheduler option \<Rightarrow> schedule_entry multiset \<times> nat \<Rightarrow> bool" where
  "sched_rel n so t \<longleftrightarrow> (\<exists>s. so = Some s \<and> sched_ok s \<and> fst t = sched_live s \<and> unat (sch_next_id s) = snd t
     \<and> snd t + n < 2 ^ 64 \<and> sched_ids (fst t) (snd t))"

lemma sched_find_SomeD:
  assumes "sched_find s i = Some j"
  shows "j < length (sch_slots s) \<and> sls_used (sch_slots s ! j) \<and> se_id (sls_entry (sch_slots s ! j)) = i
    \<and> sls_entry (sch_slots s ! j) \<in># sched_live s
    \<and> sched_live s = add_mset (sls_entry (sch_slots s ! j))
        (sched_live (s\<lparr>sch_slots := (sch_slots s)[j := (sch_slots s ! j)\<lparr>sls_used := False\<rparr>]\<rparr>))"
  using slot_findD [OF assms [unfolded sched_find_def]]
    slot_live_clear [OF assms [unfolded sched_find_def], of "(sch_slots s ! j)\<lparr>sls_used := False\<rparr>"]
  by (simp add: sched_live_def)

lemma sched_find_NoneD: "sched_find s i = None \<longleftrightarrow> (\<forall>e \<in># sched_live s. se_id e \<noteq> i)"
  by (simp add: sched_find_def slot_find_None sched_live_def)

lemma sched_live_simps [simp]: "sched_live (s\<lparr>sch_next_id := k\<rparr>) = sched_live s"
  by (simp add: sched_live_def)

lemma sched_due_live:
  assumes "sched_ok s"
  shows "mset (map sls_entry (filter (slot_due now) (sch_slots s))) = filter_mset (sched_due now) (sched_live s)"
proof -
  have "filter (slot_due now) (sch_slots s) = filter (\<lambda>slot. sched_due now (sls_entry slot)) (filter sls_used (sch_slots s))"
    using assms by (auto simp: sched_ok_def slot_due_def intro: filter_cong)
  then show ?thesis by (simp add: sched_live_def slot_live_def filter_mset_image_mset flip: mset_filter)
qed

lemma sched_after_live:
  "\<forall>slot \<in> set xs. sls_used slot \<longrightarrow> \<not> sls_fired slot \<Longrightarrow>
   image_mset sls_entry (filter_mset sls_used (mset (map (slot_after now) xs))) =
     filter_mset (\<lambda>e. \<not> sched_due now e) (image_mset sls_entry (filter_mset sls_used (mset xs)))
     + image_mset sched_next_day (filter_mset sched_repeats (filter_mset (sched_due now) (image_mset sls_entry (filter_mset sls_used (mset xs)))))"
proof (induction xs)
  case (Cons x xs)
  have "slot_due now x \<longleftrightarrow> sls_used x \<and> sched_due now (sls_entry x)" using Cons.prems by (auto simp: slot_due_def)
  then show ?case using Cons.IH Cons.prems
    by (cases "sls_used x"; cases "sched_due now (sls_entry x)"; cases "sched_repeats (sls_entry x)") (simp_all add: slot_after_def)
qed simp

lemma sched_add_rel:
  assumes "sched_rel (Suc n) (Some s) (M, next)"
  shows "fst (sched_call (SchAdd e) (Some s)) = fst (sched_spec (SchAdd e) (M, next))
    \<and> sched_rel n (snd (sched_call (SchAdd e) (Some s))) (snd (sched_spec (SchAdd e) (M, next)))"
proof -
  have r: "sched_ok s" "M = sched_live s" "unat (sch_next_id s) = next" "next + Suc n < 2 ^ 64" "sched_ids M next"
    using assms unfolding sched_rel_def by auto
  have size: "size M = size (slot_live sls_used (sch_slots s))" by (simp add: r(2) sched_live_def)
  have len: "length (sch_slots s) = SCHEDULER_MAX_ENTRIES" using r(1) by (simp add: sched_ok_def)
  show ?thesis
  proof (cases "slot_free sls_used (sch_slots s)")
    case None
    then have "size M = SCHEDULER_MAX_ENTRIES" using slot_free_None size len by metis
    with None r show ?thesis by (auto simp: sched_rel_def)
  next
    case (Some i)
    have lt: "size M < SCHEDULER_MAX_ENTRIES"
      using Some slot_free_None [of sls_used "sch_slots s"] size_slot_live_le [of sls_used "sch_slots s"] size len by fastforce
    have id: "sch_next_id s = of_nat next" using r(3) by auto
    have nx: "unat (sch_next_id s + 1) = next + 1"
      using r(3,4) by (simp add: unat_word_ariths(1) unsigned_1)
    let ?e = "e\<lparr>se_id := sch_next_id s\<rparr>"
    let ?s = "s\<lparr>sch_slots := (sch_slots s)[i := \<lparr>sls_entry = ?e, sls_fired = False, sls_used = True\<rparr>], sch_next_id := sch_next_id s + 1\<rparr>"
    have live: "sched_live ?s = add_mset ?e M"
      using slot_live_fill [OF Some, of "\<lparr>sls_entry = ?e, sls_fired = False, sls_used = True\<rparr>"] by (simp add: sched_live_def r(2))
    have "sch_next_id s \<notin> se_id ` set_mset M" using r(3,5) by (auto simp: sched_ids_def)
    then have ids: "sched_ids (add_mset ?e M) (next + 1)" using r(3,5) by (auto simp: sched_ids_def keys_once_add)
    have "sched_ok ?s" using r(1) by (auto simp: sched_ok_def dest!: set_update_subset_insert [THEN subsetD])
    with Some lt live ids nx r(4) show ?thesis by (simp add: sched_rel_def Let_def id)
  qed
qed

lemma sched_remove_rel:
  assumes "sched_rel (Suc n) (Some s) (M, next)"
  shows "fst (sched_call (SchRemove k) (Some s)) = fst (sched_spec (SchRemove k) (M, next))
    \<and> sched_rel n (snd (sched_call (SchRemove k) (Some s))) (snd (sched_spec (SchRemove k) (M, next)))"
proof -
  have r: "sched_ok s" "M = sched_live s" "unat (sch_next_id s) = next" "next + Suc n < 2 ^ 64" "sched_ids M next"
    using assms unfolding sched_rel_def by auto
  show ?thesis
  proof (cases "sched_find s k")
    case None
    then have "\<forall>e \<in># M. se_id e \<noteq> k" by (simp add: r(2) sched_find_NoneD)
    then have "filter_mset (\<lambda>e. se_id e \<noteq> k) M = M" by (simp add: filter_mset_eq_conv)
    with None r \<open>\<forall>e \<in># M. se_id e \<noteq> k\<close> show ?thesis by (auto simp: sched_rel_def)
  next
    case (Some j)
    let ?s = "s\<lparr>sch_slots := (sch_slots s)[j := (sch_slots s ! j)\<lparr>sls_used := False\<rparr>]\<rparr>"
    note f = sched_find_SomeD [OF Some]
    have M: "M = add_mset (sls_entry (sch_slots s ! j)) (sched_live ?s)" using f r(2) by simp
    have "sched_ids (sched_live ?s) next" using r(5) by (simp add: M sched_ids_def keys_once_add)
    moreover have "filter_mset (\<lambda>e. se_id e \<noteq> k) M = sched_live ?s"
      using keys_once_remove [of se_id "sls_entry (sch_slots s ! j)" "sched_live ?s"] r(5) f unfolding M [symmetric]
      by (simp add: sched_ids_def)
    moreover have "sched_ok ?s" using r(1) by (auto simp: sched_ok_def dest!: set_update_subset_insert [THEN subsetD])
    moreover have "\<exists>e \<in># M. se_id e = k" using f r(2) by auto
    ultimately show ?thesis using Some r(3,4) by (simp add: sched_rel_def)
  qed
qed

lemma sched_tick_rel:
  assumes "sched_rel (Suc n) (Some s) (M, next)"
  shows "fst (sched_call (SchTick now) (Some s)) = fst (sched_spec (SchTick now) (M, next))
    \<and> sched_rel n (snd (sched_call (SchTick now) (Some s))) (snd (sched_spec (SchTick now) (M, next)))"
proof -
  have r: "sched_ok s" "M = sched_live s" "unat (sch_next_id s) = next" "next + Suc n < 2 ^ 64" "sched_ids M next"
    using assms unfolding sched_rel_def by auto
  let ?s = "s\<lparr>sch_slots := map (slot_after now) (sch_slots s)\<rparr>"
  let ?F = "filter_mset (sched_due now) M"
  let ?M = "filter_mset (\<lambda>e. \<not> sched_due now e) M + image_mset sched_next_day (filter_mset sched_repeats ?F)"
  have len: "length (sch_slots s) = SCHEDULER_MAX_ENTRIES" using r(1) by (simp add: sched_ok_def)
  note t = scheduler_tick_quiet [OF len, of now] sched_due_live [OF r(1), of now]
  have live: "sched_live ?s = ?M"
    using sched_after_live [of "sch_slots s" now] r(1) by (simp add: sched_live_def slot_live_def r(2) sched_ok_def)
  have n: "length (filter (slot_due now) (sch_slots s)) = size ?F" using t(2) r(2) by (metis length_map size_mset)
  have "image_mset se_id (image_mset sched_next_day X) = image_mset se_id X" for X
    by (simp add: sched_next_day_def multiset.map_comp comp_def)
  then have "image_mset se_id ?M = image_mset se_id (filter_mset (\<lambda>e. \<not> sched_due now e) M + filter_mset sched_repeats ?F)" by simp
  also have "\<dots> \<subseteq># image_mset se_id M"
    by (rule image_mset_subseteq_mono) (metis multiset_filter_subset multiset_partition subset_mset.add_left_mono union_commute)
  finally have "image_mset se_id ?M \<subseteq># image_mset se_id M" .
  then have "keys_once se_id ?M" using r(5) unfolding sched_ids_def by (blast intro: keys_once_sub)
  then have "sched_ids ?M next" using r(5) by (auto simp: sched_ids_def sched_next_day_def)
  moreover have "sched_ok ?s" using r(1) by (auto simp: sched_ok_def slot_after_def)
  ultimately show ?thesis using t n live r by (simp add: sched_rel_def Let_def)
qed

lemma sched_get_rel:
  assumes "sched_rel (Suc n) (Some s) (M, next)"
  shows "fst (sched_call (SchGet k) (Some s)) = fst (sched_spec (SchGet k) (M, next))"
proof (cases "sched_find s k")
  case None
  then have "\<forall>e \<in># sched_live s. se_id e \<noteq> k" by (simp add: sched_find_NoneD)
  then show ?thesis using assms None by (auto simp: sched_rel_def)
next
  case (Some j)
  have M: "M = sched_live s" "keys_once se_id M" using assms by (auto simp: sched_rel_def sched_ids_def)
  note f = sched_find_SomeD [OF Some]
  then have e: "\<exists>e \<in># M. se_id e = k" "(THE e. e \<in># M \<and> se_id e = k) = sls_entry (sch_slots s ! j)"
    using keys_once_the [OF M(2), of "sls_entry (sch_slots s ! j)"] M(1) by auto
  then show ?thesis using Some by simp
qed

lemma sched_count_live: "sched_ok s \<Longrightarrow> scheduler_count (Some s) = size (sched_live s)"
proof -
  assume "sched_ok s"
  then have "filter (\<lambda>slot. sls_used slot \<and> \<not> sls_fired slot) (sch_slots s) = filter sls_used (sch_slots s)"
    by (intro filter_cong) (auto simp: sched_ok_def)
  then show ?thesis by (simp add: scheduler_count_def sched_live_def size_slot_live count_if_def)
qed

interpretation sched: budget_simulation sched_call sched_spec sched_rel "\<lambda>_. True"
proof
  fix n so t and op :: sched_op
  assume r: "sched_rel (Suc n) so t"
  then obtain s M nid where st: "so = Some s" "t = (M, nid)" by (cases t) (auto simp: sched_rel_def)
  note r = r [unfolded st]
  have keep: "sched_rel n (Some s) (M, nid)" using r by (auto simp: sched_rel_def)
  show "fst (sched_call op so) = fst (sched_spec op t) \<and> sched_rel n (snd (sched_call op so)) (snd (sched_spec op t))"
  proof (cases op)
    case (SchGet k)
    then show ?thesis using sched_get_rel [OF r, of k] keep by (simp add: st del: scheduler_get.simps split: prod.split)
  next
    case SchCount
    then show ?thesis using sched_count_live keep by (auto simp: st sched_rel_def)
  next
    case SchClear
    have "filter_mset sls_used (mset (map (\<lambda>slot. slot\<lparr>sls_used := False, sls_fired := False\<rparr>) xs)) = {#}" for xs
      by (auto simp: filter_mset_eq_conv)
    moreover obtain c where c: "scheduler_clear (Some s) = Some c" by (simp add: scheduler_clear_def)
    moreover from c have d: "sch_next_id c = sch_next_id s"
        "sch_slots c = map (\<lambda>slot. slot\<lparr>sls_used := False, sls_fired := False\<rparr>) (sch_slots s)"
      by (auto simp: scheduler_clear_def)
    ultimately have "sched_live c = {#}" "sched_ok c" using keep by (simp_all add: sched_live_def slot_live_def sched_ok_def sched_rel_def)
    with c d SchClear keep show ?thesis by (auto simp: st sched_rel_def sched_ids_def)
  qed (use sched_add_rel [OF r] sched_remove_rel [OF r] sched_tick_rel [OF r] in
      \<open>simp_all add: st del: sched_call.simps sched_spec.simps\<close>)
qed

text \<open>C20: Under any calls (fewer than \<open>2\<^sup>6\<^sup>4 - 1\<close> of them) and a callback that leaves the schedule alone, the scheduler is a
  multiset of at most 256 entries under fresh identifiers: a tick fires every entry that is enabled and due, exactly
  once each, and no other; it keeps those that repeat, put off by a day, and those not yet due, and drops the rest.\<close>

theorem scheduler_refines_agenda:
  assumes "length ops < 2 ^ 64 - 1"
  shows "fst (run_calls sched_call ops (scheduler_create True)) = fst (run_calls sched_spec ops ({#}, 1))"
proof -
  have "sched_rel (length ops + 0) (scheduler_create True) ({#}, 1)"
    using assms by (auto simp: sched_rel_def scheduler_create_def sched_ok_def sched_live_def sched_ids_def sched_slot_zero_def)
  then show ?thesis by (rule sched.run [THEN conjunct1]) simp
qed

lemma scheduler_refines_agenda_witness:
  "fst (run_calls sched_call [SchAdd sched_sample, SchTick 4, SchTick 5, SchCount] (scheduler_create True))
    = [SchId 1, SchFired 0 {#}, SchFired 1 {#sched_sample\<lparr>se_id := 1\<rparr>#}, SchNum 0]"
  by (subst scheduler_refines_agenda)
    (simp_all add: sched_due_def sched_repeats_def sched_sample_def SCHEDULER_MAX_ENTRIES_def SCHED_FLAG_ENABLED_def SCHED_FLAG_REPEAT_def)

section \<open>A callback that reschedules\<close>

lemma SCHEDULER_pos: "0 < SCHEDULER_MAX_ENTRIES" by (simp add: SCHEDULER_MAX_ENTRIES_def)

text \<open>What a callback does that takes its entry out and puts another one in.\<close>

definition sched_replace_fire :: "schedule_entry \<Rightarrow> schedule_entry list scheduler_fire" where
  "sched_replace_fire new e st = (case st of (s, w) \<Rightarrow>
     (the (fst (snd (scheduler_add (snd (scheduler_remove (Some s) (se_id e))) (Some new)))), w @ [e]))"

text \<open>The check after the callback looks only at whether the slot is in use.  If the callback for a due entry removes
  it and schedules a new one, the new entry takes the same slot and, if it does not repeat, is thrown away: it
  is never fired, however far in the future its start is, and nothing is scheduled afterwards.\<close>

theorem scheduler_reschedule_lost:
  assumes "sched_due now e" and "\<not> sched_repeats new"
  shows "\<exists>s1 s2. scheduler_add (scheduler_create True) (Some e) = (1, Some s1, Some (e\<lparr>se_id := 1\<rparr>))
    \<and> scheduler_tick (Some (sched_replace_fire new)) (Some s1) now [] = (1, Some s2, [e\<lparr>se_id := 1\<rparr>])
    \<and> scheduler_count (Some s2) = 0"
proof -
  let ?z = "replicate 255 sched_slot_zero" and ?e = "e\<lparr>se_id := 1\<rparr>" and ?n = "new\<lparr>se_id := 2\<rparr>"
  let ?s1 = "\<lparr>sch_slots = \<lparr>sls_entry = ?e, sls_fired = False, sls_used = True\<rparr> # ?z, sch_next_id = 2\<rparr>"
  let ?s2 = "\<lparr>sch_slots = \<lparr>sls_entry = ?n, sls_fired = True, sls_used = False\<rparr> # ?z, sch_next_id = 3\<rparr>"
  have z: "replicate SCHEDULER_MAX_ENTRIES sched_slot_zero = sched_slot_zero # ?z"
    by (simp add: SCHEDULER_MAX_ENTRIES_def flip: replicate_Suc)
  have u: "\<not> sls_used sched_slot_zero" by (simp add: sched_slot_zero_def)
  have add: "scheduler_add (scheduler_create True) (Some e) = (1, Some ?s1, Some ?e)"
    unfolding scheduler_create_def z by (simp add: slot_free_def u Let_def del: replicate.simps)
  have d: "se_flags e AND SCHED_FLAG_ENABLED \<noteq> 0" "se_start_us e \<le> now" "se_flags new AND SCHED_FLAG_REPEAT = 0"
    using assms by (simp_all add: sched_due_def sched_repeats_def)
  have first: "sched_tick_slot (Some (sched_replace_fire new)) now 0 (0, ?s1, []) = (1, ?s2, [?e])"
    using d by (simp add: sched_tick_slot_def sched_replace_fire_def sched_find_def slot_find_def slot_free_def Let_def not_less
        del: replicate.simps)
  have "fold (sched_tick_slot (Some (sched_replace_fire new)) now) js (1, ?s2, [?e]) = (1, ?s2, [?e])"
    if "\<forall>i \<in> set js. 1 \<le> i \<and> i < SCHEDULER_MAX_ENTRIES" for js
    using that
  proof (induction js)
    case (Cons i js)
    have "i - 1 < 255" "i \<noteq> 0" using Cons.prems by (auto simp: SCHEDULER_MAX_ENTRIES_def)
    then have "sch_slots ?s2 ! i = sched_slot_zero" by (simp add: nth_Cons' del: replicate.simps)
    then have "sched_tick_slot (Some (sched_replace_fire new)) now i (1, ?s2, [?e]) = (1, ?s2, [?e])"
      by (simp add: sched_tick_slot_def sched_slot_zero_def Let_def del: replicate.simps)
    with Cons show ?case by simp
  qed simp
  from this [of "[Suc 0..<SCHEDULER_MAX_ENTRIES]"] upt_conv_Cons [of 0 SCHEDULER_MAX_ENTRIES]
  have "scheduler_tick (Some (sched_replace_fire new)) (Some ?s1) now [] = (1, Some ?s2, [?e])"
    by (simp add: scheduler_tick.simps first SCHEDULER_pos del: replicate.simps)
  moreover have "scheduler_count (Some ?s2) = 0" by (simp add: scheduler_count_def sched_slot_zero_def del: replicate.simps)
  ultimately show ?thesis using add by blast
qed

lemma scheduler_reschedule_lost_witness:
  "\<exists>s1 s2. scheduler_tick (Some (sched_replace_fire (sched_sample\<lparr>se_start_us := 1000\<rparr>))) (Some s1) 5 [] = (1, Some s2, [sched_sample\<lparr>se_id := 1\<rparr>])
    \<and> scheduler_count (Some s2) = 0"
  using scheduler_reschedule_lost [of 5 sched_sample "sched_sample\<lparr>se_start_us := 1000\<rparr>"]
  by (auto simp: sched_due_def sched_repeats_def sched_sample_def SCHED_FLAG_ENABLED_def SCHED_FLAG_REPEAT_def)

end
