(* ===== verification/Sec_Session.thy ===== *)
theory Sec_Session
  imports Slots
begin

text \<open>
  Login sessions of the security services: \<^verbatim>\<open>src/src/security/session_manager.c\<close> and \<^verbatim>\<open>user_auth.c\<close>.  The static variables of
  a file are a record.  The random bytes that a call draws from libsodium, the wall clock and the answers of libsodium's
  password functions are arguments.
\<close>

definition hex_lower :: string where "hex_lower = ''0123456789abcdef''"
definition hex_upper :: string where "hex_upper = ''0123456789ABCDEF''"

definition hex_pair :: "string \<Rightarrow> u8 \<Rightarrow> string" where
  "hex_pair hex b = [hex ! unat (drop_bit 4 b AND 0xF), hex ! unat (b AND 0xF)]"

definition hex_string :: "u8 list \<Rightarrow> string" where
  "hex_string bytes = concat (map (hex_pair hex_lower) bytes)"

section \<open>The session manager\<close>

definition SM_MAX_SESSIONS :: nat where "SM_MAX_SESSIONS = 256"
definition SM_MAX_USERNAME :: nat where "SM_MAX_USERNAME = 64"
definition SESSION_ID_LEN :: nat where "SESSION_ID_LEN = 65"

record login_session =
  lgs_session_id :: string
  lgs_username :: string
  lgs_creation_time_us :: u64
  lgs_expiration_time_us :: u64
  lgs_is_active :: bool
  lgs_session_secret :: "u8 list"

record session_mgr =
  smg_sessions :: "login_session list"
  smg_count :: nat
  smg_timeout_sec :: u32

definition login_session_zero :: login_session where
  "login_session_zero = \<lparr>lgs_session_id = [], lgs_username = [], lgs_creation_time_us = 0, lgs_expiration_time_us = 0,
     lgs_is_active = False, lgs_session_secret = replicate 32 0\<rparr>"

text \<open>\<open>sodium\<close> says whether libsodium initialises.\<close>

definition session_manager_init :: "bool \<Rightarrow> u32 \<Rightarrow> int \<times> session_mgr" where
  "session_manager_init sodium timeout_sec = (if sodium then 0 else -1,
     \<lparr>smg_sessions = replicate SM_MAX_SESSIONS login_session_zero, smg_count = 0,
      smg_timeout_sec = if timeout_sec > 0 then timeout_sec else 3600\<rparr>)"

definition sm_expiry :: "session_mgr \<Rightarrow> u64 \<Rightarrow> u64" where
  "sm_expiry s now_us = now_us + ucast (smg_timeout_sec s) * 1000000"

text \<open>The identifier comes back through the out-parameter.\<close>

fun session_manager_create :: "u8 list \<Rightarrow> u8 list \<Rightarrow> u64 \<Rightarrow> string option \<Rightarrow> string option \<Rightarrow> session_mgr \<Rightarrow>
    int \<times> string option \<times> session_mgr" where
  "session_manager_create id_bytes secret now_us (Some username) (Some session_id) s =
     (if smg_count s \<ge> SM_MAX_SESSIONS then (-1, Some session_id, s)
      else case slot_free lgs_is_active (smg_sessions s) of
        None \<Rightarrow> (-1, Some session_id, s)
      | Some slot \<Rightarrow> (0, Some (hex_string id_bytes), s\<lparr>smg_sessions := (smg_sessions s)[slot :=
            \<lparr>lgs_session_id = hex_string id_bytes, lgs_username = cstr_fit SM_MAX_USERNAME username,
             lgs_creation_time_us = now_us, lgs_expiration_time_us = sm_expiry s now_us, lgs_is_active = True,
             lgs_session_secret = secret\<rparr>], smg_count := smg_count s + 1\<rparr>))"
| "session_manager_create id_bytes secret now_us username session_id s = (-1, session_id, s)"

definition sm_find :: "session_mgr \<Rightarrow> string \<Rightarrow> nat option" where
  "sm_find s sid = first_idx (\<lambda>e. lgs_is_active e \<and> lgs_session_id e = sid) (smg_sessions s)"

fun session_manager_is_valid :: "string option \<Rightarrow> u64 \<Rightarrow> session_mgr \<Rightarrow> bool" where
  "session_manager_is_valid None now_us s = False"
| "session_manager_is_valid (Some sid) now_us s =
     (case sm_find s sid of None \<Rightarrow> False | Some i \<Rightarrow> now_us < lgs_expiration_time_us (smg_sessions s ! i))"

fun session_manager_refresh :: "string option \<Rightarrow> u64 \<Rightarrow> session_mgr \<Rightarrow> int \<times> session_mgr" where
  "session_manager_refresh None now_us s = (-1, s)"
| "session_manager_refresh (Some sid) now_us s =
     (case sm_find s sid of None \<Rightarrow> (-1, s)
      | Some i \<Rightarrow> (0, s\<lparr>smg_sessions := (smg_sessions s)[i := (smg_sessions s ! i)\<lparr>lgs_expiration_time_us := sm_expiry s now_us\<rparr>]\<rparr>))"

definition sm_wipe :: "login_session \<Rightarrow> login_session" where
  "sm_wipe e = e\<lparr>lgs_is_active := False, lgs_session_secret := replicate 32 0, lgs_session_id := []\<rparr>"

fun session_manager_invalidate :: "string option \<Rightarrow> session_mgr \<Rightarrow> int \<times> session_mgr" where
  "session_manager_invalidate None s = (-1, s)"
| "session_manager_invalidate (Some sid) s =
     (case sm_find s sid of None \<Rightarrow> (-1, s)
      | Some i \<Rightarrow> (0, s\<lparr>smg_sessions := (smg_sessions s)[i := sm_wipe (smg_sessions s ! i)], smg_count := smg_count s - 1\<rparr>))"

definition session_manager_cleanup_expired :: "u64 \<Rightarrow> session_mgr \<Rightarrow> nat \<times> session_mgr" where
  "session_manager_cleanup_expired now_us s =
     (let n = count_if (\<lambda>e. lgs_is_active e \<and> now_us \<ge> lgs_expiration_time_us e) (smg_sessions s) in
      (n, s\<lparr>smg_sessions := map (\<lambda>e. if lgs_is_active e \<and> now_us \<ge> lgs_expiration_time_us e then sm_wipe e else e) (smg_sessions s),
            smg_count := smg_count s - n\<rparr>))"

definition session_manager_cleanup :: "session_mgr \<Rightarrow> session_mgr" where
  "session_manager_cleanup s = s\<lparr>smg_sessions := replicate SM_MAX_SESSIONS login_session_zero, smg_count := 0\<rparr>"

section \<open>Sessions as a map\<close>

datatype sm_op = SmCreate "u8 list" "u8 list" u64 string | SmValid string u64 | SmRefresh string u64 | SmInvalidate string
  | SmSweep u64

datatype sm_ans = SmBool bool | SmInt int | SmCreated int "string option"

fun sm_call :: "sm_op \<Rightarrow> session_mgr \<Rightarrow> sm_ans \<times> session_mgr" where
  "sm_call (SmCreate idb sec now u) s = (case session_manager_create idb sec now (Some u) (Some []) s of (r, sid, s) \<Rightarrow> (SmCreated r sid, s))"
| "sm_call (SmValid sid now) s = (SmBool (session_manager_is_valid (Some sid) now s), s)"
| "sm_call (SmRefresh sid now) s = (case session_manager_refresh (Some sid) now s of (r, s) \<Rightarrow> (SmInt r, s))"
| "sm_call (SmInvalidate sid) s = (case session_manager_invalidate (Some sid) s of (r, s) \<Rightarrow> (SmInt r, s))"
| "sm_call (SmSweep now) s = (case session_manager_cleanup_expired now s of (n, s) \<Rightarrow> (SmInt (int n), s))"

text \<open>Who is logged in under which identifier, and until when.\<close>

type_synonym sm_map = "string \<rightharpoonup> string \<times> u64"

fun sm_spec :: "u64 \<Rightarrow> sm_op \<Rightarrow> sm_map \<Rightarrow> sm_ans \<times> sm_map" where
  "sm_spec life (SmCreate idb sec now u) m = (if card (dom m) < SM_MAX_SESSIONS
     then (SmCreated 0 (Some (hex_string idb)), m(hex_string idb \<mapsto> (cstr_fit SM_MAX_USERNAME u, now + life))) else (SmCreated (-1) (Some []), m))"
| "sm_spec life (SmValid sid now) m = (SmBool (case m sid of None \<Rightarrow> False | Some (u, e) \<Rightarrow> now < e), m)"
| "sm_spec life (SmRefresh sid now) m = (case m sid of None \<Rightarrow> (SmInt (-1), m) | Some (u, e) \<Rightarrow> (SmInt 0, m(sid \<mapsto> (u, now + life))))"
| "sm_spec life (SmInvalidate sid) m = (SmInt (if m sid = None then -1 else 0), m(sid := None))"
| "sm_spec life (SmSweep now) m = (let m' = (\<lambda>k. case m k of None \<Rightarrow> None | Some (u, e) \<Rightarrow> if e \<le> now then None else Some (u, e)) in
     (SmInt (int (card (dom m) - card (dom m'))), m'))"

definition lgs_val :: "login_session \<Rightarrow> string \<times> u64" where
  "lgs_val e = (lgs_username e, lgs_expiration_time_us e)"

abbreviation sm_assoc :: "login_session list \<Rightarrow> (string \<times> string \<times> u64) list" where
  "sm_assoc es \<equiv> slot_assoc lgs_is_active lgs_session_id lgs_val es"

fun sm_new_ids :: "sm_op list \<Rightarrow> string list" where
  "sm_new_ids [] = []"
| "sm_new_ids (SmCreate idb sec now u # ops) = hex_string idb # sm_new_ids ops"
| "sm_new_ids (_ # ops) = sm_new_ids ops"

definition sm_rel :: "u64 \<Rightarrow> sm_op list \<Rightarrow> session_mgr \<Rightarrow> sm_map \<Rightarrow> bool" where
  "sm_rel life ops s m \<longleftrightarrow> length (smg_sessions s) = SM_MAX_SESSIONS \<and> smg_count s = count_if lgs_is_active (smg_sessions s)
     \<and> distinct (map fst (sm_assoc (smg_sessions s))) \<and> m = map_of (sm_assoc (smg_sessions s))
     \<and> ucast (smg_timeout_sec s) * 1000000 = life
     \<and> distinct (sm_new_ids ops) \<and> set (sm_new_ids ops) \<inter> dom m = {}"

lemma sm_rel_tail: "sm_rel life (op # ops) s m \<Longrightarrow> sm_rel life ops s m"
  by (cases op) (auto simp: sm_rel_def)

lemma sm_lookup: "sm_rel life ops s m \<Longrightarrow> m sid = map_option (\<lambda>i. lgs_val (smg_sessions s ! i)) (sm_find s sid)"
  by (simp add: sm_rel_def slot_assoc_lookup sm_find_def)

lemma sm_create_rel:
  assumes r: "sm_rel life (SmCreate idb sec now u # ops) s m"
  shows "fst (sm_call (SmCreate idb sec now u) s) = fst (sm_spec life (SmCreate idb sec now u) m)
    \<and> sm_rel life ops (snd (sm_call (SmCreate idb sec now u) s)) (snd (sm_spec life (SmCreate idb sec now u) m))"
proof -
  have card: "card (dom m) = smg_count s" using r slot_assoc_card [of lgs_is_active lgs_session_id lgs_val "smg_sessions s"]
    by (simp add: sm_rel_def)
  show ?thesis
  proof (cases "smg_count s \<ge> SM_MAX_SESSIONS")
    case True
    then show ?thesis using sm_rel_tail [OF r] card by simp
  next
    case False
    then have "count_if lgs_is_active (smg_sessions s) < length (smg_sessions s)" using r by (simp add: sm_rel_def)
    from free_slot_exists [OF this] obtain i where i: "first_idx (\<lambda>x. \<not> lgs_is_active x) (smg_sessions s) = Some i" by blast
    let ?e = "\<lparr>lgs_session_id = hex_string idb, lgs_username = cstr_fit SM_MAX_USERNAME u, lgs_creation_time_us = now,
        lgs_expiration_time_us = sm_expiry s now, lgs_is_active = True, lgs_session_secret = sec\<rparr>"
    have new: "map_of (sm_assoc (smg_sessions s)) (hex_string idb) = None" "hex_string idb \<notin> set (sm_new_ids ops)"
      using r by (auto simp: sm_rel_def)
    note fill = slot_assoc_fill [OF i, of ?e lgs_session_id lgs_val] count_if_fill [OF first_idx_length [OF i], of lgs_is_active ?e]
    have busy: "\<not> lgs_is_active (smg_sessions s ! i)" using first_idx_holds [OF i] .
    have val: "lgs_val ?e = (cstr_fit SM_MAX_USERNAME u, now + life)" using r by (simp add: lgs_val_def sm_expiry_def sm_rel_def)
    let ?s = "s\<lparr>smg_sessions := (smg_sessions s)[i := ?e], smg_count := smg_count s + 1\<rparr>"
    have "session_manager_create idb sec now (Some u) (Some []) s = (0, Some (hex_string idb), ?s)"
      using False i by (simp add: slot_free_def)
    moreover have "sm_rel life ops ?s (m(hex_string idb \<mapsto> (cstr_fit SM_MAX_USERNAME u, now + life)))"
      using r fill new busy val by (auto simp: sm_rel_def)
    ultimately show ?thesis using False card by simp
  qed
qed

lemma sm_found_rel:
  assumes r: "sm_rel life ops s m" and i: "sm_find s sid = Some i"
  shows "lgs_is_active (smg_sessions s ! i)" "lgs_session_id (smg_sessions s ! i) = sid" "i < length (smg_sessions s)"
    and "m sid = Some (lgs_val (smg_sessions s ! i))"
    and "lgs_is_active e \<Longrightarrow> lgs_session_id e = sid \<Longrightarrow> sm_rel life ops (s\<lparr>smg_sessions := (smg_sessions s)[i := e]\<rparr>) (m(sid \<mapsto> lgs_val e))"
    and "\<not> lgs_is_active e \<Longrightarrow>
      sm_rel life ops (s\<lparr>smg_sessions := (smg_sessions s)[i := e], smg_count := smg_count s - 1\<rparr>) (m(sid := None))"
proof -
  note f = i [unfolded sm_find_def]
  show h: "lgs_is_active (smg_sessions s ! i)" "lgs_session_id (smg_sessions s ! i) = sid" "i < length (smg_sessions s)"
    using first_idx_SomeD [OF f] by auto
  show l: "m sid = Some (lgs_val (smg_sessions s ! i))" using sm_lookup [OF r, of sid] i by simp
  show "sm_rel life ops (s\<lparr>smg_sessions := (smg_sessions s)[i := e]\<rparr>) (m(sid \<mapsto> lgs_val e))"
    if "lgs_is_active e" "lgs_session_id e = sid"
    using r slot_assoc_update [OF f that, of lgs_val] count_if_same [OF h(3), of lgs_is_active e] h(1) that l
    by (auto simp: sm_rel_def)
  show "sm_rel life ops (s\<lparr>smg_sessions := (smg_sessions s)[i := e], smg_count := smg_count s - 1\<rparr>) (m(sid := None))"
    if "\<not> lgs_is_active e"
    using r slot_assoc_clear [OF f that, of lgs_val] count_if_clear [OF h(3) h(1) that] by (auto simp: sm_rel_def)
qed

lemma sm_sweep_rel:
  assumes r: "sm_rel life ops s m"
  shows "fst (sm_call (SmSweep now) s) = fst (sm_spec life (SmSweep now) m)
    \<and> sm_rel life ops (snd (sm_call (SmSweep now) s)) (snd (sm_spec life (SmSweep now) m))"
proof -
  let ?z = "\<lambda>e. if lgs_is_active e \<and> now \<ge> lgs_expiration_time_us e then sm_wipe e else e"
  let ?es = "map ?z (smg_sessions s)"
  let ?m = "\<lambda>k. case m k of None \<Rightarrow> None | Some (u, e) \<Rightarrow> if e \<le> now then None else Some (u, e)"
  have z: "?es = map (\<lambda>e. if lgs_is_active e \<and> snd (lgs_val e) \<le> now then sm_wipe e else e) (smg_sessions s)"
    by (simp add: lgs_val_def)
  have d: "distinct (map fst (sm_assoc (smg_sessions s)))" "m = map_of (sm_assoc (smg_sessions s))"
      "smg_count s = count_if lgs_is_active (smg_sessions s)" using r by (simp_all add: sm_rel_def)
  note sw = slot_assoc_sweep [OF d(1), of sm_wipe "\<lambda>v. snd v \<le> now"]
  have m: "map_of (sm_assoc ?es) = ?m" "distinct (map fst (sm_assoc ?es))"
    using sw unfolding z d(2) by (auto simp: sm_wipe_def fun_eq_iff split: option.split)
  have n: "count_if lgs_is_active xs = count_if lgs_is_active (map ?z xs) + count_if (\<lambda>e. lgs_is_active e \<and> now \<ge> lgs_expiration_time_us e) xs" for xs
    by (induction xs) (auto simp: sm_wipe_def)
  have card: "card (dom m) = smg_count s" "card (dom ?m) = count_if lgs_is_active ?es"
    using slot_assoc_card [OF d(1)] slot_assoc_card [OF m(2)] m(1) d(2,3) by simp_all
  have sub: "dom ?m \<subseteq> dom m" by (auto split: option.splits)
  have "sm_rel life ops (s\<lparr>smg_sessions := ?es, smg_count := smg_count s - count_if (\<lambda>e. lgs_is_active e \<and> now \<ge> lgs_expiration_time_us e) (smg_sessions s)\<rparr>) ?m"
    using r m n [of "smg_sessions s"] sub by (auto simp: sm_rel_def)
  then show ?thesis using card n [of "smg_sessions s"] d(3)
    by (simp add: session_manager_cleanup_expired_def Let_def)
qed

interpretation sm: trace_simulation sm_call "sm_spec life" "sm_rel life" for life
proof
  fix op ops s m
  assume r: "sm_rel life (op # ops) s m"
  note t = sm_rel_tail [OF r]
  show "fst (sm_call op s) = fst (sm_spec life op m) \<and> sm_rel life ops (snd (sm_call op s)) (snd (sm_spec life op m))"
  proof (cases op)
    case (SmCreate idb sec now u)
    then show ?thesis using sm_create_rel r by blast
  next
    case (SmValid sid now)
    then show ?thesis using t sm_lookup [OF t, of sid] by (simp add: lgs_val_def split: option.split)
  next
    case (SmRefresh sid now)
    show ?thesis
    proof (cases "sm_find s sid")
      case None
      then show ?thesis using SmRefresh t sm_lookup [OF t, of sid] by simp
    next
      case (Some i)
      note f = sm_found_rel [OF t Some]
      let ?e = "(smg_sessions s ! i)\<lparr>lgs_expiration_time_us := sm_expiry s now\<rparr>"
      have "lgs_val ?e = (lgs_username (smg_sessions s ! i), now + life)" using t by (simp add: lgs_val_def sm_expiry_def sm_rel_def)
      then show ?thesis using f(5) [of ?e] f(1,2,4) Some by (simp add: SmRefresh lgs_val_def)
    qed
  next
    case (SmInvalidate sid)
    show ?thesis
    proof (cases "sm_find s sid")
      case None
      then show ?thesis using SmInvalidate t sm_lookup [OF t, of sid] by (simp add: fun_upd_idem)
    next
      case (Some i)
      note f = sm_found_rel [OF t Some]
      show ?thesis using f(6) [of "sm_wipe (smg_sessions s ! i)"] f(4) Some by (simp add: SmInvalidate sm_wipe_def)
    qed
  next
    case (SmSweep now)
    then show ?thesis using sm_sweep_rel [OF t, of now] by simp
  qed
qed

lemma sm_init_rel:
  "distinct (sm_new_ids ops) \<Longrightarrow> 0 < timeout \<Longrightarrow> sm_rel (ucast timeout * 1000000) ops (snd (session_manager_init True timeout)) Map.empty"
  by (simp add: sm_rel_def session_manager_init_def login_session_zero_def slot_assoc_def)

text \<open>As long as the identifiers drawn do not repeat, the session manager is a map of at most 256 identifiers to the user
  and the end of the session: an identifier is valid if and only if it was created, has been neither invalidated nor swept,
  and its end, which every refresh moves, has not come.\<close>

theorem session_manager_refines_map:
  assumes "distinct (sm_new_ids ops)" and "0 < timeout"
  shows "fst (run_calls sm_call ops (snd (session_manager_init True timeout)))
    = fst (run_calls (sm_spec (ucast timeout * 1000000)) ops Map.empty)"
  by (rule sm.trace_run [OF sm_init_rel [OF assms], THEN conjunct1])

lemma session_manager_refines_map_witness:
  "fst (run_calls sm_call [SmCreate [1, 0xAB] [] 0 ''ann'', SmValid ''01ab'' 5, SmValid ''01ab'' 2000000, SmRefresh ''01ab'' 3000000,
      SmValid ''01ab'' 3000001, SmInvalidate ''01ab'', SmValid ''01ab'' 3000001] (snd (session_manager_init True 1)))
    = [SmCreated 0 (Some ''01ab''), SmBool True, SmBool False, SmInt 0, SmBool True, SmInt 0, SmBool False]"
  by (subst session_manager_refines_map)
    (simp_all add: SM_MAX_SESSIONS_def hex_string_def hex_pair_def hex_lower_def)

text \<open>A session whose time has run out is not valid, but a refresh makes it valid again.\<close>

lemma session_refresh_revives:
  assumes "m sid = Some (u, e)" and "e \<le> now" and "now < now + life"
  shows "fst (sm_spec life (SmValid sid now) m) = SmBool False
    \<and> fst (sm_spec life (SmValid sid now) (snd (sm_spec life (SmRefresh sid now) m))) = SmBool True"
  using assms by auto

end
