(* ===== verification/Sec_Crypto.thy ===== *)
theory Sec_Crypto
  imports RS_Prelude
begin

text \<open>
  The cryptographic wrappers of the security services: \<^verbatim>\<open>src/src/security/crypto_primitives.c\<close> and \<^verbatim>\<open>key_exchange.c\<close>.
  libsodium is the record \<open>sodium\<close> of the functions called; the theorems that need a documented law of it name it.  The bytes that
  libsodium draws at random are arguments, allocation takes a flag, wiping memory that goes out of scope has no effect here.  A buffer
  is the list of its bytes, its length the length that the caller passes.
\<close>

type_synonym bytes8 = "u8 list"

text \<open>The AEAD functions take key, nonce, additional data and text, and work on text and tag in one buffer; a decryption gives its status
  and the bytes that it leaves in the buffer for the text.  A password is hashed under a random salt; \<open>sod_box_pk\<close> is the public key of a
  secret key.\<close>

record sodium =
  sod_init :: bool
  sod_aes_available :: bool
  sod_aes_encrypt :: "bytes8 \<Rightarrow> bytes8 \<Rightarrow> bytes8 \<Rightarrow> bytes8 \<Rightarrow> bytes8 option"
  sod_aes_decrypt :: "bytes8 \<Rightarrow> bytes8 \<Rightarrow> bytes8 \<Rightarrow> bytes8 \<Rightarrow> int \<times> bytes8"
  sod_chacha_encrypt :: "bytes8 \<Rightarrow> bytes8 \<Rightarrow> bytes8 \<Rightarrow> bytes8 \<Rightarrow> bytes8 option"
  sod_chacha_decrypt :: "bytes8 \<Rightarrow> bytes8 \<Rightarrow> bytes8 \<Rightarrow> bytes8 \<Rightarrow> int \<times> bytes8"
  sod_hmac_sha256 :: "bytes8 \<Rightarrow> bytes8 \<Rightarrow> bytes8"
  sod_sha256 :: "bytes8 \<Rightarrow> bytes8"
  sod_box_pk :: "bytes8 \<Rightarrow> bytes8"
  sod_scalarmult :: "bytes8 \<Rightarrow> bytes8 \<Rightarrow> bytes8 option"
  sod_pwhash :: "string \<Rightarrow> bytes8 \<Rightarrow> string option"
  sod_pwhash_verify :: "string \<Rightarrow> string \<Rightarrow> bool"

definition CRYPTO_PRIM_KEY_BYTES :: nat where "CRYPTO_PRIM_KEY_BYTES = 32"
definition CRYPTO_PRIM_TAG_BYTES :: nat where "CRYPTO_PRIM_TAG_BYTES = 16"
definition HMACSHA256_BYTES :: nat where "HMACSHA256_BYTES = 32"

section \<open>Primitives\<close>

definition crypto_prim_init :: "sodium \<Rightarrow> int" where
  "crypto_prim_init S = (if sod_init S then 0 else -1)"

definition opt_bytes :: "bytes8 option \<Rightarrow> bytes8" where
  "opt_bytes p = (case p of None \<Rightarrow> [] | Some b \<Rightarrow> b)"

text \<open>Both encryptions split the combined buffer into the two that the caller gives.\<close>

definition aead_split :: "bytes8 option \<Rightarrow> bytes8 \<Rightarrow> bytes8 \<Rightarrow> bytes8 \<Rightarrow> int \<times> bytes8 option \<times> bytes8 option" where
  "aead_split combined plaintext ciphertext tag = (case combined of
     None \<Rightarrow> (-1, Some ciphertext, Some tag)
   | Some c \<Rightarrow> (0, Some (overwrite (take (length plaintext) c) ciphertext),
       Some (overwrite (take CRYPTO_PRIM_TAG_BYTES (drop (length plaintext) c)) tag)))"

fun crypto_prim_chacha20poly1305_encrypt :: "sodium \<Rightarrow> bool \<Rightarrow> bytes8 option \<Rightarrow> bytes8 option \<Rightarrow> bytes8 option \<Rightarrow> bytes8 option \<Rightarrow>
    bytes8 option \<Rightarrow> bytes8 option \<Rightarrow> int \<times> bytes8 option \<times> bytes8 option" where
  "crypto_prim_chacha20poly1305_encrypt S mem (Some plaintext) (Some key) (Some nonce) aad (Some ciphertext) (Some tag) =
     (if \<not> mem then (-1, Some ciphertext, Some tag)
      else aead_split (sod_chacha_encrypt S key nonce (opt_bytes aad) plaintext) plaintext ciphertext tag)"
| "crypto_prim_chacha20poly1305_encrypt S mem plaintext key nonce aad ciphertext tag = (-1, ciphertext, tag)"

fun crypto_prim_chacha20poly1305_decrypt :: "sodium \<Rightarrow> bool \<Rightarrow> bytes8 option \<Rightarrow> bytes8 option \<Rightarrow> bytes8 option \<Rightarrow> bytes8 option \<Rightarrow>
    bytes8 option \<Rightarrow> bytes8 option \<Rightarrow> int \<times> bytes8 option" where
  "crypto_prim_chacha20poly1305_decrypt S mem (Some ciphertext) (Some key) (Some nonce) aad (Some tag) (Some plaintext) =
     (if \<not> mem then (-1, Some plaintext)
      else case sod_chacha_decrypt S key nonce (opt_bytes aad) (ciphertext @ take CRYPTO_PRIM_TAG_BYTES tag) of
        (ret, text) \<Rightarrow> (ret, Some (overwrite text plaintext)))"
| "crypto_prim_chacha20poly1305_decrypt S mem ciphertext key nonce aad tag plaintext = (-1, plaintext)"

fun crypto_prim_aes256gcm_encrypt :: "sodium \<Rightarrow> bool \<Rightarrow> bytes8 option \<Rightarrow> bytes8 option \<Rightarrow> bytes8 option \<Rightarrow> bytes8 option \<Rightarrow>
    bytes8 option \<Rightarrow> bytes8 option \<Rightarrow> int \<times> bytes8 option \<times> bytes8 option" where
  "crypto_prim_aes256gcm_encrypt S mem (Some plaintext) (Some key) (Some nonce) aad (Some ciphertext) (Some tag) =
     (if sod_aes_available S then
        (if \<not> mem then (-1, Some ciphertext, Some tag)
         else aead_split (sod_aes_encrypt S key nonce (opt_bytes aad) plaintext) plaintext ciphertext tag)
      else crypto_prim_chacha20poly1305_encrypt S mem (Some plaintext) (Some key) (Some nonce) aad (Some ciphertext) (Some tag))"
| "crypto_prim_aes256gcm_encrypt S mem plaintext key nonce aad ciphertext tag = (-1, ciphertext, tag)"

fun crypto_prim_aes256gcm_decrypt :: "sodium \<Rightarrow> bool \<Rightarrow> bytes8 option \<Rightarrow> bytes8 option \<Rightarrow> bytes8 option \<Rightarrow> bytes8 option \<Rightarrow>
    bytes8 option \<Rightarrow> bytes8 option \<Rightarrow> int \<times> bytes8 option" where
  "crypto_prim_aes256gcm_decrypt S mem (Some ciphertext) (Some key) (Some nonce) aad (Some tag) (Some plaintext) =
     (if sod_aes_available S then
        (if \<not> mem then (-1, Some plaintext)
         else case sod_aes_decrypt S key nonce (opt_bytes aad) (ciphertext @ take CRYPTO_PRIM_TAG_BYTES tag) of
           (ret, text) \<Rightarrow> (ret, Some (overwrite text plaintext)))
      else crypto_prim_chacha20poly1305_decrypt S mem (Some ciphertext) (Some key) (Some nonce) aad (Some tag) (Some plaintext))"
| "crypto_prim_aes256gcm_decrypt S mem ciphertext key nonce aad tag plaintext = (-1, plaintext)"

definition crypto_prim_random_bytes :: "bytes8 \<Rightarrow> bytes8 option \<Rightarrow> int \<times> bytes8 option" where
  "crypto_prim_random_bytes drawn buffer = (case buffer of None \<Rightarrow> (-1, None)
     | Some b \<Rightarrow> if length b = 0 then (-1, Some b) else (0, Some (take (length b) drawn)))"

text \<open>A salt is used as the 32-byte key of the HMAC whatever its length; a shorter one is read past its end, which is not modelled (the
  HMAC gets the bytes there are).\<close>

fun crypto_prim_hkdf :: "sodium \<Rightarrow> bytes8 option \<Rightarrow> bytes8 option \<Rightarrow> bytes8 option \<Rightarrow> bytes8 option \<Rightarrow> nat \<Rightarrow> int \<times> bytes8 option" where
  "crypto_prim_hkdf S (Some ikm) salt info (Some output_key) output_len =
     (if length ikm = 0 \<or> output_len = 0 then (-1, Some output_key)
      else if output_len > HMACSHA256_BYTES then (-1, Some output_key)
      else let prk = (if opt_bytes salt \<noteq> [] then sod_hmac_sha256 S (take HMACSHA256_BYTES (opt_bytes salt)) ikm
                      else sod_hmac_sha256 S (replicate HMACSHA256_BYTES 0) ikm) in
        (0, Some (overwrite (take output_len (if opt_bytes info \<noteq> [] then sod_hmac_sha256 S prk (opt_bytes info) else prk)) output_key)))"
| "crypto_prim_hkdf S ikm salt info output_key output_len = (-1, output_key)"

fun crypto_prim_constant_time_compare :: "bytes8 option \<Rightarrow> bytes8 option \<Rightarrow> nat \<Rightarrow> bool" where
  "crypto_prim_constant_time_compare (Some a) (Some b) len = (take len a = take len b)"
| "crypto_prim_constant_time_compare a b len = False"

definition crypto_prim_secure_wipe :: "bytes8 option \<Rightarrow> nat \<Rightarrow> bytes8 option" where
  "crypto_prim_secure_wipe buffer n = map_option (\<lambda>b. overwrite (replicate n 0) b) buffer"

section \<open>Key exchange\<close>

definition KEY_EXCHANGE_SHARED_SECRET_BYTES :: nat where "KEY_EXCHANGE_SHARED_SECRET_BYTES = 32"

record keypair =
  kxp_public_key :: bytes8
  kxp_secret_key :: bytes8

record x3dh_bundle =
  x3b_identity_key :: bytes8
  x3b_signed_prekey :: bytes8
  x3b_signature :: bytes8
  x3b_prekey_id :: u32

record x3dh_init =
  x3i_ephemeral_key :: bytes8
  x3i_prekey_id :: u32

definition sod_keypair :: "sodium \<Rightarrow> bytes8 \<Rightarrow> keypair" where
  "sod_keypair S sk = \<lparr>kxp_public_key = sod_box_pk S sk, kxp_secret_key = sk\<rparr>"

definition key_exchange_generate_keypair :: "sodium \<Rightarrow> bytes8 \<Rightarrow> keypair option \<Rightarrow> int \<times> keypair option" where
  "key_exchange_generate_keypair S sk keypair = (case keypair of None \<Rightarrow> (-1, None) | Some _ \<Rightarrow> (0, Some (sod_keypair S sk)))"

fun key_exchange_compute_shared_secret :: "sodium \<Rightarrow> bytes8 option \<Rightarrow> bytes8 option \<Rightarrow> bytes8 option \<Rightarrow> int \<times> bytes8 option" where
  "key_exchange_compute_shared_secret S (Some secret_key) (Some peer_public_key) (Some shared_secret) =
     (case sod_scalarmult S secret_key peer_public_key of
        None \<Rightarrow> (-1, Some shared_secret)
      | Some s \<Rightarrow> (0, Some (overwrite s shared_secret)))"
| "key_exchange_compute_shared_secret S secret_key peer_public_key shared_secret = (-1, shared_secret)"

text \<open>The signature field has 64 bytes, of which the hash fills 32.\<close>

fun key_exchange_x3dh_create_bundle :: "sodium \<Rightarrow> bytes8 \<Rightarrow> u32 \<Rightarrow> keypair option \<Rightarrow> x3dh_bundle option \<Rightarrow> int \<times> x3dh_bundle option" where
  "key_exchange_x3dh_create_bundle S prekey_sk prekey_id (Some identity) (Some bundle) =
     (let prekey = sod_keypair S prekey_sk in
      (0, Some \<lparr>x3b_identity_key = kxp_public_key identity, x3b_signed_prekey = kxp_public_key prekey,
         x3b_signature = overwrite (sod_sha256 S (kxp_public_key prekey @ kxp_public_key identity)) (x3b_signature bundle),
         x3b_prekey_id = prekey_id\<rparr>))"
| "key_exchange_x3dh_create_bundle S prekey_sk prekey_id identity bundle = (-1, bundle)"

definition x3dh_info :: bytes8 where
  "x3dh_info = map of_char ''RootStreamX3DH''"

definition x3dh_kdf :: "sodium \<Rightarrow> bytes8 \<Rightarrow> bytes8 \<Rightarrow> bytes8 \<Rightarrow> bytes8 option" where
  "x3dh_kdf S dh1 dh2 shared_secret = snd (crypto_prim_hkdf S (Some (dh1 @ dh2)) None (Some x3dh_info) (Some shared_secret) KEY_EXCHANGE_SHARED_SECRET_BYTES)"

fun key_exchange_x3dh_initiator :: "sodium \<Rightarrow> bytes8 \<Rightarrow> x3dh_bundle option \<Rightarrow> x3dh_init option \<Rightarrow> bytes8 option \<Rightarrow>
    int \<times> x3dh_init option \<times> bytes8 option" where
  "key_exchange_x3dh_initiator S ephemeral_sk (Some bundle) (Some init_msg) (Some shared_secret) =
     (let ephemeral = sod_keypair S ephemeral_sk;
          msg = \<lparr>x3i_ephemeral_key = kxp_public_key ephemeral, x3i_prekey_id = x3b_prekey_id bundle\<rparr> in
      case key_exchange_compute_shared_secret S (Some (kxp_secret_key ephemeral)) (Some (x3b_signed_prekey bundle)) (Some (replicate 32 0)) of
        (r1, dh1) \<Rightarrow> if r1 \<noteq> 0 then (-1, Some msg, Some shared_secret)
        else case key_exchange_compute_shared_secret S (Some (kxp_secret_key ephemeral)) (Some (x3b_identity_key bundle)) (Some (replicate 32 0)) of
          (r2, dh2) \<Rightarrow> if r2 \<noteq> 0 then (-1, Some msg, Some shared_secret)
          else (0, Some msg, x3dh_kdf S (the dh1) (the dh2) shared_secret))"
| "key_exchange_x3dh_initiator S ephemeral_sk bundle init_msg shared_secret = (-1, init_msg, shared_secret)"

fun key_exchange_x3dh_responder :: "sodium \<Rightarrow> x3dh_init option \<Rightarrow> keypair option \<Rightarrow> keypair option \<Rightarrow> bytes8 option \<Rightarrow> int \<times> bytes8 option" where
  "key_exchange_x3dh_responder S (Some init_msg) (Some identity) (Some signed_prekey) (Some shared_secret) =
     (case key_exchange_compute_shared_secret S (Some (kxp_secret_key signed_prekey)) (Some (x3i_ephemeral_key init_msg)) (Some (replicate 32 0)) of
        (r1, dh1) \<Rightarrow> if r1 \<noteq> 0 then (-1, Some shared_secret)
        else case key_exchange_compute_shared_secret S (Some (kxp_secret_key identity)) (Some (x3i_ephemeral_key init_msg)) (Some (replicate 32 0)) of
          (r2, dh2) \<Rightarrow> if r2 \<noteq> 0 then (-1, Some shared_secret)
          else (0, x3dh_kdf S (the dh1) (the dh2) shared_secret))"
| "key_exchange_x3dh_responder S init_msg identity signed_prekey shared_secret = (-1, shared_secret)"

definition kx_derive :: "sodium \<Rightarrow> bytes8 \<Rightarrow> string \<Rightarrow> nat \<Rightarrow> bytes8 option \<Rightarrow> bytes8 option" where
  "kx_derive S secret info n out = (case out of None \<Rightarrow> None
     | Some k \<Rightarrow> snd (crypto_prim_hkdf S (Some (take KEY_EXCHANGE_SHARED_SECRET_BYTES secret)) None (Some (map of_char info)) (Some k) n))"

fun key_exchange_derive_session_keys :: "sodium \<Rightarrow> bytes8 option \<Rightarrow> bytes8 option \<Rightarrow> bytes8 option \<Rightarrow> bytes8 option \<Rightarrow> bytes8 option \<Rightarrow>
    int \<times> bytes8 option \<times> bytes8 option \<times> bytes8 option \<times> bytes8 option" where
  "key_exchange_derive_session_keys S None c2s s2c cn sn = (-1, c2s, s2c, cn, sn)"
| "key_exchange_derive_session_keys S (Some secret) c2s s2c cn sn =
     (0, kx_derive S secret ''RootStream-C2S'' CRYPTO_PRIM_KEY_BYTES c2s, kx_derive S secret ''RootStream-S2C'' CRYPTO_PRIM_KEY_BYTES s2c,
      kx_derive S secret ''RootStream-NC'' 12 cn, kx_derive S secret ''RootStream-NS'' 12 sn)"

section \<open>What the two sides agree on\<close>

text \<open>The documented laws of libsodium that are used: Diffie-Hellman, the AEAD, the password hash.\<close>

definition dh_law :: "sodium \<Rightarrow> bool" where
  "dh_law S \<longleftrightarrow> (\<forall>a b. sod_scalarmult S a (sod_box_pk S b) = sod_scalarmult S b (sod_box_pk S a))"

definition chacha_law :: "sodium \<Rightarrow> bool" where
  "chacha_law S \<longleftrightarrow> (\<forall>k n ad p c. sod_chacha_encrypt S k n ad p = Some c \<longrightarrow>
     length c = length p + CRYPTO_PRIM_TAG_BYTES \<and> sod_chacha_decrypt S k n ad c = (0, p))"

definition pwhash_law :: "sodium \<Rightarrow> bool" where
  "pwhash_law S \<longleftrightarrow> (\<forall>p salt h. sod_pwhash S p salt = Some h \<longrightarrow> sod_pwhash_verify S h p)"

text \<open>In the X3DH exchange both sides end with the same secret: when an initiator succeeds against the bundle that a recipient
  published, the recipient, if it still has the secret key of the prekey, succeeds on the initiator's message and
  computes the same bytes.  The bundle's signature plays no part in it: the initiator does the same with any other.\<close>

theorem x3dh_agreement:
  assumes "dh_law S"
    and "key_exchange_x3dh_create_bundle S prekey_sk pid (Some (sod_keypair S id_sk)) (Some b0) = (0, Some bundle)"
    and "key_exchange_x3dh_initiator S eph_sk (Some bundle) (Some m0) (Some buf) = (0, Some msg, Some secret)"
  shows "key_exchange_x3dh_responder S (Some msg) (Some (sod_keypair S id_sk)) (Some (sod_keypair S prekey_sk)) (Some buf) = (0, Some secret)
    \<and> x3i_prekey_id msg = pid
    \<and> (\<forall>sig. key_exchange_x3dh_initiator S eph_sk (Some (bundle\<lparr>x3b_signature := sig\<rparr>)) (Some m0) (Some buf) = (0, Some msg, Some secret))"
proof -
  have b: "x3b_identity_key bundle = sod_box_pk S id_sk" "x3b_signed_prekey bundle = sod_box_pk S prekey_sk" "x3b_prekey_id bundle = pid"
    using assms(2) by (auto simp: sod_keypair_def Let_def)
  obtain d1 d2 where d: "sod_scalarmult S eph_sk (sod_box_pk S prekey_sk) = Some d1" "sod_scalarmult S eph_sk (sod_box_pk S id_sk) = Some d2"
    using assms(3) by (auto simp: sod_keypair_def Let_def b split: option.splits)
  have m: "x3i_ephemeral_key msg = sod_box_pk S eph_sk" "x3i_prekey_id msg = pid"
      "x3dh_kdf S (overwrite d1 (replicate 32 0)) (overwrite d2 (replicate 32 0)) buf = Some secret"
    using assms(3) by (auto simp: sod_keypair_def Let_def b d)
  have resp: "sod_scalarmult S prekey_sk (sod_box_pk S eph_sk) = Some d1" "sod_scalarmult S id_sk (sod_box_pk S eph_sk) = Some d2"
    using assms(1) d unfolding dh_law_def by metis+
  have sel: "x3b_identity_key (bundle\<lparr>x3b_signature := sig\<rparr>) = x3b_identity_key bundle"
      "x3b_signed_prekey (bundle\<lparr>x3b_signature := sig\<rparr>) = x3b_signed_prekey bundle"
      "x3b_prekey_id (bundle\<lparr>x3b_signature := sig\<rparr>) = x3b_prekey_id bundle" for sig
    by simp_all
  moreover have "key_exchange_x3dh_initiator S eph_sk (Some (bundle\<lparr>x3b_signature := sig\<rparr>)) (Some m0) (Some buf)
      = key_exchange_x3dh_initiator S eph_sk (Some bundle) (Some m0) (Some buf)" for sig
    unfolding key_exchange_x3dh_initiator.simps sel ..
  ultimately show ?thesis using m assms(3) by (simp add: resp sod_keypair_def del: key_exchange_x3dh_initiator.simps)
qed

text \<open>An instance of libsodium's interface that satisfies the laws, for the examples.\<close>

definition sodium_toy :: sodium where
  "sodium_toy = \<lparr>sod_init = True, sod_aes_available = False, sod_aes_encrypt = (\<lambda>k n ad p. None), sod_aes_decrypt = (\<lambda>k n ad c. (-1, [])),
     sod_chacha_encrypt = (\<lambda>k n ad p. Some (p @ replicate CRYPTO_PRIM_TAG_BYTES 0)),
     sod_chacha_decrypt = (\<lambda>k n ad c. if drop (length c - CRYPTO_PRIM_TAG_BYTES) c = replicate CRYPTO_PRIM_TAG_BYTES 0
        then (0, take (length c - CRYPTO_PRIM_TAG_BYTES) c) else (-1, [])),
     sod_hmac_sha256 = (\<lambda>k m. take 32 (m @ k)), sod_sha256 = (\<lambda>m. take 32 m), sod_box_pk = (\<lambda>sk. sk),
     sod_scalarmult = (\<lambda>a b. Some (map2 (XOR) a b)), sod_pwhash = (\<lambda>p salt. Some p), sod_pwhash_verify = (\<lambda>h p. h = p)\<rparr>"

lemma sodium_toy_laws: "dh_law sodium_toy" "chacha_law sodium_toy" "pwhash_law sodium_toy"
proof -
  have "map2 (XOR) a b = map2 (XOR) b a" for a b :: bytes8
    by (induction a b rule: list_induct2') (simp_all add: xor.commute)
  then show "dh_law sodium_toy" by (simp add: dh_law_def sodium_toy_def)
  show "chacha_law sodium_toy" "pwhash_law sodium_toy" by (simp_all add: chacha_law_def pwhash_law_def sodium_toy_def)
qed

lemma x3dh_agreement_witness:
  "\<exists>bundle msg secret. key_exchange_x3dh_create_bundle sodium_toy [3] 7 (Some (sod_keypair sodium_toy [5]))
        (Some \<lparr>x3b_identity_key = [], x3b_signed_prekey = [], x3b_signature = [], x3b_prekey_id = 0\<rparr>) = (0, Some bundle)
    \<and> key_exchange_x3dh_responder sodium_toy (Some msg) (Some (sod_keypair sodium_toy [5])) (Some (sod_keypair sodium_toy [3])) (Some []) = (0, Some secret)"
proof -
  let ?b0 = "\<lparr>x3b_identity_key = [], x3b_signed_prekey = [], x3b_signature = [], x3b_prekey_id = 0\<rparr>"
  let ?m0 = "\<lparr>x3i_ephemeral_key = [], x3i_prekey_id = 0\<rparr>"
  obtain bnd where b: "key_exchange_x3dh_create_bundle sodium_toy [3] 7 (Some (sod_keypair sodium_toy [5])) (Some ?b0) = (0, Some bnd)"
    by (auto simp: Let_def)
  obtain msg secret where "key_exchange_x3dh_initiator sodium_toy [9] (Some bnd) (Some ?m0) (Some []) = (0, Some msg, Some secret)"
    by (simp add: Let_def sodium_toy_def sod_keypair_def x3dh_kdf_def overwrite_def x3dh_info_def
        KEY_EXCHANGE_SHARED_SECRET_BYTES_def HMACSHA256_BYTES_def)
  from x3dh_agreement [OF sodium_toy_laws(1) b this] b show ?thesis by blast
qed

text \<open>What was encrypted under a key and nonce decrypts to itself.\<close>

lemma chacha_roundtrip:
  assumes "chacha_law S" and "length ciphertext = length plaintext" and "length tag = CRYPTO_PRIM_TAG_BYTES" and "length out = length plaintext"
    and "crypto_prim_chacha20poly1305_encrypt S True (Some plaintext) (Some key) (Some nonce) None (Some ciphertext) (Some tag) = (0, Some c, Some t)"
  shows "crypto_prim_chacha20poly1305_decrypt S True (Some c) (Some key) (Some nonce) None (Some t) (Some out) = (0, Some plaintext)
    \<and> length c = length plaintext \<and> length t = CRYPTO_PRIM_TAG_BYTES"
proof -
  obtain cc where cc: "sod_chacha_encrypt S key nonce [] plaintext = Some cc"
      "c = overwrite (take (length plaintext) cc) ciphertext" "t = overwrite (take CRYPTO_PRIM_TAG_BYTES (drop (length plaintext) cc)) tag"
    using assms(5) by (auto simp: aead_split_def opt_bytes_def split: option.splits)
  have l: "length cc = length plaintext + CRYPTO_PRIM_TAG_BYTES" "sod_chacha_decrypt S key nonce [] cc = (0, plaintext)"
    using assms(1) cc(1) by (simp_all add: chacha_law_def)
  have ct: "c = take (length plaintext) cc" "t = drop (length plaintext) cc"
    using cc(2,3) l(1) assms(2,3) by (simp_all add: overwrite_def)
  then have "c @ take CRYPTO_PRIM_TAG_BYTES t = cc" using l(1) by simp
  then show ?thesis using l assms(4) ct by (simp add: opt_bytes_def overwrite_def)
qed

end
