(* ===== verification/Cformat.thy ===== *)
theory Cformat
  imports RS_Prelude
begin

text \<open>
  Formatted output as the exporters of \<^verbatim>\<open>src/src\<close> use it: \<^verbatim>\<open>%u\<close>, \<^verbatim>\<open>%llu\<close> and \<^verbatim>\<open>%d\<close> as decimal numerals, \<^verbatim>\<open>%s\<close> as the
  string itself, \<^verbatim>\<open>snprintf\<close> into a buffer of \<open>cap\<close> bytes, and the \<^verbatim>\<open>APPEND\<close> macro, which prints behind what the
  buffer already holds and gives up when the text does not fit.  A text buffer is the C string that it holds.
\<close>

section \<open>Decimal numerals\<close>

fun dec :: "nat \<Rightarrow> string" where
  "dec n = (if n < 10 then [char_of (48 + n)] else dec (n div 10) @ [char_of (48 + n mod 10)])"

declare dec.simps [simp del]

definition dec_int :: "int \<Rightarrow> string" where
  "dec_int i = (if i < 0 then CHR 0x2D # dec (nat (- i)) else dec (nat i))"

definition undec_step :: "nat \<Rightarrow> char \<Rightarrow> nat" where
  "undec_step a c = 10 * a + (of_char c - 48)"

definition undec :: "string \<Rightarrow> nat" where
  "undec s = foldl undec_step 0 s"

lemma of_char_digit: "d < 10 \<Longrightarrow> (of_char (char_of (48 + d :: nat)) :: nat) = 48 + d"
  by (simp add: of_char_of)

lemma undec_dec [simp]: "undec (dec n) = n"
proof (induction n rule: dec.induct)
  case (1 n)
  then show ?case
    by (cases "n < 10") (simp_all add: dec.simps [of n] undec_def undec_step_def of_char_digit)
qed

lemma dec_inject [simp]: "dec m = dec n \<longleftrightarrow> m = n"
  by (metis undec_dec)

lemma dec_not_Nil [simp]: "dec n \<noteq> []"
  by (simp add: dec.simps [of n])

definition is_digit :: "char \<Rightarrow> bool" where
  "is_digit c \<longleftrightarrow> (48 :: nat) \<le> of_char c \<and> (of_char c :: nat) \<le> 57"

lemma dec_digits: "c \<in> set (dec n) \<Longrightarrow> is_digit c"
proof (induction n rule: dec.induct)
  case (1 n)
  have "is_digit (char_of (48 + d :: nat))" if "d < 10" for d
    using that by (simp add: is_digit_def of_char_digit)
  then show ?case using 1 by (cases "n < 10") (auto simp: dec.simps [of n])
qed

lemma length_dec_le: "n < 10 ^ k \<Longrightarrow> 0 < k \<Longrightarrow> length (dec n) \<le> k"
proof (induction n arbitrary: k rule: dec.induct)
  case (1 n)
  show ?case
  proof (cases "n < 10")
    case False
    then have "k \<noteq> 1" using 1(2) by auto
    with 1(3) have "k \<ge> 2" by simp
    then obtain j where k: "k = Suc j" "0 < j" by (cases k) auto
    have "n div 10 < 10 ^ j" using 1(2) k by (simp add: less_mult_imp_div_less)
    from 1(1) [OF False this k(2)] show ?thesis using False k by (simp add: dec.simps [of n])
  qed (use 1(3) in \<open>simp add: dec.simps [of n]\<close>)
qed

text \<open>Numerals that are followed by something other than a digit are read back unambiguously.\<close>

definition no_digit :: "string \<Rightarrow> bool" where
  "no_digit s \<longleftrightarrow> (case s of [] \<Rightarrow> True | c # _ \<Rightarrow> \<not> is_digit c)"

lemma takeWhile_dec: "no_digit s \<Longrightarrow> takeWhile is_digit (dec n @ s) = dec n"
  by (cases s) (auto simp: no_digit_def dec_digits takeWhile_append1 takeWhile_eq_all_conv)

lemma dropWhile_dec: "no_digit s \<Longrightarrow> dropWhile is_digit (dec n @ s) = s"
  by (cases s) (auto simp: no_digit_def dec_digits dropWhile_append1 dropWhile_append2)

section \<open>Printing into a buffer\<close>

text \<open>The return value of \<^verbatim>\<open>snprintf\<close> and the string in the buffer.\<close>

definition snprintf_at :: "nat \<Rightarrow> string \<Rightarrow> string \<Rightarrow> nat \<times> string" where
  "snprintf_at cap held s = (length s, if length held < cap then held @ take (cap - length held - 1) s else held)"

text \<open>One \<^verbatim>\<open>APPEND\<close>: the text that fits is in the buffer in either case.\<close>

definition cf_append :: "nat \<Rightarrow> string \<Rightarrow> string \<Rightarrow> bool \<times> string" where
  "cf_append cap held s = (case snprintf_at cap held s of (n, held') \<Rightarrow> (n < cap - length held, held'))"

fun cf_appends :: "nat \<Rightarrow> string list \<Rightarrow> string \<Rightarrow> bool \<times> string" where
  "cf_appends cap [] held = (True, held)"
| "cf_appends cap (p # ps) held = (case cf_append cap held p of (ok, held) \<Rightarrow> if ok then cf_appends cap ps held else (False, held))"

text \<open>What the exporters return: the length printed, or -1.\<close>

definition cf_result :: "bool \<times> string \<Rightarrow> int \<times> string" where
  "cf_result r = (case r of (ok, s) \<Rightarrow> (if ok then int (length s) else -1, s))"

lemma cf_append_ok: "length held + length s < cap \<Longrightarrow> cf_append cap held s = (True, held @ s)"
  by (simp add: cf_append_def snprintf_at_def)

lemma cf_append_fails: "length held < cap \<Longrightarrow> cap \<le> length held + length s \<Longrightarrow>
    cf_append cap held s = (False, take (cap - 1) (held @ s))"
  by (simp add: cf_append_def snprintf_at_def)

lemma cf_appends_fits: "length held + length (concat ps) < cap \<Longrightarrow> cf_appends cap ps held = (True, held @ concat ps)"
  by (induction ps arbitrary: held) (simp_all add: cf_append_ok)

lemma cf_appends_full: "length held < cap \<Longrightarrow> cap \<le> length held + length (concat ps) \<Longrightarrow>
    cf_appends cap ps held = (False, take (cap - 1) (held @ concat ps))"
proof (induction ps arbitrary: held)
  case (Cons p ps)
  then show ?case using Cons.IH [of "held @ p"]
    by (cases "length held + length p < cap") (simp_all add: cf_append_ok cf_append_fails add.assoc)
qed simp

lemma cf_appends_append: "cf_appends cap (ps @ qs) held =
    (case cf_appends cap ps held of (ok, h) \<Rightarrow> if ok then cf_appends cap qs h else (False, h))"
  by (induction ps arbitrary: held) (auto split: prod.split)

text \<open>An exporter that prints the pieces \<open>ps\<close> succeeds exactly when they fit with their NUL, and then the buffer holds them.\<close>

lemma cf_result_fits: "length (concat ps) < cap \<Longrightarrow> cf_result (cf_appends cap ps []) = (int (length (concat ps)), concat ps)"
  by (simp add: cf_result_def cf_appends_fits)

lemma cf_result_full: "0 < cap \<Longrightarrow> cap \<le> length (concat ps) \<Longrightarrow> fst (cf_result (cf_appends cap ps [])) = -1"
  using cf_appends_full [of "[]" cap ps] by (cases "cf_appends cap ps []") (simp add: cf_result_def)

lemma cf_result_iff: "0 < cap \<Longrightarrow> fst (cf_result (cf_appends cap ps [])) = -1 \<longleftrightarrow> cap \<le> length (concat ps)"
  using cf_result_full [of cap ps] cf_result_fits [of ps cap] by (cases "length (concat ps) < cap") auto

section \<open>Strings as bytes\<close>

definition str_bytes :: "string \<Rightarrow> u8 list" where
  "str_bytes s = map of_char s"

text \<open>The C string in an array of bytes.\<close>

definition bytes_cstr :: "u8 list \<Rightarrow> string" where
  "bytes_cstr b = map (\<lambda>x. char_of (unat x)) (takeWhile (\<lambda>x. x \<noteq> 0) b)"

text \<open>A string that its array can hold: no NUL inside, at most \<open>n\<close> characters.\<close>

definition cstr_ok :: "nat \<Rightarrow> string \<Rightarrow> bool" where
  "cstr_ok n s \<longleftrightarrow> length s \<le> n \<and> CHR 0x00 \<notin> set s"

lemma length_str_bytes [simp]: "length (str_bytes s) = length s"
  by (simp add: str_bytes_def)

lemma byte_of_char: "unat (of_char c :: u8) = of_char c"
  using unat_of_nat_less [of "of_char c", where 'a = 8] nat_of_char_less_256 [of c] by (simp add: of_nat_of_char)

lemma char_byte [simp]: "char_of (unat (of_char c :: u8)) = c"
  by (simp add: byte_of_char)

lemma of_char_zero: "(of_char c :: u8) = 0 \<longleftrightarrow> c = CHR 0x00"
  using char_byte [of c] by (cases "(of_char c :: u8) = 0") (auto simp: char_of_def)

lemma takeWhile_str: "CHR 0x00 \<notin> set s \<Longrightarrow> takeWhile (\<lambda>x. x \<noteq> 0) (str_bytes s) = str_bytes s"
  by (induction s) (auto simp: str_bytes_def of_char_zero)

lemma bytes_cstr_str: "CHR 0x00 \<notin> set s \<Longrightarrow> bytes_cstr (str_bytes s) = s"
  by (simp add: bytes_cstr_def takeWhile_str) (simp add: str_bytes_def comp_def)

definition json_bool :: "bool \<Rightarrow> string" where
  "json_bool b = (if b then ''true'' else ''false'')"

text \<open>A double quote and a newline cannot stand inside a HOL string literal as such.\<close>

definition dq :: string where "dq = [CHR 0x22]"
definition nl :: string where "nl = [CHR 0x0A]"

definition quoted :: "string \<Rightarrow> string" where
  "quoted s = dq @ s @ dq"

definition json_field :: "string \<Rightarrow> string \<Rightarrow> string" where
  "json_field name v = quoted name @ '':'' @ v"

end
