(* ===== verification/Sec_Auth.thy ===== *)
theory Sec_Auth
  imports Sec_Session Sec_Crypto Cformat
begin

text \<open>
  User authentication, \<^verbatim>\<open>src/src/security/user_auth.c\<close>, and the audit log, \<^verbatim>\<open>audit_log.c\<close>.  The static variables of a file are a record;
  random bytes, the wall clock, the printed time of a log line and whether a file opens are arguments.
\<close>

section \<open>User authentication\<close>

definition UA_MAX_SESSIONS :: nat where "UA_MAX_SESSIONS = 64"
definition USER_AUTH_MAX_USERNAME :: nat where "USER_AUTH_MAX_USERNAME = 64"
definition USER_AUTH_TOTP_SECRET_LEN :: nat where "USER_AUTH_TOTP_SECRET_LEN = 32"

record user_auth_session =
  uas_session_token :: string
  uas_username :: string
  uas_expiration_time_us :: u64
  uas_mfa_verified :: bool

record user_auth_state =
  ua_sessions :: "user_auth_session list"
  ua_count :: nat

definition user_auth_session_zero :: user_auth_session where
  "user_auth_session_zero = \<lparr>uas_session_token = [], uas_username = [], uas_expiration_time_us = 0, uas_mfa_verified = False\<rparr>"

definition user_auth_init :: "sodium \<Rightarrow> int \<times> user_auth_state" where
  "user_auth_init S = (crypto_prim_init S, \<lparr>ua_sessions = replicate UA_MAX_SESSIONS user_auth_session_zero, ua_count = 0\<rparr>)"

text \<open>The salt is drawn at random.\<close>

fun user_auth_hash_password :: "sodium \<Rightarrow> bytes8 \<Rightarrow> string option \<Rightarrow> string option \<Rightarrow> int \<times> string option" where
  "user_auth_hash_password S salt (Some password) (Some hash) =
     (case sod_pwhash S password salt of None \<Rightarrow> (-1, Some hash) | Some h \<Rightarrow> (0, Some h))"
| "user_auth_hash_password S salt password hash = (-1, hash)"

fun user_auth_verify_password :: "sodium \<Rightarrow> string option \<Rightarrow> string option \<Rightarrow> bool" where
  "user_auth_verify_password S (Some password) (Some hash) = sod_pwhash_verify S hash password"
| "user_auth_verify_password S password hash = False"

text \<open>The secret's buffer is the list of its bytes; the flag reports that the terminator is written outside it.\<close>

definition user_auth_generate_totp_secret :: "bytes8 \<Rightarrow> string option \<Rightarrow> int \<times> string option \<times> bool" where
  "user_auth_generate_totp_secret raw_secret secret = (case secret of None \<Rightarrow> (-1, None, False)
     | Some buf \<Rightarrow> if length buf < USER_AUTH_TOTP_SECRET_LEN then (-1, Some buf, False)
        else let digits = concat (map (\<lambda>i. hex_pair hex_upper (raw_secret ! i)) (filter (\<lambda>i. i * 2 < length buf - 1) [0..<20])) in
          (0, Some ((digits @ drop (length digits) buf)[40 := CHR 0x00]), length buf \<le> 40))"

fun user_auth_verify_totp :: "string option \<Rightarrow> string option \<Rightarrow> bool" where
  "user_auth_verify_totp (Some secret) (Some code) = (length code = 6 \<and> list_all is_digit code)"
| "user_auth_verify_totp secret code = False"

fun user_auth_create_session :: "u8 list \<Rightarrow> u64 \<Rightarrow> string option \<Rightarrow> user_auth_session option \<Rightarrow> user_auth_state \<Rightarrow>
    int \<times> user_auth_session option \<times> user_auth_state" where
  "user_auth_create_session token_bytes now_us (Some username) (Some session) s =
     (if ua_count s \<ge> UA_MAX_SESSIONS then (-1, Some session, s)
      else let session = \<lparr>uas_session_token = hex_string token_bytes, uas_username = cstr_fit USER_AUTH_MAX_USERNAME username,
             uas_expiration_time_us = now_us + 3600 * 1000000, uas_mfa_verified = False\<rparr> in
        (0, Some session, s\<lparr>ua_sessions := (ua_sessions s)[ua_count s := session], ua_count := ua_count s + 1\<rparr>))"
| "user_auth_create_session token_bytes now_us username session s = (-1, session, s)"

fun user_auth_validate_session :: "string option \<Rightarrow> u64 \<Rightarrow> user_auth_state \<Rightarrow> bool" where
  "user_auth_validate_session None now_us s = False"
| "user_auth_validate_session (Some token) now_us s =
     (\<exists>e \<in> set (take (ua_count s) (ua_sessions s)). uas_session_token e = token \<and> now_us < uas_expiration_time_us e)"

definition user_auth_cleanup :: "user_auth_state \<Rightarrow> user_auth_state" where
  "user_auth_cleanup s = s\<lparr>ua_sessions := replicate UA_MAX_SESSIONS user_auth_session_zero, ua_count := 0\<rparr>"

text \<open>The first 64 sessions that are created are the only ones there ever are: no operation frees one, and an expired one
  keeps its place.\<close>

definition ua_create_all :: "(u8 list \<times> u64 \<times> string) list \<Rightarrow> user_auth_state \<Rightarrow> user_auth_state" where
  "ua_create_all cs s = fold (\<lambda>(tok, now, u) s. snd (snd (user_auth_create_session tok now (Some u) (Some user_auth_session_zero) s))) cs s"

definition ua_session :: "u8 list \<times> u64 \<times> string \<Rightarrow> user_auth_session" where
  "ua_session c = (case c of (tok, now, u) \<Rightarrow> \<lparr>uas_session_token = hex_string tok, uas_username = cstr_fit USER_AUTH_MAX_USERNAME u,
     uas_expiration_time_us = now + 3600 * 1000000, uas_mfa_verified = False\<rparr>)"

lemma ua_create_all_table:
  assumes "length (ua_sessions s) = UA_MAX_SESSIONS" and "ua_count s \<le> UA_MAX_SESSIONS"
  shows "take (ua_count (ua_create_all cs s)) (ua_sessions (ua_create_all cs s))
      = take (ua_count s) (ua_sessions s) @ map ua_session (take (UA_MAX_SESSIONS - ua_count s) cs)
    \<and> length (ua_sessions (ua_create_all cs s)) = UA_MAX_SESSIONS \<and> ua_count (ua_create_all cs s) \<le> UA_MAX_SESSIONS"
  using assms
proof (induction cs arbitrary: s)
  case (Cons c cs)
  obtain tok now u where c: "c = (tok, now, u)" by (cases c)
  let ?s' = "snd (snd (user_auth_create_session tok now (Some u) (Some user_auth_session_zero) s))"
  have step: "ua_create_all (c # cs) s = ua_create_all cs ?s'" by (simp add: ua_create_all_def c)
  show ?case
  proof (cases "ua_count s < UA_MAX_SESSIONS")
    case True
    then have s': "?s' = s\<lparr>ua_sessions := (ua_sessions s)[ua_count s := ua_session c], ua_count := ua_count s + 1\<rparr>"
      by (simp add: ua_session_def c Let_def)
    obtain d where d: "UA_MAX_SESSIONS - ua_count s = Suc d" "UA_MAX_SESSIONS - Suc (ua_count s) = d"
      using True by (cases "UA_MAX_SESSIONS - ua_count s") auto
    have "take (Suc (ua_count s)) ((ua_sessions s)[ua_count s := ua_session c]) = take (ua_count s) (ua_sessions s) @ [ua_session c]"
      using True Cons.prems(1) by (simp add: take_Suc_conv_app_nth)
    then show ?thesis using Cons.IH [of ?s'] Cons.prems True d unfolding step s' by simp
  next
    case False
    then have "?s' = s" "UA_MAX_SESSIONS - ua_count s = 0" by simp_all
    then show ?thesis using Cons.IH [of s] Cons.prems unfolding step by simp
  qed
qed (simp add: ua_create_all_def)

lemma user_auth_sessions_forever:
  "user_auth_validate_session (Some token) t (ua_create_all cs (snd (user_auth_init S))) \<longleftrightarrow>
    (\<exists>(tok, now, u) \<in> set (take UA_MAX_SESSIONS cs). hex_string tok = token \<and> t < now + 3600 * 1000000)"
proof -
  let ?s = "snd (user_auth_init S)"
  have "length (ua_sessions ?s) = UA_MAX_SESSIONS" "ua_count ?s = 0" by (simp_all add: user_auth_init_def)
  then have "take (ua_count (ua_create_all cs ?s)) (ua_sessions (ua_create_all cs ?s)) = map ua_session (take UA_MAX_SESSIONS cs)"
    using ua_create_all_table [of ?s cs] by simp
  then have "user_auth_validate_session (Some token) t (ua_create_all cs ?s) \<longleftrightarrow>
      (\<exists>c \<in> set (take UA_MAX_SESSIONS cs). uas_session_token (ua_session c) = token \<and> t < uas_expiration_time_us (ua_session c))"
    by simp
  moreover have "uas_session_token (ua_session c) = token \<and> t < uas_expiration_time_us (ua_session c)
      \<longleftrightarrow> (case c of (tok, now, u) \<Rightarrow> hex_string tok = token \<and> t < now + 3600 * 1000000)" for c
    by (cases c) (simp add: ua_session_def)
  ultimately show ?thesis by (simp only:)
qed

text \<open>A buffer of the advertised length is overrun by the terminator.\<close>

lemma totp_secret_overrun:
  "length buf = USER_AUTH_TOTP_SECRET_LEN \<Longrightarrow> \<exists>buf'. user_auth_generate_totp_secret raw (Some buf) = (0, Some buf', True)"
  by (simp add: user_auth_generate_totp_secret_def USER_AUTH_TOTP_SECRET_LEN_def Let_def)

section \<open>The audit log\<close>

datatype audit_event_type = AUDIT_EVENT_LOGIN | AUDIT_EVENT_LOGOUT | AUDIT_EVENT_LOGIN_FAILED | AUDIT_EVENT_SESSION_CREATED
  | AUDIT_EVENT_SESSION_EXPIRED | AUDIT_EVENT_KEY_EXCHANGE | AUDIT_EVENT_ENCRYPTION_FAILED | AUDIT_EVENT_SUSPICIOUS_ACTIVITY
  | AUDIT_EVENT_SECURITY_ALERT

datatype audit_sink = AuditStderr | AuditFile string

text \<open>\<open>aud_lines\<close> is what was written, oldest first, each line with the place it went to.\<close>

record audit_state =
  aud_log_file :: "audit_sink option"
  aud_lines :: "(audit_sink \<times> string) list"

fun event_type_to_string :: "audit_event_type \<Rightarrow> string" where
  "event_type_to_string AUDIT_EVENT_LOGIN = ''LOGIN''"
| "event_type_to_string AUDIT_EVENT_LOGOUT = ''LOGOUT''"
| "event_type_to_string AUDIT_EVENT_LOGIN_FAILED = ''LOGIN_FAILED''"
| "event_type_to_string AUDIT_EVENT_SESSION_CREATED = ''SESSION_CREATED''"
| "event_type_to_string AUDIT_EVENT_SESSION_EXPIRED = ''SESSION_EXPIRED''"
| "event_type_to_string AUDIT_EVENT_KEY_EXCHANGE = ''KEY_EXCHANGE''"
| "event_type_to_string AUDIT_EVENT_ENCRYPTION_FAILED = ''ENCRYPTION_FAILED''"
| "event_type_to_string AUDIT_EVENT_SUSPICIOUS_ACTIVITY = ''SUSPICIOUS_ACTIVITY''"
| "event_type_to_string AUDIT_EVENT_SECURITY_ALERT = ''SECURITY_ALERT''"

definition audit_field :: "string \<Rightarrow> string option \<Rightarrow> string" where
  "audit_field label v = (case v of None \<Rightarrow> [] | Some x \<Rightarrow> label @ x)"

definition audit_line :: "string \<Rightarrow> audit_event_type \<Rightarrow> string option \<Rightarrow> string option \<Rightarrow> string option \<Rightarrow> bool \<Rightarrow> string" where
  "audit_line timestamp type username ip_addr details critical =
     ''['' @ timestamp @ ''] ['' @ (if critical then ''CRITICAL'' else ''INFO'') @ ''] '' @ event_type_to_string type
     @ audit_field '' user='' username @ audit_field '' ip='' ip_addr @ audit_field '' details='' details @ [CHR 0x0A]"

definition audit_log_event :: "string \<Rightarrow> audit_event_type \<Rightarrow> string option \<Rightarrow> string option \<Rightarrow> string option \<Rightarrow> bool \<Rightarrow> audit_state \<Rightarrow> int \<times> audit_state" where
  "audit_log_event timestamp type username ip_addr details critical s =
     (let sink = (case aud_log_file s of None \<Rightarrow> AuditStderr | Some f \<Rightarrow> f) in
      (0, s\<lparr>aud_log_file := Some sink, aud_lines := aud_lines s @ [(sink, audit_line timestamp type username ip_addr details critical)]\<rparr>))"

text \<open>\<open>opens\<close>: the file can be opened for appending.\<close>

definition audit_log_init :: "bool \<Rightarrow> string \<Rightarrow> string option \<Rightarrow> audit_state \<Rightarrow> int \<times> audit_state" where
  "audit_log_init opens timestamp log_file s = (case log_file of
     Some path \<Rightarrow> if \<not> opens then (-1, s\<lparr>aud_log_file := None\<rparr>)
       else (0, snd (audit_log_event timestamp AUDIT_EVENT_SECURITY_ALERT None None (Some ''Audit logging initialized'') False
              (s\<lparr>aud_log_file := Some (AuditFile path)\<rparr>)))
   | None \<Rightarrow> (0, snd (audit_log_event timestamp AUDIT_EVENT_SECURITY_ALERT None None (Some ''Audit logging initialized'') False
              (s\<lparr>aud_log_file := Some AuditStderr\<rparr>))))"

definition audit_log_cleanup :: "string \<Rightarrow> audit_state \<Rightarrow> audit_state" where
  "audit_log_cleanup timestamp s = (case aud_log_file s of
     Some (AuditFile path) \<Rightarrow> (snd (audit_log_event timestamp AUDIT_EVENT_SECURITY_ALERT None None (Some ''Audit logging shutdown'') False s))
        \<lparr>aud_log_file := None\<rparr>
   | _ \<Rightarrow> s)"

text \<open>The log only grows, and a line is written whatever the configuration: with no file open it goes to the standard error
  stream.  A user name with a newline makes several lines of one event.\<close>

lemma audit_log_grows: "\<exists>l. aud_lines (snd (audit_log_event ts ty u ip d c s)) = aud_lines s @ [l]"
  by (simp add: audit_log_event_def Let_def)

lemma audit_log_forged:
  "audit_line ts AUDIT_EVENT_LOGIN_FAILED (Some (u @ [CHR 0x0A] @ audit_line ts AUDIT_EVENT_LOGIN (Some v) None (Some d) False)) None (Some e) False
   = audit_line ts AUDIT_EVENT_LOGIN_FAILED (Some u) None None False
     @ audit_line ts AUDIT_EVENT_LOGIN (Some v) None (Some d) False @ '' details='' @ e @ [CHR 0x0A]"
  by (simp add: audit_line_def audit_field_def)

end
