(* ===== verification/Sec_Attack.thy ===== *)
theory Sec_Attack
  imports Slots
begin

text \<open>
  Attack prevention, \<^verbatim>\<open>src/src/security/attack_prevention.c\<close>: the cache of nonces already seen, the counters of failed
  logins with their lockout, and the requests per minute.  The file's static variables are the record \<open>attack_state\<close>; the
  wall clock is an argument (microseconds).  \<open>sodium_memcmp\<close> is equality of the bytes it compares.
\<close>

definition MAX_NONCES :: nat where "MAX_NONCES = 1024"
definition MAX_FAILED_ATTEMPTS :: nat where "MAX_FAILED_ATTEMPTS = 256"
definition MAX_RATE_LIMIT_ENTRIES :: nat where "MAX_RATE_LIMIT_ENTRIES = 256"
definition LOCKOUT_THRESHOLD :: u32 where "LOCKOUT_THRESHOLD = 5"
definition LOCKOUT_DURATION_SEC :: u64 where "LOCKOUT_DURATION_SEC = 300"

record nonce_entry =
  nce_nonce :: "u8 list"
  nce_used :: bool

record failed_entry =
  fae_username :: string
  fae_failed_attempts :: u32
  fae_lockout_until_us :: u64

record rate_entry =
  rle_client_id :: string
  rle_request_count :: u32
  rle_window_start_us :: u64

record attack_state =
  ap_nonces :: "nonce_entry list"
  ap_nonce_count :: nat
  ap_failed :: "failed_entry list"
  ap_failed_count :: nat
  ap_rates :: "rate_entry list"
  ap_rate_count :: nat

section \<open>Operations\<close>

definition attack_prevention_init :: "int \<times> attack_state" where
  "attack_prevention_init = (0, \<lparr>ap_nonces = replicate MAX_NONCES \<lparr>nce_nonce = replicate 32 0, nce_used = False\<rparr>, ap_nonce_count = 0,
     ap_failed = replicate MAX_FAILED_ATTEMPTS \<lparr>fae_username = [], fae_failed_attempts = 0, fae_lockout_until_us = 0\<rparr>, ap_failed_count = 0,
     ap_rates = replicate MAX_RATE_LIMIT_ENTRIES \<lparr>rle_client_id = [], rle_request_count = 0, rle_window_start_us = 0\<rparr>, ap_rate_count = 0\<rparr>)"

definition ap_put_nonce :: "nat \<Rightarrow> u8 list \<Rightarrow> nonce_entry list \<Rightarrow> nonce_entry list" where
  "ap_put_nonce i nonce es = es[i := \<lparr>nce_nonce = overwrite (take (min (length nonce) 32) nonce) (nce_nonce (es ! i)), nce_used = True\<rparr>]"

text \<open>The nonce is the list of its \<open>nonce_len\<close> bytes.\<close>

fun attack_prevention_check_nonce :: "u8 list option \<Rightarrow> attack_state \<Rightarrow> bool \<times> attack_state" where
  "attack_prevention_check_nonce None s = (False, s)"
| "attack_prevention_check_nonce (Some nonce) s =
     (let len = min (length nonce) 32 in
      if length nonce = 0 then (False, s)
      else if \<exists>e \<in> set (take (min (ap_nonce_count s) MAX_NONCES) (ap_nonces s)).
          nce_used e \<and> take len (nce_nonce e) = take len nonce then (False, s)
      else if ap_nonce_count s < MAX_NONCES then
        (True, s\<lparr>ap_nonces := ap_put_nonce (ap_nonce_count s) nonce (ap_nonces s), ap_nonce_count := ap_nonce_count s + 1\<rparr>)
      else (True, s\<lparr>ap_nonces := ap_put_nonce (MAX_NONCES - 1) nonce (tl (ap_nonces s) @ [last (ap_nonces s)])\<rparr>))"

fun attack_prevention_record_failed_login :: "string option \<Rightarrow> u64 \<Rightarrow> attack_state \<Rightarrow> int \<times> attack_state" where
  "attack_prevention_record_failed_login None now_us s = (-1, s)"
| "attack_prevention_record_failed_login (Some username) now_us s =
     (case pfx_find fae_username (ap_failed s) (ap_failed_count s) username of
        Some i \<Rightarrow> let e = ap_failed s ! i; e = e\<lparr>fae_failed_attempts := fae_failed_attempts e + 1\<rparr> in
          (0, s\<lparr>ap_failed := (ap_failed s)[i := (if fae_failed_attempts e \<ge> LOCKOUT_THRESHOLD
             then e\<lparr>fae_lockout_until_us := now_us + LOCKOUT_DURATION_SEC * 1000000\<rparr> else e)]\<rparr>)
      | None \<Rightarrow> (0, if ap_failed_count s < MAX_FAILED_ATTEMPTS then
            s\<lparr>ap_failed := (ap_failed s)[ap_failed_count s :=
                \<lparr>fae_username = cstr_fit 64 username, fae_failed_attempts = 1, fae_lockout_until_us = 0\<rparr>],
              ap_failed_count := ap_failed_count s + 1\<rparr> else s))"

fun attack_prevention_is_account_locked :: "string option \<Rightarrow> u64 \<Rightarrow> attack_state \<Rightarrow> bool" where
  "attack_prevention_is_account_locked None now_us s = False"
| "attack_prevention_is_account_locked (Some username) now_us s =
     (\<exists>e \<in> set (take (ap_failed_count s) (ap_failed s)). fae_username e = username \<and> fae_lockout_until_us e > now_us)"

fun attack_prevention_reset_failed_attempts :: "string option \<Rightarrow> attack_state \<Rightarrow> int \<times> attack_state" where
  "attack_prevention_reset_failed_attempts None s = (-1, s)"
| "attack_prevention_reset_failed_attempts (Some username) s =
     (case pfx_find fae_username (ap_failed s) (ap_failed_count s) username of
        Some i \<Rightarrow> (0, s\<lparr>ap_failed := (ap_failed s)[i :=
            (ap_failed s ! i)\<lparr>fae_failed_attempts := 0, fae_lockout_until_us := 0\<rparr>]\<rparr>)
      | None \<Rightarrow> (0, s))"

fun attack_prevention_is_rate_limited :: "string option \<Rightarrow> u32 \<Rightarrow> u64 \<Rightarrow> attack_state \<Rightarrow> bool \<times> attack_state" where
  "attack_prevention_is_rate_limited None max_per_min now_us s = (False, s)"
| "attack_prevention_is_rate_limited (Some client_id) max_per_min now_us s =
     (case pfx_find rle_client_id (ap_rates s) (ap_rate_count s) client_id of
        Some i \<Rightarrow> let e = ap_rates s ! i in
          if now_us - rle_window_start_us e > 60 * 1000000 then
            (False, s\<lparr>ap_rates := (ap_rates s)[i := e\<lparr>rle_request_count := 1, rle_window_start_us := now_us\<rparr>]\<rparr>)
          else let e = e\<lparr>rle_request_count := rle_request_count e + 1\<rparr> in
            (rle_request_count e > max_per_min, s\<lparr>ap_rates := (ap_rates s)[i := e]\<rparr>)
      | None \<Rightarrow> (False, if ap_rate_count s < MAX_RATE_LIMIT_ENTRIES then
            s\<lparr>ap_rates := (ap_rates s)[ap_rate_count s :=
                \<lparr>rle_client_id = cstr_fit 128 client_id, rle_request_count = 1, rle_window_start_us = now_us\<rparr>],
              ap_rate_count := ap_rate_count s + 1\<rparr> else s))"

definition attack_prevention_cleanup :: "attack_state \<Rightarrow> attack_state" where
  "attack_prevention_cleanup s = snd attack_prevention_init"

section \<open>What the three defences amount to\<close>

datatype ap_op = ApNonce "u8 list" | ApFail string u64 | ApLocked string u64 | ApReset string | ApRate string u32 u64

datatype ap_ans = ApBool bool | ApInt int

fun ap_call :: "ap_op \<Rightarrow> attack_state \<Rightarrow> ap_ans \<times> attack_state" where
  "ap_call (ApNonce n) s = (case attack_prevention_check_nonce (Some n) s of (b, s) \<Rightarrow> (ApBool b, s))"
| "ap_call (ApFail u now) s = (case attack_prevention_record_failed_login (Some u) now s of (r, s) \<Rightarrow> (ApInt r, s))"
| "ap_call (ApLocked u now) s = (ApBool (attack_prevention_is_account_locked (Some u) now s), s)"
| "ap_call (ApReset u) s = (case attack_prevention_reset_failed_attempts (Some u) s of (r, s) \<Rightarrow> (ApInt r, s))"
| "ap_call (ApRate c m now) s = (case attack_prevention_is_rate_limited (Some c) m now s of (b, s) \<Rightarrow> (ApBool b, s))"

text \<open>The last nonces that were accepted (at most 1024, oldest first); failures and end of the lockout by user name; requests
  and start of the window by client.\<close>

record ap_spec_state =
  aps_nonces :: "u8 list list"
  aps_failed :: "string \<rightharpoonup> u32 \<times> u64"
  aps_rates :: "string \<rightharpoonup> u32 \<times> u64"

fun ap_spec :: "ap_op \<Rightarrow> ap_spec_state \<Rightarrow> ap_ans \<times> ap_spec_state" where
  "ap_spec (ApNonce n) t = (if n \<in> set (aps_nonces t) then (ApBool False, t)
     else (ApBool True, t\<lparr>aps_nonces := (if length (aps_nonces t) < MAX_NONCES then aps_nonces t else tl (aps_nonces t)) @ [n]\<rparr>))"
| "ap_spec (ApFail u now) t = (ApInt 0, t\<lparr>aps_failed := (case aps_failed t u of
       Some (f, l) \<Rightarrow> (aps_failed t)(u \<mapsto> (f + 1, if f + 1 \<ge> LOCKOUT_THRESHOLD then now + LOCKOUT_DURATION_SEC * 1000000 else l))
     | None \<Rightarrow> if card (dom (aps_failed t)) < MAX_FAILED_ATTEMPTS then (aps_failed t)(u \<mapsto> (1, 0)) else aps_failed t)\<rparr>)"
| "ap_spec (ApLocked u now) t = (ApBool (case aps_failed t u of None \<Rightarrow> False | Some (f, l) \<Rightarrow> l > now), t)"
| "ap_spec (ApReset u) t = (ApInt 0, t\<lparr>aps_failed := (case aps_failed t u of None \<Rightarrow> aps_failed t | Some _ \<Rightarrow> (aps_failed t)(u \<mapsto> (0, 0)))\<rparr>)"
| "ap_spec (ApRate c m now) t = (case aps_rates t c of
       Some (n, w) \<Rightarrow> if now - w > 60 * 1000000 then (ApBool False, t\<lparr>aps_rates := (aps_rates t)(c \<mapsto> (1, now))\<rparr>)
         else (ApBool (n + 1 > m), t\<lparr>aps_rates := (aps_rates t)(c \<mapsto> (n + 1, w))\<rparr>)
     | None \<Rightarrow> (ApBool False, if card (dom (aps_rates t)) < MAX_RATE_LIMIT_ENTRIES
         then t\<lparr>aps_rates := (aps_rates t)(c \<mapsto> (1, now))\<rparr> else t))"

definition CRYPTO_PRIM_NONCE_BYTES :: nat where "CRYPTO_PRIM_NONCE_BYTES = 12"

fun ap_allowed :: "ap_op \<Rightarrow> bool" where
  "ap_allowed (ApNonce n) = (length n = CRYPTO_PRIM_NONCE_BYTES)"
| "ap_allowed (ApFail u now) = (length u < 64)"
| "ap_allowed (ApRate c m now) = (length c < 128)"
| "ap_allowed _ = True"

definition fae_val :: "failed_entry \<Rightarrow> u32 \<times> u64" where
  "fae_val e = (fae_failed_attempts e, fae_lockout_until_us e)"

definition rle_val :: "rate_entry \<Rightarrow> u32 \<times> u64" where
  "rle_val e = (rle_request_count e, rle_window_start_us e)"

definition ap_nonces_rel :: "attack_state \<Rightarrow> u8 list list \<Rightarrow> bool" where
  "ap_nonces_rel s L \<longleftrightarrow> length (ap_nonces s) = MAX_NONCES \<and> ap_nonce_count s = length L \<and> length L \<le> MAX_NONCES
     \<and> (\<forall>e \<in> set (ap_nonces s). length (nce_nonce e) = 32) \<and> (\<forall>e \<in> set (take (length L) (ap_nonces s)). nce_used e)
     \<and> map (\<lambda>e. take CRYPTO_PRIM_NONCE_BYTES (nce_nonce e)) (take (length L) (ap_nonces s)) = L"

definition ap_wf :: "attack_state \<Rightarrow> bool" where
  "ap_wf s \<longleftrightarrow> length (ap_failed s) = MAX_FAILED_ATTEMPTS \<and> pfx_distinct fae_username (ap_failed s) (ap_failed_count s)
     \<and> length (ap_rates s) = MAX_RATE_LIMIT_ENTRIES \<and> pfx_distinct rle_client_id (ap_rates s) (ap_rate_count s)"

definition ap_rel :: "attack_state \<Rightarrow> ap_spec_state \<Rightarrow> bool" where
  "ap_rel s t \<longleftrightarrow> ap_nonces_rel s (aps_nonces t) \<and> ap_wf s
     \<and> aps_failed t = pfx_map fae_username fae_val (ap_failed s) (ap_failed_count s)
     \<and> aps_rates t = pfx_map rle_client_id rle_val (ap_rates s) (ap_rate_count s)"

lemma ap_nonces_rel_cong:
  "ap_nonces s' = ap_nonces s \<Longrightarrow> ap_nonce_count s' = ap_nonce_count s \<Longrightarrow> ap_nonces_rel s' L = ap_nonces_rel s L"
  by (simp add: ap_nonces_rel_def)

definition ap_nonce_slot :: "u8 list \<Rightarrow> nonce_entry \<Rightarrow> nonce_entry" where
  "ap_nonce_slot n e = \<lparr>nce_nonce = overwrite n (nce_nonce e), nce_used = True\<rparr>"

lemma ap_put_nonce_slot: "length n = CRYPTO_PRIM_NONCE_BYTES \<Longrightarrow> ap_put_nonce i n es = es[i := ap_nonce_slot n (es ! i)]"
  by (simp add: ap_put_nonce_def ap_nonce_slot_def CRYPTO_PRIM_NONCE_BYTES_def)

lemma ap_nonce_slot_simps:
  assumes "length n = CRYPTO_PRIM_NONCE_BYTES" and "length (nce_nonce e) = 32"
  shows "length (nce_nonce (ap_nonce_slot n e)) = 32" "nce_used (ap_nonce_slot n e)"
    "take CRYPTO_PRIM_NONCE_BYTES (nce_nonce (ap_nonce_slot n e)) = n"
  using assms by (simp_all add: ap_nonce_slot_def CRYPTO_PRIM_NONCE_BYTES_def)

lemma ap_nonces_room:
  assumes "ap_nonces_rel s L" and "length n = CRYPTO_PRIM_NONCE_BYTES" and "length L < MAX_NONCES"
  shows "ap_nonces_rel (s\<lparr>ap_nonces := ap_put_nonce (ap_nonce_count s) n (ap_nonces s), ap_nonce_count := ap_nonce_count s + 1\<rparr>) (L @ [n])"
proof -
  let ?e = "ap_nonce_slot n (ap_nonces s ! length L)"
  have c: "ap_nonce_count s = length L" "length L < length (ap_nonces s)" using assms by (simp_all add: ap_nonces_rel_def)
  then have "length (nce_nonce (ap_nonces s ! length L)) = 32" using assms(1) nth_mem by (fastforce simp: ap_nonces_rel_def)
  note e = ap_nonce_slot_simps [OF assms(2) this]
  have t: "take (Suc (length L)) ((ap_nonces s)[length L := ?e]) = take (length L) (ap_nonces s) @ [?e]"
    using c by (simp add: take_Suc_conv_app_nth)
  have "\<forall>x \<in> set ((ap_nonces s)[length L := ?e]). length (nce_nonce x) = 32"
    using assms(1) e(1) by (auto simp: ap_nonces_rel_def dest!: set_update_subset_insert [THEN subsetD])
  with assms t e(2,3) show ?thesis by (simp add: ap_nonces_rel_def ap_put_nonce_slot)
qed

lemma ap_nonces_full:
  assumes "ap_nonces_rel s L" and "length n = CRYPTO_PRIM_NONCE_BYTES" and "length L = MAX_NONCES"
  shows "ap_nonces_rel (s\<lparr>ap_nonces := ap_put_nonce (MAX_NONCES - 1) n (tl (ap_nonces s) @ [last (ap_nonces s)])\<rparr>) (tl L @ [n])"
proof -
  let ?xs = "ap_nonces s"
  let ?e = "ap_nonce_slot n (last ?xs)"
  have c: "length ?xs = MAX_NONCES" "?xs \<noteq> []" using assms by (auto simp: ap_nonces_rel_def MAX_NONCES_def)
  then have "length (nce_nonce (last ?xs)) = 32" using assms(1) last_in_set by (fastforce simp: ap_nonces_rel_def)
  note e = ap_nonce_slot_simps [OF assms(2) this]
  have p: "ap_put_nonce (MAX_NONCES - 1) n (tl ?xs @ [last ?xs]) = tl ?xs @ [?e]"
    using c(1) by (simp add: ap_put_nonce_slot [OF assms(2)] nth_append list_update_append)
  have a: "\<forall>x \<in> set ?xs. length (nce_nonce x) = 32 \<and> nce_used x"
      "map (\<lambda>e. take CRYPTO_PRIM_NONCE_BYTES (nce_nonce e)) ?xs = L"
    using assms(1,3) c(1) by (simp_all add: ap_nonces_rel_def)
  have "\<forall>x \<in> set (tl ?xs). length (nce_nonce x) = 32 \<and> nce_used x" using a(1) c(2) by (cases ?xs) simp_all
  moreover have "map (\<lambda>e. take CRYPTO_PRIM_NONCE_BYTES (nce_nonce e)) (tl ?xs) = tl L" using a(2) by (simp add: map_tl)
  moreover have "0 < MAX_NONCES" by (simp add: MAX_NONCES_def)
  ultimately show ?thesis using assms(1,3) c(1) e unfolding p ap_nonces_rel_def by simp
qed

lemma ap_check_nonce_rel:
  assumes "ap_nonces_rel s L" and "length n = CRYPTO_PRIM_NONCE_BYTES"
  shows "attack_prevention_check_nonce (Some n) s =
      (n \<notin> set L, snd (attack_prevention_check_nonce (Some n) s))
    \<and> ap_nonces_rel (snd (attack_prevention_check_nonce (Some n) s))
        (if n \<in> set L then L else (if length L < MAX_NONCES then L else tl L) @ [n])
    \<and> ap_failed (snd (attack_prevention_check_nonce (Some n) s)) = ap_failed s
    \<and> ap_failed_count (snd (attack_prevention_check_nonce (Some n) s)) = ap_failed_count s
    \<and> ap_rates (snd (attack_prevention_check_nonce (Some n) s)) = ap_rates s
    \<and> ap_rate_count (snd (attack_prevention_check_nonce (Some n) s)) = ap_rate_count s"
proof -
  let ?f = "\<lambda>e. take CRYPTO_PRIM_NONCE_BYTES (nce_nonce e)"
  have len: "min (length n) 32 = CRYPTO_PRIM_NONCE_BYTES" "length n \<noteq> 0" "take CRYPTO_PRIM_NONCE_BYTES n = n"
    using assms(2) by (simp_all add: CRYPTO_PRIM_NONCE_BYTES_def)
  have c: "min (ap_nonce_count s) MAX_NONCES = length L" "ap_nonce_count s = length L" using assms(1) by (simp_all add: ap_nonces_rel_def)
  have u: "\<forall>e \<in> set (take (length L) (ap_nonces s)). nce_used e" using assms(1) by (simp add: ap_nonces_rel_def)
  have "map ?f (take (length L) (ap_nonces s)) = L" using assms(1) unfolding ap_nonces_rel_def by blast
  from arg_cong [OF this, of set] have "set L = ?f ` set (take (length L) (ap_nonces s))" by (simp only: set_map)
  then have seen: "(\<exists>e \<in> set (take (min (ap_nonce_count s) MAX_NONCES) (ap_nonces s)). nce_used e \<and> ?f e = n) \<longleftrightarrow> n \<in> set L"
    using u unfolding c(1) by auto
  show ?thesis
  proof (cases "n \<in> set L")
    case True
    then have "attack_prevention_check_nonce (Some n) s = (False, s)"
      using seen len by (simp add: Let_def)
    with True assms(1) show ?thesis by simp
  next
    case False
    show ?thesis
    proof (cases "length L < MAX_NONCES")
      case True
      have "attack_prevention_check_nonce (Some n) s
          = (True, s\<lparr>ap_nonces := ap_put_nonce (ap_nonce_count s) n (ap_nonces s), ap_nonce_count := ap_nonce_count s + 1\<rparr>)"
        using seen len False True c(2) by (simp add: Let_def)
      with False True ap_nonces_room [OF assms True] show ?thesis by simp
    next
      case full: False
      then have l: "length L = MAX_NONCES" using assms(1) by (simp add: ap_nonces_rel_def)
      have "attack_prevention_check_nonce (Some n) s
          = (True, s\<lparr>ap_nonces := ap_put_nonce (MAX_NONCES - 1) n (tl (ap_nonces s) @ [last (ap_nonces s)])\<rparr>)"
        using seen len False l c(2) by (simp add: Let_def)
      with False l ap_nonces_full [OF assms l] show ?thesis by simp
    qed
  qed
qed

declare attack_prevention_check_nonce.simps [simp del]

lemma ap_locked_iff:
  assumes "ap_wf s"
  shows "attack_prevention_is_account_locked (Some u) now s
    = (case pfx_map fae_username fae_val (ap_failed s) (ap_failed_count s) u of None \<Rightarrow> False | Some (f, l) \<Rightarrow> l > now)"
proof -
  have d: "pfx_distinct fae_username (ap_failed s) (ap_failed_count s)" using assms by (simp add: ap_wf_def)
  show ?thesis
  proof (cases "pfx_map fae_username fae_val (ap_failed s) (ap_failed_count s) u")
    case None
    then have "\<forall>e \<in> set (take (ap_failed_count s) (ap_failed s)). fae_username e \<noteq> u"
      using pfx_map_in [OF d, of _ fae_val] by fastforce
    with None show ?thesis by simp
  next
    case (Some v)
    then obtain e where e: "e \<in> set (take (ap_failed_count s) (ap_failed s))" "fae_username e = u" "fae_val e = v"
      using pfx_map_SomeD by fastforce
    have "fae_lockout_until_us x = snd v" if "x \<in> set (take (ap_failed_count s) (ap_failed s))" "fae_username x = u" for x
      using pfx_map_in [OF d that(1), of fae_val] that(2) Some by (auto simp: fae_val_def)
    then have "attack_prevention_is_account_locked (Some u) now s \<longleftrightarrow> snd v > now"
      using e(1,2) unfolding attack_prevention_is_account_locked.simps by metis
    with Some show ?thesis by (simp add: case_prod_beta del: attack_prevention_is_account_locked.simps)
  qed
qed

lemma ap_fail_rel:
  assumes "ap_rel s t" and "length u < 64"
  shows "\<exists>s'. attack_prevention_record_failed_login (Some u) now s = (0, s') \<and> ap_rel s' (snd (ap_spec (ApFail u now) t))"
proof -
  have w: "ap_wf s" "ap_failed_count s \<le> length (ap_failed s)" "pfx_distinct fae_username (ap_failed s) (ap_failed_count s)"
      "length (ap_failed s) = MAX_FAILED_ATTEMPTS" using assms(1) by (simp_all add: ap_rel_def ap_wf_def pfx_distinct_def)
  have F: "aps_failed t = pfx_map fae_username fae_val (ap_failed s) (ap_failed_count s)" using assms(1) by (simp add: ap_rel_def)
  note card = pfx_card [OF w(3), of fae_val]
  show ?thesis
  proof (cases "pfx_find fae_username (ap_failed s) (ap_failed_count s) u")
    case None
    have n: "aps_failed t u = None" using None pfx_map_find [OF w(2), of fae_username fae_val u] by (simp add: F)
    show ?thesis
    proof (cases "ap_failed_count s < MAX_FAILED_ATTEMPTS")
      case True
      let ?e = "\<lparr>fae_username = u, fae_failed_attempts = 1, fae_lockout_until_us = 0\<rparr>"
      note app = pfx_map_append [OF None, of ?e fae_val] pfx_distinct_append [OF w(3) None, of ?e]
      show ?thesis using assms None n True app w card
        by (simp add: ap_rel_def ap_wf_def F ap_nonces_rel_def fae_val_def)
    next
      case False
      with assms None n w card show ?thesis by (simp add: ap_rel_def F)
    qed
  next
    case (Some i)
    let ?e = "(ap_failed s ! i)\<lparr>fae_failed_attempts := fae_failed_attempts (ap_failed s ! i) + 1\<rparr>"
    let ?e' = "if fae_failed_attempts ?e \<ge> LOCKOUT_THRESHOLD then ?e\<lparr>fae_lockout_until_us := now + LOCKOUT_DURATION_SEC * 1000000\<rparr> else ?e"
    note i = pfx_find_SomeD [OF Some w(2), of fae_val]
    have k: "fae_username ?e' = u" using i by simp
    note up = pfx_map_update [OF Some k, of fae_val] pfx_distinct_update [OF w(3) Some k]
    have "aps_failed t u = Some (fae_val (ap_failed s ! i))" using i by (simp add: F)
    then have sp: "snd (ap_spec (ApFail u now) t) = t\<lparr>aps_failed := (aps_failed t)(u \<mapsto> fae_val ?e')\<rparr>" by (simp add: fae_val_def)
    have "attack_prevention_record_failed_login (Some u) now s = (0, s\<lparr>ap_failed := (ap_failed s)[i := ?e']\<rparr>)"
      using Some by (simp add: Let_def)
    moreover have "ap_rel (s\<lparr>ap_failed := (ap_failed s)[i := ?e']\<rparr>) (t\<lparr>aps_failed := (aps_failed t)(u \<mapsto> fae_val ?e')\<rparr>)"
      using assms(1) up w unfolding ap_rel_def ap_wf_def ap_nonces_rel_def by (simp only: F) simp
    ultimately show ?thesis unfolding sp by blast
  qed
qed

lemma ap_reset_rel:
  assumes "ap_rel s t"
  shows "\<exists>s'. attack_prevention_reset_failed_attempts (Some u) s = (0, s') \<and> ap_rel s' (snd (ap_spec (ApReset u) t))"
proof -
  have w: "ap_wf s" "ap_failed_count s \<le> length (ap_failed s)" "pfx_distinct fae_username (ap_failed s) (ap_failed_count s)"
    using assms(1) by (simp_all add: ap_rel_def ap_wf_def pfx_distinct_def)
  have F: "aps_failed t = pfx_map fae_username fae_val (ap_failed s) (ap_failed_count s)" using assms(1) by (simp add: ap_rel_def)
  show ?thesis
  proof (cases "pfx_find fae_username (ap_failed s) (ap_failed_count s) u")
    case None
    then have "aps_failed t u = None" using pfx_map_find [OF w(2), of fae_username fae_val u] by (simp add: F)
    with None assms show ?thesis by simp
  next
    case (Some i)
    let ?e = "(ap_failed s ! i)\<lparr>fae_failed_attempts := 0, fae_lockout_until_us := 0\<rparr>"
    note i = pfx_find_SomeD [OF Some w(2), of fae_val]
    have k: "fae_username ?e = u" using i by simp
    note up = pfx_map_update [OF Some k, of fae_val] pfx_distinct_update [OF w(3) Some k]
    have "aps_failed t u = Some (fae_val (ap_failed s ! i))" using i by (simp add: F)
    then have sp: "snd (ap_spec (ApReset u) t) = t\<lparr>aps_failed := (aps_failed t)(u \<mapsto> fae_val ?e)\<rparr>" by (simp add: fae_val_def)
    have "attack_prevention_reset_failed_attempts (Some u) s = (0, s\<lparr>ap_failed := (ap_failed s)[i := ?e]\<rparr>)" using Some by simp
    moreover have "ap_rel (s\<lparr>ap_failed := (ap_failed s)[i := ?e]\<rparr>) (t\<lparr>aps_failed := (aps_failed t)(u \<mapsto> fae_val ?e)\<rparr>)"
      using assms(1) up w unfolding ap_rel_def ap_wf_def ap_nonces_rel_def by (simp only: F) simp
    ultimately show ?thesis unfolding sp by blast
  qed
qed

lemma ap_rate_rel:
  assumes "ap_rel s t" and "length c < 128"
  shows "ApBool (fst (attack_prevention_is_rate_limited (Some c) m now s)) = fst (ap_spec (ApRate c m now) t)
    \<and> ap_rel (snd (attack_prevention_is_rate_limited (Some c) m now s)) (snd (ap_spec (ApRate c m now) t))"
proof -
  have w: "ap_wf s" "ap_rate_count s \<le> length (ap_rates s)" "pfx_distinct rle_client_id (ap_rates s) (ap_rate_count s)"
      "length (ap_rates s) = MAX_RATE_LIMIT_ENTRIES" using assms(1) by (simp_all add: ap_rel_def ap_wf_def pfx_distinct_def)
  have R: "aps_rates t = pfx_map rle_client_id rle_val (ap_rates s) (ap_rate_count s)" using assms(1) by (simp add: ap_rel_def)
  note card = pfx_card [OF w(3), of rle_val]
  show ?thesis
  proof (cases "pfx_find rle_client_id (ap_rates s) (ap_rate_count s) c")
    case None
    have n: "aps_rates t c = None" using None pfx_map_find [OF w(2), of rle_client_id rle_val c] by (simp add: R)
    show ?thesis
    proof (cases "ap_rate_count s < MAX_RATE_LIMIT_ENTRIES")
      case True
      let ?e = "\<lparr>rle_client_id = c, rle_request_count = 1, rle_window_start_us = now\<rparr>"
      note app = pfx_map_append [OF None, of ?e rle_val] pfx_distinct_append [OF w(3) None, of ?e]
      show ?thesis using assms None n True app w card
        by (simp add: ap_rel_def ap_wf_def R ap_nonces_rel_def rle_val_def)
    next
      case False
      with assms None n w card show ?thesis by (simp add: ap_rel_def R)
    qed
  next
    case (Some i)
    note i = pfx_find_SomeD [OF Some w(2), of rle_val]
    have v: "aps_rates t c = Some (rle_val (ap_rates s ! i))" using i by (simp add: R)
    have keep: "ap_rel (s\<lparr>ap_rates := (ap_rates s)[i := e]\<rparr>) (t\<lparr>aps_rates := (aps_rates t)(c \<mapsto> rle_val e)\<rparr>)"
      if "rle_client_id e = c" for e
      using assms(1) pfx_map_update [OF Some that, of rle_val] pfx_distinct_update [OF w(3) Some that] w
      unfolding ap_rel_def ap_wf_def ap_nonces_rel_def by (simp only: R) simp
    let ?e = "ap_rates s ! i"
    show ?thesis
    proof (cases "now - rle_window_start_us ?e > 60 * 1000000")
      case True
      with v Some i keep [of "?e\<lparr>rle_request_count := 1, rle_window_start_us := now\<rparr>"]
      show ?thesis by (simp add: Let_def rle_val_def)
    next
      case False
      with v Some i keep [of "?e\<lparr>rle_request_count := rle_request_count ?e + 1\<rparr>"]
      show ?thesis by (simp add: Let_def rle_val_def)
    qed
  qed
qed

interpretation ap: simulation ap_call ap_spec ap_rel ap_allowed
proof
  fix s t and op :: ap_op
  assume r: "ap_rel s t" and a: "ap_allowed op"
  show "fst (ap_call op s) = fst (ap_spec op t) \<and> ap_rel (snd (ap_call op s)) (snd (ap_spec op t))"
  proof (cases op)
    case (ApNonce n)
    have n: "ap_nonces_rel s (aps_nonces t)" "length n = CRYPTO_PRIM_NONCE_BYTES" using r a ApNonce by (simp_all add: ap_rel_def)
    note c = ap_check_nonce_rel [OF n]
    let ?s = "snd (attack_prevention_check_nonce (Some n) s)"
    have "ap_call op s = (ApBool (n \<notin> set (aps_nonces t)), ?s)" unfolding ApNonce ap_call.simps using c by (metis case_prod_conv)
    moreover have "ap_wf ?s" using c r by (simp add: ap_rel_def ap_wf_def)
    ultimately show ?thesis using c r unfolding ApNonce by (auto simp: ap_rel_def)
  next
    case (ApFail u now)
    with a have "length u < 64" by simp
    from ap_fail_rel [OF r this, of now] obtain s' where s': "attack_prevention_record_failed_login (Some u) now s = (0, s')"
        "ap_rel s' (snd (ap_spec (ApFail u now) t))" by blast
    have "fst (ap_spec (ApFail u now) t) = ApInt 0" by simp
    with s' show ?thesis unfolding ApFail by (simp del: attack_prevention_record_failed_login.simps ap_spec.simps)
  next
    case (ApLocked u now)
    then show ?thesis using ap_locked_iff [of s u now] r
      by (simp add: ap_rel_def del: attack_prevention_is_account_locked.simps)
  next
    case (ApReset u)
    from ap_reset_rel [OF r, of u] obtain s' where s': "attack_prevention_reset_failed_attempts (Some u) s = (0, s')"
        "ap_rel s' (snd (ap_spec (ApReset u) t))" by blast
    have "fst (ap_spec (ApReset u) t) = ApInt 0" by simp
    with s' show ?thesis unfolding ApReset by (simp del: attack_prevention_reset_failed_attempts.simps ap_spec.simps)
  next
    case (ApRate c m now)
    then show ?thesis using ap_rate_rel [OF r, of c m now] a
      by (simp add: case_prod_beta del: attack_prevention_is_rate_limited.simps ap_spec.simps)
  qed
qed

definition ap_spec_init :: ap_spec_state where
  "ap_spec_init = \<lparr>aps_nonces = [], aps_failed = Map.empty, aps_rates = Map.empty\<rparr>"

lemma ap_init_rel: "ap_rel (snd attack_prevention_init) ap_spec_init"
  by (auto simp: ap_rel_def ap_nonces_rel_def ap_wf_def attack_prevention_init_def ap_spec_init_def pfx_distinct_def pfx_map_def)

text \<open>The three defences are exactly this: a nonce is refused if and only if it is one of the last 1024 that were accepted; an
  account is locked for 300 seconds from the fifth and each later failure that is not followed by a reset; a client has
  its requests counted per window of a minute.  It holds for any interleaving of calls, user names of at most 63 and
  client names of at most 127 characters and nonces of the length that the AEAD uses; the tables take 256 names each.\<close>

theorem attack_prevention_exact:
  assumes "\<forall>op \<in> set ops. ap_allowed op"
  shows "fst (run_calls ap_call ops (snd attack_prevention_init)) = fst (run_calls ap_spec ops ap_spec_init)"
  by (rule ap.run [OF ap_init_rel assms, THEN conjunct1])

lemma attack_prevention_exact_witness:
  "fst (run_calls ap_call [ApNonce (replicate 12 7), ApNonce (replicate 12 7), ApFail ''eve'' 0, ApFail ''eve'' 1, ApFail ''eve'' 2,
      ApFail ''eve'' 3, ApLocked ''eve'' 4, ApFail ''eve'' 4, ApLocked ''eve'' 5] (snd attack_prevention_init))
    = [ApBool True, ApBool False, ApInt 0, ApInt 0, ApInt 0, ApInt 0, ApBool False, ApInt 0, ApBool True]"
  by (subst attack_prevention_exact)
    (simp_all add: ap_spec_init_def CRYPTO_PRIM_NONCE_BYTES_def MAX_NONCES_def MAX_FAILED_ATTEMPTS_def LOCKOUT_THRESHOLD_def LOCKOUT_DURATION_SEC_def)

section \<open>A name that is too long\<close>

definition ap_filled :: "string \<Rightarrow> nat \<Rightarrow> attack_state \<Rightarrow> bool" where
  "ap_filled w k s \<longleftrightarrow> length (ap_failed s) = MAX_FAILED_ATTEMPTS \<and> ap_failed_count s = k
     \<and> (\<forall>e \<in> set (take k (ap_failed s)). fae_username e = w)"

lemma ap_filled_fail:
  assumes "ap_filled (take 63 u) k s" and "64 \<le> length u" and "k < MAX_FAILED_ATTEMPTS"
  shows "ap_filled (take 63 u) (Suc k) (snd (ap_call (ApFail u now) s))"
proof -
  have "length (take 63 u) \<noteq> length u" using assms(2) by simp
  then have "take 63 u \<noteq> u" by metis
  then have "pfx_find fae_username (ap_failed s) (ap_failed_count s) u = None"
    using assms(1) by (auto simp: pfx_find_def first_idx_None ap_filled_def)
  then show ?thesis using assms by (simp add: ap_filled_def cstr_fit_def take_Suc_conv_app_nth)
qed

lemma ap_filled_step:
  assumes "ap_filled w MAX_FAILED_ATTEMPTS s"
  shows "ap_filled w MAX_FAILED_ATTEMPTS (snd (ap_call op s))"
proof -
  have len: "length (ap_failed s) = MAX_FAILED_ATTEMPTS" "ap_failed_count s = MAX_FAILED_ATTEMPTS" "\<forall>e \<in> set (ap_failed s). fae_username e = w"
    using assms by (simp_all add: ap_filled_def)
  have up: "\<forall>e \<in> set ((ap_failed s)[i := y]). fae_username e = w"
    if "pfx_find fae_username (ap_failed s) MAX_FAILED_ATTEMPTS u = Some i" "fae_username y = fae_username (ap_failed s ! i)" for i y u
  proof -
    have "i < length (ap_failed s)" using pfx_find_SomeD [OF that(1), where val = fae_val] len by simp
    then have "fae_username y = w" using that(2) len(3) nth_mem by metis
    then show ?thesis using len(3) by (auto dest!: set_update_subset_insert [THEN subsetD])
  qed
  have filled: "ap_filled w MAX_FAILED_ATTEMPTS (s\<lparr>ap_failed := (ap_failed s)[i := y]\<rparr>)"
    if "pfx_find fae_username (ap_failed s) MAX_FAILED_ATTEMPTS u = Some i" "fae_username y = fae_username (ap_failed s ! i)" for i y u
    using up [OF that] len by (simp add: ap_filled_def)
  show ?thesis
  proof (cases op)
    case (ApNonce n)
    then show ?thesis using len by (simp add: attack_prevention_check_nonce.simps Let_def ap_filled_def split: prod.split)
  next
    case (ApFail u now)
    show ?thesis
    proof (cases "pfx_find fae_username (ap_failed s) MAX_FAILED_ATTEMPTS u")
      case None
      then show ?thesis using ApFail len by (simp add: ap_filled_def)
    next
      case (Some i)
      let ?e = "(ap_failed s ! i)\<lparr>fae_failed_attempts := fae_failed_attempts (ap_failed s ! i) + 1\<rparr>"
      let ?y = "if fae_failed_attempts ?e \<ge> LOCKOUT_THRESHOLD then ?e\<lparr>fae_lockout_until_us := now + LOCKOUT_DURATION_SEC * 1000000\<rparr> else ?e"
      have "snd (ap_call op s) = s\<lparr>ap_failed := (ap_failed s)[i := ?y]\<rparr>" unfolding ApFail using Some len(2) by (simp add: Let_def)
      moreover have "fae_username ?y = fae_username (ap_failed s ! i)" by simp
      ultimately show ?thesis using filled [OF Some] by metis
    qed
  next
    case (ApReset u)
    show ?thesis
    proof (cases "pfx_find fae_username (ap_failed s) MAX_FAILED_ATTEMPTS u")
      case None
      then show ?thesis using ApReset len by (simp add: ap_filled_def)
    next
      case (Some i)
      let ?y = "(ap_failed s ! i)\<lparr>fae_failed_attempts := 0, fae_lockout_until_us := 0\<rparr>"
      have "snd (ap_call op s) = s\<lparr>ap_failed := (ap_failed s)[i := ?y]\<rparr>" unfolding ApReset using Some len(2) by simp
      moreover have "fae_username ?y = fae_username (ap_failed s ! i)" by simp
      ultimately show ?thesis using filled [OF Some] by metis
    qed
  next
    case (ApRate c m now)
    then show ?thesis using len by (simp add: ap_filled_def Let_def split: option.split prod.split)
  qed (use assms in simp)
qed

text \<open>A user name of 64 or more characters is cut when its failure is recorded and never found again.  It is not only
  itself never locked out: 256 failed logins under such a name fill the table, and from then on no account is ever locked,
  however many failures follow (except one whose name is the 63 characters that were stored).\<close>

theorem attack_long_name_disables_lockout:
  assumes "64 \<le> length u" and "v \<noteq> take 63 u"
  shows "\<not> attack_prevention_is_account_locked (Some v) now
    (snd (run_calls ap_call (replicate MAX_FAILED_ATTEMPTS (ApFail u t) @ ops) (snd attack_prevention_init)))"
proof -
  have fill: "ap_filled (take 63 u) k (snd (run_calls ap_call (replicate k (ApFail u t)) (snd attack_prevention_init)))"
    if "k \<le> MAX_FAILED_ATTEMPTS" for k
    using that
  proof (induction k)
    case 0
    then show ?case by (simp add: ap_filled_def attack_prevention_init_def)
  next
    case (Suc k)
    have "replicate (Suc k) (ApFail u t) = replicate k (ApFail u t) @ [ApFail u t]" by (simp add: replicate_append_same)
    then have "snd (run_calls ap_call (replicate (Suc k) (ApFail u t)) (snd attack_prevention_init))
        = snd (ap_call (ApFail u t) (snd (run_calls ap_call (replicate k (ApFail u t)) (snd attack_prevention_init))))"
      by (simp only: snd_run_calls_append) (simp add: case_prod_beta del: ap_call.simps)
    with ap_filled_fail [OF _ assms(1)] Suc show ?case by simp
  qed
  have rest: "ap_filled w MAX_FAILED_ATTEMPTS s \<Longrightarrow> ap_filled w MAX_FAILED_ATTEMPTS (snd (run_calls ap_call ops s))" for w s ops
    by (induction ops arbitrary: s) (simp_all add: case_prod_beta ap_filled_step)
  have "ap_filled (take 63 u) MAX_FAILED_ATTEMPTS
      (snd (run_calls ap_call (replicate MAX_FAILED_ATTEMPTS (ApFail u t) @ ops) (snd attack_prevention_init)))"
    using rest [OF fill [OF order_refl]]
    by (simp only: snd_run_calls_append)
  then show ?thesis using assms(2) by (auto simp: ap_filled_def)
qed

lemma attack_long_name_disables_lockout_witness:
  "\<not> attack_prevention_is_account_locked (Some ''root'') 9
    (snd (run_calls ap_call (replicate MAX_FAILED_ATTEMPTS (ApFail (replicate 64 CHR ''a'') 0) @ replicate 1000 (ApFail ''root'' 8)) (snd attack_prevention_init)))"
  by (rule attack_long_name_disables_lockout) (auto dest: arg_cong [of _ _ length])

end
