(* ===== verification/Sec_Manager.thy ===== *)
theory Sec_Manager
  imports Sec_Auth Sec_Attack
begin

text \<open>
  The security manager, \<^verbatim>\<open>src/src/security/security_manager.c\<close>, over the five services it calls: the whole of their static
  variables is the record \<open>security\<close>.  What a call draws from outside is its \<open>call_env\<close>: the readings of the clock, the printed
  times of the log lines and the random bytes, each numbered in the order of the code, whether the log file opens, and whether memory
  can be had.
\<close>

record security_config =
  scf_enable_audit_logging :: bool
  scf_enforce_session_timeout :: bool
  scf_enable_rate_limiting :: bool
  scf_session_timeout_sec :: u32
  scf_max_requests_per_min :: u32
  scf_audit_log_path :: "string option"

record security =
  sec_config :: security_config
  sec_our_keypair :: keypair
  sec_initialized :: bool
  sec_auth :: user_auth_state
  sec_sessions :: session_mgr
  sec_attack :: attack_state
  sec_audit :: audit_state

record call_env =
  env_clock :: "nat \<Rightarrow> u64"
  env_stamp :: "nat \<Rightarrow> string"
  env_random :: "nat \<Rightarrow> bytes8"
  env_opens :: bool
  env_mem :: bool

text \<open>The static variables when the program starts.\<close>

definition security_start :: security where
  "security_start = \<lparr>sec_config = \<lparr>scf_enable_audit_logging = True, scf_enforce_session_timeout = True, scf_enable_rate_limiting = True,
       scf_session_timeout_sec = 3600, scf_max_requests_per_min = 100, scf_audit_log_path = None\<rparr>,
     sec_our_keypair = \<lparr>kxp_public_key = replicate 32 0, kxp_secret_key = replicate 32 0\<rparr>, sec_initialized = False,
     sec_auth = \<lparr>ua_sessions = replicate UA_MAX_SESSIONS user_auth_session_zero, ua_count = 0\<rparr>,
     sec_sessions = \<lparr>smg_sessions = replicate SM_MAX_SESSIONS login_session_zero, smg_count = 0, smg_timeout_sec = 3600\<rparr>,
     sec_attack = snd attack_prevention_init, sec_audit = \<lparr>aud_log_file = None, aud_lines = []\<rparr>\<rparr>"

section \<open>Operations\<close>

definition sec_log :: "string \<Rightarrow> audit_event_type \<Rightarrow> string option \<Rightarrow> string \<Rightarrow> bool \<Rightarrow> security \<Rightarrow> security" where
  "sec_log stamp type username details critical s =
     s\<lparr>sec_audit := snd (audit_log_event stamp type username None (Some details) critical (sec_audit s))\<rparr>"

definition security_manager_init :: "sodium \<Rightarrow> call_env \<Rightarrow> security_config option \<Rightarrow> security \<Rightarrow> int \<times> security" where
  "security_manager_init S E config s =
     (if sec_initialized s then (0, s)
      else let s = (case config of None \<Rightarrow> s | Some c \<Rightarrow> s\<lparr>sec_config := c\<rparr>) in
      if crypto_prim_init S \<noteq> 0 then (-1, s)
      else case user_auth_init S of (r, a) \<Rightarrow> let s = s\<lparr>sec_auth := a\<rparr> in
      if r \<noteq> 0 then (-1, s)
      else case session_manager_init (sod_init S) (scf_session_timeout_sec (sec_config s)) of (r, m) \<Rightarrow> let s = s\<lparr>sec_sessions := m\<rparr> in
      if r \<noteq> 0 then (-1, s)
      else case attack_prevention_init of (r, p) \<Rightarrow> let s = s\<lparr>sec_attack := p\<rparr> in
      if r \<noteq> 0 then (-1, s)
      else let s = (if scf_enable_audit_logging (sec_config s)
             then s\<lparr>sec_audit := snd (audit_log_init (env_opens E) (env_stamp E 0) (scf_audit_log_path (sec_config s)) (sec_audit s))\<rparr> else s) in
      case key_exchange_generate_keypair S (env_random E 0) (Some (sec_our_keypair s)) of (r, k) \<Rightarrow> let s = s\<lparr>sec_our_keypair := the k\<rparr> in
      if r \<noteq> 0 then (-1, s)
      else (0, sec_log (env_stamp E 1) AUDIT_EVENT_SECURITY_ALERT None ''Security manager initialized'' False (s\<lparr>sec_initialized := True\<rparr>)))"

definition sec_rate_check :: "call_env \<Rightarrow> string \<Rightarrow> security \<Rightarrow> bool \<times> security" where
  "sec_rate_check E username s = (if scf_enable_rate_limiting (sec_config s)
     then case attack_prevention_is_rate_limited (Some username) (scf_max_requests_per_min (sec_config s)) (env_clock E 1) (sec_attack s) of
       (limited, p) \<Rightarrow> (limited, s\<lparr>sec_attack := p\<rparr>)
     else (False, s))"

definition sec_open_session :: "call_env \<Rightarrow> string \<Rightarrow> string \<Rightarrow> security \<Rightarrow> int \<times> string option \<times> security" where
  "sec_open_session E username session_token s =
     (case session_manager_create (env_random E 1) (env_random E 2) (env_clock E 3) (Some username) (Some session_token) (sec_sessions s) of
        (r, token, m) \<Rightarrow> let s = s\<lparr>sec_sessions := m\<rparr> in
        if r \<noteq> 0 then (-1, token, sec_log (env_stamp E 0) AUDIT_EVENT_LOGIN_FAILED (Some username) ''Session creation failed'' False s)
        else (0, token, sec_log (env_stamp E 1) AUDIT_EVENT_SESSION_CREATED (Some username) (the token) False
               (sec_log (env_stamp E 0) AUDIT_EVENT_LOGIN (Some username) ''Login successful'' False s)))"

fun security_manager_authenticate :: "sodium \<Rightarrow> call_env \<Rightarrow> string option \<Rightarrow> string option \<Rightarrow> string option \<Rightarrow> security \<Rightarrow>
    int \<times> string option \<times> security" where
  "security_manager_authenticate S E (Some username) (Some password) (Some session_token) s =
     (if \<not> sec_initialized s then (-1, Some session_token, s)
      else if attack_prevention_is_account_locked (Some username) (env_clock E 0) (sec_attack s) then (-1, Some session_token,
        sec_log (env_stamp E 0) AUDIT_EVENT_LOGIN_FAILED (Some username) ''Account locked due to brute force'' True s)
      else case sec_rate_check E username s of (limited, s) \<Rightarrow>
      if limited then (-1, Some session_token, sec_log (env_stamp E 0) AUDIT_EVENT_LOGIN_FAILED (Some username) ''Rate limited'' False s)
      else case user_auth_hash_password S (env_random E 0) (Some ''testpassword'') (Some []) of (r, stored_hash) \<Rightarrow>
      if r \<noteq> 0 then (-1, Some session_token, s)
      else if \<not> user_auth_verify_password S (Some password) stored_hash then (-1, Some session_token,
        sec_log (env_stamp E 0) AUDIT_EVENT_LOGIN_FAILED (Some username) ''Invalid password'' False
          (s\<lparr>sec_attack := snd (attack_prevention_record_failed_login (Some username) (env_clock E 2) (sec_attack s))\<rparr>))
      else sec_open_session E username session_token
        (s\<lparr>sec_attack := snd (attack_prevention_reset_failed_attempts (Some username) (sec_attack s))\<rparr>))"
| "security_manager_authenticate S E username password session_token s = (-1, session_token, s)"

definition security_manager_validate_session :: "string option \<Rightarrow> u64 \<Rightarrow> security \<Rightarrow> bool" where
  "security_manager_validate_session token now_us s =
     (if \<not> sec_initialized s \<or> token = None then False else session_manager_is_valid token now_us (sec_sessions s))"

fun security_manager_logout :: "call_env \<Rightarrow> string option \<Rightarrow> security \<Rightarrow> int \<times> security" where
  "security_manager_logout E None s = (-1, s)"
| "security_manager_logout E (Some session_token) s =
     (if \<not> sec_initialized s then (-1, s)
      else case session_manager_invalidate (Some session_token) (sec_sessions s) of (ret, m) \<Rightarrow> let s = s\<lparr>sec_sessions := m\<rparr> in
        (ret, if ret = 0 then sec_log (env_stamp E 0) AUDIT_EVENT_LOGOUT None session_token False s else s))"

fun security_manager_key_exchange :: "sodium \<Rightarrow> call_env \<Rightarrow> bytes8 option \<Rightarrow> bytes8 option \<Rightarrow> security \<Rightarrow> int \<times> bytes8 option \<times> security" where
  "security_manager_key_exchange S E (Some peer_public_key) (Some shared_secret) s =
     (if \<not> sec_initialized s then (-1, Some shared_secret, s)
      else case key_exchange_compute_shared_secret S (Some (kxp_secret_key (sec_our_keypair s))) (Some peer_public_key) (Some shared_secret) of
        (ret, secret) \<Rightarrow> (ret, secret,
          if ret = 0 then sec_log (env_stamp E 0) AUDIT_EVENT_KEY_EXCHANGE None ''Key exchange completed'' False s
          else sec_log (env_stamp E 0) AUDIT_EVENT_KEY_EXCHANGE None ''Key exchange failed'' True s))"
| "security_manager_key_exchange S E peer_public_key shared_secret s = (-1, shared_secret, s)"

definition security_manager_encrypt :: "sodium \<Rightarrow> call_env \<Rightarrow> bytes8 option \<Rightarrow> bytes8 option \<Rightarrow> bytes8 option \<Rightarrow> bytes8 option \<Rightarrow> bytes8 option \<Rightarrow>
    security \<Rightarrow> int \<times> bytes8 option \<times> bytes8 option" where
  "security_manager_encrypt S E plaintext key nonce ciphertext tag s =
     (if \<not> sec_initialized s then (-1, ciphertext, tag)
      else crypto_prim_chacha20poly1305_encrypt S (env_mem E) plaintext key nonce None ciphertext tag)"

definition security_manager_decrypt :: "sodium \<Rightarrow> call_env \<Rightarrow> bytes8 option \<Rightarrow> bytes8 option \<Rightarrow> bytes8 option \<Rightarrow> bytes8 option \<Rightarrow> bytes8 option \<Rightarrow>
    security \<Rightarrow> int \<times> bytes8 option \<times> security" where
  "security_manager_decrypt S E ciphertext key nonce tag plaintext s =
     (if \<not> sec_initialized s then (-1, plaintext, s)
      else case attack_prevention_check_nonce (map_option (take CRYPTO_PRIM_NONCE_BYTES) nonce) (sec_attack s) of (fresh, p) \<Rightarrow>
      let s = s\<lparr>sec_attack := p\<rparr> in
      if \<not> fresh then (-1, plaintext,
        sec_log (env_stamp E 0) AUDIT_EVENT_SUSPICIOUS_ACTIVITY None ''Replay attack detected (duplicate nonce)'' True s)
      else case crypto_prim_chacha20poly1305_decrypt S (env_mem E) ciphertext key nonce None tag plaintext of (ret, text) \<Rightarrow>
        (ret, text, if ret \<noteq> 0 then sec_log (env_stamp E 0) AUDIT_EVENT_ENCRYPTION_FAILED None ''Decryption failed (authentication error)'' True s else s))"

definition sec_stats_json :: "security_config \<Rightarrow> string" where
  "sec_stats_json c = ''{'' @ quoted ''initialized'' @ '':true,'' @ quoted ''audit_logging'' @ '':'' @ json_bool (scf_enable_audit_logging c)
     @ '','' @ quoted ''session_timeout'' @ '':'' @ dec (unat (scf_session_timeout_sec c))
     @ '','' @ quoted ''rate_limiting'' @ '':'' @ json_bool (scf_enable_rate_limiting c) @ ''}''"

fun security_manager_get_stats :: "string option \<Rightarrow> nat \<Rightarrow> security \<Rightarrow> int \<times> string option" where
  "security_manager_get_stats None buf_len s = (-1, None)"
| "security_manager_get_stats (Some stats_json) buf_len s =
     (if \<not> sec_initialized s \<or> buf_len = 0 then (-1, Some stats_json)
      else (0, Some (snd (snprintf_at buf_len [] (sec_stats_json (sec_config s))))))"

definition security_manager_cleanup :: "call_env \<Rightarrow> security \<Rightarrow> security" where
  "security_manager_cleanup E s =
     (if \<not> sec_initialized s then s
      else let s = sec_log (env_stamp E 0) AUDIT_EVENT_SECURITY_ALERT None ''Security manager shutdown'' False s in
        s\<lparr>sec_auth := user_auth_cleanup (sec_auth s), sec_sessions := session_manager_cleanup (sec_sessions s),
          sec_attack := attack_prevention_cleanup (sec_attack s), sec_audit := audit_log_cleanup (env_stamp E 1) (sec_audit s),
          sec_our_keypair := \<lparr>kxp_public_key = replicate 32 0, kxp_secret_key = replicate 32 0\<rparr>, sec_initialized := False\<rparr>)"

section \<open>Reachable states\<close>

text \<open>\<open>sec_step S\<close> is one call of the interface; the tables that user authentication keeps are changed by no call of the manager but
  its initialisation and cleanup.\<close>

inductive sec_step :: "sodium \<Rightarrow> security \<Rightarrow> security \<Rightarrow> bool" for S where
  sec_init: "sec_step S s (snd (security_manager_init S E config s))"
| sec_authenticate: "sec_step S s (snd (snd (security_manager_authenticate S E username password token s)))"
| sec_logout: "sec_step S s (snd (security_manager_logout E token s))"
| sec_key_exchange: "sec_step S s (snd (snd (security_manager_key_exchange S E peer secret s)))"
| sec_decrypt: "sec_step S s (snd (snd (security_manager_decrypt S E ct key nonce tag pt s)))"
| sec_cleanup: "sec_step S s (security_manager_cleanup E s)"

inductive_cases sec_stepE: "sec_step S s s'"

inductive sec_reachable :: "sodium \<Rightarrow> security \<Rightarrow> bool" for S where
  sec_start: "sec_reachable S security_start"
| sec_next: "sec_reachable S s \<Longrightarrow> sec_step S s s' \<Longrightarrow> sec_reachable S s'"

definition sm_wf :: "session_mgr \<Rightarrow> bool" where
  "sm_wf m \<longleftrightarrow> length (smg_sessions m) = SM_MAX_SESSIONS \<and> smg_count m = count_if lgs_is_active (smg_sessions m)
     \<and> 0 < smg_timeout_sec m \<and> list_all (\<lambda>e. length (lgs_username e) < SM_MAX_USERNAME) (smg_sessions m)"

definition ap_sizes :: "attack_state \<Rightarrow> bool" where
  "ap_sizes p \<longleftrightarrow> length (ap_nonces p) = MAX_NONCES \<and> ap_nonce_count p \<le> MAX_NONCES
     \<and> list_all (\<lambda>e. length (nce_nonce e) = 32) (ap_nonces p)
     \<and> length (ap_failed p) = MAX_FAILED_ATTEMPTS \<and> ap_failed_count p \<le> MAX_FAILED_ATTEMPTS
     \<and> list_all (\<lambda>e. length (fae_username e) < 64) (ap_failed p)
     \<and> length (ap_rates p) = MAX_RATE_LIMIT_ENTRIES \<and> ap_rate_count p \<le> MAX_RATE_LIMIT_ENTRIES
     \<and> list_all (\<lambda>e. length (rle_client_id e) < 128) (ap_rates p)"

definition sec_wf :: "security \<Rightarrow> bool" where
  "sec_wf s \<longleftrightarrow> sm_wf (sec_sessions s) \<and> ap_sizes (sec_attack s)
     \<and> length (ua_sessions (sec_auth s)) = UA_MAX_SESSIONS \<and> ua_count (sec_auth s) \<le> UA_MAX_SESSIONS"

lemma sec_log_parts [simp]:
  "sec_sessions (sec_log st ty u d c s) = sec_sessions s" "sec_attack (sec_log st ty u d c s) = sec_attack s"
  "sec_auth (sec_log st ty u d c s) = sec_auth s" "sec_initialized (sec_log st ty u d c s) = sec_initialized s"
  "sec_config (sec_log st ty u d c s) = sec_config s" "sec_our_keypair (sec_log st ty u d c s) = sec_our_keypair s"
  by (simp_all add: sec_log_def)

lemma sec_log_wf [simp]: "sec_wf (sec_log st ty u d c s) = sec_wf s"
  by (simp add: sec_wf_def)

lemma fit_less [simp]: "0 < n \<Longrightarrow> length (cstr_fit n u) < n"
  by (rule length_cstr_fit)

lemma sm_create_wf:
  assumes "sm_wf m"
  shows "sm_wf (snd (snd (session_manager_create idb sec now u sid m)))"
proof (cases u)
  case (Some name)
  show ?thesis
  proof (cases sid)
    case sid: (Some buf)
    show ?thesis
    proof (cases "slot_free lgs_is_active (smg_sessions m)")
      case None
      then show ?thesis using assms Some sid by (simp add: case_prod_beta)
    next
      case slot: (Some i)
      then have i: "i < length (smg_sessions m)" "\<not> lgs_is_active (smg_sessions m ! i)" by (simp_all add: slot_freeD)
      show ?thesis using assms Some sid slot i
        by (simp add: sm_wf_def count_if_fill SM_MAX_USERNAME_def list_all_update)
    qed
  qed (simp add: assms Some)
qed (use assms in \<open>cases sid; simp\<close>)

lemma sm_find_live: "sm_find m sid = Some i \<Longrightarrow> i < length (smg_sessions m) \<and> lgs_is_active (smg_sessions m ! i)"
  by (simp add: sm_find_def first_idx_Some)

lemma sm_invalidate_wf:
  assumes "sm_wf m"
  shows "sm_wf (snd (session_manager_invalidate sid m))"
proof (cases sid)
  case (Some x)
  show ?thesis
  proof (cases "sm_find m x")
    case (Some i)
    then have i: "i < length (smg_sessions m)" "lgs_is_active (smg_sessions m ! i)" by (simp_all add: sm_find_live)
    then have "length (lgs_username (smg_sessions m ! i)) < SM_MAX_USERNAME" using assms by (simp add: sm_wf_def list_all_length)
    moreover have "\<not> lgs_is_active (sm_wipe (smg_sessions m ! i))" "lgs_username (sm_wipe (smg_sessions m ! i)) = lgs_username (smg_sessions m ! i)"
      by (simp_all add: sm_wipe_def)
    moreover have "count_if lgs_is_active ((smg_sessions m)[i := sm_wipe (smg_sessions m ! i)]) = count_if lgs_is_active (smg_sessions m) - 1"
      using count_if_clear [of i "smg_sessions m" lgs_is_active "sm_wipe (smg_sessions m ! i)"] i by (simp add: sm_wipe_def)
    ultimately show ?thesis using assms i Some \<open>sid = Some x\<close>
      by (simp add: sm_wf_def count_if_clear list_all_update)
  qed (use assms Some in simp)
qed (simp add: assms)

lemma pfx_find_elem: "pfx_find key es n k = Some i \<Longrightarrow> n \<le> length es \<Longrightarrow> list_all P es \<Longrightarrow> P (es ! i)"
  by (simp add: pfx_find_def first_idx_Some list_all_length)

lemma ap_fail_sizes:
  assumes "ap_sizes p"
  shows "ap_sizes (snd (attack_prevention_record_failed_login (Some u) now p))"
proof (cases "pfx_find fae_username (ap_failed p) (ap_failed_count p) u")
  case None
  then show ?thesis using assms by (simp add: ap_sizes_def list_all_update)
next
  case (Some i)
  then have "length (fae_username (ap_failed p ! i)) < 64" using pfx_find_elem [OF Some, of "\<lambda>e. length (fae_username e) < 64"] assms by (simp add: ap_sizes_def)
  then show ?thesis using assms Some by (simp add: ap_sizes_def Let_def list_all_update)
qed

lemma ap_reset_sizes:
  assumes "ap_sizes p"
  shows "ap_sizes (snd (attack_prevention_reset_failed_attempts (Some u) p))"
proof (cases "pfx_find fae_username (ap_failed p) (ap_failed_count p) u")
  case (Some i)
  then have "length (fae_username (ap_failed p ! i)) < 64" using pfx_find_elem [OF Some, of "\<lambda>e. length (fae_username e) < 64"] assms by (simp add: ap_sizes_def)
  then show ?thesis using assms Some by (simp add: ap_sizes_def list_all_update)
qed (simp add: assms)

lemma ap_rate_sizes:
  assumes "ap_sizes p"
  shows "ap_sizes (snd (attack_prevention_is_rate_limited (Some u) m now p))"
proof (cases "pfx_find rle_client_id (ap_rates p) (ap_rate_count p) u")
  case None
  then show ?thesis using assms by (simp add: ap_sizes_def list_all_update)
next
  case (Some i)
  then have "length (rle_client_id (ap_rates p ! i)) < 128" using pfx_find_elem [OF Some, of "\<lambda>e. length (rle_client_id e) < 128"] assms by (simp add: ap_sizes_def)
  then show ?thesis using assms Some by (simp add: ap_sizes_def Let_def list_all_update)
qed

lemma ap_put_nonce_sizes:
  assumes "list_all (\<lambda>e. length (nce_nonce e) = 32) es" and "i < length es"
  shows "list_all (\<lambda>e. length (nce_nonce e) = 32) (ap_put_nonce i n es)"
  using list_all_at [OF assms] assms(1) by (simp add: ap_put_nonce_def list_all_update)

lemma ap_nonce_sizes:
  assumes "ap_sizes p"
  shows "ap_sizes (snd (attack_prevention_check_nonce n p))"
proof (cases n)
  case (Some x)
  let ?sh = "tl (ap_nonces p) @ [last (ap_nonces p)]"
  have ne: "ap_nonces p \<noteq> []" using assms by (auto simp: ap_sizes_def MAX_NONCES_def)
  then have "set ?sh \<subseteq> set (ap_nonces p)" by (auto dest: list.set_sel(2))
  then have "list_all (\<lambda>e. length (nce_nonce e) = 32) ?sh" using assms by (auto simp: ap_sizes_def list_all_iff)
  moreover have len: "length ?sh = MAX_NONCES" using assms ne by (simp add: ap_sizes_def MAX_NONCES_def)
  ultimately have "list_all (\<lambda>e. length (nce_nonce e) = 32) (ap_put_nonce (MAX_NONCES - 1) x ?sh)"
    by (intro ap_put_nonce_sizes) (simp_all add: MAX_NONCES_def)
  moreover have "list_all (\<lambda>e. length (nce_nonce e) = 32) (ap_put_nonce (ap_nonce_count p) x (ap_nonces p))" if "ap_nonce_count p < MAX_NONCES"
    using assms that by (intro ap_put_nonce_sizes) (simp_all add: ap_sizes_def)
  moreover have "length (ap_put_nonce i x es) = length es" for i es by (simp add: ap_put_nonce_def)
  ultimately show ?thesis using assms len Some by (simp add: ap_sizes_def attack_prevention_check_nonce.simps Let_def)
qed (simp add: assms attack_prevention_check_nonce.simps)

lemma sec_start_wf: "sec_wf security_start"
  by (simp add: sec_wf_def security_start_def sm_wf_def ap_sizes_def attack_prevention_init_def login_session_zero_def SM_MAX_USERNAME_def list_all_iff)

lemma sec_authenticate_wf:
  assumes "sec_wf s"
  shows "sec_wf (snd (snd (security_manager_authenticate S E u p tok s)))"
proof (cases "\<exists>a b c. u = Some a \<and> p = Some b \<and> tok = Some c")
  case False
  then show ?thesis using assms by (cases u; cases p; cases tok) auto
next
  case True
  then obtain a b c where abc: "u = Some a" "p = Some b" "tok = Some c" by blast
  have rate: "sec_wf (snd (sec_rate_check E a s))"
    using assms ap_rate_sizes [of "sec_attack s" a] by (simp add: sec_rate_check_def sec_wf_def case_prod_beta)
  have upd: "sec_wf (t\<lparr>sec_attack := snd (attack_prevention_record_failed_login (Some a) now (sec_attack t))\<rparr>)"
      "sec_wf (t\<lparr>sec_attack := snd (attack_prevention_reset_failed_attempts (Some a) (sec_attack t))\<rparr>)" if "sec_wf t" for t now
    using that ap_fail_sizes ap_reset_sizes by (simp_all add: sec_wf_def del: attack_prevention_record_failed_login.simps attack_prevention_reset_failed_attempts.simps)
  have op: "sec_wf (snd (snd (sec_open_session E a c t)))" if "sec_wf t" for t
    using that sm_create_wf [of "sec_sessions t" "env_random E 1" "env_random E 2" "env_clock E 3" "Some a" "Some c"]
    by (simp add: sec_open_session_def sec_wf_def Let_def case_prod_beta del: session_manager_create.simps)
  show ?thesis unfolding abc
    using assms rate upd op
    by (simp add: case_prod_beta del: attack_prevention_record_failed_login.simps attack_prevention_reset_failed_attempts.simps
        attack_prevention_is_account_locked.simps user_auth_hash_password.simps user_auth_verify_password.simps)
qed

lemma sec_init_wf:
  assumes "sec_wf s"
  shows "sec_wf (snd (security_manager_init S E config s))"
proof -
  have m: "sm_wf (snd (session_manager_init b t))" for b t
    by (simp add: sm_wf_def session_manager_init_def login_session_zero_def SM_MAX_USERNAME_def list_all_iff word_gt_0)
  have p: "ap_sizes (snd attack_prevention_init)"
    using sec_start_wf by (simp add: sec_wf_def security_start_def)
  have a: "length (ua_sessions (snd (user_auth_init S))) = UA_MAX_SESSIONS" "ua_count (snd (user_auth_init S)) \<le> UA_MAX_SESSIONS"
    by (simp_all add: user_auth_init_def)
  have c: "sec_wf (s\<lparr>sec_config := cfg\<rparr>)" for cfg using assms by (simp add: sec_wf_def)
  show ?thesis using assms m p a c
    by (auto simp: security_manager_init_def Let_def case_prod_beta sec_wf_def split: option.split)
qed

lemma sec_decrypt_wf:
  assumes "sec_wf s"
  shows "sec_wf (snd (snd (security_manager_decrypt S E ct key nonce tag pt s)))"
proof -
  have "sec_wf (s\<lparr>sec_attack := snd (attack_prevention_check_nonce n (sec_attack s))\<rparr>)" for n
    using assms ap_nonce_sizes by (simp add: sec_wf_def)
  then show ?thesis using assms by (simp add: security_manager_decrypt_def Let_def case_prod_beta)
qed

lemma sec_logout_wf: "sec_wf s \<Longrightarrow> sec_wf (snd (security_manager_logout E token s))"
  using sm_invalidate_wf [of "sec_sessions s" token]
  by (cases token) (simp_all add: sec_wf_def Let_def case_prod_beta del: session_manager_invalidate.simps)

lemma sec_key_exchange_wf: "sec_wf s \<Longrightarrow> sec_wf (snd (snd (security_manager_key_exchange S E peer secret s)))"
  by (cases peer; cases secret) (simp_all add: case_prod_beta)

lemma sec_cleanup_wf: "sec_wf s \<Longrightarrow> sec_wf (security_manager_cleanup E s)"
  using sec_start_wf
  by (simp add: security_manager_cleanup_def Let_def sec_wf_def sm_wf_def security_start_def session_manager_cleanup_def
      attack_prevention_cleanup_def user_auth_cleanup_def)

lemma sec_step_wf: "sec_step S s s' \<Longrightarrow> sec_wf s \<Longrightarrow> sec_wf s'"
  by (elim sec_stepE)
    (simp_all only: sec_init_wf sec_authenticate_wf sec_logout_wf sec_key_exchange_wf sec_decrypt_wf sec_cleanup_wf)

text \<open>Whatever calls are made, in any order and with any arguments, the tables of the security services stay well-formed: they keep
  their sizes, no counter passes its table, the names and nonces fit their fields, the session counter is the number of
  active sessions and the timeout is not zero.\<close>

theorem sec_reachable_wf:
  assumes "sec_reachable S s"
  shows "sec_wf s"
  using assms by (induction rule: sec_reachable.induct) (auto intro: sec_start_wf sec_step_wf)

section \<open>Logging in\<close>

lemma sm_create_result:
  fixes idb sec :: "u8 list" and now :: u64 and u buf :: string
  assumes "sm_wf m"
  shows "case session_manager_create idb sec now (Some u) (Some buf) m of (r, tok, m') \<Rightarrow>
    if count_if lgs_is_active (smg_sessions m) < SM_MAX_SESSIONS
    then r = 0 \<and> tok = Some (hex_string idb) \<and>
      (sm_find m (hex_string idb) = None \<longrightarrow> (\<forall>t. session_manager_is_valid tok t m' \<longleftrightarrow> t < sm_expiry m now))
    else r = -1 \<and> tok = Some buf \<and> m' = m"
proof (cases "count_if lgs_is_active (smg_sessions m) < SM_MAX_SESSIONS")
  case True
  then obtain i where i: "slot_free lgs_is_active (smg_sessions m) = Some i"
    using assms slot_free_Some [of lgs_is_active "smg_sessions m"] by (auto simp: sm_wf_def size_slot_live)
  then have l: "i < length (smg_sessions m)" by (simp add: slot_freeD)
  let ?e = "\<lparr>lgs_session_id = hex_string idb, lgs_username = cstr_fit SM_MAX_USERNAME u, lgs_creation_time_us = now,
      lgs_expiration_time_us = sm_expiry m now, lgs_is_active = True, lgs_session_secret = sec\<rparr>"
  let ?m = "m\<lparr>smg_sessions := (smg_sessions m)[i := ?e], smg_count := smg_count m + 1\<rparr>"
  have "sm_find ?m (hex_string idb) = Some i" if "sm_find m (hex_string idb) = None"
    using that l unfolding sm_find_def
    by (intro first_idx_unique) (auto simp: first_idx_None nth_list_update split: if_splits)
  then show ?thesis using True i assms l by (simp add: sm_wf_def)
next
  case False
  then show ?thesis using assms by (simp add: sm_wf_def)
qed

text \<open>A login succeeds if and only if the account is not locked, the client is not rate limited, the password verifies against
  the hash of the one built-in password and one of the 256 sessions is free, for every user name alike.  It then yields the identifier
  of a session that is valid exactly until the timeout has run from now; otherwise no session is opened and the
  caller's buffer is left alone.\<close>

theorem authenticate_exact:
  assumes "sec_wf s" and "sec_initialized s"
    and "security_manager_authenticate S E (Some u) (Some p) (Some tok) s = (r, tok', s')"
  shows "(r = 0 \<longleftrightarrow> \<not> attack_prevention_is_account_locked (Some u) (env_clock E 0) (sec_attack s) \<and> \<not> fst (sec_rate_check E u s)
      \<and> (\<exists>h. sod_pwhash S ''testpassword'' (env_random E 0) = Some h \<and> sod_pwhash_verify S h p)
      \<and> count_if lgs_is_active (smg_sessions (sec_sessions s)) < SM_MAX_SESSIONS)
    \<and> (r = 0 \<longrightarrow> tok' = Some (hex_string (env_random E 1)) \<and> (sm_find (sec_sessions s) (hex_string (env_random E 1)) = None \<longrightarrow>
        (\<forall>t. security_manager_validate_session tok' t s' \<longleftrightarrow> t < sm_expiry (sec_sessions s) (env_clock E 3))))
    \<and> (r \<noteq> 0 \<longrightarrow> r = -1 \<and> tok' = Some tok \<and> sec_sessions s' = sec_sessions s)"
proof -
  have rc: "sec_sessions (snd (sec_rate_check E u s)) = sec_sessions s" "sec_initialized (snd (sec_rate_check E u s))"
    using assms(2) by (simp_all add: sec_rate_check_def case_prod_beta)
  have wf: "sm_wf (sec_sessions s)" using assms(1) by (simp add: sec_wf_def)
  obtain rr tt mm where c: "session_manager_create (env_random E 1) (env_random E 2) (env_clock E 3) (Some u) (Some tok) (sec_sessions s) = (rr, tt, mm)"
    by (metis prod_cases3)
  note cr = sm_create_result [OF wf, where idb = "env_random E 1" and sec = "env_random E 2" and now = "env_clock E 3" and u = u and buf = tok, unfolded c prod.case]
  consider "attack_prevention_is_account_locked (Some u) (env_clock E 0) (sec_attack s) \<or> fst (sec_rate_check E u s)
      \<or> (\<forall>h. sod_pwhash S ''testpassword'' (env_random E 0) = Some h \<longrightarrow> \<not> sod_pwhash_verify S h p)"
    | h where "\<not> attack_prevention_is_account_locked (Some u) (env_clock E 0) (sec_attack s)" "\<not> fst (sec_rate_check E u s)"
      "sod_pwhash S ''testpassword'' (env_random E 0) = Some h" "sod_pwhash_verify S h p"
    by blast
  then show ?thesis
  proof cases
    case 1
    then have "r = -1 \<and> tok' = Some tok \<and> sec_sessions s' = sec_sessions s"
      using assms(2,3) rc by (auto simp: case_prod_beta simp del: attack_prevention_is_account_locked.simps
          split: if_splits option.splits)
    with 1 show ?thesis by auto
  next
    case (2 h)
    then have "(r, tok', s') = sec_open_session E u tok ((snd (sec_rate_check E u s))
        \<lparr>sec_attack := snd (attack_prevention_reset_failed_attempts (Some u) (sec_attack (snd (sec_rate_check E u s))))\<rparr>)"
      using assms(2,3) rc by (simp add: case_prod_beta del: attack_prevention_is_account_locked.simps attack_prevention_reset_failed_attempts.simps)
    then show ?thesis using 2 c cr rc
      by (auto simp: sec_open_session_def Let_def security_manager_validate_session_def simp del: attack_prevention_is_account_locked.simps
          session_manager_create.simps attack_prevention_reset_failed_attempts.simps session_manager_is_valid.simps split: if_splits)
  qed
qed

section \<open>Guessing a password\<close>

type_synonym attempt = "call_env \<times> string"

definition sec_attempts :: "sodium \<Rightarrow> string \<Rightarrow> attempt list \<Rightarrow> security \<Rightarrow> security" where
  "sec_attempts S u as s = fold (\<lambda>(E, p) s. snd (snd (security_manager_authenticate S E (Some u) (Some p) (Some []) s))) as s"

definition wrong_guess :: "sodium \<Rightarrow> attempt \<Rightarrow> bool" where
  "wrong_guess S a = (case a of (E, p) \<Rightarrow> (case sod_pwhash S ''testpassword'' (env_random E 0) of None \<Rightarrow> False | Some h \<Rightarrow> \<not> sod_pwhash_verify S h p))"

text \<open>\<open>k\<close> failures on record for \<open>u\<close>, none of which locked the account.\<close>

definition failures_on_record :: "attack_state \<Rightarrow> string \<Rightarrow> nat \<Rightarrow> bool" where
  "failures_on_record p u k \<longleftrightarrow> (\<exists>t. ap_rel p t \<and>
     (if k = 0 then aps_failed t u = None \<and> card (dom (aps_failed t)) < MAX_FAILED_ATTEMPTS \<or> aps_failed t u = Some (0, 0)
      else aps_failed t u = Some (of_nat k, 0)))"

lemma locked_by_spec:
  "ap_rel p t \<Longrightarrow> attack_prevention_is_account_locked (Some u) now p \<longleftrightarrow> (case aps_failed t u of None \<Rightarrow> False | Some (f, l) \<Rightarrow> l > now)"
  using ap.step [of p t "ApLocked u now"] by (simp del: attack_prevention_is_account_locked.simps)

lemma failures_not_locked: "failures_on_record p u k \<Longrightarrow> \<not> attack_prevention_is_account_locked (Some u) now p"
  by (auto simp: failures_on_record_def locked_by_spec split: if_splits option.splits
      simp del: attack_prevention_is_account_locked.simps)

lemma record_by_spec:
  "ap_rel p t \<Longrightarrow> length u < 64 \<Longrightarrow> ap_rel (snd (attack_prevention_record_failed_login (Some u) now p)) (snd (ap_spec (ApFail u now) t))"
  using ap.step [of p t "ApFail u now"] by (simp add: case_prod_beta del: attack_prevention_record_failed_login.simps ap_spec.simps)

lemma failure_recorded:
  assumes "failures_on_record p u k" and "length u < 64" and "k < 5"
  shows "\<exists>t. ap_rel (snd (attack_prevention_record_failed_login (Some u) now p)) t
    \<and> aps_failed t u = Some (of_nat (Suc k), if k = 4 then now + LOCKOUT_DURATION_SEC * 1000000 else 0)"
proof -
  from assms(1) obtain t where t: "ap_rel p t" "if k = 0 then aps_failed t u = None \<and> card (dom (aps_failed t)) < MAX_FAILED_ATTEMPTS \<or> aps_failed t u = Some (0, 0)
      else aps_failed t u = Some (of_nat k, 0)"
    unfolding failures_on_record_def by blast
  have "aps_failed (snd (ap_spec (ApFail u now) t)) u = Some (of_nat (Suc k), if k = 4 then now + LOCKOUT_DURATION_SEC * 1000000 else 0)"
  proof -
    have k: "k \<in> {0, 1, 2, 3, 4}" using assms(3) by auto
    moreover have "\<not> (5 :: u32) \<le> 1" by (simp add: word_le_nat_alt)
    ultimately show ?thesis using t(2) by (auto simp: LOCKOUT_THRESHOLD_def split: if_splits)
  qed
  then show ?thesis using record_by_spec [OF t(1) assms(2)] by blast
qed

lemma failure_counted:
  assumes "failures_on_record p u k" and "length u < 64" and "k < 4"
  shows "failures_on_record (snd (attack_prevention_record_failed_login (Some u) now p)) u (Suc k)"
  using failure_recorded [OF assms(1,2), of now] assms(3) unfolding failures_on_record_def by auto

text \<open>The request limit leaves room for \<open>j\<close> more requests of \<open>u\<close>, or is switched off.\<close>

definition requests_left :: "security \<Rightarrow> string \<Rightarrow> nat \<Rightarrow> bool" where
  "requests_left s u j \<longleftrightarrow> (scf_enable_rate_limiting (sec_config s) \<longrightarrow> (\<exists>t. ap_rel (sec_attack s) t
     \<and> (case aps_rates t u of None \<Rightarrow> 0 | Some (n, w) \<Rightarrow> unat n) + j \<le> unat (scf_max_requests_per_min (sec_config s))))"

lemma rate_by_spec:
  "ap_rel p t \<Longrightarrow> length u < 128 \<Longrightarrow> ap_rel (snd (attack_prevention_is_rate_limited (Some u) m now p)) (snd (ap_spec (ApRate u m now) t))
    \<and> ApBool (fst (attack_prevention_is_rate_limited (Some u) m now p)) = fst (ap_spec (ApRate u m now) t)"
  using ap_rate_rel by blast

lemma request_counted:
  assumes "requests_left s u (Suc j)" and "length u < 128"
  shows "\<not> fst (sec_rate_check E u s) \<and> requests_left (snd (sec_rate_check E u s)) u j"
proof (cases "scf_enable_rate_limiting (sec_config s)")
  case False
  then show ?thesis by (simp add: sec_rate_check_def requests_left_def)
next
  case True
  let ?m = "scf_max_requests_per_min (sec_config s)"
  obtain t where t: "ap_rel (sec_attack s) t" "(case aps_rates t u of None \<Rightarrow> 0 | Some (n, w) \<Rightarrow> unat n) + Suc j \<le> unat ?m"
    using assms(1) True by (auto simp: requests_left_def)
  note r = rate_by_spec [OF t(1) assms(2), of ?m "env_clock E 1"]
  have one: "unat (n + 1) = Suc (unat n)" "\<not> ?m < n + 1" if "Suc (unat n + j) \<le> unat ?m" for n :: u32
  proof -
    have "unat n + 1 < 2 ^ 32" using that unat_bound [of ?m] by simp
    then show "unat (n + 1) = Suc (unat n)" by (simp add: unat_word_ariths)
    then show "\<not> ?m < n + 1" using that by (simp add: word_less_nat_alt)
  qed
  have "fst (ap_spec (ApRate u ?m (env_clock E 1)) t) = ApBool False
    \<and> (case aps_rates (snd (ap_spec (ApRate u ?m (env_clock E 1)) t)) u of None \<Rightarrow> 0 | Some (n, w) \<Rightarrow> unat n) + j \<le> unat ?m"
    using t(2) one by (auto split: option.splits)
  then show ?thesis using True r unfolding sec_rate_check_def requests_left_def
    by (auto simp: case_prod_beta simp del: attack_prevention_is_rate_limited.simps ap_spec.simps)
qed

lemma failures_kept_by_rate:
  assumes "failures_on_record (sec_attack s) u k" and "length u < 128"
  shows "failures_on_record (sec_attack (snd (sec_rate_check E u s))) u k"
proof (cases "scf_enable_rate_limiting (sec_config s)")
  case True
  have same: "aps_failed (snd (ap_spec (ApRate u m now) t)) = aps_failed t" for m now t by (simp split: option.split prod.split)
  obtain t where t: "ap_rel (sec_attack s) t" "if k = 0 then aps_failed t u = None \<and> card (dom (aps_failed t)) < MAX_FAILED_ATTEMPTS \<or> aps_failed t u = Some (0, 0)
      else aps_failed t u = Some (of_nat k, 0)"
    using assms(1) unfolding failures_on_record_def by blast
  let ?t = "snd (ap_spec (ApRate u (scf_max_requests_per_min (sec_config s)) (env_clock E 1)) t)"
  have "ap_rel (sec_attack (snd (sec_rate_check E u s))) ?t"
    using True rate_by_spec [OF t(1) assms(2)]
    by (simp add: sec_rate_check_def case_prod_beta del: attack_prevention_is_rate_limited.simps ap_spec.simps)
  with t(2) show ?thesis unfolding failures_on_record_def by (intro exI [of _ ?t]) (simp only: same simp_thms if_cancel)
qed (use assms in \<open>simp add: sec_rate_check_def\<close>)

lemma requests_kept_by_failure:
  assumes "requests_left s u j" and "length u < 64" and "sec_config s' = sec_config s"
    and "sec_attack s' = snd (attack_prevention_record_failed_login (Some u) now (sec_attack s))"
  shows "requests_left s' u j"
proof -
  have same: "aps_rates (snd (ap_spec (ApFail u now) t)) = aps_rates t" for t by simp
  show ?thesis unfolding requests_left_def assms(3)
  proof
    assume "scf_enable_rate_limiting (sec_config s)"
    then obtain t where t: "ap_rel (sec_attack s) t"
      "(case aps_rates t u of None \<Rightarrow> 0 | Some (n, w) \<Rightarrow> unat n) + j \<le> unat (scf_max_requests_per_min (sec_config s))"
      using assms(1) by (auto simp: requests_left_def)
    show "\<exists>t. ap_rel (sec_attack s') t
      \<and> (case aps_rates t u of None \<Rightarrow> 0 | Some (n, w) \<Rightarrow> unat n) + j \<le> unat (scf_max_requests_per_min (sec_config s))"
      using record_by_spec [OF t(1) assms(2), of now] t(2)
      by (intro exI [of _ "snd (ap_spec (ApFail u now) t)"]) (simp only: same assms(4) simp_thms)
  qed
qed

lemma sec_rate_check_same [simp]:
  "sec_config (snd (sec_rate_check E u s)) = sec_config s" "sec_initialized (snd (sec_rate_check E u s)) = sec_initialized s"
  by (simp_all add: sec_rate_check_def case_prod_beta del: attack_prevention_is_rate_limited.simps)

lemma wrong_guess_step:
  assumes "sec_initialized s" and "requests_left s u (Suc j)" and "wrong_guess S (E, p)" and "failures_on_record (sec_attack s) u k" and "length u < 64"
  defines "s' \<equiv> sec_attempts S u [(E, p)] s"
  shows "sec_initialized s' \<and> requests_left s' u j
    \<and> (\<exists>q. failures_on_record q u k \<and> sec_attack s' = snd (attack_prevention_record_failed_login (Some u) (env_clock E 2) q))"
proof -
  let ?c = "snd (sec_rate_check E u s)"
  have r: "\<not> fst (sec_rate_check E u s)" "requests_left ?c u j" using request_counted [OF assms(2)] assms(5) by simp_all
  have a: "sec_attack s' = snd (attack_prevention_record_failed_login (Some u) (env_clock E 2) (sec_attack ?c))"
    "sec_config s' = sec_config ?c" "sec_initialized s' = sec_initialized ?c"
    using assms(1,3) r(1) failures_not_locked [OF assms(4), of "env_clock E 0"]
    by (auto simp: s'_def sec_attempts_def wrong_guess_def case_prod_beta split: option.splits
        simp del: attack_prevention_is_account_locked.simps attack_prevention_record_failed_login.simps)
  then show ?thesis
    using requests_kept_by_failure [OF r(2) assms(5) a(2,1)] failures_kept_by_rate [OF assms(4), of E] assms(1,5) by auto
qed

lemma sec_attempts_Cons: "sec_attempts S u (a # as) s = sec_attempts S u as (sec_attempts S u [a] s)"
  by (simp add: sec_attempts_def)

lemma sec_attempts_snoc: "sec_attempts S u (as @ [a]) s = sec_attempts S u [a] (sec_attempts S u as s)"
  by (simp add: sec_attempts_def)

lemma guesses_counted:
  assumes "sec_initialized s" and "requests_left s u (Suc (length as))" and "\<forall>a \<in> set as. wrong_guess S a"
    and "failures_on_record (sec_attack s) u k" and "length u < 64" and "k + length as \<le> 4"
  shows "failures_on_record (sec_attack (sec_attempts S u as s)) u (k + length as) \<and> sec_initialized (sec_attempts S u as s)
    \<and> requests_left (sec_attempts S u as s) u 1"
  using assms
proof (induction as arbitrary: s k)
  case (Cons a as)
  obtain E p where a: "a = (E, p)" by (cases a)
  have "wrong_guess S (E, p)" "k < 4" "requests_left s u (Suc (Suc (length as)))" using Cons.prems(2,3,6) a by simp_all
  note st = wrong_guess_step [OF Cons.prems(1) this(3,1) Cons.prems(4,5)]
  then have "failures_on_record (sec_attack (sec_attempts S u [(E, p)] s)) u (Suc k)"
    using failure_counted [OF _ Cons.prems(5) \<open>k < 4\<close>, of _ "env_clock E 2"] by auto
  then show ?case
    using Cons.IH [of "sec_attempts S u [a] s" "Suc k"] st Cons.prems unfolding a sec_attempts_Cons [of S u "(E, p)" as] by simp
qed (simp add: sec_attempts_def)


section \<open>Secure messages\<close>


text \<open>The nonce is recorded before the message is authenticated: one forged packet, under any key, makes the genuine message with that
  nonce undeliverable.\<close>

theorem forged_message_blocks_genuine:
  assumes "sec_initialized s" and "ap_rel (sec_attack s) t" and "length nonce = CRYPTO_PRIM_NONCE_BYTES"
  shows "fst (security_manager_decrypt S E' (Some c) (Some key) (Some nonce) (Some tg) (Some out)
      (snd (snd (security_manager_decrypt S E (Some forged) (Some k') (Some nonce) (Some tg') (Some out') s)))) = -1"
proof -
  have n: "take CRYPTO_PRIM_NONCE_BYTES nonce = nonce" using assms(3) by simp
  let ?p = "snd (attack_prevention_check_nonce (Some nonce) (sec_attack s))"
  have st: "ap_rel ?p (snd (ap_spec (ApNonce nonce) t))"
    using ap.step [OF assms(2), of "ApNonce nonce"] assms(3) by (simp add: case_prod_beta)
  have "\<not> fst (attack_prevention_check_nonce (Some nonce) ?p)"
    using ap.step [OF st, of "ApNonce nonce"] assms(3) by (simp add: case_prod_beta split: if_splits)
  then show ?thesis using assms(1)
    by (simp add: security_manager_decrypt_def n Let_def case_prod_beta del: crypto_prim_chacha20poly1305_decrypt.simps)
qed


text \<open>A run for the examples: every call draws the same clock and bytes.\<close>

definition env_at :: "u64 \<Rightarrow> u8 \<Rightarrow> call_env" where
  "env_at now b = \<lparr>env_clock = (\<lambda>_. now), env_stamp = (\<lambda>_. ''noon''), env_random = (\<lambda>_. replicate 32 b), env_opens = True, env_mem = True\<rparr>"

definition sec_up :: security where
  "sec_up = snd (security_manager_init sodium_toy (env_at 0 1) None security_start)"

lemma sec_up_facts:
  "sec_initialized sec_up" "sec_reachable sodium_toy sec_up" "sec_attack sec_up = snd attack_prevention_init"
  "smg_sessions (sec_sessions sec_up) = replicate SM_MAX_SESSIONS login_session_zero"
  "scf_max_requests_per_min (sec_config sec_up) = 100"
proof -
  show "sec_initialized sec_up" "sec_attack sec_up = snd attack_prevention_init" "scf_max_requests_per_min (sec_config sec_up) = 100"
    "smg_sessions (sec_sessions sec_up) = replicate SM_MAX_SESSIONS login_session_zero"
    by (simp_all add: sec_up_def security_manager_init_def security_start_def crypto_prim_init_def user_auth_init_def session_manager_init_def
        key_exchange_generate_keypair_def sodium_toy_def attack_prevention_init_def Let_def)
  show "sec_reachable sodium_toy sec_up"
    unfolding sec_up_def by (rule sec_next [OF sec_start sec_init])
qed

lemma sec_reachable_wf_witness:
  "sec_wf (snd (security_manager_logout (env_at 0 1) (Some ''x'') sec_up)) \<and> sec_initialized sec_up"
  using sec_reachable_wf [OF sec_next [OF sec_up_facts(2) sec_logout]] sec_up_facts(1) by blast

lemma authenticate_exact_witness:
  "\<exists>tok s'. security_manager_authenticate sodium_toy (env_at 5 7) (Some ''bob'') (Some ''testpassword'') (Some []) sec_up = (0, tok, s')"
proof -
  obtain r tok s' where a: "security_manager_authenticate sodium_toy (env_at 5 7) (Some ''bob'') (Some ''testpassword'') (Some []) sec_up = (r, tok, s')"
    by (metis prod_cases3)
  have "\<not> attack_prevention_is_account_locked (Some ''bob'') 5 (sec_attack sec_up)" "\<not> fst (sec_rate_check (env_at 5 7) ''bob'' sec_up)"
    by (simp_all add: sec_up_facts sec_rate_check_def attack_prevention_init_def pfx_find_def case_prod_beta)
  moreover have "count_if lgs_is_active (smg_sessions (sec_sessions sec_up)) = 0"
    by (simp add: sec_up_facts login_session_zero_def)
  ultimately have "r = 0"
    using authenticate_exact [OF sec_reachable_wf [OF sec_up_facts(2)] sec_up_facts(1) a]
    by (simp add: env_at_def sodium_toy_def SM_MAX_SESSIONS_def del: attack_prevention_is_account_locked.simps)
  with a show ?thesis by blast
qed



lemma forged_message_blocks_genuine_witness:
  "fst (security_manager_decrypt sodium_toy (env_at 1 0) (Some [5]) (Some (replicate 32 9)) (Some (replicate 12 3)) (Some (replicate 16 0)) (Some [0])
      (snd (snd (security_manager_decrypt sodium_toy (env_at 0 0) (Some [6]) (Some (replicate 32 8)) (Some (replicate 12 3)) (Some (replicate 16 1)) (Some [0])
        sec_up)))) = -1"
  using forged_message_blocks_genuine [OF sec_up_facts(1), of ap_spec_init "replicate 12 3"] ap_init_rel
  by (simp add: sec_up_facts CRYPTO_PRIM_NONCE_BYTES_def)

end
