(* ===== verification/Stream_Config.thy ===== *)
theory Stream_Config
  imports Wire Cformat
begin

text \<open>
  Stream configuration, \<^verbatim>\<open>src/src/stream_config\<close>: the 32-byte record (\<^verbatim>\<open>stream_config.c\<close>), the versioned envelope around it
  (\<^verbatim>\<open>config_serialiser.c\<close>) and its JSON text (\<^verbatim>\<open>config_export.c\<close>).  The structure has no padding, so comparing its bytes is comparing
  its fields.
\<close>

definition SCFG_MAGIC :: u32 where "SCFG_MAGIC = 0x53434647"
definition SCFG_HDR_SIZE :: nat where "SCFG_HDR_SIZE = 32"
definition SCFG_FLAG_ENCRYPTED :: u8 where "SCFG_FLAG_ENCRYPTED = 0x01"
definition SCFG_FLAG_RECORD :: u8 where "SCFG_FLAG_RECORD = 0x02"
definition SCFG_FLAG_HW_ENCODE :: u8 where "SCFG_FLAG_HW_ENCODE = 0x04"

record stream_config =
  scc_video_codec :: u8
  scc_audio_codec :: u8
  scc_video_width :: u16
  scc_video_height :: u16
  scc_video_fps :: u8
  scc_audio_channels :: u8
  scc_video_bitrate_kbps :: u32
  scc_audio_bitrate_kbps :: u32
  scc_audio_sample_rate :: u32
  scc_transport_port :: u16
  scc_transport_proto :: u8
  scc_flags :: u8

section \<open>The record\<close>

definition scfg_bytes :: "stream_config \<Rightarrow> u8 list" where
  "scfg_bytes c = w32le SCFG_MAGIC @ [scc_video_codec c, scc_audio_codec c] @ w16le (scc_video_width c) @ w16le (scc_video_height c)
     @ [scc_video_fps c, scc_audio_channels c] @ w32le (scc_video_bitrate_kbps c) @ w32le (scc_audio_bitrate_kbps c)
     @ w32le (scc_audio_sample_rate c) @ w16le (scc_transport_port c) @ [scc_transport_proto c, scc_flags c] @ w32le 0"

fun stream_config_encode :: "stream_config option \<Rightarrow> u8 list option \<Rightarrow> int \<times> u8 list option" where
  "stream_config_encode (Some cfg) (Some buf) =
     (if length buf < SCFG_HDR_SIZE then (-1, Some buf) else (int SCFG_HDR_SIZE, Some (overwrite (scfg_bytes cfg) buf)))"
| "stream_config_encode cfg buf = (-1, buf)"

fun stream_config_decode :: "u8 list option \<Rightarrow> stream_config option \<Rightarrow> int \<times> stream_config option" where
  "stream_config_decode (Some buf) (Some cfg) =
     (if length buf < SCFG_HDR_SIZE then (-1, Some cfg)
      else if r32le buf 0 \<noteq> SCFG_MAGIC then (-1, Some cfg)
      else (0, Some \<lparr>scc_video_codec = buf ! 4, scc_audio_codec = buf ! 5, scc_video_width = r16le buf 6, scc_video_height = r16le buf 8,
         scc_video_fps = buf ! 10, scc_audio_channels = buf ! 11, scc_video_bitrate_kbps = r32le buf 12,
         scc_audio_bitrate_kbps = r32le buf 16, scc_audio_sample_rate = r32le buf 20, scc_transport_port = r16le buf 24,
         scc_transport_proto = buf ! 26, scc_flags = buf ! 27\<rparr>))"
| "stream_config_decode buf cfg = (-1, cfg)"

fun stream_config_equals :: "stream_config option \<Rightarrow> stream_config option \<Rightarrow> bool" where
  "stream_config_equals (Some a) (Some b) = (a = b)"
| "stream_config_equals a b = False"

definition stream_config_default :: "stream_config option \<Rightarrow> stream_config option" where
  "stream_config_default cfg = map_option (\<lambda>_. \<lparr>scc_video_codec = 1, scc_audio_codec = 1, scc_video_width = 1280, scc_video_height = 720,
     scc_video_fps = 30, scc_audio_channels = 2, scc_video_bitrate_kbps = 4000, scc_audio_bitrate_kbps = 128,
     scc_audio_sample_rate = 48000, scc_transport_port = 5900, scc_transport_proto = 0, scc_flags = 0\<rparr>) cfg"

lemma length_scfg_bytes [simp]: "length (scfg_bytes c) = SCFG_HDR_SIZE"
  by (simp add: scfg_bytes_def SCFG_HDR_SIZE_def)

definition scfg_dec :: "u8 list \<Rightarrow> stream_config option" where
  "scfg_dec b = (case stream_config_decode (Some b) (stream_config_default (Some undefined)) of (r, c) \<Rightarrow> if r = 0 then c else None)"

lemma scfg_decode_bytes: "stream_config_decode (Some (scfg_bytes c @ rest)) (Some x) = (0, Some c)"
proof -
  let ?b = "scfg_bytes c @ rest"
  have b: "?b = w32le SCFG_MAGIC @ scc_video_codec c # scc_audio_codec c # w16le (scc_video_width c) @ w16le (scc_video_height c)
     @ scc_video_fps c # scc_audio_channels c # w32le (scc_video_bitrate_kbps c) @ w32le (scc_audio_bitrate_kbps c)
     @ w32le (scc_audio_sample_rate c) @ w16le (scc_transport_port c) @ scc_transport_proto c # scc_flags c # w32le 0 @ rest"
    by (simp add: scfg_bytes_def)
  have len: "32 \<le> length ?b" by (simp add: SCFG_HDR_SIZE_def)
  have r32: "r32le ?b 0 = SCFG_MAGIC" "r32le ?b 12 = scc_video_bitrate_kbps c" "r32le ?b 16 = scc_audio_bitrate_kbps c"
      "r32le ?b 20 = scc_audio_sample_rate c" unfolding b by (simp_all add: wire_simps)
  have r16: "r16le ?b 6 = scc_video_width c" "r16le ?b 8 = scc_video_height c" "r16le ?b 24 = scc_transport_port c"
    unfolding b by (simp_all add: wire_simps)
  have by8: "?b ! 4 = scc_video_codec c" "?b ! 5 = scc_audio_codec c" "?b ! 10 = scc_video_fps c" "?b ! 11 = scc_audio_channels c"
      "?b ! 26 = scc_transport_proto c" "?b ! 27 = scc_flags c"
    unfolding b by (simp_all add: nth_append)
  show ?thesis unfolding stream_config_decode.simps r32 r16 by8 using len by (cases c) (simp add: SCFG_HDR_SIZE_def)
qed

interpretation scfg: codec "\<lambda>_. True" scfg_bytes scfg_dec
  by unfold_locales (simp add: scfg_dec_def stream_config_default_def scfg_decode_bytes del: stream_config_decode.simps)

lemma stream_config_roundtrip:
  assumes "SCFG_HDR_SIZE \<le> length buf"
  shows "\<exists>out. stream_config_encode (Some c) (Some buf) = (int SCFG_HDR_SIZE, Some out) \<and> length out = length buf
    \<and> stream_config_decode (Some out) (Some x) = (0, Some c)"
  using assms scfg_decode_bytes by (auto simp: overwrite_def simp del: stream_config_decode.simps)

section \<open>The envelope\<close>

definition CSER_ENVELOPE_MAGIC :: u32 where "CSER_ENVELOPE_MAGIC = 0x53455256"
definition CSER_ENVELOPE_HDR_SIZE :: nat where "CSER_ENVELOPE_HDR_SIZE = 8"
definition CSER_VERSION_MAJOR :: u8 where "CSER_VERSION_MAJOR = 1"
definition CSER_VERSION :: u16 where "CSER_VERSION = 0x0100"
definition CSER_OK :: int where "CSER_OK = 0"
definition CSER_ERR_NULL :: int where "CSER_ERR_NULL = -1"
definition CSER_ERR_BUF_SMALL :: int where "CSER_ERR_BUF_SMALL = -2"
definition CSER_ERR_BAD_MAGIC :: int where "CSER_ERR_BAD_MAGIC = -3"
definition CSER_ERR_VERSION :: int where "CSER_ERR_VERSION = -4"
definition CSER_ERR_PAYLOAD :: int where "CSER_ERR_PAYLOAD = -5"

definition config_serialiser_total_size :: nat where
  "config_serialiser_total_size = CSER_ENVELOPE_HDR_SIZE + SCFG_HDR_SIZE"

definition cser_header :: "u16 \<Rightarrow> u16 \<Rightarrow> u8 list" where
  "cser_header version payload_len = w32le CSER_ENVELOPE_MAGIC @ w16le version @ w16le payload_len"

fun config_serialiser_encode :: "stream_config option \<Rightarrow> u8 list option \<Rightarrow> int \<times> u8 list option" where
  "config_serialiser_encode (Some cfg) (Some buf) =
     (if length buf < config_serialiser_total_size then (CSER_ERR_BUF_SMALL, Some buf)
      else let buf = overwrite (cser_header CSER_VERSION (of_nat SCFG_HDR_SIZE)) buf in
        case stream_config_encode (Some cfg) (Some (drop CSER_ENVELOPE_HDR_SIZE buf)) of (n, rest) \<Rightarrow>
          (if n < 0 then CSER_ERR_PAYLOAD else int config_serialiser_total_size,
           Some (take CSER_ENVELOPE_HDR_SIZE buf @ the rest)))"
| "config_serialiser_encode cfg buf = (CSER_ERR_NULL, buf)"

fun config_serialiser_decode :: "u8 list option \<Rightarrow> stream_config option \<Rightarrow> int \<times> stream_config option" where
  "config_serialiser_decode (Some buf) (Some cfg) =
     (if length buf < CSER_ENVELOPE_HDR_SIZE then (CSER_ERR_BUF_SMALL, Some cfg)
      else if r32le buf 0 \<noteq> CSER_ENVELOPE_MAGIC then (CSER_ERR_BAD_MAGIC, Some cfg)
      else if (ucast (drop_bit 8 (r16le buf 4)) :: u8) \<noteq> CSER_VERSION_MAJOR then (CSER_ERR_VERSION, Some cfg)
      else let payload_len = unat (r16le buf 6) in
        if length buf < CSER_ENVELOPE_HDR_SIZE + payload_len then (CSER_ERR_BUF_SMALL, Some cfg)
        else case stream_config_decode (Some (take payload_len (drop CSER_ENVELOPE_HDR_SIZE buf))) (Some cfg) of (rc, cfg) \<Rightarrow>
          (if rc = 0 then CSER_OK else CSER_ERR_PAYLOAD, cfg))"
| "config_serialiser_decode buf cfg = (CSER_ERR_NULL, cfg)"

text \<open>What the decoder makes of an envelope of any version: another major number is refused, and of its own major number it takes any
  minor one, with fields that were added behind the ones it knows.\<close>

lemma cser_decode_envelope:
  assumes "SCFG_HDR_SIZE + length ext < 65536"
  shows "config_serialiser_decode (Some (cser_header v (of_nat (SCFG_HDR_SIZE + length ext)) @ scfg_bytes c @ ext @ rest)) (Some x)
    = (if ucast (drop_bit 8 v) = CSER_VERSION_MAJOR then (CSER_OK, Some c) else (CSER_ERR_VERSION, Some x))"
proof -
  let ?n = "SCFG_HDR_SIZE + length ext"
  let ?b = "cser_header v (of_nat ?n) @ scfg_bytes c @ ext @ rest"
  have b: "?b = w32le CSER_ENVELOPE_MAGIC @ w16le v @ w16le (of_nat ?n) @ scfg_bytes c @ ext @ rest" by (simp add: cser_header_def)
  have rd: "r32le ?b 0 = CSER_ENVELOPE_MAGIC" "r16le ?b 4 = v" "r16le ?b 6 = of_nat ?n" unfolding b by (simp_all add: wire_simps)
  have n: "unat (of_nat ?n :: u16) = ?n" using assms by (intro unat_of_nat_less) simp
  have d: "take ?n (drop CSER_ENVELOPE_HDR_SIZE ?b) = scfg_bytes c @ ext"
    unfolding b by (simp add: CSER_ENVELOPE_HDR_SIZE_def)
  have len: "CSER_ENVELOPE_HDR_SIZE + ?n \<le> length ?b" "CSER_ENVELOPE_HDR_SIZE \<le> length ?b"
    unfolding b by (simp_all add: CSER_ENVELOPE_HDR_SIZE_def)
  show ?thesis
    unfolding config_serialiser_decode.simps rd n Let_def d using len
    by (simp add: scfg_decode_bytes not_less del: stream_config_decode.simps)
qed

text \<open>A configuration written into any buffer that is large enough is read back; a smaller buffer is left alone.\<close>

lemma config_envelope_roundtrip:
  "if length buf < config_serialiser_total_size then config_serialiser_encode (Some c) (Some buf) = (CSER_ERR_BUF_SMALL, Some buf)
   else \<exists>out. config_serialiser_encode (Some c) (Some buf) = (int config_serialiser_total_size, Some out) \<and> length out = length buf
     \<and> drop config_serialiser_total_size out = drop config_serialiser_total_size buf
     \<and> config_serialiser_decode (Some out) (Some x) = (CSER_OK, Some c)"
proof (cases "length buf < config_serialiser_total_size")
  case False
  let ?h = "cser_header CSER_VERSION (of_nat SCFG_HDR_SIZE)"
  have h: "length ?h = 8" by (simp add: cser_header_def)
  have l: "40 \<le> length buf" using False by (simp add: config_serialiser_total_size_def CSER_ENVELOPE_HDR_SIZE_def SCFG_HDR_SIZE_def)
  have e: "config_serialiser_encode (Some c) (Some buf) = (int config_serialiser_total_size, Some (?h @ scfg_bytes c @ drop 40 buf))"
    using False l h le_diff_conv2 [of 8 "length buf" 32] by (simp add: Let_def not_less overwrite_def CSER_ENVELOPE_HDR_SIZE_def SCFG_HDR_SIZE_def add.commute)
  have "ucast (drop_bit 8 CSER_VERSION) = CSER_VERSION_MAJOR" by (simp add: CSER_VERSION_def CSER_VERSION_MAJOR_def)
  then have "config_serialiser_decode (Some (?h @ scfg_bytes c @ drop 40 buf)) (Some x) = (CSER_OK, Some c)"
    using cser_decode_envelope [of "[]" CSER_VERSION c "drop 40 buf" x] by (simp add: SCFG_HDR_SIZE_def)
  with e l h False show ?thesis
    by (simp add: config_serialiser_total_size_def CSER_ENVELOPE_HDR_SIZE_def SCFG_HDR_SIZE_def del: config_serialiser_decode.simps config_serialiser_encode.simps)
qed simp

section \<open>JSON\<close>

definition config_vcodec_name :: "u8 \<Rightarrow> string" where
  "config_vcodec_name code = (if code = 0 then ''raw'' else if code = 1 then ''h264'' else if code = 2 then ''h265''
     else if code = 3 then ''av1'' else if code = 4 then ''vp9'' else ''unknown'')"

definition config_acodec_name :: "u8 \<Rightarrow> string" where
  "config_acodec_name code = (if code = 0 then ''pcm'' else if code = 1 then ''opus'' else if code = 2 then ''aac''
     else if code = 3 then ''flac'' else ''unknown'')"

definition config_proto_name :: "u8 \<Rightarrow> string" where
  "config_proto_name code = (if code = 0 then ''udp'' else if code = 1 then ''tcp'' else if code = 2 then ''quic'' else ''unknown'')"

definition scfg_json :: "stream_config \<Rightarrow> string" where
  "scfg_json c = ''{'' @ json_field ''video_codec'' (quoted (config_vcodec_name (scc_video_codec c)))
     @ '','' @ json_field ''video_width'' (dec (unat (scc_video_width c)))
     @ '','' @ json_field ''video_height'' (dec (unat (scc_video_height c)))
     @ '','' @ json_field ''video_fps'' (dec (unat (scc_video_fps c)))
     @ '','' @ json_field ''video_bitrate_kbps'' (dec (unat (scc_video_bitrate_kbps c)))
     @ '','' @ json_field ''audio_codec'' (quoted (config_acodec_name (scc_audio_codec c)))
     @ '','' @ json_field ''audio_channels'' (dec (unat (scc_audio_channels c)))
     @ '','' @ json_field ''audio_sample_rate'' (dec (unat (scc_audio_sample_rate c)))
     @ '','' @ json_field ''audio_bitrate_kbps'' (dec (unat (scc_audio_bitrate_kbps c)))
     @ '','' @ json_field ''transport_proto'' (quoted (config_proto_name (scc_transport_proto c)))
     @ '','' @ json_field ''transport_port'' (dec (unat (scc_transport_port c)))
     @ '','' @ json_field ''encrypted'' (json_bool (scc_flags c AND SCFG_FLAG_ENCRYPTED \<noteq> 0))
     @ '','' @ json_field ''record'' (json_bool (scc_flags c AND SCFG_FLAG_RECORD \<noteq> 0))
     @ '','' @ json_field ''hw_encode'' (json_bool (scc_flags c AND SCFG_FLAG_HW_ENCODE \<noteq> 0)) @ ''}''"

fun config_export_json :: "stream_config option \<Rightarrow> string option \<Rightarrow> nat \<Rightarrow> int \<times> string option" where
  "config_export_json (Some cfg) (Some buf) buf_sz =
     (if buf_sz = 0 then (-1, Some buf)
      else case snprintf_at buf_sz [] (scfg_json cfg) of (n, text) \<Rightarrow> (if n \<ge> buf_sz then -1 else int n, Some text))"
| "config_export_json cfg buf buf_sz = (-1, buf)"

lemma dec_word_len:
  "length (dec (unat (b :: u8))) \<le> 3" "length (dec (unat (h :: u16))) \<le> 5" "length (dec (unat (w :: u32))) \<le> 10" "length (dec (unat (q :: u64))) \<le> 20"
  using unsigned_less [of b, where 'a = nat] unsigned_less [of h, where 'a = nat] unsigned_less [of w, where 'a = nat] unsigned_less [of q, where 'a = nat]
  by (auto intro!: length_dec_le)

text \<open>A buffer of 384 bytes is always large enough, and the text is cut off in a smaller one.\<close>

lemma scfg_json_length: "length (scfg_json c) < 384"
proof -
  have n: "length (config_vcodec_name a) \<le> 7" "length (config_acodec_name a) \<le> 7" "length (config_proto_name a) \<le> 7" "length (json_bool t) \<le> 5" for a t
    by (simp_all add: config_vcodec_name_def config_acodec_name_def config_proto_name_def json_bool_def)
  note d = dec_word_len(2) [of "scc_video_width c"] dec_word_len(2) [of "scc_video_height c"] dec_word_len(1) [of "scc_video_fps c"]
    dec_word_len(3) [of "scc_video_bitrate_kbps c"] dec_word_len(1) [of "scc_audio_channels c"] dec_word_len(3) [of "scc_audio_sample_rate c"]
    dec_word_len(3) [of "scc_audio_bitrate_kbps c"] dec_word_len(2) [of "scc_transport_port c"]
    n(1) [of "scc_video_codec c"] n(2) [of "scc_audio_codec c"] n(3) [of "scc_transport_proto c"]
    n(4) [of "scc_flags c AND SCFG_FLAG_ENCRYPTED \<noteq> 0"] n(4) [of "scc_flags c AND SCFG_FLAG_RECORD \<noteq> 0"]
    n(4) [of "scc_flags c AND SCFG_FLAG_HW_ENCODE \<noteq> 0"]
  show ?thesis unfolding scfg_json_def json_field_def quoted_def dq_def using d by simp
qed

lemma config_export_enough:
  "384 \<le> sz \<Longrightarrow> config_export_json (Some c) (Some buf) sz = (int (length (scfg_json c)), Some (scfg_json c))"
  using scfg_json_length [of c] by (simp add: snprintf_at_def)

end
