(* ===== verification/Metadata.thy ===== *)
theory Metadata
  imports Wire Cformat Slots
begin

text \<open>
  Stream metadata, \<^verbatim>\<open>src/src/metadata\<close>: the record with its three strings on the wire (\<^verbatim>\<open>stream_metadata.c\<close>), the store of key and
  value pairs (\<^verbatim>\<open>metadata_store.c\<close>) and the JSON of both (\<^verbatim>\<open>metadata_export.c\<close>).  A string field is the C string in its array; the
  pointer that a lookup returns is the string it points to.
\<close>

definition METADATA_MAGIC :: u32 where "METADATA_MAGIC = 0x4D455441"
definition METADATA_FIXED_HDR_SZ :: nat where "METADATA_FIXED_HDR_SZ = 22"
definition METADATA_MAX_TITLE :: nat where "METADATA_MAX_TITLE = 256"
definition METADATA_MAX_DESC :: nat where "METADATA_MAX_DESC = 1024"
definition METADATA_MAX_TAGS :: nat where "METADATA_MAX_TAGS = 512"
definition METADATA_FLAG_LIVE :: u8 where "METADATA_FLAG_LIVE = 0x01"

record stream_metadata =
  mtd_start_us :: u64
  mtd_duration_us :: u32
  mtd_video_width :: u16
  mtd_video_height :: u16
  mtd_video_fps :: u8
  mtd_flags :: u8
  mtd_title :: string
  mtd_description :: string
  mtd_tags :: string

definition stream_metadata_zero :: stream_metadata where
  "stream_metadata_zero = \<lparr>mtd_start_us = 0, mtd_duration_us = 0, mtd_video_width = 0, mtd_video_height = 0, mtd_video_fps = 0,
     mtd_flags = 0, mtd_title = [], mtd_description = [], mtd_tags = []\<rparr>"

section \<open>The record on the wire\<close>

text \<open>The status, the buffer and the position.\<close>

definition write_str :: "u8 list \<Rightarrow> nat \<Rightarrow> string \<Rightarrow> nat \<Rightarrow> int \<times> u8 list \<times> nat" where
  "write_str buf pos str max_len =
     (let slen = min (length str) max_len in
      if pos + 2 + slen > length buf then (-1, buf, pos)
      else (0, write_at (pos + 2) (str_bytes (take slen str)) (write_at pos (w16le (of_nat slen)) buf), pos + 2 + slen))"

definition read_str :: "u8 list \<Rightarrow> nat \<Rightarrow> string \<Rightarrow> nat \<Rightarrow> int \<times> string \<times> nat" where
  "read_str buf pos out out_max =
     (if pos + 2 > length buf then (-1, out, pos)
      else let slen = unat (r16le buf pos) in
        if slen > out_max then (-1, out, pos + 2)
        else if pos + 2 + slen > length buf then (-1, out, pos + 2)
        else (0, bytes_cstr (take slen (drop (pos + 2) buf)), pos + 2 + slen))"

definition mtd_fixed :: "stream_metadata \<Rightarrow> u8 list" where
  "mtd_fixed m = w32le METADATA_MAGIC @ w64le (mtd_start_us m) @ w32le (mtd_duration_us m) @ w16le (mtd_video_width m)
     @ w16le (mtd_video_height m) @ [mtd_video_fps m, mtd_flags m]"

fun stream_metadata_encode :: "stream_metadata option \<Rightarrow> u8 list option \<Rightarrow> int \<times> u8 list option" where
  "stream_metadata_encode (Some m) (Some buf) =
     (if length buf < METADATA_FIXED_HDR_SZ then (-1, Some buf)
      else case write_str (overwrite (mtd_fixed m) buf) METADATA_FIXED_HDR_SZ (mtd_title m) METADATA_MAX_TITLE of (r, buf, pos) \<Rightarrow>
      if r \<noteq> 0 then (-1, Some buf)
      else case write_str buf pos (mtd_description m) METADATA_MAX_DESC of (r, buf, pos) \<Rightarrow>
      if r \<noteq> 0 then (-1, Some buf)
      else case write_str buf pos (mtd_tags m) METADATA_MAX_TAGS of (r, buf, pos) \<Rightarrow>
      if r \<noteq> 0 then (-1, Some buf) else (int pos, Some buf))"
| "stream_metadata_encode m buf = (-1, buf)"

fun stream_metadata_decode :: "u8 list option \<Rightarrow> stream_metadata option \<Rightarrow> int \<times> stream_metadata option" where
  "stream_metadata_decode (Some buf) (Some meta) =
     (if length buf < METADATA_FIXED_HDR_SZ then (-1, Some meta)
      else if r32le buf 0 \<noteq> METADATA_MAGIC then (-1, Some meta)
      else let m = stream_metadata_zero\<lparr>mtd_start_us := r64le buf 4, mtd_duration_us := r32le buf 12, mtd_video_width := r16le buf 16,
             mtd_video_height := r16le buf 18, mtd_video_fps := buf ! 20, mtd_flags := buf ! 21\<rparr> in
      case read_str buf METADATA_FIXED_HDR_SZ (mtd_title m) METADATA_MAX_TITLE of (r, s, pos) \<Rightarrow> let m = m\<lparr>mtd_title := s\<rparr> in
      if r \<noteq> 0 then (-1, Some m)
      else case read_str buf pos (mtd_description m) METADATA_MAX_DESC of (r, s, pos) \<Rightarrow> let m = m\<lparr>mtd_description := s\<rparr> in
      if r \<noteq> 0 then (-1, Some m)
      else case read_str buf pos (mtd_tags m) METADATA_MAX_TAGS of (r, s, pos) \<Rightarrow> let m = m\<lparr>mtd_tags := s\<rparr> in
      if r \<noteq> 0 then (-1, Some m) else (0, Some m))"
| "stream_metadata_decode buf meta = (-1, meta)"

definition stream_metadata_is_live :: "stream_metadata option \<Rightarrow> bool" where
  "stream_metadata_is_live meta = (case meta of None \<Rightarrow> False | Some m \<Rightarrow> mtd_flags m AND METADATA_FLAG_LIVE \<noteq> 0)"

section \<open>Encoding and decoding are inverse\<close>

definition mtd_wf :: "stream_metadata \<Rightarrow> bool" where
  "mtd_wf m \<longleftrightarrow> cstr_ok METADATA_MAX_TITLE (mtd_title m) \<and> cstr_ok METADATA_MAX_DESC (mtd_description m) \<and> cstr_ok METADATA_MAX_TAGS (mtd_tags m)"

definition lp_str :: "string \<Rightarrow> u8 list" where
  "lp_str s = w16le (of_nat (length s)) @ str_bytes s"

definition mtd_bytes :: "stream_metadata \<Rightarrow> u8 list" where
  "mtd_bytes m = mtd_fixed m @ lp_str (mtd_title m) @ lp_str (mtd_description m) @ lp_str (mtd_tags m)"

lemma length_lp_str [simp]: "length (lp_str s) = 2 + length s"
  by (simp add: lp_str_def)

lemma length_mtd_fixed [simp]: "length (mtd_fixed m) = METADATA_FIXED_HDR_SZ"
  by (simp add: mtd_fixed_def METADATA_FIXED_HDR_SZ_def)

lemma write_str_fits:
  assumes "length pre = pos" and "length s \<le> n" and "2 + length s \<le> length rest"
  shows "write_str (pre @ rest) pos s n = (0, pre @ lp_str s @ drop (2 + length s) rest, pos + 2 + length s)"
  using assms by (simp add: write_str_def Let_def write_at_def lp_str_def min_absorb1)

lemma write_str_full:
  "length pre = pos \<Longrightarrow> length s \<le> n \<Longrightarrow> length rest < 2 + length s \<Longrightarrow> fst (write_str (pre @ rest) pos s n) = -1"
  by (simp add: write_str_def Let_def min_absorb1)

lemma read_str_fits:
  assumes "length pre = pos" and "cstr_ok n s" and "n < 65536"
  shows "read_str (pre @ lp_str s @ rest) pos out n = (0, s, pos + 2 + length s)"
proof -
  have "r16le (pre @ lp_str s @ rest) pos = of_nat (length s)"
    using r16le_w16le [OF assms(1), of "of_nat (length s)" "str_bytes s @ rest"] by (simp add: lp_str_def)
  moreover have "unat (of_nat (length s) :: u16) = length s"
    using assms(2,3) by (intro unat_of_nat_less) (simp add: cstr_ok_def)
  moreover have "take (length s) (drop (pos + 2) (pre @ lp_str s @ rest)) = str_bytes s"
    using assms(1) by (simp add: lp_str_def)
  ultimately show ?thesis
    using assms(1,2) by (simp add: read_str_def Let_def cstr_ok_def bytes_cstr_str)
qed

lemma length_mtd_bytes:
  "length (mtd_bytes m) = METADATA_FIXED_HDR_SZ + 6 + length (mtd_title m) + length (mtd_description m) + length (mtd_tags m)"
  by (simp add: mtd_bytes_def)

lemma mtd_encode_bytes:
  assumes "mtd_wf m"
  shows "length (mtd_bytes m) \<le> length buf \<Longrightarrow>
      stream_metadata_encode (Some m) (Some buf) = (int (length (mtd_bytes m)), Some (overwrite (mtd_bytes m) buf))"
    and "length buf < length (mtd_bytes m) \<Longrightarrow> fst (stream_metadata_encode (Some m) (Some buf)) = -1"
proof -
  have w: "length (mtd_title m) \<le> METADATA_MAX_TITLE" "length (mtd_description m) \<le> METADATA_MAX_DESC" "length (mtd_tags m) \<le> METADATA_MAX_TAGS"
    using assms by (simp_all add: mtd_wf_def cstr_ok_def)
  let ?h = METADATA_FIXED_HDR_SZ and ?t = "2 + length (mtd_title m)" and ?d = "2 + length (mtd_description m)" and ?g = "2 + length (mtd_tags m)"
  let ?r0 = "drop ?h buf"
  note t = write_str_fits [OF length_mtd_fixed [of m] w(1), of ?r0]
  note d = write_str_fits [OF _ w(2), of "mtd_fixed m @ lp_str (mtd_title m)" "?h + ?t" "drop ?t ?r0", simplified]
  note g = write_str_fits [OF _ w(3), of "mtd_fixed m @ lp_str (mtd_title m) @ lp_str (mtd_description m)" "?h + ?t + ?d" "drop ?d (drop ?t ?r0)", simplified]
  note ft = write_str_full [OF length_mtd_fixed [of m] w(1), of ?r0]
  note fd = write_str_full [OF _ w(2), of "mtd_fixed m @ lp_str (mtd_title m)" "?h + ?t" "drop ?t ?r0", simplified]
  note fg = write_str_full [OF _ w(3), of "mtd_fixed m @ lp_str (mtd_title m) @ lp_str (mtd_description m)" "?h + ?t + ?d" "drop ?d (drop ?t ?r0)", simplified]
  show "length (mtd_bytes m) \<le> length buf \<Longrightarrow>
      stream_metadata_encode (Some m) (Some buf) = (int (length (mtd_bytes m)), Some (overwrite (mtd_bytes m) buf))"
  proof -
    assume l: "length (mtd_bytes m) \<le> length buf"
    then show ?thesis using t d g by (simp add: length_mtd_bytes overwrite_def mtd_bytes_def add.assoc add.commute add.left_commute)
  qed
  show "fst (stream_metadata_encode (Some m) (Some buf)) = -1" if l: "length buf < length (mtd_bytes m)"
  proof -
    consider "length buf < ?h" | "?h \<le> length buf" "length ?r0 < ?t" | "?h \<le> length buf" "?t \<le> length ?r0" "length (drop ?t ?r0) < ?d"
      | "?h \<le> length buf" "?t \<le> length ?r0" "?d \<le> length (drop ?t ?r0)" "length (drop ?d (drop ?t ?r0)) < ?g"
      using l by (fastforce simp: length_mtd_bytes)
    then show ?thesis
      by cases (use t d ft fd fg in \<open>auto simp: overwrite_def split: prod.splits\<close>)
  qed
qed

lemma mtd_decode_bytes:
  assumes "mtd_wf m"
  shows "stream_metadata_decode (Some (mtd_bytes m @ rest)) (Some x) = (0, Some m)"
proof -
  let ?b = "mtd_bytes m @ rest"
  have b: "?b = w32le METADATA_MAGIC @ w64le (mtd_start_us m) @ w32le (mtd_duration_us m) @ w16le (mtd_video_width m)
     @ w16le (mtd_video_height m) @ mtd_video_fps m # mtd_flags m # lp_str (mtd_title m) @ lp_str (mtd_description m) @ lp_str (mtd_tags m) @ rest"
    by (simp add: mtd_bytes_def mtd_fixed_def)
  have rd: "r32le ?b 0 = METADATA_MAGIC" "r64le ?b 4 = mtd_start_us m" "r32le ?b 12 = mtd_duration_us m"
      "r16le ?b 16 = mtd_video_width m" "r16le ?b 18 = mtd_video_height m"
    unfolding b by (simp_all add: wire_simps)
  have by8: "?b ! 20 = mtd_video_fps m" "?b ! 21 = mtd_flags m" unfolding b by (simp_all add: nth_append)
  have len: "METADATA_FIXED_HDR_SZ \<le> length ?b" by (simp add: length_mtd_bytes)
  have w: "cstr_ok METADATA_MAX_TITLE (mtd_title m)" "cstr_ok METADATA_MAX_DESC (mtd_description m)" "cstr_ok METADATA_MAX_TAGS (mtd_tags m)"
    using assms by (simp_all add: mtd_wf_def)
  have e: "?b = mtd_fixed m @ lp_str (mtd_title m) @ lp_str (mtd_description m) @ lp_str (mtd_tags m) @ rest" by (simp add: mtd_bytes_def)
  have t: "read_str ?b METADATA_FIXED_HDR_SZ out METADATA_MAX_TITLE = (0, mtd_title m, METADATA_FIXED_HDR_SZ + 2 + length (mtd_title m))" for out
    unfolding e by (rule read_str_fits [OF length_mtd_fixed w(1)]) (simp add: METADATA_MAX_TITLE_def)
  have d: "read_str ?b (METADATA_FIXED_HDR_SZ + 2 + length (mtd_title m)) out METADATA_MAX_DESC
      = (0, mtd_description m, METADATA_FIXED_HDR_SZ + 2 + length (mtd_title m) + 2 + length (mtd_description m))" for out
    using read_str_fits [OF _ w(2), of "mtd_fixed m @ lp_str (mtd_title m)" _ "lp_str (mtd_tags m) @ rest" out]
    by (simp add: e METADATA_MAX_DESC_def)
  have g: "\<exists>p. read_str ?b (METADATA_FIXED_HDR_SZ + 2 + length (mtd_title m) + 2 + length (mtd_description m)) out METADATA_MAX_TAGS = (0, mtd_tags m, p)" for out
    using read_str_fits [OF _ w(3), of "mtd_fixed m @ lp_str (mtd_title m) @ lp_str (mtd_description m)" _ rest out]
    by (simp add: e METADATA_MAX_TAGS_def add.assoc)
  obtain p1 p2 p where p: "read_str ?b METADATA_FIXED_HDR_SZ [] METADATA_MAX_TITLE = (0, mtd_title m, p1)"
      "read_str ?b p1 [] METADATA_MAX_DESC = (0, mtd_description m, p2)" "read_str ?b p2 [] METADATA_MAX_TAGS = (0, mtd_tags m, p)"
    using t d g by metis
  show ?thesis
    unfolding stream_metadata_decode.simps rd by8 Let_def stream_metadata_zero_def using len by (simp add: p)
qed

definition mtd_dec :: "u8 list \<Rightarrow> stream_metadata option" where
  "mtd_dec b = (case stream_metadata_decode (Some b) (Some stream_metadata_zero) of (r, m) \<Rightarrow> if r = 0 then m else None)"

interpretation mtd: codec mtd_wf mtd_bytes mtd_dec
  by unfold_locales (simp add: mtd_dec_def mtd_decode_bytes del: stream_metadata_decode.simps)

text \<open>Encoding metadata fails exactly when the buffer is too small for it; otherwise it fills the first bytes, leaves the others, and
  decoding what is in the buffer gives the same metadata back.\<close>

theorem metadata_roundtrip:
  assumes "mtd_wf m"
  shows "if length buf < METADATA_FIXED_HDR_SZ + 6 + length (mtd_title m) + length (mtd_description m) + length (mtd_tags m)
    then fst (stream_metadata_encode (Some m) (Some buf)) = -1
    else \<exists>n out. stream_metadata_encode (Some m) (Some buf) = (int n, Some out) \<and> length out = length buf \<and> drop n out = drop n buf
      \<and> stream_metadata_decode (Some out) (Some x) = (0, Some m)"
  using mtd_encode_bytes [OF assms, of buf] mtd_decode_bytes [OF assms]
  by (auto simp: length_mtd_bytes [symmetric] not_less overwrite_def simp del: stream_metadata_decode.simps stream_metadata_encode.simps)

lemma metadata_roundtrip_witness:
  "\<exists>n out. stream_metadata_encode (Some (stream_metadata_zero\<lparr>mtd_title := ''news''\<rparr>)) (Some (replicate 40 0)) = (int n, Some out)
    \<and> stream_metadata_decode (Some out) (Some stream_metadata_zero) = (0, Some (stream_metadata_zero\<lparr>mtd_title := ''news''\<rparr>))"
proof -
  let ?m = "stream_metadata_zero\<lparr>mtd_title := ''news''\<rparr>"
  have "mtd_wf ?m" by (simp add: mtd_wf_def cstr_ok_def stream_metadata_zero_def METADATA_MAX_TITLE_def)
  from metadata_roundtrip [OF this, of "replicate 40 0" stream_metadata_zero] show ?thesis
    by (auto simp: stream_metadata_zero_def METADATA_FIXED_HDR_SZ_def simp del: stream_metadata_decode.simps stream_metadata_encode.simps replicate.simps)
qed

section \<open>The store\<close>

definition METADATA_KV_MAX_KEY :: nat where "METADATA_KV_MAX_KEY = 64"
definition METADATA_KV_MAX_VAL :: nat where "METADATA_KV_MAX_VAL = 256"
definition METADATA_STORE_CAPACITY :: nat where "METADATA_STORE_CAPACITY = 128"

record kv_entry =
  kve_key :: string
  kve_val :: string
  kve_valid :: bool

record metadata_store =
  mds_entries :: "kv_entry list"
  mds_count :: nat

definition kv_entry_zero :: kv_entry where
  "kv_entry_zero = \<lparr>kve_key = [], kve_val = [], kve_valid = False\<rparr>"

definition metadata_store_create :: "bool \<Rightarrow> metadata_store option" where
  "metadata_store_create mem = (if mem then Some \<lparr>mds_entries = replicate METADATA_STORE_CAPACITY kv_entry_zero, mds_count = 0\<rparr> else None)"

definition metadata_store_count :: "metadata_store option \<Rightarrow> nat" where
  "metadata_store_count store = (case store of None \<Rightarrow> 0 | Some s \<Rightarrow> mds_count s)"

definition metadata_store_clear :: "metadata_store option \<Rightarrow> metadata_store option" where
  "metadata_store_clear store = map_option (\<lambda>s. s\<lparr>mds_entries := replicate METADATA_STORE_CAPACITY kv_entry_zero, mds_count := 0\<rparr>) store"

definition mds_find :: "metadata_store \<Rightarrow> string \<Rightarrow> nat option" where
  "mds_find s key = first_idx (\<lambda>e. kve_valid e \<and> kve_key e = key) (mds_entries s)"

fun metadata_store_get :: "metadata_store option \<Rightarrow> string option \<Rightarrow> string option" where
  "metadata_store_get (Some s) (Some key) = map_option (\<lambda>i. kve_val (mds_entries s ! i)) (mds_find s key)"
| "metadata_store_get store key = None"

definition metadata_store_has :: "metadata_store option \<Rightarrow> string option \<Rightarrow> bool" where
  "metadata_store_has store key = (metadata_store_get store key \<noteq> None)"

fun metadata_store_set :: "metadata_store option \<Rightarrow> string option \<Rightarrow> string option \<Rightarrow> int \<times> metadata_store option" where
  "metadata_store_set (Some s) (Some key) (Some v) =
     (if length key > METADATA_KV_MAX_KEY then (-1, Some s)
      else case mds_find s key of
        Some i \<Rightarrow> (0, Some (s\<lparr>mds_entries := (mds_entries s)[i := (mds_entries s ! i)\<lparr>kve_val := take METADATA_KV_MAX_VAL v\<rparr>]\<rparr>))
      | None \<Rightarrow> if mds_count s \<ge> METADATA_STORE_CAPACITY then (-1, Some s)
        else case first_idx (\<lambda>e. \<not> kve_valid e) (mds_entries s) of
          Some i \<Rightarrow> (0, Some (s\<lparr>mds_entries := (mds_entries s)[i := \<lparr>kve_key = take METADATA_KV_MAX_KEY key, kve_val = take METADATA_KV_MAX_VAL v, kve_valid = True\<rparr>],
             mds_count := mds_count s + 1\<rparr>))
        | None \<Rightarrow> (-1, Some s))"
| "metadata_store_set store key v = (-1, store)"

fun metadata_store_delete :: "metadata_store option \<Rightarrow> string option \<Rightarrow> int \<times> metadata_store option" where
  "metadata_store_delete (Some s) (Some key) = (case mds_find s key of
     None \<Rightarrow> (-1, Some s)
   | Some i \<Rightarrow> (0, Some (s\<lparr>mds_entries := (mds_entries s)[i := (mds_entries s ! i)\<lparr>kve_valid := False\<rparr>], mds_count := mds_count s - 1\<rparr>)))"
| "metadata_store_delete store key = (-1, store)"

text \<open>The callback works on its own data and stops the walk with another answer than 0.\<close>

fun mds_foreach :: "(string \<Rightarrow> string \<Rightarrow> 'u \<Rightarrow> int \<times> 'u) \<Rightarrow> kv_entry list \<Rightarrow> 'u \<Rightarrow> 'u" where
  "mds_foreach cb [] ud = ud"
| "mds_foreach cb (e # es) ud = (if kve_valid e then (case cb (kve_key e) (kve_val e) ud of (r, ud) \<Rightarrow> if r \<noteq> 0 then ud else mds_foreach cb es ud)
     else mds_foreach cb es ud)"

definition metadata_store_foreach :: "metadata_store option \<Rightarrow> (string \<Rightarrow> string \<Rightarrow> 'u \<Rightarrow> int \<times> 'u) option \<Rightarrow> 'u \<Rightarrow> 'u" where
  "metadata_store_foreach store cb ud = (case (store, cb) of (Some s, Some f) \<Rightarrow> mds_foreach f (mds_entries s) ud | _ \<Rightarrow> ud)"

text \<open>The store as a map.\<close>

datatype mds_op = MdsSet string string | MdsGet string | MdsHas string | MdsDelete string | MdsCount | MdsClear

datatype mds_ans = MdsInt int | MdsStr "string option" | MdsBool bool | MdsNone

fun mds_call :: "mds_op \<Rightarrow> metadata_store \<Rightarrow> mds_ans \<times> metadata_store" where
  "mds_call (MdsSet k v) s = (case metadata_store_set (Some s) (Some k) (Some v) of (r, s) \<Rightarrow> (MdsInt r, the s))"
| "mds_call (MdsGet k) s = (MdsStr (metadata_store_get (Some s) (Some k)), s)"
| "mds_call (MdsHas k) s = (MdsBool (metadata_store_has (Some s) (Some k)), s)"
| "mds_call (MdsDelete k) s = (case metadata_store_delete (Some s) (Some k) of (r, s) \<Rightarrow> (MdsInt r, the s))"
| "mds_call MdsCount s = (MdsInt (int (metadata_store_count (Some s))), s)"
| "mds_call MdsClear s = (MdsNone, the (metadata_store_clear (Some s)))"

fun mds_spec :: "mds_op \<Rightarrow> (string \<rightharpoonup> string) \<Rightarrow> mds_ans \<times> (string \<rightharpoonup> string)" where
  "mds_spec (MdsSet k v) m = (if length k \<le> METADATA_KV_MAX_KEY \<and> (m k \<noteq> None \<or> card (dom m) < METADATA_STORE_CAPACITY)
     then (MdsInt 0, m(k \<mapsto> take METADATA_KV_MAX_VAL v)) else (MdsInt (-1), m))"
| "mds_spec (MdsGet k) m = (MdsStr (m k), m)"
| "mds_spec (MdsHas k) m = (MdsBool (m k \<noteq> None), m)"
| "mds_spec (MdsDelete k) m = (if m k = None then (MdsInt (-1), m) else (MdsInt 0, m(k := None)))"
| "mds_spec MdsCount m = (MdsInt (int (card (dom m))), m)"
| "mds_spec MdsClear m = (MdsNone, Map.empty)"

definition mds_rel :: "metadata_store \<Rightarrow> (string \<rightharpoonup> string) \<Rightarrow> bool" where
  "mds_rel s m \<longleftrightarrow> slot_map_rel kve_valid kve_key kve_val METADATA_STORE_CAPACITY (mds_entries s) (mds_count s) m"

lemma mds_get_rel: "mds_rel s m \<Longrightarrow> metadata_store_get (Some s) (Some k) = m k"
  by (simp add: mds_rel_def slot_map_lookup mds_find_def)

lemma mds_set_rel:
  assumes "mds_rel s m"
  shows "\<exists>r s'. metadata_store_set (Some s) (Some k) (Some v) = (r, Some s') \<and> MdsInt r = fst (mds_spec (MdsSet k v) m)
    \<and> mds_rel s' (snd (mds_spec (MdsSet k v) m))"
proof (cases "length k \<le> METADATA_KV_MAX_KEY")
  case True
  note r = assms [unfolded mds_rel_def]
  show ?thesis
  proof (cases "mds_find s k")
    case (Some i)
    let ?e = "(mds_entries s ! i)\<lparr>kve_val := take METADATA_KV_MAX_VAL v\<rparr>"
    note f = slot_map_found [OF r Some [unfolded mds_find_def]]
    have "mds_rel (s\<lparr>mds_entries := (mds_entries s)[i := ?e]\<rparr>) (m(k \<mapsto> take METADATA_KV_MAX_VAL v))"
      using slot_map_replace [OF r Some [unfolded mds_find_def], of ?e] f by (simp add: mds_rel_def)
    then show ?thesis using True Some f by simp
  next
    case None
    then have n: "m k = None" using slot_map_missing [OF r] by (simp add: mds_find_def)
    show ?thesis
    proof (cases "mds_count s < METADATA_STORE_CAPACITY")
      case room: True
      obtain i where i: "first_idx (\<lambda>e. \<not> kve_valid e) (mds_entries s) = Some i" using slot_map_room [OF r room] by blast
      let ?e = "\<lparr>kve_key = k, kve_val = take METADATA_KV_MAX_VAL v, kve_valid = True\<rparr>"
      have "mds_rel (s\<lparr>mds_entries := (mds_entries s)[i := ?e], mds_count := mds_count s + 1\<rparr>) (m(k \<mapsto> take METADATA_KV_MAX_VAL v))"
        using slot_map_fill [OF r i, of ?e] n by (simp add: mds_rel_def)
      then show ?thesis using True None i room n slot_map_card [OF r] by simp
    next
      case False
      then show ?thesis using True None n slot_map_card [OF r] assms by simp
    qed
  qed
qed (use assms in simp)

lemma mds_delete_rel:
  assumes "mds_rel s m"
  shows "\<exists>r s'. metadata_store_delete (Some s) (Some k) = (r, Some s') \<and> MdsInt r = fst (mds_spec (MdsDelete k) m)
    \<and> mds_rel s' (snd (mds_spec (MdsDelete k) m))"
proof (cases "mds_find s k")
  case None
  moreover have "m k = None" using None slot_map_missing [OF assms [unfolded mds_rel_def]] by (simp add: mds_find_def)
  ultimately show ?thesis using assms by simp
next
  case (Some i)
  note f = Some [unfolded mds_find_def]
  show ?thesis
    using slot_map_clear [OF assms [unfolded mds_rel_def] f, of "(mds_entries s ! i)\<lparr>kve_valid := False\<rparr>"]
      slot_map_found [OF assms [unfolded mds_rel_def] f] Some by (simp add: mds_rel_def)
qed

interpretation mds: simulation mds_call mds_spec mds_rel "\<lambda>_. True"
proof
  fix s m and op :: mds_op
  assume r: "mds_rel s m"
  show "fst (mds_call op s) = fst (mds_spec op m) \<and> mds_rel (snd (mds_call op s)) (snd (mds_spec op m))"
  proof (cases op)
    case (MdsSet k v)
    from mds_set_rel [OF r, of k v] show ?thesis unfolding MdsSet
      by (auto simp del: metadata_store_set.simps mds_spec.simps)
  next
    case (MdsDelete k)
    from mds_delete_rel [OF r, of k] show ?thesis unfolding MdsDelete
      by (auto simp del: metadata_store_delete.simps mds_spec.simps)
  next
    case MdsCount
    then show ?thesis using r slot_map_card [OF r [unfolded mds_rel_def]] by (simp add: metadata_store_count_def)
  next
    case MdsClear
    then show ?thesis using slot_map_empty [of kve_valid kv_entry_zero kve_key kve_val METADATA_STORE_CAPACITY]
      by (simp add: metadata_store_clear_def mds_rel_def kv_entry_zero_def)
  qed (use r mds_get_rel [OF r] in \<open>simp_all add: metadata_store_has_def del: metadata_store_get.simps\<close>)
qed

text \<open>Under any calls the store is a map of at most 128 keys of at most 64 characters to values cut to 256 characters: a new value
  replaces the old one even when the store is full, and what was not deleted can be found.\<close>

theorem metadata_store_refines_map:
  assumes "metadata_store_create mem = Some s"
  shows "fst (run_calls mds_call ops s) = fst (run_calls mds_spec ops Map.empty)"
proof -
  have "mds_rel s Map.empty"
    using assms slot_map_empty [of kve_valid kv_entry_zero kve_key kve_val METADATA_STORE_CAPACITY]
    by (auto simp: metadata_store_create_def mds_rel_def kv_entry_zero_def split: if_splits)
  then show ?thesis using mds.run [of s Map.empty ops] by simp
qed

lemma metadata_store_refines_map_witness:
  "fst (run_calls mds_call [MdsSet ''song'' ''Ode'', MdsGet ''song'', MdsSet ''song'' ''Air'', MdsGet ''song'', MdsCount, MdsDelete ''song'', MdsHas ''song'']
      (the (metadata_store_create True)))
    = [MdsInt 0, MdsStr (Some ''Ode''), MdsInt 0, MdsStr (Some ''Air''), MdsInt 1, MdsInt 0, MdsBool False]"
  by (subst metadata_store_refines_map [where mem = True])
    (simp_all add: metadata_store_create_def METADATA_KV_MAX_KEY_def METADATA_KV_MAX_VAL_def METADATA_STORE_CAPACITY_def del: replicate.simps)

section \<open>JSON\<close>

definition mtd_json :: "stream_metadata \<Rightarrow> string" where
  "mtd_json m = ''{'' @ json_field ''start_us'' (dec (unat (mtd_start_us m)))
     @ '','' @ json_field ''duration_us'' (dec (unat (mtd_duration_us m)))
     @ '','' @ json_field ''video_width'' (dec (unat (mtd_video_width m)))
     @ '','' @ json_field ''video_height'' (dec (unat (mtd_video_height m)))
     @ '','' @ json_field ''video_fps'' (dec (unat (mtd_video_fps m)))
     @ '','' @ json_field ''flags'' (dec (unat (mtd_flags m)))
     @ '','' @ json_field ''live'' (json_bool (mtd_flags m AND METADATA_FLAG_LIVE \<noteq> 0))
     @ '','' @ json_field ''title'' (quoted (mtd_title m))
     @ '','' @ json_field ''description'' (quoted (mtd_description m))
     @ '','' @ json_field ''tags'' (quoted (mtd_tags m)) @ ''}''"

fun metadata_export_json :: "stream_metadata option \<Rightarrow> string option \<Rightarrow> nat \<Rightarrow> int \<times> string option" where
  "metadata_export_json (Some m) (Some buf) buf_sz =
     (if buf_sz = 0 then (-1, Some buf)
      else case snprintf_at buf_sz [] (mtd_json m) of (n, text) \<Rightarrow> (if n \<ge> buf_sz then -1 else int n, Some text))"
| "metadata_export_json m buf buf_sz = (-1, buf)"

text \<open>The callback's data: the text so far (its length is \<open>pos\<close>), the size of the buffer and the two flags.\<close>

record kv_json_ctx =
  kjc_buf :: string
  kjc_buf_sz :: nat
  kjc_first :: bool
  kjc_overflow :: bool

definition kv_json_pair :: "bool \<Rightarrow> string \<Rightarrow> string \<Rightarrow> string" where
  "kv_json_pair first key v = (if first then [] else '','') @ json_field key (quoted v)"

definition kv_json_cb :: "string \<Rightarrow> string \<Rightarrow> kv_json_ctx \<Rightarrow> int \<times> kv_json_ctx" where
  "kv_json_cb key v ctx =
     (if kjc_overflow ctx then (1, ctx)
      else case cf_append (kjc_buf_sz ctx) (kjc_buf ctx) (kv_json_pair (kjc_first ctx) key v) of (ok, buf) \<Rightarrow>
        if \<not> ok then (1, ctx\<lparr>kjc_buf := buf, kjc_overflow := True\<rparr>) else (0, ctx\<lparr>kjc_buf := buf, kjc_first := False\<rparr>))"

fun metadata_store_export_json :: "metadata_store option \<Rightarrow> string option \<Rightarrow> nat \<Rightarrow> int \<times> string option" where
  "metadata_store_export_json (Some s) (Some buf) buf_sz =
     (if buf_sz = 0 then (-1, Some buf)
      else case cf_append buf_sz [] ''{'' of (ok, b) \<Rightarrow>
      if \<not> ok then (-1, Some b)
      else let ctx = metadata_store_foreach (Some s) (Some kv_json_cb) \<lparr>kjc_buf = b, kjc_buf_sz = buf_sz, kjc_first = True, kjc_overflow = False\<rparr> in
      if kjc_overflow ctx then (-1, Some (kjc_buf ctx))
      else case cf_append buf_sz (kjc_buf ctx) ''}'' of (ok, b) \<Rightarrow> if \<not> ok then (-1, Some b) else (int (length b), Some b))"
| "metadata_store_export_json s buf buf_sz = (-1, buf)"

fun kv_pairs :: "bool \<Rightarrow> kv_entry list \<Rightarrow> string list" where
  "kv_pairs first [] = []"
| "kv_pairs first (e # es) = (if kve_valid e then kv_json_pair first (kve_key e) (kve_val e) # kv_pairs False es else kv_pairs first es)"

lemma kv_json_walk:
  "\<not> kjc_overflow ctx \<Longrightarrow> (let ctx' = mds_foreach kv_json_cb es ctx in
     (\<not> kjc_overflow ctx', kjc_buf ctx') = cf_appends (kjc_buf_sz ctx) (kv_pairs (kjc_first ctx) es) (kjc_buf ctx) \<and> kjc_buf_sz ctx' = kjc_buf_sz ctx)"
proof (induction es arbitrary: ctx)
  case (Cons e es)
  then show ?case by (cases "kve_valid e") (auto simp: kv_json_cb_def Let_def split: prod.splits)
qed simp

text \<open>The text of a store, and what the export does: the whole text when it fits with its NUL, -1 otherwise.\<close>

definition mds_json :: "metadata_store \<Rightarrow> string" where
  "mds_json s = ''{'' @ concat (kv_pairs True (mds_entries s)) @ ''}''"

lemma metadata_store_export:
  assumes "0 < sz"
  shows "metadata_store_export_json (Some s) (Some buf) sz =
    (if length (mds_json s) < sz then (int (length (mds_json s)), Some (mds_json s)) else (-1, Some (take (sz - 1) (mds_json s))))"
proof -
  let ?ps = "kv_pairs True (mds_entries s)"
  let ?ctx = "\<lparr>kjc_buf = ''{'', kjc_buf_sz = sz, kjc_first = True, kjc_overflow = False\<rparr>"
  have w: "(\<not> kjc_overflow (mds_foreach kv_json_cb (mds_entries s) ?ctx), kjc_buf (mds_foreach kv_json_cb (mds_entries s) ?ctx))
      = cf_appends sz ?ps ''{''"
    using kv_json_walk [of ?ctx "mds_entries s"] by (simp add: Let_def)
  have "metadata_store_export_json (Some s) (Some buf) sz
      = (case cf_appends sz ([''{''] @ ?ps @ [''}'']) [] of (ok, b) \<Rightarrow> (if ok then int (length b) else -1, Some b))"
  proof (cases "1 < sz")
    case True
    then have o: "cf_append sz [] ''{'' = (True, ''{'')" by (simp add: cf_append_ok)
    obtain ok b where a: "cf_appends sz ?ps ''{'' = (ok, b)" by (metis prod.exhaust)
    have "kjc_overflow (mds_foreach kv_json_cb (mds_entries s) ?ctx) = (\<not> ok)" "kjc_buf (mds_foreach kv_json_cb (mds_entries s) ?ctx) = b"
      using w unfolding a by auto
    then show ?thesis using o a True
      by (simp add: metadata_store_foreach_def Let_def cf_appends_append split: prod.split)
  next
    case False
    then have "sz = 1" using assms by simp
    moreover have "cf_append 1 [] ''{'' = (False, [])" by (simp add: cf_append_def snprintf_at_def)
    ultimately show ?thesis by simp
  qed
  also have "\<dots> = (if length (mds_json s) < sz then (int (length (mds_json s)), Some (mds_json s)) else (-1, Some (take (sz - 1) (mds_json s))))"
    using cf_appends_fits [of "[]" "[''{''] @ ?ps @ [''}'']" sz] cf_appends_full [of "[]" sz "[''{''] @ ?ps @ [''}'']"] assms
    by (auto simp: mds_json_def not_less)
  finally show ?thesis .
qed

text \<open>Keys and values are not escaped: a value with a quotation mark in it makes the text of one pair that of two.\<close>

lemma metadata_json_ambiguous:
  "mds_json \<lparr>mds_entries = [\<lparr>kve_key = k, kve_val = v @ dq @ '','' @ dq @ k' @ dq @ '':'' @ dq @ v', kve_valid = True\<rparr>], mds_count = 1\<rparr>
   = mds_json \<lparr>mds_entries = [\<lparr>kve_key = k, kve_val = v, kve_valid = True\<rparr>, \<lparr>kve_key = k', kve_val = v', kve_valid = True\<rparr>], mds_count = 2\<rparr>"
  by (simp add: mds_json_def kv_json_pair_def json_field_def quoted_def)

end
