(* ===== verification/Eventlog.thy ===== *)
theory Eventlog
  imports Wire Cformat Ringbuf
begin

text \<open>
  The event log, \<^verbatim>\<open>src/src/eventlog\<close>: entries on the wire (\<^verbatim>\<open>event_entry.c\<close>), the ring of the last 256 of them
  (\<^verbatim>\<open>event_ring.c\<close>), which is read from the newest backwards, and its text and JSON forms (\<^verbatim>\<open>event_export.c\<close>).  A message is the C
  string in its array of 128 bytes; a level is the number of the enumeration.
\<close>

definition EVENT_ENTRY_HDR_SIZE :: nat where "EVENT_ENTRY_HDR_SIZE = 16"
definition EVENT_MSG_MAX :: nat where "EVENT_MSG_MAX = 128"
definition EVENT_RING_CAPACITY :: nat where "EVENT_RING_CAPACITY = 256"

record event_entry =
  evt_timestamp_us :: u64
  evt_level :: u32
  evt_event_type :: u16
  evt_msg :: string

section \<open>Entries on the wire\<close>

definition evt_bytes :: "event_entry \<Rightarrow> u8 list" where
  "evt_bytes e = (let msglen = min (length (evt_msg e)) (EVENT_MSG_MAX - 1) + 1 in
     w64le (evt_timestamp_us e) @ [ucast (evt_level e), 0] @ w16le (evt_event_type e) @ w16le (of_nat msglen) @ w16le 0
       @ take msglen (str_bytes (evt_msg e) @ [0]))"

fun event_entry_encode :: "event_entry option \<Rightarrow> u8 list option \<Rightarrow> int \<times> u8 list option" where
  "event_entry_encode (Some e) (Some buf) =
     (let msglen = min (length (evt_msg e)) (EVENT_MSG_MAX - 1) + 1; total_sz = EVENT_ENTRY_HDR_SIZE + msglen in
      if length buf < total_sz then (-1, Some buf) else (int total_sz, Some (overwrite (evt_bytes e) buf)))"
| "event_entry_encode e buf = (-1, buf)"

fun event_entry_decode :: "u8 list option \<Rightarrow> event_entry option \<Rightarrow> int \<times> event_entry option" where
  "event_entry_decode (Some buf) (Some e) =
     (if length buf < EVENT_ENTRY_HDR_SIZE then (-1, Some e)
      else let msglen = unat (r16le buf 12) in
        if msglen = 0 \<or> msglen > EVENT_MSG_MAX then (-1, Some e)
        else if length buf < EVENT_ENTRY_HDR_SIZE + msglen then (-1, Some e)
        else (0, Some \<lparr>evt_timestamp_us = r64le buf 0, evt_level = ucast (buf ! 8), evt_event_type = r16le buf 10,
           evt_msg = bytes_cstr (take (min msglen (EVENT_MSG_MAX - 1)) (drop EVENT_ENTRY_HDR_SIZE buf))\<rparr>))"
| "event_entry_decode buf e = (-1, e)"

definition event_level_name :: "u32 \<Rightarrow> string" where
  "event_level_name l = (if l = 0 then ''DEBUG'' else if l = 1 then ''INFO'' else if l = 2 then ''WARN''
     else if l = 3 then ''ERROR'' else ''UNKNOWN'')"

definition evt_wf :: "event_entry \<Rightarrow> bool" where
  "evt_wf e \<longleftrightarrow> cstr_ok (EVENT_MSG_MAX - 1) (evt_msg e) \<and> unat (evt_level e) < 256"

lemma length_evt_bytes: "evt_wf e \<Longrightarrow> length (evt_bytes e) = EVENT_ENTRY_HDR_SIZE + length (evt_msg e) + 1"
  by (simp add: evt_bytes_def evt_wf_def cstr_ok_def EVENT_ENTRY_HDR_SIZE_def Let_def min_absorb1)

lemma evt_decode_bytes:
  assumes "evt_wf e"
  shows "event_entry_decode (Some (evt_bytes e @ rest)) (Some x) = (0, Some e)"
proof -
  let ?b = "evt_bytes e @ rest" and ?n = "length (evt_msg e) + 1"
  have n: "length (evt_msg e) \<le> 127" "CHR 0x00 \<notin> set (evt_msg e)" using assms by (simp_all add: evt_wf_def cstr_ok_def EVENT_MSG_MAX_def)
  have b: "?b = w64le (evt_timestamp_us e) @ ucast (evt_level e) # 0 # w16le (evt_event_type e) @ w16le (of_nat ?n) @ w16le 0
      @ str_bytes (evt_msg e) @ 0 # rest"
    using n(1) by (simp add: evt_bytes_def EVENT_MSG_MAX_def Let_def min_absorb1)
  have rd: "r16le ?b 12 = of_nat ?n" "r64le ?b 0 = evt_timestamp_us e" "r16le ?b 10 = evt_event_type e"
    unfolding b by (simp_all add: wire_simps del: of_nat_Suc of_nat_add)
  have un: "unat (of_nat ?n :: u16) = ?n" using n(1) by (intro unat_of_nat_less) simp
  have lv: "?b ! 8 = ucast (evt_level e)" unfolding b by (simp add: nth_append)
  have lv2: "ucast (ucast (evt_level e) :: u8) = evt_level e" using assms by (intro ucast_u8_small) (simp add: evt_wf_def)
  have len: "length ?b = 16 + ?n + length rest" unfolding b by simp
  have d: "bytes_cstr (take (min ?n (EVENT_MSG_MAX - 1)) (drop EVENT_ENTRY_HDR_SIZE ?b)) = evt_msg e"
  proof -
    have dr: "drop EVENT_ENTRY_HDR_SIZE ?b = str_bytes (evt_msg e) @ 0 # rest" unfolding b by (simp add: EVENT_ENTRY_HDR_SIZE_def)
    show ?thesis
    proof (cases "?n \<le> 127")
      case True
      then have "take (min ?n (EVENT_MSG_MAX - 1)) (str_bytes (evt_msg e) @ 0 # rest) = str_bytes (evt_msg e) @ [0]"
        by (simp add: EVENT_MSG_MAX_def min_absorb1)
      moreover have "bytes_cstr (str_bytes (evt_msg e) @ [0]) = evt_msg e"
        using bytes_cstr_str [OF n(2)] takeWhile_str [OF n(2)]
        by (simp add: bytes_cstr_def takeWhile_append)
      ultimately show ?thesis unfolding dr by simp
    next
      case False
      then have "length (evt_msg e) = 127" using n(1) by simp
      then have "take (min ?n (EVENT_MSG_MAX - 1)) (str_bytes (evt_msg e) @ 0 # rest) = str_bytes (evt_msg e)"
        by (simp add: EVENT_MSG_MAX_def)
      then show ?thesis unfolding dr using bytes_cstr_str [OF n(2)] by simp
    qed
  qed
  show ?thesis
    unfolding event_entry_decode.simps rd un lv lv2 Let_def d using len n(1)
    by (cases e) (simp add: EVENT_ENTRY_HDR_SIZE_def EVENT_MSG_MAX_def)
qed

definition evt_dec :: "u8 list \<Rightarrow> event_entry option" where
  "evt_dec b = (case event_entry_decode (Some b) (Some \<lparr>evt_timestamp_us = 0, evt_level = 0, evt_event_type = 0, evt_msg = []\<rparr>) of
     (r, e) \<Rightarrow> if r = 0 then e else None)"

interpretation evt: codec evt_wf evt_bytes evt_dec
  by unfold_locales (simp add: evt_dec_def evt_decode_bytes del: event_entry_decode.simps)

text \<open>An entry that was encoded into a buffer that is large enough decodes to itself; a message of the whole array length included.\<close>

lemma event_entry_roundtrip:
  assumes "evt_wf e" and "EVENT_ENTRY_HDR_SIZE + length (evt_msg e) + 1 \<le> length buf"
  shows "\<exists>out. event_entry_encode (Some e) (Some buf) = (int (EVENT_ENTRY_HDR_SIZE + length (evt_msg e) + 1), Some out)
    \<and> event_entry_decode (Some out) (Some x) = (0, Some e)"
  using assms evt_decode_bytes [OF assms(1)] length_evt_bytes [OF assms(1)]
  by (auto simp: overwrite_def Let_def evt_wf_def cstr_ok_def min_absorb1 simp del: event_entry_decode.simps)

section \<open>The ring\<close>

record event_ring =
  evr_entries :: "event_entry list"
  evr_head :: nat
  evr_count :: nat

definition event_entry_zero :: event_entry where
  "event_entry_zero = \<lparr>evt_timestamp_us = 0, evt_level = 0, evt_event_type = 0, evt_msg = []\<rparr>"

definition event_ring_create :: "bool \<Rightarrow> event_ring option" where
  "event_ring_create mem = (if mem then Some \<lparr>evr_entries = replicate EVENT_RING_CAPACITY event_entry_zero, evr_head = 0, evr_count = 0\<rparr> else None)"

definition event_ring_count :: "event_ring option \<Rightarrow> nat" where
  "event_ring_count r = (case r of None \<Rightarrow> 0 | Some r \<Rightarrow> evr_count r)"

definition event_ring_is_empty :: "event_ring option \<Rightarrow> bool" where
  "event_ring_is_empty r = (case r of None \<Rightarrow> True | Some r \<Rightarrow> evr_count r = 0)"

definition event_ring_clear :: "event_ring option \<Rightarrow> event_ring option" where
  "event_ring_clear r = map_option (\<lambda>r. r\<lparr>evr_head := 0, evr_count := 0\<rparr>) r"

fun event_ring_push :: "event_ring option \<Rightarrow> event_entry option \<Rightarrow> int \<times> event_ring option" where
  "event_ring_push (Some r) (Some e) =
     (0, Some (r\<lparr>evr_entries := (evr_entries r)[evr_head r := e], evr_head := (evr_head r + 1) mod EVENT_RING_CAPACITY,
        evr_count := if evr_count r < EVENT_RING_CAPACITY then evr_count r + 1 else evr_count r\<rparr>))"
| "event_ring_push r e = (-1, r)"

fun event_ring_get :: "event_ring option \<Rightarrow> int \<Rightarrow> event_entry option \<Rightarrow> int \<times> event_entry option" where
  "event_ring_get (Some r) age (Some e) =
     (if age < 0 \<or> age \<ge> int (evr_count r) then (-1, Some e)
      else let idx = (int (evr_head r) - 1 - age + int EVENT_RING_CAPACITY * 2) mod int EVENT_RING_CAPACITY in
        (0, Some (evr_entries r ! nat idx)))"
| "event_ring_get r age e = (-1, e)"

definition evr_at :: "event_ring \<Rightarrow> nat \<Rightarrow> event_entry" where
  "evr_at r age = the (snd (event_ring_get (Some r) (int age) (Some event_entry_zero)))"

text \<open>The loop goes on from \<open>age\<close> while results are wanted; the ages found are returned in order.\<close>

function evr_find_loop :: "event_ring \<Rightarrow> u32 \<Rightarrow> nat \<Rightarrow> nat \<Rightarrow> int list" where
  "evr_find_loop r min_level age room =
     (if age < evr_count r \<and> 0 < room then
        if evt_level (evr_at r age) \<ge> min_level then int age # evr_find_loop r min_level (age + 1) (room - 1)
        else evr_find_loop r min_level (age + 1) room
      else [])"
  by auto
termination by (relation "measure (\<lambda>(r, l, age, room). evr_count r - age)") auto

declare evr_find_loop.simps [simp del]

fun event_ring_find_level :: "event_ring option \<Rightarrow> u32 \<Rightarrow> int list option \<Rightarrow> int \<Rightarrow> int \<times> int list option" where
  "event_ring_find_level (Some r) min_level (Some out_ages) max_results =
     (if max_results \<le> 0 then (0, Some out_ages)
      else let ages = evr_find_loop r min_level 0 (nat max_results) in (int (length ages), Some (overwrite ages out_ages)))"
| "event_ring_find_level r min_level out_ages max_results = (0, out_ages)"

section \<open>What the ring holds\<close>

datatype evr_op = EvrPush event_entry | EvrGet int | EvrFind u32 nat | EvrCount | EvrEmpty | EvrClear

datatype evr_ans = EvrInt int | EvrGot int "event_entry option" | EvrAges int "int list option" | EvrBool bool | EvrNone

fun evr_call :: "evr_op \<Rightarrow> event_ring \<Rightarrow> evr_ans \<times> event_ring" where
  "evr_call (EvrPush e) r = (case event_ring_push (Some r) (Some e) of (c, r) \<Rightarrow> (EvrInt c, the r))"
| "evr_call (EvrGet age) r = (case event_ring_get (Some r) age (Some event_entry_zero) of (c, e) \<Rightarrow> (EvrGot c e, r))"
| "evr_call (EvrFind l n) r = (case event_ring_find_level (Some r) l (Some (replicate n 0)) (int n) of (c, a) \<Rightarrow> (EvrAges c a, r))"
| "evr_call EvrCount r = (EvrInt (int (event_ring_count (Some r))), r)"
| "evr_call EvrEmpty r = (EvrBool (event_ring_is_empty (Some r)), r)"
| "evr_call EvrClear r = (EvrNone, the (event_ring_clear (Some r)))"

text \<open>The specification: the last 256 entries, newest first.\<close>

fun evr_spec :: "evr_op \<Rightarrow> event_entry list \<Rightarrow> evr_ans \<times> event_entry list" where
  "evr_spec (EvrPush e) L = (EvrInt 0, take EVENT_RING_CAPACITY (e # L))"
| "evr_spec (EvrGet age) L = (if 0 \<le> age \<and> age < int (length L) then EvrGot 0 (Some (L ! nat age)) else EvrGot (-1) (Some event_entry_zero), L)"
| "evr_spec (EvrFind l n) L = (let ages = take n (map int (filter (\<lambda>a. evt_level (L ! a) \<ge> l) [0..<length L])) in
     (EvrAges (int (length ages)) (Some (overwrite ages (replicate n 0))), L))"
| "evr_spec EvrCount L = (EvrInt (int (length L)), L)"
| "evr_spec EvrEmpty L = (EvrBool (L = []), L)"
| "evr_spec EvrClear L = (EvrNone, [])"

definition evr_rel :: "event_ring \<Rightarrow> event_entry list \<Rightarrow> bool" where
  "evr_rel r L \<longleftrightarrow> length (evr_entries r) = EVENT_RING_CAPACITY \<and> evr_count r \<le> EVENT_RING_CAPACITY
     \<and> (\<exists>start < EVENT_RING_CAPACITY. evr_head r = (start + evr_count r) mod EVENT_RING_CAPACITY
          \<and> L = rev (ring_items EVENT_RING_CAPACITY (evr_entries r) start (evr_count r)))"

lemma evr_length: "evr_rel r L \<Longrightarrow> length L = evr_count r"
  by (auto simp: evr_rel_def)

lemma EVENT_RING_pos: "0 < EVENT_RING_CAPACITY"
  by (simp add: EVENT_RING_CAPACITY_def)

lemma evr_index:
  assumes "start < c" and "n \<le> c" and "a < n"
  shows "nat ((int ((start + n) mod c) - 1 - int a + int c * 2) mod int c) = (start + (n - 1 - a)) mod c"
proof -
  have "(int ((start + n) mod c) - 1 - int a + int c * 2) mod int c = (int (start + n) - 1 - int a + int c * 2) mod int c"
    by (simp only: zmod_int) (metis (no_types, opaque_lifting) mod_add_left_eq mod_diff_left_eq)
  also have "int (start + n) - 1 - int a + int c * 2 = int (start + (n - 1 - a)) + int c * 2" using assms by simp
  also have "(int (start + (n - 1 - a)) + int c * 2) mod int c = int ((start + (n - 1 - a)) mod c)" by (simp add: zmod_int)
  finally show ?thesis by simp
qed

lemma evr_get_rel:
  assumes "evr_rel r L"
  shows "event_ring_get (Some r) age (Some e) = (if 0 \<le> age \<and> age < int (length L) then (0, Some (L ! nat age)) else (-1, Some e))"
proof (cases "0 \<le> age \<and> age < int (length L)")
  case True
  from assms obtain start where s: "start < EVENT_RING_CAPACITY" "evr_head r = (start + evr_count r) mod EVENT_RING_CAPACITY"
      "L = rev (ring_items EVENT_RING_CAPACITY (evr_entries r) start (evr_count r))" "evr_count r \<le> EVENT_RING_CAPACITY"
    unfolding evr_rel_def by blast
  obtain a where a: "age = int a" "a < evr_count r" using True evr_length [OF assms] nonneg_int_cases [of age] by auto
  have "L ! a = evr_entries r ! ((start + (evr_count r - 1 - a)) mod EVENT_RING_CAPACITY)"
    using a(2) unfolding s(3) by (simp add: rev_nth nth_ring_items)
  then show ?thesis using True a evr_length [OF assms] evr_index [OF s(1,4) a(2)] by (simp add: Let_def s(2))
qed (use evr_length [OF assms] in auto)

lemma evr_push_rel:
  assumes "evr_rel r L"
  shows "event_ring_push (Some r) (Some e) = (0, snd (event_ring_push (Some r) (Some e)))
    \<and> evr_rel (the (snd (event_ring_push (Some r) (Some e)))) (take EVENT_RING_CAPACITY (e # L))"
proof -
  let ?c = EVENT_RING_CAPACITY
  from assms obtain start where s: "start < ?c" "evr_head r = (start + evr_count r) mod ?c"
      "L = rev (ring_items ?c (evr_entries r) start (evr_count r))" "evr_count r \<le> ?c" "length (evr_entries r) = ?c"
    unfolding evr_rel_def by blast
  show ?thesis
  proof (cases "evr_count r < ?c")
    case True
    have "take ?c (e # L) = e # L" using True s(3) by simp
    moreover have "rev (ring_items ?c ((evr_entries r)[evr_head r := e]) start (Suc (evr_count r))) = e # L"
      using ring_items_push [OF s(1) True s(5), of e] s(2,3) by simp
    moreover have "(evr_head r + 1) mod ?c = (start + Suc (evr_count r)) mod ?c" unfolding s(2) by (simp add: mod_Suc_eq)
    ultimately show ?thesis using True s by (auto simp: evr_rel_def)
  next
    case False
    then have n: "evr_count r = ?c" "evr_head r = start" using s by simp_all
    have "rev (ring_items ?c ((evr_entries r)[start := e]) ((start + 1) mod ?c) ?c) = e # rev (tl (ring_items ?c (evr_entries r) start ?c))"
      using ring_items_overwrite [OF s(1,5), of e] by simp
    also have "rev (tl (ring_items ?c (evr_entries r) start ?c)) = take (?c - 1) L"
      unfolding s(3) n(1) using EVENT_RING_pos by (simp add: take_rev drop_Suc)
    also have "e # take (?c - 1) L = take ?c (e # L)" by (simp add: take_Cons' EVENT_RING_CAPACITY_def)
    finally have "rev (ring_items ?c ((evr_entries r)[start := e]) ((start + 1) mod ?c) ?c) = take ?c (e # L)" .
    moreover have "(start + 1) mod ?c < ?c" "(start + 1) mod ?c = ((start + 1) mod ?c + ?c) mod ?c" using EVENT_RING_pos by simp_all
    ultimately show ?thesis using n s(5) by (auto simp: evr_rel_def intro!: exI [of _ "(start + 1) mod ?c"])
  qed
qed

lemma evr_find_rel:
  assumes "evr_rel r L"
  shows "evr_find_loop r l a n = take n (map int (filter (\<lambda>i. evt_level (L ! i) \<ge> l) [a..<length L]))"
proof (induction "length L - a" arbitrary: a n)
  case 0
  then show ?case using evr_length [OF assms] by (simp add: evr_find_loop.simps [of r l a n])
next
  case (Suc k)
  then have a: "a < length L" "[a..<length L] = a # [Suc a..<length L]" by (simp_all add: upt_conv_Cons)
  have e: "evr_at r a = L ! a" using evr_get_rel [OF assms, of "int a"] a(1) by (simp add: evr_at_def del: event_ring_get.simps)
  have IH: "evr_find_loop r l (Suc a) m = take m (map int (filter (\<lambda>i. evt_level (L ! i) \<ge> l) [Suc a..<length L]))" for m
    using Suc.hyps(1) [of "Suc a" m] Suc.hyps(2) by simp
  show ?case using a e IH evr_length [OF assms] by (cases n) (simp_all add: evr_find_loop.simps [of r l a])
qed

interpretation evr: simulation evr_call evr_spec evr_rel "\<lambda>_. True"
proof
  fix r L and op :: evr_op
  assume r: "evr_rel r L"
  show "fst (evr_call op r) = fst (evr_spec op L) \<and> evr_rel (snd (evr_call op r)) (snd (evr_spec op L))"
  proof (cases op)
    case (EvrPush e)
    from evr_push_rel [OF r, of e] show ?thesis unfolding EvrPush
      by (cases "event_ring_push (Some r) (Some e)") (simp del: event_ring_push.simps)
  next
    case (EvrGet age)
    then show ?thesis using r evr_get_rel [OF r, of age] by (simp del: event_ring_get.simps)
  next
    case (EvrFind l n)
    then show ?thesis using r evr_find_rel [OF r, of l 0 n] by (simp add: Let_def overwrite_def)
  next
    case EvrClear
    then show ?thesis using r EVENT_RING_pos by (auto simp: evr_rel_def event_ring_clear_def)
  qed (use r evr_length [OF r] in \<open>auto simp: event_ring_count_def event_ring_is_empty_def\<close>)
qed

text \<open>Under any calls the event log is the list of the last 256 entries pushed, newest first: \<open>get\<close> indexes it and refuses any other age,
  and a search for a level returns the ages of the newest matching entries, no more than asked for.\<close>

theorem event_ring_refines_list:
  assumes "event_ring_create mem = Some r"
  shows "fst (run_calls evr_call ops r) = fst (run_calls evr_spec ops [])"
proof -
  have "evr_rel r []"
    using assms EVENT_RING_pos by (auto simp: event_ring_create_def evr_rel_def split: if_splits)
  then show ?thesis using evr.run [of r "[]" ops] by simp
qed

lemma event_ring_refines_list_witness:
  "fst (run_calls evr_call [EvrPush (event_entry_zero\<lparr>evt_level := 3\<rparr>), EvrPush (event_entry_zero\<lparr>evt_level := 1\<rparr>), EvrGet 1, EvrFind 2 1, EvrGet 2]
      (the (event_ring_create True)))
    = [EvrInt 0, EvrInt 0, EvrGot 0 (Some (event_entry_zero\<lparr>evt_level := 3\<rparr>)), EvrAges 1 (Some [1]), EvrGot (-1) (Some event_entry_zero)]"
  by (subst event_ring_refines_list [where mem = True])
    (simp_all add: event_ring_create_def EVENT_RING_CAPACITY_def event_entry_zero_def overwrite_def word_le_nat_alt del: replicate.simps)

section \<open>Export\<close>

definition evt_json :: "bool \<Rightarrow> event_entry \<Rightarrow> string list" where
  "evt_json first e = (if first then [] else ['','']) @ [''{'' @ json_field ''ts_us'' (dec (unat (evt_timestamp_us e)))
     @ '','' @ json_field ''level'' (quoted (event_level_name (evt_level e))) @ '','' @ json_field ''type'' (dec (unat (evt_event_type e)))
     @ '','' @ json_field ''msg'' (quoted (evt_msg e)) @ ''}'']"

fun event_export_json :: "event_ring option \<Rightarrow> string option \<Rightarrow> nat \<Rightarrow> int \<times> string option" where
  "event_export_json (Some r) (Some buf) buf_sz =
     (if buf_sz < 3 then (-1, Some buf)
      else case cf_result (cf_appends buf_sz ([''[''] @ concat (map (\<lambda>age. evt_json (age = 0) (evr_at r age)) [0..<evr_count r]) @ ['']'']) []) of
        (n, text) \<Rightarrow> (n, Some text))"
| "event_export_json r buf buf_sz = (-1, buf)"

definition evt_text :: "event_entry \<Rightarrow> string" where
  "evt_text e = ''['' @ event_level_name (evt_level e) @ ''] '' @ dec (unat (evt_timestamp_us e)) @ '' (type='' @ dec (unat (evt_event_type e))
     @ '') '' @ evt_msg e @ nl"

fun event_export_text :: "event_ring option \<Rightarrow> string option \<Rightarrow> nat \<Rightarrow> int \<times> string option" where
  "event_export_text (Some r) (Some buf) buf_sz =
     (if buf_sz < 2 then (-1, Some buf)
      else case cf_result (cf_appends buf_sz (map (\<lambda>age. evt_text (evr_at r age)) [0..<evr_count r]) []) of (n, text) \<Rightarrow> (n, Some text))"
| "event_export_text r buf buf_sz = (-1, buf)"

text \<open>The text is the lines of the entries, newest first, or -1 if they do not fit with their NUL.\<close>

lemma event_export_lines:
  assumes "evr_rel r L" and "2 \<le> sz"
  shows "event_export_text (Some r) (Some buf) sz =
    (if length (concat (map evt_text L)) < sz then (int (length (concat (map evt_text L))), Some (concat (map evt_text L)))
     else (-1, Some (take (sz - 1) (concat (map evt_text L)))))"
proof -
  have "map (\<lambda>age. evt_text (evr_at r age)) [0..<evr_count r] = map evt_text L"
  proof (rule nth_equalityI)
    fix i assume "i < length (map (\<lambda>age. evt_text (evr_at r age)) [0..<evr_count r])"
    then have i: "i < length L" using evr_length [OF assms(1)] by simp
    then have "evr_at r i = L ! i" using evr_get_rel [OF assms(1), of "int i"] by (simp add: evr_at_def del: event_ring_get.simps)
    then show "map (\<lambda>age. evt_text (evr_at r age)) [0..<evr_count r] ! i = map evt_text L ! i" using i evr_length [OF assms(1)] by simp
  qed (simp add: evr_length [OF assms(1)])
  then show ?thesis using assms(2) cf_result_fits [of "map evt_text L" sz] cf_appends_full [of "[]" sz "map evt_text L"]
    by (auto simp: cf_result_def not_less split: prod.splits)
qed

text \<open>Messages are not escaped: one entry's line can pass for two.\<close>

lemma event_text_ambiguous:
  "evt_text (e\<lparr>evt_msg := m @ nl @ butlast (evt_text e')\<rparr>) = evt_text (e\<lparr>evt_msg := m\<rparr>) @ evt_text e'"
  by (simp add: evt_text_def nl_def butlast_append)

end
