(* ===== verification/Analytics.thy ===== *)
theory Analytics
  imports Wire Cformat Ringbuf
begin

text \<open>
  Stream analytics, \<^verbatim>\<open>src/src/analytics\<close>: events on the wire (\<^verbatim>\<open>analytics_event.c\<close>), the ring that keeps the last 1024 of them
  (\<^verbatim>\<open>event_ring.c\<close>, whose functions have the names of those of the event log and are called \<open>analytics_ring\<close> here), the running
  statistics (\<^verbatim>\<open>analytics_stats.c\<close>) and the export of events (\<^verbatim>\<open>analytics_export.c\<close>).  A payload is the bytes of its array.  The two averages
  are C doubles: their type is a parameter, with the arithmetic as a record of functions, of which nothing is assumed.  What a
  copy of the payload takes from beyond the array when \<open>payload_len\<close> is too large is not modelled.
\<close>

definition ANALYTICS_MAGIC :: u32 where "ANALYTICS_MAGIC = 0x414E4C59"
definition ANALYTICS_HDR_SIZE :: nat where "ANALYTICS_HDR_SIZE = 32"
definition ANALYTICS_MAX_PAYLOAD :: nat where "ANALYTICS_MAX_PAYLOAD = 128"
definition ANALYTICS_RING_CAPACITY :: nat where "ANALYTICS_RING_CAPACITY = 1024"

definition ANALYTICS_VIEWER_JOIN :: u32 where "ANALYTICS_VIEWER_JOIN = 0x01"
definition ANALYTICS_VIEWER_LEAVE :: u32 where "ANALYTICS_VIEWER_LEAVE = 0x02"
definition ANALYTICS_BITRATE_CHANGE :: u32 where "ANALYTICS_BITRATE_CHANGE = 0x03"
definition ANALYTICS_FRAME_DROP :: u32 where "ANALYTICS_FRAME_DROP = 0x04"
definition ANALYTICS_QUALITY_ALERT :: u32 where "ANALYTICS_QUALITY_ALERT = 0x05"
definition ANALYTICS_SCENE_CHANGE :: u32 where "ANALYTICS_SCENE_CHANGE = 0x06"
definition ANALYTICS_STREAM_START :: u32 where "ANALYTICS_STREAM_START = 0x07"
definition ANALYTICS_STREAM_STOP :: u32 where "ANALYTICS_STREAM_STOP = 0x08"
definition ANALYTICS_LATENCY_SAMPLE :: u32 where "ANALYTICS_LATENCY_SAMPLE = 0x09"

lemmas analytics_type_defs = ANALYTICS_VIEWER_JOIN_def ANALYTICS_VIEWER_LEAVE_def ANALYTICS_BITRATE_CHANGE_def ANALYTICS_FRAME_DROP_def
  ANALYTICS_QUALITY_ALERT_def ANALYTICS_SCENE_CHANGE_def ANALYTICS_STREAM_START_def ANALYTICS_STREAM_STOP_def ANALYTICS_LATENCY_SAMPLE_def

lemma analytics_types_distinct:
  "distinct [ANALYTICS_VIEWER_JOIN, ANALYTICS_VIEWER_LEAVE, ANALYTICS_BITRATE_CHANGE, ANALYTICS_FRAME_DROP, ANALYTICS_QUALITY_ALERT,
     ANALYTICS_SCENE_CHANGE, ANALYTICS_STREAM_START, ANALYTICS_STREAM_STOP, ANALYTICS_LATENCY_SAMPLE]"
  "distinct [ANALYTICS_LATENCY_SAMPLE, ANALYTICS_STREAM_STOP, ANALYTICS_STREAM_START, ANALYTICS_SCENE_CHANGE, ANALYTICS_QUALITY_ALERT,
     ANALYTICS_FRAME_DROP, ANALYTICS_BITRATE_CHANGE, ANALYTICS_VIEWER_LEAVE, ANALYTICS_VIEWER_JOIN]"
  by (simp_all add: analytics_type_defs)

record analytics_event =
  ane_timestamp_us :: u64
  ane_type :: u32
  ane_flags :: u8
  ane_payload_len :: u16
  ane_session_id :: u64
  ane_value :: u64
  ane_payload :: "u8 list"

definition analytics_event_zero :: analytics_event where
  "analytics_event_zero = \<lparr>ane_timestamp_us = 0, ane_type = 0, ane_flags = 0, ane_payload_len = 0, ane_session_id = 0, ane_value = 0,
     ane_payload = replicate (ANALYTICS_MAX_PAYLOAD + 1) 0\<rparr>"

section \<open>Events on the wire\<close>

definition analytics_event_encoded_size :: "analytics_event option \<Rightarrow> nat" where
  "analytics_event_encoded_size event = (case event of None \<Rightarrow> 0 | Some e \<Rightarrow> ANALYTICS_HDR_SIZE + unat (ane_payload_len e))"

definition ane_bytes :: "analytics_event \<Rightarrow> u8 list" where
  "ane_bytes e = w32le ANALYTICS_MAGIC @ w64le (ane_timestamp_us e) @ [ucast (ane_type e), ane_flags e] @ w16le (ane_payload_len e)
     @ w64le (ane_session_id e) @ w64le (ane_value e) @ take (unat (ane_payload_len e)) (ane_payload e)"

fun analytics_event_encode :: "analytics_event option \<Rightarrow> u8 list option \<Rightarrow> int \<times> u8 list option" where
  "analytics_event_encode (Some e) (Some buf) =
     (let needed = analytics_event_encoded_size (Some e) in
      if length buf < needed then (-1, Some buf) else (int needed, Some (overwrite (ane_bytes e) buf)))"
| "analytics_event_encode e buf = (-1, buf)"

fun analytics_event_decode :: "u8 list option \<Rightarrow> analytics_event option \<Rightarrow> int \<times> analytics_event option" where
  "analytics_event_decode (Some buf) (Some event) =
     (if length buf < ANALYTICS_HDR_SIZE then (-1, Some event)
      else if r32le buf 0 \<noteq> ANALYTICS_MAGIC then (-1, Some event)
      else let e = analytics_event_zero\<lparr>ane_timestamp_us := r64le buf 4, ane_type := ucast (buf ! 12), ane_flags := buf ! 13,
               ane_payload_len := r16le buf 14, ane_session_id := r64le buf 16, ane_value := r64le buf 24\<rparr>;
             n = unat (ane_payload_len e) in
        if n > ANALYTICS_MAX_PAYLOAD then (-1, Some e)
        else if length buf < ANALYTICS_HDR_SIZE + n then (-1, Some e)
        else (0, Some (e\<lparr>ane_payload := (overwrite (take n (drop ANALYTICS_HDR_SIZE buf)) (ane_payload e))[n := 0]\<rparr>)))"
| "analytics_event_decode buf event = (-1, event)"

definition analytics_event_type_name :: "u32 \<Rightarrow> string" where
  "analytics_event_type_name type =
     (if type = ANALYTICS_VIEWER_JOIN then ''viewer_join'' else if type = ANALYTICS_VIEWER_LEAVE then ''viewer_leave''
      else if type = ANALYTICS_BITRATE_CHANGE then ''bitrate_change'' else if type = ANALYTICS_FRAME_DROP then ''frame_drop''
      else if type = ANALYTICS_QUALITY_ALERT then ''quality_alert'' else if type = ANALYTICS_SCENE_CHANGE then ''scene_change''
      else if type = ANALYTICS_STREAM_START then ''stream_start'' else if type = ANALYTICS_STREAM_STOP then ''stream_stop''
      else if type = ANALYTICS_LATENCY_SAMPLE then ''latency_sample'' else ''unknown'')"

definition ane_wf :: "analytics_event \<Rightarrow> bool" where
  "ane_wf e \<longleftrightarrow> unat (ane_payload_len e) \<le> ANALYTICS_MAX_PAYLOAD \<and> unat (ane_type e) < 256
     \<and> length (ane_payload e) = ANALYTICS_MAX_PAYLOAD + 1
     \<and> drop (unat (ane_payload_len e)) (ane_payload e) = replicate (ANALYTICS_MAX_PAYLOAD + 1 - unat (ane_payload_len e)) 0"

lemma length_ane_bytes: "ane_wf e \<Longrightarrow> length (ane_bytes e) = ANALYTICS_HDR_SIZE + unat (ane_payload_len e)"
  by (simp add: ane_bytes_def ane_wf_def ANALYTICS_HDR_SIZE_def)

lemma ane_decode_bytes:
  assumes "ane_wf e"
  shows "analytics_event_decode (Some (ane_bytes e @ rest)) (Some x) = (0, Some e)"
proof -
  let ?n = "unat (ane_payload_len e)" and ?b = "ane_bytes e @ rest"
  have n: "?n \<le> 128" "length (ane_payload e) = 129" using assms by (simp_all add: ane_wf_def ANALYTICS_MAX_PAYLOAD_def)
  have b: "?b = w32le ANALYTICS_MAGIC @ w64le (ane_timestamp_us e) @ ucast (ane_type e) # ane_flags e # w16le (ane_payload_len e)
     @ w64le (ane_session_id e) @ w64le (ane_value e) @ take ?n (ane_payload e) @ rest"
    by (simp add: ane_bytes_def)
  have len: "length ?b = 32 + ?n + length rest" unfolding b using n by simp
  have rd: "r32le ?b 0 = ANALYTICS_MAGIC" "r64le ?b 4 = ane_timestamp_us e" "r16le ?b 14 = ane_payload_len e" "r64le ?b 16 = ane_session_id e"
      "r64le ?b 24 = ane_value e" unfolding b by (simp_all add: wire_simps)
  have by12: "?b ! 12 = ucast (ane_type e)" "?b ! 13 = ane_flags e" unfolding b by (simp_all add: nth_append)
  have ty: "ucast (ucast (ane_type e) :: u8) = ane_type e" using assms by (intro ucast_u8_small) (simp add: ane_wf_def)
  have t: "take ?n (drop 32 ?b) = take ?n (ane_payload e)" unfolding b using n by simp
  have pl: "(overwrite (take ?n (ane_payload e)) (replicate (Suc 128) 0))[?n := 0] = ane_payload e"
    using assms by (intro zero_filled_copy) (simp_all add: ane_wf_def ANALYTICS_MAX_PAYLOAD_def)
  let ?e = "analytics_event_zero\<lparr>ane_timestamp_us := ane_timestamp_us e, ane_type := ane_type e, ane_flags := ane_flags e,
               ane_payload_len := ane_payload_len e, ane_session_id := ane_session_id e, ane_value := ane_value e\<rparr>"
  have "analytics_event_decode (Some ?b) (Some x) = (0, Some (?e\<lparr>ane_payload := (overwrite (take ?n (drop 32 ?b)) (ane_payload ?e))[?n := 0]\<rparr>))"
    unfolding analytics_event_decode.simps rd by12 ty Let_def using n len
    by (simp add: ANALYTICS_HDR_SIZE_def ANALYTICS_MAX_PAYLOAD_def)
  also have "?e\<lparr>ane_payload := (overwrite (take ?n (drop 32 ?b)) (ane_payload ?e))[?n := 0]\<rparr> = e"
    unfolding t using pl by (simp add: analytics_event_zero_def ANALYTICS_MAX_PAYLOAD_def)
  finally show ?thesis .
qed

definition ane_dec :: "u8 list \<Rightarrow> analytics_event option" where
  "ane_dec b = (case analytics_event_decode (Some b) (Some analytics_event_zero) of (r, e) \<Rightarrow> if r = 0 then e else None)"

interpretation ane: codec ane_wf ane_bytes ane_dec
  by unfold_locales (simp add: ane_dec_def ane_decode_bytes del: analytics_event_decode.simps)

section \<open>The ring\<close>

record analytics_ring =
  anr_buf :: "analytics_event list"
  anr_head :: nat
  anr_tail :: nat
  anr_count :: nat

definition analytics_ring_create :: "bool \<Rightarrow> analytics_ring option" where
  "analytics_ring_create mem = (if mem then Some \<lparr>anr_buf = replicate ANALYTICS_RING_CAPACITY analytics_event_zero, anr_head = 0, anr_tail = 0, anr_count = 0\<rparr> else None)"

definition analytics_ring_clear :: "analytics_ring option \<Rightarrow> analytics_ring option" where
  "analytics_ring_clear r = map_option (\<lambda>r. r\<lparr>anr_head := 0, anr_tail := 0, anr_count := 0\<rparr>) r"

definition analytics_ring_count :: "analytics_ring option \<Rightarrow> nat" where
  "analytics_ring_count r = (case r of None \<Rightarrow> 0 | Some r \<Rightarrow> anr_count r)"

definition analytics_ring_is_empty :: "analytics_ring option \<Rightarrow> bool" where
  "analytics_ring_is_empty r = (case r of None \<Rightarrow> True | Some r \<Rightarrow> anr_count r = 0)"

definition anr_drop :: "analytics_ring \<Rightarrow> analytics_ring" where
  "anr_drop r = r\<lparr>anr_head := (anr_head r + 1) mod ANALYTICS_RING_CAPACITY, anr_count := anr_count r - 1\<rparr>"

fun analytics_ring_push :: "analytics_ring option \<Rightarrow> analytics_event option \<Rightarrow> int \<times> analytics_ring option" where
  "analytics_ring_push (Some r) (Some e) =
     (let r = (if anr_count r = ANALYTICS_RING_CAPACITY then anr_drop r else r) in
      (0, Some (r\<lparr>anr_buf := (anr_buf r)[anr_tail r := e], anr_tail := (anr_tail r + 1) mod ANALYTICS_RING_CAPACITY, anr_count := anr_count r + 1\<rparr>)))"
| "analytics_ring_push r e = (-1, r)"

fun analytics_ring_pop :: "analytics_ring option \<Rightarrow> analytics_event option \<Rightarrow> int \<times> analytics_event option \<times> analytics_ring option" where
  "analytics_ring_pop (Some r) (Some out) =
     (if anr_count r = 0 then (-1, Some out, Some r) else (0, Some (anr_buf r ! anr_head r), Some (anr_drop r)))"
| "analytics_ring_pop r out = (-1, out, r)"

fun analytics_ring_peek :: "analytics_ring option \<Rightarrow> analytics_event option \<Rightarrow> int \<times> analytics_event option" where
  "analytics_ring_peek (Some r) (Some out) = (if anr_count r = 0 then (-1, Some out) else (0, Some (anr_buf r ! anr_head r)))"
| "analytics_ring_peek r out = (-1, out)"

fun anr_drain :: "nat \<Rightarrow> analytics_ring \<Rightarrow> analytics_event list \<times> analytics_ring" where
  "anr_drain 0 r = ([], r)"
| "anr_drain (Suc room) r = (if anr_count r > 0 then
     (case anr_drain room (anr_drop r) of (es, r') \<Rightarrow> (anr_buf r ! anr_head r # es, r')) else ([], r))"

fun analytics_ring_drain :: "analytics_ring option \<Rightarrow> analytics_event list option \<Rightarrow> nat \<Rightarrow> nat \<times> analytics_event list option \<times> analytics_ring option" where
  "analytics_ring_drain (Some r) (Some out) max_events =
     (if max_events = 0 then (0, Some out, Some r)
      else case anr_drain max_events r of (es, r) \<Rightarrow> (length es, Some (overwrite es out), Some r))"
| "analytics_ring_drain r out max_events = (0, out, r)"

text \<open>The ring as a queue that forgets its oldest events.\<close>

datatype anr_op = AnrPush analytics_event | AnrPop | AnrPeek | AnrDrain nat | AnrCount | AnrClear

datatype anr_ans = AnrInt int | AnrGot int "analytics_event option" | AnrEvents nat "analytics_event list option" | AnrNone

fun anr_call :: "anr_op \<Rightarrow> analytics_ring \<Rightarrow> anr_ans \<times> analytics_ring" where
  "anr_call (AnrPush e) r = (case analytics_ring_push (Some r) (Some e) of (c, r) \<Rightarrow> (AnrInt c, the r))"
| "anr_call AnrPop r = (case analytics_ring_pop (Some r) (Some analytics_event_zero) of (c, e, r) \<Rightarrow> (AnrGot c e, the r))"
| "anr_call AnrPeek r = (case analytics_ring_peek (Some r) (Some analytics_event_zero) of (c, e) \<Rightarrow> (AnrGot c e, r))"
| "anr_call (AnrDrain n) r = (case analytics_ring_drain (Some r) (Some (replicate n analytics_event_zero)) n of (k, es, r) \<Rightarrow> (AnrEvents k es, the r))"
| "anr_call AnrCount r = (AnrInt (int (analytics_ring_count (Some r))), r)"
| "anr_call AnrClear r = (AnrNone, the (analytics_ring_clear (Some r)))"

fun anr_spec :: "anr_op \<Rightarrow> analytics_event list \<Rightarrow> anr_ans \<times> analytics_event list" where
  "anr_spec (AnrPush e) L = (AnrInt 0, (if length L < ANALYTICS_RING_CAPACITY then L else tl L) @ [e])"
| "anr_spec AnrPop L = (case L of [] \<Rightarrow> (AnrGot (-1) (Some analytics_event_zero), []) | e # L' \<Rightarrow> (AnrGot 0 (Some e), L'))"
| "anr_spec AnrPeek L = (case L of [] \<Rightarrow> (AnrGot (-1) (Some analytics_event_zero), L) | e # L' \<Rightarrow> (AnrGot 0 (Some e), L))"
| "anr_spec (AnrDrain n) L = (AnrEvents (min n (length L)) (Some (overwrite (take n L) (replicate n analytics_event_zero))), drop n L)"
| "anr_spec AnrCount L = (AnrInt (int (length L)), L)"
| "anr_spec AnrClear L = (AnrNone, [])"

definition anr_rel :: "analytics_ring \<Rightarrow> analytics_event list \<Rightarrow> bool" where
  "anr_rel r L \<longleftrightarrow> length (anr_buf r) = ANALYTICS_RING_CAPACITY \<and> anr_head r < ANALYTICS_RING_CAPACITY
     \<and> anr_count r \<le> ANALYTICS_RING_CAPACITY \<and> anr_tail r = (anr_head r + anr_count r) mod ANALYTICS_RING_CAPACITY
     \<and> L = ring_items ANALYTICS_RING_CAPACITY (anr_buf r) (anr_head r) (anr_count r)"

lemma ANALYTICS_RING_pos: "0 < ANALYTICS_RING_CAPACITY"
  by (simp add: ANALYTICS_RING_CAPACITY_def)

lemma anr_length: "anr_rel r L \<Longrightarrow> length L = anr_count r"
  by (simp add: anr_rel_def)

lemma anr_drop_rel:
  assumes "anr_rel r L" and "0 < anr_count r"
  shows "anr_rel (anr_drop r) (tl L) \<and> anr_buf r ! anr_head r = hd L \<and> L \<noteq> []"
proof -
  have "((anr_head r + 1) mod ANALYTICS_RING_CAPACITY + (anr_count r - 1)) mod ANALYTICS_RING_CAPACITY = (anr_head r + anr_count r) mod ANALYTICS_RING_CAPACITY"
    using assms(2) by (cases "anr_count r") (simp_all add: mod_add_left_eq)
  then show ?thesis
    using assms ring_items_tl [of "anr_head r" ANALYTICS_RING_CAPACITY "anr_count r" "anr_buf r"]
      ring_items_hd [of "anr_head r" ANALYTICS_RING_CAPACITY "anr_count r" "anr_buf r"] ANALYTICS_RING_pos
    by (auto simp: anr_rel_def anr_drop_def simp flip: length_greater_0_conv)
qed

lemma anr_put_rel:
  assumes "anr_rel r L" and "anr_count r < ANALYTICS_RING_CAPACITY"
  shows "anr_rel (r\<lparr>anr_buf := (anr_buf r)[anr_tail r := e], anr_tail := (anr_tail r + 1) mod ANALYTICS_RING_CAPACITY, anr_count := anr_count r + 1\<rparr>) (L @ [e])"
  using assms ring_items_push [of "anr_head r" ANALYTICS_RING_CAPACITY "anr_count r" "anr_buf r" e]
  by (simp add: anr_rel_def mod_Suc_eq)

lemma anr_push_rel:
  assumes "anr_rel r L"
  shows "fst (anr_call (AnrPush e) r) = fst (anr_spec (AnrPush e) L) \<and> anr_rel (snd (anr_call (AnrPush e) r)) (snd (anr_spec (AnrPush e) L))"
proof (cases "anr_count r = ANALYTICS_RING_CAPACITY")
  case True
  then have d: "anr_rel (anr_drop r) (tl L)" "anr_count (anr_drop r) < ANALYTICS_RING_CAPACITY"
    using anr_drop_rel [OF assms] ANALYTICS_RING_pos by (simp_all add: anr_drop_def)
  show ?thesis using anr_put_rel [OF d, of e] True anr_length [OF assms] by (simp add: Let_def)
next
  case False
  then have c: "anr_count r < ANALYTICS_RING_CAPACITY" using assms by (simp add: anr_rel_def)
  show ?thesis using anr_put_rel [OF assms c, of e] False c anr_length [OF assms] by (simp add: Let_def)
qed

lemma anr_drain_rel:
  "anr_rel r L \<Longrightarrow> fst (anr_drain n r) = take n L \<and> anr_rel (snd (anr_drain n r)) (drop n L)"
proof (induction n arbitrary: r L)
  case (Suc n)
  show ?case
  proof (cases "anr_count r")
    case 0
    then show ?thesis using Suc.prems anr_length [OF Suc.prems] by simp
  next
    case (Suc k)
    then have d: "anr_rel (anr_drop r) (tl L)" "anr_buf r ! anr_head r = hd L" "L \<noteq> []"
      using anr_drop_rel [OF \<open>anr_rel r L\<close>] by simp_all
    then show ?thesis using Suc.IH [OF d(1)] Suc by (cases L) (auto split: prod.split)
  qed
qed simp

interpretation anr: simulation anr_call anr_spec anr_rel "\<lambda>_. True"
proof
  fix r L and op :: anr_op
  assume r: "anr_rel r L"
  show "fst (anr_call op r) = fst (anr_spec op L) \<and> anr_rel (snd (anr_call op r)) (snd (anr_spec op L))"
  proof (cases op)
    case (AnrPush e)
    then show ?thesis using anr_push_rel [OF r, of e] by (simp only:)
  next
    case AnrPop
    then show ?thesis using r anr_drop_rel [OF r] anr_length [OF r] by (cases L) auto
  next
    case AnrPeek
    then show ?thesis using r anr_drop_rel [OF r] anr_length [OF r] by (cases L) auto
  next
    case (AnrDrain n)
    then show ?thesis using r anr_drain_rel [OF r, of n]
      by (cases "anr_drain n r") (simp add: overwrite_def min.commute)
  next
    case AnrClear
    then show ?thesis using r ANALYTICS_RING_pos by (simp add: anr_rel_def analytics_ring_clear_def)
  qed (use r anr_length [OF r] in \<open>simp add: analytics_ring_count_def\<close>)
qed

text \<open>Under any calls the ring is a queue of the last 1024 events pushed: pop, peek and drain give the oldest ones, in order, and a push
  onto a full ring forgets the oldest event and no other.\<close>

theorem analytics_ring_refines_queue:
  assumes "analytics_ring_create mem = Some r"
  shows "fst (run_calls anr_call ops r) = fst (run_calls anr_spec ops [])"
proof -
  have "anr_rel r []"
    using assms ANALYTICS_RING_pos by (auto simp: analytics_ring_create_def anr_rel_def split: if_splits)
  then show ?thesis using anr.run [of r "[]" ops] by simp
qed

lemma analytics_ring_refines_queue_witness:
  "fst (run_calls anr_call [AnrPush (analytics_event_zero\<lparr>ane_value := 3\<rparr>), AnrPush (analytics_event_zero\<lparr>ane_value := 4\<rparr>), AnrPop, AnrPeek, AnrCount]
      (the (analytics_ring_create True)))
    = [AnrInt 0, AnrInt 0, AnrGot 0 (Some (analytics_event_zero\<lparr>ane_value := 3\<rparr>)), AnrGot 0 (Some (analytics_event_zero\<lparr>ane_value := 4\<rparr>)), AnrInt 1]"
  by (subst analytics_ring_refines_queue [where mem = True])
    (simp_all add: analytics_ring_create_def ANALYTICS_RING_CAPACITY_def del: replicate.simps)

section \<open>Statistics\<close>

record 'f double_ops =
  d_zero :: 'f
  d_of_u64 :: "u64 \<Rightarrow> 'f"
  d_add :: "'f \<Rightarrow> 'f \<Rightarrow> 'f"
  d_sub :: "'f \<Rightarrow> 'f \<Rightarrow> 'f"
  d_div :: "'f \<Rightarrow> 'f \<Rightarrow> 'f"

record 'f analytics_stats =
  ans_stream_start_us :: u64
  ans_stream_stop_us :: u64
  ans_total_viewer_joins :: u64
  ans_total_viewer_leaves :: u64
  ans_current_viewers :: u64
  ans_peak_viewers :: u64
  ans_total_frame_drops :: u64
  ans_quality_alerts :: u64
  ans_scene_changes :: u64
  ans_latency_samples :: u64
  ans_avg_latency_us :: 'f
  ans_avg_bitrate_kbps :: 'f
  ans_bitrate_samples :: u64

definition analytics_stats_zero :: "'f double_ops \<Rightarrow> 'f analytics_stats" where
  "analytics_stats_zero D = \<lparr>ans_stream_start_us = 0, ans_stream_stop_us = 0, ans_total_viewer_joins = 0, ans_total_viewer_leaves = 0,
     ans_current_viewers = 0, ans_peak_viewers = 0, ans_total_frame_drops = 0, ans_quality_alerts = 0, ans_scene_changes = 0,
     ans_latency_samples = 0, ans_avg_latency_us = d_zero D, ans_avg_bitrate_kbps = d_zero D, ans_bitrate_samples = 0\<rparr>"

definition analytics_stats_create :: "'f double_ops \<Rightarrow> bool \<Rightarrow> 'f analytics_stats option" where
  "analytics_stats_create D mem = (if mem then Some (analytics_stats_zero D) else None)"

definition analytics_stats_reset :: "'f double_ops \<Rightarrow> 'f analytics_stats option \<Rightarrow> 'f analytics_stats option" where
  "analytics_stats_reset D ctx = map_option (\<lambda>_. analytics_stats_zero D) ctx"

definition running_mean :: "'f double_ops \<Rightarrow> 'f \<Rightarrow> u64 \<Rightarrow> u64 \<Rightarrow> 'f" where
  "running_mean D avg samples v = d_add D avg (d_div D (d_sub D (d_of_u64 D v) avg) (d_of_u64 D samples))"

text \<open>\<open>current_viewers\<close> is a signed number.\<close>

definition analytics_ingest :: "'f double_ops \<Rightarrow> analytics_event \<Rightarrow> 'f analytics_stats \<Rightarrow> 'f analytics_stats" where
  "analytics_ingest D e s =
     (if ane_type e = ANALYTICS_STREAM_START then s\<lparr>ans_stream_start_us := ane_timestamp_us e, ans_scene_changes := 0\<rparr>
      else if ane_type e = ANALYTICS_STREAM_STOP then s\<lparr>ans_stream_stop_us := ane_timestamp_us e\<rparr>
      else if ane_type e = ANALYTICS_VIEWER_JOIN then
        let s = s\<lparr>ans_total_viewer_joins := ans_total_viewer_joins s + 1, ans_current_viewers := ans_current_viewers s + 1\<rparr> in
        if ans_current_viewers s > ans_peak_viewers s then s\<lparr>ans_peak_viewers := ans_current_viewers s\<rparr> else s
      else if ane_type e = ANALYTICS_VIEWER_LEAVE then
        let s = s\<lparr>ans_total_viewer_leaves := ans_total_viewer_leaves s + 1\<rparr> in
        if sint (ans_current_viewers s) > 0 then s\<lparr>ans_current_viewers := ans_current_viewers s - 1\<rparr> else s
      else if ane_type e = ANALYTICS_FRAME_DROP then s\<lparr>ans_total_frame_drops := ans_total_frame_drops s + ane_value e\<rparr>
      else if ane_type e = ANALYTICS_QUALITY_ALERT then s\<lparr>ans_quality_alerts := ans_quality_alerts s + 1\<rparr>
      else if ane_type e = ANALYTICS_SCENE_CHANGE then s\<lparr>ans_scene_changes := ans_scene_changes s + 1\<rparr>
      else if ane_type e = ANALYTICS_LATENCY_SAMPLE then
        let s = s\<lparr>ans_latency_samples := ans_latency_samples s + 1\<rparr> in
        s\<lparr>ans_avg_latency_us := running_mean D (ans_avg_latency_us s) (ans_latency_samples s) (ane_value e)\<rparr>
      else if ane_type e = ANALYTICS_BITRATE_CHANGE then
        let s = s\<lparr>ans_bitrate_samples := ans_bitrate_samples s + 1\<rparr> in
        s\<lparr>ans_avg_bitrate_kbps := running_mean D (ans_avg_bitrate_kbps s) (ans_bitrate_samples s) (ane_value e)\<rparr>
      else s)"

fun analytics_stats_ingest :: "'f double_ops \<Rightarrow> 'f analytics_stats option \<Rightarrow> analytics_event option \<Rightarrow> int \<times> 'f analytics_stats option" where
  "analytics_stats_ingest D (Some s) (Some e) = (0, Some (analytics_ingest D e s))"
| "analytics_stats_ingest D ctx e = (-1, ctx)"

fun analytics_stats_snapshot :: "'f analytics_stats option \<Rightarrow> 'f analytics_stats option \<Rightarrow> int \<times> 'f analytics_stats option" where
  "analytics_stats_snapshot (Some s) (Some out) = (0, Some s)"
| "analytics_stats_snapshot ctx out = (-1, out)"

text \<open>What the counters mean, for a history of events.  A viewer who leaves when nobody is there is not counted below zero.\<close>

definition has_type :: "u32 \<Rightarrow> analytics_event \<Rightarrow> bool" where
  "has_type t e \<longleftrightarrow> ane_type e = t"

fun viewers_after :: "analytics_event list \<Rightarrow> nat \<Rightarrow> nat" where
  "viewers_after [] n = n"
| "viewers_after (e # es) n = viewers_after es (if has_type ANALYTICS_VIEWER_JOIN e then n + 1 else if has_type ANALYTICS_VIEWER_LEAVE e then n - 1 else n)"

lemma viewers_after_snoc: "viewers_after (es @ [e]) n = (let k = viewers_after es n in
    if has_type ANALYTICS_VIEWER_JOIN e then k + 1 else if has_type ANALYTICS_VIEWER_LEAVE e then k - 1 else k)"
  by (induction es arbitrary: n) (simp_all add: Let_def)

lemma viewers_after_le: "viewers_after es n \<le> n + length es"
proof (induction es arbitrary: n)
  case (Cons e es)
  have "viewers_after (e # es) n \<le> (if has_type ANALYTICS_VIEWER_JOIN e then n + 1 else if has_type ANALYTICS_VIEWER_LEAVE e then n - 1 else n) + length es"
    using Cons.IH by simp
  then show ?case by (auto split: if_splits)
qed simp

fun peak_after :: "analytics_event list \<Rightarrow> nat" where
  "peak_after es = Max (set (map (\<lambda>k. viewers_after (take k es) 0) [0..<Suc (length es)]))"

definition since_start :: "analytics_event list \<Rightarrow> analytics_event list" where
  "since_start es = rev (takeWhile (\<lambda>e. \<not> has_type ANALYTICS_STREAM_START e) (rev es))"

lemma peak_after_snoc: "peak_after (es @ [e]) = max (peak_after es) (viewers_after (es @ [e]) 0)"
proof -
  have "map (\<lambda>k. viewers_after (take k (es @ [e])) 0) [0..<Suc (length (es @ [e]))]
      = map (\<lambda>k. viewers_after (take k es) 0) [0..<Suc (length es)] @ [viewers_after (es @ [e]) 0]"
    by simp
  then have "set (map (\<lambda>k. viewers_after (take k (es @ [e])) 0) [0..<Suc (length (es @ [e]))])
      = insert (viewers_after (es @ [e]) 0) (set (map (\<lambda>k. viewers_after (take k es) 0) [0..<Suc (length es)]))" by auto
  then show ?thesis unfolding peak_after.simps by (simp only:) (subst Max_insert, auto)
qed

lemma peak_after_le: "peak_after es \<le> length es"
proof (induction es rule: rev_induct)
  case (snoc e es)
  then show ?case using viewers_after_le [of "es @ [e]" 0] by (simp add: peak_after_snoc del: peak_after.simps)
qed simp

definition ingest_all :: "'f double_ops \<Rightarrow> analytics_event list \<Rightarrow> 'f analytics_stats" where
  "ingest_all D es = fold (analytics_ingest D) es (analytics_stats_zero D)"

lemma ingest_all_snoc: "ingest_all D (es @ [e]) = analytics_ingest D e (ingest_all D es)"
  by (simp add: ingest_all_def)

lemma of_nat_u64: "n < 2 ^ 63 \<Longrightarrow> unat (of_nat n :: u64) = n \<and> sint (of_nat n :: u64) = int n"
proof -
  assume n: "n < 2 ^ 63"
  then have u: "unat (of_nat n :: u64) = n" by (intro unat_of_nat_less) simp
  then have "sint (of_nat n :: u64) = int n"
    using n by (simp add: signed_of_nat signed_take_bit_int_eq_self)
  with u show ?thesis by simp
qed

lemma analytics_totals:
  assumes "length es < 2 ^ 63"
  shows "ans_total_viewer_joins (ingest_all D es) = of_nat (count_if (has_type ANALYTICS_VIEWER_JOIN) es)
    \<and> ans_total_viewer_leaves (ingest_all D es) = of_nat (count_if (has_type ANALYTICS_VIEWER_LEAVE) es)
    \<and> ans_current_viewers (ingest_all D es) = of_nat (viewers_after es 0) \<and> ans_peak_viewers (ingest_all D es) = of_nat (peak_after es)
    \<and> ans_total_frame_drops (ingest_all D es) = sum_list (map ane_value (filter (has_type ANALYTICS_FRAME_DROP) es))
    \<and> ans_quality_alerts (ingest_all D es) = of_nat (count_if (has_type ANALYTICS_QUALITY_ALERT) es)
    \<and> ans_scene_changes (ingest_all D es) = of_nat (count_if (has_type ANALYTICS_SCENE_CHANGE) (since_start es))"
  using assms
proof (induction es rule: rev_induct)
  case Nil
  then show ?case by (simp add: ingest_all_def analytics_stats_zero_def since_start_def)
next
  case (snoc e es)
  let ?v = "viewers_after es 0"
  have v: "?v < 2 ^ 63" "Suc ?v < 2 ^ 63 + 1" "peak_after es < 2 ^ 63" using viewers_after_le [of es 0] peak_after_le [of es] snoc.prems by (simp_all del: peak_after.simps)
  have l: "length es < 2 ^ 63" using snoc.prems by simp
  note ih = snoc.IH [OF l]
  note ne = analytics_types_distinct [simplified]
  have cur: "(ans_current_viewers (ingest_all D es) + 1 > ans_peak_viewers (ingest_all D es)) = (?v + 1 > peak_after es)"
  proof -
    have c: "ans_current_viewers (ingest_all D es) = of_nat ?v" "ans_peak_viewers (ingest_all D es) = of_nat (peak_after es)" using ih by blast+
    have "unat (of_nat (?v + 1) :: u64) = ?v + 1" using v(1) by (intro unat_of_nat_less) simp
    moreover have "unat (of_nat (peak_after es) :: u64) = peak_after es" using of_nat_u64 [OF v(3)] ..
    moreover have "of_nat ?v + 1 = (of_nat (?v + 1) :: u64)" by simp
    ultimately show ?thesis unfolding c word_less_nat_alt by (simp only:)
  qed
  have pos: "(sint (ans_current_viewers (ingest_all D es)) > 0) = (?v > 0)" using ih of_nat_u64 [OF v(1)] by (metis of_nat_0_less_iff)
  have sub: "0 < ?v \<Longrightarrow> (of_nat ?v :: u64) - 1 = of_nat (?v - 1)" by (simp add: of_nat_diff)
  have rest: "since_start (es @ [e]) = (if has_type ANALYTICS_STREAM_START e then [] else since_start es @ [e])"
    by (simp add: since_start_def)
  have cnt: "count_if P (xs @ [e]) = count_if P xs + (if P e then 1 else 0)" for P and xs :: "analytics_event list"
    by (simp add: count_if_def)
  have peak: "peak_after (es @ [e]) = (if has_type ANALYTICS_VIEWER_JOIN e \<and> ?v + 1 > peak_after es then ?v + 1 else peak_after es)"
  proof -
    have "?v \<le> peak_after es" by (cases es rule: rev_cases) (auto simp: peak_after_snoc simp del: peak_after.simps)
    then show ?thesis by (auto simp: peak_after_snoc viewers_after_snoc Let_def simp del: peak_after.simps)
  qed
  consider "ane_type e = ANALYTICS_STREAM_START" | "ane_type e = ANALYTICS_VIEWER_JOIN" | "ane_type e = ANALYTICS_VIEWER_LEAVE"
    | "ane_type e = ANALYTICS_FRAME_DROP" | "ane_type e = ANALYTICS_QUALITY_ALERT" | "ane_type e = ANALYTICS_SCENE_CHANGE"
    | "ane_type e \<notin> {ANALYTICS_STREAM_START, ANALYTICS_VIEWER_JOIN, ANALYTICS_VIEWER_LEAVE, ANALYTICS_FRAME_DROP, ANALYTICS_QUALITY_ALERT, ANALYTICS_SCENE_CHANGE}"
    by blast
  then show ?case
  proof cases
    case 1
    then show ?thesis using ih ne unfolding ingest_all_snoc
      by (simp add: analytics_ingest_def peak rest cnt has_type_def viewers_after_snoc del: peak_after.simps)
  next
    case 2
    then show ?thesis using ih cur ne unfolding ingest_all_snoc
      by (auto simp: analytics_ingest_def peak rest cnt has_type_def viewers_after_snoc Let_def add.commute simp del: peak_after.simps)
  next
    case 3
    then show ?thesis using ih pos sub ne unfolding ingest_all_snoc
      by (auto simp: analytics_ingest_def peak rest cnt has_type_def viewers_after_snoc Let_def simp del: peak_after.simps)
  next
    case 4
    then show ?thesis using ih ne unfolding ingest_all_snoc
      by (simp add: analytics_ingest_def peak rest cnt has_type_def viewers_after_snoc del: peak_after.simps)
  next
    case 5
    then show ?thesis using ih ne unfolding ingest_all_snoc
      by (simp add: analytics_ingest_def peak rest cnt has_type_def viewers_after_snoc del: peak_after.simps)
  next
    case 6
    then show ?thesis using ih ne unfolding ingest_all_snoc
      by (simp add: analytics_ingest_def peak rest cnt has_type_def viewers_after_snoc del: peak_after.simps)
  next
    case 7
    then show ?thesis using ih ne unfolding ingest_all_snoc
      by (auto simp: analytics_ingest_def peak rest cnt has_type_def viewers_after_snoc Let_def simp del: peak_after.simps)
  qed
qed

section \<open>Export of events\<close>

definition ane_json :: "bool \<Rightarrow> analytics_event \<Rightarrow> string" where
  "ane_json first e = (if first then [] else '','') @ ''{'' @ json_field ''ts'' (dec (unat (ane_timestamp_us e)))
     @ '','' @ json_field ''type'' (quoted (analytics_event_type_name (ane_type e)))
     @ '','' @ json_field ''session'' (dec (unat (ane_session_id e))) @ '','' @ json_field ''value'' (dec (unat (ane_value e)))
     @ '','' @ json_field ''payload'' (quoted (bytes_cstr (ane_payload e))) @ ''}''"

definition ane_json_pieces :: "analytics_event list \<Rightarrow> string list" where
  "ane_json_pieces es = [''[''] @ map (\<lambda>i. ane_json (i = 0) (es ! i)) [0..<length es] @ ['']'']"

fun analytics_export_events_json :: "analytics_event list option \<Rightarrow> string option \<Rightarrow> nat \<Rightarrow> int \<times> string option" where
  "analytics_export_events_json (Some events) (Some buf) buf_sz =
     (if buf_sz = 0 then (-1, Some buf)
      else if events = [] then (if buf_sz < 3 then (-1, Some buf) else (2, Some ''[]''))
      else case cf_result (cf_appends buf_sz (ane_json_pieces events) []) of (n, text) \<Rightarrow> (n, Some text))"
| "analytics_export_events_json events buf buf_sz = (-1, buf)"

definition ane_csv_head :: string where
  "ane_csv_head = ''timestamp_us,type,session_id,value,payload'' @ nl"

definition ane_csv :: "analytics_event \<Rightarrow> string" where
  "ane_csv e = dec (unat (ane_timestamp_us e)) @ '','' @ analytics_event_type_name (ane_type e) @ '','' @ dec (unat (ane_session_id e))
     @ '','' @ dec (unat (ane_value e)) @ '','' @ bytes_cstr (ane_payload e) @ nl"

fun analytics_export_events_csv :: "analytics_event list option \<Rightarrow> string option \<Rightarrow> nat \<Rightarrow> int \<times> string option" where
  "analytics_export_events_csv (Some events) (Some buf) buf_sz =
     (if buf_sz = 0 then (-1, Some buf)
      else case cf_result (cf_appends buf_sz (ane_csv_head # map ane_csv events) []) of (n, text) \<Rightarrow> (n, Some text))"
| "analytics_export_events_csv events buf buf_sz = (-1, buf)"

text \<open>Both exports succeed exactly when the whole text fits, and the text of one event after the other is what they print.\<close>

lemma analytics_export_csv:
  "0 < sz \<Longrightarrow> analytics_export_events_csv (Some es) (Some buf) sz =
    (let text = ane_csv_head @ concat (map ane_csv es) in
     if length text < sz then (int (length text), Some text) else (-1, Some (take (sz - 1) text)))"
  using cf_appends_fits [of "[]" "ane_csv_head # map ane_csv es" sz] cf_appends_full [of "[]" sz "ane_csv_head # map ane_csv es"]
  by (auto simp: cf_result_def Let_def not_less)

lemma analytics_export_json_iff:
  "0 < sz \<Longrightarrow> fst (analytics_export_events_json (Some es) (Some buf) sz) = -1 \<longleftrightarrow> sz \<le> length (concat (ane_json_pieces es))"
  using cf_result_iff [of sz "ane_json_pieces es"] by (cases es) (auto simp: ane_json_pieces_def case_prod_beta)

text \<open>A payload is printed as it is: one with a newline adds a line to the CSV.\<close>

lemma analytics_csv_ambiguous:
  assumes "bytes_cstr (ane_payload e) = p @ butlast (nl @ ane_csv e')" and "bytes_cstr (ane_payload e'') = p"
    and "e'' = e\<lparr>ane_payload := ane_payload e''\<rparr>"
  shows "ane_csv e = ane_csv e'' @ ane_csv e'"
proof -
  have f: "ane_timestamp_us e'' = ane_timestamp_us e" "ane_type e'' = ane_type e" "ane_session_id e'' = ane_session_id e" "ane_value e'' = ane_value e"
    by (subst assms(3), simp)+
  have "butlast (nl @ ane_csv e') @ nl = nl @ ane_csv e'" by (simp add: ane_csv_def nl_def butlast_append)
  then show ?thesis unfolding ane_csv_def [of e] ane_csv_def [of e''] f assms(1,2) by simp
qed

end
