(* ===== verification/Pixels.thy ===== *)
theory Pixels
  imports Wire
begin

text \<open>
  Drawing into a frame of RGBA pixels, as the caption and annotation renderers share it: a source pixel laid over a pixel of
  the frame, clipped at the borders.  The floating-point part of the blend is a parameter; an access outside the frame is
  recorded as a fault.
\<close>

section \<open>Pixels\<close>

record caption_frame =
  cpf_pixels :: "u8 list"
  cpf_fault :: bool

text \<open>The two float expressions of \<^verbatim>\<open>blend\<close>: a colour channel, and the alpha channel, under a partial alpha.\<close>

record blend_ops =
  bl_channel :: "u8 \<Rightarrow> u8 \<Rightarrow> u8 \<Rightarrow> u8"
  bl_alpha :: "u8 \<Rightarrow> u8 \<Rightarrow> u8"

type_synonym colour = "u8 \<times> u8 \<times> u8 \<times> u8"

definition cpf_set :: "int \<Rightarrow> u8 list \<Rightarrow> caption_frame \<Rightarrow> caption_frame" where
  "cpf_set off bs f = (if 0 \<le> off \<and> nat off + length bs \<le> length (cpf_pixels f) then f\<lparr>cpf_pixels := write_at (nat off) bs (cpf_pixels f)\<rparr>
     else f\<lparr>cpf_fault := True\<rparr>)"

fun blend :: "blend_ops \<Rightarrow> int \<Rightarrow> colour \<Rightarrow> caption_frame \<Rightarrow> caption_frame" where
  "blend B off (r, g, b, a) f =
     (if a = 0 then f
      else if a = 255 then cpf_set off [r, g, b, 255] f
      else if 0 \<le> off \<and> nat off + 4 \<le> length (cpf_pixels f) then
        (let p = (\<lambda>k. cpf_pixels f ! (nat off + k)) in
         cpf_set off [bl_channel B a r (p 0), bl_channel B a g (p 1), bl_channel B a b (p 2), bl_alpha B a (p 3)] f)
      else f\<lparr>cpf_fault := True\<rparr>)"

record draw_target =
  dwt_width :: int
  dwt_height :: int
  dwt_stride :: int

definition draw_pixel :: "blend_ops \<Rightarrow> draw_target \<Rightarrow> colour \<Rightarrow> int \<Rightarrow> int \<Rightarrow> caption_frame \<Rightarrow> caption_frame" where
  "draw_pixel B T c x y f = (if x < 0 \<or> x \<ge> dwt_width T \<or> y < 0 \<or> y \<ge> dwt_height T then f else blend B (y * dwt_stride T + x * 4) c f)"

definition argb :: "u32 \<Rightarrow> colour" where
  "argb c = (ucast (drop_bit 16 c), ucast (drop_bit 8 c), ucast c, ucast (drop_bit 24 c))"

section \<open>Drawing stays in the frame\<close>

text \<open>Byte \<open>i\<close> of a frame belongs to a visible pixel.\<close>

definition visible_byte :: "draw_target \<Rightarrow> nat \<Rightarrow> bool" where
  "visible_byte T i \<longleftrightarrow> (\<exists>y x k. y < nat (dwt_height T) \<and> x < nat (dwt_width T) \<and> k < 4 \<and> i = y * nat (dwt_stride T) + x * 4 + k)"

definition target_fits :: "draw_target \<Rightarrow> nat \<Rightarrow> bool" where
  "target_fits T n \<longleftrightarrow> 0 < dwt_width T \<and> 0 < dwt_height T \<and> dwt_width T * 4 \<le> dwt_stride T \<and> dwt_height T * dwt_stride T \<le> int n"

definition drawn_inside :: "draw_target \<Rightarrow> u8 list \<Rightarrow> caption_frame \<Rightarrow> bool" where
  "drawn_inside T px f \<longleftrightarrow> \<not> cpf_fault f \<and> length (cpf_pixels f) = length px \<and> (\<forall>i. \<not> visible_byte T i \<longrightarrow> cpf_pixels f ! i = px ! i)"

lemma fold_keeps: "P s \<Longrightarrow> (\<And>x s. x \<in> set xs \<Longrightarrow> P s \<Longrightarrow> P (g x s)) \<Longrightarrow> P (fold g xs s)"
  by (induction xs arbitrary: s) auto

lemma cpf_set_inside:
  assumes "drawn_inside T px f" and "off = int n" and "n + 4 \<le> length px" and "length bs = 4" and "\<forall>k<4. visible_byte T (n + k)"
  shows "drawn_inside T px (cpf_set off bs f)"
proof -
  have "cpf_pixels (cpf_set off bs f) ! i = px ! i" if "\<not> visible_byte T i" for i
  proof -
    have "\<not> (n \<le> i \<and> i < n + 4)" using assms(5) that by (metis le_add_diff_inverse nat_add_left_cancel_less)
    then show ?thesis using assms that by (auto simp: cpf_set_def drawn_inside_def write_at_def nth_append)
  qed
  then show ?thesis using assms by (simp add: cpf_set_def drawn_inside_def)
qed

lemma pixel_fits:
  assumes "target_fits T n" and "0 \<le> x" "x < dwt_width T" "0 \<le> y" "y < dwt_height T"
  obtains m where "y * dwt_stride T + x * 4 = int m" "m + 4 \<le> n" "\<forall>k<4. visible_byte T (m + k)"
proof
  let ?m = "nat y * nat (dwt_stride T) + nat x * 4"
  have w: "0 < dwt_width T" "dwt_width T * 4 \<le> dwt_stride T" "dwt_height T * dwt_stride T \<le> int n" using assms(1) by (auto simp: target_fits_def)
  show m: "y * dwt_stride T + x * 4 = int ?m" using assms(2,4) w by simp
  have "(y + 1) * dwt_stride T \<le> dwt_height T * dwt_stride T" using assms(5) w by (intro mult_right_mono) auto
  then have "y * dwt_stride T + x * 4 + 4 \<le> int n" using w assms(3) by (simp add: distrib_right)
  then show "?m + 4 \<le> n" unfolding m by linarith
  show "\<forall>k<4. visible_byte T (?m + k)" unfolding visible_byte_def
  proof (intro allI impI)
    fix k :: nat assume "k < 4"
    then show "\<exists>y' x' k'. y' < nat (dwt_height T) \<and> x' < nat (dwt_width T) \<and> k' < 4 \<and> ?m + k = y' * nat (dwt_stride T) + x' * 4 + k'"
      using assms(2-5) by (intro exI [of _ "nat y"] exI [of _ "nat x"] exI [of _ k]) auto
  qed
qed

lemma draw_pixel_inside:
  assumes "target_fits T (length px)" and "drawn_inside T px f"
  shows "drawn_inside T px (draw_pixel B T c x y f)"
proof (cases "x < 0 \<or> x \<ge> dwt_width T \<or> y < 0 \<or> y \<ge> dwt_height T")
  case False
  then obtain m where m: "y * dwt_stride T + x * 4 = int m" "m + 4 \<le> length px" "\<forall>k<4. visible_byte T (m + k)"
    using pixel_fits [OF assms(1), of x y] by (metis not_le)
  obtain r g b a where c: "c = (r, g, b, a)" by (cases c) auto
  have l: "length (cpf_pixels f) = length px" using assms(2) by (simp add: drawn_inside_def)
  show ?thesis unfolding draw_pixel_def c using False assms(2) l m(2)
    by (simp add: m(1) Let_def cpf_set_inside [OF assms(2) m(1) m(2) _ m(3)] cpf_set_inside [OF assms(2) refl m(2) _ m(3)])
qed (use assms(2) in \<open>simp add: draw_pixel_def\<close>)

end
