(* ===== verification/Caption.thy ===== *)
theory Caption
  imports Wire Cformat "HOL-Library.Signed_Division" Pixels
begin

text \<open>
  Captions, \<^verbatim>\<open>src/src/caption\<close>: events on the wire (\<^verbatim>\<open>caption_event.c\<close>), the buffer of at most 64 events in the order of their times
  (\<^verbatim>\<open>caption_buffer.c\<close>) and the renderer that draws them into a frame (\<^verbatim>\<open>caption_renderer.c\<close>).  A text is the bytes of its array; what a
  copy takes from beyond the array when \<open>text_len\<close> is too large is not modelled.  A frame is its bytes with a flag that an access
  outside it, outside the font or outside a text sets.  Blending with a partial alpha is C float arithmetic and a parameter.
\<close>

definition CAPTION_MAGIC :: u32 where "CAPTION_MAGIC = 0x43415054"
definition CAPTION_MAX_TEXT_BYTES :: nat where "CAPTION_MAX_TEXT_BYTES = 256"
definition CAPTION_HDR_SIZE :: nat where "CAPTION_HDR_SIZE = 20"
definition CAPTION_FLAG_TOP :: u8 where "CAPTION_FLAG_TOP = 0x10"
definition CAPTION_BUFFER_CAPACITY :: nat where "CAPTION_BUFFER_CAPACITY = 64"

record caption_event =
  cpe_pts_us :: u64
  cpe_duration_us :: u32
  cpe_flags :: u8
  cpe_row :: u8
  cpe_text_len :: u16
  cpe_text :: "u8 list"

definition caption_event_zero :: caption_event where
  "caption_event_zero = \<lparr>cpe_pts_us = 0, cpe_duration_us = 0, cpe_flags = 0, cpe_row = 0, cpe_text_len = 0,
     cpe_text = replicate (CAPTION_MAX_TEXT_BYTES + 1) 0\<rparr>"

section \<open>Events on the wire\<close>

definition caption_event_encoded_size :: "caption_event option \<Rightarrow> nat" where
  "caption_event_encoded_size event = (case event of None \<Rightarrow> 0 | Some e \<Rightarrow> CAPTION_HDR_SIZE + unat (cpe_text_len e))"

definition cpe_bytes :: "caption_event \<Rightarrow> u8 list" where
  "cpe_bytes e = w32le CAPTION_MAGIC @ w64le (cpe_pts_us e) @ w32le (cpe_duration_us e) @ [cpe_flags e, cpe_row e] @ w16le (cpe_text_len e)
     @ take (unat (cpe_text_len e)) (cpe_text e)"

fun caption_event_encode :: "caption_event option \<Rightarrow> u8 list option \<Rightarrow> int \<times> u8 list option" where
  "caption_event_encode (Some e) (Some buf) =
     (let needed = caption_event_encoded_size (Some e) in
      if length buf < needed then (-1, Some buf) else (int needed, Some (overwrite (cpe_bytes e) buf)))"
| "caption_event_encode e buf = (-1, buf)"

fun caption_event_decode :: "u8 list option \<Rightarrow> caption_event option \<Rightarrow> int \<times> caption_event option" where
  "caption_event_decode (Some buf) (Some event) =
     (if length buf < CAPTION_HDR_SIZE then (-1, Some event)
      else if r32le buf 0 \<noteq> CAPTION_MAGIC then (-1, Some event)
      else let e = caption_event_zero\<lparr>cpe_pts_us := r64le buf 4, cpe_duration_us := r32le buf 12, cpe_flags := buf ! 16,
               cpe_row := buf ! 17, cpe_text_len := r16le buf 18\<rparr>;
             n = unat (cpe_text_len e) in
        if n > CAPTION_MAX_TEXT_BYTES then (-1, Some e)
        else if length buf < CAPTION_HDR_SIZE + n then (-1, Some e)
        else (0, Some (e\<lparr>cpe_text := (overwrite (take n (drop CAPTION_HDR_SIZE buf)) (cpe_text e))[n := 0]\<rparr>)))"
| "caption_event_decode buf event = (-1, event)"

text \<open>The end of an event wraps around like the sum in the code.\<close>

definition caption_active :: "u64 \<Rightarrow> caption_event \<Rightarrow> bool" where
  "caption_active now_us e \<longleftrightarrow> now_us \<ge> cpe_pts_us e \<and> now_us < cpe_pts_us e + ucast (cpe_duration_us e)"

definition caption_event_is_active :: "caption_event option \<Rightarrow> u64 \<Rightarrow> bool" where
  "caption_event_is_active event now_us = (case event of None \<Rightarrow> False | Some e \<Rightarrow> caption_active now_us e)"

definition cpe_wf :: "caption_event \<Rightarrow> bool" where
  "cpe_wf e \<longleftrightarrow> unat (cpe_text_len e) \<le> CAPTION_MAX_TEXT_BYTES \<and> length (cpe_text e) = CAPTION_MAX_TEXT_BYTES + 1
     \<and> drop (unat (cpe_text_len e)) (cpe_text e) = replicate (CAPTION_MAX_TEXT_BYTES + 1 - unat (cpe_text_len e)) 0"

lemma cpe_decode_bytes:
  assumes "cpe_wf e"
  shows "caption_event_decode (Some (cpe_bytes e @ rest)) (Some x) = (0, Some e)"
proof -
  let ?n = "unat (cpe_text_len e)" and ?b = "cpe_bytes e @ rest"
  have n: "?n \<le> 256" "length (cpe_text e) = 257" using assms by (simp_all add: cpe_wf_def CAPTION_MAX_TEXT_BYTES_def)
  have b: "?b = w32le CAPTION_MAGIC @ w64le (cpe_pts_us e) @ w32le (cpe_duration_us e) @ cpe_flags e # cpe_row e # w16le (cpe_text_len e)
     @ take ?n (cpe_text e) @ rest"
    by (simp add: cpe_bytes_def)
  have len: "length ?b = 20 + ?n + length rest" unfolding b using n by simp
  have rd: "r32le ?b 0 = CAPTION_MAGIC" "r64le ?b 4 = cpe_pts_us e" "r32le ?b 12 = cpe_duration_us e" "r16le ?b 18 = cpe_text_len e"
    unfolding b by (simp_all add: wire_simps)
  have by16: "?b ! 16 = cpe_flags e" "?b ! 17 = cpe_row e" unfolding b by (simp_all add: nth_append)
  have t: "take ?n (drop 20 ?b) = take ?n (cpe_text e)" unfolding b using n by simp
  have tx: "(overwrite (take ?n (cpe_text e)) (replicate (Suc 256) 0))[?n := 0] = cpe_text e"
    using assms by (intro zero_filled_copy) (simp_all add: cpe_wf_def CAPTION_MAX_TEXT_BYTES_def)
  let ?e = "caption_event_zero\<lparr>cpe_pts_us := cpe_pts_us e, cpe_duration_us := cpe_duration_us e, cpe_flags := cpe_flags e,
               cpe_row := cpe_row e, cpe_text_len := cpe_text_len e\<rparr>"
  have "caption_event_decode (Some ?b) (Some x) = (0, Some (?e\<lparr>cpe_text := (overwrite (take ?n (drop 20 ?b)) (cpe_text ?e))[?n := 0]\<rparr>))"
    unfolding caption_event_decode.simps rd by16 Let_def using n len
    by (simp add: CAPTION_HDR_SIZE_def CAPTION_MAX_TEXT_BYTES_def)
  also have "?e\<lparr>cpe_text := (overwrite (take ?n (drop 20 ?b)) (cpe_text ?e))[?n := 0]\<rparr> = e"
    unfolding t using tx by (simp add: caption_event_zero_def CAPTION_MAX_TEXT_BYTES_def)
  finally show ?thesis .
qed

definition cpe_dec :: "u8 list \<Rightarrow> caption_event option" where
  "cpe_dec b = (case caption_event_decode (Some b) (Some caption_event_zero) of (r, e) \<Rightarrow> if r = 0 then e else None)"

interpretation cpe: codec cpe_wf cpe_bytes cpe_dec
  by unfold_locales (simp add: cpe_dec_def cpe_decode_bytes del: caption_event_decode.simps)

section \<open>The buffer\<close>

record caption_buffer =
  cpb_events :: "caption_event list"
  cpb_count :: nat

definition caption_buffer_create :: "bool \<Rightarrow> caption_buffer option" where
  "caption_buffer_create mem = (if mem then Some \<lparr>cpb_events = replicate CAPTION_BUFFER_CAPACITY caption_event_zero, cpb_count = 0\<rparr> else None)"

definition caption_buffer_clear :: "caption_buffer option \<Rightarrow> caption_buffer option" where
  "caption_buffer_clear buf = map_option (\<lambda>b. b\<lparr>cpb_count := 0\<rparr>) buf"

definition caption_buffer_count :: "caption_buffer option \<Rightarrow> nat" where
  "caption_buffer_count buf = (case buf of None \<Rightarrow> 0 | Some b \<Rightarrow> cpb_count b)"

fun cpb_shift :: "caption_event \<Rightarrow> nat \<Rightarrow> caption_event list \<Rightarrow> caption_event list" where
  "cpb_shift e 0 es = es[0 := e]"
| "cpb_shift e (Suc p) es = (if cpe_pts_us (es ! p) > cpe_pts_us e then cpb_shift e p (es[Suc p := es ! p]) else es[Suc p := e])"

fun caption_buffer_push :: "caption_buffer option \<Rightarrow> caption_event option \<Rightarrow> int \<times> caption_buffer option" where
  "caption_buffer_push (Some b) (Some e) =
     (let b = (if cpb_count b \<ge> CAPTION_BUFFER_CAPACITY
               then b\<lparr>cpb_events := overwrite (take (cpb_count b - 1) (tl (cpb_events b))) (cpb_events b), cpb_count := cpb_count b - 1\<rparr> else b) in
      (0, Some (b\<lparr>cpb_events := cpb_shift e (cpb_count b) (cpb_events b), cpb_count := cpb_count b + 1\<rparr>)))"
| "caption_buffer_push buf e = (-1, buf)"

fun cpb_query_loop :: "u64 \<Rightarrow> nat \<Rightarrow> caption_event list \<Rightarrow> caption_event list" where
  "cpb_query_loop now_us room [] = []"
| "cpb_query_loop now_us room (e # es) = (if room = 0 then []
     else if caption_active now_us e then e # cpb_query_loop now_us (room - 1) es else cpb_query_loop now_us room es)"

fun caption_buffer_query :: "caption_buffer option \<Rightarrow> u64 \<Rightarrow> caption_event list option \<Rightarrow> int \<Rightarrow> int \<times> caption_event list option" where
  "caption_buffer_query (Some b) now_us (Some out) max_out =
     (if max_out \<le> 0 then (0, Some out)
      else let es = cpb_query_loop now_us (nat max_out) (take (cpb_count b) (cpb_events b)) in (int (length es), Some (overwrite es out)))"
| "caption_buffer_query buf now_us out max_out = (0, out)"

definition cpe_end :: "caption_event \<Rightarrow> u64" where
  "cpe_end e = cpe_pts_us e + ucast (cpe_duration_us e)"

definition caption_buffer_expire :: "caption_buffer option \<Rightarrow> u64 \<Rightarrow> int \<times> caption_buffer option" where
  "caption_buffer_expire buf now_us = (case buf of None \<Rightarrow> (0, None)
     | Some b \<Rightarrow> let held = take (cpb_count b) (cpb_events b); kept = filter (\<lambda>e. \<not> cpe_end e \<le> now_us) held in
       (int (length held - length kept), Some (b\<lparr>cpb_events := overwrite kept (cpb_events b), cpb_count := length kept\<rparr>)))"

text \<open>The buffer as a list in the order of the times, of which events with the same time keep the order of arrival.\<close>

datatype cpb_op = CpbPush caption_event | CpbQuery u64 nat | CpbExpire u64 | CpbCount | CpbClear

datatype cpb_ans = CpbInt int | CpbFound int "caption_event list option" | CpbNone

fun cpb_call :: "cpb_op \<Rightarrow> caption_buffer \<Rightarrow> cpb_ans \<times> caption_buffer" where
  "cpb_call (CpbPush e) b = (case caption_buffer_push (Some b) (Some e) of (r, b) \<Rightarrow> (CpbInt r, the b))"
| "cpb_call (CpbQuery now n) b = (case caption_buffer_query (Some b) now (Some (replicate n caption_event_zero)) (int n) of (k, out) \<Rightarrow> (CpbFound k out, b))"
| "cpb_call (CpbExpire now) b = (case caption_buffer_expire (Some b) now of (k, b) \<Rightarrow> (CpbInt k, the b))"
| "cpb_call CpbCount b = (CpbInt (int (caption_buffer_count (Some b))), b)"
| "cpb_call CpbClear b = (CpbNone, the (caption_buffer_clear (Some b)))"

fun cpb_spec :: "cpb_op \<Rightarrow> caption_event list \<Rightarrow> cpb_ans \<times> caption_event list" where
  "cpb_spec (CpbPush e) L = (let L = (if length L < CAPTION_BUFFER_CAPACITY then L else tl L) in
     (CpbInt 0, filter (\<lambda>x. cpe_pts_us x \<le> cpe_pts_us e) L @ [e] @ filter (\<lambda>x. cpe_pts_us x > cpe_pts_us e) L))"
| "cpb_spec (CpbQuery now n) L = (let es = take n (filter (caption_active now) L) in
     (CpbFound (int (length es)) (Some (overwrite es (replicate n caption_event_zero))), L))"
| "cpb_spec (CpbExpire now) L = (CpbInt (int (length (filter (\<lambda>e. cpe_end e \<le> now) L))), filter (\<lambda>e. \<not> cpe_end e \<le> now) L)"
| "cpb_spec CpbCount L = (CpbInt (int (length L)), L)"
| "cpb_spec CpbClear L = (CpbNone, [])"

definition cpb_rel :: "caption_buffer \<Rightarrow> caption_event list \<Rightarrow> bool" where
  "cpb_rel b L \<longleftrightarrow> length (cpb_events b) = CAPTION_BUFFER_CAPACITY \<and> cpb_count b = length L \<and> length L \<le> CAPTION_BUFFER_CAPACITY
     \<and> take (cpb_count b) (cpb_events b) = L \<and> sorted (map cpe_pts_us L)"

definition cpb_insert :: "caption_event \<Rightarrow> caption_event list \<Rightarrow> caption_event list" where
  "cpb_insert e xs = rev (dropWhile (\<lambda>x. cpe_pts_us x > cpe_pts_us e) (rev xs)) @ [e] @ rev (takeWhile (\<lambda>x. cpe_pts_us x > cpe_pts_us e) (rev xs))"

lemma cpb_insert_snoc: "cpb_insert e (xs @ [x]) = (if cpe_pts_us x > cpe_pts_us e then cpb_insert e xs @ [x] else xs @ [x, e])"
  by (simp add: cpb_insert_def)

lemma cpb_shift_insert: "p < length es \<Longrightarrow> cpb_shift e p es = cpb_insert e (take p es) @ drop (Suc p) es"
proof (induction p arbitrary: es)
  case 0
  then show ?case by (cases es) (simp_all add: cpb_insert_def)
next
  case (Suc p)
  have t: "take (Suc p) es = take p es @ [es ! p]" using Suc.prems by (simp add: take_Suc_conv_app_nth)
  have d: "drop (Suc p) (es[Suc p := x]) = x # drop (Suc (Suc p)) es" for x
    using Suc.prems by (simp add: drop_update_swap Cons_nth_drop_Suc [symmetric])
  show ?case
  proof (cases "cpe_pts_us (es ! p) > cpe_pts_us e")
    case True
    then show ?thesis using Suc.IH [of "es[Suc p := es ! p]"] Suc.prems d [of "es ! p"] by (simp add: t cpb_insert_snoc)
  next
    case False
    have "es[Suc p := e] = take (Suc p) es @ e # drop (Suc (Suc p)) es" using Suc.prems by (simp add: upd_conv_take_nth_drop)
    then show ?thesis using False by (simp add: t cpb_insert_snoc)
  qed
qed

lemma cpb_insert_sorted:
  "sorted (map cpe_pts_us xs) \<Longrightarrow> cpb_insert e xs = filter (\<lambda>x. cpe_pts_us x \<le> cpe_pts_us e) xs @ [e] @ filter (\<lambda>x. cpe_pts_us x > cpe_pts_us e) xs"
proof (induction xs rule: rev_induct)
  case (snoc x xs)
  then have s: "sorted (map cpe_pts_us xs)" "\<forall>y \<in> set xs. cpe_pts_us y \<le> cpe_pts_us x" by (auto simp: sorted_append)
  show ?case
  proof (cases "cpe_pts_us x > cpe_pts_us e")
    case True
    then show ?thesis using snoc.IH [OF s(1)] by (simp add: cpb_insert_snoc not_le)
  next
    case False
    then have "filter (\<lambda>x. cpe_pts_us x \<le> cpe_pts_us e) xs = xs" "filter (\<lambda>x. cpe_pts_us x > cpe_pts_us e) xs = []"
      using s(2) by (auto simp: filter_id_conv filter_empty_conv)
    then show ?thesis using False by (simp add: cpb_insert_snoc not_less)
  qed
qed (simp add: cpb_insert_def)

lemma sorted_cpb_insert:
  "sorted (map cpe_pts_us xs) \<Longrightarrow> sorted (map cpe_pts_us (filter (\<lambda>x. cpe_pts_us x \<le> cpe_pts_us e) xs @ [e] @ filter (\<lambda>x. cpe_pts_us x > cpe_pts_us e) xs))"
  by (auto simp: sorted_append sorted_filter)

lemma cpb_put_rel:
  assumes "cpb_rel b L" and "length L < CAPTION_BUFFER_CAPACITY"
  shows "cpb_rel (b\<lparr>cpb_events := cpb_shift e (cpb_count b) (cpb_events b), cpb_count := cpb_count b + 1\<rparr>)
    (filter (\<lambda>x. cpe_pts_us x \<le> cpe_pts_us e) L @ [e] @ filter (\<lambda>x. cpe_pts_us x > cpe_pts_us e) L)"
proof -
  have s: "sorted (map cpe_pts_us L)" "take (cpb_count b) (cpb_events b) = L" "cpb_count b = length L" "length (cpb_events b) = CAPTION_BUFFER_CAPACITY"
    using assms unfolding cpb_rel_def by blast+
  define L' where "L' = filter (\<lambda>x. cpe_pts_us x \<le> cpe_pts_us e) L @ [e] @ filter (\<lambda>x. cpe_pts_us x > cpe_pts_us e) L"
  have e: "cpb_shift e (cpb_count b) (cpb_events b) = L' @ drop (Suc (cpb_count b)) (cpb_events b)"
    using cpb_shift_insert [of "cpb_count b" "cpb_events b" e] s assms(2) by (simp add: cpb_insert_sorted L'_def)
  have l: "length L' = Suc (length L)"
    using sum_length_filter_compl [of "\<lambda>x. cpe_pts_us x \<le> cpe_pts_us e" L] by (simp add: not_le L'_def)
  have "sorted (map cpe_pts_us L')" unfolding L'_def by (rule sorted_cpb_insert [OF s(1)])
  then show ?thesis unfolding L'_def [symmetric] cpb_rel_def using e l s assms(2) by simp
qed

lemma cpb_full_rel:
  assumes "cpb_rel b L" and "\<not> length L < CAPTION_BUFFER_CAPACITY"
  shows "cpb_rel (b\<lparr>cpb_events := overwrite (take (cpb_count b - 1) (tl (cpb_events b))) (cpb_events b), cpb_count := cpb_count b - 1\<rparr>) (tl L)"
    and "length (tl L) < CAPTION_BUFFER_CAPACITY"
proof -
  have s: "sorted (map cpe_pts_us L)" "cpb_events b = L" "cpb_count b = length L" "length L = CAPTION_BUFFER_CAPACITY"
    using assms by (auto simp: cpb_rel_def)
  then show "length (tl L) < CAPTION_BUFFER_CAPACITY" by (simp add: CAPTION_BUFFER_CAPACITY_def)
  have "sorted (map cpe_pts_us (tl L))" using s(1) by (cases L) simp_all
  then show "cpb_rel (b\<lparr>cpb_events := overwrite (take (cpb_count b - 1) (tl (cpb_events b))) (cpb_events b), cpb_count := cpb_count b - 1\<rparr>) (tl L)"
    using s by (simp add: cpb_rel_def overwrite_def)
qed

lemma cpb_query_filter: "cpb_query_loop now n es = take n (filter (caption_active now) es)"
  by (induction now n es rule: cpb_query_loop.induct) (auto simp: take_Cons')

interpretation cpb: simulation cpb_call cpb_spec cpb_rel "\<lambda>_. True"
proof
  fix b L and op :: cpb_op
  assume r: "cpb_rel b L"
  show "fst (cpb_call op b) = fst (cpb_spec op L) \<and> cpb_rel (snd (cpb_call op b)) (snd (cpb_spec op L))"
  proof (cases op)
    case (CpbPush e)
    have "cpb_count b = length L" using r by (simp add: cpb_rel_def)
    then show ?thesis using cpb_put_rel [OF r, of e] cpb_put_rel [OF cpb_full_rel [OF r], of e] CpbPush by (simp add: Let_def not_less)
  next
    case (CpbQuery now n)
    then show ?thesis using r by (auto simp: cpb_query_filter cpb_rel_def Let_def overwrite_def)
  next
    case (CpbExpire now)
    have held: "take (cpb_count b) (cpb_events b) = L" "length (cpb_events b) = CAPTION_BUFFER_CAPACITY" "length L \<le> CAPTION_BUFFER_CAPACITY"
      "sorted (map cpe_pts_us L)" using r unfolding cpb_rel_def by blast+
    define kept where "kept = filter (\<lambda>e. \<not> cpe_end e \<le> now) L"
    have k: "length kept \<le> CAPTION_BUFFER_CAPACITY" "sorted (map cpe_pts_us kept)"
      using held(3,4) length_filter_le [of "\<lambda>e. \<not> cpe_end e \<le> now" L] by (simp_all add: kept_def sorted_filter del: length_filter_le)
    have "length L = length (filter (\<lambda>e. cpe_end e \<le> now) L) + length kept"
      using sum_length_filter_compl [of "\<lambda>e. cpe_end e \<le> now" L] by (simp add: kept_def)
    then show ?thesis unfolding CpbExpire
      by (simp add: caption_buffer_expire_def cpb_rel_def Let_def held kept_def [symmetric] overwrite_def k)
  next
    case CpbCount
    have "cpb_count b = length L" using r by (simp add: cpb_rel_def)
    then show ?thesis using r unfolding CpbCount by (simp add: caption_buffer_count_def)
  next
    case CpbClear
    have "length (cpb_events b) = CAPTION_BUFFER_CAPACITY" using r by (simp add: cpb_rel_def)
    then show ?thesis unfolding CpbClear by (simp add: caption_buffer_clear_def cpb_rel_def)
  qed
qed

text \<open>Under any calls the buffer is a list of at most 64 captions sorted by time, in which captions of the same time keep their order; a
  query gives the first captions that are showing, and expiry removes exactly those that are over.\<close>

theorem caption_buffer_refines_list:
  assumes "caption_buffer_create mem = Some b"
  shows "fst (run_calls cpb_call ops b) = fst (run_calls cpb_spec ops [])"
proof -
  have "cpb_rel b []" using assms by (auto simp: caption_buffer_create_def cpb_rel_def split: if_splits)
  then show ?thesis using cpb.run [of b "[]" ops] by simp
qed

lemma caption_buffer_refines_list_witness:
  "fst (run_calls cpb_call [CpbPush (caption_event_zero\<lparr>cpe_pts_us := 9, cpe_duration_us := 5\<rparr>),
      CpbPush (caption_event_zero\<lparr>cpe_pts_us := 4, cpe_duration_us := 2\<rparr>), CpbQuery 10 1, CpbExpire 6, CpbCount] (the (caption_buffer_create True)))
    = [CpbInt 0, CpbInt 0, CpbFound 1 (Some [caption_event_zero\<lparr>cpe_pts_us := 9, cpe_duration_us := 5\<rparr>]), CpbInt 1, CpbInt 1]"
  by (subst caption_buffer_refines_list [where mem = True])
    (simp_all add: caption_buffer_create_def CAPTION_BUFFER_CAPACITY_def caption_active_def cpe_end_def overwrite_def Let_def
      word_le_nat_alt word_less_nat_alt del: replicate.simps)

section \<open>The renderer\<close>

text \<open>The bitmap font, 96 glyphs of five bytes, from the space on.\<close>

definition FONT5X7 :: "u8 list list" where
  "FONT5X7 = [
     [0x00, 0x00, 0x00, 0x00, 0x00], [0x00, 0x5F, 0x00, 0x00, 0x00], [0x07, 0x00, 0x07, 0x00, 0x00],
     [0x14, 0x7F, 0x14, 0x7F, 0x14], [0x24, 0x2A, 0x7F, 0x2A, 0x12], [0x23, 0x13, 0x08, 0x64, 0x62],
     [0x36, 0x49, 0x55, 0x22, 0x50], [0x00, 0x05, 0x03, 0x00, 0x00], [0x00, 0x1C, 0x22, 0x41, 0x00],
     [0x00, 0x41, 0x22, 0x1C, 0x00], [0x14, 0x08, 0x3E, 0x08, 0x14], [0x08, 0x08, 0x3E, 0x08, 0x08],
     [0x00, 0x50, 0x30, 0x00, 0x00], [0x08, 0x08, 0x08, 0x08, 0x08], [0x00, 0x60, 0x60, 0x00, 0x00],
     [0x20, 0x10, 0x08, 0x04, 0x02], [0x3E, 0x51, 0x49, 0x45, 0x3E], [0x00, 0x42, 0x7F, 0x40, 0x00],
     [0x42, 0x61, 0x51, 0x49, 0x46], [0x21, 0x41, 0x45, 0x4B, 0x31], [0x18, 0x14, 0x12, 0x7F, 0x10],
     [0x27, 0x45, 0x45, 0x45, 0x39], [0x3C, 0x4A, 0x49, 0x49, 0x30], [0x01, 0x71, 0x09, 0x05, 0x03],
     [0x36, 0x49, 0x49, 0x49, 0x36], [0x06, 0x49, 0x49, 0x29, 0x1E], [0x00, 0x36, 0x36, 0x00, 0x00],
     [0x00, 0x56, 0x36, 0x00, 0x00], [0x08, 0x14, 0x22, 0x41, 0x00], [0x14, 0x14, 0x14, 0x14, 0x14],
     [0x00, 0x41, 0x22, 0x14, 0x08], [0x02, 0x01, 0x51, 0x09, 0x06], [0x32, 0x49, 0x79, 0x41, 0x3E],
     [0x7E, 0x11, 0x11, 0x11, 0x7E], [0x7F, 0x49, 0x49, 0x49, 0x36], [0x3E, 0x41, 0x41, 0x41, 0x22],
     [0x7F, 0x41, 0x41, 0x22, 0x1C], [0x7F, 0x49, 0x49, 0x49, 0x41], [0x7F, 0x09, 0x09, 0x09, 0x01],
     [0x3E, 0x41, 0x49, 0x49, 0x7A], [0x7F, 0x08, 0x08, 0x08, 0x7F], [0x00, 0x41, 0x7F, 0x41, 0x00],
     [0x20, 0x40, 0x41, 0x3F, 0x01], [0x7F, 0x08, 0x14, 0x22, 0x41], [0x7F, 0x40, 0x40, 0x40, 0x40],
     [0x7F, 0x02, 0x0C, 0x02, 0x7F], [0x7F, 0x04, 0x08, 0x10, 0x7F], [0x3E, 0x41, 0x41, 0x41, 0x3E],
     [0x7F, 0x09, 0x09, 0x09, 0x06], [0x3E, 0x41, 0x51, 0x21, 0x5E], [0x7F, 0x09, 0x19, 0x29, 0x46],
     [0x46, 0x49, 0x49, 0x49, 0x31], [0x01, 0x01, 0x7F, 0x01, 0x01], [0x3F, 0x40, 0x40, 0x40, 0x3F],
     [0x1F, 0x20, 0x40, 0x20, 0x1F], [0x3F, 0x40, 0x38, 0x40, 0x3F], [0x63, 0x14, 0x08, 0x14, 0x63],
     [0x07, 0x08, 0x70, 0x08, 0x07], [0x61, 0x51, 0x49, 0x45, 0x43], [0x00, 0x7F, 0x41, 0x41, 0x00],
     [0x02, 0x04, 0x08, 0x10, 0x20], [0x00, 0x41, 0x41, 0x7F, 0x00], [0x04, 0x02, 0x01, 0x02, 0x04],
     [0x40, 0x40, 0x40, 0x40, 0x40], [0x00, 0x01, 0x02, 0x04, 0x00], [0x20, 0x54, 0x54, 0x54, 0x78],
     [0x7F, 0x48, 0x44, 0x44, 0x38], [0x38, 0x44, 0x44, 0x44, 0x20], [0x38, 0x44, 0x44, 0x48, 0x7F],
     [0x38, 0x54, 0x54, 0x54, 0x18], [0x08, 0x7E, 0x09, 0x01, 0x02], [0x0C, 0x52, 0x52, 0x52, 0x3E],
     [0x7F, 0x08, 0x04, 0x04, 0x78], [0x00, 0x44, 0x7D, 0x40, 0x00], [0x20, 0x40, 0x44, 0x3D, 0x00],
     [0x7F, 0x10, 0x28, 0x44, 0x00], [0x00, 0x41, 0x7F, 0x40, 0x00], [0x7C, 0x04, 0x18, 0x04, 0x78],
     [0x7C, 0x08, 0x04, 0x04, 0x78], [0x38, 0x44, 0x44, 0x44, 0x38], [0x7C, 0x14, 0x14, 0x14, 0x08],
     [0x08, 0x14, 0x14, 0x18, 0x7C], [0x7C, 0x08, 0x04, 0x04, 0x08], [0x48, 0x54, 0x54, 0x54, 0x20],
     [0x04, 0x3F, 0x44, 0x40, 0x20], [0x3C, 0x40, 0x40, 0x20, 0x7C], [0x1C, 0x20, 0x40, 0x20, 0x1C],
     [0x3C, 0x40, 0x30, 0x40, 0x3C], [0x44, 0x28, 0x10, 0x28, 0x44], [0x0C, 0x50, 0x50, 0x50, 0x3C],
     [0x44, 0x64, 0x54, 0x4C, 0x44], [0x00, 0x08, 0x36, 0x41, 0x00], [0x00, 0x00, 0x7F, 0x00, 0x00],
     [0x00, 0x41, 0x36, 0x08, 0x00], [0x10, 0x08, 0x08, 0x10, 0x08], [0x00, 0x00, 0x00, 0x00, 0x00]
   ]"

record caption_renderer =
  cpr_bg_color :: u32
  cpr_fg_color :: u32
  cpr_font_scale :: int
  cpr_margin_px :: int

record caption_renderer_config =
  cpc_bg_color :: u32
  cpc_fg_color :: u32
  cpc_font_scale :: int
  cpc_margin_px :: int

definition caption_renderer_create :: "bool \<Rightarrow> caption_renderer_config option \<Rightarrow> caption_renderer option" where
  "caption_renderer_create mem config =
     (if \<not> mem then None
      else Some (case config of
        Some c \<Rightarrow> \<lparr>cpr_bg_color = cpc_bg_color c, cpr_fg_color = cpc_fg_color c,
          cpr_font_scale = (if cpc_font_scale c \<ge> 1 \<and> cpc_font_scale c \<le> 4 then cpc_font_scale c else 2),
          cpr_margin_px = (if cpc_margin_px c \<ge> 0 then cpc_margin_px c else 8)\<rparr>
      | None \<Rightarrow> \<lparr>cpr_bg_color = 0xBB000000, cpr_fg_color = 0xFFFFFFFF, cpr_font_scale = 2, cpr_margin_px = 8\<rparr>))"

text \<open>What \<^verbatim>\<open>glyph[row]\<close> reads: the rows of the font lie one behind the other, so an index beyond the glyph is in the next one; beyond
  the last there is nothing.\<close>

definition glyph_index :: "u8 \<Rightarrow> nat \<Rightarrow> nat" where
  "glyph_index ch row = 5 * ((if unat ch < 32 \<or> unat ch > 127 then 63 else unat ch) - 32) + row"

definition glyph_row :: "u8 \<Rightarrow> nat \<Rightarrow> u8 option" where
  "glyph_row ch row = (let i = glyph_index ch row in if i < length (concat FONT5X7) then Some (concat FONT5X7 ! i) else None)"

text \<open>The block of \<open>scale * scale\<close> pixels for one bit of a glyph.\<close>

definition draw_block :: "blend_ops \<Rightarrow> draw_target \<Rightarrow> colour \<Rightarrow> int \<Rightarrow> int \<Rightarrow> int \<Rightarrow> int \<Rightarrow> int \<Rightarrow> caption_frame \<Rightarrow> caption_frame" where
  "draw_block B T c scale px py row col f =
     fold (\<lambda>sy. fold (\<lambda>sx. draw_pixel B T c (px + col * scale + sx) (py + row * scale + sy)) [0..scale - 1]) [0..scale - 1] f"

definition draw_glyph_row :: "blend_ops \<Rightarrow> draw_target \<Rightarrow> colour \<Rightarrow> int \<Rightarrow> int \<Rightarrow> int \<Rightarrow> u8 \<Rightarrow> nat \<Rightarrow> caption_frame \<Rightarrow> caption_frame" where
  "draw_glyph_row B T c scale px py ch row f = (case glyph_row ch row of
     None \<Rightarrow> f\<lparr>cpf_fault := True\<rparr>
   | Some bits \<Rightarrow> fold (\<lambda>col f. if bits AND drop_bit col 0x10 = 0 then f else draw_block B T c scale px py (int row) (int col) f) [0..<5] f)"

definition draw_glyph :: "blend_ops \<Rightarrow> draw_target \<Rightarrow> colour \<Rightarrow> int \<Rightarrow> int \<Rightarrow> int \<Rightarrow> u8 \<Rightarrow> caption_frame \<Rightarrow> caption_frame" where
  "draw_glyph B T c scale px py ch f = fold (draw_glyph_row B T c scale px py ch) [0..<7] f"

definition draw_caption :: "blend_ops \<Rightarrow> caption_renderer \<Rightarrow> draw_target \<Rightarrow> caption_event \<Rightarrow> caption_frame \<Rightarrow> caption_frame" where
  "draw_caption B r T event f =
     (let scale = cpr_font_scale r; glyph_w = 6 * scale; glyph_h = 8 * scale; margin = cpr_margin_px r;
          text_px_w = int (unat (cpe_text_len event)) * glyph_w;
          box_w = text_px_w + margin * 2; box_h = glyph_h + margin * 2;
          row = (if unat (cpe_row event) < 15 then int (unat (cpe_row event)) else 14);
          y_top = (if cpe_flags event AND CAPTION_FLAG_TOP \<noteq> 0 then margin + row * (box_h + 2)
                   else dwt_height T - margin - box_h - row * (box_h + 2));
          x_left = (if (dwt_width T - box_w) sdiv 2 < 0 then 0 else (dwt_width T - box_w) sdiv 2);
          f = fold (\<lambda>y. fold (\<lambda>x. draw_pixel B T (argb (cpr_bg_color r)) x y) [x_left..x_left + box_w - 1]) [y_top..y_top + box_h - 1] f;
          gx = x_left + margin; gy = y_top + margin in
      fold (\<lambda>i f. if i < length (cpe_text event) then draw_glyph B T (argb (cpr_fg_color r)) scale (gx + int i * glyph_w) gy (cpe_text event ! i) f
          else f\<lparr>cpf_fault := True\<rparr>) [0..<unat (cpe_text_len event)] f)"

fun caption_renderer_draw :: "blend_ops \<Rightarrow> caption_renderer option \<Rightarrow> caption_frame option \<Rightarrow> int \<Rightarrow> int \<Rightarrow> int \<Rightarrow> caption_event list option \<Rightarrow> u64 \<Rightarrow>
    int \<times> caption_frame option" where
  "caption_renderer_draw B (Some r) (Some f) width height stride (Some events) now_us =
     (if width \<le> 0 \<or> height \<le> 0 then (0, Some f)
      else let shown = filter (caption_active now_us) events in
        (int (length shown), Some (fold (draw_caption B r \<lparr>dwt_width = width, dwt_height = height, dwt_stride = stride\<rparr>) shown f)))"
| "caption_renderer_draw B r f width height stride events now_us = (0, f)"

section \<open>Drawing stays in the frame\<close>

definition caption_readable :: "caption_event \<Rightarrow> bool" where
  "caption_readable e \<longleftrightarrow> unat (cpe_text_len e) \<le> length (cpe_text e) \<and> 0x7F \<notin> set (take (unat (cpe_text_len e)) (cpe_text e))"

lemma glyph_readable: "ch \<noteq> 0x7F \<Longrightarrow> row < 7 \<Longrightarrow> \<exists>bits. glyph_row ch row = Some bits"
proof -
  assume a: "ch \<noteq> 0x7F" "row < 7"
  have l: "length (concat FONT5X7) = 480" by (simp add: FONT5X7_def)
  have "unat ch \<noteq> unat (0x7F :: u8)" using a(1) by (simp only: word_unat_eq_iff not_False_eq_True)
  then have "unat ch \<noteq> 127" by simp
  then have "glyph_index ch row < 480" using a(2) by (auto simp: glyph_index_def)
  then show ?thesis by (simp add: glyph_row_def l Let_def)
qed

lemma draw_glyph_inside:
  assumes "target_fits T (length px)" and "drawn_inside T px f" and "ch \<noteq> 0x7F"
  shows "drawn_inside T px (draw_glyph B T c scale x y ch f)"
  unfolding draw_glyph_def
proof (rule fold_keeps [where P = "drawn_inside T px", OF assms(2)])
  fix row f assume r: "row \<in> set [0..<7]" and f: "drawn_inside T px f"
  obtain bits where g: "glyph_row ch row = Some bits" using glyph_readable [OF assms(3)] r by force
  have blk: "drawn_inside T px (draw_block B T c scale x y i j f)" if "drawn_inside T px f" for i j f
    unfolding draw_block_def by (rule fold_keeps [where P = "drawn_inside T px", OF that], rule fold_keeps [where P = "drawn_inside T px"]) (simp_all add: draw_pixel_inside [OF assms(1)])
  show "drawn_inside T px (draw_glyph_row B T c scale x y ch row f)"
    unfolding draw_glyph_row_def g option.case by (rule fold_keeps [where P = "drawn_inside T px", OF f]) (simp add: blk)
qed

lemma draw_caption_inside:
  assumes "target_fits T (length px)" and "caption_readable e" and "drawn_inside T px f"
  shows "drawn_inside T px (draw_caption B r T e f)"
proof -
  have box: "drawn_inside T px (fold (\<lambda>y. fold (\<lambda>x. draw_pixel B T c x y) xs) ys f)" for xs ys c
    by (rule fold_keeps [where P = "drawn_inside T px", OF assms(3)], rule fold_keeps [where P = "drawn_inside T px"]) (simp_all add: draw_pixel_inside [OF assms(1)])
  show ?thesis unfolding draw_caption_def Let_def
  proof (rule fold_keeps [where P = "drawn_inside T px", OF box])
    fix i f assume i: "i \<in> set [0..<unat (cpe_text_len e)]" and f: "drawn_inside T px f"
    then have l: "i < length (cpe_text e)" using assms(2) by (simp add: caption_readable_def)
    have "cpe_text e ! i \<in> set (take (unat (cpe_text_len e)) (cpe_text e))" using i l by (auto simp: in_set_conv_nth intro!: exI [of _ i])
    then have "cpe_text e ! i \<noteq> 0x7F" using assms(2) by (auto simp: caption_readable_def)
    then show "drawn_inside T px (if i < length (cpe_text e) then draw_glyph B T (argb (cpr_fg_color r)) (cpr_font_scale r) (gx i) gy (cpe_text e ! i) f
        else f\<lparr>cpf_fault := True\<rparr>)" for gx gy
      using draw_glyph_inside [OF assms(1) f] l by simp
  qed
qed

text \<open>Drawing captions without the DEL character into a frame that holds \<open>height\<close> rows of \<open>stride\<close> bytes reads and writes only inside
  the frame, the font and the texts, whatever position, size and colours come out, and changes no byte that is not part of a visible pixel;
  the answer is the number of captions showing.\<close>

theorem caption_draw_inside_frame:
  assumes "target_fits \<lparr>dwt_width = width, dwt_height = height, dwt_stride = stride\<rparr> (length (cpf_pixels f))"
    and "\<not> cpf_fault f" and "list_all caption_readable events"
  shows "\<exists>f'. caption_renderer_draw B (Some r) (Some f) width height stride (Some events) now_us
          = (int (length (filter (caption_active now_us) events)), Some f')
      \<and> drawn_inside \<lparr>dwt_width = width, dwt_height = height, dwt_stride = stride\<rparr> (cpf_pixels f) f'"
proof -
  let ?T = "\<lparr>dwt_width = width, dwt_height = height, dwt_stride = stride\<rparr>"
  have "drawn_inside ?T (cpf_pixels f) (fold (draw_caption B r ?T) (filter (caption_active now_us) events) f)"
  proof (rule fold_keeps)
    show "drawn_inside ?T (cpf_pixels f) f" using assms(2) by (simp add: drawn_inside_def)
    show "drawn_inside ?T (cpf_pixels f) (draw_caption B r ?T e g)"
      if "e \<in> set (filter (caption_active now_us) events)" "drawn_inside ?T (cpf_pixels f) g" for e g
      using draw_caption_inside [OF assms(1) _ that(2)] that(1) assms(3) by (simp add: list_all_iff)
  qed
  moreover have "0 < width" "0 < height" using assms(1) by (simp_all add: target_fits_def)
  ultimately show ?thesis by (simp add: Let_def)
qed

lemma caption_draw_inside_frame_witness:
  "\<exists>f'. caption_renderer_draw \<lparr>bl_channel = \<lambda>a s d. s, bl_alpha = \<lambda>a d. a\<rparr> (caption_renderer_create True None)
        (Some \<lparr>cpf_pixels = replicate 100 0, cpf_fault = False\<rparr>) 2 3 12
        (Some [caption_event_zero\<lparr>cpe_duration_us := 9, cpe_text_len := 1, cpe_text := [65]\<rparr>, caption_event_zero]) 4 = (1, Some f')
      \<and> drawn_inside \<lparr>dwt_width = 2, dwt_height = 3, dwt_stride = 12\<rparr> (replicate 100 0) f'"
  using caption_draw_inside_frame [where f = "\<lparr>cpf_pixels = replicate 100 0, cpf_fault = False\<rparr>" and width = 2 and height = 3 and stride = 12
      and events = "[caption_event_zero\<lparr>cpe_duration_us := 9, cpe_text_len := 1, cpe_text := [65]\<rparr>, caption_event_zero]" and now_us = 4
      and B = "\<lparr>bl_channel = \<lambda>a s d. s, bl_alpha = \<lambda>a d. a\<rparr>" and r = "the (caption_renderer_create True None)"]
  by (simp add: target_fits_def caption_readable_def caption_event_zero_def caption_active_def caption_renderer_create_def
      word_le_nat_alt word_less_nat_alt del: replicate.simps)

text \<open>The DEL character reads behind the font; the last two rows of every other glyph are the first two of the next.\<close>

lemma glyph_del_outside_font: "glyph_row 0x7F 5 = None"
  by (simp add: glyph_row_def glyph_index_def FONT5X7_def)

lemma glyph_row_overlap: "ch \<ge> 32 \<Longrightarrow> ch < 127 \<Longrightarrow> row < 2 \<Longrightarrow> glyph_row ch (5 + row) = glyph_row (ch + 1) row"
proof -
  assume a: "ch \<ge> 32" "ch < 127" "row < 2"
  then have u: "32 \<le> unat ch" "unat ch < 127" by (simp_all add: word_le_nat_alt word_less_nat_alt)
  then have "unat (ch + 1) = unat ch + 1" by (simp add: unat_word_ariths)
  then have "glyph_index ch (5 + row) = glyph_index (ch + 1) row" using u by (simp add: glyph_index_def)
  then show ?thesis by (simp add: glyph_row_def)
qed

end
