(* ===== verification/Hotreload.thy ===== *)
theory Hotreload
  imports Slots
begin

text \<open>
  Reloading plug-ins, \<^verbatim>\<open>src/src/hotreload\<close>: entries (\<^verbatim>\<open>hr_entry.c\<close>), the manager of at most 16 of them (\<^verbatim>\<open>hr_manager.c\<close>) and its
  statistics (\<^verbatim>\<open>hr_stats.c\<close>).  The library loader is \<open>dl_world\<close>: the answers that it will give, in order, and the log of what
  was opened and closed.
\<close>

section \<open>The loader\<close>

datatype dl_event = DlOpened string nat | DlClosed nat

record dl_world =
  dlw_answers :: "nat \<Rightarrow> nat option"
  dlw_asked :: nat
  dlw_log :: "dl_event list"

text \<open>Without functions of its own the manager uses stubs: every library opens with the handle 0xDEAD, and nothing is closed.\<close>

definition dl_open :: "bool \<Rightarrow> string \<Rightarrow> dl_world \<Rightarrow> nat option \<times> dl_world" where
  "dl_open stub path w = (if stub then (Some 0xDEAD, w)
     else case dlw_answers w (dlw_asked w) of
       None \<Rightarrow> (None, w\<lparr>dlw_asked := dlw_asked w + 1\<rparr>)
     | Some h \<Rightarrow> (Some h, w\<lparr>dlw_asked := dlw_asked w + 1, dlw_log := dlw_log w @ [DlOpened path h]\<rparr>))"

definition dl_close :: "bool \<Rightarrow> nat \<Rightarrow> dl_world \<Rightarrow> dl_world" where
  "dl_close stub h w = (if stub then w else w\<lparr>dlw_log := dlw_log w @ [DlClosed h]\<rparr>)"

section \<open>Entries\<close>

definition HR_PATH_MAX :: nat where "HR_PATH_MAX = 256"
definition HR_MAX_PLUGINS :: nat where "HR_MAX_PLUGINS = 16"

datatype hr_state = HR_STATE_UNLOADED | HR_STATE_LOADED | HR_STATE_FAILED

record hr_entry =
  hre_path :: string
  hre_handle :: "nat option"
  hre_version :: u32
  hre_state :: hr_state
  hre_last_load_us :: u64

definition hr_entry_zero :: hr_entry where
  "hr_entry_zero = \<lparr>hre_path = [], hre_handle = None, hre_version = 0, hre_state = HR_STATE_UNLOADED, hre_last_load_us = 0\<rparr>"

fun hr_entry_init :: "hr_entry option \<Rightarrow> string option \<Rightarrow> int \<times> hr_entry option" where
  "hr_entry_init (Some e) path = (0, Some (hr_entry_zero\<lparr>hre_path := (case path of None \<Rightarrow> [] | Some p \<Rightarrow> cstr_fit HR_PATH_MAX p)\<rparr>))"
| "hr_entry_init None path = (-1, None)"

definition hr_entry_clear :: "hr_entry option \<Rightarrow> hr_entry option" where
  "hr_entry_clear e = map_option (\<lambda>e. hr_entry_zero\<lparr>hre_path := hre_path e\<rparr>) e"

fun hr_state_name :: "hr_state \<Rightarrow> string" where
  "hr_state_name HR_STATE_UNLOADED = ''UNLOADED''"
| "hr_state_name HR_STATE_LOADED = ''LOADED''"
| "hr_state_name HR_STATE_FAILED = ''FAILED''"

section \<open>The manager\<close>

text \<open>The two arrays \<open>entries\<close> and \<open>used\<close> are one list of pairs.\<close>

record hr_manager =
  hrm_slots :: "(hr_entry \<times> bool) list"
  hrm_count :: nat
  hrm_stub_open :: bool
  hrm_stub_close :: bool

definition hr_manager_create :: "bool \<Rightarrow> bool \<Rightarrow> bool \<Rightarrow> hr_manager option" where
  "hr_manager_create mem dlopen_given dlclose_given =
     (if mem then Some \<lparr>hrm_slots = replicate HR_MAX_PLUGINS (hr_entry_zero, False), hrm_count = 0,
        hrm_stub_open = (\<not> dlopen_given), hrm_stub_close = (\<not> dlclose_given)\<rparr> else None)"

definition hr_manager_plugin_count :: "hr_manager option \<Rightarrow> nat" where
  "hr_manager_plugin_count mgr = (case mgr of None \<Rightarrow> 0 | Some m \<Rightarrow> hrm_count m)"

definition hr_find_slot :: "hr_manager \<Rightarrow> string \<Rightarrow> nat option" where
  "hr_find_slot m path = first_idx (\<lambda>(e, u). u \<and> strncmp_eq HR_PATH_MAX (hre_path e) path) (hrm_slots m)"

fun hr_manager_register :: "hr_manager option \<Rightarrow> string option \<Rightarrow> int \<times> hr_manager option" where
  "hr_manager_register (Some m) (Some path) =
     (if hrm_count m \<ge> HR_MAX_PLUGINS then (-1, Some m)
      else if hr_find_slot m path \<noteq> None then (-1, Some m)
      else case first_idx (\<lambda>(e, u). \<not> u) (hrm_slots m) of
        None \<Rightarrow> (-1, Some m)
      | Some i \<Rightarrow> (0, Some (m\<lparr>hrm_slots := (hrm_slots m)[i := (the (snd (hr_entry_init (Some (fst (hrm_slots m ! i))) (Some path))), True)],
          hrm_count := hrm_count m + 1\<rparr>)))"
| "hr_manager_register mgr path = (-1, mgr)"

text \<open>The last part of loading and reloading: open the library and take note.\<close>

definition hr_open_entry :: "bool \<Rightarrow> string \<Rightarrow> u64 \<Rightarrow> hr_entry \<Rightarrow> dl_world \<Rightarrow> int \<times> hr_entry \<times> dl_world" where
  "hr_open_entry stub path now_us e w = (case dl_open stub path w of
     (None, w) \<Rightarrow> (-1, e\<lparr>hre_state := HR_STATE_FAILED\<rparr>, w)
   | (Some h, w) \<Rightarrow> (0, e\<lparr>hre_handle := Some h, hre_version := hre_version e + 1, hre_state := HR_STATE_LOADED, hre_last_load_us := now_us\<rparr>, w))"

definition hr_close_entry :: "bool \<Rightarrow> hr_entry \<Rightarrow> dl_world \<Rightarrow> hr_entry \<times> dl_world" where
  "hr_close_entry stub e w = (case hre_handle e of None \<Rightarrow> (e, w) | Some h \<Rightarrow> (e\<lparr>hre_handle := None\<rparr>, dl_close stub h w))"

definition hr_upd :: "nat \<Rightarrow> hr_entry \<Rightarrow> hr_manager \<Rightarrow> hr_manager" where
  "hr_upd i e m = m\<lparr>hrm_slots := (hrm_slots m)[i := (e, snd (hrm_slots m ! i))]\<rparr>"

fun hr_manager_load :: "hr_manager option \<Rightarrow> string option \<Rightarrow> u64 \<Rightarrow> dl_world \<Rightarrow> int \<times> hr_manager option \<times> dl_world" where
  "hr_manager_load (Some m) (Some path) now_us w = (case hr_find_slot m path of
     None \<Rightarrow> (-1, Some m, w)
   | Some i \<Rightarrow> (case hr_open_entry (hrm_stub_open m) path now_us (fst (hrm_slots m ! i)) w of (r, e, w) \<Rightarrow> (r, Some (hr_upd i e m), w)))"
| "hr_manager_load mgr path now_us w = (-1, mgr, w)"

fun hr_manager_reload :: "hr_manager option \<Rightarrow> string option \<Rightarrow> u64 \<Rightarrow> dl_world \<Rightarrow> int \<times> hr_manager option \<times> dl_world" where
  "hr_manager_reload (Some m) (Some path) now_us w = (case hr_find_slot m path of
     None \<Rightarrow> (-1, Some m, w)
   | Some i \<Rightarrow> (case hr_close_entry (hrm_stub_close m) (fst (hrm_slots m ! i)) w of
       (e, w) \<Rightarrow> (case hr_open_entry (hrm_stub_open m) path now_us e w of (r, e, w) \<Rightarrow> (r, Some (hr_upd i e m), w))))"
| "hr_manager_reload mgr path now_us w = (-1, mgr, w)"

fun hr_manager_unload :: "hr_manager option \<Rightarrow> string option \<Rightarrow> dl_world \<Rightarrow> int \<times> hr_manager option \<times> dl_world" where
  "hr_manager_unload (Some m) (Some path) w = (case hr_find_slot m path of
     None \<Rightarrow> (-1, Some m, w)
   | Some i \<Rightarrow> (case hr_close_entry (hrm_stub_close m) (fst (hrm_slots m ! i)) w of
       (e, w) \<Rightarrow> (0, Some (hr_upd i (e\<lparr>hre_state := HR_STATE_UNLOADED\<rparr>) m), w)))"
| "hr_manager_unload mgr path w = (-1, mgr, w)"

fun hr_manager_get :: "hr_manager option \<Rightarrow> string option \<Rightarrow> hr_entry option" where
  "hr_manager_get (Some m) (Some path) = map_option (\<lambda>i. fst (hrm_slots m ! i)) (hr_find_slot m path)"
| "hr_manager_get mgr path = None"

section \<open>Statistics\<close>

record hr_stats =
  hrs_reload_count :: u64
  hrs_fail_count :: u64
  hrs_last_reload_us :: u64
  hrs_loaded_plugins :: int

definition hr_stats_zero :: hr_stats where
  "hr_stats_zero = \<lparr>hrs_reload_count = 0, hrs_fail_count = 0, hrs_last_reload_us = 0, hrs_loaded_plugins = 0\<rparr>"

definition hr_stats_create :: "bool \<Rightarrow> hr_stats option" where
  "hr_stats_create mem = (if mem then Some hr_stats_zero else None)"

definition hr_stats_reset :: "hr_stats option \<Rightarrow> hr_stats option" where
  "hr_stats_reset st = map_option (\<lambda>_. hr_stats_zero) st"

fun hr_stats_record_reload :: "hr_stats option \<Rightarrow> int \<Rightarrow> u64 \<Rightarrow> int \<times> hr_stats option" where
  "hr_stats_record_reload (Some st) success now_us =
     (0, Some (if success \<noteq> 0 then st\<lparr>hrs_reload_count := hrs_reload_count st + 1, hrs_last_reload_us := now_us\<rparr>
               else st\<lparr>hrs_fail_count := hrs_fail_count st + 1\<rparr>))"
| "hr_stats_record_reload None success now_us = (-1, None)"

fun hr_stats_set_loaded :: "hr_stats option \<Rightarrow> int \<Rightarrow> int \<times> hr_stats option" where
  "hr_stats_set_loaded (Some st) n = (0, Some (st\<lparr>hrs_loaded_plugins := n\<rparr>))"
| "hr_stats_set_loaded None n = (-1, None)"

fun hr_stats_snapshot :: "hr_stats option \<Rightarrow> hr_stats option \<Rightarrow> int \<times> hr_stats option" where
  "hr_stats_snapshot (Some st) (Some out) = (0, Some st)"
| "hr_stats_snapshot st out = (-1, out)"

section \<open>The manager is a map of paths\<close>

datatype hr_op = HrRegister string | HrLoad string u64 | HrReload string u64 | HrUnload string | HrGet string | HrCount

datatype hr_ans = HrInt int | HrGot "hr_entry option"

fun hr_call :: "hr_op \<Rightarrow> hr_manager \<times> dl_world \<Rightarrow> hr_ans \<times> hr_manager \<times> dl_world" where
  "hr_call (HrRegister p) (m, w) = (case hr_manager_register (Some m) (Some p) of (r, m) \<Rightarrow> (HrInt r, the m, w))"
| "hr_call (HrLoad p now) (m, w) = (case hr_manager_load (Some m) (Some p) now w of (r, m, w) \<Rightarrow> (HrInt r, the m, w))"
| "hr_call (HrReload p now) (m, w) = (case hr_manager_reload (Some m) (Some p) now w of (r, m, w) \<Rightarrow> (HrInt r, the m, w))"
| "hr_call (HrUnload p) (m, w) = (case hr_manager_unload (Some m) (Some p) w of (r, m, w) \<Rightarrow> (HrInt r, the m, w))"
| "hr_call (HrGet p) (m, w) = (HrGot (hr_manager_get (Some m) (Some p)), m, w)"
| "hr_call HrCount (m, w) = (HrInt (int (hr_manager_plugin_count (Some m))), m, w)"

text \<open>On a map: what an operation does to an entry is the same, finding it is \<open>f p\<close>.\<close>

definition hr_at :: "string \<Rightarrow> (hr_entry \<Rightarrow> int \<times> hr_entry \<times> dl_world) \<Rightarrow> (string \<rightharpoonup> hr_entry) \<times> dl_world \<Rightarrow> hr_ans \<times> (string \<rightharpoonup> hr_entry) \<times> dl_world" where
  "hr_at p act s = (case s of (f, w) \<Rightarrow> (case f p of None \<Rightarrow> (HrInt (-1), f, w)
     | Some e \<Rightarrow> (case act e of (r, e', w') \<Rightarrow> (HrInt r, f(p \<mapsto> e'), w'))))"

fun hr_spec :: "bool \<Rightarrow> bool \<Rightarrow> hr_op \<Rightarrow> (string \<rightharpoonup> hr_entry) \<times> dl_world \<Rightarrow> hr_ans \<times> (string \<rightharpoonup> hr_entry) \<times> dl_world" where
  "hr_spec so sc (HrRegister p) (f, w) = (if f p = None \<and> card (dom f) < HR_MAX_PLUGINS then (HrInt 0, f(p \<mapsto> hr_entry_zero\<lparr>hre_path := p\<rparr>), w)
     else (HrInt (-1), f, w))"
| "hr_spec so sc (HrLoad p now) (f, w) = hr_at p (\<lambda>e. hr_open_entry so p now e w) (f, w)"
| "hr_spec so sc (HrReload p now) (f, w) = hr_at p (\<lambda>e. case hr_close_entry sc e w of (e, w) \<Rightarrow> hr_open_entry so p now e w) (f, w)"
| "hr_spec so sc (HrUnload p) (f, w) = hr_at p (\<lambda>e. case hr_close_entry sc e w of (e, w) \<Rightarrow> (0, e\<lparr>hre_state := HR_STATE_UNLOADED\<rparr>, w)) (f, w)"
| "hr_spec so sc (HrGet p) (f, w) = (HrGot (f p), f, w)"
| "hr_spec so sc HrCount (f, w) = (HrInt (int (card (dom f))), f, w)"

fun hr_op_path :: "hr_op \<Rightarrow> string" where
  "hr_op_path (HrRegister p) = p" | "hr_op_path (HrLoad p now) = p" | "hr_op_path (HrReload p now) = p" | "hr_op_path (HrUnload p) = p"
| "hr_op_path (HrGet p) = p" | "hr_op_path HrCount = []"

definition hr_slot_key :: "hr_entry \<times> bool \<Rightarrow> string" where "hr_slot_key s = hre_path (fst s)"

lemma hr_slot_key_pair [simp]: "hr_slot_key (e, u) = hre_path e"
  by (simp add: hr_slot_key_def)

definition hr_rel :: "bool \<Rightarrow> bool \<Rightarrow> hr_manager \<times> dl_world \<Rightarrow> (string \<rightharpoonup> hr_entry) \<times> dl_world \<Rightarrow> bool" where
  "hr_rel so sc s t \<longleftrightarrow> (case (s, t) of ((m, w), (f, w')) \<Rightarrow> w = w' \<and> hrm_stub_open m = so \<and> hrm_stub_close m = sc
     \<and> slot_map_rel snd hr_slot_key fst HR_MAX_PLUGINS (hrm_slots m) (hrm_count m) f
     \<and> list_all (\<lambda>(e, u). length (hre_path e) < HR_PATH_MAX) (hrm_slots m))"

lemma hr_find:
  assumes "hr_rel so sc (m, w) (f, w')" and "length p < HR_PATH_MAX"
  shows "hr_find_slot m p = first_idx (\<lambda>s. snd s \<and> hr_slot_key s = p) (hrm_slots m)"
  unfolding hr_find_slot_def
proof (rule first_idx_cong)
  fix s assume "s \<in> set (hrm_slots m)"
  then have "length (hre_path (fst s)) < HR_PATH_MAX" using assms(1) by (auto simp: hr_rel_def list_all_iff)
  then show "(\<lambda>(e, u). u \<and> strncmp_eq HR_PATH_MAX (hre_path e) p) s = (snd s \<and> hr_slot_key s = p)"
    using assms(2) by (cases s) (simp add: strncmp_eq_short hr_slot_key_def)
qed

lemma hr_upd_rel:
  assumes r: "hr_rel so sc (m, w) (f, w)" and i: "first_idx (\<lambda>s. snd s \<and> hr_slot_key s = p) (hrm_slots m) = Some i"
    and e: "hre_path e = p" and p: "length p < HR_PATH_MAX"
  shows "hr_rel so sc (hr_upd i e m, w') (f(p \<mapsto> e), w')"
proof -
  have s: "slot_map_rel snd hr_slot_key fst HR_MAX_PLUGINS (hrm_slots m) (hrm_count m) f" using r by (simp add: hr_rel_def)
  have "snd (hrm_slots m ! i)" using first_idx_SomeD [OF i] by simp
  then have "slot_map_rel snd hr_slot_key fst HR_MAX_PLUGINS ((hrm_slots m)[i := (e, snd (hrm_slots m ! i))]) (hrm_count m) (f(p \<mapsto> e))"
    using slot_map_replace [OF s i, of "(e, snd (hrm_slots m ! i))"] e by simp
  moreover have "list_all (\<lambda>(e, u). length (hre_path e) < HR_PATH_MAX) ((hrm_slots m)[i := (e, snd (hrm_slots m ! i))])"
    using r e p by (intro list_all_update) (simp_all add: hr_rel_def)
  ultimately show ?thesis using r by (simp add: hr_rel_def hr_upd_def)
qed

lemma hr_open_path: "hr_open_entry so p now e w = (r, e', w') \<Longrightarrow> hre_path e' = hre_path e"
  by (auto simp: hr_open_entry_def split: prod.splits option.splits)

lemma hr_close_path: "hr_close_entry sc e w = (e', w') \<Longrightarrow> hre_path e' = hre_path e"
  by (auto simp: hr_close_entry_def split: option.splits)

text \<open>An operation on the entry found is the operation on the entry of the map.\<close>

lemma hr_at_rel:
  assumes r: "hr_rel so sc (m, w) (f, w)" and p: "length p < HR_PATH_MAX" and act: "\<And>e r e' w'. act e = (r, e', w') \<Longrightarrow> hre_path e' = hre_path e"
  shows "case hr_find_slot m p of None \<Rightarrow> hr_at p act (f, w) = (HrInt (-1), f, w)
    | Some i \<Rightarrow> (case act (fst (hrm_slots m ! i)) of (x, e', w') \<Rightarrow>
        fst (hr_at p act (f, w)) = HrInt x \<and> hr_rel so sc (hr_upd i e' m, w') (snd (hr_at p act (f, w))))"
proof (cases "first_idx (\<lambda>s. snd s \<and> hr_slot_key s = p) (hrm_slots m)")
  case None
  moreover have "slot_map_rel snd hr_slot_key fst HR_MAX_PLUGINS (hrm_slots m) (hrm_count m) f" using r by (simp add: hr_rel_def)
  then have "f p = None" using None by (simp add: slot_map_missing)
  ultimately show ?thesis by (simp add: hr_find [OF r p] hr_at_def)
next
  case (Some i)
  have s: "slot_map_rel snd hr_slot_key fst HR_MAX_PLUGINS (hrm_slots m) (hrm_count m) f" using r by (simp add: hr_rel_def)
  have f: "f p = Some (fst (hrm_slots m ! i))" "hre_path (fst (hrm_slots m ! i)) = p"
    using slot_map_found [OF s Some] by (simp_all add: hr_slot_key_def)
  obtain x e' w' where a: "act (fst (hrm_slots m ! i)) = (x, e', w')" by (metis prod_cases3)
  have "hre_path e' = p" using act [OF a] f by simp
  from hr_upd_rel [OF r Some this p, of w'] show ?thesis by (simp add: hr_find [OF r p] Some a f hr_at_def)
qed

interpretation hr: simulation hr_call "hr_spec so sc" "hr_rel so sc" "\<lambda>op. length (hr_op_path op) < HR_PATH_MAX"
proof
  fix s t and op :: hr_op
  assume r0: "hr_rel so sc s t" and p: "length (hr_op_path op) < HR_PATH_MAX"
  obtain m w f where st: "s = (m, w)" "t = (f, w)" using r0 by (cases s; cases t) (auto simp: hr_rel_def)
  note r = r0 [unfolded st]
  have sl: "slot_map_rel snd hr_slot_key fst HR_MAX_PLUGINS (hrm_slots m) (hrm_count m) f" and stubs: "hrm_stub_open m = so" "hrm_stub_close m = sc"
    and short: "list_all (\<lambda>(e, u). length (hre_path e) < HR_PATH_MAX) (hrm_slots m)" using r by (simp_all add: hr_rel_def)
  show "fst (hr_call op s) = fst (hr_spec so sc op t) \<and> hr_rel so sc (snd (hr_call op s)) (snd (hr_spec so sc op t))"
  proof (cases op)
    case (HrRegister q)
    then have q: "length q < HR_PATH_MAX" using p by simp
    have miss: "hr_find_slot m q = None \<longleftrightarrow> f q = None" using slot_map_missing [OF sl, of q] by (simp add: hr_find [OF r q])
    show ?thesis
    proof (cases "f q = None \<and> hrm_count m < HR_MAX_PLUGINS")
      case True
      then obtain i where i: "first_idx (\<lambda>s. \<not> snd s) (hrm_slots m) = Some i" using slot_map_room [OF sl] by blast
      have j: "first_idx (\<lambda>(e, u). \<not> u) (hrm_slots m) = Some i" using i by (simp add: case_prod_unfold)
      let ?e = "hr_entry_zero\<lparr>hre_path := q\<rparr>"
      have "slot_map_rel snd hr_slot_key fst HR_MAX_PLUGINS ((hrm_slots m)[i := (?e, True)]) (Suc (hrm_count m)) (f(q \<mapsto> ?e))"
        using slot_map_fill [OF sl i, of "(?e, True)"] True by simp
      moreover have "list_all (\<lambda>(e, u). length (hre_path e) < HR_PATH_MAX) ((hrm_slots m)[i := (?e, True)])"
        using short q by (intro list_all_update) simp_all
      ultimately show ?thesis using True j miss q stubs slot_map_card [OF sl] by (simp add: HrRegister st hr_rel_def)
    next
      case False
      then show ?thesis using miss r slot_map_card [OF sl] by (auto simp: HrRegister st)
    qed
  next
    case (HrLoad q now)
    then show ?thesis using hr_at_rel [OF r, of q "\<lambda>e. hr_open_entry so q now e w"] p r stubs
      by (auto simp: st hr_open_path split: option.splits prod.splits)
  next
    case (HrReload q now)
    have "hre_path e' = hre_path e" if "(case hr_close_entry sc e w of (e, w) \<Rightarrow> hr_open_entry so q now e w) = (x, e', w')" for e x e' w'
      using that by (auto split: prod.splits dest!: hr_open_path hr_close_path)
    from hr_at_rel [OF r, of q "\<lambda>e. case hr_close_entry sc e w of (e, w) \<Rightarrow> hr_open_entry so q now e w", OF _ this] show ?thesis
      using p r stubs by (auto simp: HrReload st split: option.splits prod.splits)
  next
    case (HrUnload q)
    have "hre_path e' = hre_path e" if "(case hr_close_entry sc e w of (e, w) \<Rightarrow> (0 :: int, e\<lparr>hre_state := HR_STATE_UNLOADED\<rparr>, w)) = (x, e', w')" for e x e' w'
      using that by (auto split: prod.splits dest!: hr_close_path)
    from hr_at_rel [OF r, of q "\<lambda>e. case hr_close_entry sc e w of (e, w) \<Rightarrow> (0, e\<lparr>hre_state := HR_STATE_UNLOADED\<rparr>, w)", OF _ this] show ?thesis
      using p r stubs by (auto simp: HrUnload st split: option.splits prod.splits)
  next
    case (HrGet q)
    then show ?thesis using p r slot_map_lookup [OF sl, of q] by (simp add: st hr_find [OF r])
  next
    case HrCount
    then show ?thesis using r slot_map_card [OF sl] by (simp add: st hr_manager_plugin_count_def)
  qed
qed

text \<open>For paths that fit, the manager is a map of at most 16 paths to their entries under any calls, with the library loader called
  for exactly the same libraries in the same order.\<close>

theorem hotreload_refines_map:
  assumes "hr_manager_create mem dlopen_given dlclose_given = Some m" and "\<forall>op \<in> set ops. length (hr_op_path op) < HR_PATH_MAX"
  shows "fst (run_calls hr_call ops (m, w)) = fst (run_calls (hr_spec (\<not> dlopen_given) (\<not> dlclose_given)) ops (Map.empty, w))
    \<and> snd (snd (run_calls hr_call ops (m, w))) = snd (snd (run_calls (hr_spec (\<not> dlopen_given) (\<not> dlclose_given)) ops (Map.empty, w)))"
proof -
  have "hr_rel (\<not> dlopen_given) (\<not> dlclose_given) (m, w) (Map.empty, w)"
    using assms(1) slot_map_empty [of snd "(hr_entry_zero, False)" hr_slot_key fst HR_MAX_PLUGINS]
    by (auto simp: hr_manager_create_def hr_rel_def hr_entry_zero_def HR_PATH_MAX_def list_all_iff split: if_splits)
  from hr.run [OF this assms(2)] show ?thesis by (auto simp: hr_rel_def)
qed

lemma hotreload_refines_map_witness:
  "fst (run_calls hr_call [HrRegister ''a.so'', HrLoad ''a.so'' 5, HrReload ''a.so'' 9, HrRegister ''a.so'', HrCount]
      (the (hr_manager_create True True True), \<lparr>dlw_answers = \<lambda>n. if n = 1 then None else Some n, dlw_asked = 0, dlw_log = []\<rparr>))
    = [HrInt 0, HrInt 0, HrInt (-1), HrInt (-1), HrInt 1]"
  by (subst hotreload_refines_map [where mem = True and dlopen_given = True and dlclose_given = True, THEN conjunct1])
    (simp_all add: hr_manager_create_def HR_PATH_MAX_def HR_MAX_PLUGINS_def hr_at_def hr_open_entry_def hr_close_entry_def dl_open_def dl_close_def
      hr_entry_zero_def del: replicate.simps)

section \<open>Handles\<close>

text \<open>What the entries of the map hold open, and what the log says is open.\<close>

definition hr_held :: "(string \<rightharpoonup> hr_entry) \<Rightarrow> string set" where
  "hr_held f = {p. \<exists>e. f p = Some e \<and> hre_handle e \<noteq> None}"

definition dl_balance :: "dl_event list \<Rightarrow> int" where
  "dl_balance log = int (length (filter (\<lambda>e. case e of DlOpened p h \<Rightarrow> True | _ \<Rightarrow> False) log))
     - int (length (filter (\<lambda>e. case e of DlClosed h \<Rightarrow> True | _ \<Rightarrow> False) log))"

definition hr_balanced :: "(string \<rightharpoonup> hr_entry) \<times> dl_world \<Rightarrow> bool" where
  "hr_balanced s \<longleftrightarrow> finite (dom (fst s)) \<and> dl_balance (dlw_log (snd s)) = int (card (hr_held (fst s)))"

lemma hr_held_upd: "hr_held (f(p \<mapsto> e)) = (if hre_handle e = None then hr_held f - {p} else insert p (hr_held f))"
  by (auto simp: hr_held_def)

lemma finite_held: "finite (dom f) \<Longrightarrow> finite (hr_held f)"
  by (rule finite_subset [of _ "dom f"]) (auto simp: hr_held_def)

lemma dl_balance_simps [simp]: "dl_balance (xs @ ys) = dl_balance xs + dl_balance ys" "dl_balance (DlOpened p h # xs) = dl_balance xs + 1"
    "dl_balance (DlClosed h # xs) = dl_balance xs - 1" "dl_balance [] = 0"
  by (simp_all add: dl_balance_def)

text \<open>Reloading and unloading keep the balance, whether the library opens or not.\<close>

lemma hr_reload_balanced:
  assumes b: "hr_balanced (f, w)" and op: "\<And>q now. op \<noteq> HrLoad q now"
  shows "hr_balanced (snd (hr_spec False False op (f, w)))"
proof -
  have fin: "finite (dom f)" and bal: "dl_balance (dlw_log w) = int (card (hr_held f))" using b by (simp_all add: hr_balanced_def)
  note fh = finite_held [OF fin]
  have step: "hr_balanced (f(p \<mapsto> e'), w')" if "f p = Some e" and "dl_balance (dlw_log w') = dl_balance (dlw_log w)
      - (if hre_handle e = None then 0 else 1) + (if hre_handle e' = None then 0 else 1)" for p e e' w'
  proof -
    have "p \<in> hr_held f \<longleftrightarrow> hre_handle e \<noteq> None" using that(1) by (simp add: hr_held_def)
    moreover have "card (hr_held f - {p}) = (if p \<in> hr_held f then card (hr_held f) - 1 else card (hr_held f))" using fh by simp
    moreover have "p \<in> hr_held f \<Longrightarrow> 0 < card (hr_held f)" using fh by (auto simp: card_gt_0_iff)
    ultimately show ?thesis using that(2) fin fh bal
      by (auto simp: hr_balanced_def hr_held_upd card_insert_if insert_absorb)
  qed
  show ?thesis
  proof (cases op)
    case (HrRegister q)
    have "hr_held (f(q \<mapsto> hr_entry_zero\<lparr>hre_path := q\<rparr>)) = hr_held f" if "f q = None"
      using that by (auto simp: hr_held_upd hr_entry_zero_def) (auto simp: hr_held_def)
    then show ?thesis using b by (auto simp: HrRegister hr_balanced_def)
  next
    case (HrLoad q now)
    then show ?thesis using op by simp
  next
    case (HrReload q now)
    then show ?thesis using b step [of q] 
      by (auto simp: hr_at_def hr_open_entry_def hr_close_entry_def dl_open_def dl_close_def split: option.splits prod.splits)
  next
    case (HrUnload q)
    then show ?thesis using b step [of q]
      by (auto simp: hr_at_def hr_close_entry_def dl_close_def split: option.splits prod.splits)
  qed (use b in simp_all)
qed

text \<open>As long as libraries are loaded through reload only, every handle that was opened and not closed is held by exactly one
  registered entry, so nothing leaks and nothing is closed twice.\<close>

theorem hotreload_no_leak:
  assumes "hr_manager_create mem True True = Some m" and "\<forall>op \<in> set ops. length (hr_op_path op) < HR_PATH_MAX"
    and "\<forall>q now. HrLoad q now \<notin> set ops" and "dlw_log w = []"
  shows "dl_balance (dlw_log (snd (snd (run_calls hr_call ops (m, w)))))
    = int (card (hr_held (fst (snd (run_calls (hr_spec False False) ops (Map.empty, w))))))"
proof -
  have "hr_balanced (snd (run_calls (hr_spec False False) ops s))" if "hr_balanced s" "\<forall>q now. HrLoad q now \<notin> set ops" for s
    using that
  proof (induction ops arbitrary: s)
    case (Cons op ops)
    have "hr_balanced (snd (hr_spec False False op s))" using Cons.prems hr_reload_balanced [of "fst s" "snd s" op] by auto
    with Cons.IH [OF this] Cons.prems(2) show ?case by (simp add: case_prod_beta)
  qed simp
  from this [of "(Map.empty, w)"] assms(3,4) have "hr_balanced (snd (run_calls (hr_spec False False) ops (Map.empty, w)))"
    by (simp add: hr_balanced_def hr_held_def)
  moreover have "snd (snd (run_calls hr_call ops (m, w))) = snd (snd (run_calls (hr_spec False False) ops (Map.empty, w)))"
    using hotreload_refines_map [OF assms(1,2), of w] by simp
  ultimately show ?thesis by (simp add: hr_balanced_def)
qed

lemma hotreload_no_leak_witness:
  "dl_balance (dlw_log (snd (snd (run_calls hr_call [HrRegister ''a.so'', HrReload ''a.so'' 5, HrReload ''a.so'' 9]
      (the (hr_manager_create True True True), \<lparr>dlw_answers = \<lambda>n. Some n, dlw_asked = 0, dlw_log = []\<rparr>))))) = 1"
  by (subst hotreload_no_leak [where mem = True])
    (simp_all add: hr_manager_create_def HR_PATH_MAX_def HR_MAX_PLUGINS_def hr_at_def hr_open_entry_def hr_close_entry_def dl_open_def dl_close_def
      hr_entry_zero_def hr_held_def del: replicate.simps)

text \<open>Loading twice leaves the first handle open with nobody holding it.\<close>

lemma hotreload_load_leaks:
  "dl_balance (dlw_log (snd (snd (run_calls (hr_spec False False) [HrRegister p, HrLoad p t, HrLoad p t, HrUnload p]
      (Map.empty, \<lparr>dlw_answers = \<lambda>n. Some n, dlw_asked = 0, dlw_log = []\<rparr>))))) = 1"
  by (simp add: HR_MAX_PLUGINS_def hr_at_def hr_open_entry_def hr_close_entry_def dl_open_def dl_close_def hr_entry_zero_def dl_balance_def)

end
