(* ===== verification/Metrics.thy ===== *)
theory Metrics
  imports RS_Prelude
begin

text \<open>
  Named gauges, \<^verbatim>\<open>src/src/metrics\<close>: a gauge (\<^verbatim>\<open>mx_gauge.c\<close>), the registry of at most 64 of them (\<^verbatim>\<open>mx_registry.c\<close>) and
  snapshots (\<^verbatim>\<open>mx_snapshot.c\<close>).  Pointers to gauges are their indices in the registry.
\<close>

definition MX_GAUGE_NAME_MAX :: nat where "MX_GAUGE_NAME_MAX = 48"
definition MX_MAX_GAUGES :: nat where "MX_MAX_GAUGES = 64"

record mx_gauge =
  mxg_name :: string
  mxg_value :: "64 word"
  mxg_in_use :: bool

definition mx_gauge_zero :: mx_gauge where
  "mx_gauge_zero = \<lparr>mxg_name = [], mxg_value = 0, mxg_in_use = False\<rparr>"

fun mx_gauge_init :: "mx_gauge option \<Rightarrow> string option \<Rightarrow> int \<times> mx_gauge option" where
  "mx_gauge_init (Some g) (Some name) = (if name = [] then (-1, Some g)
     else (0, Some \<lparr>mxg_name = cstr_fit MX_GAUGE_NAME_MAX name, mxg_value = 0, mxg_in_use = True\<rparr>))"
| "mx_gauge_init g name = (-1, g)"

definition mx_gauge_set :: "mx_gauge option \<Rightarrow> 64 word \<Rightarrow> mx_gauge option" where
  "mx_gauge_set g v = map_option (\<lambda>g. g\<lparr>mxg_value := v\<rparr>) g"

definition mx_gauge_add :: "mx_gauge option \<Rightarrow> 64 word \<Rightarrow> mx_gauge option" where
  "mx_gauge_add g delta = map_option (\<lambda>g. g\<lparr>mxg_value := mxg_value g + delta\<rparr>) g"

definition mx_gauge_get :: "mx_gauge option \<Rightarrow> 64 word" where
  "mx_gauge_get g = (case g of None \<Rightarrow> 0 | Some g \<Rightarrow> mxg_value g)"

definition mx_gauge_reset :: "mx_gauge option \<Rightarrow> mx_gauge option" where
  "mx_gauge_reset g = map_option (\<lambda>g. g\<lparr>mxg_value := 0\<rparr>) g"

record mx_registry =
  mxr_gauges :: "mx_gauge list"
  mxr_count :: nat

definition mx_registry_create :: "bool \<Rightarrow> mx_registry option" where
  "mx_registry_create mem = (if mem then Some \<lparr>mxr_gauges = replicate MX_MAX_GAUGES mx_gauge_zero, mxr_count = 0\<rparr> else None)"

definition mx_registry_count :: "mx_registry option \<Rightarrow> nat" where
  "mx_registry_count r = (case r of None \<Rightarrow> 0 | Some r \<Rightarrow> mxr_count r)"

definition mx_find :: "mx_registry \<Rightarrow> string \<Rightarrow> nat option" where
  "mx_find r name = first_idx (\<lambda>g. mxg_in_use g \<and> strncmp_eq MX_GAUGE_NAME_MAX (mxg_name g) name) (mxr_gauges r)"

fun mx_registry_register :: "mx_registry option \<Rightarrow> string option \<Rightarrow> nat option \<times> mx_registry option" where
  "mx_registry_register (Some r) (Some name) =
     (if name = [] \<or> mxr_count r \<ge> MX_MAX_GAUGES then (None, Some r)
      else if mx_find r name \<noteq> None then (None, Some r)
      else case first_idx (\<lambda>g. \<not> mxg_in_use g) (mxr_gauges r) of
        None \<Rightarrow> (None, Some r)
      | Some i \<Rightarrow> (case mx_gauge_init (Some (mxr_gauges r ! i)) (Some name) of (rc, g) \<Rightarrow>
          if rc \<noteq> 0 then (None, Some (r\<lparr>mxr_gauges := (mxr_gauges r)[i := the g]\<rparr>))
          else (Some i, Some (r\<lparr>mxr_gauges := (mxr_gauges r)[i := the g], mxr_count := mxr_count r + 1\<rparr>))))"
| "mx_registry_register r name = (None, r)"

fun mx_registry_lookup :: "mx_registry option \<Rightarrow> string option \<Rightarrow> nat option" where
  "mx_registry_lookup (Some r) (Some name) = mx_find r name"
| "mx_registry_lookup r name = None"

fun mx_registry_snapshot_all :: "mx_registry option \<Rightarrow> mx_gauge list option \<Rightarrow> int \<Rightarrow> int \<times> mx_gauge list option" where
  "mx_registry_snapshot_all (Some r) (Some out) max_out =
     (if max_out \<le> 0 then (0, Some out)
      else let gs = take (nat max_out) (filter mxg_in_use (mxr_gauges r)) in (int (length gs), Some (overwrite gs out)))"
| "mx_registry_snapshot_all r out max_out = (0, out)"

record mx_snapshot =
  mxs_timestamp_us :: u64
  mxs_gauges :: "mx_gauge list"
  mxs_gauge_count :: nat

definition mx_snapshot_init :: "mx_snapshot option \<Rightarrow> int \<times> mx_snapshot option" where
  "mx_snapshot_init s = (case s of None \<Rightarrow> (-1, None)
     | Some _ \<Rightarrow> (0, Some \<lparr>mxs_timestamp_us = 0, mxs_gauges = replicate MX_MAX_GAUGES mx_gauge_zero, mxs_gauge_count = 0\<rparr>))"

fun mx_snapshot_dump :: "mx_snapshot option \<Rightarrow> mx_gauge list option \<Rightarrow> int \<Rightarrow> int \<times> mx_gauge list option" where
  "mx_snapshot_dump (Some s) (Some out) max_out =
     (if max_out \<le> 0 then (-1, Some out)
      else let n = (if int (mxs_gauge_count s) < max_out then mxs_gauge_count s else nat max_out) in
        (int n, Some (overwrite (take n (mxs_gauges s)) out)))"
| "mx_snapshot_dump s out max_out = (-1, out)"

section \<open>The registry is a list of names and values\<close>

datatype mx_op = MxRegister string | MxSet string "64 word" | MxAdd string "64 word" | MxGet string | MxReset string | MxCount | MxSnapshot nat

datatype mx_ans = MxIdx "nat option" | MxVal "64 word" | MxInt int | MxGauges int "mx_gauge list option" | MxNone

definition mx_on :: "mx_registry \<Rightarrow> string \<Rightarrow> (mx_gauge option \<Rightarrow> mx_gauge option) \<Rightarrow> mx_registry" where
  "mx_on r name act = (case mx_registry_lookup (Some r) (Some name) of None \<Rightarrow> r
     | Some i \<Rightarrow> r\<lparr>mxr_gauges := (mxr_gauges r)[i := the (act (Some (mxr_gauges r ! i)))]\<rparr>)"

fun mx_call :: "mx_op \<Rightarrow> mx_registry \<Rightarrow> mx_ans \<times> mx_registry" where
  "mx_call (MxRegister n) r = (case mx_registry_register (Some r) (Some n) of (i, r) \<Rightarrow> (MxIdx i, the r))"
| "mx_call (MxSet n v) r = (MxNone, mx_on r n (\<lambda>g. mx_gauge_set g v))"
| "mx_call (MxAdd n v) r = (MxNone, mx_on r n (\<lambda>g. mx_gauge_add g v))"
| "mx_call (MxReset n) r = (MxNone, mx_on r n mx_gauge_reset)"
| "mx_call (MxGet n) r = (MxVal (mx_gauge_get (map_option (\<lambda>i. mxr_gauges r ! i) (mx_registry_lookup (Some r) (Some n)))), r)"
| "mx_call MxCount r = (MxInt (int (mx_registry_count (Some r))), r)"
| "mx_call (MxSnapshot n) r = (case mx_registry_snapshot_all (Some r) (Some (replicate n mx_gauge_zero)) (int n) of (k, out) \<Rightarrow> (MxGauges k out, r))"

definition mx_gauge_of :: "string \<times> 64 word \<Rightarrow> mx_gauge" where
  "mx_gauge_of p = \<lparr>mxg_name = fst p, mxg_value = snd p, mxg_in_use = True\<rparr>"

definition mx_change :: "string \<Rightarrow> (64 word \<Rightarrow> 64 word) \<Rightarrow> (string \<times> 64 word) list \<Rightarrow> (string \<times> 64 word) list" where
  "mx_change n f L = map (\<lambda>(k, v). (k, if k = n then f v else v)) L"

fun mx_spec :: "mx_op \<Rightarrow> (string \<times> 64 word) list \<Rightarrow> mx_ans \<times> (string \<times> 64 word) list" where
  "mx_spec (MxRegister n) L = (if n \<notin> fst ` set L \<and> length L < MX_MAX_GAUGES then (MxIdx (Some (length L)), L @ [(n, 0)]) else (MxIdx None, L))"
| "mx_spec (MxSet n v) L = (MxNone, mx_change n (\<lambda>_. v) L)"
| "mx_spec (MxAdd n v) L = (MxNone, mx_change n (\<lambda>x. x + v) L)"
| "mx_spec (MxReset n) L = (MxNone, mx_change n (\<lambda>_. 0) L)"
| "mx_spec (MxGet n) L = (MxVal (case map_of L n of None \<Rightarrow> 0 | Some v \<Rightarrow> v), L)"
| "mx_spec MxCount L = (MxInt (int (length L)), L)"
| "mx_spec (MxSnapshot n) L = (MxGauges (int (min n (length L)))
     (Some (map mx_gauge_of (take n L) @ replicate (n - length L) mx_gauge_zero)), L)"

fun mx_op_name :: "mx_op \<Rightarrow> string" where
  "mx_op_name (MxRegister n) = n" | "mx_op_name (MxSet n v) = n" | "mx_op_name (MxAdd n v) = n" | "mx_op_name (MxGet n) = n"
| "mx_op_name (MxReset n) = n" | "mx_op_name MxCount = ''n''" | "mx_op_name (MxSnapshot n) = ''n''"

definition mx_name_ok :: "string \<Rightarrow> bool" where
  "mx_name_ok n \<longleftrightarrow> n \<noteq> [] \<and> length n < MX_GAUGE_NAME_MAX"

definition mx_rel :: "mx_registry \<Rightarrow> (string \<times> 64 word) list \<Rightarrow> bool" where
  "mx_rel r L \<longleftrightarrow> length L \<le> MX_MAX_GAUGES \<and> mxr_count r = length L \<and> mxr_gauges r = map mx_gauge_of L @ replicate (MX_MAX_GAUGES - length L) mx_gauge_zero
     \<and> distinct (map fst L) \<and> list_all mx_name_ok (map fst L)"

lemma first_idx_map: "first_idx P (map f xs) = first_idx (P \<circ> f) xs"
  by (induction xs) simp_all

lemma first_idx_replicate [simp]: "first_idx P (replicate n x) = (if n \<noteq> 0 \<and> P x then Some 0 else None)"
  by (induction n) auto

lemma mx_find_rel:
  assumes "mx_rel r L" and "mx_name_ok n"
  shows "mx_find r n = first_idx (\<lambda>p. fst p = n) L"
proof -
  have "first_idx ((\<lambda>g. mxg_in_use g \<and> strncmp_eq MX_GAUGE_NAME_MAX (mxg_name g) n) \<circ> mx_gauge_of) L = first_idx (\<lambda>p. fst p = n) L"
    using assms by (intro first_idx_cong) (auto simp: mx_rel_def mx_name_ok_def mx_gauge_of_def list_all_iff strncmp_eq_short)
  then show ?thesis using assms(1)
    by (simp add: mx_find_def mx_rel_def first_idx_append first_idx_map mx_gauge_zero_def del: o_apply split: option.split)
qed

lemma map_of_first: "map_of L n = map_option (\<lambda>i. snd (L ! i)) (first_idx (\<lambda>p. fst p = n) L)"
  by (induction L) (auto simp: option.map_comp comp_def)

lemma mx_change_at: "distinct (map fst L) \<Longrightarrow> i < length L \<Longrightarrow> fst (L ! i) = n \<Longrightarrow> mx_change n f L = L[i := (n, f (snd (L ! i)))]"
proof (rule nth_equalityI)
  fix j assume d: "distinct (map fst L)" "i < length L" "fst (L ! i) = n" and "j < length (mx_change n f L)"
  then have j: "j < length L" by (simp add: mx_change_def)
  have "fst (L ! j) = n \<longleftrightarrow> j = i" using d j nth_eq_iff_index_eq [OF d(1), of j i] by auto
  then show "mx_change n f L ! j = L[i := (n, f (snd (L ! i)))] ! j" using j d(2)
    by (cases "L ! j") (auto simp: mx_change_def nth_list_update)
qed (simp add: mx_change_def)

lemma mx_on_rel:
  assumes r: "mx_rel r L" and n: "mx_name_ok n" and act: "\<And>k v. act (Some (mx_gauge_of (k, v))) = Some (mx_gauge_of (k, f v))"
  shows "mx_rel (mx_on r n act) (mx_change n f L)"
proof (cases "first_idx (\<lambda>p. fst p = n) L")
  case None
  then have "mx_change n f L = L" by (force simp: mx_change_def first_idx_None intro!: map_idI)
  then show ?thesis using r None by (simp add: mx_on_def mx_find_rel [OF r n])
next
  case (Some i)
  then have i: "i < length L" "fst (L ! i) = n" by (auto simp: first_idx_Some)
  have keep: "map fst (mx_change n f L) = map fst L" by (induction L) (auto simp: mx_change_def)
  have "mx_change n f L = L[i := (n, f (snd (L ! i)))]" using r i by (intro mx_change_at) (simp_all add: mx_rel_def)
  moreover have "act (Some (mx_gauge_of (L ! i))) = Some (mx_gauge_of (n, f (snd (L ! i))))" using act [of n "snd (L ! i)"] i by (metis prod.collapse)
  ultimately show ?thesis using r i Some keep
    by (simp add: mx_on_def mx_find_rel [OF r n] mx_rel_def nth_append list_update_append map_update)
qed

interpretation mx: simulation mx_call mx_spec mx_rel "\<lambda>op. mx_name_ok (mx_op_name op)"
proof
  fix r L and op :: mx_op
  assume r: "mx_rel r L" and n: "mx_name_ok (mx_op_name op)"
  have w: "length L \<le> MX_MAX_GAUGES" "mxr_count r = length L" "mxr_gauges r = map mx_gauge_of L @ replicate (MX_MAX_GAUGES - length L) mx_gauge_zero"
      "distinct (map fst L)" "list_all mx_name_ok (map fst L)"
    using r by (simp_all add: mx_rel_def)
  have used: "filter mxg_in_use (mxr_gauges r) = map mx_gauge_of L"
    by (simp add: w filter_map comp_def mx_gauge_of_def mx_gauge_zero_def)
  show "fst (mx_call op r) = fst (mx_spec op L) \<and> mx_rel (snd (mx_call op r)) (snd (mx_spec op L))"
  proof (cases op)
    case (MxRegister q)
    then have q: "mx_name_ok q" using n by simp
    have miss: "mx_find r q = None \<longleftrightarrow> q \<notin> fst ` set L" by (auto simp: mx_find_rel [OF r q] first_idx_None)
    show ?thesis
    proof (cases "q \<notin> fst ` set L \<and> length L < MX_MAX_GAUGES")
      case True
      then obtain k where k: "MX_MAX_GAUGES - length L = Suc k" by (metis Suc_diff_Suc)
      have free: "first_idx (\<lambda>g. \<not> mxg_in_use g) (mxr_gauges r) = Some (length L)"
        using k by (simp add: w first_idx_append first_idx_map comp_def mx_gauge_of_def mx_gauge_zero_def del: replicate.simps split: option.split)
          (auto simp: first_idx_Some)
      have g: "mx_gauge_init (Some x) (Some q) = (0, Some (mx_gauge_of (q, 0)))" for x using q by (simp add: mx_name_ok_def mx_gauge_of_def)
      have "mx_rel (r\<lparr>mxr_gauges := (mxr_gauges r)[length L := mx_gauge_of (q, 0)], mxr_count := length L + 1\<rparr>) (L @ [(q, 0)])"
        using True k q w by (simp add: mx_rel_def list_update_append)
      then show ?thesis using True miss free g q w by (simp add: MxRegister mx_name_ok_def del: mx_gauge_init.simps)
    next
      case False
      then show ?thesis using miss r w q by (cases "length L < MX_MAX_GAUGES") (simp_all add: MxRegister mx_name_ok_def)
    qed
  next
    case (MxGet q)
    then have f: "mx_find r q = first_idx (\<lambda>p. fst p = q) L" using r n by (simp add: mx_find_rel)
    show ?thesis
    proof (cases "first_idx (\<lambda>p. fst p = q) L")
      case (Some i)
      then have "i < length L" by (simp add: first_idx_Some)
      then show ?thesis using Some r by (simp add: MxGet f map_of_first mx_gauge_get_def w nth_append mx_gauge_of_def)
    qed (use r in \<open>simp add: MxGet f map_of_first mx_gauge_get_def\<close>)
  next
    case (MxSnapshot k)
    show ?thesis
    proof (cases "k = 0")
      case False
      have "nat (int k) = k" by simp
      then show ?thesis using r False by (auto simp: MxSnapshot used take_map min_def Let_def overwrite_def simp del: replicate.simps of_nat_Suc)
    qed (use r MxSnapshot in simp)
  qed (use r n w mx_on_rel [OF r] in \<open>simp_all add: mx_gauge_set_def mx_gauge_add_def mx_gauge_reset_def mx_gauge_of_def mx_registry_count_def\<close>)
qed

text \<open>For names that fit, the registry is a list of at most 64 different names with their values, in the order of registration, under
  any calls: a gauge never moves, so that a pointer to it stays good.\<close>

theorem metrics_refine_list:
  assumes "mx_registry_create mem = Some r" and "\<forall>op \<in> set ops. mx_name_ok (mx_op_name op)"
  shows "fst (run_calls mx_call ops r) = fst (run_calls mx_spec ops [])"
proof -
  have "mx_rel r []" using assms(1) by (auto simp: mx_registry_create_def mx_rel_def split: if_splits)
  then show ?thesis using mx.run [of r "[]" ops] assms(2) by simp
qed

lemma metrics_refine_list_witness:
  "fst (run_calls mx_call [MxRegister ''fps'', MxRegister ''fps'', MxAdd ''fps'' 3, MxAdd ''fps'' (-1), MxGet ''fps'', MxCount] (the (mx_registry_create True)))
    = [MxIdx (Some 0), MxIdx None, MxNone, MxNone, MxVal 2, MxInt 1]"
  by (subst metrics_refine_list [where mem = True])
    (simp_all add: mx_registry_create_def mx_name_ok_def MX_GAUGE_NAME_MAX_def MX_MAX_GAUGES_def mx_change_def del: replicate.simps)

text \<open>A name that does not fit can be registered again and again and is never found.\<close>

lemma metrics_long_name:
  assumes "MX_GAUGE_NAME_MAX \<le> length n" and "list_all (\<lambda>g. length (mxg_name g) < MX_GAUGE_NAME_MAX) (mxr_gauges r)"
  shows "mx_registry_lookup (Some r) (Some n) = None"
proof -
  have "\<not> strncmp_eq MX_GAUGE_NAME_MAX (mxg_name g) n" if "g \<in> set (mxr_gauges r)" for g
  proof
    assume "strncmp_eq MX_GAUGE_NAME_MAX (mxg_name g) n"
    then have "length (take MX_GAUGE_NAME_MAX (mxg_name g)) = length (take MX_GAUGE_NAME_MAX n)" by (simp add: strncmp_eq_def)
    then show False using assms that by (auto simp: list_all_iff)
  qed
  then show ?thesis by (auto simp: mx_find_def first_idx_None)
qed

end
