(* ===== verification/Plugins.thy ===== *)
theory Plugins
  imports RS_Prelude
begin

text \<open>
  Plug-ins, \<^verbatim>\<open>src/src/plugin\<close>: loading one library (\<^verbatim>\<open>plugin_loader.c\<close>) and the registry of at most 64 (\<^verbatim>\<open>plugin_registry.c\<close>).
  A library is what its three entry points do; the file system of libraries, the directories and the answers of the allocator are
  fields of \<open>plugin_world\<close>, whose log has every call that has an effect on a library.
\<close>

datatype plugin_type = PLUGIN_TYPE_UNKNOWN | PLUGIN_TYPE_ENCODER | PLUGIN_TYPE_DECODER | PLUGIN_TYPE_CAPTURE | PLUGIN_TYPE_FILTER
  | PLUGIN_TYPE_TRANSPORT | PLUGIN_TYPE_UI

definition PLUGIN_API_VERSION :: u32 where "PLUGIN_API_VERSION = 1"
definition PLUGIN_API_MAGIC :: u32 where "PLUGIN_API_MAGIC = 0x52535054"
definition PLUGIN_REGISTRY_MAX :: nat where "PLUGIN_REGISTRY_MAX = 64"

record plugin_descriptor =
  pld_magic :: u32
  pld_api_version :: u32
  pld_type :: plugin_type
  pld_name :: string
  pld_version :: string
  pld_author :: string
  pld_description :: string

text \<open>A missing symbol is None; \<open>plb_query\<close> is what the query returns.\<close>

record plugin_lib =
  plb_query :: "plugin_descriptor option option"
  plb_init :: "int option"
  plb_shutdown :: bool

datatype plugin_event = PlgOpen string | PlgInit string | PlgShutdown string | PlgClose string

record plugin_world =
  plw_libs :: "string \<rightharpoonup> plugin_lib"
  plw_dirs :: "string \<rightharpoonup> string list"
  plw_alloc :: "nat \<Rightarrow> bool"
  plw_allocs :: nat
  plw_log :: "plugin_event list"

definition plg_emit :: "plugin_event \<Rightarrow> plugin_world \<Rightarrow> plugin_world" where
  "plg_emit e w = w\<lparr>plw_log := plw_log w @ [e]\<rparr>"

section \<open>The loader\<close>

text \<open>\<open>plh_dl\<close> is the library that is open, \<open>plh_path\<close> the copy of its path.\<close>

record plugin_handle =
  plh_dl :: string
  plh_descriptor :: plugin_descriptor
  plh_path :: string

fun plugin_loader_load :: "string option \<Rightarrow> bool \<Rightarrow> plugin_world \<Rightarrow> plugin_handle option \<times> plugin_world" where
  "plugin_loader_load (Some path) True w = (case plw_libs w path of
     None \<Rightarrow> (None, w)
   | Some lib \<Rightarrow>
      let w = plg_emit (PlgOpen path) w; close = plg_emit (PlgClose path) in
      (case (plb_query lib, plb_init lib, plb_shutdown lib) of
        (Some q, Some rc, True) \<Rightarrow>
          (case q of None \<Rightarrow> (None, close w)
           | Some desc \<Rightarrow>
              if pld_magic desc \<noteq> PLUGIN_API_MAGIC then (None, close w)
              else if pld_api_version desc \<noteq> PLUGIN_API_VERSION then (None, close w)
              else if rc \<noteq> 0 then (None, close w)
              else let w = plg_emit (PlgInit path) w; mem = plw_alloc w (plw_allocs w); w = w\<lparr>plw_allocs := plw_allocs w + 1\<rparr> in
                if \<not> mem then (None, close (plg_emit (PlgShutdown path) w))
                else (Some \<lparr>plh_dl = path, plh_descriptor = desc, plh_path = cstr_fit 512 path\<rparr>, w))
      | _ \<Rightarrow> (None, close w)))"
| "plugin_loader_load path host w = (None, w)"

fun plugin_loader_unload :: "plugin_handle option \<Rightarrow> plugin_world \<Rightarrow> plugin_world" where
  "plugin_loader_unload None w = w"
| "plugin_loader_unload (Some h) w = plg_emit (PlgClose (plh_dl h)) (plg_emit (PlgShutdown (plh_dl h)) w)"

definition plugin_loader_get_descriptor :: "plugin_handle option \<Rightarrow> plugin_descriptor option" where
  "plugin_loader_get_descriptor handle = map_option plh_descriptor handle"

definition plugin_loader_get_path :: "plugin_handle option \<Rightarrow> string option" where
  "plugin_loader_get_path handle = map_option plh_path handle"

section \<open>The registry\<close>

text \<open>The list holds the first \<open>count\<close> pointers of the array.\<close>

record plugin_registry =
  plr_plugins :: "plugin_handle list"

definition ends_with :: "string \<Rightarrow> string \<Rightarrow> bool" where
  "ends_with str suffix = (length suffix \<le> length str \<and> drop (length str - length suffix) str = suffix)"

definition PLUGIN_EXT :: string where "PLUGIN_EXT = ''.so''"

definition plugin_registry_create :: "bool \<Rightarrow> bool \<Rightarrow> plugin_registry option" where
  "plugin_registry_create host mem = (if host \<and> mem then Some \<lparr>plr_plugins = []\<rparr> else None)"

definition plugin_registry_destroy :: "plugin_registry option \<Rightarrow> plugin_world \<Rightarrow> plugin_world" where
  "plugin_registry_destroy registry w = (case registry of None \<Rightarrow> w | Some r \<Rightarrow> fold (\<lambda>h. plugin_loader_unload (Some h)) (plr_plugins r) w)"

fun plugin_registry_load :: "plugin_registry option \<Rightarrow> string option \<Rightarrow> plugin_world \<Rightarrow> int \<times> plugin_registry option \<times> plugin_world" where
  "plugin_registry_load (Some r) (Some path) w =
     (if length (plr_plugins r) \<ge> PLUGIN_REGISTRY_MAX then (-1, Some r, w)
      else case plugin_loader_load (Some path) True w of
        (None, w) \<Rightarrow> (-1, Some r, w)
      | (Some h, w) \<Rightarrow> (0, Some (r\<lparr>plr_plugins := plr_plugins r @ [h]\<rparr>), w))"
| "plugin_registry_load registry path w = (-1, registry, w)"

fun plg_scan_loop :: "string \<Rightarrow> string list \<Rightarrow> nat \<Rightarrow> plugin_registry \<Rightarrow> plugin_world \<Rightarrow> nat \<times> plugin_registry \<times> plugin_world" where
  "plg_scan_loop dir [] loaded r w = (loaded, r, w)"
| "plg_scan_loop dir (name # names) loaded r w =
     (if \<not> ends_with name PLUGIN_EXT then plg_scan_loop dir names loaded r w
      else case plugin_registry_load (Some r) (Some (cstr_fit 512 (dir @ ''/'' @ name))) w of
        (rc, r', w) \<Rightarrow> plg_scan_loop dir names (if rc = 0 then loaded + 1 else loaded) (the r') w)"

fun plugin_registry_scan_dir :: "plugin_registry option \<Rightarrow> string option \<Rightarrow> plugin_world \<Rightarrow> nat \<times> plugin_registry option \<times> plugin_world" where
  "plugin_registry_scan_dir (Some r) (Some dir) w = (case plw_dirs w dir of
     None \<Rightarrow> (0, Some r, w)
   | Some names \<Rightarrow> (case plg_scan_loop dir names 0 r w of (n, r, w) \<Rightarrow> (n, Some r, w)))"
| "plugin_registry_scan_dir registry dir w = (0, registry, w)"

fun plugin_registry_unload :: "plugin_registry option \<Rightarrow> string option \<Rightarrow> plugin_world \<Rightarrow> int \<times> plugin_registry option \<times> plugin_world" where
  "plugin_registry_unload (Some r) (Some name) w = (case first_idx (\<lambda>h. pld_name (plh_descriptor h) = name) (plr_plugins r) of
     None \<Rightarrow> (-1, Some r, w)
   | Some i \<Rightarrow> (0, Some (r\<lparr>plr_plugins := take i (plr_plugins r) @ drop (i + 1) (plr_plugins r)\<rparr>), plugin_loader_unload (Some (plr_plugins r ! i)) w))"
| "plugin_registry_unload registry name w = (-1, registry, w)"

definition plugin_registry_count :: "plugin_registry option \<Rightarrow> nat" where
  "plugin_registry_count registry = (case registry of None \<Rightarrow> 0 | Some r \<Rightarrow> length (plr_plugins r))"

definition plugin_registry_get :: "plugin_registry option \<Rightarrow> nat \<Rightarrow> plugin_handle option" where
  "plugin_registry_get registry idx = (case registry of None \<Rightarrow> None | Some r \<Rightarrow> if idx \<ge> length (plr_plugins r) then None else Some (plr_plugins r ! idx))"

fun plugin_registry_find_by_name :: "plugin_registry option \<Rightarrow> string option \<Rightarrow> plugin_handle option" where
  "plugin_registry_find_by_name (Some r) (Some name) = find (\<lambda>h. pld_name (plh_descriptor h) = name) (plr_plugins r)"
| "plugin_registry_find_by_name registry name = None"

definition plugin_registry_find_by_type :: "plugin_registry option \<Rightarrow> plugin_type \<Rightarrow> plugin_handle option" where
  "plugin_registry_find_by_type registry t = (case registry of None \<Rightarrow> None | Some r \<Rightarrow> find (\<lambda>h. pld_type (plh_descriptor h) = t) (plr_plugins r))"

section \<open>Every library is in the registry or closed\<close>

datatype plg_op = PlgLoad string | PlgScan string | PlgUnload string

fun plg_call :: "plg_op \<Rightarrow> plugin_registry \<times> plugin_world \<Rightarrow> int \<times> plugin_registry \<times> plugin_world" where
  "plg_call (PlgLoad p) (r, w) = (case plugin_registry_load (Some r) (Some p) w of (rc, r, w) \<Rightarrow> (rc, the r, w))"
| "plg_call (PlgScan d) (r, w) = (case plugin_registry_scan_dir (Some r) (Some d) w of (n, r, w) \<Rightarrow> (int n, the r, w))"
| "plg_call (PlgUnload n) (r, w) = (case plugin_registry_unload (Some r) (Some n) w of (rc, r, w) \<Rightarrow> (rc, the r, w))"

text \<open>How often a library is open and how often it is initialised, by the log.\<close>

definition log_open :: "string \<Rightarrow> plugin_event list \<Rightarrow> int" where
  "log_open p es = int (count_list es (PlgOpen p)) - int (count_list es (PlgClose p))"

definition log_running :: "string \<Rightarrow> plugin_event list \<Rightarrow> int" where
  "log_running p es = int (count_list es (PlgInit p)) - int (count_list es (PlgShutdown p))"

definition plugins_accounted :: "plugin_registry \<times> plugin_world \<Rightarrow> bool" where
  "plugins_accounted s \<longleftrightarrow> (\<forall>p. log_open p (plw_log (snd s)) = int (count_list (map plh_dl (plr_plugins (fst s))) p)
     \<and> log_running p (plw_log (snd s)) = int (count_list (map plh_dl (plr_plugins (fst s))) p))
     \<and> length (plr_plugins (fst s)) \<le> PLUGIN_REGISTRY_MAX
     \<and> (\<forall>h \<in> set (plr_plugins (fst s)). pld_magic (plh_descriptor h) = PLUGIN_API_MAGIC \<and> pld_api_version (plh_descriptor h) = PLUGIN_API_VERSION)"

lemma log_simps [simp]: "log_open p (xs @ ys) = log_open p xs + log_open p ys" "log_running p (xs @ ys) = log_running p xs + log_running p ys"
    "log_open p [] = 0" "log_running p [] = 0"
    "log_open p (PlgOpen q # xs) = (if p = q then 1 else 0) + log_open p xs" "log_open p (PlgClose q # xs) = (if p = q then -1 else 0) + log_open p xs"
    "log_open p (PlgInit q # xs) = log_open p xs" "log_open p (PlgShutdown q # xs) = log_open p xs"
    "log_running p (PlgInit q # xs) = (if p = q then 1 else 0) + log_running p xs" "log_running p (PlgShutdown q # xs) = (if p = q then -1 else 0) + log_running p xs"
    "log_running p (PlgOpen q # xs) = log_running p xs" "log_running p (PlgClose q # xs) = log_running p xs"
  by (simp_all add: log_open_def log_running_def)

lemma loader_log:
  "plugin_loader_load (Some path) True w = (h, w') \<Longrightarrow>
     (\<forall>p. log_open p (plw_log w') = log_open p (plw_log w) + (if h \<noteq> None \<and> p = path then 1 else 0)
        \<and> log_running p (plw_log w') = log_running p (plw_log w) + (if h \<noteq> None \<and> p = path then 1 else 0))
     \<and> (\<forall>x. h = Some x \<longrightarrow> plh_dl x = path \<and> pld_magic (plh_descriptor x) = PLUGIN_API_MAGIC \<and> pld_api_version (plh_descriptor x) = PLUGIN_API_VERSION)"
  by (auto simp: plg_emit_def Let_def split: option.splits bool.splits if_splits)

lemma load_accounted: "plugins_accounted (r, w) \<Longrightarrow> plugin_registry_load (Some r) (Some path) w = (rc, r', w') \<Longrightarrow>
    \<exists>r''. r' = Some r'' \<and> plugins_accounted (r'', w')"
  using loader_log [of path w]
  by (auto simp: plugins_accounted_def count_list_append split: prod.splits option.splits if_splits simp del: plugin_loader_load.simps) metis+

lemma scan_accounted: "plugins_accounted (r, w) \<Longrightarrow> plg_scan_loop dir names n r w = (n', r', w') \<Longrightarrow> plugins_accounted (r', w')"
proof (induction names arbitrary: n r w)
  case (Cons x names)
  show ?case
  proof (cases "ends_with x PLUGIN_EXT")
    case True
    obtain rc q v where l: "plugin_registry_load (Some r) (Some (cstr_fit 512 (dir @ ''/'' @ x))) w = (rc, q, v)" by (metis prod_cases3)
    from load_accounted [OF Cons.prems(1) this] obtain q' where q': "q = Some q'" "plugins_accounted (q', v)" by blast
    show ?thesis using Cons.prems(2) Cons.IH [OF q'(2)] True l q'(1) by (simp del: plugin_registry_load.simps)
  qed (use Cons in auto)
qed simp

lemma count_list_take_drop: "i < length xs \<Longrightarrow> int (count_list (take i xs @ drop (Suc i) xs) p) = int (count_list xs p) - (if xs ! i = p then 1 else 0)"
  by (subst (3) id_take_nth_drop [of i xs]) (auto simp: count_list_append)

lemma plg_step_accounted: "plugins_accounted s \<Longrightarrow> plugins_accounted (snd (plg_call op s))"
proof (cases s)
  case (Pair r w)
  assume a: "plugins_accounted s"
  note b = a [unfolded Pair]
  show ?thesis
  proof (cases op)
    case (PlgLoad p)
    obtain rc q v where l: "plugin_registry_load (Some r) (Some p) w = (rc, q, v)" by (metis prod_cases3)
    from load_accounted [OF b this] show ?thesis by (auto simp: Pair PlgLoad l simp del: plugin_registry_load.simps)
  next
    case (PlgScan d)
    then show ?thesis using b scan_accounted [OF b] by (auto simp: Pair split: option.splits prod.splits)
  next
    case (PlgUnload n)
    show ?thesis
    proof (cases "first_idx (\<lambda>h. pld_name (plh_descriptor h) = n) (plr_plugins r)")
      case (Some i)
      then have i: "i < length (plr_plugins r)" by (simp add: first_idx_Some)
      have m: "map plh_dl (take i (plr_plugins r) @ drop (Suc i) (plr_plugins r)) = take i (map plh_dl (plr_plugins r)) @ drop (Suc i) (map plh_dl (plr_plugins r))"
        by (simp add: take_map drop_map)
      show ?thesis using b i count_list_take_drop [of i "map plh_dl (plr_plugins r)"]
        by (auto simp: Pair PlgUnload Some plugins_accounted_def plg_emit_def m simp del: map_append dest: in_set_takeD in_set_dropD)
    qed (use b Pair PlgUnload in simp)
  qed
qed

text \<open>Whatever is loaded, scanned and unloaded, each library is open and initialised exactly as often as it stands in the registry,
  every registered plug-in has the right magic and version, and destroying the registry then closes everything.\<close>

theorem plugins_balanced:
  assumes "plugin_registry_create host mem = Some r" and "plw_log w = []" and "snd (run_calls plg_call ops (r, w)) = (r', w')"
  shows "(\<forall>h \<in> set (plr_plugins r'). pld_magic (plh_descriptor h) = PLUGIN_API_MAGIC \<and> pld_api_version (plh_descriptor h) = PLUGIN_API_VERSION)
    \<and> length (plr_plugins r') \<le> PLUGIN_REGISTRY_MAX
    \<and> log_open p (plw_log w') = int (count_list (map plh_dl (plr_plugins r')) p)
    \<and> log_running p (plw_log w') = int (count_list (map plh_dl (plr_plugins r')) p)
    \<and> log_open p (plw_log (plugin_registry_destroy (Some r') w')) = 0 \<and> log_running p (plw_log (plugin_registry_destroy (Some r') w')) = 0"
proof -
  have run: "plugins_accounted (snd (run_calls plg_call ops s))" if "plugins_accounted s" for s
    using that by (induction ops arbitrary: s) (simp_all add: plg_step_accounted case_prod_beta)
  have "plugins_accounted (r, w)" using assms(1,2) by (auto simp: plugin_registry_create_def plugins_accounted_def split: if_splits)
  from run [OF this] assms(3) have acc: "plugins_accounted (r', w')" by simp
  have "log_open p (plw_log (fold (\<lambda>h. plugin_loader_unload (Some h)) hs v)) = log_open p (plw_log v) - int (count_list (map plh_dl hs) p)
      \<and> log_running p (plw_log (fold (\<lambda>h. plugin_loader_unload (Some h)) hs v)) = log_running p (plw_log v) - int (count_list (map plh_dl hs) p)" for hs v
    by (induction hs arbitrary: v) (auto simp: plg_emit_def)
  with acc show ?thesis by (auto simp: plugins_accounted_def plugin_registry_destroy_def)
qed

definition sample_lib :: plugin_lib where
  "sample_lib = \<lparr>plb_query = Some (Some \<lparr>pld_magic = PLUGIN_API_MAGIC, pld_api_version = 1, pld_type = PLUGIN_TYPE_FILTER, pld_name = ''eq'',
     pld_version = ''1'', pld_author = '''', pld_description = ''''\<rparr>), plb_init = Some 0, plb_shutdown = True\<rparr>"

lemma plugins_balanced_witness:
  "log_open ''d/a.so'' (plw_log (snd (snd (run_calls plg_call [PlgScan ''d'', PlgLoad ''d/a.so''] (the (plugin_registry_create True True),
     \<lparr>plw_libs = [''d/a.so'' \<mapsto> sample_lib], plw_dirs = [''d'' \<mapsto> [''x'', ''a.so'']], plw_alloc = \<lambda>_. True, plw_allocs = 0, plw_log = []\<rparr>))))) = 2"
proof -
  define w where "w = \<lparr>plw_libs = [''d/a.so'' \<mapsto> sample_lib], plw_dirs = [''d'' \<mapsto> [''x'', ''a.so'']], plw_alloc = \<lambda>_. True, plw_allocs = 0, plw_log = []\<rparr>"
  obtain r' w' where s: "snd (run_calls plg_call [PlgScan ''d'', PlgLoad ''d/a.so''] (the (plugin_registry_create True True), w)) = (r', w')" by fastforce
  then have "map plh_dl (plr_plugins r') = [''d/a.so'', ''d/a.so'']"
    by (auto simp: w_def plugin_registry_create_def PLUGIN_EXT_def ends_with_def PLUGIN_REGISTRY_MAX_def sample_lib_def PLUGIN_API_VERSION_def plg_emit_def Let_def)
  moreover have "plugin_registry_create True True = Some (the (plugin_registry_create True True))" "plw_log w = []"
    by (simp_all add: plugin_registry_create_def w_def)
  ultimately show ?thesis using plugins_balanced [of True True "the (plugin_registry_create True True)" w, OF _ _ s, of "''d/a.so''"] s by (simp add: w_def)
qed

end
