(* ===== verification/Hls_Ts.thy ===== *)
theory Hls_Ts
  imports Wire
begin

text \<open>
  The transport-stream writer of \<^verbatim>\<open>src/src/hls/ts_writer.c\<close>: packets of 188 bytes with a continuity counter per PID, the
  two program tables, and video frames as PES packets spread over transport packets.  The descriptor that is written to
  is a file with a number of bytes that still fit.  A demultiplexer in the terms of ISO/IEC 13818-1 says what the packets
  carry.
\<close>

section \<open>The descriptor\<close>

record out_file =
  out_bytes :: "u8 list"
  out_room :: nat

definition fd_write :: "u8 list \<Rightarrow> out_file \<Rightarrow> nat \<times> out_file" where
  "fd_write bs f = (min (out_room f) (length bs), f\<lparr>out_bytes := out_bytes f @ take (out_room f) bs, out_room := out_room f - length bs\<rparr>)"

section \<open>Transport packets\<close>

definition HLS_TS_PACKET_SZ :: nat where "HLS_TS_PACKET_SZ = 188"
definition HLS_TS_SYNC_BYTE :: u8 where "HLS_TS_SYNC_BYTE = 0x47"
definition VIDEO_PID :: u16 where "VIDEO_PID = 0x100"
definition PMT_PID :: u16 where "PMT_PID = 0x1000"
definition PROGRAM_NUM :: u16 where "PROGRAM_NUM = 1"

record ts_writer =
  tsw_bytes_written :: nat
  tsw_continuity :: "u8 list"

definition ts_writer_create :: "bool \<Rightarrow> ts_writer option" where
  "ts_writer_create mem = (if mem then Some \<lparr>tsw_bytes_written = 0, tsw_continuity = replicate 0x2000 0\<rparr> else None)"

definition ts_writer_bytes_written :: "ts_writer option \<Rightarrow> nat" where
  "ts_writer_bytes_written w = (case w of None \<Rightarrow> 0 | Some w \<Rightarrow> tsw_bytes_written w)"

definition crc_bit :: "u32 \<Rightarrow> u32" where
  "crc_bit crc = (if crc AND 0x80000000 \<noteq> 0 then push_bit 1 crc XOR 0x04C11DB7 else push_bit 1 crc)"

definition crc_byte :: "u32 \<Rightarrow> u8 \<Rightarrow> u32" where
  "crc_byte crc d = (crc_bit ^^ 8) (crc XOR push_bit 24 (ucast d))"

definition crc32_mpeg :: "u8 list \<Rightarrow> u32" where
  "crc32_mpeg data = foldl crc_byte 0xFFFFFFFF data"

text \<open>The bytes of a packet; the array starts as all \<^verbatim>\<open>0xFF\<close>, and data that does not fit behind the header is left out.\<close>

definition ts_flags :: "bool \<Rightarrow> bool \<Rightarrow> u8 \<Rightarrow> u8" where
  "ts_flags payload_unit_start has_af cc =
     (if payload_unit_start then 0x40 else 0) OR (if has_af then 0x20 else 0) OR 0x10 OR (cc AND 0x0F)"

definition ts_af :: "bool \<Rightarrow> nat \<Rightarrow> u8 list" where
  "ts_af random_access stuffing =
     (let af_len = stuffing - 1 in
      if 0 < stuffing \<or> random_access
      then of_nat af_len # (if 0 < af_len then (if random_access then 0x40 else 0) # replicate (af_len - 1) 0xFF else []) else [])"

definition ts_packet :: "u8 \<Rightarrow> u16 \<Rightarrow> bool \<Rightarrow> bool \<Rightarrow> u8 list \<Rightarrow> u8 list" where
  "ts_packet cc pid payload_unit_start random_access data =
     (let stuffing = HLS_TS_PACKET_SZ - 4 - length data;
          head = [HLS_TS_SYNC_BYTE, ucast (drop_bit 8 pid AND 0x1F), ucast (pid AND 0xFF),
                  ts_flags payload_unit_start (0 < stuffing \<or> random_access) cc] @ ts_af random_access stuffing;
          body = (if length head + length data \<le> HLS_TS_PACKET_SZ then data else []) in
      head @ body @ replicate (HLS_TS_PACKET_SZ - length head - length body) 0xFF)"

definition write_ts_packet :: "ts_writer \<Rightarrow> u16 \<Rightarrow> bool \<Rightarrow> bool \<Rightarrow> u8 list \<Rightarrow> out_file \<Rightarrow> int \<times> ts_writer \<times> out_file" where
  "write_ts_packet w pid payload_unit_start random_access data f =
     (let cc = tsw_continuity w ! unat pid;
          pkt = ts_packet cc pid payload_unit_start random_access data;
          w = w\<lparr>tsw_continuity := (tsw_continuity w)[unat pid := (cc + 1) AND 0x0F]\<rparr>;
          (n, f) = fd_write pkt f in
      if n \<noteq> HLS_TS_PACKET_SZ then (-1, w, f) else (0, w\<lparr>tsw_bytes_written := tsw_bytes_written w + HLS_TS_PACKET_SZ\<rparr>, f))"

section \<open>The program tables\<close>

definition pat_section :: "u8 list" where
  "pat_section = [0x00] @ w16be 0xB00D @ w16be 0x0001 @ [0xC1, 0x00, 0x00] @ w16be PROGRAM_NUM @ w16be (0xE000 OR PMT_PID)"

definition pmt_section :: "u8 list" where
  "pmt_section = [0x02] @ w16be 0xB00F @ w16be PROGRAM_NUM @ [0xC1, 0x00, 0x00] @ w16be (0xE100 OR VIDEO_PID) @ w16be 0xF000 @ [0x1B]
     @ w16be (0xE000 OR VIDEO_PID) @ w16be 0xF000"

definition with_crc :: "u8 list \<Rightarrow> u8 list" where
  "with_crc section = section @ w32be (crc32_mpeg section)"

fun ts_writer_write_pat_pmt :: "ts_writer option \<Rightarrow> out_file \<Rightarrow> int \<times> ts_writer option \<times> out_file" where
  "ts_writer_write_pat_pmt None f = (-1, None, f)"
| "ts_writer_write_pat_pmt (Some w) f =
     (let (r, w, f) = write_ts_packet w 0 True False (0 # with_crc pat_section) f in
      if r \<noteq> 0 then (-1, Some w, f)
      else let (r, w, f) = write_ts_packet w PMT_PID True False (0 # with_crc pmt_section) f in (r, Some w, f))"

section \<open>Frames\<close>

definition pes_header :: "u64 \<Rightarrow> u8 list" where
  "pes_header pts = [0x00, 0x00, 0x01, 0xE0, 0x00, 0x00, 0x80, 0x80, 0x05,
     ucast (0x21 OR push_bit 1 (drop_bit 30 pts AND 0x07)), ucast (drop_bit 22 pts AND 0xFF), ucast (0x01 OR push_bit 1 (drop_bit 15 pts AND 0x7F)),
     ucast (drop_bit 7 pts AND 0xFF), ucast (0x01 OR push_bit 1 (pts AND 0x7F))]"

text \<open>The rest of a frame, 184 bytes at a time.\<close>

function pes_rest :: "ts_writer \<Rightarrow> u8 list \<Rightarrow> out_file \<Rightarrow> int \<times> ts_writer \<times> out_file" where
  "pes_rest w rest f = (if rest = [] then (0, w, f)
     else let (r, w, f) = write_ts_packet w VIDEO_PID False False (take (HLS_TS_PACKET_SZ - 4) rest) f in
       if r \<noteq> 0 then (-1, w, f) else pes_rest w (drop (HLS_TS_PACKET_SZ - 4) rest) f)"
  by auto
termination by (relation "measure (\<lambda>(w, rest, f). length rest)") (auto simp: HLS_TS_PACKET_SZ_def length_greater_0_conv)

declare pes_rest.simps [simp del]

fun ts_writer_write_pes :: "ts_writer option \<Rightarrow> u8 list option \<Rightarrow> u64 \<Rightarrow> bool \<Rightarrow> out_file \<Rightarrow> int \<times> ts_writer option \<times> out_file" where
  "ts_writer_write_pes (Some w) (Some payload) pts is_keyframe f =
     (if payload = [] then (-1, Some w, f)
      else let first_payload = HLS_TS_PACKET_SZ - 4 - 14;
               (r, w, f) = write_ts_packet w VIDEO_PID True is_keyframe (pes_header pts @ take first_payload payload) f in
        if r \<noteq> 0 then (-1, Some w, f)
        else let (r, w, f) = pes_rest w (drop first_payload payload) f in (r, Some w, f))"
| "ts_writer_write_pes w payload pts is_keyframe f = (-1, w, f)"

section \<open>What a demultiplexer sees\<close>

definition ts_pid :: "u8 list \<Rightarrow> u16" where
  "ts_pid p = push_bit 8 (ucast (p ! 1 AND 0x1F)) OR ucast (p ! 2)"

definition ts_unit_start :: "u8 list \<Rightarrow> bool" where "ts_unit_start p \<longleftrightarrow> bit (p ! 1) 6"
definition ts_scrambling :: "u8 list \<Rightarrow> u8" where "ts_scrambling p = drop_bit 6 (p ! 3)"
definition ts_counter :: "u8 list \<Rightarrow> u8" where "ts_counter p = p ! 3 AND 0x0F"

definition ts_payload :: "u8 list \<Rightarrow> u8 list" where
  "ts_payload p = drop (if p ! 3 AND 0x20 \<noteq> 0 then 5 + unat (p ! 4) else 4) p"

lemma length_pes_header [simp]: "length (pes_header pts) = 14" by (simp add: pes_header_def)

lemma length_ts_af: "length (ts_af ra stuffing) = (if 0 < stuffing \<or> ra then max 1 stuffing else 0)"
  by (auto simp: ts_af_def Let_def)

lemma ts_flags_bits:
  "ts_flags u a cc AND 0x20 \<noteq> 0 \<longleftrightarrow> a" "ts_flags u a cc AND 0x0F = cc AND 0x0F" "drop_bit 6 (ts_flags u a cc) = (if u then 1 else 0)"
proof -
  have m: "(cc AND 0x0F) AND 0x20 = 0" by (simp add: and.assoc)
  show "ts_flags u a cc AND 0x20 \<noteq> 0 \<longleftrightarrow> a" by (simp add: ts_flags_def bit.conj_disj_distrib2 m)
  show "ts_flags u a cc AND 0x0F = cc AND 0x0F" by (simp add: ts_flags_def bit.conj_disj_distrib2 and.assoc)
  have "drop_bit 6 (cc AND 0x0F) = 0" by (simp add: drop_bit_and)
  then show "drop_bit 6 (ts_flags u a cc) = (if u then 1 else 0)" by (simp add: ts_flags_def drop_bit_or)
qed

lemma ts_packet_fields:
  fixes cc :: u8 and pid :: u16 and u ra :: bool
  assumes "length data \<le> 184"
  defines "p \<equiv> ts_packet cc pid u ra data"
  shows "length p = 188" "p ! 0 = 0x47" "ts_counter p = cc AND 0x0F" "\<not> ts_unit_start p" "ts_scrambling p = (if u then 1 else 0)"
    "ts_payload p = (if ra \<and> length data = 184 then replicate 183 0xFF else data)"
proof -
  let ?st = "184 - length data"
  have P: "p = [0x47, ucast (drop_bit 8 pid AND 0x1F), ucast (pid AND 0xFF), ts_flags u (0 < ?st \<or> ra) cc] @ ts_af ra ?st
      @ (if length (ts_af ra ?st) + length data \<le> 184 then data else [])
      @ replicate (184 - length (ts_af ra ?st) - (if length (ts_af ra ?st) + length data \<le> 184 then length data else 0)) 0xFF"
    by (simp add: p_def ts_packet_def Let_def HLS_TS_PACKET_SZ_def HLS_TS_SYNC_BYTE_def)
  show "length p = 188" using assms(1) by (auto simp: P length_ts_af)
  show "p ! 0 = 0x47" by (simp add: P)
  have p1: "p ! 1 = ucast (drop_bit 8 pid AND 0x1F)" and p3: "p ! 3 = ts_flags u (0 < ?st \<or> ra) cc" by (simp_all add: P)
  show "ts_counter p = cc AND 0x0F" by (simp add: ts_counter_def p3 ts_flags_bits)
  show "\<not> ts_unit_start p" unfolding ts_unit_start_def p1 by (simp add: bit_and_iff bit_ucast_iff)
  show "ts_scrambling p = (if u then 1 else 0)" by (simp add: ts_scrambling_def p3 ts_flags_bits)
  show "ts_payload p = (if ra \<and> length data = 184 then replicate 183 0xFF else data)"
  proof (cases "0 < ?st \<or> ra")
    case False
    then have "p = [0x47, ucast (drop_bit 8 pid AND 0x1F), ucast (pid AND 0xFF), ts_flags u False cc] @ data"
      using assms(1) by (simp add: P ts_af_def)
    then show ?thesis using False ts_flags_bits(1) [of u False cc] by (simp add: ts_payload_def)
  next
    case True
    define H where "H = [0x47, ucast (drop_bit 8 pid AND 0x1F), ucast (pid AND 0xFF), ts_flags u (0 < ?st \<or> ra) cc] @ ts_af ra ?st"
    define B where "B = (if length (ts_af ra ?st) + length data \<le> 184 then data else [])
      @ replicate (184 - length (ts_af ra ?st) - (if length (ts_af ra ?st) + length data \<le> 184 then length data else 0)) 0xFF"
    have PH: "p = H @ B" by (simp add: P H_def B_def)
    have p4: "p ! 4 = of_nat (?st - 1)" using True by (simp add: P ts_af_def Let_def)
    have u4: "unat (p ! 4) = ?st - 1" unfolding p4 by (rule unat_of_nat_less) simp
    have "ts_payload p = drop (5 + (?st - 1)) p"
      using True ts_flags_bits(1) [of u True cc] by (simp add: ts_payload_def p3 u4)
    also have "\<dots> = drop (length H) (H @ B)" unfolding PH by (rule arg_cong [where f = "\<lambda>n. drop n (H @ B)"]) (use True in \<open>auto simp: H_def length_ts_af\<close>)
    also have "\<dots> = B" by simp
    also have "B = (if ra \<and> length data = 184 then replicate 183 0xFF else data)"
      using True assms(1) by (auto simp: B_def length_ts_af)
    finally show ?thesis .
  qed
qed

section \<open>A frame and its packets\<close>

definition frame_packets_ok :: "u8 \<Rightarrow> u8 list list \<Rightarrow> bool" where
  "frame_packets_ok cc ps \<longleftrightarrow> list_all (\<lambda>p. length p = 188 \<and> p ! 0 = 0x47 \<and> ts_pid p = VIDEO_PID \<and> \<not> ts_unit_start p) ps
     \<and> map ts_counter ps = map (\<lambda>i. (cc + of_nat i) AND 0x0F) [0..<length ps]"

definition ts_advance :: "nat \<Rightarrow> ts_writer \<Rightarrow> ts_writer" where
  "ts_advance n w = w\<lparr>tsw_bytes_written := tsw_bytes_written w + 188 * n,
     tsw_continuity := (tsw_continuity w)[unat VIDEO_PID := (tsw_continuity w ! unat VIDEO_PID + of_nat n) AND 0x0F]\<rparr>"

definition ts_wf :: "ts_writer \<Rightarrow> bool" where
  "ts_wf w \<longleftrightarrow> length (tsw_continuity w) = 0x2000 \<and> tsw_continuity w ! unat VIDEO_PID AND 0x0F = tsw_continuity w ! unat VIDEO_PID"

definition out_put :: "u8 list \<Rightarrow> out_file \<Rightarrow> out_file" where
  "out_put bs f = f\<lparr>out_bytes := out_bytes f @ bs, out_room := out_room f - length bs\<rparr>"

lemma video_pid: "unat VIDEO_PID = 256" by (simp add: VIDEO_PID_def)

lemma ts_pid_video: "ts_pid (ts_packet cc VIDEO_PID u ra data) = VIDEO_PID"
  by (simp add: ts_pid_def ts_packet_def Let_def VIDEO_PID_def)

lemma counter_mask: "(a AND 0x0F) + b AND 0x0F = (a + b) AND (0x0F :: u8)"
proof -
  have m: "uint (x AND 0x0F) = uint x mod 16" for x :: u8
    using take_bit_eq_mask [of 4 "uint x"] by (simp add: uint_and take_bit_eq_mod mask_eq_exp_minus_1)
  have c: "x mod 256 mod 16 = x mod (16 :: int)" for x by (rule mod_mod_cancel) simp
  have "uint ((a AND 0x0F) + b AND 0x0F) = uint (a + b AND 0x0F)"
    unfolding m uint_word_ariths by (simp add: c mod_add_left_eq)
  then show ?thesis by (simp add: word_uint_eq_iff)
qed

lemma counter_mask2: "b + (a AND 0x0F) AND 0x0F = (b + a) AND (0x0F :: u8)"
  using counter_mask [of a b] by (simp add: add.commute)

lemma write_video_packet:
  assumes "ts_wf w" "188 \<le> out_room f" "length data \<le> 184"
  shows "write_ts_packet w VIDEO_PID u ra data f = (0, ts_advance 1 w, out_put (ts_packet (tsw_continuity w ! 256) VIDEO_PID u ra data) f)"
  using assms ts_packet_fields(1) [OF assms(3)]
  by (simp add: write_ts_packet_def fd_write_def out_put_def ts_advance_def Let_def HLS_TS_PACKET_SZ_def video_pid)

lemma ts_advance_wf: "ts_wf w \<Longrightarrow> ts_wf (ts_advance n w)"
  by (simp add: ts_wf_def ts_advance_def video_pid and.assoc)

lemma ts_advance_add: "ts_wf w \<Longrightarrow> ts_advance n (ts_advance m w) = ts_advance (m + n) w"
  by (simp add: ts_wf_def ts_advance_def video_pid counter_mask2 algebra_simps)

lemma frame_packets_Nil: "frame_packets_ok cc []" by (simp add: frame_packets_ok_def)

lemma frame_packets_Cons:
  assumes "length data \<le> 184" "frame_packets_ok ((cc + 1) AND 0x0F) ps"
  shows "frame_packets_ok cc (ts_packet cc VIDEO_PID u ra data # ps)"
proof -
  have shift: "((cc + 1) AND 0x0F) + of_nat i AND 0x0F = (cc + of_nat (Suc i)) AND 0x0F" for i
    using counter_mask [of "cc + 1" "of_nat i"] by (simp add: algebra_simps)
  have "map (\<lambda>i. (cc + of_nat i) AND 0x0F) [0..<Suc (length ps)] = (cc AND 0x0F) # map (\<lambda>i. ((cc + 1) AND 0x0F) + of_nat i AND 0x0F) [0..<length ps]"
    unfolding upt_conv_Cons [OF zero_less_Suc] map_Suc_upt [symmetric] by (simp add: shift del: of_nat_Suc)
  then show ?thesis using assms ts_packet_fields [OF assms(1), of cc VIDEO_PID u ra]
    by (simp add: frame_packets_ok_def ts_pid_video del: upt_Suc)
qed

lemma pes_rest_packets:
  assumes "ts_wf w" "188 * ((length rest + 183) div 184) \<le> out_room f"
  shows "\<exists>ps. pes_rest w rest f = (0, ts_advance (length ps) w, out_put (concat ps) f) \<and> length ps = (length rest + 183) div 184
    \<and> frame_packets_ok (tsw_continuity w ! 256) ps \<and> concat (map ts_payload ps) = rest \<and> list_all (\<lambda>p. ts_scrambling p = 0) ps"
  using assms
proof (induction rest arbitrary: w f rule: length_induct)
  case (1 rest)
  show ?case
  proof (cases "rest = []")
    case True
    have "ts_advance 0 w = w" using 1(2) by (simp add: ts_advance_def ts_wf_def)
    then show ?thesis using True by (intro exI [of _ "[]"]) (simp add: pes_rest.simps [of w] out_put_def frame_packets_Nil)
  next
    case False
    define d where "d = take 184 rest"
    define p where "p = ts_packet (tsw_continuity w ! 256) VIDEO_PID False False d"
    have d: "length d \<le> 184" by (simp add: d_def)
    have n: "(length rest + 183) div 184 = Suc ((length (drop 184 rest) + 183) div 184)"
    proof (cases "length rest \<le> 184")
      case True
      have "(length rest + 183) div 184 = 1" by (rule div_nat_eqI) (use True False in \<open>auto simp: Suc_le_eq\<close>)
      then show ?thesis using True by simp
    next
      case False
      then have "length rest + 183 = (length (drop 184 rest) + 183) + 184" by simp
      then show ?thesis by (metis Suc_eq_plus1 div_add_self2 zero_neq_numeral)
    qed
    have lp: "length p = 188" unfolding p_def by (rule ts_packet_fields(1) [OF d])
    have w: "write_ts_packet w VIDEO_PID False False d f = (0, ts_advance 1 w, out_put p f)"
      unfolding p_def using 1(2,3) d n by (intro write_video_packet) auto
    have "\<exists>ps. pes_rest (ts_advance 1 w) (drop 184 rest) (out_put p f) = (0, ts_advance (length ps) (ts_advance 1 w), out_put (concat ps) (out_put p f))
        \<and> length ps = (length (drop 184 rest) + 183) div 184
        \<and> frame_packets_ok (tsw_continuity (ts_advance 1 w) ! 256) ps \<and> concat (map ts_payload ps) = drop 184 rest \<and> list_all (\<lambda>p. ts_scrambling p = 0) ps"
      by (rule 1(1) [rule_format, OF _ ts_advance_wf [OF 1(2)]]) (use False 1(3) n lp in \<open>simp_all add: out_put_def\<close>)
    then obtain ps where ps: "pes_rest (ts_advance 1 w) (drop 184 rest) (out_put p f) = (0, ts_advance (length ps) (ts_advance 1 w), out_put (concat ps) (out_put p f))"
        "length ps = (length (drop 184 rest) + 183) div 184" "frame_packets_ok (tsw_continuity (ts_advance 1 w) ! 256) ps"
        "concat (map ts_payload ps) = drop 184 rest" "list_all (\<lambda>p. ts_scrambling p = 0) ps" by blast
    have cc: "tsw_continuity (ts_advance 1 w) ! 256 = (tsw_continuity w ! 256 + 1) AND 0x0F" using 1(2) by (simp add: ts_advance_def ts_wf_def video_pid)
    have "frame_packets_ok (tsw_continuity w ! 256) (p # ps)" unfolding p_def by (rule frame_packets_Cons [OF d]) (use ps(3) cc in simp)
    moreover have "ts_payload p = d" "ts_scrambling p = 0" using ts_packet_fields [OF d] by (simp_all add: p_def)
    moreover have "pes_rest w rest f = (0, ts_advance (Suc (length ps)) w, out_put (concat (p # ps)) f)"
      using False w ps(1) 1(2) by (subst pes_rest.simps) (simp add: d_def [symmetric] HLS_TS_PACKET_SZ_def ts_advance_add out_put_def add.commute)
    ultimately show ?thesis using ps(2,4,5) n by (intro exI [of _ "p # ps"]) (simp add: d_def)
  qed
qed

text \<open>The time stamp of a frame as a receiver reads it.\<close>

definition pes_pts :: "u8 list \<Rightarrow> u64" where
  "pes_pts h = push_bit 30 (drop_bit 1 (ucast (h ! 9)) AND 0x07) OR push_bit 22 (ucast (h ! 10)) OR push_bit 15 (drop_bit 1 (ucast (h ! 11)))
     OR push_bit 7 (ucast (h ! 12)) OR drop_bit 1 (ucast (h ! 13))"

lemma take_bit_join: "push_bit j (take_bit k (drop_bit j x)) OR take_bit j x = take_bit (k + j) (x :: u64)"
proof (rule bit_word_eqI)
  fix n :: nat
  show "bit (push_bit j (take_bit k (drop_bit j x)) OR take_bit j x) n = bit (take_bit (k + j) x) n" if "n < LENGTH(64)"
    using that by (cases "j \<le> n") (auto simp: bit_simps)
qed

lemma pes_pts_header: "pes_pts (pes_header pts) = take_bit 33 pts"
proof -
  have m: "x AND 0x07 = take_bit 3 x" "x AND 0x7F = take_bit 7 x" "x AND 0xFF = take_bit 8 x" for x :: u64
    by (simp_all add: take_bit_eq_mask mask_eq_exp_minus_1)
  have u: "ucast (ucast x :: u8) = take_bit 8 x" for x :: u64 by (rule bit_word_eqI) (auto simp: bit_simps)
  have dbl: "bit (y * 2) (Suc k) \<longleftrightarrow> k < 63 \<and> bit y k" for y :: u64 and k
    using bit_double_iff [of y "Suc k"] by (simp add: mult.commute)
  have 9: "take_bit 3 (drop_bit 1 (take_bit 8 (0x21 OR push_bit 1 (take_bit 3 x)))) = take_bit 3 x" for x :: u64
  proof (rule bit_word_eqI)
    fix n :: nat
    have "n = 0 \<or> n = 1 \<or> n = 2 \<or> 3 \<le> n" by linarith
    then show "bit (take_bit 3 (drop_bit 1 (take_bit 8 (0x21 OR push_bit 1 (take_bit 3 x))))) n = bit (take_bit 3 x) n"
      by (elim disjE) (simp_all add: bit_simps dbl numeral_2_eq_2)
  qed
  have 11: "drop_bit 1 (take_bit 8 (0x01 OR push_bit 1 (take_bit 7 x))) = take_bit 7 x" for x :: u64
    by (rule bit_word_eqI) (auto simp: bit_simps dbl)
  have h: "pes_header pts ! 9 = ucast (0x21 OR push_bit 1 (drop_bit 30 pts AND 0x07))" "pes_header pts ! 10 = ucast (drop_bit 22 pts AND 0xFF)"
      "pes_header pts ! 11 = ucast (0x01 OR push_bit 1 (drop_bit 15 pts AND 0x7F))" "pes_header pts ! 12 = ucast (drop_bit 7 pts AND 0xFF)"
      "pes_header pts ! 13 = ucast (0x01 OR push_bit 1 (pts AND 0x7F))" by (simp_all add: pes_header_def)
  have "pes_pts (pes_header pts) = push_bit 30 (take_bit 3 (drop_bit 30 pts)) OR push_bit 22 (take_bit 8 (drop_bit 22 pts))
      OR push_bit 15 (take_bit 7 (drop_bit 15 pts)) OR push_bit 7 (take_bit 8 (drop_bit 7 pts)) OR take_bit 7 pts"
    unfolding pes_pts_def h u m 9 11 by (simp only: 9 11 take_bit_take_bit min.idem)
  also have "\<dots> = take_bit 33 pts"
    using take_bit_join [of 7 8 pts] take_bit_join [of 15 7 pts] take_bit_join [of 22 8 pts] take_bit_join [of 30 3 pts] by simp
  finally show ?thesis .
qed

text \<open>A frame that fits on the disk is written whole: packets of 188 bytes for the video PID with running counters, and what they carry
  is the PES header with the frame, except for a key frame of 170 bytes or more: its first packet carries 183 bytes of
  filling in place of the header and the first 170 bytes.  No packet has the start indicator of the standard.\<close>

theorem ts_frame_carried:
  assumes "ts_wf w" "payload \<noteq> []" "188 * (1 + (length payload - 170 + 183) div 184) \<le> out_room f"
  shows "\<exists>ps. ts_writer_write_pes (Some w) (Some payload) pts kf f = (0, Some (ts_advance (length ps) w), out_put (concat ps) f)
    \<and> length ps = 1 + (length payload - 170 + 183) div 184 \<and> frame_packets_ok (tsw_continuity w ! unat VIDEO_PID) ps
    \<and> concat (map ts_payload ps) = (if kf \<and> 170 \<le> length payload then replicate 183 0xFF @ drop 170 payload else pes_header pts @ payload)"
proof -
  define d where "d = pes_header pts @ take 170 payload"
  define p where "p = ts_packet (tsw_continuity w ! 256) VIDEO_PID True kf d"
  define f1 where "f1 = out_put p f"
  have d: "length d \<le> 184" "length d = 184 \<longleftrightarrow> 170 \<le> length payload" by (auto simp: d_def)
  have lp: "length p = 188" unfolding p_def by (rule ts_packet_fields(1) [OF d(1)])
  have w: "write_ts_packet w VIDEO_PID True kf d f = (0, ts_advance 1 w, f1)"
    unfolding p_def f1_def using assms d(1) by (intro write_video_packet) auto
  have "188 * ((length (drop 170 payload) + 183) div 184) \<le> out_room f1" using assms(3) lp by (simp add: f1_def out_put_def)
  from pes_rest_packets [OF ts_advance_wf [OF assms(1)] this] obtain ps where
    ps: "pes_rest (ts_advance 1 w) (drop 170 payload) f1 = (0, ts_advance (length ps) (ts_advance 1 w), out_put (concat ps) f1)"
      "length ps = (length (drop 170 payload) + 183) div 184" "frame_packets_ok (tsw_continuity (ts_advance 1 w) ! 256) ps"
      "concat (map ts_payload ps) = drop 170 payload" by blast
  have cc: "tsw_continuity (ts_advance 1 w) ! 256 = (tsw_continuity w ! 256 + 1) AND 0x0F" using assms(1) by (simp add: ts_advance_def ts_wf_def video_pid)
  have "frame_packets_ok (tsw_continuity w ! 256) (p # ps)" unfolding p_def by (rule frame_packets_Cons [OF d(1)]) (use ps(3) cc in simp)
  moreover have "ts_payload p = (if kf \<and> 170 \<le> length payload then replicate 183 0xFF else d)"
    using ts_packet_fields(6) [OF d(1)] d(2) by (simp add: p_def)
  moreover have "out_put (concat (p # ps)) f = out_put (concat ps) f1" by (simp add: out_put_def f1_def)
  ultimately show ?thesis using w ps assms(1,2)
    by (intro exI [of _ "p # ps"]) (simp add: d_def HLS_TS_PACKET_SZ_def ts_advance_add video_pid)
qed

lemma ts_frame_carried_witness:
  "\<exists>w ps. ts_writer_create True = Some w \<and> ts_writer_write_pes (Some w) (Some (replicate 400 7)) 90000 True \<lparr>out_bytes = [], out_room = 1000\<rparr>
      = (0, Some (ts_advance (length ps) w), out_put (concat ps) \<lparr>out_bytes = [], out_room = 1000\<rparr>)
    \<and> length ps = 3 \<and> concat (map ts_payload ps) = replicate 183 0xFF @ replicate 230 7"
proof -
  define w where "w = \<lparr>tsw_bytes_written = 0, tsw_continuity = replicate 0x2000 0\<rparr>"
  define xs :: "u8 list" where "xs = replicate 400 7"
  have w: "ts_wf w" by (simp add: ts_wf_def w_def video_pid del: replicate.simps)
  have xs: "length xs = 400" "xs \<noteq> []" "drop 170 xs = replicate 230 7" by (simp_all add: xs_def del: replicate.simps)
  have c: "ts_writer_create True = Some w" by (simp add: ts_writer_create_def w_def)
  show ?thesis using ts_frame_carried [OF w xs(2), of "\<lparr>out_bytes = [], out_room = 1000\<rparr>" 90000 True] xs c
    unfolding xs_def [symmetric] by auto
qed

text \<open>The check sum over the section that the association table announces comes out right; the program map table announces
  three bytes too few, so that what a receiver takes for its check sum is not one.\<close>

definition section_len :: "u8 list \<Rightarrow> nat" where
  "section_len s = unat (r16be s 1 AND 0x0FFF)"

lemma crc_eval:
  "crc_bit (numeral k) = (if (numeral k :: u32) AND 0x80000000 \<noteq> 0 then push_bit 1 (numeral k) XOR 0x04C11DB7 else push_bit 1 (numeral k))"
  "crc_byte (numeral k) d = crc_bit (crc_bit (crc_bit (crc_bit (crc_bit (crc_bit (crc_bit (crc_bit (numeral k XOR push_bit 24 (ucast d)))))))))"
  "crc_bit 0 = 0"
  by (simp_all add: crc_bit_def crc_byte_def numeral_eq_Suc)

lemma pat_checks: "section_len (with_crc pat_section) + 3 = length (with_crc pat_section)" "crc32_mpeg (with_crc pat_section) = 0"
proof -
  have p: "pat_section = [0, 0xB0, 0x0D, 0, 1, 0xC1, 0, 0, 0, 1, 0xF0, 0]"
    by (simp add: pat_section_def w16be_def PROGRAM_NUM_def PMT_PID_def)
  have c: "crc32_mpeg pat_section = 0x2AB104B2" by (simp add: p crc32_mpeg_def crc_eval)
  show "section_len (with_crc pat_section) + 3 = length (with_crc pat_section)" unfolding with_crc_def c by (simp add: section_len_def p r16be_def)
  show "crc32_mpeg (with_crc pat_section) = 0"
    unfolding with_crc_def c by (simp add: p crc32_mpeg_def crc_eval w32be_def)
qed

lemma pmt_cut_short: "section_len (with_crc pmt_section) + 3 < length (with_crc pmt_section)"
  "crc32_mpeg (take (section_len (with_crc pmt_section) + 3) (with_crc pmt_section)) \<noteq> 0"
proof -
  have p: "pmt_section = [2, 0xB0, 0x0F, 0, 1, 0xC1, 0, 0, 0xE1, 0, 0xF0, 0, 0x1B, 0xE1, 0, 0xF0, 0]"
    by (simp add: pmt_section_def w16be_def PROGRAM_NUM_def VIDEO_PID_def)
  have c: "crc32_mpeg pmt_section = 0xA204D8E4" by (simp add: p crc32_mpeg_def crc_eval)
  have l: "section_len (with_crc pmt_section) = 15" unfolding with_crc_def c by (simp add: section_len_def p r16be_def)
  show "section_len (with_crc pmt_section) + 3 < length (with_crc pmt_section)" unfolding l by (simp add: with_crc_def p)
  show "crc32_mpeg (take (section_len (with_crc pmt_section) + 3) (with_crc pmt_section)) \<noteq> 0"
    unfolding l unfolding with_crc_def c by (simp add: p crc32_mpeg_def crc_eval w32be_def)
qed

end
