(* ===== verification/Hls_Segmenter.thy ===== *)
theory Hls_Segmenter
  imports Hls_Ts Filestore Cformat
begin

text \<open>
  The playlists of \<^verbatim>\<open>src/src/hls/m3u8_writer.c\<close> and the segments of \<^verbatim>\<open>src/src/hls/hls_segmenter.c\<close>: a segment is opened,
  written to and closed, and the playlist is put in place by renaming a temporary file.  A duration is the bit pattern of a
  C \<^verbatim>\<open>double\<close>, and the text that \<^verbatim>\<open>%.6f\<close> prints for it is the parameter \<open>fmt6\<close>.
\<close>

section \<open>Playlists\<close>

definition HLS_DEFAULT_SEGMENT_DURATION_S :: int where "HLS_DEFAULT_SEGMENT_DURATION_S = 6"
definition HLS_DEFAULT_WINDOW_SEGMENTS :: int where "HLS_DEFAULT_WINDOW_SEGMENTS = 5"
definition HLS_MAX_PATH :: nat where "HLS_MAX_PATH = 512"
definition HLS_MAX_SEG_NAME :: nat where "HLS_MAX_SEG_NAME = 64"

record hls_segment =
  hls_filename :: string
  hls_duration :: u64
  hls_discontinuity :: bool

definition ln :: "string \<Rightarrow> string" where "ln s = s @ nl"

definition m3u8_segment :: "(u64 \<Rightarrow> string) \<Rightarrow> hls_segment \<Rightarrow> string list" where
  "m3u8_segment fmt6 s = (if hls_discontinuity s then [ln ''#EXT-X-DISCONTINUITY''] else [])
     @ [ln (''#EXTINF:'' @ fmt6 (hls_duration s) @ '','') @ ln (hls_filename s)]"

definition m3u8_live_head :: "int \<Rightarrow> int \<Rightarrow> string" where
  "m3u8_live_head target_dur_s seq = ln ''#EXTM3U'' @ ln ''#EXT-X-VERSION:3'' @ ln (''#EXT-X-TARGETDURATION:'' @ dec_int target_dur_s)
     @ ln (''#EXT-X-MEDIA-SEQUENCE:'' @ dec_int seq)"

fun m3u8_write_live :: "(u64 \<Rightarrow> string) \<Rightarrow> hls_segment list option \<Rightarrow> int \<Rightarrow> int \<Rightarrow> int \<Rightarrow> int \<Rightarrow> string option \<Rightarrow> nat \<Rightarrow> int \<times> string option" where
  "m3u8_write_live fmt6 (Some segments) n window_size target_dur_s media_seq (Some buf) buf_sz =
     (if buf_sz = 0 then (-1, Some buf)
      else if n \<le> 0 \<or> window_size \<le> 0 then (-1, Some buf)
      else let start = max 0 (n - window_size);
               (r, s) = cf_result (cf_appends buf_sz (m3u8_live_head target_dur_s (media_seq + start)
                  # concat (map (m3u8_segment fmt6) (take (nat (n - start)) (drop (nat start) segments)))) []) in
        (r, Some s))"
| "m3u8_write_live fmt6 segments n window_size target_dur_s media_seq buf buf_sz = (-1, buf)"

definition m3u8_vod_head :: "int \<Rightarrow> string" where
  "m3u8_vod_head target_dur_s = ln ''#EXTM3U'' @ ln ''#EXT-X-VERSION:3'' @ ln (''#EXT-X-TARGETDURATION:'' @ dec_int target_dur_s)
     @ ln ''#EXT-X-PLAYLIST-TYPE:VOD'' @ ln ''#EXT-X-MEDIA-SEQUENCE:0''"

fun m3u8_write_vod :: "(u64 \<Rightarrow> string) \<Rightarrow> hls_segment list option \<Rightarrow> int \<Rightarrow> int \<Rightarrow> string option \<Rightarrow> nat \<Rightarrow> int \<times> string option" where
  "m3u8_write_vod fmt6 (Some segments) n target_dur_s (Some buf) buf_sz =
     (if buf_sz = 0 \<or> n \<le> 0 then (-1, Some buf)
      else let (r, s) = cf_result (cf_appends buf_sz (m3u8_vod_head target_dur_s
                  # concat (map (m3u8_segment fmt6) (take (nat n) segments)) @ [ln ''#EXT-X-ENDLIST'']) []) in (r, Some s))"
| "m3u8_write_vod fmt6 segments n target_dur_s buf buf_sz = (-1, buf)"

definition m3u8_variant :: "int \<Rightarrow> int \<Rightarrow> string \<times> int \<Rightarrow> string" where
  "m3u8_variant width height v = (case v of (uri, bandwidth) \<Rightarrow>
     ln (''#EXT-X-STREAM-INF:BANDWIDTH='' @ dec_int bandwidth
       @ (if width > 0 \<and> height > 0 then '',RESOLUTION='' @ dec_int width @ ''x'' @ dec_int height else [])) @ ln uri)"

fun m3u8_write_master :: "string list option \<Rightarrow> int list option \<Rightarrow> int \<Rightarrow> int \<Rightarrow> int \<Rightarrow> string option \<Rightarrow> nat \<Rightarrow> int \<times> string option" where
  "m3u8_write_master (Some uris) (Some bandwidths) n width height (Some buf) buf_sz =
     (if buf_sz = 0 \<or> n \<le> 0 then (-1, Some buf)
      else let (r, s) = cf_result (cf_appends buf_sz ((ln ''#EXTM3U'' @ ln ''#EXT-X-VERSION:3'')
                  # map (m3u8_variant width height) (take (nat n) (zip uris bandwidths))) []) in (r, Some s))"
| "m3u8_write_master uris bandwidths n width height buf buf_sz = (-1, buf)"

section \<open>The segmenter\<close>

definition MAX_SEGS :: nat where "MAX_SEGS = 512"

record hls_config =
  hsc_output_dir :: string
  hsc_base_name :: string
  hsc_playlist_name :: string
  hsc_target_duration :: int
  hsc_window_size :: int
  hsc_vod_mode :: bool

text \<open>\<open>hls_segs\<close> holds the first \<^verbatim>\<open>seg_count\<close> elements of the array; \<open>hls_fd\<close> is the path behind \<^verbatim>\<open>ts_fd\<close>.\<close>

record hls_segmenter =
  hls_cfg :: hls_config
  hls_segs :: "hls_segment list"
  hls_index :: int
  hls_ts :: "ts_writer option"
  hls_fd :: "string option"
  hls_open :: bool

text \<open>The process: its files, and how many descriptors it holds.\<close>

record hls_os =
  hos_fs :: filestore
  hos_fds :: int

fun hls_segmenter_create :: "bool \<Rightarrow> hls_config option \<Rightarrow> hls_segmenter option" where
  "hls_segmenter_create mem None = None"
| "hls_segmenter_create mem (Some cfg) = (if mem then
     (let cfg = (if hsc_target_duration cfg \<le> 0 then cfg\<lparr>hsc_target_duration := HLS_DEFAULT_SEGMENT_DURATION_S\<rparr> else cfg);
          cfg = (if hsc_window_size cfg \<le> 0 then cfg\<lparr>hsc_window_size := HLS_DEFAULT_WINDOW_SEGMENTS\<rparr> else cfg) in
      Some \<lparr>hls_cfg = cfg, hls_segs = [], hls_index = 0, hls_ts = None, hls_fd = None, hls_open = False\<rparr>) else None)"

definition seg_name :: "hls_config \<Rightarrow> int \<Rightarrow> string" where
  "seg_name cfg i = take (HLS_MAX_SEG_NAME - 14) (hsc_base_name cfg) @ dec_int i @ ''.ts''"

definition seg_path :: "hls_config \<Rightarrow> int \<Rightarrow> string" where
  "seg_path cfg i = cstr_fit (HLS_MAX_PATH + HLS_MAX_SEG_NAME * 2 + 4) (hsc_output_dir cfg @ ''/'' @ seg_name cfg i)"

text \<open>The writer works on the file behind the descriptor.\<close>

definition on_file :: "string \<Rightarrow> (out_file \<Rightarrow> 'a \<times> out_file) \<Rightarrow> hls_os \<Rightarrow> 'a \<times> hls_os" where
  "on_file path act os =
     (let (a, f) = act \<lparr>out_bytes = the (fs_files (hos_fs os) path), out_room = fs_room (hos_fs os)\<rparr> in
      (a, os\<lparr>hos_fs := (hos_fs os)\<lparr>fs_files := (fs_files (hos_fs os))(path \<mapsto> out_bytes f), fs_room := out_room f\<rparr>\<rparr>))"

definition with_writer :: "(out_file \<Rightarrow> int \<times> ts_writer option \<times> out_file) \<Rightarrow> out_file \<Rightarrow> (int \<times> ts_writer option) \<times> out_file" where
  "with_writer act f = (let (r, w, f) = act f in ((r, w), f))"

fun hls_segmenter_open_segment :: "bool \<Rightarrow> hls_segmenter option \<Rightarrow> hls_os \<Rightarrow> int \<times> hls_segmenter option \<times> hls_os" where
  "hls_segmenter_open_segment mem None os = (-1, None, os)"
| "hls_segmenter_open_segment mem (Some s) os =
     (if hls_open s then (-1, Some s, os)
      else let path = seg_path (hls_cfg s) (hls_index s) in
        case f_create path (hos_fs os) of
          None \<Rightarrow> (-1, Some (s\<lparr>hls_fd := None\<rparr>), os)
        | Some fs \<Rightarrow>
            let os = os\<lparr>hos_fs := fs, hos_fds := hos_fds os + 1\<rparr> in
            case ts_writer_create mem of
              None \<Rightarrow> (-1, Some (s\<lparr>hls_ts := None, hls_fd := None\<rparr>), os\<lparr>hos_fds := hos_fds os - 1\<rparr>)
            | Some w \<Rightarrow>
                let ((r, w), os) = on_file path (with_writer (ts_writer_write_pat_pmt (Some w))) os in
                if r \<noteq> 0 then (-1, Some (s\<lparr>hls_ts := w, hls_fd := Some path\<rparr>), os)
                else (0, Some (s\<lparr>hls_ts := w, hls_fd := Some path, hls_open := True\<rparr>), os))"

fun hls_segmenter_write :: "hls_segmenter option \<Rightarrow> u8 list option \<Rightarrow> u64 \<Rightarrow> bool \<Rightarrow> hls_os \<Rightarrow> int \<times> hls_segmenter option \<times> hls_os" where
  "hls_segmenter_write None data pts_90khz is_kf os = (-1, None, os)"
| "hls_segmenter_write (Some s) data pts_90khz is_kf os =
     (if \<not> hls_open s \<or> hls_ts s = None then (-1, Some s, os)
      else let ((r, w), os) = on_file (the (hls_fd s)) (with_writer (ts_writer_write_pes (hls_ts s) data pts_90khz is_kf)) os in
        (r, Some (s\<lparr>hls_ts := w\<rparr>), os))"

fun hls_segmenter_close_segment :: "hls_segmenter option \<Rightarrow> u64 \<Rightarrow> hls_os \<Rightarrow> int \<times> hls_segmenter option \<times> hls_os" where
  "hls_segmenter_close_segment None duration_s os = (-1, None, os)"
| "hls_segmenter_close_segment (Some s) duration_s os =
     (if \<not> hls_open s then (-1, Some s, os)
      else let s' = s\<lparr>hls_fd := None, hls_ts := None, hls_open := False\<rparr>;
               seg = \<lparr>hls_filename = cstr_fit HLS_MAX_SEG_NAME (seg_name (hls_cfg s) (hls_index s)), hls_duration = duration_s, hls_discontinuity = False\<rparr>;
               s' = (if length (hls_segs s) < MAX_SEGS then s'\<lparr>hls_segs := hls_segs s @ [seg]\<rparr> else s') in
        (0, Some (s'\<lparr>hls_index := hls_index s + 1\<rparr>), os\<lparr>hos_fds := hos_fds os - 1\<rparr>))"

definition playlist_path :: "hls_config \<Rightarrow> string" where
  "playlist_path cfg = cstr_fit (HLS_MAX_PATH + HLS_MAX_SEG_NAME + 2) (hsc_output_dir cfg @ ''/'' @ hsc_playlist_name cfg)"

definition playlist_tmp :: "hls_config \<Rightarrow> string" where
  "playlist_tmp cfg = cstr_fit (HLS_MAX_PATH + HLS_MAX_SEG_NAME + 8) (playlist_path cfg @ ''.tmp'')"

definition playlist_text :: "(u64 \<Rightarrow> string) \<Rightarrow> hls_segmenter \<Rightarrow> int \<times> string option" where
  "playlist_text fmt6 s =
     (let n = int (length (hls_segs s)); cfg = hls_cfg s in
      if hsc_vod_mode cfg then m3u8_write_vod fmt6 (Some (hls_segs s)) n (hsc_target_duration cfg) (Some []) 65536
      else m3u8_write_live fmt6 (Some (hls_segs s)) n (hsc_window_size cfg) (hsc_target_duration cfg) 0 (Some []) 65536)"

fun hls_segmenter_update_manifest :: "(u64 \<Rightarrow> string) \<Rightarrow> hls_segmenter option \<Rightarrow> hls_os \<Rightarrow> int \<times> hls_os" where
  "hls_segmenter_update_manifest fmt6 None os = (-1, os)"
| "hls_segmenter_update_manifest fmt6 (Some s) os =
     (if hls_segs s = [] then (-1, os)
      else let path = playlist_path (hls_cfg s); tmp = playlist_tmp (hls_cfg s); (n, buf) = playlist_text fmt6 s in
        if n < 0 then (-1, os)
        else case f_create tmp (hos_fs os) of
          None \<Rightarrow> (-1, os)
        | Some fs \<Rightarrow> case f_write tmp (str_bytes (take (nat n) (the buf))) fs of (ok, fs) \<Rightarrow>
            if \<not> ok then (-1, os\<lparr>hos_fs := f_remove tmp fs\<rparr>)
            else case f_rename tmp path fs of (ok, fs) \<Rightarrow> (if ok then 0 else -1, os\<lparr>hos_fs := fs\<rparr>))"

definition hls_segmenter_segment_count :: "hls_segmenter option \<Rightarrow> nat" where
  "hls_segmenter_segment_count s = (case s of None \<Rightarrow> 0 | Some s \<Rightarrow> length (hls_segs s))"

section \<open>What the playlist lists\<close>

datatype hls_op = HOpen bool | HWrite "u8 list" u64 bool | HClose u64

fun hls_call :: "hls_op \<Rightarrow> hls_segmenter \<times> hls_os \<Rightarrow> int \<times> hls_segmenter \<times> hls_os" where
  "hls_call (HOpen mem) (s, os) = (let (r, s', os) = hls_segmenter_open_segment mem (Some s) os in (r, the s', os))"
| "hls_call (HWrite bs pts kf) (s, os) = (let (r, s', os) = hls_segmenter_write (Some s) (Some bs) pts kf os in (r, the s', os))"
| "hls_call (HClose d) (s, os) = (let (r, s', os) = hls_segmenter_close_segment (Some s) d os in (r, the s', os))"

text \<open>The durations of the segments that a sequence of calls has closed, from its answers.\<close>

fun hls_closed :: "hls_op list \<Rightarrow> int list \<Rightarrow> u64 list" where
  "hls_closed (HClose d # ops) (r # rs) = (if r = 0 then d # hls_closed ops rs else hls_closed ops rs)"
| "hls_closed (op # ops) (r # rs) = hls_closed ops rs"
| "hls_closed ops rs = []"

definition hls_numbered :: "hls_config \<Rightarrow> u64 list \<Rightarrow> hls_segment list" where
  "hls_numbered cfg ds = map2 (\<lambda>i d. \<lparr>hls_filename = cstr_fit HLS_MAX_SEG_NAME (seg_name cfg (int i)), hls_duration = d, hls_discontinuity = False\<rparr>)
     [0..<length ds] ds"

definition hls_recorded :: "hls_segmenter \<Rightarrow> hls_config \<Rightarrow> u64 list \<Rightarrow> bool" where
  "hls_recorded s cfg ds \<longleftrightarrow> hls_cfg s = cfg \<and> hls_segs s = take MAX_SEGS (hls_numbered cfg ds) \<and> hls_index s = int (length ds)"

lemma length_numbered [simp]: "length (hls_numbered cfg ds) = length ds" by (simp add: hls_numbered_def)

lemma numbered_snoc: "hls_numbered cfg (ds @ [d]) = hls_numbered cfg ds
    @ [\<lparr>hls_filename = cstr_fit HLS_MAX_SEG_NAME (seg_name cfg (int (length ds))), hls_duration = d, hls_discontinuity = False\<rparr>]"
  by (simp add: hls_numbered_def)

lemma hls_open_records: "hls_segmenter_open_segment mem (Some s) os = (r, s', os') \<Longrightarrow>
    s' \<noteq> None \<and> hls_cfg (the s') = hls_cfg s \<and> hls_segs (the s') = hls_segs s \<and> hls_index (the s') = hls_index s"
  by (auto simp: Let_def split: if_splits option.splits prod.splits)

lemma hls_write_records: "hls_segmenter_write (Some s) data pts kf os = (r, s', os') \<Longrightarrow>
    s' \<noteq> None \<and> hls_cfg (the s') = hls_cfg s \<and> hls_segs (the s') = hls_segs s \<and> hls_index (the s') = hls_index s"
  by (auto simp: Let_def split: if_splits prod.splits)

lemma hls_close_records:
  assumes "hls_recorded s cfg ds" "hls_segmenter_close_segment (Some s) d os = (r, s', os')"
  shows "hls_recorded (the s') cfg (if r = 0 then ds @ [d] else ds)"
  using assms by (auto simp: hls_recorded_def Let_def numbered_snoc min_def split: if_splits)

lemma hls_call_records:
  assumes "hls_recorded s cfg ds" "hls_call op (s, os) = (r, s', os')"
  shows "hls_recorded s' cfg (ds @ hls_closed [op] [r])"
proof (cases op)
  case (HOpen mem)
  obtain r1 s1 os1 where "hls_segmenter_open_segment mem (Some s) os = (r1, s1, os1)" by (cases rule: prod_cases3)
  then show ?thesis using assms hls_open_records by (fastforce simp: HOpen hls_recorded_def)
next
  case (HWrite bs pts kf)
  obtain r1 s1 os1 where "hls_segmenter_write (Some s) (Some bs) pts kf os = (r1, s1, os1)" by (cases rule: prod_cases3)
  then show ?thesis using assms hls_write_records by (fastforce simp: HWrite hls_recorded_def simp del: hls_segmenter_write.simps)
next
  case (HClose d)
  obtain r1 s1 os1 where c: "hls_segmenter_close_segment (Some s) d os = (r1, s1, os1)" by (cases rule: prod_cases3)
  then show ?thesis using hls_close_records [OF assms(1) c] assms(2) by (auto simp: HClose simp del: hls_segmenter_close_segment.simps)
qed

lemma hls_run_records:
  assumes "hls_recorded s cfg ds" "run_calls hls_call ops (s, os) = (outs, s', os')"
  shows "hls_recorded s' cfg (ds @ hls_closed ops outs)"
  using assms
proof (induction ops arbitrary: s os ds outs)
  case (Cons op ops)
  obtain r s1 os1 where c: "hls_call op (s, os) = (r, s1, os1)" by (cases rule: prod_cases3)
  obtain outs1 where r: "run_calls hls_call ops (s1, os1) = (outs1, s', os')" and o: "outs = r # outs1"
    using Cons.prems(2) c by (auto split: prod.splits)
  have "hls_recorded s' cfg ((ds @ hls_closed [op] [r]) @ hls_closed ops outs1)"
    by (rule Cons.IH [OF hls_call_records [OF Cons.prems(1) c] r])
  then show ?case by (cases op) (auto simp: o split: if_splits)
qed simp

lemma tmp_not_playlist: "playlist_tmp cfg \<noteq> playlist_path cfg"
proof -
  have "length (playlist_path cfg) < 578" by (simp add: playlist_path_def HLS_MAX_PATH_def HLS_MAX_SEG_NAME_def length_cstr_fit)
  then show ?thesis by (simp add: playlist_tmp_def HLS_MAX_PATH_def HLS_MAX_SEG_NAME_def)
qed

text \<open>The listing: the last \<open>window\<close> of the segments recorded, numbered from the first one listed.\<close>

definition live_listing :: "(u64 \<Rightarrow> string) \<Rightarrow> hls_config \<Rightarrow> hls_segment list \<Rightarrow> string" where
  "live_listing fmt6 cfg segs = (let skipped = length segs - nat (hsc_window_size cfg) in
     m3u8_live_head (hsc_target_duration cfg) (int skipped) @ concat (concat (map (m3u8_segment fmt6) (drop skipped segs))))"

lemma playlist_text_live:
  assumes "\<not> hsc_vod_mode (hls_cfg s)" "0 < hsc_window_size (hls_cfg s)" "hls_segs s \<noteq> []" "playlist_text fmt6 s = (n, buf)" "0 \<le> n"
  shows "take (nat n) (the buf) = live_listing fmt6 (hls_cfg s) (hls_segs s)"
proof -
  define k where "k = length (hls_segs s) - nat (hsc_window_size (hls_cfg s))"
  define ps where "ps = m3u8_live_head (hsc_target_duration (hls_cfg s)) (int k) # concat (map (m3u8_segment fmt6) (drop k (hls_segs s)))"
  have start: "max 0 (int (length (hls_segs s)) - hsc_window_size (hls_cfg s)) = int k" using assms(2) by (simp add: k_def)
  have tk: "take (nat (int (length (hls_segs s)) - int k)) (drop k (hls_segs s)) = drop k (hls_segs s)" by simp
  have l: "concat ps = live_listing fmt6 (hls_cfg s) (hls_segs s)" by (simp add: live_listing_def Let_def ps_def k_def)
  have "(n, buf) = (case cf_result (cf_appends 65536 ps []) of (r, s) \<Rightarrow> (r, Some s))"
    using assms(1-4) tk by (simp add: playlist_text_def Let_def start ps_def del: cf_appends.simps)
  then show ?thesis using assms(5) cf_result_fits [of ps 65536] cf_result_full [of 65536 ps]
    by (cases "length (concat ps) < 65536") (auto simp: l split: prod.splits)
qed

text \<open>Whatever was opened, written and closed before, an update of a live playlist either puts the list of the last segments of the
  window in its place, or leaves the old playlist as it was.  Only the first 512 segments are ever listed.\<close>

theorem hls_playlist_current:
  assumes "hls_segmenter_create True (Some cfg) = Some s0" "run_calls hls_call ops (s0, os0) = (outs, s, os)"
    and "\<not> hsc_vod_mode cfg" "hls_segmenter_update_manifest fmt6 (Some s) os = (r, os')"
  shows "r = 0 \<and> fs_files (hos_fs os') (playlist_path cfg)
      = Some (str_bytes (live_listing fmt6 (hls_cfg s0) (take MAX_SEGS (hls_numbered (hls_cfg s0) (hls_closed ops outs)))))
    \<or> r = -1 \<and> fs_files (hos_fs os') (playlist_path cfg) = fs_files (hos_fs os) (playlist_path cfg)"
proof -
  have s0: "hls_recorded s0 (hls_cfg s0) []" "0 < hsc_window_size (hls_cfg s0)" "hsc_vod_mode (hls_cfg s0) = hsc_vod_mode cfg"
      "playlist_path (hls_cfg s0) = playlist_path cfg"
    using assms(1) by (cases "hsc_target_duration cfg \<le> 0"; cases "hsc_window_size cfg \<le> 0";
      auto simp: hls_recorded_def hls_numbered_def Let_def HLS_DEFAULT_WINDOW_SEGMENTS_def playlist_path_def)+
  have s: "hls_cfg s = hls_cfg s0" "hls_segs s = take MAX_SEGS (hls_numbered (hls_cfg s0) (hls_closed ops outs))"
    using hls_run_records [OF s0(1) assms(2)] by (simp_all add: hls_recorded_def)
  obtain n buf where t: "playlist_text fmt6 s = (n, buf)" by fastforce
  have l: "take (nat n) (the buf) = live_listing fmt6 (hls_cfg s0) (hls_segs s)" if "hls_segs s \<noteq> []" "\<not> n < 0"
    using playlist_text_live [OF _ _ that(1) t] that(2) s0 s(1) assms(3) by simp
  show ?thesis
    using assms(4) tmp_not_playlist [of "hls_cfg s0"]
    by (auto simp: Let_def t s(1) s0(4) s(2) [symmetric] l f_create_def f_write_def f_remove_def f_rename_def split: if_splits)
qed

lemma write_packet_ok:
  assumes "188 \<le> out_room f" "length data \<le> 184"
  shows "\<exists>w' f'. write_ts_packet w pid u ra data f = (0, w', f') \<and> out_room f' = out_room f - 188"
  using assms ts_packet_fields(1) [OF assms(2)] by (simp add: write_ts_packet_def fd_write_def Let_def HLS_TS_PACKET_SZ_def)

lemma pat_pmt_ok:
  assumes "376 \<le> out_room f"
  shows "\<exists>w' f'. ts_writer_write_pat_pmt (Some w) f = (0, Some w', f') \<and> out_room f' = out_room f - 376"
proof -
  have l: "length (0 # with_crc pat_section) \<le> 184" "length (0 # with_crc pmt_section) \<le> 184"
    by (simp_all add: with_crc_def pat_section_def pmt_section_def)
  obtain w1 f1 where 1: "write_ts_packet w 0 True False (0 # with_crc pat_section) f = (0, w1, f1)" "out_room f1 = out_room f - 188"
    using write_packet_ok [OF _ l(1), of f w 0 True False] assms by auto
  have r: "188 \<le> out_room f1" using assms 1(2) by linarith
  obtain w2 f2 where 2: "write_ts_packet w1 PMT_PID True False (0 # with_crc pmt_section) f1 = (0, w2, f2)" "out_room f2 = out_room f1 - 188"
    using write_packet_ok [OF _ l(2), of f1 w1 PMT_PID True False] r by auto
  have "out_room f2 = out_room f - 376" using 1(2) 2(2) by linarith
  then show ?thesis using 1 2 by simp
qed

lemma hls_open_ok:
  assumes "\<not> hls_open s" "fs_openable (hos_fs os) (seg_path (hls_cfg s) (hls_index s))" "376 \<le> fs_room (hos_fs os)"
  shows "\<exists>w fs. hls_segmenter_open_segment True (Some s) os
    = (0, Some (s\<lparr>hls_ts := Some w, hls_fd := Some (seg_path (hls_cfg s) (hls_index s)), hls_open := True\<rparr>), os\<lparr>hos_fs := fs, hos_fds := hos_fds os + 1\<rparr>)
    \<and> fs_room fs = fs_room (hos_fs os) - 376 \<and> fs_openable fs = fs_openable (hos_fs os) \<and> fs_renames fs = fs_renames (hos_fs os)"
proof -
  let ?w = "\<lparr>tsw_bytes_written = 0, tsw_continuity = replicate 0x2000 0\<rparr>"
  obtain w f where "ts_writer_write_pat_pmt (Some ?w) \<lparr>out_bytes = [], out_room = fs_room (hos_fs os)\<rparr> = (0, Some w, f)" "out_room f = fs_room (hos_fs os) - 376"
    using pat_pmt_ok [of "\<lparr>out_bytes = [], out_room = fs_room (hos_fs os)\<rparr>" ?w] assms(3) by (auto simp del: replicate.simps ts_writer_write_pat_pmt.simps)
  then show ?thesis using assms(1,2)
    by (intro exI [of _ w] exI [of _ "(hos_fs os)\<lparr>fs_files := (fs_files (hos_fs os))(seg_path (hls_cfg s) (hls_index s) \<mapsto> out_bytes f), fs_room := fs_room (hos_fs os) - 376\<rparr>"])
      (simp add: Let_def f_create_def ts_writer_create_def on_file_def with_writer_def del: replicate.simps ts_writer_write_pat_pmt.simps)
qed

lemma hls_playlist_current_witness:
  "\<exists>s0 s os os'. hls_segmenter_create True (Some \<lparr>hsc_output_dir = ''d'', hsc_base_name = ''s'', hsc_playlist_name = ''p'', hsc_target_duration = 0, hsc_window_size = 0, hsc_vod_mode = False\<rparr>) = Some s0
    \<and> run_calls hls_call [HOpen True, HClose 5] (s0, \<lparr>hos_fs = \<lparr>fs_files = Map.empty, fs_openable = \<lambda>_. True, fs_room = 1000, fs_renames = True\<rparr>, hos_fds = 0\<rparr>) = ([0, 0], s, os)
    \<and> hls_segmenter_update_manifest (\<lambda>_. ''6.0'') (Some s) os = (0, os')
    \<and> fs_files (hos_fs os') ''d/p'' = Some (str_bytes (live_listing (\<lambda>_. ''6.0'') (hls_cfg s0) [\<lparr>hls_filename = ''s0.ts'', hls_duration = 5, hls_discontinuity = False\<rparr>]))"
proof -
  let ?cfg = "\<lparr>hsc_output_dir = ''d'', hsc_base_name = ''s'', hsc_playlist_name = ''p'', hsc_target_duration = 0, hsc_window_size = 0, hsc_vod_mode = False\<rparr>"
  let ?os = "\<lparr>hos_fs = \<lparr>fs_files = Map.empty, fs_openable = \<lambda>_. True, fs_room = 1000, fs_renames = True\<rparr>, hos_fds = 0\<rparr>"
  define cfg where "cfg = \<lparr>hsc_output_dir = ''d'', hsc_base_name = ''s'', hsc_playlist_name = ''p'', hsc_target_duration = 6, hsc_window_size = 5, hsc_vod_mode = False\<rparr>"
  define s0 where "s0 = \<lparr>hls_cfg = cfg, hls_segs = [], hls_index = 0, hls_ts = None, hls_fd = None, hls_open = False\<rparr>"
  have s0: "hls_segmenter_create True (Some ?cfg) = Some s0"
    by (simp add: s0_def cfg_def HLS_DEFAULT_SEGMENT_DURATION_S_def HLS_DEFAULT_WINDOW_SEGMENTS_def)
  obtain w fs where o: "hls_segmenter_open_segment True (Some s0) ?os
      = (0, Some (s0\<lparr>hls_ts := Some w, hls_fd := Some (seg_path cfg 0), hls_open := True\<rparr>), ?os\<lparr>hos_fs := fs, hos_fds := 1\<rparr>)"
      "fs_room fs = 624" "fs_openable fs = (\<lambda>_. True)" "fs_renames fs"
    using hls_open_ok [of s0 ?os] by (auto simp: s0_def)
  have z: "char_of (48 :: nat) = CHR ''0''" by code_simp
  define seg where "seg = \<lparr>hls_filename = ''s0.ts'', hls_duration = 5, hls_discontinuity = False\<rparr>"
  have seg: "\<lparr>hls_filename = cstr_fit HLS_MAX_SEG_NAME (seg_name cfg 0), hls_duration = 5, hls_discontinuity = False\<rparr> = seg"
    by (simp add: seg_def cstr_fit_def seg_name_def cfg_def HLS_MAX_SEG_NAME_def dec_int_def dec.simps z)
  define s where "s = s0\<lparr>hls_segs := [seg], hls_index := 1\<rparr>"
  have run: "run_calls hls_call [HOpen True, HClose 5] (s0, ?os) = ([0, 0], s, ?os\<lparr>hos_fs := fs\<rparr>)"
    using o by (simp add: s_def s0_def Let_def seg MAX_SEGS_def del: hls_segmenter_open_segment.simps)
  have n: "hls_closed [HOpen True, HClose 5] [0, 0] = [5]" by simp
  have l: "take MAX_SEGS (hls_numbered (hls_cfg s0) [5]) = [seg]" using seg by (simp add: hls_numbered_def s0_def MAX_SEGS_def)
  have p: "playlist_path ?cfg = ''d/p''" by (simp add: playlist_path_def cstr_fit_def HLS_MAX_PATH_def HLS_MAX_SEG_NAME_def)
  have "length (m3u8_live_head 6 0 @ concat (m3u8_segment (\<lambda>_. ''6.0'') seg)) < 624"
    by (simp add: m3u8_live_head_def m3u8_segment_def ln_def nl_def dec_int_def dec.simps seg_def)
  then have t: "playlist_text (\<lambda>_. ''6.0'') s = (int (length (m3u8_live_head 6 0 @ concat (m3u8_segment (\<lambda>_. ''6.0'') seg))),
        Some (m3u8_live_head 6 0 @ concat (m3u8_segment (\<lambda>_. ''6.0'') seg)))"
      "length (m3u8_live_head 6 0 @ concat (m3u8_segment (\<lambda>_. ''6.0'') seg)) < 624"
    using cf_result_fits [of "m3u8_live_head 6 0 # m3u8_segment (\<lambda>_. ''6.0'') seg" 65536]
    by (simp_all add: playlist_text_def s_def s0_def cfg_def del: cf_appends.simps)
  then obtain os' where u: "hls_segmenter_update_manifest (\<lambda>_. ''6.0'') (Some s) (?os\<lparr>hos_fs := fs\<rparr>) = (0, os')"
    using o(2-4) by (simp add: s_def Let_def f_create_def f_write_def f_rename_def)
  show ?thesis using hls_playlist_current [OF s0 run _ u] s0 run u unfolding n l p by (auto simp: seg_def)
qed

text \<open>After 512 segments the list stands still, whatever is closed after them.\<close>

lemma hls_listing_frozen: "MAX_SEGS \<le> length ds \<Longrightarrow> take MAX_SEGS (hls_numbered cfg (ds @ es)) = take MAX_SEGS (hls_numbered cfg ds)"
  by (induction es rule: rev_induct) (simp_all add: append_assoc [symmetric] numbered_snoc del: append_assoc)

text \<open>An opening that fails at the program tables keeps its descriptor, and the next opening forgets it.\<close>

lemma hls_open_leaks:
  assumes "\<not> hls_open s" "fs_openable (hos_fs os) (seg_path (hls_cfg s) (hls_index s))" "hls_segmenter_open_segment True (Some s) os = (-1, Some s', os')"
  shows "hos_fds os' = hos_fds os + 1 \<and> \<not> hls_open s'"
  using assms by (auto simp: Let_def f_create_def ts_writer_create_def on_file_def split: if_splits prod.splits)

end
