(* ===== verification/Watermark.thy ===== *)
theory Watermark
  imports Wire
begin

text \<open>
  Watermarks, \<^verbatim>\<open>src/src/watermark\<close>: the payload record and its bits (\<^verbatim>\<open>watermark_payload.c\<close>), the marks in the lowest bits of
  scattered luma samples (\<^verbatim>\<open>watermark_lsb.c\<close>) and the choice of the kind of mark (\<^verbatim>\<open>watermark_strength.c\<close>).  Drawing a
  sample position repeats until a number is below a bound, so the operations that draw are partial: \<open>None\<close> is a call that
  does not return.
\<close>

section \<open>The payload\<close>

definition WATERMARK_MAGIC :: u32 where "WATERMARK_MAGIC = 0x574D4B50"
definition WATERMARK_HDR_SIZE :: nat where "WATERMARK_HDR_SIZE = 32"
definition WATERMARK_MAX_DATA_BYTES :: nat where "WATERMARK_MAX_DATA_BYTES = 8"

record watermark_payload =
  wm_viewer_id :: u64
  wm_session_id :: u64
  wm_timestamp_us :: u64
  wm_payload_bits :: u16
  wm_data :: "u8 list"

definition watermark_zero :: watermark_payload where
  "watermark_zero = \<lparr>wm_viewer_id = 0, wm_session_id = 0, wm_timestamp_us = 0, wm_payload_bits = 0, wm_data = replicate WATERMARK_MAX_DATA_BYTES 0\<rparr>"

definition wm_bytes :: "watermark_payload \<Rightarrow> u8 list" where
  "wm_bytes p = w32le WATERMARK_MAGIC @ w64le (wm_viewer_id p) @ w64le (wm_session_id p) @ w64le (wm_timestamp_us p)
     @ w16le (wm_payload_bits p) @ w16le 0 @ wm_data p"

fun watermark_payload_encode :: "watermark_payload option \<Rightarrow> u8 list option \<Rightarrow> int \<times> u8 list option" where
  "watermark_payload_encode (Some p) (Some buf) =
     (if length buf < WATERMARK_HDR_SIZE + WATERMARK_MAX_DATA_BYTES then (-1, Some buf)
      else (int (WATERMARK_HDR_SIZE + WATERMARK_MAX_DATA_BYTES), Some (overwrite (wm_bytes p) buf)))"
| "watermark_payload_encode p buf = (-1, buf)"

fun watermark_payload_decode :: "u8 list option \<Rightarrow> watermark_payload option \<Rightarrow> int \<times> watermark_payload option" where
  "watermark_payload_decode (Some buf) (Some p) =
     (if length buf < WATERMARK_HDR_SIZE + WATERMARK_MAX_DATA_BYTES then (-1, Some p)
      else if r32le buf 0 \<noteq> WATERMARK_MAGIC then (-1, Some p)
      else (0, Some \<lparr>wm_viewer_id = r64le buf 4, wm_session_id = r64le buf 12, wm_timestamp_us = r64le buf 20, wm_payload_bits = r16le buf 28,
         wm_data = take WATERMARK_MAX_DATA_BYTES (drop WATERMARK_HDR_SIZE buf)\<rparr>))"
| "watermark_payload_decode buf p = (-1, p)"

definition viewer_bits :: "u64 \<Rightarrow> u8 list" where
  "viewer_bits v = map (\<lambda>i. ucast (drop_bit (63 - i) v AND 1)) [0..<64]"

fun watermark_payload_to_bits :: "watermark_payload option \<Rightarrow> u8 list option \<Rightarrow> int \<times> u8 list option" where
  "watermark_payload_to_bits (Some p) (Some bits) =
     (if length bits < 64 then (-1, Some bits) else (64, Some (overwrite (viewer_bits (wm_viewer_id p)) bits)))"
| "watermark_payload_to_bits p bits = (-1, bits)"

definition bits_viewer :: "u8 list \<Rightarrow> u64" where
  "bits_viewer bits = foldl (\<lambda>v b. push_bit 1 v OR ucast (b AND 1)) 0 bits"

fun watermark_payload_from_bits :: "u8 list option \<Rightarrow> int \<Rightarrow> watermark_payload option \<Rightarrow> int \<times> watermark_payload option" where
  "watermark_payload_from_bits (Some bits) n_bits (Some p) =
     (if n_bits \<noteq> 64 then (-1, Some p) else (0, Some (p\<lparr>wm_viewer_id := bits_viewer (take 64 bits)\<rparr>)))"
| "watermark_payload_from_bits bits n_bits p = (-1, p)"

section \<open>Marks in the lowest bits\<close>

definition xs64_next :: "u64 \<Rightarrow> u64" where
  "xs64_next state =
     (let x = state; x = x XOR push_bit 13 x; x = x XOR drop_bit 7 x; x = x XOR push_bit 17 x in x)"

text \<open>A position, and the state of the generator after it.\<close>

definition draw_bound :: "u32 \<Rightarrow> u64" where
  "draw_bound total_px = (- 1 div ucast total_px) * ucast total_px"

partial_function (option) pixel_index :: "u64 \<Rightarrow> u32 \<Rightarrow> (nat \<times> u64) option" where
  "pixel_index rng total_px =
     (let v = xs64_next rng in
      if draw_bound total_px \<le> v then pixel_index v total_px else Some (unat (v mod ucast total_px), v))"

definition mark_sample :: "u8 \<Rightarrow> u8 \<Rightarrow> u8" where
  "mark_sample orig b = (orig AND 0xFE) OR (b AND 1)"

definition wm_seed :: "u64 \<Rightarrow> u64" where
  "wm_seed viewer_id = (let rng = viewer_id XOR 0xDEADBEEFCAFEBABE in if rng = 0 then 1 else rng)"

definition sample_at :: "nat \<Rightarrow> nat \<Rightarrow> nat \<Rightarrow> nat" where
  "sample_at width stride idx = idx div width * stride + idx mod width"

text \<open>The two loops, over the bits to embed and over the bits still to read.\<close>

fun lsb_embed_loop :: "u8 list \<Rightarrow> u64 \<Rightarrow> nat \<Rightarrow> nat \<Rightarrow> u32 \<Rightarrow> u8 list \<Rightarrow> u8 list option" where
  "lsb_embed_loop [] rng width stride total_px luma = Some luma"
| "lsb_embed_loop (b # bs) rng width stride total_px luma =
     (case pixel_index rng total_px of None \<Rightarrow> None
      | Some (idx, rng) \<Rightarrow> let a = sample_at width stride idx in
          lsb_embed_loop bs rng width stride total_px (luma[a := mark_sample (luma ! a) b]))"

fun lsb_extract_loop :: "nat \<Rightarrow> u64 \<Rightarrow> nat \<Rightarrow> nat \<Rightarrow> u32 \<Rightarrow> u8 list \<Rightarrow> u8 list option" where
  "lsb_extract_loop 0 rng width stride total_px luma = Some []"
| "lsb_extract_loop (Suc n) rng width stride total_px luma =
     (case pixel_index rng total_px of None \<Rightarrow> None
      | Some (idx, rng) \<Rightarrow> map_option ((#) (luma ! sample_at width stride idx AND 1)) (lsb_extract_loop n rng width stride total_px luma))"

definition WM_BITS :: nat where "WM_BITS = 64"

definition bad_plane :: "int \<Rightarrow> int \<Rightarrow> int \<Rightarrow> bool" where
  "bad_plane width height stride \<longleftrightarrow> width \<le> 0 \<or> height \<le> 0 \<or> stride < width \<or> width * height < int WM_BITS"

fun watermark_lsb_embed :: "u8 list option \<Rightarrow> int \<Rightarrow> int \<Rightarrow> int \<Rightarrow> watermark_payload option \<Rightarrow> (int \<times> u8 list option) option" where
  "watermark_lsb_embed (Some luma) width height stride (Some p) =
     (if bad_plane width height stride then Some (-1, Some luma)
      else map_option (\<lambda>luma. (int WM_BITS, Some luma))
        (lsb_embed_loop (viewer_bits (wm_viewer_id p)) (wm_seed (wm_viewer_id p)) (nat width) (nat stride) (of_int (width * height)) luma))"
| "watermark_lsb_embed luma width height stride p = Some (-1, luma)"

fun watermark_lsb_extract :: "u8 list option \<Rightarrow> int \<Rightarrow> int \<Rightarrow> int \<Rightarrow> u64 \<Rightarrow> watermark_payload option \<Rightarrow> (int \<times> watermark_payload option) option" where
  "watermark_lsb_extract (Some luma) width height stride viewer_id (Some out) =
     (if bad_plane width height stride then Some (-1, Some out)
      else map_option (\<lambda>bits. let (r, out) = watermark_payload_from_bits (Some bits) (int WM_BITS) (Some watermark_zero) in
             if r \<noteq> 0 then (-1, out) else (int WM_BITS, out))
        (lsb_extract_loop WM_BITS (wm_seed viewer_id) (nat width) (nat stride) (of_int (width * height)) luma))"
| "watermark_lsb_extract luma width height stride viewer_id out = Some (-1, out)"

section \<open>The choice of the mark\<close>

datatype watermark_mode = WATERMARK_MODE_LSB | WATERMARK_MODE_DCT

definition WATERMARK_DCT_DELTA_DEFAULT :: int where "WATERMARK_DCT_DELTA_DEFAULT = 32"

record watermark_strength =
  wms_mode :: watermark_mode
  wms_dct_delta :: int
  wms_apply :: bool

definition watermark_strength_select :: "int \<Rightarrow> bool \<Rightarrow> watermark_strength option \<Rightarrow> int \<times> watermark_strength option" where
  "watermark_strength_select quality_hint is_keyframe out = (case out of None \<Rightarrow> (-1, None) | Some s \<Rightarrow>
     let q = min 100 (max 0 quality_hint) in
     (0, Some (if q \<ge> 70 then \<lparr>wms_mode = WATERMARK_MODE_LSB, wms_dct_delta = 0, wms_apply = True\<rparr>
       else \<lparr>wms_mode = WATERMARK_MODE_DCT, wms_dct_delta = (if q \<ge> 30 then WATERMARK_DCT_DELTA_DEFAULT else WATERMARK_DCT_DELTA_DEFAULT * 2),
             wms_apply = is_keyframe\<rparr>)))"

fun watermark_strength_mode_name :: "watermark_mode \<Rightarrow> string" where
  "watermark_strength_mode_name WATERMARK_MODE_LSB = ''lsb''"
| "watermark_strength_mode_name WATERMARK_MODE_DCT = ''dct''"

section \<open>What comes back\<close>

text \<open>The record.\<close>

definition wm_wf :: "watermark_payload \<Rightarrow> bool" where "wm_wf p \<longleftrightarrow> length (wm_data p) = WATERMARK_MAX_DATA_BYTES"

lemma watermark_record_roundtrip:
  assumes "wm_wf p" "40 \<le> length buf"
  shows "\<exists>buf'. watermark_payload_encode (Some p) (Some buf) = (40, Some buf') \<and> watermark_payload_decode (Some buf') (Some q) = (0, Some p)"
  using assms by (simp add: wm_wf_def WATERMARK_HDR_SIZE_def WATERMARK_MAX_DATA_BYTES_def wm_bytes_def overwrite_def wire_simps)

text \<open>The bits of an identifier.\<close>

lemma bits_viewer_snoc: "bits_viewer (bs @ [b]) = push_bit 1 (bits_viewer bs) OR ucast (b AND 1)"
  by (simp add: bits_viewer_def)

lemma bits_viewer_bit:
  "length bs \<le> 64 \<Longrightarrow> bit (bits_viewer bs) n \<longleftrightarrow> n < length bs \<and> bit (bs ! (length bs - 1 - n)) 0"
proof (induction bs arbitrary: n rule: rev_induct)
  case Nil
  then show ?case by (simp add: bits_viewer_def)
next
  case (snoc b bs)
  have b1: "bit (b AND 1) k \<longleftrightarrow> k = 0 \<and> bit b 0" for k by (auto simp: bit_and_iff bit_1_iff)
  show ?case
  proof (cases n)
    case 0
    then show ?thesis by (simp add: bits_viewer_snoc bit_or_iff bit_push_bit_iff bit_ucast_iff b1 nth_append del: push_bit_Suc)
  next
    case (Suc m)
    have "bit (push_bit 1 (bits_viewer bs)) (Suc m) \<longleftrightarrow> m < 63 \<and> bit (bits_viewer bs) m"
      using bit_push_bit_iff [of 1 "bits_viewer bs" "Suc m"] by auto
    moreover have "\<not> bit (ucast (b AND 1) :: u64) (Suc m)" by (simp add: bit_ucast_iff b1)
    ultimately show ?thesis using snoc.IH [of m] snoc.prems
      by (auto simp: Suc bits_viewer_snoc bit_or_iff nth_append diff_diff_add)
  qed
qed

lemma viewer_bits_nth: "i < 64 \<Longrightarrow> viewer_bits v ! i = (if bit v (63 - i) then 1 else 0)"
proof -
  have "ucast (x AND 1) = (if bit x 0 then 1 else 0 :: u8)" for x :: u64
    by (simp add: and_one_eq bit_0 odd_iff_mod_2_eq_one)
  then show "i < 64 \<Longrightarrow> viewer_bits v ! i = (if bit v (63 - i) then 1 else 0)" by (simp add: viewer_bits_def bit_drop_bit_eq)
qed

lemma viewer_bits_back: "bits_viewer (viewer_bits v) = v"
proof (rule bit_word_eqI)
  fix n :: nat
  assume n: "n < LENGTH(64)"
  have l: "length (viewer_bits v) = 64" by (simp add: viewer_bits_def)
  show "bit (bits_viewer (viewer_bits v)) n = bit v n"
    using n by (simp add: bits_viewer_bit l viewer_bits_nth)
qed

section \<open>The samples drawn\<close>

fun wm_draws :: "nat \<Rightarrow> u64 \<Rightarrow> u32 \<Rightarrow> nat list option" where
  "wm_draws 0 rng total_px = Some []"
| "wm_draws (Suc n) rng total_px = (case pixel_index rng total_px of None \<Rightarrow> None | Some (idx, rng) \<Rightarrow> map_option ((#) idx) (wm_draws n rng total_px))"

definition embed_all :: "(nat \<times> u8) list \<Rightarrow> u8 list \<Rightarrow> u8 list" where
  "embed_all marks luma = foldl (\<lambda>l (a, b). l[a := mark_sample (l ! a) b]) luma marks"

lemma embed_loop_draws: "lsb_embed_loop bs rng w s t luma
    = map_option (\<lambda>ps. embed_all (zip (map (sample_at w s) ps) bs) luma) (wm_draws (length bs) rng t)"
  by (induction bs arbitrary: rng luma) (auto simp: embed_all_def option.map_comp comp_def Let_def split: option.split intro!: map_option_cong)

lemma extract_loop_draws: "lsb_extract_loop n rng w s t luma = map_option (map (\<lambda>p. luma ! sample_at w s p AND 1)) (wm_draws n rng t)"
  by (induction n arbitrary: rng) (auto simp: option.map_comp comp_def split: option.split)

lemma length_wm_draws: "wm_draws n rng t = Some ps \<Longrightarrow> length ps = n"
  by (induction n arbitrary: rng ps) (auto split: option.splits)

lemma pixel_index_range:
  assumes "pixel_index rng t = Some y"
  shows "0 < t \<longrightarrow> fst y < unat t"
proof (rule pixel_index.raw_induct [OF _ assms])
  fix f :: "u64 \<Rightarrow> u32 \<Rightarrow> (nat \<times> u64) option" and rng t y
  assume IH: "\<And>rng t y. f rng t = Some y \<Longrightarrow> 0 < t \<longrightarrow> fst y < unat t"
    and y: "(let v = xs64_next rng in if draw_bound t \<le> v then f v t else Some (unat (v mod ucast t), v)) = Some y"
  have "unat (v mod ucast t) < unat t" if "0 < t" for v :: u64
    using that by (simp add: unat_mod word_less_nat_alt unat_ucast_up)
  then show "0 < t \<longrightarrow> fst y < unat t" using IH y by (auto simp: Let_def split: if_splits)
qed

lemma pixel_index_below: "pixel_index rng t = Some (i, rng') \<Longrightarrow> 0 < t \<Longrightarrow> i < unat t"
  using pixel_index_range by fastforce

lemma wm_draws_below: "wm_draws n rng t = Some ps \<Longrightarrow> 0 < t \<Longrightarrow> p \<in> set ps \<Longrightarrow> p < unat t"
  by (induction n arbitrary: rng ps) (auto split: option.splits dest: pixel_index_below)

lemma sample_at_inj: "0 < w \<Longrightarrow> w \<le> s \<Longrightarrow> sample_at w s i = sample_at w s j \<longleftrightarrow> i = j"
proof
  assume a: "0 < w" "w \<le> s" "sample_at w s i = sample_at w s j"
  have m: "k mod w < s" for k using a(1,2) by (metis mod_less_divisor order_less_le_trans)
  have "sample_at w s k div s = k div w" "sample_at w s k mod s = k mod w" for k
    using m [of k] by (simp_all add: sample_at_def)
  then have "i div w = j div w" "i mod w = j mod w" using a(3) by metis+
  then show "i = j" by (metis div_mult_mod_eq)
qed simp

lemma sample_at_bound: "i < w * h \<Longrightarrow> w \<le> s \<Longrightarrow> sample_at w s i < s * h"
proof -
  assume a: "i < w * h" "w \<le> s"
  then have w: "0 < w" by (cases w) auto
  have "i div w < h" using a(1) by (simp add: less_mult_imp_div_less mult.commute)
  moreover have "i mod w < s" using w a(2) by (metis mod_less_divisor order_less_le_trans)
  ultimately have "i div w * s + i mod w < (i div w + 1) * s" by simp
  also have "\<dots> \<le> h * s" using \<open>i div w < h\<close> by (intro mult_le_mono1) simp
  finally show ?thesis by (simp add: sample_at_def mult.commute)
qed

section \<open>Marks in a plane\<close>

lemma mark_bits: "mark_sample v b AND 1 = b AND 1" "mark_sample v b AND 0xFE = v AND 0xFE"
proof -
  have "bit (0xFE :: u8) 0 = False" by simp
  show "mark_sample v b AND 1 = b AND 1" by (simp add: mark_sample_def bit.conj_disj_distrib2 and.assoc)
  show "mark_sample v b AND 0xFE = v AND 0xFE" by (simp add: mark_sample_def bit.conj_disj_distrib2 and.assoc)
qed

lemma embed_all_Cons: "embed_all ((a, b) # ms) luma = embed_all ms (luma[a := mark_sample (luma ! a) b])"
  by (simp add: embed_all_def)

lemma length_embed_all [simp]: "length (embed_all ms luma) = length luma"
  by (induction ms arbitrary: luma) (auto simp: embed_all_def)

lemma embed_all_Nil: "embed_all [] luma = luma" by (simp add: embed_all_def)

lemma embed_all_keeps: "k < length luma \<Longrightarrow> embed_all ms luma ! k AND 0xFE = luma ! k AND 0xFE"
proof (induction ms arbitrary: luma)
  case (Cons m ms)
  then show ?case by (cases m; cases "fst m = k") (simp_all add: embed_all_Cons mark_bits)
qed (simp add: embed_all_Nil)

lemma embed_all_other: "k \<notin> fst ` set ms \<Longrightarrow> embed_all ms luma ! k = luma ! k"
  by (induction ms arbitrary: luma) (auto simp: embed_all_Cons nth_list_update embed_all_Nil)

lemma embed_all_mark:
  assumes "\<forall>(a, b)\<in>set ms. \<forall>(a', b')\<in>set ms. a = a' \<longrightarrow> b AND 1 = b' AND 1" "(a, b) \<in> set ms" "a < length luma"
  shows "embed_all ms luma ! a AND 1 = b AND 1"
  using assms
proof (induction ms arbitrary: luma b)
  case (Cons m ms)
  obtain a0 b0 where m: "m = (a0, b0)" by fastforce
  have IH: "(a, b') \<in> set ms \<Longrightarrow> embed_all ms (luma[a0 := mark_sample (luma ! a0) b0]) ! a AND 1 = b' AND 1" for b'
    by (rule Cons.IH) (use Cons.prems(1,3) in auto)
  show ?case
  proof (cases "a \<in> fst ` set ms")
    case True
    then obtain b' where b': "(a, b') \<in> set ms" by auto
    then have "b' AND 1 = b AND 1" using Cons.prems(1,2) by fastforce
    then show ?thesis using IH [OF b'] by (simp add: m embed_all_Cons)
  next
    case False
    then have "a = a0" "b = b0" using Cons.prems(2) by (force simp: m)+
    then show ?thesis using False Cons.prems(3) by (simp add: m embed_all_Cons embed_all_other mark_bits)
  qed
qed simp

lemma mark_exists: "i < 64 \<Longrightarrow> length ps = 64 \<Longrightarrow> (sample_at w s (ps ! i), viewer_bits v ! i) \<in> set (zip (map (sample_at w s) ps) (viewer_bits v))"
  by (auto simp: in_set_zip viewer_bits_def intro!: exI [of _ i])

lemma bits_viewer_eq:
  assumes "length bits = 64" "\<And>i. i < 64 \<Longrightarrow> bits ! i AND 1 = bits ! i"
  shows "bits_viewer bits = v \<longleftrightarrow> (\<forall>i < 64. bits ! i = viewer_bits v ! i)"
proof
  assume a: "bits_viewer bits = v"
  have z: "(x :: u8) AND 1 = (if bit x 0 then 1 else 0)" for x by (simp add: and_one_eq bit_0 odd_iff_mod_2_eq_one)
  show "\<forall>i < 64. bits ! i = viewer_bits v ! i"
  proof (intro allI impI)
    fix i :: nat
    assume i: "i < 64"
    have "bit v (63 - i) = bit (bits ! i) 0" using bits_viewer_bit [of bits "63 - i"] assms(1) i by (auto simp: a)
    then show "bits ! i = viewer_bits v ! i" using i z [of "bits ! i"] assms(2) [OF i] by (simp add: viewer_bits_nth)
  qed
next
  assume "\<forall>i < 64. bits ! i = viewer_bits v ! i"
  then have "bits = viewer_bits v" by (intro nth_equalityI) (simp_all add: assms viewer_bits_def)
  then show "bits_viewer bits = v" by (simp add: viewer_bits_back)
qed

lemma marks_read:
  fixes v :: u64
  assumes "length ps = 64" "\<And>i j. at i = at j \<longleftrightarrow> i = j" "\<And>i. i < 64 \<Longrightarrow> at (ps ! i) < length luma"
  defines "luma' \<equiv> embed_all (zip (map at ps) (viewer_bits v)) luma"
  shows "(\<forall>i < 64. luma' ! at (ps ! i) AND 1 = viewer_bits v ! i)
    \<longleftrightarrow> (\<forall>i < 64. \<forall>j < 64. ps ! i = ps ! j \<longrightarrow> bit v (63 - i) = bit v (63 - j))"
proof
  assume a: "\<forall>i < 64. luma' ! at (ps ! i) AND 1 = viewer_bits v ! i"
  show "\<forall>i < 64. \<forall>j < 64. ps ! i = ps ! j \<longrightarrow> bit v (63 - i) = bit v (63 - j)"
  proof (intro allI impI)
    fix i j :: nat
    assume ij: "i < 64" "j < 64" "ps ! i = ps ! j"
    then have "viewer_bits v ! i = viewer_bits v ! j" using a by metis
    then show "bit v (63 - i) = bit v (63 - j)" using ij by (simp add: viewer_bits_nth split: if_splits)
  qed
next
  define ms where "ms = zip (map at ps) (viewer_bits v)"
  have vb: "length (viewer_bits v) = 64" by (simp add: viewer_bits_def)
  assume a: "\<forall>i < 64. \<forall>j < 64. ps ! i = ps ! j \<longrightarrow> bit v (63 - i) = bit v (63 - j)"
  have c: "\<forall>(a, b)\<in>set ms. \<forall>(a', b')\<in>set ms. a = a' \<longrightarrow> b AND 1 = b' AND 1"
  proof (clarify)
    fix k b b'
    assume k: "(k, b) \<in> set ms" "(k, b') \<in> set ms"
    obtain i where i: "i < 64" "k = at (ps ! i)" "b = viewer_bits v ! i" using k(1) by (auto simp: ms_def in_set_zip assms(1) vb)
    obtain j where j: "j < 64" "k = at (ps ! j)" "b' = viewer_bits v ! j" using k(2) by (auto simp: ms_def in_set_zip assms(1) vb)
    have "ps ! i = ps ! j" using i(2) j(2) assms(2) by simp
    then have "bit v (63 - i) = bit v (63 - j)" using a i(1) j(1) by blast
    then show "b AND 1 = b' AND 1" unfolding i(3) j(3) viewer_bits_nth [OF i(1)] viewer_bits_nth [OF j(1)] by simp
  qed
  show "\<forall>i < 64. luma' ! at (ps ! i) AND 1 = viewer_bits v ! i"
  proof (intro allI impI)
    fix i :: nat
    assume i: "i < 64"
    then have "(at (ps ! i), viewer_bits v ! i) \<in> set ms" by (auto simp: ms_def in_set_zip assms(1) vb intro!: exI [of _ i])
    from embed_all_mark [OF c this assms(3) [OF i]] show "luma' ! at (ps ! i) AND 1 = viewer_bits v ! i"
      using i by (simp add: luma'_def ms_def [symmetric] viewer_bits_nth)
  qed
qed

lemma plane_size: "0 < w \<Longrightarrow> 0 < h \<Longrightarrow> w * h < 2 ^ 31 \<Longrightarrow> unat (of_int (w * h) :: u32) = nat w * nat h"
proof -
  assume a: "0 < w" "0 < h" "w * h < 2 ^ 31"
  then have e: "(of_int (w * h) :: u32) = of_nat (nat w * nat h)" by (simp add: of_nat_nat)
  have "nat w * nat h < 2 ^ LENGTH(32)" using a by (simp add: nat_mult_distrib [symmetric])
  then show ?thesis unfolding e by (rule unat_of_nat_less)
qed

text \<open>Embedding changes only lowest bits, and extracting with the same identifier gives the identifier back exactly when the
  positions that were drawn more than once were drawn for equal bits: the later mark overwrites the earlier one.\<close>

theorem watermark_read_back:
  assumes "\<not> bad_plane w h s" "w * h < 2 ^ 31" "nat s * nat h \<le> length luma" "wm_draws 64 (wm_seed (wm_viewer_id p)) (of_int (w * h)) = Some ps"
  shows "\<exists>luma' out. watermark_lsb_embed (Some luma) w h s (Some p) = Some (64, Some luma')
    \<and> watermark_lsb_extract (Some luma') w h s (wm_viewer_id p) (Some q) = Some (64, Some out)
    \<and> length luma' = length luma \<and> (\<forall>k < length luma. luma' ! k AND 0xFE = luma ! k AND 0xFE)
    \<and> (wm_viewer_id out = wm_viewer_id p \<longleftrightarrow>
        (\<forall>i < 64. \<forall>j < 64. ps ! i = ps ! j \<longrightarrow> bit (wm_viewer_id p) (63 - i) = bit (wm_viewer_id p) (63 - j)))"
proof -
  define v where "v = wm_viewer_id p"
  define at where "at = sample_at (nat w) (nat s)"
  define luma' where "luma' = embed_all (zip (map at ps) (viewer_bits v)) luma"
  define bits where "bits = map (\<lambda>i. luma' ! at i AND 1) ps"
  have pl: "0 < w" "0 < h" "w \<le> s" using assms(1) by (auto simp: bad_plane_def)
  have n: "length ps = 64" by (rule length_wm_draws [OF assms(4)])
  have t0: "0 < (of_int (w * h) :: u32)" unfolding word_less_nat_alt plane_size [OF pl(1,2) assms(2)] using pl by simp
  have inb: "at (ps ! i) < length luma" if "i < 64" for i
  proof -
    have "ps ! i < nat w * nat h"
      using wm_draws_below [OF assms(4) t0, of "ps ! i"] that n unfolding plane_size [OF pl(1,2) assms(2)] by simp
    then show ?thesis using sample_at_bound [of "ps ! i" "nat w" "nat h" "nat s"] assms(3) nat_mono [OF pl(3)] by (simp add: at_def)
  qed
  have inj: "at i = at j \<longleftrightarrow> i = j" for i j using sample_at_inj [of "nat w" "nat s" i j] pl by (simp add: at_def)
  have "length (viewer_bits v) = 64" by (simp add: viewer_bits_def)
  then have e: "watermark_lsb_embed (Some luma) w h s (Some p) = Some (64, Some luma')"
    using assms(1,4) by (simp add: embed_loop_draws WM_BITS_def luma'_def v_def at_def)
  have x: "watermark_lsb_extract (Some luma') w h s v (Some q) = Some (64, Some (watermark_zero\<lparr>wm_viewer_id := bits_viewer bits\<rparr>))"
    using assms(1,4) n by (simp add: extract_loop_draws WM_BITS_def v_def at_def bits_def)
  have "bits_viewer bits = v \<longleftrightarrow> (\<forall>i < 64. luma' ! at (ps ! i) AND 1 = viewer_bits v ! i)"
    using bits_viewer_eq [of bits v] n by (simp add: bits_def and.assoc)
  then show ?thesis using e x embed_all_keeps [of _ luma] marks_read [where luma = luma and v = v, OF n inj inb]
    unfolding v_def luma'_def by auto
qed

lemma pixel_index_step: "xs64_next rng = v \<Longrightarrow> v < draw_bound t \<Longrightarrow> pixel_index rng t = Some (unat (v mod ucast t), v)"
  by (subst pixel_index.simps) (auto simp: Let_def)


fun xs_chain :: "u64 \<Rightarrow> u32 \<Rightarrow> u64 list \<Rightarrow> bool" where
  "xs_chain rng t [] = True"
| "xs_chain rng t (v # vs) = (xs64_next rng = v \<and> v < draw_bound t \<and> xs_chain v t vs)"

lemma wm_draws_chain: "xs_chain rng t vs \<Longrightarrow> wm_draws (length vs) rng t = Some (map (\<lambda>v. unat (v mod ucast t)) vs)"
  by (induction vs arbitrary: rng) (simp_all add: pixel_index_step)

definition states_2 :: "u64 list" where
  "states_2 = [2872271936275114185, 9409914622937102936, 6829729430330620588, 14644973190430316505, 1506874386217725494, 1104006491571121002,
     17782493163518317884, 582819019897978518, 2967155324400034667, 15959287363361493613, 285174933368274057, 7031865280583727920,
     6496524429078005702, 3797277193008519497, 7829575577913492795, 2699804321776704753, 17243828254239662472, 3953881823703489227,
     11141704225718335678, 8435484684541216463, 17055095528225452674, 14856526630125151335, 5384682741529257711, 10236140869006488418,
     6997370462763880708, 13048122676513039398, 7632032789004034926, 5729465921718732968, 10322822952735007289, 12106232914414618045,
     6328614111559429238, 2319243746158312878, 2674945947846691285, 3848127835093636870, 744255833385439144, 17169179371378737847,
     15020548967328592498, 15998171630864177302, 2684688124424762663, 1545587362945664141, 6221207435531414724, 16440400025477865757,
     17919693077071288991, 2114505469935527402, 12391744362744176161, 17843783123400710109, 10469837834115895602, 17691774150496126224,
     2203157359333229594, 1374679794347192850, 2471961365360773110, 11097056134562650489, 11561510204119989515, 18210196188801753009,
     9049454290718553422, 5329918874857485604, 15498700072888136526, 2176603433543254568, 15752952617698997164, 5604522130700393675,
     7799940277631476402, 6795553192400025335, 13887674729671403482, 7736906516767663637]"

definition xor_left :: "nat \<Rightarrow> u64 \<Rightarrow> u64" where "xor_left n x = x XOR push_bit n x"
definition xor_right :: "nat \<Rightarrow> u64 \<Rightarrow> u64" where "xor_right n x = x XOR drop_bit n x"

lemma xs64_steps: "xs64_next s = xor_left 17 (xor_right 7 (xor_left 13 s))"
  by (simp add: xs64_next_def Let_def xor_left_def xor_right_def)

lemma xor_numerals: "xor_left n (numeral k) = numeral k XOR push_bit n (numeral k)" "xor_right n (numeral k) = numeral k XOR drop_bit n (numeral k)"
  by (simp_all add: xor_left_def xor_right_def)

lemma chain_2: "xs_chain (wm_seed 2) 1024 states_2"
proof -
  have b: "draw_bound 1024 = 0xFFFFFFFFFFFFFC00" by (simp add: draw_bound_def)
  show ?thesis by (simp add: states_2_def wm_seed_def b xs64_steps xor_numerals)
qed

lemma draws_2: "map (\<lambda>v. unat (v mod ucast (1024 :: u32))) states_2 = [201, 600, 684, 985, 566, 874, 316, 662, 875, 621, 137, 816, 966, 329, 315, 241, 392, 715, 190, 719, 642, 103, 751, 866, 260, 38, 878, 168, 569, 445, 118, 430, 469, 774, 936, 695, 626, 150, 295, 141, 196, 285, 671, 490, 545, 989, 306, 272, 26, 530, 1014, 377, 267, 945, 334, 292, 846, 552, 940, 203, 690, 759, 986, 533]"
  by (simp add: states_2_def)

lemma watermark_read_back_witness:
  "\<exists>luma' out. watermark_lsb_embed (Some (replicate 1024 77)) 32 32 32 (Some (watermark_zero\<lparr>wm_viewer_id := 2\<rparr>)) = Some (64, Some luma')
    \<and> watermark_lsb_extract (Some luma') 32 32 32 2 (Some watermark_zero) = Some (64, Some out) \<and> wm_viewer_id out = 2"
proof -
  let ?p = "watermark_zero\<lparr>wm_viewer_id := 2\<rparr>"
  have n64: "length states_2 = 64" by (simp add: states_2_def)
  define ps where "ps = map (\<lambda>v. unat (v mod ucast (1024 :: u32))) states_2"
  have d: "wm_draws 64 (wm_seed (wm_viewer_id ?p)) (of_int (32 * 32)) = Some ps"
    using wm_draws_chain [OF chain_2] unfolding n64 by (simp add: ps_def del: wm_draws.simps)
  have "distinct ps" "length ps = 64" unfolding ps_def draws_2 by simp_all
  then have agree: "\<forall>i < 64. \<forall>j < 64. ps ! i = ps ! j \<longrightarrow> bit (wm_viewer_id ?p) (63 - i) = bit (wm_viewer_id ?p) (63 - j)"
    by (metis nth_eq_iff_index_eq)
  have pl: "\<not> bad_plane 32 32 32" "(32 :: int) * 32 < 2 ^ 31" "nat 32 * nat 32 \<le> length (replicate 1024 (77 :: u8))"
    by (simp_all add: bad_plane_def WM_BITS_def del: replicate.simps)
  have v: "wm_viewer_id ?p = 2" by simp
  show ?thesis using watermark_read_back [OF pl d, of watermark_zero] agree unfolding v by blast
qed

end
