(* ===== verification/Annotation.thy ===== *)
theory Annotation
  imports Wire
begin

text \<open>
  Annotations that viewers draw on a shared picture, \<^verbatim>\<open>src/src/collab\<close>: the wire protocol (\<^verbatim>\<open>annotation_protocol.c\<close>) and the remote
  pointers (\<^verbatim>\<open>pointer_sync.c\<close>).  A C \<^verbatim>\<open>float\<close> is its bit pattern: both modules only copy it.
\<close>

type_synonym f32 = u32

section \<open>Events\<close>

definition ANNOTATION_MAGIC :: u16 where "ANNOTATION_MAGIC = 0x414E"
definition ANNOTATION_VERSION :: u8 where "ANNOTATION_VERSION = 1"
definition ANNOTATION_HDR_SIZE :: nat where "ANNOTATION_HDR_SIZE = 16"
definition ANNOTATION_MAX_TEXT :: nat where "ANNOTATION_MAX_TEXT = 256"

record annot_point =
  apt_x :: f32
  apt_y :: f32

text \<open>The union of an event with the type that says which member is in use; \<open>NoAnnot\<close> is a type without a constant of its own.\<close>

datatype annot_payload =
    DrawBegin annot_point u32 f32 u32
  | DrawPoint annot_point u32
  | DrawEnd u32
  | Erase annot_point f32
  | ClearAll
  | TextLabel annot_point u32 f32 u16 "u8 list"
  | PointerMove annot_point u32
  | PointerHide
  | NoAnnot u8

record annotation_event =
  ann_seq :: u32
  ann_timestamp_us :: u64
  ann_payload :: annot_payload

fun annot_type :: "annot_payload \<Rightarrow> u8" where
  "annot_type (DrawBegin p c w i) = 1"
| "annot_type (DrawPoint p i) = 2"
| "annot_type (DrawEnd i) = 3"
| "annot_type (Erase p r) = 4"
| "annot_type ClearAll = 5"
| "annot_type (TextLabel p c f n t) = 6"
| "annot_type (PointerMove p i) = 7"
| "annot_type PointerHide = 8"
| "annot_type (NoAnnot t) = t"

text \<open>The event after \<^verbatim>\<open>memset\<close> and the assignment of the type.\<close>

definition annot_origin :: annot_point where "annot_origin = \<lparr>apt_x = 0, apt_y = 0\<rparr>"

definition annot_blank :: "u8 \<Rightarrow> annot_payload" where
  "annot_blank t = (if t = 1 then DrawBegin annot_origin 0 0 0 else if t = 2 then DrawPoint annot_origin 0 else if t = 3 then DrawEnd 0
     else if t = 4 then Erase annot_origin 0 else if t = 5 then ClearAll
     else if t = 6 then TextLabel annot_origin 0 0 0 (replicate ANNOTATION_MAX_TEXT 0)
     else if t = 7 then PointerMove annot_origin 0 else if t = 8 then PointerHide else NoAnnot t)"

section \<open>Encoding\<close>

fun payload_size :: "annot_payload \<Rightarrow> nat" where
  "payload_size (DrawBegin p c w i) = 2 * 4 + 4 + 4 + 4"
| "payload_size (DrawPoint p i) = 2 * 4 + 4"
| "payload_size (DrawEnd i) = 4"
| "payload_size (Erase p r) = 2 * 4 + 4"
| "payload_size (TextLabel p c f n t) = 2 * 4 + 4 + 4 + 2 + unat n"
| "payload_size (PointerMove p i) = 2 * 4 + 4"
| "payload_size _ = 0"

definition annotation_encoded_size :: "annotation_event option \<Rightarrow> nat" where
  "annotation_encoded_size e = (case e of None \<Rightarrow> 0 | Some e \<Rightarrow> ANNOTATION_HDR_SIZE + payload_size (ann_payload e))"

definition point_bytes :: "annot_point \<Rightarrow> u8 list" where
  "point_bytes p = w32le (apt_x p) @ w32le (apt_y p)"

fun payload_bytes :: "annot_payload \<Rightarrow> u8 list" where
  "payload_bytes (DrawBegin p c w i) = point_bytes p @ w32le c @ w32le w @ w32le i"
| "payload_bytes (DrawPoint p i) = point_bytes p @ w32le i"
| "payload_bytes (DrawEnd i) = w32le i"
| "payload_bytes (Erase p r) = point_bytes p @ w32le r"
| "payload_bytes (TextLabel p c f n t) = point_bytes p @ w32le c @ w32le f @ w16le n @ take (unat n) t"
| "payload_bytes (PointerMove p i) = point_bytes p @ w32le i"
| "payload_bytes _ = []"

definition annot_header :: "annotation_event \<Rightarrow> u8 list" where
  "annot_header e = w16le ANNOTATION_MAGIC @ [ANNOTATION_VERSION, annot_type (ann_payload e)] @ w32le (ann_seq e) @ w64le (ann_timestamp_us e)"

fun annotation_encode :: "annotation_event option \<Rightarrow> u8 list option \<Rightarrow> int \<times> u8 list option" where
  "annotation_encode (Some e) (Some buf) =
     (let needed = annotation_encoded_size (Some e) in
      if length buf < needed then (-1, Some buf)
      else let buf = overwrite (annot_header e @ payload_bytes (ann_payload e)) buf in
        (case ann_payload e of NoAnnot t \<Rightarrow> (-1, Some buf) | _ \<Rightarrow> (int needed, Some buf)))"
| "annotation_encode e buf = (-1, buf)"

section \<open>Decoding\<close>

definition r_point :: "u8 list \<Rightarrow> nat \<Rightarrow> annot_point" where
  "r_point b i = \<lparr>apt_x = r32le b i, apt_y = r32le b (i + 4)\<rparr>"

text \<open>The payload behind the header, or what a refused one leaves in the union.\<close>

definition read_payload :: "u8 \<Rightarrow> u8 list \<Rightarrow> bool \<times> annot_payload" where
  "read_payload t b =
     (let remaining = length b in
      if t = 1 then (if remaining < 20 then (False, annot_blank t) else (True, DrawBegin (r_point b 0) (r32le b 8) (r32le b 12) (r32le b 16)))
      else if t = 2 then (if remaining < 12 then (False, annot_blank t) else (True, DrawPoint (r_point b 0) (r32le b 8)))
      else if t = 3 then (if remaining < 4 then (False, annot_blank t) else (True, DrawEnd (r32le b 0)))
      else if t = 4 then (if remaining < 12 then (False, annot_blank t) else (True, Erase (r_point b 0) (r32le b 8)))
      else if t = 5 then (True, ClearAll)
      else if t = 6 then (if remaining < 18 then (False, annot_blank t)
        else let n = r16le b 16; label = TextLabel (r_point b 0) (r32le b 8) (r32le b 12) n in
          if unat n > ANNOTATION_MAX_TEXT \<or> remaining - 18 < unat n then (False, label (replicate ANNOTATION_MAX_TEXT 0))
          else (True, label (overwrite (take (unat n) (drop 18 b)) (replicate ANNOTATION_MAX_TEXT 0))))
      else if t = 7 then (if remaining < 12 then (False, annot_blank t) else (True, PointerMove (r_point b 0) (r32le b 8)))
      else if t = 8 then (True, PointerHide)
      else (False, NoAnnot t))"

fun annotation_decode :: "u8 list option \<Rightarrow> annotation_event option \<Rightarrow> int \<times> annotation_event option" where
  "annotation_decode (Some buf) (Some e) =
     (if length buf < ANNOTATION_HDR_SIZE then (-1, Some e)
      else if r16le buf 0 \<noteq> ANNOTATION_MAGIC then (-1, Some e)
      else if buf ! 2 \<noteq> ANNOTATION_VERSION then (-1, Some e)
      else let (ok, payload) = read_payload (buf ! 3) (drop ANNOTATION_HDR_SIZE buf) in
        (if ok then 0 else -1, Some \<lparr>ann_seq = r32le buf 4, ann_timestamp_us = r64le buf 8, ann_payload = payload\<rparr>))"
| "annotation_decode buf e = (-1, e)"

section \<open>Events come back\<close>

text \<open>What senders build: a text in its array of 256 bytes, with zeros behind it.\<close>

fun payload_wf :: "annot_payload \<Rightarrow> bool" where
  "payload_wf (TextLabel p c f n t) \<longleftrightarrow> unat n \<le> ANNOTATION_MAX_TEXT \<and> length t = ANNOTATION_MAX_TEXT
     \<and> drop (unat n) t = replicate (ANNOTATION_MAX_TEXT - unat n) 0"
| "payload_wf (NoAnnot t) \<longleftrightarrow> False"
| "payload_wf _ \<longleftrightarrow> True"

lemma length_payload_bytes: "payload_wf p \<Longrightarrow> length (payload_bytes p) = payload_size p"
  by (cases p) (auto simp: point_bytes_def)

lemma length_annot_header [simp]: "length (annot_header e) = 16"
  by (simp add: annot_header_def)

lemma read_point_bytes: "r_point (point_bytes p @ xs) 0 = p" "length (point_bytes p) = 8"
  by (simp_all add: r_point_def point_bytes_def wire_simps)

lemma read_payload_bytes: "payload_wf p \<Longrightarrow> read_payload (annot_type p) (payload_bytes p @ rest) = (True, p)"
proof (cases p)
  case (TextLabel q c f n t)
  assume w: "payload_wf p"
  have "overwrite (take (unat n) t) (replicate ANNOTATION_MAX_TEXT 0) = t"
    using w append_take_drop_id [of "unat n" t] by (simp add: TextLabel overwrite_def min_def)
  then show ?thesis using w by (simp add: TextLabel read_payload_def Let_def read_point_bytes wire_simps)
qed (simp_all add: read_payload_def Let_def read_point_bytes wire_simps)

text \<open>An event whose text fits is decoded to itself from whatever buffer it was encoded into.\<close>

theorem annotation_roundtrip:
  assumes "payload_wf (ann_payload e)" "annotation_encoded_size (Some e) \<le> length buf"
  shows "\<exists>out. annotation_encode (Some e) (Some buf) = (int (annotation_encoded_size (Some e)), Some out)
    \<and> annotation_decode (Some out) (Some x) = (0, Some e)"
proof -
  define out where "out = annot_header e @ payload_bytes (ann_payload e) @ drop (annotation_encoded_size (Some e)) buf"
  have "annotation_encode (Some e) (Some buf) = (int (annotation_encoded_size (Some e)), Some out)"
    using assms length_payload_bytes [OF assms(1)]
    by (auto simp: out_def overwrite_def annotation_encoded_size_def ANNOTATION_HDR_SIZE_def Let_def split: annot_payload.split)
  moreover have "drop ANNOTATION_HDR_SIZE out = payload_bytes (ann_payload e) @ drop (annotation_encoded_size (Some e)) buf"
    by (simp add: out_def ANNOTATION_HDR_SIZE_def)
  moreover have "length out \<ge> 16" by (simp add: out_def)
  moreover have "r16le out 0 = ANNOTATION_MAGIC" "out ! 2 = ANNOTATION_VERSION" "out ! 3 = annot_type (ann_payload e)"
      "r32le out 4 = ann_seq e" "r64le out 8 = ann_timestamp_us e"
    by (simp_all add: out_def annot_header_def nth_append wire_simps)
  ultimately show ?thesis using read_payload_bytes [OF assms(1)] by (simp add: ANNOTATION_HDR_SIZE_def)
qed

lemma annotation_roundtrip_witness:
  "\<exists>out. annotation_encode (Some \<lparr>ann_seq = 3, ann_timestamp_us = 9, ann_payload = DrawPoint \<lparr>apt_x = 0x3F000000, apt_y = 0x3E800000\<rparr> 7\<rparr>) (Some (replicate 30 0)) = (28, Some out)
    \<and> annotation_decode (Some out) (Some \<lparr>ann_seq = 0, ann_timestamp_us = 0, ann_payload = ClearAll\<rparr>)
      = (0, Some \<lparr>ann_seq = 3, ann_timestamp_us = 9, ann_payload = DrawPoint \<lparr>apt_x = 0x3F000000, apt_y = 0x3E800000\<rparr> 7\<rparr>)"
  using annotation_roundtrip [of "\<lparr>ann_seq = 3, ann_timestamp_us = 9, ann_payload = DrawPoint \<lparr>apt_x = 0x3F000000, apt_y = 0x3E800000\<rparr> 7\<rparr>" "replicate 30 0"
      "\<lparr>ann_seq = 0, ann_timestamp_us = 0, ann_payload = ClearAll\<rparr>"]
  by (simp add: annotation_encoded_size_def ANNOTATION_HDR_SIZE_def del: annotation_encode.simps annotation_decode.simps replicate.simps)

text \<open>No message makes a decoded label longer than its array.\<close>

lemma annotation_text_bounded:
  "annotation_decode (Some buf) (Some x) = (0, Some e) \<Longrightarrow> ann_payload e = TextLabel p c f n t \<Longrightarrow>
    unat n \<le> ANNOTATION_MAX_TEXT \<and> length t = ANNOTATION_MAX_TEXT"
  by (auto simp: read_payload_def Let_def split: if_splits)

section \<open>Remote pointers\<close>

definition POINTER_SYNC_MAX_PEERS :: nat where "POINTER_SYNC_MAX_PEERS = 16"
definition POINTER_SYNC_TIMEOUT_US :: u64 where "POINTER_SYNC_TIMEOUT_US = 3000000"

record remote_pointer =
  rpt_peer_id :: u32
  rpt_pos :: annot_point
  rpt_last_updated_us :: u64
  rpt_visible :: bool

text \<open>\<open>pts_peers\<close> holds the first \<^verbatim>\<open>count\<close> elements of the array.\<close>

record pointer_sync =
  pts_peers :: "remote_pointer list"
  pts_timeout_us :: u64

definition pointer_sync_create :: "bool \<Rightarrow> u64 \<Rightarrow> pointer_sync option" where
  "pointer_sync_create mem timeout_us = (if mem then
     Some \<lparr>pts_peers = [], pts_timeout_us = if timeout_us > 0 then timeout_us else POINTER_SYNC_TIMEOUT_US\<rparr> else None)"

definition find_peer :: "pointer_sync \<Rightarrow> u32 \<Rightarrow> nat option" where
  "find_peer ps peer_id = first_idx (\<lambda>p. rpt_peer_id p = peer_id) (pts_peers ps)"

definition new_pointer :: "u32 \<Rightarrow> remote_pointer" where
  "new_pointer peer_id = \<lparr>rpt_peer_id = peer_id, rpt_pos = annot_origin, rpt_last_updated_us = 0, rpt_visible = False\<rparr>"

text \<open>A full table drops its first element.\<close>

definition alloc_peer :: "pointer_sync \<Rightarrow> u32 \<Rightarrow> nat \<times> pointer_sync" where
  "alloc_peer ps peer_id =
     (if length (pts_peers ps) < POINTER_SYNC_MAX_PEERS then (length (pts_peers ps), ps\<lparr>pts_peers := pts_peers ps @ [new_pointer peer_id]\<rparr>)
      else (POINTER_SYNC_MAX_PEERS - 1, ps\<lparr>pts_peers := tl (pts_peers ps) @ [new_pointer peer_id]\<rparr>))"

definition hide :: "remote_pointer \<Rightarrow> remote_pointer" where "hide p = p\<lparr>rpt_visible := False\<rparr>"

fun pointer_sync_update :: "pointer_sync option \<Rightarrow> annotation_event option \<Rightarrow> pointer_sync option" where
  "pointer_sync_update (Some ps) (Some e) =
     (case ann_payload e of
        PointerMove pos pid \<Rightarrow>
          let (i, ps) = (case find_peer ps pid of Some i \<Rightarrow> (i, ps) | None \<Rightarrow> alloc_peer ps pid) in
          Some (ps\<lparr>pts_peers := (pts_peers ps)[i := (pts_peers ps ! i)\<lparr>rpt_pos := pos, rpt_last_updated_us := ann_timestamp_us e, rpt_visible := True\<rparr>]\<rparr>)
      | PointerHide \<Rightarrow> Some (ps\<lparr>pts_peers := map hide (pts_peers ps)\<rparr>)
      | _ \<Rightarrow> Some ps)"
| "pointer_sync_update ps e = ps"

fun pointer_sync_get :: "pointer_sync option \<Rightarrow> u32 \<Rightarrow> remote_pointer option \<Rightarrow> int \<times> remote_pointer option" where
  "pointer_sync_get (Some ps) peer_id (Some out) =
     (case find_peer ps peer_id of Some i \<Rightarrow> (0, Some (pts_peers ps ! i)) | None \<Rightarrow> (-1, Some out))"
| "pointer_sync_get ps peer_id out = (-1, out)"

fun pointer_sync_get_all :: "pointer_sync option \<Rightarrow> remote_pointer list option \<Rightarrow> int \<Rightarrow> int \<times> remote_pointer list option" where
  "pointer_sync_get_all (Some ps) (Some out) max_count =
     (if max_count \<le> 0 then (0, Some out)
      else let vs = take (nat max_count) (filter rpt_visible (pts_peers ps)) in (int (length vs), Some (overwrite vs out)))"
| "pointer_sync_get_all ps out max_count = (0, out)"

definition pointer_sync_expire :: "pointer_sync option \<Rightarrow> u64 \<Rightarrow> pointer_sync option" where
  "pointer_sync_expire ps now_us = map_option (\<lambda>ps. ps\<lparr>pts_peers :=
     map (\<lambda>p. if rpt_visible p \<and> now_us - rpt_last_updated_us p > pts_timeout_us ps then hide p else p) (pts_peers ps)\<rparr>) ps"

section \<open>Pointers as a map\<close>

datatype pts_op = PtUpdate annotation_event | PtGet u32 | PtExpire u64

fun pts_call :: "pts_op \<Rightarrow> pointer_sync \<Rightarrow> (int \<times> remote_pointer option) \<times> pointer_sync" where
  "pts_call (PtUpdate e) ps = ((0, None), the (pointer_sync_update (Some ps) (Some e)))"
| "pts_call (PtGet pid) ps = (pointer_sync_get (Some ps) pid (Some (new_pointer 0)), ps)"
| "pts_call (PtExpire now) ps = ((0, None), the (pointer_sync_expire (Some ps) now))"

fun pts_spec :: "u64 \<Rightarrow> pts_op \<Rightarrow> (u32 \<rightharpoonup> remote_pointer) \<Rightarrow> (int \<times> remote_pointer option) \<times> (u32 \<rightharpoonup> remote_pointer)" where
  "pts_spec timeout (PtUpdate e) m = ((0, None), case ann_payload e of
       PointerMove pos pid \<Rightarrow> m(pid \<mapsto> \<lparr>rpt_peer_id = pid, rpt_pos = pos, rpt_last_updated_us = ann_timestamp_us e, rpt_visible = True\<rparr>)
     | PointerHide \<Rightarrow> map_option hide \<circ> m | _ \<Rightarrow> m)"
| "pts_spec timeout (PtGet pid) m = ((case m pid of Some p \<Rightarrow> (0, Some p) | None \<Rightarrow> (-1, Some (new_pointer 0))), m)"
| "pts_spec timeout (PtExpire now) m = ((0, None),
     map_option (\<lambda>p. if rpt_visible p \<and> now - rpt_last_updated_us p > timeout then hide p else p) \<circ> m)"

fun moves_in :: "u32 set \<Rightarrow> pts_op \<Rightarrow> bool" where
  "moves_in P (PtUpdate e) \<longleftrightarrow> (case ann_payload e of PointerMove pos pid \<Rightarrow> pid \<in> P | _ \<Rightarrow> True)"
| "moves_in P _ \<longleftrightarrow> True"

definition map_of_pointers :: "remote_pointer list \<Rightarrow> u32 \<rightharpoonup> remote_pointer" where
  "map_of_pointers ps = map_of (map (\<lambda>p. (rpt_peer_id p, p)) ps)"

definition pts_rel :: "u32 set \<Rightarrow> u64 \<Rightarrow> pointer_sync \<Rightarrow> (u32 \<rightharpoonup> remote_pointer) \<Rightarrow> bool" where
  "pts_rel P timeout ps m \<longleftrightarrow> finite P \<and> card P \<le> POINTER_SYNC_MAX_PEERS \<and> pts_timeout_us ps = timeout
     \<and> distinct (map rpt_peer_id (pts_peers ps)) \<and> rpt_peer_id ` set (pts_peers ps) \<subseteq> P \<and> m = map_of_pointers (pts_peers ps)"

lemma pointers_first: "map_of_pointers ps pid = map_option (nth ps) (first_idx (\<lambda>p. rpt_peer_id p = pid) ps)"
  by (induction ps) (auto simp: map_of_pointers_def option.map_comp comp_def)

lemma pointers_Cons: "map_of_pointers (p # ps) = (map_of_pointers ps)(rpt_peer_id p \<mapsto> p)"
  by (simp add: map_of_pointers_def)

lemma pointers_update:
  "first_idx (\<lambda>p. rpt_peer_id p = pid) ps = Some i \<Longrightarrow> rpt_peer_id q = pid \<Longrightarrow> map_of_pointers (ps[i := q]) = (map_of_pointers ps)(pid \<mapsto> q)"
  by (induction ps arbitrary: i) (auto simp: pointers_Cons fun_upd_twist split: if_splits)

lemma pointers_map: "(\<And>p. rpt_peer_id (f p) = rpt_peer_id p) \<Longrightarrow> map_of_pointers (map f ps) = map_option f \<circ> map_of_pointers ps"
  by (induction ps) (auto simp: map_of_pointers_def comp_def fun_eq_iff)

lemma pointers_snoc: "rpt_peer_id q \<notin> rpt_peer_id ` set ps \<Longrightarrow> map_of_pointers (ps @ [q]) = (map_of_pointers ps)(rpt_peer_id q \<mapsto> q)"
  by (induction ps) (auto simp: map_of_pointers_def fun_upd_twist)

lemma pts_move:
  assumes "pts_rel P timeout ps m" "pid \<in> P"
  shows "pts_rel P timeout (the (pointer_sync_update (Some ps) (Some \<lparr>ann_seq = n, ann_timestamp_us = t, ann_payload = PointerMove pos pid\<rparr>)))
    (m(pid \<mapsto> \<lparr>rpt_peer_id = pid, rpt_pos = pos, rpt_last_updated_us = t, rpt_visible = True\<rparr>))"
proof (cases "find_peer ps pid")
  case (Some i)
  have i: "i < length (pts_peers ps)" "rpt_peer_id (pts_peers ps ! i) = pid" using first_idx_SomeD [OF Some [unfolded find_peer_def]] by auto
  have q: "(pts_peers ps ! i)\<lparr>rpt_pos := pos, rpt_last_updated_us := t, rpt_visible := True\<rparr> = \<lparr>rpt_peer_id = pid, rpt_pos = pos, rpt_last_updated_us = t, rpt_visible = True\<rparr>"
    using i(2) by (cases "pts_peers ps ! i") simp
  have ids: "map rpt_peer_id ((pts_peers ps)[i := \<lparr>rpt_peer_id = pid, rpt_pos = pos, rpt_last_updated_us = t, rpt_visible = True\<rparr>]) = map rpt_peer_id (pts_peers ps)"
    using i by (metis list_update_id map_update remote_pointer.select_convs(1))
  then have "rpt_peer_id ` set ((pts_peers ps)[i := \<lparr>rpt_peer_id = pid, rpt_pos = pos, rpt_last_updated_us = t, rpt_visible = True\<rparr>]) = rpt_peer_id ` set (pts_peers ps)"
    by (metis list.set_map)
  then show ?thesis using assms(1) ids Some
    by (simp add: pts_rel_def q pointers_update [OF Some [unfolded find_peer_def]])
next
  case None
  have new: "pid \<notin> rpt_peer_id ` set (pts_peers ps)" using None by (auto simp: find_peer_def first_idx_None)
  have "length (pts_peers ps) = card (rpt_peer_id ` set (pts_peers ps))" using assms(1) by (metis distinct_card length_map list.set_map pts_rel_def)
  also have "\<dots> < card P" using assms new by (intro psubset_card_mono) (auto simp: pts_rel_def)
  finally have "length (pts_peers ps) < POINTER_SYNC_MAX_PEERS" using assms(1) by (simp add: pts_rel_def)
  moreover have "(new_pointer pid)\<lparr>rpt_pos := pos, rpt_last_updated_us := t, rpt_visible := True\<rparr> = \<lparr>rpt_peer_id = pid, rpt_pos = pos, rpt_last_updated_us = t, rpt_visible = True\<rparr>"
    by (simp add: new_pointer_def)
  ultimately have "the (pointer_sync_update (Some ps) (Some \<lparr>ann_seq = n, ann_timestamp_us = t, ann_payload = PointerMove pos pid\<rparr>))
      = ps\<lparr>pts_peers := pts_peers ps @ [\<lparr>rpt_peer_id = pid, rpt_pos = pos, rpt_last_updated_us = t, rpt_visible = True\<rparr>]\<rparr>"
    using None by (simp add: alloc_peer_def)
  then show ?thesis using assms new pointers_snoc [of "\<lparr>rpt_peer_id = pid, rpt_pos = pos, rpt_last_updated_us = t, rpt_visible = True\<rparr>" "pts_peers ps"]
    by (auto simp: pts_rel_def)
qed

lemma pts_step:
  assumes "pts_rel P timeout ps m" "moves_in P op"
  shows "fst (pts_call op ps) = fst (pts_spec timeout op m) \<and> pts_rel P timeout (snd (pts_call op ps)) (snd (pts_spec timeout op m))"
proof (cases op)
  case (PtUpdate e)
  show ?thesis
  proof (cases "ann_payload e")
    case (PointerMove pos pid)
    then obtain n t where e: "e = \<lparr>ann_seq = n, ann_timestamp_us = t, ann_payload = PointerMove pos pid\<rparr>" by (cases e) auto
    then show ?thesis using pts_move [OF assms(1), of pid n t pos] assms(2) by (simp add: PtUpdate del: pointer_sync_update.simps)
  qed (use assms in \<open>auto simp: PtUpdate pts_rel_def pointers_map hide_def comp_def\<close>)
next
  case (PtGet pid)
  then show ?thesis using assms by (auto simp: pts_rel_def pointers_first find_peer_def split: option.split)
next
  case (PtExpire now)
  define f where "f = (\<lambda>p. if rpt_visible p \<and> now - rpt_last_updated_us p > timeout then hide p else p)"
  have f: "rpt_peer_id (f p) = rpt_peer_id p" for p by (simp add: f_def hide_def)
  have "map rpt_peer_id (map f xs) = map rpt_peer_id xs" "rpt_peer_id ` f ` S = rpt_peer_id ` S" for xs S by (simp_all add: f image_image)
  then show ?thesis using assms f
    by (simp add: PtExpire pts_rel_def pointer_sync_expire_def f_def [symmetric] pointers_map del: map_map)
qed

interpretation pts: simulation pts_call "pts_spec timeout" "pts_rel P timeout" "moves_in P" for timeout P
  by unfold_locales (rule pts_step)

text \<open>As long as at most 16 peers point, the table is a map from each peer to its last position, shown until the peer hides its
  pointer or falls silent for longer than the time limit.\<close>

theorem pointers_refine_map:
  assumes "pointer_sync_create True timeout = Some ps" "finite P" "card P \<le> POINTER_SYNC_MAX_PEERS" "\<forall>op \<in> set ops. moves_in P op"
  shows "fst (run_calls pts_call ops ps) = fst (run_calls (pts_spec (pts_timeout_us ps)) ops Map.empty)"
proof -
  have "pts_rel P (pts_timeout_us ps) ps Map.empty" using assms(1-3) by (auto simp: pts_rel_def pointer_sync_create_def map_of_pointers_def)
  then show ?thesis using pts.run assms(4) by blast
qed

lemma pointers_refine_map_witness:
  "fst (run_calls pts_call [PtUpdate \<lparr>ann_seq = 0, ann_timestamp_us = 5, ann_payload = PointerMove annot_origin 1\<rparr>, PtExpire 9, PtGet 1] (the (pointer_sync_create True 3)))
    = [(0, None), (0, None), (0, Some \<lparr>rpt_peer_id = 1, rpt_pos = annot_origin, rpt_last_updated_us = 5, rpt_visible = False\<rparr>)]"
proof -
  have c: "pointer_sync_create True 3 = Some \<lparr>pts_peers = [], pts_timeout_us = 3\<rparr>" by (simp add: pointer_sync_create_def)
  show ?thesis using pointers_refine_map [OF c, of "{1}" "[PtUpdate \<lparr>ann_seq = 0, ann_timestamp_us = 5, ann_payload = PointerMove annot_origin 1\<rparr>, PtExpire 9, PtGet 1]"]
    by (simp add: POINTER_SYNC_MAX_PEERS_def hide_def c del: pts_call.simps)
qed

end
