(* ===== verification/Annot_Render.thy ===== *)
theory Annot_Render
  imports Annotation Pixels
begin

text \<open>
  The compositor for annotations, \<^verbatim>\<open>src/src/collab/annotation_renderer.c\<close>: strokes and labels collected from events, and drawn as
  discs along Bresenham lines.  What the code computes in floating point is a record of parameters: whether a point lies in
  the eraser's circle, and the pixel coordinates and radii.  The loop along a line has no bound in the code; it is a partial
  function here, and that it returns is proved.
\<close>

section \<open>Strokes and labels\<close>

definition ANNOT_RENDERER_MAX_STROKES :: nat where "ANNOT_RENDERER_MAX_STROKES = 256"
definition ANNOT_RENDERER_MAX_POINTS :: nat where "ANNOT_RENDERER_MAX_POINTS = 1024"
definition ANNOT_RENDERER_MAX_TEXTS :: nat where "ANNOT_RENDERER_MAX_TEXTS = 64"

record annot_floats =
  afl_inside :: "annot_point \<Rightarrow> annot_point \<Rightarrow> f32 \<Rightarrow> bool"
  afl_px :: "f32 \<Rightarrow> int \<Rightarrow> int"
  afl_radius :: "f32 \<Rightarrow> int \<Rightarrow> int"
  afl_box :: "f32 \<Rightarrow> int"
  afl_blend :: blend_ops

text \<open>\<open>stk_points\<close> holds the first \<^verbatim>\<open>count\<close> points.\<close>

record stroke =
  stk_points :: "annot_point list"
  stk_color :: u32
  stk_width :: f32
  stk_id :: u32
  stk_finished :: bool

record text_label =
  txl_pos :: annot_point
  txl_color :: u32
  txl_font_size :: f32
  txl_text :: "u8 list"
  txl_text_len :: u16

text \<open>\<open>arn_fault\<close>: a text was copied past the end of its array.\<close>

record annotation_renderer =
  arn_strokes :: "stroke list"
  arn_texts :: "text_label list"
  arn_fault :: bool

definition annotation_renderer_create :: "bool \<Rightarrow> annotation_renderer option" where
  "annotation_renderer_create mem = (if mem then Some \<lparr>arn_strokes = [], arn_texts = [], arn_fault = False\<rparr> else None)"

definition annotation_renderer_clear :: "annotation_renderer option \<Rightarrow> annotation_renderer option" where
  "annotation_renderer_clear r = map_option (\<lambda>r. r\<lparr>arn_strokes := [], arn_texts := []\<rparr>) r"

definition annotation_renderer_stroke_count :: "annotation_renderer option \<Rightarrow> nat" where
  "annotation_renderer_stroke_count r = (case r of None \<Rightarrow> 0 | Some r \<Rightarrow> length (arn_strokes r))"

definition find_stroke :: "annotation_renderer \<Rightarrow> u32 \<Rightarrow> nat option" where
  "find_stroke r sid = first_idx (\<lambda>s. stk_id s = sid) (arn_strokes r)"

definition upd_stroke :: "(stroke \<Rightarrow> stroke) \<Rightarrow> nat option \<Rightarrow> annotation_renderer \<Rightarrow> annotation_renderer" where
  "upd_stroke g i r = (case i of None \<Rightarrow> r | Some i \<Rightarrow> r\<lparr>arn_strokes := (arn_strokes r)[i := g (arn_strokes r ! i)]\<rparr>)"

fun annotation_renderer_apply_event :: "annot_floats \<Rightarrow> annotation_renderer option \<Rightarrow> annotation_event option \<Rightarrow> annotation_renderer option" where
  "annotation_renderer_apply_event F (Some r) (Some e) = Some (case ann_payload e of
     DrawBegin pos color width sid \<Rightarrow>
       if length (arn_strokes r) \<ge> ANNOT_RENDERER_MAX_STROKES then r
       else r\<lparr>arn_strokes := arn_strokes r @ [\<lparr>stk_points = [pos], stk_color = color, stk_width = width, stk_id = sid, stk_finished = False\<rparr>]\<rparr>
   | DrawPoint pos sid \<Rightarrow> upd_stroke (\<lambda>s. if length (stk_points s) < ANNOT_RENDERER_MAX_POINTS \<and> \<not> stk_finished s
       then s\<lparr>stk_points := stk_points s @ [pos]\<rparr> else s) (find_stroke r sid) r
   | DrawEnd sid \<Rightarrow> upd_stroke (\<lambda>s. s\<lparr>stk_finished := True\<rparr>) (find_stroke r sid) r
   | Erase center radius \<Rightarrow> r\<lparr>arn_strokes := filter (\<lambda>s. \<not> list_ex (\<lambda>p. afl_inside F p center radius) (stk_points s)) (arn_strokes r)\<rparr>
   | ClearAll \<Rightarrow> the (annotation_renderer_clear (Some r))
   | TextLabel pos color font_size n text \<Rightarrow>
       if length (arn_texts r) < ANNOT_RENDERER_MAX_TEXTS
       then r\<lparr>arn_texts := arn_texts r @ [\<lparr>txl_pos = pos, txl_color = color, txl_font_size = font_size, txl_text = take (unat n) text @ [0], txl_text_len = n\<rparr>],
          arn_fault := (arn_fault r \<or> unat n > ANNOTATION_MAX_TEXT \<or> unat n > length text)\<rparr>
       else r
   | _ \<Rightarrow> r)"
| "annotation_renderer_apply_event F r e = r"

section \<open>Discs and lines\<close>

definition draw_circle :: "blend_ops \<Rightarrow> draw_target \<Rightarrow> u32 \<Rightarrow> int \<Rightarrow> int \<Rightarrow> int \<Rightarrow> caption_frame \<Rightarrow> caption_frame" where
  "draw_circle B T color r cx cy f =
     fold (\<lambda>dy. fold (\<lambda>dx f. if dx * dx + dy * dy > r * r then f else draw_pixel B T (argb color) (cx + dx) (cy + dy) f) [- r..r]) [- r..r] f"

partial_function (option) draw_line_loop :: "(int \<Rightarrow> int \<Rightarrow> caption_frame \<Rightarrow> caption_frame) \<Rightarrow> int \<Rightarrow> int \<Rightarrow> int \<Rightarrow> int \<Rightarrow> int \<Rightarrow> int \<Rightarrow> int \<Rightarrow> int \<Rightarrow> int \<Rightarrow>
    caption_frame \<Rightarrow> caption_frame option" where
  "draw_line_loop disc x1 y1 dx dy sx sy x0 y0 err f =
     (let f = disc x0 y0 f in
      if x0 = x1 \<and> y0 = y1 then Some f
      else let e2 = 2 * err; xstep = (e2 > - dy); ystep = (e2 < dx) in
        draw_line_loop disc x1 y1 dx dy sx sy (if xstep then x0 + sx else x0) (if ystep then y0 + sy else y0)
          ((if xstep then err - dy else err) + (if ystep then dx else 0)) f)"

definition draw_line :: "blend_ops \<Rightarrow> draw_target \<Rightarrow> u32 \<Rightarrow> int \<Rightarrow> int \<times> int \<Rightarrow> int \<times> int \<Rightarrow> caption_frame \<Rightarrow> caption_frame option" where
  "draw_line B T color r p0 p1 f = (case (p0, p1) of ((x0, y0), (x1, y1)) \<Rightarrow>
     draw_line_loop (draw_circle B T color r) x1 y1 \<bar>x1 - x0\<bar> \<bar>y1 - y0\<bar> (if x0 < x1 then 1 else -1) (if y0 < y1 then 1 else -1)
       x0 y0 (\<bar>x1 - x0\<bar> - \<bar>y1 - y0\<bar>) f)"

section \<open>Compositing\<close>

definition to_pixel :: "annot_floats \<Rightarrow> draw_target \<Rightarrow> annot_point \<Rightarrow> int \<times> int" where
  "to_pixel F T p = (afl_px F (apt_x p) (dwt_width T), afl_px F (apt_y p) (dwt_height T))"

fun draw_rest :: "(int \<times> int \<Rightarrow> int \<times> int \<Rightarrow> caption_frame \<Rightarrow> caption_frame option) \<Rightarrow> int \<times> int \<Rightarrow> (int \<times> int) list \<Rightarrow> caption_frame \<Rightarrow> caption_frame option" where
  "draw_rest line prev [] f = Some f"
| "draw_rest line prev (p # ps) f = (case line prev p f of None \<Rightarrow> None | Some f \<Rightarrow> draw_rest line p ps f)"

definition draw_stroke :: "annot_floats \<Rightarrow> draw_target \<Rightarrow> stroke \<Rightarrow> caption_frame \<Rightarrow> caption_frame option" where
  "draw_stroke F T s f =
     (let r = max 1 (afl_radius F (stk_width s) (dwt_width T)) in
      case map (to_pixel F T) (stk_points s) of
        [] \<Rightarrow> Some f
      | p # ps \<Rightarrow> draw_rest (draw_line (afl_blend F) T (stk_color s) r) p ps (draw_circle (afl_blend F) T (stk_color s) r (fst p) (snd p) f))"

fun draw_strokes :: "annot_floats \<Rightarrow> draw_target \<Rightarrow> stroke list \<Rightarrow> caption_frame \<Rightarrow> caption_frame option" where
  "draw_strokes F T [] f = Some f"
| "draw_strokes F T (s # ss) f = (case draw_stroke F T s f of None \<Rightarrow> None | Some f \<Rightarrow> draw_strokes F T ss f)"

definition draw_label :: "annot_floats \<Rightarrow> draw_target \<Rightarrow> text_label \<Rightarrow> caption_frame \<Rightarrow> caption_frame" where
  "draw_label F T l f = (let (tx, ty) = to_pixel F T (txl_pos l) in draw_circle (afl_blend F) T (txl_color l) (max 2 (afl_box F (txl_font_size l))) tx ty f)"

fun annotation_renderer_composite :: "annot_floats \<Rightarrow> annotation_renderer option \<Rightarrow> caption_frame option \<Rightarrow> int \<Rightarrow> int \<Rightarrow> int \<Rightarrow> caption_frame option option" where
  "annotation_renderer_composite F (Some r) (Some f) width height stride =
     (if width \<le> 0 \<or> height \<le> 0 then Some (Some f)
      else let T = \<lparr>dwt_width = width, dwt_height = height, dwt_stride = stride\<rparr> in
        map_option (\<lambda>f. Some (fold (draw_label F T) (arn_texts r) f)) (draw_strokes F T (arn_strokes r) f))"
| "annotation_renderer_composite F r f width height stride = Some f"

section \<open>Lines end\<close>

definition adjacent :: "int \<times> int \<Rightarrow> int \<times> int \<Rightarrow> bool" where
  "adjacent p q \<longleftrightarrow> \<bar>fst p - fst q\<bar> \<le> 1 \<and> \<bar>snd p - snd q\<bar> \<le> 1"

text \<open>What a run of the loop draws: a path from where it stands to the end.\<close>

definition path_ok :: "int \<times> int \<Rightarrow> int \<times> int \<Rightarrow> nat \<Rightarrow> (int \<times> int) list \<Rightarrow> bool" where
  "path_ok p q n path \<longleftrightarrow> length path = Suc n \<and> hd path = p \<and> last path = q \<and> successively adjacent path"

lemma path_Cons: "path_ok q q' n path \<Longrightarrow> adjacent p q \<Longrightarrow> path_ok p q' (Suc n) (p # path)"
  by (auto simp: path_ok_def successively_Cons)

text \<open>The loop with its variables in terms of the steps taken: \<open>i\<close> in x, \<open>j\<close> in y, from the point \<open>(x, y)\<close>.\<close>

record line_run =
  lnr_x :: int
  lnr_y :: int
  lnr_sx :: int
  lnr_sy :: int
  lnr_dx :: int
  lnr_dy :: int

definition line_wf :: "line_run \<Rightarrow> bool" where
  "line_wf L \<longleftrightarrow> \<bar>lnr_sx L\<bar> = 1 \<and> \<bar>lnr_sy L\<bar> = 1 \<and> 0 \<le> lnr_dx L \<and> 0 \<le> lnr_dy L"

definition line_at :: "line_run \<Rightarrow> int \<Rightarrow> int \<Rightarrow> int \<times> int" where
  "line_at L i j = (lnr_x L + lnr_sx L * i, lnr_y L + lnr_sy L * j)"

definition line_err :: "line_run \<Rightarrow> int \<Rightarrow> int \<Rightarrow> int" where
  "line_err L i j = lnr_dx L * (j + 1) - lnr_dy L * (i + 1)"

definition line_loop :: "line_run \<Rightarrow> (int \<Rightarrow> int \<Rightarrow> caption_frame \<Rightarrow> caption_frame) \<Rightarrow> int \<Rightarrow> int \<Rightarrow> caption_frame \<Rightarrow> caption_frame option" where
  "line_loop L disc i j f = draw_line_loop disc (lnr_x L + lnr_sx L * lnr_dx L) (lnr_y L + lnr_sy L * lnr_dy L) (lnr_dx L) (lnr_dy L) (lnr_sx L) (lnr_sy L)
     (lnr_x L + lnr_sx L * i) (lnr_y L + lnr_sy L * j) (line_err L i j) f"

definition line_path :: "line_run \<Rightarrow> (int \<Rightarrow> int \<Rightarrow> caption_frame \<Rightarrow> caption_frame) \<Rightarrow> int \<Rightarrow> int \<Rightarrow> int \<Rightarrow> bool" where
  "line_path L disc i j n \<longleftrightarrow> (\<exists>path. (\<forall>f. line_loop L disc i j f = Some (fold (case_prod disc) path f))
     \<and> path_ok (line_at L i j) (line_at L (lnr_dx L) (lnr_dy L)) (nat n) path)"

lemma line_loop_step:
  assumes "line_wf L"
  shows "line_loop L disc i j f = (if i = lnr_dx L \<and> j = lnr_dy L then Some (case_prod disc (line_at L i j) f)
    else line_loop L disc (if 2 * line_err L i j > - lnr_dy L then i + 1 else i) (if 2 * line_err L i j < lnr_dx L then j + 1 else j)
      (case_prod disc (line_at L i j) f))"
proof -
  have s: "lnr_sx L \<noteq> 0" "lnr_sy L \<noteq> 0" using assms by (auto simp: line_wf_def)
  show ?thesis unfolding line_loop_def
    by (subst draw_line_loop.simps) (simp add: s line_at_def line_err_def Let_def algebra_simps)
qed

lemma adjacent_line_at: "line_wf L \<Longrightarrow> \<bar>i - i'\<bar> \<le> 1 \<Longrightarrow> \<bar>j - j'\<bar> \<le> 1 \<Longrightarrow> adjacent (line_at L i j) (line_at L i' j')"
  by (auto simp: line_wf_def adjacent_def line_at_def abs_mult right_diff_distrib [symmetric])

lemma line_path_end: "line_wf L \<Longrightarrow> line_path L disc (lnr_dx L) (lnr_dy L) 0"
  unfolding line_path_def by (intro exI [of _ "[line_at L (lnr_dx L) (lnr_dy L)]"]) (simp add: line_loop_step path_ok_def)

lemma line_path_step:
  assumes "line_wf L" "line_path L disc i' j' n" "0 \<le> n" "\<bar>i - i'\<bar> \<le> 1" "\<bar>j - j'\<bar> \<le> 1" "\<not> (i = lnr_dx L \<and> j = lnr_dy L)"
    and "i' = (if 2 * line_err L i j > - lnr_dy L then i + 1 else i)" "j' = (if 2 * line_err L i j < lnr_dx L then j + 1 else j)"
  shows "line_path L disc i j (n + 1)"
proof -
  obtain path where p: "\<forall>f. line_loop L disc i' j' f = Some (fold (case_prod disc) path f)"
      "path_ok (line_at L i' j') (line_at L (lnr_dx L) (lnr_dy L)) (nat n) path"
    using assms(2) by (auto simp: line_path_def)
  have "line_loop L disc i j f = line_loop L disc i' j' (case_prod disc (line_at L i j) f)" for f
    using line_loop_step [OF assms(1), of disc i j f] assms(6) unfolding assms(7,8) by auto
  moreover have "nat (n + 1) = Suc (nat n)" using assms(3) by simp
  ultimately show ?thesis using p path_Cons [OF p(2) adjacent_line_at [OF assms(1,4,5)]]
    unfolding line_path_def by (intro exI [of _ "line_at L i j # path"]) simp
qed

lemma x_major:
  assumes "line_wf L" "lnr_dy L \<le> lnr_dx L" "0 < lnr_dx L"
  shows "0 \<le> i \<Longrightarrow> i \<le> lnr_dx L \<Longrightarrow> 0 \<le> j \<Longrightarrow> j \<le> lnr_dy L \<Longrightarrow> - lnr_dy L < 2 * line_err L i j \<Longrightarrow> line_path L disc i j (lnr_dx L - i)"
proof (induction "nat (lnr_dx L - i)" arbitrary: i j)
  let ?dx = "lnr_dx L" and ?dy = "lnr_dy L"
  case 0
  then have i: "i = ?dx" by simp
  have "j = ?dy"
  proof (rule ccontr)
    assume "j \<noteq> ?dy"
    then have "?dx * (j + 1) \<le> ?dx * ?dy" using 0 assms by (intro mult_left_mono) auto
    then have "2 * line_err L ?dx j \<le> - ?dy" using assms(1) by (simp add: line_wf_def line_err_def algebra_simps)
    then show False using 0 i by simp
  qed
  then show ?case using i line_path_end [OF assms(1)] by simp
next
  let ?dx = "lnr_dx L" and ?dy = "lnr_dy L"
  case (Suc n)
  then have i: "i < ?dx" by simp
  define j' where "j' = (if 2 * line_err L i j < ?dx then j + 1 else j)"
  have "\<not> 2 * line_err L i ?dy < ?dx"
  proof
    assume a: "2 * line_err L i ?dy < ?dx"
    have "?dy * (i + 1) \<le> ?dy * ?dx" using i assms(1) by (intro mult_left_mono) (auto simp: line_wf_def)
    then show False using a assms by (simp add: line_err_def algebra_simps)
  qed
  then have "j < ?dy" if "2 * line_err L i j < ?dx" using that Suc.prems(4) by (cases "j = ?dy") auto
  then have j': "0 \<le> j'" "j' \<le> ?dy" "\<bar>j - j'\<bar> \<le> 1" using Suc.prems by (auto simp: j'_def)
  have "- ?dy < 2 * line_err L (i + 1) j'"
  proof (cases "2 * line_err L i j < ?dx")
    case True
    then show ?thesis using Suc.prems assms by (simp add: j'_def line_err_def algebra_simps)
  next
    case False
    have "2 * line_err L i j \<noteq> ?dx" if "?dx = ?dy"
    proof
      assume a: "2 * line_err L i j = ?dx"
      have "line_err L i j = ?dx * (j - i)" unfolding line_err_def that [symmetric] by (simp add: algebra_simps)
      then have "?dx * (2 * (j - i)) = ?dx * 1" using a by simp
      then have "2 * (j - i) = 1" using assms(3) by (metis mult_cancel_left less_irrefl)
      then show False by presburger
    qed
    then show ?thesis using False assms by (cases "?dx = ?dy") (simp_all add: j'_def line_err_def algebra_simps)
  qed
  then have "line_path L disc (i + 1) j' (?dx - (i + 1))" using Suc.hyps Suc.prems i j' by (intro Suc.hyps(1)) auto
  then have "line_path L disc i j (?dx - (i + 1) + 1)"
    by (rule line_path_step [OF assms(1)]) (use i j' Suc.prems in \<open>auto simp: j'_def\<close>)
  then show ?case by simp
qed

lemma y_major:
  assumes "line_wf L" "lnr_dx L < lnr_dy L"
  shows "0 \<le> i \<Longrightarrow> i \<le> lnr_dx L \<Longrightarrow> 0 \<le> j \<Longrightarrow> j \<le> lnr_dy L \<Longrightarrow> 2 * line_err L i j < lnr_dx L \<Longrightarrow> line_path L disc i j (lnr_dy L - j)"
proof (induction "nat (lnr_dy L - j)" arbitrary: i j)
  let ?dx = "lnr_dx L" and ?dy = "lnr_dy L"
  case 0
  then have j: "j = ?dy" by simp
  have "i = ?dx"
  proof (rule ccontr)
    assume "i \<noteq> ?dx"
    then have "?dy * (i + 1) \<le> ?dy * ?dx" using 0 assms by (intro mult_left_mono) (auto simp: line_wf_def)
    then have "?dx \<le> 2 * line_err L i ?dy" using assms(1) by (simp add: line_wf_def line_err_def algebra_simps)
    then show False using 0 j by simp
  qed
  then show ?case using j line_path_end [OF assms(1)] by simp
next
  let ?dx = "lnr_dx L" and ?dy = "lnr_dy L"
  case (Suc n)
  then have j: "j < ?dy" by simp
  define i' where "i' = (if 2 * line_err L i j > - ?dy then i + 1 else i)"
  have "\<not> - ?dy < 2 * line_err L ?dx j"
  proof
    assume a: "- ?dy < 2 * line_err L ?dx j"
    have "?dx * (j + 1) \<le> ?dx * ?dy" using j assms(1) by (intro mult_left_mono) (auto simp: line_wf_def)
    then show False using a assms by (simp add: line_wf_def line_err_def algebra_simps)
  qed
  then have "i < ?dx" if "- ?dy < 2 * line_err L i j" using that Suc.prems(2) by (cases "i = ?dx") auto
  then have i': "0 \<le> i'" "i' \<le> ?dx" "\<bar>i - i'\<bar> \<le> 1" using Suc.prems by (auto simp: i'_def)
  have "2 * line_err L i' (j + 1) < ?dx" using Suc.prems assms by (simp add: i'_def line_err_def algebra_simps)
  then have "line_path L disc i' (j + 1) (?dy - (j + 1))" using Suc.hyps(2) Suc.prems j i' by (intro Suc.hyps(1)) auto
  then have "line_path L disc i j (?dy - (j + 1) + 1)"
    by (rule line_path_step [OF assms(1)]) (use j i' Suc.prems in \<open>auto simp: i'_def\<close>)
  then show ?case by simp
qed

lemma whole_line:
  assumes "line_wf L"
  shows "line_path L disc 0 0 (max (lnr_dx L) (lnr_dy L))"
proof (cases "lnr_dx L < lnr_dy L")
  case True
  then show ?thesis using y_major [OF assms True, of 0 0] assms by (simp add: line_wf_def line_err_def max_def)
next
  case False
  show ?thesis
  proof (cases "lnr_dx L = 0")
    case True
    then show ?thesis using False assms line_path_end [OF assms, of disc] by (simp add: line_wf_def)
  next
    case n: False
    then show ?thesis using x_major [OF assms, of 0 0] False assms by (simp add: line_wf_def line_err_def max_def)
  qed
qed

text \<open>The loop along a line returns; it draws a disc at each point of a connected path from the first point to the last, one more point
  than the longer of the two distances.\<close>

theorem line_drawn:
  "\<exists>path. (\<forall>f. draw_line B T color r (x0, y0) (x1, y1) f = Some (fold (\<lambda>(x, y). draw_circle B T color r x y) path f))
    \<and> path_ok (x0, y0) (x1, y1) (nat (max \<bar>x1 - x0\<bar> \<bar>y1 - y0\<bar>)) path"
proof -
  define L where "L = \<lparr>lnr_x = x0, lnr_y = y0, lnr_sx = (if x0 < x1 then 1 else -1), lnr_sy = (if y0 < y1 then 1 else -1),
    lnr_dx = \<bar>x1 - x0\<bar>, lnr_dy = \<bar>y1 - y0\<bar>\<rparr>"
  have "line_wf L" by (simp add: L_def line_wf_def)
  moreover have "line_at L (lnr_dx L) (lnr_dy L) = (x1, y1)" "line_at L 0 0 = (x0, y0)" by (auto simp: L_def line_at_def)
  moreover have "draw_line B T color r (x0, y0) (x1, y1) f = line_loop L (draw_circle B T color r) 0 0 f" for f
    by (auto simp: draw_line_def line_loop_def L_def line_err_def)
  ultimately show ?thesis using whole_line [of L "draw_circle B T color r"] by (simp add: line_path_def L_def)
qed

section \<open>Whatever arrives\<close>

text \<open>Messages from the network, decoded one after the other and applied when they are accepted.\<close>

definition arn_receive :: "annot_floats \<Rightarrow> u8 list \<Rightarrow> annotation_renderer \<Rightarrow> annotation_renderer" where
  "arn_receive F buf r = (case annotation_decode (Some buf) (Some \<lparr>ann_seq = 0, ann_timestamp_us = 0, ann_payload = ClearAll\<rparr>) of
     (rc, e) \<Rightarrow> if rc = 0 then the (annotation_renderer_apply_event F (Some r) e) else r)"

definition arn_wf :: "annotation_renderer \<Rightarrow> bool" where
  "arn_wf r \<longleftrightarrow> \<not> arn_fault r \<and> length (arn_strokes r) \<le> ANNOT_RENDERER_MAX_STROKES \<and> length (arn_texts r) \<le> ANNOT_RENDERER_MAX_TEXTS
     \<and> list_all (\<lambda>s. stk_points s \<noteq> [] \<and> length (stk_points s) \<le> ANNOT_RENDERER_MAX_POINTS) (arn_strokes r)
     \<and> list_all (\<lambda>l. unat (txl_text_len l) \<le> ANNOTATION_MAX_TEXT \<and> length (txl_text l) = unat (txl_text_len l) + 1) (arn_texts r)"

lemma upd_stroke_wf:
  assumes "arn_wf r" "\<And>s. stk_points s \<noteq> [] \<and> length (stk_points s) \<le> ANNOT_RENDERER_MAX_POINTS \<Longrightarrow> stk_points (g s) \<noteq> [] \<and> length (stk_points (g s)) \<le> ANNOT_RENDERER_MAX_POINTS"
  shows "arn_wf (upd_stroke g (find_stroke r sid) r)"
proof (cases "find_stroke r sid")
  case (Some i)
  have i: "i < length (arn_strokes r)" using first_idx_SomeD(1) [OF Some [unfolded find_stroke_def]] .
  then show ?thesis using assms list_all_at [of _ "arn_strokes r" i]
    by (auto simp: Some upd_stroke_def arn_wf_def intro!: list_all_update)
qed (use assms in \<open>simp add: upd_stroke_def\<close>)

lemma apply_event_wf:
  assumes "arn_wf r" "\<And>p c f n t. ann_payload e = TextLabel p c f n t \<Longrightarrow> unat n \<le> ANNOTATION_MAX_TEXT \<and> length t = ANNOTATION_MAX_TEXT"
  shows "arn_wf (the (annotation_renderer_apply_event F (Some r) (Some e)))"
proof (cases "ann_payload e")
  case (TextLabel p c f n t)
  then show ?thesis using assms(1) assms(2) [OF TextLabel] by (auto simp: arn_wf_def)
next
  case (DrawPoint p i)
  then show ?thesis using upd_stroke_wf [OF assms(1)] by (simp add: Suc_le_eq)
next
  case (DrawEnd i)
  then show ?thesis using upd_stroke_wf [OF assms(1)] by simp
next
  case (Erase p r')
  then show ?thesis using assms(1) by (auto simp: arn_wf_def list_all_iff intro: order_trans [OF length_filter_le])
qed (use assms(1) in \<open>auto simp: arn_wf_def annotation_renderer_clear_def ANNOT_RENDERER_MAX_POINTS_def\<close>)

lemma decode_some: "snd (annotation_decode (Some buf) (Some x)) \<noteq> None"
  by (simp add: Let_def split: prod.split)

lemma receive_wf: "arn_wf r \<Longrightarrow> arn_wf (arn_receive F buf r)"
proof -
  assume w: "arn_wf r"
  obtain rc e where d: "annotation_decode (Some buf) (Some \<lparr>ann_seq = 0, ann_timestamp_us = 0, ann_payload = ClearAll\<rparr>) = (rc, Some e)"
    using decode_some [of buf] by (metis option.exhaust_sel prod.collapse)
  show ?thesis
  proof (cases "rc = 0")
    case True
    show ?thesis using apply_event_wf [OF w, of e F] annotation_text_bounded [OF d [unfolded True]] True
      by (simp add: arn_receive_def d del: annotation_renderer_apply_event.simps annotation_decode.simps)
  qed (simp add: arn_receive_def d w del: annotation_decode.simps)
qed

lemma draw_circle_inside: "target_fits T (length px) \<Longrightarrow> drawn_inside T px f \<Longrightarrow> drawn_inside T px (draw_circle B T color r cx cy f)"
  unfolding draw_circle_def by (rule fold_keeps [where P = "drawn_inside T px"], assumption, rule fold_keeps [where P = "drawn_inside T px"]) (simp_all add: draw_pixel_inside)

lemma draw_line_inside:
  assumes "target_fits T (length px)" "drawn_inside T px f"
  shows "\<exists>f'. draw_line B T color r p q f = Some f' \<and> drawn_inside T px f'"
proof -
  obtain path where "draw_line B T color r p q f = Some (fold (\<lambda>(x, y). draw_circle B T color r x y) path f)"
    using line_drawn [of B T color r "fst p" "snd p" "fst q" "snd q"] by auto
  moreover have "drawn_inside T px (fold (\<lambda>(x, y). draw_circle B T color r x y) path f)"
    by (rule fold_keeps [where P = "drawn_inside T px", OF assms(2)]) (auto intro: draw_circle_inside [OF assms(1)])
  ultimately show ?thesis by simp
qed

lemma draw_strokes_inside:
  assumes "target_fits T (length px)"
  shows "drawn_inside T px f \<Longrightarrow> \<exists>f'. draw_strokes F T ss f = Some f' \<and> drawn_inside T px f'"
proof (induction ss arbitrary: f)
  case (Cons s ss)
  have rest: "drawn_inside T px g \<Longrightarrow> \<exists>f'. draw_rest (draw_line B T c r) p ps g = Some f' \<and> drawn_inside T px f'" for B c r p ps g
  proof (induction ps arbitrary: p g)
    case (Cons q ps)
    obtain g' where "draw_line B T c r p q g = Some g'" "drawn_inside T px g'" using draw_line_inside [OF assms Cons.prems] by blast
    then show ?case using Cons.IH by simp
  qed simp
  have "\<exists>f'. draw_stroke F T s f = Some f' \<and> drawn_inside T px f'"
    using Cons.prems rest [OF draw_circle_inside [OF assms Cons.prems]]
    by (cases "map (to_pixel F T) (stk_points s)") (auto simp: draw_stroke_def Let_def)
  then obtain f' where "draw_stroke F T s f = Some f'" "drawn_inside T px f'" by blast
  then show ?case using Cons.IH by simp
qed simp

text \<open>Whatever messages arrive, and whatever coordinates and radii come out of them, the tables of the renderer stay within their
  bounds, no text runs over its array, and compositing returns and writes only to visible pixels of the frame.\<close>

theorem annotations_composited_inside:
  assumes "annotation_renderer_create True = Some r0" "target_fits \<lparr>dwt_width = width, dwt_height = height, dwt_stride = stride\<rparr> (length (cpf_pixels f))"
    and "\<not> cpf_fault f"
  shows "arn_wf (fold (arn_receive F) bufs r0)
    \<and> (\<exists>f'. annotation_renderer_composite F (Some (fold (arn_receive F) bufs r0)) (Some f) width height stride = Some (Some f')
      \<and> drawn_inside \<lparr>dwt_width = width, dwt_height = height, dwt_stride = stride\<rparr> (cpf_pixels f) f')"
proof
  let ?T = "\<lparr>dwt_width = width, dwt_height = height, dwt_stride = stride\<rparr>"
  let ?r = "fold (arn_receive F) bufs r0"
  have "arn_wf r0" using assms(1) by (auto simp: annotation_renderer_create_def arn_wf_def)
  then show "arn_wf ?r" by (rule fold_keeps [where P = arn_wf]) (rule receive_wf)
  have "drawn_inside ?T (cpf_pixels f) f" using assms(3) by (simp add: drawn_inside_def)
  then obtain f1 where f1: "draw_strokes F ?T (arn_strokes ?r) f = Some f1" "drawn_inside ?T (cpf_pixels f) f1"
    using draw_strokes_inside [OF assms(2)] by blast
  have "drawn_inside ?T (cpf_pixels f) (fold (draw_label F ?T) (arn_texts ?r) f1)"
    by (rule fold_keeps [where P = "drawn_inside ?T (cpf_pixels f)", OF f1(2)]) (simp add: draw_label_def draw_circle_inside [OF assms(2)] split: prod.split)
  moreover have "0 < width" "0 < height" using assms(2) by (simp_all add: target_fits_def)
  ultimately show "\<exists>f'. annotation_renderer_composite F (Some ?r) (Some f) width height stride = Some (Some f') \<and> drawn_inside ?T (cpf_pixels f) f'"
    using f1(1) by simp
qed

lemma annotations_composited_inside_witness:
  "\<exists>F r0 f'. annotation_renderer_create True = Some r0 \<and> annotation_renderer_composite F
      (Some (fold (arn_receive F) [the (snd (annotation_encode (Some \<lparr>ann_seq = 1, ann_timestamp_us = 2, ann_payload = DrawBegin \<lparr>apt_x = 9, apt_y = 9\<rparr> 0xFFFFFFFF 1 4\<rparr>)
         (Some (replicate 40 0))))] r0))
      (Some \<lparr>cpf_pixels = replicate 100 0, cpf_fault = False\<rparr>) 2 3 12 = Some (Some f')
    \<and> drawn_inside \<lparr>dwt_width = 2, dwt_height = 3, dwt_stride = 12\<rparr> (replicate 100 0) f'"
proof -
  define F where "F = \<lparr>afl_inside = \<lambda>p c r. p = c, afl_px = \<lambda>x w. uint x mod w, afl_radius = \<lambda>r w. uint r, afl_box = uint, afl_blend = \<lparr>bl_channel = \<lambda>a s d. s, bl_alpha = \<lambda>a d. a\<rparr>\<rparr>"
  have t: "target_fits \<lparr>dwt_width = 2, dwt_height = 3, dwt_stride = 12\<rparr> (length (cpf_pixels \<lparr>cpf_pixels = replicate 100 0, cpf_fault = False\<rparr>))"
    by (simp add: target_fits_def del: replicate.simps)
  have c: "annotation_renderer_create True = Some \<lparr>arn_strokes = [], arn_texts = [], arn_fault = False\<rparr>" by (simp add: annotation_renderer_create_def)
  show ?thesis using annotations_composited_inside [OF c t, of F] unfolding c
    by (simp del: replicate.simps annotation_encode.simps annotation_renderer_composite.simps fold.simps) blast
qed

end
