(* ===== verification/Codec.thy ===== *)
theory Codec
  imports RS_Prelude
begin

text \<open>
  Codec selection, \<^verbatim>\<open>src/src/codec\<close>: the registry of codecs with their probes (\<^verbatim>\<open>codec_registry.c\<close>) and the choice of a codec along
  a chain of fallbacks (\<^verbatim>\<open>codec_fallback.c\<close>).  Which libraries a build has is a record of parameters; a probe is a function
  of the model.
\<close>

section \<open>The registry\<close>

definition CREG_VCODEC_RAW :: u8 where "CREG_VCODEC_RAW = 0"
definition CREG_VCODEC_H264 :: u8 where "CREG_VCODEC_H264 = 1"
definition CREG_VCODEC_H265 :: u8 where "CREG_VCODEC_H265 = 2"
definition CREG_VCODEC_AV1 :: u8 where "CREG_VCODEC_AV1 = 3"
definition CREG_VCODEC_VP9 :: u8 where "CREG_VCODEC_VP9 = 4"
definition CREG_VCODEC_VVC :: u8 where "CREG_VCODEC_VVC = 5"
definition CREG_VCODEC_AV2 :: u8 where "CREG_VCODEC_AV2 = 6"
definition CREG_VCODEC_LIBDAVE :: u8 where "CREG_VCODEC_LIBDAVE = 7"
definition CREG_VCODEC_MAX :: nat where "CREG_VCODEC_MAX = 8"

lemmas vcodecs = CREG_VCODEC_RAW_def CREG_VCODEC_H264_def CREG_VCODEC_H265_def CREG_VCODEC_AV1_def CREG_VCODEC_VP9_def
  CREG_VCODEC_VVC_def CREG_VCODEC_AV2_def CREG_VCODEC_LIBDAVE_def CREG_VCODEC_MAX_def

definition CREG_BACKEND_NONE :: u8 where "CREG_BACKEND_NONE = 0x00"
definition CREG_BACKEND_SW :: u8 where "CREG_BACKEND_SW = 0x01"
definition CREG_BACKEND_VAAPI :: u8 where "CREG_BACKEND_VAAPI = 0x02"
definition CREG_BACKEND_NVENC :: u8 where "CREG_BACKEND_NVENC = 0x04"
definition CREG_BACKEND_QSV :: u8 where "CREG_BACKEND_QSV = 0x08"
definition CREG_BACKEND_VIDEOTB :: u8 where "CREG_BACKEND_VIDEOTB = 0x10"
definition CREG_BACKEND_MEDIACODEC :: u8 where "CREG_BACKEND_MEDIACODEC = 0x20"
definition CREG_BACKEND_V4L2 :: u8 where "CREG_BACKEND_V4L2 = 0x40"

lemmas backends = CREG_BACKEND_NONE_def CREG_BACKEND_SW_def CREG_BACKEND_VAAPI_def CREG_BACKEND_NVENC_def CREG_BACKEND_QSV_def
  CREG_BACKEND_VIDEOTB_def CREG_BACKEND_MEDIACODEC_def CREG_BACKEND_V4L2_def

record creg_entry =
  cge_codec_id :: u8
  cge_name :: string
  cge_long_name :: string
  cge_encoder_backends :: u8
  cge_decoder_backends :: u8
  cge_encode_available :: bool
  cge_decode_available :: bool
  cge_hw_preferred :: bool
  cge_probe_fn :: "(u8 \<Rightarrow> bool) option"

text \<open>The array with its flags: a slot that is not in use is \<open>None\<close>.\<close>

record creg_registry =
  crg_entries :: "creg_entry option list"
  crg_count :: int

definition creg_create :: "bool \<Rightarrow> creg_registry option" where
  "creg_create mem = (if mem then Some \<lparr>crg_entries = replicate CREG_VCODEC_MAX None, crg_count = 0\<rparr> else None)"

fun creg_register :: "creg_registry option \<Rightarrow> creg_entry option \<Rightarrow> int \<times> creg_registry option" where
  "creg_register (Some r) (Some e) =
     (let i = unat (cge_codec_id e) in
      if i \<ge> CREG_VCODEC_MAX then (-1, Some r)
      else (0, Some \<lparr>crg_entries = (crg_entries r)[i := Some e], crg_count = crg_count r + (if crg_entries r ! i = None then 1 else 0)\<rparr>))"
| "creg_register r e = (-1, r)"

definition creg_lookup :: "creg_registry option \<Rightarrow> u8 \<Rightarrow> creg_entry option" where
  "creg_lookup r codec_id = (case r of None \<Rightarrow> None | Some r \<Rightarrow> if unat codec_id \<ge> CREG_VCODEC_MAX then None else crg_entries r ! unat codec_id)"

definition creg_encode_available :: "creg_registry option \<Rightarrow> u8 \<Rightarrow> bool" where
  "creg_encode_available r codec_id = (case creg_lookup r codec_id of None \<Rightarrow> False | Some e \<Rightarrow> cge_encode_available e)"

definition creg_decode_available :: "creg_registry option \<Rightarrow> u8 \<Rightarrow> bool" where
  "creg_decode_available r codec_id = (case creg_lookup r codec_id of None \<Rightarrow> False | Some e \<Rightarrow> cge_decode_available e)"

definition creg_hw_preferred :: "creg_registry option \<Rightarrow> u8 \<Rightarrow> bool" where
  "creg_hw_preferred r codec_id = (case creg_lookup r codec_id of None \<Rightarrow> False | Some e \<Rightarrow> cge_hw_preferred e)"

definition creg_count :: "creg_registry option \<Rightarrow> int" where
  "creg_count r = (case r of None \<Rightarrow> 0 | Some r \<Rightarrow> crg_count r)"

definition hw_mask :: u8 where
  "hw_mask = CREG_BACKEND_VAAPI OR CREG_BACKEND_NVENC OR CREG_BACKEND_QSV OR CREG_BACKEND_VIDEOTB OR CREG_BACKEND_MEDIACODEC OR CREG_BACKEND_V4L2"

text \<open>One slot of the probing loop.\<close>

definition creg_probe :: "nat \<Rightarrow> creg_entry \<Rightarrow> creg_entry" where
  "creg_probe i e =
     (let e = (case cge_probe_fn e of None \<Rightarrow> e | Some probe \<Rightarrow> let avail = probe (of_nat i) in
            e\<lparr>cge_encode_available := avail \<and> cge_encoder_backends e \<noteq> CREG_BACKEND_NONE,
              cge_decode_available := avail \<and> cge_decoder_backends e \<noteq> CREG_BACKEND_NONE\<rparr>) in
      if cge_encode_available e then e\<lparr>cge_hw_preferred := cge_encoder_backends e AND hw_mask \<noteq> 0\<rparr> else e)"

definition creg_usable :: "creg_entry option \<Rightarrow> bool" where
  "creg_usable e = (case e of None \<Rightarrow> False | Some e \<Rightarrow> cge_encode_available e \<or> cge_decode_available e)"

definition creg_probe_all :: "creg_registry option \<Rightarrow> int \<times> creg_registry option" where
  "creg_probe_all r = (case r of None \<Rightarrow> (0, None) | Some r \<Rightarrow>
     let es = map (\<lambda>(i, e). map_option (creg_probe i) e) (enumerate 0 (crg_entries r)) in
     (int (length (filter creg_usable es)), Some (r\<lparr>crg_entries := es\<rparr>)))"

text \<open>The callback of an enumeration works on a state of its own and answers whether to go on.\<close>

fun creg_foreach_loop :: "(creg_entry \<Rightarrow> 'u \<Rightarrow> bool \<times> 'u) \<Rightarrow> creg_entry option list \<Rightarrow> 'u \<Rightarrow> 'u" where
  "creg_foreach_loop fn [] user = user"
| "creg_foreach_loop fn (None # es) user = creg_foreach_loop fn es user"
| "creg_foreach_loop fn (Some e # es) user = (case fn e user of (go_on, user) \<Rightarrow> if go_on then creg_foreach_loop fn es user else user)"

definition creg_foreach :: "creg_registry option \<Rightarrow> (creg_entry \<Rightarrow> 'u \<Rightarrow> bool \<times> 'u) option \<Rightarrow> 'u \<Rightarrow> 'u" where
  "creg_foreach r fn user = (case (r, fn) of (Some r, Some fn) \<Rightarrow> creg_foreach_loop fn (crg_entries r) user | _ \<Rightarrow> user)"

section \<open>The default entries\<close>

record codec_build =
  have_vaapi :: bool
  have_nvenc :: bool
  have_qsv :: bool
  have_x265 :: bool
  have_libaom :: bool
  have_svt_av1 :: bool
  have_dav1d :: bool
  have_av1_vaapi :: bool
  have_av1_nvenc :: bool
  have_libvpx :: bool
  have_vp9_vaapi :: bool
  have_vp9_nvenc :: bool
  have_vvenc :: bool
  have_libdave :: bool

definition if_have :: "bool \<Rightarrow> u8 \<Rightarrow> u8" where "if_have b x = (if b then x else 0)"

definition sw_hw_entry :: "u8 \<Rightarrow> string \<Rightarrow> string \<Rightarrow> bool \<Rightarrow> bool \<Rightarrow> bool \<Rightarrow> creg_entry" where
  "sw_hw_entry cid nm long sw vaapi nvenc =
     \<lparr>cge_codec_id = cid, cge_name = nm, cge_long_name = long,
      cge_encoder_backends = if_have sw CREG_BACKEND_SW OR if_have vaapi CREG_BACKEND_VAAPI OR if_have nvenc CREG_BACKEND_NVENC,
      cge_decoder_backends = if_have sw CREG_BACKEND_SW OR if_have vaapi CREG_BACKEND_VAAPI,
      cge_encode_available = (sw \<or> vaapi \<or> nvenc), cge_decode_available = (sw \<or> vaapi \<or> nvenc), cge_hw_preferred = False, cge_probe_fn = None\<rparr>"

definition raw_entry :: creg_entry where
  "raw_entry = \<lparr>cge_codec_id = CREG_VCODEC_RAW, cge_name = ''raw'', cge_long_name = ''Uncompressed / pass-through'',
      cge_encoder_backends = CREG_BACKEND_SW, cge_decoder_backends = CREG_BACKEND_SW, cge_encode_available = True, cge_decode_available = True,
      cge_hw_preferred = False, cge_probe_fn = Some (\<lambda>_. True)\<rparr>"

definition h264_entry :: "codec_build \<Rightarrow> creg_entry" where
  "h264_entry b = \<lparr>cge_codec_id = CREG_VCODEC_H264, cge_name = ''h264'', cge_long_name = ''H.264 / AVC (libx264 + hardware)'',
      cge_encoder_backends = CREG_BACKEND_SW OR if_have (have_vaapi b) CREG_BACKEND_VAAPI OR if_have (have_nvenc b) CREG_BACKEND_NVENC OR if_have (have_qsv b) CREG_BACKEND_QSV,
      cge_decoder_backends = CREG_BACKEND_SW OR if_have (have_vaapi b) CREG_BACKEND_VAAPI,
      cge_encode_available = True, cge_decode_available = True, cge_hw_preferred = False, cge_probe_fn = None\<rparr>"

definition h265_entry :: "codec_build \<Rightarrow> creg_entry" where
  "h265_entry b = sw_hw_entry CREG_VCODEC_H265 ''h265'' ''H.265 / HEVC (libx265 + hardware)'' (have_x265 b) (have_vaapi b) (have_nvenc b)"

definition av1_entry :: "codec_build \<Rightarrow> creg_entry" where
  "av1_entry b = \<lparr>cge_codec_id = CREG_VCODEC_AV1, cge_name = ''av1'', cge_long_name = ''AV1 (libaom / SVT-AV1 / dav1d / hardware)'',
      cge_encoder_backends = if_have (have_libaom b \<or> have_svt_av1 b) CREG_BACKEND_SW OR if_have (have_av1_vaapi b) CREG_BACKEND_VAAPI
        OR if_have (have_av1_nvenc b) CREG_BACKEND_NVENC,
      cge_decoder_backends = if_have (have_libaom b \<or> have_dav1d b) CREG_BACKEND_SW OR if_have (have_av1_vaapi b) CREG_BACKEND_VAAPI,
      cge_encode_available = (have_libaom b \<or> have_svt_av1 b \<or> have_av1_vaapi b \<or> have_av1_nvenc b),
      cge_decode_available = (have_libaom b \<or> have_dav1d b \<or> have_av1_vaapi b), cge_hw_preferred = False, cge_probe_fn = None\<rparr>"

definition vp9_entry :: "codec_build \<Rightarrow> creg_entry" where
  "vp9_entry b = sw_hw_entry CREG_VCODEC_VP9 ''vp9'' ''VP9 (libvpx + hardware VAAPI/NVENC)'' (have_libvpx b) (have_vp9_vaapi b) (have_vp9_nvenc b)"

definition vvc_entry :: "codec_build \<Rightarrow> creg_entry" where
  "vvc_entry b = sw_hw_entry CREG_VCODEC_VVC ''vvc'' ''H.266 / VVC (VVenC + VVdeC)'' (have_vvenc b) False False"

text \<open>The dash in the long name of the C string is not ASCII; it stands as a hyphen here.\<close>

definition av2_entry :: creg_entry where
  "av2_entry = \<lparr>cge_codec_id = CREG_VCODEC_AV2, cge_name = ''av2'', cge_long_name = ''AV2 (future spec - stub)'',
      cge_encoder_backends = CREG_BACKEND_NONE, cge_decoder_backends = CREG_BACKEND_NONE, cge_encode_available = False, cge_decode_available = False,
      cge_hw_preferred = False, cge_probe_fn = Some (\<lambda>_. False)\<rparr>"

definition libdave_entry :: "codec_build \<Rightarrow> creg_entry" where
  "libdave_entry b = sw_hw_entry CREG_VCODEC_LIBDAVE ''libdave'' ''Discord libdave packetised media'' (have_libdave b) False False"

definition default_entries :: "codec_build \<Rightarrow> creg_entry list" where
  "default_entries b = [raw_entry, h264_entry b, h265_entry b, av1_entry b, vp9_entry b, vvc_entry b, av2_entry, libdave_entry b]"

definition creg_register_all_defaults :: "codec_build \<Rightarrow> creg_registry option \<Rightarrow> int \<times> creg_registry option" where
  "creg_register_all_defaults b r = (case r of None \<Rightarrow> (0, None) | Some _ \<Rightarrow>
     (int (length (default_entries b)), snd (creg_probe_all (fold (\<lambda>e r. snd (creg_register r (Some e))) (default_entries b) r))))"

section \<open>Fallbacks\<close>

definition CFB_OPT_HW_FIRST :: u8 where "CFB_OPT_HW_FIRST = 0x01"
definition CFB_OPT_SW_ONLY :: u8 where "CFB_OPT_SW_ONLY = 0x02"

record cfb_result =
  cfr_codec_id :: u8
  cfr_hw_available :: bool
  cfr_is_fallback :: bool
  cfr_chain_position :: int

definition cfb_chain_quality :: "u8 list" where
  "cfb_chain_quality = [CREG_VCODEC_AV2, CREG_VCODEC_VVC, CREG_VCODEC_AV1, CREG_VCODEC_VP9, CREG_VCODEC_H265, CREG_VCODEC_H264]"

definition cfb_chain_compat :: "u8 list" where
  "cfb_chain_compat = [CREG_VCODEC_H264, CREG_VCODEC_H265, CREG_VCODEC_VP9, CREG_VCODEC_AV1, CREG_VCODEC_VVC]"

definition cfb_chain_modern :: "u8 list" where
  "cfb_chain_modern = [CREG_VCODEC_AV1, CREG_VCODEC_VP9, CREG_VCODEC_H265, CREG_VCODEC_H264]"

definition cfb_chain_discord :: "u8 list" where
  "cfb_chain_discord = [CREG_VCODEC_LIBDAVE, CREG_VCODEC_AV1, CREG_VCODEC_VP9, CREG_VCODEC_H265, CREG_VCODEC_H264]"

definition scan_chain :: "creg_registry option \<Rightarrow> u8 list \<Rightarrow> bool \<Rightarrow> u8 \<Rightarrow> nat option" where
  "scan_chain r chain require_hw options = first_idx (\<lambda>cid. \<not> (options AND CFB_OPT_SW_ONLY \<noteq> 0 \<and> creg_hw_preferred r cid)
     \<and> creg_encode_available r cid \<and> \<not> (require_hw \<and> \<not> creg_hw_preferred r cid)) chain"

definition safety_net :: cfb_result where
  "safety_net = \<lparr>cfr_codec_id = CREG_VCODEC_H264, cfr_hw_available = False, cfr_is_fallback = True, cfr_chain_position = -1\<rparr>"

text \<open>The chain with its length; the result goes out when the caller asked for one.\<close>

definition put_result :: "cfb_result \<Rightarrow> cfb_result option \<Rightarrow> u8 \<times> cfb_result option" where
  "put_result x result = (cfr_codec_id x, map_option (\<lambda>_. x) result)"

definition cfb_select_best :: "creg_registry option \<Rightarrow> u8 \<Rightarrow> u8 list option \<Rightarrow> int \<Rightarrow> u8 \<Rightarrow> cfb_result option \<Rightarrow> u8 \<times> cfb_result option" where
  "cfb_select_best r preferred chain chain_len options result =
     (case (r, chain) of
        (Some _, Some chain) \<Rightarrow>
          if chain_len \<le> 0 then put_result safety_net result
          else let chain = take (nat chain_len) chain; hw = creg_hw_preferred r preferred in
            if creg_encode_available r preferred \<and> \<not> (options AND CFB_OPT_SW_ONLY \<noteq> 0 \<and> hw)
            then put_result \<lparr>cfr_codec_id = preferred, cfr_hw_available = hw, cfr_is_fallback = False, cfr_chain_position = 0\<rparr> result
            else (case (if options AND CFB_OPT_HW_FIRST \<noteq> 0 then scan_chain r chain True options else None) of
                Some i \<Rightarrow> put_result \<lparr>cfr_codec_id = chain ! i, cfr_hw_available = True, cfr_is_fallback = chain ! i \<noteq> preferred,
                    cfr_chain_position = int i\<rparr> result
              | None \<Rightarrow> (case scan_chain r chain False options of
                  Some i \<Rightarrow> put_result \<lparr>cfr_codec_id = chain ! i, cfr_hw_available = creg_hw_preferred r (chain ! i),
                      cfr_is_fallback = chain ! i \<noteq> preferred, cfr_chain_position = int i\<rparr> result
                | None \<Rightarrow> put_result safety_net result))
      | _ \<Rightarrow> put_result safety_net result)"

definition cfb_select_for_session :: "creg_registry option \<Rightarrow> u8 \<Rightarrow> u8 \<Rightarrow> cfb_result option \<Rightarrow> u8 \<times> cfb_result option" where
  "cfb_select_for_session r preferred options result =
     (if preferred = CREG_VCODEC_LIBDAVE then cfb_select_best r preferred (Some cfb_chain_discord) (int (length cfb_chain_discord)) options result
      else if preferred \<ge> CREG_VCODEC_VVC then cfb_select_best r preferred (Some cfb_chain_quality) (int (length cfb_chain_quality)) options result
      else cfb_select_best r preferred (Some cfb_chain_modern) (int (length cfb_chain_modern)) options result)"

definition cfb_result_codec_name :: "creg_registry option \<Rightarrow> cfb_result option \<Rightarrow> string" where
  "cfb_result_codec_name r res = (case res of None \<Rightarrow> ''unknown'' | Some res \<Rightarrow>
     case creg_lookup r (cfr_codec_id res) of None \<Rightarrow> ''unknown'' | Some e \<Rightarrow> cge_name e)"

section \<open>The choice\<close>

lemma register_in_order:
  "length xs + length es \<le> 8 \<Longrightarrow> \<forall>i < length es. cge_codec_id (es ! i) = of_nat (length xs + i) \<Longrightarrow>
   fold (\<lambda>e r. snd (creg_register r (Some e))) es (Some \<lparr>crg_entries = map Some xs @ replicate (8 - length xs) None, crg_count = int (length xs)\<rparr>)
     = Some \<lparr>crg_entries = map Some (xs @ es) @ replicate (8 - length xs - length es) None, crg_count = int (length xs + length es)\<rparr>"
proof (induction es arbitrary: xs)
  case (Cons e es)
  have id: "unat (cge_codec_id e) = length xs" using Cons.prems by (force simp: unat_of_nat_less)
  obtain m where m: "8 - length xs = Suc m" using Cons.prems(1) by (cases "8 - length xs") auto
  have "snd (creg_register (Some \<lparr>crg_entries = map Some xs @ replicate (8 - length xs) None, crg_count = int (length xs)\<rparr>) (Some e))
      = Some \<lparr>crg_entries = map Some (xs @ [e]) @ replicate (8 - length (xs @ [e])) None, crg_count = int (length (xs @ [e]))\<rparr>"
    using Cons.prems(1) m by (simp add: Let_def id CREG_VCODEC_MAX_def list_update_append nth_append)
  moreover have "\<forall>i < length es. cge_codec_id (es ! i) = of_nat (length (xs @ [e]) + i)" using Cons.prems(2) by (metis Suc_less_eq add_Suc_right add_Suc length_Cons length_append_singleton nth_Cons_Suc)
  ultimately show ?case using Cons.IH [of "xs @ [e]"] Cons.prems(1) by (simp del: creg_register.simps)
qed simp

lemma defaults_ids: "\<forall>i < length (default_entries b). cge_codec_id (default_entries b ! i) = of_nat i" "length (default_entries b) = 8"
proof -
  have "map cge_codec_id (default_entries b) = [0, 1, 2, 3, 4, 5, 6, 7]"
    by (simp add: default_entries_def raw_entry_def h264_entry_def h265_entry_def av1_entry_def vp9_entry_def vvc_entry_def av2_entry_def
        libdave_entry_def sw_hw_entry_def vcodecs)
  also have "\<dots> = map of_nat [0..<8]" by (simp add: upt_rec)
  finally have m: "map cge_codec_id (default_entries b) = map of_nat [0..<8]" .
  show l: "length (default_entries b) = 8" by (simp add: default_entries_def)
  show "\<forall>i < length (default_entries b). cge_codec_id (default_entries b ! i) = of_nat i"
  proof (intro allI impI)
    fix i assume i: "i < length (default_entries b)"
    then have "map cge_codec_id (default_entries b) ! i = map of_nat [0..<8] ! i" using m by simp
    then show "cge_codec_id (default_entries b ! i) = of_nat i" using i l by simp
  qed
qed

lemma defaults_registry:
  "snd (creg_register_all_defaults b (creg_create True)) =
    Some \<lparr>crg_entries = map (\<lambda>(i, e). Some (creg_probe i e)) (enumerate 0 (default_entries b)), crg_count = 8\<rparr>"
proof -
  have c: "creg_create True = Some \<lparr>crg_entries = map Some [] @ replicate (8 - length ([] :: creg_entry list)) None, crg_count = int (length ([] :: creg_entry list))\<rparr>"
    by (simp add: creg_create_def CREG_VCODEC_MAX_def)
  have "fold (\<lambda>e r. snd (creg_register r (Some e))) (default_entries b) (creg_create True) = Some \<lparr>crg_entries = map Some (default_entries b), crg_count = 8\<rparr>"
    unfolding c by (subst register_in_order) (use defaults_ids [of b] in simp_all)
  moreover have "map (\<lambda>(i, e). map_option (creg_probe i) e) (enumerate 0 (map Some es)) = map (\<lambda>(i, e). Some (creg_probe i e)) (enumerate 0 es)" for es
    by (simp add: enumerate_map_upt case_prod_beta enumerate_eq_zip zip_map2)
  ultimately show ?thesis by (simp add: creg_register_all_defaults_def creg_create_def creg_probe_all_def Let_def)
qed

text \<open>The registry of a build.\<close>

definition build_registry :: "codec_build \<Rightarrow> creg_registry option" where
  "build_registry b = snd (creg_register_all_defaults b (creg_create True))"

lemma build_lookup: "unat cid < 8 \<Longrightarrow> creg_lookup (build_registry b) cid = Some (creg_probe (unat cid) (default_entries b ! unat cid))"
  using defaults_ids(2) [of b] by (simp add: build_registry_def defaults_registry creg_lookup_def CREG_VCODEC_MAX_def nth_enumerate_eq)

lemma h264_always: "creg_encode_available (build_registry b) CREG_VCODEC_H264"
  using build_lookup [of CREG_VCODEC_H264 b]
  by (simp add: creg_encode_available_def vcodecs default_entries_def creg_probe_def h264_entry_def)

definition accepted :: "creg_registry option \<Rightarrow> u8 \<Rightarrow> u8 \<Rightarrow> bool" where
  "accepted r options cid \<longleftrightarrow> creg_encode_available r cid \<and> \<not> (options AND CFB_OPT_SW_ONLY \<noteq> 0 \<and> creg_hw_preferred r cid)"

definition session_chain :: "u8 \<Rightarrow> u8 list" where
  "session_chain preferred = (if preferred = CREG_VCODEC_LIBDAVE then cfb_chain_discord
     else if preferred \<ge> CREG_VCODEC_VVC then cfb_chain_quality else cfb_chain_modern)"

lemma session_chain_select: "cfb_select_for_session r preferred options result
    = cfb_select_best r preferred (Some (session_chain preferred)) (int (length (session_chain preferred))) options result"
  by (simp add: cfb_select_for_session_def session_chain_def)

lemma session_chain_h264: "CREG_VCODEC_H264 \<in> set (session_chain preferred)" "session_chain preferred \<noteq> []"
  by (simp_all add: session_chain_def cfb_chain_discord_def cfb_chain_quality_def cfb_chain_modern_def)

lemma scan_chain_any: "scan_chain r chain False options = first_idx (accepted r options) chain"
  by (auto simp: scan_chain_def accepted_def intro!: first_idx_cong)

lemma scan_chain_hw: "scan_chain r chain True options = Some i \<Longrightarrow> accepted r options (chain ! i) \<and> creg_hw_preferred r (chain ! i) \<and> chain ! i \<in> set chain"
  using first_idx_SomeD [where xs = chain] by (force simp: scan_chain_def accepted_def)

lemma select_best_choice:
  fixes result :: "cfb_result option"
  assumes "chain \<noteq> []" "fst (cfb_select_best (Some r) preferred (Some chain) (int (length chain)) options result) = c"
  shows "(accepted (Some r) options preferred \<longrightarrow> c = preferred)
    \<and> (accepted (Some r) options c \<and> c \<in> set (preferred # chain) \<or> c = CREG_VCODEC_H264 \<and> (\<forall>cid \<in> set (preferred # chain). \<not> accepted (Some r) options cid))"
proof (cases "accepted (Some r) options preferred")
  case True
  then show ?thesis using assms by (auto simp: cfb_select_best_def put_result_def accepted_def)
next
  case no: False
  then have step: "fst (cfb_select_best (Some r) preferred (Some chain) (int (length chain)) options result) =
      (case (if options AND CFB_OPT_HW_FIRST \<noteq> 0 then scan_chain (Some r) chain True options else None) of
         Some i \<Rightarrow> chain ! i
       | None \<Rightarrow> (case first_idx (accepted (Some r) options) chain of Some i \<Rightarrow> chain ! i | None \<Rightarrow> CREG_VCODEC_H264))"
    using assms(1) by (auto simp: cfb_select_best_def put_result_def accepted_def [symmetric] scan_chain_any safety_net_def split: option.split)
      (auto simp: accepted_def put_result_def safety_net_def)
  show ?thesis
  proof (cases "if options AND CFB_OPT_HW_FIRST \<noteq> 0 then scan_chain (Some r) chain True options else None")
    case (Some i)
    then have "c = chain ! i" "scan_chain (Some r) chain True options = Some i" using assms(2) step by (simp_all split: if_splits)
    then show ?thesis using no scan_chain_hw by fastforce
  next
    case None
    then show ?thesis using no assms(2) first_idx_SomeD [of "accepted (Some r) options" chain] unfolding step
      by (cases "first_idx (accepted (Some r) options) chain") (auto simp: first_idx_None)
  qed
qed

text \<open>In every build a session gets a codec that can encode: the preferred one when it can encode and the options allow it, otherwise
  one of the chain that the options allow, and H.264 only when they allow none.\<close>

theorem session_codec_encodes:
  fixes result :: "cfb_result option"
  assumes "fst (cfb_select_for_session (build_registry b) preferred options result) = c"
  shows "creg_encode_available (build_registry b) c
    \<and> (accepted (build_registry b) options preferred \<longrightarrow> c = preferred)
    \<and> (accepted (build_registry b) options c
      \<or> c = CREG_VCODEC_H264 \<and> (\<forall>cid \<in> set (session_chain preferred). \<not> accepted (build_registry b) options cid))"
proof -
  obtain r where r: "build_registry b = Some r" by (simp add: build_registry_def defaults_registry)
  show ?thesis
    using select_best_choice [OF session_chain_h264(2) assms [unfolded session_chain_select r]] h264_always [of b]
    by (auto simp: r accepted_def)
qed

lemma session_codec_encodes_witness:
  "fst (cfb_select_for_session (build_registry \<lparr>have_vaapi = True, have_nvenc = False, have_qsv = False, have_x265 = False, have_libaom = False, have_svt_av1 = False,
      have_dav1d = True, have_av1_vaapi = False, have_av1_nvenc = False, have_libvpx = False, have_vp9_vaapi = False, have_vp9_nvenc = False,
      have_vvenc = True, have_libdave = False\<rparr>) CREG_VCODEC_VVC 0 None) = CREG_VCODEC_VVC"
proof -
  let ?b = "\<lparr>have_vaapi = True, have_nvenc = False, have_qsv = False, have_x265 = False, have_libaom = False, have_svt_av1 = False,
      have_dav1d = True, have_av1_vaapi = False, have_av1_nvenc = False, have_libvpx = False, have_vp9_vaapi = False, have_vp9_nvenc = False,
      have_vvenc = True, have_libdave = False\<rparr>"
  have "accepted (build_registry ?b) 0 CREG_VCODEC_VVC"
    using build_lookup [of CREG_VCODEC_VVC ?b]
    by (simp add: accepted_def creg_encode_available_def vcodecs default_entries_def creg_probe_def vvc_entry_def sw_hw_entry_def)
  then show ?thesis using session_codec_encodes [OF refl] by blast
qed

text \<open>Asking for hardware first has no effect on a preferred codec that can encode at all: it is taken before the chain is looked at.\<close>

lemma hw_first_ignored:
  fixes result :: "cfb_result option"
  assumes "creg_encode_available (Some r) preferred" "chain \<noteq> []"
  shows "fst (cfb_select_best (Some r) preferred (Some chain) (int (length chain)) CFB_OPT_HW_FIRST result) = preferred"
  using assms by (simp add: cfb_select_best_def put_result_def CFB_OPT_HW_FIRST_def CFB_OPT_SW_ONLY_def)

text \<open>A codec that only NVENC encodes counts as decodable, with no decoder behind it.\<close>

lemma nvenc_only_decodes:
  "have_nvenc b \<Longrightarrow> \<not> have_x265 b \<Longrightarrow> \<not> have_vaapi b \<Longrightarrow>
    creg_decode_available (build_registry b) CREG_VCODEC_H265 \<and> cge_decoder_backends (h265_entry b) = CREG_BACKEND_NONE"
  using build_lookup [of CREG_VCODEC_H265 b]
  by (simp add: creg_decode_available_def vcodecs default_entries_def creg_probe_def h265_entry_def sw_hw_entry_def if_have_def CREG_BACKEND_NONE_def)

end
