(* ===== verification/Fanout.thy ===== *)
theory Fanout
  imports Slots Wire
begin

unbundle bit_operations_syntax

text \<open>
  Fan-out of one stream to several clients, \<^verbatim>\<open>src/src/fanout\<close>: the table of at most 32 sessions
  (\<^verbatim>\<open>session_table.c\<close>), delivery of a frame to all of them (\<^verbatim>\<open>fanout_manager.c\<close>) and the bitrate of one client
  (\<^verbatim>\<open>per_client_abr.c\<close>).  The clock is an argument; sockets are a world that takes what a script says; the loss rate is
  carried as its 32 bits and the two float comparisons and the float product are parameters.  The table and the
  statistics are each guarded by a lock that every function holds for the whole of its access.
\<close>

section \<open>The session table\<close>

definition SESSION_TABLE_MAX :: nat where "SESSION_TABLE_MAX = 32"

datatype session_state = SESSION_STATE_IDLE | SESSION_STATE_CONNECTING | SESSION_STATE_ACTIVE | SESSION_STATE_DRAINING | SESSION_STATE_CLOSED

record session_entry =
  fse_id :: u32
  fse_state :: session_state
  fse_socket_fd :: int
  fse_peer_addr :: string
  fse_bitrate_kbps :: u32
  fse_max_bitrate_kbps :: u32
  fse_bytes_sent :: u64
  fse_frames_sent :: u64
  fse_connected_at_us :: u64
  fse_rtt_ms :: u32
  fse_loss_rate :: u32

definition session_entry_zero :: session_entry where
  "session_entry_zero = \<lparr>fse_id = 0, fse_state = SESSION_STATE_IDLE, fse_socket_fd = -1, fse_peer_addr = [], fse_bitrate_kbps = 0,
     fse_max_bitrate_kbps = 0, fse_bytes_sent = 0, fse_frames_sent = 0, fse_connected_at_us = 0, fse_rtt_ms = 0, fse_loss_rate = 0\<rparr>"

record session_table =
  fst_slots :: "(session_entry \<times> bool) list"
  fst_next_id :: u32

definition session_table_create :: "bool \<Rightarrow> session_table option" where
  "session_table_create mem = (if mem then Some \<lparr>fst_slots = replicate SESSION_TABLE_MAX (session_entry_zero, False), fst_next_id = 1\<rparr> else None)"

definition new_session :: "u32 \<Rightarrow> int \<Rightarrow> string \<Rightarrow> u64 \<Rightarrow> session_entry" where
  "new_session sid fd peer_addr now = session_entry_zero\<lparr>fse_id := sid, fse_state := SESSION_STATE_ACTIVE, fse_socket_fd := fd,
     fse_bitrate_kbps := 4000, fse_max_bitrate_kbps := 20000, fse_connected_at_us := now, fse_peer_addr := cstr_fit 48 peer_addr\<rparr>"

fun session_table_add :: "u64 \<Rightarrow> session_table option \<Rightarrow> int \<Rightarrow> string option \<Rightarrow> u32 option \<Rightarrow> int \<times> session_table option \<times> u32 option" where
  "session_table_add now (Some t) fd (Some peer_addr) (Some out_id) =
     (case first_idx (\<lambda>s. \<not> snd s) (fst_slots t) of
        None \<Rightarrow> (-1, Some t, Some out_id)
      | Some i \<Rightarrow> (0, Some (t\<lparr>fst_slots := (fst_slots t)[i := (new_session (fst_next_id t) fd peer_addr now, True)], fst_next_id := fst_next_id t + 1\<rparr>),
          Some (fst_next_id t)))"
| "session_table_add now t fd peer_addr out_id = (-1, t, out_id)"

definition fst_find :: "session_table \<Rightarrow> u32 \<Rightarrow> nat option" where
  "fst_find t sid = first_idx (\<lambda>s. snd s \<and> fse_id (fst s) = sid) (fst_slots t)"

fun session_table_remove :: "session_table option \<Rightarrow> u32 \<Rightarrow> int \<times> session_table option" where
  "session_table_remove (Some t) sid = (case fst_find t sid of None \<Rightarrow> (-1, Some t)
     | Some i \<Rightarrow> (0, Some (t\<lparr>fst_slots := (fst_slots t)[i := ((fst (fst_slots t ! i))\<lparr>fse_state := SESSION_STATE_CLOSED\<rparr>, False)]\<rparr>)))"
| "session_table_remove None sid = (-1, None)"

fun session_table_get :: "session_table option \<Rightarrow> u32 \<Rightarrow> session_entry option \<Rightarrow> int \<times> session_entry option" where
  "session_table_get (Some t) sid (Some out) = (case fst_find t sid of None \<Rightarrow> (-1, Some out) | Some i \<Rightarrow> (0, Some (fst (fst_slots t ! i))))"
| "session_table_get t sid out = (-1, out)"

definition fst_update :: "u32 \<Rightarrow> (session_entry \<Rightarrow> session_entry) \<Rightarrow> session_table option \<Rightarrow> int \<times> session_table option" where
  "fst_update sid g t = (case t of None \<Rightarrow> (-1, None) | Some t \<Rightarrow> (case fst_find t sid of None \<Rightarrow> (-1, Some t)
     | Some i \<Rightarrow> (0, Some (t\<lparr>fst_slots := (fst_slots t)[i := (g (fst (fst_slots t ! i)), True)]\<rparr>))))"

definition session_table_update_bitrate :: "session_table option \<Rightarrow> u32 \<Rightarrow> u32 \<Rightarrow> int \<times> session_table option" where
  "session_table_update_bitrate t sid bitrate_kbps = fst_update sid (\<lambda>e. e\<lparr>fse_bitrate_kbps := bitrate_kbps\<rparr>) t"

definition session_table_update_stats :: "session_table option \<Rightarrow> u32 \<Rightarrow> u32 \<Rightarrow> u32 \<Rightarrow> int \<times> session_table option" where
  "session_table_update_stats t sid rtt_ms loss_rate = fst_update sid (\<lambda>e. e\<lparr>fse_rtt_ms := rtt_ms, fse_loss_rate := loss_rate\<rparr>) t"

definition session_active :: "session_entry \<times> bool \<Rightarrow> bool" where
  "session_active s \<longleftrightarrow> snd s \<and> fse_state (fst s) = SESSION_STATE_ACTIVE"

definition session_table_count :: "session_table option \<Rightarrow> nat" where
  "session_table_count t = (case t of None \<Rightarrow> 0 | Some t \<Rightarrow> count_if session_active (fst_slots t))"

fun session_table_foreach :: "session_table option \<Rightarrow> (session_entry \<Rightarrow> 'u \<Rightarrow> 'u) option \<Rightarrow> 'u \<Rightarrow> 'u" where
  "session_table_foreach (Some t) (Some callback) u = fold (\<lambda>s u. if session_active s then callback (fst s) u else u) (fst_slots t) u"
| "session_table_foreach t callback u = u"

section \<open>Delivery\<close>

datatype fanout_frame_type = FANOUT_FRAME_VIDEO_KEY | FANOUT_FRAME_VIDEO_DELTA | FANOUT_FRAME_AUDIO | FANOUT_FRAME_DATA

definition frame_type_byte :: "fanout_frame_type \<Rightarrow> u8" where
  "frame_type_byte t = (case t of FANOUT_FRAME_VIDEO_KEY \<Rightarrow> 0 | FANOUT_FRAME_VIDEO_DELTA \<Rightarrow> 1 | FANOUT_FRAME_AUDIO \<Rightarrow> 2 | FANOUT_FRAME_DATA \<Rightarrow> 3)"

text \<open>The sockets: what each peer was sent, and a script of the next calls of \<^verbatim>\<open>send\<close>, each of which fails or takes some of
  the bytes; without a script all bytes are taken.\<close>

record send_world =
  snd_stream :: "int \<Rightarrow> u8 list"
  snd_script :: "nat option list"

definition sock_put :: "int \<Rightarrow> u8 list \<Rightarrow> send_world \<Rightarrow> send_world" where
  "sock_put fd bs w = w\<lparr>snd_stream := (snd_stream w)(fd := snd_stream w fd @ bs)\<rparr>"

definition sock_send :: "int \<Rightarrow> u8 list \<Rightarrow> send_world \<Rightarrow> int \<times> send_world" where
  "sock_send fd bs w = (case snd_script w of
     [] \<Rightarrow> (int (length bs), sock_put fd bs w)
   | None # s \<Rightarrow> (-1, w\<lparr>snd_script := s\<rparr>)
   | Some n # s \<Rightarrow> (int (min n (length bs)), sock_put fd (take n bs) (w\<lparr>snd_script := s\<rparr>)))"

definition frame_header :: "nat \<Rightarrow> fanout_frame_type \<Rightarrow> u8 list" where
  "frame_header size_b t = [0x52, 0x53, frame_type_byte t, 0] @ w32le (of_nat size_b)"

definition send_frame :: "int \<Rightarrow> u8 list \<Rightarrow> fanout_frame_type \<Rightarrow> send_world \<Rightarrow> int \<times> send_world" where
  "send_frame fd data t w =
     (if fd < 0 then (-1, w)
      else let hdr = frame_header (length data) t; (wr, w) = sock_send fd hdr w in
        if wr \<noteq> int (length hdr) then (-1, w)
        else let (wr, w) = sock_send fd data w in
          if wr \<noteq> int (length data) then (-1, w) else (0, w))"

record fanout_stats =
  fos_frames_in :: u64
  fos_frames_delivered :: u64
  fos_frames_dropped :: u64
  fos_active_sessions :: nat

definition fanout_stats_zero :: fanout_stats where
  "fanout_stats_zero = \<lparr>fos_frames_in = 0, fos_frames_delivered = 0, fos_frames_dropped = 0, fos_active_sessions = 0\<rparr>"

text \<open>The manager borrows the table: its functions take both.\<close>

record fanout_manager =
  fom_stats :: fanout_stats

fun fanout_manager_create :: "bool \<Rightarrow> session_table option \<Rightarrow> fanout_manager option" where
  "fanout_manager_create mem (Some t) = (if mem then Some \<lparr>fom_stats = fanout_stats_zero\<rparr> else None)"
| "fanout_manager_create mem None = None"

record deliver_ctx =
  dlv_delivered :: nat
  dlv_dropped :: nat
  dlv_world :: send_world

text \<open>\<open>lossy\<close> is the comparison of a loss rate with 0.10f.\<close>

definition congested_for :: "(u32 \<Rightarrow> bool) \<Rightarrow> fanout_frame_type \<Rightarrow> session_entry \<Rightarrow> bool" where
  "congested_for lossy t e \<longleftrightarrow> t = FANOUT_FRAME_VIDEO_DELTA \<and> (lossy (fse_loss_rate e) \<or> fse_rtt_ms e > 500)"

definition deliver_to_session :: "(u32 \<Rightarrow> bool) \<Rightarrow> u8 list \<Rightarrow> fanout_frame_type \<Rightarrow> session_entry \<Rightarrow> deliver_ctx \<Rightarrow> deliver_ctx" where
  "deliver_to_session lossy data t e ctx =
     (if congested_for lossy t e then ctx\<lparr>dlv_dropped := dlv_dropped ctx + 1\<rparr>
      else let (rc, w) = send_frame (fse_socket_fd e) data t (dlv_world ctx); ctx = ctx\<lparr>dlv_world := w\<rparr> in
        if rc = 0 then ctx\<lparr>dlv_delivered := dlv_delivered ctx + 1\<rparr> else ctx\<lparr>dlv_dropped := dlv_dropped ctx + 1\<rparr>)"

fun fanout_manager_deliver :: "(u32 \<Rightarrow> bool) \<Rightarrow> session_table \<Rightarrow> fanout_manager option \<Rightarrow> u8 list option \<Rightarrow> fanout_frame_type \<Rightarrow> send_world
    \<Rightarrow> nat \<times> fanout_manager option \<times> send_world" where
  "fanout_manager_deliver lossy tbl (Some m) (Some data) t w =
     (if data = [] then (0, Some m, w)
      else let ctx = session_table_foreach (Some tbl) (Some (deliver_to_session lossy data t)) \<lparr>dlv_delivered = 0, dlv_dropped = 0, dlv_world = w\<rparr>;
             s = fom_stats m in
        (dlv_delivered ctx,
         Some (m\<lparr>fom_stats := s\<lparr>fos_frames_in := fos_frames_in s + 1,
           fos_frames_delivered := fos_frames_delivered s + (if 0 < dlv_delivered ctx then 1 else 0),
           fos_frames_dropped := fos_frames_dropped s + of_nat (dlv_dropped ctx),
           fos_active_sessions := session_table_count (Some tbl)\<rparr>\<rparr>), dlv_world ctx))"
| "fanout_manager_deliver lossy tbl m data t w = (0, m, w)"

fun fanout_manager_get_stats :: "fanout_manager option \<Rightarrow> fanout_stats option \<Rightarrow> fanout_stats option" where
  "fanout_manager_get_stats (Some m) (Some stats) = Some (fom_stats m)"
| "fanout_manager_get_stats m stats = stats"

definition fanout_manager_reset_stats :: "fanout_manager option \<Rightarrow> fanout_manager option" where
  "fanout_manager_reset_stats m = map_option (\<lambda>m. m\<lparr>fom_stats := fanout_stats_zero\<rparr>) m"

section \<open>The bitrate of a client\<close>

definition ABR_INCREASE_KBPS :: u32 where "ABR_INCREASE_KBPS = 500"
definition ABR_MIN_BITRATE_KBPS :: u32 where "ABR_MIN_BITRATE_KBPS = 200"
definition ABR_RTT_THRESHOLD_MS :: u32 where "ABR_RTT_THRESHOLD_MS = 250"

record per_client_abr =
  pca_bitrate_kbps :: u32
  pca_max_bitrate_kbps :: u32
  pca_min_bitrate_kbps :: u32
  pca_need_keyframe :: bool
  pca_stable_intervals :: u32

record abr_decision =
  abd_target_bitrate_kbps :: u32
  abd_allow_upgrade :: bool
  abd_force_keyframe :: bool

text \<open>The comparison of a loss rate with 0.05f, and a bitrate times 0.7f.\<close>

record pca_floats =
  pcf_lossy :: "u32 \<Rightarrow> bool"
  pcf_decrease :: "u32 \<Rightarrow> u32"

definition per_client_abr_create :: "bool \<Rightarrow> u32 \<Rightarrow> u32 \<Rightarrow> per_client_abr option" where
  "per_client_abr_create mem initial_kbps max_kbps = (if mem then Some \<lparr>pca_bitrate_kbps = initial_kbps, pca_max_bitrate_kbps = max_kbps,
     pca_min_bitrate_kbps = ABR_MIN_BITRATE_KBPS, pca_need_keyframe = False, pca_stable_intervals = 0\<rparr> else None)"

definition pca_raise :: "per_client_abr \<Rightarrow> u32 \<Rightarrow> u32" where
  "pca_raise a bw_kbps =
     (let r = pca_bitrate_kbps a + ABR_INCREASE_KBPS;
          r = (if 0 < bw_kbps \<and> bw_kbps * 9 div 10 < r then bw_kbps * 9 div 10 else r) in
      if pca_max_bitrate_kbps a < r then pca_max_bitrate_kbps a else r)"

definition pca_lower :: "pca_floats \<Rightarrow> per_client_abr \<Rightarrow> u32" where
  "pca_lower F a = (let r = pcf_decrease F (pca_bitrate_kbps a) in if r < pca_min_bitrate_kbps a then pca_min_bitrate_kbps a else r)"

definition pca_congested :: "pca_floats \<Rightarrow> u32 \<Rightarrow> u32 \<Rightarrow> bool" where
  "pca_congested F rtt_ms loss_rate \<longleftrightarrow> pcf_lossy F loss_rate \<or> ABR_RTT_THRESHOLD_MS < rtt_ms"

text \<open>The controller is read without a test for NULL.\<close>

definition per_client_abr_update :: "pca_floats \<Rightarrow> per_client_abr \<Rightarrow> u32 \<Rightarrow> u32 \<Rightarrow> u32 \<Rightarrow> abr_decision \<times> per_client_abr" where
  "per_client_abr_update F a rtt_ms loss_rate bw_kbps =
     (let (a, up, key) = (if pca_congested F rtt_ms loss_rate
            then let r = pca_lower F a; key = r < pca_bitrate_kbps a in
              (a\<lparr>pca_need_keyframe := pca_need_keyframe a \<or> key, pca_bitrate_kbps := r, pca_stable_intervals := 0\<rparr>, False, key)
            else let a = a\<lparr>pca_stable_intervals := pca_stable_intervals a + 1\<rparr> in
              if 2 \<le> pca_stable_intervals a then (a\<lparr>pca_bitrate_kbps := pca_raise a bw_kbps\<rparr>, True, False) else (a, False, False)) in
      (\<lparr>abd_target_bitrate_kbps = pca_bitrate_kbps a, abd_allow_upgrade = up, abd_force_keyframe = (key \<or> pca_need_keyframe a)\<rparr>,
       a\<lparr>pca_need_keyframe := False\<rparr>))"

definition per_client_abr_get_bitrate :: "per_client_abr option \<Rightarrow> u32" where
  "per_client_abr_get_bitrate a = (case a of None \<Rightarrow> 0 | Some a \<Rightarrow> pca_bitrate_kbps a)"

definition per_client_abr_force_keyframe :: "per_client_abr option \<Rightarrow> per_client_abr option" where
  "per_client_abr_force_keyframe a = map_option (\<lambda>a. a\<lparr>pca_need_keyframe := True\<rparr>) a"

section \<open>Sessions as a map\<close>

datatype fan_op = FanAdd int string u64 | FanRemove u32 | FanGet u32 | FanBitrate u32 u32 | FanStats u32 u32 u32 | FanCount
  | FanDeliver "u8 list" fanout_frame_type | FanTotals

datatype fan_ans = FanInt int | FanId "u32 option" | FanGot "session_entry option" | FanNum nat | FanAll "fanout_stats option"

text \<open>Table, manager and sockets together.\<close>

fun fan_call :: "(u32 \<Rightarrow> bool) \<Rightarrow> fan_op \<Rightarrow> session_table \<times> fanout_manager \<times> send_world \<Rightarrow> fan_ans \<times> session_table \<times> fanout_manager \<times> send_world" where
  "fan_call lossy (FanAdd fd addr now) (t, m, w) = (case session_table_add now (Some t) fd (Some addr) (Some 0) of
     (r, t', out) \<Rightarrow> (FanId (if r = 0 then out else None), the t', m, w))"
| "fan_call lossy (FanRemove sid) (t, m, w) = (case session_table_remove (Some t) sid of (r, t') \<Rightarrow> (FanInt r, the t', m, w))"
| "fan_call lossy (FanGet sid) (t, m, w) = (case session_table_get (Some t) sid (Some session_entry_zero) of (r, out) \<Rightarrow>
     (FanGot (if r = 0 then out else None), t, m, w))"
| "fan_call lossy (FanBitrate sid b) (t, m, w) = (case session_table_update_bitrate (Some t) sid b of (r, t') \<Rightarrow> (FanInt r, the t', m, w))"
| "fan_call lossy (FanStats sid rtt loss) (t, m, w) = (case session_table_update_stats (Some t) sid rtt loss of (r, t') \<Rightarrow> (FanInt r, the t', m, w))"
| "fan_call lossy FanCount (t, m, w) = (FanNum (session_table_count (Some t)), t, m, w)"
| "fan_call lossy (FanDeliver data ty) (t, m, w) = (case fanout_manager_deliver lossy t (Some m) (Some data) ty w of
     (n, m', w') \<Rightarrow> (FanNum n, t, the m', w'))"
| "fan_call lossy FanTotals (t, m, w) = (FanAll (fanout_manager_get_stats (Some m) (Some fanout_stats_zero)), t, m, w)"

text \<open>Who takes a frame of a type: a session that is not congested for it and has a socket.\<close>

definition takes_frame :: "(u32 \<Rightarrow> bool) \<Rightarrow> fanout_frame_type \<Rightarrow> session_entry \<Rightarrow> bool" where
  "takes_frame lossy ty e \<longleftrightarrow> \<not> congested_for lossy ty e \<and> 0 \<le> fse_socket_fd e"

definition sessions_with :: "(u32 \<rightharpoonup> session_entry) \<Rightarrow> (session_entry \<Rightarrow> bool) \<Rightarrow> nat" where
  "sessions_with M Q = card {k. \<exists>e. M k = Some e \<and> Q e}"

type_synonym fan_abs = "(u32 \<rightharpoonup> session_entry) \<times> nat \<times> fanout_stats \<times> (int \<Rightarrow> u8 list)"

fun fan_at :: "u32 \<Rightarrow> (session_entry \<Rightarrow> session_entry option) \<Rightarrow> fan_abs \<Rightarrow> fan_ans \<times> fan_abs" where
  "fan_at sid g (M, rest) = (case M sid of None \<Rightarrow> (FanInt (-1), M, rest) | Some e \<Rightarrow> (FanInt 0, M(sid := g e), rest))"

fun fan_spec :: "(u32 \<Rightarrow> bool) \<Rightarrow> fan_op \<Rightarrow> fan_abs \<Rightarrow> fan_ans \<times> fan_abs" where
  "fan_spec lossy (FanAdd fd addr now) (M, n, rest) =
     (if card (dom M) < SESSION_TABLE_MAX then (FanId (Some (of_nat n)), M(of_nat n \<mapsto> new_session (of_nat n) fd addr now), n + 1, rest)
      else (FanId None, M, n, rest))"
| "fan_spec lossy (FanRemove sid) s = fan_at sid (\<lambda>_. None) s"
| "fan_spec lossy (FanGet sid) (M, rest) = (FanGot (M sid), M, rest)"
| "fan_spec lossy (FanBitrate sid b) s = fan_at sid (\<lambda>e. Some (e\<lparr>fse_bitrate_kbps := b\<rparr>)) s"
| "fan_spec lossy (FanStats sid rtt loss) s = fan_at sid (\<lambda>e. Some (e\<lparr>fse_rtt_ms := rtt, fse_loss_rate := loss\<rparr>)) s"
| "fan_spec lossy FanCount (M, rest) = (FanNum (card (dom M)), M, rest)"
| "fan_spec lossy (FanDeliver data ty) (M, n, st, out) =
     (if data = [] then (FanNum 0, M, n, st, out)
      else let taken = sessions_with M (takes_frame lossy ty) in
        (FanNum taken, M, n,
         \<lparr>fos_frames_in = fos_frames_in st + 1, fos_frames_delivered = fos_frames_delivered st + (if 0 < taken then 1 else 0),
           fos_frames_dropped = fos_frames_dropped st + of_nat (card (dom M) - taken), fos_active_sessions = card (dom M)\<rparr>,
         (\<lambda>fd. out fd @ concat (replicate (sessions_with M (\<lambda>e. takes_frame lossy ty e \<and> fse_socket_fd e = fd)) (frame_header (length data) ty @ data)))))"
| "fan_spec lossy FanTotals (M, n, st, out) = (FanAll (Some st), M, n, st, out)"

definition fse_key :: "session_entry \<times> bool \<Rightarrow> u32" where "fse_key s = fse_id (fst s)"

definition fan_rel :: "nat \<Rightarrow> session_table \<times> fanout_manager \<times> send_world \<Rightarrow> fan_abs \<Rightarrow> bool" where
  "fan_rel n s a \<longleftrightarrow> (case (s, a) of ((t, m, w), (M, nid, st, out)) \<Rightarrow>
     slot_map_rel snd fse_key fst SESSION_TABLE_MAX (fst_slots t) (card (dom M)) M
     \<and> list_all (\<lambda>(e, u). u \<longrightarrow> fse_state e = SESSION_STATE_ACTIVE) (fst_slots t)
     \<and> (\<forall>k \<in> dom M. unat k < nid) \<and> unat (fst_next_id t) = nid \<and> nid + n < 2 ^ 32
     \<and> fom_stats m = st \<and> snd_stream w = out \<and> snd_script w = [])"

lemma fst_find_key: "fst_find t sid = first_idx (\<lambda>s. snd s \<and> fse_key s = sid) (fst_slots t)"
  by (simp add: fst_find_def fse_key_def)

text \<open>One delivery to sockets that take everything.\<close>

lemma send_frame_whole:
  "snd_script w = [] \<Longrightarrow> send_frame fd data ty w = (if fd < 0 then (-1, w) else (0, sock_put fd (frame_header (length data) ty @ data) w))"
  by (simp add: send_frame_def sock_send_def sock_put_def Let_def)

lemma count_if_split: "count_if (\<lambda>x. P x \<and> Q x) xs + count_if (\<lambda>x. P x \<and> \<not> Q x) xs = count_if P xs"
  by (induction xs) simp_all

lemma deliver_all:
  fixes ctx :: deliver_ctx and xs :: "(session_entry \<times> bool) list" and lossy :: "u32 \<Rightarrow> bool" and data ty
  assumes "snd_script (dlv_world ctx) = []"
  defines "r \<equiv> fold (\<lambda>s u. if session_active s then deliver_to_session lossy data ty (fst s) u else u) xs ctx"
  shows "dlv_delivered r = dlv_delivered ctx + count_if (\<lambda>s. session_active s \<and> takes_frame lossy ty (fst s)) xs
    \<and> dlv_dropped r = dlv_dropped ctx + count_if (\<lambda>s. session_active s \<and> \<not> takes_frame lossy ty (fst s)) xs
    \<and> snd_script (dlv_world r) = []
    \<and> (\<forall>fd. snd_stream (dlv_world r) fd = snd_stream (dlv_world ctx) fd
      @ concat (replicate (count_if (\<lambda>s. session_active s \<and> takes_frame lossy ty (fst s) \<and> fse_socket_fd (fst s) = fd) xs)
          (frame_header (length data) ty @ data)))"
  using assms(1) unfolding r_def
proof (induction xs arbitrary: ctx)
  case (Cons x xs)
  let ?c = "if session_active x then deliver_to_session lossy data ty (fst x) ctx else ctx"
  have step: "snd_script (dlv_world ?c) = []
      \<and> dlv_delivered ?c = dlv_delivered ctx + (if session_active x \<and> takes_frame lossy ty (fst x) then 1 else 0)
      \<and> dlv_dropped ?c = dlv_dropped ctx + (if session_active x \<and> \<not> takes_frame lossy ty (fst x) then 1 else 0)
      \<and> (\<forall>fd. snd_stream (dlv_world ?c) fd = snd_stream (dlv_world ctx) fd
        @ (if session_active x \<and> takes_frame lossy ty (fst x) \<and> fse_socket_fd (fst x) = fd then frame_header (length data) ty @ data else []))"
    using Cons.prems by (auto simp: deliver_to_session_def takes_frame_def send_frame_whole sock_put_def)
  then show ?case using Cons.IH [of ?c] by auto
qed simp

text \<open>The pieces of the simulation.\<close>

lemma fan_streams: "fan_rel n s a \<Longrightarrow> snd_stream (snd (snd s)) = snd (snd (snd a))"
  by (auto simp: fan_rel_def split: prod.splits)

lemma fan_slots: "fan_rel n (t, m, w) (M, rest) \<Longrightarrow> slot_map_rel snd fse_key fst SESSION_TABLE_MAX (fst_slots t) (card (dom M)) M"
  by (cases rest) (auto simp: fan_rel_def)

lemma fan_active: "fan_rel n (t, m, w) a \<Longrightarrow> s \<in> set (fst_slots t) \<Longrightarrow> session_active s = snd s"
  by (cases s; cases a) (auto simp: fan_rel_def session_active_def list_all_iff)

lemma fan_count:
  assumes "fan_rel n (t, m, w) (M, rest)"
  shows "count_if (\<lambda>s. session_active s \<and> Q (fst s)) (fst_slots t) = sessions_with M Q"
  unfolding sessions_with_def slot_map_count [OF fan_slots [OF assms]]
  using fan_active [OF assms] by (simp add: count_if_def cong: filter_cong conj_cong)

lemma fan_less: "fan_rel (Suc n) s a \<Longrightarrow> fan_rel n s a"
  by (auto simp: fan_rel_def split: prod.splits)

lemma fan_find:
  assumes "fan_rel n (t, m, w) (M, rest)"
  shows "case fst_find t sid of None \<Rightarrow> M sid = None
    | Some i \<Rightarrow> i < length (fst_slots t) \<and> snd (fst_slots t ! i) \<and> M sid = Some (fst (fst_slots t ! i)) \<and> fse_id (fst (fst_slots t ! i)) = sid"
proof -
  note sl = fan_slots [OF assms]
  show ?thesis
    using slot_map_missing [OF sl, of sid] slot_map_found [OF sl, of sid] sl
    by (auto simp: fst_find_key fse_key_def slot_map_rel_def split: option.split)
qed

lemma fan_at_rel:
  assumes r: "fan_rel (Suc n) (t, m, w) (M, rest)"
    and g: "\<And>e. fse_id (g e) = fse_id e \<and> fse_state (g e) = fse_state e"
  shows "case fst_update sid g (Some t) of (x, t') \<Rightarrow> FanInt x = fst (fan_at sid (\<lambda>e. Some (g e)) (M, rest))
    \<and> fan_rel n (the t', m, w) (snd (fan_at sid (\<lambda>e. Some (g e)) (M, rest)))"
proof (cases "fst_find t sid")
  case None
  then show ?thesis using fan_find [OF r, of sid] fan_less [OF r] by (simp add: fst_update_def)
next
  case (Some i)
  note f = fan_find [OF r, of sid, unfolded Some, simplified]
  let ?v = "(g (fst (fst_slots t ! i)), True)"
  have sl: "slot_map_rel snd fse_key fst SESSION_TABLE_MAX ((fst_slots t)[i := ?v]) (card (dom M)) (M(sid \<mapsto> fst ?v))"
    using slot_map_replace [OF fan_slots [OF r], of sid i ?v] Some f g by (simp add: fst_find_key fse_key_def)
  moreover have "fse_state (fst (fst_slots t ! i)) = SESSION_STATE_ACTIVE" using fan_active [OF r nth_mem, of i] f by (simp add: session_active_def)
  then have "list_all (\<lambda>(e, u). u \<longrightarrow> fse_state e = SESSION_STATE_ACTIVE) ((fst_slots t)[i := ?v])"
    using r g by (intro list_all_update) (auto simp: fan_rel_def split: prod.splits)
  moreover have "dom (M(sid \<mapsto> x)) = dom M" for x using f by auto
  ultimately show ?thesis using r f by (cases rest) (auto simp: fst_update_def Some fan_rel_def)
qed

lemma fan_add_rel:
  assumes r: "fan_rel (Suc n) (t, m, w) (M, nid, st, out)"
  shows "fst (fan_call lossy (FanAdd fd addr now) (t, m, w)) = fst (fan_spec lossy (FanAdd fd addr now) (M, nid, st, out))
    \<and> fan_rel n (snd (fan_call lossy (FanAdd fd addr now) (t, m, w))) (snd (fan_spec lossy (FanAdd fd addr now) (M, nid, st, out)))"
proof -
  note sl = fan_slots [OF r]
  have nid: "fst_next_id t = of_nat nid" "unat (fst_next_id t) = nid" "nid < 2 ^ 32 - 1" using r by (auto simp: fan_rel_def)
  then have n1: "unat (of_nat nid + 1 :: u32) = nid + 1" "unat (of_nat nid :: u32) = nid"
    by (auto simp: unat_word_ariths unat_of_nat)
  have old: "unat k < Suc nid" if "M k = Some y" for k y using r that by (auto simp: fan_rel_def less_Suc_eq)
  have fresh: "M (of_nat nid) = None" using r n1 by (auto simp: fan_rel_def dom_def)
  show ?thesis
  proof (cases "card (dom M) < SESSION_TABLE_MAX")
    case True
    then obtain i where i: "first_idx (\<lambda>s. \<not> snd s) (fst_slots t) = Some i" using slot_map_room [OF sl] by blast
    let ?v = "(new_session (of_nat nid) fd addr now, True)"
    have k: "fse_key ?v = of_nat nid" by (simp add: fse_key_def new_session_def)
    have "slot_map_rel snd fse_key fst SESSION_TABLE_MAX ((fst_slots t)[i := ?v]) (Suc (card (dom M))) (M(of_nat nid \<mapsto> fst ?v))"
      using slot_map_fill [OF sl i, of ?v] fresh k by simp
    moreover have "card (dom (M(of_nat nid \<mapsto> x))) = Suc (card (dom M))" for x using slot_map_card [OF calculation] by simp
    moreover have "list_all (\<lambda>(e, u). u \<longrightarrow> fse_state e = SESSION_STATE_ACTIVE) ((fst_slots t)[i := ?v])"
      using r by (intro list_all_update) (auto simp: fan_rel_def new_session_def)
    ultimately show ?thesis using r True n1 nid old by (auto simp: i fan_rel_def)
  next
    case False
    then have "first_idx (\<lambda>s. \<not> snd s) (fst_slots t) = None"
      using slot_map_le [OF sl] sl count_if_full [of snd "fst_slots t"] by (simp add: first_idx_None slot_map_rel_def)
    then show ?thesis using False fan_less [OF r] by simp
  qed
qed

lemma fan_remove_rel:
  assumes r: "fan_rel (Suc n) (t, m, w) (M, rest)"
  shows "fst (fan_call lossy (FanRemove sid) (t, m, w)) = fst (fan_spec lossy (FanRemove sid) (M, rest))
    \<and> fan_rel n (snd (fan_call lossy (FanRemove sid) (t, m, w))) (snd (fan_spec lossy (FanRemove sid) (M, rest)))"
proof (cases "fst_find t sid")
  case None
  then show ?thesis using fan_find [OF r, of sid] fan_less [OF r] by simp
next
  case (Some i)
  note f = fan_find [OF r, of sid, unfolded Some, simplified]
  let ?v = "((fst (fst_slots t ! i))\<lparr>fse_state := SESSION_STATE_CLOSED\<rparr>, False)"
  have sl: "slot_map_rel snd fse_key fst SESSION_TABLE_MAX ((fst_slots t)[i := ?v]) (card (dom M) - 1) (M(sid := None))"
    using slot_map_clear [OF fan_slots [OF r], of sid i ?v] Some by (simp add: fst_find_key)
  moreover have "list_all (\<lambda>(e, u). u \<longrightarrow> fse_state e = SESSION_STATE_ACTIVE) ((fst_slots t)[i := ?v])"
    using r by (intro list_all_update) (auto simp: fan_rel_def split: prod.splits)
  moreover have "card (dom (M(sid := None))) = card (dom M) - 1" using slot_map_card [OF sl] .
  ultimately show ?thesis using r f Some by (cases rest) (auto simp: fan_rel_def)
qed

lemma fan_deliver_rel:
  assumes r: "fan_rel (Suc n) (t, m, w) (M, nid, st, out)"
  shows "fst (fan_call lossy (FanDeliver data ty) (t, m, w)) = fst (fan_spec lossy (FanDeliver data ty) (M, nid, st, out))
    \<and> fan_rel n (snd (fan_call lossy (FanDeliver data ty) (t, m, w))) (snd (fan_spec lossy (FanDeliver data ty) (M, nid, st, out)))"
proof (cases "data = []")
  case False
  let ?ctx = "\<lparr>dlv_delivered = 0, dlv_dropped = 0, dlv_world = w\<rparr>"
  let ?r = "fold (\<lambda>s u. if session_active s then deliver_to_session lossy data ty (fst s) u else u) (fst_slots t) ?ctx"
  have w: "snd_script (dlv_world ?ctx) = []" using r by (simp add: fan_rel_def)
  note d = deliver_all [OF w, of lossy data ty "fst_slots t"]
  have all: "sessions_with M (\<lambda>_. True) = card (dom M)" by (simp add: sessions_with_def dom_def)
  have c: "session_table_count (Some t) = card (dom M)"
    using fan_count [OF r, of "\<lambda>_. True"] by (simp add: session_table_count_def all)
  have parts: "dlv_delivered ?r = sessions_with M (takes_frame lossy ty)"
      "snd_stream (dlv_world ?r) = (\<lambda>fd. out fd @ concat (replicate (sessions_with M (\<lambda>e. takes_frame lossy ty e \<and> fse_socket_fd e = fd)) (frame_header (length data) ty @ data)))"
    using d fan_count [OF r, of "takes_frame lossy ty"] fan_count [OF r, of "\<lambda>e. takes_frame lossy ty e \<and> fse_socket_fd e = fd" for fd] r
    by (simp_all add: fan_rel_def fun_eq_iff)
  have "sessions_with M (takes_frame lossy ty) + dlv_dropped ?r = card (dom M)"
    using d count_if_split [of session_active "\<lambda>s. takes_frame lossy ty (fst s)" "fst_slots t"] fan_count [OF r, of "\<lambda>_. True"]
      fan_count [OF r, of "takes_frame lossy ty"] by (simp add: all)
  then have "dlv_dropped ?r = card (dom M) - sessions_with M (takes_frame lossy ty)" by simp
  then show ?thesis using fan_less [OF r] d False by (auto simp: fan_rel_def Let_def parts c)
qed (use fan_less [OF r] in simp)

interpretation fan: budget_simulation "fan_call lossy" "fan_spec lossy" fan_rel "\<lambda>_. True" for lossy
proof
  fix n s a and op :: fan_op
  assume r: "fan_rel (Suc n) s a"
  obtain t m w M nid st out where sa: "s = (t, m, w)" "a = (M, nid, st, out)" by (metis prod_cases3 prod_cases4)
  note r = r [unfolded sa]
  show "fst (fan_call lossy op s) = fst (fan_spec lossy op a) \<and> fan_rel n (snd (fan_call lossy op s)) (snd (fan_spec lossy op a))"
  proof (cases op)
    case (FanGet sid)
    then show ?thesis using fan_find [OF r, of sid] fan_less [OF r] by (auto simp: sa split: option.splits)
  next
    case (FanBitrate sid b)
    then show ?thesis using fan_at_rel [OF r, of "\<lambda>e. e\<lparr>fse_bitrate_kbps := b\<rparr>" sid]
      by (auto simp: sa session_table_update_bitrate_def simp del: fan_at.simps split: prod.splits)
  next
    case (FanStats sid rtt loss)
    then show ?thesis using fan_at_rel [OF r, of "\<lambda>e. e\<lparr>fse_rtt_ms := rtt, fse_loss_rate := loss\<rparr>" sid]
      by (auto simp: sa session_table_update_stats_def simp del: fan_at.simps split: prod.splits)
  next
    case FanCount
    have "sessions_with M (\<lambda>_. True) = card (dom M)" by (simp add: sessions_with_def dom_def)
    then show ?thesis using fan_count [OF r, of "\<lambda>_. True"] FanCount fan_less [OF r] by (simp add: sa session_table_count_def)
  next
    case FanTotals
    then show ?thesis using fan_less [OF r] by (simp add: sa) (simp add: fan_rel_def)
  qed (use fan_add_rel [OF r] fan_remove_rel [OF r] fan_deliver_rel [OF r] in \<open>simp_all add: sa del: fan_call.simps fan_spec.simps\<close>)
qed



section \<open>Sockets that fail\<close>

text \<open>Whatever the sockets do, a delivery counts each active session once, as served or as dropped.\<close>

lemma deliver_counts:
  "dlv_delivered (fold (\<lambda>s u. if session_active s then deliver_to_session lossy data ty (fst s) u else u) xs ctx)
   + dlv_dropped (fold (\<lambda>s u. if session_active s then deliver_to_session lossy data ty (fst s) u else u) xs ctx)
   = dlv_delivered ctx + dlv_dropped ctx + count_if session_active xs"
proof (induction xs arbitrary: ctx)
  case (Cons x xs)
  have "dlv_delivered (deliver_to_session lossy data ty e ctx) + dlv_dropped (deliver_to_session lossy data ty e ctx)
      = dlv_delivered ctx + dlv_dropped ctx + 1" for e
    by (auto simp: deliver_to_session_def Let_def split: prod.splits)
  then show ?case using Cons.IH by simp
qed simp

lemma delivery_accounted:
  assumes "fanout_manager_deliver lossy t (Some m) (Some data) ty w = (n, Some m', w')" "data \<noteq> []"
  shows "n \<le> session_table_count (Some t)
    \<and> fos_frames_dropped (fom_stats m') = fos_frames_dropped (fom_stats m) + of_nat (session_table_count (Some t) - n)"
proof -
  define r where "r = fold (\<lambda>s u. if session_active s then deliver_to_session lossy data ty (fst s) u else u) (fst_slots t)
      \<lparr>dlv_delivered = 0, dlv_dropped = 0, dlv_world = w\<rparr>"
  have sum: "dlv_delivered r + dlv_dropped r = session_table_count (Some t)"
    using deliver_counts [of lossy data ty "fst_slots t" "\<lparr>dlv_delivered = 0, dlv_dropped = 0, dlv_world = w\<rparr>", folded r_def]
    by (simp add: session_table_count_def)
  have n: "dlv_delivered r = n" "fos_frames_dropped (fom_stats m') = fos_frames_dropped (fom_stats m) + of_nat (dlv_dropped r)"
    using assms by (auto simp: Let_def r_def [symmetric])
  have "dlv_dropped r = session_table_count (Some t) - n" using sum n(1) by simp
  then show ?thesis using sum n by simp
qed

text \<open>When the payload is refused after its header was taken, the header stays in the stream, and the next frame follows it as if it
  were the payload.\<close>

lemma refused_payload_desyncs:
  assumes "0 \<le> fd" "snd_script w = [Some 8, None]"
  shows "\<exists>w'. send_frame fd data ty w = (-1, w') \<and> fst (send_frame fd data' ty w') = 0
    \<and> snd_stream (snd (send_frame fd data' ty w')) fd
      = snd_stream w fd @ frame_header (length data) ty @ frame_header (length data') ty @ data'"
  using assms by (simp add: send_frame_def sock_send_def sock_put_def Let_def frame_header_def)

section \<open>Bounds on the bitrate\<close>

text \<open>The bitrate stays below the ceiling negotiated, if that is not below the minimum; it can fall below the minimum.\<close>

lemma abr_ceiling:
  assumes "\<And>b. pcf_decrease F b \<le> b" "pca_bitrate_kbps a \<le> pca_max_bitrate_kbps a" "pca_min_bitrate_kbps a \<le> pca_max_bitrate_kbps a"
    and "per_client_abr_update F a rtt_ms loss_rate bw_kbps = (d, a')"
  shows "pca_max_bitrate_kbps a' = pca_max_bitrate_kbps a \<and> pca_min_bitrate_kbps a' = pca_min_bitrate_kbps a
    \<and> abd_target_bitrate_kbps d = pca_bitrate_kbps a' \<and> pca_bitrate_kbps a' \<le> pca_max_bitrate_kbps a'
    \<and> (abd_force_keyframe d \<longleftrightarrow> pca_need_keyframe a \<or> pca_congested F rtt_ms loss_rate \<and> pca_bitrate_kbps a' < pca_bitrate_kbps a)"
proof -
  have "pca_lower F a \<le> pca_max_bitrate_kbps a" using order_trans [OF assms(1,2)] assms(3) by (simp add: pca_lower_def Let_def)
  moreover have "pca_raise a' bw_kbps \<le> pca_max_bitrate_kbps a" if "pca_max_bitrate_kbps a' = pca_max_bitrate_kbps a" for a' using that by (auto simp: pca_raise_def Let_def not_less)
  ultimately show ?thesis using assms(2-4) by (auto simp: per_client_abr_update_def Let_def split: if_splits)
qed

lemma abr_below_minimum:
  "per_client_abr_update F \<lparr>pca_bitrate_kbps = 200, pca_max_bitrate_kbps = 20000, pca_min_bitrate_kbps = 200, pca_need_keyframe = False, pca_stable_intervals = 1\<rparr> 20 l 100
    = (\<lparr>abd_target_bitrate_kbps = 90, abd_allow_upgrade = True, abd_force_keyframe = False\<rparr>,
       \<lparr>pca_bitrate_kbps = 90, pca_max_bitrate_kbps = 20000, pca_min_bitrate_kbps = 200, pca_need_keyframe = False, pca_stable_intervals = 2\<rparr>)"
  if "\<not> pcf_lossy F l"
  using that by (simp add: per_client_abr_update_def pca_congested_def pca_raise_def ABR_RTT_THRESHOLD_MS_def ABR_INCREASE_KBPS_def)

end
