(* ===== verification/Cparse.thy ===== *)
theory Cparse
  imports Cformat
begin

text \<open>
  Reading text as the repository's parsers do it: lines through \<^verbatim>\<open>fgets\<close>, numbers through \<^verbatim>\<open>atoi\<close>, and fields split at a
  character.  \<^verbatim>\<open>atoi\<close> is the one of the C library in use: the numeral as a \<^verbatim>\<open>long\<close> of 64 bits, cut to an \<^verbatim>\<open>int\<close>.
\<close>

definition is_space :: "char \<Rightarrow> bool" where
  "is_space c \<longleftrightarrow> c \<in> {CHR 0x20, CHR 0x09, CHR 0x0A, CHR 0x0B, CHR 0x0C, CHR 0x0D}"

definition strtol :: "string \<Rightarrow> int" where
  "strtol s = (let t = dropWhile is_space s in
     case t of c # r \<Rightarrow> if c = CHR 0x2D then max (- (2 ^ 63)) (- int (undec (takeWhile is_digit r)))
                        else if c = CHR 0x2B then min (2 ^ 63 - 1) (int (undec (takeWhile is_digit r)))
                        else min (2 ^ 63 - 1) (int (undec (takeWhile is_digit t)))
     | [] \<Rightarrow> 0)"

definition atoi :: "string \<Rightarrow> int" where
  "atoi s = sint (word_of_int (strtol s) :: 32 word)"

lemma digit_not_special: "is_digit c \<Longrightarrow> \<not> is_space c \<and> c \<noteq> CHR 0x2D \<and> c \<noteq> CHR 0x2B"
  by (auto simp: is_digit_def is_space_def)

lemma digit_plain: "is_digit c \<Longrightarrow> c \<notin> {CHR 0x00, CHR 0x0A, CHR 0x0D, CHR 0x09, CHR 0x20, CHR 0x3D, CHR 0x3A}"
  by (auto simp: is_digit_def)

lemma strtol_dec: "no_digit s \<Longrightarrow> n < 2 ^ 63 \<Longrightarrow> strtol (dec n @ s) = int n"
proof -
  assume a: "no_digit s" "n < 2 ^ 63"
  obtain c r where d: "dec n = c # r" by (cases "dec n") auto
  then have c: "is_digit c" using dec_digits [of c n] by simp
  have t: "undec (takeWhile is_digit (c # r @ s)) = n" using takeWhile_dec [OF a(1), of n] undec_dec [of n] d by (metis append_Cons)
  have "int n \<le> 2 ^ 63 - 1" using a(2) by simp
  then show ?thesis using digit_not_special [OF c] t by (simp add: strtol_def d)
qed

lemma sint32_of_int: "- (2 ^ 31) \<le> i \<Longrightarrow> i < 2 ^ 31 \<Longrightarrow> sint (word_of_int i :: 32 word) = i"
  by (simp add: signed_of_int signed_take_bit_int_eq_self)

lemma atoi_dec: "no_digit s \<Longrightarrow> n < 2 ^ 31 \<Longrightarrow> atoi (dec n @ s) = int n"
  unfolding atoi_def by (subst strtol_dec) (simp_all del: of_int_of_nat_eq add: sint32_of_int)

lemma atoi_dec_nil: "n < 2 ^ 31 \<Longrightarrow> atoi (dec n) = int n"
  using atoi_dec [of "[]" n] by (simp add: no_digit_def)

lemma strtol_neg: "no_digit s \<Longrightarrow> n \<le> 2 ^ 63 \<Longrightarrow> strtol (CHR 0x2D # dec n @ s) = - int n"
  by (simp add: strtol_def is_space_def takeWhile_dec)

lemma atoi_dec_int: "- (2 ^ 31) \<le> i \<Longrightarrow> i < 2 ^ 31 \<Longrightarrow> atoi (dec_int i) = i"
proof (cases "i < 0")
  case True
  assume b: "- (2 ^ 31) \<le> i" "i < 2 ^ 31"
  have "strtol (dec_int i) = i" using strtol_neg [of "[]" "nat (- i)"] True b by (simp add: dec_int_def no_digit_def)
  then show ?thesis using sint32_of_int [OF b] by (simp add: atoi_def)
next
  case False
  assume "i < 2 ^ 31"
  then show ?thesis using atoi_dec_nil [of "nat i"] False by (simp add: dec_int_def)
qed

section \<open>Lines\<close>

text \<open>\<^verbatim>\<open>fgets\<close> into an array of \<open>n\<close>: the characters up to the newline, at most \<open>n - 1\<close>; the string ends at the first NUL.\<close>

definition fgets_raw :: "nat \<Rightarrow> string \<Rightarrow> string" where
  "fgets_raw n s = (let l = takeWhile (\<lambda>c. c \<noteq> CHR 0x0A) s in
     if length l < n - 1 \<and> length l < length s then l @ [CHR 0x0A] else take (n - 1) l)"

definition cstr_of :: "string \<Rightarrow> string" where
  "cstr_of s = takeWhile (\<lambda>c. c \<noteq> CHR 0x00) s"

lemma length_fgets_raw: "2 \<le> n \<Longrightarrow> s \<noteq> [] \<Longrightarrow> 0 < length (fgets_raw n s)"
  by (cases s) (auto simp: fgets_raw_def Let_def)

function fgets_lines :: "nat \<Rightarrow> string \<Rightarrow> string list" where
  "fgets_lines n s = (if s = [] \<or> n < 2 then [] else cstr_of (fgets_raw n s) # fgets_lines n (drop (length (fgets_raw n s)) s))"
  by pat_completeness auto

termination
proof (relation "measure (\<lambda>(n, s). length s)")
  fix n :: nat and s :: string
  assume a: "\<not> (s = [] \<or> n < 2)"
  then have "0 < length (fgets_raw n s)" by (intro length_fgets_raw) auto
  then show "((n, drop (length (fgets_raw n s)) s), (n, s)) \<in> measure (\<lambda>(n, s). length s)" using a by (simp add: diff_less)
qed simp

declare fgets_lines.simps [simp del]

lemma fgets_lines_Nil [simp]: "fgets_lines n [] = []"
  by (simp add: fgets_lines.simps)

text \<open>A line that fits is read as a whole.\<close>

definition line_ok :: "nat \<Rightarrow> string \<Rightarrow> bool" where
  "line_ok n l \<longleftrightarrow> Suc (length l) < n \<and> CHR 0x0A \<notin> set l \<and> CHR 0x00 \<notin> set l"

lemma cstr_of_id: "CHR 0x00 \<notin> set s \<Longrightarrow> cstr_of s = s"
  unfolding cstr_of_def by (rule takeWhile_eq_all_conv [THEN iffD2]) auto

lemma fgets_lines_step:
  assumes "line_ok n l"
  shows "fgets_lines n (l @ nl @ s) = (l @ nl) # fgets_lines n s"
proof -
  have t: "takeWhile (\<lambda>c. c \<noteq> CHR 0x0A) (l @ CHR 0x0A # s) = l"
    using assms by (subst takeWhile_append2) (auto simp: line_ok_def)
  have r: "fgets_raw n (l @ CHR 0x0A # s) = l @ [CHR 0x0A]" using assms by (auto simp: fgets_raw_def Let_def t line_ok_def)
  have "cstr_of (l @ [CHR 0x0A]) = l @ [CHR 0x0A]" using assms by (intro cstr_of_id) (simp add: line_ok_def)
  then show ?thesis using assms by (subst fgets_lines.simps) (simp add: nl_def r line_ok_def)
qed

lemma fgets_lines_concat: "list_all (line_ok n) ls \<Longrightarrow> fgets_lines n (concat (map (\<lambda>l. l @ nl) ls)) = map (\<lambda>l. l @ nl) ls"
  by (induction ls) (simp_all add: fgets_lines_step)

section \<open>Copies and splits\<close>

text \<open>\<^verbatim>\<open>strncpy\<close> of \<open>n\<close> characters into an array that is terminated behind them.\<close>

definition strncpy :: "nat \<Rightarrow> string \<Rightarrow> string" where
  "strncpy n s = take n s"

definition split_at :: "char \<Rightarrow> string \<Rightarrow> (string \<times> string) option" where
  "split_at c s = (if c \<in> set s then Some (takeWhile (\<lambda>x. x \<noteq> c) s, tl (dropWhile (\<lambda>x. x \<noteq> c) s)) else None)"

lemma split_at_append: "c \<notin> set a \<Longrightarrow> split_at c (a @ c # b) = Some (a, b)"
  by (simp add: split_at_def takeWhile_append dropWhile_append)

definition split_at_last :: "char \<Rightarrow> string \<Rightarrow> (string \<times> string) option" where
  "split_at_last c s = map_option (\<lambda>(a, b). (rev b, rev a)) (split_at c (rev s))"

lemma split_at_last_append: "c \<notin> set b \<Longrightarrow> split_at_last c (a @ c # b) = Some (a, b)"
  by (simp add: split_at_last_def split_at_append)

end
