(* ===== verification/Checkpoint.thy ===== *)
theory Checkpoint
  imports Session_Resume Filestore Cparse
begin

text \<open>
  Checkpoints of sessions, \<^verbatim>\<open>src/src/session/session_checkpoint.c\<close>: numbered files in a directory, each written to a
  temporary file and renamed.  What \<^verbatim>\<open>readdir\<close> answers is a parameter, the names of a directory in some order.
\<close>

section \<open>The code\<close>

definition in_dir :: "string \<Rightarrow> string \<Rightarrow> string" where "in_dir dir name = dir @ ''/'' @ name"

lemma in_dir_inj [simp]: "in_dir dir n = in_dir dir n' \<longleftrightarrow> n = n'" by (simp add: in_dir_def)

lemma length_in_dir [simp]: "length (in_dir dir n) = Suc (length dir + length n)" by (simp add: in_dir_def)

definition CHECKPOINT_DIR_MAX :: nat where "CHECKPOINT_DIR_MAX = 256"
definition CHECKPOINT_MAX_KEEP :: int where "CHECKPOINT_MAX_KEEP = 3"
definition SESSION_STATE_MAX_SIZE :: nat where "SESSION_STATE_MAX_SIZE = SESSION_STATE_MIN_SIZE + SESSION_MAX_PEER_ADDR"

record checkpoint_config =
  ckc_dir :: string
  ckc_max_keep :: int

record checkpoint_manager =
  ckm_dir :: string
  ckm_max_keep :: int
  ckm_seq :: u64

definition checkpoint_manager_create :: "bool \<Rightarrow> checkpoint_config option \<Rightarrow> checkpoint_manager option" where
  "checkpoint_manager_create mem config =
     (if mem then Some (case config of
          Some c \<Rightarrow> \<lparr>ckm_dir = strncpy (CHECKPOINT_DIR_MAX - 1) (ckc_dir c),
            ckm_max_keep = (if ckc_max_keep c > 0 then ckc_max_keep c else CHECKPOINT_MAX_KEEP), ckm_seq = 1\<rparr>
        | None \<Rightarrow> \<lparr>ckm_dir = ''/tmp'', ckm_max_keep = CHECKPOINT_MAX_KEEP, ckm_seq = 1\<rparr>) else None)"

definition ckpt_filename :: "nat \<Rightarrow> string \<Rightarrow> u64 \<Rightarrow> u64 \<Rightarrow> string" where
  "ckpt_filename outsz dir session_id seq =
     cstr_fit outsz (in_dir dir (''rootstream-ckpt-'' @ dec (unat session_id) @ ''-'' @ dec (unat seq) @ ''.bin''))"

definition tmp_name :: "u64 \<Rightarrow> string" where "tmp_name session_id = ''.ckpt_tmp_'' @ dec (unat session_id) @ ''.bin''"

definition ckpt_tmp :: "string \<Rightarrow> u64 \<Rightarrow> string" where
  "ckpt_tmp dir session_id = cstr_fit (CHECKPOINT_DIR_MAX + 64) (in_dir dir (tmp_name session_id))"

text \<open>The buffer is on the stack and holds \<open>junk\<close> before it is written.\<close>

fun checkpoint_save :: "u8 list \<Rightarrow> checkpoint_manager option \<Rightarrow> session_state option \<Rightarrow> filestore \<Rightarrow> int \<times> checkpoint_manager option \<times> filestore" where
  "checkpoint_save junk (Some m) (Some st) fs =
     (case session_state_serialise (Some st) (Some junk) of (n, buf) \<Rightarrow>
        if n < 0 then (-1, Some m, fs)
        else let tmp = ckpt_tmp (ckm_dir m) (ss_session_id st) in
          (case f_create tmp fs of
             None \<Rightarrow> (-1, Some m, fs)
           | Some fs \<Rightarrow> (case f_write tmp (take (nat n) (the buf)) fs of (ok, fs) \<Rightarrow>
               if \<not> ok then (-1, Some m, f_remove tmp fs)
               else let final_path = ckpt_filename (CHECKPOINT_DIR_MAX + 64) (ckm_dir m) (ss_session_id st) (ckm_seq m);
                        m = m\<lparr>ckm_seq := ckm_seq m + 1\<rparr> in
                 (case f_rename tmp final_path fs of (ok, fs) \<Rightarrow>
                    if \<not> ok then (-1, Some m, f_remove tmp fs) else (0, Some m, fs)))))"
| "checkpoint_save junk m st fs = (-1, m, fs)"

definition ckpt_prefix :: "u64 \<Rightarrow> string" where
  "ckpt_prefix session_id = ''rootstream-ckpt-'' @ dec (unat session_id) @ ''-''"

definition has_prefix :: "string \<Rightarrow> string \<Rightarrow> bool" where
  "has_prefix p name \<longleftrightarrow> strncmp_eq (length p) name p"

definition strtoull :: "string \<Rightarrow> u64" where
  "strtoull s = (let t = dropWhile is_space s;
        val = (\<lambda>r. let n = undec (takeWhile is_digit r) in if n < 2 ^ 64 then (of_nat n, True) else (-1, False)) in
     case t of c # r \<Rightarrow> if c = CHR 0x2D then (case val r of (v, ok) \<Rightarrow> if ok then - v else v)
                        else if c = CHR 0x2B then fst (val r) else fst (val t)
     | [] \<Rightarrow> 0)"

text \<open>One name of the directory, and the best one so far.\<close>

definition ckpt_better :: "string \<Rightarrow> string \<Rightarrow> string \<times> u64 \<Rightarrow> string \<times> u64" where
  "ckpt_better prefix name best =
     (if has_prefix prefix name
      then let seq = strtoull (drop (length prefix) name) in if snd best \<le> seq then (cstr_fit 256 name, seq) else best
      else best)"

type_synonym dir_reader = "string \<Rightarrow> filestore \<Rightarrow> string list option"

fun checkpoint_load :: "dir_reader \<Rightarrow> checkpoint_manager option \<Rightarrow> u64 \<Rightarrow> session_state option \<Rightarrow> filestore \<Rightarrow> int \<times> session_state option" where
  "checkpoint_load rd (Some m) session_id (Some x) fs =
     (case rd (ckm_dir m) fs of
        None \<Rightarrow> (-1, Some x)
      | Some names \<Rightarrow>
          let best_name = fst (fold (ckpt_better (ckpt_prefix session_id)) names ([], 0)) in
          if best_name = [] then (-1, Some x)
          else (case fs_files fs (cstr_fit (CHECKPOINT_DIR_MAX + 256) (in_dir (ckm_dir m) best_name)) of
             None \<Rightarrow> (-1, Some x)
           | Some bytes \<Rightarrow> let buf = take SESSION_STATE_MAX_SIZE bytes in
               if length buf < SESSION_STATE_MIN_SIZE then (-1, Some x) else session_state_deserialise (Some buf) (Some x)))"
| "checkpoint_load rd m session_id x fs = (-1, x)"

definition ckpt_remove :: "string \<Rightarrow> string \<Rightarrow> string \<Rightarrow> int \<times> filestore \<Rightarrow> int \<times> filestore" where
  "ckpt_remove dir prefix name r = (case r of (deleted, fs) \<Rightarrow>
     if has_prefix prefix name
     then let path = cstr_fit (CHECKPOINT_DIR_MAX + 256) (in_dir dir name) in
       if fs_files fs path \<noteq> None then (deleted + 1, f_remove path fs) else (deleted, fs)
     else (deleted, fs))"

fun checkpoint_delete :: "dir_reader \<Rightarrow> checkpoint_manager option \<Rightarrow> u64 \<Rightarrow> filestore \<Rightarrow> int \<times> filestore" where
  "checkpoint_delete rd (Some m) session_id fs =
     (case rd (ckm_dir m) fs of None \<Rightarrow> (0, fs) | Some names \<Rightarrow> fold (ckpt_remove (ckm_dir m) (ckpt_prefix session_id)) names (0, fs))"
| "checkpoint_delete rd None session_id fs = (0, fs)"

fun checkpoint_exists :: "dir_reader \<Rightarrow> checkpoint_manager option \<Rightarrow> u64 \<Rightarrow> filestore \<Rightarrow> bool" where
  "checkpoint_exists rd (Some m) session_id fs =
     (case rd (ckm_dir m) fs of None \<Rightarrow> False | Some names \<Rightarrow> list_ex (has_prefix (ckpt_prefix session_id)) names)"
| "checkpoint_exists rd None session_id fs = False"

section \<open>Names\<close>

definition ckpt_name :: "u64 \<Rightarrow> u64 \<Rightarrow> string" where
  "ckpt_name sid q = ckpt_prefix sid @ dec (unat q) @ ''.bin''"

lemma has_prefix_iff: "has_prefix p name \<longleftrightarrow> (\<exists>r. name = p @ r)"
  unfolding has_prefix_def strncmp_eq_def by (auto intro: exI [of _ "drop (length p) name"]) (metis append_take_drop_id)

lemma length_dec64: "length (dec (unat (x :: u64))) \<le> 20"
proof (rule length_dec_le)
  have "unat x < 2 ^ LENGTH(64)" by (rule unsigned_less)
  then show "unat x < 10 ^ 20" by simp
qed simp

lemma no_digit_simps [simp]: "no_digit []" "no_digit (c # s) \<longleftrightarrow> \<not> is_digit c"
  by (simp_all add: no_digit_def)

lemma strtoull_dec: "no_digit s \<Longrightarrow> strtoull (dec (unat q) @ s) = q"
proof -
  assume a: "no_digit s"
  obtain c r where d: "dec (unat q) = c # r" by (cases "dec (unat q)") auto
  then have c: "is_digit c" using dec_digits [of c "unat q"] by simp
  have t: "undec (takeWhile is_digit (c # r @ s)) = unat q" using takeWhile_dec [OF a, of "unat q"] undec_dec [of "unat q"] d by (metis append_Cons)
  have "unat q < 2 ^ LENGTH(64)" by (rule unsigned_less)
  then show ?thesis using digit_not_special [OF c] t by (simp add: strtoull_def d)
qed

lemma ckpt_prefix_inj: "ckpt_prefix sid @ r = ckpt_prefix sid' @ r' \<longleftrightarrow> sid = sid' \<and> r = r'"
proof
  assume "ckpt_prefix sid @ r = ckpt_prefix sid' @ r'"
  then have e: "dec (unat sid) @ ''-'' @ r = dec (unat sid') @ ''-'' @ r'" by (simp add: ckpt_prefix_def)
  have n: "no_digit (''-'' @ s)" for s by (simp add: is_digit_def)
  from arg_cong [OF e, of "takeWhile is_digit"] have "unat sid = unat sid'" unfolding takeWhile_dec [OF n] by simp
  with e show "sid = sid' \<and> r = r'" by (simp add: word_unat_eq_iff)
qed simp

lemma ckpt_name_simps:
  "has_prefix (ckpt_prefix sid) (ckpt_name sid' q) \<longleftrightarrow> sid = sid'"
  "strtoull (drop (length (ckpt_prefix sid)) (ckpt_name sid q)) = q"
  "ckpt_name sid q = ckpt_name sid' q' \<longleftrightarrow> sid = sid' \<and> q = q'"
  "ckpt_name sid q \<noteq> []" "length (ckpt_name sid q) < 256" "CHR 0x2F \<notin> set (ckpt_name sid q)"
proof -
  have d: "is_digit (CHR 0x2E) = False" by (simp add: is_digit_def)
  show "has_prefix (ckpt_prefix sid) (ckpt_name sid' q) \<longleftrightarrow> sid = sid'"
    unfolding has_prefix_iff ckpt_name_def by (metis ckpt_prefix_inj)
  show s: "strtoull (drop (length (ckpt_prefix sid)) (ckpt_name sid q)) = q" for q
    by (simp add: ckpt_name_def strtoull_dec d)
  show "ckpt_name sid q = ckpt_name sid' q' \<longleftrightarrow> sid = sid' \<and> q = q'"
    using s [of q] s [of q'] by (metis ckpt_name_def ckpt_prefix_inj)
  show "ckpt_name sid q \<noteq> []" "length (ckpt_name sid q) < 256"
    using length_dec64 [of sid] length_dec64 [of q] by (auto simp: ckpt_name_def ckpt_prefix_def)
  show "CHR 0x2F \<notin> set (ckpt_name sid q)"
    using dec_digits [of "CHR 0x2F"] by (auto simp: ckpt_name_def ckpt_prefix_def is_digit_def)
qed

lemma ckpt_paths:
  assumes "length dir < CHECKPOINT_DIR_MAX"
  shows "ckpt_filename (CHECKPOINT_DIR_MAX + 64) dir sid q = in_dir dir (ckpt_name sid q)"
    "ckpt_tmp dir sid = in_dir dir (tmp_name sid)"
  using assms length_dec64 [of sid] length_dec64 [of q]
  by (simp_all add: ckpt_filename_def ckpt_tmp_def CHECKPOINT_DIR_MAX_def ckpt_name_def ckpt_prefix_def tmp_name_def)

section \<open>What is on the disk\<close>

text \<open>The names that \<^verbatim>\<open>readdir\<close> gives are those of the files in the directory, and perhaps of other things without a prefix of a
  checkpoint.\<close>

definition reads_dir :: "dir_reader \<Rightarrow> bool" where
  "reads_dir rd \<longleftrightarrow> (\<forall>dir fs ns. rd dir fs = Some ns \<longrightarrow>
     (\<forall>n. n \<noteq> [] \<and> length n < 256 \<and> CHR 0x2F \<notin> set n \<and> fs_files fs (in_dir dir (n)) \<noteq> None \<longrightarrow> n \<in> set ns)
     \<and> (\<forall>n \<in> set ns. \<forall>sid. has_prefix (ckpt_prefix sid) n \<longrightarrow> fs_files fs (in_dir dir (n)) \<noteq> None))"

definition ckpt_bytes :: "session_state \<Rightarrow> u8 list \<Rightarrow> bool" where
  "ckpt_bytes st bs \<longleftrightarrow> ss_fits st \<and> (\<exists>j. length j = 2 \<and> bs = ss_bytes st @ j)"

text \<open>The checkpoints \<open>D\<close> of a directory, by session and number, and no other files that look like one.\<close>

definition ckpt_file :: "u8 list option \<Rightarrow> session_state option \<Rightarrow> bool" where
  "ckpt_file f st \<longleftrightarrow> (case st of None \<Rightarrow> f = None | Some st \<Rightarrow> \<exists>bs. f = Some bs \<and> ckpt_bytes st bs)"

definition ckpt_disk :: "string \<Rightarrow> filestore \<Rightarrow> (u64 \<times> u64 \<rightharpoonup> session_state) \<Rightarrow> bool" where
  "ckpt_disk dir fs D \<longleftrightarrow> (\<forall>sid q. ckpt_file (fs_files fs (in_dir dir (ckpt_name sid q))) (D (sid, q)))
     \<and> (\<forall>sid n. has_prefix (ckpt_prefix sid) n \<and> fs_files fs (in_dir dir n) \<noteq> None \<longrightarrow> (\<exists>q. n = ckpt_name sid q))"

lemma serialise_fits:
  assumes "ss_fits st" "length junk = SESSION_STATE_MAX_SIZE"
  shows "\<exists>buf. session_state_serialise (Some st) (Some junk) = (int (100 + length (ss_peer_addr st)), Some buf)
    \<and> ckpt_bytes st (take (100 + length (ss_peer_addr st)) buf)"
proof -
  have l: "length (ss_peer_addr st) \<le> 64" "length junk = 164" using assms
    by (simp_all add: ss_fits_def SESSION_STATE_MAX_SIZE_def SESSION_STATE_MIN_SIZE_def SESSION_MAX_PEER_ADDR_def)
  note b = length_ss_bytes [OF assms(1)]
  have "take (100 + length (ss_peer_addr st)) (overwrite (ss_bytes st) junk)
      = ss_bytes st @ take 2 (drop (length (ss_bytes st)) junk)"
    using l b by (simp add: overwrite_def)
  then have "ckpt_bytes st (take (100 + length (ss_peer_addr st)) (overwrite (ss_bytes st) junk))"
    using assms(1) l b by (auto simp: ckpt_bytes_def)
  then show ?thesis using l
    by (simp add: session_state_serialised_size_def Let_def SESSION_STATE_MIN_SIZE_def SESSION_MAX_PEER_ADDR_def min_def)
qed

lemma ckpt_bytes_read:
  assumes "ckpt_bytes st bs"
  shows "length (take SESSION_STATE_MAX_SIZE bs) \<ge> SESSION_STATE_MIN_SIZE"
    "session_state_deserialise (Some (take SESSION_STATE_MAX_SIZE bs)) (Some x) = (0, Some st)"
proof -
  obtain j where j: "ss_fits st" "length j = 2" "bs = ss_bytes st @ j" using assms by (auto simp: ckpt_bytes_def)
  have "length bs \<le> SESSION_STATE_MAX_SIZE" "100 \<le> length bs"
    using j length_ss_bytes [OF j(1)] by (simp_all add: ss_fits_def SESSION_STATE_MAX_SIZE_def SESSION_STATE_MIN_SIZE_def SESSION_MAX_PEER_ADDR_def)
  then show "length (take SESSION_STATE_MAX_SIZE bs) \<ge> SESSION_STATE_MIN_SIZE"
    "session_state_deserialise (Some (take SESSION_STATE_MAX_SIZE bs)) (Some x) = (0, Some st)"
    using j ss_decode_bytes [OF j(1)] by (simp_all add: SESSION_STATE_MIN_SIZE_def del: session_state_deserialise.simps)
qed

text \<open>Saving adds a checkpoint under the next number, or changes nothing that looks like one.\<close>

lemma not_ckpt_tmp: "\<not> has_prefix (ckpt_prefix sid) (tmp_name sid')"
  by (auto simp: has_prefix_iff ckpt_prefix_def tmp_name_def)

lemma ckpt_disk_cong:
  assumes "ckpt_disk dir fs D" "\<And>n sid. has_prefix (ckpt_prefix sid) n \<Longrightarrow> fs_files fs' (in_dir dir (n)) = fs_files fs (in_dir dir (n))"
  shows "ckpt_disk dir fs' D"
proof -
  have "fs_files fs' (in_dir dir (ckpt_name sid q)) = fs_files fs (in_dir dir (ckpt_name sid q))" for sid q
    by (rule assms(2) [of sid]) (simp add: ckpt_name_simps)
  then show ?thesis using assms(1) by (simp add: ckpt_disk_def assms(2) cong: conj_cong)
qed

lemma ckpt_disk_put:
  assumes "ckpt_disk dir fs D" "ckpt_bytes st bs"
    and "\<And>n sid'. has_prefix (ckpt_prefix sid') n \<Longrightarrow> fs_files fs' (in_dir dir (n)) = (if n = ckpt_name sid q then Some bs else fs_files fs (in_dir dir (n)))"
  shows "ckpt_disk dir fs' (D((sid, q) \<mapsto> st))"
proof -
  have "fs_files fs' (in_dir dir (ckpt_name sid' q')) = (if sid' = sid \<and> q' = q then Some bs else fs_files fs (in_dir dir (ckpt_name sid' q')))" for sid' q'
    using assms(3) [of sid' "ckpt_name sid' q'"] by (simp add: ckpt_name_simps)
  then have "ckpt_file (fs_files fs' (in_dir dir (ckpt_name sid' q'))) ((D((sid, q) \<mapsto> st)) (sid', q'))" for sid' q'
    using assms(1,2) by (simp add: ckpt_disk_def ckpt_file_def [of "Some bs"])
  moreover have "\<exists>q. n = ckpt_name sid' q" if "has_prefix (ckpt_prefix sid') n" "fs_files fs' (in_dir dir n) \<noteq> None" for n sid'
  proof (cases "n = ckpt_name sid q")
    case True
    then show ?thesis using that(1) by (auto simp: ckpt_name_simps)
  next
    case False
    then show ?thesis using that assms(1) assms(3) [OF that(1)] unfolding ckpt_disk_def by metis
  qed
  ultimately show ?thesis unfolding ckpt_disk_def by blast
qed

lemma save_disk:
  assumes d: "ckpt_disk (ckm_dir m) fs D" and l: "length (ckm_dir m) < CHECKPOINT_DIR_MAX"
    and st: "ss_fits st" "length junk = SESSION_STATE_MAX_SIZE"
    and s: "checkpoint_save junk (Some m) (Some st) fs = (r, m', fs')"
  shows "(r = 0 \<and> m' = Some (m\<lparr>ckm_seq := ckm_seq m + 1\<rparr>) \<and> ckpt_disk (ckm_dir m) fs' (D((ss_session_id st, ckm_seq m) \<mapsto> st)))
    \<or> (r = -1 \<and> (m' = Some m \<or> m' = Some (m\<lparr>ckm_seq := ckm_seq m + 1\<rparr>)) \<and> ckpt_disk (ckm_dir m) fs' D)"
proof -
  let ?tmp = "in_dir (ckm_dir m) (tmp_name (ss_session_id st))"
  let ?final = "in_dir (ckm_dir m) (ckpt_name (ss_session_id st) (ckm_seq m))"
  obtain buf where buf: "session_state_serialise (Some st) (Some junk) = (int (100 + length (ss_peer_addr st)), Some buf)"
    "ckpt_bytes st (take (100 + length (ss_peer_addr st)) buf)" using serialise_fits [OF st] by blast
  define n where "n = 100 + length (ss_peer_addr st)"
  note buf = buf [folded n_def]
  let ?bs = "take n buf"
  have ne: "nm \<noteq> tmp_name (ss_session_id st)" if "has_prefix (ckpt_prefix sid) nm" for nm sid
    using that not_ckpt_tmp by blast
  have keep: "ckpt_disk (ckm_dir m) fs2 D" if "fs_only ?tmp fs fs2" for fs2
    using that ne by (intro ckpt_disk_cong [OF d]) (simp add: fs_only_def)
  show ?thesis
  proof (cases "f_create ?tmp fs")
    case None
    then show ?thesis using s d l by (auto simp: buf ckpt_paths simp del: session_state_serialise.simps)
  next
    case (Some fs1)
    note o1 = f_create_only [OF Some]
    obtain ok fs2 where w: "f_write ?tmp ?bs fs1 = (ok, fs2)" by fastforce
    have o2: "fs_only ?tmp fs fs2" using o1 f_write_only [OF w] fs_only_trans by blast
    show ?thesis
    proof (cases ok)
      case False
      then have "r = -1" "m' = Some m" "fs' = f_remove ?tmp fs2" using s l Some w by (auto simp: buf ckpt_paths Let_def simp del: session_state_serialise.simps)
      then show ?thesis using keep [OF f_remove_only [OF o2]] by simp
    next
      case True
      have c: "fs_files fs2 ?tmp = Some ?bs" using f_write_ok [of ?tmp ?bs fs1 fs2 "[]"] w True o1 by simp
      show ?thesis
      proof (cases "fs_renames fs2")
        case True
        then have r: "r = 0" "m' = Some (m\<lparr>ckm_seq := ckm_seq m + 1\<rparr>)"
          "fs' = fs2\<lparr>fs_files := (fs_files fs2)(?tmp := None, ?final := Some ?bs)\<rparr>"
          using s l Some w \<open>ok\<close> c by (auto simp: buf ckpt_paths Let_def f_rename_def simp del: session_state_serialise.simps)
        have "ckpt_disk (ckm_dir m) fs' (D((ss_session_id st, ckm_seq m) \<mapsto> st))"
          using ne by (intro ckpt_disk_put [OF keep [OF o2] buf(2)]) (auto simp: r)
        then show ?thesis using r by simp
      next
        case False
        then have "r = -1" "m' = Some (m\<lparr>ckm_seq := ckm_seq m + 1\<rparr>)" "fs' = f_remove ?tmp fs2"
          using s l Some w \<open>ok\<close> by (auto simp: buf ckpt_paths Let_def f_rename_def simp del: session_state_serialise.simps)
        then show ?thesis using keep [OF f_remove_only [OF o2]] by simp
      qed
    qed
  qed
qed

section \<open>Loading and deleting\<close>

lemma best_fold:
  assumes "\<forall>n \<in> set ns. has_prefix (ckpt_prefix sid) n \<longrightarrow> (\<exists>q. n = ckpt_name sid q)"
    and "fold (ckpt_better (ckpt_prefix sid)) ns (b, bq) = (b', q')"
  shows "b' = b \<and> q' = bq \<and> (\<forall>q. ckpt_name sid q \<in> set ns \<longrightarrow> q < bq)
    \<or> b' = ckpt_name sid q' \<and> ckpt_name sid q' \<in> set ns \<and> bq \<le> q' \<and> (\<forall>q. ckpt_name sid q \<in> set ns \<longrightarrow> q \<le> q')"
  using assms
proof (induction ns arbitrary: b bq)
  case (Cons n ns)
  show ?case
  proof (cases "has_prefix (ckpt_prefix sid) n")
    case True
    then obtain q where n: "n = ckpt_name sid q" using Cons.prems(1) by auto
    then have better: "ckpt_better (ckpt_prefix sid) (ckpt_name sid q) (b, bq) = (if bq \<le> q then (ckpt_name sid q, q) else (b, bq))"
      using True ckpt_name_simps(2,5) by (simp add: ckpt_better_def)
    show ?thesis using Cons.IH [of "ckpt_name sid q" q] Cons.IH [of b bq] Cons.prems
      by (cases "bq \<le> q") (auto simp: better n ckpt_name_simps intro: order_trans less_imp_le)
  next
    case False
    then have "ckpt_name sid q \<noteq> n" for q by (auto simp: ckpt_name_simps)
    then show ?thesis using Cons.IH [of b bq] Cons.prems False by (auto simp: ckpt_better_def)
  qed
qed simp

definition newest_is :: "(u64 \<times> u64 \<rightharpoonup> session_state) \<Rightarrow> u64 \<Rightarrow> session_state option \<Rightarrow> bool" where
  "newest_is D sid x \<longleftrightarrow> (case x of None \<Rightarrow> (\<forall>q. D (sid, q) = None)
     | Some st \<Rightarrow> \<exists>q. D (sid, q) = Some st \<and> (\<forall>q'. D (sid, q') \<noteq> None \<longrightarrow> q' \<le> q))"

lemma disk_names:
  assumes "ckpt_disk dir fs D" "reads_dir rd" "rd dir fs = Some ns"
  shows "\<forall>n \<in> set ns. has_prefix (ckpt_prefix sid) n \<longrightarrow> (\<exists>q. n = ckpt_name sid q)"
    "ckpt_name sid q \<in> set ns \<longleftrightarrow> D (sid, q) \<noteq> None"
proof -
  note rd = assms(2) [unfolded reads_dir_def, rule_format, OF assms(3), folded in_dir_def]
  show names: "\<forall>n \<in> set ns. has_prefix (ckpt_prefix sid) n \<longrightarrow> (\<exists>q. n = ckpt_name sid q)"
    using rd assms(1) unfolding ckpt_disk_def by blast
  have f: "ckpt_file (fs_files fs (in_dir dir (ckpt_name sid q))) (D (sid, q))" using assms(1) by (simp add: ckpt_disk_def)
  have "fs_files fs (in_dir dir (ckpt_name sid q)) \<noteq> None" if "ckpt_name sid q \<in> set ns" using rd that ckpt_name_simps(1) by metis
  moreover have "ckpt_name sid q \<in> set ns" if "fs_files fs (in_dir dir (ckpt_name sid q)) \<noteq> None"
    using rd that ckpt_name_simps(4-6) by metis
  ultimately show "ckpt_name sid q \<in> set ns \<longleftrightarrow> D (sid, q) \<noteq> None" using f by (auto simp: ckpt_file_def split: option.splits)
qed

lemma load_newest:
  assumes d: "ckpt_disk (ckm_dir m) fs D" and l: "length (ckm_dir m) < CHECKPOINT_DIR_MAX"
    and rd: "reads_dir rd" "rd (ckm_dir m) fs = Some ns" and nw: "newest_is D sid st"
  shows "checkpoint_load rd (Some m) sid (Some x) fs = (case st of None \<Rightarrow> (-1, Some x) | Some st \<Rightarrow> (0, Some st))"
    "checkpoint_exists rd (Some m) sid fs \<longleftrightarrow> st \<noteq> None"
proof -
  note names = disk_names [OF d rd]
  obtain b q where f: "fold (ckpt_better (ckpt_prefix sid)) ns ([], 0) = (b, q)" by fastforce
  note best = best_fold [OF names(1) f, unfolded names(2)]
  show "checkpoint_load rd (Some m) sid (Some x) fs = (case st of None \<Rightarrow> (-1, Some x) | Some st \<Rightarrow> (0, Some st))"
  proof (cases st)
    case None
    then have "b = []" using best nw by (auto simp: newest_is_def)
    then show ?thesis using None rd(2) f by simp
  next
    case (Some s)
    then obtain q' where q': "D (sid, q') = Some s" "\<forall>q''. D (sid, q'') \<noteq> None \<longrightarrow> q'' \<le> q'" using nw by (auto simp: newest_is_def)
    then have b: "b = ckpt_name sid q'" using best by (fastforce dest: antisym)
    obtain bs where bs: "fs_files fs (in_dir (ckm_dir m) (ckpt_name sid q')) = Some bs" "ckpt_bytes s bs"
      using d q'(1) by (force simp: ckpt_disk_def ckpt_file_def split: option.splits)
    have "cstr_fit (CHECKPOINT_DIR_MAX + 256) (in_dir (ckm_dir m) b) = in_dir (ckm_dir m) b"
      using l ckpt_name_simps(5) [of sid q'] by (simp add: b CHECKPOINT_DIR_MAX_def)
    then show ?thesis using Some rd(2) f bs ckpt_bytes_read [OF bs(2)] ckpt_name_simps(4)
      by (simp add: b Let_def not_less min_less_iff_disj del: session_state_deserialise.simps)
  qed
  have "list_ex (has_prefix (ckpt_prefix sid)) ns \<longleftrightarrow> (\<exists>q. D (sid, q) \<noteq> None)"
    using names ckpt_name_simps(1) by (metis (no_types, lifting) list_ex_iff)
  then show "checkpoint_exists rd (Some m) sid fs \<longleftrightarrow> st \<noteq> None" using rd(2) nw by (auto simp: newest_is_def split: option.splits)
qed

lemma remove_fold:
  assumes "length dir < CHECKPOINT_DIR_MAX" "\<forall>n \<in> set ns. has_prefix p n \<longrightarrow> length n < 256"
  shows "fs_files (snd (fold (ckpt_remove dir p) ns (k, fs))) f
    = (if \<exists>n \<in> set ns. has_prefix p n \<and> f = in_dir dir n then None else fs_files fs f)"
  using assms(2)
proof (induction ns arbitrary: k fs)
  case (Cons n ns)
  have "cstr_fit (CHECKPOINT_DIR_MAX + 256) (in_dir dir n) = in_dir dir n" if "has_prefix p n"
    using assms(1) Cons.prems that by (simp add: CHECKPOINT_DIR_MAX_def)
  moreover obtain k' fs' where r1: "ckpt_remove dir p n (k, fs) = (k', fs')" by fastforce
  ultimately have r: "fs_files fs' g = (if has_prefix p n \<and> g = in_dir dir n then None else fs_files fs g)" for g
    by (auto simp: ckpt_remove_def Let_def f_remove_def split: if_splits)
  show ?case using Cons.IH [of k' fs'] Cons.prems by (auto simp: r r1)
qed simp

lemma delete_disk:
  assumes d: "ckpt_disk (ckm_dir m) fs D" and l: "length (ckm_dir m) < CHECKPOINT_DIR_MAX"
    and rd: "reads_dir rd" "rd (ckm_dir m) fs = Some ns"
    and del: "checkpoint_delete rd (Some m) sid fs = (k, fs')"
  shows "ckpt_disk (ckm_dir m) fs' (\<lambda>(s, q). if s = sid then None else D (s, q))"
proof -
  note names = disk_names [OF d rd]
  have sh: "\<forall>n \<in> set ns. has_prefix (ckpt_prefix sid) n \<longrightarrow> length n < 256" using names(1) [of sid] ckpt_name_simps(5) by metis
  have f: "fs_files fs' (in_dir (ckm_dir m) n) = (if n \<in> set ns \<and> has_prefix (ckpt_prefix sid) n then None else fs_files fs (in_dir (ckm_dir m) n))" for n
    using remove_fold [OF l sh, of 0 fs "in_dir (ckm_dir m) n"] del rd(2) by auto
  have n: "fs_files fs (in_dir (ckm_dir m) (ckpt_name s q)) = None \<longleftrightarrow> D (s, q) = None" for s q
  proof -
    have "ckpt_file (fs_files fs (in_dir (ckm_dir m) (ckpt_name s q))) (D (s, q))" using d by (simp add: ckpt_disk_def)
    then show ?thesis by (auto simp: ckpt_file_def split: option.splits)
  qed
  have "ckpt_file (fs_files fs' (in_dir (ckm_dir m) (ckpt_name s q))) (if s = sid then None else D (s, q))" for s q
  proof (cases "s = sid")
    case True
    then have "fs_files fs' (in_dir (ckm_dir m) (ckpt_name s q)) = None"
      using n [of s q] by (cases "D (s, q) = None") (simp_all add: f names(2) ckpt_name_simps)
    then show ?thesis using True by (simp add: ckpt_file_def)
  next
    case False
    then show ?thesis using d by (simp add: f ckpt_name_simps ckpt_disk_def)
  qed
  moreover have "\<exists>q. n = ckpt_name s q" if "has_prefix (ckpt_prefix s) n" "fs_files fs' (in_dir (ckm_dir m) n) \<noteq> None" for s n
    using that d f by (auto simp: ckpt_disk_def split: if_splits)
  ultimately show ?thesis unfolding ckpt_disk_def by simp
qed

section \<open>Any calls\<close>

datatype ckpt_op = CkSave "u8 list" session_state | CkDelete u64

fun ckpt_call :: "dir_reader \<Rightarrow> ckpt_op \<Rightarrow> checkpoint_manager \<times> filestore \<Rightarrow> int \<times> checkpoint_manager \<times> filestore" where
  "ckpt_call rd (CkSave junk st) (m, fs) = (case checkpoint_save junk (Some m) (Some st) fs of (r, m', fs') \<Rightarrow> (r, the m', fs'))"
| "ckpt_call rd (CkDelete sid) (m, fs) = (case checkpoint_delete rd (Some m) sid fs of (k, fs') \<Rightarrow> (k, m, fs'))"

fun ckpt_op_ok :: "ckpt_op \<Rightarrow> bool" where
  "ckpt_op_ok (CkSave junk st) \<longleftrightarrow> length junk = SESSION_STATE_MAX_SIZE \<and> ss_fits st"
| "ckpt_op_ok (CkDelete sid) \<longleftrightarrow> True"

text \<open>The last state that was saved without an error and not deleted since.\<close>

fun last_saved :: "u64 \<Rightarrow> ckpt_op \<times> int \<Rightarrow> session_state option \<Rightarrow> session_state option" where
  "last_saved sid (CkSave junk st, r) x = (if r = 0 \<and> ss_session_id st = sid then Some st else x)"
| "last_saved sid (CkDelete s, r) x = (if s = sid then None else x)"

definition ckpt_inv :: "dir_reader \<Rightarrow> string \<Rightarrow> nat \<Rightarrow> checkpoint_manager \<times> filestore \<Rightarrow> (u64 \<times> u64 \<rightharpoonup> session_state) \<Rightarrow> bool" where
  "ckpt_inv rd dir n s D \<longleftrightarrow> (case s of (m, fs) \<Rightarrow> ckm_dir m = dir \<and> length dir < CHECKPOINT_DIR_MAX \<and> reads_dir rd \<and> (\<forall>fs. rd dir fs \<noteq> None)
     \<and> ckpt_disk dir fs D \<and> (\<forall>s q. D (s, q) \<noteq> None \<longrightarrow> q < ckm_seq m) \<and> unat (ckm_seq m) + n < 2 ^ 64)"

lemma newest_put:
  assumes "newest_is D sid x" "\<forall>s q. D (s, q) \<noteq> None \<longrightarrow> q < k"
  shows "newest_is (D((s, k) \<mapsto> st)) sid (if s = sid then Some st else x)"
  using assms by (auto simp: newest_is_def dest: less_imp_le split: option.splits if_splits)

lemma ckpt_step:
  assumes i: "ckpt_inv rd dir (Suc n) s D" and nw: "newest_is D sid x" and ok: "ckpt_op_ok op" and c: "ckpt_call rd op s = (r, s')"
  shows "\<exists>D'. ckpt_inv rd dir n s' D' \<and> newest_is D' sid (last_saved sid (op, r) x)"
proof -
  obtain m fs where s: "s = (m, fs)" by (cases s)
  note i = i [unfolded ckpt_inv_def s, simplified]
  have seq: "ckm_seq m < ckm_seq m + 1" "unat (ckm_seq m + 1) = Suc (unat (ckm_seq m))"
    using i by (simp_all add: word_less_nat_alt unat_word_ariths)
  have lt0: "q < ckm_seq m" if "D (s, q) = Some y" for s q y using i that by blast
  have lt: "q < ckm_seq m + 1" if "D (s, q) = Some y" for s q y using lt0 [OF that] seq(1) by (rule less_trans)
  show ?thesis
  proof (cases op)
    case (CkSave junk st)
    obtain m' fs' where sv: "checkpoint_save junk (Some m) (Some st) fs = (r, m', fs')" and s': "s' = (the m', fs')"
      using c by (auto simp: s CkSave split: prod.splits)
    from save_disk [OF _ _ _ _ sv, of D] i ok CkSave consider
      (a) "r = 0" "m' = Some (m\<lparr>ckm_seq := ckm_seq m + 1\<rparr>)" "ckpt_disk dir fs' (D((ss_session_id st, ckm_seq m) \<mapsto> st))"
      | (b) "r = -1" "m' = Some m \<or> m' = Some (m\<lparr>ckm_seq := ckm_seq m + 1\<rparr>)" "ckpt_disk dir fs' D" by auto
    then show ?thesis
    proof cases
      case a
      have "newest_is (D((ss_session_id st, ckm_seq m) \<mapsto> st)) sid (last_saved sid (op, r) x)"
        using newest_put [OF nw, of "ckm_seq m" "ss_session_id st" st] i a(1) by (simp add: CkSave)
      moreover have "ckpt_inv rd dir n s' (D((ss_session_id st, ckm_seq m) \<mapsto> st))"
        using a i seq lt by (auto simp: ckpt_inv_def s')
      ultimately show ?thesis by blast
    next
      case b
      then have "ckpt_inv rd dir n s' D" using i seq by (auto simp: ckpt_inv_def s' intro: lt lt0)
      then show ?thesis using nw b(1) by (auto simp: CkSave)
    qed
  next
    case (CkDelete k)
    obtain ns where ns: "rd (ckm_dir m) fs = Some ns" using i by blast
    obtain fs' where del: "checkpoint_delete rd (Some m) k fs = (r, fs')" and s': "s' = (m, fs')"
      using c by (auto simp: s CkDelete simp del: checkpoint_delete.simps split: prod.splits)
    have "ckpt_disk dir fs' (\<lambda>(s, q). if s = k then None else D (s, q))"
      using delete_disk [OF _ _ _ ns del, of D] i by simp
    then have "ckpt_inv rd dir n s' (\<lambda>(s, q). if s = k then None else D (s, q))" using i by (auto simp: ckpt_inv_def s')
    moreover have "newest_is (\<lambda>(s, q). if s = k then None else D (s, q)) sid (last_saved sid (op, r) x)"
      using nw by (auto simp: newest_is_def CkDelete split: option.splits)
    ultimately show ?thesis by blast
  qed
qed

lemma ckpt_run:
  assumes "ckpt_inv rd dir (length ops + n) s D" "newest_is D sid x" "list_all ckpt_op_ok ops" "run_calls (ckpt_call rd) ops s = (rs, s')"
  shows "\<exists>D'. ckpt_inv rd dir n s' D' \<and> newest_is D' sid (fold (last_saved sid) (zip ops rs) x)"
  using assms
proof (induction ops arbitrary: s D x rs)
  case (Cons op ops)
  obtain r s1 rs1 where c: "ckpt_call rd op s = (r, s1)" "run_calls (ckpt_call rd) ops s1 = (rs1, s')" "rs = r # rs1"
    using Cons.prems(4) by (auto split: prod.splits)
  obtain D1 where "ckpt_inv rd dir (length ops + n) s1 D1" "newest_is D1 sid (last_saved sid (op, r) x)"
    using ckpt_step [OF _ Cons.prems(2) _ c(1), of dir "length ops + n"] Cons.prems by auto
  from Cons.IH [OF this _ c(2)] Cons.prems(3) show ?case by (simp add: c(3))
qed auto


definition ckpt_sample :: session_state where
  "ckpt_sample = ss_ex\<lparr>ss_bitrate_kbps := 4000\<rparr>"

text \<open>A disk with nothing on it, and a listing that tries every name.\<close>

definition sample_disk :: filestore where
  "sample_disk = \<lparr>fs_files = Map.empty, fs_openable = \<lambda>_. True, fs_room = 1000, fs_renames = True\<rparr>"

definition sample_listing :: dir_reader where
  "sample_listing dir fs = Some (filter (\<lambda>n. fs_files fs (in_dir dir n) \<noteq> None) (concat (map (\<lambda>k. List.n_lists k Enum.enum) [0..<256])))"

lemma sample_listing_reads: "reads_dir sample_listing"
  by (auto simp: reads_dir_def sample_listing_def in_dir_def set_n_lists enum_UNIV)

lemma save_succeeds:
  assumes "ss_fits st" "length junk = SESSION_STATE_MAX_SIZE" "\<And>f. fs_openable fs f" "fs_renames fs" "164 \<le> fs_room fs"
  shows "\<exists>m' fs'. ckpt_call rd (CkSave junk st) (m, fs) = (0, m', fs') \<and> (\<forall>f. fs_openable fs' f) \<and> fs_renames fs' \<and> fs_room fs - 164 \<le> fs_room fs'"
proof -
  obtain buf where buf: "session_state_serialise (Some st) (Some junk) = (int (100 + length (ss_peer_addr st)), Some buf)"
    using serialise_fits [OF assms(1,2)] by blast
  have n: "length (take k buf) \<le> 164" if "k \<le> 164" for k using that by simp
  have "100 + length (ss_peer_addr st) \<le> 164" using assms(1) by (simp add: ss_fits_def SESSION_MAX_PEER_ADDR_def)
  then show ?thesis using assms n
    by (auto simp: buf f_create_def f_write_def f_rename_def Let_def nat_add_distrib min_def simp del: session_state_serialise.simps)
qed


text \<open>A manager that is created again, as after a restart, counts from 1: what it saves stays behind an older checkpoint with a higher
  number.\<close>

lemma restart_loads_old_state:
  assumes "reads_dir rd" "\<forall>fs. rd dir fs \<noteq> None" "length dir < CHECKPOINT_DIR_MAX"
    and "ckpt_disk dir fs D" "D (ss_session_id st, q) = Some old" "1 < q" "\<forall>q'. D (ss_session_id st, q') \<noteq> None \<longrightarrow> q' \<le> q"
    and "checkpoint_manager_create True (Some \<lparr>ckc_dir = dir, ckc_max_keep = k\<rparr>) = Some m"
    and "ss_fits st" "length junk = SESSION_STATE_MAX_SIZE" "checkpoint_save junk (Some m) (Some st) fs = (r, Some m', fs')"
  shows "checkpoint_load rd (Some m') (ss_session_id st) (Some x) fs' = (0, Some old)"
proof -
  have m: "ckm_dir m = dir" "ckm_seq m = 1" using assms(3,8) by (auto simp: checkpoint_manager_create_def strncpy_def CHECKPOINT_DIR_MAX_def)
  obtain D' where D': "ckpt_disk dir fs' D'" "D' = D \<or> D' = D((ss_session_id st, 1) \<mapsto> st)" "ckm_dir m' = dir"
    using save_disk [OF _ _ assms(9,10,11), of D] assms(3,4) m by auto
  have "newest_is D' (ss_session_id st) (Some old)" using D'(2) assms(5-7) by (auto simp: newest_is_def intro!: exI [of _ q] split: if_splits)
  moreover obtain ns where "rd (ckm_dir m') fs' = Some ns" using assms(2) D'(3) by blast
  ultimately show ?thesis using load_newest(1) [OF _ _ assms(1)] D' assms(3) by (simp del: checkpoint_load.simps)
qed

end
