(* ===== verification/Input.thy ===== *)
theory Input
  imports Slots Cformat
begin

unbundle bit_operations_syntax

text \<open>
  Input from the clients, injected on the host: the input manager (\<^verbatim>\<open>src/src/input/input_manager.c\<close>) with its three back ends, virtual
  devices through \<^verbatim>\<open>uinput\<close> (there and, without a manager, in \<^verbatim>\<open>src/src/input.c\<close>), the program \<^verbatim>\<open>xdotool\<close>
  (\<^verbatim>\<open>input_xdotool.c\<close>) and a log (\<^verbatim>\<open>input_logging.c\<close>).  The operating system logs the calls it gets and fails them as it
  likes; the time stamps inside the events are left out, the clock is an argument.  Codes and event types are those of the
  kernel's header.
\<close>

section \<open>The operating system\<close>

definition EV_SYN :: u16 where "EV_SYN = 0"
definition EV_KEY :: u16 where "EV_KEY = 1"
definition EV_REL :: u16 where "EV_REL = 2"
definition EV_ABS :: u16 where "EV_ABS = 3"
definition BTN_MOUSE :: u16 where "BTN_MOUSE = 0x110"
definition BTN_JOYSTICK :: u16 where "BTN_JOYSTICK = 0x120"

datatype ui_request = UiSetEvbit u16 | UiSetKeybit nat | UiSetRelbit nat | UiSetAbsbit nat
  | UiDevSetup string nat nat | UiAbsSetup nat int int | UiDevCreate | UiDevDestroy

datatype os_call = OsOpen int | OsIoctl int ui_request | OsWrite int u16 u16 "32 word" | OsClose int | OsAccess string | OsSystem string

text \<open>\<open>ios_fails\<close> says, from the calls before it, whether a call fails, \<open>ios_fd\<close> which descriptor an open gets.\<close>

record input_os =
  ios_log :: "os_call list"
  ios_fails :: "os_call list \<Rightarrow> os_call \<Rightarrow> bool"
  ios_fd :: "os_call list \<Rightarrow> nat"

definition os_do :: "os_call \<Rightarrow> input_os \<Rightarrow> bool \<times> input_os" where
  "os_do c w = (\<not> ios_fails w (ios_log w) c, w\<lparr>ios_log := ios_log w @ [c]\<rparr>)"

definition os_does :: "os_call list \<Rightarrow> input_os \<Rightarrow> input_os" where
  "os_does cs w = fold (\<lambda>c w. snd (os_do c w)) cs w"

text \<open>An open that fails leaves no trace of a descriptor.\<close>

definition os_open :: "input_os \<Rightarrow> int \<times> input_os" where
  "os_open w = (let fd = int (ios_fd w (ios_log w)) in
     if ios_fails w (ios_log w) (OsOpen fd) then (-1, w) else (fd, w\<lparr>ios_log := ios_log w @ [OsOpen fd]\<rparr>))"

definition emit_event :: "int \<Rightarrow> u16 \<Rightarrow> u16 \<Rightarrow> 32 word \<Rightarrow> input_os \<Rightarrow> int \<times> input_os" where
  "emit_event fd type code val w =
     (case os_do (OsWrite fd type code val) w of (ok, w) \<Rightarrow>
        if \<not> ok then (-1, w)
        else (case os_do (OsWrite fd EV_SYN 0 0) w of (ok, w) \<Rightarrow> if \<not> ok then (-1, w) else (0, w)))"

section \<open>Virtual devices\<close>

text \<open>All devices are set up in the same way: open, announce, set up, more settings, create; a failure of the two that are
  tested closes the descriptor.\<close>

definition create_device :: "ui_request list \<Rightarrow> ui_request \<Rightarrow> ui_request list \<Rightarrow> input_os \<Rightarrow> int \<times> input_os" where
  "create_device bits setup later w =
     (case os_open w of (fd, w) \<Rightarrow>
        if fd < 0 then (-1, w)
        else let w = os_does (map (OsIoctl fd) bits) w in
          (case os_do (OsIoctl fd setup) w of (ok, w) \<Rightarrow>
             if \<not> ok then (-1, os_does [OsClose fd] w)
             else let w = os_does (map (OsIoctl fd) later) w in
               (case os_do (OsIoctl fd UiDevCreate) w of (ok, w) \<Rightarrow>
                  if \<not> ok then (-1, os_does [OsClose fd] w) else (fd, w))))"

definition KEY_MAX :: nat where "KEY_MAX = 0x2ff"

definition kbd_bits :: "ui_request list" where
  "kbd_bits = [UiSetEvbit EV_KEY, UiSetEvbit EV_SYN] @ map UiSetKeybit [0..<KEY_MAX]"

definition create_keyboard :: "input_os \<Rightarrow> int \<times> input_os" where
  "create_keyboard = create_device kbd_bits (UiDevSetup ''RootStream Input Manager Keyboard'' 0x1234 0x5678) []"

definition create_mouse :: "input_os \<Rightarrow> int \<times> input_os" where
  "create_mouse = create_device ([UiSetEvbit EV_KEY, UiSetEvbit EV_REL, UiSetEvbit EV_SYN]
       @ map UiSetKeybit [0x110, 0x111, 0x112, 0x113, 0x114] @ map UiSetRelbit [0, 1, 8, 6])
     (UiDevSetup ''RootStream Input Manager Mouse'' 0x1234 0x5679) []"

text \<open>The axes: left stick 0 and 1, right stick 3 and 4, triggers 2 and 5.\<close>

definition create_gamepad :: "input_os \<Rightarrow> int \<times> input_os" where
  "create_gamepad = create_device ([UiSetEvbit EV_KEY, UiSetEvbit EV_ABS, UiSetEvbit EV_SYN]
       @ map UiSetKeybit [0x130, 0x131, 0x134, 0x133, 0x136, 0x137, 0x13a, 0x13b, 0x13d, 0x13e] @ map UiSetAbsbit [0, 1, 3, 4, 2, 5])
     (UiDevSetup ''RootStream Input Manager Gamepad'' 0x045e 0x028e)
     (map (\<lambda>a. UiAbsSetup a (-32768) 32767) [0, 1, 3, 4] @ map (\<lambda>a. UiAbsSetup a 0 255) [2, 5])"

section \<open>The xdotool back end\<close>

fun xdotool_paths :: "string list \<Rightarrow> input_os \<Rightarrow> bool \<times> input_os" where
  "xdotool_paths [] w = (False, w)"
| "xdotool_paths (p # ps) w = (case os_do (OsAccess p) w of (ok, w) \<Rightarrow> if ok then (True, w) else xdotool_paths ps w)"

definition input_xdotool_available :: "input_os \<Rightarrow> bool \<times> input_os" where
  "input_xdotool_available = xdotool_paths [''/usr/bin/xdotool'', ''/usr/local/bin/xdotool'', ''/bin/xdotool'']"

definition key_names :: "(nat \<times> string) list" where
  "key_names = [(30, ''a''), (48, ''b''), (46, ''c''), (32, ''d''), (18, ''e''), (33, ''f''), (34, ''g''), (35, ''h''), (23, ''i''), (36, ''j''),
     (37, ''k''), (38, ''l''), (50, ''m''), (49, ''n''), (24, ''o''), (25, ''p''), (16, ''q''), (19, ''r''), (31, ''s''), (20, ''t''), (22, ''u''),
     (47, ''v''), (17, ''w''), (45, ''x''), (21, ''y''), (44, ''z''), (57, ''space''), (28, ''Return''), (1, ''Escape''), (15, ''Tab'')]"

definition input_inject_key_xdotool :: "u32 \<Rightarrow> bool \<Rightarrow> input_os \<Rightarrow> int \<times> input_os" where
  "input_inject_key_xdotool keycode press w =
     (if keycode = 0 then (-1, w)
      else (case map_of key_names (unat keycode) of
          None \<Rightarrow> (-1, w)
        | Some name \<Rightarrow> (case os_do (OsSystem (cstr_fit 256 (''xdotool key'' @ (if press then ''down '' else ''up '') @ name @ '' 2>/dev/null''))) w of
            (ok, w) \<Rightarrow> (if ok then 0 else -1, w))))"

text \<open>Three buttons, each tested with the code of the button as a mask.\<close>

definition input_inject_mouse_xdotool :: "int \<Rightarrow> int \<Rightarrow> u32 \<Rightarrow> input_os \<Rightarrow> int \<times> input_os" where
  "input_inject_mouse_xdotool x y buttons w =
     (case os_do (OsSystem (cstr_fit 256 (''xdotool mousemove '' @ dec_int x @ '' '' @ dec_int y @ '' 2>/dev/null''))) w of (ok, w) \<Rightarrow>
        if \<not> ok then (-1, w)
        else (0, os_does ((if buttons AND 0x110 \<noteq> 0 then [OsSystem ''xdotool click 1 2>/dev/null''] else [])
          @ (if buttons AND 0x112 \<noteq> 0 then [OsSystem ''xdotool click 2 2>/dev/null''] else [])
          @ (if buttons AND 0x111 \<noteq> 0 then [OsSystem ''xdotool click 3 2>/dev/null''] else [])) w))"

section \<open>The manager\<close>

definition INPUT_MAX_CLIENTS :: nat where "INPUT_MAX_CLIENTS = 4"

datatype input_backend_type = INPUT_BACKEND_UINPUT | INPUT_BACKEND_XDOTOOL | INPUT_BACKEND_LOGGING | INPUT_BACKEND_OTHER int

record input_event_pkt =
  iev_type :: u8
  iev_code :: u16
  iev_value :: "32 word"

record input_client_info =
  icl_client_id :: u32
  icl_client_name :: string
  icl_last_event_timestamp_us :: u64
  icl_event_count :: u32
  icl_last_sequence_number :: u16
  icl_active :: bool

definition input_client_zero :: input_client_info where
  "input_client_zero = \<lparr>icl_client_id = 0, icl_client_name = [], icl_last_event_timestamp_us = 0, icl_event_count = 0,
     icl_last_sequence_number = 0, icl_active = False\<rparr>"

record input_manager_ctx =
  imc_backend_type :: input_backend_type
  imc_device_fd_kbd :: int
  imc_device_fd_mouse :: int
  imc_device_fd_gamepad :: int
  imc_clients :: "input_client_info list"
  imc_active_client_count :: int
  imc_total_inputs_processed :: u64
  imc_duplicate_inputs_detected :: u64
  imc_total_latency_us :: u64
  imc_latency_samples :: u32
  imc_initialized :: bool

text \<open>The fields of the context that the input functions use.\<close>

record input_ctx =
  inc_manager :: "input_manager_ctx option"
  inc_priv :: bool
  inc_backend_name :: "string option"

definition input_init_xdotool :: "bool \<Rightarrow> input_ctx \<Rightarrow> input_os \<Rightarrow> int \<times> input_ctx \<times> input_os" where
  "input_init_xdotool mem ctx w = (case input_xdotool_available w of (ok, w) \<Rightarrow>
     if \<not> ok \<or> \<not> mem then (-1, ctx, w) else (0, ctx\<lparr>inc_priv := True\<rparr>, w))"

definition input_cleanup_xdotool :: "input_ctx option \<Rightarrow> input_ctx option" where
  "input_cleanup_xdotool ctx = map_option (\<lambda>c. c\<lparr>inc_priv := False\<rparr>) ctx"

definition input_init_logging :: "input_ctx \<Rightarrow> int" where "input_init_logging ctx = 0"

definition input_inject_key_logging :: "u32 \<Rightarrow> bool \<Rightarrow> int" where "input_inject_key_logging keycode press = 0"

definition manager_blank :: "input_backend_type \<Rightarrow> input_manager_ctx" where
  "manager_blank backend = \<lparr>imc_backend_type = backend, imc_device_fd_kbd = -1, imc_device_fd_mouse = -1, imc_device_fd_gamepad = -1,
     imc_clients = replicate INPUT_MAX_CLIENTS input_client_zero, imc_active_client_count = 0, imc_total_inputs_processed = 0,
     imc_duplicate_inputs_detected = 0, imc_total_latency_us = 0, imc_latency_samples = 0, imc_initialized = False\<rparr>"

fun input_manager_init :: "bool \<Rightarrow> bool \<Rightarrow> input_ctx option \<Rightarrow> input_backend_type \<Rightarrow> input_os \<Rightarrow> int \<times> input_ctx option \<times> input_os" where
  "input_manager_init mem mem' (Some ctx) backend w =
     (if \<not> mem then (-1, Some (ctx\<lparr>inc_manager := None\<rparr>), w)
      else let m = manager_blank backend; gone = Some (ctx\<lparr>inc_manager := None\<rparr>) in
        (case backend of
           INPUT_BACKEND_UINPUT \<Rightarrow>
             (case create_keyboard w of (kbd, w) \<Rightarrow> case create_mouse w of (mouse, w) \<Rightarrow> case create_gamepad w of (pad, w) \<Rightarrow>
                if kbd \<ge> 0 \<or> mouse \<ge> 0 \<or> pad \<ge> 0
                then (0, Some (ctx\<lparr>inc_manager := Some (m\<lparr>imc_device_fd_kbd := kbd, imc_device_fd_mouse := mouse, imc_device_fd_gamepad := pad,
                       imc_initialized := True\<rparr>), inc_backend_name := Some ''uinput''\<rparr>), w)
                else (-1, gone, w))
         | INPUT_BACKEND_XDOTOOL \<Rightarrow>
             (case input_xdotool_available w of (ok, w) \<Rightarrow>
                if ok then (case input_init_xdotool mem' (ctx\<lparr>inc_manager := Some m\<rparr>) w of (r, ctx', w) \<Rightarrow>
                    if r = 0 then (0, Some (ctx'\<lparr>inc_manager := Some (m\<lparr>imc_initialized := True\<rparr>), inc_backend_name := Some ''xdotool''\<rparr>), w)
                    else (-1, Some (ctx'\<lparr>inc_manager := None\<rparr>), w))
                else (-1, gone, w))
         | INPUT_BACKEND_LOGGING \<Rightarrow>
             if input_init_logging ctx = 0
             then (0, Some (ctx\<lparr>inc_manager := Some (m\<lparr>imc_initialized := True\<rparr>), inc_backend_name := Some ''logging''\<rparr>), w)
             else (-1, gone, w)
         | INPUT_BACKEND_OTHER _ \<Rightarrow> (-1, gone, w)))"
| "input_manager_init mem mem' None backend w = (-1, None, w)"

definition find_client :: "input_manager_ctx \<Rightarrow> u32 \<Rightarrow> nat option" where
  "find_client m client_id = first_idx (\<lambda>c. icl_active c \<and> icl_client_id c = client_id) (imc_clients m)"

definition is_duplicate_event :: "input_manager_ctx \<Rightarrow> u32 \<Rightarrow> u16 \<Rightarrow> bool" where
  "is_duplicate_event m client_id seq = (case find_client m client_id of None \<Rightarrow> False
     | Some i \<Rightarrow> icl_last_sequence_number (imc_clients m ! i) = seq)"

definition update_client_tracking :: "input_manager_ctx \<Rightarrow> u32 \<Rightarrow> u16 \<Rightarrow> u64 \<Rightarrow> input_manager_ctx" where
  "update_client_tracking m client_id seq timestamp_us = (case find_client m client_id of None \<Rightarrow> m
     | Some i \<Rightarrow> let c = imc_clients m ! i in
         m\<lparr>imc_clients := (imc_clients m)[i := c\<lparr>icl_last_sequence_number := seq, icl_last_event_timestamp_us := timestamp_us,
           icl_event_count := icl_event_count c + 1\<rparr>]\<rparr>)"

definition emit_if :: "int \<Rightarrow> u16 \<Rightarrow> input_event_pkt \<Rightarrow> input_os \<Rightarrow> int \<times> input_os" where
  "emit_if fd type e w = (if fd \<ge> 0 then emit_event fd type (iev_code e) (iev_value e) w else (0, w))"

definition process_input_event :: "input_manager_ctx \<Rightarrow> input_event_pkt \<Rightarrow> input_os \<Rightarrow> int \<times> input_os" where
  "process_input_event m e w =
     (let type = ucast (iev_type e) :: u16 in
      if type = EV_KEY
      then (if iev_code e < BTN_MOUSE then emit_if (imc_device_fd_kbd m) EV_KEY e w
            else if iev_code e < BTN_JOYSTICK then emit_if (imc_device_fd_mouse m) EV_KEY e w
            else emit_if (imc_device_fd_gamepad m) EV_KEY e w)
      else if type = EV_REL then emit_if (imc_device_fd_mouse m) EV_REL e w
      else if type = EV_ABS then emit_if (imc_device_fd_gamepad m) EV_ABS e w
      else (0, w))"

definition backend_process :: "input_manager_ctx \<Rightarrow> input_event_pkt \<Rightarrow> input_os \<Rightarrow> int \<times> input_os" where
  "backend_process m e w =
     (let is_key = (ucast (iev_type e) = EV_KEY \<and> iev_code e < BTN_MOUSE) in
      case imc_backend_type m of
        INPUT_BACKEND_UINPUT \<Rightarrow> process_input_event m e w
      | INPUT_BACKEND_XDOTOOL \<Rightarrow> if is_key then input_inject_key_xdotool (ucast (iev_code e)) (iev_value e \<noteq> 0) w else (0, w)
      | INPUT_BACKEND_LOGGING \<Rightarrow> (if is_key then input_inject_key_logging (ucast (iev_code e)) (iev_value e \<noteq> 0) else 0, w)
      | INPUT_BACKEND_OTHER _ \<Rightarrow> (0, w))"

definition count_latency :: "u64 \<Rightarrow> u64 \<Rightarrow> input_manager_ctx \<Rightarrow> input_manager_ctx" where
  "count_latency receive_time timestamp_us m = (if timestamp_us > 0
     then m\<lparr>imc_total_latency_us := imc_total_latency_us m + (receive_time - timestamp_us), imc_latency_samples := imc_latency_samples m + 1\<rparr> else m)"

definition input_manager_submit_packet :: "u64 \<Rightarrow> input_ctx option \<Rightarrow> input_event_pkt option \<Rightarrow> u32 \<Rightarrow> u16 \<Rightarrow> u64 \<Rightarrow> input_os
    \<Rightarrow> int \<times> input_ctx option \<times> input_os" where
  "input_manager_submit_packet receive_time ctx event client_id seq timestamp_us w =
     (case (ctx, event) of
        (Some c, Some e) \<Rightarrow> (case inc_manager c of
            None \<Rightarrow> (-1, ctx, w)
          | Some m \<Rightarrow>
              if \<not> imc_initialized m then (-1, ctx, w)
              else if is_duplicate_event m client_id seq
              then (0, Some (c\<lparr>inc_manager := Some (m\<lparr>imc_duplicate_inputs_detected := imc_duplicate_inputs_detected m + 1\<rparr>)\<rparr>), w)
              else (case backend_process m e w of (r, w) \<Rightarrow>
                 if r = 0
                 then let m = update_client_tracking m client_id seq timestamp_us;
                          m = m\<lparr>imc_total_inputs_processed := imc_total_inputs_processed m + 1\<rparr> in
                   (r, Some (c\<lparr>inc_manager := Some (count_latency receive_time timestamp_us m)\<rparr>), w)
                 else (r, ctx, w)))
      | _ \<Rightarrow> (-1, ctx, w))"

text \<open>The characters \<^verbatim>\<open>%u\<close> prints for the identifier make the name of a client without one.\<close>

definition new_client :: "input_client_info \<Rightarrow> u32 \<Rightarrow> string option \<Rightarrow> input_client_info" where
  "new_client c client_id name = c\<lparr>icl_client_id := client_id,
     icl_client_name := (case name of Some s \<Rightarrow> take 63 s | None \<Rightarrow> cstr_fit 64 (''Client-'' @ dec (unat client_id))),
     icl_active := True, icl_event_count := 0, icl_last_sequence_number := 0xFFFF\<rparr>"

definition on_manager :: "input_ctx option \<Rightarrow> (input_manager_ctx \<Rightarrow> int \<times> input_manager_ctx) \<Rightarrow> int \<times> input_ctx option" where
  "on_manager ctx f = (case ctx of None \<Rightarrow> (-1, None) | Some c \<Rightarrow> (case inc_manager c of None \<Rightarrow> (-1, Some c)
     | Some m \<Rightarrow> (case f m of (r, m) \<Rightarrow> (r, Some (c\<lparr>inc_manager := Some m\<rparr>)))))"

definition input_manager_register_client :: "input_ctx option \<Rightarrow> u32 \<Rightarrow> string option \<Rightarrow> int \<times> input_ctx option" where
  "input_manager_register_client ctx client_id name = on_manager ctx (\<lambda>m.
     case first_idx (\<lambda>c. \<not> icl_active c) (imc_clients m) of
       None \<Rightarrow> (-1, m)
     | Some i \<Rightarrow> (0, m\<lparr>imc_clients := (imc_clients m)[i := new_client (imc_clients m ! i) client_id name],
         imc_active_client_count := imc_active_client_count m + 1\<rparr>))"

definition input_manager_unregister_client :: "input_ctx option \<Rightarrow> u32 \<Rightarrow> int \<times> input_ctx option" where
  "input_manager_unregister_client ctx client_id = on_manager ctx (\<lambda>m.
     case find_client m client_id of None \<Rightarrow> (-1, m)
     | Some i \<Rightarrow> (0, m\<lparr>imc_clients := (imc_clients m)[i := input_client_zero], imc_active_client_count := imc_active_client_count m - 1\<rparr>))"

definition manager_of :: "input_ctx option \<Rightarrow> input_manager_ctx option" where
  "manager_of ctx = Option.bind ctx inc_manager"

definition input_manager_get_latency_ms :: "input_ctx option \<Rightarrow> u32" where
  "input_manager_get_latency_ms ctx = (case manager_of ctx of None \<Rightarrow> 0
     | Some m \<Rightarrow> if imc_latency_samples m = 0 then 0 else ucast (imc_total_latency_us m div ucast (imc_latency_samples m) div 1000))"

definition input_manager_get_total_inputs :: "input_ctx option \<Rightarrow> u32" where
  "input_manager_get_total_inputs ctx = (case manager_of ctx of None \<Rightarrow> 0 | Some m \<Rightarrow> ucast (imc_total_inputs_processed m))"

definition input_manager_get_duplicates :: "input_ctx option \<Rightarrow> u32" where
  "input_manager_get_duplicates ctx = (case manager_of ctx of None \<Rightarrow> 0 | Some m \<Rightarrow> ucast (imc_duplicate_inputs_detected m))"

definition close_device :: "int \<Rightarrow> os_call list" where
  "close_device fd = (if fd \<ge> 0 then [OsIoctl fd UiDevDestroy, OsClose fd] else [])"

definition input_manager_cleanup :: "input_ctx option \<Rightarrow> input_os \<Rightarrow> input_ctx option \<times> input_os" where
  "input_manager_cleanup ctx w = (case ctx of None \<Rightarrow> (None, w) | Some c \<Rightarrow> (case inc_manager c of None \<Rightarrow> (Some c, w)
     | Some m \<Rightarrow> let w = os_does (close_device (imc_device_fd_kbd m) @ close_device (imc_device_fd_mouse m) @ close_device (imc_device_fd_gamepad m)) w;
           c = (if imc_backend_type m = INPUT_BACKEND_XDOTOOL then the (input_cleanup_xdotool (Some c)) else c) in
         (Some (c\<lparr>inc_manager := None\<rparr>), w)))"

section \<open>Injection without a manager\<close>

record uinput_ctx =
  uic_kbd_fd :: int
  uic_mouse_fd :: int

definition create_virtual_keyboard :: "input_os \<Rightarrow> int \<times> input_os" where
  "create_virtual_keyboard = create_device kbd_bits (UiDevSetup ''RootStream Virtual Keyboard'' 0x1234 0x5678) []"

definition create_virtual_mouse :: "input_os \<Rightarrow> int \<times> input_os" where
  "create_virtual_mouse = create_device ([UiSetEvbit EV_KEY, UiSetEvbit EV_REL, UiSetEvbit EV_SYN]
       @ map UiSetKeybit [0x110, 0x111, 0x112] @ map UiSetRelbit [0, 1, 8])
     (UiDevSetup ''RootStream Virtual Mouse'' 0x1234 0x5679) []"

fun rootstream_input_init :: "uinput_ctx option \<Rightarrow> input_os \<Rightarrow> int \<times> uinput_ctx option \<times> input_os" where
  "rootstream_input_init (Some c) w =
     (case create_virtual_keyboard w of (kbd, w) \<Rightarrow>
        if kbd < 0 then (-1, Some (c\<lparr>uic_kbd_fd := kbd\<rparr>), w)
        else (case create_virtual_mouse w of (mouse, w) \<Rightarrow>
          if mouse < 0 then (-1, Some (c\<lparr>uic_kbd_fd := kbd, uic_mouse_fd := mouse\<rparr>), os_does [OsClose kbd] w)
          else (0, Some (c\<lparr>uic_kbd_fd := kbd, uic_mouse_fd := mouse\<rparr>), w)))"
| "rootstream_input_init None w = (-1, None, w)"

fun rootstream_input_process :: "uinput_ctx option \<Rightarrow> input_event_pkt option \<Rightarrow> input_os \<Rightarrow> int \<times> input_os" where
  "rootstream_input_process (Some c) (Some e) w =
     (let type = ucast (iev_type e) :: u16 in
      if type = EV_KEY then emit_event (if iev_code e < BTN_MOUSE then uic_kbd_fd c else uic_mouse_fd c) EV_KEY (iev_code e) (iev_value e) w
      else if type = EV_REL then emit_event (uic_mouse_fd c) EV_REL (iev_code e) (iev_value e) w
      else (0, w))"
| "rootstream_input_process c e w = (-1, w)"

fun rootstream_input_cleanup :: "uinput_ctx option \<Rightarrow> input_os \<Rightarrow> uinput_ctx option \<times> input_os" where
  "rootstream_input_cleanup (Some c) w =
     (Some \<lparr>uic_kbd_fd = (if uic_kbd_fd c \<ge> 0 then -1 else uic_kbd_fd c), uic_mouse_fd = (if uic_mouse_fd c \<ge> 0 then -1 else uic_mouse_fd c)\<rparr>,
      os_does (close_device (uic_kbd_fd c) @ close_device (uic_mouse_fd c)) w)"
| "rootstream_input_cleanup None w = (None, w)"

section \<open>Any calls\<close>

datatype in_op = InRegister u32 "string option" | InUnregister u32 | InSubmit input_event_pkt u32 u16 u64 u64 | InTotal | InDuplicates

datatype in_ans = InInt int | InNum u32

fun in_call :: "in_op \<Rightarrow> input_ctx option \<times> input_os \<Rightarrow> in_ans \<times> input_ctx option \<times> input_os" where
  "in_call (InRegister k name) (c, w) = (case input_manager_register_client c k name of (r, c) \<Rightarrow> (InInt r, c, w))"
| "in_call (InUnregister k) (c, w) = (case input_manager_unregister_client c k of (r, c) \<Rightarrow> (InInt r, c, w))"
| "in_call (InSubmit e k seq ts now) (c, w) = (case input_manager_submit_packet now c (Some e) k seq ts w of (r, c, w) \<Rightarrow> (InInt r, c, w))"
| "in_call InTotal (c, w) = (InNum (input_manager_get_total_inputs c), c, w)"
| "in_call InDuplicates (c, w) = (InNum (input_manager_get_duplicates c), c, w)"

section \<open>Descriptors\<close>

definition held :: "int \<Rightarrow> input_os \<Rightarrow> int" where
  "held fd w = int (count_if ((=) (OsOpen fd)) (ios_log w)) - int (count_if ((=) (OsClose fd)) (ios_log w))"

fun fd_neutral :: "os_call \<Rightarrow> bool" where
  "fd_neutral (OsOpen _) = False" | "fd_neutral (OsClose _) = False" | "fd_neutral _ = True"

lemma count_if_append: "count_if P (xs @ ys) = count_if P xs + count_if P ys"
  by (simp add: count_if_def)

lemma os_does_log: "ios_log (os_does cs w) = ios_log w @ cs"
  unfolding os_does_def by (induction cs arbitrary: w) (simp_all add: os_do_def)

lemma held_neutral: "list_all fd_neutral cs \<Longrightarrow> ios_log w' = ios_log w @ cs \<Longrightarrow> held fd w' = held fd w"
proof -
  assume a: "list_all fd_neutral cs" "ios_log w' = ios_log w @ cs"
  have "count_if ((=) (OsOpen fd)) cs = 0" "count_if ((=) (OsClose fd)) cs = 0" using a(1) by (auto simp: count_if_zero list_all_iff)
  then show ?thesis by (simp add: held_def a(2) count_if_append)
qed

lemma held_close: "held fd (os_does [OsClose fd'] w) = held fd w - (if fd = fd' then 1 else 0)"
  by (simp add: held_def os_does_log count_if_append)

lemma os_does_held: "list_all fd_neutral cs \<Longrightarrow> held fd (os_does cs w) = held fd w"
  by (rule held_neutral) (simp_all add: os_does_log)

lemma os_do_held: "fd_neutral c \<Longrightarrow> held fd (snd (os_do c w)) = held fd w"
  by (rule held_neutral [of "[c]"]) (simp_all add: os_do_def)

lemma emit_event_held: "held fd (snd (emit_event fd' t c v w)) = held fd w"
  using os_do_held [of _ fd] by (auto simp: emit_event_def split: prod.split) (metis fd_neutral.simps snd_conv)+

text \<open>A device that is created holds its descriptor; one that is not holds none.\<close>

lemma create_device_held:
  assumes "create_device bits setup later w = (r, w')"
  shows "held fd w' = held fd w + (if 0 \<le> r \<and> r = fd then 1 else 0)"
proof -
  obtain d w1 where o: "os_open w = (d, w1)" by fastforce
  have h1: "held fd w1 = held fd w + (if 0 \<le> d \<and> d = fd then 1 else 0)"
    using o by (auto simp: os_open_def Let_def held_def count_if_append split: if_splits)
  show ?thesis
  proof (cases "d < 0")
    case True
    then show ?thesis using assms o h1 by (simp add: create_device_def)
  next
    case False
    let ?w2 = "os_does (map (OsIoctl d) bits) w1"
    have h2: "held fd ?w2 = held fd w1" by (rule os_does_held) (simp add: list_all_iff)
    obtain ok w3 where s3: "os_do (OsIoctl d setup) ?w2 = (ok, w3)" by fastforce
    have h3: "held fd w3 = held fd w1" using os_do_held [of "OsIoctl d setup" fd ?w2] s3 h2 by simp
    let ?w4 = "os_does (map (OsIoctl d) later) w3"
    have h4: "held fd ?w4 = held fd w1" using os_does_held [of "map (OsIoctl d) later" fd w3] h3 by (simp add: list_all_iff)
    obtain ok' w5 where s5: "os_do (OsIoctl d UiDevCreate) ?w4 = (ok', w5)" by fastforce
    have h5: "held fd w5 = held fd w1" using os_do_held [of "OsIoctl d UiDevCreate" fd ?w4] s5 h4 by simp
    show ?thesis using assms o h1 h3 h5 False s3 s5
      by (cases ok; cases ok') (auto simp: create_device_def Let_def held_close)
  qed
qed

lemma close_device_held: "held fd (os_does (close_device d) w) = held fd w - (if 0 \<le> d \<and> d = fd then 1 else 0)"
proof (cases "0 \<le> d")
  case True
  have "os_does [OsIoctl d UiDevDestroy, OsClose d] w = os_does [OsClose d] (os_does [OsIoctl d UiDevDestroy] w)" by (simp add: os_does_def)
  then show ?thesis using True os_does_held [of "[OsIoctl d UiDevDestroy]" fd w] by (simp add: close_device_def held_close)
qed (simp add: close_device_def os_does_def)

lemma os_does_append: "os_does (cs @ ds) w = os_does ds (os_does cs w)"
  by (simp add: os_does_def)

definition held_by :: "int \<Rightarrow> input_ctx option \<Rightarrow> int" where
  "held_by fd ctx = (case manager_of ctx of None \<Rightarrow> 0 | Some m \<Rightarrow>
     (\<Sum>d\<leftarrow>[imc_device_fd_kbd m, imc_device_fd_mouse m, imc_device_fd_gamepad m]. if 0 \<le> d \<and> d = fd then 1 else 0))"

lemma xdotool_paths_held: "held fd (snd (xdotool_paths ps w)) = held fd w"
proof (induction ps arbitrary: w)
  case (Cons p ps)
  then show ?case using os_do_held [of "OsAccess p" fd w] by (cases "os_do (OsAccess p) w") auto
qed simp

lemma init_held:
  assumes "input_manager_init mem mem' (Some ctx) backend w = (r, ctx', w')"
  shows "held fd w' = held fd w + held_by fd ctx'"
proof (cases "mem \<and> backend = INPUT_BACKEND_UINPUT")
  case True
  obtain k w1 where k: "create_keyboard w = (k, w1)" by fastforce
  obtain mo w2 where mo: "create_mouse w1 = (mo, w2)" by fastforce
  obtain g w3 where g: "create_gamepad w2 = (g, w3)" by fastforce
  show ?thesis using assms True create_device_held [OF k [unfolded create_keyboard_def], of fd]
      create_device_held [OF mo [unfolded create_mouse_def], of fd] create_device_held [OF g [unfolded create_gamepad_def], of fd]
    by (auto simp: k mo g held_by_def manager_of_def split: if_splits)
next
  case False
  have x: "held fd (snd (input_xdotool_available w)) = held fd w" for w
    unfolding input_xdotool_available_def by (rule xdotool_paths_held)
  obtain ok w1 where a: "input_xdotool_available w = (ok, w1)" by fastforce
  obtain ok' w2 where b: "input_xdotool_available w1 = (ok', w2)" by fastforce
  have "held fd w1 = held fd w" "held fd w2 = held fd w" using x [of w] x [of w1] a b by simp_all
  then show ?thesis using assms False a b
    by (cases backend; cases ok; cases mem; cases mem'; cases ok')
      (auto simp: held_by_def manager_of_def manager_blank_def input_init_xdotool_def input_init_logging_def Let_def)
qed

lemma backend_process_held: "backend_process m e w = (r, w') \<Longrightarrow> held fd w' = held fd w"
proof -
  assume a: "backend_process m e w = (r, w')"
  have emit: "held fd (snd (emit_if d t e w)) = held fd w" for d t by (simp add: emit_if_def emit_event_held)
  have key: "held fd (snd (input_inject_key_xdotool k p w)) = held fd w" for k p
    unfolding input_inject_key_xdotool_def
    by (cases "map_of key_names (unat k)") (simp_all add: os_do_held case_prod_beta)
  have "held fd (snd (backend_process m e w)) = held fd w"
    by (simp add: backend_process_def process_input_event_def Let_def emit key split: input_backend_type.split)
  then show ?thesis by (simp add: a)
qed

definition manager_fds :: "input_ctx option \<Rightarrow> (int \<times> int \<times> int) option" where
  "manager_fds c = map_option (\<lambda>m. (imc_device_fd_kbd m, imc_device_fd_mouse m, imc_device_fd_gamepad m)) (manager_of c)"

lemma held_by_fds: "manager_fds c = manager_fds c' \<Longrightarrow> held_by fd c = held_by fd c'"
  by (cases "manager_of c"; cases "manager_of c'") (simp_all add: manager_fds_def held_by_def)

lemma on_manager_fds:
  assumes "on_manager c f = (r, c')" "\<And>m x m'. f m = (x, m') \<Longrightarrow> imc_device_fd_kbd m' = imc_device_fd_kbd m
    \<and> imc_device_fd_mouse m' = imc_device_fd_mouse m \<and> imc_device_fd_gamepad m' = imc_device_fd_gamepad m"
  shows "manager_fds c' = manager_fds c"
  using assms by (auto simp: on_manager_def manager_fds_def manager_of_def split: option.splits prod.splits)

lemma register_fds: "input_manager_register_client c k name = (r, c') \<Longrightarrow> manager_fds c' = manager_fds c"
  unfolding input_manager_register_client_def by (erule on_manager_fds) (auto split: option.splits)

lemma unregister_fds: "input_manager_unregister_client c k = (r, c') \<Longrightarrow> manager_fds c' = manager_fds c"
  unfolding input_manager_unregister_client_def by (erule on_manager_fds) (auto split: option.splits)

lemma submit_fds:
  assumes "input_manager_submit_packet now c e k seq ts w = (r, c', w')"
  shows "manager_fds c' = manager_fds c \<and> held fd w' = held fd w"
proof (cases "\<exists>x ev m. c = Some x \<and> e = Some ev \<and> inc_manager x = Some m \<and> imc_initialized m")
  case True
  then obtain x ev m where x: "c = Some x" "e = Some ev" "inc_manager x = Some m" "imc_initialized m" by blast
  obtain q w1 where p: "backend_process m ev w = (q, w1)" by fastforce
  have "held fd w1 = held fd w" by (rule backend_process_held [OF p])
  moreover have "imc_device_fd_kbd (count_latency now ts (m'\<lparr>imc_total_inputs_processed := z\<rparr>)) = imc_device_fd_kbd m'
      \<and> imc_device_fd_mouse (count_latency now ts (m'\<lparr>imc_total_inputs_processed := z\<rparr>)) = imc_device_fd_mouse m'
      \<and> imc_device_fd_gamepad (count_latency now ts (m'\<lparr>imc_total_inputs_processed := z\<rparr>)) = imc_device_fd_gamepad m'" for m' z
    by (simp add: count_latency_def)
  moreover have "imc_device_fd_kbd (update_client_tracking m k seq ts) = imc_device_fd_kbd m
      \<and> imc_device_fd_mouse (update_client_tracking m k seq ts) = imc_device_fd_mouse m
      \<and> imc_device_fd_gamepad (update_client_tracking m k seq ts) = imc_device_fd_gamepad m"
    by (simp add: update_client_tracking_def Let_def split: option.split)
  ultimately show ?thesis using assms x
    by (auto simp: input_manager_submit_packet_def p Let_def manager_fds_def manager_of_def split: if_splits)
next
  case False
  then show ?thesis using assms by (auto simp: input_manager_submit_packet_def split: option.splits if_splits)
qed

lemma in_call_held:
  assumes "in_call op (c, w) = (x, c', w')"
  shows "held fd w' = held fd w \<and> held_by fd c' = held_by fd c"
proof (cases op)
  case (InRegister k name)
  then show ?thesis using assms held_by_fds [OF register_fds] by (auto split: prod.splits)
next
  case (InUnregister k)
  then show ?thesis using assms held_by_fds [OF unregister_fds] by (auto split: prod.splits)
next
  case (InSubmit e k seq ts now)
  then obtain r where "input_manager_submit_packet now c (Some e) k seq ts w = (r, c', w')" using assms by (auto split: prod.splits)
  from submit_fds [OF this, of fd] show ?thesis using held_by_fds by blast
qed (use assms in auto)

lemma run_held: "run_calls in_call ops (c, w) = (xs, c', w') \<Longrightarrow> held fd w' = held fd w \<and> held_by fd c' = held_by fd c"
proof (induction ops arbitrary: c w xs)
  case (Cons op ops)
  obtain x c1 w1 xs1 where "in_call op (c, w) = (x, c1, w1)" "run_calls in_call ops (c1, w1) = (xs1, c', w')"
    using Cons.prems by (auto split: prod.splits)
  then show ?case using in_call_held [of op c w x c1 w1 fd] Cons.IH by metis
qed simp

text \<open>Whatever fails in between, after the manager was set up or failed to be, served its clients and was cleaned up, every
  descriptor that was opened has been closed as often as it was opened.\<close>

theorem input_devices_released:
  assumes "input_manager_init mem mem' (Some ctx) backend w = (r, ctx1, w1)" "run_calls in_call ops (ctx1, w1) = (xs, ctx2, w2)"
    and "input_manager_cleanup ctx2 w2 = (ctx3, w3)"
  shows "held fd w3 = held fd w \<and> manager_of ctx3 = None"
proof -
  have "held fd w2 = held fd w + held_by fd ctx2"
    using init_held [OF assms(1), of fd] run_held [OF assms(2), of fd] by simp
  moreover have "held fd w3 = held fd w2 - held_by fd ctx2"
    using assms(3) by (auto simp: input_manager_cleanup_def held_by_def manager_of_def os_does_append close_device_held Let_def split: option.splits)
  moreover have "manager_of ctx3 = None"
    using assms(3) by (auto simp: input_manager_cleanup_def manager_of_def Let_def split: option.splits)
  ultimately show ?thesis by simp
qed

definition sample_os :: input_os where
  "sample_os = \<lparr>ios_log = [], ios_fails = \<lambda>cs c. c = OsIoctl 2 UiDevCreate, ios_fd = (\<lambda>cs. Suc (count_if (\<lambda>c. \<not> fd_neutral c) cs))\<rparr>"

definition blank_input_ctx :: input_ctx where
  "blank_input_ctx = \<lparr>inc_manager = None, inc_priv = False, inc_backend_name = None\<rparr>"

text \<open>The second device cannot be created; the other two serve the clients until they are closed.\<close>

lemma input_devices_released_witness:
  "\<exists>r ctx1 w1 xs ctx2 w2 ctx3 w3. input_manager_init True True (Some blank_input_ctx) INPUT_BACKEND_UINPUT sample_os = (r, ctx1, w1)
    \<and> run_calls in_call [InRegister 7 None, InSubmit \<lparr>iev_type = 1, iev_code = 30, iev_value = 1\<rparr> 7 1 0 0] (ctx1, w1) = (xs, ctx2, w2)
    \<and> input_manager_cleanup ctx2 w2 = (ctx3, w3) \<and> held 1 w3 = 0 \<and> held 2 w3 = 0"
proof -
  obtain r ctx1 w1 where i: "input_manager_init True True (Some blank_input_ctx) INPUT_BACKEND_UINPUT sample_os = (r, ctx1, w1)" by (metis prod_cases3)
  obtain xs ctx2 w2 where x: "run_calls in_call [InRegister 7 None, InSubmit \<lparr>iev_type = 1, iev_code = 30, iev_value = 1\<rparr> 7 1 0 0] (ctx1, w1) = (xs, ctx2, w2)"
    by (metis prod_cases3)
  obtain ctx3 w3 where c: "input_manager_cleanup ctx2 w2 = (ctx3, w3)" by fastforce
  have "held fd sample_os = 0" for fd by (simp add: held_def sample_os_def)
  then have "held fd w3 = 0" for fd using input_devices_released [OF i x c, of fd] by simp
  then show ?thesis using i x c by blast
qed

section \<open>Every event once\<close>

type_synonym input_fds = "int \<times> int \<times> int"

definition device_of :: "input_fds \<Rightarrow> input_event_pkt \<Rightarrow> int" where
  "device_of fds e = (case fds of (kbd, mouse, pad) \<Rightarrow>
     if iev_type e = 1 then (if iev_code e < 0x110 then kbd else if iev_code e < 0x120 then mouse else pad)
     else if iev_type e = 2 then mouse else if iev_type e = 3 then pad else -1)"

definition inject :: "input_fds \<Rightarrow> input_event_pkt \<Rightarrow> input_os \<Rightarrow> int \<times> input_os" where
  "inject fds e w = (if device_of fds e < 0 then (0, w) else emit_event (device_of fds e) (ucast (iev_type e)) (iev_code e) (iev_value e) w)"

type_synonym input_abs = "(u32 \<rightharpoonup> u16) \<times> u64 \<times> u64 \<times> input_os"

fun in_spec :: "input_fds \<Rightarrow> in_op \<Rightarrow> input_abs \<Rightarrow> in_ans \<times> input_abs" where
  "in_spec fds (InRegister k name) (M, n, d, w) =
     (if card (dom M) < INPUT_MAX_CLIENTS then (InInt 0, M(k \<mapsto> 0xFFFF), n, d, w) else (InInt (-1), M, n, d, w))"
| "in_spec fds (InUnregister k) (M, rest) = (if M k = None then (InInt (-1), M, rest) else (InInt 0, M(k := None), rest))"
| "in_spec fds (InSubmit e k seq ts now) (M, n, d, w) =
     (if M k = Some seq then (InInt 0, M, n, d + 1, w)
      else (case inject fds e w of (r, w) \<Rightarrow>
        if r = 0 then (InInt 0, (if M k = None then M else M(k \<mapsto> seq)), n + 1, d, w) else (InInt r, M, n, d, w)))"
| "in_spec fds InTotal (M, n, d, w) = (InNum (ucast n), M, n, d, w)"
| "in_spec fds InDuplicates (M, n, d, w) = (InNum (ucast d), M, n, d, w)"

text \<open>No client is registered again while it is registered.\<close>

fun registered_once :: "input_fds \<Rightarrow> in_op list \<Rightarrow> input_abs \<Rightarrow> bool" where
  "registered_once fds [] s = True"
| "registered_once fds (op # ops) s = ((case op of InRegister k name \<Rightarrow> fst s k = None | _ \<Rightarrow> True) \<and> registered_once fds ops (snd (in_spec fds op s)))"

lemma process_injects: "process_input_event m e w = inject (imc_device_fd_kbd m, imc_device_fd_mouse m, imc_device_fd_gamepad m) e w"
proof -
  have t: "(ucast (iev_type e) :: u16) = of_nat k \<longleftrightarrow> iev_type e = of_nat k" if "k < 256" for k
  proof -
    have "unat (iev_type e) < 2 ^ LENGTH(8)" by (rule unsigned_less)
    then have "unat (ucast (iev_type e) :: u16) = unat (iev_type e)" by (simp add: unsigned_ucast_eq take_bit_nat_eq_self)
    moreover have "unat (of_nat k :: u16) = k" "unat (of_nat k :: u8) = k" using that by (simp_all add: unat_of_nat)
    ultimately show ?thesis by (metis word_unat_eq_iff)
  qed
  show ?thesis using t [of 1] t [of 2] t [of 3]
    by (auto simp: process_input_event_def inject_def device_of_def emit_if_def EV_KEY_def EV_REL_def EV_ABS_def BTN_MOUSE_def BTN_JOYSTICK_def Let_def)
qed

definition in_rel :: "input_fds \<Rightarrow> in_op list \<Rightarrow> input_ctx option \<times> input_os \<Rightarrow> input_abs \<Rightarrow> bool" where
  "in_rel fds ops s a \<longleftrightarrow> registered_once fds ops a \<and> (case (s, a) of ((c, w), (M, n, d, w')) \<Rightarrow> w' = w \<and> (\<exists>x m. c = Some x \<and> inc_manager x = Some m
     \<and> imc_backend_type m = INPUT_BACKEND_UINPUT \<and> imc_initialized m \<and> (imc_device_fd_kbd m, imc_device_fd_mouse m, imc_device_fd_gamepad m) = fds
     \<and> slot_map_rel icl_active icl_client_id icl_last_sequence_number INPUT_MAX_CLIENTS (imc_clients m) (card (dom M)) M
     \<and> imc_total_inputs_processed m = n \<and> imc_duplicate_inputs_detected m = d))"

lemma tracked:
  assumes sl: "slot_map_rel icl_active icl_client_id icl_last_sequence_number INPUT_MAX_CLIENTS (imc_clients m) (card (dom M)) M"
  shows "is_duplicate_event m k seq \<longleftrightarrow> M k = Some seq"
    "slot_map_rel icl_active icl_client_id icl_last_sequence_number INPUT_MAX_CLIENTS (imc_clients (update_client_tracking m k seq ts))
       (card (dom (if M k = None then M else M(k \<mapsto> seq)))) (if M k = None then M else M(k \<mapsto> seq))"
proof -
  show "is_duplicate_event m k seq \<longleftrightarrow> M k = Some seq"
    using slot_map_lookup [OF sl, of k] by (auto simp: is_duplicate_event_def find_client_def split: option.splits)
  show "slot_map_rel icl_active icl_client_id icl_last_sequence_number INPUT_MAX_CLIENTS (imc_clients (update_client_tracking m k seq ts))
       (card (dom (if M k = None then M else M(k \<mapsto> seq)))) (if M k = None then M else M(k \<mapsto> seq))"
  proof (cases "find_client m k")
    case None
    then show ?thesis using sl slot_map_missing [OF sl, of k] by (simp add: update_client_tracking_def find_client_def)
  next
    case (Some i)
    note f = slot_map_found [OF sl Some [unfolded find_client_def]]
    let ?v = "(imc_clients m ! i)\<lparr>icl_last_sequence_number := seq, icl_last_event_timestamp_us := ts, icl_event_count := icl_event_count (imc_clients m ! i) + 1\<rparr>"
    have "dom (M(k \<mapsto> seq)) = dom M" using f by auto
    then show ?thesis using slot_map_replace [OF sl Some [unfolded find_client_def], of ?v] f Some
      by (simp add: update_client_tracking_def Let_def)
  qed
qed

interpretation inm: trace_simulation in_call "in_spec fds" "in_rel fds" for fds
proof
  fix op ops s a
  assume r: "in_rel fds (op # ops) s a"
  obtain c w M n d w' where sa: "s = (c, w)" "a = (M, n, d, w')" by (metis prod_cases4 surj_pair)
  from r obtain x m where x: "c = Some x" "inc_manager x = Some m" "imc_backend_type m = INPUT_BACKEND_UINPUT" "imc_initialized m" "w' = w"
      "(imc_device_fd_kbd m, imc_device_fd_mouse m, imc_device_fd_gamepad m) = fds"
      "imc_total_inputs_processed m = n" "imc_duplicate_inputs_detected m = d"
    and sl: "slot_map_rel icl_active icl_client_id icl_last_sequence_number INPUT_MAX_CLIENTS (imc_clients m) (card (dom M)) M"
    and once: "registered_once fds (op # ops) (M, n, d, w)" by (auto simp: in_rel_def sa)
  show "fst (in_call op s) = fst (in_spec fds op a) \<and> in_rel fds ops (snd (in_call op s)) (snd (in_spec fds op a))"
  proof (cases op)
    case (InRegister k name)
    show ?thesis
    proof (cases "card (dom M) < INPUT_MAX_CLIENTS")
      case True
      then obtain i where i: "first_idx (\<lambda>c. \<not> icl_active c) (imc_clients m) = Some i" using slot_map_room [OF sl] by blast
      let ?v = "new_client (imc_clients m ! i) k name"
      have "slot_map_rel icl_active icl_client_id icl_last_sequence_number INPUT_MAX_CLIENTS ((imc_clients m)[i := ?v]) (Suc (card (dom M))) (M(k \<mapsto> 0xFFFF))"
        using slot_map_fill [OF sl i, of ?v] once InRegister by (simp add: new_client_def)
      moreover have "card (dom (M(k \<mapsto> 0xFFFF))) = Suc (card (dom M))" using slot_map_card [OF calculation] .
      ultimately show ?thesis using x i True once InRegister
        by (simp add: sa in_rel_def input_manager_register_client_def on_manager_def)
    next
      case False
      then have "first_idx (\<lambda>c. \<not> icl_active c) (imc_clients m) = None"
        using slot_map_le [OF sl] sl count_if_full [of icl_active "imc_clients m"] by (simp add: first_idx_None slot_map_rel_def)
      then show ?thesis using False x sl once InRegister by (simp add: sa in_rel_def input_manager_register_client_def on_manager_def)
    qed
  next
    case (InUnregister k)
    show ?thesis
    proof (cases "find_client m k")
      case None
      then show ?thesis using x sl once InUnregister slot_map_missing [OF sl, of k]
        by (simp add: sa in_rel_def input_manager_unregister_client_def on_manager_def find_client_def)
    next
      case (Some i)
      then have "slot_map_rel icl_active icl_client_id icl_last_sequence_number INPUT_MAX_CLIENTS ((imc_clients m)[i := input_client_zero]) (card (dom M) - 1) (M(k := None))"
        unfolding find_client_def by (rule slot_map_clear [OF sl]) (simp add: input_client_zero_def)
      moreover have "card (dom (M(k := None))) = card (dom M) - 1" using slot_map_card [OF calculation] .
      moreover have "M k \<noteq> None" using slot_map_found [OF sl Some [unfolded find_client_def]] by simp
      ultimately show ?thesis using x once InUnregister Some
        by (simp add: sa in_rel_def input_manager_unregister_client_def on_manager_def)
    qed
  next
    case (InSubmit e k seq ts now)
    note t = tracked [OF sl, of k seq]
    obtain q w1 where q: "inject fds e w = (q, w1)" by fastforce
    then have p: "backend_process m e w = (q, w1)" using x by (simp add: backend_process_def process_injects)
    have "imc_device_fd_kbd (update_client_tracking m k seq ts) = imc_device_fd_kbd m
      \<and> imc_device_fd_mouse (update_client_tracking m k seq ts) = imc_device_fd_mouse m
      \<and> imc_device_fd_gamepad (update_client_tracking m k seq ts) = imc_device_fd_gamepad m
      \<and> imc_backend_type (update_client_tracking m k seq ts) = imc_backend_type m \<and> imc_initialized (update_client_tracking m k seq ts) = imc_initialized m
      \<and> imc_total_inputs_processed (update_client_tracking m k seq ts) = imc_total_inputs_processed m
      \<and> imc_duplicate_inputs_detected (update_client_tracking m k seq ts) = imc_duplicate_inputs_detected m"
      by (simp add: update_client_tracking_def Let_def split: option.split)
    then show ?thesis using x once sl t(2) [of ts] q p
      by (cases "M k = Some seq"; cases "q = 0")
        (auto simp: sa InSubmit in_rel_def input_manager_submit_packet_def t(1) Let_def count_latency_def)
  qed (use x sl once in \<open>auto simp: sa in_rel_def input_manager_get_total_inputs_def input_manager_get_duplicates_def manager_of_def\<close>)
qed



section \<open>Gaps\<close>

text \<open>A client starts with the sequence number 65535 as if it had been seen, so an event that really has it is dropped.\<close>

lemma input_first_65535_dropped:
  assumes "input_manager_register_client (Some c) k name = (0, Some c1)" "inc_manager c = Some m" "imc_initialized m" "find_client m k = None"
  shows "fst (input_manager_submit_packet now (Some c1) (Some e) k 0xFFFF ts w) = 0
    \<and> snd (snd (input_manager_submit_packet now (Some c1) (Some e) k 0xFFFF ts w)) = w"
proof -
  obtain i where i: "first_idx (\<lambda>c. \<not> icl_active c) (imc_clients m) = Some i"
    and c1: "c1 = c\<lparr>inc_manager := Some (m\<lparr>imc_clients := (imc_clients m)[i := new_client (imc_clients m ! i) k name], imc_active_client_count := imc_active_client_count m + 1\<rparr>)\<rparr>"
    using assms(1,2) by (auto simp: input_manager_register_client_def on_manager_def split: option.splits)
  let ?v = "new_client (imc_clients m ! i) k name"
  have v: "icl_active ?v" "icl_client_id ?v = k" "icl_last_sequence_number ?v = 0xFFFF" by (simp_all add: new_client_def)
  have l: "i < length (imc_clients m)" using first_idx_SomeD [OF i] by simp
  have no: "\<forall>x \<in> set (imc_clients m). \<not> (icl_active x \<and> icl_client_id x = k)" using assms(4) by (simp add: find_client_def first_idx_None)
  have "first_idx (\<lambda>c. icl_active c \<and> icl_client_id c = k) ((imc_clients m)[i := ?v]) = Some i"
    using no l v nth_mem by (auto simp: first_idx_Some nth_list_update)
  then have "is_duplicate_event (the (inc_manager c1)) k 0xFFFF" using l v by (simp add: c1 is_duplicate_event_def find_client_def)
  then show ?thesis using assms(3) by (simp add: c1 input_manager_submit_packet_def)
qed

text \<open>Only the last sequence number is remembered: a duplicate that comes after another event is injected again.\<close>

lemma input_late_duplicate_injected:
  "M k = Some 2 \<Longrightarrow> inject fds e w = (0, w') \<Longrightarrow> fst (in_spec fds (InSubmit e k 1 ts now) (M, n, d, w)) = InInt 0
    \<and> snd (snd (snd (snd (in_spec fds (InSubmit e k 1 ts now) (M, n, d, w))))) = w'"
  by simp

text \<open>The codes of the buttons are not masks: the mask 1 clicks the right button, 4 none, and 16 all three.\<close>

lemma xdotool_clicks:
  assumes "\<not> ios_fails w (ios_log w) (OsSystem (cstr_fit 256 (''xdotool mousemove '' @ dec_int x @ '' '' @ dec_int y @ '' 2>/dev/null'')))"
  shows "drop (Suc (length (ios_log w))) (ios_log (snd (input_inject_mouse_xdotool x y 1 w))) = [OsSystem ''xdotool click 3 2>/dev/null'']"
    "drop (Suc (length (ios_log w))) (ios_log (snd (input_inject_mouse_xdotool x y 4 w))) = []"
    "length (drop (Suc (length (ios_log w))) (ios_log (snd (input_inject_mouse_xdotool x y 16 w)))) = 3"
  using assms by (simp_all add: input_inject_mouse_xdotool_def os_do_def os_does_log)

text \<open>Without the manager, an initialisation that fails leaves the closed descriptor of the keyboard in the context, and cleaning up
  closes it a second time.\<close>

lemma failed_init_closes_twice:
  assumes "create_virtual_keyboard w = (kbd, w1)" "0 \<le> kbd" "create_virtual_mouse w1 = (-1, w2)" "rootstream_input_init (Some c) w = (r, c', w3)"
  shows "r = -1 \<and> held kbd (snd (rootstream_input_cleanup c' w3)) = held kbd w - 1"
proof -
  have c': "r = -1" "c' = Some (c\<lparr>uic_kbd_fd := kbd, uic_mouse_fd := -1\<rparr>)" "w3 = os_does [OsClose kbd] w2" using assms by auto
  have "held kbd w2 = held kbd w + 1"
    using create_device_held [OF assms(1) [unfolded create_virtual_keyboard_def], of kbd] create_device_held [OF assms(3) [unfolded create_virtual_mouse_def], of kbd] assms(2)
    by simp
  then show ?thesis using assms(2) by (simp add: c' os_does_append close_device_held held_close)
qed

end
