(* ===== verification/Web_Auth.thy ===== *)
theory Web_Auth
  imports Slots Sec_Auth
begin

text \<open>
  The web dashboard's users and tokens (\<^verbatim>\<open>src/src/web/auth_manager.c\<close>) and its limit on requests
  (\<^verbatim>\<open>rate_limiter.c\<close>).  An array of which a prefix is in use is the list of that prefix.  Passwords are hashed by the functions of
  Sec_Auth; random bytes, salts and the clock in seconds are arguments.  Each manager is guarded by a lock that its functions hold.
\<close>

section \<open>Users and tokens\<close>

definition MAX_USERS :: nat where "MAX_USERS = 100"
definition MAX_SESSIONS :: nat where "MAX_SESSIONS = 1000"
definition TOKEN_EXPIRY_SECONDS :: u64 where "TOKEN_EXPIRY_SECONDS = 86400"

datatype user_role = ROLE_ADMIN | ROLE_OPERATOR | ROLE_VIEWER

definition role_number :: "user_role \<Rightarrow> nat" where
  "role_number r = (case r of ROLE_ADMIN \<Rightarrow> 1 | ROLE_OPERATOR \<Rightarrow> 2 | ROLE_VIEWER \<Rightarrow> 3)"

record web_user =
  wus_username :: string
  wus_password_hash :: string
  wus_role :: user_role
  wus_is_active :: bool

record web_session =
  wse_token :: string
  wse_username :: string
  wse_role :: user_role
  wse_expires_at :: u64

record auth_manager =
  wam_users :: "web_user list"
  wam_sessions :: "web_session list"

definition is_letter :: "char \<Rightarrow> bool" where
  "is_letter c \<longleftrightarrow> (97 :: nat) \<le> of_char c \<and> of_char c \<le> (122 :: nat) \<or> (65 :: nat) \<le> of_char c \<and> of_char c \<le> (90 :: nat)"

definition validate_password_strength :: "string option \<Rightarrow> int" where
  "validate_password_strength password = (case password of None \<Rightarrow> -1 | Some p \<Rightarrow>
     if length p < 8 then -1 else if length p > 128 then -1
     else if \<not> list_ex is_letter p \<or> \<not> list_ex is_digit p then -1 else 0)"

text \<open>The digits are added two at a time while there is room for them.\<close>

fun add_hex :: "nat \<Rightarrow> string \<Rightarrow> u8 list \<Rightarrow> string" where
  "add_hex token_size t [] = t"
| "add_hex token_size t (b # bs) = (if length t < token_size - 2 then add_hex token_size (t @ hex_pair hex_lower b) bs else t)"

definition token_prefix :: "string \<Rightarrow> user_role \<Rightarrow> string" where
  "token_prefix username role = username @ ''_'' @ dec (role_number role) @ ''_''"

definition generate_token :: "u8 list \<Rightarrow> string \<Rightarrow> user_role \<Rightarrow> nat \<Rightarrow> int \<times> string" where
  "generate_token random_bytes username role token_size =
     (let p = token_prefix username role in
      if token_size \<le> length p then (-1, cstr_fit token_size p) else (0, add_hex token_size p random_bytes))"

definition find_user :: "auth_manager \<Rightarrow> string \<Rightarrow> nat option" where
  "find_user a username = first_idx (\<lambda>u. wus_username u = username) (wam_users a)"

fun auth_manager_add_user :: "sodium \<Rightarrow> bytes8 \<Rightarrow> auth_manager option \<Rightarrow> string option \<Rightarrow> string option \<Rightarrow> user_role \<Rightarrow> int \<times> auth_manager option" where
  "auth_manager_add_user S salt (Some a) (Some username) (Some password) role =
     (if length (wam_users a) \<ge> MAX_USERS then (-1, Some a)
      else if username = [] \<or> length username \<ge> 256 then (-1, Some a)
      else if validate_password_strength (Some password) \<noteq> 0 then (-1, Some a)
      else if find_user a username \<noteq> None then (-1, Some a)
      else (case user_auth_hash_password S salt (Some password) (Some []) of (r, hash) \<Rightarrow>
        if r \<noteq> 0 then (-1, Some a)
        else (0, Some (a\<lparr>wam_users := wam_users a @ [\<lparr>wus_username = cstr_fit 256 username, wus_password_hash = the hash,
          wus_role = role, wus_is_active = True\<rparr>]\<rparr>))))"
| "auth_manager_add_user S salt a username password role = (-1, a)"

text \<open>\<open>env\<close> is what \<^verbatim>\<open>getenv\<close> answers.\<close>

definition auth_manager_init :: "bool \<Rightarrow> sodium \<Rightarrow> bytes8 \<Rightarrow> (string \<Rightarrow> string option) \<Rightarrow> auth_manager option" where
  "auth_manager_init mem S salt env =
     (if \<not> mem \<or> crypto_prim_init S \<noteq> 0 \<or> fst (user_auth_init S) \<noteq> 0 then None
      else let a = \<lparr>wam_users = [], wam_sessions = []\<rparr> in
        (case (env ''ROOTSTREAM_ADMIN_USERNAME'', env ''ROOTSTREAM_ADMIN_PASSWORD'') of
           (Some u, Some p) \<Rightarrow> if u \<noteq> [] \<and> p \<noteq> [] then snd (auth_manager_add_user S salt (Some a) (Some u) (Some p) ROLE_ADMIN) else Some a
         | _ \<Rightarrow> Some a))"

fun auth_manager_remove_user :: "auth_manager option \<Rightarrow> string option \<Rightarrow> int \<times> auth_manager option" where
  "auth_manager_remove_user (Some a) (Some username) = (case find_user a username of
     None \<Rightarrow> (-1, Some a)
   | Some i \<Rightarrow> (0, Some (a\<lparr>wam_users := (wam_users a)[i := (wam_users a ! i)\<lparr>wus_is_active := False\<rparr>]\<rparr>)))"
| "auth_manager_remove_user a username = (-1, a)"

fun auth_manager_change_password :: "sodium \<Rightarrow> bytes8 \<Rightarrow> auth_manager option \<Rightarrow> string option \<Rightarrow> string option \<Rightarrow> int \<times> auth_manager option" where
  "auth_manager_change_password S salt (Some a) (Some username) (Some new_password) =
     (if validate_password_strength (Some new_password) \<noteq> 0 then (-1, Some a)
      else (case find_user a username of
          None \<Rightarrow> (-1, Some a)
        | Some i \<Rightarrow> (case user_auth_hash_password S salt (Some new_password) (Some (wus_password_hash (wam_users a ! i))) of (r, hash) \<Rightarrow>
            if r \<noteq> 0 then (-1, Some a)
            else (0, Some (a\<lparr>wam_users := (wam_users a)[i := (wam_users a ! i)\<lparr>wus_password_hash := the hash\<rparr>]\<rparr>)))))"
| "auth_manager_change_password S salt a username new_password = (-1, a)"

text \<open>\<open>token_out\<close> is the caller's buffer, the string in it; \<open>now\<close> is the time in seconds.\<close>

fun auth_manager_authenticate :: "sodium \<Rightarrow> u8 list \<Rightarrow> u64 \<Rightarrow> auth_manager option \<Rightarrow> string option \<Rightarrow> string option \<Rightarrow> string option \<Rightarrow> nat
    \<Rightarrow> int \<times> auth_manager option \<times> string option" where
  "auth_manager_authenticate S random_bytes now (Some a) (Some username) (Some password) (Some out) token_size =
     (case first_idx (\<lambda>u. wus_username u = username \<and> wus_is_active u) (wam_users a) of
        None \<Rightarrow> (-1, Some a, Some out)
      | Some i \<Rightarrow> let u = wam_users a ! i in
          if \<not> user_auth_verify_password S (Some password) (Some (wus_password_hash u)) then (-1, Some a, Some out)
          else (case generate_token random_bytes username (wus_role u) token_size of (r, token) \<Rightarrow>
            if r \<noteq> 0 then (-1, Some a, Some token)
            else (0, Some (if length (wam_sessions a) < MAX_SESSIONS
                then a\<lparr>wam_sessions := wam_sessions a @ [\<lparr>wse_token = cstr_fit 512 token, wse_username = cstr_fit 256 username,
                  wse_role = wus_role u, wse_expires_at = now + TOKEN_EXPIRY_SECONDS\<rparr>]\<rparr> else a), Some token)))"
| "auth_manager_authenticate S random_bytes now a username password out token_size = (-1, a, out)"

definition find_token :: "auth_manager \<Rightarrow> string \<Rightarrow> nat option" where
  "find_token a token = first_idx (\<lambda>s. wse_token s = token) (wam_sessions a)"

text \<open>The two results are wanted or not.\<close>

fun auth_manager_verify_token :: "u64 \<Rightarrow> auth_manager option \<Rightarrow> string option \<Rightarrow> string option \<Rightarrow> nat \<Rightarrow> user_role option
    \<Rightarrow> int \<times> string option \<times> user_role option" where
  "auth_manager_verify_token now (Some a) (Some token) username_out username_size role_out =
     (case find_token a token of
        None \<Rightarrow> (-1, username_out, role_out)
      | Some i \<Rightarrow> let s = wam_sessions a ! i in
          if wse_expires_at s < now then (-1, username_out, role_out)
          else (0, map_option (\<lambda>_. take (username_size - 1) (wse_username s)) username_out, map_option (\<lambda>_. wse_role s) role_out))"
| "auth_manager_verify_token now a token username_out username_size role_out = (-1, username_out, role_out)"

definition auth_manager_can_control_streaming :: "user_role \<Rightarrow> bool" where
  "auth_manager_can_control_streaming r \<longleftrightarrow> r = ROLE_ADMIN \<or> r = ROLE_OPERATOR"

definition auth_manager_can_modify_settings :: "user_role \<Rightarrow> bool" where
  "auth_manager_can_modify_settings r \<longleftrightarrow> r = ROLE_ADMIN \<or> r = ROLE_OPERATOR"

definition auth_manager_can_manage_users :: "user_role \<Rightarrow> bool" where
  "auth_manager_can_manage_users r \<longleftrightarrow> r = ROLE_ADMIN"

fun auth_manager_create_session :: "auth_manager option \<Rightarrow> string option \<Rightarrow> int" where
  "auth_manager_create_session (Some a) (Some username) = 0"
| "auth_manager_create_session a username = -1"

fun auth_manager_invalidate_session :: "auth_manager option \<Rightarrow> string option \<Rightarrow> int \<times> auth_manager option" where
  "auth_manager_invalidate_session (Some a) (Some token) = (case find_token a token of
     None \<Rightarrow> (-1, Some a)
   | Some i \<Rightarrow> (0, Some (a\<lparr>wam_sessions := take i (wam_sessions a) @ drop (Suc i) (wam_sessions a)\<rparr>)))"
| "auth_manager_invalidate_session a token = (-1, a)"

section \<open>Requests\<close>

definition MAX_CLIENTS :: nat where "MAX_CLIENTS = 1000"
definition WINDOW_SECONDS :: u64 where "WINDOW_SECONDS = 60"

record client_limit_entry =
  cle_client_ip :: string
  cle_request_count :: u32
  cle_window_start :: u64

record rate_limiter =
  rtl_requests_per_minute :: u32
  rtl_entries :: "client_limit_entry list"

definition rate_limiter_init :: "bool \<Rightarrow> u32 \<Rightarrow> rate_limiter option" where
  "rate_limiter_init mem requests_per_minute = (if mem then Some \<lparr>rtl_requests_per_minute = requests_per_minute, rtl_entries = []\<rparr> else None)"

definition find_limit :: "rate_limiter \<Rightarrow> string \<Rightarrow> nat option" where
  "find_limit l client_ip = first_idx (\<lambda>e. cle_client_ip e = client_ip) (rtl_entries l)"

fun rate_limiter_is_limited :: "u64 \<Rightarrow> rate_limiter option \<Rightarrow> string option \<Rightarrow> bool \<times> rate_limiter option" where
  "rate_limiter_is_limited now (Some l) (Some client_ip) =
     (case find_limit l client_ip of
        Some i \<Rightarrow> let e = rtl_entries l ! i in
          if now - cle_window_start e \<ge> WINDOW_SECONDS
          then (False, Some (l\<lparr>rtl_entries := (rtl_entries l)[i := e\<lparr>cle_request_count := 1, cle_window_start := now\<rparr>]\<rparr>))
          else let n = cle_request_count e + 1 in
            (n > rtl_requests_per_minute l, Some (l\<lparr>rtl_entries := (rtl_entries l)[i := e\<lparr>cle_request_count := n\<rparr>]\<rparr>))
      | None \<Rightarrow> (False, Some (if length (rtl_entries l) < MAX_CLIENTS
          then l\<lparr>rtl_entries := rtl_entries l @ [\<lparr>cle_client_ip = cstr_fit 64 client_ip, cle_request_count = 1, cle_window_start = now\<rparr>]\<rparr> else l)))"
| "rate_limiter_is_limited now l client_ip = (False, l)"

fun rate_limiter_reset :: "u64 \<Rightarrow> rate_limiter option \<Rightarrow> string option \<Rightarrow> int \<times> rate_limiter option" where
  "rate_limiter_reset now (Some l) (Some client_ip) = (case find_limit l client_ip of
     None \<Rightarrow> (-1, Some l)
   | Some i \<Rightarrow> (0, Some (l\<lparr>rtl_entries := (rtl_entries l)[i := (rtl_entries l ! i)\<lparr>cle_request_count := 0, cle_window_start := now\<rparr>]\<rparr>)))"
| "rate_limiter_reset now l client_ip = (-1, l)"

section \<open>Users and tokens as maps\<close>

datatype wa_op = WaAdd string string user_role bytes8 | WaRemove string | WaChange string string bytes8
  | WaLogin string string "u8 list" u64 nat | WaVerify string u64 | WaLogout string

datatype wa_ans = WaInt int | WaToken "string option" | WaUser "(string \<times> user_role) option"

fun wa_call :: "sodium \<Rightarrow> wa_op \<Rightarrow> auth_manager \<Rightarrow> wa_ans \<times> auth_manager" where
  "wa_call S (WaAdd u p role salt) a = (case auth_manager_add_user S salt (Some a) (Some u) (Some p) role of (r, a') \<Rightarrow> (WaInt r, the a'))"
| "wa_call S (WaRemove u) a = (case auth_manager_remove_user (Some a) (Some u) of (r, a') \<Rightarrow> (WaInt r, the a'))"
| "wa_call S (WaChange u p salt) a = (case auth_manager_change_password S salt (Some a) (Some u) (Some p) of (r, a') \<Rightarrow> (WaInt r, the a'))"
| "wa_call S (WaLogin u p rnd now token_size) a = (case auth_manager_authenticate S rnd now (Some a) (Some u) (Some p) (Some []) token_size of
     (r, a', out) \<Rightarrow> (WaToken (if r = 0 then out else None), the a'))"
| "wa_call S (WaVerify tok now) a = (case auth_manager_verify_token now (Some a) (Some tok) (Some []) 256 (Some ROLE_VIEWER) of
     (r, u, role) \<Rightarrow> (WaUser (if r = 0 then Some (the u, the role) else None), a))"
| "wa_call S (WaLogout tok) a = (case auth_manager_invalidate_session (Some a) (Some tok) of (r, a') \<Rightarrow> (WaInt r, the a'))"

type_synonym wa_abs = "(string \<rightharpoonup> string \<times> user_role \<times> bool) \<times> (string \<rightharpoonup> string \<times> user_role \<times> u64)"

definition strong_password :: "string \<Rightarrow> bool" where
  "strong_password p \<longleftrightarrow> 8 \<le> length p \<and> length p \<le> 128 \<and> (\<exists>c \<in> set p. is_letter c) \<and> (\<exists>c \<in> set p. is_digit c)"

fun wa_spec :: "sodium \<Rightarrow> wa_op \<Rightarrow> wa_abs \<Rightarrow> wa_ans \<times> wa_abs" where
  "wa_spec S (WaAdd u p role salt) (U, T) =
     (if card (dom U) < MAX_USERS \<and> 0 < length u \<and> length u < 256 \<and> strong_password p \<and> U u = None
      then (case sod_pwhash S p salt of None \<Rightarrow> (WaInt (-1), U, T) | Some h \<Rightarrow> (WaInt 0, U(u \<mapsto> (h, role, True)), T))
      else (WaInt (-1), U, T))"
| "wa_spec S (WaRemove u) (U, T) = (case U u of None \<Rightarrow> (WaInt (-1), U, T) | Some (h, role, _) \<Rightarrow> (WaInt 0, U(u \<mapsto> (h, role, False)), T))"
| "wa_spec S (WaChange u p salt) (U, T) =
     (case U u of None \<Rightarrow> (WaInt (-1), U, T)
      | Some (_, role, act) \<Rightarrow> if \<not> strong_password p then (WaInt (-1), U, T)
          else (case sod_pwhash S p salt of None \<Rightarrow> (WaInt (-1), U, T) | Some h \<Rightarrow> (WaInt 0, U(u \<mapsto> (h, role, act)), T)))"
| "wa_spec S (WaLogin u p rnd now token_size) (U, T) =
     (case U u of
        Some (h, role, True) \<Rightarrow>
          if sod_pwhash_verify S h p \<and> length (token_prefix u role) < token_size
          then let tok = add_hex token_size (token_prefix u role) rnd in
            (WaToken (Some tok), U, if card (dom T) < MAX_SESSIONS then T(tok \<mapsto> (u, role, now + TOKEN_EXPIRY_SECONDS)) else T)
          else (WaToken None, U, T)
      | _ \<Rightarrow> (WaToken None, U, T))"
| "wa_spec S (WaVerify tok now) (U, T) =
     (WaUser (case T tok of Some (u, role, expires) \<Rightarrow> if now \<le> expires then Some (u, role) else None | None \<Rightarrow> None), U, T)"
| "wa_spec S (WaLogout tok) (U, T) = (if T tok = None then (WaInt (-1), U, T) else (WaInt 0, U, T(tok := None)))"

text \<open>No token is drawn twice while the first is in the table, and callers have at most 512 bytes for one.\<close>

fun tokens_fresh :: "sodium \<Rightarrow> wa_op list \<Rightarrow> wa_abs \<Rightarrow> bool" where
  "tokens_fresh S [] s = True"
| "tokens_fresh S (op # ops) s = ((case op of WaLogin u p rnd now token_size \<Rightarrow> token_size \<le> 512 | _ \<Rightarrow> True)
     \<and> (case fst (wa_spec S op s) of WaToken (Some tok) \<Rightarrow> snd s tok = None | _ \<Rightarrow> True) \<and> tokens_fresh S ops (snd (wa_spec S op s)))"

definition wus_val :: "web_user \<Rightarrow> string \<times> user_role \<times> bool" where
  "wus_val u = (wus_password_hash u, wus_role u, wus_is_active u)"

definition wse_val :: "web_session \<Rightarrow> string \<times> user_role \<times> u64" where
  "wse_val s = (wse_username s, wse_role s, wse_expires_at s)"

definition wa_rel :: "sodium \<Rightarrow> wa_op list \<Rightarrow> auth_manager \<Rightarrow> wa_abs \<Rightarrow> bool" where
  "wa_rel S ops a s \<longleftrightarrow> tokens_fresh S ops s \<and> (case s of (U, T) \<Rightarrow>
     list_map_rel wus_username wus_val (wam_users a) U \<and> list_map_rel wse_token wse_val (wam_sessions a) T
     \<and> (\<forall>u \<in> dom U. length u < 256) \<and> (\<forall>tok u role expires. T tok = Some (u, role, expires) \<longrightarrow> length u < 256))"

lemma strong_password_code: "validate_password_strength (Some p) = (if strong_password p then 0 else -1)"
  by (auto simp: validate_password_strength_def strong_password_def list_ex_iff)

lemma length_add_hex: "length t < n \<Longrightarrow> length (add_hex n t bs) < n"
  by (induction n t bs rule: add_hex.induct) (simp_all add: hex_pair_def)

lemma wa_find:
  assumes "wa_rel S ops a (U, T)"
  shows "U u = map_option (\<lambda>i. wus_val (wam_users a ! i)) (find_user a u)"
    and "T tok = map_option (\<lambda>i. wse_val (wam_sessions a ! i)) (find_token a tok)"
  using assms list_map_lookup by (auto simp: wa_rel_def find_user_def find_token_def)

lemma wa_find_active:
  assumes "wa_rel S ops a (U, T)"
  shows "first_idx (\<lambda>x. wus_username x = u \<and> wus_is_active x) (wam_users a)
    = (case find_user a u of None \<Rightarrow> None | Some i \<Rightarrow> if wus_is_active (wam_users a ! i) then Some i else None)"
proof (cases "find_user a u")
  case None
  then have "first_idx (\<lambda>x. wus_username x = u \<and> wus_is_active x) (wam_users a) = None" by (auto simp: find_user_def first_idx_None)
  then show ?thesis using None by simp
next
  case (Some i)
  have d: "distinct (map wus_username (wam_users a))" using assms by (simp add: wa_rel_def list_map_rel_def)
  have i: "i < length (wam_users a)" "wus_username (wam_users a ! i) = u" using Some first_idx_SomeD unfolding find_user_def by blast+
  have only: "j = i" if "j < length (wam_users a)" "wus_username (wam_users a ! j) = u" for j
    using i that nth_eq_iff_index_eq [OF d, of i j] by simp
  show ?thesis
  proof (cases "wus_is_active (wam_users a ! i)")
    case True
    have "\<not> (wus_username (wam_users a ! j) = u \<and> wus_is_active (wam_users a ! j))" if "j < i" for j using only [of j] i(1) that by auto
    then have "first_idx (\<lambda>x. wus_username x = u \<and> wus_is_active x) (wam_users a) = Some i"
      using i True by (simp add: first_idx_Some)
    then show ?thesis using Some True by simp
  next
    case False
    then have "first_idx (\<lambda>x. wus_username x = u \<and> wus_is_active x) (wam_users a) = None"
      using only by (auto simp: first_idx_None in_set_conv_nth)
    then show ?thesis using Some False by simp
  qed
qed

lemma wa_update:
  assumes r: "wa_rel S ops a (U, T)" and i: "find_user a u = Some i" and x: "wus_username x = u" and f: "tokens_fresh S ops' (U(u \<mapsto> wus_val x), T)"
  shows "wa_rel S ops' (a\<lparr>wam_users := (wam_users a)[i := x]\<rparr>) (U(u \<mapsto> wus_val x), T)"
  using r f list_map_update [OF _ i [unfolded find_user_def] x, of wus_val] wa_find(1) [OF r, of u] i
  by (auto simp: wa_rel_def)

interpretation wa: trace_simulation "wa_call S" "wa_spec S" "wa_rel S" for S
proof
  fix op ops a s
  assume r0: "wa_rel S (op # ops) a s"
  obtain U T where s: "s = (U, T)" by (cases s)
  note r = r0 [unfolded s]
  have fresh: "tokens_fresh S (op # ops) (U, T)" using r by (simp add: wa_rel_def)
  have stay: "wa_rel S ops a (U, T)" if "snd (wa_spec S op (U, T)) = (U, T)" using r that by (simp add: wa_rel_def)
  have cards: "card (dom U) = length (wam_users a)" "card (dom T) = length (wam_sessions a)"
    using r list_map_card by (auto simp: wa_rel_def)
  note find = wa_find [OF r]
  show "fst (wa_call S op a) = fst (wa_spec S op s) \<and> wa_rel S ops (snd (wa_call S op a)) (snd (wa_spec S op s))"
  proof (cases op)
    case (WaAdd u p role salt)
    show ?thesis
    proof (cases "card (dom U) < MAX_USERS \<and> 0 < length u \<and> length u < 256 \<and> strong_password p \<and> U u = None \<and> sod_pwhash S p salt \<noteq> None")
      case True
      then obtain h where h: "sod_pwhash S p salt = Some h" by blast
      let ?x = "\<lparr>wus_username = u, wus_password_hash = h, wus_role = role, wus_is_active = True\<rparr>"
      have "list_map_rel wus_username wus_val (wam_users a @ [?x]) (U(u \<mapsto> (h, role, True)))"
        using list_map_append [of wus_username wus_val "wam_users a" U ?x] r True by (simp add: wa_rel_def wus_val_def)
      moreover have "find_user a u = None" using find(1) [of u] True by simp
      ultimately show ?thesis using True h r fresh cards WaAdd
        by (auto simp: s strong_password_code wa_rel_def)
    next
      case False
      then show ?thesis using stay find(1) [of u] cards
        by (auto simp: s WaAdd strong_password_code split: option.splits)
    qed
  next
    case (WaRemove u)
    show ?thesis
    proof (cases "find_user a u")
      case None
      then show ?thesis using stay find(1) [of u] by (simp add: s WaRemove)
    next
      case (Some i)
      let ?x = "(wam_users a ! i)\<lparr>wus_is_active := False\<rparr>"
      have "wus_username ?x = u" using Some first_idx_SomeD unfolding find_user_def by simp blast
      from wa_update [OF r Some this, of ops] show ?thesis using Some find(1) [of u] fresh
        by (simp add: s WaRemove wus_val_def)
    qed
  next
    case (WaChange u p salt)
    show ?thesis
    proof (cases "find_user a u")
      case None
      then show ?thesis using stay find(1) [of u] by (simp add: s WaChange strong_password_code)
    next
      case (Some i)
      show ?thesis
      proof (cases "strong_password p \<and> sod_pwhash S p salt \<noteq> None")
        case True
        then obtain h where h: "sod_pwhash S p salt = Some h" by blast
        let ?x = "(wam_users a ! i)\<lparr>wus_password_hash := h\<rparr>"
        have "wus_username ?x = u" using Some first_idx_SomeD unfolding find_user_def by simp blast
        from wa_update [OF r Some this, of ops] show ?thesis using Some find(1) [of u] fresh True h
          by (simp add: s WaChange wus_val_def strong_password_code)
      next
        case False
        then show ?thesis using stay find(1) [of u] Some by (auto simp: s WaChange strong_password_code wus_val_def)
      qed
    qed
  next
    case (WaLogin u p rnd now token_size)
    show ?thesis
    proof (cases "find_user a u")
      case None
      then show ?thesis using stay find(1) [of u] wa_find_active [OF r, of u] by (simp add: s WaLogin)
    next
      case (Some i)
      let ?v = "wam_users a ! i"
      let ?tok = "add_hex token_size (token_prefix u (wus_role ?v)) rnd"
      show ?thesis
      proof (cases "wus_is_active ?v \<and> sod_pwhash_verify S (wus_password_hash ?v) p \<and> length (token_prefix u (wus_role ?v)) < token_size")
        case True
        have U: "U u = Some (wus_password_hash ?v, wus_role ?v, True)" using find(1) [of u] Some True by (simp add: wus_val_def)
        have len: "length u < 256" "length ?tok < 512"
          using U r True fresh length_add_hex [of "token_prefix u (wus_role ?v)" token_size rnd] by (auto simp: wa_rel_def WaLogin)
        have T: "T ?tok = None" using fresh U True by (simp add: WaLogin Let_def)
        let ?x = "\<lparr>wse_token = ?tok, wse_username = u, wse_role = wus_role ?v, wse_expires_at = now + TOKEN_EXPIRY_SECONDS\<rparr>"
        have "list_map_rel wse_token wse_val (wam_sessions a @ [?x]) (T(?tok \<mapsto> (u, wus_role ?v, now + TOKEN_EXPIRY_SECONDS)))"
          using list_map_append [of wse_token wse_val "wam_sessions a" T ?x] r T by (simp add: wa_rel_def wse_val_def)
        then show ?thesis using True Some U len T r fresh cards wa_find_active [OF r, of u]
          by (auto simp: s WaLogin generate_token_def Let_def wa_rel_def)
      next
        case False
        then show ?thesis using stay find(1) [of u] Some wa_find_active [OF r, of u]
          by (auto simp: s WaLogin generate_token_def Let_def wus_val_def)
      qed
    qed
  next
    case (WaVerify tok now)
    show ?thesis
    proof (cases "find_token a tok")
      case None
      then show ?thesis using stay find(2) [of tok] by (simp add: s WaVerify)
    next
      case (Some i)
      then have T: "T tok = Some (wse_username (wam_sessions a ! i), wse_role (wam_sessions a ! i), wse_expires_at (wam_sessions a ! i))"
        using find(2) [of tok] by (simp add: wse_val_def)
      then have "length (wse_username (wam_sessions a ! i)) < 256" using r by (force simp: wa_rel_def)
      then show ?thesis using stay T Some by (auto simp: s WaVerify Let_def not_less)
    qed
  next
    case (WaLogout tok)
    show ?thesis
    proof (cases "find_token a tok")
      case None
      then show ?thesis using stay find(2) [of tok] by (simp add: s WaLogout)
    next
      case (Some i)
      have "list_map_rel wse_token wse_val (take i (wam_sessions a) @ drop (Suc i) (wam_sessions a)) (T(tok := None))"
        using Some r unfolding find_token_def by (intro list_map_delete) (auto simp: wa_rel_def)
      then show ?thesis using Some find(2) [of tok] r fresh by (auto simp: s WaLogout wa_rel_def)
    qed
  qed
qed



text \<open>Removing a user or changing his password leaves his tokens valid, and the name of a removed user stays taken.\<close>

lemma removal_keeps_tokens:
  "auth_manager_remove_user (Some a) (Some u) = (r, Some a') \<Longrightarrow>
   auth_manager_verify_token now (Some a') tok x n y = auth_manager_verify_token now (Some a) tok x n y"
  "auth_manager_change_password S salt (Some a) (Some u) (Some p) = (r, Some a') \<Longrightarrow>
   auth_manager_verify_token now (Some a') tok x n y = auth_manager_verify_token now (Some a) tok x n y"
proof -
  have same: "auth_manager_verify_token now (Some (a\<lparr>wam_users := us\<rparr>)) tok x n y = auth_manager_verify_token now (Some a) tok x n y" for us
    by (cases tok) (simp_all add: find_token_def Let_def split: option.split)
  show "auth_manager_remove_user (Some a) (Some u) = (r, Some a') \<Longrightarrow> auth_manager_verify_token now (Some a') tok x n y = auth_manager_verify_token now (Some a) tok x n y"
    using same by (auto split: option.splits)
  show "auth_manager_change_password S salt (Some a) (Some u) (Some p) = (r, Some a') \<Longrightarrow> auth_manager_verify_token now (Some a') tok x n y = auth_manager_verify_token now (Some a) tok x n y"
    using same by (auto simp del: user_auth_hash_password.simps split: option.splits if_splits prod.splits)
qed

lemma removed_name_taken:
  assumes "find_user a u = Some i" "auth_manager_remove_user (Some a) (Some u) = (0, Some a')"
  shows "fst (auth_manager_add_user S salt (Some a') (Some u) (Some p) role) = -1"
proof -
  have i: "i < length (wam_users a)" "wus_username (wam_users a ! i) = u" using assms(1) first_idx_SomeD unfolding find_user_def by blast+
  let ?x = "(wam_users a ! i)\<lparr>wus_is_active := False\<rparr>"
  have a': "wam_users a' = (wam_users a)[i := ?x]" using assms by auto
  have "?x \<in> set (wam_users a')" unfolding a' using i(1) by (rule set_update_memI)
  moreover have "wus_username ?x = u" using i(2) by simp
  ultimately have "find_user a' u \<noteq> None" unfolding find_user_def first_idx_None by blast
  then show ?thesis by (simp del: user_auth_hash_password.simps)
qed

text \<open>With 1000 sessions in the table, none of which goes away by expiring, a login succeeds with a token that is not recorded.\<close>

lemma login_beyond_table:
  assumes "length (wam_sessions a) = MAX_SESSIONS" "auth_manager_authenticate S rnd now (Some a) (Some u) (Some p) (Some out) token_size = (0, a', Some tok)"
  shows "a' = Some a"
  using assms by (auto simp: Let_def split: option.splits if_splits prod.splits)

text \<open>A buffer that is only a little longer than the name gets a token without a random digit.\<close>

lemma token_without_digits:
  "generate_token rnd u role (length (token_prefix u role) + 2) = (0, token_prefix u role)"
  by (cases rnd) (simp_all add: generate_token_def Let_def)

section \<open>The window of a client\<close>

fun lim_call :: "string \<times> u64 \<Rightarrow> rate_limiter option \<Rightarrow> bool \<times> rate_limiter option" where
  "lim_call (ip, now) l = rate_limiter_is_limited now l (Some ip)"

definition lim_entry :: "rate_limiter \<Rightarrow> string \<Rightarrow> u64 \<Rightarrow> nat \<Rightarrow> bool" where
  "lim_entry l ip start n \<longleftrightarrow> (\<exists>i. find_limit l ip = Some i \<and> cle_window_start (rtl_entries l ! i) = start \<and> unat (cle_request_count (rtl_entries l ! i)) = n)"

lemma lim_other:
  assumes "lim_entry l ip start n" "ip' \<noteq> ip" "rate_limiter_is_limited now (Some l) (Some ip') = (r, l')"
  shows "\<exists>m. l' = Some m \<and> lim_entry m ip start n \<and> rtl_requests_per_minute m = rtl_requests_per_minute l"
proof -
  obtain i where i: "find_limit l ip = Some i" "cle_window_start (rtl_entries l ! i) = start" "unat (cle_request_count (rtl_entries l ! i)) = n"
    using assms(1) by (auto simp: lim_entry_def)
  have ib: "i < length (rtl_entries l)" using i(1) first_idx_SomeD unfolding find_limit_def by blast
  show ?thesis
  proof (cases "find_limit l ip'")
    case None
    show ?thesis
    proof (cases "length (rtl_entries l) < MAX_CLIENTS")
      case True
      then have "l' = Some (l\<lparr>rtl_entries := rtl_entries l @ [\<lparr>cle_client_ip = cstr_fit 64 ip', cle_request_count = 1, cle_window_start = now\<rparr>]\<rparr>)"
        using assms(3) None by simp
      then show ?thesis using i ib by (auto simp: lim_entry_def find_limit_def nth_append first_idx_append)
    next
      case False
      then have "l' = Some l" using assms(3) None by simp
      then show ?thesis using assms(1) by simp
    qed
  next
    case (Some j)
    have j: "j < length (rtl_entries l)" "cle_client_ip (rtl_entries l ! j) = ip'" using Some first_idx_SomeD unfolding find_limit_def by blast+
    have ne: "j \<noteq> i" using i(1) j assms(2) first_idx_SomeD(2) [OF i(1) [unfolded find_limit_def]] by auto
    have keep: "lim_entry (l\<lparr>rtl_entries := (rtl_entries l)[j := e]\<rparr>) ip start n" if "cle_client_ip e = ip'" for e
    proof -
      have "first_idx (\<lambda>e. cle_client_ip e = ip) ((rtl_entries l)[j := e]) = Some i"
        using i(1) j ne that assms(2) unfolding find_limit_def first_idx_Some by (auto simp: nth_list_update)
      then show ?thesis using i ne by (simp add: lim_entry_def find_limit_def)
    qed
    then show ?thesis using assms(3) Some j by (auto simp: Let_def split: if_splits)
  qed
qed

lemma lim_own:
  assumes "lim_entry l ip start n" "now - start < WINDOW_SECONDS" "Suc n < 2 ^ 32" "rate_limiter_is_limited now (Some l) (Some ip) = (r, l')"
  shows "(r \<longleftrightarrow> unat (rtl_requests_per_minute l) < Suc n)
    \<and> (\<exists>m. l' = Some m \<and> lim_entry m ip start (Suc n) \<and> rtl_requests_per_minute m = rtl_requests_per_minute l)"
proof -
  obtain i where i: "find_limit l ip = Some i" "cle_window_start (rtl_entries l ! i) = start" "unat (cle_request_count (rtl_entries l ! i)) = n"
    using assms(1) by (auto simp: lim_entry_def)
  let ?c = "cle_request_count (rtl_entries l ! i)"
  have ib: "i < length (rtl_entries l)" "cle_client_ip (rtl_entries l ! i) = ip" using i(1) first_idx_SomeD unfolding find_limit_def by blast+
  have c: "unat (?c + 1) = Suc n" using i(3) assms(3) by (simp add: unat_word_ariths)
  let ?l = "l\<lparr>rtl_entries := (rtl_entries l)[i := (rtl_entries l ! i)\<lparr>cle_request_count := ?c + 1\<rparr>]\<rparr>"
  have "r \<longleftrightarrow> rtl_requests_per_minute l < ?c + 1" "l' = Some ?l"
    using assms(2,4) i by (auto simp: Let_def not_le [symmetric] split: if_splits)
  moreover have "first_idx (\<lambda>e. cle_client_ip e = ip) ((rtl_entries l)[i := (rtl_entries l ! i)\<lparr>cle_request_count := ?c + 1\<rparr>]) = Some i"
    using i(1) ib unfolding find_limit_def first_idx_Some by (auto simp: nth_list_update)
  then have "lim_entry ?l ip start (Suc n)" using i ib c by (simp add: lim_entry_def find_limit_def)
  ultimately show ?thesis using c by (simp add: word_less_nat_alt)
qed

definition passed :: "string \<Rightarrow> (string \<times> u64) list \<Rightarrow> bool list \<Rightarrow> nat" where
  "passed ip reqs answers = length (filter (\<lambda>((ip', now), limited). ip' = ip \<and> \<not> limited) (zip reqs answers))"

lemma lim_run:
  assumes "lim_entry l ip start n" "\<forall>(ip', now) \<in> set reqs. ip' = ip \<longrightarrow> now - start < WINDOW_SECONDS"
    and "n + count_if (\<lambda>(ip', now). ip' = ip) reqs < 2 ^ 32" "run_calls lim_call reqs (Some l) = (answers, l')"
  shows "passed ip reqs answers = min (count_if (\<lambda>(ip', now). ip' = ip) reqs) (unat (rtl_requests_per_minute l) - n)"
  using assms
proof (induction reqs arbitrary: l n answers)
  case (Cons req reqs)
  obtain ip' now where q: "req = (ip', now)" by (cases req)
  obtain r l1 rs where c: "rate_limiter_is_limited now (Some l) (Some ip') = (r, l1)" "run_calls lim_call reqs l1 = (rs, l')" "answers = r # rs"
    using Cons.prems(4) by (auto simp: q split: prod.splits)
  show ?case
  proof (cases "ip' = ip")
    case True
    from lim_own [OF Cons.prems(1) _ _ c(1) [unfolded True]] obtain m where
      m: "r \<longleftrightarrow> unat (rtl_requests_per_minute l) < Suc n" "l1 = Some m" "lim_entry m ip start (Suc n)" "rtl_requests_per_minute m = rtl_requests_per_minute l"
      using Cons.prems(2,3) True q by auto
    from Cons.IH [OF m(3)] Cons.prems(2,3) c(2) m(2,4) True q have
      "passed ip reqs rs = min (count_if (\<lambda>(ip', now). ip' = ip) reqs) (unat (rtl_requests_per_minute l) - Suc n)" by simp
    then show ?thesis using m(1) True c(3) q by (auto simp: passed_def)
  next
    case False
    from lim_other [OF Cons.prems(1) False c(1)] obtain m where
      m: "l1 = Some m" "lim_entry m ip start n" "rtl_requests_per_minute m = rtl_requests_per_minute l" by blast
    from Cons.IH [OF m(2)] Cons.prems(2,3) c(2) m(1,3) False q show ?thesis by (simp add: passed_def c(3))
  qed
qed (simp add: passed_def)

text \<open>A client that the limiter takes up is let through exactly as often as its limit allows, but at least once, within the 60 seconds
  from its first request, whatever other clients ask.\<close>

theorem rate_limit_window:
  assumes "find_limit l ip = None" "length ip < 64" "length (rtl_entries l) < MAX_CLIENTS"
    and "\<forall>(ip', now) \<in> set reqs. ip' = ip \<longrightarrow> now - start < WINDOW_SECONDS"
    and "Suc (count_if (\<lambda>(ip', now). ip' = ip) reqs) < 2 ^ 32"
    and "run_calls lim_call ((ip, start) # reqs) (Some l) = (answers, l')"
  shows "passed ip ((ip, start) # reqs) answers = min (Suc (count_if (\<lambda>(ip', now). ip' = ip) reqs)) (max 1 (unat (rtl_requests_per_minute l)))"
proof -
  let ?e = "\<lparr>cle_client_ip = ip, cle_request_count = 1, cle_window_start = start\<rparr>"
  let ?l = "l\<lparr>rtl_entries := rtl_entries l @ [?e]\<rparr>"
  have f: "rate_limiter_is_limited start (Some l) (Some ip) = (False, Some ?l)" using assms(1-3) by simp
  have "first_idx (\<lambda>e. cle_client_ip e = ip) (rtl_entries l @ [?e]) = Some (length (rtl_entries l))"
    using assms(1) by (auto simp: first_idx_Some first_idx_None find_limit_def nth_append)
  then have e: "lim_entry ?l ip start 1" by (simp add: lim_entry_def find_limit_def)
  obtain rs where rs: "run_calls lim_call reqs (Some ?l) = (rs, l')" "answers = False # rs"
    using assms(6) f by (auto split: prod.splits)
  from lim_run [OF e assms(4) _ rs(1)] assms(5) have
    "passed ip reqs rs = min (count_if (\<lambda>(ip', now). ip' = ip) reqs) (unat (rtl_requests_per_minute l) - 1)" by simp
  then show ?thesis by (auto simp: passed_def rs(2))
qed

lemma rate_limit_window_witness:
  "\<exists>l answers l'. rate_limiter_init True 2 = Some l
    \<and> run_calls lim_call [(''a'', 100), (''b'', 100), (''a'', 101), (''a'', 102), (''a'', 159)] (Some l) = (answers, l')
    \<and> passed ''a'' [(''a'', 100), (''b'', 100), (''a'', 101), (''a'', 102), (''a'', 159)] answers = 2"
proof -
  define l where "l = the (rate_limiter_init True 2)"
  have l: "rate_limiter_init True 2 = Some l" "rtl_entries l = []" "rtl_requests_per_minute l = 2" by (simp_all add: l_def rate_limiter_init_def)
  obtain answers l' where r: "run_calls lim_call ((''a'', 100) # [(''b'', 100), (''a'', 101), (''a'', 102), (''a'', 159)]) (Some l) = (answers, l')"
    by (metis surj_pair)
  have "find_limit l ''a'' = None" "length ''a'' < 64" "length (rtl_entries l) < MAX_CLIENTS"
    "\<forall>(ip', now) \<in> set [(''b'', 100), (''a'', 101), (''a'', 102), (''a'', 159)]. ip' = ''a'' \<longrightarrow> now - 100 < WINDOW_SECONDS"
    by (simp_all add: l find_limit_def MAX_CLIENTS_def WINDOW_SECONDS_def)
  from rate_limit_window [OF this _ r] have "passed ''a'' ((''a'', 100) # [(''b'', 100), (''a'', 101), (''a'', 102), (''a'', 159)]) answers = 2"
    by (simp add: l)
  then show ?thesis using l(1) r by blast
qed

text \<open>Clients beyond the first thousand are never limited.\<close>

lemma client_beyond_table_unlimited:
  "find_limit l ip = None \<Longrightarrow> length (rtl_entries l) \<ge> MAX_CLIENTS \<Longrightarrow> rate_limiter_is_limited now (Some l) (Some ip) = (False, Some l)"
  by simp

end
