(* ===== verification/Recording.thy ===== *)
theory Recording
  imports Filestore Wire
begin

text \<open>
  Recording a stream to a file (\<^verbatim>\<open>src/src/recording.c\<close>) and playing it back (\<^verbatim>\<open>src/tools/rstr-player.c\<close>).  A descriptor
  open for writing is the name of its file in the store of Filestore, one open for reading is the bytes behind its position.
  The clock is an argument.
\<close>

section \<open>The format\<close>

definition RSTR_MAGIC :: u32 where "RSTR_MAGIC = 0x52535452"
definition RSTR_VERSION :: u32 where "RSTR_VERSION = 1"

record rstr_header =
  rsh_magic :: u32
  rsh_version :: u32
  rsh_width :: u32
  rsh_height :: u32
  rsh_codec :: u32
  rsh_fps :: u32
  rsh_start_time :: u64
  rsh_reserved :: "u8 list"

record rstr_frame_header =
  rfh_timestamp_us :: u64
  rfh_size :: u32
  rfh_flags :: u8
  rfh_reserved :: "u8 list"

text \<open>The packed structures in memory, and what is read into them from a file that may be too short.\<close>

definition rstr_header_bytes :: "rstr_header \<Rightarrow> u8 list" where
  "rstr_header_bytes h = w32le (rsh_magic h) @ w32le (rsh_version h) @ w32le (rsh_width h) @ w32le (rsh_height h) @ w32le (rsh_codec h)
     @ w32le (rsh_fps h) @ w64le (rsh_start_time h) @ rsh_reserved h"

definition rstr_header_of :: "u8 list \<Rightarrow> rstr_header" where
  "rstr_header_of b = \<lparr>rsh_magic = r32le b 0, rsh_version = r32le b 4, rsh_width = r32le b 8, rsh_height = r32le b 12, rsh_codec = r32le b 16,
     rsh_fps = r32le b 20, rsh_start_time = r64le b 24, rsh_reserved = drop 32 b\<rparr>"

definition rstr_frame_bytes :: "rstr_frame_header \<Rightarrow> u8 list" where
  "rstr_frame_bytes h = w64le (rfh_timestamp_us h) @ w32le (rfh_size h) @ [rfh_flags h] @ rfh_reserved h"

definition rstr_frame_of :: "u8 list \<Rightarrow> rstr_frame_header" where
  "rstr_frame_of b = \<lparr>rfh_timestamp_us = r64le b 0, rfh_size = r32le b 8, rfh_flags = b ! 12, rfh_reserved = drop 13 b\<rparr>"

section \<open>Recording\<close>

record recording_ctx =
  rec_fd :: "string option"
  rec_active :: bool
  rec_start_time_us :: u64
  rec_frame_count :: u64
  rec_bytes_written :: u64
  rec_filename :: string

text \<open>What the header says of the stream.\<close>

record stream_info =
  sti_width :: u32
  sti_height :: u32
  sti_h265 :: bool
  sti_fps :: u32

definition rstr_header_for :: "stream_info \<Rightarrow> u64 \<Rightarrow> rstr_header" where
  "rstr_header_for i unix_time = \<lparr>rsh_magic = RSTR_MAGIC, rsh_version = RSTR_VERSION, rsh_width = sti_width i, rsh_height = sti_height i,
     rsh_codec = (if sti_h265 i then 1 else 0), rsh_fps = sti_fps i, rsh_start_time = unix_time, rsh_reserved = replicate 32 0\<rparr>"

fun recording_init :: "stream_info \<Rightarrow> u64 \<Rightarrow> u64 \<Rightarrow> recording_ctx option \<Rightarrow> string option \<Rightarrow> filestore \<Rightarrow> int \<times> recording_ctx option \<times> filestore" where
  "recording_init i unix_time now_us (Some r) (Some filename) fs =
     (case f_create filename fs of
        None \<Rightarrow> (-1, Some r, fs)
      | Some fs \<Rightarrow> (case f_write filename (rstr_header_bytes (rstr_header_for i unix_time)) fs of (ok, fs) \<Rightarrow>
          if \<not> ok then (-1, Some r, f_remove filename fs)
          else (0, Some (r\<lparr>rec_fd := Some filename, rec_active := True, rec_frame_count := 0, rec_start_time_us := now_us,
            rec_filename := cstr_fit 256 filename\<rparr>), fs)))"
| "recording_init i unix_time now_us r filename fs = (-1, r, fs)"

definition rstr_frame_for :: "u64 \<Rightarrow> nat \<Rightarrow> bool \<Rightarrow> rstr_frame_header" where
  "rstr_frame_for t n is_keyframe = \<lparr>rfh_timestamp_us = t, rfh_size = of_nat n, rfh_flags = (if is_keyframe then 0x01 else 0x00), rfh_reserved = [0, 0, 0]\<rparr>"

definition rec_write :: "recording_ctx \<Rightarrow> u8 list \<Rightarrow> filestore \<Rightarrow> bool \<times> filestore" where
  "rec_write r bs fs = (case rec_fd r of None \<Rightarrow> (False, fs) | Some name \<Rightarrow> f_write name bs fs)"

fun recording_write_frame :: "u64 \<Rightarrow> recording_ctx option \<Rightarrow> u8 list option \<Rightarrow> bool \<Rightarrow> filestore \<Rightarrow> int \<times> recording_ctx option \<times> filestore" where
  "recording_write_frame now_us (Some r) (Some data) is_keyframe fs =
     (if \<not> rec_active r \<or> data = [] then (-1, Some r, fs)
      else let hdr = rstr_frame_for (now_us - rec_start_time_us r) (length data) is_keyframe in
        (case rec_write r (rstr_frame_bytes hdr) fs of (ok, fs) \<Rightarrow>
           if \<not> ok then (-1, Some r, fs)
           else (case rec_write r data fs of (ok, fs) \<Rightarrow>
             if \<not> ok then (-1, Some r, fs)
             else (0, Some (r\<lparr>rec_frame_count := rec_frame_count r + 1, rec_bytes_written := rec_bytes_written r + of_nat (length data + 16)\<rparr>), fs))))"
| "recording_write_frame now_us r data is_keyframe fs = (-1, r, fs)"

definition recording_cleanup :: "recording_ctx option \<Rightarrow> recording_ctx option" where
  "recording_cleanup r = map_option (\<lambda>r. if \<not> rec_active r then r
     else r\<lparr>rec_fd := None, rec_active := False, rec_frame_count := 0, rec_bytes_written := 0\<rparr>) r"

section \<open>Reading\<close>

definition fd_read :: "nat \<Rightarrow> u8 list \<Rightarrow> u8 list \<times> u8 list" where
  "fd_read n rest = (take n rest, drop n rest)"

fun rstr_read_header :: "u8 list option \<Rightarrow> rstr_header option \<Rightarrow> int \<times> rstr_header option \<times> u8 list option" where
  "rstr_read_header (Some rest) (Some h) =
     (case fd_read 64 rest of (got, rest) \<Rightarrow>
        let h = rstr_header_of (overwrite got (rstr_header_bytes h)) in
        (if length got \<noteq> 64 then -1
         else if rsh_magic h \<noteq> RSTR_MAGIC then -1
         else if rsh_version h \<noteq> RSTR_VERSION then -1 else 0, Some h, Some rest))"
| "rstr_read_header fd h = (-1, h, fd)"

text \<open>The buffer is its contents; what is read is written over its beginning.\<close>

fun rstr_read_frame :: "u8 list option \<Rightarrow> u8 list option \<Rightarrow> rstr_frame_header option \<Rightarrow> int \<times> u8 list option \<times> rstr_frame_header option \<times> u8 list option" where
  "rstr_read_frame (Some rest) (Some buffer) (Some h) =
     (case fd_read 16 rest of (got, rest) \<Rightarrow>
        let h = rstr_frame_of (overwrite got (rstr_frame_bytes h)) in
        if got = [] then (1, Some buffer, Some h, Some rest)
        else if length got \<noteq> 16 then (-1, Some buffer, Some h, Some rest)
        else if unat (rfh_size h) > length buffer then (-1, Some buffer, Some h, Some rest)
        else (case fd_read (unat (rfh_size h)) rest of (data, rest) \<Rightarrow>
          (if length data \<noteq> unat (rfh_size h) then -1 else 0, Some (overwrite data buffer), Some h, Some rest)))"
| "rstr_read_frame fd buffer h = (-1, buffer, h, fd)"

section \<open>The player\<close>

text \<open>
  The loop of \<^verbatim>\<open>main\<close> in the player.  \<open>decodes\<close> says which data the decoder accepts, \<open>quits\<close> when the user wants to quit (after so many
  polls); what is presented and what is slept is collected.  The remainder by a frame rate of 0 has no meaning in C.
\<close>

datatype play_end = PlayEof | PlayError | PlayQuit | PlayFault

datatype play_event = PlPresent "u8 list" | PlSleep u64

record player =
  ply_file :: "u8 list"
  ply_rest :: "u8 list"
  ply_buffer :: "u8 list"
  ply_hdr :: rstr_frame_header
  ply_last :: u64
  ply_played :: u64
  ply_polls :: nat
  ply_log :: "play_event list"

definition present_frame :: "rstr_frame_header \<Rightarrow> player \<Rightarrow> player" where
  "present_frame h p =
     (let delta = rfh_timestamp_us h - ply_last p in
      p\<lparr>ply_log := ply_log p @ [PlPresent (take (unat (rfh_size h)) (ply_buffer p))]
          @ (if ply_last p > 0 \<and> delta > 0 \<and> delta < 1000000 then [PlSleep delta] else []),
        ply_played := ply_played p + 1, ply_last := rfh_timestamp_us h\<rparr>)"

partial_function (option) playback_loop :: "u32 \<Rightarrow> bool \<Rightarrow> (u8 list \<Rightarrow> bool) \<Rightarrow> (nat \<Rightarrow> bool) \<Rightarrow> player \<Rightarrow> (play_end \<times> player) option" where
  "playback_loop fps again decodes quits p =
     (case rstr_read_frame (Some (ply_rest p)) (Some (ply_buffer p)) (Some (ply_hdr p)) of (r, buffer, h, rest) \<Rightarrow>
        let p = p\<lparr>ply_rest := the rest, ply_buffer := the buffer, ply_hdr := the h\<rparr> in
        if r = 1
        then (if again then playback_loop fps again decodes quits (p\<lparr>ply_rest := drop 64 (ply_file p), ply_last := 0\<rparr>)
              else Some (PlayEof, p))
        else if r < 0 then Some (PlayError, p)
        else let shown = decodes (take (unat (rfh_size (ply_hdr p))) (ply_buffer p));
                 p = (if shown then present_frame (ply_hdr p) p else p) in
          if shown \<and> fps = 0 then Some (PlayFault, p)
          else let q = p\<lparr>ply_polls := ply_polls p + 1\<rparr> in
            if quits (ply_polls p) then Some (PlayQuit, q) else playback_loop fps again decodes quits q)"

text \<open>The buffer holds twice the number of pixels, computed in 32 bits.\<close>

definition max_frame_size :: "rstr_header \<Rightarrow> nat" where
  "max_frame_size h = unat (rsh_width h * rsh_height h * 2)"

definition rstr_play :: "bool \<Rightarrow> (u8 list \<Rightarrow> bool) \<Rightarrow> (nat \<Rightarrow> bool) \<Rightarrow> u8 list \<Rightarrow> (play_end \<times> player) option" where
  "rstr_play again decodes quits file =
     (case rstr_read_header (Some file) (Some (rstr_header_of (replicate 64 0))) of (r, h, rest) \<Rightarrow>
        let p = \<lparr>ply_file = file, ply_rest = the rest, ply_buffer = replicate (max_frame_size (the h)) 0,
          ply_hdr = rstr_frame_of (replicate 16 0), ply_last = 0, ply_played = 0, ply_polls = 0, ply_log = []\<rparr> in
        if r < 0 then Some (PlayError, p) else playback_loop (rsh_fps (the h)) again decodes quits p)"

declare rstr_read_header.simps [simp del] rstr_read_frame.simps [simp del]

section \<open>Reading back what was written\<close>

lemma length_rstr_bytes [simp]:
  "length (rstr_header_bytes h) = 32 + length (rsh_reserved h)" "length (rstr_frame_bytes f) = 13 + length (rfh_reserved f)"
  by (simp_all add: rstr_header_bytes_def rstr_frame_bytes_def)

lemma rstr_header_back: "rstr_header_of (rstr_header_bytes h) = h"
  by (cases h) (simp add: rstr_header_of_def rstr_header_bytes_def wire_simps)

lemma rstr_frame_back: "rstr_frame_of (rstr_frame_bytes f) = f"
  by (cases f) (simp add: rstr_frame_of_def rstr_frame_bytes_def wire_simps nth_append)

section \<open>What a recording plays\<close>

type_synonym rec_frame = "u64 \<times> u8 list \<times> bool"

fun rec_call :: "rec_frame \<Rightarrow> recording_ctx option \<times> filestore \<Rightarrow> int \<times> recording_ctx option \<times> filestore" where
  "rec_call (t, d, k) (r, fs) = recording_write_frame t r (Some d) k fs"

definition frame_on_disk :: "u64 \<Rightarrow> rec_frame \<Rightarrow> u8 list" where
  "frame_on_disk t0 f = (case f of (t, d, k) \<Rightarrow> rstr_frame_bytes (rstr_frame_for (t - t0) (length d) k) @ d)"

text \<open>The frames whose recording succeeded.\<close>

definition kept :: "rec_frame list \<Rightarrow> int list \<Rightarrow> rec_frame list" where
  "kept fs rs = map fst (filter (\<lambda>(f, r). r = 0) (zip fs rs))"

text \<open>What is shown of them, with the pauses between them.\<close>

fun play_log :: "(u8 list \<Rightarrow> bool) \<Rightarrow> u64 \<Rightarrow> u64 \<Rightarrow> rec_frame list \<Rightarrow> play_event list" where
  "play_log decodes t0 before [] = []"
| "play_log decodes t0 before ((t, d, k) # fs) =
     (if \<not> decodes d then play_log decodes t0 before fs
      else let delta = t - t0 - before in
        PlPresent d # (if before > 0 \<and> delta > 0 \<and> delta < 1000000 then [PlSleep delta] else []) @ play_log decodes t0 (t - t0) fs)"

text \<open>A file with the header, whole frames, and perhaps, on a full disk, the beginning of one more.\<close>

definition cut_frame :: "u64 \<Rightarrow> u8 list \<Rightarrow> bool" where
  "cut_frame t0 bs \<longleftrightarrow> bs = [] \<or> (\<exists>f n. fst (snd f) \<noteq> [] \<and> length (fst (snd f)) < 2 ^ 32
     \<and> n < length (frame_on_disk t0 f) \<and> bs = take n (frame_on_disk t0 f))"

definition rec_state :: "string \<Rightarrow> u64 \<Rightarrow> u8 list \<Rightarrow> bool \<Rightarrow> recording_ctx option \<times> filestore \<Rightarrow> bool" where
  "rec_state name t0 whole clean s \<longleftrightarrow> (\<exists>r fs part. s = (Some r, fs) \<and> rec_active r \<and> rec_fd r = Some name \<and> rec_start_time_us r = t0
     \<and> fs_files fs name = Some (whole @ part) \<and> (if clean then part = [] else cut_frame t0 part \<and> fs_room fs = 0))"

lemma rec_step:
  assumes "rec_state name t0 whole clean s" "fst (snd f) \<noteq> []" "length (fst (snd f)) < 2 ^ 32" "rec_call f s = (x, s')"
  shows "(x = 0 \<and> clean \<and> rec_state name t0 (whole @ frame_on_disk t0 f) True s') \<or> (x = -1 \<and> rec_state name t0 whole False s')"
proof -
  obtain t d k where f: "f = (t, d, k)" by (cases f)
  obtain r fs part where s: "s = (Some r, fs)" "rec_active r" "rec_fd r = Some name" "rec_start_time_us r = t0"
    "fs_files fs name = Some (whole @ part)" "if clean then part = [] else cut_frame t0 part \<and> fs_room fs = 0"
    using assms(1) by (auto simp: rec_state_def)
  let ?h = "rstr_frame_bytes (rstr_frame_for (t - t0) (length d) k)"
  have l: "length ?h = 16" by (simp add: rstr_frame_for_def)
  have d: "d \<noteq> []" "length d < 2 ^ 32" using assms f by simp_all
  show ?thesis
  proof (cases clean)
    case False
    then have "x = -1" "rec_state name t0 whole False s'"
      using assms(4) s d l by (auto simp: f rec_write_def f_write_def Let_def rec_state_def)
    then show ?thesis by blast
  next
    case True
    then have part: "part = []" using s by simp
    consider "fs_room fs < 16" | "16 \<le> fs_room fs" "fs_room fs < 16 + length d" | "16 + length d \<le> fs_room fs" by linarith
    then show ?thesis
    proof cases
      case 1
      have "cut_frame t0 (take (fs_room fs) ?h)"
        unfolding cut_frame_def using 1 l d by (intro disjI2 exI [of _ f] exI [of _ "fs_room fs"]) (simp add: f frame_on_disk_def)
      then show ?thesis using assms(4) s d l 1 part by (auto simp: f rec_write_def f_write_def Let_def rec_state_def)
    next
      case 2
      have "cut_frame t0 (?h @ take (fs_room fs - 16) d)"
        unfolding cut_frame_def using 2 l d by (intro disjI2 exI [of _ f] exI [of _ "fs_room fs"]) (simp add: f frame_on_disk_def)
      moreover have "\<not> length d \<le> fs_room fs - 16" "16 \<le> fs_room fs" "fs_room fs - (16 + length d) = 0" using 2 by simp_all
      ultimately show ?thesis using assms(4) s d l part by (auto simp: f rec_write_def f_write_def Let_def rec_state_def)
    next
      case 3
      then have "length d \<le> fs_room fs - 16" "16 \<le> fs_room fs" by simp_all
      then show ?thesis using assms(4) s d l part True by (auto simp: f rec_write_def f_write_def Let_def rec_state_def frame_on_disk_def)
    qed
  qed
qed

lemma rec_run:
  assumes "rec_state name t0 whole clean s" "\<forall>(t, d, k) \<in> set frames. d \<noteq> [] \<and> length d < 2 ^ 32" "run_calls rec_call frames s = (rs, s')"
  shows "rec_state name t0 (whole @ concat (map (frame_on_disk t0) (kept frames rs))) (clean \<and> (\<forall>x \<in> set rs. x = 0)) s'"
  using assms
proof (induction frames arbitrary: s whole clean rs)
  case (Cons f frames)
  obtain x s1 xs where c: "rec_call f s = (x, s1)" "run_calls rec_call frames s1 = (xs, s')" "rs = x # xs"
    using Cons.prems(3) by (auto split: prod.splits)
  have f: "fst (snd f) \<noteq> []" "length (fst (snd f)) < 2 ^ 32" using Cons.prems(2) by (auto split: prod.splits)
  from rec_step [OF Cons.prems(1) f c(1)] show ?case
  proof (elim disjE conjE)
    assume x: "x = 0" clean "rec_state name t0 (whole @ frame_on_disk t0 f) True s1"
    from Cons.IH [OF x(3) _ c(2)] Cons.prems(2) x show ?thesis by (simp add: kept_def c(3))
  next
    assume x: "x = -1" "rec_state name t0 whole False s1"
    from Cons.IH [OF x(2) _ c(2)] Cons.prems(2) x show ?thesis by (simp add: kept_def c(3))
  qed
qed (simp add: kept_def)

lemma read_whole_frame:
  assumes "length d \<le> length buffer" "length buffer < 2 ^ 32" "length (rfh_reserved h) = 3"
  shows "rstr_read_frame (Some (frame_on_disk t0 (t, d, k) @ rest)) (Some buffer) (Some h)
    = (0, Some (overwrite d buffer), Some (rstr_frame_for (t - t0) (length d) k), Some rest)"
proof -
  let ?f = "rstr_frame_for (t - t0) (length d) k"
  have l: "length (rstr_frame_bytes ?f) = 16" by (simp add: rstr_frame_for_def)
  have n: "unat (rfh_size ?f) = length d" using assms by (simp add: rstr_frame_for_def unat_of_nat_less)
  have g: "fd_read 16 (frame_on_disk t0 (t, d, k) @ rest) = (rstr_frame_bytes ?f, d @ rest)" using l by (simp add: fd_read_def frame_on_disk_def)
  have "overwrite (rstr_frame_bytes ?f) (rstr_frame_bytes h) = rstr_frame_bytes ?f" using l assms(3) by (simp add: overwrite_def)
  moreover have "rstr_frame_bytes ?f \<noteq> []" using l by force
  ultimately show ?thesis using g l n assms(1) by (simp add: rstr_read_frame.simps rstr_frame_back Let_def fd_read_def)
qed

lemma playback_frames:
  assumes "\<forall>(t, d, k) \<in> set frames. length d \<le> length (ply_buffer p)" "length (ply_buffer p) < 2 ^ 32" "length (rfh_reserved (ply_hdr p)) = 3"
    and "ply_rest p = concat (map (frame_on_disk t0) frames) @ part" "fps \<noteq> 0" "\<forall>n. \<not> quits n"
  shows "\<exists>q. playback_loop fps again decodes quits p = playback_loop fps again decodes quits q \<and> ply_rest q = part
    \<and> ply_log q = ply_log p @ play_log decodes t0 (ply_last p) frames \<and> length (ply_buffer q) = length (ply_buffer p)
    \<and> length (rfh_reserved (ply_hdr q)) = 3 \<and> ply_file q = ply_file p"
  using assms
proof (induction frames arbitrary: p)
  case Nil
  then show ?case by (intro exI [of _ p]) simp
next
  case (Cons f frames)
  obtain t d k where f: "f = (t, d, k)" by (cases f)
  let ?more = "concat (map (frame_on_disk t0) frames) @ part"
  let ?h = "rstr_frame_for (t - t0) (length d) k"
  have d: "length d \<le> length (ply_buffer p)" using Cons.prems(1) f by simp
  have rd: "rstr_read_frame (Some (ply_rest p)) (Some (ply_buffer p)) (Some (ply_hdr p)) = (0, Some (overwrite d (ply_buffer p)), Some ?h, Some ?more)"
    using read_whole_frame [OF d Cons.prems(2,3)] Cons.prems(4) f by simp
  let ?p = "p\<lparr>ply_rest := ?more, ply_buffer := overwrite d (ply_buffer p), ply_hdr := ?h\<rparr>"
  have n: "unat (rfh_size ?h) = length d" using d Cons.prems(2) by (simp add: rstr_frame_for_def unat_of_nat_less)
  let ?q = "(if decodes d then present_frame ?h ?p else ?p)\<lparr>ply_polls := Suc (ply_polls p)\<rparr>"
  have "playback_loop fps again decodes quits p = playback_loop fps again decodes quits ?q"
    using Cons.prems(5,6) n by (subst playback_loop.simps) (simp add: rd Let_def present_frame_def)
  moreover have q: "ply_rest ?q = ?more" "length (ply_buffer ?q) = length (ply_buffer p)" "length (rfh_reserved (ply_hdr ?q)) = 3" "ply_file ?q = ply_file p"
    using d by (simp_all add: present_frame_def Let_def rstr_frame_for_def)
  have "ply_log ?q @ play_log decodes t0 (ply_last ?q) frames = ply_log p @ play_log decodes t0 (ply_last p) (f # frames)"
    using n by (cases "decodes d") (auto simp: present_frame_def f Let_def rstr_frame_for_def)
  moreover have "\<forall>(t, d, k) \<in> set frames. length d \<le> length (ply_buffer ?q)" using Cons.prems(1) q(2) by auto
  from Cons.IH [OF this _ q(3) q(1) Cons.prems(5,6)] q(2) Cons.prems(2)
  obtain u where "playback_loop fps again decodes quits ?q = playback_loop fps again decodes quits u" "ply_rest u = part"
    "ply_log u = ply_log ?q @ play_log decodes t0 (ply_last ?q) frames" "length (ply_buffer u) = length (ply_buffer ?q)"
    "length (rfh_reserved (ply_hdr u)) = 3" "ply_file u = ply_file ?q" by metis
  ultimately show ?case using q(2,4) by (intro exI [of _ u]) simp
qed

text \<open>The loop stops at what is not a whole frame.\<close>

lemma take_frame:
  "n \<le> 16 \<Longrightarrow> take n (frame_on_disk t0 (t, d, k)) = take n (rstr_frame_bytes (rstr_frame_for (t - t0) (length d) k))"
  "16 \<le> n \<Longrightarrow> take n (frame_on_disk t0 (t, d, k)) = rstr_frame_bytes (rstr_frame_for (t - t0) (length d) k) @ take (n - 16) d"
  by (simp_all add: frame_on_disk_def rstr_frame_for_def)

lemma read_cut_frame:
  assumes "cut_frame t0 part" "length (rfh_reserved h) = 3"
  shows "fst (rstr_read_frame (Some part) (Some buffer) (Some h)) = (if part = [] then 1 else -1)"
proof (cases "part = []")
  case True
  then show ?thesis by (simp add: rstr_read_frame.simps fd_read_def Let_def)
next
  case False
  then obtain t d k n where p: "d \<noteq> []" "length d < 2 ^ 32" "n < length (frame_on_disk t0 (t, d, k))" "part = take n (frame_on_disk t0 (t, d, k))"
    using assms(1) by (fastforce simp: cut_frame_def)
  let ?f = "rstr_frame_for (t - t0) (length d) k"
  have l: "length (rstr_frame_bytes ?f) = 16" "unat (rfh_size ?f) = length d" using p(2) by (simp_all add: rstr_frame_for_def unat_of_nat_less)
  show ?thesis
  proof (cases "n < 16")
    case True
    then have "length part = n" using p(3,4) by simp
    then show ?thesis using False True by (simp add: rstr_read_frame.simps fd_read_def Let_def)
  next
    case n: False
    then have part: "part = rstr_frame_bytes ?f @ take (n - 16) d" "n - 16 < length d"
      using p(3,4) l take_frame(2) [of n t0 t d k] by (simp_all add: frame_on_disk_def)
    moreover have "rstr_frame_bytes ?f \<noteq> []" using l by force
    moreover have "overwrite (rstr_frame_bytes ?f) (rstr_frame_bytes h) = rstr_frame_bytes ?f" using l assms(2) by (simp add: overwrite_def)
    ultimately show ?thesis using l False by (simp add: rstr_read_frame.simps fd_read_def Let_def rstr_frame_back)
  qed
qed

lemma playback_end:
  assumes "cut_frame t0 (ply_rest q)" "length (rfh_reserved (ply_hdr q)) = 3"
  shows "\<exists>q'. playback_loop fps False decodes quits q = Some (if ply_rest q = [] then PlayEof else PlayError, q') \<and> ply_log q' = ply_log q"
proof -
  obtain r b h rest where rd: "rstr_read_frame (Some (ply_rest q)) (Some (ply_buffer q)) (Some (ply_hdr q)) = (r, b, h, rest)"
    by (metis prod_cases4)
  then have "r = (if ply_rest q = [] then 1 else -1)" using read_cut_frame [OF assms, of "ply_buffer q"] by simp
  then show ?thesis by (subst playback_loop.simps) (auto simp: rd Let_def)
qed

lemma rstr_read_whole_header:
  assumes "length (rsh_reserved h0) = 32" "length (rsh_reserved h) = 32" "rsh_magic h = RSTR_MAGIC" "rsh_version h = RSTR_VERSION"
  shows "rstr_read_header (Some (rstr_header_bytes h @ rest)) (Some h0) = (0, Some h, Some rest)"
  using assms by (simp add: rstr_read_header.simps fd_read_def Let_def overwrite_def rstr_header_back)

lemma recording_init_state:
  assumes "recording_init i u t0 (Some r0) (Some name) fs0 = (0, r, fs)"
  shows "rec_state name t0 (rstr_header_bytes (rstr_header_for i u)) True (r, fs)"
  using assms by (auto simp: rec_state_def f_create_def f_write_def split: option.splits if_splits)



text \<open>A recording without frames, played in a loop, is played for ever: the end of the file is met again and again without asking the user.\<close>

lemma empty_loop_never_ends:
  assumes "playback_loop fps True decodes quits p = Some y"
  shows "\<not> (ply_rest p = [] \<and> drop 64 (ply_file p) = [])"
proof -
  have "\<not> (True \<and> ply_rest p = [] \<and> drop 64 (ply_file p) = [])"
    by (rule playback_loop.raw_induct [OF _ assms, where P = "\<lambda>fps again decodes quits p y. \<not> (again \<and> ply_rest p = [] \<and> drop 64 (ply_file p) = [])"])
      (clarsimp simp: rstr_read_frame.simps fd_read_def overwrite_def rstr_frame_back Let_def, fastforce)
  then show ?thesis by simp
qed

end
