(* ===== verification/Latency.thy ===== *)
theory Latency
  imports Ringbuf
begin

text \<open>
  The stage timings of the host (\<^verbatim>\<open>src/src/latency.c\<close>): a ring of the last samples and, now and then, a report of percentiles.  The
  clock is an argument, \<^verbatim>\<open>qsort\<close> with \<^verbatim>\<open>compare_u64\<close> is \<^const>\<open>sort\<close>; percentiles are given in per cent, and \<open>ceil_of p n\<close> is what
  \<^verbatim>\<open>(size_t)ceil(p * (double)n)\<close> gives for them.
\<close>

record latency_sample =
  lsm_capture_us :: u64
  lsm_encode_us :: u64
  lsm_send_us :: u64
  lsm_total_us :: u64

record latency_stats =
  lst_enabled :: bool
  lst_capacity :: nat
  lst_count :: nat
  lst_cursor :: nat
  lst_report_interval_ms :: u64
  lst_last_report_ms :: u64
  lst_samples :: "latency_sample list option"

definition compare_u64 :: "u64 \<Rightarrow> u64 \<Rightarrow> int" where
  "compare_u64 lhs rhs = (if lhs < rhs then -1 else if lhs > rhs then 1 else 0)"

definition percentile_value :: "(nat \<Rightarrow> nat \<Rightarrow> nat) \<Rightarrow> u64 list \<Rightarrow> nat \<Rightarrow> u64" where
  "percentile_value ceil_of values p =
     (let n = length values in
      if n = 0 then 0
      else if p = 0 then values ! 0
      else if p \<ge> 100 then values ! (n - 1)
      else let rank = unat (of_nat (ceil_of p n) - 1 :: u64) in values ! (if rank \<ge> n then n - 1 else rank))"

definition sample_indices :: "latency_stats \<Rightarrow> nat list" where
  "sample_indices st = map (\<lambda>i. if lst_count st \<ge> lst_capacity st then (lst_cursor st + i) mod lst_capacity st else i) [0..<lst_count st]"

definition fill_metric_samples :: "latency_stats \<Rightarrow> u64 list \<times> u64 list \<times> u64 list \<times> u64 list" where
  "fill_metric_samples st =
     (let xs = map (\<lambda>i. the (lst_samples st) ! i) (sample_indices st) in
      (map lsm_capture_us xs, map lsm_encode_us xs, map lsm_send_us xs, map lsm_total_us xs))"

text \<open>What a report prints: the number of samples, the interval, and three percentiles of each metric.\<close>

record latency_report =
  lrp_samples :: nat
  lrp_interval :: u64
  lrp_capture :: "u64 list"
  lrp_encode :: "u64 list"
  lrp_send :: "u64 list"
  lrp_total :: "u64 list"

definition report_line :: "(nat \<Rightarrow> nat \<Rightarrow> nat) \<Rightarrow> u64 list \<Rightarrow> u64 list" where
  "report_line ceil_of values = map (percentile_value ceil_of (sort values)) [50, 95, 99]"

definition latency_report :: "(nat \<Rightarrow> nat \<Rightarrow> nat) \<Rightarrow> bool \<Rightarrow> u64 \<Rightarrow> latency_stats \<Rightarrow> latency_report option \<times> latency_stats" where
  "latency_report ceil_of mem now_ms st =
     (if \<not> lst_enabled st \<or> lst_count st = 0 then (None, st)
      else if \<not> mem then (None, st\<lparr>lst_last_report_ms := now_ms\<rparr>)
      else (case fill_metric_samples st of (capture, encode, sent, total_us) \<Rightarrow>
        (Some \<lparr>lrp_samples = lst_count st, lrp_interval = lst_report_interval_ms st, lrp_capture = report_line ceil_of capture,
            lrp_encode = report_line ceil_of encode, lrp_send = report_line ceil_of sent, lrp_total = report_line ceil_of total_us\<rparr>,
         st\<lparr>lst_last_report_ms := now_ms\<rparr>)))"

fun latency_init :: "bool \<Rightarrow> u64 \<Rightarrow> latency_stats option \<Rightarrow> nat \<Rightarrow> u64 \<Rightarrow> bool \<Rightarrow> int \<times> latency_stats option" where
  "latency_init mem now_ms (Some st) capacity report_interval_ms enabled =
     (let cap = (if capacity > 0 then capacity else 1);
          st = \<lparr>lst_enabled = enabled, lst_capacity = cap, lst_count = 0, lst_cursor = 0, lst_report_interval_ms = report_interval_ms,
            lst_last_report_ms = now_ms, lst_samples = None\<rparr> in
      if \<not> enabled then (0, Some st)
      else if \<not> mem then (-1, Some (st\<lparr>lst_enabled := False\<rparr>))
      else (0, Some (st\<lparr>lst_samples := Some (replicate cap \<lparr>lsm_capture_us = 0, lsm_encode_us = 0, lsm_send_us = 0, lsm_total_us = 0\<rparr>)\<rparr>)))"
| "latency_init mem now_ms None capacity report_interval_ms enabled = (-1, None)"

definition latency_cleanup :: "latency_stats option \<Rightarrow> latency_stats option" where
  "latency_cleanup st = map_option (\<lambda>st. st\<lparr>lst_samples := None, lst_enabled := False, lst_capacity := 0, lst_count := 0, lst_cursor := 0,
     lst_report_interval_ms := 0, lst_last_report_ms := 0\<rparr>) st"

definition add_sample :: "latency_sample \<Rightarrow> latency_stats \<Rightarrow> latency_stats" where
  "add_sample s st = st\<lparr>lst_samples := Some ((the (lst_samples st))[lst_cursor st := s]), lst_cursor := (lst_cursor st + 1) mod lst_capacity st,
     lst_count := (if lst_count st < lst_capacity st then lst_count st + 1 else lst_count st)\<rparr>"

fun latency_record :: "(nat \<Rightarrow> nat \<Rightarrow> nat) \<Rightarrow> bool \<Rightarrow> u64 \<Rightarrow> latency_stats option \<Rightarrow> latency_sample option \<Rightarrow> latency_report option \<times> latency_stats option" where
  "latency_record ceil_of mem now_ms (Some st) (Some s) =
     (if \<not> lst_enabled st then (None, Some st)
      else let st = add_sample s st in
        if lst_report_interval_ms st = 0 then (None, Some st)
        else if now_ms - lst_last_report_ms st \<ge> lst_report_interval_ms st
        then (case latency_report ceil_of mem now_ms st of (r, st) \<Rightarrow> (r, Some st))
        else (None, Some st))"
| "latency_record ceil_of mem now_ms st s = (None, st)"

section \<open>What is reported\<close>

text \<open>The comparison is the order that \<^const>\<open>sort\<close> sorts by.\<close>

lemma compare_u64_order: "compare_u64 a b \<le> 0 \<longleftrightarrow> a \<le> b"
  by (auto simp: compare_u64_def)

text \<open>The element of rank \<open>r\<close>: fewer than \<open>r\<close> are smaller, at least \<open>r\<close> are not greater.\<close>

definition has_rank :: "u64 list \<Rightarrow> nat \<Rightarrow> u64 \<Rightarrow> bool" where
  "has_rank xs r v \<longleftrightarrow> v \<in> set xs \<and> length (filter (\<lambda>x. x < v) xs) < r \<and> r \<le> length (filter (\<lambda>x. x \<le> v) xs)"

lemma length_filter_sort: "length (filter P (sort xs)) = length (filter P xs)"
  by (metis mset_filter mset_sort size_mset)

lemma sorted_has_rank:
  assumes "sorted xs" "0 < r" "r \<le> length xs"
  shows "has_rank xs r (xs ! (r - 1))"
proof -
  let ?v = "xs ! (r - 1)"
  have "xs ! i \<le> ?v" if "i < r" for i using sorted_nth_mono [OF assms(1), of i "r - 1"] assms(2,3) that by simp
  then have "filter (\<lambda>x. x \<le> ?v) (take r xs) = take r xs" by (auto simp: filter_id_conv in_set_conv_nth)
  then have "r \<le> length (filter (\<lambda>x. x \<le> ?v) xs)"
    using assms(3) by (metis append_take_drop_id filter_append le_add1 length_append length_take min.absorb2)
  moreover have "?v \<le> xs ! (r - 1 + i)" if "i < length xs - (r - 1)" for i
    using sorted_nth_mono [OF assms(1), of "r - 1" "r - 1 + i"] assms(2,3) that by simp
  then have "filter (\<lambda>x. x < ?v) (drop (r - 1) xs) = []"
    using assms(2,3) by (auto simp: filter_empty_conv in_set_conv_nth not_less)
  then have "filter (\<lambda>x. x < ?v) xs = filter (\<lambda>x. x < ?v) (take (r - 1) xs)"
    by (metis append_Nil2 append_take_drop_id filter_append)
  then have "length (filter (\<lambda>x. x < ?v) xs) \<le> r - 1"
    using length_filter_le [of "\<lambda>x. x < ?v" "take (r - 1) xs"] assms(3) by simp
  ultimately show ?thesis using assms by (simp add: has_rank_def)
qed

lemma percentile_rank:
  assumes "xs \<noteq> []" "0 < p" "p < 100" "0 < ceil_of p (length xs)" "ceil_of p (length xs) \<le> length xs" "length xs < 2 ^ 64"
  shows "has_rank xs (ceil_of p (length xs)) (percentile_value ceil_of (sort xs) p)"
proof -
  let ?r = "ceil_of p (length xs)"
  have "unat (of_nat ?r - 1 :: u64) = ?r - 1"
  proof -
    have "(of_nat ?r - 1 :: u64) = of_nat (?r - 1)" using assms(4) by (simp add: of_nat_diff)
    then show ?thesis using assms(5,6) by (simp add: unat_of_nat_less)
  qed
  then have "percentile_value ceil_of (sort xs) p = sort xs ! (?r - 1)" using assms by (auto simp: percentile_value_def Let_def)
  moreover have "has_rank (sort xs) ?r (sort xs ! (?r - 1))" using assms by (intro sorted_has_rank) simp_all
  ultimately show ?thesis by (simp add: has_rank_def length_filter_sort)
qed

text \<open>The ring holds the last samples.\<close>

type_synonym lat_op = "latency_sample \<times> u64 \<times> bool"

fun lat_call :: "(nat \<Rightarrow> nat \<Rightarrow> nat) \<Rightarrow> lat_op \<Rightarrow> latency_stats option \<Rightarrow> latency_report option \<times> latency_stats option" where
  "lat_call ceil_of (s, now_ms, mem) st = latency_record ceil_of mem now_ms st (Some s)"

definition last_samples :: "nat \<Rightarrow> latency_sample list \<Rightarrow> latency_sample list" where
  "last_samples c xs = drop (length xs - c) xs"

definition lat_start :: "latency_stats \<Rightarrow> nat" where
  "lat_start st = (if lst_count st < lst_capacity st then 0 else lst_cursor st)"

definition lat_rel :: "nat \<Rightarrow> u64 \<Rightarrow> latency_stats \<Rightarrow> latency_sample list \<Rightarrow> bool" where
  "lat_rel c interval st xs \<longleftrightarrow> lst_enabled st \<and> lst_capacity st = c \<and> 0 < c \<and> lst_report_interval_ms st = interval \<and> lst_count st = min (length xs) c
     \<and> lst_cursor st < c \<and> (lst_count st < c \<longrightarrow> lst_cursor st = lst_count st)
     \<and> (\<exists>buf. lst_samples st = Some buf \<and> length buf = c \<and> ring_items c buf (lat_start st) (lst_count st) = last_samples c xs)"

lemma lat_rel_late: "lat_rel c interval (st\<lparr>lst_last_report_ms := x\<rparr>) xs = lat_rel c interval st xs"
  by (simp add: lat_rel_def lat_start_def)

lemma lat_rel_push:
  assumes "lat_rel c interval st xs"
  shows "lat_rel c interval (add_sample s st) (xs @ [s])"
proof -
  obtain buf where b: "lst_samples st = Some buf" "length buf = c" "ring_items c buf (lat_start st) (lst_count st) = last_samples c xs"
    and c: "0 < c" "lst_capacity st = c" "lst_cursor st < c" "lst_count st = min (length xs) c" "lst_count st < c \<Longrightarrow> lst_cursor st = lst_count st"
    using assms by (auto simp: lat_rel_def)
  show ?thesis
  proof (cases "length xs < c")
    case True
    then have n: "lst_count st = length xs" "lst_cursor st = length xs" using c by simp_all
    then have items: "ring_items c buf 0 (length xs) = xs" using b True c by (simp add: lat_start_def last_samples_def)
    have "ring_items c (buf[length xs := s]) 0 (Suc (length xs)) = xs @ [s]"
      using ring_items_push [of 0 c "length xs" buf s] True b items c by simp
    moreover have "(length xs + 1) mod c = (if Suc (length xs) < c then Suc (length xs) else 0)" using True by (simp add: mod_if)
    ultimately show ?thesis using assms b c n True by (auto simp: add_sample_def lat_rel_def lat_start_def last_samples_def)
  next
    case False
    then have n: "lst_count st = c" using c by simp
    then have items: "ring_items c buf (lst_cursor st) c = last_samples c xs" using b c by (simp add: lat_start_def)
    have "last_samples c (xs @ [s]) = drop (Suc (length xs - c)) xs @ [s]" using False assms by (simp add: last_samples_def Suc_diff_le lat_rel_def)
    also have "\<dots> = tl (last_samples c xs) @ [s]" by (simp add: last_samples_def drop_Suc tl_drop)
    finally have "ring_items c (buf[lst_cursor st := s]) ((lst_cursor st + 1) mod c) c = last_samples c (xs @ [s])"
      using ring_items_overwrite [OF c(3) b(2), of s] items by simp
    then show ?thesis using assms b c n False by (auto simp: add_sample_def lat_rel_def lat_start_def)
  qed
qed

lemma fill_last:
  assumes "lat_rel c interval st xs"
  shows "fill_metric_samples st = (let ys = last_samples c xs in (map lsm_capture_us ys, map lsm_encode_us ys, map lsm_send_us ys, map lsm_total_us ys))"
proof -
  obtain buf where b: "lst_samples st = Some buf" "ring_items c buf (lat_start st) (lst_count st) = last_samples c xs" "lst_capacity st = c"
    using assms by (auto simp: lat_rel_def)
  have "map (\<lambda>i. the (lst_samples st) ! i) (sample_indices st) = last_samples c xs"
    unfolding b(2) [symmetric] using b(1,3) by (auto simp: sample_indices_def ring_items_def lat_start_def)
  then show ?thesis by (simp add: fill_metric_samples_def Let_def)
qed

lemma lat_step:
  assumes "lat_rel c interval st xs" "lat_call ceil_of (s, now_ms, mem) (Some st) = (a, st')"
  shows "\<exists>u. st' = Some u \<and> lat_rel c interval u (xs @ [s])
    \<and> (\<forall>rep. a = Some rep \<longrightarrow> (let ys = last_samples c (xs @ [s]) in
        rep = \<lparr>lrp_samples = length ys, lrp_interval = interval, lrp_capture = report_line ceil_of (map lsm_capture_us ys),
          lrp_encode = report_line ceil_of (map lsm_encode_us ys), lrp_send = report_line ceil_of (map lsm_send_us ys), lrp_total = report_line ceil_of (map lsm_total_us ys)\<rparr>))"
proof -
  let ?st = "add_sample s st"
  have r: "lat_rel c interval ?st (xs @ [s])" using lat_rel_push [OF assms(1)] .
  have late: "lat_rel c interval (?st\<lparr>lst_last_report_ms := now_ms\<rparr>) (xs @ [s])" using r unfolding lat_rel_late .
  have n: "lst_count ?st = length (last_samples c (xs @ [s]))" "lst_enabled ?st" "lst_report_interval_ms ?st = interval" using r by (auto simp: lat_rel_def last_samples_def)
  have "lst_enabled st" using assms(1) by (simp add: lat_rel_def)
  then have "lat_call ceil_of (s, now_ms, mem) (Some st) = (if interval = 0 then (None, Some ?st) else if now_ms - lst_last_report_ms ?st \<ge> interval
      then (case latency_report ceil_of mem now_ms ?st of (r, st) \<Rightarrow> (r, Some st)) else (None, Some ?st))"
    using n by (simp add: Let_def)
  then show ?thesis unfolding assms(2) using r late n fill_last [OF r]
    by (simp add: latency_report_def Let_def split: if_splits)
qed

lemma lat_run:
  assumes "lat_rel c interval st xs" "run_calls (lat_call ceil_of) ops (Some st) = (as, st')"
  shows "\<exists>u. st' = Some u \<and> lat_rel c interval u (xs @ map fst ops)"
  using assms
proof (induction ops arbitrary: st xs as)
  case (Cons op ops)
  obtain s now_ms mem where op: "op = (s, now_ms, mem)" by (cases op)
  obtain a st1 bs where c: "lat_call ceil_of op (Some st) = (a, st1)" "run_calls (lat_call ceil_of) ops st1 = (bs, st')"
    using Cons.prems(2) by (auto split: prod.splits)
  from lat_step [OF Cons.prems(1) c(1) [unfolded op]] obtain u where u: "st1 = Some u" "lat_rel c interval u (xs @ [s])" by blast
  from Cons.IH [OF u(2)] c(2) u(1) show ?case by (simp add: op)
qed auto

text \<open>
  A report gives, for each metric, the elements of the ranks that half, 95 and 99 per cent of the number round up to, among the last samples,
  as many as the ring holds; when the rounding keeps these ranks between 1 and the number.
\<close>

theorem latency_report_percentiles:
  assumes "latency_init True now0 (Some st0) capacity interval True = (0, st)" "capacity < 2 ^ 64"
    and "\<forall>p n. 0 < p \<and> p < 100 \<and> 0 < n \<longrightarrow> 0 < ceil_of p n \<and> ceil_of p n \<le> n"
    and "run_calls (lat_call ceil_of) ops st = (as, st1)" "lat_call ceil_of (s, now_ms, mem) st1 = (Some rep, st2)" "ys = last_samples (max 1 capacity) (map fst ops @ [s])"
  shows "lrp_samples rep = length ys \<and> (\<forall>(line, metric) \<in> {(lrp_capture rep, lsm_capture_us), (lrp_encode rep, lsm_encode_us), (lrp_send rep, lsm_send_us), (lrp_total rep, lsm_total_us)}.
     list_all2 (\<lambda>p v. has_rank (map metric ys) (ceil_of p (length ys)) v) [50, 95, 99] line)"
proof -
  obtain st' where st: "st = Some st'" "lat_rel (max 1 capacity) interval st' []"
    using assms(1) by (auto simp: lat_rel_def last_samples_def lat_start_def Let_def max_def)
  obtain u where u: "st1 = Some u" "lat_rel (max 1 capacity) interval u (map fst ops)" using lat_run [OF st(2) assms(4) [unfolded st(1)]] by (metis append_Nil)
  note step = lat_step [OF u(2) assms(5) [unfolded u(1)], folded assms(6)]
  have ys: "ys \<noteq> []" "length ys < 2 ^ 64" using assms(2) by (auto simp: assms(6) last_samples_def)
  have line: "list_all2 (\<lambda>p v. has_rank (map metric ys) (ceil_of p (length ys)) v) [50, 95, 99] (report_line ceil_of (map metric ys))" for metric :: "latency_sample \<Rightarrow> u64"
    using percentile_rank [of "map metric ys" _ ceil_of] ys assms(3) by (simp add: report_line_def)
  show ?thesis using step line by (auto simp: Let_def)
qed

definition lat_sample :: "u64 \<Rightarrow> latency_sample" where
  "lat_sample t = \<lparr>lsm_capture_us = t, lsm_encode_us = 2 * t, lsm_send_us = 3 * t, lsm_total_us = 6 * t\<rparr>"

definition ceil_percent :: "nat \<Rightarrow> nat \<Rightarrow> nat" where "ceil_percent p n = (p * n + 99) div 100"

lemma latency_report_percentiles_witness:
  "\<exists>st as st1 rep st2. latency_init True 0 (Some \<lparr>lst_enabled = False, lst_capacity = 0, lst_count = 0, lst_cursor = 0, lst_report_interval_ms = 0,
        lst_last_report_ms = 0, lst_samples = None\<rparr>) 2 1000 True = (0, st)
    \<and> run_calls (lat_call ceil_percent) [(lat_sample 9, 10, True), (lat_sample 5, 20, True)] st = (as, st1)
    \<and> lat_call ceil_percent (lat_sample 7, 2000, True) st1 = (Some rep, st2)
    \<and> has_rank [5, 7] 1 (hd (lrp_capture rep))"
proof -
  let ?st0 = "\<lparr>lst_enabled = False, lst_capacity = 0, lst_count = 0, lst_cursor = 0, lst_report_interval_ms = 0, lst_last_report_ms = 0, lst_samples = None\<rparr> :: latency_stats"
  let ?ops = "[(lat_sample 9, 10, True), (lat_sample 5, 20, True)] :: lat_op list"
  obtain st where st: "latency_init True 0 (Some ?st0) 2 1000 True = (0, st)" by (simp add: Let_def)
  obtain as st1 where r: "run_calls (lat_call ceil_percent) ?ops st = (as, st1)" by (metis surj_pair)
  obtain a st2 where c: "lat_call ceil_percent (lat_sample 7, 2000, True) st1 = (a, st2)" by (metis surj_pair)
  have "a \<noteq> None" using st r c by (auto simp: Let_def add_sample_def latency_report_def fill_metric_samples_def)
  then obtain rep where rep: "a = Some rep" by blast
  have law: "\<forall>p n. 0 < p \<and> p < 100 \<and> 0 < n \<longrightarrow> 0 < ceil_percent p n \<and> ceil_percent p n \<le> n"
  proof (intro allI impI)
    fix p n :: nat
    assume a: "0 < p \<and> p < 100 \<and> 0 < n"
    define q where "q = p * n"
    have "q > 0" "q \<le> 99 * n" using a by (simp_all add: q_def)
    then have "0 < (q + 99) div 100 \<and> (q + 99) div 100 \<le> n" by linarith
    then show "0 < ceil_percent p n \<and> ceil_percent p n \<le> n" by (simp add: ceil_percent_def q_def)
  qed
  have ys: "last_samples (max 1 2) (map fst ?ops @ [lat_sample 7]) = [lat_sample 5, lat_sample 7]" by (simp add: last_samples_def)
  have "(2 :: nat) < 2 ^ 64" by simp
  then have "list_all2 (\<lambda>p v. has_rank (map lsm_capture_us [lat_sample 5, lat_sample 7]) (ceil_percent p (Suc (Suc 0))) v) [50, 95, 99] (lrp_capture rep)"
    using latency_report_percentiles [OF st _ law r c [unfolded rep] refl] unfolding ys by simp
  then have "has_rank [5, 7] 1 (hd (lrp_capture rep))"
    by (cases "lrp_capture rep") (simp_all add: lat_sample_def ceil_percent_def)
  then show ?thesis using st r c rep by blast
qed

end
