(* ===== verification/Host.thy ===== *)
theory Host
  imports Net_Props Recording Latency "HOL-Library.Signed_Division"
begin

text \<open>
  The host (\<^verbatim>\<open>src/src/service.c\<close>): the choice of back ends, the main loop that captures, encodes, records and sends, and the check of the
  peers' health; with the capture and encoding back ends that need no device (\<^verbatim>\<open>dummy_capture.c\<close>, \<^verbatim>\<open>raw_encoder.c\<close>).  The state puts the
  network core, the recording and the timings together.
\<close>

section \<open>Choosing back ends\<close>

text \<open>A back end has a name and may have a test of availability; \<open>drv_*\<close> are the drivers' answers.  The second result is the list of back ends tried.\<close>

record backend =
  bke_name :: string
  bke_checks :: bool

record drivers =
  drv_available :: "string \<Rightarrow> bool"
  drv_init :: "string \<Rightarrow> bool"

fun pick_backend :: "drivers \<Rightarrow> backend list \<Rightarrow> backend option \<times> backend list" where
  "pick_backend D [] = (None, [])"
| "pick_backend D (b # bs) =
     (if bke_checks b \<and> \<not> drv_available D (bke_name b) then pick_backend D bs
      else if drv_init D (bke_name b) then (Some b, [b])
      else (case pick_backend D bs of (r, tried) \<Rightarrow> (r, b # tried)))"

definition capture_backends :: "backend list" where
  "capture_backends = map (\<lambda>n. \<lparr>bke_name = n, bke_checks = False\<rparr>) [''DRM/KMS'', ''X11 SHM'', ''Dummy Pattern'']"

definition encoder_backends :: "backend list" where
  "encoder_backends = map (\<lambda>n. \<lparr>bke_name = n, bke_checks = True\<rparr>) [''NVENC (NVIDIA GPU)'', ''VA-API (Intel/AMD GPU)'', ''FFmpeg/x264 (Software)'']
     @ [\<lparr>bke_name = ''Raw Pass-through (Debug)'', bke_checks = False\<rparr>]"

definition audio_capture_backends :: "backend list" where
  "audio_capture_backends = map (\<lambda>n. \<lparr>bke_name = n, bke_checks = True\<rparr>) [''ALSA'', ''PulseAudio'', ''PipeWire''] @ [\<lparr>bke_name = ''Dummy (Silent)'', bke_checks = False\<rparr>]"

record active_backend =
  act_capture :: string
  act_encoder :: string
  act_input :: string
  act_audio_cap :: string

definition codec_h265 :: "string \<Rightarrow> bool" where
  "codec_h265 video_codec \<longleftrightarrow> video_codec = ''h265'' \<or> video_codec = ''hevc''"

text \<open>The beginning of \<open>service_run_host\<close>, up to the loop.  The last flags say whether the Opus encoder and the encode buffer can be had.\<close>

definition pick_input :: "drivers \<Rightarrow> string \<Rightarrow> string" where
  "pick_input D before = (if drv_init D ''uinput'' then ''uinput'' else if drv_init D ''xdotool'' then ''xdotool''
     else if drv_init D ''logging (debug)'' then ''logging (debug)'' else before)"

definition pick_audio :: "drivers \<Rightarrow> bool \<Rightarrow> bool \<Rightarrow> string" where
  "pick_audio D audio_enabled opus_ok =
     (if \<not> audio_enabled then ''disabled''
      else (case fst (pick_backend D audio_capture_backends) of None \<Rightarrow> ''disabled''
        | Some b \<Rightarrow> if opus_ok then bke_name b else ''disabled''))"

definition service_host_setup :: "drivers \<Rightarrow> string \<Rightarrow> bool \<Rightarrow> bool \<Rightarrow> bool \<Rightarrow> active_backend \<Rightarrow> int \<times> active_backend" where
  "service_host_setup D video_codec audio_enabled opus_ok mem a =
     (case fst (pick_backend D capture_backends) of
        None \<Rightarrow> (-1, a)
      | Some c \<Rightarrow> let a = a\<lparr>act_capture := bke_name c\<rparr> in
          (case fst (pick_backend D encoder_backends) of
             None \<Rightarrow> (-1, a)
           | Some e \<Rightarrow> let a = a\<lparr>act_encoder := bke_name e, act_input := pick_input D (act_input a), act_audio_cap := pick_audio D audio_enabled opus_ok\<rparr> in
               (if mem then 0 else -1, a)))"

section \<open>The state\<close>

record display =
  dsp_width :: u32
  dsp_height :: u32
  dsp_refresh :: u32

record host =
  hst_net :: rs
  hst_display :: display
  hst_latency :: latency_stats
  hst_recording :: recording_ctx
  hst_disk :: filestore
  hst_us_clock :: "nat \<Rightarrow> u64"
  hst_us_reads :: nat
  hst_counter :: u64
  hst_captured :: u64
  hst_reports :: "latency_report list"
  hst_sleeps :: "nat list"

definition get_timestamp_us :: "host \<Rightarrow> u64 \<times> host" where
  "get_timestamp_us h = (hst_us_clock h (hst_us_reads h), h\<lparr>hst_us_reads := hst_us_reads h + 1\<rparr>)"

section \<open>The test pattern\<close>

text \<open>The shades of one pixel; \<open>ox\<close> and \<open>oy\<close> are the offsets that the sines give.\<close>

definition bar_colour :: "nat \<Rightarrow> u8 list" where
  "bar_colour n = (if n < 8 then [[255, 255, 255], [255, 255, 0], [0, 255, 255], [0, 255, 0], [255, 0, 255], [255, 0, 0], [0, 0, 255], [0, 0, 0]] ! n
     else [128, 128, 128])"

definition dummy_pixel :: "u32 \<Rightarrow> u32 \<Rightarrow> int \<Rightarrow> int \<Rightarrow> u64 \<Rightarrow> u32 \<Rightarrow> u32 \<Rightarrow> u8 list" where
  "dummy_pixel width height ox oy n x y =
     (let px = uint x + ox; py = uint y + oy in
      (if y < height div 4 then bar_colour (unat (x * 8 div width))
       else if y < height div 2
       then [ucast ((of_int (px smod 256) + n) mod 256), ucast ((of_int (py smod 256) + n div 2) mod 256), ucast ((of_int ((px + py) smod 256) + n div 3) mod 256)]
       else if y < 3 * height div 4
       then replicate 3 (if (px sdiv 32) smod 2 \<noteq> (py sdiv 32) smod 2 then 255 else 64)
       else let intensity = ucast (n mod 256) in [intensity, 128, 255 - intensity]) @ [255])"

definition pixels :: "nat \<Rightarrow> nat \<Rightarrow> (nat \<times> nat) list" where
  "pixels w h = concat (map (\<lambda>y. map (\<lambda>x. (x, y)) [0..<w]) [0..<h])"

definition write_pixel :: "display \<Rightarrow> int \<times> int \<Rightarrow> u64 \<Rightarrow> rs \<Rightarrow> nat \<times> nat \<Rightarrow> rs" where
  "write_pixel d off n s p = heap_write (f_data (c_frame s)) (unat ((of_nat (snd p) * dsp_width d + of_nat (fst p)) * 4))
     (dummy_pixel (dsp_width d) (dsp_height d) (fst off) (snd off) n (of_nat (fst p)) (of_nat (snd p))) s"

definition dummy_frame_size :: "display \<Rightarrow> nat" where
  "dummy_frame_size d = unat (dsp_width d * dsp_height d * 4)"

definition rootstream_capture_init_dummy :: "host \<Rightarrow> int \<times> host" where
  "rootstream_capture_init_dummy h =
     (let d = hst_display h;
          d = (if dsp_width d = 0 \<or> dsp_height d = 0 then d\<lparr>dsp_width := 1920, dsp_height := 1080\<rparr> else d);
          d = d\<lparr>dsp_refresh := 60\<rparr>; n = dummy_frame_size d in
      (case realloc (hst_net h) None n of
         (None, s) \<Rightarrow> (-1, h\<lparr>hst_display := d, hst_net := s\<lparr>c_frame := (c_frame s)\<lparr>f_data := None\<rparr>\<rparr>\<rparr>)
       | (Some b, s) \<Rightarrow> (0, h\<lparr>hst_display := d, hst_counter := 0, hst_net := s\<lparr>c_frame := (c_frame s)\<lparr>f_data := Some b, f_size := n, f_capacity := n\<rparr>\<rparr>\<rparr>)))"

definition rootstream_capture_frame_dummy :: "(u64 \<Rightarrow> int \<times> int) \<Rightarrow> host \<Rightarrow> bool \<times> host" where
  "rootstream_capture_frame_dummy waves h =
     (let d = hst_display h;
          s = foldl (write_pixel d (waves (hst_counter h)) (hst_counter h)) (hst_net h) (pixels (unat (dsp_width d)) (unat (dsp_height d))) in
      (case get_timestamp_us (h\<lparr>hst_net := s\<rparr>) of (t, h) \<Rightarrow>
        (True, h\<lparr>hst_net := s\<lparr>c_frame := (c_frame s)\<lparr>f_timestamp := t\<rparr>\<rparr>, hst_counter := hst_counter h + 1, hst_captured := hst_captured h + 1\<rparr>)))"

definition rootstream_capture_cleanup_dummy :: "host \<Rightarrow> host" where
  "rootstream_capture_cleanup_dummy h =
     (let s = heap_free (f_data (c_frame (hst_net h))) (hst_net h) in
      h\<lparr>hst_net := s\<lparr>c_frame := (c_frame s)\<lparr>f_data := None\<rparr>\<rparr>, hst_counter := 0\<rparr>)"

section \<open>The raw encoder\<close>

text \<open>The header and the pixels of a frame of the display's size; reading outside of the frame's block is a fault.\<close>

definition RAW_MAGIC :: u32 where "RAW_MAGIC = 0x52535452"
definition RAW_FORMAT_RGBA :: u32 where "RAW_FORMAT_RGBA = 1"

definition raw_header :: "u32 \<Rightarrow> u32 \<Rightarrow> u64 \<Rightarrow> u8 list" where
  "raw_header width height ts = w32le RAW_MAGIC @ w32le width @ w32le height @ w32le RAW_FORMAT_RGBA @ w64le ts"

definition rootstream_encode_frame_raw :: "u32 \<Rightarrow> u32 \<Rightarrow> rs \<Rightarrow> u8 list option \<times> rs" where
  "rootstream_encode_frame_raw width height s =
     (let n = unat width * unat height * 4 in
      case Option.bind (f_data (c_frame s)) (w_heap s) of
        Some c \<Rightarrow> if n \<le> length c then (Some (raw_header width height (f_timestamp (c_frame s)) @ take n c), s) else (None, s\<lparr>w_fault := True\<rparr>)
      | None \<Rightarrow> (None, s\<lparr>w_fault := True\<rparr>))"

section \<open>The health of the peers\<close>

definition check_peer :: "u64 \<Rightarrow> rs \<Rightarrow> nat \<Rightarrow> rs" where
  "check_peer now s i =
     (let p = peer_at s i in
      if p_state p = PEER_CONNECTED \<and> last_received p > 0 \<and> now - last_received p > 30000
      then let s = upd_peer i (\<lambda>p. p\<lparr>p_state := PEER_DISCONNECTED\<rparr>) s in
        (case p_reconnect p of None \<Rightarrow> s | Some _ \<Rightarrow> snd (peer_try_reconnect s i))
      else s)"

definition check_peer_health :: "rs \<Rightarrow> rs" where
  "check_peer_health s = (case get_timestamp_ms s of (now, s) \<Rightarrow> foldl (check_peer now) s [0..<length (c_peers s)])"

section \<open>The loop\<close>

text \<open>
  The function pointers of the chosen back ends and the encoders: a capture that fails or fills the current frame, \<open>rootstream_encode_frame_ex\<close>,
  a number of audio samples, and their Opus encoding.
\<close>

record host_io =
  hio_capture :: "host \<Rightarrow> bool \<times> host"
  hio_encode :: "host \<Rightarrow> (u8 list \<times> bool) option \<times> host"
  hio_audio :: "host \<Rightarrow> nat option \<times> host"
  hio_opus :: "nat \<Rightarrow> host \<Rightarrow> u8 list option \<times> host"

definition audio_header :: "u64 \<Rightarrow> nat \<Rightarrow> u8 list" where
  "audio_header t num_samples = w64le t @ w32le 48000 @ w16le 2 @ w16le (of_nat num_samples)"

definition host_send_peer :: "externals \<Rightarrow> u8 list \<Rightarrow> u8 list \<Rightarrow> nat \<Rightarrow> host \<Rightarrow> nat \<Rightarrow> host" where
  "host_send_peer X data audio num_samples h i =
     (if i \<ge> length (c_peers (hst_net h)) \<or> \<not> (p_state (peer_at (hst_net h) i) = PEER_CONNECTED \<and> is_streaming (peer_at (hst_net h) i)) then h
      else let s = hst_net h; s = (if data \<noteq> [] then snd (rootstream_net_send_video X s i data (f_timestamp (c_frame s))) else s); h = h\<lparr>hst_net := s\<rparr> in
        if audio = [] then h
        else (case get_timestamp_us h of (t, h) \<Rightarrow>
          let payload = audio_header t num_samples @ audio in
          h\<lparr>hst_net := snd (rootstream_net_send_encrypted X (hst_net h) i PKT_AUDIO (Some payload) (length payload))\<rparr>))"

definition host_record :: "u8 list \<Rightarrow> bool \<Rightarrow> host \<Rightarrow> host" where
  "host_record data is_keyframe h =
     (if \<not> rec_active (hst_recording h) \<or> data = [] then h
      else (case get_timestamp_us h of (t, h) \<Rightarrow>
        (case recording_write_frame t (Some (hst_recording h)) (Some data) is_keyframe (hst_disk h) of (_, r, fs) \<Rightarrow> h\<lparr>hst_recording := the r, hst_disk := fs\<rparr>)))"

definition host_audio :: "host_io \<Rightarrow> host \<Rightarrow> nat \<times> u8 list \<times> host" where
  "host_audio io h = (case hio_audio io h of (n, h) \<Rightarrow>
     (case n of None \<Rightarrow> (0, [], h)
      | Some n \<Rightarrow> if n = 0 then (0, [], h) else (case hio_opus io n h of (a, h) \<Rightarrow> (n, case a of None \<Rightarrow> [] | Some a \<Rightarrow> a, h))))"

definition host_latency :: "(nat \<Rightarrow> nat \<Rightarrow> nat) \<Rightarrow> latency_sample \<Rightarrow> host \<Rightarrow> host" where
  "host_latency ceil_of smp h =
     (if \<not> lst_enabled (hst_latency h) then h
      else (case get_timestamp_ms (hst_net h) of (now, s) \<Rightarrow>
        (case latency_record ceil_of True now (Some (hst_latency h)) (Some smp) of (r, l) \<Rightarrow>
          h\<lparr>hst_net := s, hst_latency := the l, hst_reports := hst_reports h @ (case r of None \<Rightarrow> [] | Some r \<Rightarrow> [r])\<rparr>)))"

definition host_serve :: "externals \<Rightarrow> udp_in \<Rightarrow> host \<Rightarrow> host" where
  "host_serve X inp h = h\<lparr>hst_net := check_peer_health (rootstream_net_tick X (snd (rootstream_net_recv X (hst_net h) inp)))\<rparr>"

definition host_sleep :: "nat \<Rightarrow> host \<Rightarrow> host" where
  "host_sleep us h = h\<lparr>hst_sleeps := hst_sleeps h @ [us]\<rparr>"

definition host_iteration :: "externals \<Rightarrow> (nat \<Rightarrow> nat \<Rightarrow> nat) \<Rightarrow> host_io \<Rightarrow> host \<Rightarrow> udp_in \<Rightarrow> host" where
  "host_iteration X ceil_of io h inp =
     (case get_timestamp_us h of (loop_start, h) \<Rightarrow>
      case hio_capture io h of (ok, h) \<Rightarrow>
      if \<not> ok then host_sleep 16000 h
      else
        case get_timestamp_us h of (capture_end, h) \<Rightarrow>
        case get_timestamp_us h of (encode_start, h) \<Rightarrow>
        case hio_encode io h of
          (None, h) \<Rightarrow> h
        | (Some (data, is_keyframe), h) \<Rightarrow>
            case get_timestamp_us h of (encode_end, h) \<Rightarrow>
            case host_audio io (host_record data is_keyframe h) of (num_samples, audio, h) \<Rightarrow>
            case get_timestamp_us h of (send_start, h) \<Rightarrow>
            case get_timestamp_us (foldl (host_send_peer X data audio num_samples) h [0..<MAX_PEERS]) of (send_end, h) \<Rightarrow>
              let smp = \<lparr>lsm_capture_us = capture_end - loop_start, lsm_encode_us = encode_end - encode_start, lsm_send_us = send_end - send_start,
                    lsm_total_us = send_end - loop_start\<rparr>;
                  h = host_serve X inp (host_latency ceil_of smp h) in
              host_sleep (unat (1000000 div (if dsp_refresh (hst_display h) = 0 then 60 else dsp_refresh (hst_display h)))) h)"

text \<open>The loop while the service runs, one packet or none arriving in each iteration.\<close>

definition host_loop :: "externals \<Rightarrow> (nat \<Rightarrow> nat \<Rightarrow> nat) \<Rightarrow> host_io \<Rightarrow> host \<Rightarrow> udp_in list \<Rightarrow> host" where
  "host_loop X ceil_of io h inps = foldl (host_iteration X ceil_of io) h inps"

section \<open>What is chosen\<close>

text \<open>The back end chosen is the first that is there and can be initialised; those before it were tried or are not there.\<close>

lemma pick_backend_first:
  "pick_backend D bs = (r, tried) \<Longrightarrow>
   r = find (\<lambda>b. (bke_checks b \<longrightarrow> drv_available D (bke_name b)) \<and> drv_init D (bke_name b)) bs
   \<and> (\<forall>b \<in> set tried. bke_checks b \<longrightarrow> drv_available D (bke_name b))"
  by (induction bs arbitrary: r tried) (auto split: if_splits prod.splits)

section \<open>The test pattern in the frame\<close>

lemma heap_write_same [simp]: "c_frame (heap_write b off bs s) = c_frame s"
  by (simp add: heap_write_def split: option.split)

lemma heap_write_inside:
  "w_heap s b = Some c \<Longrightarrow> bs \<noteq> [] \<Longrightarrow> off + length bs \<le> length c \<Longrightarrow>
   heap_write (Some b) off bs s = s\<lparr>w_heap := (w_heap s)(b \<mapsto> write_at off bs c)\<rparr>"
  by (simp add: heap_write_def)

lemma write_pixel_frame [simp]: "c_frame (write_pixel d o' n s p) = c_frame s" "c_peers (write_pixel d o' n s p) = c_peers s"
  by (simp_all add: write_pixel_def)

lemma foldl_write_pixel_frame [simp]:
  "c_frame (foldl (write_pixel d o' n) s ps) = c_frame s" "c_peers (foldl (write_pixel d o' n) s ps) = c_peers s"
  by (induction ps arbitrary: s) simp_all

lemma length_dummy_pixel [simp]: "length (dummy_pixel w h ox oy n x y) = 4"
proof -
  have "length (bar_colour k) = 3" for k
  proof (cases "k < 8")
    case True
    then have "k \<in> {0, 1, 2, 3, 4, 5, 6, 7}" by auto
    then show ?thesis by (auto simp: bar_colour_def)
  qed (simp add: bar_colour_def)
  then show ?thesis by (simp add: dummy_pixel_def Let_def)
qed

lemma pixels_map: "pixels w h = map (\<lambda>k. (k mod w, k div w)) [0..<w * h]"
proof (induction h)
  case (Suc h)
  have "map (\<lambda>k. (k mod w, k div w)) [w * h..<w * h + w] = map (\<lambda>x. (x, h)) [0..<w]"
    by (rule nth_equalityI) auto
  moreover have "[0..<w * Suc h] = [0..<w * h] @ [w * h..<w * h + w]"
    using upt_add_eq_append [of 0 "w * h" w] by (simp add: add.commute)
  ultimately show ?case using Suc by (simp add: pixels_def)
qed (simp add: pixels_def)

text \<open>A display whose frame the code can address.\<close>

definition display_ok :: "display \<Rightarrow> bool" where
  "display_ok d \<longleftrightarrow> 0 < unat (dsp_width d) \<and> 0 < unat (dsp_height d) \<and> unat (dsp_width d) * unat (dsp_height d) * 4 < 2 ^ 32"

lemma unat_small_word:
  fixes a b c :: u32
  assumes "unat a * unat b * 4 < 2 ^ 32"
  shows "unat (a * b * 4) = unat a * unat b * 4"
  using assms by (simp add: unat_word_ariths)

lemma pixel_index:
  assumes "display_ok d" "k < unat (dsp_width d) * unat (dsp_height d)"
  shows "unat ((of_nat (k div unat (dsp_width d)) * dsp_width d + of_nat (k mod unat (dsp_width d))) * 4 :: u32) = 4 * k"
proof -
  let ?w = "unat (dsp_width d)"
  have "of_nat (k div ?w) * dsp_width d + of_nat (k mod ?w) = (of_nat (k div ?w) * of_nat ?w + of_nat (k mod ?w) :: u32)" by simp
  also have "\<dots> = of_nat (k div ?w * ?w + k mod ?w)" by (simp only: of_nat_add of_nat_mult)
  also have "\<dots> = of_nat k" by (simp only: div_mult_mod_eq)
  finally have e: "(of_nat (k div ?w) * dsp_width d + of_nat (k mod ?w)) * 4 = (of_nat (4 * k) :: u32)" by (simp add: mult.commute)
  have "4 * k < 2 ^ 32" using assms unfolding display_ok_def by linarith
  then show ?thesis unfolding e by (intro unat_of_nat_less) simp
qed

definition dummy_pattern :: "display \<Rightarrow> int \<times> int \<Rightarrow> u64 \<Rightarrow> u8 list" where
  "dummy_pattern d o' n = concat (map (\<lambda>p. dummy_pixel (dsp_width d) (dsp_height d) (fst o') (snd o') n (of_nat (fst p)) (of_nat (snd p)))
     (pixels (unat (dsp_width d)) (unat (dsp_height d))))"

lemma take_concat_four: "(\<And>p. length (f p) = 4) \<Longrightarrow> take (4 * j) (concat (map f ps)) = concat (map f (take j ps))"
proof (induction ps arbitrary: j)
  case (Cons p ps)
  then show ?case by (cases j) simp_all
qed simp

lemma length_concat_four: "(\<And>p. length (f p) = 4) \<Longrightarrow> length (concat (map f ps)) = 4 * length ps"
  by (induction ps) simp_all

text \<open>Writing one pixel after the other.\<close>

lemma write_pixels:
  assumes "f_data (c_frame s) = Some b" "w_heap s b = Some c" "display_ok d" "k \<le> unat (dsp_width d) * unat (dsp_height d)" "4 * k \<le> length c"
  shows "let s' = foldl (write_pixel d o' n) s (take k (pixels (unat (dsp_width d)) (unat (dsp_height d)))) in
    w_heap s' b = Some (take (4 * k) (dummy_pattern d o' n) @ drop (4 * k) c) \<and> w_fault s' = w_fault s \<and> (\<forall>b'. b' \<noteq> b \<longrightarrow> w_heap s' b' = w_heap s b')"
  using assms(4,5)
proof (induction k)
  case (Suc k)
  let ?ps = "pixels (unat (dsp_width d)) (unat (dsp_height d))"
  let ?f = "\<lambda>p. dummy_pixel (dsp_width d) (dsp_height d) (fst o') (snd o') n (of_nat (fst p)) (of_nat (snd p))"
  let ?s = "foldl (write_pixel d o' n) s (take k ?ps)"
  have k: "k < length ?ps" using Suc.prems(1) by (simp add: pixels_map)
  have IH: "w_heap ?s b = Some (take (4 * k) (dummy_pattern d o' n) @ drop (4 * k) c)" "w_fault ?s = w_fault s" "\<forall>b'. b' \<noteq> b \<longrightarrow> w_heap ?s b' = w_heap s b'"
    using Suc.IH Suc.prems by (simp_all add: Let_def)
  have pk: "?ps ! k = (k mod unat (dsp_width d), k div unat (dsp_width d))" using k by (simp add: pixels_map)
  have idx: "unat ((of_nat (snd (?ps ! k)) * dsp_width d + of_nat (fst (?ps ! k))) * 4) = 4 * k"
    using pixel_index [OF assms(3), of k] Suc.prems(1) by (simp add: pk)
  have tk: "take (4 * j) (dummy_pattern d o' n) = concat (map ?f (take j ?ps))" for j
    unfolding dummy_pattern_def by (rule take_concat_four) simp
  let ?P = "take (4 * k) (dummy_pattern d o' n)"
  have P: "length ?P = 4 * k" using k by (simp add: tk length_concat_four del: mult_Suc_right)
  have P': "take (4 * Suc k) (dummy_pattern d o' n) = ?P @ ?f (?ps ! k)"
    unfolding tk take_Suc_conv_app_nth [OF k] by simp
  have "write_at (4 * k) (?f (?ps ! k)) (?P @ drop (4 * k) c) = ?P @ ?f (?ps ! k) @ drop (4 * Suc k) c"
    using P by (simp add: write_at_def add.commute)
  moreover have "4 * k + 4 \<le> length (?P @ drop (4 * k) c)" "?f (?ps ! k) \<noteq> []" using P Suc.prems(2) length_dummy_pixel by (simp, metis list.size(3) zero_neq_numeral)
  ultimately have "heap_write (Some b) (4 * k) (?f (?ps ! k)) ?s = ?s\<lparr>w_heap := (w_heap ?s)(b \<mapsto> take (4 * Suc k) (dummy_pattern d o' n) @ drop (4 * Suc k) c)\<rparr>"
    unfolding P' by (subst heap_write_inside [OF IH(1)]) simp_all
  moreover have "write_pixel d o' n ?s (?ps ! k) = heap_write (Some b) (4 * k) (?f (?ps ! k)) ?s"
    unfolding write_pixel_def [of d o' n ?s "?ps ! k"] idx by (simp add: assms(1))
  ultimately have "foldl (write_pixel d o' n) s (take (Suc k) ?ps) = ?s\<lparr>w_heap := (w_heap ?s)(b \<mapsto> take (4 * Suc k) (dummy_pattern d o' n) @ drop (4 * Suc k) c)\<rparr>"
    unfolding take_Suc_conv_app_nth [OF k] by simp
  then show ?case using IH(2,3) by (simp add: Let_def)
qed (simp add: assms(2))

text \<open>A frame buffer of the display's size gets the pattern, and nothing else of the core changes but the frame's time; the raw encoder sends it on.\<close>

theorem dummy_frame_encoded:
  assumes "f_data (c_frame (hst_net h)) = Some b" "w_heap (hst_net h) b = Some c" "display_ok (hst_display h)" "length c = dummy_frame_size (hst_display h)"
    and "rootstream_capture_frame_dummy waves h = (ok, h')" "rootstream_encode_frame_raw (dsp_width (hst_display h')) (dsp_height (hst_display h')) (hst_net h') = (out, s')"
  shows "ok \<and> s' = hst_net h' \<and> w_fault (hst_net h') = w_fault (hst_net h) \<and> c_peers (hst_net h') = c_peers (hst_net h)
    \<and> (\<forall>b'. b' \<noteq> b \<longrightarrow> w_heap (hst_net h') b' = w_heap (hst_net h) b')
    \<and> out = Some (raw_header (dsp_width (hst_display h)) (dsp_height (hst_display h)) (hst_us_clock h (hst_us_reads h))
        @ dummy_pattern (hst_display h) (waves (hst_counter h)) (hst_counter h))"
proof -
  let ?d = "hst_display h" and ?o = "waves (hst_counter h)" and ?n = "hst_counter h"
  let ?ps = "pixels (unat (dsp_width ?d)) (unat (dsp_height ?d))"
  let ?s = "foldl (write_pixel ?d ?o ?n) (hst_net h) ?ps"
  have l: "length ?ps = unat (dsp_width ?d) * unat (dsp_height ?d)" by (simp add: pixels_map)
  have n: "dummy_frame_size ?d = unat (dsp_width ?d) * unat (dsp_height ?d) * 4"
    using assms(3) unfolding dummy_frame_size_def display_ok_def by (intro unat_small_word) simp
  have len: "length (dummy_pattern ?d ?o ?n) = 4 * length ?ps" unfolding dummy_pattern_def by (rule length_concat_four) simp
  have c: "4 * length ?ps \<le> length c" "length c = length (dummy_pattern ?d ?o ?n)" using assms(4) n l len by simp_all
  have "take (length ?ps) ?ps = ?ps" "take (4 * length ?ps) (dummy_pattern ?d ?o ?n) = dummy_pattern ?d ?o ?n" "drop (4 * length ?ps) c = []"
    using c len by simp_all
  with write_pixels [OF assms(1-3), of "length ?ps" ?o ?n] l c(1) have
    w: "w_heap ?s b = Some (dummy_pattern ?d ?o ?n)" "w_fault ?s = w_fault (hst_net h)" "\<forall>b'. b' \<noteq> b \<longrightarrow> w_heap ?s b' = w_heap (hst_net h) b'"
    unfolding Let_def by auto
  have h': "ok" "hst_net h' = ?s\<lparr>c_frame := (c_frame ?s)\<lparr>f_timestamp := hst_us_clock h (hst_us_reads h)\<rparr>\<rparr>" "hst_display h' = ?d"
    using assms(5) by (auto simp: rootstream_capture_frame_dummy_def get_timestamp_us_def Let_def)
  have "rootstream_encode_frame_raw (dsp_width ?d) (dsp_height ?d) (hst_net h')
      = (Some (raw_header (dsp_width ?d) (dsp_height ?d) (hst_us_clock h (hst_us_reads h)) @ dummy_pattern ?d ?o ?n), hst_net h')"
    unfolding rootstream_encode_frame_raw_def Let_def h'(2) using assms(1) w(1) len l by simp
  then have e: "s' = hst_net h'" "out = Some (raw_header (dsp_width ?d) (dsp_height ?d) (hst_us_clock h (hst_us_reads h)) @ dummy_pattern ?d ?o ?n)"
    using assms(6) by (simp_all add: h'(3))
  have "w_fault (hst_net h') = w_fault (hst_net h)" "c_peers (hst_net h') = c_peers (hst_net h)" "\<forall>b'. b' \<noteq> b \<longrightarrow> w_heap (hst_net h') b' = w_heap (hst_net h) b'"
    unfolding h'(2) using w(2,3) by simp_all
  then show ?thesis using h'(1) e by blast
qed

text \<open>A host with a display of two by two pixels for the witnesses.\<close>

definition ex_host :: "rs \<Rightarrow> host" where
  "ex_host s = \<lparr>hst_net = s, hst_display = \<lparr>dsp_width = 2, dsp_height = 2, dsp_refresh = 60\<rparr>,
     hst_latency = \<lparr>lst_enabled = False, lst_capacity = 0, lst_count = 0, lst_cursor = 0, lst_report_interval_ms = 0, lst_last_report_ms = 0, lst_samples = None\<rparr>,
     hst_recording = \<lparr>rec_fd = None, rec_active = False, rec_start_time_us = 0, rec_frame_count = 0, rec_bytes_written = 0, rec_filename = []\<rparr>,
     hst_disk = \<lparr>fs_files = Map.empty, fs_openable = \<lambda>_. True, fs_room = 0, fs_renames = True\<rparr>,
     hst_us_clock = of_nat, hst_us_reads = 0, hst_counter = 0, hst_captured = 0, hst_reports = [], hst_sleeps = []\<rparr>"

lemma ex_display: "display_ok (hst_display (ex_host s))" "dummy_frame_size (hst_display (ex_host s)) = 16"
  by (simp_all add: display_ok_def dummy_frame_size_def ex_host_def)

lemma dummy_frame_encoded_witness:
  "\<exists>h0 h' s'. rootstream_capture_init_dummy (ex_host (ex_rs True (\<lambda>_. 100) [])) = (0, h0) \<and> rootstream_capture_frame_dummy (\<lambda>_. (0, 0)) h0 = (True, h')
     \<and> rootstream_encode_frame_raw 2 2 (hst_net h') = (Some (raw_header 2 2 0 @ dummy_pattern (hst_display h0) (0, 0) 0), s')"
proof -
  let ?h = "ex_host (ex_rs True (\<lambda>_. 100) [])"
  define h0 where "h0 = snd (rootstream_capture_init_dummy ?h)"
  have fs: "dummy_frame_size \<lparr>dsp_width = 2, dsp_height = 2, dsp_refresh = 60\<rparr> = 16" by (simp add: dummy_frame_size_def)
  have i: "rootstream_capture_init_dummy ?h = (0, h0)" "f_data (c_frame (hst_net h0)) = Some 0" "\<exists>c. w_heap (hst_net h0) 0 = Some c \<and> length c = 16"
    "hst_display h0 = hst_display ?h" "hst_us_clock h0 0 = 0" "hst_us_reads h0 = 0" "hst_counter h0 = 0"
    by (simp_all add: h0_def rootstream_capture_init_dummy_def ex_host_def ex_rs_def realloc_def alloc_ok_def fs)
  obtain c where c: "w_heap (hst_net h0) 0 = Some c" "length c = 16" using i(3) by blast
  obtain ok h' where f: "rootstream_capture_frame_dummy (\<lambda>_. (0, 0)) h0 = (ok, h')" by fastforce
  then have d: "hst_display h' = hst_display ?h" using i(4) by (auto simp: rootstream_capture_frame_dummy_def get_timestamp_us_def Let_def)
  obtain out s' where e: "rootstream_encode_frame_raw (dsp_width (hst_display h')) (dsp_height (hst_display h')) (hst_net h') = (out, s')" by fastforce
  from dummy_frame_encoded [OF i(2) c(1) _ _ f e] c(2) ex_display i(4-7)
  have "ok" "out = Some (raw_header 2 2 0 @ dummy_pattern (hst_display h0) (0, 0) 0)" by (simp_all add: ex_host_def)
  moreover have "rootstream_encode_frame_raw 2 2 (hst_net h') = (out, s')" using e by (simp add: d ex_host_def)
  ultimately show ?thesis using i(1) f by auto
qed

section \<open>A peer's frame in the place of the host's\<close>

lemma heap_write_faulted: "w_fault s \<Longrightarrow> w_fault (heap_write b off bs s)"
  by (simp add: heap_write_def split: option.split)

lemma write_pixel_fault: "w_fault t \<Longrightarrow> w_fault (write_pixel d o' n t p)"
  by (simp add: write_pixel_def heap_write_faulted)

lemma write_pixel_length:
  assumes "w_fault t \<or> (\<exists>c'. w_heap t b = Some c' \<and> length c' = m)"
  shows "w_fault (write_pixel d o' n t p) \<or> (\<exists>c'. w_heap (write_pixel d o' n t p) b = Some c' \<and> length c' = m)"
  using assms
proof
  assume "w_fault t"
  then show ?thesis by (simp add: write_pixel_fault)
next
  assume "\<exists>c'. w_heap t b = Some c' \<and> length c' = m"
  then show ?thesis by (auto simp: write_pixel_def heap_write_def split: option.split)
qed

lemma foldl_write_pixel_length:
  "w_fault s \<or> (\<exists>c'. w_heap s b = Some c' \<and> length c' = m) \<Longrightarrow>
   w_fault (foldl (write_pixel d o' n) s ps) \<or> (\<exists>c'. w_heap (foldl (write_pixel d o' n) s ps) b = Some c' \<and> length c' = m)"
proof (induction ps arbitrary: s)
  case (Cons p ps)
  from Cons.IH [OF write_pixel_length [OF Cons.prems]] show ?case by simp
qed simp

lemma map_upt_last: "0 < N \<Longrightarrow> map f [0..<N] = butlast (map f [0..<N]) @ [f (N - 1)]"
  by (cases N) simp_all

text \<open>A frame buffer that is smaller than the display is written beyond its end.\<close>

lemma dummy_capture_overflows:
  assumes "f_data (c_frame (hst_net h)) = Some b" "w_heap (hst_net h) b = Some c" "display_ok (hst_display h)" "length c < dummy_frame_size (hst_display h)"
  shows "w_fault (hst_net (snd (rootstream_capture_frame_dummy waves h)))"
proof -
  let ?d = "hst_display h" and ?o = "waves (hst_counter h)" and ?n = "hst_counter h"
  let ?ps = "pixels (unat (dsp_width ?d)) (unat (dsp_height ?d))"
  let ?k = "unat (dsp_width ?d) * unat (dsp_height ?d) - 1"
  have k: "?k < unat (dsp_width ?d) * unat (dsp_height ?d)" using assms(3) by (simp add: display_ok_def)
  have n: "dummy_frame_size ?d = 4 * ?k + 4"
    using assms(3) unat_small_word [of "dsp_width ?d" "dsp_height ?d"] k by (simp add: dummy_frame_size_def display_ok_def algebra_simps)
  have ps: "?ps = butlast ?ps @ [(?k mod unat (dsp_width ?d), ?k div unat (dsp_width ?d))]"
    unfolding pixels_map by (rule map_upt_last) (use k in linarith)
  let ?s = "foldl (write_pixel ?d ?o ?n) (hst_net h) (butlast ?ps)"
  have idx: "unat ((of_nat (?k div unat (dsp_width ?d)) * dsp_width ?d + of_nat (?k mod unat (dsp_width ?d))) * 4 :: u32) = 4 * ?k"
    using pixel_index [OF assms(3) k] .
  have "w_fault (hst_net h) \<or> (\<exists>c'. w_heap (hst_net h) b = Some c' \<and> length c' = length c)" using assms(2) by blast
  then have "w_fault ?s \<or> (\<exists>c'. w_heap ?s b = Some c' \<and> length c' = length c)" by (rule foldl_write_pixel_length)
  then have "w_fault (write_pixel ?d ?o ?n ?s (?k mod unat (dsp_width ?d), ?k div unat (dsp_width ?d)))"
  proof
    assume "w_fault ?s"
    then show ?thesis by (rule write_pixel_fault)
  next
    assume "\<exists>c'. w_heap ?s b = Some c' \<and> length c' = length c"
    moreover have "dummy_pixel w' h' ox oy m x y \<noteq> []" for w' h' ox oy m x y using length_dummy_pixel by (metis list.size(3) zero_neq_numeral)
    ultimately show ?thesis unfolding write_pixel_def [of ?d ?o ?n ?s] fst_conv snd_conv idx using assms(1,4) n by (auto simp: heap_write_def)
  qed
  then have "w_fault (foldl (write_pixel ?d ?o ?n) (hst_net h) ?ps)" by (subst ps) simp
  then show ?thesis by (simp add: rootstream_capture_frame_dummy_def get_timestamp_us_def Let_def)
qed

lemma process_video_capacity:
  assumes "process_video u j dec = (True, u2)" "j < length (c_peers u)"
  shows "video_rx_capacity (peer_at u2 j) \<le> max (video_rx_capacity (peer_at u j)) (max (video_rx_expected (peer_at u j)) (unat (vc_total_size (read_chunk_header dec))))"
proof -
  let ?h = "read_chunk_header dec"
  let ?u = "upd_peer j (video_new_frame ?h) u"
  obtain u1 where g: "video_grow ?u j = (True, u1)" using assms(1) by (auto simp: process_video_def Let_def split: if_splits prod.splits)
  have p: "video_rx_capacity (peer_at ?u j) = video_rx_capacity (peer_at u j)"
    "video_rx_expected (peer_at ?u j) \<le> max (video_rx_expected (peer_at u j)) (unat (vc_total_size ?h))"
    using assms(2) by (simp_all add: video_new_frame_def)
  have "video_rx_capacity (peer_at u1 j) \<le> max (video_rx_capacity (peer_at ?u j)) (video_rx_expected (peer_at ?u j)) \<and> length (c_peers u1) = length (c_peers u)"
    using g assms(2) by (auto simp: video_grow_def realloc_def alloc_ok_def Let_def peer_at_def upd_peer_def split: if_splits option.splits prod.splits)
  moreover have "video_rx_capacity (peer_at u2 j) = video_rx_capacity (peer_at u1 j)"
  proof -
    let ?v = "heap_write (video_rx_buffer (peer_at u1 j)) (unat (vc_offset ?h)) (take (unat (vc_chunk_size ?h)) (drop VCH_SIZE dec)) u1"
    have "u2 = video_complete (upd_peer j (\<lambda>p. p\<lparr>video_rx_received := video_rx_received p + unat (vc_chunk_size ?h)\<rparr>) ?v) j (vc_timestamp ?h)"
      using assms(1) g by (auto simp: process_video_def Let_def split: if_splits)
    moreover have "j < length (c_peers ?v)" using calculation \<open>_ \<and> length (c_peers u1) = length (c_peers u)\<close> assms(2) by simp
    ultimately show ?thesis by (simp add: peer_at_def upd_peer_def)
  qed
  ultimately show ?thesis using p by linarith
qed

text \<open>
  A host that has sent its screen to a peer takes video packets from it as well.  One packet with a whole frame that is smaller than the display
  makes the peer's reassembly buffer the host's current frame, and the next capture writes beyond its end.
\<close>

theorem host_frame_overwritten:
  assumes "net_inv E u" "j < length (c_peers u)" "w_alloc u (w_allocs u)" "authenticated (session (peer_at u j))"
    and "aead_decrypt X (shared_key (session (peer_at u j))) (nonce_bytes nonce) c = Some (video_payload f data 0 (length data) ts)" "length c < 2 ^ 16"
    and "0 < length data" "length data < 2 ^ 16" "video_rx_frame_id (peer_at u j) \<noteq> f" "display_ok (hst_display h)"
    and "max (length data) (max (video_rx_capacity (peer_at u j)) (video_rx_expected (peer_at u j))) < dummy_frame_size (hst_display h)"
    and "\<not> w_fault u" "hst_net h = process_packet_for X u j (data_packet junk PKT_VIDEO nonce c)"
  shows "\<not> w_fault (hst_net h) \<and> w_fault (hst_net (snd (rootstream_capture_frame_dummy waves h)))"
proof -
  have d: "0 + length data \<le> length data" "length data \<le> MAX_VIDEO_FRAME_SIZE" using assms(8) by (simp_all add: MAX_VIDEO_FRAME_SIZE_def)
  have "vready u j f data 0" using net_inv_peer [OF assms(1,2)] assms(2,3,9) by (simp add: vready_def peer_at_def)
  from process_video_step [OF this d(1) assms(7,8) d(2)] obtain u2 where
    u2: "process_video u j (video_payload f data 0 (length data) ts) = (True, video_complete u2 j ts)" "vrx u2 j f data (0 + length data)" "w_fault u2 = w_fault u"
    by metis
  then obtain b c' where v: "video_rx_buffer (peer_at u2 j) = Some b" "w_heap u2 b = Some c'" "length c' = video_rx_capacity (peer_at u2 j)"
    "video_rx_received (peer_at u2 j) = length data" "video_rx_expected (peer_at u2 j) = length data" by (auto simp: vrx_def)
  have tot: "unat (vc_total_size (read_chunk_header (video_payload f data 0 (length data) ts))) = length data"
    using video_payload_ok(4) [OF d(1) assms(7,8) d(2)] .
  have pe: "peer_at (video_complete u2 j ts) j = peer_at u2 j" by (simp add: video_complete_def peer_at_def Let_def)
  have "length c' < dummy_frame_size (hst_display h)"
    using process_video_capacity [OF u2(1) assms(2), unfolded tot pe] v(3) assms(11) by linarith
  moreover have net: "hst_net h = (video_complete u2 j ts)\<lparr>c_bytes_received := c_bytes_received (video_complete u2 j ts) + of_nat (length (data_packet junk PKT_VIDEO nonce c))\<rparr>"
    using process_data_packet [OF _ assms(6,4,5), of PKT_VIDEO junk] u2(1) assms(13) by (simp add: process_payload_def pkt_defs)
  have "f_data (c_frame (hst_net h)) = Some b" "w_heap (hst_net h) b = Some c'" "w_fault (hst_net h) = w_fault u"
    unfolding net using v u2(3) by (simp_all add: video_complete_def Let_def)
  ultimately show "\<not> w_fault (hst_net h) \<and> w_fault (hst_net (snd (rootstream_capture_frame_dummy waves h)))"
    using dummy_capture_overflows [of h b c' waves] assms(10,12) by blast
qed

lemma host_frame_overwritten_witness:
  "\<exists>h. hst_net h = process_packet_for ex_externals (ex_rs True (\<lambda>_. 100) [ex_peer]) 0
        (data_packet (\<lambda>_. 0) PKT_VIDEO 5 (video_payload 7 [1, 2, 3] 0 3 9 @ replicate 16 0))
     \<and> \<not> w_fault (hst_net h) \<and> w_fault (hst_net (snd (rootstream_capture_frame_dummy (\<lambda>_. (0, 0)) h)))"
proof -
  let ?u = "ex_rs True (\<lambda>_. 100) [ex_peer]" and ?c = "video_payload 7 [1, 2, 3] 0 3 9 @ replicate 16 0"
  let ?h = "ex_host (process_packet_for ex_externals ?u 0 (data_packet (\<lambda>_. 0) PKT_VIDEO 5 ?c))"
  have n: "hst_net ?h = process_packet_for ex_externals ?u 0 (data_packet (\<lambda>_. 0) PKT_VIDEO 5 ?c)" by (simp add: ex_host_def)
  have l: "length ?c < 2 ^ 16" by (simp add: video_payload_def chunk_header_bytes_def)
  have dec: "aead_decrypt ex_externals (shared_key (session (peer_at ?u 0))) (nonce_bytes 5) ?c = Some (video_payload 7 [1, 2, 3] 0 (length [1 :: u8, 2, 3]) 9)"
    by (simp add: ex_externals_def numeral_3_eq_3)
  have u: "w_alloc ?u (w_allocs ?u)" "authenticated (session (peer_at ?u 0))" "\<not> w_fault ?u" "0 < length (c_peers ?u)" "video_rx_frame_id (peer_at ?u 0) \<noteq> 7"
    "max (length [1 :: u8, 2, 3]) (max (video_rx_capacity (peer_at ?u 0)) (video_rx_expected (peer_at ?u 0))) < dummy_frame_size (hst_display ?h)"
    by (simp_all add: ex_rs_def ex_peer_def zero_peer_def peer_at_def ex_display)
  have d: "0 < length [1 :: u8, 2, 3]" "length [1 :: u8, 2, 3] < 2 ^ 16" by simp_all
  from host_frame_overwritten [OF ex_inv [of "{c_encoder ?u}"] u(4,1,2) dec l d u(5) ex_display(1) u(6,3) n]
  have "\<not> w_fault (hst_net ?h) \<and> w_fault (hst_net (snd (rootstream_capture_frame_dummy (\<lambda>_. (0, 0)) ?h)))" .
  then show ?thesis using n by blast
qed

section \<open>The invariants of the core in the host's loop\<close>

lemma dummy_capture_inv: "net_inv E (hst_net h) \<Longrightarrow> net_inv E (hst_net (snd (rootstream_capture_frame_dummy waves h)))"
proof -
  have "net_inv E s \<Longrightarrow> net_inv E (foldl (write_pixel d o' n) s ps)" for d o' n s ps
    by (induction ps arbitrary: s) (simp_all add: write_pixel_def net_inv_heap_write)
  then show "net_inv E (hst_net h) \<Longrightarrow> ?thesis"
    by (simp add: rootstream_capture_frame_dummy_def get_timestamp_us_def Let_def net_inv_frame)
qed

text \<open>Encoders and audio do not touch the network core.\<close>

definition io_apart :: "host_io \<Rightarrow> bool" where
  "io_apart io \<longleftrightarrow> (\<forall>h. hst_net (snd (hio_encode io h)) = hst_net h) \<and> (\<forall>h. hst_net (snd (hio_audio io h)) = hst_net h) \<and> (\<forall>n h. hst_net (snd (hio_opus io n h)) = hst_net h)"

lemma us_net [simp]: "hst_net (snd (get_timestamp_us h)) = hst_net h"
  by (simp add: get_timestamp_us_def)

lemma us_net': "get_timestamp_us h = (t, h') \<Longrightarrow> hst_net h' = hst_net h"
  by (auto simp: get_timestamp_us_def)

lemma host_send_inv: "net_inv E (hst_net h) \<Longrightarrow> net_inv E (hst_net (foldl (host_send_peer X data audio n) h is))"
proof (induction "is" arbitrary: h)
  case (Cons i "is")
  have "net_inv E (hst_net (host_send_peer X data audio n h i))"
    using Cons.prems by (auto simp: host_send_peer_def Let_def get_timestamp_us_def intro!: net_inv_send)
  then show ?case using Cons.IH by simp
qed simp

lemma host_record_net: "hst_net (host_record data k h) = hst_net h"
  by (auto simp: host_record_def get_timestamp_us_def split: prod.split)

lemma host_audio_net: "io_apart io \<Longrightarrow> host_audio io h = (n, a, h') \<Longrightarrow> hst_net h' = hst_net h"
  unfolding io_apart_def host_audio_def
  by (cases "hio_audio io h") (auto split: option.splits if_splits prod.splits, (metis snd_conv)+)

lemma host_latency_inv: "net_inv E (hst_net h) \<Longrightarrow> net_inv E (hst_net (host_latency c s h))"
  using net_inv_send(10) by (auto simp: host_latency_def split: prod.split) (metis snd_conv)

lemma check_health_inv: "net_inv E s \<Longrightarrow> net_inv E (check_peer_health s)"
proof -
  assume inv: "net_inv E s"
  have u: "net_inv E (upd_peer i (\<lambda>p. p\<lparr>p_state := PEER_DISCONNECTED\<rparr>) t)" if "net_inv E t" for t i
    using that by (rule net_inv_upd) simp_all
  have step: "net_inv E t \<Longrightarrow> net_inv E (check_peer now t i)" for now t i
    by (auto simp: check_peer_def Let_def u intro!: net_inv_send split: option.split)
  obtain now t where t: "get_timestamp_ms s = (now, t)" by fastforce
  then have "net_inv E t" using net_inv_send(10) [OF inv] by simp
  then show ?thesis using net_inv_fold [OF step] by (simp add: check_peer_health_def t)
qed

lemma host_serve_inv: "net_inv E (hst_net h) \<Longrightarrow> net_inv E (hst_net (host_serve X inp h))"
  by (simp add: host_serve_def check_health_inv net_inv_tick net_inv_recv)

lemma host_sleep_net [simp]: "hst_net (host_sleep n h) = hst_net h"
  by (simp add: host_sleep_def)

lemma host_iteration_inv:
  assumes "net_inv E (hst_net h)" "io_apart io" "\<And>h. net_inv E (hst_net h) \<Longrightarrow> net_inv E (hst_net (snd (hio_capture io h)))"
  shows "net_inv E (hst_net (host_iteration X ceil_of io h inp))"
proof -
  obtain t0 h0 where t0: "get_timestamp_us h = (t0, h0)" by fastforce
  obtain ok h1 where c: "hio_capture io h0 = (ok, h1)" by fastforce
  have "net_inv E (hst_net h0)" using assms(1) us_net' [OF t0] by simp
  then have i1: "net_inv E (hst_net h1)" using assms(3) [of h0] c by simp
  show ?thesis
  proof (cases ok)
    case False
    then show ?thesis using i1 by (simp add: host_iteration_def t0 c)
  next
    case True
    obtain t1 h2 where t1: "get_timestamp_us h1 = (t1, h2)" by fastforce
    obtain t2 h3 where t2: "get_timestamp_us h2 = (t2, h3)" by fastforce
    obtain e h4 where e: "hio_encode io h3 = (e, h4)" by fastforce
    have "hst_net h4 = hst_net h1" using assms(2) us_net' [OF t1] us_net' [OF t2] e unfolding io_apart_def by (metis snd_conv)
    then have i4: "net_inv E (hst_net h4)" using i1 by simp
    show ?thesis
    proof (cases e)
      case None
      then show ?thesis using i4 True by (simp add: host_iteration_def t0 c t1 t2 e)
    next
      case (Some dk)
      obtain data k where dk: "dk = (data, k)" by fastforce
      obtain t3 h5 where t3: "get_timestamp_us h4 = (t3, h5)" by fastforce
      obtain n a h6 where a: "host_audio io (host_record data k h5) = (n, a, h6)" by (metis prod_cases3)
      obtain t4 h7 where t4: "get_timestamp_us h6 = (t4, h7)" by fastforce
      have "net_inv E (hst_net h7)"
        using i4 us_net' [OF t3] us_net' [OF t4] host_audio_net [OF assms(2) a] by (simp add: host_record_net)
      then have i8: "net_inv E (hst_net (foldl (host_send_peer X data a n) h7 [0..<MAX_PEERS]))" by (rule host_send_inv)
      obtain t5 h8 where t5: "get_timestamp_us (foldl (host_send_peer X data a n) h7 [0..<MAX_PEERS]) = (t5, h8)" by fastforce
      have "net_inv E (hst_net h8)" using i8 us_net' [OF t5] by simp
      then show ?thesis using True Some
        by (simp add: host_iteration_def t0 c t1 t2 e dk t3 a t4 t5 Let_def host_serve_inv host_latency_inv)
    qed
  qed
qed

text \<open>Through any number of iterations of the host with the test pattern, whatever peers send, the core keeps to its bounds: at most 16 peers, encoder
  settings that it had from the start or in range, and reassembly buffers of one peer each with the sizes the peers know.\<close>

theorem host_loop_keeps_bounds:
  assumes "c_peers (hst_net h) = []" "io_apart io" "hio_capture io = rootstream_capture_frame_dummy waves"
    and "rootstream_capture_init_dummy h = (0, h0)" "s = hst_net (host_loop X ceil_of io h0 inps)"
  shows "length (c_peers s) \<le> MAX_PEERS \<and> enc_ok {c_encoder (hst_net h)} (c_encoder s) \<and> bufs_ok (w_heap s) (w_next s) (c_peers s)"
proof -
  have "net_inv {c_encoder (hst_net h)} (hst_net h0)"
    using assms(1,4) by (auto simp: rootstream_capture_init_dummy_def realloc_def alloc_ok_def Let_def net_inv_def bufs_ok_def enc_ok_def split: prod.splits option.splits if_splits)
  then have "net_inv {c_encoder (hst_net h)} (hst_net (host_loop X ceil_of io h0 inps))" unfolding host_loop_def
  proof (induction inps arbitrary: h0)
    case (Cons inp inps)
    have "net_inv {c_encoder (hst_net h)} (hst_net (host_iteration X ceil_of io h0 inp))"
      using Cons.prems assms(2) dummy_capture_inv by (intro host_iteration_inv) (simp_all add: assms(3))
    then show ?case using Cons.IH by simp
  qed simp
  then show ?thesis by (simp add: assms(5) net_inv_def)
qed

lemma host_loop_keeps_bounds_witness:
  "\<exists>h0 s. rootstream_capture_init_dummy (ex_host (ex_rs True (\<lambda>_. 100) [])) = (0, h0)
     \<and> s = hst_net (host_loop ex_externals (\<lambda>_ n. n) \<lparr>hio_capture = rootstream_capture_frame_dummy (\<lambda>_. (0, 0)), hio_encode = \<lambda>h. (None, h), hio_audio = \<lambda>h. (None, h),
         hio_opus = \<lambda>_ h. (None, h)\<rparr> h0 [Datagram (replicate 40 1) (replicate 16 0) 16])
     \<and> length (c_peers s) \<le> 16"
proof -
  let ?s = "ex_rs True (\<lambda>_. 100) []"
  let ?io = "\<lparr>hio_capture = rootstream_capture_frame_dummy (\<lambda>_. (0, 0)), hio_encode = \<lambda>h. (None, h), hio_audio = \<lambda>h. (None, h), hio_opus = \<lambda>_ h. (None, h)\<rparr>"
  obtain h0 where i: "rootstream_capture_init_dummy (ex_host ?s) = (0, h0)"
    by (simp add: rootstream_capture_init_dummy_def ex_host_def ex_rs_def realloc_def alloc_ok_def Let_def)
  have "c_peers (hst_net (ex_host ?s)) = []" "io_apart ?io"
    by (simp_all add: ex_host_def ex_rs_def io_apart_def)
  from host_loop_keeps_bounds [OF this _ i refl, of "\<lambda>_. (0, 0)"] i show ?thesis by (auto simp: MAX_PEERS_def)
qed

text \<open>While capturing fails, no packet is received and no timer runs.\<close>

lemma failed_capture_starves:
  assumes "get_timestamp_us h = (t, h0)" "hio_capture io h0 = (False, h1)"
  shows "hst_net (host_iteration X ceil_of io h inp) = hst_net h1"
  using assms by (simp add: host_iteration_def)

end
