(* ===== verification/Identity.thy ===== *)
theory Identity
  imports Cparse Filestore
begin

text \<open>
  The device's identity, \<^verbatim>\<open>src/src/crypto.c\<close>: generating the Ed25519 key pair, keeping it in three files of the configuration
  directory, and the fingerprint shown to the user.  (The sessions made from the keys are in \<open>Net_State\<close>.)  libsodium's key
  generation, hash and base64 are parameters, \<^verbatim>\<open>os_env\<close> is what the operating system answers.
\<close>

record sign_ops =
  sgn_init_ok :: bool
  sgn_keypair :: "(u8 list \<times> u8 list) option"
  sgn_base64 :: "u8 list \<Rightarrow> string"
  sgn_generichash :: "u8 list \<Rightarrow> u8 list option"

record os_env =
  os_mkdir :: bool
  os_readable :: "string \<Rightarrow> bool"
  os_synced :: "string \<Rightarrow> bool"
  os_host :: string

definition CRYPTO_KEY_FILE_BYTES :: nat where "CRYPTO_KEY_FILE_BYTES = 32"
definition KEYPAIR_IDENTITY_LEN :: nat where "KEYPAIR_IDENTITY_LEN = 128"
definition ROOTSTREAM_CODE_MAX_LEN :: nat where "ROOTSTREAM_CODE_MAX_LEN = 128"

text \<open>\<open>dk_overrun\<close> is set when a function is handed an array of the structure and writes past its end.\<close>

record device_keys =
  dk_public :: "u8 list"
  dk_secret :: "u8 list"
  dk_identity :: string
  dk_code :: string
  dk_overrun :: bool

definition crypto_init :: "sign_ops \<Rightarrow> int" where
  "crypto_init S = (if sgn_init_ok S then 0 else -1)"

definition hex_digit :: "nat \<Rightarrow> char" where
  "hex_digit d = ''0123456789abcdef'' ! d"

definition fp_pair :: "u8 list \<Rightarrow> nat \<Rightarrow> string" where
  "fp_pair h i = [hex_digit (unat (drop_bit 4 (h ! i) AND 0x0F)), hex_digit (unat (h ! i AND 0x0F))] @
     (if i mod 2 = 1 \<and> i < 7 then [CHR 0x2D] else [])"

fun crypto_format_fingerprint :: "sign_ops \<Rightarrow> u8 list option \<Rightarrow> string option \<Rightarrow> nat \<Rightarrow> int \<times> string option" where
  "crypto_format_fingerprint S (Some public_key) (Some output) output_len =
     (if length public_key = 0 then (-1, Some output)
      else if output_len < 20 then (-1, Some output)
      else case sgn_generichash S public_key of
        None \<Rightarrow> (-1, Some output)
      | Some hash \<Rightarrow> (0, Some (concat (map (fp_pair hash) [0..<8]))))"
| "crypto_format_fingerprint S public_key output output_len = (-1, output)"

text \<open>The code shown to other people: the public key in base64 and at most 79 characters of the name.\<close>

definition device_code :: "sign_ops \<Rightarrow> u8 list \<Rightarrow> string \<Rightarrow> string" where
  "device_code S pk name = take (ROOTSTREAM_CODE_MAX_LEN - 1) (sgn_base64 S pk @ ''@'' @ strncpy 79 name)"

text \<open>libsodium writes the secret key at \<open>secret_key\<close>; what does not fit there lands in \<open>identity\<close>, which is written next.\<close>

fun crypto_generate_keypair :: "sign_ops \<Rightarrow> device_keys option \<Rightarrow> string option \<Rightarrow> int \<times> device_keys option" where
  "crypto_generate_keypair S (Some kp) (Some hostname) =
     (case sgn_keypair S of
        None \<Rightarrow> (-1, Some kp)
      | Some (pk, sk) \<Rightarrow>
         (0, Some \<lparr>dk_public = pk, dk_secret = take CRYPTO_KEY_FILE_BYTES sk, dk_identity = strncpy (KEYPAIR_IDENTITY_LEN - 1) hostname,
            dk_code = device_code S pk hostname, dk_overrun = (dk_overrun kp \<or> length sk > CRYPTO_KEY_FILE_BYTES)\<rparr>))"
| "crypto_generate_keypair S kp hostname = (-1, kp)"

section \<open>The files\<close>

definition cfg_path :: "string \<Rightarrow> string \<Rightarrow> string" where
  "cfg_path dir name = take 511 (dir @ ''/'' @ name)"

abbreviation "pub_path dir \<equiv> cfg_path dir ''identity.pub''"
abbreviation "sec_path dir \<equiv> cfg_path dir ''identity.key''"
abbreviation "idt_path dir \<equiv> cfg_path dir ''identity.txt''"

definition f_open_read :: "os_env \<Rightarrow> string \<Rightarrow> filestore \<Rightarrow> u8 list option" where
  "f_open_read E name fs = (if os_readable E name then fs_files fs name else None)"

definition load_identity :: "os_env \<Rightarrow> string \<Rightarrow> filestore \<Rightarrow> string" where
  "load_identity E path fs = (case f_open_read E path fs of
     None \<Rightarrow> os_host E
   | Some b \<Rightarrow> (case fgets_lines KEYPAIR_IDENTITY_LEN (map (\<lambda>x. char_of (unat x)) b) of
        [] \<Rightarrow> os_host E
      | l # _ \<Rightarrow> takeWhile (\<lambda>c. c \<noteq> CHR 0x0A) l))"

text \<open>A key file that is too short leaves in the structure what was read of it.\<close>

fun crypto_load_keypair :: "sign_ops \<Rightarrow> os_env \<Rightarrow> filestore \<Rightarrow> device_keys option \<Rightarrow> string option \<Rightarrow> int \<times> device_keys option" where
  "crypto_load_keypair S E fs (Some kp) (Some config_dir) =
     (if fs_files fs (sec_path config_dir) = None then (-1, Some kp)
      else case f_open_read E (sec_path config_dir) fs of
        None \<Rightarrow> (-1, Some kp)
      | Some b \<Rightarrow>
         let kp = kp\<lparr>dk_secret := overwrite (take CRYPTO_KEY_FILE_BYTES b) (dk_secret kp)\<rparr> in
         if length b < CRYPTO_KEY_FILE_BYTES then (-1, Some kp)
         else case f_open_read E (pub_path config_dir) fs of
           None \<Rightarrow> (-1, Some kp)
         | Some b \<Rightarrow>
            let kp = kp\<lparr>dk_public := overwrite (take CRYPTO_KEY_FILE_BYTES b) (dk_public kp)\<rparr> in
            if length b < CRYPTO_KEY_FILE_BYTES then (-1, Some kp)
            else let name = load_identity E (idt_path config_dir) fs in
              (0, Some (kp\<lparr>dk_identity := name, dk_code := device_code S (dk_public kp) name\<rparr>)))"
| "crypto_load_keypair S E fs kp config_dir = (-1, kp)"

text \<open>Writing one key file: a write or a flush that fails removes it, a file that cannot be opened is left alone.\<close>

definition save_key_file :: "os_env \<Rightarrow> string \<Rightarrow> u8 list \<Rightarrow> filestore \<Rightarrow> bool \<times> filestore" where
  "save_key_file E path bytes fs = (case f_create path fs of
     None \<Rightarrow> (False, fs)
   | Some fs \<Rightarrow> (case f_write path bytes fs of (ok, fs) \<Rightarrow>
       if ok \<and> os_synced E path then (True, fs) else (False, f_remove path fs)))"

fun crypto_save_keypair :: "os_env \<Rightarrow> device_keys option \<Rightarrow> string option \<Rightarrow> filestore \<Rightarrow> int \<times> filestore" where
  "crypto_save_keypair E (Some kp) (Some config_dir) fs =
     (if \<not> os_mkdir E then (-1, fs)
      else case save_key_file E (sec_path config_dir) (take CRYPTO_KEY_FILE_BYTES (dk_secret kp)) fs of
        (False, fs) \<Rightarrow> (-1, fs)
      | (True, fs) \<Rightarrow> (case save_key_file E (pub_path config_dir) (take CRYPTO_KEY_FILE_BYTES (dk_public kp)) fs of
          (False, fs) \<Rightarrow> (-1, f_remove (sec_path config_dir) fs)
        | (True, fs) \<Rightarrow> (case f_create (idt_path config_dir) fs of
            None \<Rightarrow> (0, fs)
          | Some fs \<Rightarrow> (0, snd (f_write (idt_path config_dir) (str_bytes (dk_identity kp @ nl)) fs)))))"
| "crypto_save_keypair E kp config_dir fs = (-1, fs)"

section \<open>What is saved is what is loaded\<close>

definition keys_ok :: "sign_ops \<Rightarrow> device_keys \<Rightarrow> bool" where
  "keys_ok S kp \<longleftrightarrow> length (dk_public kp) = CRYPTO_KEY_FILE_BYTES \<and> length (dk_secret kp) = CRYPTO_KEY_FILE_BYTES
     \<and> length (dk_identity kp) < KEYPAIR_IDENTITY_LEN - 1 \<and> CHR 0x0A \<notin> set (dk_identity kp) \<and> CHR 0x00 \<notin> set (dk_identity kp)
     \<and> dk_code kp = device_code S (dk_public kp) (dk_identity kp)"

lemma key_paths_distinct: "length dir \<le> 498 \<Longrightarrow> distinct [sec_path dir, pub_path dir, idt_path dir]"
  by (simp add: cfg_path_def)

lemma save_key_file_ok:
  "save_key_file E p b fs = (True, fs') \<Longrightarrow> fs_files fs' p = Some b \<and> fs_only p fs fs'"
  by (auto simp: save_key_file_def f_create_def f_write_def fs_only_def split: option.splits if_splits)

lemma save_key_file_fails:
  "save_key_file E p b fs = (False, fs') \<Longrightarrow> fs_only p fs fs' \<and> fs_files fs' p = (if fs_openable fs p then None else fs_files fs p)"
  by (auto simp: save_key_file_def f_create_def f_write_def f_remove_def fs_only_def split: option.splits if_splits)

lemma save_keeps_openable: "save_key_file E p b fs = (ok, fs') \<Longrightarrow> fs_openable fs' = fs_openable fs"
  by (auto simp: save_key_file_def f_create_def f_write_def f_remove_def split: option.splits if_splits)

lemma save_key_file_room: "save_key_file E p b fs = (True, fs') \<Longrightarrow> fs_room fs' = fs_room fs - length b"
  by (auto simp: save_key_file_def f_create_def f_write_def split: option.splits if_splits)

text \<open>A save that succeeds: both key files hold the keys.\<close>

lemma save_keypair_files:
  assumes "crypto_save_keypair E (Some kp) (Some dir) fs = (0, fs')" and "length dir \<le> 498"
  obtains fs1 fs2 where "save_key_file E (sec_path dir) (take CRYPTO_KEY_FILE_BYTES (dk_secret kp)) fs = (True, fs1)"
    and "save_key_file E (pub_path dir) (take CRYPTO_KEY_FILE_BYTES (dk_public kp)) fs1 = (True, fs2)"
    and "fs' = (if fs_openable fs2 (idt_path dir) then snd (f_write (idt_path dir) (str_bytes (dk_identity kp @ nl)) (the (f_create (idt_path dir) fs2))) else fs2)"
  using assms(1) by (auto simp: f_create_def split: if_splits prod.splits bool.splits option.splits)

lemma load_identity_saved:
  assumes "length (dk_identity kp) < KEYPAIR_IDENTITY_LEN - 1" "CHR 0x0A \<notin> set (dk_identity kp)" "CHR 0x00 \<notin> set (dk_identity kp)"
    and "f_open_read E p fs = Some (str_bytes (dk_identity kp @ nl))"
  shows "load_identity E p fs = dk_identity kp"
proof -
  have "line_ok KEYPAIR_IDENTITY_LEN (dk_identity kp)" using assms(1-3) by (simp add: line_ok_def KEYPAIR_IDENTITY_LEN_def)
  from fgets_lines_step [OF this, of "[]"]
  have "fgets_lines KEYPAIR_IDENTITY_LEN (dk_identity kp @ nl) = [dk_identity kp @ nl]" by simp
  moreover have "map (\<lambda>x. char_of (unat x)) (str_bytes s) = s" for s by (simp add: str_bytes_def comp_def)
  moreover have "takeWhile (\<lambda>c. c \<noteq> CHR 0x0A) (dk_identity kp @ nl) = dk_identity kp"
    using assms(2) by (subst takeWhile_append2) (auto simp: nl_def)
  ultimately show ?thesis by (simp add: load_identity_def assms(4))
qed

text \<open>Keys that were saved are loaded again, the name and the code included, into any structure.  (The disk needs room for the name,
  whose file is written without a check.)\<close>

theorem keypair_saved_loaded:
  assumes "crypto_save_keypair E (Some kp) (Some dir) fs = (0, fs')" and "length dir \<le> 498" and "keys_ok S kp"
    and "fs_openable fs (idt_path dir)" and "fs_room fs \<ge> 192" and "\<And>p. os_readable E p"
    and "length (dk_public old) = CRYPTO_KEY_FILE_BYTES" and "length (dk_secret old) = CRYPTO_KEY_FILE_BYTES"
  shows "crypto_load_keypair S E fs' (Some old) (Some dir) = (0, Some (kp\<lparr>dk_overrun := dk_overrun old\<rparr>))"
proof -
  obtain fs1 fs2 where s: "save_key_file E (sec_path dir) (take CRYPTO_KEY_FILE_BYTES (dk_secret kp)) fs = (True, fs1)"
      "save_key_file E (pub_path dir) (take CRYPTO_KEY_FILE_BYTES (dk_public kp)) fs1 = (True, fs2)"
    and f: "fs' = (if fs_openable fs2 (idt_path dir) then snd (f_write (idt_path dir) (str_bytes (dk_identity kp @ nl)) (the (f_create (idt_path dir) fs2))) else fs2)"
    by (rule save_keypair_files [OF assms(1,2)])
  have k: "length (dk_public kp) = 32" "length (dk_secret kp) = 32" "length (dk_identity kp) < 127" "CHR 0x0A \<notin> set (dk_identity kp)"
      "CHR 0x00 \<notin> set (dk_identity kp)" "dk_code kp = device_code S (dk_public kp) (dk_identity kp)"
    using assms(3) by (simp_all add: keys_ok_def CRYPTO_KEY_FILE_BYTES_def KEYPAIR_IDENTITY_LEN_def)
  note d = key_paths_distinct [OF assms(2)]
  have o: "fs_openable fs2 (idt_path dir)" using save_keeps_openable [OF s(1)] save_keeps_openable [OF s(2)] assms(4) by simp
  have room: "128 \<le> fs_room fs2" using save_key_file_room [OF s(1)] save_key_file_room [OF s(2)] assms(5) k
    by (simp add: CRYPTO_KEY_FILE_BYTES_def)
  have "length (str_bytes (dk_identity kp @ nl)) \<le> fs_room fs2" using room k by (simp add: nl_def)
  then have fl: "fs_files fs' = (fs_files fs2)(idt_path dir \<mapsto> str_bytes (dk_identity kp @ nl))"
    using f o by (simp add: f_create_def f_write_def del: length_str_bytes)
  have fl2: "fs_files fs' (sec_path dir) = Some (dk_secret kp)" "fs_files fs' (pub_path dir) = Some (dk_public kp)"
      "fs_files fs' (idt_path dir) = Some (str_bytes (dk_identity kp @ nl))"
    using save_key_file_ok [OF s(1)] save_key_file_ok [OF s(2)] d k by (auto simp: fl fs_only_def CRYPTO_KEY_FILE_BYTES_def)
  have n: "load_identity E (idt_path dir) fs' = dk_identity kp"
    using k fl2(3) assms(6) by (intro load_identity_saved) (simp_all add: KEYPAIR_IDENTITY_LEN_def f_open_read_def)
  show ?thesis using k fl2 n assms(6-8) by (simp add: f_open_read_def Let_def CRYPTO_KEY_FILE_BYTES_def overwrite_def)
qed

definition toy_sign :: sign_ops where
  "toy_sign = \<lparr>sgn_init_ok = True, sgn_keypair = Some (replicate 32 7, replicate 64 9), sgn_base64 = (\<lambda>_. ''Bwc=''), sgn_generichash = (\<lambda>_. Some (replicate 32 0x1F))\<rparr>"

definition toy_os :: os_env where
  "toy_os = \<lparr>os_mkdir = True, os_readable = (\<lambda>_. True), os_synced = (\<lambda>_. True), os_host = ''pc''\<rparr>"

definition toy_keys :: device_keys where
  "toy_keys = \<lparr>dk_public = replicate 32 7, dk_secret = replicate 32 9, dk_identity = ''pc'', dk_code = ''Bwc=@pc'', dk_overrun = False\<rparr>"

definition toy_disk :: "nat \<Rightarrow> filestore" where
  "toy_disk room = \<lparr>fs_files = Map.empty, fs_openable = (\<lambda>_. True), fs_room = room, fs_renames = True\<rparr>"

lemma keypair_saved_loaded_witness:
  "\<exists>fs'. crypto_save_keypair toy_os (Some toy_keys) (Some ''cfg'') (toy_disk 200) = (0, fs')
     \<and> crypto_load_keypair toy_sign toy_os fs' (Some (toy_keys\<lparr>dk_identity := ''old''\<rparr>)) (Some ''cfg'') = (0, Some toy_keys)"
proof -
  define fs' where "fs' = snd (crypto_save_keypair toy_os (Some toy_keys) (Some ''cfg'') (toy_disk 200))"
  have s: "crypto_save_keypair toy_os (Some toy_keys) (Some ''cfg'') (toy_disk 200) = (0, fs')"
    by (simp add: fs'_def toy_os_def toy_keys_def toy_disk_def save_key_file_def f_create_def f_write_def CRYPTO_KEY_FILE_BYTES_def del: replicate.simps)
  have k: "keys_ok toy_sign toy_keys"
    by (simp add: keys_ok_def toy_sign_def toy_keys_def CRYPTO_KEY_FILE_BYTES_def KEYPAIR_IDENTITY_LEN_def device_code_def ROOTSTREAM_CODE_MAX_LEN_def strncpy_def)
  have "crypto_load_keypair toy_sign toy_os fs' (Some (toy_keys\<lparr>dk_identity := ''old''\<rparr>)) (Some ''cfg'') = (0, Some toy_keys)"
    using keypair_saved_loaded [OF s _ k, where old = "toy_keys\<lparr>dk_identity := ''old''\<rparr>"]
    by (simp add: toy_os_def toy_keys_def toy_disk_def CRYPTO_KEY_FILE_BYTES_def del: crypto_load_keypair.simps)
  with s show ?thesis by blast
qed

text \<open>A save that fails once the secret key file could be opened leaves no secret key behind: never half a key, but not the key of
  before either, so that the next start makes a new identity.\<close>

theorem failed_save_leaves_no_key:
  assumes "crypto_save_keypair E (Some kp) (Some dir) fs = (-1, fs')" and "os_mkdir E" and "fs_openable fs (sec_path dir)" and "length dir \<le> 498"
  shows "fs_files fs' (sec_path dir) = None \<and> crypto_load_keypair S E' fs' (Some old) (Some dir) = (-1, Some old)"
proof -
  have "fs_files fs' (sec_path dir) = None"
    using assms(1-3) key_paths_distinct [OF assms(4)]
    by (auto dest!: save_key_file_fails simp: f_remove_def split: prod.splits bool.splits option.splits if_splits)
  then show ?thesis by simp
qed

lemma failed_save_leaves_no_key_witness:
  "\<exists>fs'. crypto_save_keypair toy_os (Some toy_keys) (Some ''cfg'') (toy_disk 40) = (-1, fs')
     \<and> fs_files fs' (sec_path ''cfg'') = None \<and> crypto_load_keypair toy_sign toy_os fs' (Some toy_keys) (Some ''cfg'') = (-1, Some toy_keys)"
proof -
  define fs' where "fs' = snd (crypto_save_keypair toy_os (Some toy_keys) (Some ''cfg'') (toy_disk 40))"
  have s: "crypto_save_keypair toy_os (Some toy_keys) (Some ''cfg'') (toy_disk 40) = (-1, fs')"
    by (simp add: fs'_def toy_os_def toy_keys_def toy_disk_def save_key_file_def f_create_def f_write_def CRYPTO_KEY_FILE_BYTES_def del: replicate.simps)
  show ?thesis using s failed_save_leaves_no_key [OF s, of toy_sign toy_os toy_keys] by (simp add: toy_os_def toy_disk_def del: crypto_load_keypair.simps)
qed

text \<open>libsodium's secret keys have 64 bytes: generating a key pair always writes past the 32 bytes that the structure has for it.\<close>

lemma generate_overruns_secret:
  "sgn_keypair S = Some (pk, sk) \<Longrightarrow> length sk = 64 \<Longrightarrow>
     \<exists>kp'. crypto_generate_keypair S (Some kp) (Some h) = (0, Some kp') \<and> dk_overrun kp' \<and> dk_secret kp' = take 32 sk"
  by (simp add: CRYPTO_KEY_FILE_BYTES_def)

lemma fingerprint_text:
  assumes "crypto_format_fingerprint S (Some pk) (Some out) n = (0, Some t)"
  shows "length t = 19"
  using assms by (auto simp: fp_pair_def upt_rec split: if_splits option.splits)

end
