(* ===== verification/Config.thy ===== *)
theory Config
  imports Identity
begin

text \<open>
  Settings, \<^verbatim>\<open>src/src/config.c\<close>: where they are kept, the parser and the printer of \<^verbatim>\<open>config.ini\<close>, the start-up that loads the
  identity or makes one, and the history of the peers connected to, most recent first.  Every array of characters of the settings
  ends with a NUL from the start, so that \<^verbatim>\<open>strncpy\<close> leaves a string.
\<close>

definition MAX_PEER_HISTORY :: nat where "MAX_PEER_HISTORY = 32"

record settings =
  st_video_bitrate :: u32
  st_video_framerate :: u32
  st_video_codec :: string
  st_display_index :: int
  st_audio_enabled :: bool
  st_audio_bitrate :: u32
  st_audio_channels :: int
  st_audio_sample_rate :: int
  st_network_port :: u16
  st_discovery_enabled :: bool
  st_peer_history :: "string list"
  st_peer_history_count :: nat
  st_last_connected :: string

definition settings_zero :: settings where
  "settings_zero = \<lparr>st_video_bitrate = 0, st_video_framerate = 0, st_video_codec = [], st_display_index = 0, st_audio_enabled = False,
     st_audio_bitrate = 0, st_audio_channels = 0, st_audio_sample_rate = 0, st_network_port = 0, st_discovery_enabled = False,
     st_peer_history = replicate MAX_PEER_HISTORY [], st_peer_history_count = 0, st_last_connected = []\<rparr>"

section \<open>The directory\<close>

record dir_env =
  de_xdg :: "string option"
  de_home :: "string option"
  de_passwd_home :: "string option"
  de_uid :: nat

text \<open>The result is computed once; the argument and the second component are the static array.\<close>

definition config_get_dir :: "dir_env \<Rightarrow> string \<Rightarrow> string" where
  "config_get_dir V config_dir =
     (if config_dir \<noteq> [] then config_dir
      else case de_xdg V of Some (c # x) \<Rightarrow> take 511 (c # x @ ''/rootstream'')
      | _ \<Rightarrow> let home = (case de_home V of Some (c # h) \<Rightarrow> Some (c # h)
                       | h \<Rightarrow> (case de_passwd_home V of Some p \<Rightarrow> Some p | None \<Rightarrow> h)) in
          case home of Some (c # h) \<Rightarrow> take 511 (c # h @ ''/.config/rootstream'')
          | _ \<Rightarrow> take 511 (''/tmp/rootstream-'' @ dec (de_uid V)))"

section \<open>config.ini\<close>

definition config_init_defaults :: "settings \<Rightarrow> settings" where
  "config_init_defaults s = s\<lparr>st_video_bitrate := 10000000, st_video_framerate := 60, st_video_codec := ''h264'', st_display_index := 0,
     st_audio_enabled := True, st_audio_bitrate := 64000, st_network_port := 9876, st_discovery_enabled := True,
     st_peer_history_count := 0, st_last_connected := []\<rparr>"

definition is_blank :: "char \<Rightarrow> bool" where
  "is_blank c \<longleftrightarrow> c = CHR 0x20 \<or> c = CHR 0x09"

definition is_trail :: "char \<Rightarrow> bool" where
  "is_trail c \<longleftrightarrow> is_blank c \<or> c = CHR 0x0A \<or> c = CHR 0x0D"

text \<open>The first character that is not blank stays, whatever it is.\<close>

definition cfg_trim :: "string \<Rightarrow> string" where
  "cfg_trim s = (case dropWhile is_blank s of [] \<Rightarrow> [] | c # r \<Rightarrow> c # rev (dropWhile is_trail (rev r)))"

definition ini_bool :: "string \<Rightarrow> bool" where
  "ini_bool v \<longleftrightarrow> v = ''true'' \<or> v = ''1''"

definition ini_peer :: "int \<Rightarrow> string \<Rightarrow> settings \<Rightarrow> settings" where
  "ini_peer idx v s = (if 0 \<le> idx \<and> idx < int MAX_PEER_HISTORY then
     s\<lparr>st_peer_history := (st_peer_history s)[nat idx := strncpy (ROOTSTREAM_CODE_MAX_LEN - 1) v],
       st_peer_history_count := (if nat idx \<ge> st_peer_history_count s then nat idx + 1 else st_peer_history_count s)\<rparr> else s)"

definition ini_set :: "string \<Rightarrow> string \<Rightarrow> string \<Rightarrow> settings \<Rightarrow> settings" where
  "ini_set sec key v s =
     (if sec = ''video'' then
        (if key = ''bitrate'' then s\<lparr>st_video_bitrate := word_of_int (atoi v)\<rparr>
         else if key = ''framerate'' then s\<lparr>st_video_framerate := word_of_int (atoi v)\<rparr>
         else if key = ''codec'' then s\<lparr>st_video_codec := strncpy 15 v\<rparr>
         else if key = ''display'' then s\<lparr>st_display_index := atoi v\<rparr> else s)
      else if sec = ''audio'' then
        (if key = ''enabled'' then s\<lparr>st_audio_enabled := ini_bool v\<rparr>
         else if key = ''bitrate'' then s\<lparr>st_audio_bitrate := word_of_int (atoi v)\<rparr> else s)
      else if sec = ''network'' then
        (if key = ''port'' then s\<lparr>st_network_port := word_of_int (atoi v)\<rparr>
         else if key = ''discovery'' then s\<lparr>st_discovery_enabled := ini_bool v\<rparr> else s)
      else if sec = ''peers'' then
        (if key = ''last_connected'' then s\<lparr>st_last_connected := strncpy (ROOTSTREAM_CODE_MAX_LEN - 1) v\<rparr>
         else if take 5 key = ''peer_'' then ini_peer (atoi (drop 5 key)) v s else s)
      else s)"

text \<open>One line, with the section in force.\<close>

fun ini_line :: "string \<times> settings \<Rightarrow> string \<Rightarrow> string \<times> settings" where
  "ini_line (sec, s) raw =
     (case cfg_trim raw of
        [] \<Rightarrow> (sec, s)
      | c # r \<Rightarrow>
         if c = CHR 0x23 \<or> c = CHR 0x3B then (sec, s)
         else if c = CHR 0x5B then (case split_at (CHR 0x5D) r of None \<Rightarrow> (sec, s) | Some (n, _) \<Rightarrow> (take 63 n, s))
         else (case split_at (CHR 0x3D) (c # r) of
           None \<Rightarrow> (sec, s)
         | Some (k, v) \<Rightarrow> (sec, ini_set sec (cfg_trim k) (cfg_trim v) s)))"

definition config_load_ini :: "os_env \<Rightarrow> filestore \<Rightarrow> settings \<Rightarrow> string \<Rightarrow> int \<times> settings" where
  "config_load_ini E fs s config_dir =
     (if length (config_dir @ ''/config.ini'') \<ge> 512 then (-1, s)
      else case f_open_read E (cfg_path config_dir ''config.ini'') fs of
        None \<Rightarrow> (0, config_init_defaults s)
      | Some b \<Rightarrow> (0, snd (foldl ini_line ([], config_init_defaults s) (fgets_lines 256 (map (\<lambda>x. char_of (unat x)) b)))))"

definition ini_kv :: "string \<Rightarrow> string \<Rightarrow> string" where
  "ini_kv k v = k @ '' = '' @ v"

definition ini_head :: "string \<Rightarrow> string" where
  "ini_head n = ''['' @ n @ '']''"

definition ini_comment :: "string \<Rightarrow> string" where
  "ini_comment t = ''# '' @ t"

definition ini_peer_lines :: "settings \<Rightarrow> string list" where
  "ini_peer_lines s = concat (map (\<lambda>i. if st_peer_history s ! i \<noteq> [] then [ini_kv (''peer_'' @ dec i) (st_peer_history s ! i)] else [])
     [0..<st_peer_history_count s])"

definition ini_lines :: "settings \<Rightarrow> string list" where
  "ini_lines s = [ini_comment ''RootStream Configuration'', ini_comment ''Generated automatically - edit with caution'', [],
     ini_head ''video'', ini_kv ''bitrate'' (dec (unat (st_video_bitrate s))), ini_kv ''framerate'' (dec (unat (st_video_framerate s))),
     ini_kv ''codec'' (st_video_codec s), ini_kv ''display'' (dec_int (st_display_index s)), [],
     ini_head ''audio'', ini_kv ''enabled'' (json_bool (st_audio_enabled s)), ini_kv ''bitrate'' (dec (unat (st_audio_bitrate s))), [],
     ini_head ''network'', ini_kv ''port'' (dec (unat (st_network_port s))), ini_kv ''discovery'' (json_bool (st_discovery_enabled s)), [],
     ini_head ''peers''] @ (if st_last_connected s \<noteq> [] then [ini_kv ''last_connected'' (st_last_connected s)] else []) @ ini_peer_lines s"

text \<open>The lines are printed without looking at the result.\<close>

definition config_save_ini :: "settings \<Rightarrow> string \<Rightarrow> filestore \<Rightarrow> int \<times> filestore" where
  "config_save_ini s config_dir fs = (case f_create (cfg_path config_dir ''config.ini'') fs of
     None \<Rightarrow> (-1, fs)
   | Some fs \<Rightarrow> (0, snd (f_write (cfg_path config_dir ''config.ini'') (str_bytes (concat (map (\<lambda>l. l @ nl) (ini_lines s)))) fs)))"

section \<open>The context\<close>

record config_ctx =
  cx_keypair :: device_keys
  cx_settings :: settings

definition config_save :: "os_env \<Rightarrow> string \<Rightarrow> config_ctx option \<Rightarrow> filestore \<Rightarrow> int \<times> filestore" where
  "config_save E config_dir ctx fs = (case ctx of
     None \<Rightarrow> (-1, fs)
   | Some c \<Rightarrow> (case crypto_save_keypair E (Some (cx_keypair c)) (Some config_dir) fs of
       (r, fs) \<Rightarrow> if r < 0 then (-1, fs) else config_save_ini (cx_settings c) config_dir fs))"

fun config_load :: "sign_ops \<Rightarrow> os_env \<Rightarrow> string \<Rightarrow> string option \<Rightarrow> config_ctx option \<Rightarrow> filestore \<Rightarrow> int \<times> config_ctx option \<times> filestore" where
  "config_load S E config_dir host (Some c) fs =
     (let c = c\<lparr>cx_settings := snd (config_load_ini E fs (cx_settings c) config_dir)\<rparr> in
      case crypto_load_keypair S E fs (Some (cx_keypair c)) (Some config_dir) of
        (r, kp) \<Rightarrow>
          if r = 0 then (0, Some (c\<lparr>cx_keypair := the kp\<rparr>), fs)
          else let hostname = (case host of Some h \<Rightarrow> h | None \<Rightarrow> ''rootstream-device'') in
            case crypto_generate_keypair S kp (Some hostname) of
              (r, kp) \<Rightarrow>
                if r < 0 then (-1, Some (c\<lparr>cx_keypair := the kp\<rparr>), fs)
                else (0, Some (c\<lparr>cx_keypair := the kp\<rparr>), snd (crypto_save_keypair E kp (Some config_dir) fs)))"
| "config_load S E config_dir host None fs = (-1, None, fs)"

text \<open>Entries \<open>n\<close> down to 1 each take the entry before them.\<close>

fun history_shift :: "nat \<Rightarrow> string list \<Rightarrow> string list" where
  "history_shift 0 h = h"
| "history_shift (Suc n) h = history_shift n (h[Suc n := cstr_fit ROOTSTREAM_CODE_MAX_LEN (h ! n)])"

definition history_put :: "string \<Rightarrow> settings \<Rightarrow> settings" where
  "history_put code s =
     (case first_idx (\<lambda>x. x = code) (take (st_peer_history_count s) (st_peer_history s)) of
        Some i \<Rightarrow>
          if i > 0 then
            (let temp = cstr_fit ROOTSTREAM_CODE_MAX_LEN (st_peer_history s ! i) in
             s\<lparr>st_peer_history := (history_shift i (st_peer_history s))[0 := temp]\<rparr>)
          else s
      | None \<Rightarrow>
          let s = (if st_peer_history_count s < MAX_PEER_HISTORY
             then s\<lparr>st_peer_history := history_shift (st_peer_history_count s) (st_peer_history s), st_peer_history_count := st_peer_history_count s + 1\<rparr>
             else s\<lparr>st_peer_history := history_shift (MAX_PEER_HISTORY - 1) (st_peer_history s)\<rparr>) in
          s\<lparr>st_peer_history := (st_peer_history s)[0 := cstr_fit ROOTSTREAM_CODE_MAX_LEN code]\<rparr>)"

fun config_add_peer_to_history :: "os_env \<Rightarrow> string \<Rightarrow> string option \<Rightarrow> config_ctx option \<times> filestore \<Rightarrow> config_ctx option \<times> filestore" where
  "config_add_peer_to_history E config_dir (Some code) (Some c, fs) =
     (if code = [] then (Some c, fs)
      else let c = c\<lparr>cx_settings := (history_put code (cx_settings c))\<lparr>st_last_connected := cstr_fit ROOTSTREAM_CODE_MAX_LEN code\<rparr>\<rparr> in
        (Some c, snd (config_save E config_dir (Some c) fs)))"
| "config_add_peer_to_history E config_dir code (c, fs) = (c, fs)"

section \<open>The history is the list of the peers, most recent first\<close>

definition history_of :: "settings \<Rightarrow> string list" where
  "history_of s = take (st_peer_history_count s) (st_peer_history s)"

definition history_ok :: "settings \<Rightarrow> bool" where
  "history_ok s \<longleftrightarrow> length (st_peer_history s) = MAX_PEER_HISTORY \<and> st_peer_history_count s \<le> MAX_PEER_HISTORY
     \<and> list_all (\<lambda>x. length x < ROOTSTREAM_CODE_MAX_LEN) (st_peer_history s) \<and> distinct (history_of s)"

definition recent :: "string \<Rightarrow> string list \<Rightarrow> string list" where
  "recent c L = take MAX_PEER_HISTORY (c # filter (\<lambda>x. x \<noteq> c) L)"

lemma list_all_nth_short: "list_all P xs \<Longrightarrow> i < length xs \<Longrightarrow> P (xs ! i)"
  by (simp add: list_all_length)

lemma history_shift_eq:
  "n < length h \<Longrightarrow> list_all (\<lambda>x. length x < ROOTSTREAM_CODE_MAX_LEN) h \<Longrightarrow> history_shift n h = take 1 h @ take n h @ drop (Suc n) h"
proof (induction n arbitrary: h)
  case 0
  then show ?case by (cases h) simp_all
next
  case (Suc n)
  let ?h = "h[Suc n := h ! n]"
  have f: "cstr_fit ROOTSTREAM_CODE_MAX_LEN (h ! n) = h ! n" using Suc.prems by (simp add: list_all_length)
  have l: "list_all (\<lambda>x. length x < ROOTSTREAM_CODE_MAX_LEN) ?h"
    using Suc.prems by (auto simp: list_all_length nth_list_update)
  have "drop (Suc n) ?h = h ! n # drop (Suc (Suc n)) h"
    using Suc.prems by (simp add: Cons_nth_drop_Suc [symmetric])
  moreover have "take 1 ?h = take 1 h" by (cases h) simp_all
  ultimately show ?case using Suc.IH [of ?h] Suc.prems l by (simp add: f take_Suc_conv_app_nth)
qed

lemma history_shift_put:
  "n < length h \<Longrightarrow> list_all (\<lambda>x. length x < ROOTSTREAM_CODE_MAX_LEN) h \<Longrightarrow> (history_shift n h)[0 := x] = x # take n h @ drop (Suc n) h"
  by (cases h) (simp_all only: history_shift_eq, simp_all)

lemma filter_distinct_at: "distinct xs \<Longrightarrow> i < length xs \<Longrightarrow> filter (\<lambda>x. x \<noteq> xs ! i) xs = take i xs @ drop (Suc i) xs"
proof -
  assume d: "distinct xs" "i < length xs"
  have x: "xs = take i xs @ xs ! i # drop (Suc i) xs" using d(2) by (rule id_take_nth_drop)
  have "distinct (take i xs @ xs ! i # drop (Suc i) xs)" using d(1) x by simp
  then have "xs ! i \<notin> set (take i xs)" "xs ! i \<notin> set (drop (Suc i) xs)" by auto
  then have "filter (\<lambda>x. x \<noteq> xs ! i) (take i xs) = take i xs" "filter (\<lambda>x. x \<noteq> xs ! i) (drop (Suc i) xs) = drop (Suc i) xs"
    by (intro filter_True ballI; metis)+
  then have "filter (\<lambda>x. x \<noteq> xs ! i) (take i xs @ xs ! i # drop (Suc i) xs) = take i xs @ drop (Suc i) xs" by simp
  then show ?thesis using x by metis
qed

lemma history_put_recent:
  assumes "history_ok s" and "length c < ROOTSTREAM_CODE_MAX_LEN"
  shows "history_ok (history_put c s) \<and> history_of (history_put c s) = recent c (history_of s)"
proof -
  define h n where "h = st_peer_history s" and "n = st_peer_history_count s"
  have w: "length h = 32" "n \<le> 32" "list_all (\<lambda>x. length x < ROOTSTREAM_CODE_MAX_LEN) h" "distinct (take n h)"
    using assms(1) by (simp_all add: history_ok_def history_of_def h_def n_def MAX_PEER_HISTORY_def)
  have fit: "cstr_fit ROOTSTREAM_CODE_MAX_LEN c = c" using assms(2) by simp
  have cut: "list_all (\<lambda>x. length x < ROOTSTREAM_CODE_MAX_LEN) (c # take i h @ drop j h)" for i j
    using w(3) assms(2) by (auto simp: list_all_iff dest: in_set_takeD in_set_dropD)
  show ?thesis
  proof (cases "first_idx (\<lambda>x. x = c) (take n h)")
    case (Some i)
    then have i: "i < n" "h ! i = c" using w by (auto simp: first_idx_Some)
    have f: "filter (\<lambda>x. x \<noteq> c) (take n h) = take i h @ drop (Suc i) (take n h)"
      using filter_distinct_at [OF w(4), of i] i w by simp
    have put: "(history_shift i h)[0 := c] = c # take i h @ drop (Suc i) h" using i w by (intro history_shift_put) simp_all
    have same: "c # take i h @ drop (Suc i) h = h" if "i = 0" using that i w by (cases h) simp_all
    have e: "history_put c s = s\<lparr>st_peer_history := c # take i h @ drop (Suc i) h\<rparr>"
      using Some i put same fit by (cases "i = 0") (simp_all add: history_put_def h_def n_def Let_def)
    have l: "take n (c # take i h @ drop (Suc i) h) = c # take i h @ drop (Suc i) (take n h)"
      using i w by (cases n) (simp_all add: drop_take)
    have r: "recent c (take n h) = c # take i h @ drop (Suc i) (take n h)" unfolding recent_def f using i w by (simp add: MAX_PEER_HISTORY_def)
    have "distinct (c # take i h @ drop (Suc i) (take n h))" using w(4) unfolding f [symmetric] by simp
    then show ?thesis using w i cut [of i "Suc i"] l r
      by (simp add: e history_ok_def history_of_def n_def [symmetric] h_def [symmetric] MAX_PEER_HISTORY_def)
  next
    case None
    then have f: "c \<notin> set (take n h)" "filter (\<lambda>x. x \<noteq> c) (take n h) = take n h" by (auto simp: first_idx_None filter_id_conv)
    show ?thesis
    proof (cases "n < 32")
      case True
      have put: "(history_shift n h)[0 := c] = c # take n h @ drop (Suc n) h" using True w by (intro history_shift_put) simp_all
      have e: "history_put c s = s\<lparr>st_peer_history := c # take n h @ drop (Suc n) h, st_peer_history_count := n + 1\<rparr>"
        using None True put fit by (simp add: history_put_def h_def n_def Let_def MAX_PEER_HISTORY_def)
      show ?thesis using True w cut [of n "Suc n"] f
        by (simp add: e history_ok_def history_of_def n_def [symmetric] h_def [symmetric] MAX_PEER_HISTORY_def recent_def)
    next
      case False
      then have n: "n = 32" using w by simp
      have put: "(history_shift 31 h)[0 := c] = c # take 31 h" using w history_shift_put [of 31 h c] by simp
      have e: "history_put c s = s\<lparr>st_peer_history := c # take 31 h\<rparr>"
        using None n put fit by (simp add: history_put_def h_def n_def Let_def MAX_PEER_HISTORY_def)
      have "take 31 h = take 31 (take n h)" using n by simp
      then show ?thesis using n w cut [of 31 32] f
        by (simp add: e history_ok_def history_of_def n_def [symmetric] h_def [symmetric] MAX_PEER_HISTORY_def recent_def)
          (metis distinct_take in_set_takeD numeral_eq_Suc)
    qed
  qed
qed

lemma remdups_snoc: "remdups (xs @ [x]) = filter (\<lambda>y. y \<noteq> x) (remdups xs) @ [x]"
  by (induction xs) auto

lemma recent_take: "recent c (take MAX_PEER_HISTORY M) = take MAX_PEER_HISTORY (c # filter (\<lambda>x. x \<noteq> c) M)" if "distinct M"
proof (cases "\<exists>i<MAX_PEER_HISTORY. i < length M \<and> M ! i = c")
  case True
  then obtain i where i: "i < MAX_PEER_HISTORY" "i < length M" "M ! i = c" by blast
  have "filter (\<lambda>x. x \<noteq> c) M = take i M @ drop (Suc i) M" using filter_distinct_at [OF that i(2)] i(3) by simp
  moreover have "filter (\<lambda>x. x \<noteq> c) (take MAX_PEER_HISTORY M) = take i M @ drop (Suc i) (take MAX_PEER_HISTORY M)"
    using filter_distinct_at [of "take MAX_PEER_HISTORY M" i] that i by (simp add: min_def)
  ultimately show ?thesis using i by (simp add: recent_def take_Cons' drop_take)
next
  case False
  let ?T = "take MAX_PEER_HISTORY M" and ?D = "drop MAX_PEER_HISTORY M"
  have t: "c \<notin> set ?T" using False by (auto simp: in_set_conv_nth)
  have "filter (\<lambda>x. x \<noteq> c) M = ?T @ filter (\<lambda>x. x \<noteq> c) ?D"
    using t by (subst append_take_drop_id [of MAX_PEER_HISTORY M, symmetric], subst filter_append) (simp add: filter_id_conv, metis)
  moreover have "filter (\<lambda>x. x \<noteq> c) ?T = ?T" using t by (auto simp: filter_id_conv)
  ultimately show ?thesis by (auto simp: recent_def take_Cons' min_def MAX_PEER_HISTORY_def)
qed

text \<open>After connecting to any peers whose codes fit, the history is exactly the last 32 different peers, most recent first, and the
  last one is remembered, whatever happens on the disk.\<close>

theorem peer_history_recent:
  assumes "list_all (\<lambda>c. c \<noteq> [] \<and> length c < ROOTSTREAM_CODE_MAX_LEN) codes"
    and "fold (\<lambda>c. config_add_peer_to_history E dir (Some c)) codes (Some \<lparr>cx_keypair = kp, cx_settings = settings_zero\<rparr>, fs) = (Some c', fs')"
  shows "history_of (cx_settings c') = take MAX_PEER_HISTORY (rev (remdups codes))
    \<and> st_last_connected (cx_settings c') = (if codes = [] then [] else last codes)"
proof -
  have "\<exists>c. fst (fold (\<lambda>c. config_add_peer_to_history E dir (Some c)) codes (Some \<lparr>cx_keypair = kp, cx_settings = settings_zero\<rparr>, fs)) = Some c
      \<and> history_ok (cx_settings c) \<and> history_of (cx_settings c) = take MAX_PEER_HISTORY (rev (remdups codes))
      \<and> st_last_connected (cx_settings c) = (if codes = [] then [] else last codes)"
    using assms(1)
  proof (induction codes rule: rev_induct)
    case Nil
    then show ?case by (simp add: history_ok_def history_of_def settings_zero_def MAX_PEER_HISTORY_def ROOTSTREAM_CODE_MAX_LEN_def list_all_iff)
  next
    case (snoc x xs)
    then obtain c g where c: "fold (\<lambda>c. config_add_peer_to_history E dir (Some c)) xs (Some \<lparr>cx_keypair = kp, cx_settings = settings_zero\<rparr>, fs) = (Some c, g)"
        "history_ok (cx_settings c)" "history_of (cx_settings c) = take MAX_PEER_HISTORY (rev (remdups xs))"
      by (auto simp: prod_eq_iff)
    have x: "x \<noteq> []" "length x < ROOTSTREAM_CODE_MAX_LEN" using snoc.prems by simp_all
    have h: "history_ok (history_put x (cx_settings c))"
        "history_of (history_put x (cx_settings c)) = take MAX_PEER_HISTORY (x # filter (\<lambda>y. y \<noteq> x) (rev (remdups xs)))"
      using history_put_recent [OF c(2) x(2)] c(3) by (simp_all add: recent_take)
    have u: "history_ok (s\<lparr>st_last_connected := l\<rparr>) = history_ok s" "history_of (s\<lparr>st_last_connected := l\<rparr>) = history_of s" for s l
      by (simp_all add: history_ok_def history_of_def)
    show ?case using c(1) x h by (simp add: Let_def u remdups_snoc rev_filter)
  qed
  then show ?thesis using assms(2) by auto
qed

lemma peer_history_recent_witness:
  "\<exists>c' fs'. fold (\<lambda>c. config_add_peer_to_history toy_os ''cfg'' (Some c)) [''a@x'', ''b@y'', ''a@x''] (Some \<lparr>cx_keypair = toy_keys, cx_settings = settings_zero\<rparr>, toy_disk 0) = (Some c', fs')
     \<and> history_of (cx_settings c') = [''a@x'', ''b@y''] \<and> st_last_connected (cx_settings c') = ''a@x''"
proof -
  obtain c' fs' where f: "fold (\<lambda>c. config_add_peer_to_history toy_os ''cfg'' (Some c)) [''a@x'', ''b@y'', ''a@x'']
      (Some \<lparr>cx_keypair = toy_keys, cx_settings = settings_zero\<rparr>, toy_disk 0) = (Some c', fs')"
    by (simp add: Let_def)
  show ?thesis using f peer_history_recent [OF _ f] by (simp add: ROOTSTREAM_CODE_MAX_LEN_def MAX_PEER_HISTORY_def del: fold.simps)
qed

section \<open>What is saved is what is loaded\<close>

text \<open>A value that the parser takes as it is: on one line, with nothing to trim.\<close>

definition clean :: "string \<Rightarrow> bool" where
  "clean v \<longleftrightarrow> CHR 0x0A \<notin> set v \<and> CHR 0x00 \<notin> set v \<and> (v \<noteq> [] \<longrightarrow> \<not> is_blank (hd v) \<and> \<not> is_trail (last v))"

definition key_ok :: "string \<Rightarrow> bool" where
  "key_ok k \<longleftrightarrow> k \<noteq> [] \<and> list_all (\<lambda>c. \<not> is_trail c \<and> c \<notin> {CHR 0x00, CHR 0x3D, CHR 0x23, CHR 0x3B, CHR 0x5B}) k"

lemma cfg_trim_clean: "clean v \<Longrightarrow> cfg_trim v = v"
proof (cases v)
  case (Cons c r)
  assume "clean v"
  then have "\<not> is_blank c" "r \<noteq> [] \<longrightarrow> \<not> is_trail (last r)" using Cons by (auto simp: clean_def split: if_splits)
  then show ?thesis using Cons by (cases r rule: rev_cases) (simp_all add: cfg_trim_def)
qed (simp add: cfg_trim_def)

lemma key_clean: "key_ok k \<Longrightarrow> clean k"
  by (cases k rule: rev_cases) (auto simp: key_ok_def clean_def list_all_iff is_trail_def is_blank_def hd_append split: if_splits)

lemma cfg_trim_behind: "v = [] \<or> \<not> is_trail (last v) \<Longrightarrow> list_all is_trail w \<Longrightarrow> c \<noteq> [] \<Longrightarrow> \<not> is_blank (hd c) \<Longrightarrow> \<not> is_trail (last c) \<Longrightarrow>
    cfg_trim (c @ v @ w) = c @ v"
proof -
  assume a: "v = [] \<or> \<not> is_trail (last v)" "list_all is_trail w" "c \<noteq> []" "\<not> is_blank (hd c)" "\<not> is_trail (last c)"
  obtain x r where c: "c = x # r" using a(3) by (cases c) auto
  have w: "dropWhile is_trail (rev w @ t) = dropWhile is_trail t" for t using a(2) by (intro dropWhile_append2) (auto simp: list_all_iff)
  have "dropWhile is_trail (rev v @ rev r) = rev v @ rev r"
    using a(1,5) by (cases v rule: rev_cases; cases r rule: rev_cases) (simp_all add: c)
  then show ?thesis using a(4) by (simp add: cfg_trim_def c w)
qed

lemma ini_line_kv:
  assumes "key_ok k" and "clean v"
  shows "ini_line (sec, s) (ini_kv k v @ nl) = (sec, ini_set sec k v s)"
proof -
  obtain x r where k: "k = x # r" using assms(1) by (cases k) (auto simp: key_ok_def)
  have x: "\<not> is_blank x" "x \<noteq> CHR 0x23" "x \<noteq> CHR 0x3B" "x \<noteq> CHR 0x5B" and e: "CHR 0x3D \<notin> set k"
    using assms(1) by (auto simp: key_ok_def k list_all_iff is_trail_def)
  define t where "t = (if v = [] then [] else CHR 0x20 # v)"
  have "cfg_trim ((k @ '' ='') @ t @ (if v = [] then CHR 0x20 # nl else nl)) = (k @ '' ='') @ t"
    using x(1) assms(2) by (intro cfg_trim_behind) (auto simp: t_def clean_def nl_def is_trail_def is_blank_def k)
  also have "(k @ '' ='') @ t @ (if v = [] then CHR 0x20 # nl else nl) = ini_kv k v @ nl" by (simp add: t_def ini_kv_def)
  finally have l: "cfg_trim (ini_kv k v @ nl) = x # r @ '' ='' @ t" by (simp add: k)
  have sp: "split_at (CHR 0x3D) ((k @ '' '') @ CHR 0x3D # t) = Some (k @ '' '', t)" using e by (intro split_at_append) simp
  have "cfg_trim (k @ [] @ '' '') = k @ []"
    using assms(1) key_clean [OF assms(1)] by (intro cfg_trim_behind) (auto simp: clean_def key_ok_def is_trail_def is_blank_def)
  moreover have "cfg_trim t = v"
  proof (cases "v = []")
    case False
    have "cfg_trim (CHR 0x20 # v) = cfg_trim v" by (simp add: cfg_trim_def is_blank_def)
    then show ?thesis using False cfg_trim_clean [OF assms(2)] by (simp add: t_def)
  qed (simp add: t_def cfg_trim_def)
  ultimately show ?thesis using sp x by (simp add: l) (simp add: k)
qed

lemma ini_line_section: "CHR 0x5D \<notin> set n \<Longrightarrow> length n < 64 \<Longrightarrow> ini_line (sec, s) (ini_head n @ nl) = (n, s)"
proof -
  assume a: "CHR 0x5D \<notin> set n" "length n < 64"
  have "cfg_trim ((''['' @ n @ '']'') @ [] @ nl) = (''['' @ n @ '']'') @ []"
    by (intro cfg_trim_behind) (simp_all add: nl_def is_trail_def is_blank_def)
  moreover have "split_at (CHR 0x5D) (n @ CHR 0x5D # []) = Some (n, [])" using a(1) by (rule split_at_append)
  ultimately show ?thesis using a(2) by (simp add: ini_head_def)
qed

lemma ini_line_skip: "ini_line (sec, s) (ini_comment r @ nl) = (sec, s)" "ini_line (sec, s) nl = (sec, s)"
  by (simp_all add: ini_comment_def cfg_trim_def nl_def is_blank_def split_at_def)

lemma dec_clean: "clean (dec n)"
proof -
  have d: "is_digit (hd (dec n))" "is_digit (last (dec n))" using dec_digits [of "hd (dec n)" n] dec_digits [of "last (dec n)" n] by simp_all
  have "\<not> is_trail c" if "is_digit c" for c using digit_plain [OF that] by (auto simp: is_trail_def is_blank_def)
  then show ?thesis using d digit_plain dec_digits unfolding clean_def is_trail_def by blast
qed

lemma dec_int_clean: "clean (dec_int i)"
  using dec_clean [of "nat (- i)"] dec_clean [of "nat i"] by (auto simp: dec_int_def clean_def is_blank_def split: if_splits)

lemma json_bool_ini: "ini_bool (json_bool b) = b" "clean (json_bool b)"
  by (auto simp: ini_bool_def json_bool_def clean_def is_blank_def is_trail_def)

text \<open>Settings that the file can hold: texts with nothing to trim that fit, numbers that \<^verbatim>\<open>atoi\<close> reads, and a history without gaps.\<close>

definition settings_ok :: "settings \<Rightarrow> bool" where
  "settings_ok s \<longleftrightarrow> st_video_bitrate s < 2 ^ 31 \<and> st_video_framerate s < 2 ^ 31 \<and> st_audio_bitrate s < 2 ^ 31
     \<and> - (2 ^ 31) \<le> st_display_index s \<and> st_display_index s < 2 ^ 31
     \<and> clean (st_video_codec s) \<and> length (st_video_codec s) \<le> 15 \<and> clean (st_last_connected s) \<and> length (st_last_connected s) < ROOTSTREAM_CODE_MAX_LEN
     \<and> st_peer_history_count s \<le> MAX_PEER_HISTORY
     \<and> (\<exists>L. st_peer_history s = L @ replicate (MAX_PEER_HISTORY - length L) [] \<and> length L = st_peer_history_count s
          \<and> list_all (\<lambda>v. v \<noteq> [] \<and> clean v \<and> length v < ROOTSTREAM_CODE_MAX_LEN) L)"

lemma dec_word: "x < 2 ^ 31 \<Longrightarrow> word_of_int (atoi (dec (unat x))) = (x :: u32)"
  by (simp add: atoi_dec_nil word_less_nat_alt)

lemma dec_port: "word_of_int (atoi (dec (unat x))) = (x :: u16)"
  using unsigned_less [of x, where 'a = nat] by (simp add: atoi_dec_nil)

lemma peer_key: "key_ok (''peer_'' @ dec i)"
  using digit_plain dec_digits by (fastforce simp: key_ok_def list_all_iff is_trail_def is_blank_def is_digit_def)

definition peer_line :: "nat \<Rightarrow> string \<Rightarrow> string" where
  "peer_line i v = ini_kv (''peer_'' @ dec i) v"

lemma ini_line_peer:
  "clean v \<Longrightarrow> i < MAX_PEER_HISTORY \<Longrightarrow> length v < ROOTSTREAM_CODE_MAX_LEN \<Longrightarrow> st_peer_history_count s = i \<Longrightarrow>
     ini_line (''peers'', s) (peer_line i v @ nl) = (''peers'', s\<lparr>st_peer_history := (st_peer_history s)[i := v], st_peer_history_count := i + 1\<rparr>)"
  unfolding peer_line_def
  by (subst ini_line_kv [OF peer_key]) (simp_all add: ini_set_def ini_peer_def atoi_dec_nil strncpy_def MAX_PEER_HISTORY_def)

lemma ini_peers:
  assumes "list_all (\<lambda>v. clean v \<and> length v < ROOTSTREAM_CODE_MAX_LEN) L" and "length L \<le> MAX_PEER_HISTORY"
    and "st_peer_history s = replicate MAX_PEER_HISTORY []" and "st_peer_history_count s = 0"
  shows "foldl ini_line (''peers'', s) (map (\<lambda>i. peer_line i (L ! i) @ nl) [0..<length L])
    = (''peers'', s\<lparr>st_peer_history := L @ replicate (MAX_PEER_HISTORY - length L) [], st_peer_history_count := length L\<rparr>)"
  using assms(1,2)
proof (induction L rule: rev_induct)
  case Nil
  then show ?case using assms(3,4) by simp
next
  case (snoc v L)
  have m: "map (\<lambda>i. peer_line i ((L @ [v]) ! i) @ nl) [0..<length L] = map (\<lambda>i. peer_line i (L ! i) @ nl) [0..<length L]"
    by (simp add: nth_append)
  have l: "length L < MAX_PEER_HISTORY" using snoc.prems by simp
  then obtain k where k: "MAX_PEER_HISTORY - length L = Suc k" by (metis Suc_diff_Suc)
  have "(L @ replicate (MAX_PEER_HISTORY - length L) [])[length L := v] = (L @ [v]) @ replicate (MAX_PEER_HISTORY - length (L @ [v])) []"
  proof -
    have "MAX_PEER_HISTORY - length (L @ [v]) = k" using k by simp
    then show ?thesis unfolding k by (simp add: list_update_append)
  qed
  note upd = this
  have ih: "foldl ini_line (''peers'', s) (map (\<lambda>i. peer_line i (L ! i) @ nl) [0..<length L])
      = (''peers'', s\<lparr>st_peer_history := L @ replicate (MAX_PEER_HISTORY - length L) [], st_peer_history_count := length L\<rparr>)"
    using snoc.prems by (intro snoc.IH) simp_all
  have v: "clean v" "length v < ROOTSTREAM_CODE_MAX_LEN" using snoc.prems(1) by simp_all
  have lines: "map (\<lambda>i. peer_line i ((L @ [v]) ! i) @ nl) [0..<length (L @ [v])] = map (\<lambda>i. peer_line i (L ! i) @ nl) [0..<length L] @ [peer_line (length L) v @ nl]"
    using m by simp
  define X where "X = L @ replicate (MAX_PEER_HISTORY - length L) []"
  have step: "ini_line (''peers'', s\<lparr>st_peer_history := X, st_peer_history_count := length L\<rparr>) (peer_line (length L) v @ nl)
      = (''peers'', s\<lparr>st_peer_history := X[length L := v], st_peer_history_count := length (L @ [v])\<rparr>)"
    using ini_line_peer [OF v(1) l v(2), of "s\<lparr>st_peer_history := X, st_peer_history_count := length L\<rparr>"] by (simp del: ini_line.simps)
  show ?case unfolding lines foldl_append ih foldl.simps X_def [symmetric] step using upd by (simp add: X_def)
qed

lemma ini_peer_lines_eq:
  assumes "st_peer_history s = L @ R" and "length L = st_peer_history_count s" and "list_all (\<lambda>v. v \<noteq> []) L"
  shows "ini_peer_lines s = map (\<lambda>i. peer_line i (L ! i)) [0..<length L]"
proof -
  have "concat (map (\<lambda>i. if st_peer_history s ! i \<noteq> [] then [ini_kv (''peer_'' @ dec i) (st_peer_history s ! i)] else []) [0..<length L])
      = concat (map (\<lambda>i. [peer_line i (L ! i)]) [0..<length L])"
    using assms(1,3) by (intro arg_cong [where f = concat] map_cong) (auto simp: nth_append list_all_length peer_line_def)
  then show ?thesis using assms(2) by (simp add: ini_peer_lines_def concat_map_singleton)
qed

lemma ini_fold_head:
  assumes "settings_ok s" and "st_audio_channels s = st_audio_channels s0" and "st_audio_sample_rate s = st_audio_sample_rate s0"
  shows "foldl ini_line ([], config_init_defaults s0) (map (\<lambda>l. l @ nl) (take 18 (ini_lines s) @
      (if st_last_connected s \<noteq> [] then [ini_kv ''last_connected'' (st_last_connected s)] else [])))
    = (''peers'', s\<lparr>st_peer_history := st_peer_history s0, st_peer_history_count := 0\<rparr>)"
proof -
  have w: "word_of_int (atoi (dec (unat (st_video_bitrate s)))) = st_video_bitrate s"
      "word_of_int (atoi (dec (unat (st_video_framerate s)))) = st_video_framerate s"
      "word_of_int (atoi (dec (unat (st_audio_bitrate s)))) = st_audio_bitrate s"
      "word_of_int (atoi (dec (unat (st_network_port s)))) = st_network_port s"
      "atoi (dec_int (st_display_index s)) = st_display_index s"
    using assms(1) by (simp_all add: settings_ok_def dec_word dec_port atoi_dec_int)
  have c: "clean (st_video_codec s)" "strncpy 15 (st_video_codec s) = st_video_codec s" "clean (st_last_connected s)"
      "strncpy (ROOTSTREAM_CODE_MAX_LEN - 1) (st_last_connected s) = st_last_connected s"
    using assms(1) by (auto simp: settings_ok_def strncpy_def)
  have k: "key_ok ''bitrate''" "key_ok ''framerate''" "key_ok ''codec''" "key_ok ''display''" "key_ok ''enabled''" "key_ok ''port''"
      "key_ok ''discovery''" "key_ok ''last_connected''"
    by (simp_all add: key_ok_def is_trail_def is_blank_def)
  have sec: "ini_line (x, t) (ini_head ''video'' @ nl) = (''video'', t)" "ini_line (x, t) (ini_head ''audio'' @ nl) = (''audio'', t)"
      "ini_line (x, t) (ini_head ''network'' @ nl) = (''network'', t)" "ini_line (x, t) (ini_head ''peers'' @ nl) = (''peers'', t)" for x t
    by (rule ini_line_section; simp)+
  have kv: "ini_line (x, t) (ini_kv key v @ nl) = (x, ini_set x key v t)" if "key_ok key" "clean v" for x t key v
    using that by (rule ini_line_kv)
  show ?thesis
    by (simp del: ini_line.simps add: ini_lines_def sec kv ini_line_skip k c w json_bool_ini dec_clean dec_int_clean
        ini_set_def config_init_defaults_def) (use c assms(2,3) in \<open>auto intro!: settings.equality\<close>)
qed

lemma ini_lines_fit:
  assumes "settings_ok s"
  shows "list_all (line_ok 256) (ini_lines s)"
proof -
  obtain L where L: "st_peer_history s = L @ replicate (MAX_PEER_HISTORY - length L) []" "length L = st_peer_history_count s"
      "list_all (\<lambda>v. v \<noteq> [] \<and> clean v \<and> length v < ROOTSTREAM_CODE_MAX_LEN) L"
    using assms by (auto simp: settings_ok_def)
  have d: "CHR 0x0A \<notin> set (dec n)" "CHR 0x00 \<notin> set (dec n)" for n using dec_digits [of _ n] digit_plain by blast+
  have kv: "line_ok 256 (ini_kv k v)" if "length k \<le> 20" "length v \<le> 200" "key_ok k" "clean v" for k v
    using that key_clean [of k] by (auto simp: line_ok_def ini_kv_def clean_def)
  have n: "length (dec (unat (x :: u32))) \<le> 200" "length (dec (unat (y :: u16))) \<le> 200" for x y
    using length_dec_le [of "unat x" 200] length_dec_le [of "unat y" 200] unsigned_less [of x, where 'a = nat] unsigned_less [of y, where 'a = nat] by simp_all
  have di: "length (dec_int (st_display_index s)) \<le> 200"
  proof -
    have "nat (st_display_index s) < 10 ^ 10" "nat (- st_display_index s) < 10 ^ 10" using assms by (auto simp: settings_ok_def)
    then show ?thesis using length_dec_le [of "nat (st_display_index s)" 10] length_dec_le [of "nat (- st_display_index s)" 10] by (simp add: dec_int_def)
  qed
  have k: "key_ok ''bitrate''" "key_ok ''framerate''" "key_ok ''codec''" "key_ok ''display''" "key_ok ''enabled''" "key_ok ''port''"
      "key_ok ''discovery''" "key_ok ''last_connected''"
    by (simp_all add: key_ok_def is_trail_def is_blank_def)
  have c: "clean (st_video_codec s)" "length (st_video_codec s) \<le> 200" "clean (st_last_connected s)" "length (st_last_connected s) \<le> 200"
    using assms by (auto simp: settings_ok_def ROOTSTREAM_CODE_MAX_LEN_def)
  have b: "length (json_bool x) \<le> 200" for x by (simp add: json_bool_def)
  have p: "list_all (line_ok 256) (map (\<lambda>i. peer_line i (L ! i)) [0..<length L])"
  proof (unfold list_all_length, intro allI impI)
    fix i assume i: "i < length (map (\<lambda>i. peer_line i (L ! i)) [0..<length L])"
    then have il: "i < length L" by simp
    then have "clean (L ! i)" "length (L ! i) < 128" "i < 32" using L assms
      by (auto simp: list_all_length ROOTSTREAM_CODE_MAX_LEN_def settings_ok_def MAX_PEER_HISTORY_def)
    moreover have "length (dec i) \<le> 2" using \<open>i < 32\<close> by (intro length_dec_le) simp_all
    ultimately show "line_ok 256 (map (\<lambda>i. peer_line i (L ! i)) [0..<length L] ! i)"
      using il kv [OF _ _ peer_key [of i], of "L ! i"] by (simp add: peer_line_def)
  qed
  have e: "list_all (line_ok 256) (ini_peer_lines s)" using p L by (subst ini_peer_lines_eq) (auto simp: list_all_iff)
  have h: "line_ok 256 (ini_head ''video'')" "line_ok 256 (ini_head ''audio'')" "line_ok 256 (ini_head ''network'')" "line_ok 256 (ini_head ''peers'')"
      "line_ok 256 (ini_comment ''RootStream Configuration'')" "line_ok 256 (ini_comment ''Generated automatically - edit with caution'')" "line_ok 256 []"
    by (simp_all add: line_ok_def ini_head_def ini_comment_def)
  show ?thesis unfolding ini_lines_def by (simp add: e h kv k c b n di dec_clean dec_int_clean json_bool_ini)
qed

lemma ini_fold_lines:
  assumes "settings_ok s" and "st_audio_channels s = st_audio_channels s0" and "st_audio_sample_rate s = st_audio_sample_rate s0"
    and "st_peer_history s0 = replicate MAX_PEER_HISTORY []"
  shows "foldl ini_line ([], config_init_defaults s0) (map (\<lambda>l. l @ nl) (ini_lines s)) = (''peers'', s)"
proof -
  obtain L where L: "st_peer_history s = L @ replicate (MAX_PEER_HISTORY - length L) []" "length L = st_peer_history_count s"
      "list_all (\<lambda>v. v \<noteq> [] \<and> clean v \<and> length v < ROOTSTREAM_CODE_MAX_LEN) L" "length L \<le> MAX_PEER_HISTORY"
    using assms(1) by (auto simp: settings_ok_def)
  have ne: "list_all (\<lambda>v. v \<noteq> []) L" and cl: "list_all (\<lambda>v. clean v \<and> length v < ROOTSTREAM_CODE_MAX_LEN) L"
    using L(3) by (auto simp: list_all_iff)
  let ?head = "take 18 (ini_lines s) @ (if st_last_connected s \<noteq> [] then [ini_kv ''last_connected'' (st_last_connected s)] else [])"
  let ?s1 = "s\<lparr>st_peer_history := st_peer_history s0, st_peer_history_count := 0\<rparr>"
  have split: "ini_lines s = ?head @ ini_peer_lines s" by (simp add: ini_lines_def)
  have "foldl ini_line ([], config_init_defaults s0) (map (\<lambda>l. l @ nl) (ini_lines s))
      = foldl ini_line (''peers'', ?s1) (map (\<lambda>l. l @ nl) (ini_peer_lines s))"
    by (subst split) (simp only: map_append foldl_append ini_fold_head [OF assms(1-3), simplified map_append foldl_append])
  also have "map (\<lambda>l. l @ nl) (ini_peer_lines s) = map (\<lambda>i. peer_line i (L ! i) @ nl) [0..<length L]"
    using ini_peer_lines_eq [OF L(1,2) ne] by simp
  also have "foldl ini_line (''peers'', ?s1) (map (\<lambda>i. peer_line i (L ! i) @ nl) [0..<length L])
      = (''peers'', ?s1\<lparr>st_peer_history := L @ replicate (MAX_PEER_HISTORY - length L) [], st_peer_history_count := length L\<rparr>)"
    using cl L(4) assms(4) by (intro ini_peers) simp_all
  finally show ?thesis using L(1,2) by simp
qed

text \<open>C34: Settings that fit the lines of the file are saved and loaded again, every field of them, when the whole file could be written.  (The channels and the
  sampling rate of the audio are not in the file and stay as they were.)\<close>

theorem config_ini_roundtrip:
  assumes "settings_ok s" and "st_audio_channels s = st_audio_channels s0" and "st_audio_sample_rate s = st_audio_sample_rate s0"
    and "st_peer_history s0 = replicate MAX_PEER_HISTORY []"
    and "config_save_ini s dir fs = (0, fs')" and "length dir \<le> 500" and "\<And>p. os_readable E p"
    and "length (concat (map (\<lambda>l. l @ nl) (ini_lines s))) \<le> fs_room fs"
  shows "config_load_ini E fs' s0 dir = (0, s)"
proof -
  let ?t = "concat (map (\<lambda>l. l @ nl) (ini_lines s))" and ?p = "cfg_path dir ''config.ini''"
  have "fs_files fs' ?p = Some (str_bytes ?t)"
    using assms(5,8) by (auto simp: config_save_ini_def f_create_def f_write_def split: if_splits option.splits)
  then have r: "f_open_read E ?p fs' = Some (str_bytes ?t)" using assms(7) by (simp add: f_open_read_def)
  have b: "map (\<lambda>x. char_of (unat x)) (str_bytes ?t) = ?t" by (simp add: str_bytes_def comp_def)
  have l: "fgets_lines 256 ?t = map (\<lambda>l. l @ nl) (ini_lines s)" by (rule fgets_lines_concat [OF ini_lines_fit [OF assms(1)]])
  show ?thesis unfolding config_load_ini_def r option.case b l ini_fold_lines [OF assms(1-4)] using assms(6) by simp
qed

definition sample_settings :: settings where
  "sample_settings = (config_init_defaults settings_zero)\<lparr>st_video_codec := ''h265'', st_display_index := - 1, st_last_connected := ''k=@a b'',
     st_peer_history := ''k=@a b'' # replicate 31 [], st_peer_history_count := 1\<rparr>"

lemma sample_settings_ok: "settings_ok sample_settings"
proof -
  have "st_peer_history sample_settings = [''k=@a b''] @ replicate (MAX_PEER_HISTORY - length [''k=@a b'']) []"
    by (simp add: sample_settings_def MAX_PEER_HISTORY_def)
  then show ?thesis unfolding settings_ok_def
    by (intro conjI exI [of _ "[''k=@a b'']"])
      (simp_all add: sample_settings_def config_init_defaults_def settings_zero_def clean_def is_blank_def is_trail_def
        ROOTSTREAM_CODE_MAX_LEN_def MAX_PEER_HISTORY_def)
qed

lemma lines_length: "list_all (line_ok 256) ls \<Longrightarrow> length (concat (map (\<lambda>l. l @ nl) ls)) \<le> 256 * length ls"
  by (induction ls) (auto simp: line_ok_def nl_def)

lemma config_ini_roundtrip_witness:
  "\<exists>fs'. config_save_ini sample_settings ''cfg'' (toy_disk 10000) = (0, fs') \<and> config_load_ini toy_os fs' settings_zero ''cfg'' = (0, sample_settings)"
proof -
  define fs' where "fs' = snd (config_save_ini sample_settings ''cfg'' (toy_disk 10000))"
  have s: "config_save_ini sample_settings ''cfg'' (toy_disk 10000) = (0, fs')"
    by (simp add: fs'_def config_save_ini_def f_create_def toy_disk_def)
  have l: "length (concat (map (\<lambda>l. l @ nl) (ini_lines sample_settings))) \<le> 10000"
    using lines_length [OF ini_lines_fit [OF sample_settings_ok]] by (simp add: ini_lines_def ini_peer_lines_def sample_settings_def)
  have "config_load_ini toy_os fs' settings_zero ''cfg'' = (0, sample_settings)"
    using l by (intro config_ini_roundtrip [OF sample_settings_ok _ _ _ s])
      (simp_all add: sample_settings_def config_init_defaults_def settings_zero_def toy_os_def toy_disk_def)
  with s show ?thesis by blast
qed

text \<open>A secret key without its public file is not repaired: the start-up makes a new pair and writes it over the old one.\<close>

lemma missing_public_key_replaces_identity:
  assumes "fs_files fs (sec_path dir) = Some sk" and "length sk \<ge> 32" and "fs_files fs (pub_path dir) = None"
    and "sgn_keypair S = Some (pk', sk')"
  shows "\<exists>c'. config_load S E dir host (Some c) fs =
    (0, Some c', snd (crypto_save_keypair E (Some (cx_keypair c')) (Some dir) fs)) \<and> dk_secret (cx_keypair c') = take 32 sk'"
  using assms by (auto simp: Let_def f_open_read_def CRYPTO_KEY_FILE_BYTES_def simp del: crypto_save_keypair.simps)

end
