(* ===== verification/Discovery.thy ===== *)
theory Discovery
  imports Net_State Config
begin

text \<open>
  Finding peers: by hand and by history (\<^verbatim>\<open>src/src/discovery_manual.c\<close>), by broadcast (\<^verbatim>\<open>discovery_broadcast.c\<close>), and the cache of
  what was found, and what the callbacks of the service browser do to it and to the peers (\<^verbatim>\<open>discovery.c\<close>; the Avahi client itself is not modelled).  Name resolution, the network interface, the
  datagram that arrives and the clocks are arguments.
\<close>

definition MAX_CACHED_PEERS :: nat where "MAX_CACHED_PEERS = 64"

record peer_history_entry =
  phe_hostname :: string
  phe_address :: string
  phe_port :: u16
  phe_code :: string

record peer_cache_entry =
  pce_hostname :: string
  pce_ip_address :: string
  pce_port :: u16
  pce_code :: string
  pce_capability :: string
  pce_version :: string
  pce_max_peers :: u32
  pce_bandwidth :: string
  pce_discovered_time_us :: u64
  pce_last_seen_time_us :: u64
  pce_ttl_seconds :: u32
  pce_is_online :: bool
  pce_contact_count :: u32
  pce_failure_count :: u32

definition peer_cache_entry_zero :: peer_cache_entry where
  "peer_cache_entry_zero = \<lparr>pce_hostname = [], pce_ip_address = [], pce_port = 0, pce_code = [], pce_capability = [], pce_version = [], pce_max_peers = 0,
     pce_bandwidth = [], pce_discovered_time_us = 0, pce_last_seen_time_us = 0, pce_ttl_seconds = 0, pce_is_online = False, pce_contact_count = 0,
     pce_failure_count = 0\<rparr>"

text \<open>The parts of the context that discovery works on; \<open>dsc_peers\<close> and \<open>dsc_history\<close> are the entries in use.\<close>

record disc_ctx =
  dsc_code :: string
  dsc_is_host :: bool
  dsc_port :: u16
  dsc_video_bitrate :: u32
  dsc_peers :: "peer list"
  dsc_history :: "peer_history_entry list"
  dsc_cache :: "peer_cache_entry list"
  dsc_num_cached :: int
  dsc_last_cleanup_us :: u64
  dsc_total_discoveries :: u64
  dsc_total_losses :: u64
  dsc_broadcast_discoveries :: u64
  dsc_manual_discoveries :: u64
  dsc_mdns_discoveries :: u64

section \<open>By hand\<close>

fun discovery_parse_rootstream_code :: "disc_ctx option \<Rightarrow> string option \<Rightarrow> int \<times> (string \<times> u16) option" where
  "discovery_parse_rootstream_code (Some ctx) (Some code) = (case find (\<lambda>e. phe_code e = code) (dsc_history ctx) of
     Some e \<Rightarrow> (0, Some (take 255 (phe_hostname e), phe_port e))
   | None \<Rightarrow> (-1, None))"
| "discovery_parse_rootstream_code ctx code = (-1, None)"

text \<open>What is written to the out-parameters: the host name even when the port is refused.\<close>

fun discovery_parse_address :: "string option \<Rightarrow> int \<times> string option \<times> u16 option" where
  "discovery_parse_address (Some address) = (case split_at_last (CHR 0x3A) (take 255 address) of
     None \<Rightarrow> (-1, None, None)
   | Some (host, port_str) \<Rightarrow>
      let port_num = atoi port_str in
      if port_num \<le> 0 \<or> port_num > 65535 then (-1, Some (take 255 host), None)
      else (0, Some (take 255 host), Some (word_of_int port_num)))"
| "discovery_parse_address None = (-1, None, None)"

text \<open>A \<^verbatim>\<open>sockaddr_in\<close> in the 128 bytes of the address: family 2, the two bytes of the port as given, four bytes of address.\<close>

definition sockaddr_in :: "u8 list \<Rightarrow> u8 list \<Rightarrow> bytes" where
  "sockaddr_in port_bytes ip = overwrite ([2, 0] @ port_bytes @ ip) (replicate 128 0)"

definition htons_bytes :: "u16 \<Rightarrow> u8 list" where
  "htons_bytes p = [ucast (drop_bit 8 p), ucast p]"

fun discovery_save_peer_to_history :: "disc_ctx option \<Rightarrow> string option \<Rightarrow> u16 \<Rightarrow> string option \<Rightarrow> int \<times> disc_ctx option" where
  "discovery_save_peer_to_history (Some ctx) (Some host) port code =
     (if list_ex (\<lambda>e. phe_hostname e = host \<and> phe_port e = port) (dsc_history ctx) then (0, Some ctx)
      else let h = (if length (dsc_history ctx) \<ge> MAX_PEER_HISTORY then tl (dsc_history ctx) else dsc_history ctx);
               e = \<lparr>phe_hostname = cstr_fit 256 host, phe_address = cstr_fit 256 (host @ '':'' @ dec (unat port)), phe_port = port,
                    phe_code = (case code of None \<Rightarrow> [] | Some c \<Rightarrow> cstr_fit ROOTSTREAM_CODE_MAX_LEN c)\<rparr> in
        (0, Some (ctx\<lparr>dsc_history := h @ [e]\<rparr>)))"
| "discovery_save_peer_to_history ctx host port code = (-1, ctx)"

record resolver =
  rsv_aton :: "string \<Rightarrow> u8 list option"
  rsv_gethostbyname :: "string \<Rightarrow> u8 list option"

fun discovery_manual_add_peer :: "resolver \<Rightarrow> u64 \<Rightarrow> disc_ctx option \<Rightarrow> string option \<Rightarrow> int \<times> disc_ctx option" where
  "discovery_manual_add_peer R now_ms (Some ctx) (Some address_or_code) =
     (let parsed = (if CHR 0x3A \<in> set address_or_code
          then (case discovery_parse_address (Some address_or_code) of (r, h, p) \<Rightarrow> if r < 0 then None else Some (the h, the p))
          else snd (discovery_parse_rootstream_code (Some ctx) (Some address_or_code))) in
      case parsed of
        None \<Rightarrow> (-1, Some ctx)
      | Some (host, port) \<Rightarrow>
         if list_ex (\<lambda>p. hostname p = host) (dsc_peers ctx) then (0, Some ctx)
         else if length (dsc_peers ctx) \<ge> MAX_PEERS then (-1, Some ctx)
         else case (case rsv_aton R host of Some ip \<Rightarrow> Some ip | None \<Rightarrow> rsv_gethostbyname R host) of
           None \<Rightarrow> (-1, Some ctx)
         | Some ip \<Rightarrow>
            let p = zero_peer\<lparr>hostname := cstr_fit 64 host, addr_len := 16, addr := sockaddr_in (htons_bytes port) ip,
                 p_state := PEER_DISCOVERED, last_seen := now_ms\<rparr>;
                ctx = ctx\<lparr>dsc_peers := dsc_peers ctx @ [p], dsc_manual_discoveries := dsc_manual_discoveries ctx + 1\<rparr> in
            (0, snd (discovery_save_peer_to_history (Some ctx) (Some host) port (Some address_or_code))))"
| "discovery_manual_add_peer R now_ms ctx address_or_code = (-1, ctx)"

lemma parse_address_text:
  assumes "0 < unat p" and "length host + length (dec (unat p)) < 255"
  shows "discovery_parse_address (Some (host @ '':'' @ dec (unat p))) = (0, Some host, Some p)"
proof -
  have c: "CHR 0x3A \<notin> set (dec (unat p))" using dec_digits [of _ "unat p"] digit_plain by blast
  have u: "unat p < 65536" using unsigned_less [of p, where 'a = nat] by simp
  have "take 255 (host @ '':'' @ dec (unat p)) = host @ CHR 0x3A # dec (unat p)" using assms(2) by simp
  then have s: "split_at_last (CHR 0x3A) (take 255 (host @ '':'' @ dec (unat p))) = Some (host, dec (unat p))"
    using split_at_last_append [OF c, of host] by (simp only:)
  have a: "atoi (dec (unat p)) = int (unat p)" using u by (intro atoi_dec_nil) simp
  then have n: "\<not> (atoi (dec (unat p)) \<le> 0 \<or> atoi (dec (unat p)) > 65535)" using assms(1) u by linarith
  have w: "word_of_int (atoi (dec (unat p))) = p" unfolding a by simp
  have h: "take 255 host = host" using assms(2) by simp
  show ?thesis unfolding discovery_parse_address.simps s option.case prod.case Let_def if_not_P [OF n] w h ..
qed

section \<open>The cache\<close>

definition dsc_find :: "disc_ctx \<Rightarrow> string \<Rightarrow> nat option" where
  "dsc_find ctx host = first_idx (\<lambda>e. pce_hostname e = host) (take (nat (dsc_num_cached ctx)) (dsc_cache ctx))"

fun discovery_cache_add_peer :: "disc_ctx option \<Rightarrow> peer_cache_entry option \<Rightarrow> int \<times> disc_ctx option" where
  "discovery_cache_add_peer (Some ctx) (Some entry) = (case dsc_find ctx (pce_hostname entry) of
     Some i \<Rightarrow> (0, Some (ctx\<lparr>dsc_cache := (dsc_cache ctx)[i := entry\<lparr>pce_contact_count := pce_contact_count entry + 1\<rparr>]\<rparr>))
   | None \<Rightarrow>
      if dsc_num_cached ctx \<ge> int MAX_CACHED_PEERS then (-1, Some ctx)
      else (0, Some (ctx\<lparr>dsc_cache := (dsc_cache ctx)[nat (dsc_num_cached ctx) := entry], dsc_num_cached := dsc_num_cached ctx + 1,
             dsc_total_discoveries := dsc_total_discoveries ctx + 1\<rparr>)))"
| "discovery_cache_add_peer ctx entry = (-1, ctx)"

fun discovery_cache_update_peer :: "disc_ctx option \<Rightarrow> string option \<Rightarrow> u64 \<Rightarrow> int \<times> disc_ctx option" where
  "discovery_cache_update_peer (Some ctx) (Some host) t = (case dsc_find ctx host of
     None \<Rightarrow> (-1, Some ctx)
   | Some i \<Rightarrow> (0, Some (ctx\<lparr>dsc_cache := (dsc_cache ctx)[i := (dsc_cache ctx ! i)\<lparr>pce_last_seen_time_us := t, pce_is_online := True\<rparr>]\<rparr>)))"
| "discovery_cache_update_peer ctx host t = (-1, ctx)"

text \<open>The entries from \<open>i + 1\<close> to \<open>n - 1\<close> each move one place down; entry \<open>n - 1\<close> stays where it was too.\<close>

definition shift_left :: "nat \<Rightarrow> nat \<Rightarrow> 'a list \<Rightarrow> 'a list" where
  "shift_left i n c = take i c @ drop (Suc i) (take n c) @ drop (n - 1) c"

fun discovery_cache_remove_peer :: "disc_ctx option \<Rightarrow> string option \<Rightarrow> int \<times> disc_ctx option" where
  "discovery_cache_remove_peer (Some ctx) (Some host) = (case dsc_find ctx host of
     None \<Rightarrow> (-1, Some ctx)
   | Some i \<Rightarrow> (0, Some (ctx\<lparr>dsc_cache := shift_left i (nat (dsc_num_cached ctx)) (dsc_cache ctx), dsc_num_cached := dsc_num_cached ctx - 1,
        dsc_total_losses := dsc_total_losses ctx + 1\<rparr>)))"
| "discovery_cache_remove_peer ctx host = (-1, ctx)"

fun discovery_cache_get_peer :: "disc_ctx option \<Rightarrow> string option \<Rightarrow> peer_cache_entry option" where
  "discovery_cache_get_peer (Some ctx) (Some host) = map_option (\<lambda>i. dsc_cache ctx ! i) (dsc_find ctx host)"
| "discovery_cache_get_peer ctx host = None"

definition dsc_live :: "disc_ctx \<Rightarrow> peer_cache_entry list" where
  "dsc_live ctx = take (nat (dsc_num_cached ctx)) (dsc_cache ctx)"

fun discovery_cache_get_all :: "disc_ctx option \<Rightarrow> peer_cache_entry list option \<Rightarrow> int \<Rightarrow> int \<times> peer_cache_entry list option" where
  "discovery_cache_get_all (Some ctx) (Some entries) max_entries =
     (if max_entries \<le> 0 then (-1, Some entries)
      else let n = (if dsc_num_cached ctx > max_entries then max_entries else dsc_num_cached ctx) in
        (n, Some (overwrite (take (nat n) (dsc_cache ctx)) entries)))"
| "discovery_cache_get_all ctx entries max_entries = (-1, entries)"

fun discovery_cache_get_online :: "disc_ctx option \<Rightarrow> peer_cache_entry list option \<Rightarrow> int \<Rightarrow> int \<times> peer_cache_entry list option" where
  "discovery_cache_get_online (Some ctx) (Some entries) max_entries =
     (if max_entries \<le> 0 then (-1, Some entries)
      else let es = take (nat max_entries) (filter pce_is_online (dsc_live ctx)) in (int (length es), Some (overwrite es entries)))"
| "discovery_cache_get_online ctx entries max_entries = (-1, entries)"

definition pce_age :: "u64 \<Rightarrow> peer_cache_entry \<Rightarrow> u64" where
  "pce_age now_us e = now_us - pce_last_seen_time_us e"

definition pce_ttl_us :: "peer_cache_entry \<Rightarrow> u64" where
  "pce_ttl_us e = ucast (pce_ttl_seconds e) * 1000000"

text \<open>The index only goes down when the entry there is kept, so the loop is a partial function.\<close>

partial_function (option) dsc_expire_loop :: "u64 \<Rightarrow> int \<Rightarrow> peer_cache_entry list \<Rightarrow> int \<Rightarrow> u64 \<Rightarrow> (peer_cache_entry list \<times> int \<times> u64) option" where
  "dsc_expire_loop now_us i c n losses =
     (if i < 0 then Some (c, n, losses)
      else let e = c ! nat i in
        if pce_age now_us e > pce_ttl_us e
        then dsc_expire_loop now_us i (if i < n - 1 then shift_left (nat i) (nat n) c else c) (n - 1) (losses + 1)
        else if pce_age now_us e > pce_ttl_us e div 2 then dsc_expire_loop now_us (i - 1) (c[nat i := e\<lparr>pce_is_online := False\<rparr>]) n losses
        else dsc_expire_loop now_us (i - 1) c n losses)"

fun discovery_cache_expire_old_entries :: "u64 \<Rightarrow> disc_ctx option \<Rightarrow> disc_ctx option option" where
  "discovery_cache_expire_old_entries now_us None = Some None"
| "discovery_cache_expire_old_entries now_us (Some ctx) =
     map_option (\<lambda>(c, n, losses). Some (ctx\<lparr>dsc_last_cleanup_us := now_us, dsc_cache := c, dsc_num_cached := n, dsc_total_losses := losses\<rparr>))
       (dsc_expire_loop now_us (dsc_num_cached ctx - 1) (dsc_cache ctx) (dsc_num_cached ctx) (dsc_total_losses ctx))"

definition discovery_cache_cleanup :: "disc_ctx option \<Rightarrow> disc_ctx option" where
  "discovery_cache_cleanup ctx = map_option (\<lambda>c. c\<lparr>dsc_num_cached := 0, dsc_cache := replicate MAX_CACHED_PEERS peer_cache_entry_zero\<rparr>) ctx"

definition pce_expired :: "u64 \<Rightarrow> peer_cache_entry \<Rightarrow> bool" where
  "pce_expired now_us e \<longleftrightarrow> pce_age now_us e > pce_ttl_us e"

definition pce_marked :: "u64 \<Rightarrow> peer_cache_entry \<Rightarrow> peer_cache_entry" where
  "pce_marked now_us e = (if pce_age now_us e > pce_ttl_us e div 2 then e\<lparr>pce_is_online := False\<rparr> else e)"

lemma pce_marked_again [simp]: "pce_marked t (pce_marked t e) = pce_marked t e" "pce_expired t (pce_marked t e) = pce_expired t e"
  by (simp_all add: pce_marked_def pce_expired_def pce_age_def pce_ttl_us_def)

text \<open>When the last entry in use has expired, the loop looks at the same entry for ever.\<close>

lemma dsc_expire_stuck:
  assumes "dsc_expire_loop t i c n l = Some y"
  shows "\<not> (0 \<le> i \<and> n - 1 \<le> i \<and> pce_expired t (c ! nat i))"
proof (rule dsc_expire_loop.raw_induct [OF _ assms, where P = "\<lambda>t i c n l y. \<not> (0 \<le> i \<and> n - 1 \<le> i \<and> pce_expired t (c ! nat i))"])
  fix loop :: "u64 \<Rightarrow> int \<Rightarrow> peer_cache_entry list \<Rightarrow> int \<Rightarrow> u64 \<Rightarrow> (peer_cache_entry list \<times> int \<times> u64) option" and t i c n l y
  assume IH: "\<And>t i c n l y. loop t i c n l = Some y \<Longrightarrow> \<not> (0 \<le> i \<and> n - 1 \<le> i \<and> pce_expired t (c ! nat i))"
    and b: "(if i < 0 then Some (c, n, l)
      else let e = c ! nat i in
        if pce_age t e > pce_ttl_us e
        then loop t i (if i < n - 1 then shift_left (nat i) (nat n) c else c) (n - 1) (l + 1)
        else if pce_age t e > pce_ttl_us e div 2 then loop t (i - 1) (c[nat i := e\<lparr>pce_is_online := False\<rparr>]) n l
        else loop t (i - 1) c n l) = Some y"
  show "\<not> (0 \<le> i \<and> n - 1 \<le> i \<and> pce_expired t (c ! nat i))"
  proof
    assume a: "0 \<le> i \<and> n - 1 \<le> i \<and> pce_expired t (c ! nat i)"
    then have "loop t i c (n - 1) (l + 1) = Some y" using b by (simp add: pce_expired_def Let_def)
    from IH [OF this] a show False by simp
  qed
qed

lemma dsc_expire_keep:
  assumes "0 \<le> i" and "\<not> pce_expired t (c ! nat i)"
  shows "dsc_expire_loop t i c n l = dsc_expire_loop t (i - 1) (c[nat i := pce_marked t (c ! nat i)]) n l"
  using assms by (subst dsc_expire_loop.simps) (simp add: pce_expired_def pce_marked_def Let_def)

lemma dsc_expire_drop:
  assumes "0 \<le> i" and "pce_expired t (c ! nat i)"
  shows "dsc_expire_loop t i c n l = dsc_expire_loop t i (if i < n - 1 then shift_left (nat i) (nat n) c else c) (n - 1) (l + 1)"
  using assms by (subst dsc_expire_loop.simps) (simp add: pce_expired_def Let_def)

lemma shift_left_live:
  "shift_left (length xs) (length xs + 1 + length ys) (xs @ x # ys @ zs) = xs @ ys @ last (x # ys) # zs"
proof -
  have "drop (length xs + length ys) (xs @ x # ys @ zs) = last (x # ys) # zs"
    by (cases ys rule: rev_cases) simp_all
  then show ?thesis by (simp add: shift_left_def)
qed

text \<open>With a fresh entry behind it, the loop removes what has expired and marks what is half expired.\<close>

lemma dsc_expire_runs:
  "ys \<noteq> [] \<Longrightarrow> list_all (\<lambda>e. \<not> pce_expired t e \<and> pce_marked t e = e) ys \<Longrightarrow>
   \<exists>zs'. dsc_expire_loop t (int (length xs) - 1) (xs @ ys @ zs) (int (length xs + length ys)) l
     = Some (map (pce_marked t) (filter (\<lambda>e. \<not> pce_expired t e) xs) @ ys @ zs', int (length (filter (\<lambda>e. \<not> pce_expired t e) xs) + length ys),
         l + of_nat (length (filter (pce_expired t) xs)))
     \<and> length zs' = length zs + length (filter (pce_expired t) xs)"
proof (induction xs arbitrary: ys zs l rule: rev_induct)
  case Nil
  then show ?case by (simp add: dsc_expire_loop.simps)
next
  case (snoc x xs)
  let ?i = "int (length xs)"
  have at: "(xs @ x # ys @ zs) ! nat ?i = x" by (simp add: nth_append)
  show ?case
  proof (cases "pce_expired t x")
    case True
    obtain y ys' where y: "ys = y # ys'" using snoc.prems(1) by (cases ys) auto
    have fresh: "\<not> pce_expired t y" "pce_marked t y = y" using snoc.prems(2) y by simp_all
    let ?zs = "last (x # ys) # zs"
    have s: "shift_left (length xs) (nat (1 + (?i + int (length ys)))) (xs @ x # ys @ zs) = xs @ ys @ ?zs"
      using shift_left_live [of xs ys x zs] by (simp add: nat_add_distrib)
    have "dsc_expire_loop t ?i (xs @ x # ys @ zs) (1 + (?i + int (length ys))) l = dsc_expire_loop t ?i (xs @ ys @ ?zs) (?i + int (length ys)) (l + 1)"
      using True snoc.prems(1) s by (subst dsc_expire_drop) (simp_all add: at)
    also have "\<dots> = dsc_expire_loop t (?i - 1) (xs @ ys @ ?zs) (?i + int (length ys)) (l + 1)"
    proof -
      have ath: "(xs @ ys @ ?zs) ! nat ?i = y" by (simp add: nth_append y)
      have "(xs @ ys @ ?zs)[nat ?i := y] = xs @ ys @ ?zs" using ath by (metis list_update_id)
      then show ?thesis using fresh by (subst dsc_expire_keep) (simp_all only: ath of_nat_0_le_iff not_False_eq_True)
    qed
    finally have e: "dsc_expire_loop t ?i (xs @ x # ys @ zs) (1 + (?i + int (length ys))) l = dsc_expire_loop t (?i - 1) (xs @ ys @ ?zs) (?i + int (length ys)) (l + 1)" .
    from snoc.IH [OF snoc.prems, of ?zs "l + 1"] obtain zs' where
      "dsc_expire_loop t (?i - 1) (xs @ ys @ ?zs) (?i + int (length ys)) (l + 1)
        = Some (map (pce_marked t) (filter (\<lambda>e. \<not> pce_expired t e) xs) @ ys @ zs', int (length (filter (\<lambda>e. \<not> pce_expired t e) xs) + length ys),
            l + 1 + of_nat (length (filter (pce_expired t) xs)))"
      "length zs' = length ?zs + length (filter (pce_expired t) xs)" by (auto simp del: last.simps)
    then show ?thesis using e True by (intro exI [of _ zs']) (simp add: ac_simps del: last.simps)
  next
    case False
    have "dsc_expire_loop t ?i (xs @ x # ys @ zs) (1 + (?i + int (length ys))) l
        = dsc_expire_loop t (?i - 1) (xs @ (pce_marked t x # ys) @ zs) (int (length xs + length (pce_marked t x # ys))) l"
      using False by (subst dsc_expire_keep) (simp_all add: at list_update_append ac_simps)
    moreover have "list_all (\<lambda>e. \<not> pce_expired t e \<and> pce_marked t e = e) (pce_marked t x # ys)" using snoc.prems(2) False by simp
    ultimately show ?thesis using snoc.IH [of "pce_marked t x # ys" zs l] False by (simp add: ac_simps)
  qed
qed

text \<open>Expiring the cache ends exactly when the last entry in use has not expired itself; then the cache holds, in order, the entries that have
  not expired, those past half their time marked as offline, and the losses count the others.  When the last entry has expired, the call never
  returns.\<close>

theorem cache_expiry_terminates_iff:
  assumes "0 < dsc_num_cached ctx" and "dsc_num_cached ctx \<le> int (length (dsc_cache ctx))"
  shows "if pce_expired now_us (last (dsc_live ctx)) then discovery_cache_expire_old_entries now_us (Some ctx) = None
    else \<exists>ctx'. discovery_cache_expire_old_entries now_us (Some ctx) = Some (Some ctx')
      \<and> dsc_live ctx' = map (pce_marked now_us) (filter (\<lambda>e. \<not> pce_expired now_us e) (dsc_live ctx))
      \<and> length (dsc_cache ctx') = length (dsc_cache ctx)
      \<and> dsc_total_losses ctx' = dsc_total_losses ctx + of_nat (length (filter (pce_expired now_us) (dsc_live ctx)))"
proof -
  define n where "n = nat (dsc_num_cached ctx)"
  have n: "0 < n" "n \<le> length (dsc_cache ctx)" "dsc_num_cached ctx = int n" using assms by (auto simp: n_def)
  define c where "c = dsc_cache ctx"
  have ln: "dsc_live ctx = take n c" by (simp add: dsc_live_def c_def n_def)
  have cut: "c = take (n - 1) c @ c ! (n - 1) # drop n c" using n id_take_nth_drop [of "n - 1" c] by (simp add: c_def)
  have tk: "take n c = take (n - 1) c @ [c ! (n - 1)]" using n take_Suc_conv_app_nth [of "n - 1" c] by (simp add: c_def)
  then have la: "last (dsc_live ctx) = c ! (n - 1)" by (simp add: ln)
  have i: "nat (dsc_num_cached ctx - 1) = n - 1" using n by simp
  show ?thesis
  proof (cases "pce_expired now_us (c ! (n - 1))")
    case True
    have "dsc_expire_loop now_us (dsc_num_cached ctx - 1) c (dsc_num_cached ctx) (dsc_total_losses ctx) = None"
    proof (rule ccontr)
      assume "dsc_expire_loop now_us (dsc_num_cached ctx - 1) c (dsc_num_cached ctx) (dsc_total_losses ctx) \<noteq> None"
      then obtain y where "dsc_expire_loop now_us (dsc_num_cached ctx - 1) c (dsc_num_cached ctx) (dsc_total_losses ctx) = Some y" by blast
      from dsc_expire_stuck [OF this] True n i show False by simp
    qed
    then show ?thesis using True la by (simp add: c_def)
  next
    case False
    let ?x = "c ! (n - 1)" and ?xs = "take (n - 1) c"
    have lx: "length ?xs = n - 1" using n by (simp add: c_def)
    have "dsc_expire_loop now_us (int (n - 1)) c (int n) l = dsc_expire_loop now_us (int (n - 1) - 1) (?xs @ [pce_marked now_us ?x] @ drop n c) (int n) l" for l
    proof -
      have "c[n - 1 := pce_marked now_us ?x] = ?xs @ [pce_marked now_us ?x] @ drop n c" using n upd_conv_take_nth_drop [of "n - 1" c] by (simp add: c_def)
      then show ?thesis using False by (subst dsc_expire_keep) simp_all
    qed
    moreover have "list_all (\<lambda>e. \<not> pce_expired now_us e \<and> pce_marked now_us e = e) [pce_marked now_us ?x]" using False by simp
    note dsc_expire_runs [OF _ this, of ?xs "drop n c" "dsc_total_losses ctx"]
    ultimately obtain zs where z: "dsc_expire_loop now_us (int (n - 1)) c (int n) (dsc_total_losses ctx)
      = Some (map (pce_marked now_us) (filter (\<lambda>e. \<not> pce_expired now_us e) ?xs) @ [pce_marked now_us ?x] @ zs,
         int (length (filter (\<lambda>e. \<not> pce_expired now_us e) ?xs) + 1), dsc_total_losses ctx + of_nat (length (filter (pce_expired now_us) ?xs)))"
      and lz: "length zs = length (drop n c) + length (filter (pce_expired now_us) ?xs)" using n lx by auto
    have sum: "length (filter (\<lambda>e. \<not> pce_expired now_us e) ?xs) + length (filter (pce_expired now_us) ?xs) = n - 1"
      using sum_length_filter_compl [of "pce_expired now_us" ?xs] lx by simp
    have eqi: "dsc_num_cached ctx - 1 = int (n - 1)" using n by simp
    define F where "F = map (pce_marked now_us) (filter (\<lambda>e. \<not> pce_expired now_us e) ?xs)"
    have lF: "length (filter (\<lambda>e. \<not> pce_expired now_us e) ?xs) = length F" by (simp add: F_def)
    have cut': "take (nat (int (length F + 1))) (F @ [pce_marked now_us ?x] @ zs) = F @ [pce_marked now_us ?x]" by (simp only: nat_int) simp
    have len: "length (F @ [pce_marked now_us ?x] @ zs) = length c" using lz sum [unfolded lF] n by (simp add: c_def)
    define ctx' where "ctx' = ctx\<lparr>dsc_last_cleanup_us := now_us, dsc_cache := F @ [pce_marked now_us ?x] @ zs,
      dsc_num_cached := int (length F + 1), dsc_total_losses := dsc_total_losses ctx + of_nat (length (filter (pce_expired now_us) ?xs))\<rparr>"
    have eq2: "int n - 1 = int (n - 1)" using n(1) by simp
    have run: "discovery_cache_expire_old_entries now_us (Some ctx) = Some (Some ctx')"
      unfolding discovery_cache_expire_old_entries.simps eq2 c_def [symmetric] n(3) z [unfolded F_def [symmetric] lF] by (simp add: ctx'_def)
    have "dsc_live ctx' = F @ [pce_marked now_us ?x]" using cut' by (simp add: dsc_live_def ctx'_def)
    moreover have "map (pce_marked now_us) (filter (\<lambda>e. \<not> pce_expired now_us e) (dsc_live ctx)) = F @ [pce_marked now_us ?x]"
      using False by (simp add: ln tk F_def)
    moreover have "length (dsc_cache ctx') = length (dsc_cache ctx)" using len by (simp add: ctx'_def c_def)
    moreover have "dsc_total_losses ctx' = dsc_total_losses ctx + of_nat (length (filter (pce_expired now_us) (dsc_live ctx)))"
      using False by (simp add: ctx'_def ln tk)
    ultimately show ?thesis using False la run by auto
  qed
qed

definition disc_sample :: "peer_cache_entry list \<Rightarrow> disc_ctx" where
  "disc_sample es = \<lparr>dsc_code = ''k=@me'', dsc_is_host = True, dsc_port = 9876, dsc_video_bitrate = 10000000, dsc_peers = [], dsc_history = [],
     dsc_cache = es @ replicate (MAX_CACHED_PEERS - length es) peer_cache_entry_zero, dsc_num_cached = int (length es), dsc_last_cleanup_us = 0,
     dsc_total_discoveries = 0, dsc_total_losses = 0, dsc_broadcast_discoveries = 0, dsc_manual_discoveries = 0, dsc_mdns_discoveries = 0\<rparr>"

lemma cache_expiry_terminates_iff_witness:
  "discovery_cache_expire_old_entries 5000000 (Some (disc_sample [peer_cache_entry_zero\<lparr>pce_ttl_seconds := 9\<rparr>, peer_cache_entry_zero\<lparr>pce_ttl_seconds := 1\<rparr>])) = None"
  using cache_expiry_terminates_iff [of "disc_sample [peer_cache_entry_zero\<lparr>pce_ttl_seconds := 9\<rparr>, peer_cache_entry_zero\<lparr>pce_ttl_seconds := 1\<rparr>]" 5000000]
  by (simp add: disc_sample_def MAX_CACHED_PEERS_def dsc_live_def pce_expired_def pce_age_def pce_ttl_us_def peer_cache_entry_zero_def word_less_nat_alt
      del: discovery_cache_expire_old_entries.simps)

section \<open>By broadcast\<close>

definition DISCOVERY_MAGIC :: "u8 list" where "DISCOVERY_MAGIC = str_bytes ''ROOTSTREAM_DISCOVER''"

text \<open>An array of \<open>n\<close> characters that was zeroed and then given a string.\<close>

definition char_array :: "nat \<Rightarrow> string \<Rightarrow> u8 list" where
  "char_array n s = str_bytes (take (n - 1) s) @ replicate (n - length (take (n - 1) s)) 0"

text \<open>The packet as the structure lies in memory: 480 bytes, two of them padding before \<open>max_peers\<close>.\<close>

record disc_net =
  dnv_local_ip :: bool
  dnv_socket :: bool
  dnv_broadcast :: bool
  dnv_sent :: bool
  dnv_hostname :: string

definition broadcast_packet :: "disc_net \<Rightarrow> disc_ctx \<Rightarrow> bytes" where
  "broadcast_packet V ctx = DISCOVERY_MAGIC @ [0] @ w32le 1 @ char_array 256 (dnv_hostname V) @ w16le (dsc_port ctx)
     @ char_array ROOTSTREAM_CODE_MAX_LEN (dsc_code ctx) @ char_array 32 (if dsc_is_host ctx then ''host'' else ''client'') @ [0, 0]
     @ w32le (of_nat MAX_PEERS) @ char_array 32 (dec (unat (dsc_video_bitrate ctx div 1000000)) @ ''Mbps'')"

text \<open>The result and what went out.\<close>

definition discovery_broadcast_announce :: "disc_net \<Rightarrow> disc_ctx option \<Rightarrow> int \<times> bytes option" where
  "discovery_broadcast_announce V ctx = (case ctx of
     None \<Rightarrow> (-1, None)
   | Some c \<Rightarrow>
      if \<not> dnv_local_ip V then (-1, None)
      else if \<not> dnv_socket V then (-1, None)
      else if \<not> dnv_broadcast V then (-1, None)
      else if \<not> dnv_sent V then (-1, None)
      else (0, Some (broadcast_packet V c)))"

text \<open>What the socket gives: nothing in time, an error, or a datagram with the four bytes of the sender's address.  Strings in the packet that fill
  their array are read on past it by the code; here they end with the array.\<close>

datatype disc_recv = DrNoSocket | DrPoll int | DrError | DrPacket bytes "u8 list"

definition inet_ntop4 :: "u8 list \<Rightarrow> string" where
  "inet_ntop4 ip = dec (unat (ip ! 0)) @ ''.'' @ dec (unat (ip ! 1)) @ ''.'' @ dec (unat (ip ! 2)) @ ''.'' @ dec (unat (ip ! 3))"

definition pkt_str :: "bytes \<Rightarrow> nat \<Rightarrow> nat \<Rightarrow> string" where
  "pkt_str b pos n = bytes_cstr (take n (drop pos b))"

definition ntohs :: "u16 \<Rightarrow> u16" where
  "ntohs x = push_bit 8 x OR drop_bit 8 x"

definition broadcast_entry :: "u64 \<Rightarrow> bytes \<Rightarrow> u8 list \<Rightarrow> peer_cache_entry" where
  "broadcast_entry now_us b ip = peer_cache_entry_zero\<lparr>pce_hostname := take 255 (pkt_str b 24 256), pce_ip_address := take 63 (inet_ntop4 ip),
     pce_port := ntohs (r16le b 280), pce_code := take 127 (pkt_str b 282 128), pce_capability := take 31 (pkt_str b 410 32),
     pce_max_peers := r32le b 444, pce_bandwidth := take 31 (pkt_str b 448 32), pce_discovered_time_us := now_us, pce_last_seen_time_us := now_us,
     pce_ttl_seconds := 3600, pce_is_online := True\<rparr>"

fun discovery_broadcast_listen :: "disc_recv \<Rightarrow> u64 \<Rightarrow> u64 \<Rightarrow> disc_ctx option \<Rightarrow> int \<times> disc_ctx option" where
  "discovery_broadcast_listen r now_us now_ms None = (-1, None)"
| "discovery_broadcast_listen DrNoSocket now_us now_ms (Some ctx) = (-1, Some ctx)"
| "discovery_broadcast_listen (DrPoll rc) now_us now_ms (Some ctx) = (min 0 rc, Some ctx)"
| "discovery_broadcast_listen DrError now_us now_ms (Some ctx) = (-1, Some ctx)"
| "discovery_broadcast_listen (DrPacket b ip) now_us now_ms (Some ctx) =
     (if length b \<noteq> 480 then (0, Some ctx)
      else if take 19 b \<noteq> DISCOVERY_MAGIC then (0, Some ctx)
      else let ctx = the (snd (discovery_cache_add_peer (Some ctx) (Some (broadcast_entry now_us b ip))));
               ctx = ctx\<lparr>dsc_broadcast_discoveries := dsc_broadcast_discoveries ctx + 1\<rparr>;
               host = pkt_str b 24 256; code = pkt_str b 282 128 in
        if \<not> list_ex (\<lambda>p. hostname p = host) (dsc_peers ctx) \<and> length (dsc_peers ctx) < MAX_PEERS then
          (let p = zero_peer\<lparr>hostname := cstr_fit 64 host, rootstream_code := cstr_fit ROOTSTREAM_CODE_MAX_LEN code, addr_len := 16,
               addr := sockaddr_in (take 2 (drop 280 b)) ip, p_state := PEER_DISCOVERED, last_seen := now_ms\<rparr>;
               ctx = ctx\<lparr>dsc_peers := dsc_peers ctx @ [p]\<rparr> in
           (1, snd (discovery_save_peer_to_history (Some ctx) (Some host) (ntohs (r16le b 280)) (Some code))))
        else (1, Some ctx))"

section \<open>By the service browser\<close>

text \<open>The text records of a service: none of this name, one that cannot be taken apart, or one with a value, which is NULL for a key alone.
  Copying from NULL has no result.\<close>

datatype txt_record = TxtNone | TxtError | TxtPair "string option"

fun txt_copy :: "nat \<Rightarrow> txt_record \<Rightarrow> string option" where
  "txt_copy n (TxtPair None) = None"
| "txt_copy n (TxtPair (Some v)) = Some (take (n - 1) v)"
| "txt_copy n t = Some []"

record mdns_service =
  mds_name :: string
  mds_addr_text :: string
  mds_ipv4 :: "u8 list option"
  mds_port :: u16
  mds_txt :: "string \<Rightarrow> txt_record"

definition mdns_entry :: "u64 \<Rightarrow> mdns_service \<Rightarrow> peer_cache_entry option" where
  "mdns_entry now_us m =
     (case (txt_copy 128 (mds_txt m ''code''), if mds_txt m ''capability'' = TxtNone then Some ''unknown'' else txt_copy 32 (mds_txt m ''capability''),
            txt_copy 16 (mds_txt m ''version''), txt_copy 32 (mds_txt m ''bandwidth'')) of
        (Some code, Some capability, Some version, Some bandwidth) \<Rightarrow>
          (case mds_txt m ''max_peers'' of TxtPair None \<Rightarrow> None
           | t \<Rightarrow> Some (peer_cache_entry_zero\<lparr>pce_hostname := take 255 (mds_name m), pce_ip_address := take 63 (mds_addr_text m), pce_port := mds_port m,
               pce_code := code, pce_capability := capability, pce_version := version,
               pce_max_peers := (case t of TxtPair (Some v) \<Rightarrow> word_of_int (atoi v) | _ \<Rightarrow> 0), pce_bandwidth := bandwidth,
               pce_discovered_time_us := now_us, pce_last_seen_time_us := now_us, pce_ttl_seconds := 3600, pce_is_online := True\<rparr>))
      | _ \<Rightarrow> None)"

text \<open>
  The new peer goes into the next slot of the array as it is: \<open>slot\<close> is what the slot holds.  \<^verbatim>\<open>avahi_address_parse\<close> writes its protocol number, 0, where
  the address should be, and the address after it.
\<close>

definition resolved_peer :: "peer \<Rightarrow> mdns_service \<Rightarrow> u8 list \<Rightarrow> string \<Rightarrow> u64 \<Rightarrow> peer" where
  "resolved_peer slot m ip code now_ms = slot\<lparr>addr := overwrite ([2, 0] @ htons_bytes (mds_port m) @ [0, 0, 0, 0] @ ip) (addr slot),
     hostname := cstr_fit 64 (mds_name m), rootstream_code := cstr_fit ROOTSTREAM_CODE_MAX_LEN code, p_state := PEER_DISCOVERED, last_seen := now_ms\<rparr>"

definition resolve_callback :: "peer \<Rightarrow> mdns_service \<Rightarrow> u64 \<Rightarrow> u64 \<Rightarrow> disc_ctx \<Rightarrow> disc_ctx option" where
  "resolve_callback slot m now_us now_ms ctx = map_option (\<lambda>e.
     let ctx = the (snd (discovery_cache_add_peer (Some ctx) (Some e))) in
     if pce_code e \<noteq> [] \<and> length (dsc_peers ctx) < MAX_PEERS
     then (case mds_ipv4 m of None \<Rightarrow> ctx
       | Some ip \<Rightarrow> ctx\<lparr>dsc_peers := dsc_peers ctx @ [resolved_peer slot m ip (pce_code e) now_ms], dsc_mdns_discoveries := dsc_mdns_discoveries ctx + 1\<rparr>)
     else ctx) (mdns_entry now_us m)"

text \<open>A service that goes away: the peers after it move down, and nothing of the removed one is released.\<close>

definition browse_remove :: "string \<Rightarrow> disc_ctx \<Rightarrow> disc_ctx" where
  "browse_remove name ctx =
     (let ctx = the (snd (discovery_cache_remove_peer (Some ctx) (Some name))) in
      case first_idx (\<lambda>p. hostname p = name) (dsc_peers ctx) of None \<Rightarrow> ctx
      | Some i \<Rightarrow> ctx\<lparr>dsc_peers := take i (dsc_peers ctx) @ drop (i + 1) (dsc_peers ctx)\<rparr>)"

section \<open>What discovery does to the peers\<close>

text \<open>It appends a peer without a reassembly buffer, or takes one peer away.\<close>

lemma cache_keeps_peers [simp]:
  "dsc_peers (the (snd (discovery_cache_add_peer (Some ctx) (Some e)))) = dsc_peers ctx"
  "dsc_peers (the (snd (discovery_cache_remove_peer (Some ctx) (Some h)))) = dsc_peers ctx"
  by (simp_all split: option.split)

lemma history_keeps_peers: "snd (discovery_save_peer_to_history (Some ctx) (Some h) port c) = Some ctx' \<Longrightarrow> dsc_peers ctx' = dsc_peers ctx"
  by (auto simp: Let_def split: if_splits)

definition bufferless :: "peer \<Rightarrow> bool" where
  "bufferless p \<longleftrightarrow> video_rx_buffer p = None \<and> video_rx_capacity p = 0 \<and> video_rx_expected p = 0"

definition peer_found :: "peer list \<Rightarrow> peer list \<Rightarrow> bool" where
  "peer_found ps ps' \<longleftrightarrow> ps' = ps \<or> (length ps < MAX_PEERS \<and> (\<exists>p. ps' = ps @ [p] \<and> bufferless p))"

lemma zero_bufferless: "video_rx_buffer p = video_rx_buffer zero_peer \<Longrightarrow> video_rx_capacity p = video_rx_capacity zero_peer \<Longrightarrow>
  video_rx_expected p = video_rx_expected zero_peer \<Longrightarrow> bufferless p"
  by (simp add: bufferless_def zero_peer_def)

lemma found_append: "length ps < MAX_PEERS \<Longrightarrow> bufferless p \<Longrightarrow> peer_found ps (ps @ [p])"
  by (auto simp: peer_found_def)

lemma manual_finds: "snd (discovery_manual_add_peer R now (Some ctx) (Some a)) = Some ctx' \<Longrightarrow> peer_found (dsc_peers ctx) (dsc_peers ctx')"
  by (auto simp: Let_def not_le simp del: discovery_save_peer_to_history.simps discovery_parse_address.simps discovery_parse_rootstream_code.simps
      split: option.splits prod.splits if_splits dest!: history_keeps_peers intro!: found_append zero_bufferless) (simp_all add: peer_found_def)

lemma broadcast_finds: "snd (discovery_broadcast_listen d now_us now_ms (Some ctx)) = Some ctx' \<Longrightarrow> peer_found (dsc_peers ctx) (dsc_peers ctx')"
  by (cases d) (auto simp: Let_def not_le peer_found_def [of ps ps for ps] simp del: discovery_save_peer_to_history.simps discovery_cache_add_peer.simps
      split: if_splits dest!: history_keeps_peers intro!: found_append zero_bufferless)

lemma resolve_finds:
  assumes "resolve_callback slot m now_us now_ms ctx = Some ctx'" "bufferless slot"
  shows "peer_found (dsc_peers ctx) (dsc_peers ctx')"
  using assms by (auto simp: resolve_callback_def Let_def peer_found_def [of ps ps for ps] resolved_peer_def bufferless_def simp del: discovery_cache_add_peer.simps
      intro!: found_append split: if_splits option.splits)

lemma remove_loses: "dsc_peers (browse_remove name ctx) = dsc_peers ctx \<or> (\<exists>i<length (dsc_peers ctx). dsc_peers (browse_remove name ctx) = take i (dsc_peers ctx) @ drop (i + 1) (dsc_peers ctx))"
  by (auto simp: browse_remove_def Let_def simp del: discovery_cache_remove_peer.simps split: option.splits dest: first_idx_length)

lemma length_char_array [simp]: "0 < n \<Longrightarrow> length (char_array n s) = n"
  by (simp add: char_array_def min_def)

lemma bytes_cstr_array: "0 < n \<Longrightarrow> length s < n \<Longrightarrow> CHR 0x00 \<notin> set s \<Longrightarrow> bytes_cstr (char_array n s) = s"
proof -
  assume a: "0 < n" "length s < n" "CHR 0x00 \<notin> set s"
  have "bytes_cstr (str_bytes s @ replicate (Suc k) 0) = s" for k
    using a(3) by (induction s) (auto simp: bytes_cstr_def str_bytes_def of_char_zero)
  moreover obtain k where "n - length s = Suc k" using a(2) by (metis Suc_diff_Suc)
  moreover have "take (n - 1) s = s" using a(2) by simp
  ultimately show ?thesis by (simp add: char_array_def)
qed

lemma broadcast_fields:
  assumes "length (dnv_hostname V) < 256" "CHR 0x00 \<notin> set (dnv_hostname V)" "length (dsc_code ctx) < 128" "CHR 0x00 \<notin> set (dsc_code ctx)"
  shows "length (broadcast_packet V ctx) = 480" "take 19 (broadcast_packet V ctx) = DISCOVERY_MAGIC"
    "pkt_str (broadcast_packet V ctx) 24 256 = dnv_hostname V" "take 2 (drop 280 (broadcast_packet V ctx)) = w16le (dsc_port ctx)"
    "r16le (broadcast_packet V ctx) 280 = dsc_port ctx" "pkt_str (broadcast_packet V ctx) 282 128 = dsc_code ctx"
proof -
  have m: "length DISCOVERY_MAGIC = 19" by (simp add: DISCOVERY_MAGIC_def)
  show "length (broadcast_packet V ctx) = 480" by (simp add: broadcast_packet_def m ROOTSTREAM_CODE_MAX_LEN_def)
  show "take 19 (broadcast_packet V ctx) = DISCOVERY_MAGIC" by (simp add: broadcast_packet_def m)
  show "pkt_str (broadcast_packet V ctx) 24 256 = dnv_hostname V"
    using assms by (simp add: broadcast_packet_def pkt_str_def m bytes_cstr_array)
  show "take 2 (drop 280 (broadcast_packet V ctx)) = w16le (dsc_port ctx)" by (simp add: broadcast_packet_def m)
  show "r16le (broadcast_packet V ctx) 280 = dsc_port ctx" by (simp add: broadcast_packet_def m wire_simps)
  show "pkt_str (broadcast_packet V ctx) 282 128 = dsc_code ctx"
    using assms by (simp add: broadcast_packet_def pkt_str_def m bytes_cstr_array ROOTSTREAM_CODE_MAX_LEN_def)
qed

text \<open>A listener that hears an announcement caches and adds the announcer with its name and code, but with the bytes of its port in the
  wrong order: the sender puts the port on the wire in its own order, the receiver takes it for network order.\<close>

theorem broadcast_port_swapped:
  assumes "discovery_broadcast_announce V (Some a) = (0, Some b)"
    and "length (dnv_hostname V) < 64" "CHR 0x00 \<notin> set (dnv_hostname V)" "length (dsc_code a) < 128" "CHR 0x00 \<notin> set (dsc_code a)"
    and "dsc_find ctx (dnv_hostname V) = None" "0 \<le> dsc_num_cached ctx" "dsc_num_cached ctx < int MAX_CACHED_PEERS" "length (dsc_cache ctx) = MAX_CACHED_PEERS"
    and "\<not> list_ex (\<lambda>p. hostname p = dnv_hostname V) (dsc_peers ctx)" "length (dsc_peers ctx) < MAX_PEERS"
  shows "\<exists>ctx' e p. discovery_broadcast_listen (DrPacket b ip) now_us now_ms (Some ctx) = (1, Some ctx')
    \<and> discovery_cache_get_peer (Some ctx') (Some (dnv_hostname V)) = Some e \<and> pce_code e = dsc_code a \<and> pce_port e = ntohs (dsc_port a)
    \<and> dsc_peers ctx' = dsc_peers ctx @ [p] \<and> hostname p = dnv_hostname V \<and> rootstream_code p = dsc_code a
    \<and> addr p = sockaddr_in (rev (htons_bytes (dsc_port a))) ip"
proof -
  have b: "b = broadcast_packet V a" using assms(1) by (simp add: discovery_broadcast_announce_def split: if_splits)
  have V: "length (dnv_hostname V) < 256" using assms(2) by simp
  note f = broadcast_fields [OF V assms(3-5), folded b]
  define e where "e = broadcast_entry now_us b ip"
  have e: "pce_hostname e = dnv_hostname V" "pce_code e = dsc_code a" "pce_port e = ntohs (dsc_port a)"
    using assms(2,4) by (simp_all add: e_def broadcast_entry_def f)
  define k where "k = nat (dsc_num_cached ctx)"
  have k: "dsc_num_cached ctx = int k" "k < length (dsc_cache ctx)" using assms(7-9) by (auto simp: k_def)
  have miss: "first_idx (\<lambda>x. pce_hostname x = dnv_hostname V) (take k (dsc_cache ctx)) = None"
    using assms(6) by (simp add: dsc_find_def k_def)
  have add: "discovery_cache_add_peer (Some ctx) (Some e) = (0, Some (ctx\<lparr>dsc_cache := (dsc_cache ctx)[k := e], dsc_num_cached := int k + 1,
      dsc_total_discoveries := dsc_total_discoveries ctx + 1\<rparr>))"
    using assms(6,8) k(1) by (simp add: e(1))
  have nk: "nat (int k + 1) = Suc k" by simp
  have tk: "take (Suc k) ((dsc_cache ctx)[k := e]) = take k (dsc_cache ctx) @ [e]" using k(2) by (simp add: take_Suc_conv_app_nth)
  have none: "first_idx P (xs @ [x]) = Some (length xs)" if "first_idx P xs = None" "P x" for P x and xs :: "peer_cache_entry list"
    using that by (induction xs) (auto split: if_splits)
  have get: "first_idx (\<lambda>x. pce_hostname x = dnv_hostname V) (take (Suc k) ((dsc_cache ctx)[k := e])) = Some k"
    using none [OF miss, of e] e(1) k(2) unfolding tk by simp
  have hb: "w16le (dsc_port a) = rev (htons_bytes (dsc_port a))" by (simp add: htons_bytes_def w16le_def)
  show ?thesis
    using f k(2) assms(2,4,10,11) add
    by (simp add: e_def [symmetric] Let_def dsc_find_def nk get e hb [symmetric] ROOTSTREAM_CODE_MAX_LEN_def del: discovery_cache_add_peer.simps)
qed

lemma broadcast_port_swapped_witness:
  "\<exists>ctx' e p. discovery_broadcast_listen (DrPacket (broadcast_packet \<lparr>dnv_local_ip = True, dnv_socket = True, dnv_broadcast = True, dnv_sent = True, dnv_hostname = ''pc''\<rparr> (disc_sample []))
        [10, 0, 0, 7]) 5 6 (Some (disc_sample [])) = (1, Some ctx')
    \<and> discovery_cache_get_peer (Some ctx') (Some ''pc'') = Some e \<and> dsc_port (disc_sample []) = 9876 \<and> pce_port e = 37926
    \<and> dsc_peers ctx' = [p] \<and> hostname p = ''pc''"
proof -
  let ?V = "\<lparr>dnv_local_ip = True, dnv_socket = True, dnv_broadcast = True, dnv_sent = True, dnv_hostname = ''pc''\<rparr>"
  have a: "discovery_broadcast_announce ?V (Some (disc_sample [])) = (0, Some (broadcast_packet ?V (disc_sample [])))" by (simp add: discovery_broadcast_announce_def)
  have "ntohs 9876 = 37926" by (simp add: ntohs_def)
  then show ?thesis using broadcast_port_swapped [OF a, of "disc_sample []" "[10, 0, 0, 7]" 5 6]
    by (simp add: disc_sample_def dsc_find_def MAX_CACHED_PEERS_def MAX_PEERS_def del: discovery_broadcast_listen.simps discovery_cache_get_peer.simps replicate.simps) blast
qed

text \<open>Seeing a peer again does not count up: the new entry, with its own counter, replaces the old one.\<close>

lemma cache_contact_count_lost:
  assumes "dsc_find ctx (pce_hostname e) = Some i" and "i < length (dsc_cache ctx)"
  shows "\<exists>ctx'. discovery_cache_add_peer (Some ctx) (Some e) = (0, Some ctx') \<and> pce_contact_count (dsc_cache ctx' ! i) = pce_contact_count e + 1"
  using assms by simp

text \<open>The history keeps at most 32 entries and no host and port twice.\<close>

lemma history_distinct:
  assumes "distinct (map (\<lambda>e. (phe_hostname e, phe_port e)) (dsc_history ctx))" "length (dsc_history ctx) \<le> MAX_PEER_HISTORY" "length host < 256"
    and "discovery_save_peer_to_history (Some ctx) (Some host) port code = (r, Some ctx')"
  shows "distinct (map (\<lambda>e. (phe_hostname e, phe_port e)) (dsc_history ctx')) \<and> length (dsc_history ctx') \<le> MAX_PEER_HISTORY
    \<and> list_ex (\<lambda>e. phe_hostname e = host \<and> phe_port e = port) (dsc_history ctx')"
proof (cases "list_ex (\<lambda>e. phe_hostname e = host \<and> phe_port e = port) (dsc_history ctx)")
  case False
  define h where "h = (if length (dsc_history ctx) \<ge> MAX_PEER_HISTORY then tl (dsc_history ctx) else dsc_history ctx)"
  have sub: "set h \<subseteq> set (dsc_history ctx)" unfolding h_def by (cases "dsc_history ctx") auto
  have "distinct (map (\<lambda>e. (phe_hostname e, phe_port e)) h)" using assms(1) by (auto simp: h_def map_tl distinct_tl)
  moreover have "length h < MAX_PEER_HISTORY" using assms(2) by (auto simp: h_def MAX_PEER_HISTORY_def)
  moreover have "(host, port) \<notin> (\<lambda>e. (phe_hostname e, phe_port e)) ` set h" using False sub by (auto simp: list_ex_iff)
  ultimately show ?thesis using assms(3,4) False by (auto simp: Let_def h_def [symmetric])
qed (use assms in auto)

end
