(* ===== verification/Net_Reach.thy ===== *)
theory Net_Reach
  imports Net_Props Discovery
begin

text \<open>
  The states that the network core can reach, with the peers that discovery finds and loses, and what holds in all of them.
\<close>

section \<open>Peers that discovery finds and loses\<close>

lemma net_inv_found:
  assumes "net_inv E s" "peer_found (c_peers s) ps"
  shows "net_inv E (s\<lparr>c_peers := ps\<rparr>)"
proof -
  from assms(2) consider "ps = c_peers s" | p where "length (c_peers s) < MAX_PEERS" "ps = c_peers s @ [p]" "bufferless p" by (auto simp: peer_found_def)
  then show ?thesis using assms(1) net_inv_append by cases (simp_all add: bufferless_def)
qed

lemma net_inv_lost:
  assumes "net_inv E s" "i < length (c_peers s)"
  shows "net_inv E (s\<lparr>c_peers := take i (c_peers s) @ drop (i + 1) (c_peers s)\<rparr>)"
proof -
  have "bufs_ok (w_heap s) (w_next s) (take i (c_peers s) @ drop (i + 1) (c_peers s))"
  proof (rule bufs_ok_subset)
    show "bufs_ok (w_heap s) (w_next s) (c_peers s)" using assms(1) by (simp add: net_inv_def)
    show "length (take i (c_peers s) @ drop (i + 1) (c_peers s)) \<le> length (c_peers s)" by simp
    show "(if j < i then j else j + 1) < length (c_peers s)
        \<and> (take i (c_peers s) @ drop (i + 1) (c_peers s)) ! j = c_peers s ! (if j < i then j else j + 1)"
      if "j < length (take i (c_peers s) @ drop (i + 1) (c_peers s))" for j
      using that assms(2) by (auto simp: nth_append)
    show "j = k" if "(if j < i then j else j + 1) = (if k < i then k else k + 1)" for j k using that by (simp split: if_splits)
  qed
  then show ?thesis using assms by (simp add: net_inv_def) linarith
qed

section \<open>Reachable states\<close>

text \<open>
  The program starts without peers and with any settings of the encoder; then any of the operations happens with any input.  \<open>E\<close> are the settings that the
  program itself gives the encoder: zeros (\<^verbatim>\<open>core.c\<close>), the bitrate of the command line (\<^verbatim>\<open>main.c\<close>) and what the encoding back ends put there.
  \<open>reach_consume\<close> is the client taking the frame (it sets the size to 0).  Discovery finds peers by hand, by broadcast and by the service browser, here
  in a slot of the array that no peer has been in (\<open>mdns_reused_slot_shares_buffer\<close> shows why), and the browser loses them.
\<close>

inductive net_reach :: "externals \<Rightarrow> encoder_ctx set \<Rightarrow> rs \<Rightarrow> bool" for X E where
  reach_init: "c_peers s = [] \<Longrightarrow> c_encoder s \<in> E \<Longrightarrow> net_reach X E s"
| reach_encoder: "net_reach X E s \<Longrightarrow> e \<in> E \<Longrightarrow> net_reach X E (s\<lparr>c_encoder := e\<rparr>)"
| reach_keyframe: "net_reach X E s \<Longrightarrow> net_reach X E (s\<lparr>c_encoder := (c_encoder s)\<lparr>force_keyframe := b\<rparr>\<rparr>)"
| reach_recv: "net_reach X E s \<Longrightarrow> net_reach X E (snd (rootstream_net_recv X s inp))"
| reach_tick: "net_reach X E s \<Longrightarrow> net_reach X E (rootstream_net_tick X s)"
| reach_add: "net_reach X E s \<Longrightarrow> net_reach X E (snd (rootstream_add_peer X s code))"
| reach_connect: "net_reach X E s \<Longrightarrow> net_reach X E (snd (rootstream_connect_to_peer X s code))"
| reach_remove: "net_reach X E s \<Longrightarrow> net_reach X E (rootstream_remove_peer i s)"
| reach_video: "net_reach X E s \<Longrightarrow> net_reach X E (snd (rootstream_net_send_video X s i data ts))"
| reach_send: "net_reach X E s \<Longrightarrow> net_reach X E (snd (rootstream_net_send_encrypted X s i t d n))"
| reach_pause: "net_reach X E s \<Longrightarrow> net_reach X E (snd (rootstream_pause_stream X s i))"
| reach_resume: "net_reach X E s \<Longrightarrow> net_reach X E (snd (rootstream_resume_stream X s i))"
| reach_consume: "net_reach X E s \<Longrightarrow> net_reach X E (s\<lparr>c_frame := (c_frame s)\<lparr>f_size := 0\<rparr>\<rparr>)"
| reach_handshake: "net_reach X E s \<Longrightarrow> net_reach X E (snd (rootstream_net_handshake s i))"
| reach_reconnect: "net_reach X E s \<Longrightarrow> net_reach X E (snd (peer_try_reconnect s i))"
| reach_control: "net_reach X E s \<Longrightarrow> net_reach X E (snd (rootstream_send_control X s i c v))"
| reach_frame: "net_reach X E s \<Longrightarrow> realloc s None n = (b, s') \<Longrightarrow> net_reach X E (s'\<lparr>c_frame := f\<rparr>)"
| reach_capture: "net_reach X E s \<Longrightarrow> net_reach X E (heap_write (f_data (c_frame s)) off bs s)"
| reach_manual: "net_reach X E s \<Longrightarrow> dsc_peers ctx = c_peers s \<Longrightarrow> snd (discovery_manual_add_peer R now (Some ctx) (Some a)) = Some ctx'
    \<Longrightarrow> net_reach X E (s\<lparr>c_peers := dsc_peers ctx'\<rparr>)"
| reach_broadcast: "net_reach X E s \<Longrightarrow> dsc_peers ctx = c_peers s \<Longrightarrow> snd (discovery_broadcast_listen d now_us now (Some ctx)) = Some ctx'
    \<Longrightarrow> net_reach X E (s\<lparr>c_peers := dsc_peers ctx'\<rparr>)"
| reach_resolved: "net_reach X E s \<Longrightarrow> dsc_peers ctx = c_peers s \<Longrightarrow> resolve_callback zero_peer m now_us now ctx = Some ctx'
    \<Longrightarrow> net_reach X E (s\<lparr>c_peers := dsc_peers ctx'\<rparr>)"
| reach_lost: "net_reach X E s \<Longrightarrow> dsc_peers ctx = c_peers s \<Longrightarrow> net_reach X E (s\<lparr>c_peers := dsc_peers (browse_remove name ctx)\<rparr>)"

lemma net_reach_inv: "net_reach X E s \<Longrightarrow> net_inv E s"
proof (induction rule: net_reach.induct)
  case (reach_init s)
  then show ?case by (auto simp: net_inv_def bufs_ok_def enc_ok_def)
next
  case (reach_encoder s e)
  then show ?case by (auto simp: net_inv_def enc_ok_def)
next
  case (reach_keyframe s b)
  then show ?case by (simp add: net_inv_def enc_ok_def)
next
  case (reach_manual s ctx R now a ctx')
  show ?case by (rule net_inv_found [OF reach_manual.IH manual_finds [OF reach_manual.hyps(3), unfolded reach_manual.hyps(2)]])
next
  case (reach_broadcast s ctx d now_us now ctx')
  show ?case by (rule net_inv_found [OF reach_broadcast.IH broadcast_finds [OF reach_broadcast.hyps(3), unfolded reach_broadcast.hyps(2)]])
next
  case (reach_resolved s ctx m now_us now ctx')
  have "bufferless zero_peer" by (simp add: bufferless_def zero_peer_def)
  from net_inv_found [OF reach_resolved.IH resolve_finds [OF reach_resolved.hyps(3) this, unfolded reach_resolved.hyps(2)]] show ?case .
next
  case (reach_lost s ctx name)
  then show ?case using remove_loses [of name ctx] net_inv_lost [of E s] by (metis (no_types, lifting) rs.surjective rs.update_convs(9))
next
  case (reach_frame s n b s' f)
  then show ?case using net_inv_new_block net_inv_frame by blast
qed (simp_all add: net_inv_recv net_inv_tick net_inv_add net_inv_connect net_inv_remove net_inv_send net_inv_counter net_inv_heap_write)

text \<open>
  A slot that a peer has been in still holds it: when an earlier peer is removed, the last one stays in the slot after the end, and a peer resolved into that
  slot takes over its reassembly buffer and its authenticated session.
\<close>

lemma mdns_reused_slot_shares_buffer:
  assumes "dsc_peers ctx = [p, q]" "hostname p = name" "video_rx_buffer q = Some b" "mds_ipv4 m = Some ip"
    and "mds_txt m ''code'' = TxtPair (Some code)" "code \<noteq> []" "resolve_callback q m now_us now (browse_remove name ctx) = Some ctx'"
  shows "\<exists>r. dsc_peers ctx' = [q, r] \<and> video_rx_buffer r = video_rx_buffer q \<and> session r = session q \<and> \<not> bufs_ok h n (dsc_peers ctx')"
proof -
  have "dsc_peers (browse_remove name ctx) = [q]"
    using assms(1,2) by (simp add: browse_remove_def Let_def del: discovery_cache_remove_peer.simps)
  moreover have "pce_code e \<noteq> []" if "mdns_entry now_us m = Some e" for e
    using that assms(5,6) by (cases code) (auto simp: mdns_entry_def split: option.splits txt_record.splits)
  moreover obtain e where e: "mdns_entry now_us m = Some e" using assms(7) by (auto simp: resolve_callback_def)
  ultimately have r: "dsc_peers ctx' = [q, resolved_peer q m ip (pce_code e) now]"
    using assms(4,7) by (auto simp: resolve_callback_def Let_def MAX_PEERS_def simp del: discovery_cache_add_peer.simps)
  have "\<not> bufs_ok h n [q, resolved_peer q m ip (pce_code e) now]"
  proof
    assume "bufs_ok h n [q, resolved_peer q m ip (pce_code e) now]"
    then have "\<forall>i<2. \<forall>j<2. video_rx_buffer ([q, resolved_peer q m ip (pce_code e) now] ! i) = video_rx_buffer ([q, resolved_peer q m ip (pce_code e) now] ! j)
      \<longrightarrow> video_rx_buffer ([q, resolved_peer q m ip (pce_code e) now] ! i) = None \<or> i = j" by (simp add: bufs_ok_def)
    from this [rule_format, of 0 1] show False using assms(3) by (simp add: resolved_peer_def)
  qed
  then show ?thesis using r by (intro exI [of _ "resolved_peer q m ip (pce_code e) now"]) (simp add: resolved_peer_def)
qed



end
