(* ===== verification/Spec2Isabelle.thy ===== *)
theory Spec2Isabelle
  imports PQueue Net_Faults Session_Hs Session_Resume Sha256 Session_Limit Retry_Mgr Tagging Output Drainq Bufpool Eventbus Sigroute Flowctl Relay_Client Fec Chunk Jitter Keyframe
    Reorder Scheduler Sec_Manager Stream_Config Metadata Eventlog Analytics Caption Hotreload Metrics Plugins
    Hls_Segmenter Watermark Annot_Render Codec Fanout Checkpoint Input Web_Auth Host Net_Reach
begin

text \<open>
  RootStream streams a desktop from one machine to another: packets over UDP or TCP, encrypted with keys that
  the peers exchange beforehand, with many self-contained service modules around that core.  This library
  models the core, the host around it, and the services whose behaviour is discrete, in C's own terms, and
  proves what makes them correct.  All paths below are under \<^verbatim>\<open>src/src\<close>.

  \<^bold>\<open>How the code is modelled.\<close>  Fixed-width unsigned integers are words, a C \<^verbatim>\<open>int\<close> is \<^typ>\<open>int\<close> where it carries return
  codes and \<^typ>\<open>nat\<close> where it counts within proved bounds (the handle counters of the event bus and the signal
  router are \<^verbatim>\<open>int\<close>s in C and unbounded here).  A pointer that may be NULL is an option, and every operation has an
  equation for NULL; an out-parameter is a value that goes in and comes back; a buffer is the list of its bytes.
  A structure is a record with the fields of the source, an operation a function with its guards and early
  returns in order, a mutex-protected operation one step.  Allocation takes a flag that says whether memory is
  there; freeing the whole of a structure is not modelled.  Callbacks are functions of the caller's state or the
  list of the calls made.  An access outside a heap block or a frame, undefined in C, sets a flag that nothing
  clears and otherwise does nothing: theorems say when it stays clear and when it is set.  What is not under
  \<^verbatim>\<open>src/\<close> is a parameter: in the network core libsodium's AEAD and Opus are fields of the record \<open>externals\<close>, with the
  laws of the AEAD as the hypothesis \<open>aead_laws\<close>; in the security services libsodium is the record \<open>sodium\<close>; the clock,
  the memory, random bytes, the file system (\<open>filestore\<close>) and the answers of sockets are arguments or scripts in the state.

  \<^bold>\<open>Foundations.\<close>  \<open>RS_Prelude\<close>: scans of fixed arrays, C strings, buffers, histories of calls and the locales
  \<open>simulation\<close>, \<open>trace_simulation\<close> and \<open>budget_simulation\<close>, which carry a one-step refinement to every run of calls.
  \<open>Wire\<close>: byte orders and the locale \<open>codec\<close> of self-delimiting formats.  \<open>Slots\<close> and \<open>Handles\<close>: the contracts of
  tables with in-use flags (\<open>slot_store\<close>, \<open>multi_store\<close>, \<open>unique_store\<close>, \<open>handle_table\<close>), what follows for their
  clients, and the refinement of finite maps and lists that every instance inherits.  \<open>Ringbuf\<close>: rings over arrays.
  \<open>Filestore\<close>: files with writing, renaming and their failures.  \<open>Cformat\<close>, \<open>Cparse\<close>: \<^verbatim>\<open>printf\<close>, \<^verbatim>\<open>fgets\<close>, \<^verbatim>\<open>atoi\<close>.
  \<open>Pixels\<close>: drawing into a clipped frame.

  \<^bold>\<open>The network core\<close> (\<^verbatim>\<open>network.c\<close>, \<^verbatim>\<open>network_tcp.c\<close>, \<^verbatim>\<open>network_reconnect.c\<close>, \<^verbatim>\<open>packet_validate.c\<close>, the packet part of
  \<^verbatim>\<open>crypto.c\<close>).  \<open>Net_State\<close> holds the state (context, peers, heap of reassembly buffers, clock, socket scripts),
  \<open>Net_Send\<close> and \<open>Net_Recv\<close> the operations.  \<open>Net_Frame\<close> shows what sending leaves alone, \<open>Net_Inv\<close> the invariant and
  that each operation keeps it, \<open>Net_Video\<close> and \<open>Net_Props\<close> that a frame arrives whole.  \<open>Net_Reach\<close> has the reachable
  states: the program starts with its own encoder settings \<open>E\<close> (zeros, from \<^verbatim>\<open>core.c\<close>), and peers come and go by packets,
  by code and by discovery.  \<open>Net_Faults\<close> shows where the code departs from what it promises: nonces restart with
  every handshake, inconsistent chunks write out of bounds, timers compare wrapped differences, reconnection over UDP
  is optimistic.

  \<^bold>\<open>Identity, configuration, discovery.\<close>  \<open>Identity\<close> (\<^verbatim>\<open>crypto.c\<close>): the key files.  \<open>Config\<close> (\<^verbatim>\<open>config.c\<close>): \<^verbatim>\<open>config.ini\<close> is read back as it was
  written, and the history of peers is the list of the last ones.  \<open>Discovery\<close> (\<^verbatim>\<open>discovery.c\<close>, \<^verbatim>\<open>discovery_broadcast.c\<close>,
  \<^verbatim>\<open>discovery_manual.c\<close>): the cache with its expiry, which need not end, announcements, and what the callbacks of the service
  browser do to the peers of the network core.

  \<^bold>\<open>The host\<close> (\<^verbatim>\<open>service.c\<close>, \<^verbatim>\<open>dummy_capture.c\<close>, \<^verbatim>\<open>raw_encoder.c\<close>, \<^verbatim>\<open>recording.c\<close>, \<^verbatim>\<open>latency.c\<close>, \<^verbatim>\<open>input.c\<close>, \<^verbatim>\<open>input\<close>).  \<open>Host\<close>: the choice of back ends
  and the main loop over capture, encoding, recording and the network core, and how a peer's packet replaces the frame
  being captured into.  \<open>Recording\<close>: what was recorded is played back by \<^verbatim>\<open>tools/rstr-player.c\<close>.  \<open>Latency\<close>: the timing reports.
  \<open>Input\<close>: events of clients reach the virtual devices once.

  \<^bold>\<open>Sessions.\<close>  \<open>Session_Hs\<close> (\<^verbatim>\<open>session_hs\<close>): messages with CRC-32, the handshake machines of both roles, tokens.
  \<open>Session_Resume\<close> and \<open>Checkpoint\<close> (\<^verbatim>\<open>session\<close>): stored sessions, the resume exchange, numbered checkpoint files.
  \<open>Session_Limit\<close>, \<open>Retry_Mgr\<close>: bounded tables of sessions and of requests with exponential backoff.

  \<^bold>\<open>The relay\<close> (\<^verbatim>\<open>relay\<close>).  \<open>Sha256\<close>: the incremental hash equals its specification however the input is cut up,
  and tokens are HMACs.  \<open>Relay\<close>: headers and HELLO.  \<open>Relay_Session\<close>: the session table refines a
  nondeterministic specification, and a session is never given to two viewers.  \<open>Relay_Client\<close>: what a client
  may put on the wire, and host, viewer and table together.

  \<^bold>\<open>Media transport.\<close>  \<open>Chunk\<close> (\<^verbatim>\<open>chunk\<close>): frames cut into chunks and reassembled in any order.  \<open>Fec\<close>
  (\<^verbatim>\<open>fec\<close>): XOR parity.  \<open>Jitter\<close> (\<^verbatim>\<open>jitter\<close>): playout in serial order.  \<open>Reorder\<close> (\<^verbatim>\<open>reorder\<close>): delivery in sequence.
  \<open>Flowctl\<close> (\<^verbatim>\<open>flowctl\<close>): credit.  \<open>Keyframe\<close> (\<^verbatim>\<open>keyframe\<close>): key-frame requests and their rate limit.  \<open>Fanout\<close> (\<^verbatim>\<open>fanout\<close>): one
  stream to many sessions.  \<open>Hls_Ts\<close>, \<open>Hls_Segmenter\<close> (\<^verbatim>\<open>hls\<close>): transport stream, segments and playlists.  \<open>Codec\<close> (\<^verbatim>\<open>codec\<close>):
  the choice of a codec.

  \<^bold>\<open>Security\<close> (\<^verbatim>\<open>security\<close>, \<^verbatim>\<open>web\<close>).  \<open>Sec_Crypto\<close>: the wrappers of the primitives and the key exchange.  \<open>Sec_Attack\<close>: nonces,
  lockouts and request limits as an abstract table.  \<open>Sec_Session\<close>, \<open>Sec_Auth\<close>: login sessions, passwords, audit log.
  \<open>Sec_Manager\<close>: the whole of the security state, its reachable states, logins and secure messages.  \<open>Web_Auth\<close>: users,
  tokens and request limit of the dashboard.

  \<^bold>\<open>Services.\<close>  \<open>PQueue\<close> (\<^verbatim>\<open>pqueue\<close>): binary heap.  \<open>Drainq\<close>: ring queue.  \<open>Bufpool\<close>: block pool.  \<open>Eventbus\<close>,
  \<open>Sigroute\<close>: publication and routing.  \<open>Tagging\<close>: tags and their text form.  \<open>Output\<close>: output targets.  \<open>Schedule\<close>, \<open>Scheduler\<close>
  (\<^verbatim>\<open>scheduler\<close>): planned streams and their file.  \<open>Stream_Config\<close>, \<open>Metadata\<close>, \<open>Eventlog\<close>, \<open>Analytics\<close>: records on the wire, stores, rings
  and exports.  \<open>Caption\<close>, \<open>Annotation\<close>, \<open>Annot_Render\<close> (\<^verbatim>\<open>collab\<close>), \<open>Watermark\<close>: what is drawn into frames.  \<open>Metrics\<close>: gauges.
  \<open>Plugins\<close>, \<open>Hotreload\<close>: shared objects.

  \<^bold>\<open>Bounds and fuel.\<close>  Loops over arrays are structural or have measures; no fuel is used.  Five loops that need not end
  are \<open>partial_function\<close>s into options, with theorems on when they return: draining the ring queue while a callback fills it
  (\<open>dq_drain_loop\<close>), the expiry of the peer cache (\<open>dsc_expire_loop\<close>), drawing a line (\<open>draw_line_loop\<close>), drawing a position for a watermark
  (\<open>pixel_index\<close>) and playback with looping (\<open>playback_loop\<close>).  Counters that can wrap are words; theorems that need a counter
  not to wrap say so (sessions of the relay: fewer than \<open>2\<^sup>3\<^sup>2 - 1\<close> calls; serial numbers of the jitter buffer: a window of \<open>2\<^sup>3\<^sup>1\<close>).

  \<^bold>\<open>Not modelled.\<close>  Modules whose operations are floating-point arithmetic (bitrate adaptation beyond the fan-out, estimators, mixers,
  statistics with averages, perceptual hashes); drivers of kernel and vendor libraries (capture, encoders, decoders, display, audio): what
  the core sees of them is a parameter; the C++ services; the clients for KDE, Android and iOS; the HTTP server of the dashboard; command
  lines, menus and the client session; setting up sockets and the Avahi client.
\<close>

end
